(* ===== verification/Prelude.thy ===== *)
theory Prelude
  imports Main "HOL-Library.Word" "HOL-Library.Monad_Syntax"
begin

text \<open>
  Shared vocabulary of the development: machine words, loops with an early return,
  the intrusive-list insertion every ordered queue of the program uses, and the
  generic lemmas the component theories rest on.

  Convention for partiality: a computation of type \<open>'a option\<close> is \<open>None\<close> exactly when
  the C code would have undefined behaviour (an index outside an array, a shift by
  the word width, a division by zero, linking a list entry that is already linked).
  Error codes of the program are ordinary values.
\<close>

unbundle bit_operations_syntax

type_synonym u64 = "64 word"
type_synonym w32 = "32 word"

named_theorems resch_defs \<open>definitions unfolded by the component proofs\<close>
named_theorems resch_consts \<open>the configuration and macro constants\<close>

text \<open>Subtracting twice what may be subtracted once wraps around.\<close>

lemma word_sub_twice:
  fixes r e :: u64
  assumes "e \<le> r" "r - e < e" "e < 2 ^ 63"
  shows "r < r - e - e"
proof -
  have d: "unat (r - e) = unat r - unat e" "unat e \<le> unat r"
    using assms(1) by (simp_all add: unat_sub word_le_nat_alt)
  moreover have "unat e < 2 ^ 63" using assms(3) by (simp add: word_less_nat_alt)
  moreover have "unat (r - e - e) = unat (r - e) + 2 ^ 64 - unat e"
    using assms(2) d by (subst unat_sub_if_size) (auto simp: word_size word_less_nat_alt)
  ultimately show ?thesis using assms(2) by (simp add: word_less_nat_alt)
qed

section \<open>Option-valued computations\<close>

lemma bind_Some_iff [simp]:
  "(Option.bind m f = Some y) \<longleftrightarrow> (\<exists>x. m = Some x \<and> f x = Some y)"
  by (cases m) auto

definition guard_c :: "bool \<Rightarrow> unit option" where
  "guard_c b = (if b then Some () else None)"

lemma guard_c_simps [simp]:
  "guard_c True = Some ()" "guard_c False = None"
  "(guard_c b = Some u) \<longleftrightarrow> b" "(guard_c b = None) \<longleftrightarrow> \<not> b"
  by (auto simp: guard_c_def)

section \<open>Loops with an early return\<close>

text \<open>
  \<open>for_each body is d\<close> runs \<open>body\<close> over the indices \<open>is\<close> in order. The body yields
  \<open>None\<close> (undefined behaviour), \<open>Some None\<close> (fall through to the next iteration) or
  \<open>Some (Some r)\<close> (return \<open>r\<close> from the function); \<open>d\<close> is returned after the loop.
\<close>

fun for_each :: "('i \<Rightarrow> 'r option option) \<Rightarrow> 'i list \<Rightarrow> 'r \<Rightarrow> 'r option" where
  "for_each body [] d = Some d"
| "for_each body (i # is) d =
     (case body i of None \<Rightarrow> None
      | Some None \<Rightarrow> for_each body is d
      | Some (Some r) \<Rightarrow> Some r)"

lemma for_each_append_skip:
  "\<forall>i \<in> set xs. body i = Some None \<Longrightarrow> for_each body (xs @ ys) d = for_each body ys d"
  by (induction xs) auto

lemma for_each_none:
  "\<forall>i \<in> set xs. body i = Some None \<Longrightarrow> for_each body xs d = Some d"
  using for_each_append_skip [of xs body "[]" d] by simp

lemma for_each_cong:
  "\<forall>i \<in> set xs. body i = body' i \<Longrightarrow> for_each body xs d = for_each body' xs d"
  by (induction xs) (auto split: option.splits)

text \<open>A loop whose body is defined everywhere returns the first hit, or the default.\<close>

lemma for_each_find:
  assumes "\<forall>i \<in> set xs. body i = Some (if P i then Some (f i) else None)"
  shows "for_each body xs d = Some (case find P xs of None \<Rightarrow> d | Some i \<Rightarrow> f i)"
  using assms by (induction xs) auto

section \<open>Insertion in front of the first entry a comparison selects\<close>

text \<open>
  The shape of every ordered insertion of the program: walk the list with
  \<open>list_for_each_entry\<close>, link the new entry before the first element the comparison
  selects, otherwise at the tail.
\<close>

fun insert_before :: "('a \<Rightarrow> 'a \<Rightarrow> bool) \<Rightarrow> 'a \<Rightarrow> 'a list \<Rightarrow> 'a list" where
  "insert_before before x [] = [x]"
| "insert_before before x (p # ps) =
     (if before x p then x # p # ps else p # insert_before before x ps)"

lemma set_insert_before [simp]: "set (insert_before before x xs) = insert x (set xs)"
  by (induction xs) auto

lemma length_insert_before [simp]: "length (insert_before before x xs) = Suc (length xs)"
  by (induction xs) auto

lemma distinct_insert_before:
  "distinct (insert_before before x xs) \<longleftrightarrow> x \<notin> set xs \<and> distinct xs"
  by (induction xs) auto

lemma insert_before_nonempty [simp]: "insert_before before x xs \<noteq> []"
  by (cases xs) auto

lemma remove1_insert_before [simp]:
  "x \<notin> set xs \<Longrightarrow> remove1 x (insert_before before x xs) = xs"
  by (induction xs) auto

lemma insert_before_cong:
  "\<forall>p \<in> set xs. before x p = before' x p \<Longrightarrow> insert_before before x xs = insert_before before' x xs"
  by (induction xs) auto

text \<open>The new entry goes behind everything it does not precede: first come, first served.\<close>

lemma insert_before_split:
  "insert_before before x xs =
     takeWhile (\<lambda>p. \<not> before x p) xs @ x # dropWhile (\<lambda>p. \<not> before x p) xs"
  by (induction xs) auto

text \<open>
  The contract of the comparison: a strict weak order. Each ordered queue of the
  program interprets it with its own key.
\<close>

locale ordered_insert =
  fixes before :: "'a \<Rightarrow> 'a \<Rightarrow> bool"
  assumes asym: "before x y \<Longrightarrow> \<not> before y x"
    and neg_trans: "\<not> before x y \<Longrightarrow> \<not> before y z \<Longrightarrow> \<not> before x z"
begin

abbreviation ordered :: "'a list \<Rightarrow> bool" where
  "ordered \<equiv> sorted_wrt (\<lambda>x y. \<not> before y x)"

lemma irrefl: "\<not> before x x"
  using asym by blast

lemma trans: "before x y \<Longrightarrow> before y z \<Longrightarrow> before x z"
  using asym neg_trans by blast

lemma insert_ordered: "ordered xs \<Longrightarrow> ordered (insert_before before x xs)"
proof (induction xs)
  case Nil
  then show ?case by simp
next
  case (Cons p ps)
  show ?case
  proof (cases "before x p")
    case True
    have "\<not> before y x" if "y \<in> set ps" for y
      using that Cons.prems True trans by force
    with True Cons.prems asym show ?thesis by simp
  next
    case False
    with Cons show ?thesis by simp
  qed
qed

lemma remove1_ordered: "ordered xs \<Longrightarrow> ordered (remove1 x xs)"
  by (induction xs) (auto dest: set_remove1_subset [THEN subsetD])

text \<open>Insertion into the front or the back part of an ordered list.\<close>

lemma insert_front:
  assumes "ordered (xs @ ys)" "\<forall>y \<in> set ys. \<not> before y x"
  shows "ordered (insert_before before x xs @ ys)"
  using assms insert_ordered [of xs x] by (auto simp: sorted_wrt_append)

lemma insert_back:
  assumes "ordered (xs @ ys)" "\<forall>y \<in> set xs. \<not> before x y"
  shows "ordered (xs @ insert_before before x ys)"
  using assms insert_ordered [of ys x] by (auto simp: sorted_wrt_append)

lemma hd_first: "ordered (x # xs) \<Longrightarrow> y \<in> set (x # xs) \<Longrightarrow> \<not> before y x"
  using irrefl by auto

lemma last_last: "ordered xs \<Longrightarrow> y \<in> set xs \<Longrightarrow> \<not> before (last xs) y"
  by (induction xs) (auto simp: irrefl split: if_splits)

end

section \<open>Numbers as text\<close>

text \<open>The formats \<open>%u\<close> and, for numbers that are not negative, \<open>%d\<close>.\<close>

fun dec :: "nat \<Rightarrow> string" where
  "dec n = (if n < 10 then [char_of (48 + n)] else dec (n div 10) @ [char_of (48 + n mod 10)])"

declare dec.simps [simp del]

section \<open>Lists and functions\<close>

lemma sorted_wrt_remove1: "sorted_wrt P xs \<Longrightarrow> sorted_wrt P (remove1 x xs)"
  by (induction xs) (auto dest: set_remove1_subset [THEN subsetD])

lemma find_append_none: "\<forall>x \<in> set xs. \<not> P x \<Longrightarrow> find P (xs @ ys) = find P ys"
  by (induction xs) auto

lemma find_Some_upt_iff:
  "find P [0..<n] = Some k \<longleftrightarrow> k < n \<and> P k \<and> (\<forall>j<k. \<not> P j)"
  by (auto simp: find_Some_iff)

lemma find_Some_rev_upt_iff:
  "find P (rev [0..<n]) = Some k \<longleftrightarrow> k < n \<and> P k \<and> (\<forall>j. k < j \<and> j < n \<longrightarrow> \<not> P j)"
proof (induction n)
  case 0
  then show ?case by simp
next
  case (Suc n)
  then show ?case by (auto simp: less_Suc_eq)
qed

text \<open>Sums of unsigned values that fit into the word.\<close>

lemma unat_sum_words:
  fixes f :: "'a \<Rightarrow> 'w :: len word"
  assumes "finite S" "(\<Sum>c\<in>S. unat (f c)) < 2 ^ LENGTH('w)"
  shows "unat (\<Sum>c\<in>S. f c) = (\<Sum>c\<in>S. unat (f c))"
  using assms
proof (induction S rule: finite_induct)
  case (insert x S)
  then have "unat (\<Sum>c\<in>S. f c) = (\<Sum>c\<in>S. unat (f c))" by simp
  with insert show ?case by (simp add: unat_add_lem [THEN iffD1])
qed simp

lemma unat_minus_wraps:
  fixes x y :: "'w :: len word"
  assumes "unat x < unat y"
  shows "unat (x - y) = 2 ^ LENGTH('w) - (unat y - unat x)"
proof -
  have "\<not> y \<le> x" using assms by (simp add: word_le_nat_alt)
  then have "unat (x - y) = unat x + 2 ^ size x - unat y" by (simp add: unat_sub_if_size word_le_nat_alt)
  moreover have "unat y < 2 ^ LENGTH('w)" by simp
  ultimately show ?thesis using assms by (simp add: word_size)
qed

end
