(* ===== verification/Bitops.thy ===== *)
theory Bitops
  imports Prelude
begin

text \<open>
  The bitmap searches of \<open>core/bitops.h\<close>. A bitmap is an array of \<open>unsigned long\<close>,
  modelled as a \<open>u64 list\<close>; \<open>BITS_PER_LONG\<close> is 64. The results are C \<open>int\<close>s, with
  \<open>-1\<close> for "not found".
\<close>

definition BITS_PER_LONG :: nat where
  "BITS_PER_LONG = 64"

declare BITS_PER_LONG_def [simp]

section \<open>Bits of a word and of a bitmap\<close>

text \<open>
  The kernel's \<open>__ffs\<close> and \<open>__fls\<close>: the least and the greatest set bit of a word,
  undefined on 0.
\<close>

definition ffs_long :: "u64 \<Rightarrow> nat option" where
  "ffs_long w = find (bit w) [0..<BITS_PER_LONG]"

definition fls_long :: "u64 \<Rightarrow> nat option" where
  "fls_long w = find (bit w) (rev [0..<BITS_PER_LONG])"

text \<open>\<open>test_bit\<close>, \<open>__set_bit\<close> and \<open>__clear_bit\<close> on an array of longs.\<close>

definition bm_bit :: "u64 list \<Rightarrow> nat \<Rightarrow> bool" where
  "bm_bit b n = (n div 64 < length b \<and> bit (b ! (n div 64)) (n mod 64))"

definition bm_set :: "nat \<Rightarrow> u64 list \<Rightarrow> u64 list" where
  "bm_set n b = b[n div 64 := Bit_Operations.set_bit (n mod 64) (b ! (n div 64))]"

definition bm_clear :: "nat \<Rightarrow> u64 list \<Rightarrow> u64 list" where
  "bm_clear n b = b[n div 64 := Bit_Operations.unset_bit (n mod 64) (b ! (n div 64))]"

text \<open>Reading a word of the array; outside it the access is undefined.\<close>

definition word_at :: "u64 list \<Rightarrow> nat \<Rightarrow> u64 option" where
  "word_at b i = (if i < length b then Some (b ! i) else None)"

section \<open>The searches\<close>

definition resch_ffs :: "u64 list \<Rightarrow> nat \<Rightarrow> int option" where
  "resch_ffs b len =
     for_each (\<lambda>i. do { w \<leftarrow> word_at b i;
                        if w \<noteq> 0
                        then do { k \<leftarrow> ffs_long w; Some (Some (int k + int i * 64)) }
                        else Some None })
       [0..<len] (-1)"

definition resch_ffz :: "u64 list \<Rightarrow> nat \<Rightarrow> int option" where
  "resch_ffz b len =
     for_each (\<lambda>i. do { w \<leftarrow> word_at b i;
                        if NOT w \<noteq> 0
                        then do { k \<leftarrow> ffs_long (NOT w); Some (Some (int k + int i * 64)) }
                        else Some None })
       [0..<len] (-1)"

definition resch_fls :: "u64 list \<Rightarrow> nat \<Rightarrow> int option" where
  "resch_fls b len =
     for_each (\<lambda>i. do { w \<leftarrow> word_at b i;
                        if w \<noteq> 0
                        then do { k \<leftarrow> fls_long w; Some (Some (int k + int i * 64)) }
                        else Some None })
       (rev [0..<len]) (-1)"

definition resch_flz :: "u64 list \<Rightarrow> nat \<Rightarrow> int option" where
  "resch_flz b len =
     for_each (\<lambda>i. do { w \<leftarrow> word_at b i;
                        if NOT w \<noteq> 0
                        then do { k \<leftarrow> fls_long (NOT w); Some (Some (int k + int i * 64)) }
                        else Some None })
       (rev [0..<len]) (-1)"

text \<open>
  The comparisons with \<open>offset\<close> are made in \<open>unsigned long\<close>: a negative \<open>int\<close> offset
  converts to \<open>offset mod 2^64\<close>, and \<open>BITS_TO_LONGS\<close> rounds up modulo \<open>2^64\<close>.
\<close>

definition ulong_of_int :: "int \<Rightarrow> nat" where
  "ulong_of_int x = nat (x mod 2 ^ 64)"

definition bits_to_longs :: "int \<Rightarrow> nat" where
  "bits_to_longs x = ((ulong_of_int x + 63) mod 2 ^ 64) div 64"

text \<open>\<open>(~0UL) << s\<close> and \<open>(~0UL) >> s\<close>: undefined when \<open>s\<close> reaches the width.\<close>

definition mask_shl :: "nat \<Rightarrow> u64 option" where
  "mask_shl s = (if s < 64 then Some (push_bit s (- 1)) else None)"

definition mask_shr :: "nat \<Rightarrow> u64 option" where
  "mask_shr s = (if s < 64 then Some (drop_bit s (- 1)) else None)"

definition resch_fns :: "u64 list \<Rightarrow> int \<Rightarrow> nat \<Rightarrow> int option" where
  "resch_fns b offset len =
     (if bits_to_longs offset > len \<or> offset < 0 then Some (-1)
      else for_each (\<lambda>i. let long_offset = i * 64; off = ulong_of_int offset in
             if long_offset + 64 < off then Some None
             else do {
               tmp \<leftarrow> (if long_offset < off
                       then do { mask \<leftarrow> mask_shl (off - long_offset);
                                 w \<leftarrow> word_at b i; Some (w AND mask) }
                       else word_at b i);
               if tmp \<noteq> 0 then do { k \<leftarrow> ffs_long tmp; Some (Some (int k + int long_offset)) }
               else Some None })
           [0..<len] (-1))"

definition resch_fnz :: "u64 list \<Rightarrow> int \<Rightarrow> nat \<Rightarrow> int option" where
  "resch_fnz b offset len =
     (if bits_to_longs offset > len then Some (-1)
      else for_each (\<lambda>i. let long_offset = i * 64; off = ulong_of_int offset in
             if long_offset + 64 < off then Some None
             else do {
               tmp \<leftarrow> (if long_offset < off
                       then do { mask \<leftarrow> mask_shl (off - long_offset);
                                 w \<leftarrow> word_at b i; Some (w AND mask) }
                       else word_at b i);
               if NOT tmp \<noteq> 0
               then do { k \<leftarrow> ffs_long (NOT tmp); Some (Some (int k + int long_offset)) }
               else Some None })
           [0..<len] (-1))"

definition resch_fps :: "u64 list \<Rightarrow> int \<Rightarrow> nat \<Rightarrow> int option" where
  "resch_fps b offset len =
     (if bits_to_longs offset > len \<or> offset < 0 then Some (-1)
      else for_each (\<lambda>i. let long_offset = i * 64; off = ulong_of_int offset in
             if long_offset > off then Some None
             else do {
               tmp \<leftarrow> (if long_offset + 64 > off
                       then do { mask \<leftarrow> mask_shr (63 - (off - long_offset));
                                 w \<leftarrow> word_at b i; Some (w AND mask) }
                       else word_at b i);
               if tmp \<noteq> 0 then do { k \<leftarrow> fls_long tmp; Some (Some (int k + int long_offset)) }
               else Some None })
           (rev [0..<len]) (-1))"

definition resch_fpz :: "u64 list \<Rightarrow> int \<Rightarrow> nat \<Rightarrow> int option" where
  "resch_fpz b offset len =
     (if bits_to_longs offset > len \<or> offset < 0 then Some (-1)
      else for_each (\<lambda>i. let long_offset = i * 64; off = ulong_of_int offset in
             if long_offset > off then Some None
             else do {
               tmp \<leftarrow> (if long_offset + 64 > off
                       then do { mask \<leftarrow> mask_shr (63 - (off - long_offset));
                                 w \<leftarrow> word_at b i; Some (w AND mask) }
                       else word_at b i);
               if NOT tmp \<noteq> 0
               then do { k \<leftarrow> fls_long (NOT tmp); Some (Some (int k + int long_offset)) }
               else Some None })
           (rev [0..<len]) (-1))"

section \<open>What a search promises\<close>

text \<open>
  \<open>is_first P N r\<close>: \<open>r\<close> is the least index below \<open>N\<close> that satisfies \<open>P\<close>, or \<open>-1\<close>
  when there is none; \<open>is_last\<close> likewise with the greatest.
\<close>

definition is_first :: "(nat \<Rightarrow> bool) \<Rightarrow> nat \<Rightarrow> int \<Rightarrow> bool" where
  "is_first P N r \<longleftrightarrow>
     (r = -1 \<and> (\<forall>n<N. \<not> P n)) \<or>
     (\<exists>n<N. r = int n \<and> P n \<and> (\<forall>m<n. \<not> P m))"

definition is_last :: "(nat \<Rightarrow> bool) \<Rightarrow> nat \<Rightarrow> int \<Rightarrow> bool" where
  "is_last P N r \<longleftrightarrow>
     (r = -1 \<and> (\<forall>n<N. \<not> P n)) \<or>
     (\<exists>n<N. r = int n \<and> P n \<and> (\<forall>m<N. n < m \<longrightarrow> \<not> P m))"

lemma is_first_cong: "(\<And>n. n < N \<Longrightarrow> P n = Q n) \<Longrightarrow> is_first P N r = is_first Q N r"
  by (fastforce simp: is_first_def)

lemma is_last_cong: "(\<And>n. n < N \<Longrightarrow> P n = Q n) \<Longrightarrow> is_last P N r = is_last Q N r"
  by (fastforce simp: is_last_def)

lemma word_nonzero_iff: "(w :: u64) \<noteq> 0 \<longleftrightarrow> (\<exists>n<64. bit w n)"
  by (auto simp: bit_eq_iff dest: bit_imp_le_length)

lemma ffs_long_Some: "ffs_long w = Some k \<longleftrightarrow> k < 64 \<and> bit w k \<and> (\<forall>j<k. \<not> bit w j)"
  by (simp add: ffs_long_def find_Some_upt_iff)

lemma fls_long_Some:
  "fls_long w = Some k \<longleftrightarrow> k < 64 \<and> bit w k \<and> (\<forall>j. k < j \<and> j < 64 \<longrightarrow> \<not> bit w j)"
  by (simp add: fls_long_def find_Some_rev_upt_iff)

lemma ffs_long_nonzero: "w \<noteq> 0 \<Longrightarrow> \<exists>k. ffs_long w = Some k"
proof (cases "ffs_long w")
  case None
  moreover assume "w \<noteq> 0"
  ultimately show ?thesis by (auto simp: ffs_long_def find_None_iff word_nonzero_iff)
qed simp

lemma fls_long_nonzero: "w \<noteq> 0 \<Longrightarrow> \<exists>k. fls_long w = Some k"
proof (cases "fls_long w")
  case None
  moreover assume "w \<noteq> 0"
  ultimately show ?thesis by (auto simp: fls_long_def find_None_iff word_nonzero_iff)
qed simp

text \<open>
  One scan lemma for the four upward searches and one for the downward ones. \<open>T i\<close> is
  the word tested in iteration \<open>i\<close> (the bitmap word, complemented or masked); an
  iteration that is skipped counts as the word 0.
\<close>

definition tested :: "(nat \<Rightarrow> u64) \<Rightarrow> nat \<Rightarrow> bool" where
  "tested T n = bit (T (n div 64)) (n mod 64)"

lemma tested_word: "tested T (64 * i + k) = bit (T i) k" if "k < 64"
  using that by (simp add: tested_def)

lemma first_nonzero_word:
  assumes "\<forall>j<i. T j = 0" and "i < len" and "ffs_long (T i) = Some k"
  shows "is_first (tested T) (64 * len) (int k + int i * 64)"
proof -
  from assms(3) have k: "k < 64" "bit (T i) k" "\<forall>j<k. \<not> bit (T i) j"
    by (auto simp: ffs_long_Some)
  have "\<not> tested T m" if "m < 64 * i + k" for m
  proof (cases "m div 64 < i")
    case True
    with assms(1) show ?thesis by (simp add: tested_def)
  next
    case False
    have m: "m = 64 * (m div 64) + m mod 64" by simp
    from False that k(1) m have "m div 64 = i" by linarith
    moreover from this that m have "m mod 64 < k" by linarith
    ultimately show ?thesis using k(3) by (simp add: tested_def)
  qed
  moreover have "tested T (64 * i + k)" using k by (simp add: tested_word)
  moreover have "64 * i + k < 64 * len" using k(1) assms(2) by linarith
  ultimately show ?thesis unfolding is_first_def by (intro disjI2 exI [of _ "64 * i + k"]) auto
qed

lemma no_nonzero_word: "\<forall>i<len. T i = 0 \<Longrightarrow> n < 64 * len \<Longrightarrow> \<not> tested T n"
  by (simp add: tested_def less_mult_imp_div_less mult.commute)

lemma last_nonzero_word:
  assumes "\<forall>j. i < j \<and> j < len \<longrightarrow> T j = 0" and "i < len" and "fls_long (T i) = Some k"
  shows "is_last (tested T) (64 * len) (int k + int i * 64)"
proof -
  from assms(3) have k: "k < 64" "bit (T i) k" "\<forall>j. k < j \<and> j < 64 \<longrightarrow> \<not> bit (T i) j"
    by (auto simp: fls_long_Some)
  have "\<not> tested T m" if "64 * i + k < m" "m < 64 * len" for m
  proof (cases "i < m div 64")
    case True
    with assms(1) that(2) show ?thesis by (simp add: tested_def less_mult_imp_div_less mult.commute)
  next
    case False
    have m: "m = 64 * (m div 64) + m mod 64" and r: "m mod 64 < 64" by simp_all
    from False that(1) m r have "m div 64 = i" by linarith
    moreover from this that(1) m have "k < m mod 64" by linarith
    ultimately show ?thesis using k(3) r by (simp add: tested_def)
  qed
  moreover have "tested T (64 * i + k)" using k by (simp add: tested_word)
  moreover have "64 * i + k < 64 * len" using k(1) assms(2) by linarith
  ultimately show ?thesis unfolding is_last_def by (intro disjI2 exI [of _ "64 * i + k"]) auto
qed

lemma scan_up:
  assumes body: "\<forall>i<len. body i =
      (if T i \<noteq> 0 then do { k \<leftarrow> ffs_long (T i); Some (Some (int k + int i * 64)) } else Some None)"
  shows "\<exists>r. for_each body [0..<len] (-1) = Some r \<and> is_first (tested T) (64 * len) r"
proof -
  let ?f = "\<lambda>i. int (the (ffs_long (T i))) + int i * 64"
  have "\<forall>i \<in> set [0..<len]. body i = Some (if T i \<noteq> 0 then Some (?f i) else None)"
    using body ffs_long_nonzero by fastforce
  from for_each_find [OF this, of "-1"]
  have loop: "for_each body [0..<len] (-1) =
      Some (case find (\<lambda>i. T i \<noteq> 0) [0..<len] of None \<Rightarrow> -1 | Some i \<Rightarrow> ?f i)" .
  show ?thesis
  proof (cases "find (\<lambda>i. T i \<noteq> 0) [0..<len]")
    case None
    then have "\<forall>i<len. T i = 0" by (auto simp: find_None_iff)
    then have "is_first (tested T) (64 * len) (-1)"
      using no_nonzero_word by (auto simp: is_first_def)
    with loop None show ?thesis by simp
  next
    case (Some i)
    then have i: "i < len" "T i \<noteq> 0" "\<forall>j<i. T j = 0" by (auto simp: find_Some_upt_iff)
    then obtain k where "ffs_long (T i) = Some k" using ffs_long_nonzero by blast
    with i first_nonzero_word [of i T len k] loop Some show ?thesis by simp
  qed
qed

lemma scan_down:
  assumes body: "\<forall>i<len. body i =
      (if T i \<noteq> 0 then do { k \<leftarrow> fls_long (T i); Some (Some (int k + int i * 64)) } else Some None)"
  shows "\<exists>r. for_each body (rev [0..<len]) (-1) = Some r \<and> is_last (tested T) (64 * len) r"
proof -
  let ?f = "\<lambda>i. int (the (fls_long (T i))) + int i * 64"
  have "\<forall>i \<in> set (rev [0..<len]). body i = Some (if T i \<noteq> 0 then Some (?f i) else None)"
    using body fls_long_nonzero by fastforce
  from for_each_find [OF this, of "-1"]
  have loop: "for_each body (rev [0..<len]) (-1) =
      Some (case find (\<lambda>i. T i \<noteq> 0) (rev [0..<len]) of None \<Rightarrow> -1 | Some i \<Rightarrow> ?f i)" .
  show ?thesis
  proof (cases "find (\<lambda>i. T i \<noteq> 0) (rev [0..<len])")
    case None
    then have "\<forall>i<len. T i = 0" by (auto simp: find_None_iff)
    then have "is_last (tested T) (64 * len) (-1)"
      using no_nonzero_word by (auto simp: is_last_def)
    with loop None show ?thesis by simp
  next
    case (Some i)
    then have i: "i < len" "T i \<noteq> 0" "\<forall>j. i < j \<and> j < len \<longrightarrow> T j = 0"
      by (auto simp: find_Some_rev_upt_iff)
    then obtain k where "fls_long (T i) = Some k" using fls_long_nonzero by blast
    with i last_nonzero_word [of i len T k] loop Some show ?thesis by simp
  qed
qed

section \<open>The searches find what they promise\<close>

lemma bm_bit_in_range: "n < 64 * len \<Longrightarrow> len \<le> length b \<Longrightarrow> n div 64 < length b"
  by (simp add: div_less_iff_less_mult mult.commute)

lemma tested_nth:
  "n < 64 * len \<Longrightarrow> len \<le> length b \<Longrightarrow> tested (\<lambda>i. b ! i) n = bm_bit b n"
  by (auto simp: tested_def bm_bit_def less_mult_imp_div_less mult.commute
      dest: less_le_trans)

lemma tested_NOT:
  "n < 64 * len \<Longrightarrow> len \<le> length b \<Longrightarrow> tested (\<lambda>i. NOT (b ! i)) n = (\<not> bm_bit b n)"
  using bm_bit_in_range [of n len b] by (simp add: tested_def bm_bit_def bit_not_iff)

lemma resch_ffs_spec:
  assumes "len \<le> length b"
  shows "\<exists>r. resch_ffs b len = Some r \<and> is_first (bm_bit b) (64 * len) r"
  using scan_up [of len _ "\<lambda>i. b ! i"] assms tested_nth [of _ len b]
  unfolding resch_ffs_def
  by (fastforce simp: word_at_def cong: is_first_cong)

lemma resch_ffz_spec:
  assumes "len \<le> length b"
  shows "\<exists>r. resch_ffz b len = Some r \<and> is_first (\<lambda>n. \<not> bm_bit b n) (64 * len) r"
  using scan_up [of len _ "\<lambda>i. NOT (b ! i)"] assms tested_NOT [of _ len b]
  unfolding resch_ffz_def
  by (fastforce simp: word_at_def cong: is_first_cong)

lemma resch_fls_spec:
  assumes "len \<le> length b"
  shows "\<exists>r. resch_fls b len = Some r \<and> is_last (bm_bit b) (64 * len) r"
  using scan_down [of len _ "\<lambda>i. b ! i"] assms tested_nth [of _ len b]
  unfolding resch_fls_def
  by (fastforce simp: word_at_def cong: is_last_cong)

lemma resch_flz_spec:
  assumes "len \<le> length b"
  shows "\<exists>r. resch_flz b len = Some r \<and> is_last (\<lambda>n. \<not> bm_bit b n) (64 * len) r"
  using scan_down [of len _ "\<lambda>i. NOT (b ! i)"] assms tested_NOT [of _ len b]
  unfolding resch_flz_def
  by (fastforce simp: word_at_def cong: is_last_cong)

subsection \<open>Searches from an offset\<close>

lemma ulong_of_nat: "off < 2 ^ 64 \<Longrightarrow> ulong_of_int (int off) = off"
  by (simp add: ulong_of_int_def)

lemma bits_to_longs_le:
  "off < 2 ^ 64 - 63 \<Longrightarrow> bits_to_longs (int off) \<le> len \<longleftrightarrow> off \<le> 64 * len"
  by (auto simp: bits_to_longs_def ulong_of_nat)

lemma mask_shl_bit: "s < 64 \<Longrightarrow> k < 64 \<Longrightarrow> mask_shl s = Some m \<Longrightarrow> bit m k \<longleftrightarrow> s \<le> k"
  by (auto simp: mask_shl_def bit_not_iff bit_mask_iff)

lemma mask_shr_bit: "s < 64 \<Longrightarrow> k < 64 \<Longrightarrow> mask_shr s = Some m \<Longrightarrow> bit m k \<longleftrightarrow> s + k < 64"
  by (auto simp: mask_shr_def bit_mask_iff)

text \<open>The words \<open>resch_fns\<close> and \<open>resch_fps\<close> test, with a skipped word counting as 0.\<close>

definition fns_word :: "u64 list \<Rightarrow> nat \<Rightarrow> nat \<Rightarrow> u64" where
  "fns_word b off i =
     (if i * 64 + 64 < off then 0
      else if i * 64 < off then b ! i AND push_bit (off - i * 64) (- 1)
      else b ! i)"

definition fps_word :: "u64 list \<Rightarrow> nat \<Rightarrow> nat \<Rightarrow> u64" where
  "fps_word b off i =
     (if i * 64 > off then 0
      else if i * 64 + 64 > off then b ! i AND drop_bit (63 - (off - i * 64)) (- 1)
      else b ! i)"

lemma tested_fns_word:
  assumes "n < 64 * len" "len \<le> length b"
  shows "tested (fns_word b off) n = (off \<le> n \<and> bm_bit b n)"
proof -
  have n: "n = 64 * (n div 64) + n mod 64" "n mod 64 < 64" by simp_all
  have len: "n div 64 < length b" using assms by (rule bm_bit_in_range)
  consider "n div 64 * 64 + 64 < off" | "n div 64 * 64 < off" "off \<le> n div 64 * 64 + 64"
    | "off \<le> n div 64 * 64" by linarith
  then show ?thesis
  proof cases
    case 1
    with n have "\<not> off \<le> n" by linarith
    with 1 show ?thesis by (simp add: tested_def fns_word_def)
  next
    case 2
    have "bit (push_bit (off - n div 64 * 64) (- 1 :: u64)) (n mod 64) \<longleftrightarrow> off - n div 64 * 64 \<le> n mod 64"
      using n(2) by (auto simp: bit_not_iff bit_mask_iff)
    also have "\<dots> \<longleftrightarrow> off \<le> n" using 2 n(1) by linarith
    finally show ?thesis using 2 len by (auto simp: tested_def fns_word_def bm_bit_def bit_and_iff)
  next
    case 3
    with n have "off \<le> n" by linarith
    with 3 len show ?thesis by (simp add: tested_def fns_word_def bm_bit_def)
  qed
qed

lemma tested_fps_word:
  assumes "n < 64 * len" "len \<le> length b"
  shows "tested (fps_word b off) n = (n \<le> off \<and> bm_bit b n)"
proof -
  have n: "n = 64 * (n div 64) + n mod 64" "n mod 64 < 64" by simp_all
  have len: "n div 64 < length b" using assms by (rule bm_bit_in_range)
  consider "off < n div 64 * 64" | "n div 64 * 64 \<le> off" "off < n div 64 * 64 + 64"
    | "n div 64 * 64 + 64 \<le> off" by linarith
  then show ?thesis
  proof cases
    case 1
    with n have "\<not> n \<le> off" by linarith
    with 1 show ?thesis by (simp add: tested_def fps_word_def)
  next
    case 2
    have "bit (drop_bit (63 - (off - n div 64 * 64)) (- 1 :: u64)) (n mod 64) \<longleftrightarrow>
        63 - (off - n div 64 * 64) + n mod 64 < 64"
      using n(2) by (auto simp: bit_mask_iff)
    also have "\<dots> \<longleftrightarrow> n \<le> off" using 2 n by linarith
    finally show ?thesis using 2 len by (auto simp: tested_def fps_word_def bm_bit_def bit_and_iff)
  next
    case 3
    with n have "n \<le> off" by linarith
    with 3 len show ?thesis by (simp add: tested_def fps_word_def bm_bit_def)
  qed
qed

lemma resch_fns_spec:
  assumes len: "len \<le> length b" and off: "off \<le> 64 * len" "off < 2 ^ 64 - 63"
    and aligned: "off = 0 \<or> off mod 64 \<noteq> 0"
  shows "\<exists>r. resch_fns b (int off) len = Some r \<and>
             is_first (\<lambda>n. off \<le> n \<and> bm_bit b n) (64 * len) r"
proof -
  have no_full_shift: "off - i * 64 < 64" if "\<not> i * 64 + 64 < off" "i * 64 < off" for i
  proof -
    have "off - i * 64 \<noteq> 64"
    proof
      assume "off - i * 64 = 64"
      with that have "off = (i + 1) * 64" by simp
      with aligned that show False by simp
    qed
    with that show ?thesis by linarith
  qed
  let ?g = "\<lambda>i. if fns_word b off i \<noteq> 0
                   then do { k \<leftarrow> ffs_long (fns_word b off i); Some (Some (int k + int i * 64)) }
                   else Some None"
  have "resch_fns b (int off) len =
      for_each ?g [0..<len] (-1)"
    using len off bits_to_longs_le [of off len] ulong_of_nat [of off] no_full_shift
    unfolding resch_fns_def
    by (auto intro!: for_each_cong simp: Let_def fns_word_def word_at_def mask_shl_def)
  moreover obtain r where "for_each ?g [0..<len] (-1) = Some r"
      "is_first (tested (fns_word b off)) (64 * len) r"
    using scan_up [where T = "fns_word b off" and len = len and body = ?g] by auto
  ultimately show ?thesis
    using tested_fns_word [of _ len b off] len by (auto cong: is_first_cong)
qed

lemma resch_fps_spec:
  assumes len: "len \<le> length b" and off: "off \<le> 64 * len" "off < 2 ^ 64 - 63"
  shows "\<exists>r. resch_fps b (int off) len = Some r \<and>
             is_last (\<lambda>n. n \<le> off \<and> bm_bit b n) (64 * len) r"
proof -
  let ?g = "\<lambda>i. if fps_word b off i \<noteq> 0
                   then do { k \<leftarrow> fls_long (fps_word b off i); Some (Some (int k + int i * 64)) }
                   else Some None"
  have "resch_fps b (int off) len =
      for_each ?g (rev [0..<len]) (-1)"
    using len off bits_to_longs_le [of off len] ulong_of_nat [of off]
    unfolding resch_fps_def
    by (auto intro!: for_each_cong simp: Let_def fps_word_def word_at_def mask_shr_def)
  moreover obtain r where "for_each ?g (rev [0..<len]) (-1) = Some r"
      "is_last (tested (fps_word b off)) (64 * len) r"
    using scan_down [where T = "fps_word b off" and len = len and body = ?g] by auto
  ultimately show ?thesis
    using tested_fps_word [of _ len b off] len by (auto cong: is_last_cong)
qed

text \<open>
  At a positive multiple of 64 the guard \<open>long_offset + BITS_PER_LONG < offset\<close> lets
  the word just below the offset through, and the mask is shifted by the full width.
\<close>

lemma resch_fns_undefined_spec:
  assumes "len \<le> length b" and off: "off = 64 * Suc i" and "i < len" "off < 2 ^ 64 - 63"
  shows "resch_fns b (int off) len = None"
proof -
  let ?body = "\<lambda>i. let long_offset = i * 64; off = ulong_of_int (int off) in
             if long_offset + 64 < off then Some None
             else do {
               tmp \<leftarrow> (if long_offset < off
                       then do { mask \<leftarrow> mask_shl (off - long_offset);
                                 w \<leftarrow> word_at b i; Some (w AND mask) }
                       else word_at b i);
               if tmp \<noteq> 0 then do { k \<leftarrow> ffs_long tmp; Some (Some (int k + int long_offset)) }
               else Some None }"
  have u: "ulong_of_int (int off) = off"
    using assms(4) by (intro ulong_of_nat) simp
  have split: "[0..<len] = [0..<i] @ i # [Suc i..<len]"
    using \<open>i < len\<close> upt_add_eq_append [of 0 i "len - i"] by (simp add: upt_conv_Cons)
  have skip: "\<forall>j \<in> set [0..<i]. j * 64 + 64 < off" and stop: "off - i * 64 = 64" "i * 64 < off"
    by (auto simp: off)
  have "\<forall>j \<in> set [0..<i]. ?body j = Some None" using skip by (simp add: u Let_def)
  moreover have "?body i = None" using stop by (simp add: u Let_def mask_shl_def)
  ultimately have "for_each ?body [0..<len] (-1) = None"
    by (simp only: split for_each_append_skip) simp
  moreover have "bits_to_longs (int off) \<le> len"
    using bits_to_longs_le [of off len] assms by simp
  ultimately show ?thesis by (simp add: resch_fns_def)
qed

section \<open>Setting and clearing a bit\<close>

lemma length_bm [simp]: "length (bm_set n b) = length b" "length (bm_clear n b) = length b"
  by (simp_all add: bm_set_def bm_clear_def)

lemma bm_bit_set:
  assumes "n div 64 < length b"
  shows "bm_bit (bm_set n b) m \<longleftrightarrow> m = n \<or> bm_bit b m"
proof (cases "m div 64 = n div 64")
  case True
  have "m = n \<longleftrightarrow> m mod 64 = n mod 64" using True by (metis div_mult_mod_eq)
  moreover have "n mod 64 < LENGTH(64)" by simp
  ultimately show ?thesis using assms True
    by (auto simp: bm_bit_def bm_set_def bit_set_bit_iff)
next
  case False
  then show ?thesis by (auto simp: bm_bit_def bm_set_def)
qed

lemma bm_bit_clear:
  "bm_bit (bm_clear n b) m \<longleftrightarrow> m \<noteq> n \<and> bm_bit b m"
proof (cases "m div 64 = n div 64")
  case True
  have "m = n \<longleftrightarrow> m mod 64 = n mod 64" using True by (metis div_mult_mod_eq)
  then show ?thesis using True
    by (auto simp: bm_bit_def bm_clear_def bit_unset_bit_iff)
next
  case False
  then show ?thesis by (auto simp: bm_bit_def bm_clear_def)
qed

lemma bm_bit_replicate_0 [simp]: "\<not> bm_bit (replicate k 0) n"
  by (simp add: bm_bit_def)

section \<open>Properties\<close>

text \<open>\<open>resch_ffz\<close>, the allocator of RESCH IDs and component IDs, returns the least
  clear bit of the bitmap, and \<open>-1\<close> exactly when every bit is set; it never reads
  outside the array.\<close>

theorem resch_ffz_least:
  assumes "len \<le> length b"
  shows "\<exists>r. resch_ffz b len = Some r \<and>
     (if \<exists>n < 64 * len. \<not> bm_bit b n
      then 0 \<le> r \<and> nat r < 64 * len \<and> \<not> bm_bit b (nat r) \<and> (\<forall>m < nat r. bm_bit b m)
      else r = -1)"
  using resch_ffz_spec [OF assms] by (auto simp: is_first_def)

theorem resch_ffz_least_witness:
  "\<exists>r. resch_ffz [7, 0] 2 = Some r \<and>
     (if \<exists>n < 64 * 2. \<not> bm_bit [7, 0] n
      then 0 \<le> r \<and> nat r < 64 * 2 \<and> \<not> bm_bit [7, 0] (nat r) \<and> (\<forall>m < nat r. bm_bit [7, 0] m)
      else r = -1)"
  by (rule resch_ffz_least) simp

text \<open>\<open>resch_fns\<close> finds the least set bit at or after an offset inside the bitmap, except
  when the offset is a positive multiple of 64: the guard lets the word just below such an
  offset through and \<open>~0UL\<close> is shifted by 64, which C leaves undefined.\<close>

theorem resch_fns_next:
  assumes "len \<le> length b" "off \<le> 64 * len" "off < 2 ^ 64 - 63"
  shows "if 0 < off \<and> off mod 64 = 0 then resch_fns b (int off) len = None
    else \<exists>r. resch_fns b (int off) len = Some r \<and>
             is_first (\<lambda>n. off \<le> n \<and> bm_bit b n) (64 * len) r"
proof (cases "0 < off \<and> off mod 64 = 0")
  case True
  then obtain i where "off = 64 * Suc i" by (metis dvd_def mod_0_imp_dvd not0_implies_Suc mult_0_right less_irrefl)
  with True assms show ?thesis using resch_fns_undefined_spec [of len b off i] by auto
next
  case False
  then have "off = 0 \<or> off mod 64 \<noteq> 0" by auto
  with False resch_fns_spec [OF assms] show ?thesis by auto
qed

theorem resch_fns_next_witness:
  "resch_fns [1, 4] (int 64) 2 = None \<and>
   (\<exists>r. resch_fns [1, 4] (int 65) 2 = Some r \<and>
       is_first (\<lambda>n. 65 \<le> n \<and> bm_bit [1, 4] n) (64 * 2) r)"
  using resch_fns_next [of 2 "[1, 4]" 64] resch_fns_next [of 2 "[1, 4]" 65] by simp_all

text \<open>\<open>resch_fps\<close> finds the greatest set bit at or before its offset, at every offset.\<close>

theorem resch_fps_previous:
  assumes "len \<le> length b" "off \<le> 64 * len" "off < 2 ^ 64 - 63"
  shows "\<exists>r. resch_fps b (int off) len = Some r \<and>
             is_last (\<lambda>n. n \<le> off \<and> bm_bit b n) (64 * len) r"
  using assms by (rule resch_fps_spec)

theorem resch_fps_previous_witness:
  "\<exists>r. resch_fps [1, 4] (int 64) 2 = Some r \<and>
       is_last (\<lambda>n. n \<le> 64 \<and> bm_bit [1, 4] n) (64 * 2) r"
  by (rule resch_fps_previous) simp_all

text \<open>\<open>resch_fnz\<close> does not find the next zero bit: masking clears the bits below the
  offset before the word is complemented, so for an offset in 1..63 it answers 0
  whatever the bitmap holds.\<close>

theorem resch_fnz_ignores_bitmap:
  assumes "0 < off" "off < 64" "0 < len" "len \<le> length b"
  shows "resch_fnz b (int off) len = Some 0"
proof -
  obtain l where len: "len = Suc l" using \<open>0 < len\<close> by (cases len) auto
  have u: "ulong_of_int (int off) = off" using assms(2) by (intro ulong_of_nat) simp
  let ?tmp = "b ! 0 AND push_bit off (- 1)"
  have b0: "bit (NOT ?tmp) 0" using assms(1) by (simp add: bit_not_iff bit_or_iff bit_push_bit_iff del: push_bit_minus_one_eq_not_mask)
  then have "ffs_long (NOT ?tmp) = Some 0" by (simp add: ffs_long_Some)
  moreover from b0 have "NOT ?tmp \<noteq> 0" by (metis bit_0_eq bot_apply bot_bool_def)
  moreover have "bits_to_longs (int off) \<le> len"
    using bits_to_longs_le [of off len] assms by simp
  moreover have "[0..<len] = 0 # [1..<len]" using len by (simp add: upt_conv_Cons)
  moreover have "b \<noteq> []" using assms by auto
  ultimately show ?thesis using assms
    by (simp add: resch_fnz_def u Let_def mask_shl_def word_at_def)
qed

theorem resch_fnz_ignores_bitmap_witness: "resch_fnz [- 1, - 1] (int 5) 2 = Some 0"
  by (rule resch_fnz_ignores_bitmap) simp_all

end
