(* ===== verification/Core_State.thy ===== *)
theory Core_State
  imports Bitops
begin

text \<open>
  The state of the RESCH core: the constants of \<open>include/resch-core.h\<close>,
  \<open>include/resch-api.h\<close> and \<open>include/resch-config.h\<close>, the task control block, the
  per-CPU objects of \<open>core/sched.h\<close>, and the kernel services the core calls.

  Pointers to task descriptors are their indices in \<open>resch_task\<close> (the RESCH ID). An
  intrusive \<open>struct list_head\<close> is modelled from both ends: the list as the list of the
  IDs linked on it, the entry embedded in the descriptor as the list it is linked on
  (\<open>None\<close> when \<open>list_empty(&rt->entry)\<close>).
\<close>

section \<open>Constants\<close>

definition NR_RT_CPUS :: nat where "NR_RT_CPUS = 8"
definition NR_RT_TASKS :: nat where "NR_RT_TASKS = 64"
definition NR_RT_COMPONENTS :: nat where "NR_RT_COMPONENTS = 8"
definition MAX_RT_PRIO :: int where "MAX_RT_PRIO = 100"
definition RESCH_PRIO_MAX :: int where "RESCH_PRIO_MAX = MAX_RT_PRIO - 2"
definition RESCH_PRIO_MIN :: int where "RESCH_PRIO_MIN = 1"
definition RESCH_PRIO_BACKGROUND :: int where "RESCH_PRIO_BACKGROUND = RESCH_PRIO_MIN + 1"
definition RESCH_PRIO_KTHREAD :: int where "RESCH_PRIO_KTHREAD = RESCH_PRIO_MAX"
definition RESCH_PRIO_EDF :: int where "RESCH_PRIO_EDF = RESCH_PRIO_BACKGROUND + 1"
definition RESCH_PRIO_EDF_RUN :: int where "RESCH_PRIO_EDF_RUN = RESCH_PRIO_EDF + 1"
definition RESCH_SCHED_FAIR :: int where "RESCH_SCHED_FAIR = 0"
definition RESCH_SCHED_FP :: int where "RESCH_SCHED_FP = 1"
definition RESCH_SCHED_EDF :: int where "RESCH_SCHED_EDF = 2"
definition RESCH_CPU_UNDEFINED :: nat where "RESCH_CPU_UNDEFINED = NR_RT_CPUS"
definition RES_SUCCESS :: int where "RES_SUCCESS = 0"
definition RES_FAULT :: int where "RES_FAULT = 1"
definition RES_ILLEGAL :: int where "RES_ILLEGAL = 2"
definition RES_MISS :: int where "RES_MISS = 3"

text \<open>\<open>BITS_TO_LONGS(MAX_RT_PRIO)\<close> and \<open>BITS_TO_LONGS(NR_RT_TASKS)\<close>, and the number of queues.\<close>

definition RESCH_PRIO_LONG :: nat where "RESCH_PRIO_LONG = bits_to_longs MAX_RT_PRIO"
definition PID_MAP_LONG :: nat where "PID_MAP_LONG = bits_to_longs (int NR_RT_TASKS)"
definition CID_MAP_LONG :: nat where "CID_MAP_LONG = bits_to_longs (int NR_RT_COMPONENTS)"
definition NR_QUEUES :: nat where "NR_QUEUES = nat RESCH_PRIO_MAX"

text \<open>Policy numbers of the Linux scheduler.\<close>

definition SCHED_NORMAL :: int where "SCHED_NORMAL = 0"
definition SCHED_FIFO :: int where "SCHED_FIFO = 1"
definition SCHED_DEADLINE :: int where "SCHED_DEADLINE = 6"
definition RLIM_INFINITY :: u64 where "RLIM_INFINITY = - 1"

lemmas const_defs [resch_consts] =
  NR_RT_CPUS_def NR_RT_TASKS_def NR_RT_COMPONENTS_def MAX_RT_PRIO_def RESCH_PRIO_MAX_def
  RESCH_PRIO_MIN_def RESCH_PRIO_BACKGROUND_def RESCH_PRIO_KTHREAD_def RESCH_PRIO_EDF_def
  RESCH_PRIO_EDF_RUN_def RESCH_SCHED_FAIR_def RESCH_SCHED_FP_def RESCH_SCHED_EDF_def
  RESCH_CPU_UNDEFINED_def RES_SUCCESS_def RES_FAULT_def RES_ILLEGAL_def RES_MISS_def
  SCHED_NORMAL_def SCHED_FIFO_def SCHED_DEADLINE_def NR_QUEUES_def

lemma bitmap_lengths [resch_consts]:
  "RESCH_PRIO_LONG = 2" "PID_MAP_LONG = 1" "CID_MAP_LONG = 1"
  by (simp_all add: RESCH_PRIO_LONG_def PID_MAP_LONG_def CID_MAP_LONG_def bits_to_longs_def
      ulong_of_int_def resch_consts)

section \<open>Descriptors\<close>

type_synonym rid = nat
type_synonym cpu = nat

text \<open>The part of the Linux \<open>struct task_struct\<close> the core reads or writes.\<close>

datatype pstate = TASK_RUNNING | TASK_INTERRUPTIBLE | TASK_UNINTERRUPTIBLE | TASK_STOPPED

record task_struct =
  tstate :: pstate
  need_resched :: bool
  lx_policy :: int
  lx_prio :: int
  cpus_allowed :: "cpu set"
  utime :: u64
  stime :: u64
  prev_utime :: u64
  prev_stime :: u64
  rt_timeout :: u64
  rlim_rttime :: u64
  dl_runtime :: u64
  dl_sched_runtime :: u64
  dl_deadline :: u64
  dl_sched_deadline :: u64
  dl_flags :: u64

text \<open>Server control block; \<open>srv_timer\<close> is the expiry time of its timer.\<close>

record server_struct =
  capacity :: u64
  srv_timer :: u64

datatype sched_class = FAIR_CLASS | FP_CLASS | EDF_CLASS

text \<open>
  The task control block \<open>struct resch_task_struct\<close>. \<open>active_entry\<close> is the queue (CPU,
  index) the descriptor is linked on, \<open>prio_entry\<close> the CPU of the setscheduler thread,
  \<open>component_entry\<close> the component, \<open>replenish_timer\<close> the expiry time when pending.
\<close>

record resch_task_t =
  task :: task_struct
  prio :: int
  cpu_id :: cpu
  cpumask :: "cpu set"
  migratory :: bool
  missed :: bool
  wcet_fixed :: bool
  wcet :: u64
  runtime :: u64
  period :: u64
  deadline :: u64
  deadline_time :: u64
  release_time :: u64
  setsched_prio :: int
  setsched_caller :: rid
  prio_entry :: "cpu option"
  global_entry :: bool
  active_entry :: "(cpu \<times> nat) option"
  sclass :: sched_class
  policy :: int
  accounting :: bool
  xcpu :: bool
  prio_save :: int
  reserve_time :: u64
  budget :: u64
  replenish_timer :: "u64 option"
  server :: "server_struct option"
  component_entry :: "nat option"
  dl_sched_release_time :: u64

text \<open>The priority array, and the local object of a CPU.\<close>

record prio_array =
  nr_tasks :: int
  bitmap :: "u64 list"
  queue :: "nat \<Rightarrow> rid list"

record local_object =
  active :: prio_array
  sched_list :: "rid list"

text \<open>
  The global variables of \<open>core/sched.c\<close> and \<open>core/component.c\<close>, with the kernel's
  \<open>jiffies\<close>. \<open>component_tasks\<close> is the \<open>task_list\<close> of each component,
  \<open>None\<close> while its head has not been initialised.
\<close>

record core =
  resch_task :: "rid \<Rightarrow> resch_task_t"
  lo :: "cpu \<Rightarrow> local_object"
  pid_map :: "u64 list"
  task_list :: "rid list"
  switch_cost :: u64
  release_cost :: u64
  migration_cost :: u64
  cid_map :: "u64 list"
  component_tasks :: "nat \<Rightarrow> rid list option"
  jiffies :: u64

text \<open>
  What the core relies on outside the repository: the tick conversions of the kernel,
  whether \<open>sched_setscheduler\<close> and \<open>sched_setattr\<close> accept a request, whether the
  caller has \<open>CAP_SYS_NICE\<close>, the CPU and the task executing, a clock, whether
  \<open>kmalloc\<close> succeeds and what the memory it returns holds, whether the kernel provides \<open>SCHED_DEADLINE\<close>, and what the
  rest of the system does while the caller is inside \<open>schedule()\<close> or
  \<open>schedule_timeout()\<close>. Of a sleep on a high-resolution timer: how often the sleeper is woken by
  others before its timer or a signal, and whether the timer has expired before the last sleep.
\<close>

record kenv =
  usecs_to_jiffies :: "u64 \<Rightarrow> u64"
  jiffies_to_usecs :: "u64 \<Rightarrow> u64"
  jiffies_to_nsecs :: "u64 \<Rightarrow> u64"
  msecs_to_jiffies :: "u64 \<Rightarrow> u64"
  setscheduler_ok :: "rid \<Rightarrow> int \<Rightarrow> int \<Rightarrow> bool"
  setattr_ok :: "rid \<Rightarrow> u64 \<Rightarrow> u64 \<Rightarrow> u64 \<Rightarrow> bool"
  cap_sys_nice :: bool
  smp_processor_id :: cpu
  current :: rid
  cpu_clock :: u64
  current_task :: task_struct
  kmalloc_ok :: bool
  kmalloc_fill :: u64
  has_sched_deadline :: bool
  schedule :: "core \<Rightarrow> core"
  schedule_timeout :: "u64 \<Rightarrow> core \<Rightarrow> core"
  other_wakeups :: nat
  hrtimer_late :: bool

section \<open>Access and update\<close>

definition upd_task :: "rid \<Rightarrow> (resch_task_t \<Rightarrow> resch_task_t) \<Rightarrow> core \<Rightarrow> core" where
  "upd_task r f s = s\<lparr>resch_task := (resch_task s)(r := f (resch_task s r))\<rparr>"

definition upd_linux :: "rid \<Rightarrow> (task_struct \<Rightarrow> task_struct) \<Rightarrow> core \<Rightarrow> core" where
  "upd_linux r f = upd_task r (\<lambda>t. t\<lparr>task := f (task t)\<rparr>)"

definition upd_active :: "cpu \<Rightarrow> (prio_array \<Rightarrow> prio_array) \<Rightarrow> core \<Rightarrow> core" where
  "upd_active c f s = s\<lparr>lo := (lo s)(c := (lo s c)\<lparr>active := f (active (lo s c))\<rparr>)\<rparr>"

abbreviation tcb :: "core \<Rightarrow> rid \<Rightarrow> resch_task_t" where
  "tcb s r \<equiv> resch_task s r"

abbreviation act :: "core \<Rightarrow> cpu \<Rightarrow> prio_array" where
  "act s c \<equiv> active (lo s c)"

lemma upd_task_simps [simp]:
  "resch_task (upd_task r f s) r' = (if r' = r then f (resch_task s r) else resch_task s r')"
  "lo (upd_task r f s) = lo s"
  "pid_map (upd_task r f s) = pid_map s"
  "task_list (upd_task r f s) = task_list s"
  "switch_cost (upd_task r f s) = switch_cost s"
  "release_cost (upd_task r f s) = release_cost s"
  "migration_cost (upd_task r f s) = migration_cost s"
  "cid_map (upd_task r f s) = cid_map s"
  "component_tasks (upd_task r f s) = component_tasks s"
  "jiffies (upd_task r f s) = jiffies s"
  by (simp_all add: upd_task_def)

lemma upd_linux_simps [simp]:
  "resch_task (upd_linux r g s) r' =
     (if r' = r then (resch_task s r)\<lparr>task := g (task (resch_task s r))\<rparr> else resch_task s r')"
  "lo (upd_linux r g s) = lo s"
  "pid_map (upd_linux r g s) = pid_map s"
  "task_list (upd_linux r g s) = task_list s"
  "switch_cost (upd_linux r g s) = switch_cost s"
  "release_cost (upd_linux r g s) = release_cost s"
  "migration_cost (upd_linux r g s) = migration_cost s"
  "cid_map (upd_linux r g s) = cid_map s"
  "component_tasks (upd_linux r g s) = component_tasks s"
  "jiffies (upd_linux r g s) = jiffies s"
  by (simp_all add: upd_linux_def)

lemma upd_active_simps [simp]:
  "resch_task (upd_active c h s) = resch_task s"
  "active (lo (upd_active c h s) c') = (if c' = c then h (active (lo s c)) else active (lo s c'))"
  "sched_list (lo (upd_active c h s) c') = sched_list (lo s c')"
  "pid_map (upd_active c h s) = pid_map s"
  "task_list (upd_active c h s) = task_list s"
  "switch_cost (upd_active c h s) = switch_cost s"
  "release_cost (upd_active c h s) = release_cost s"
  "migration_cost (upd_active c h s) = migration_cost s"
  "cid_map (upd_active c h s) = cid_map s"
  "component_tasks (upd_active c h s) = component_tasks s"
  "jiffies (upd_active c h s) = jiffies s"
  by (simp_all add: upd_active_def)

text \<open>The macros of \<open>resch-core.h\<close> over a descriptor.\<close>

definition task_is_managed :: "core \<Rightarrow> rid \<Rightarrow> bool" where
  "task_is_managed s r = global_entry (tcb s r)"

definition task_is_active :: "core \<Rightarrow> rid \<Rightarrow> bool" where
  "task_is_active s r = (active_entry (tcb s r) \<noteq> None)"

lemma task_not_active: "\<not> task_is_active s r \<longleftrightarrow> active_entry (tcb s r) = None"
  by (cases "active_entry (tcb s r)") (simp_all add: task_is_active_def)

definition task_is_submitted :: "core \<Rightarrow> rid \<Rightarrow> bool" where
  "task_is_submitted s r = (release_time (tcb s r) > 0)"

definition task_has_reserve :: "core \<Rightarrow> rid \<Rightarrow> bool" where
  "task_has_reserve s r = (reserve_time (tcb s r) > 0)"

definition task_is_accounting :: "core \<Rightarrow> rid \<Rightarrow> bool" where
  "task_is_accounting s r = accounting (tcb s r)"

definition task_is_on_cpu :: "core \<Rightarrow> rid \<Rightarrow> cpu \<Rightarrow> bool" where
  "task_is_on_cpu s r c = (cpu_id (tcb s r) = c)"

text \<open>\<open>resch_task_ptr(rid)\<close>: an element of the array, undefined outside it.\<close>

definition resch_task_ptr :: "int \<Rightarrow> rid option" where
  "resch_task_ptr i = (if 0 \<le> i \<and> i < int NR_RT_TASKS then Some (nat i) else None)"

text \<open>CPU time of the Linux task, as \<open>resch-core.h\<close> reads and resets it without
  \<open>RESCH_PREEMPT_TRACE\<close>.\<close>

definition exec_time :: "kenv \<Rightarrow> core \<Rightarrow> rid \<Rightarrow> u64" where
  "exec_time k s r = usecs_to_jiffies k ((utime (task (tcb s r)) + stime (task (tcb s r))) div 1000)"

definition exec_delta :: "kenv \<Rightarrow> core \<Rightarrow> rid \<Rightarrow> u64" where
  "exec_delta k s r =
     usecs_to_jiffies k (((utime (task (tcb s r)) + stime (task (tcb s r)))
       - (prev_utime (task (tcb s r)) + prev_stime (task (tcb s r)))) div 1000)"

definition reset_exec_time :: "rid \<Rightarrow> core \<Rightarrow> core" where
  "reset_exec_time r =
     upd_linux r (\<lambda>t. t\<lparr>utime := 0, stime := 0, prev_utime := 0, prev_stime := 0\<rparr>)"

text \<open>Kernel calls on a task: waking it, marking it for rescheduling, setting its state.\<close>

definition wake_up_process :: "rid \<Rightarrow> core \<Rightarrow> core" where
  "wake_up_process r = upd_linux r (\<lambda>t. t\<lparr>tstate := TASK_RUNNING\<rparr>)"

definition set_tsk_need_resched :: "rid \<Rightarrow> core \<Rightarrow> core" where
  "set_tsk_need_resched r = upd_linux r (\<lambda>t. t\<lparr>need_resched := True\<rparr>)"

definition set_tstate :: "rid \<Rightarrow> pstate \<Rightarrow> core \<Rightarrow> core" where
  "set_tstate r p = upd_linux r (\<lambda>t. t\<lparr>tstate := p\<rparr>)"

text \<open>\<open>div_round_up\<close> of \<open>core/sched.h\<close>; division by zero traps.\<close>

definition div_round_up :: "u64 \<Rightarrow> u64 \<Rightarrow> u64 option" where
  "div_round_up x y =
     (if y = 0 then None
      else if x mod y = 0 then Some (x div y) else Some (x div y + 1))"

text \<open>\<open>__migrate_task\<close>: pin the Linux task to one CPU.\<close>

definition kernel_migrate_task :: "rid \<Rightarrow> cpu \<Rightarrow> core \<Rightarrow> core" where
  "kernel_migrate_task r c =
     upd_linux r (\<lambda>t. t\<lparr>cpus_allowed := {c}\<rparr>) \<circ> upd_task r (\<lambda>t. t\<lparr>cpumask := {c}\<rparr>)"

section \<open>The data at load time\<close>

text \<open>
  The globals of \<open>core/sched.c\<close> and \<open>core/component.c\<close> when the module is loaded: zero
  apart from the three overheads, which \<open>core/sched.c\<close> initialises in microseconds. List heads are
  shown as empty lists; \<open>sched_init\<close> and \<open>component_init\<close> make them so.
\<close>

definition zero_task :: task_struct where
  "zero_task = \<lparr>tstate = TASK_RUNNING, need_resched = False, lx_policy = SCHED_NORMAL,
     lx_prio = 0, cpus_allowed = {}, utime = 0, stime = 0, prev_utime = 0, prev_stime = 0,
     rt_timeout = 0, rlim_rttime = 0, dl_runtime = 0, dl_sched_runtime = 0, dl_deadline = 0, dl_sched_deadline = 0,
     dl_flags = 0\<rparr>"

definition zero_tcb :: resch_task_t where
  "zero_tcb = \<lparr>task = zero_task, prio = 0, cpu_id = 0, cpumask = {}, migratory = False,
     missed = False, wcet_fixed = False, wcet = 0, runtime = 0, period = 0, deadline = 0,
     deadline_time = 0, release_time = 0, setsched_prio = 0, setsched_caller = 0,
     prio_entry = None, global_entry = False, active_entry = None, sclass = FAIR_CLASS,
     policy = RESCH_SCHED_FAIR, accounting = False, xcpu = False, prio_save = 0,
     reserve_time = 0, budget = 0, replenish_timer = None, server = None,
     component_entry = None, dl_sched_release_time = 0\<rparr>"

definition empty_array :: prio_array where
  "empty_array = \<lparr>nr_tasks = 0, bitmap = replicate RESCH_PRIO_LONG 0, queue = (\<lambda>_. [])\<rparr>"

definition boot :: core where
  "boot = \<lparr>resch_task = (\<lambda>_. zero_tcb), lo = (\<lambda>_. \<lparr>active = empty_array, sched_list = []\<rparr>),
     pid_map = replicate PID_MAP_LONG 0, task_list = [], switch_cost = 20, release_cost = 5,
     migration_cost = 20, cid_map = replicate CID_MAP_LONG 0, component_tasks = (\<lambda>_. None),
     jiffies = 0\<rparr>"

lemmas boot_defs = boot_def empty_array_def zero_tcb_def zero_task_def

end
