(* ===== verification/Active_Queue.thy ===== *)
theory Active_Queue
  imports Core_State
begin

text \<open>
  The per-CPU active queues of \<open>core/sched.c\<close>: the priority array with its bitmap, the
  list operations the scheduling classes perform on it, and the searches
  \<open>active_highest_prio_task\<close>, \<open>active_next_prio_task\<close>, \<open>active_prev_prio_task\<close>,
  \<open>active_prio_task\<close> and \<open>active_number_task\<close>, each shown to compute its entry of the
  flattened list \<open>active_order\<close>.

  A search returns \<open>None\<close> for undefined behaviour, \<open>Some None\<close> for the NULL pointer and
  \<open>Some (Some r)\<close> for the descriptor \<open>r\<close>.
\<close>

section \<open>Indices\<close>

definition prio_index :: "int \<Rightarrow> int" where
  "prio_index p = RESCH_PRIO_MAX - p"

text \<open>\<open>&active->queue[idx]\<close>, undefined outside the array.\<close>

definition queue_slot :: "int \<Rightarrow> nat option" where
  "queue_slot idx = (if 0 \<le> idx \<and> idx < RESCH_PRIO_MAX then Some (nat idx) else None)"

definition queue_index :: "int \<Rightarrow> nat option" where
  "queue_index p = queue_slot (prio_index p)"

lemma queue_slot_Some: "queue_slot x = Some i \<longleftrightarrow> x = int i \<and> i < NR_QUEUES"
  by (auto simp: queue_slot_def resch_consts)

lemma queue_index_Some: "queue_index p = Some i \<longleftrightarrow> prio_index p = int i \<and> i < NR_QUEUES"
  by (simp add: queue_index_def queue_slot_Some)

lemma queue_index_valid: "1 \<le> p \<Longrightarrow> p \<le> 98 \<Longrightarrow> queue_index p = Some (nat (98 - p))"
  by (simp add: queue_index_def queue_slot_def prio_index_def resch_consts)

lemma queue_index_lt: "queue_index p = Some i \<Longrightarrow> i < NR_QUEUES"
  by (simp add: queue_index_Some)

lemma queue_index_edf [simp]:
  "queue_index RESCH_PRIO_EDF = Some 95" "queue_index RESCH_PRIO_BACKGROUND = Some 96"
  "queue_index RESCH_PRIO_EDF_RUN = Some 94"
  by (simp_all add: queue_index_def queue_slot_def prio_index_def resch_consts)

section \<open>List operations on the array\<close>

text \<open>
  \<open>list_add_tail(&rt->active_entry, ...)\<close> makes \<open>xs\<close> the queue and links the entry;
  \<open>list_del_init(&rt->active_entry)\<close> takes the entry off whatever queue holds it, and
  does nothing to an entry that is not linked.
\<close>

definition list_link :: "rid \<Rightarrow> cpu \<Rightarrow> nat \<Rightarrow> rid list \<Rightarrow> core \<Rightarrow> core" where
  "list_link r c i xs s =
     upd_task r (\<lambda>t. t\<lparr>active_entry := Some (c, i)\<rparr>)
       (upd_active c (\<lambda>a. a\<lparr>queue := (queue a)(i := xs)\<rparr>) s)"

definition list_unlink :: "rid \<Rightarrow> core \<Rightarrow> core" where
  "list_unlink r s =
     (case active_entry (tcb s r) of
        None \<Rightarrow> s
      | Some (c, i) \<Rightarrow>
          upd_task r (\<lambda>t. t\<lparr>active_entry := None\<rparr>)
            (upd_active c (\<lambda>a. a\<lparr>queue := (queue a)(i := remove1 r (queue a i))\<rparr>) s))"

text \<open>\<open>__set_bit(idx, active->bitmap); active->nr_tasks++\<close>, and its counterpart.\<close>

definition mark_active :: "cpu \<Rightarrow> nat \<Rightarrow> core \<Rightarrow> core" where
  "mark_active c i =
     upd_active c (\<lambda>a. a\<lparr>bitmap := bm_set i (bitmap a), nr_tasks := nr_tasks a + 1\<rparr>)"

definition mark_inactive :: "cpu \<Rightarrow> nat \<Rightarrow> core \<Rightarrow> core" where
  "mark_inactive c i =
     upd_active c (\<lambda>a. a\<lparr>bitmap := (if queue a i = [] then bm_clear i (bitmap a) else bitmap a),
                        nr_tasks := nr_tasks a - 1\<rparr>)"

section \<open>Searches\<close>

definition active_highest_prio_task :: "cpu \<Rightarrow> core \<Rightarrow> rid option option" where
  "active_highest_prio_task c s = do {
     guard_c (c \<le> NR_RT_CPUS);
     idx \<leftarrow> resch_ffs (bitmap (act s c)) RESCH_PRIO_LONG;
     if idx < 0 then Some None
     else do {
       i \<leftarrow> queue_slot idx;
       Some (case queue (act s c) i of [] \<Rightarrow> None | r # _ \<Rightarrow> Some r)
     }
   }"

text \<open>The entry behind, and in front of, a member of a list; \<open>None\<close> is the list head.\<close>

fun next_in :: "'a \<Rightarrow> 'a list \<Rightarrow> 'a option" where
  "next_in r (x # y # ys) = (if x = r then Some y else next_in r (y # ys))"
| "next_in r _ = None"

fun prev_in :: "'a \<Rightarrow> 'a list \<Rightarrow> 'a option" where
  "prev_in r (x # y # ys) = (if y = r then Some x else prev_in r (y # ys))"
| "prev_in r _ = None"

text \<open>\<open>list_first_entry\<close> and its mirror image do not test for an empty list.\<close>

definition list_first_entry :: "'a list \<Rightarrow> 'a option" where
  "list_first_entry xs = (case xs of [] \<Rightarrow> None | x # _ \<Rightarrow> Some x)"

definition list_last_entry :: "'a list \<Rightarrow> 'a option" where
  "list_last_entry xs = (if xs = [] then None else Some (last xs))"

text \<open>
  An entry that is not linked is its own neighbour. The end of the list is recognised by
  the address of the queue of \<open>(rt->cpu_id, rt->prio)\<close>; the head of any other queue
  would be taken for a descriptor.
\<close>

definition active_next_prio_task :: "rid \<Rightarrow> core \<Rightarrow> rid option option" where
  "active_next_prio_task r s = do {
     let c = cpu_id (tcb s r);
     guard_c (c \<le> NR_RT_CPUS);
     i \<leftarrow> queue_index (prio (tcb s r));
     case active_entry (tcb s r) of
       None \<Rightarrow> Some (Some r)
     | Some (lc, li) \<Rightarrow>
         (case next_in r (queue (act s lc) li) of
            Some x \<Rightarrow> Some (Some x)
          | None \<Rightarrow> do {
              guard_c ((lc, li) = (c, i));
              idx \<leftarrow> resch_fns (bitmap (act s c)) (int i + 1) RESCH_PRIO_LONG;
              if idx < 0 then Some None
              else do {
                j \<leftarrow> queue_slot idx;
                x \<leftarrow> list_first_entry (queue (act s c) j);
                Some (Some x)
              }
            })
   }"

definition active_prev_prio_task :: "rid \<Rightarrow> core \<Rightarrow> rid option option" where
  "active_prev_prio_task r s = do {
     let c = cpu_id (tcb s r);
     guard_c (c \<le> NR_RT_CPUS);
     i \<leftarrow> queue_index (prio (tcb s r));
     case active_entry (tcb s r) of
       None \<Rightarrow> Some (Some r)
     | Some (lc, li) \<Rightarrow>
         (case prev_in r (queue (act s lc) li) of
            Some x \<Rightarrow> Some (Some x)
          | None \<Rightarrow> do {
              guard_c ((lc, li) = (c, i));
              idx \<leftarrow> resch_fps (bitmap (act s c)) (int i - 1) RESCH_PRIO_LONG;
              if idx < 0 then Some None
              else do {
                j \<leftarrow> queue_slot idx;
                x \<leftarrow> list_last_entry (queue (act s c) j);
                Some (Some x)
              }
            })
   }"

definition active_prio_task :: "cpu \<Rightarrow> int \<Rightarrow> core \<Rightarrow> rid option option" where
  "active_prio_task c p s = do {
     guard_c (c \<le> NR_RT_CPUS);
     i \<leftarrow> queue_index p;
     Some (case queue (act s c) i of [] \<Rightarrow> None | r # _ \<Rightarrow> Some r)
   }"

text \<open>
  \<open>active_number_task\<close>: the inner \<open>list_for_each_entry\<close> counts up to \<open>num\<close> and either
  finds its task or returns the count; the outer loop moves to the next set bit.
\<close>

fun number_scan :: "int \<Rightarrow> int \<Rightarrow> rid list \<Rightarrow> int + rid" where
  "number_scan num i [] = Inl i"
| "number_scan num i (r # rs) = (if i + 1 = num then Inr r else number_scan num (i + 1) rs)"

partial_function (option) active_number_loop ::
    "prio_array \<Rightarrow> int \<Rightarrow> int \<Rightarrow> int \<Rightarrow> rid option option" where
  "active_number_loop a num i idx =
     (if i < num then
        Option.bind (resch_fns (bitmap a) idx RESCH_PRIO_LONG) (\<lambda>idx'.
          if idx' < 0 then Some None
          else Option.bind (queue_slot idx') (\<lambda>q.
            case number_scan num i (queue a q) of
              Inr r \<Rightarrow> Some (Some r)
            | Inl i' \<Rightarrow> active_number_loop a num i' (idx' + 1)))
      else Some None)"

definition active_number_task :: "cpu \<Rightarrow> int \<Rightarrow> core \<Rightarrow> rid option option" where
  "active_number_task c num s = do {
     guard_c (c \<le> NR_RT_CPUS);
     active_number_loop (act s c) num 0 0
   }"

text \<open>Without preemption tracing the current task is the head of the active queue.\<close>

definition get_current_task :: "cpu \<Rightarrow> core \<Rightarrow> rid option option" where
  "get_current_task c s = active_highest_prio_task c s"


section \<open>Well-formed queues\<close>

text \<open>
  \<open>pa_wf\<close>: bit \<open>i\<close> of the bitmap is set exactly when queue \<open>i\<close> holds a task, and
  \<open>nr_tasks\<close> counts the tasks. \<open>links_wf\<close>: an entry is linked on a queue exactly when the
  queue contains it, once. \<open>placed\<close>: the descriptor names the queue its entry is on.
\<close>

definition pa_wf :: "prio_array \<Rightarrow> bool" where
  "pa_wf a \<longleftrightarrow>
     length (bitmap a) = RESCH_PRIO_LONG \<and>
     (\<forall>i. bm_bit (bitmap a) i \<longleftrightarrow> queue a i \<noteq> []) \<and>
     (\<forall>i. NR_QUEUES \<le> i \<longrightarrow> queue a i = []) \<and>
     nr_tasks a = (\<Sum>i<NR_QUEUES. int (length (queue a i)))"

definition links_wf :: "core \<Rightarrow> bool" where
  "links_wf s \<longleftrightarrow>
     (\<forall>r c i. r \<in> set (queue (act s c) i) \<longleftrightarrow> active_entry (tcb s r) = Some (c, i)) \<and>
     (\<forall>c i. distinct (queue (act s c) i))"

definition active_wf :: "core \<Rightarrow> bool" where
  "active_wf s \<longleftrightarrow> links_wf s \<and> (\<forall>c. pa_wf (act s c)) \<and>
     (\<forall>c i. queue (act s c) i \<noteq> [] \<longrightarrow> c \<le> NR_RT_CPUS)"

definition placed :: "core \<Rightarrow> rid \<Rightarrow> bool" where
  "placed s r \<longleftrightarrow>
     (\<forall>c i. active_entry (tcb s r) = Some (c, i) \<longrightarrow>
        c = cpu_id (tcb s r) \<and> queue_index (prio (tcb s r)) = Some i)"

text \<open>All the tasks of an array, by decreasing priority and then in queue order.\<close>

definition active_order :: "prio_array \<Rightarrow> rid list" where
  "active_order a = concat (map (queue a) [0..<NR_QUEUES])"

lemma active_wfD:
  assumes "active_wf s"
  shows "r \<in> set (queue (act s c) i) \<longleftrightarrow> active_entry (tcb s r) = Some (c, i)"
    and "distinct (queue (act s c) i)"
    and "pa_wf (act s c)"
    and "active_entry (tcb s r) = Some (c, i) \<Longrightarrow> c \<le> NR_RT_CPUS"
    and "active_entry (tcb s r) = Some (c, i) \<Longrightarrow> i < NR_QUEUES"
proof -
  show mem: "r \<in> set (queue (act s c) i) \<longleftrightarrow> active_entry (tcb s r) = Some (c, i)"
    and "distinct (queue (act s c) i)" and wf: "pa_wf (act s c)"
    using assms by (auto simp: active_wf_def links_wf_def)
  assume "active_entry (tcb s r) = Some (c, i)"
  with mem have "queue (act s c) i \<noteq> []" by auto
  with assms wf show "c \<le> NR_RT_CPUS" "i < NR_QUEUES"
    by (auto simp: active_wf_def pa_wf_def not_less [symmetric])
qed

lemma set_active_order:
  "active_wf s \<Longrightarrow> r \<in> set (active_order (act s c)) \<longleftrightarrow> (\<exists>i. active_entry (tcb s r) = Some (c, i))"
  using active_wfD(1,5) by (auto simp: active_order_def)

lemma distinct_concat_map:
  "distinct is \<Longrightarrow> (\<forall>i \<in> set is. distinct (q i)) \<Longrightarrow>
   (\<forall>i \<in> set is. \<forall>j \<in> set is. i \<noteq> j \<longrightarrow> set (q i) \<inter> set (q j) = {}) \<Longrightarrow>
   distinct (concat (map q is))"
  by (induction "is") auto

lemma distinct_active_order: "active_wf s \<Longrightarrow> distinct (active_order (act s c))"
  unfolding active_order_def
  by (rule distinct_concat_map) (use active_wfD(1,2) in \<open>auto simp: disjoint_iff\<close>)

lemma length_active_order: "pa_wf a \<Longrightarrow> int (length (active_order a)) = nr_tasks a"
  by (simp add: pa_wf_def active_order_def length_concat comp_def
      interv_sum_list_conv_sum_set_nat atLeast0LessThan flip: of_nat_sum)

section \<open>The list operations keep the queues well formed\<close>

lemma sum_length_update:
  "i < (n :: nat) \<Longrightarrow> (\<Sum>j<n. int (length ((q(i := xs)) j))) =
     (\<Sum>j<n. int (length (q j))) - int (length (q i)) + int (length xs)"
proof -
  assume "i < n"
  then have "(\<Sum>j<n. int (length ((q(i := xs)) j))) =
      int (length xs) + (\<Sum>j\<in>{..<n} - {i}. int (length (q j)))"
    by (subst sum.remove [of _ i]) (auto intro!: sum.cong)
  moreover have "(\<Sum>j<n. int (length (q j))) =
      int (length (q i)) + (\<Sum>j\<in>{..<n} - {i}. int (length (q j)))"
    using \<open>i < n\<close> by (subst sum.remove [of _ i]) auto
  ultimately show ?thesis by simp
qed

lemma pa_wf_update:
  assumes "pa_wf a" and "i < NR_QUEUES"
    and "nr_tasks a' = nr_tasks a - int (length (queue a i)) + int (length xs)"
    and "queue a' = (queue a)(i := xs)"
    and "bitmap a' = (if xs = [] then bm_clear i (bitmap a) else bm_set i (bitmap a)) \<or>
         bitmap a' = bitmap a \<and> (xs = []) = (queue a i = [])"
  shows "pa_wf a'"
proof -
  from assms(1,2) have "i div 64 < length (bitmap a)"
    by (auto simp: pa_wf_def resch_consts)
  with assms(5) have "bm_bit (bitmap a') j \<longleftrightarrow> queue a' j \<noteq> []" for j
    using assms(1,4)
    by (cases "j = i") (auto simp: bm_bit_set bm_bit_clear pa_wf_def split: if_splits)
  moreover have "length (bitmap a') = length (bitmap a)"
    using assms(5) by (auto simp: length_bm split: if_splits)
  ultimately show ?thesis
    using assms(1-4) sum_length_update [of i NR_QUEUES "queue a" xs]
    by (auto simp: pa_wf_def)
qed

lemma link_wf:
  assumes wf: "active_wf s" and "active_entry (tcb s r) = None"
    and "c \<le> NR_RT_CPUS" "i < NR_QUEUES"
    and xs: "set xs = insert r (set (queue (act s c) i))" "distinct xs"
  shows "active_wf (mark_active c i (list_link r c i xs s))" (is "active_wf ?s'")
proof -
  let ?q = "queue (act s c) i"
  note mem = active_wfD(1) [OF wf] and wfs = active_wfD(2,3) [OF wf]
  have "r \<notin> set ?q" using assms(2) mem by simp
  with xs wfs(1) have "length xs = Suc (length ?q)"
    by (metis card_insert_disjoint distinct_card finite_set)
  with xs have "pa_wf (act ?s' c)"
    by (intro pa_wf_update [OF wfs(2) [of c], where i = i and xs = xs])
       (auto simp: mark_active_def list_link_def assms(4))
  moreover have "act ?s' c' = act s c'" if "c' \<noteq> c" for c'
    using that by (simp add: mark_active_def list_link_def)
  ultimately have "pa_wf (act ?s' c')" for c'
    using wfs(2) by metis
  moreover have "queue (act ?s' c') i' = (if c' = c \<and> i' = i then xs else queue (act s c') i')" for c' i'
    by (simp add: mark_active_def list_link_def)
  moreover have "active_entry (tcb ?s' r') = (if r' = r then Some (c, i) else active_entry (tcb s r'))" for r'
    by (simp add: mark_active_def list_link_def)
  ultimately show ?thesis
    using assms(2,3) xs mem wfs(1) wf by (auto simp: active_wf_def links_wf_def)
qed

lemma unlink_wf:
  assumes wf: "active_wf s" and "active_entry (tcb s r) = Some (c, i)"
  shows "active_wf (mark_inactive c i (list_unlink r s))" (is "active_wf ?s'")
proof -
  let ?q = "queue (act s c) i"
  note mem = active_wfD(1) [OF wf] and wfs = active_wfD(2,3) [OF wf]
  have r: "r \<in> set ?q" using assms(2) mem by simp
  have "length ?q = Suc (length (remove1 r ?q))"
    using length_pos_if_in_set [OF r] by (simp add: length_remove1 r)
  moreover have "?q \<noteq> []" using r by auto
  ultimately have "pa_wf (act ?s' c)"
    using active_wfD(5) [OF assms]
    by (intro pa_wf_update [OF wfs(2) [of c], where i = i and xs = "remove1 r ?q"])
       (auto simp: mark_inactive_def list_unlink_def assms(2))
  moreover have "act ?s' c' = act s c'" if "c' \<noteq> c" for c'
    using that by (simp add: mark_inactive_def list_unlink_def assms(2))
  ultimately have "pa_wf (act ?s' c')" for c'
    using wfs(2) by metis
  moreover have "queue (act ?s' c') i' =
      (if c' = c \<and> i' = i then remove1 r ?q else queue (act s c') i')" for c' i'
    by (simp add: mark_inactive_def list_unlink_def assms(2))
  moreover have "active_entry (tcb ?s' r') = (if r' = r then None else active_entry (tcb s r'))" for r'
    by (simp add: mark_inactive_def list_unlink_def assms(2))
  ultimately show ?thesis
    using mem wfs(1) wf assms(2) active_wfD(4) [OF assms]
    by (auto simp: active_wf_def links_wf_def set_remove1_eq split: if_splits)
qed


section \<open>The searches compute the flattened order\<close>

definition tail_order :: "prio_array \<Rightarrow> nat \<Rightarrow> rid list" where
  "tail_order a j = concat (map (queue a) [j..<NR_QUEUES])"

definition head_order :: "prio_array \<Rightarrow> nat \<Rightarrow> rid list" where
  "head_order a j = concat (map (queue a) [0..<j])"

definition head_option :: "'a list \<Rightarrow> 'a option" where
  "head_option xs = (case xs of [] \<Rightarrow> None | x # _ \<Rightarrow> Some x)"

lemma head_option_simps [simp]:
  "head_option [] = None" "head_option (x # xs) = Some x"
  "xs \<noteq> [] \<Longrightarrow> head_option (xs @ ys) = head_option xs"
  by (auto simp: head_option_def split: list.splits)

lemma order_split:
  "i < NR_QUEUES \<Longrightarrow> active_order a = head_order a i @ queue a i @ tail_order a (Suc i)"
  by (simp add: active_order_def head_order_def tail_order_def)
     (metis concat.simps(2) concat_append le0 less_imp_le_nat list.simps(9) map_append
        upt_conv_Cons upt_add_eq_append le_add_diff_inverse)

lemma tail_order_0: "active_order a = tail_order a 0"
  by (simp add: active_order_def tail_order_def)

lemma tail_order_skip:
  "j \<le> n \<Longrightarrow> n \<le> NR_QUEUES \<Longrightarrow> (\<forall>i. j \<le> i \<and> i < n \<longrightarrow> queue a i = []) \<Longrightarrow>
   tail_order a j = tail_order a n"
proof -
  assume "j \<le> n" "n \<le> NR_QUEUES" and empty: "\<forall>i. j \<le> i \<and> i < n \<longrightarrow> queue a i = []"
  then have "[j..<NR_QUEUES] = [j..<n] @ [n..<NR_QUEUES]"
    by (metis le_add_diff_inverse upt_add_eq_append)
  moreover have "concat (map (queue a) [j..<n]) = []"
    using empty by simp
  ultimately show ?thesis by (simp add: tail_order_def)
qed

lemma head_order_skip:
  "n \<le> j \<Longrightarrow> (\<forall>i. n \<le> i \<and> i < j \<longrightarrow> queue a i = []) \<Longrightarrow> head_order a j = head_order a n"
proof -
  assume "n \<le> j" and empty: "\<forall>i. n \<le> i \<and> i < j \<longrightarrow> queue a i = []"
  then have "[0..<j] = [0..<n] @ [n..<j]"
    by (metis le_add_diff_inverse upt_add_eq_append le0)
  moreover have "concat (map (queue a) [n..<j]) = []"
    using empty by simp
  ultimately show ?thesis by (simp add: head_order_def)
qed

lemma first_from:
  assumes wf: "pa_wf a" and r: "is_first (\<lambda>n. j \<le> n \<and> bm_bit (bitmap a) n) 128 r"
    and j: "j \<le> NR_QUEUES"
  obtains (none) "r = -1" "tail_order a j = []"
  | (hit) n where "r = int n" "n < NR_QUEUES" "j \<le> n" "queue a n \<noteq> []"
      "tail_order a j = queue a n @ tail_order a (Suc n)"
proof -
  have bits: "bm_bit (bitmap a) n \<longleftrightarrow> queue a n \<noteq> []" for n
    using wf by (simp add: pa_wf_def)
  from r consider (A) "r = -1" "\<forall>n<128. \<not> (j \<le> n \<and> queue a n \<noteq> [])"
    | (B) n where "r = int n" "n < 128" "j \<le> n" "queue a n \<noteq> []"
        "\<forall>m<n. j \<le> m \<longrightarrow> queue a m = []"
    by (auto simp: is_first_def bits)
  then show thesis
  proof cases
    case A
    then show thesis
      by (intro none) (auto simp: tail_order_def resch_consts)
  next
    case B
    have "n < NR_QUEUES"
      using B(4) wf by (meson not_less pa_wf_def)
    moreover from this have "tail_order a j = tail_order a n"
      using B(3,5) by (intro tail_order_skip) auto
    ultimately show thesis
      using B by (intro hit [of n]) (simp_all add: tail_order_def upt_conv_Cons)
  qed
qed

lemma last_upto:
  assumes wf: "pa_wf a" and r: "is_last (\<lambda>n. n \<le> j \<and> bm_bit (bitmap a) n) 128 r"
  obtains (none) "r = -1" "head_order a (Suc j) = []"
  | (hit) n where "r = int n" "n < NR_QUEUES" "queue a n \<noteq> []"
      "head_order a (Suc j) = head_order a n @ queue a n"
proof -
  have bits: "bm_bit (bitmap a) n \<longleftrightarrow> queue a n \<noteq> []" for n
    using wf by (simp add: pa_wf_def)
  have small: "queue a n \<noteq> [] \<Longrightarrow> n < NR_QUEUES" for n
    using wf by (meson not_less pa_wf_def)
  then have small': "queue a n \<noteq> [] \<Longrightarrow> n < 128" for n
    by (fastforce simp: resch_consts)
  from r consider (A) "r = -1" "\<forall>n<128. \<not> (n \<le> j \<and> queue a n \<noteq> [])"
    | (B) n where "r = int n" "n < 128" "n \<le> j" "queue a n \<noteq> []"
        "\<forall>m<128. n < m \<longrightarrow> m \<le> j \<longrightarrow> queue a m = []"
    by (auto simp: is_last_def bits)
  then show thesis
  proof cases
    case A
    then show thesis
      using small' by (intro none) (fastforce simp: head_order_def less_Suc_eq_le)+
  next
    case B
    have "head_order a (Suc j) = head_order a (Suc n)"
      using B(3,5) small' by (intro head_order_skip) (auto simp: Suc_le_eq less_Suc_eq_le)
    then show thesis
      using B small by (intro hit [of n]) (simp_all add: head_order_def)
  qed
qed

lemma next_in_skip: "r \<notin> set xs \<Longrightarrow> next_in r (xs @ ys) = next_in r ys"
proof (induction xs)
  case (Cons x xs)
  then show ?case by (cases "xs @ ys") auto
qed simp

lemma next_in_append:
  "distinct xs \<Longrightarrow> r \<in> set xs \<Longrightarrow>
   next_in r (xs @ ys) = (case next_in r xs of Some y \<Rightarrow> Some y | None \<Rightarrow> head_option ys)"
proof (induction xs)
  case (Cons x xs)
  then show ?case by (cases xs; cases ys) (auto split: option.splits)
qed simp

lemma prev_in_Cons_None [simp]: "r \<notin> set ys \<Longrightarrow> prev_in r (x # ys) = None"
proof (induction ys arbitrary: x)
  case (Cons y ys)
  then show ?case by auto
qed simp

lemma prev_in_Cons_Some: "r \<in> set ys \<Longrightarrow> prev_in r (x # ys) \<noteq> None"
proof (induction ys arbitrary: x)
  case (Cons y ys)
  then show ?case by auto
qed simp

lemma prev_in_None [simp]: "r \<notin> set ys \<Longrightarrow> prev_in r ys = None"
  by (cases ys) auto

lemma prev_in_skip: "r \<notin> set ys \<Longrightarrow> prev_in r (xs @ ys) = prev_in r xs"
proof (induction xs)
  case (Cons x xs)
  then show ?case by (cases xs; cases ys) auto
qed simp

lemma prev_in_append:
  "r \<notin> set xs \<Longrightarrow> distinct ys \<Longrightarrow> r \<in> set ys \<Longrightarrow>
   prev_in r (xs @ ys) = (case prev_in r ys of Some y \<Rightarrow> Some y | None \<Rightarrow> list_last_entry xs)"
proof (induction xs)
  case Nil
  then show ?case by (simp add: list_last_entry_def split: option.splits)
next
  case (Cons x xs)
  then show ?case
    using prev_in_Cons_Some [of r "tl ys" "hd ys"]
    by (cases xs; cases ys) (auto simp: list_last_entry_def split: option.splits)
qed


lemma active_highest_spec:
  assumes "active_wf s" "c \<le> NR_RT_CPUS"
  shows "active_highest_prio_task c s = Some (head_option (active_order (act s c)))"
proof -
  let ?a = "act s c"
  have wf: "pa_wf ?a" using assms(1) by (rule active_wfD)
  then have "RESCH_PRIO_LONG \<le> length (bitmap ?a)" by (simp add: pa_wf_def)
  from resch_ffs_spec [OF this] obtain r
    where r: "resch_ffs (bitmap ?a) RESCH_PRIO_LONG = Some r" "is_first (bm_bit (bitmap ?a)) 128 r"
    by (auto simp: bitmap_lengths)
  have "is_first (\<lambda>n. 0 \<le> n \<and> bm_bit (bitmap ?a) n) 128 r" using r(2) by simp
  from wf this le0 show ?thesis
  proof (cases rule: first_from)
    case none
    with r assms(2) show ?thesis
      by (simp add: active_highest_prio_task_def tail_order_0)
  next
    case (hit n)
    then have "head_option (active_order ?a) = head_option (queue ?a n)"
      by (simp add: tail_order_0)
    with hit r assms(2) show ?thesis
      by (auto simp: active_highest_prio_task_def queue_slot_def resch_consts head_option_def)
  qed
qed

lemma queue_index_edge: "queue_index p = Some 63 \<longleftrightarrow> p = 35"
  by (auto simp: queue_index_def queue_slot_def prio_index_def resch_consts)

lemma list_first_entry_head: "list_first_entry xs = head_option xs"
  by (simp add: list_first_entry_def head_option_def)

lemma active_order_at:
  assumes "active_wf s" "active_entry (tcb s r) = Some (c, i)"
  shows "active_order (act s c) =
      head_order (act s c) i @ queue (act s c) i @ tail_order (act s c) (Suc i)"
    and "r \<in> set (queue (act s c) i)" and "distinct (queue (act s c) i)"
    and "r \<notin> set (head_order (act s c) i)" and "r \<notin> set (tail_order (act s c) (Suc i))"
proof -
  show split: "active_order (act s c) =
      head_order (act s c) i @ queue (act s c) i @ tail_order (act s c) (Suc i)"
    by (rule order_split) (rule active_wfD(5) [OF assms])
  show r: "r \<in> set (queue (act s c) i)" and "distinct (queue (act s c) i)"
    using active_wfD(1,2) [OF assms(1)] assms(2) by auto
  have "distinct (active_order (act s c))" by (rule distinct_active_order [OF assms(1)])
  with r show "r \<notin> set (head_order (act s c) i)" "r \<notin> set (tail_order (act s c) (Suc i))"
    unfolding split by auto
qed

lemma active_next_spec:
  assumes wf: "active_wf s" and e: "active_entry (tcb s r) = Some (c, i)" and pl: "placed s r"
    and ok: "prio (tcb s r) \<noteq> 35 \<or> next_in r (queue (act s c) i) \<noteq> None"
  shows "active_next_prio_task r s = Some (next_in r (active_order (act s c)))"
proof -
  let ?a = "act s c"
  have a: "pa_wf ?a" using wf by (rule active_wfD)
  have place: "cpu_id (tcb s r) = c" "queue_index (prio (tcb s r)) = Some i" "c \<le> NR_RT_CPUS"
    "i < NR_QUEUES"
    using pl e active_wfD(4,5) [OF wf e] by (auto simp: placed_def)
  note at = active_order_at [OF wf e]
  have order: "next_in r (active_order ?a) =
      (case next_in r (queue ?a i) of Some y \<Rightarrow> Some y | None \<Rightarrow> head_option (tail_order ?a (Suc i)))"
    using at by (simp add: next_in_skip next_in_append)
  show ?thesis
  proof (cases "next_in r (queue ?a i)")
    case (Some x)
    with order place e show ?thesis by (simp add: active_next_prio_task_def)
  next
    case None
    with ok place(2) queue_index_edge have "i \<noteq> 63" by auto
    with place(4) have "Suc i mod 64 \<noteq> 0"
      unfolding resch_consts by presburger
    with a place(4) obtain n where
      n: "resch_fns (bitmap ?a) (int i + 1) RESCH_PRIO_LONG = Some n"
         "is_first (\<lambda>n. Suc i \<le> n \<and> bm_bit (bitmap ?a) n) 128 n"
      using resch_fns_spec [of RESCH_PRIO_LONG "bitmap ?a" "Suc i"]
      by (auto simp: pa_wf_def resch_consts add.commute)
    from place(4) have "Suc i \<le> NR_QUEUES" by simp
    with a n(2) show ?thesis
    proof (cases rule: first_from)
      case none
      with order None place e n(1) show ?thesis by (simp add: active_next_prio_task_def)
    next
      case (hit m)
      with order None place e n(1) show ?thesis
        by (auto simp: active_next_prio_task_def queue_slot_def resch_consts
            list_first_entry_head head_option_def split: list.splits)
    qed
  qed
qed

lemma active_next_undefined_spec:
  assumes wf: "active_wf s" and e: "active_entry (tcb s r) = Some (c, i)" and pl: "placed s r"
    and "prio (tcb s r) = 35" "next_in r (queue (act s c) i) = None"
  shows "active_next_prio_task r s = None"
proof -
  have place: "cpu_id (tcb s r) = c" "queue_index (prio (tcb s r)) = Some i"
    using pl e by (auto simp: placed_def)
  with assms(4) queue_index_edge [of 35] have "i = 63" by simp
  moreover have "resch_fns (bitmap (act s c)) (int 64) RESCH_PRIO_LONG = None"
    using active_wfD(3) [OF wf]
    by (intro resch_fns_undefined_spec [where i = 0]) (auto simp: pa_wf_def resch_consts)
  ultimately show ?thesis
    using assms place by (simp add: active_next_prio_task_def)
qed

lemma active_prev_spec:
  assumes wf: "active_wf s" and e: "active_entry (tcb s r) = Some (c, i)" and pl: "placed s r"
  shows "active_prev_prio_task r s = Some (prev_in r (active_order (act s c)))"
proof -
  let ?a = "act s c"
  have a: "pa_wf ?a" using wf by (rule active_wfD)
  have place: "cpu_id (tcb s r) = c" "queue_index (prio (tcb s r)) = Some i" "c \<le> NR_RT_CPUS"
    "i < NR_QUEUES"
    using pl e active_wfD(4,5) [OF wf e] by (auto simp: placed_def)
  note at = active_order_at [OF wf e]
  have "prev_in r (active_order ?a) = prev_in r (head_order ?a i @ queue ?a i)"
    using at prev_in_skip [of r "tail_order ?a (Suc i)" "head_order ?a i @ queue ?a i"] by simp
  with at have order: "prev_in r (active_order ?a) =
      (case prev_in r (queue ?a i) of Some y \<Rightarrow> Some y | None \<Rightarrow> list_last_entry (head_order ?a i))"
    by (simp add: prev_in_append)
  show ?thesis
  proof (cases "prev_in r (queue ?a i)")
    case (Some x)
    with order place e show ?thesis by (simp add: active_prev_prio_task_def)
  next
    case None
    show ?thesis
    proof (cases i)
      case 0
      with order None place e show ?thesis
        by (simp add: active_prev_prio_task_def resch_fps_def head_order_def list_last_entry_def)
    next
      case (Suc j)
      with a place(4) obtain n where
        n: "resch_fps (bitmap ?a) (int i - 1) RESCH_PRIO_LONG = Some n"
           "is_last (\<lambda>n. n \<le> j \<and> bm_bit (bitmap ?a) n) 128 n"
        using resch_fps_spec [of RESCH_PRIO_LONG "bitmap ?a" j]
        by (auto simp: pa_wf_def resch_consts)
      from a n(2) show ?thesis
      proof (cases rule: last_upto)
        case none
        with order None place e n(1) Suc show ?thesis
          by (simp add: active_prev_prio_task_def list_last_entry_def)
      next
        case (hit m)
        with order None place e n(1) Suc show ?thesis
          by (simp add: active_prev_prio_task_def list_last_entry_def queue_slot_def resch_consts)
      qed
    qed
  qed
qed


text \<open>The \<open>num\<close>-th entry of a list, counted from 1.\<close>

definition entry_at :: "'a list \<Rightarrow> int \<Rightarrow> 'a option" where
  "entry_at xs n = (if 1 \<le> n \<and> n \<le> int (length xs) then Some (xs ! nat (n - 1)) else None)"

lemma entry_at_append:
  "1 \<le> n \<Longrightarrow> entry_at (xs @ ys) n =
     (if n \<le> int (length xs) then entry_at xs n else entry_at ys (n - int (length xs)))"
  by (auto simp: entry_at_def nth_append nat_diff_distrib' nat_less_iff)

lemma entry_at_Cons: "n \<noteq> 1 \<Longrightarrow> 1 \<le> n \<Longrightarrow> entry_at (x # xs) n = entry_at xs (n - 1)"
  by (auto simp: entry_at_def nth_Cons' nat_less_iff nat_diff_distrib' numeral_2_eq_2)

lemma number_scan_spec:
  "i < num \<Longrightarrow> number_scan num i xs =
     (case entry_at xs (num - i) of Some r \<Rightarrow> Inr r | None \<Rightarrow> Inl (i + int (length xs)))"
proof (induction xs arbitrary: i)
  case Nil
  then show ?case by (simp add: entry_at_def)
next
  case (Cons x xs)
  show ?case
  proof (cases "i + 1 = num")
    case True
    then show ?thesis by (simp add: entry_at_def)
  next
    case False
    with Cons show ?thesis
      by (auto simp: entry_at_Cons algebra_simps split: option.splits)
  qed
qed

lemma number_loop_spec:
  assumes "pa_wf a" "idx \<le> NR_QUEUES" "i < num" "idx \<noteq> 64"
    and "queue a 63 = [] \<or> 64 \<le> idx \<or> num - i \<le> int (length (concat (map (queue a) [idx..<64])))"
  shows "active_number_loop a num i (int idx) = Some (entry_at (tail_order a idx) (num - i))"
  using assms
proof (induction "NR_QUEUES - idx" arbitrary: idx i rule: less_induct)
  case less
  have "idx = 0 \<or> idx mod 64 \<noteq> 0"
    using less.prems(2,4) unfolding resch_consts by presburger
  with less.prems obtain n where
    n: "resch_fns (bitmap a) (int idx) RESCH_PRIO_LONG = Some n"
       "is_first (\<lambda>n. idx \<le> n \<and> bm_bit (bitmap a) n) 128 n"
    using resch_fns_spec [of RESCH_PRIO_LONG "bitmap a" idx]
    by (auto simp: pa_wf_def resch_consts)
  from \<open>pa_wf a\<close> n(2) less.prems(2) show ?case
  proof (cases rule: first_from)
    case none
    with n(1) show ?thesis
      by (subst active_number_loop.simps) (simp add: entry_at_def \<open>i < num\<close>)
  next
    case (hit m)
    let ?q = "queue a m"
    have step: "active_number_loop a num i (int idx) =
      (case number_scan num i ?q of Inr r \<Rightarrow> Some (Some r)
       | Inl i' \<Rightarrow> active_number_loop a num i' (int (Suc m)))"
      using hit n(1) less.prems(3)
      by (subst active_number_loop.simps)
         (simp add: queue_slot_def resch_consts add.commute split: sum.splits)
    show ?thesis
    proof (cases "num - i \<le> int (length ?q)")
      case True
      with less.prems(3) hit show ?thesis
        by (simp add: step number_scan_spec entry_at_append) (simp add: entry_at_def)
    next
      case False
      have upto: "m < 64 \<Longrightarrow> length (concat (map (queue a) [idx..<64])) =
          length ?q + length (concat (map (queue a) [Suc m..<64]))"
      proof -
        assume "m < 64"
        with hit(3) have "[idx..<64] = [idx..<m] @ m # [Suc m..<64]"
          by (metis upt_add_eq_append upt_conv_Cons le_add_diff_inverse less_imp_le_nat)
        moreover have "length (concat (map (queue a) [idx..<m])) = 0"
          using n(2) hit(1,2) \<open>pa_wf a\<close>
          by (auto simp: is_first_def pa_wf_def)
        ultimately show ?thesis by simp
      qed
      have "Suc m \<noteq> 64"
      proof
        assume "Suc m = 64"
        with hit less.prems(5) upto False show False by auto
      qed
      moreover have "queue a 63 = [] \<or> 64 \<le> Suc m \<or>
          num - (i + int (length ?q)) \<le> int (length (concat (map (queue a) [Suc m..<64])))"
        using less.prems(5) hit(3) upto by fastforce
      ultimately have "active_number_loop a num (i + int (length ?q)) (int (Suc m)) =
          Some (entry_at (tail_order a (Suc m)) (num - (i + int (length ?q))))"
        using False hit less.prems(1) by (intro less.hyps) auto
      with False less.prems(3) hit show ?thesis
        by (simp add: step number_scan_spec entry_at_append)
           (simp add: entry_at_def algebra_simps)
    qed
  qed
qed

lemma active_number_spec:
  assumes wf: "active_wf s" and c: "c \<le> NR_RT_CPUS"
    and ok: "queue (act s c) 63 = [] \<or> num \<le> int (length (head_order (act s c) 64))"
  shows "active_number_task c num s = Some (entry_at (active_order (act s c)) num)"
proof (cases "0 < num")
  case True
  with number_loop_spec [of "act s c" 0 0 num] active_wfD(3) [OF wf] ok c show ?thesis
    by (auto simp: active_number_task_def tail_order_0 head_order_def)
next
  case False
  then show ?thesis
    using c by (simp add: active_number_task_def active_number_loop.simps entry_at_def)
qed


section \<open>Properties\<close>

lemma boot_active_wf: "active_wf boot"
  by (auto simp: active_wf_def links_wf_def pa_wf_def boot_defs bm_bit_replicate_0)

text \<open>A state with tasks 3 (priority 38) and 5 (priority 35) active on CPU 0.\<close>

definition two_tasks :: core where
  "two_tasks =
     mark_active 0 63 (list_link 5 0 63 [5] (mark_active 0 60 (list_link 3 0 60 [3]
       (upd_task 3 (\<lambda>t. t\<lparr>prio := 38\<rparr>) (upd_task 5 (\<lambda>t. t\<lparr>prio := 35\<rparr>) boot)))))"

lemma two_tasks_wf: "active_wf two_tasks"
  unfolding two_tasks_def
proof (intro link_wf)
  show "active_wf (upd_task 3 (\<lambda>t. t\<lparr>prio := 38\<rparr>) (upd_task 5 (\<lambda>t. t\<lparr>prio := 35\<rparr>) boot))"
    using boot_active_wf by (simp add: active_wf_def links_wf_def)
qed (simp_all add: mark_active_def list_link_def boot_defs resch_consts)

lemma two_tasks_facts:
  "active_entry (tcb two_tasks 3) = Some (0, 60)" "active_entry (tcb two_tasks 5) = Some (0, 63)"
  "placed two_tasks 3" "placed two_tasks 5" "prio (tcb two_tasks 3) = 38" "prio (tcb two_tasks 5) = 35"
  "queue (act two_tasks 0) 60 = [3]" "queue (act two_tasks 0) 63 = [5]"
  by (simp_all add: two_tasks_def mark_active_def list_link_def placed_def boot_defs
      queue_index_def queue_slot_def prio_index_def resch_consts)

lemma head_of_order:
  assumes wf: "active_wf s" and h: "head_option (active_order (act s c)) = Some r"
    and e: "active_entry (tcb s r') = Some (c, j)"
  shows "\<exists>i\<le>j. active_entry (tcb s r) = Some (c, i)"
proof -
  note at = active_order_at [OF wf e]
  show ?thesis
  proof (cases "head_order (act s c) j = []")
    case True
    with at(1) h at(2) have "r \<in> set (queue (act s c) j)"
      by (cases "queue (act s c) j") auto
    then show ?thesis using active_wfD(1) [OF wf] by blast
  next
    case False
    with at(1) h have "r \<in> set (head_order (act s c) j)"
      by (cases "head_order (act s c) j") auto
    then show ?thesis
      using active_wfD(1) [OF wf] by (fastforce simp: head_order_def)
  qed
qed

text \<open>C9: on well-formed queues \<open>active_highest_prio_task\<close> returns the first task of the
  CPU's priority-then-FIFO order, NULL exactly when nothing is active there, and no
  active task of that CPU sits in a queue of higher priority.\<close>

theorem active_highest_is_head:
  assumes "active_wf s" "c \<le> NR_RT_CPUS"
  shows "active_highest_prio_task c s = Some (head_option (active_order (act s c))) \<and>
    (active_highest_prio_task c s = Some None \<longleftrightarrow> (\<forall>r i. active_entry (tcb s r) \<noteq> Some (c, i))) \<and>
    (\<forall>r r' j. active_highest_prio_task c s = Some (Some r) \<longrightarrow>
       active_entry (tcb s r') = Some (c, j) \<longrightarrow>
       (\<exists>i\<le>j. active_entry (tcb s r) = Some (c, i)))"
proof -
  have "head_option (active_order (act s c)) = None \<longleftrightarrow>
      (\<forall>r i. active_entry (tcb s r) \<noteq> Some (c, i))"
    using set_active_order [OF assms(1)]
    by (metis head_option_def list.case_eq_if option.distinct(1) set_empty equals0I empty_iff)
  with assms active_highest_spec head_of_order [OF assms(1)] show ?thesis by auto
qed

theorem active_highest_is_head_witness:
  "active_highest_prio_task 0 two_tasks = Some (head_option (active_order (act two_tasks 0)))"
  using active_highest_is_head [OF two_tasks_wf, of 0] by simp

text \<open>\<open>active_next_prio_task\<close> returns the successor of an active task in the CPU's
  priority-then-FIFO order, NULL for the last one, with one exception: for the last task of
  the queue of priority 35 it asks \<open>resch_fns\<close> for offset 64 and runs into an undefined
  shift.\<close>

theorem active_next_is_successor:
  assumes "active_wf s" "active_entry (tcb s r) = Some (c, i)" "placed s r"
  shows "active_next_prio_task r s =
    (if prio (tcb s r) = 35 \<and> next_in r (queue (act s c) i) = None then None
     else Some (next_in r (active_order (act s c))))"
  using active_next_spec [OF assms] active_next_undefined_spec [OF assms] by auto

theorem active_next_is_successor_witness:
  "active_next_prio_task 3 two_tasks = Some (next_in 3 (active_order (act two_tasks 0))) \<and>
   active_next_prio_task 5 two_tasks = None"
  using active_next_is_successor [OF two_tasks_wf two_tasks_facts(1,3)]
    active_next_is_successor [OF two_tasks_wf two_tasks_facts(2,4)]
  by (simp_all add: two_tasks_facts)

text \<open>\<open>active_prev_prio_task\<close> returns the predecessor of an active task in the CPU's
  priority-then-FIFO order, NULL for the first one, at every priority.\<close>

theorem active_prev_is_predecessor:
  assumes "active_wf s" "active_entry (tcb s r) = Some (c, i)" "placed s r"
  shows "active_prev_prio_task r s = Some (prev_in r (active_order (act s c)))"
  using assms by (rule active_prev_spec)

theorem active_prev_is_predecessor_witness:
  "active_prev_prio_task 5 two_tasks = Some (prev_in 5 (active_order (act two_tasks 0)))"
  by (rule active_prev_is_predecessor [OF two_tasks_wf]) (simp_all add: two_tasks_facts)

text \<open>\<open>active_number_task\<close> terminates and returns the \<open>num\<close>-th task of the CPU's
  priority-then-FIFO order, NULL when there are fewer, unless the search has to go past a
  nonempty queue of priority 35.\<close>

theorem active_number_is_nth:
  assumes "active_wf s" "c \<le> NR_RT_CPUS"
    and "queue (act s c) 63 = [] \<or> num \<le> int (length (head_order (act s c) 64))"
  shows "active_number_task c num s = Some (entry_at (active_order (act s c)) num)"
  using assms by (rule active_number_spec)

theorem active_number_is_nth_witness:
  "active_number_task 0 1 two_tasks = Some (entry_at (active_order (act two_tasks 0)) 1)"
proof (rule active_number_is_nth [OF two_tasks_wf])
  have "3 \<in> set (head_order (act two_tasks 0) 64)"
    using two_tasks_facts(7) by (auto simp: head_order_def intro!: bexI [of _ 60])
  from length_pos_if_in_set [OF this]
  show "queue (act two_tasks 0) 63 = [] \<or> 1 \<le> int (length (head_order (act two_tasks 0) 64))"
    by linarith
qed (simp add: resch_consts)

end
