(* ===== verification/Class_Queues.thy ===== *)
theory Class_Queues
  imports Active_Queue
begin

text \<open>
  The queue operations of the scheduling classes: \<open>enqueue_task\<close>, \<open>dequeue_task\<close> and
  \<open>set_scheduler\<close> of \<open>core/sched_fair.c\<close>, \<open>core/sched_fp.c\<close>, \<open>core/sched_edf.c\<close> and
  \<open>core/sched_deadline.c\<close>, and the dispatch through \<open>rt->class\<close>. The core includes
  \<open>sched_deadline.c\<close> when the kernel provides \<open>SCHED_DEADLINE\<close> and \<open>sched_edf.c\<close>
  otherwise; its operations are prefixed \<open>dl_\<close> here.

  The locale \<open>sched_queue\<close> is the contract the rest of the core expects of a class that
  keeps its tasks in the active queues; the FP, EDF and deadline classes interpret it.
\<close>

section \<open>The fair class\<close>

definition kernel_setscheduler :: "rid \<Rightarrow> int \<Rightarrow> int \<Rightarrow> core \<Rightarrow> core" where
  "kernel_setscheduler r pol p = upd_linux r (\<lambda>t. t\<lparr>lx_policy := pol, lx_prio := p\<rparr>)"

definition fair_set_scheduler :: "kenv \<Rightarrow> rid \<Rightarrow> int \<Rightarrow> core \<Rightarrow> bool \<times> core" where
  "fair_set_scheduler k r p s =
     (if \<not> setscheduler_ok k r SCHED_NORMAL p then (False, s)
      else (True, upd_task r (\<lambda>t. t\<lparr>prio := p\<rparr>) (kernel_setscheduler r SCHED_NORMAL p s)))"

definition fair_enqueue_task :: "rid \<Rightarrow> int \<Rightarrow> cpu \<Rightarrow> core \<Rightarrow> core option" where
  "fair_enqueue_task r p c s = Some s"

definition fair_dequeue_task :: "rid \<Rightarrow> int \<Rightarrow> cpu \<Rightarrow> core \<Rightarrow> core option" where
  "fair_dequeue_task r p c s = Some s"

section \<open>The fixed-priority class\<close>

definition fp_set_scheduler :: "kenv \<Rightarrow> rid \<Rightarrow> int \<Rightarrow> core \<Rightarrow> bool \<times> core" where
  "fp_set_scheduler k r p s =
     (if \<not> setscheduler_ok k r SCHED_FIFO p then (False, s)
      else (True, upd_task r (\<lambda>t. t\<lparr>prio := p\<rparr>) (kernel_setscheduler r SCHED_FIFO p s)))"

text \<open>\<open>list_add_tail\<close> on an entry that is still linked corrupts both lists.\<close>

definition fp_enqueue_task :: "rid \<Rightarrow> int \<Rightarrow> cpu \<Rightarrow> core \<Rightarrow> core option" where
  "fp_enqueue_task r p c s = do {
     guard_c (c \<le> NR_RT_CPUS);
     i \<leftarrow> queue_index p;
     guard_c (active_entry (tcb s r) = None);
     Some (mark_active c i (list_link r c i (queue (act s c) i @ [r]) s))
   }"

definition fp_dequeue_task :: "rid \<Rightarrow> int \<Rightarrow> cpu \<Rightarrow> core \<Rightarrow> core option" where
  "fp_dequeue_task r p c s = do {
     guard_c (c \<le> NR_RT_CPUS);
     i \<leftarrow> queue_index p;
     Some (mark_inactive c i (list_unlink r s))
   }"

section \<open>The EDF class\<close>

definition edf_set_scheduler :: "kenv \<Rightarrow> rid \<Rightarrow> int \<Rightarrow> core \<Rightarrow> bool \<times> core" where
  "edf_set_scheduler k r p s =
     (if \<not> setscheduler_ok k r SCHED_FIFO p then (False, s)
      else (True, upd_task r (\<lambda>t. t\<lparr>prio := p\<rparr>) (kernel_setscheduler r SCHED_FIFO p s)))"

definition earlier_deadline :: "core \<Rightarrow> rid \<Rightarrow> rid \<Rightarrow> bool" where
  "earlier_deadline s x y = (deadline_time (tcb s x) < deadline_time (tcb s y))"

definition edf_enqueue_task :: "rid \<Rightarrow> int \<Rightarrow> cpu \<Rightarrow> core \<Rightarrow> core option" where
  "edf_enqueue_task r p c s = do {
     guard_c (c \<le> NR_RT_CPUS);
     i \<leftarrow> queue_index p;
     guard_c (active_entry (tcb s r) = None);
     let q = queue (act s c) i;
     let q' = (if q = [] then [r] else insert_before (earlier_deadline s) r q);
     Some (upd_task r (\<lambda>t. t\<lparr>prio := p\<rparr>) (mark_active c i (list_link r c i q' s)))
   }"

definition edf_dequeue_task :: "rid \<Rightarrow> int \<Rightarrow> cpu \<Rightarrow> core \<Rightarrow> core option" where
  "edf_dequeue_task r p c s = do {
     guard_c (c \<le> NR_RT_CPUS);
     i \<leftarrow> queue_index p;
     Some (mark_inactive c i (list_unlink r s))
   }"

section \<open>The EDF class over SCHED_DEADLINE\<close>

definition SCHED_FCBS :: u64 where "SCHED_FCBS = 0x20000000"
definition SCHED_EXHAUSTIVE :: u64 where "SCHED_EXHAUSTIVE = 0x08000000"

definition use_fcbs :: "rid \<Rightarrow> core \<Rightarrow> core" where
  "use_fcbs r = upd_linux r
     (\<lambda>t. t\<lparr>dl_flags := (dl_flags t AND NOT SCHED_EXHAUSTIVE) OR SCHED_FCBS\<rparr>)"

definition use_exhaustive :: "rid \<Rightarrow> core \<Rightarrow> core" where
  "use_exhaustive r = upd_linux r
     (\<lambda>t. t\<lparr>dl_flags := (dl_flags t OR SCHED_EXHAUSTIVE) AND NOT SCHED_FCBS\<rparr>)"

text \<open>
  The runtime is held in microseconds and the deadline and the period in jiffies; the
  request to \<open>sched_setattr\<close> is in nanoseconds. \<open>rt->task\<close> is set by \<open>api_init\<close> and never cleared, and has been
  dereferenced before the code compares it with \<open>NULL\<close>: the comparison is not modelled.
\<close>

definition dl_set_scheduler :: "kenv \<Rightarrow> rid \<Rightarrow> int \<Rightarrow> core \<Rightarrow> bool \<times> core" where
  "dl_set_scheduler k r p s =
     (let s1 = upd_task r (\<lambda>t. t\<lparr>dl_sched_release_time := 0\<rparr>) s;
          sa_deadline = jiffies_to_nsecs k (deadline (tcb s1 r));
          sa_period = jiffies_to_nsecs k (period (tcb s1 r));
          sa_runtime = runtime (tcb s1 r) * 1000
      in if \<not> setattr_ok k r sa_deadline sa_period sa_runtime then (False, s1)
         else let s2 = upd_task r (\<lambda>t. t\<lparr>prio := p\<rparr>) (kernel_setscheduler r SCHED_DEADLINE 0 s1)
              in (True, if task_has_reserve s2 r then use_fcbs r s2 else use_exhaustive r s2))"

definition dl_enqueue_task :: "rid \<Rightarrow> int \<Rightarrow> cpu \<Rightarrow> core \<Rightarrow> core option" where
  "dl_enqueue_task r p c s = do {
     guard_c (c \<le> NR_RT_CPUS);
     i \<leftarrow> queue_index p;
     guard_c (active_entry (tcb s r) = None);
     let q = queue (act s c) i;
     let q' = (if q = [] then [r] else insert_before (earlier_deadline s) r q);
     Some (mark_active c i (list_link r c i q' s))
   }"

definition dl_dequeue_task :: "rid \<Rightarrow> int \<Rightarrow> cpu \<Rightarrow> core \<Rightarrow> core option" where
  "dl_dequeue_task r p c s = do {
     guard_c (c \<le> NR_RT_CPUS);
     i \<leftarrow> queue_index p;
     Some (mark_inactive c i (list_unlink r s))
   }"

section \<open>Dispatch through \<open>rt->class\<close>\<close>

definition class_set_scheduler :: "kenv \<Rightarrow> rid \<Rightarrow> int \<Rightarrow> core \<Rightarrow> bool \<times> core" where
  "class_set_scheduler k r p s =
     (case sclass (tcb s r) of
        FAIR_CLASS \<Rightarrow> fair_set_scheduler k r p s
      | FP_CLASS \<Rightarrow> fp_set_scheduler k r p s
      | EDF_CLASS \<Rightarrow> if has_sched_deadline k then dl_set_scheduler k r p s
                      else edf_set_scheduler k r p s)"

definition enqueue_task :: "kenv \<Rightarrow> rid \<Rightarrow> int \<Rightarrow> cpu \<Rightarrow> core \<Rightarrow> core option" where
  "enqueue_task k r p c s =
     (case sclass (tcb s r) of
        FAIR_CLASS \<Rightarrow> fair_enqueue_task r p c s
      | FP_CLASS \<Rightarrow> fp_enqueue_task r p c s
      | EDF_CLASS \<Rightarrow> if has_sched_deadline k then dl_enqueue_task r p c s
                      else edf_enqueue_task r p c s)"

definition dequeue_task :: "kenv \<Rightarrow> rid \<Rightarrow> int \<Rightarrow> cpu \<Rightarrow> core \<Rightarrow> core option" where
  "dequeue_task k r p c s =
     (case sclass (tcb s r) of
        FAIR_CLASS \<Rightarrow> fair_dequeue_task r p c s
      | FP_CLASS \<Rightarrow> fp_dequeue_task r p c s
      | EDF_CLASS \<Rightarrow> if has_sched_deadline k then dl_dequeue_task r p c s
                      else edf_dequeue_task r p c s)"


section \<open>What the queue operations leave alone\<close>

definition queue_frame :: "rid \<Rightarrow> core \<Rightarrow> core \<Rightarrow> bool" where
  "queue_frame r s s' \<longleftrightarrow>
     (\<forall>r'. r' \<noteq> r \<longrightarrow> tcb s' r' = tcb s r') \<and>
     (tcb s' r)\<lparr>active_entry := None, prio := 0\<rparr> = (tcb s r)\<lparr>active_entry := None, prio := 0\<rparr> \<and>
     (\<forall>c. sched_list (lo s' c) = sched_list (lo s c)) \<and>
     pid_map s' = pid_map s \<and> task_list s' = task_list s \<and> switch_cost s' = switch_cost s \<and>
     release_cost s' = release_cost s \<and> migration_cost s' = migration_cost s \<and>
     cid_map s' = cid_map s \<and> component_tasks s' = component_tasks s \<and> jiffies s' = jiffies s"

lemma frame_field:
  assumes "queue_frame r s s'" and "\<And>t e p. f (t\<lparr>active_entry := e, prio := p\<rparr>) = f t"
  shows "f (tcb s' x) = f (tcb s x)"
proof (cases "x = r")
  case True
  have "f ((tcb s' r)\<lparr>active_entry := None, prio := 0\<rparr>) = f ((tcb s r)\<lparr>active_entry := None, prio := 0\<rparr>)"
    using assms(1) by (simp add: queue_frame_def)
  with True assms(2) show ?thesis by simp
qed (use assms(1) in \<open>simp add: queue_frame_def\<close>)

lemma queue_frame_tcb:
  assumes "queue_frame r s s'"
  shows "r' \<noteq> r \<Longrightarrow> tcb s' r' = tcb s r'"
    and "cpu_id (tcb s' x) = cpu_id (tcb s x)" "sclass (tcb s' x) = sclass (tcb s x)"
    and "policy (tcb s' x) = policy (tcb s x)" "global_entry (tcb s' x) = global_entry (tcb s x)"
    and "deadline_time (tcb s' x) = deadline_time (tcb s x)" "task (tcb s' x) = task (tcb s x)"
    and "reserve_time (tcb s' x) = reserve_time (tcb s x)" "accounting (tcb s' x) = accounting (tcb s x)"
    and "release_time (tcb s' x) = release_time (tcb s x)" "deadline (tcb s' x) = deadline (tcb s x)"
    and "server (tcb s' x) = server (tcb s x)" "period (tcb s' x) = period (tcb s x)"
    and "budget (tcb s' x) = budget (tcb s x)"
    and "component_entry (tcb s' x) = component_entry (tcb s x)"
  using assms by (simp add: queue_frame_def) (rule frame_field [OF assms]; simp)+

lemma queue_frame_core:
  assumes "queue_frame r s s'"
  shows "task_list s' = task_list s" "pid_map s' = pid_map s" "jiffies s' = jiffies s"
    and "cid_map s' = cid_map s" "component_tasks s' = component_tasks s"
    and "sched_list (lo s' c) = sched_list (lo s c)"
  using assms by (simp_all add: queue_frame_def)

lemma queue_frame_refl [simp]: "queue_frame r s s"
  by (simp add: queue_frame_def)

lemma queue_frame_trans: "queue_frame r s s' \<Longrightarrow> queue_frame r s' s'' \<Longrightarrow> queue_frame r s s''"
  by (simp add: queue_frame_def)

lemma queue_frame_basic [simp]:
  "queue_frame r s (mark_active c i s)" "queue_frame r s (mark_inactive c i s)"
  "queue_frame r s (list_link r c i xs s)" "queue_frame r s (list_unlink r s)"
  "queue_frame r s (upd_task r (\<lambda>t. t\<lparr>prio := p\<rparr>) s)"
  by (simp_all add: queue_frame_def mark_active_def mark_inactive_def list_link_def
      list_unlink_def split: option.splits)

text \<open>Two states with the same arrays and links have the same well-formedness.\<close>

definition same_queues :: "core \<Rightarrow> core \<Rightarrow> bool" where
  "same_queues s s' \<longleftrightarrow> (\<forall>c. act s' c = act s c) \<and>
     (\<forall>r. active_entry (tcb s' r) = active_entry (tcb s r))"

lemma same_queues_wf: "same_queues s s' \<Longrightarrow> active_wf s' = active_wf s"
  by (simp add: same_queues_def active_wf_def links_wf_def)

lemma same_queues_upd_task:
  "(\<And>t. active_entry (f t) = active_entry t) \<Longrightarrow> same_queues s (upd_task r f s)"
  by (simp add: same_queues_def)

lemma same_queues_upd_linux [simp]: "same_queues s (upd_linux r f s)"
  by (simp add: same_queues_def)

lemma same_queues_trans: "same_queues s s' \<Longrightarrow> same_queues s' s'' \<Longrightarrow> same_queues s s''"
  by (simp add: same_queues_def)

section \<open>The contract of a class that uses the active queues\<close>

locale sched_queue =
  fixes enq deq :: "rid \<Rightarrow> int \<Rightarrow> cpu \<Rightarrow> core \<Rightarrow> core option"
  assumes enq_defined:
      "c \<le> NR_RT_CPUS \<Longrightarrow> queue_index p = Some i \<Longrightarrow> active_entry (tcb s r) = None \<Longrightarrow>
       \<exists>s'. enq r p c s = Some s'"
    and enq_wf: "active_wf s \<Longrightarrow> enq r p c s = Some s' \<Longrightarrow> active_wf s'"
    and enq_entry: "enq r p c s = Some s' \<Longrightarrow>
       queue_index p \<noteq> None \<and> active_entry (tcb s' r) = map_option (Pair c) (queue_index p)"
    and enq_prio: "enq r p c s = Some s' \<Longrightarrow> prio (tcb s' r) \<in> {prio (tcb s r), p}"
    and enq_frame: "enq r p c s = Some s' \<Longrightarrow> queue_frame r s s'"
    and deq_defined: "c \<le> NR_RT_CPUS \<Longrightarrow> queue_index p = Some i \<Longrightarrow> \<exists>s'. deq r p c s = Some s'"
    and deq_wf: "active_wf s \<Longrightarrow> active_entry (tcb s r) = Some (c, i) \<Longrightarrow>
       queue_index p = Some i \<Longrightarrow> deq r p c s = Some s' \<Longrightarrow> active_wf s'"
    and deq_entry: "deq r p c s = Some s' \<Longrightarrow> active_entry (tcb s' r) = None"
    and deq_prio: "deq r p c s = Some s' \<Longrightarrow> prio (tcb s' r) = prio (tcb s r)"
    and deq_frame: "deq r p c s = Some s' \<Longrightarrow> queue_frame r s s'"
begin

text \<open>Taking a task off its queue and putting it on another: \<open>f\<close> is what the code does in
  between, such as writing \<open>rt->cpu_id\<close>.\<close>

lemma move:
  assumes wf: "active_wf s" and e: "active_entry (tcb s r) = Some (c, i)"
    and p: "queue_index p = Some i" and p': "queue_index p' = Some j" and c': "c' \<le> NR_RT_CPUS"
    and f: "\<And>s. same_queues s (f s)"
  obtains s1 s2 where "deq r p c s = Some s1" "enq r p' c' (f s1) = Some s2"
    "active_wf s2" "active_entry (tcb s2 r) = Some (c', j)"
    "queue_frame r s s1" "queue_frame r (f s1) s2" "prio (tcb s1 r) = prio (tcb s r)"
    "prio (tcb s2 r) \<in> {prio (tcb (f s1) r), p'}"
proof -
  have "c \<le> NR_RT_CPUS" by (rule active_wfD(4) [OF wf e])
  with p deq_defined obtain s1 where s1: "deq r p c s = Some s1" by blast
  have "active_wf s1" by (rule deq_wf [OF wf e p s1])
  then have wf1: "active_wf (f s1)" using f same_queues_wf by blast
  have "active_entry (tcb (f s1) r) = None"
    using f deq_entry [OF s1] by (simp add: same_queues_def)
  with c' p' enq_defined obtain s2 where s2: "enq r p' c' (f s1) = Some s2" by blast
  from that [OF s1 s2 enq_wf [OF wf1 s2] _ deq_frame [OF s1] enq_frame [OF s2] deq_prio [OF s1]
      enq_prio [OF s2]] show thesis
    using p' enq_entry [OF s2] by simp
qed

end

section \<open>The classes keep the contract\<close>

lemma earlier_upd [simp]: "earlier_deadline s r p \<longleftrightarrow> deadline_time (tcb s r) < deadline_time (tcb s p)"
  by (simp add: earlier_deadline_def)

interpretation edf_order: ordered_insert "earlier_deadline s" for s
  by unfold_locales auto

lemma same_queues_prio [simp]: "same_queues s (upd_task r (\<lambda>t. t\<lparr>prio := p\<rparr>) s)"
  by (simp add: same_queues_def)

lemma link_entry [simp]:
  "active_entry (tcb (mark_active c i (list_link r c i xs s)) r) = Some (c, i)"
  "prio (tcb (mark_active c i (list_link r c i xs s)) r) = prio (tcb s r)"
  by (simp_all add: mark_active_def list_link_def)

lemma unlink_entry [simp]:
  "active_entry (tcb (mark_inactive c i (list_unlink r s)) r) = None"
  "prio (tcb (mark_inactive c i (list_unlink r s)) r) = prio (tcb s r)"
  by (simp_all add: mark_inactive_def list_unlink_def split: option.splits)

lemma edf_insert_is_insert_before:
  "(if q = [] then [r] else insert_before b r q) = insert_before b r q"
  by simp

lemma append_link_wf:
  assumes "active_wf s" "active_entry (tcb s r) = None" "c \<le> NR_RT_CPUS" "i < NR_QUEUES"
  shows "active_wf (mark_active c i (list_link r c i (queue (act s c) i @ [r]) s))"
  using assms active_wfD(1,2) [OF assms(1)] by (intro link_wf) auto

lemma insert_link_wf:
  assumes "active_wf s" "active_entry (tcb s r) = None" "c \<le> NR_RT_CPUS" "i < NR_QUEUES"
  shows "active_wf (mark_active c i (list_link r c i (insert_before b r (queue (act s c) i)) s))"
  using assms active_wfD(1,2) [OF assms(1)]
  by (intro link_wf) (auto simp: distinct_insert_before)

lemma frame_link: "queue_frame r s (mark_active c i (list_link r c i xs s))"
  by (rule queue_frame_trans) (rule queue_frame_basic)+

lemma frame_unlink: "queue_frame r s (mark_inactive c i (list_unlink r s))"
  by (rule queue_frame_trans) (rule queue_frame_basic)+

lemmas class_queue_defs =
  fp_enqueue_task_def fp_dequeue_task_def edf_enqueue_task_def edf_dequeue_task_def
  dl_enqueue_task_def dl_dequeue_task_def edf_insert_is_insert_before Let_def

interpretation fp: sched_queue fp_enqueue_task fp_dequeue_task
  by unfold_locales
     (auto simp: class_queue_defs frame_link frame_unlink intro: unlink_wf
       intro!: append_link_wf queue_index_lt)

interpretation dl: sched_queue dl_enqueue_task dl_dequeue_task
  by unfold_locales
     (auto simp: class_queue_defs frame_link frame_unlink intro: unlink_wf
       intro!: insert_link_wf queue_index_lt)

interpretation edf: sched_queue edf_enqueue_task edf_dequeue_task
  by unfold_locales
     (auto simp: class_queue_defs frame_link frame_unlink same_queues_wf [OF same_queues_prio]
       intro: unlink_wf intro!: insert_link_wf queue_index_lt
       queue_frame_trans [OF frame_link queue_frame_basic(5)])

end
