(* ===== verification/Global_List.thy ===== *)
theory Global_List
  imports Class_Queues
begin

text \<open>
  The global list of \<open>core/sched.c\<close>: all submitted tasks in order of priority. Its
  insertion, removal and reinsertion, the look-ups \<open>global_*_prio_task\<close>, and the overhead
  estimates that walk it. Every operation runs under the list's semaphore and is one step.
\<close>

section \<open>Insertion and removal\<close>

definition higher_prio :: "core \<Rightarrow> rid \<Rightarrow> rid \<Rightarrow> bool" where
  "higher_prio s r p = (prio (tcb s p) < prio (tcb s r))"

text \<open>\<open>__global_list_insert\<close> and \<open>__global_list_remove\<close> only warn about an entry that is
  already, or not, on the list.\<close>

definition locked_global_list_insert :: "rid \<Rightarrow> core \<Rightarrow> core" where
  "locked_global_list_insert r s =
     (if \<not> global_entry (tcb s r)
      then upd_task r (\<lambda>t. t\<lparr>global_entry := True\<rparr>)
             (s\<lparr>task_list := insert_before (higher_prio s) r (task_list s)\<rparr>)
      else s)"

definition locked_global_list_remove :: "rid \<Rightarrow> core \<Rightarrow> core" where
  "locked_global_list_remove r s =
     (if global_entry (tcb s r)
      then upd_task r (\<lambda>t. t\<lparr>global_entry := False\<rparr>) (s\<lparr>task_list := remove1 r (task_list s)\<rparr>)
      else s)"

definition global_list_insert :: "rid \<Rightarrow> core \<Rightarrow> core" where
  "global_list_insert r s = locked_global_list_insert r s"

definition global_list_remove :: "rid \<Rightarrow> core \<Rightarrow> core" where
  "global_list_remove r s = locked_global_list_remove r s"

definition global_list_reinsert :: "rid \<Rightarrow> core \<Rightarrow> core" where
  "global_list_reinsert r s = locked_global_list_insert r (locked_global_list_remove r s)"

section \<open>Look-ups\<close>

definition global_highest_prio_task :: "core \<Rightarrow> rid option" where
  "global_highest_prio_task s = (case task_list s of [] \<Rightarrow> None | r # _ \<Rightarrow> Some r)"

text \<open>An entry that is not linked is its own neighbour.\<close>

definition global_next_prio_task :: "rid \<Rightarrow> core \<Rightarrow> rid option" where
  "global_next_prio_task r s =
     (if \<not> global_entry (tcb s r) then Some r else next_in r (task_list s))"

definition global_prev_prio_task :: "rid \<Rightarrow> core \<Rightarrow> rid option" where
  "global_prev_prio_task r s =
     (if \<not> global_entry (tcb s r) then Some r else prev_in r (task_list s))"

definition global_prio_task :: "int \<Rightarrow> core \<Rightarrow> rid option" where
  "global_prio_task p s = find (\<lambda>r. prio (tcb s r) \<le> p) (task_list s)"

definition global_number_task :: "int \<Rightarrow> core \<Rightarrow> rid option" where
  "global_number_task num s =
     (case number_scan num 0 (task_list s) of Inr r \<Rightarrow> Some r | Inl _ \<Rightarrow> None)"

section \<open>Overheads\<close>

definition sched_overhead_task :: "kenv \<Rightarrow> rid \<Rightarrow> u64 \<Rightarrow> core \<Rightarrow> u64 option" where
  "sched_overhead_task k r interval s = do {
     nr_jobs \<leftarrow> div_round_up interval (jiffies_to_usecs k (period (tcb s r)));
     let overhead = nr_jobs * (switch_cost s + release_cost s);
     Some (if migratory (tcb s r) then overhead + nr_jobs * migration_cost s else overhead)
   }"

fun overhead_loop :: "kenv \<Rightarrow> cpu \<Rightarrow> u64 \<Rightarrow> core \<Rightarrow> rid list \<Rightarrow> u64 \<Rightarrow> u64 option" where
  "overhead_loop k c interval s [] overhead = Some overhead"
| "overhead_loop k c interval s (r # rs) overhead =
     (if task_is_on_cpu s r c
      then do {
        nr_jobs \<leftarrow> div_round_up interval (jiffies_to_usecs k (period (tcb s r)));
        let overhead = overhead + nr_jobs * (switch_cost s + release_cost s);
        let overhead = (if migratory (tcb s r) then overhead + nr_jobs * migration_cost s else overhead);
        overhead_loop k c interval s rs overhead
      }
      else overhead_loop k c interval s rs overhead)"

definition sched_overhead_cpu :: "kenv \<Rightarrow> cpu \<Rightarrow> u64 \<Rightarrow> core \<Rightarrow> u64 option" where
  "sched_overhead_cpu k c interval s = do {
     overhead \<leftarrow> overhead_loop k c interval s (task_list s) 0;
     Some (overhead + usecs_to_jiffies k interval * switch_cost s div 2)
   }"

section \<open>The list is sorted by priority and agrees with the entries\<close>

interpretation prio_order: ordered_insert "higher_prio s" for s
  by unfold_locales (auto simp: higher_prio_def)

abbreviation by_prio :: "core \<Rightarrow> rid list \<Rightarrow> bool" where
  "by_prio s \<equiv> sorted_wrt (\<lambda>x y. \<not> higher_prio s y x)"

definition glist_links :: "core \<Rightarrow> bool" where
  "glist_links s \<longleftrightarrow> distinct (task_list s) \<and> (\<forall>r. r \<in> set (task_list s) \<longleftrightarrow> global_entry (tcb s r))"

definition glist_wf :: "core \<Rightarrow> bool" where
  "glist_wf s \<longleftrightarrow> glist_links s \<and> by_prio s (task_list s)"

lemma by_prio_cong:
  "(\<And>r. r \<in> set xs \<Longrightarrow> prio (tcb s' r) = prio (tcb s r)) \<Longrightarrow> by_prio s' xs = by_prio s xs"
  by (induction xs) (auto simp: higher_prio_def)

lemma glist_wf_cong:
  assumes "task_list s' = task_list s" "\<And>r. global_entry (tcb s' r) = global_entry (tcb s r)"
    and "\<And>r. r \<in> set (task_list s) \<Longrightarrow> prio (tcb s' r) = prio (tcb s r)"
  shows "glist_wf s' = glist_wf s"
  using assms by_prio_cong [of "task_list s" s' s] by (simp add: glist_wf_def glist_links_def)

lemma insert_glist_links: "glist_links s \<Longrightarrow> glist_links (locked_global_list_insert r s)"
  by (auto simp: glist_links_def locked_global_list_insert_def distinct_insert_before)

lemma remove_glist_links: "glist_links s \<Longrightarrow> glist_links (locked_global_list_remove r s)"
  by (auto simp: glist_links_def locked_global_list_remove_def set_remove1_eq)

lemma global_list_frame [simp]:
  "prio (tcb (locked_global_list_insert r s) x) = prio (tcb s x)"
  "prio (tcb (locked_global_list_remove r s) x) = prio (tcb s x)"
  "same_queues s (locked_global_list_insert r s)" "same_queues s (locked_global_list_remove r s)"
  by (simp_all add: locked_global_list_insert_def locked_global_list_remove_def same_queues_def)

lemma global_list_reinsert_frame [simp]:
  "prio (tcb (global_list_reinsert r s) x) = prio (tcb s x)"
  "cpu_id (tcb (global_list_reinsert r s) x) = cpu_id (tcb s x)"
  "sclass (tcb (global_list_reinsert r s) x) = sclass (tcb s x)"
  "same_queues s (global_list_reinsert r s)"
  by (simp_all add: global_list_reinsert_def locked_global_list_insert_def
      locked_global_list_remove_def same_queues_def)

lemma insert_glist_wf: "glist_wf s \<Longrightarrow> glist_wf (locked_global_list_insert r s)"
proof -
  assume wf: "glist_wf s"
  then have "by_prio s (insert_before (higher_prio s) r (task_list s))"
    by (simp add: glist_wf_def prio_order.insert_ordered)
  then have "by_prio s (task_list (locked_global_list_insert r s))"
    using wf by (simp add: locked_global_list_insert_def glist_wf_def)
  then show ?thesis
    using wf insert_glist_links by_prio_cong [of _ "locked_global_list_insert r s" s]
    by (simp add: glist_wf_def)
qed

lemma remove_glist_wf: "glist_wf s \<Longrightarrow> glist_wf (locked_global_list_remove r s)"
proof -
  assume wf: "glist_wf s"
  then have "by_prio s (task_list (locked_global_list_remove r s))"
    by (simp add: glist_wf_def locked_global_list_remove_def prio_order.remove1_ordered)
  then show ?thesis
    using wf remove_glist_links by_prio_cong [of _ "locked_global_list_remove r s" s]
    by (simp add: glist_wf_def)
qed

text \<open>After the priority of \<open>r\<close> changed the rest of the list is still sorted; reinserting
  \<open>r\<close> sorts it again.\<close>

lemma reinsert_glist_wf:
  assumes "glist_links s" "by_prio s (remove1 r (task_list s))" "global_entry (tcb s r)"
  shows "glist_wf (global_list_reinsert r s)"
    and "set (task_list (global_list_reinsert r s)) = set (task_list s)"
proof -
  let ?s1 = "locked_global_list_remove r s"
  have "by_prio ?s1 (task_list ?s1)"
    using assms(2,3) by_prio_cong [of _ ?s1 s]
    by (simp add: locked_global_list_remove_def)
  then have "glist_wf ?s1" using assms(1) by (simp add: glist_wf_def remove_glist_links)
  then show "glist_wf (global_list_reinsert r s)"
    by (simp add: global_list_reinsert_def insert_glist_wf)
  show "set (task_list (global_list_reinsert r s)) = set (task_list s)"
    using assms(1,3)
    by (auto simp: global_list_reinsert_def locked_global_list_remove_def glist_links_def
        locked_global_list_insert_def)
qed

lemma overhead_loop_spec:
  "overhead_loop k c interval s rs acc =
     map_option (\<lambda>xs. acc + sum_list xs)
       (those (map (\<lambda>r. sched_overhead_task k r interval s) (filter (\<lambda>r. task_is_on_cpu s r c) rs)))"
  by (induction rs arbitrary: acc)
     (auto simp: sched_overhead_task_def Let_def option.map_comp comp_def add.assoc
       split: bind_splits option.splits)


section \<open>Properties\<close>

text \<open>Tasks 3, 5 and 7 of priorities 30, 20 and 20 on the list.\<close>

definition three_listed :: core where
  "three_listed =
     fold (\<lambda>(r, p) s. global_list_insert r (upd_task r (\<lambda>t. t\<lparr>prio := p\<rparr>) s))
       [(5, 20), (3, 30), (7, 20)] boot"

lemma three_listed_facts:
  "task_list three_listed = [3, 5, 7]"
  "prio (tcb three_listed 3) = 30" "prio (tcb three_listed 5) = 20" "prio (tcb three_listed 7) = 20"
  "global_entry (tcb three_listed r) \<longleftrightarrow> r \<in> {3, 5, 7}"
  by (auto simp: three_listed_def global_list_insert_def locked_global_list_insert_def boot_defs
      higher_prio_def)

lemma three_listed_wf: "glist_wf three_listed"
  by (simp add: glist_wf_def glist_links_def three_listed_facts higher_prio_def)

text \<open>C21: submitting a task keeps the global list sorted by decreasing priority, free of
  duplicates and in agreement with the entries; the task goes behind every task of its own
  or a higher priority and in front of every task of a lower one.\<close>

theorem global_insert_keeps_order:
  assumes "glist_wf s" "\<not> task_is_managed s r"
  shows "glist_wf (global_list_insert r s) \<and> task_is_managed (global_list_insert r s) r \<and>
    (\<exists>hi lo. task_list s = hi @ lo \<and> task_list (global_list_insert r s) = hi @ r # lo \<and>
       (\<forall>x \<in> set hi. prio (tcb s r) \<le> prio (tcb s x)) \<and>
       (\<forall>x \<in> set lo. prio (tcb s x) < prio (tcb s r)))"
proof -
  let ?P = "\<lambda>p. \<not> higher_prio s r p"
  let ?hi = "takeWhile ?P (task_list s)" and ?lo = "dropWhile ?P (task_list s)"
  have "by_prio s (?hi @ ?lo)" using assms(1) by (simp add: glist_wf_def)
  then have lo: "by_prio s ?lo" by (simp only: sorted_wrt_append)
  have "prio (tcb s x) < prio (tcb s r)" if "x \<in> set ?lo" for x
  proof -
    from that obtain y ys where y: "?lo = y # ys" by (cases ?lo) auto
    then have "higher_prio s r y" using hd_dropWhile [of ?P "task_list s"] by (metis list.discI list.sel(1))
    with that y lo show ?thesis by (fastforce simp: higher_prio_def)
  qed
  moreover have "\<forall>x \<in> set ?hi. prio (tcb s r) \<le> prio (tcb s x)"
    by (auto simp: higher_prio_def dest: set_takeWhileD)
  moreover have "task_list (global_list_insert r s) = ?hi @ r # ?lo"
    using assms(2)
    by (simp add: global_list_insert_def locked_global_list_insert_def task_is_managed_def
        insert_before_split)
  moreover have "glist_wf (global_list_insert r s) \<and> task_is_managed (global_list_insert r s) r"
    using insert_glist_wf [OF assms(1), of r] assms(2)
    by (simp add: global_list_insert_def locked_global_list_insert_def task_is_managed_def)
  ultimately show ?thesis
    by (metis takeWhile_dropWhile_id)
qed

theorem global_insert_keeps_order_witness:
  "glist_wf (global_list_insert 9 three_listed)"
  using global_insert_keeps_order [OF three_listed_wf, of 9]
  by (simp add: task_is_managed_def three_listed_facts)

text \<open>after the priority of a managed task changed, reinserting it restores the sorted
  global list, with the same members.\<close>

theorem global_reinsert_restores_order:
  assumes "glist_wf s" "task_is_managed s r"
  shows "let s' = global_list_reinsert r (upd_task r (\<lambda>t. t\<lparr>prio := p\<rparr>) s) in
    glist_wf s' \<and> set (task_list s') = set (task_list s) \<and> prio (tcb s' r) = p"
proof -
  let ?s = "upd_task r (\<lambda>t. t\<lparr>prio := p\<rparr>) s"
  have d: "distinct (task_list s)" and o: "by_prio s (task_list s)"
    using assms(1) by (simp_all add: glist_wf_def glist_links_def)
  from o have "by_prio s (remove1 r (task_list s))" by (rule prio_order.remove1_ordered)
  then have "by_prio ?s (remove1 r (task_list ?s))"
    using d by_prio_cong [of "remove1 r (task_list s)" ?s s] by (auto simp: set_remove1_eq)
  moreover have "glist_links ?s"
    using assms(1) by (auto simp: glist_wf_def glist_links_def)
  moreover have "global_entry (tcb ?s r)" using assms(2) by (simp add: task_is_managed_def)
  ultimately show ?thesis
    using reinsert_glist_wf [of ?s r]
    by (simp add: Let_def global_list_reinsert_def)
qed

theorem global_reinsert_restores_order_witness:
  "glist_wf (global_list_reinsert 3 (upd_task 3 (\<lambda>t. t\<lparr>prio := 10\<rparr>) three_listed))"
  using global_reinsert_restores_order [OF three_listed_wf, of 3 10]
  by (simp add: task_is_managed_def three_listed_facts Let_def)

text \<open>the scheduling overhead charged to a CPU is the sum of the overheads of its tasks
  plus half a context switch per tick, and is undefined exactly when some task of the CPU
  has a period of less than a microsecond.\<close>

theorem overhead_is_sum_of_tasks:
  "sched_overhead_cpu k c interval s =
     map_option (\<lambda>xs. sum_list xs + usecs_to_jiffies k interval * switch_cost s div 2)
       (those (map (\<lambda>r. sched_overhead_task k r interval s)
         (filter (\<lambda>r. task_is_on_cpu s r c) (task_list s))))"
  by (auto simp: sched_overhead_cpu_def overhead_loop_spec option.map_comp comp_def
      split: bind_splits option.splits)

end
