(* ===== verification/Set_Scheduler.thy ===== *)
theory Set_Scheduler
  imports Global_List
begin

text \<open>
  Changing the policy and the priority of a task (\<open>core/sched.c\<close>): \<open>requeue_task\<close>,
  \<open>__set_scheduler\<close>, the request to the per-CPU setscheduler thread, one round of that
  thread, and \<open>set_scheduler\<close>.
\<close>

definition requeue_task :: "kenv \<Rightarrow> rid \<Rightarrow> int \<Rightarrow> core \<Rightarrow> core option" where
  "requeue_task k r prio_old s = do {
     let c = cpu_id (tcb s r);
     let prio_new = prio (tcb s r);
     s1 \<leftarrow> dequeue_task k r prio_old c s;
     enqueue_task k r prio_new c s1
   }"

text \<open>\<open>__set_scheduler\<close>. The list and the queue are left alone when the priority stays.\<close>

definition do_set_scheduler :: "kenv \<Rightarrow> rid \<Rightarrow> int \<Rightarrow> core \<Rightarrow> (bool \<times> core) option" where
  "do_set_scheduler k r p s =
     (let prio_old = prio (tcb s r) in
      case class_set_scheduler k r p s of
        (False, s1) \<Rightarrow> Some (False, s1)
      | (True, s1) \<Rightarrow>
          if prio_old = prio (tcb s1 r) then Some (True, s1)
          else
            let s2 = (if task_is_managed s1 r then global_list_reinsert r s1 else s1) in
            do {
              s3 \<leftarrow> (if task_is_active s2 r then requeue_task k r prio_old s2 else Some s2);
              Some (True, s3)
            })"

text \<open>
  The request: the entry is initialised and linked on the list of this CPU's thread, the
  caller goes to sleep. \<open>INIT_LIST_HEAD\<close> on an entry that is still linked corrupts the
  list.
\<close>

definition link_request :: "kenv \<Rightarrow> rid \<Rightarrow> int \<Rightarrow> core \<Rightarrow> core option" where
  "link_request k r p s = do {
     let c = smp_processor_id k;
     guard_c (c < NR_RT_CPUS);
     guard_c (prio_entry (tcb s r) = None);
     let s1 = upd_task r (\<lambda>t. t\<lparr>setsched_prio := p, setsched_caller := current k,
                                prio_entry := Some c\<rparr>) s;
     let s2 = s1\<lparr>lo := (lo s1)(c := (lo s1 c)\<lparr>sched_list := sched_list (lo s1 c) @ [r]\<rparr>)\<rparr>;
     Some (set_tstate (current k) TASK_UNINTERRUPTIBLE s2)
   }"

definition request_set_scheduler :: "kenv \<Rightarrow> rid \<Rightarrow> int \<Rightarrow> core \<Rightarrow> core option" where
  "request_set_scheduler k r p s = do {
     s1 \<leftarrow> link_request k r p s;
     Some (schedule k s1)
   }"

definition request_set_scheduler_interrupt :: "kenv \<Rightarrow> rid \<Rightarrow> int \<Rightarrow> core \<Rightarrow> core option" where
  "request_set_scheduler_interrupt k r p s = do {
     s1 \<leftarrow> link_request k r p s;
     Some (set_tsk_need_resched (current k) s1)
   }"

text \<open>One round of \<open>set_scheduler_thread\<close> on a CPU; with an empty list it sleeps.\<close>

definition set_scheduler_thread :: "kenv \<Rightarrow> cpu \<Rightarrow> core \<Rightarrow> core option" where
  "set_scheduler_thread k c s =
     (case sched_list (lo s c) of
        [] \<Rightarrow> Some s
      | r # rs \<Rightarrow> do {
          let s1 = upd_task r (\<lambda>t. t\<lparr>prio_entry := None\<rparr>)
                     (s\<lparr>lo := (lo s)(c := (lo s c)\<lparr>sched_list := rs\<rparr>)\<rparr>);
          (ok, s2) \<leftarrow> do_set_scheduler k r (setsched_prio (tcb s1 r)) s1;
          Some (wake_up_process (setsched_caller (tcb s2 r)) s2)
        })"

text \<open>The class follows the policy; an unknown policy becomes fair.\<close>

definition set_policy :: "rid \<Rightarrow> int \<Rightarrow> core \<Rightarrow> core" where
  "set_policy r pol s =
     (if policy (tcb s r) \<noteq> pol
      then if pol = RESCH_SCHED_FP
           then upd_task r (\<lambda>t. t\<lparr>policy := RESCH_SCHED_FP, sclass := FP_CLASS\<rparr>) s
           else if pol = RESCH_SCHED_EDF
           then upd_task r (\<lambda>t. t\<lparr>policy := RESCH_SCHED_EDF, sclass := EDF_CLASS\<rparr>) s
           else upd_task r (\<lambda>t. t\<lparr>policy := RESCH_SCHED_FAIR, sclass := FAIR_CLASS\<rparr>) s
      else s)"

definition set_scheduler :: "kenv \<Rightarrow> rid \<Rightarrow> int \<Rightarrow> int \<Rightarrow> core \<Rightarrow> (bool \<times> core) option" where
  "set_scheduler k r pol p s =
     (let s1 = set_policy r pol s in
      if cap_sys_nice k then do_set_scheduler k r p s1
      else do {
        s2 \<leftarrow> request_set_scheduler k r p s1;
        Some (True, s2)
      })"

section \<open>Requeueing\<close>

lemma requeue_spec:
  assumes wf: "active_wf s" and e: "active_entry (tcb s r) = Some (c, i)"
    and c: "cpu_id (tcb s r) = c" and old: "queue_index prio_old = Some i"
    and new: "queue_index (prio (tcb s r)) = Some j" and cls: "sclass (tcb s r) \<noteq> FAIR_CLASS"
  obtains s' where "requeue_task k r prio_old s = Some s'" "active_wf s'"
    "active_entry (tcb s' r) = Some (c, j)" "queue_frame r s s'" "prio (tcb s' r) = prio (tcb s r)"
proof -
  note in_range = active_wfD(4) [OF wf e]
  note move = fp.move [OF wf e old new in_range, of "\<lambda>s. s"]
    edf.move [OF wf e old new in_range, of "\<lambda>s. s"] dl.move [OF wf e old new in_range, of "\<lambda>s. s"]
  have "\<exists>s'. requeue_task k r prio_old s = Some s' \<and> active_wf s' \<and>
      active_entry (tcb s' r) = Some (c, j) \<and> queue_frame r s s' \<and>
      prio (tcb s' r) = prio (tcb s r)"
  proof (cases "sclass (tcb s r)")
    case FP_CLASS
    show ?thesis
      by (rule move(1))
         (auto simp: same_queues_def requeue_task_def dequeue_task_def enqueue_task_def FP_CLASS c
           queue_frame_tcb intro: queue_frame_trans)
  next
    case EDF_CLASS
    show ?thesis
    proof (cases "has_sched_deadline k")
      case True
      show ?thesis
        by (rule move(3))
           (auto simp: same_queues_def requeue_task_def dequeue_task_def enqueue_task_def EDF_CLASS c
             True queue_frame_tcb intro: queue_frame_trans)
    next
      case False
      show ?thesis
        by (rule move(2))
           (auto simp: same_queues_def requeue_task_def dequeue_task_def enqueue_task_def EDF_CLASS c
             False queue_frame_tcb intro: queue_frame_trans)
    qed
  qed (use cls in simp)
  with that show thesis by blast
qed


section \<open>The invariant of the core\<close>

text \<open>
  \<open>core_wf\<close>: the active queues and the global list are well formed, every active task sits
  in the queue its descriptor names, and its class is one that uses the queues.
\<close>

definition core_wf :: "core \<Rightarrow> bool" where
  "core_wf s \<longleftrightarrow> active_wf s \<and> glist_wf s \<and>
     (\<forall>r. placed s r \<and> (task_is_active s r \<longrightarrow> sclass (tcb s r) \<noteq> FAIR_CLASS))"

lemma core_wfD:
  assumes "core_wf s"
  shows "active_wf s" "glist_wf s" "placed s r"
    and "active_entry (tcb s r) \<noteq> None \<Longrightarrow> sclass (tcb s r) \<noteq> FAIR_CLASS"
  using assms by (auto simp: core_wf_def task_is_active_def)

lemma queue_frame_glist_wf:
  assumes "queue_frame r s s'" "prio (tcb s' r) = prio (tcb s r)"
  shows "glist_wf s' = glist_wf s"
proof (rule glist_wf_cong)
  fix x
  show "prio (tcb s' x) = prio (tcb s x)"
    using assms(2) queue_frame_tcb(1) [OF assms(1), of x] by (cases "x = r") auto
qed (use assms(1) in \<open>simp_all add: queue_frame_tcb queue_frame_core\<close>)

lemma placed_frame: "queue_frame r s s' \<Longrightarrow> x \<noteq> r \<Longrightarrow> placed s' x = placed s x"
  by (simp add: placed_def queue_frame_tcb(1))

lemma class_set_scheduler_effect:
  assumes "class_set_scheduler k r p s = (ok, s1)"
  shows "same_queues s s1" "task_list s1 = task_list s" "x \<noteq> r \<Longrightarrow> tcb s1 x = tcb s x"
    and "cpu_id (tcb s1 x) = cpu_id (tcb s x)" "sclass (tcb s1 x) = sclass (tcb s x)"
    and "global_entry (tcb s1 x) = global_entry (tcb s x)"
    and "prio (tcb s1 r) = (if ok then p else prio (tcb s r))"
    and "policy (tcb s1 x) = policy (tcb s x)"
  using assms
  by (auto simp: class_set_scheduler_def fair_set_scheduler_def fp_set_scheduler_def
      edf_set_scheduler_def dl_set_scheduler_def kernel_setscheduler_def use_fcbs_def
      use_exhaustive_def same_queues_def Let_def split: sched_class.splits if_splits)

lemma core_wf_cong:
  assumes "same_queues s s'" "task_list s' = task_list s"
    and "\<And>x. prio (tcb s' x) = prio (tcb s x)" "\<And>x. cpu_id (tcb s' x) = cpu_id (tcb s x)"
    and "\<And>x. sclass (tcb s' x) = sclass (tcb s x)"
    and "\<And>x. global_entry (tcb s' x) = global_entry (tcb s x)"
  shows "core_wf s' = core_wf s"
  using assms glist_wf_cong [of s' s] same_queues_wf [OF assms(1)]
  by (simp add: core_wf_def placed_def task_is_active_def same_queues_def)

lemma core_wf_upd_linux [simp]: "core_wf (upd_linux r f s) = core_wf s"
  by (rule core_wf_cong) simp_all

lemma core_wf_upd_task:
  assumes "\<And>t. active_entry (f t) = active_entry t" "\<And>t. global_entry (f t) = global_entry t"
    and "\<And>t. prio (f t) = prio t" "\<And>t. cpu_id (f t) = cpu_id t" "\<And>t. sclass (f t) = sclass t"
  shows "core_wf (upd_task r f s) = core_wf s"
  using assms by (intro core_wf_cong) (simp_all add: same_queues_upd_task)

text \<open>A task on no list may be changed at will.\<close>

lemma core_wf_upd_idle:
  assumes wf: "core_wf s" and "active_entry (tcb s r) = None" "\<not> global_entry (tcb s r)"
    and "\<And>t. active_entry (f t) = active_entry t" "\<And>t. global_entry (f t) = global_entry t"
  shows "core_wf (upd_task r f s)"
proof -
  have "r \<notin> set (task_list s)"
    using core_wfD(2) [OF wf] assms(3) by (simp add: glist_wf_def glist_links_def)
  then have "glist_wf (upd_task r f s)"
    using core_wfD(2) [OF wf] assms(5) by (subst glist_wf_cong [of _ s]) auto
  moreover have "active_wf (upd_task r f s)"
    using core_wfD(1) [OF wf] same_queues_wf [of s "upd_task r f s"] assms(4)
    by (simp add: same_queues_upd_task)
  ultimately show ?thesis
    using wf assms(2,4) by (auto simp: core_wf_def placed_def task_is_active_def)
qed

lemma core_wf_same:
  assumes "core_wf s" "same_queues s s'" "task_list s' = task_list s"
    and "\<And>x. prio (tcb s' x) = prio (tcb s x)" "\<And>x. cpu_id (tcb s' x) = cpu_id (tcb s x)"
    and "\<And>x. sclass (tcb s' x) = sclass (tcb s x)"
    and "\<And>x. global_entry (tcb s' x) = global_entry (tcb s x)"
  shows "core_wf s'"
  using core_wf_cong [OF assms(2-7)] assms(1) by simp

lemma global_list_fields [simp]:
  "active_entry (tcb (locked_global_list_insert r s) x) = active_entry (tcb s x)"
  "cpu_id (tcb (locked_global_list_insert r s) x) = cpu_id (tcb s x)"
  "sclass (tcb (locked_global_list_insert r s) x) = sclass (tcb s x)"
  "active_entry (tcb (locked_global_list_remove r s) x) = active_entry (tcb s x)"
  "cpu_id (tcb (locked_global_list_remove r s) x) = cpu_id (tcb s x)"
  "sclass (tcb (locked_global_list_remove r s) x) = sclass (tcb s x)"
  by (simp_all add: locked_global_list_insert_def locked_global_list_remove_def)

lemma core_wf_global_list:
  assumes "core_wf s"
  shows "core_wf (locked_global_list_insert r s)" "core_wf (locked_global_list_remove r s)"
  using assms insert_glist_wf remove_glist_wf
    same_queues_wf [of s "locked_global_list_insert r s"]
    same_queues_wf [of s "locked_global_list_remove r s"]
  by (simp_all add: core_wf_def placed_def task_is_active_def)

text \<open>The core is well formed apart from where the descriptor \<open>r\<close> says it is.\<close>

definition rest_wf :: "rid \<Rightarrow> core \<Rightarrow> bool" where
  "rest_wf r s \<longleftrightarrow> active_wf s \<and>
     (\<forall>x. x \<noteq> r \<longrightarrow> placed s x \<and> (task_is_active s x \<longrightarrow> sclass (tcb s x) \<noteq> FAIR_CLASS))"

lemma rest_core_wf:
  assumes "rest_wf r s" "glist_wf s" "active_entry (tcb s r) = None"
  shows "core_wf s"
  unfolding core_wf_def
proof (intro conjI allI)
  fix x
  show "placed s x" "task_is_active s x \<longrightarrow> sclass (tcb s x) \<noteq> FAIR_CLASS"
    using assms by (cases "x = r"; simp add: rest_wf_def placed_def task_is_active_def)+
qed (use assms in \<open>simp_all add: rest_wf_def\<close>)

lemma core_rest_wf: "core_wf s \<Longrightarrow> rest_wf r s"
  by (simp add: core_wf_def rest_wf_def)

lemma reinsert_if_managed:
  assumes links: "glist_links s" and sorted: "by_prio s (remove1 r (task_list s))"
    and s': "s' = (if task_is_managed s r then global_list_reinsert r s else s)"
  shows "glist_wf s'" "set (task_list s') = set (task_list s)" "same_queues s s'"
    and "prio (tcb s' x) = prio (tcb s x)" "cpu_id (tcb s' x) = cpu_id (tcb s x)"
    and "sclass (tcb s' x) = sclass (tcb s x)"
proof -
  have "glist_wf s' \<and> set (task_list s') = set (task_list s)"
  proof (cases "task_is_managed s r")
    case True
    with reinsert_glist_wf [OF links sorted] s' show ?thesis by (simp add: task_is_managed_def)
  next
    case False
    then have "r \<notin> set (task_list s)" using links by (simp add: glist_links_def task_is_managed_def)
    with False sorted links s' show ?thesis by (simp add: glist_wf_def remove1_idem)
  qed
  then show "glist_wf s'" "set (task_list s') = set (task_list s)" by auto
  show "same_queues s s'" by (simp add: s' same_queues_def [of s s])
qed (simp_all add: s')

lemma requeue_core_wf:
  assumes rest: "rest_wf r s" and g: "glist_wf s" and e: "active_entry (tcb s r) = Some (c, i)"
    and c: "cpu_id (tcb s r) = c" and old: "queue_index prio_old = Some i"
    and new: "queue_index (prio (tcb s r)) = Some j" and cls: "sclass (tcb s r) \<noteq> FAIR_CLASS"
  obtains s' where "requeue_task k r prio_old s = Some s'" "core_wf s'"
    "prio (tcb s' r) = prio (tcb s r)" "task_list s' = task_list s"
    "\<forall>x. task_is_active s' x = task_is_active s x"
proof -
  have wf: "active_wf s" using rest by (simp add: rest_wf_def)
  obtain s' where s': "requeue_task k r prio_old s = Some s'" "active_wf s'"
    "active_entry (tcb s' r) = Some (c, j)" "queue_frame r s s'" "prio (tcb s' r) = prio (tcb s r)"
    by (rule requeue_spec [OF wf e c old new cls])
  have act: "task_is_active s' x = task_is_active s x" for x
    using s'(3) e queue_frame_tcb(1) [OF s'(4), of x]
    by (cases "x = r") (auto simp: task_is_active_def)
  have "placed s' x \<and> (task_is_active s' x \<longrightarrow> sclass (tcb s' x) \<noteq> FAIR_CLASS)" for x
  proof (cases "x = r")
    case True
    then show ?thesis using s' c new cls by (simp add: placed_def queue_frame_tcb)
  next
    case False
    with rest act show ?thesis
      by (simp add: rest_wf_def placed_frame [OF s'(4)] queue_frame_tcb [OF s'(4)])
  qed
  then have "core_wf s'"
    using s' g queue_frame_glist_wf by (simp add: core_wf_def)
  with that s' act show thesis by (simp add: queue_frame_core)
qed

lemma do_set_scheduler_cases:
  assumes "class_set_scheduler k r p s = (ok, s1)"
  shows "\<not> (ok \<and> prio (tcb s r) \<noteq> p) \<Longrightarrow> do_set_scheduler k r p s = Some (ok, s1)"
    and "ok \<Longrightarrow> prio (tcb s r) \<noteq> p \<Longrightarrow>
      s2 = (if task_is_managed s1 r then global_list_reinsert r s1 else s1) \<Longrightarrow>
      do_set_scheduler k r p s =
        do { s3 \<leftarrow> (if task_is_active s2 r then requeue_task k r (prio (tcb s r)) s2 else Some s2);
             Some (True, s3) }"
  using assms class_set_scheduler_effect(7) [OF assms]
  by (auto simp: do_set_scheduler_def Let_def split: bool.splits)

lemma do_set_scheduler_spec:
  assumes wf: "core_wf s" and p: "task_is_active s r \<Longrightarrow> queue_index p \<noteq> None"
    and s1: "class_set_scheduler k r p s = (ok, s1)"
  shows "\<exists>s'. do_set_scheduler k r p s = Some (ok, s') \<and> core_wf s' \<and>
     prio (tcb s' r) = (if ok then p else prio (tcb s r)) \<and>
     set (task_list s') = set (task_list s) \<and>
     (\<forall>x. task_is_active s' x = task_is_active s x)"
proof -
  note eff = class_set_scheduler_effect [OF s1]
  have act1: "active_entry (tcb s1 x) = active_entry (tcb s x)" for x
    using eff(1) by (simp add: same_queues_def)
  show ?thesis
  proof (cases "ok \<and> prio (tcb s r) \<noteq> p")
    case False
    have "core_wf s1"
    proof (rule core_wf_same [OF wf eff(1,2)])
      show "prio (tcb s1 x) = prio (tcb s x)" for x
        using False eff(3,7) by (cases "x = r") auto
    qed (rule eff)+
    with False eff act1 do_set_scheduler_cases(1) [OF s1] show ?thesis
      by (auto simp: task_is_active_def)
  next
    case True
    define s2 where "s2 = (if task_is_managed s1 r then global_list_reinsert r s1 else s1)"
    have links: "glist_links s1"
      using core_wfD(2) [OF wf] eff(2,6) by (simp add: glist_wf_def glist_links_def)
    have "by_prio s (remove1 r (task_list s))"
      using core_wfD(2) [OF wf] by (simp add: glist_wf_def prio_order.remove1_ordered)
    then have "by_prio s1 (remove1 r (task_list s1))"
      using links eff(2,3) by_prio_cong [of "remove1 r (task_list s1)" s1 s]
      by (auto simp: glist_links_def)
    note re = reinsert_if_managed [OF links this s2_def]
    have same2: "same_queues s s2" using eff(1) re(3) by (rule same_queues_trans)
    have a2: "active_entry (tcb s2 x) = active_entry (tcb s x)" for x
      using same2 by (simp add: same_queues_def)
    have rest: "rest_wf r s2"
      using core_wfD [OF wf] same_queues_wf [OF same2] eff(3) re(4-6) a2
      by (simp add: rest_wf_def placed_def task_is_active_def)
    note do_cases = do_set_scheduler_cases(2) [OF s1 _ _ s2_def]
    show ?thesis
    proof (cases "active_entry (tcb s r)")
      case None
      then have "core_wf s2"
        using a2 re(1) rest by (simp add: rest_core_wf)
      with True do_cases None re eff a2 show ?thesis by (auto simp: task_is_active_def)
    next
      case (Some ci)
      then obtain c i where e: "active_entry (tcb s r) = Some (c, i)" by (cases ci) auto
      with core_wfD(3) [OF wf, of r]
      have c: "cpu_id (tcb s2 r) = c" and old: "queue_index (prio (tcb s r)) = Some i"
        using re eff(4) by (auto simp: placed_def)
      have cls: "sclass (tcb s2 r) \<noteq> FAIR_CLASS" using core_wfD(4) [OF wf, of r] e re eff(5) by simp
      obtain j where j: "queue_index (prio (tcb s2 r)) = Some j"
        using p e True re eff(7) by (auto simp: task_is_active_def)
      have e2: "active_entry (tcb s2 r) = Some (c, i)" using e a2 by simp
      obtain s' where s': "requeue_task k r (prio (tcb s r)) s2 = Some s'" "core_wf s'"
        "prio (tcb s' r) = prio (tcb s2 r)" "task_list s' = task_list s2"
        "\<forall>x. task_is_active s' x = task_is_active s2 x"
        by (rule requeue_core_wf [where k = k, OF rest re(1) e2 c old j cls])
      with True do_cases e2 re eff a2 show ?thesis by (auto simp: task_is_active_def)
    qed
  qed
qed


section \<open>What changing the priority leaves alone\<close>

lemma enqueue_task_frame: "enqueue_task k r p c s = Some s' \<Longrightarrow> queue_frame r s s'"
  by (auto simp: enqueue_task_def fair_enqueue_task_def split: sched_class.splits if_splits
      intro: fp.enq_frame edf.enq_frame dl.enq_frame)

lemma dequeue_task_frame: "dequeue_task k r p c s = Some s' \<Longrightarrow> queue_frame r s s'"
  by (auto simp: dequeue_task_def fair_dequeue_task_def split: sched_class.splits if_splits
      intro: fp.deq_frame edf.deq_frame dl.deq_frame)

lemma requeue_task_frame: "requeue_task k r p s = Some s' \<Longrightarrow> queue_frame r s s'"
  by (auto simp: requeue_task_def Let_def dest!: enqueue_task_frame dequeue_task_frame
      intro: queue_frame_trans)

text \<open>The fields of a descriptor that no change of priority touches.\<close>

definition sched_fields :: "resch_task_t \<Rightarrow> _" where
  "sched_fields t = (accounting t, release_time t, period t, deadline t, deadline_time t,
     reserve_time t, replenish_timer t, budget t, server t, policy t, sclass t, cpu_id t, missed t,
     runtime t, wcet t)"

lemma queue_frame_fields: "queue_frame r s s' \<Longrightarrow> sched_fields (tcb s' x) = sched_fields (tcb s x)"
  by (rule frame_field) (auto simp: sched_fields_def)

lemma do_set_scheduler_fields:
  assumes "do_set_scheduler k r p s = Some (ok, s')"
  shows "sched_fields (tcb s' x) = sched_fields (tcb s x)" "jiffies s' = jiffies s"
    "pid_map s' = pid_map s"
proof -
  obtain b s1 where s1: "class_set_scheduler k r p s = (b, s1)" by fastforce
  have f1: "sched_fields (tcb s1 x) = sched_fields (tcb s x) \<and> jiffies s1 = jiffies s \<and> pid_map s1 = pid_map s"
    using s1
    by (auto simp: sched_fields_def class_set_scheduler_def fair_set_scheduler_def
        fp_set_scheduler_def edf_set_scheduler_def dl_set_scheduler_def kernel_setscheduler_def
        use_fcbs_def use_exhaustive_def Let_def split: sched_class.splits if_splits)
  have f2: "sched_fields (tcb (global_list_reinsert r s1) x) = sched_fields (tcb s1 x) \<and>
      jiffies (global_list_reinsert r s1) = jiffies s1 \<and> pid_map (global_list_reinsert r s1) = pid_map s1"
    by (simp add: sched_fields_def global_list_reinsert_def locked_global_list_insert_def
        locked_global_list_remove_def)
  have "sched_fields (tcb s' x) = sched_fields (tcb s x) \<and> jiffies s' = jiffies s \<and> pid_map s' = pid_map s"
    using assms s1 f1 f2
    by (auto simp: do_set_scheduler_def Let_def queue_frame_fields queue_frame_core
        dest!: requeue_task_frame split: bool.splits if_splits)
  then show "sched_fields (tcb s' x) = sched_fields (tcb s x)" "jiffies s' = jiffies s"
    "pid_map s' = pid_map s" by auto
qed

section \<open>Properties\<close>

text \<open>A kernel that accepts every request, with a millisecond tick, and one that refuses.\<close>

definition kernel0 :: kenv where
  "kernel0 = \<lparr>usecs_to_jiffies = (\<lambda>u. u div 1000), jiffies_to_usecs = (\<lambda>j. j * 1000),
     jiffies_to_nsecs = (\<lambda>j. j * 1000000), msecs_to_jiffies = (\<lambda>m. m),
     setscheduler_ok = (\<lambda>_ _ _. True), setattr_ok = (\<lambda>_ _ _ _. True), cap_sys_nice = True,
     smp_processor_id = 0, current = 0, cpu_clock = 0, current_task = zero_task,
     kmalloc_ok = True, kmalloc_fill = 0,
     has_sched_deadline = False, schedule = (\<lambda>s. s), schedule_timeout = (\<lambda>_ s. s),
     other_wakeups = 0, hrtimer_late = False\<rparr>"

lemma core_wf_two_fp:
  "core_wf (upd_task 3 (\<lambda>t. t\<lparr>sclass := FP_CLASS, policy := RESCH_SCHED_FP\<rparr>)
     (upd_task 5 (\<lambda>t. t\<lparr>sclass := FP_CLASS, policy := RESCH_SCHED_FP\<rparr>) two_tasks))"
  (is "core_wf ?s")
proof -
  have "active_wf ?s"
    using two_tasks_wf by (simp add: active_wf_def links_wf_def)
  moreover have "glist_wf ?s"
    by (simp add: glist_wf_def glist_links_def two_tasks_def mark_active_def list_link_def boot_defs)
  moreover have "active_entry (tcb two_tasks x) = None" if "x \<noteq> 3" "x \<noteq> 5" for x
    using that by (simp add: two_tasks_def mark_active_def list_link_def boot_defs)
  ultimately show ?thesis
    using two_tasks_facts
    by (auto simp: core_wf_def placed_def task_is_active_def)
qed

definition two_fp :: core where
  "two_fp = upd_task 3 (\<lambda>t. t\<lparr>sclass := FP_CLASS, policy := RESCH_SCHED_FP\<rparr>)
     (upd_task 5 (\<lambda>t. t\<lparr>sclass := FP_CLASS, policy := RESCH_SCHED_FP\<rparr>) two_tasks)"

lemma two_fp_wf: "core_wf two_fp"
  unfolding two_fp_def by (rule core_wf_two_fp)

text \<open>C1: \<open>__set_scheduler\<close> never goes wrong on a well-formed core when the new priority
  has a queue: it keeps the active queues and the global list well formed, returns what the
  kernel answered, sets the priority exactly on success, and makes no task join or leave
  the list or the queues.\<close>

theorem set_scheduler_keeps_core_wf:
  assumes "core_wf s" "task_is_active s r \<Longrightarrow> 1 \<le> p \<and> p \<le> 98"
  shows "\<exists>ok s'. do_set_scheduler k r p s = Some (ok, s') \<and> core_wf s' \<and>
     ok = fst (class_set_scheduler k r p s) \<and>
     prio (tcb s' r) = (if ok then p else prio (tcb s r)) \<and>
     set (task_list s') = set (task_list s) \<and>
     (\<forall>x. task_is_active s' x = task_is_active s x)"
proof -
  obtain ok s1 where s1: "class_set_scheduler k r p s = (ok, s1)" by fastforce
  moreover have "task_is_active s r \<Longrightarrow> queue_index p \<noteq> None"
    using assms(2) queue_index_valid [of p] by auto
  ultimately show ?thesis
    using do_set_scheduler_spec [OF assms(1), of r p k ok s1] by auto
qed

theorem set_scheduler_keeps_core_wf_witness:
  "\<exists>ok s'. do_set_scheduler kernel0 3 20 two_fp = Some (ok, s') \<and> core_wf s'"
  using set_scheduler_keeps_core_wf [OF two_fp_wf, of 3 20 kernel0] by auto

text \<open>a priority outside 1..98, such as the 99 that \<open>SCHED_FIFO\<close> accepts, indexes
  outside the array of queues: changing the priority of an active fixed-priority task to it
  is undefined once the kernel has accepted it.\<close>

theorem priority_out_of_queue_range:
  assumes "core_wf s" "active_entry (tcb s r) = Some (c, i)" "sclass (tcb s r) = FP_CLASS"
    and "p < 1 \<or> 98 < p" "setscheduler_ok k r SCHED_FIFO p"
  shows "do_set_scheduler k r p s = None"
proof -
  have slot: "queue_index p = None"
    using assms(4) by (auto simp: queue_index_def queue_slot_def prio_index_def resch_consts)
  moreover have "queue_index (prio (tcb s r)) = Some i"
    using core_wfD(3) [OF assms(1), of r] assms(2) by (simp add: placed_def)
  ultimately have ne: "prio (tcb s r) \<noteq> p" by auto
  let ?s1 = "upd_task r (\<lambda>t. t\<lparr>prio := p\<rparr>) (kernel_setscheduler r SCHED_FIFO p s)"
  have s1: "class_set_scheduler k r p s = (True, ?s1)"
    using assms(3,5) by (simp add: class_set_scheduler_def fp_set_scheduler_def)
  have "requeue_task k r old s2 = None" if "prio (tcb s2 r) = p" "sclass (tcb s2 r) = FP_CLASS" for s2 old
    using that slot
    by (auto simp: requeue_task_def dequeue_task_def enqueue_task_def fp_enqueue_task_def
        queue_frame_tcb(3) [OF fp.deq_frame] Let_def split: bind_splits)
  moreover define s2 where "s2 = (if task_is_managed ?s1 r then global_list_reinsert r ?s1 else ?s1)"
  moreover have "active_entry (tcb s2 r) = active_entry (tcb ?s1 r)"
    using global_list_reinsert_frame(4) [of ?s1 r] by (simp add: s2_def same_queues_def)
  ultimately show ?thesis
    using do_set_scheduler_cases(2) [OF s1 _ ne s2_def] assms(2,3)
    by (simp add: task_is_active_def kernel_setscheduler_def)
qed

theorem priority_out_of_queue_range_witness: "do_set_scheduler kernel0 3 99 two_fp = None"
  by (rule priority_out_of_queue_range [OF two_fp_wf, of 3 0 60])
     (simp_all add: two_fp_def two_tasks_facts kernel0_def)

text \<open>when the kernel refuses the request, \<open>set_scheduler\<close> reports failure but keeps the
  new policy and class, so the descriptor disagrees with the kernel from then on.\<close>

theorem set_scheduler_no_rollback:
  assumes "cap_sys_nice k" "pol \<in> {RESCH_SCHED_FAIR, RESCH_SCHED_FP}" "policy (tcb s r) \<noteq> pol"
    and "\<And>lp. \<not> setscheduler_ok k r lp p"
  shows "\<exists>s'. set_scheduler k r pol p s = Some (False, s') \<and> policy (tcb s' r) = pol \<and>
     sclass (tcb s' r) = (if pol = RESCH_SCHED_FP then FP_CLASS else FAIR_CLASS) \<and>
     lx_policy (task (tcb s' r)) = lx_policy (task (tcb s r))"
  using assms
  by (auto simp: set_scheduler_def set_policy_def do_set_scheduler_def class_set_scheduler_def
      fp_set_scheduler_def fair_set_scheduler_def resch_consts Let_def)

theorem set_scheduler_no_rollback_witness:
  "\<exists>s'. set_scheduler (kernel0\<lparr>setscheduler_ok := \<lambda>_ _ _. False\<rparr>) 3 RESCH_SCHED_FAIR 0 two_fp =
     Some (False, s') \<and> policy (tcb s' 3) = RESCH_SCHED_FAIR"
  using set_scheduler_no_rollback [of "kernel0\<lparr>setscheduler_ok := \<lambda>_ _ _. False\<rparr>"
      RESCH_SCHED_FAIR two_fp 3 0]
  by (auto simp: kernel0_def two_fp_def resch_consts)

text \<open>moving an active fixed-priority task to the fair policy succeeds and leaves the
  task in the queue of its old priority; the fair class never takes it out again.\<close>

theorem fair_switch_strands_task:
  assumes "core_wf s" "active_entry (tcb s r) = Some (c, i)" "policy (tcb s r) = RESCH_SCHED_FP"
    and "cap_sys_nice k" "setscheduler_ok k r SCHED_NORMAL 0"
  shows "\<exists>s'. set_scheduler k r RESCH_SCHED_FAIR 0 s = Some (True, s') \<and>
     active_entry (tcb s' r) = Some (c, i) \<and> \<not> core_wf s' \<and>
     (\<forall>p c'. dequeue_task k r p c' s' = Some s')"
proof -
  let ?s0 = "set_policy r RESCH_SCHED_FAIR s"
  let ?s1 = "upd_task r (\<lambda>t. t\<lparr>prio := 0\<rparr>) (kernel_setscheduler r SCHED_NORMAL 0 ?s0)"
  let ?s2 = "if task_is_managed ?s1 r then global_list_reinsert r ?s1 else ?s1"
  have pol: "?s0 = upd_task r (\<lambda>t. t\<lparr>policy := RESCH_SCHED_FAIR, sclass := FAIR_CLASS\<rparr>) s"
    using assms(3) by (simp add: set_policy_def resch_consts)
  then have s1: "class_set_scheduler k r 0 ?s0 = (True, ?s1)"
    using assms(5) by (simp add: class_set_scheduler_def fair_set_scheduler_def)
  have "prio (tcb s r) \<noteq> 0"
    using core_wfD(3) [OF assms(1), of r] assms(2)
    by (auto simp: placed_def queue_index_def queue_slot_def prio_index_def resch_consts)
  then have ne: "prio (tcb ?s0 r) \<noteq> 0" by (simp add: pol)
  have s2: "active_entry (tcb ?s2 r) = Some (c, i)" "sclass (tcb ?s2 r) = FAIR_CLASS"
    using assms(2) global_list_reinsert_frame(4) [of ?s1 r]
    by (auto simp: same_queues_def kernel_setscheduler_def pol)
  then have "requeue_task k r (prio (tcb ?s0 r)) ?s2 = Some ?s2"
    by (simp add: requeue_task_def dequeue_task_def enqueue_task_def fair_dequeue_task_def
        fair_enqueue_task_def Let_def)
  then have "set_scheduler k r RESCH_SCHED_FAIR 0 s = Some (True, ?s2)"
    using do_set_scheduler_cases(2) [OF s1 _ ne refl] s2 assms(4)
    by (simp add: set_scheduler_def task_is_active_def Let_def)
  moreover have "\<not> core_wf ?s2"
    using s2 core_wfD(4) by blast
  ultimately show ?thesis
    using s2 by (auto simp: dequeue_task_def fair_dequeue_task_def)
qed

theorem fair_switch_strands_task_witness:
  "\<exists>s'. set_scheduler kernel0 3 RESCH_SCHED_FAIR 0 two_fp = Some (True, s') \<and> \<not> core_wf s'"
  using fair_switch_strands_task [OF two_fp_wf, of 3 0 60 kernel0]
  by (auto simp: two_fp_def two_tasks_facts kernel0_def)

text \<open>a request to the setscheduler thread of an idle CPU is served by the thread's next
  round: the thread does to the core what \<open>__set_scheduler\<close> does, empties its list, unlinks
  the entry and wakes the caller it put to sleep.\<close>

theorem request_is_served:
  assumes "smp_processor_id k = c" "c < NR_RT_CPUS" "sched_list (lo s c) = []"
    and "prio_entry (tcb s r) = None"
  shows "\<exists>s1. link_request k r p s = Some s1 \<and>
     tstate (task (tcb s1 (current k))) = TASK_UNINTERRUPTIBLE \<and>
     set_scheduler_thread k c s1 =
       do { (ok, s2) \<leftarrow> do_set_scheduler k r p
              (set_tstate (current k) TASK_UNINTERRUPTIBLE
                (upd_task r (\<lambda>t. t\<lparr>setsched_prio := p, setsched_caller := current k\<rparr>) s));
            Some (wake_up_process (setsched_caller (tcb s2 r)) s2) }"
proof -
  let ?a = "upd_task r (\<lambda>t. t\<lparr>setsched_prio := p, setsched_caller := current k,
                            prio_entry := Some c\<rparr>) s"
  let ?b = "?a\<lparr>lo := (lo ?a)(c := (lo ?a c)\<lparr>sched_list := [r]\<rparr>)\<rparr>"
  let ?s1 = "set_tstate (current k) TASK_UNINTERRUPTIBLE ?b"
  have link: "link_request k r p s = Some ?s1"
    using assms by (simp add: link_request_def Let_def)
  have "upd_task r (\<lambda>t. t\<lparr>prio_entry := None\<rparr>)
          (?s1\<lparr>lo := (lo ?s1)(c := (lo ?s1 c)\<lparr>sched_list := []\<rparr>)\<rparr>) =
        set_tstate (current k) TASK_UNINTERRUPTIBLE
          (upd_task r (\<lambda>t. t\<lparr>setsched_prio := p, setsched_caller := current k\<rparr>) s)"
    using assms(3,4)
    by (auto simp: set_tstate_def upd_linux_def upd_task_def fun_eq_iff intro!: core.equality ext)
  then have "set_scheduler_thread k c ?s1 =
      do { (ok, s2) \<leftarrow> do_set_scheduler k r p
             (set_tstate (current k) TASK_UNINTERRUPTIBLE
               (upd_task r (\<lambda>t. t\<lparr>setsched_prio := p, setsched_caller := current k\<rparr>) s));
           Some (wake_up_process (setsched_caller (tcb s2 r)) s2) }"
    by (simp add: set_scheduler_thread_def set_tstate_def Let_def)
  with link show ?thesis by (auto simp: set_tstate_def)
qed

theorem request_is_served_witness:
  "\<exists>s1. link_request kernel0 3 20 two_fp = Some s1"
  using request_is_served [of kernel0 0 two_fp 3 20]
  by (simp add: kernel0_def two_fp_def two_tasks_def mark_active_def list_link_def boot_defs resch_consts)
     blast

end
