(* ===== verification/Class_Ops.thy ===== *)
theory Class_Ops
  imports Set_Scheduler
begin

text \<open>
  The job, accounting, reservation and migration operations of the four scheduling classes
  (\<open>core/sched_fair.c\<close>, \<open>core/sched_fp.c\<close>, \<open>core/sched_edf.c\<close>,
  \<open>core/sched_deadline.c\<close>) and their dispatch through \<open>rt->class\<close>.
\<close>

section \<open>The fair class\<close>

definition fair_wait_period :: "kenv \<Rightarrow> rid \<Rightarrow> core \<Rightarrow> core" where
  "fair_wait_period k r s =
     (if release_time (tcb s r) > jiffies s
      then schedule_timeout k (release_time (tcb s r) - jiffies s) (set_tstate r TASK_UNINTERRUPTIBLE s)
      else schedule k s)"

section \<open>The fixed-priority class\<close>

definition fp_job_start :: "rid \<Rightarrow> core \<Rightarrow> core option" where
  "fp_job_start r s = fp_enqueue_task r (prio (tcb s r)) (cpu_id (tcb s r)) s"

definition fp_job_complete :: "rid \<Rightarrow> core \<Rightarrow> core option" where
  "fp_job_complete r s = fp_dequeue_task r (prio (tcb s r)) (cpu_id (tcb s r)) s"

definition fp_start_account :: "kenv \<Rightarrow> rid \<Rightarrow> core \<Rightarrow> core" where
  "fp_start_account k r s =
     (let s1 = upd_linux r (\<lambda>t. t\<lparr>rt_timeout := 0,
                 rlim_rttime := jiffies_to_usecs k (budget (tcb s r) - exec_time k s r)\<rparr>) s
      in upd_task r (\<lambda>t. t\<lparr>prio_save := prio t\<rparr>) s1)"

definition fp_stop_account :: "rid \<Rightarrow> core \<Rightarrow> core" where
  "fp_stop_account r s = upd_linux r (\<lambda>t. t\<lparr>rlim_rttime := RLIM_INFINITY\<rparr>) s"

definition fp_reserve_expire :: "kenv \<Rightarrow> rid \<Rightarrow> core \<Rightarrow> core option" where
  "fp_reserve_expire k r s = do {
     (ok, s1) \<leftarrow> do_set_scheduler k r RESCH_PRIO_BACKGROUND s;
     Some s1
   }"

definition fp_reserve_replenish :: "kenv \<Rightarrow> rid \<Rightarrow> u64 \<Rightarrow> core \<Rightarrow> core option" where
  "fp_reserve_replenish k r cputime s = do {
     let c = cpu_id (tcb s r);
     let s1 = upd_task r (\<lambda>t. t\<lparr>budget := budget t + cputime\<rparr>) s;
     guard_c (c \<le> NR_RT_CPUS);
     if prio (tcb s1 r) = RESCH_PRIO_BACKGROUND \<and> task_is_active s1 r
     then request_set_scheduler k r (prio_save (tcb s1 r)) s1
     else Some s1
   }"

definition fp_migrate_task :: "kenv \<Rightarrow> rid \<Rightarrow> cpu \<Rightarrow> core \<Rightarrow> core option" where
  "fp_migrate_task k r dst s = do {
     let src = cpu_id (tcb s r);
     s1 \<leftarrow> (if src \<noteq> dst
            then do {
              guard_c (src \<le> NR_RT_CPUS \<and> dst \<le> NR_RT_CPUS);
              if task_is_active s r
              then do {
                s1 \<leftarrow> fp_dequeue_task r (prio (tcb s r)) src s;
                let s2 = upd_task r (\<lambda>t. t\<lparr>cpu_id := dst\<rparr>) s1;
                fp_enqueue_task r (prio (tcb s2 r)) dst s2
              }
              else Some (upd_task r (\<lambda>t. t\<lparr>cpu_id := dst\<rparr>) s)
            }
            else Some s);
     let s2 = kernel_migrate_task r dst s1;
     Some (if task_is_accounting s2 r then fp_start_account k r (fp_stop_account r s2) else s2)
   }"

text \<open>The task state is not set before the sleep.\<close>

definition fp_wait_period :: "kenv \<Rightarrow> rid \<Rightarrow> core \<Rightarrow> core" where
  "fp_wait_period k r s =
     (if release_time (tcb s r) > jiffies s
      then schedule_timeout k (release_time (tcb s r) - jiffies s) s
      else schedule k s)"

section \<open>The EDF class of \<open>sched_edf.c\<close>\<close>

definition edf_job_start :: "rid \<Rightarrow> core \<Rightarrow> core option" where
  "edf_job_start r s = do {
     let c = cpu_id (tcb s r);
     s1 \<leftarrow> edf_enqueue_task r RESCH_PRIO_EDF c s;
     hp \<leftarrow> active_highest_prio_task c s1;
     if hp = Some r
     then do {
       curr \<leftarrow> active_next_prio_task r s1;
       Some (case curr of
               None \<Rightarrow> s1
             | Some x \<Rightarrow> set_tsk_need_resched x (set_tstate x TASK_INTERRUPTIBLE s1))
     }
     else Some (set_tstate r TASK_INTERRUPTIBLE s1)
   }"

definition edf_job_complete :: "rid \<Rightarrow> core \<Rightarrow> core option" where
  "edf_job_complete r s = do {
     let c = cpu_id (tcb s r);
     s1 \<leftarrow> edf_dequeue_task r (prio (tcb s r)) c s;
     let s2 = upd_task r (\<lambda>t. t\<lparr>prio := RESCH_PRIO_EDF\<rparr>) s1;
     nxt \<leftarrow> active_highest_prio_task c s2;
     Some (case nxt of None \<Rightarrow> s2 | Some x \<Rightarrow> wake_up_process x s2)
   }"

definition edf_start_account :: "kenv \<Rightarrow> rid \<Rightarrow> core \<Rightarrow> core" where
  "edf_start_account k r s =
     upd_linux r (\<lambda>t. t\<lparr>rt_timeout := 0,
       rlim_rttime := jiffies_to_usecs k (budget (tcb s r) - exec_time k s r)\<rparr>) s"

definition edf_stop_account :: "rid \<Rightarrow> core \<Rightarrow> core" where
  "edf_stop_account r s = upd_linux r (\<lambda>t. t\<lparr>rlim_rttime := RLIM_INFINITY\<rparr>) s"

definition edf_reserve_expire :: "rid \<Rightarrow> core \<Rightarrow> core option" where
  "edf_reserve_expire r s = do {
     let c = cpu_id (tcb s r);
     guard_c (c \<le> NR_RT_CPUS);
     if \<not> task_is_active s r then Some s
     else do {
       s1 \<leftarrow> edf_dequeue_task r (prio (tcb s r)) c s;
       s2 \<leftarrow> edf_enqueue_task r RESCH_PRIO_BACKGROUND c s1;
       nxt \<leftarrow> active_highest_prio_task c s2;
       if nxt = Some r then Some s2
       else do {
         x \<leftarrow> nxt;
         Some (set_tstate r TASK_INTERRUPTIBLE (wake_up_process x s2))
       }
     }
   }"

definition edf_reserve_replenish :: "rid \<Rightarrow> u64 \<Rightarrow> core \<Rightarrow> core option" where
  "edf_reserve_replenish r cputime s = do {
     let c = cpu_id (tcb s r);
     let s0 = upd_task r (\<lambda>t. t\<lparr>budget := budget t + cputime\<rparr>) s;
     guard_c (c \<le> NR_RT_CPUS);
     if prio (tcb s0 r) = RESCH_PRIO_BACKGROUND \<and> task_is_active s0 r
     then do {
       s1 \<leftarrow> edf_dequeue_task r RESCH_PRIO_BACKGROUND c s0;
       s2 \<leftarrow> edf_enqueue_task r RESCH_PRIO_EDF c s1;
       hp \<leftarrow> active_highest_prio_task c s2;
       if hp = Some r \<and> tstate (task (tcb s2 r)) = TASK_INTERRUPTIBLE
       then do {
         p \<leftarrow> active_next_prio_task r s2;
         let s3 = (case p of None \<Rightarrow> s2 | Some x \<Rightarrow> set_tstate x TASK_INTERRUPTIBLE s2);
         Some (wake_up_process r s3)
       }
       else Some s2
     }
     else Some s0
   }"

definition edf_migrate_task :: "kenv \<Rightarrow> rid \<Rightarrow> cpu \<Rightarrow> core \<Rightarrow> core option" where
  "edf_migrate_task k r dst s = do {
     let src = cpu_id (tcb s r);
     if src \<noteq> dst
     then do {
       guard_c (src \<le> NR_RT_CPUS \<and> dst \<le> NR_RT_CPUS);
       if task_is_active s r
       then do {
         hp \<leftarrow> active_highest_prio_task src s;
         next_src \<leftarrow> (if hp = Some r then active_next_prio_task r s else Some None);
         s1 \<leftarrow> edf_dequeue_task r (prio (tcb s r)) src s;
         curr_dst \<leftarrow> active_prio_task dst RESCH_PRIO_EDF_RUN s1;
         let s2 = upd_task r (\<lambda>t. t\<lparr>cpu_id := dst\<rparr>) s1;
         s3 \<leftarrow> edf_enqueue_task r (prio (tcb s2 r)) dst s2;
         let s4 = (case next_src of None \<Rightarrow> s3 | Some x \<Rightarrow> wake_up_process x s3);
         let s5 = kernel_migrate_task r dst s4;
         let s6 = (if task_is_accounting s5 r then edf_start_account k r (edf_stop_account r s5) else s5);
         Some (case curr_dst of
                 None \<Rightarrow> s6
               | Some x \<Rightarrow>
                   if deadline_time (tcb s6 r) < deadline_time (tcb s6 x)
                   then set_tsk_need_resched x (set_tstate x TASK_INTERRUPTIBLE s6)
                   else set_tsk_need_resched r (set_tstate r TASK_INTERRUPTIBLE s6))
       }
       else Some (kernel_migrate_task r dst (upd_task r (\<lambda>t. t\<lparr>cpu_id := dst\<rparr>) s))
     }
     else Some (kernel_migrate_task r dst s)
   }"

definition edf_wait_period :: "kenv \<Rightarrow> rid \<Rightarrow> core \<Rightarrow> core" where
  "edf_wait_period k r s =
     (if release_time (tcb s r) > jiffies s
      then schedule_timeout k (release_time (tcb s r) - jiffies s) (set_tstate r TASK_UNINTERRUPTIBLE s)
      else schedule k s)"

section \<open>The EDF class over SCHED_DEADLINE\<close>

definition dl_job_start :: "rid \<Rightarrow> core \<Rightarrow> core option" where
  "dl_job_start r s = dl_enqueue_task r RESCH_PRIO_EDF (cpu_id (tcb s r)) s"

definition dl_job_complete :: "rid \<Rightarrow> core \<Rightarrow> core option" where
  "dl_job_complete r s = dl_dequeue_task r RESCH_PRIO_EDF (cpu_id (tcb s r)) s"

text \<open>A task without a reserve gets its budget, in nanoseconds, as its runtime.\<close>

definition dl_start_account :: "kenv \<Rightarrow> rid \<Rightarrow> core \<Rightarrow> core" where
  "dl_start_account k r s =
     use_fcbs r (if \<not> task_has_reserve s r
                 then upd_linux r (\<lambda>t. t\<lparr>dl_runtime := jiffies_to_nsecs k (budget (tcb s r))\<rparr>) s
                 else s)"

definition dl_stop_account :: "rid \<Rightarrow> core \<Rightarrow> core" where
  "dl_stop_account r s = use_exhaustive r s"

definition dl_reserve_expire :: "rid \<Rightarrow> core \<Rightarrow> core option" where
  "dl_reserve_expire r s = Some s"

definition dl_reserve_replenish :: "rid \<Rightarrow> u64 \<Rightarrow> core \<Rightarrow> core option" where
  "dl_reserve_replenish r cputime s = Some s"

definition dl_migrate_task :: "kenv \<Rightarrow> rid \<Rightarrow> cpu \<Rightarrow> core \<Rightarrow> core option" where
  "dl_migrate_task k r dst s = do {
     let src = cpu_id (tcb s r);
     if src \<noteq> dst
     then do {
       guard_c (src \<le> NR_RT_CPUS \<and> dst \<le> NR_RT_CPUS);
       if task_is_active s r
       then do {
         s1 \<leftarrow> dl_dequeue_task r RESCH_PRIO_EDF src s;
         s2 \<leftarrow> dl_enqueue_task r RESCH_PRIO_EDF dst (upd_task r (\<lambda>t. t\<lparr>cpu_id := dst\<rparr>) s1);
         let s3 = kernel_migrate_task r dst s2;
         Some (if task_is_accounting s3 r then dl_start_account k r (dl_stop_account r s3) else s3)
       }
       else Some (kernel_migrate_task r dst (upd_task r (\<lambda>t. t\<lparr>cpu_id := dst\<rparr>) s))
     }
     else Some (kernel_migrate_task r dst s)
   }"

text \<open>
  \<open>sched_wait_interval\<close> with a relative interval: the caller sleeps interruptibly until its timer
  expires at \<open>expires\<close>, which sets \<open>t.task\<close> to \<open>NULL\<close>, or a signal is pending. Woken by anything else it sleeps again,
  \<open>n\<close> times; a timer that is no longer active in the last round is not slept on. Its result is
  ignored by the caller.
\<close>

definition DL_NEW :: u64 where "DL_NEW = 1"

definition interval_sleep :: "kenv \<Rightarrow> u64 \<Rightarrow> core \<Rightarrow> core" where
  "interval_sleep k expires s =
     schedule_timeout k (if expires > jiffies s then expires - jiffies s else 0)
       (upd_linux (current k) (\<lambda>t. t\<lparr>dl_flags := dl_flags t OR DL_NEW\<rparr>) s)"

primrec wait_rounds :: "kenv \<Rightarrow> u64 \<Rightarrow> nat \<Rightarrow> core \<Rightarrow> core" where
  "wait_rounds k expires 0 s =
     (let s = set_tstate (current k) TASK_INTERRUPTIBLE s
      in if hrtimer_late k then s else interval_sleep k expires s)"
| "wait_rounds k expires (Suc n) s =
     wait_rounds k expires n (interval_sleep k expires (set_tstate (current k) TASK_INTERRUPTIBLE s))"

definition sched_wait_interval :: "kenv \<Rightarrow> u64 \<Rightarrow> core \<Rightarrow> core" where
  "sched_wait_interval k interval s =
     set_tstate (current k) TASK_RUNNING (wait_rounds k (jiffies s + interval) (other_wakeups k) s)"

text \<open>The wait until the release: no interval when it has passed; then the clock is read.\<close>

definition dl_wait_period :: "kenv \<Rightarrow> rid \<Rightarrow> core \<Rightarrow> core" where
  "dl_wait_period k r s =
     (let interval = (if release_time (tcb s r) > jiffies s then release_time (tcb s r) - jiffies s else 0);
          s1 = (if dl_flags (task (tcb s r)) AND SCHED_EXHAUSTIVE \<noteq> 0
                then upd_linux r (\<lambda>t. t\<lparr>dl_deadline := cpu_clock k\<rparr>) s else s)
      in upd_task r (\<lambda>t. t\<lparr>dl_sched_release_time := cpu_clock k\<rparr>) (sched_wait_interval k interval s1))"

section \<open>Dispatch through \<open>rt->class\<close>\<close>

definition class_job_start :: "kenv \<Rightarrow> rid \<Rightarrow> core \<Rightarrow> core option" where
  "class_job_start k r s =
     (case sclass (tcb s r) of
        FAIR_CLASS \<Rightarrow> Some s
      | FP_CLASS \<Rightarrow> fp_job_start r s
      | EDF_CLASS \<Rightarrow> if has_sched_deadline k then dl_job_start r s else edf_job_start r s)"

definition class_job_complete :: "kenv \<Rightarrow> rid \<Rightarrow> core \<Rightarrow> core option" where
  "class_job_complete k r s =
     (case sclass (tcb s r) of
        FAIR_CLASS \<Rightarrow> Some s
      | FP_CLASS \<Rightarrow> fp_job_complete r s
      | EDF_CLASS \<Rightarrow> if has_sched_deadline k then dl_job_complete r s else edf_job_complete r s)"

definition class_start_account :: "kenv \<Rightarrow> rid \<Rightarrow> core \<Rightarrow> core" where
  "class_start_account k r s =
     (case sclass (tcb s r) of
        FAIR_CLASS \<Rightarrow> s
      | FP_CLASS \<Rightarrow> fp_start_account k r s
      | EDF_CLASS \<Rightarrow> if has_sched_deadline k then dl_start_account k r s else edf_start_account k r s)"

definition class_stop_account :: "kenv \<Rightarrow> rid \<Rightarrow> core \<Rightarrow> core" where
  "class_stop_account k r s =
     (case sclass (tcb s r) of
        FAIR_CLASS \<Rightarrow> s
      | FP_CLASS \<Rightarrow> fp_stop_account r s
      | EDF_CLASS \<Rightarrow> if has_sched_deadline k then dl_stop_account r s else edf_stop_account r s)"

definition class_reserve_expire :: "kenv \<Rightarrow> rid \<Rightarrow> core \<Rightarrow> core option" where
  "class_reserve_expire k r s =
     (case sclass (tcb s r) of
        FAIR_CLASS \<Rightarrow> Some s
      | FP_CLASS \<Rightarrow> fp_reserve_expire k r s
      | EDF_CLASS \<Rightarrow> if has_sched_deadline k then dl_reserve_expire r s else edf_reserve_expire r s)"

definition class_reserve_replenish :: "kenv \<Rightarrow> rid \<Rightarrow> u64 \<Rightarrow> core \<Rightarrow> core option" where
  "class_reserve_replenish k r cputime s =
     (case sclass (tcb s r) of
        FAIR_CLASS \<Rightarrow> Some s
      | FP_CLASS \<Rightarrow> fp_reserve_replenish k r cputime s
      | EDF_CLASS \<Rightarrow> if has_sched_deadline k then dl_reserve_replenish r cputime s
                      else edf_reserve_replenish r cputime s)"

definition migrate_task :: "kenv \<Rightarrow> rid \<Rightarrow> cpu \<Rightarrow> core \<Rightarrow> core option" where
  "migrate_task k r dst s =
     (case sclass (tcb s r) of
        FAIR_CLASS \<Rightarrow> Some s
      | FP_CLASS \<Rightarrow> fp_migrate_task k r dst s
      | EDF_CLASS \<Rightarrow> if has_sched_deadline k then dl_migrate_task k r dst s
                      else edf_migrate_task k r dst s)"

definition class_wait_period :: "kenv \<Rightarrow> rid \<Rightarrow> core \<Rightarrow> core" where
  "class_wait_period k r s =
     (case sclass (tcb s r) of
        FAIR_CLASS \<Rightarrow> fair_wait_period k r s
      | FP_CLASS \<Rightarrow> fp_wait_period k r s
      | EDF_CLASS \<Rightarrow> if has_sched_deadline k then dl_wait_period k r s else edf_wait_period k r s)"


section \<open>The operations keep the core well formed\<close>

lemma core_wf_wakeups [simp]:
  "core_wf (wake_up_process r s) = core_wf s" "core_wf (set_tsk_need_resched r s) = core_wf s"
  "core_wf (set_tstate r p s) = core_wf s" "core_wf (kernel_migrate_task r c s) = core_wf s"
  "core_wf (fp_stop_account r s) = core_wf s" "core_wf (edf_stop_account r s) = core_wf s"
  "core_wf (edf_start_account k r s) = core_wf s" "core_wf (fp_start_account k r s) = core_wf s"
  "core_wf (dl_start_account k r s) = core_wf s" "core_wf (dl_stop_account r s) = core_wf s"
proof -
  have upd: "core_wf (upd_task r (\<lambda>t. t\<lparr>cpumask := m\<rparr>) s) = core_wf s"
    "core_wf (upd_task r (\<lambda>t. t\<lparr>prio_save := prio t\<rparr>) s) = core_wf s" for m s
    by (rule core_wf_cong; simp add: same_queues_def)+
  show "core_wf (wake_up_process r s) = core_wf s" "core_wf (set_tsk_need_resched r s) = core_wf s"
    "core_wf (set_tstate r p s) = core_wf s" "core_wf (kernel_migrate_task r c s) = core_wf s"
    "core_wf (fp_stop_account r s) = core_wf s" "core_wf (edf_stop_account r s) = core_wf s"
    "core_wf (edf_start_account k r s) = core_wf s" "core_wf (fp_start_account k r s) = core_wf s"
    "core_wf (dl_start_account k r s) = core_wf s" "core_wf (dl_stop_account r s) = core_wf s"
    by (simp_all add: wake_up_process_def set_tsk_need_resched_def set_tstate_def upd
        kernel_migrate_task_def fp_stop_account_def edf_stop_account_def edf_start_account_def
        fp_start_account_def dl_start_account_def dl_stop_account_def use_fcbs_def
        use_exhaustive_def Let_def)
qed

context sched_queue
begin

lemma enq_core_wf:
  assumes rest: "rest_wf r s" and g: "glist_wf s" and s': "enq r p c s = Some s'"
    and "cpu_id (tcb s r) = c" and p: "prio (tcb s r) = p" and "sclass (tcb s r) \<noteq> FAIR_CLASS"
  shows "core_wf s'" "active_entry (tcb s' r) = map_option (Pair c) (queue_index p)"
    "prio (tcb s' r) = p"
proof -
  note fr = enq_frame [OF s'] and e = enq_entry [OF s']
  show e': "active_entry (tcb s' r) = map_option (Pair c) (queue_index p)" using e by simp
  show p': "prio (tcb s' r) = p" using enq_prio [OF s'] p by simp
  have wf': "active_wf s'" using rest enq_wf [OF _ s'] by (simp add: rest_wf_def)
  have g': "glist_wf s'" using g queue_frame_glist_wf [OF fr] p p' by simp
  have "placed s' x \<and> (task_is_active s' x \<longrightarrow> sclass (tcb s' x) \<noteq> FAIR_CLASS)" for x
  proof (cases "x = r")
    case True
    then show ?thesis using assms(4,6) e' p' by (auto simp: placed_def queue_frame_tcb [OF fr])
  next
    case False
    with rest show ?thesis
      by (simp add: rest_wf_def placed_frame [OF fr] queue_frame_tcb(1) [OF fr] task_is_active_def)
  qed
  with wf' g' show "core_wf s'" by (simp add: core_wf_def)
qed

lemma deq_core_wf:
  assumes wf: "core_wf s" and e: "active_entry (tcb s r) = Some (c, i)"
    and s': "deq r (prio (tcb s r)) c s = Some s'"
  shows "core_wf s'" "active_entry (tcb s' r) = None"
proof -
  note fr = deq_frame [OF s']
  show e': "active_entry (tcb s' r) = None" by (rule deq_entry [OF s'])
  have "queue_index (prio (tcb s r)) = Some i"
    using core_wfD(3) [OF wf, of r] e by (simp add: placed_def)
  then have "active_wf s'" using deq_wf [OF core_wfD(1) [OF wf] e _ s'] by simp
  moreover have "glist_wf s'"
    using core_wfD(2) [OF wf] queue_frame_glist_wf [OF fr deq_prio [OF s']] by simp
  moreover have "placed s' x \<and> (task_is_active s' x \<longrightarrow> sclass (tcb s' x) \<noteq> FAIR_CLASS)" if "x \<noteq> r" for x
    using that core_wfD(3,4) [OF wf, of x]
    by (simp add: placed_frame [OF fr] queue_frame_tcb(1) [OF fr] task_is_active_def)
  ultimately show "core_wf s'"
    using e' by (intro rest_core_wf [of r]) (simp_all add: rest_wf_def)
qed

lemma enq_job:
  assumes wf: "core_wf s" and idle: "active_entry (tcb s r) = None"
    and c: "cpu_id (tcb s r) \<le> NR_RT_CPUS" and i: "queue_index (prio (tcb s r)) = Some i"
    and cls: "sclass (tcb s r) \<noteq> FAIR_CLASS"
  obtains s' where "enq r (prio (tcb s r)) (cpu_id (tcb s r)) s = Some s'" "core_wf s'"
    "active_entry (tcb s' r) = Some (cpu_id (tcb s r), i)" "queue_frame r s s'"
    "prio (tcb s' r) = prio (tcb s r)"
proof -
  from enq_defined [OF c i idle] obtain s'
    where s': "enq r (prio (tcb s r)) (cpu_id (tcb s r)) s = Some s'" by blast
  from that [OF s'] enq_core_wf [OF core_rest_wf [OF wf] core_wfD(2) [OF wf] s' refl refl cls]
    enq_frame [OF s'] i
  show thesis by simp
qed

lemma deq_job:
  assumes wf: "core_wf s" and e: "active_entry (tcb s r) = Some (c, i)"
  obtains s' where "deq r (prio (tcb s r)) c s = Some s'" "core_wf s'"
    "active_entry (tcb s' r) = None" "queue_frame r s s'" "prio (tcb s' r) = prio (tcb s r)"
    "cpu_id (tcb s r) = c"
proof -
  have "queue_index (prio (tcb s r)) = Some i" "cpu_id (tcb s r) = c"
    using core_wfD(3) [OF wf, of r] e by (simp_all add: placed_def)
  with deq_defined active_wfD(4) [OF core_wfD(1) [OF wf] e] obtain s'
    where s': "deq r (prio (tcb s r)) c s = Some s'" by blast
  from that [OF s' deq_core_wf [OF wf e s'] deq_frame [OF s'] deq_prio [OF s']]
    \<open>cpu_id (tcb s r) = c\<close>
  show thesis .
qed

lemma rest_wf_upd: "rest_wf r s \<Longrightarrow> (\<And>t. active_entry (f t) = active_entry t) \<Longrightarrow> rest_wf r (upd_task r f s)"
  using same_queues_wf [of s "upd_task r f s"]
  by (simp add: rest_wf_def placed_def task_is_active_def same_queues_upd_task)

text \<open>Taking a job off its CPU, renaming the CPU, and putting it on the new one.\<close>

lemma move_job:
  assumes wf: "core_wf s" and e: "active_entry (tcb s r) = Some (c, i)" and c': "c' \<le> NR_RT_CPUS"
  obtains s1 s2 where "deq r (prio (tcb s r)) c s = Some s1"
    "enq r (prio (tcb s r)) c' (upd_task r (\<lambda>t. t\<lparr>cpu_id := c'\<rparr>) s1) = Some s2"
    "core_wf s2" "active_entry (tcb s2 r) = Some (c', i)" "prio (tcb s1 r) = prio (tcb s r)"
    "cpu_id (tcb s r) = c" "queue_frame r s s1"
    "queue_frame r (upd_task r (\<lambda>t. t\<lparr>cpu_id := c'\<rparr>) s1) s2"
proof -
  let ?f = "upd_task r (\<lambda>t. t\<lparr>cpu_id := c'\<rparr>)"
  have i: "queue_index (prio (tcb s r)) = Some i"
    using core_wfD(3) [OF wf, of r] e by (simp add: placed_def)
  obtain s1 where s1: "deq r (prio (tcb s r)) c s = Some s1" "core_wf s1"
    "active_entry (tcb s1 r) = None" "queue_frame r s s1" "prio (tcb s1 r) = prio (tcb s r)"
    "cpu_id (tcb s r) = c"
    by (rule deq_job [OF wf e])
  from enq_defined [OF c' i, of "?f s1" r] s1(3)
  obtain s2 where s2: "enq r (prio (tcb s r)) c' (?f s1) = Some s2" by auto
  have "rest_wf r (?f s1)" using s1(2) by (intro rest_wf_upd core_rest_wf) simp_all
  moreover have "glist_wf (?f s1)"
    using core_wfD(2) [OF s1(2)] glist_wf_cong [of "?f s1" s1] by simp
  moreover have "sclass (tcb (?f s1) r) \<noteq> FAIR_CLASS"
    using core_wfD(4) [OF wf, of r] e queue_frame_tcb(3) [OF s1(4)] by simp
  ultimately have "core_wf s2 \<and> active_entry (tcb s2 r) = Some (c', i)"
    using enq_core_wf [OF _ _ s2] s1(5) i by simp
  with that [OF s1(1) s2] s1 enq_frame [OF s2] show thesis by simp
qed

end


section \<open>Where an operation puts a task in the order\<close>

lemma split_parts_cong:
  assumes "\<And>j. j \<noteq> i \<Longrightarrow> queue a' j = queue a j"
  shows "head_order a' i = head_order a i" "tail_order a' (Suc i) = tail_order a (Suc i)"
  using assms by (auto simp: head_order_def tail_order_def intro!: arg_cong [where f = concat])

lemma edf_enqueue_order:
  assumes s': "edf_enqueue_task r p c s = Some s'"
  obtains ys zs where "active_order (act s c) = ys @ zs" "active_order (act s' c) = ys @ r # zs"
proof -
  obtain i where i: "queue_index p = Some i"
    and q: "queue (act s' c) i = insert_before (earlier_deadline s) r (queue (act s c) i)"
    and other: "\<And>j. j \<noteq> i \<Longrightarrow> queue (act s' c) j = queue (act s c) j"
    using s' by (auto simp: edf_enqueue_task_def edf_insert_is_insert_before mark_active_def list_link_def Let_def)
  let ?P = "\<lambda>x. \<not> earlier_deadline s r x"
  let ?us = "takeWhile ?P (queue (act s c) i)" and ?vs = "dropWhile ?P (queue (act s c) i)"
  have "active_order (act s c) = (head_order (act s c) i @ ?us) @ ?vs @ tail_order (act s c) (Suc i)"
    using order_split [OF queue_index_lt [OF i]] by simp
  moreover have "active_order (act s' c) = (head_order (act s c) i @ ?us) @ r # ?vs @ tail_order (act s c) (Suc i)"
    using order_split [OF queue_index_lt [OF i], of "act s' c"] split_parts_cong [OF other] q
    by (simp add: insert_before_split)
  ultimately show thesis by (rule that)
qed

lemma edf_dequeue_order:
  assumes wf: "active_wf s" and e: "active_entry (tcb s r) = Some (c, i)"
    and p: "queue_index p = Some i" and s': "edf_dequeue_task r p c s = Some s'"
  shows "active_order (act s' c) = remove1 r (active_order (act s c))"
proof -
  have q: "queue (act s' c) i = remove1 r (queue (act s c) i)"
    and other: "\<And>j. j \<noteq> i \<Longrightarrow> queue (act s' c) j = queue (act s c) j"
    using s' e p by (auto simp: edf_dequeue_task_def mark_inactive_def list_unlink_def)
  note at = active_order_at [OF wf e]
  have "active_order (act s' c) =
      head_order (act s c) i @ remove1 r (queue (act s c) i) @ tail_order (act s c) (Suc i)"
    using order_split [OF queue_index_lt [OF p], of "act s' c"] split_parts_cong [OF other] q by simp
  with at show ?thesis by (simp add: remove1_append)
qed

section \<open>Earliest deadline first on one CPU\<close>

text \<open>
  \<open>edf_run_ok\<close>: of the active tasks of a CPU exactly the head of the order is runnable.
  \<open>edf_sorted\<close>: the EDF queue of the CPU is sorted by absolute deadline.
\<close>

definition edf_run_ok :: "core \<Rightarrow> cpu \<Rightarrow> bool" where
  "edf_run_ok s c \<longleftrightarrow>
     (\<forall>x \<in> set (active_order (act s c)).
        tstate (task (tcb s x)) = TASK_RUNNING \<longleftrightarrow> head_option (active_order (act s c)) = Some x)"

definition edf_sorted :: "core \<Rightarrow> cpu \<Rightarrow> bool" where
  "edf_sorted s c \<longleftrightarrow> sorted_wrt (\<lambda>x y. \<not> earlier_deadline s y x) (queue (act s c) 95)"

lemma edf_sorted_cong:
  "queue (act s' c) 95 = queue (act s c) 95 \<Longrightarrow>
   (\<And>x. deadline_time (tcb s' x) = deadline_time (tcb s x)) \<Longrightarrow> edf_sorted s' c = edf_sorted s c"
  by (simp add: edf_sorted_def)

lemma edf_sorted_states [simp]:
  "edf_sorted (upd_linux r f s) c = edf_sorted s c"
  by (rule edf_sorted_cong) simp_all

lemma edf_enqueue_sorted:
  assumes "edf_sorted s c" "edf_enqueue_task r RESCH_PRIO_EDF c s = Some s'"
  shows "edf_sorted s' c"
proof -
  have q: "queue (act s' c) 95 = insert_before (earlier_deadline s) r (queue (act s c) 95)"
    using assms(2)
    by (auto simp: edf_enqueue_task_def edf_insert_is_insert_before mark_active_def list_link_def Let_def)
  have "deadline_time (tcb s' x) = deadline_time (tcb s x)" for x
    by (rule queue_frame_tcb(6) [OF edf.enq_frame [OF assms(2)]])
  with assms(1) q edf_order.insert_ordered [of s "queue (act s c) 95" r] show ?thesis
    by (simp add: edf_sorted_def)
qed

lemma edf_dequeue_sorted:
  assumes "edf_sorted s c" "edf_dequeue_task r p c s = Some s'"
  shows "edf_sorted s' c"
proof -
  have "queue (act s' c) 95 \<in> {queue (act s c) 95, remove1 r (queue (act s c) 95)}"
    using assms(2)
    by (auto simp: edf_dequeue_task_def mark_inactive_def list_unlink_def split: option.splits)
  moreover have "deadline_time (tcb s' x) = deadline_time (tcb s x)" for x
    by (rule queue_frame_tcb(6) [OF edf.deq_frame [OF assms(2)]])
  moreover have "sorted_wrt (\<lambda>x y. \<not> earlier_deadline s y x) (remove1 r (queue (act s c) 95))"
    using assms(1) unfolding edf_sorted_def by (rule edf_order.remove1_ordered)
  ultimately show ?thesis using assms(1) by (auto simp: edf_sorted_def)
qed

text \<open>Changing the state of Linux tasks leaves the order alone.\<close>

lemma act_states [simp]:
  "lo (set_tstate r p s) = lo s" "lo (wake_up_process r s) = lo s" "lo (set_tsk_need_resched r s) = lo s"
  by (simp_all add: set_tstate_def wake_up_process_def set_tsk_need_resched_def)

lemma tcb_states [simp]:
  "tstate (task (tcb (set_tstate r p s) x)) = (if x = r then p else tstate (task (tcb s x)))"
  "tstate (task (tcb (wake_up_process r s) x)) = (if x = r then TASK_RUNNING else tstate (task (tcb s x)))"
  "tstate (task (tcb (set_tsk_need_resched r s) x)) = tstate (task (tcb s x))"
  "active_entry (tcb (set_tstate r p s) x) = active_entry (tcb s x)"
  "active_entry (tcb (wake_up_process r s) x) = active_entry (tcb s x)"
  "active_entry (tcb (set_tsk_need_resched r s) x) = active_entry (tcb s x)"
  "edf_sorted (set_tstate r p s) c = edf_sorted s c"
  "edf_sorted (wake_up_process r s) c = edf_sorted s c"
  "edf_sorted (set_tsk_need_resched r s) c = edf_sorted s c"
  by (simp_all add: set_tstate_def wake_up_process_def set_tsk_need_resched_def)

lemma edf_job_start_steps:
  assumes wf: "core_wf s" and idle: "active_entry (tcb s r) = None" and c: "cpu_id (tcb s r) = c"
    "c \<le> NR_RT_CPUS" and p: "prio (tcb s r) = RESCH_PRIO_EDF" and cls: "sclass (tcb s r) \<noteq> FAIR_CLASS"
  obtains s1 ys zs where "edf_enqueue_task r RESCH_PRIO_EDF c s = Some s1" "core_wf s1"
    "active_entry (tcb s1 r) = Some (c, 95)" "queue_frame r s s1"
    "active_order (act s c) = ys @ zs" "active_order (act s1 c) = ys @ r # zs"
    "edf_job_start r s = Some
       (if ys = [] then (case head_option zs of None \<Rightarrow> s1
                         | Some x \<Rightarrow> set_tsk_need_resched x (set_tstate x TASK_INTERRUPTIBLE s1))
        else set_tstate r TASK_INTERRUPTIBLE s1)"
proof -
  obtain s1 where s1: "edf_enqueue_task r RESCH_PRIO_EDF c s = Some s1" "core_wf s1"
    "active_entry (tcb s1 r) = Some (c, 95)" "queue_frame r s s1" "prio (tcb s1 r) = RESCH_PRIO_EDF"
    by (rule edf.enq_job [OF wf idle, of 95]) (use c p cls in auto)
  obtain ys zs where o: "active_order (act s c) = ys @ zs" "active_order (act s1 c) = ys @ r # zs"
    by (rule edf_enqueue_order [OF s1(1)])
  have hp: "active_highest_prio_task c s1 = Some (head_option (ys @ r # zs))"
    using active_highest_spec [OF core_wfD(1) [OF s1(2)] c(2)] o by simp
  have nxt: "active_next_prio_task r s1 = Some (head_option zs)" if "ys = []"
    using active_next_spec [OF core_wfD(1) [OF s1(2)] s1(3) core_wfD(3) [OF s1(2)]] s1(5) o that
    by (cases zs) (auto simp: resch_consts)
  have "r \<notin> set (active_order (act s c))"
    using set_active_order [OF core_wfD(1) [OF wf], of r c] idle by simp
  with o have "head_option (ys @ r # zs) = Some r \<longleftrightarrow> ys = []" by (cases ys) auto
  with hp nxt s1(1) c have "edf_job_start r s = Some
       (if ys = [] then (case head_option zs of None \<Rightarrow> s1
                         | Some x \<Rightarrow> set_tsk_need_resched x (set_tstate x TASK_INTERRUPTIBLE s1))
        else set_tstate r TASK_INTERRUPTIBLE s1)"
    by (auto simp: edf_job_start_def)
  with that s1(1-4) o show thesis by blast
qed

lemma edf_job_start_spec:
  assumes wf: "core_wf s" and idle: "active_entry (tcb s r) = None" and c: "cpu_id (tcb s r) = c"
    "c \<le> NR_RT_CPUS" and p: "prio (tcb s r) = RESCH_PRIO_EDF" and cls: "sclass (tcb s r) \<noteq> FAIR_CLASS"
    and run: "edf_run_ok s c" "tstate (task (tcb s r)) = TASK_RUNNING" and sorted: "edf_sorted s c"
  shows "\<exists>s'. edf_job_start r s = Some s' \<and> core_wf s' \<and> active_entry (tcb s' r) = Some (c, 95) \<and>
     edf_run_ok s' c \<and> edf_sorted s' c"
proof -
  obtain s1 ys zs where s1: "edf_enqueue_task r RESCH_PRIO_EDF c s = Some s1" "core_wf s1"
    "active_entry (tcb s1 r) = Some (c, 95)" "queue_frame r s s1"
    and o: "active_order (act s c) = ys @ zs" "active_order (act s1 c) = ys @ r # zs"
    and step: "edf_job_start r s = Some
       (if ys = [] then (case head_option zs of None \<Rightarrow> s1
                         | Some x \<Rightarrow> set_tsk_need_resched x (set_tstate x TASK_INTERRUPTIBLE s1))
        else set_tstate r TASK_INTERRUPTIBLE s1)"
    by (rule edf_job_start_steps [OF wf idle c p cls])
  have new: "r \<notin> set (active_order (act s c))"
    using set_active_order [OF core_wfD(1) [OF wf], of r c] idle by simp
  have st: "task (tcb s1 x) = task (tcb s x)" for x by (rule queue_frame_tcb(7) [OF s1(4)])
  have sorted1: "edf_sorted s1 c" by (rule edf_enqueue_sorted [OF sorted s1(1)])
  show ?thesis
    using s1 step sorted1 run st o new
    by (cases ys; cases zs) (auto simp: edf_run_ok_def)
qed

lemma rest_not_first:
  "\<forall>x \<in> set os. P x \<longleftrightarrow> head_option os = Some x \<Longrightarrow> distinct os \<Longrightarrow> remove1 r os = y # ys \<Longrightarrow>
   x \<in> set ys \<Longrightarrow> \<not> P x"
  by (cases os) (auto split: if_splits dest: notin_set_remove1 [THEN contrapos_pn, rotated])

lemma edf_job_complete_steps:
  assumes wf: "core_wf s" and e: "active_entry (tcb s r) = Some (c, i)"
    and p: "prio (tcb s r) = RESCH_PRIO_EDF"
  obtains s1 where "edf_dequeue_task r RESCH_PRIO_EDF c s = Some s1" "core_wf s1"
    "active_entry (tcb s1 r) = None" "queue_frame r s s1"
    "active_order (act s1 c) = remove1 r (active_order (act s c))"
    "edf_job_complete r s = Some (case head_option (active_order (act s1 c)) of
       None \<Rightarrow> s1 | Some x \<Rightarrow> wake_up_process x s1)"
proof -
  obtain s1 where s1: "edf_dequeue_task r (prio (tcb s r)) c s = Some s1" "core_wf s1"
    "active_entry (tcb s1 r) = None" "queue_frame r s s1" "prio (tcb s1 r) = prio (tcb s r)"
    "cpu_id (tcb s r) = c"
    by (rule edf.deq_job [OF wf e])
  have "queue_index (prio (tcb s r)) = Some i"
    using core_wfD(3) [OF wf, of r] e by (simp add: placed_def)
  then have o: "active_order (act s1 c) = remove1 r (active_order (act s c))"
    using edf_dequeue_order [OF core_wfD(1) [OF wf] e _ s1(1)] by simp
  have "upd_task r (\<lambda>t. t\<lparr>prio := RESCH_PRIO_EDF\<rparr>) s1 = s1"
    using p s1(5) by (simp add: upd_task_def fun_upd_idem)
  moreover have "active_highest_prio_task c s1 = Some (head_option (active_order (act s1 c)))"
    using active_highest_spec [OF core_wfD(1) [OF s1(2)]] active_wfD(4) [OF core_wfD(1) [OF wf] e] by simp
  ultimately have "edf_job_complete r s = Some (case head_option (active_order (act s1 c)) of
       None \<Rightarrow> s1 | Some x \<Rightarrow> wake_up_process x s1)"
    using s1 by (simp add: edf_job_complete_def Let_def split: option.split)
  with that s1 p o show thesis by simp
qed

lemma edf_job_complete_spec:
  assumes wf: "core_wf s" and e: "active_entry (tcb s r) = Some (c, i)"
    and p: "prio (tcb s r) = RESCH_PRIO_EDF" and run: "edf_run_ok s c" and sorted: "edf_sorted s c"
  shows "\<exists>s'. edf_job_complete r s = Some s' \<and> core_wf s' \<and> active_entry (tcb s' r) = None \<and>
     edf_run_ok s' c \<and> edf_sorted s' c"
proof -
  obtain s1 where s1: "edf_dequeue_task r RESCH_PRIO_EDF c s = Some s1" "core_wf s1"
    "active_entry (tcb s1 r) = None" "queue_frame r s s1"
    and o: "active_order (act s1 c) = remove1 r (active_order (act s c))"
    and step: "edf_job_complete r s = Some (case head_option (active_order (act s1 c)) of
       None \<Rightarrow> s1 | Some x \<Rightarrow> wake_up_process x s1)"
    by (rule edf_job_complete_steps [OF wf e p])
  have d: "distinct (active_order (act s c))" by (rule distinct_active_order [OF core_wfD(1) [OF wf]])
  have sorted1: "edf_sorted s1 c" by (rule edf_dequeue_sorted [OF sorted s1(1)])
  have st: "task (tcb s1 x) = task (tcb s x)" for x by (rule queue_frame_tcb(7) [OF s1(4)])
  have "edf_run_ok (case head_option (active_order (act s1 c)) of None \<Rightarrow> s1
                    | Some x \<Rightarrow> wake_up_process x s1) c"
  proof (cases "active_order (act s1 c)")
    case Nil
    then show ?thesis by (simp add: edf_run_ok_def)
  next
    case (Cons y ys)
    with o run d have "x \<in> set ys \<Longrightarrow> tstate (task (tcb s x)) \<noteq> TASK_RUNNING" for x
      using rest_not_first [of "active_order (act s c)" "\<lambda>x. tstate (task (tcb s x)) = TASK_RUNNING" r y ys x]
      by (simp add: edf_run_ok_def)
    moreover have "y \<notin> set ys" using d o Cons by (metis distinct.simps(2) distinct_remove1)
    ultimately show ?thesis using Cons st by (auto simp: edf_run_ok_def)
  qed
  with s1 step sorted1 show ?thesis
    by (auto split: option.splits)
qed

section \<open>Starting, completing and migrating a job in any class\<close>

text \<open>The EDF classes keep their tasks at one priority.\<close>

definition edf_prio_ok :: "core \<Rightarrow> rid \<Rightarrow> bool" where
  "edf_prio_ok s r \<longleftrightarrow> (sclass (tcb s r) = EDF_CLASS \<longrightarrow> prio (tcb s r) = RESCH_PRIO_EDF)"

lemma class_job_start_spec:
  assumes wf: "core_wf s" and idle: "active_entry (tcb s r) = None"
    and c: "cpu_id (tcb s r) \<le> NR_RT_CPUS" and i: "queue_index (prio (tcb s r)) = Some i"
    and ok: "edf_prio_ok s r" and cls: "sclass (tcb s r) \<noteq> FAIR_CLASS"
  shows "\<exists>s'. class_job_start k r s = Some s' \<and> core_wf s' \<and>
     active_entry (tcb s' r) = Some (cpu_id (tcb s r), i)"
proof (cases "sclass (tcb s r)")
  case FP_CLASS
  show ?thesis
    by (rule fp.enq_job [OF wf idle c i cls]) (simp add: class_job_start_def FP_CLASS fp_job_start_def)
next
  case EDF_CLASS
  with ok have p: "prio (tcb s r) = RESCH_PRIO_EDF" by (simp add: edf_prio_ok_def)
  show ?thesis
  proof (cases "has_sched_deadline k")
    case True
    show ?thesis
      by (rule dl.enq_job [OF wf idle c i cls])
         (use p True in \<open>simp add: class_job_start_def EDF_CLASS dl_job_start_def\<close>)
  next
    case False
    show ?thesis
      by (rule edf_job_start_steps [OF wf idle refl c p cls])
         (use i p False in \<open>auto simp: class_job_start_def EDF_CLASS split: option.splits\<close>)
  qed
qed (use cls in simp)

lemma class_job_complete_spec:
  assumes wf: "core_wf s" and e: "active_entry (tcb s r) = Some (c, i)" and ok: "edf_prio_ok s r"
  shows "\<exists>s'. class_job_complete k r s = Some s' \<and> core_wf s' \<and> active_entry (tcb s' r) = None"
proof (cases "sclass (tcb s r)")
  case FAIR_CLASS
  with core_wfD(4) [OF wf, of r] e show ?thesis by simp
next
  case FP_CLASS
  show ?thesis
    by (rule fp.deq_job [OF wf e]) (simp add: class_job_complete_def FP_CLASS fp_job_complete_def)
next
  case EDF_CLASS
  with ok have p: "prio (tcb s r) = RESCH_PRIO_EDF" by (simp add: edf_prio_ok_def)
  show ?thesis
  proof (cases "has_sched_deadline k")
    case True
    show ?thesis
      by (rule dl.deq_job [OF wf e])
         (use p True in \<open>simp add: class_job_complete_def EDF_CLASS dl_job_complete_def\<close>)
  next
    case False
    show ?thesis
      by (rule edf_job_complete_steps [OF wf e p])
         (use False in \<open>auto simp: class_job_complete_def EDF_CLASS split: option.splits\<close>)
  qed
qed

lemma migrate_effect [simp]:
  "active_entry (tcb (kernel_migrate_task r c s) x) = active_entry (tcb s x)"
  "cpu_id (tcb (kernel_migrate_task r c s) x) = cpu_id (tcb s x)"
  "cpus_allowed (task (tcb (kernel_migrate_task r c s) r)) = {c}"
  by (auto simp: kernel_migrate_task_def)

lemma account_effect [simp]:
  "active_entry (tcb (fp_start_account k r s) x) = active_entry (tcb s x)"
  "active_entry (tcb (fp_stop_account r s) x) = active_entry (tcb s x)"
  "cpu_id (tcb (fp_start_account k r s) x) = cpu_id (tcb s x)"
  "cpu_id (tcb (fp_stop_account r s) x) = cpu_id (tcb s x)"
  "cpus_allowed (task (tcb (fp_start_account k r s) x)) = cpus_allowed (task (tcb s x))"
  "cpus_allowed (task (tcb (fp_stop_account r s) x)) = cpus_allowed (task (tcb s x))"
  by (auto simp: fp_start_account_def fp_stop_account_def Let_def)

lemma fp_migrate_spec:
  assumes wf: "core_wf s" and c: "cpu_id (tcb s r) \<le> NR_RT_CPUS" "dst \<le> NR_RT_CPUS"
    and e: "active_entry (tcb s r) = Some (src, i)"
  shows "\<exists>s'. fp_migrate_task k r dst s = Some s' \<and> core_wf s' \<and>
     active_entry (tcb s' r) = Some (dst, i) \<and> cpu_id (tcb s' r) = dst \<and>
     cpus_allowed (task (tcb s' r)) = {dst}"
proof (cases "cpu_id (tcb s r) = dst")
  case True
  with core_wfD(3) [OF wf, of r] e have "src = dst" by (simp add: placed_def)
  with True wf e show ?thesis by (auto simp: fp_migrate_task_def Let_def)
next
  case False
  obtain s1 s2 where m: "fp_dequeue_task r (prio (tcb s r)) src s = Some s1"
    "fp_enqueue_task r (prio (tcb s r)) dst (upd_task r (\<lambda>t. t\<lparr>cpu_id := dst\<rparr>) s1) = Some s2"
    "core_wf s2" "active_entry (tcb s2 r) = Some (dst, i)" "prio (tcb s1 r) = prio (tcb s r)"
    "cpu_id (tcb s r) = src" "queue_frame r (upd_task r (\<lambda>t. t\<lparr>cpu_id := dst\<rparr>) s1) s2"
    by (rule fp.move_job [OF wf e c(2)])
  have "cpu_id (tcb s2 r) = dst" using queue_frame_tcb(2) [OF m(7), of r] by simp
  with m False c e show ?thesis
    by (auto simp: fp_migrate_task_def Let_def task_is_active_def)
qed


section \<open>Properties\<close>

lemma boot_core_wf: "core_wf boot"
proof -
  have "active_entry (tcb boot r) = None" for r by (simp add: boot_defs)
  then show ?thesis
    using boot_active_wf
    by (simp add: core_wf_def placed_def task_is_active_def glist_wf_def glist_links_def boot_defs)
qed

text \<open>Task \<open>r\<close> as a ready EDF task with deadline \<open>d\<close>, on CPU 0.\<close>

definition edf_ready :: "rid \<Rightarrow> u64 \<Rightarrow> core \<Rightarrow> core" where
  "edf_ready r d = upd_task r (\<lambda>t. t\<lparr>sclass := EDF_CLASS, policy := RESCH_SCHED_EDF,
     prio := RESCH_PRIO_EDF, deadline_time := d\<rparr>)"

lemma edf_ready_boot:
  "core_wf (edf_ready 3 9 boot)" "core_wf (edf_ready 4 5 (edf_ready 3 9 boot))"
  unfolding edf_ready_def
  by (intro core_wf_upd_idle boot_core_wf; simp add: boot_defs)+

lemma link_core_wf:
  assumes wf: "core_wf s" and "active_entry (tcb s r) = None" "cpu_id (tcb s r) = c" "c \<le> NR_RT_CPUS"
    and "queue_index (prio (tcb s r)) = Some i" "sclass (tcb s r) \<noteq> FAIR_CLASS"
  shows "core_wf (mark_active c i (list_link r c i (queue (act s c) i @ [r]) s))"
  by (rule fp.enq_core_wf(1) [OF core_rest_wf [OF wf] core_wfD(2) [OF wf]])
     (use assms in \<open>auto simp: fp_enqueue_task_def\<close>)

text \<open>Task 3 runs on CPU 0, task 4 on CPU 1; both are EDF tasks.\<close>

definition edf_two_cpus :: core where
  "edf_two_cpus =
     (let s = upd_task 4 (\<lambda>t. t\<lparr>cpu_id := 1\<rparr>) (edf_ready 4 5 (edf_ready 3 9 boot));
          s = mark_active 0 95 (list_link 3 0 95 (queue (act s 0) 95 @ [3]) s)
      in mark_active 1 95 (list_link 4 1 95 (queue (act s 1) 95 @ [4]) s))"

lemma edf_two_cpus_facts:
  "active_entry (tcb edf_two_cpus 3) = Some (0, 95)" "active_entry (tcb edf_two_cpus 4) = Some (1, 95)"
  "prio (tcb edf_two_cpus 3) = RESCH_PRIO_EDF" "cpu_id (tcb edf_two_cpus 3) = 0"
  "tstate (task (tcb edf_two_cpus r)) = TASK_RUNNING"
  "queue (act edf_two_cpus c) i = (if i = 95 \<and> c = 0 then [3] else if i = 95 \<and> c = 1 then [4] else [])"
  by (simp_all add: edf_two_cpus_def Let_def edf_ready_def boot_defs mark_active_def list_link_def)

lemma edf_two_cpus_wf: "core_wf edf_two_cpus"
  unfolding edf_two_cpus_def Let_def
  by (intro link_core_wf core_wf_upd_idle edf_ready_boot)
     (simp_all add: edf_ready_def boot_defs mark_active_def list_link_def NR_RT_CPUS_def)

lemma edf_two_cpus_order: "active_order (act edf_two_cpus 0) = [3]"
proof -
  have "active_order (act edf_two_cpus 0) =
      head_order (act edf_two_cpus 0) 95 @ queue (act edf_two_cpus 0) 95 @ tail_order (act edf_two_cpus 0) (Suc 95)"
    by (rule order_split) (simp add: resch_consts)
  moreover have "head_order (act edf_two_cpus 0) 95 = []" "tail_order (act edf_two_cpus 0) (Suc 95) = []"
    by (simp_all add: head_order_def tail_order_def edf_two_cpus_facts)
  ultimately show ?thesis by (simp add: edf_two_cpus_facts)
qed

text \<open>C3: starting a job of a runnable EDF task keeps the core well formed and the EDF queue
  of its CPU sorted by deadline, and of the active tasks of the CPU exactly the first one
  in the order is left runnable: the new job preempts the running one or goes to sleep.\<close>

theorem edf_start_runs_earliest:
  assumes "core_wf s" "\<not> task_is_active s r" "cpu_id (tcb s r) = c" "c \<le> NR_RT_CPUS"
    and "prio (tcb s r) = RESCH_PRIO_EDF" "sclass (tcb s r) = EDF_CLASS"
    and "edf_run_ok s c" "tstate (task (tcb s r)) = TASK_RUNNING" "edf_sorted s c"
  shows "\<exists>s'. edf_job_start r s = Some s' \<and> core_wf s' \<and>
     active_entry (tcb s' r) = Some (c, 95) \<and> edf_run_ok s' c \<and> edf_sorted s' c"
  using assms by (intro edf_job_start_spec) (simp_all add: task_not_active)

theorem edf_start_runs_earliest_witness:
  "\<exists>s'. edf_job_start 3 (edf_ready 3 9 boot) = Some s' \<and> edf_run_ok s' 0"
proof -
  have "active_order (act (edf_ready 3 9 boot) 0) = []"
    by (simp add: active_order_def edf_ready_def boot_defs)
  then have "edf_run_ok (edf_ready 3 9 boot) 0" "edf_sorted (edf_ready 3 9 boot) 0"
    by (simp_all add: edf_run_ok_def edf_sorted_def) (simp add: edf_ready_def boot_defs)
  then show ?thesis
    using edf_start_runs_earliest [OF edf_ready_boot(1), of 3 0]
    by (auto simp: edf_ready_def boot_defs NR_RT_CPUS_def task_is_active_def)
qed

text \<open>C4: completing a job of an EDF task takes it off its CPU and wakes the next one: again
  exactly the first task of the order is runnable, and the queue stays sorted.\<close>

theorem edf_complete_runs_next:
  assumes "core_wf s" "active_entry (tcb s r) = Some (c, i)" "prio (tcb s r) = RESCH_PRIO_EDF"
    and "edf_run_ok s c" "edf_sorted s c"
  shows "\<exists>s'. edf_job_complete r s = Some s' \<and> core_wf s' \<and> \<not> task_is_active s' r \<and>
     edf_run_ok s' c \<and> edf_sorted s' c"
  using edf_job_complete_spec [OF assms] by (auto simp: task_is_active_def)

theorem edf_complete_runs_next_witness:
  "\<exists>s'. edf_job_complete 3 edf_two_cpus = Some s' \<and> core_wf s' \<and> edf_run_ok s' 0"
proof -
  have "edf_run_ok edf_two_cpus 0" "edf_sorted edf_two_cpus 0"
    by (simp_all add: edf_run_ok_def edf_sorted_def edf_two_cpus_order edf_two_cpus_facts)
  then show ?thesis
    using edf_complete_runs_next [OF edf_two_cpus_wf edf_two_cpus_facts(1,3)] by auto
qed

text \<open>migrating an active fixed-priority task moves it to the queue of the same priority
  on the destination CPU, updates its CPU and pins the Linux task there, and keeps the core
  well formed.\<close>

theorem fp_migrate_moves_job:
  assumes "core_wf s" "cpu_id (tcb s r) \<le> NR_RT_CPUS" "dst \<le> NR_RT_CPUS"
    and "active_entry (tcb s r) = Some (src, i)"
  shows "\<exists>s'. fp_migrate_task k r dst s = Some s' \<and> core_wf s' \<and>
     active_entry (tcb s' r) = Some (dst, i) \<and> cpu_id (tcb s' r) = dst \<and>
     cpus_allowed (task (tcb s' r)) = {dst}"
  using assms by (rule fp_migrate_spec)

theorem fp_migrate_moves_job_witness:
  "\<exists>s'. fp_migrate_task kernel0 3 2 two_fp = Some s' \<and> core_wf s' \<and>
     active_entry (tcb s' 3) = Some (2, 60)"
proof -
  have "cpu_id (tcb two_fp 3) = 0" "active_entry (tcb two_fp 3) = Some (0, 60)"
    using two_tasks_facts(1,3) by (simp_all add: two_fp_def placed_def)
  then show ?thesis
    using fp_migrate_moves_job [OF two_fp_wf, of 3 2 0 60 kernel0] by (auto simp: NR_RT_CPUS_def)
qed

text \<open>migrating the running EDF task to a CPU that runs another EDF task leaves both
  runnable there, since the code looks for the running task in the queue of priority
  \<open>RESCH_PRIO_EDF_RUN\<close>, which no operation fills.\<close>

theorem edf_migrate_two_running:
  assumes wf: "core_wf s" and e: "active_entry (tcb s r) = Some (src, i)"
    and p: "prio (tcb s r) = RESCH_PRIO_EDF"
    and dst: "dst \<noteq> src" "dst \<le> NR_RT_CPUS" and empty: "queue (act s dst) 94 = []"
    and x: "active_entry (tcb s x) = Some (dst, j)"
    and run: "tstate (task (tcb s r)) = TASK_RUNNING" "tstate (task (tcb s x)) = TASK_RUNNING"
  shows "\<exists>s'. edf_migrate_task k r dst s = Some s' \<and>
     active_entry (tcb s' r) = Some (dst, i) \<and> active_entry (tcb s' x) = Some (dst, j) \<and>
     tstate (task (tcb s' r)) = TASK_RUNNING \<and> tstate (task (tcb s' x)) = TASK_RUNNING"
proof -
  have src: "src \<le> NR_RT_CPUS" by (rule active_wfD(4) [OF core_wfD(1) [OF wf] e])
  have xr: "x \<noteq> r" using e x dst by auto
  obtain s1 s2 where m: "edf_dequeue_task r (prio (tcb s r)) src s = Some s1"
    "edf_enqueue_task r (prio (tcb s r)) dst (upd_task r (\<lambda>t. t\<lparr>cpu_id := dst\<rparr>) s1) = Some s2"
    "active_entry (tcb s2 r) = Some (dst, i)" "prio (tcb s1 r) = prio (tcb s r)"
    "cpu_id (tcb s r) = src" "queue_frame r s s1"
    "queue_frame r (upd_task r (\<lambda>t. t\<lparr>cpu_id := dst\<rparr>) s1) s2"
    by (rule edf.move_job [OF wf e dst(2)])
  have "act s1 dst = act s dst"
    using m(1) dst(1) e
    by (auto simp: edf_dequeue_task_def mark_inactive_def list_unlink_def)
  then have curr: "active_prio_task dst RESCH_PRIO_EDF_RUN s1 = Some None"
    using empty dst(2) by (simp add: active_prio_task_def)
  have hp: "active_highest_prio_task src s = Some (head_option (active_order (act s src)))"
    by (rule active_highest_spec [OF core_wfD(1) [OF wf] src])
  have "active_next_prio_task r s = Some (next_in r (active_order (act s src)))"
    using active_next_spec [OF core_wfD(1) [OF wf] e core_wfD(3) [OF wf]] p by (simp add: resch_consts)
  with hp obtain next_src where nxt: "(if head_option (active_order (act s src)) = Some r
      then active_next_prio_task r s else Some None) = Some next_src"
    by (cases "head_option (active_order (act s src)) = Some r") auto
  have st: "task (tcb s2 y) = task (tcb s y)" for y
    using queue_frame_tcb(7) [OF m(6), of y] queue_frame_tcb(7) [OF m(7), of y] by (simp split: if_splits)
  have x2: "active_entry (tcb s2 x) = Some (dst, j)"
    using x xr queue_frame_tcb(1) [OF m(6) xr] queue_frame_tcb(1) [OF m(7) xr] by simp
  show ?thesis
    using m dst src e hp nxt curr run st x2 xr
    by (auto simp: edf_migrate_task_def Let_def task_is_active_def edf_start_account_def
        edf_stop_account_def kernel_migrate_task_def split: option.splits)
qed

theorem edf_migrate_two_running_witness:
  "\<exists>s'. edf_migrate_task kernel0 3 1 edf_two_cpus = Some s' \<and>
     tstate (task (tcb s' 3)) = TASK_RUNNING \<and> tstate (task (tcb s' 4)) = TASK_RUNNING"
  using edf_migrate_two_running [OF edf_two_cpus_wf edf_two_cpus_facts(1,3), of 1 4 95 kernel0]
  by (auto simp: edf_two_cpus_facts NR_RT_CPUS_def)

text \<open>over \<open>SCHED_DEADLINE\<close> a job is always queued at \<open>RESCH_PRIO_EDF\<close> but the
  descriptor keeps its own priority: a task with any other priority is not in the queue its
  descriptor names, and as the last of its queue it has no defined successor.\<close>

theorem dl_job_start_misplaces:
  assumes wf: "core_wf s" and idle: "\<not> task_is_active s r" and c: "cpu_id (tcb s r) \<le> NR_RT_CPUS"
    and p: "prio (tcb s r) \<noteq> RESCH_PRIO_EDF" and "queue (act s (cpu_id (tcb s r))) 95 = []"
  shows "\<exists>s'. dl_job_start r s = Some s' \<and> \<not> core_wf s' \<and> active_next_prio_task r s' = None"
proof -
  let ?c = "cpu_id (tcb s r)"
  have ne: "queue_index (prio (tcb s r)) \<noteq> Some 95"
    using p by (auto simp: queue_index_def queue_slot_def prio_index_def resch_consts split: if_splits)
  let ?s' = "mark_active ?c 95 (list_link r ?c 95 [r] s)"
  have s': "dl_job_start r s = Some ?s'"
    using idle c assms(5) by (simp add: dl_job_start_def dl_enqueue_task_def task_not_active)
  have fr: "queue_frame r s ?s'" by (rule frame_link)
  have "\<not> placed ?s' r"
    using ne by (simp add: placed_def)
  moreover have "queue (act ?s' ?c) 95 = [r]" by (simp add: mark_active_def list_link_def)
  then have "active_next_prio_task r ?s' = None"
    using ne c queue_frame_tcb(2) [OF fr, of r]
    by (auto simp: active_next_prio_task_def Let_def split: bind_splits)
  ultimately show ?thesis using s' core_wfD(3) by blast
qed

theorem dl_job_start_misplaces_witness:
  "\<exists>s'. dl_job_start 3 (upd_task 3 (\<lambda>t. t\<lparr>prio := 20\<rparr>) (edf_ready 3 9 boot)) = Some s' \<and> \<not> core_wf s'"
proof -
  have "core_wf (upd_task 3 (\<lambda>t. t\<lparr>prio := 20\<rparr>) (edf_ready 3 9 boot))"
    by (intro core_wf_upd_idle edf_ready_boot) (simp_all add: edf_ready_def boot_defs)
  from dl_job_start_misplaces [OF this, of 3] show ?thesis
    by (auto simp: edf_ready_def boot_defs task_is_active_def resch_consts)
qed

end
