(* ===== verification/Reservation.thy ===== *)
theory Reservation
  imports Class_Ops
begin

text \<open>
  CPU reservations (\<open>core/reservation.c\<close>): the accounting of a task's budget, its
  replenishment and expiration, and the aperiodic server. Timers are their expiry times;
  their handlers \<open>on_replenish\<close> and \<open>server_handler\<close> are steps of their own.
\<close>

section \<open>Accounting\<close>

definition remaining_budget :: "kenv \<Rightarrow> core \<Rightarrow> rid \<Rightarrow> u64" where
  "remaining_budget k s r = reserve_time (tcb s r) - min (exec_time k s r) (reserve_time (tcb s r))"

definition start_account :: "kenv \<Rightarrow> rid \<Rightarrow> core \<Rightarrow> core" where
  "start_account k r s =
     (if \<not> task_is_accounting s r
      then let b = remaining_budget k s r;
               s1 = upd_task r (\<lambda>t. t\<lparr>budget := b\<rparr>) s;
               s2 = class_start_account k r s1
           in upd_task r (\<lambda>t. t\<lparr>accounting := True\<rparr>) s2
      else s)"

definition stop_account :: "kenv \<Rightarrow> rid \<Rightarrow> core \<Rightarrow> core" where
  "stop_account k r s =
     (let s1 = (if task_is_accounting s r
                then let b = remaining_budget k s r;
                         s1 = upd_task r (\<lambda>t. t\<lparr>budget := b\<rparr>) s;
                         s2 = class_stop_account k r s1
                     in upd_task r (\<lambda>t. t\<lparr>accounting := False\<rparr>) s2
                else s)
      in if server (tcb s1 r) \<noteq> None then upd_task r (\<lambda>t. t\<lparr>server := None\<rparr>) s1 else s1)"

definition preempt_account :: "kenv \<Rightarrow> rid \<Rightarrow> core \<Rightarrow> core" where
  "preempt_account k r s = (if task_is_accounting s r then stop_account k r s else s)"

definition suspend_account :: "kenv \<Rightarrow> rid \<Rightarrow> core \<Rightarrow> core" where
  "suspend_account k r s =
     (if task_is_accounting s r
      then let s1 = stop_account k r s in
           (case server (tcb s1 r) of
              Some sv \<Rightarrow>
                if exec_delta k s1 r \<noteq> 0
                then upd_task r (\<lambda>t. t\<lparr>server := Some (sv\<lparr>capacity :=
                       min (exec_time k s1 r) (budget (tcb s1 r))\<rparr>)\<rparr>) s1
                else s1
            | None \<Rightarrow> s1)
      else upd_task r (\<lambda>t. t\<lparr>budget := budget t + exec_delta k s r\<rparr>) s)"

definition resume_account :: "kenv \<Rightarrow> rid \<Rightarrow> core \<Rightarrow> core" where
  "resume_account k r s = start_account k r s"

section \<open>Timer handlers\<close>

text \<open>The timer of a server is deleted before the server is freed.\<close>

definition server_handler :: "rid \<Rightarrow> core \<Rightarrow> core option" where
  "server_handler r s = do {
     sv \<leftarrow> server (tcb s r);
     Some (upd_task r (\<lambda>t. t\<lparr>budget := budget t + capacity sv, server := None\<rparr>) s)
   }"

definition on_replenish :: "kenv \<Rightarrow> rid \<Rightarrow> core \<Rightarrow> core option" where
  "on_replenish k r s = class_reserve_replenish k r (reserve_time (tcb s r)) s"

definition del_replenish_timer :: "rid \<Rightarrow> core \<Rightarrow> core" where
  "del_replenish_timer r s =
     (if replenish_timer (tcb s r) \<noteq> None then upd_task r (\<lambda>t. t\<lparr>replenish_timer := None\<rparr>) s else s)"

section \<open>Reserves\<close>

definition reserve_replenish :: "kenv \<Rightarrow> rid \<Rightarrow> core \<Rightarrow> core option" where
  "reserve_replenish k r s = do {
     s1 \<leftarrow> (if release_time (tcb s r) + period (tcb s r) > jiffies s \<or> replenish_timer (tcb s r) = None
            then class_reserve_replenish k r (reserve_time (tcb s r)) s
            else Some s);
     Some (del_replenish_timer r s1)
   }"

definition reserve_start :: "kenv \<Rightarrow> rid \<Rightarrow> u64 \<Rightarrow> bool \<Rightarrow> core \<Rightarrow> core" where
  "reserve_start k r cputime xc s =
     start_account k r
       (upd_task r (\<lambda>t. t\<lparr>replenish_timer := None, reserve_time := msecs_to_jiffies k cputime,
                          xcpu := xc\<rparr>) s)"

definition reserve_stop :: "kenv \<Rightarrow> rid \<Rightarrow> core \<Rightarrow> core" where
  "reserve_stop k r s =
     upd_task r (\<lambda>t. t\<lparr>reserve_time := 0\<rparr>) (stop_account k r (del_replenish_timer r s))"

section \<open>The API\<close>

definition api_reserve_start :: "kenv \<Rightarrow> int \<Rightarrow> u64 \<Rightarrow> bool \<Rightarrow> core \<Rightarrow> (int \<times> core) option" where
  "api_reserve_start k rid cputime xc s = do {
     r \<leftarrow> resch_task_ptr rid;
     Some (if \<not> task_has_reserve s r then (RES_SUCCESS, reserve_start k r cputime xc s)
           else (RES_FAULT, s))
   }"

definition api_reserve_stop :: "kenv \<Rightarrow> int \<Rightarrow> core \<Rightarrow> (int \<times> core) option" where
  "api_reserve_stop k rid s = do {
     r \<leftarrow> resch_task_ptr rid;
     Some (if task_has_reserve s r then (RES_SUCCESS, reserve_stop k r s) else (RES_FAULT, s))
   }"

definition api_reserve_expire :: "kenv \<Rightarrow> int \<Rightarrow> core \<Rightarrow> (int \<times> core) option" where
  "api_reserve_expire k rid s = do {
     r \<leftarrow> resch_task_ptr rid;
     if \<not> task_has_reserve s r then Some (RES_FAULT, schedule k s)
     else do {
       let s1 = (if task_is_accounting s r then stop_account k r s else s);
       if release_time (tcb s1 r) + period (tcb s1 r) \<le> jiffies s1
       then do {
         s2 \<leftarrow> class_reserve_replenish k r (reserve_time (tcb s1 r)) s1;
         Some (RES_SUCCESS, start_account k r s2)
       }
       else do {
         s2 \<leftarrow> class_reserve_expire k r s1;
         let s3 = upd_task r (\<lambda>t. t\<lparr>replenish_timer := Some (release_time t + period t)\<rparr>) s2;
         Some (RES_SUCCESS, schedule k s3)
       }
     }
   }"

text \<open>The capacity of a new server is whatever \<open>kmalloc\<close> left in its memory.\<close>

definition api_server_run :: "kenv \<Rightarrow> int \<Rightarrow> core \<Rightarrow> (int \<times> core) option" where
  "api_server_run k rid s = do {
     r \<leftarrow> resch_task_ptr rid;
     if \<not> kmalloc_ok k then Some (RES_FAULT, s)
     else do {
       let s1 = upd_task r (\<lambda>t. t\<lparr>server := Some \<lparr>capacity = kmalloc_fill k,
                                    srv_timer = jiffies s + period t\<rparr>\<rparr>) s;
       let s2 = upd_task r (\<lambda>t. t\<lparr>budget := budget t - min (exec_time k s1 r) (budget t)\<rparr>) s1;
       Some (RES_SUCCESS, reset_exec_time r s2)
     }
   }"

section \<open>Accounting keeps the core well formed\<close>

lemma core_wf_class_account [simp]:
  "core_wf (class_start_account k r s) = core_wf s" "core_wf (class_stop_account k r s) = core_wf s"
  by (auto simp: class_start_account_def class_stop_account_def split: sched_class.splits)

lemma core_wf_reserve_fields [simp]:
  "core_wf (upd_task r (\<lambda>t. t\<lparr>budget := f t\<rparr>) s) = core_wf s"
  "core_wf (upd_task r (\<lambda>t. t\<lparr>accounting := b\<rparr>) s) = core_wf s"
  "core_wf (upd_task r (\<lambda>t. t\<lparr>server := sv\<rparr>) s) = core_wf s"
  "core_wf (upd_task r (\<lambda>t. t\<lparr>reserve_time := u\<rparr>) s) = core_wf s"
  "core_wf (upd_task r (\<lambda>t. t\<lparr>replenish_timer := tm t\<rparr>) s) = core_wf s"
  "core_wf (upd_task r (\<lambda>t. t\<lparr>replenish_timer := None, reserve_time := u, xcpu := b\<rparr>) s) = core_wf s"
  by (rule core_wf_upd_task; simp)+

lemma core_wf_account [simp]:
  "core_wf (start_account k r s) = core_wf s" "core_wf (stop_account k r s) = core_wf s"
  "core_wf (del_replenish_timer r s) = core_wf s" "core_wf (reserve_start k r u b s) = core_wf s"
  "core_wf (reserve_stop k r s) = core_wf s"
  by (simp_all add: start_account_def stop_account_def del_replenish_timer_def reserve_start_def
      reserve_stop_def Let_def)

lemma class_account_fields [simp]:
  "reserve_time (tcb (class_start_account k r s) x) = reserve_time (tcb s x)"
  "budget (tcb (class_start_account k r s) x) = budget (tcb s x)"
  "server (tcb (class_start_account k r s) x) = server (tcb s x)"
  "reserve_time (tcb (class_stop_account k r s) x) = reserve_time (tcb s x)"
  "budget (tcb (class_stop_account k r s) x) = budget (tcb s x)"
  "server (tcb (class_stop_account k r s) x) = server (tcb s x)"
  by (auto simp: class_start_account_def class_stop_account_def fp_start_account_def
      fp_stop_account_def edf_start_account_def edf_stop_account_def dl_start_account_def
      dl_stop_account_def use_fcbs_def use_exhaustive_def Let_def split: sched_class.splits)


section \<open>Properties\<close>

lemma account_fields [simp]:
  "accounting (tcb (start_account k r s) r)"
  "\<not> accounting (tcb (stop_account k r s) r)"
  "server (tcb (stop_account k r s) r) = None"
  by (auto simp: start_account_def stop_account_def task_is_accounting_def Let_def)

text \<open>Task 3, fixed-priority, with a reserve of ten ticks of which it has used six.\<close>

definition reserved :: core where
  "reserved = upd_linux 3 (\<lambda>t. t\<lparr>utime := 6000000\<rparr>)
     (upd_task 3 (\<lambda>t. t\<lparr>reserve_time := 10, sclass := FP_CLASS\<rparr>) boot)"

lemma reserved_facts:
  "reserve_time (tcb reserved 3) = 10" "exec_time kernel0 reserved 3 = 6"
  "\<not> task_is_accounting reserved 3" "sclass (tcb reserved 3) = FP_CLASS"
  by (simp_all add: reserved_def boot_defs exec_time_def kernel0_def task_is_accounting_def)

text \<open>starting the accounting of a task sets its budget to what the reserve has left,
  never more than the reserve, and marks it as accounting.\<close>

theorem start_account_budget:
  assumes "\<not> task_is_accounting s r"
  shows "let s' = start_account k r s in
    budget (tcb s' r) \<le> reserve_time (tcb s' r) \<and> task_is_accounting s' r \<and>
    (exec_time k s r \<le> reserve_time (tcb s r) \<longrightarrow>
       budget (tcb s' r) + exec_time k s r = reserve_time (tcb s' r)) \<and>
    (reserve_time (tcb s r) \<le> exec_time k s r \<longrightarrow> budget (tcb s' r) = 0)"
proof -
  have "remaining_budget k s r \<le> reserve_time (tcb s r)"
    by (simp add: remaining_budget_def word_sub_le)
  then show ?thesis
    using assms
    by (auto simp: start_account_def Let_def task_is_accounting_def remaining_budget_def min_def)
qed

theorem start_account_budget_witness:
  "budget (tcb (start_account kernel0 3 reserved) 3) + 6 = reserve_time (tcb (start_account kernel0 3 reserved) 3)"
  using start_account_budget [OF reserved_facts(3), of kernel0]
  by (simp add: Let_def reserved_facts)

text \<open>the limit a fixed-priority task gets when accounting starts subtracts the execution
  time a second time from a budget that is already net of it; once more than half of the
  reserve is used, the subtraction wraps around and the limit exceeds the whole reserve.\<close>

theorem fp_limit_exceeds_reserve:
  assumes "\<not> task_is_accounting s r" "sclass (tcb s r) = FP_CLASS"
    and e: "exec_time k s r \<le> reserve_time (tcb s r)"
    and half: "reserve_time (tcb s r) - exec_time k s r < exec_time k s r"
    and small: "exec_time k s r < 2 ^ 63"
  shows "\<exists>limit. rlim_rttime (task (tcb (start_account k r s) r)) = jiffies_to_usecs k limit \<and>
     limit = reserve_time (tcb s r) - exec_time k s r - exec_time k s r \<and>
     reserve_time (tcb s r) < limit"
proof -
  let ?R = "reserve_time (tcb s r)" and ?E = "exec_time k s r"
  have "rlim_rttime (task (tcb (start_account k r s) r)) = jiffies_to_usecs k (?R - ?E - ?E)"
    using assms
    by (simp add: start_account_def Let_def class_start_account_def fp_start_account_def
        remaining_budget_def exec_time_def)
  moreover have "?R < ?R - ?E - ?E" using e half small by (rule word_sub_twice)
  ultimately show ?thesis by blast
qed

theorem fp_limit_exceeds_reserve_witness:
  "\<exists>limit. rlim_rttime (task (tcb (start_account kernel0 3 reserved) 3)) = jiffies_to_usecs kernel0 limit \<and> 10 < limit"
  using fp_limit_exceeds_reserve [OF reserved_facts(3,4), of kernel0] by (auto simp: reserved_facts)

lemma class_account_frame [simp]:
  "x \<noteq> r \<Longrightarrow> tcb (class_start_account k r s) x = tcb s x"
  "x \<noteq> r \<Longrightarrow> tcb (class_stop_account k r s) x = tcb s x"
  "replenish_timer (tcb (class_start_account k r s) x) = replenish_timer (tcb s x)"
  "replenish_timer (tcb (class_stop_account k r s) x) = replenish_timer (tcb s x)"
  by (auto simp: class_start_account_def class_stop_account_def fp_start_account_def
      fp_stop_account_def edf_start_account_def edf_stop_account_def dl_start_account_def
      dl_stop_account_def use_fcbs_def use_exhaustive_def Let_def split: sched_class.splits)

lemma account_frame [simp]:
  "x \<noteq> r \<Longrightarrow> tcb (start_account k r s) x = tcb s x"
  "x \<noteq> r \<Longrightarrow> tcb (stop_account k r s) x = tcb s x"
  "replenish_timer (tcb (start_account k r s) x) = replenish_timer (tcb s x)"
  "replenish_timer (tcb (stop_account k r s) x) = replenish_timer (tcb s x)"
  by (auto simp: start_account_def stop_account_def Let_def)

lemma reserve_stop_spec:
  assumes "resch_task_ptr rid = Some r" "task_has_reserve t r"
  shows "\<exists>s2. api_reserve_stop k rid t = Some (RES_SUCCESS, s2) \<and> \<not> task_has_reserve s2 r \<and>
     \<not> task_is_accounting s2 r \<and> replenish_timer (tcb s2 r) = None \<and> server (tcb s2 r) = None \<and>
     (\<forall>x. x \<noteq> r \<longrightarrow> tcb s2 x = tcb t x) \<and> core_wf s2 = core_wf t \<and>
     api_reserve_stop k rid s2 = Some (RES_FAULT, s2)"
  using assms
  by (auto simp: api_reserve_stop_def reserve_stop_def del_replenish_timer_def task_has_reserve_def
      task_is_accounting_def)

text \<open>C13: starting the reserve of a task that has none succeeds: the task then has a reserve of
  the given time, is accounting, has no replenishment pending, and a second start fails and
  changes nothing. In whatever state the task with its reserve is later stopped (accounting
  or expired, with its replenishment timer armed or not, with a server or without), the stop
  succeeds and leaves no reserve, no accounting, no armed timer and no server; a second stop
  fails and changes nothing. Both calls touch no other task and keep the core as well formed as
  it was.\<close>

theorem reserve_start_stop:
  assumes "resch_task_ptr rid = Some r" "\<not> task_has_reserve s r" "0 < msecs_to_jiffies k cputime"
    and "task_has_reserve t r"
  shows "(\<exists>s1. api_reserve_start k rid cputime xc s = Some (RES_SUCCESS, s1) \<and> task_has_reserve s1 r \<and>
     reserve_time (tcb s1 r) = msecs_to_jiffies k cputime \<and> task_is_accounting s1 r \<and>
     replenish_timer (tcb s1 r) = None \<and> (\<forall>x. x \<noteq> r \<longrightarrow> tcb s1 x = tcb s x) \<and>
     core_wf s1 = core_wf s \<and> api_reserve_start k rid cputime xc s1 = Some (RES_FAULT, s1)) \<and>
   (\<exists>s2. api_reserve_stop k rid t = Some (RES_SUCCESS, s2) \<and> \<not> task_has_reserve s2 r \<and>
     \<not> task_is_accounting s2 r \<and> replenish_timer (tcb s2 r) = None \<and> server (tcb s2 r) = None \<and>
     (\<forall>x. x \<noteq> r \<longrightarrow> tcb s2 x = tcb t x) \<and> core_wf s2 = core_wf t \<and>
     api_reserve_stop k rid s2 = Some (RES_FAULT, s2))"
proof -
  let ?s1 = "reserve_start k r cputime xc s"
  have "reserve_time (tcb ?s1 r) = msecs_to_jiffies k cputime" "replenish_timer (tcb ?s1 r) = None"
    "accounting (tcb ?s1 r)" "x \<noteq> r \<Longrightarrow> tcb ?s1 x = tcb s x" for x
    by (simp_all add: reserve_start_def) (simp add: start_account_def Let_def)
  then have "api_reserve_start k rid cputime xc s = Some (RES_SUCCESS, ?s1)"
    "api_reserve_start k rid cputime xc ?s1 = Some (RES_FAULT, ?s1)"
    "reserve_time (tcb ?s1 r) = msecs_to_jiffies k cputime" "task_has_reserve ?s1 r"
    "task_is_accounting ?s1 r" "replenish_timer (tcb ?s1 r) = None"
    "\<forall>x. x \<noteq> r \<longrightarrow> tcb ?s1 x = tcb s x" "core_wf ?s1 = core_wf s"
    using assms(1-3) by (auto simp: api_reserve_start_def task_has_reserve_def task_is_accounting_def)
  with reserve_stop_spec [OF assms(1,4), of k] show ?thesis by blast
qed

text \<open>The task of \<open>reserved\<close> has expired: its timer is armed and a server waits.\<close>

theorem reserve_start_stop_witness:
  "\<exists>s2. api_reserve_stop kernel0 3 (upd_task 3 (\<lambda>t. t\<lparr>replenish_timer := Some 7,
       server := Some \<lparr>capacity = 4, srv_timer = 9\<rparr>\<rparr>) reserved) = Some (RES_SUCCESS, s2) \<and>
     replenish_timer (tcb s2 3) = None \<and> server (tcb s2 3) = None"
  using reserve_start_stop [of 3 3 boot kernel0 5 "upd_task 3 (\<lambda>t. t\<lparr>replenish_timer := Some 7,
       server := Some \<lparr>capacity = 4, srv_timer = 9\<rparr>\<rparr>) reserved" False]
  by (auto simp: resch_task_ptr_def NR_RT_TASKS_def task_has_reserve_def boot_defs kernel0_def
      reserved_facts)

text \<open>when the reserve of a fixed-priority task expires before its next replenishment,
  the task is put into the background with its accounting stopped and its replenishment due
  at the end of its period, on a well-formed core, before the CPU is given away.\<close>

theorem reserve_expire_demotes:
  assumes wf: "core_wf s" and r: "resch_task_ptr rid = Some r" and "task_has_reserve s r"
    and cls: "sclass (tcb s r) = FP_CLASS" and early: "jiffies s < release_time (tcb s r) + period (tcb s r)"
    and acc: "setscheduler_ok k r SCHED_FIFO RESCH_PRIO_BACKGROUND"
  shows "\<exists>s'. api_reserve_expire k rid s = Some (RES_SUCCESS, schedule k s') \<and> core_wf s' \<and>
     prio (tcb s' r) = RESCH_PRIO_BACKGROUND \<and> \<not> task_is_accounting s' r \<and>
     replenish_timer (tcb s' r) = Some (release_time (tcb s r) + period (tcb s r))"
proof -
  let ?s1 = "if task_is_accounting s r then stop_account k r s else s"
  have "sched_fields (tcb ?s1 r) = sched_fields ((tcb s r)\<lparr>accounting := False,
      budget := budget (tcb ?s1 r), server := server (tcb ?s1 r)\<rparr>)" and j: "jiffies ?s1 = jiffies s"
    using cls
    by (auto simp: sched_fields_def stop_account_def task_is_accounting_def Let_def
        class_stop_account_def fp_stop_account_def)
  then have f1: "accounting (tcb ?s1 r) = False" "release_time (tcb ?s1 r) = release_time (tcb s r)"
    "period (tcb ?s1 r) = period (tcb s r)" "sclass (tcb ?s1 r) = FP_CLASS"
    using cls by (simp_all add: sched_fields_def)
  have wf1: "core_wf ?s1" using wf by simp
  obtain ok t1 where t1: "class_set_scheduler k r RESCH_PRIO_BACKGROUND ?s1 = (ok, t1)" by fastforce
  then have "ok" using f1(4) acc by (auto simp: class_set_scheduler_def fp_set_scheduler_def)
  from do_set_scheduler_spec [OF wf1 _ t1] this obtain s2
    where s2: "do_set_scheduler k r RESCH_PRIO_BACKGROUND ?s1 = Some (ok, s2)" "core_wf s2"
      "prio (tcb s2 r) = RESCH_PRIO_BACKGROUND" by auto
  have f2: "sched_fields (tcb s2 r) = sched_fields (tcb ?s1 r)" by (rule do_set_scheduler_fields(1) [OF s2(1)])
  have late: "\<not> release_time (tcb s r) + period (tcb s r) \<le> jiffies s" using early by simp
  have "api_reserve_expire k rid s = Some (RES_SUCCESS,
      schedule k (upd_task r (\<lambda>t. t\<lparr>replenish_timer := Some (release_time t + period t)\<rparr>) s2))"
    using r assms(3) late f1 j s2(1)
    by (simp add: api_reserve_expire_def class_reserve_expire_def fp_reserve_expire_def Let_def
        leD)
  moreover have "core_wf (upd_task r (\<lambda>t. t\<lparr>replenish_timer := Some (release_time t + period t)\<rparr>) s2)"
    using s2(2) by simp
  ultimately show ?thesis
    using s2(3) f1 f2 by (auto simp: sched_fields_def task_is_accounting_def)
qed

lemma reserved_wf: "core_wf reserved"
  unfolding reserved_def
  by (simp, intro core_wf_upd_idle boot_core_wf) (simp_all add: boot_defs)

theorem reserve_expire_demotes_witness:
  "\<exists>s'. api_reserve_expire kernel0 3 (upd_task 3 (\<lambda>t. t\<lparr>period := 5\<rparr>) reserved) =
     Some (RES_SUCCESS, schedule kernel0 s') \<and> prio (tcb s' 3) = RESCH_PRIO_BACKGROUND"
proof -
  let ?s = "upd_task 3 (\<lambda>t. t\<lparr>period := 5\<rparr>) reserved"
  have wf: "core_wf ?s"
    using reserved_wf core_wf_upd_task [of "\<lambda>t. t\<lparr>period := 5\<rparr>" 3 reserved] by simp
  have "jiffies ?s < release_time (tcb ?s 3) + period (tcb ?s 3)"
    by (simp add: reserved_def boot_defs)
  moreover have "task_has_reserve ?s 3" "sclass (tcb ?s 3) = FP_CLASS"
    by (simp_all add: task_has_reserve_def reserved_facts)
  ultimately show ?thesis
    using reserve_expire_demotes [OF wf, of 3 3 kernel0]
    by (auto simp: resch_task_ptr_def NR_RT_TASKS_def kernel0_def)
qed

text \<open>the branch of \<open>suspend_account\<close> that would save the capacity of a server is dead:
  stopping the account has freed the server, so a suspended accounting task has none.\<close>

theorem suspend_frees_server:
  assumes "task_is_accounting s r"
  shows "server (tcb (suspend_account k r s) r) = None"
  using assms by (simp add: suspend_account_def)

theorem suspend_frees_server_witness:
  "server (tcb (suspend_account kernel0 3 (start_account kernel0 3 reserved)) 3) = None"
  by (rule suspend_frees_server) (simp add: task_is_accounting_def)

text \<open>when the timer of a server fires, the budget grows by whatever the memory returned
  by \<open>kmalloc\<close> held: the capacity is never initialised.\<close>

theorem server_capacity_uninitialised:
  assumes "resch_task_ptr rid = Some r" "kmalloc_ok k"
  shows "\<exists>s1 s2. api_server_run k rid s = Some (RES_SUCCESS, s1) \<and> server_handler r s1 = Some s2 \<and>
     budget (tcb s2 r) = budget (tcb s1 r) + kmalloc_fill k \<and> server (tcb s2 r) = None"
  using assms by (simp add: api_server_run_def server_handler_def reset_exec_time_def Let_def)

theorem server_capacity_uninitialised_witness:
  "\<exists>s1. api_server_run (kernel0\<lparr>kmalloc_fill := 77\<rparr>) 3 boot = Some (RES_SUCCESS, s1)"
  using server_capacity_uninitialised [of 3 3 "kernel0\<lparr>kmalloc_fill := 77\<rparr>" boot]
  by (auto simp: resch_task_ptr_def NR_RT_TASKS_def kernel0_def)

end
