(* ===== verification/Task_API.thy ===== *)
theory Task_API
  imports Reservation
begin

text \<open>
  The life of a task (\<open>core/sched.c\<close>): the plugin table, \<open>job_release\<close>, \<open>job_start\<close>,
  \<open>job_complete\<close>, and the API from \<open>api_init\<close> to \<open>api_exit\<close>.

  A scheduler plugin has state of its own, of type \<open>'p\<close>; the API works on pairs of the core
  and the plugin's state. Results are the code's return values.
\<close>

type_synonym 'p sys = "core \<times> 'p"
type_synonym 'p hook = "rid \<Rightarrow> 'p sys \<Rightarrow> 'p sys option"

record 'p plugin_struct =
  task_run :: "'p hook"
  task_exit :: "'p hook"
  pl_job_start :: "'p hook"
  pl_job_complete :: "'p hook"

definition hook_default :: "'p hook" where
  "hook_default r x = Some x"

definition install_scheduler ::
    "'p hook option \<Rightarrow> 'p hook option \<Rightarrow> 'p hook option \<Rightarrow> 'p hook option \<Rightarrow> 'p plugin_struct" where
  "install_scheduler run ex st co =
     \<lparr>task_run = (case run of Some f \<Rightarrow> f | None \<Rightarrow> hook_default),
      task_exit = (case ex of Some f \<Rightarrow> f | None \<Rightarrow> hook_default),
      pl_job_start = (case st of Some f \<Rightarrow> f | None \<Rightarrow> hook_default),
      pl_job_complete = (case co of Some f \<Rightarrow> f | None \<Rightarrow> hook_default)\<rparr>"

definition uninstall_scheduler :: "'p plugin_struct" where
  "uninstall_scheduler = \<lparr>task_run = hook_default, task_exit = hook_default,
     pl_job_start = hook_default, pl_job_complete = hook_default\<rparr>"

lemma uninstall_simps:
  "task_run uninstall_scheduler r x = Some x" "task_exit uninstall_scheduler r x = Some x"
  "pl_job_start uninstall_scheduler r x = Some x" "pl_job_complete uninstall_scheduler r x = Some x"
  by (simp_all add: uninstall_scheduler_def hook_default_def)

section \<open>Jobs\<close>

text \<open>
  Over \<open>SCHED_DEADLINE\<close> the release of an EDF job loops while the runtime is not positive;
  \<open>None\<close> here is a loop that does not end.
\<close>

partial_function (option) release_catch_up :: "kenv \<Rightarrow> rid \<Rightarrow> core \<Rightarrow> core option" where
  "release_catch_up k r s =
     (if runtime (tcb s r) \<le> 0
      then release_catch_up k r
             (upd_task r (\<lambda>t. t\<lparr>deadline_time := deadline_time t + period t,
                release_time := jiffies s, dl_sched_release_time := cpu_clock k\<rparr>) s)
      else Some s)"

definition job_release :: "kenv \<Rightarrow> rid \<Rightarrow> u64 \<Rightarrow> core \<Rightarrow> core option" where
  "job_release k r rel s =
     (let s1 = upd_task r (\<lambda>t. t\<lparr>release_time := rel\<rparr>) s;
          s2 = class_wait_period k r s1;
          s3 = reset_exec_time r s2;
          s4 = upd_task r (\<lambda>t. t\<lparr>deadline_time := release_time t + deadline t\<rparr>) s3
      in if has_sched_deadline k \<and> policy (tcb s4 r) = RESCH_SCHED_EDF
         then release_catch_up k r s4 else Some s4)"

definition job_start :: "'p plugin_struct \<Rightarrow> kenv \<Rightarrow> rid \<Rightarrow> 'p sys \<Rightarrow> 'p sys option" where
  "job_start pl k r = (\<lambda>(s, w). do {
     s1 \<leftarrow> class_job_start k r s;
     (s2, w2) \<leftarrow> pl_job_start pl r (s1, w);
     Some (if task_has_reserve s2 r then start_account k r s2 else s2, w2)
   })"

definition job_complete :: "'p plugin_struct \<Rightarrow> kenv \<Rightarrow> rid \<Rightarrow> 'p sys \<Rightarrow> 'p sys option" where
  "job_complete pl k r = (\<lambda>(s, w). do {
     let spent = jiffies_to_usecs k (exec_time k s r);
     let s1 = (if \<not> wcet_fixed (tcb s r) \<and> spent > wcet (tcb s r)
               then upd_task r (\<lambda>t. t\<lparr>wcet := spent\<rparr>) s else s);
     (s2, w2) \<leftarrow> pl_job_complete pl r (s1, w);
     s3 \<leftarrow> class_job_complete k r s2;
     s4 \<leftarrow> (if task_has_reserve s3 r then reserve_replenish k r (stop_account k r s3) else Some s3);
     Some (s4, w2)
   })"

definition deadline_miss :: "rid \<Rightarrow> core \<Rightarrow> bool \<times> core" where
  "deadline_miss r s =
     (let m = (deadline (tcb s r) > 0 \<and> deadline_time (tcb s r) < jiffies s)
      in (m, upd_task r (\<lambda>t. t\<lparr>missed := m\<rparr>) s))"

section \<open>Attaching and detaching\<close>

text \<open>
  \<open>INIT_LIST_HEAD\<close> on an entry that is still on a list corrupts that list. The fields that
  are not mentioned keep what the last user of the descriptor left.
\<close>

definition resch_task_init :: "kenv \<Rightarrow> rid \<Rightarrow> core \<Rightarrow> core option" where
  "resch_task_init k r s = do {
     let cpus = {c. c < NR_RT_CPUS};
     let s1 = upd_task r (\<lambda>t. t\<lparr>task := (current_task k)\<lparr>cpus_allowed := cpus_allowed (current_task k) \<inter> cpus\<rparr>,
                                cpumask := cpus\<rparr>) s;
     let s2 = (if smp_processor_id k \<ge> NR_RT_CPUS
               then kernel_migrate_task r (unat (jiffies s mod of_nat NR_RT_CPUS)) s1 else s1);
     let s3 = upd_task r (\<lambda>t. t\<lparr>prio := RESCH_PRIO_MIN, cpu_id := RESCH_CPU_UNDEFINED,
                migratory := True, missed := False, wcet_fixed := False, wcet := 0, runtime := 0,
                period := 0, deadline := 0, deadline_time := 0, release_time := 0,
                sclass := FP_CLASS, policy := RESCH_SCHED_FP, accounting := False,
                xcpu := False, reserve_time := 0, server := None\<rparr>) s2;
     guard_c (\<not> global_entry (tcb s3 r));
     guard_c (active_entry (tcb s3 r) = None);
     guard_c (component_entry (tcb s3 r) = None);
     Some s3
   }"

definition clear_dead_tasks :: "core \<Rightarrow> core" where
  "clear_dead_tasks s =
     fold (\<lambda>i s. if tstate (task (tcb s i)) = TASK_STOPPED
                 then s\<lparr>pid_map := bm_clear i (pid_map s)\<rparr> else s) [0..<NR_RT_TASKS] s"

definition api_init :: "kenv \<Rightarrow> core \<Rightarrow> (int \<times> core) option" where
  "api_init k s = do {
     rid \<leftarrow> resch_ffz (pid_map s) PID_MAP_LONG;
     if rid < 0 then Some (rid, clear_dead_tasks s)
     else do {
       let s1 = s\<lparr>pid_map := bm_set (nat rid) (pid_map s)\<rparr>;
       r \<leftarrow> resch_task_ptr rid;
       s2 \<leftarrow> resch_task_init k r s1;
       Some (rid, s2)
     }
   }"

definition api_exit :: "'p plugin_struct \<Rightarrow> kenv \<Rightarrow> int \<Rightarrow> 'p sys \<Rightarrow> (int \<times> 'p sys) option" where
  "api_exit pl k rid = (\<lambda>(s, w). do {
     r \<leftarrow> resch_task_ptr rid;
     (s1, w1) \<leftarrow> (if task_is_active s r then job_complete pl k r (s, w) else Some (s, w));
     let s2 = (if task_has_reserve s1 r then reserve_stop k r s1 else s1);
     let s3 = (if task_is_managed s2 r then global_list_remove r s2 else s2);
     (s4, w4) \<leftarrow> task_exit pl r (s3, w1);
     let s5 = s4\<lparr>pid_map := bm_clear r (pid_map s4)\<rparr>;
     s6 \<leftarrow> (if policy (tcb s5 r) \<noteq> RESCH_SCHED_FAIR
            then map_option snd (set_scheduler k r RESCH_SCHED_FAIR 0 s5) else Some s5);
     Some (RES_SUCCESS, (s6, w4))
   })"

section \<open>Periodic execution\<close>

definition api_run :: "'p plugin_struct \<Rightarrow> kenv \<Rightarrow> int \<Rightarrow> u64 \<Rightarrow> 'p sys \<Rightarrow> (int \<times> 'p sys) option" where
  "api_run pl k rid timeout = (\<lambda>(s, w). do {
     r \<leftarrow> resch_task_ptr rid;
     let s1 = global_list_insert r s;
     (s2, w2) \<leftarrow> task_run pl r (s1, w);
     let s3 = (if policy (tcb s2 r) = RESCH_SCHED_FAIR then global_list_remove r s2 else s2);
     s4 \<leftarrow> job_release k r (jiffies s3 + msecs_to_jiffies k timeout) s3;
     x \<leftarrow> job_start pl k r (s4, w2);
     Some (RES_SUCCESS, x)
   })"

definition api_wait_for_period :: "'p plugin_struct \<Rightarrow> kenv \<Rightarrow> int \<Rightarrow> 'p sys \<Rightarrow> (int \<times> 'p sys) option" where
  "api_wait_for_period pl k rid = (\<lambda>(s, w). do {
     r \<leftarrow> resch_task_ptr rid;
     let (m, s1) = deadline_miss r s;
     let res = (if m then RES_MISS else RES_SUCCESS);
     (s2, w2) \<leftarrow> job_complete pl k r (s1, w);
     s3 \<leftarrow> job_release k r (release_time (tcb s2 r) + period (tcb s2 r)) s2;
     x \<leftarrow> job_start pl k r (s3, w2);
     Some (res, x)
   })"

definition api_wait_for_interval ::
    "'p plugin_struct \<Rightarrow> kenv \<Rightarrow> int \<Rightarrow> u64 \<Rightarrow> 'p sys \<Rightarrow> (int \<times> 'p sys) option" where
  "api_wait_for_interval pl k rid interval = (\<lambda>(s, w). do {
     r \<leftarrow> resch_task_ptr rid;
     let (m, s1) = deadline_miss r s;
     let res = (if m then RES_MISS else RES_SUCCESS);
     (s2, w2) \<leftarrow> job_complete pl k r (s1, w);
     s3 \<leftarrow> job_release k r (jiffies s2 + interval) s2;
     x \<leftarrow> job_start pl k r (s3, w2);
     Some (res, x)
   })"

section \<open>Parameters\<close>

definition api_set_period :: "int \<Rightarrow> u64 \<Rightarrow> core \<Rightarrow> (int \<times> core) option" where
  "api_set_period rid p s = do {
     r \<leftarrow> resch_task_ptr rid;
     let s1 = upd_task r (\<lambda>t. t\<lparr>period := p\<rparr>) s;
     Some (RES_SUCCESS, if deadline (tcb s1 r) = 0
                        then upd_task r (\<lambda>t. t\<lparr>deadline := period t\<rparr>) s1 else s1)
   }"

definition api_set_deadline :: "int \<Rightarrow> u64 \<Rightarrow> core \<Rightarrow> (int \<times> core) option" where
  "api_set_deadline rid d s = do {
     r \<leftarrow> resch_task_ptr rid;
     Some (RES_SUCCESS, upd_task r (\<lambda>t. t\<lparr>deadline := d\<rparr>) s)
   }"

definition api_set_wcet :: "int \<Rightarrow> u64 \<Rightarrow> core \<Rightarrow> (int \<times> core) option" where
  "api_set_wcet rid wc s = do {
     r \<leftarrow> resch_task_ptr rid;
     let s1 = upd_task r (\<lambda>t. t\<lparr>wcet := wc\<rparr>) s;
     let s2 = (if runtime (tcb s1 r) = 0 then upd_task r (\<lambda>t. t\<lparr>runtime := wc\<rparr>) s1 else s1);
     Some (RES_SUCCESS, upd_task r (\<lambda>t. t\<lparr>wcet_fixed := True\<rparr>) s2)
   }"

definition api_set_runtime :: "int \<Rightarrow> u64 \<Rightarrow> core \<Rightarrow> (int \<times> core) option" where
  "api_set_runtime rid rn s = do {
     r \<leftarrow> resch_task_ptr rid;
     let s1 = upd_task r (\<lambda>t. t\<lparr>runtime := rn\<rparr>) s;
     Some (RES_SUCCESS, if wcet (tcb s1 r) = 0 then upd_task r (\<lambda>t. t\<lparr>wcet := rn\<rparr>) s1 else s1)
   }"

text \<open>An \<open>unsigned long\<close> handed to an \<open>int\<close> parameter keeps its low 32 bits.\<close>

definition int_of_ulong :: "u64 \<Rightarrow> int" where
  "int_of_ulong x = sint (ucast x :: 32 word)"

definition api_set_priority :: "kenv \<Rightarrow> int \<Rightarrow> u64 \<Rightarrow> core \<Rightarrow> (int \<times> core) option" where
  "api_set_priority k rid p s = do {
     r \<leftarrow> resch_task_ptr rid;
     if policy (tcb s r) = RESCH_SCHED_EDF \<or> policy (tcb s r) = RESCH_SCHED_FAIR
     then Some (RES_FAULT, s)
     else do {
       (ok, s1) \<leftarrow> set_scheduler k r (policy (tcb s r)) (int_of_ulong p) s;
       Some (if ok then RES_SUCCESS else RES_FAULT, s1)
     }
   }"

definition api_set_scheduler :: "kenv \<Rightarrow> int \<Rightarrow> u64 \<Rightarrow> core \<Rightarrow> (int \<times> core) option" where
  "api_set_scheduler k rid pol s = do {
     r \<leftarrow> resch_task_ptr rid;
     if pol \<noteq> word_of_int (policy (tcb s r))
     then do {
       (ok, s1) \<leftarrow> set_scheduler k r (int_of_ulong pol) (prio (tcb s r)) s;
       Some (if ok then RES_SUCCESS else RES_FAULT, s1)
     }
     else Some (RES_SUCCESS, s)
   }"

definition api_background :: "kenv \<Rightarrow> int \<Rightarrow> core \<Rightarrow> (int \<times> core) option" where
  "api_background k rid s = api_set_priority k rid (word_of_int RESCH_PRIO_BACKGROUND) s"

section \<open>Initialisation\<close>

definition sched_init :: "core \<Rightarrow> core" where
  "sched_init s = s\<lparr>task_list := [], pid_map := replicate PID_MAP_LONG 0,
     lo := (\<lambda>c. if c \<le> NR_RT_CPUS
                then \<lparr>active = empty_array, sched_list = (if c < NR_RT_CPUS then [] else sched_list (lo s c))\<rparr>
                else lo s c)\<rparr>"


section \<open>What the class operations leave alone\<close>

lemma sched_fields_upd [simp]:
  "sched_fields (t\<lparr>task := l\<rparr>) = sched_fields t" "sched_fields (t\<lparr>prio := p\<rparr>) = sched_fields t"
  by (simp_all add: sched_fields_def)

lemma fields_states [simp]:
  "sched_fields (tcb (set_tstate r p s) x) = sched_fields (tcb s x)"
  "sched_fields (tcb (wake_up_process r s) x) = sched_fields (tcb s x)"
  "sched_fields (tcb (set_tsk_need_resched r s) x) = sched_fields (tcb s x)"
  "sched_fields (tcb (upd_task r (\<lambda>t. t\<lparr>prio := p'\<rparr>) s) x) = sched_fields (tcb s x)"
  by (simp_all add: set_tstate_def wake_up_process_def set_tsk_need_resched_def)

lemma class_job_start_fields:
  assumes "class_job_start k r s = Some s'"
  shows "sched_fields (tcb s' x) = sched_fields (tcb s x) \<and> global_entry (tcb s' x) = global_entry (tcb s x)"
proof -
  have states: "global_entry (tcb (set_tstate r p s) x) = global_entry (tcb s x)"
    "global_entry (tcb (set_tsk_need_resched r s) x) = global_entry (tcb s x)" for r p s
    by (simp_all add: set_tstate_def set_tsk_need_resched_def)
  have "edf_job_start r s = Some s' \<Longrightarrow> ?thesis"
    by (auto simp: edf_job_start_def Let_def queue_frame_fields queue_frame_tcb states dest!: edf.enq_frame
        split: if_splits option.splits)
  moreover have "fp_job_start r s = Some s' \<Longrightarrow> ?thesis" "dl_job_start r s = Some s' \<Longrightarrow> ?thesis"
    by (auto simp: fp_job_start_def dl_job_start_def queue_frame_fields queue_frame_tcb
        dest: fp.enq_frame dl.enq_frame)
  ultimately show ?thesis
    using assms by (auto simp: class_job_start_def split: sched_class.splits if_splits)
qed

lemma class_job_complete_fields:
  assumes "class_job_complete k r s = Some s'"
  shows "sched_fields (tcb s' x) = sched_fields (tcb s x)"
    and "edf_prio_ok s r \<Longrightarrow> prio (tcb s' r) = prio (tcb s r)"
    and "jiffies s' = jiffies s \<and> pid_map s' = pid_map s"
proof -
  have "edf_job_complete r s = Some s' \<Longrightarrow> sched_fields (tcb s' x) = sched_fields (tcb s x)
      \<and> prio (tcb s' r) = RESCH_PRIO_EDF \<and> jiffies s' = jiffies s \<and> pid_map s' = pid_map s"
    by (auto simp: edf_job_complete_def Let_def queue_frame_fields queue_frame_core
        wake_up_process_def dest!: edf.deq_frame split: option.splits)
  moreover have "fp_job_complete r s = Some s' \<Longrightarrow> sched_fields (tcb s' x) = sched_fields (tcb s x)
      \<and> prio (tcb s' r) = prio (tcb s r) \<and> jiffies s' = jiffies s \<and> pid_map s' = pid_map s"
    by (auto simp: fp_job_complete_def queue_frame_fields queue_frame_core fp.deq_prio
        dest: fp.deq_frame)
  moreover have "dl_job_complete r s = Some s' \<Longrightarrow> sched_fields (tcb s' x) = sched_fields (tcb s x)
      \<and> prio (tcb s' r) = prio (tcb s r) \<and> jiffies s' = jiffies s \<and> pid_map s' = pid_map s"
    by (auto simp: dl_job_complete_def queue_frame_fields queue_frame_core dl.deq_prio
        dest: dl.deq_frame)
  ultimately have "sched_fields (tcb s' x) = sched_fields (tcb s x)
      \<and> (edf_prio_ok s r \<longrightarrow> prio (tcb s' r) = prio (tcb s r)) \<and> jiffies s' = jiffies s \<and> pid_map s' = pid_map s"
    using assms
    by (auto simp: class_job_complete_def edf_prio_ok_def split: sched_class.splits if_splits)
  then show "sched_fields (tcb s' x) = sched_fields (tcb s x)"
    "edf_prio_ok s r \<Longrightarrow> prio (tcb s' r) = prio (tcb s r)" "jiffies s' = jiffies s \<and> pid_map s' = pid_map s"
    by auto
qed

section \<open>The release of a job\<close>

text \<open>
  While a task sleeps the rest of the system keeps the core well formed and does not touch
  the task's descriptor, its Linux task apart.
\<close>

definition leaves_alone :: "kenv \<Rightarrow> rid \<Rightarrow> bool" where
  "leaves_alone k r \<longleftrightarrow>
     (\<forall>s f. f = schedule k \<or> (\<exists>n. f = schedule_timeout k n) \<longrightarrow>
        (core_wf s \<longrightarrow> core_wf (f s)) \<and>
        (tcb (f s) r)\<lparr>task := zero_task\<rparr> = (tcb s r)\<lparr>task := zero_task\<rparr>)"

text \<open>The fields a release reads or keeps.\<close>

definition job_fields :: "resch_task_t \<Rightarrow> _" where
  "job_fields t = (active_entry t, global_entry t, prio t, cpu_id t, sclass t, policy t, period t,
     deadline t, reserve_time t, runtime t, release_time t)"

lemma sleep_fields:
  assumes "(tcb s' r)\<lparr>task := zero_task\<rparr> = (tcb s r)\<lparr>task := zero_task\<rparr>"
  shows "job_fields (tcb s' r) = job_fields (tcb s r)"
proof -
  have "job_fields ((tcb s' r)\<lparr>task := zero_task\<rparr>) = job_fields ((tcb s r)\<lparr>task := zero_task\<rparr>)"
    using assms by simp
  then show ?thesis by (simp add: job_fields_def)
qed

lemma job_fields_upd [simp]:
  "job_fields (t\<lparr>task := l\<rparr>) = job_fields t"
  "job_fields (t\<lparr>dl_sched_release_time := u\<rparr>) = job_fields t"
  by (simp_all add: job_fields_def)

lemma class_wait_period_spec:
  assumes "leaves_alone k r" "core_wf s"
  shows "core_wf (class_wait_period k r s)"
    and "job_fields (tcb (class_wait_period k r s) r) = job_fields (tcb s r)"
proof -
  have sched: "core_wf (schedule k s')" "core_wf (schedule_timeout k n s')" if "core_wf s'" for s' n
    using assms(1) that unfolding leaves_alone_def by blast+
  have fields: "job_fields (tcb (schedule k s') r) = job_fields (tcb s' r)"
    "job_fields (tcb (schedule_timeout k n s') r) = job_fields (tcb s' r)" for s' n
    using assms(1) sleep_fields unfolding leaves_alone_def by blast+
  have dl: "core_wf (upd_task r (\<lambda>t. t\<lparr>dl_sched_release_time := u\<rparr>) s') = core_wf s'" for u s'
    by (rule core_wf_upd_task; simp)
  have st: "set_tstate x p s' = upd_linux x (\<lambda>t. t\<lparr>tstate := p\<rparr>) s'" for x p s'
    by (simp add: set_tstate_def)
  have rounds: "(core_wf s' \<longrightarrow> core_wf (wait_rounds k e n s')) \<and>
      job_fields (tcb (wait_rounds k e n s') r) = job_fields (tcb s' r)" for e n s'
    using sched fields
    by (induction n arbitrary: s') (simp_all add: interval_sleep_def st Let_def)
  show "core_wf (class_wait_period k r s)"
    "job_fields (tcb (class_wait_period k r s) r) = job_fields (tcb s r)"
    using assms(2) sched fields rounds
    by (auto simp: class_wait_period_def fair_wait_period_def fp_wait_period_def edf_wait_period_def
        dl_wait_period_def sched_wait_interval_def dl st Let_def split: sched_class.splits)
qed

lemma core_wf_release [simp]:
  "core_wf (upd_task r (\<lambda>t. t\<lparr>release_time := u\<rparr>) s) = core_wf s"
  "core_wf (upd_task r (\<lambda>t. t\<lparr>deadline_time := f t\<rparr>) s) = core_wf s"
  "core_wf (upd_task r (\<lambda>t. t\<lparr>missed := b\<rparr>) s) = core_wf s"
  "core_wf (upd_task r (\<lambda>t. t\<lparr>wcet := u\<rparr>) s) = core_wf s"
  "core_wf (reset_exec_time r s) = core_wf s"
  by (rule core_wf_upd_task; simp)+ (simp add: reset_exec_time_def)

lemma job_release_spec:
  assumes "leaves_alone k r" "core_wf s"
    and "has_sched_deadline k \<and> policy (tcb s r) = RESCH_SCHED_EDF \<longrightarrow> 0 < runtime (tcb s r)"
  shows "\<exists>s'. job_release k r rel s = Some s' \<and> core_wf s' \<and>
     job_fields (tcb s' r) = job_fields ((tcb s r)\<lparr>release_time := rel\<rparr>) \<and>
     deadline_time (tcb s' r) = rel + deadline (tcb s r)"
proof -
  let ?s1 = "upd_task r (\<lambda>t. t\<lparr>release_time := rel\<rparr>) s"
  let ?s2 = "class_wait_period k r ?s1"
  let ?s4 = "upd_task r (\<lambda>t. t\<lparr>deadline_time := release_time t + deadline t\<rparr>) (reset_exec_time r ?s2)"
  have wf1: "core_wf ?s1" using assms(2) by simp
  have wf: "core_wf ?s4" using class_wait_period_spec(1) [OF assms(1) wf1] by simp
  have f: "job_fields (tcb ?s2 r) = job_fields ((tcb s r)\<lparr>release_time := rel\<rparr>)"
    using class_wait_period_spec(2) [OF assms(1) wf1] by simp
  then have g: "job_fields (tcb ?s4 r) = job_fields ((tcb s r)\<lparr>release_time := rel\<rparr>)"
    by (simp add: job_fields_def reset_exec_time_def)
  moreover have "deadline_time (tcb ?s4 r) = rel + deadline (tcb s r)"
    using f by (simp add: job_fields_def reset_exec_time_def)
  moreover have "job_release k r rel s = Some ?s4"
    using assms(3) g
    by (auto simp: job_release_def Let_def job_fields_def release_catch_up.simps [of k r ?s4])
  ultimately show ?thesis using wf by blast
qed

lemma job_fieldsD:
  assumes "job_fields t' = job_fields t"
  shows "active_entry t' = active_entry t" "prio t' = prio t" "cpu_id t' = cpu_id t"
    "sclass t' = sclass t" "policy t' = policy t" "period t' = period t" "deadline t' = deadline t"
    "reserve_time t' = reserve_time t" "release_time t' = release_time t" "runtime t' = runtime t"
    "global_entry t' = global_entry t"
  using assms by (auto simp: job_fields_def)

lemma job_start_default:
  assumes wf: "core_wf s" and idle: "active_entry (tcb s r) = None"
    and c: "cpu_id (tcb s r) \<le> NR_RT_CPUS" and i: "queue_index (prio (tcb s r)) = Some i"
    and ok: "edf_prio_ok s r" and cls: "sclass (tcb s r) \<noteq> FAIR_CLASS" and res: "reserve_time (tcb s r) = 0"
  shows "\<exists>s'. job_start uninstall_scheduler k r (s, w) = Some (s', w) \<and> core_wf s' \<and>
     active_entry (tcb s' r) = Some (cpu_id (tcb s r), i) \<and>
     sched_fields (tcb s' r) = sched_fields (tcb s r) \<and> global_entry (tcb s' r) = global_entry (tcb s r)"
proof -
  obtain s' where s': "class_job_start k r s = Some s'" "core_wf s'"
    "active_entry (tcb s' r) = Some (cpu_id (tcb s r), i)"
    using class_job_start_spec [OF wf idle c i ok cls] by blast
  have f: "sched_fields (tcb s' r) = sched_fields (tcb s r)" "global_entry (tcb s' r) = global_entry (tcb s r)"
    using class_job_start_fields [OF s'(1)] by simp_all
  then have "reserve_time (tcb s' r) = 0" using res by (simp add: sched_fields_def)
  with s' f show ?thesis
    by (simp add: job_start_def uninstall_scheduler_def hook_default_def task_has_reserve_def)
qed

lemma job_complete_default:
  assumes wf: "core_wf s" and e: "active_entry (tcb s r) = Some (c, i)" and ok: "edf_prio_ok s r"
    and res: "reserve_time (tcb s r) = 0"
  shows "\<exists>s'. job_complete uninstall_scheduler k r (s, w) = Some (s', w) \<and> core_wf s' \<and>
     active_entry (tcb s' r) = None \<and> prio (tcb s' r) = prio (tcb s r) \<and> pid_map s' = pid_map s \<and>
     sched_fields (tcb s' r) = sched_fields ((tcb s r)\<lparr>wcet := wcet (tcb s' r)\<rparr>)"
proof -
  define s1 where "s1 = (if \<not> wcet_fixed (tcb s r) \<and> jiffies_to_usecs k (exec_time k s r) > wcet (tcb s r)
      then upd_task r (\<lambda>t. t\<lparr>wcet := jiffies_to_usecs k (exec_time k s r)\<rparr>) s else s)"
  have s1: "core_wf s1" "active_entry (tcb s1 r) = Some (c, i)" "edf_prio_ok s1 r"
    "prio (tcb s1 r) = prio (tcb s r)" "pid_map s1 = pid_map s"
    "sched_fields (tcb s1 r) = sched_fields ((tcb s r)\<lparr>wcet := wcet (tcb s1 r)\<rparr>)"
    using wf e ok by (auto simp: s1_def edf_prio_ok_def sched_fields_def)
  obtain s' where s': "class_job_complete k r s1 = Some s'" "core_wf s'" "active_entry (tcb s' r) = None"
    using class_job_complete_spec [OF s1(1-3)] by blast
  note f = class_job_complete_fields [OF s'(1)]
  have "reserve_time (tcb s' r) = 0" "wcet (tcb s' r) = wcet (tcb s1 r)"
    using f(1) [of r] s1(6) res by (simp_all add: sched_fields_def)
  then show ?thesis
    using s' f s1
    by (simp add: job_complete_def uninstall_scheduler_def hook_default_def task_has_reserve_def
        s1_def [symmetric])
qed


section \<open>The allocation of IDs\<close>

lemma clear_dead_spec:
  assumes "length (pid_map s) = PID_MAP_LONG" "n \<le> NR_RT_TASKS"
  defines "s' \<equiv> fold (\<lambda>i s. if tstate (task (tcb s i)) = TASK_STOPPED
                 then s\<lparr>pid_map := bm_clear i (pid_map s)\<rparr> else s) [0..<n] s"
  shows "resch_task s' = resch_task s \<and> length (pid_map s') = PID_MAP_LONG \<and>
    (\<forall>i. bm_bit (pid_map s') i \<longleftrightarrow> bm_bit (pid_map s) i \<and> \<not> (i < n \<and> tstate (task (tcb s i)) = TASK_STOPPED))"
  using assms(2) unfolding s'_def
proof (induction n)
  case 0
  then show ?case using assms(1) by simp
next
  case (Suc n)
  then have IH: "resch_task (fold (\<lambda>i s. if tstate (task (tcb s i)) = TASK_STOPPED
       then s\<lparr>pid_map := bm_clear i (pid_map s)\<rparr> else s) [0..<n] s) = resch_task s"
    and "n div 64 < PID_MAP_LONG" by (auto simp: resch_consts)
  with Suc show ?case by (auto simp: bm_bit_clear length_bm less_Suc_eq)
qed

text \<open>What \<open>resch_task_init\<close> promises of the descriptor: the current task with its CPUs limited to
  those of the scheduler (to one of them, by \<open>jiffies\<close>, when it runs outside), a fixed-priority
  task of the lowest priority without a CPU, with no timing parameters, no job released, no
  reserve, no server and no accounting, and on no list.\<close>

definition fresh_task :: "kenv \<Rightarrow> u64 \<Rightarrow> resch_task_t \<Rightarrow> bool" where
  "fresh_task k now t \<longleftrightarrow>
     (let cpus = (if smp_processor_id k < NR_RT_CPUS then {c. c < NR_RT_CPUS}
                  else {unat (now mod of_nat NR_RT_CPUS)})
      in cpumask t = cpus \<and>
         task t = (current_task k)\<lparr>cpus_allowed :=
           (if smp_processor_id k < NR_RT_CPUS then cpus_allowed (current_task k) \<inter> cpus else cpus)\<rparr>) \<and>
     policy t = RESCH_SCHED_FP \<and> sclass t = FP_CLASS \<and> prio t = RESCH_PRIO_MIN \<and>
     cpu_id t = RESCH_CPU_UNDEFINED \<and> migratory t \<and> \<not> missed t \<and> \<not> wcet_fixed t \<and>
     wcet t = 0 \<and> runtime t = 0 \<and> period t = 0 \<and> deadline t = 0 \<and> deadline_time t = 0 \<and>
     release_time t = 0 \<and> \<not> accounting t \<and> \<not> xcpu t \<and> reserve_time t = 0 \<and> server t = None \<and>
     \<not> global_entry t \<and> active_entry t = None \<and> component_entry t = None"

lemma init_core_wf:
  assumes wf: "core_wf s" and "\<not> global_entry (tcb s r)" "active_entry (tcb s r) = None"
    "component_entry (tcb s r) = None"
  shows "\<exists>s'. resch_task_init k r s = Some s' \<and> core_wf s' \<and> (\<forall>x. x \<noteq> r \<longrightarrow> tcb s' x = tcb s x) \<and>
    pid_map s' = pid_map s \<and> policy (tcb s' r) = RESCH_SCHED_FP \<and> sclass (tcb s' r) = FP_CLASS \<and>
    prio (tcb s' r) = RESCH_PRIO_MIN \<and> cpu_id (tcb s' r) = RESCH_CPU_UNDEFINED \<and>
    release_time (tcb s' r) = 0 \<and> reserve_time (tcb s' r) = 0 \<and> fresh_task k (jiffies s) (tcb s' r)"
proof -
  let ?s1 = "upd_task r (\<lambda>t. t\<lparr>task := (current_task k)\<lparr>cpus_allowed := cpus_allowed (current_task k)
      \<inter> {c. c < NR_RT_CPUS}\<rparr>, cpumask := {c. c < NR_RT_CPUS}\<rparr>) s"
  let ?s2 = "if smp_processor_id k \<ge> NR_RT_CPUS
      then kernel_migrate_task r (unat (jiffies s mod of_nat NR_RT_CPUS)) ?s1 else ?s1"
  have wf2: "core_wf ?s2" using wf core_wf_upd_task [of _ r s] by simp
  have idle: "active_entry (tcb ?s2 r) = None" "\<not> global_entry (tcb ?s2 r)"
    "component_entry (tcb ?s2 r) = None"
    and other: "x \<noteq> r \<Longrightarrow> tcb ?s2 x = tcb s x" and pids: "pid_map ?s2 = pid_map s" for x
    using assms(2-4) by (auto simp: kernel_migrate_task_def)
  define init where "init = (\<lambda>t :: resch_task_t. t\<lparr>prio := RESCH_PRIO_MIN, cpu_id := RESCH_CPU_UNDEFINED,
                migratory := True, missed := False, wcet_fixed := False, wcet := 0, runtime := 0,
                period := 0, deadline := 0, deadline_time := 0, release_time := 0,
                sclass := FP_CLASS, policy := RESCH_SCHED_FP, accounting := False,
                xcpu := False, reserve_time := 0, server := None :: server_struct option\<rparr>)"
  have "fresh_task k (jiffies s) (tcb (upd_task r init ?s2) r)"
    using assms(2-4) by (simp add: fresh_task_def init_def kernel_migrate_task_def Let_def)
  moreover have "core_wf (upd_task r init ?s2)"
    by (rule core_wf_upd_idle [OF wf2 idle(1,2)]) (simp_all add: init_def)
  moreover have "resch_task_init k r s = Some (upd_task r init ?s2)"
    using idle by (simp add: resch_task_init_def Let_def init_def)
  ultimately show ?thesis
    using other pids by (auto simp: init_def)
qed


section \<open>Properties\<close>

lemma boot_bits: "\<not> bm_bit (pid_map boot) n"
  by (simp add: boot_defs bm_bit_replicate_0)

lemma api_init_least:
  assumes wf: "core_wf s" and len: "length (pid_map s) = PID_MAP_LONG"
    and free: "\<exists>n < NR_RT_TASKS. \<not> bm_bit (pid_map s) n"
    and clean: "\<forall>n < NR_RT_TASKS. \<not> bm_bit (pid_map s) n \<longrightarrow> \<not> task_is_managed s n \<and>
       active_entry (tcb s n) = None \<and> component_entry (tcb s n) = None"
  shows "\<exists>r s'. api_init k s = Some (int r, s') \<and> r < NR_RT_TASKS \<and> \<not> bm_bit (pid_map s) r \<and>
     (\<forall>m < r. bm_bit (pid_map s) m) \<and>
     (\<forall>m. bm_bit (pid_map s') m \<longleftrightarrow> m = r \<or> bm_bit (pid_map s) m) \<and>
     core_wf s' \<and> (\<forall>x. x \<noteq> r \<longrightarrow> tcb s' x = tcb s x) \<and>
     fresh_task k (jiffies s) (tcb s' r)"
proof -
  obtain f where f: "resch_ffz (pid_map s) PID_MAP_LONG = Some f"
    "is_first (\<lambda>n. \<not> bm_bit (pid_map s) n) (64 * PID_MAP_LONG) f"
    using resch_ffz_spec [of PID_MAP_LONG "pid_map s"] len by auto
  with free obtain r where r: "f = int r" "r < NR_RT_TASKS" "\<not> bm_bit (pid_map s) r"
    "\<forall>m<r. bm_bit (pid_map s) m"
    by (auto simp: is_first_def resch_consts)
  let ?s1 = "s\<lparr>pid_map := bm_set r (pid_map s)\<rparr>"
  have "core_wf ?s1" using wf core_wf_cong [of s ?s1] by (simp add: same_queues_def)
  moreover have "\<not> global_entry (tcb ?s1 r)" "active_entry (tcb ?s1 r) = None"
    "component_entry (tcb ?s1 r) = None"
    using clean r(2,3) by (auto simp: task_is_managed_def)
  ultimately obtain s' where s': "resch_task_init k r ?s1 = Some s'" "core_wf s'"
    "\<forall>x. x \<noteq> r \<longrightarrow> tcb s' x = tcb ?s1 x" "pid_map s' = pid_map ?s1"
    "fresh_task k (jiffies ?s1) (tcb s' r)"
    using init_core_wf by blast
  moreover have "bm_bit (pid_map ?s1) m \<longleftrightarrow> m = r \<or> bm_bit (pid_map s) m" for m
    using r(2) len by (simp add: bm_bit_set resch_consts)
  moreover have "api_init k s = Some (int r, s')"
    using f(1) r s'(1) by (simp add: api_init_def resch_task_ptr_def)
  ultimately show ?thesis using r by auto
qed



text \<open>with every ID taken \<open>api_init\<close> returns \<open>-1\<close> and releases the IDs of stopped
  tasks, but leaves their descriptors on the lists: if the first of them is still on the global
  list, the next \<open>api_init\<close> reinitialises a linked entry.\<close>

theorem api_init_reuses_linked_entry:
  assumes len: "length (pid_map s) = PID_MAP_LONG" and full: "\<forall>n < NR_RT_TASKS. bm_bit (pid_map s) n"
    and dead: "d < NR_RT_TASKS" "tstate (task (tcb s d)) = TASK_STOPPED"
      "\<forall>m < d. tstate (task (tcb s m)) \<noteq> TASK_STOPPED"
    and linked: "task_is_managed s d"
  shows "\<exists>s1. api_init k s = Some (-1, s1) \<and>
     (\<forall>n < NR_RT_TASKS. bm_bit (pid_map s1) n \<longleftrightarrow> tstate (task (tcb s n)) \<noteq> TASK_STOPPED) \<and>
     api_init k s1 = None"
proof -
  have "resch_ffz (pid_map s) PID_MAP_LONG = Some (-1)"
    using resch_ffz_spec [of PID_MAP_LONG "pid_map s"] len full
    by (auto simp: is_first_def resch_consts)
  then have first: "api_init k s = Some (-1, clear_dead_tasks s)" by (simp add: api_init_def)
  let ?s1 = "clear_dead_tasks s"
  have c: "resch_task ?s1 = resch_task s" "length (pid_map ?s1) = PID_MAP_LONG"
    "bm_bit (pid_map ?s1) i \<longleftrightarrow> bm_bit (pid_map s) i \<and> \<not> (i < NR_RT_TASKS \<and> tstate (task (tcb s i)) = TASK_STOPPED)"
    for i
    using clear_dead_spec [OF len order_refl] unfolding clear_dead_tasks_def by blast+
  obtain f where f: "resch_ffz (pid_map ?s1) PID_MAP_LONG = Some f"
    "is_first (\<lambda>n. \<not> bm_bit (pid_map ?s1) n) (64 * PID_MAP_LONG) f"
    using resch_ffz_spec [of PID_MAP_LONG "pid_map ?s1"] c(2) by auto
  have "f = int d"
  proof -
    have d: "\<not> bm_bit (pid_map ?s1) d" "\<forall>m<d. bm_bit (pid_map ?s1) m"
      using c(3) full dead by auto
    from f(2) consider "f = -1" "\<forall>n<64. bm_bit (pid_map ?s1) n"
      | n where "f = int n" "\<not> bm_bit (pid_map ?s1) n" "\<forall>m<n. bm_bit (pid_map ?s1) m"
      by (auto simp: is_first_def resch_consts)
    then show ?thesis
      using d dead(1) by cases (auto simp: resch_consts, metis nat_neq_iff)
  qed
  moreover have "global_entry (tcb ?s1 d)" using linked c(1) by (simp add: task_is_managed_def)
  then have "resch_task_init k d (?s1\<lparr>pid_map := bm_set d (pid_map ?s1)\<rparr>) = None"
    by (auto simp: resch_task_init_def Let_def kernel_migrate_task_def split: bind_splits)
  ultimately have "api_init k ?s1 = None"
    using f(1) dead(1) by (simp add: api_init_def resch_task_ptr_def)
  with first c(3) full show ?thesis by auto
qed

definition dead_listed :: core where
  "dead_listed = upd_linux 3 (\<lambda>t. t\<lparr>tstate := TASK_STOPPED\<rparr>) (three_listed\<lparr>pid_map := [- 1]\<rparr>)"

theorem api_init_reuses_linked_entry_witness:
  "\<exists>s1. api_init kernel0 dead_listed = Some (-1, s1) \<and> api_init kernel0 s1 = None"
proof -
  have "tstate (task (tcb three_listed m)) = TASK_RUNNING" for m
    by (simp add: three_listed_def global_list_insert_def locked_global_list_insert_def boot_defs)
  moreover have "task_is_managed dead_listed 3"
    by (simp add: dead_listed_def task_is_managed_def three_listed_facts)
  moreover have "\<forall>n < NR_RT_TASKS. bm_bit (pid_map dead_listed) n"
    by (simp add: dead_listed_def bm_bit_def resch_consts)
  ultimately show ?thesis
    using api_init_reuses_linked_entry [of dead_listed 3 kernel0]
    by (auto simp: dead_listed_def resch_consts)
qed

text \<open>C10: submitting a fixed-priority or EDF task with \<open>api_run\<close> (no plugin, no reserve)
  puts it on the global list and into the active queue of its CPU and priority, releases its
  first job \<open>timeout\<close> later with its deadline counted from the release, and keeps the core
  well formed, provided the rest of the system leaves the sleeping task's descriptor alone.\<close>

theorem api_run_submits:
  assumes wf: "core_wf s" and r: "resch_task_ptr rid = Some r" and idle: "\<not> task_is_active s r"
    and c: "cpu_id (tcb s r) \<le> NR_RT_CPUS" and i: "queue_index (prio (tcb s r)) = Some i"
    and ok: "edf_prio_ok s r" and cls: "sclass (tcb s r) \<noteq> FAIR_CLASS" "policy (tcb s r) \<noteq> RESCH_SCHED_FAIR"
    and res: "\<not> task_has_reserve s r" and alone: "leaves_alone k r"
    and rt: "has_sched_deadline k \<and> policy (tcb s r) = RESCH_SCHED_EDF \<longrightarrow> 0 < runtime (tcb s r)"
  shows "\<exists>s'. api_run uninstall_scheduler k rid timeout (s, w) = Some (RES_SUCCESS, (s', w)) \<and>
     core_wf s' \<and> task_is_managed s' r \<and> active_entry (tcb s' r) = Some (cpu_id (tcb s r), i) \<and>
     release_time (tcb s' r) = jiffies s + msecs_to_jiffies k timeout \<and>
     deadline_time (tcb s' r) = release_time (tcb s' r) + deadline (tcb s r)"
proof -
  let ?s1 = "global_list_insert r s" and ?rel = "jiffies s + msecs_to_jiffies k timeout"
  have t1: "tcb ?s1 r = (tcb s r)\<lparr>global_entry := True\<rparr>" and j1: "jiffies ?s1 = jiffies s"
    by (cases "global_entry (tcb s r)")
       (auto simp: global_list_insert_def locked_global_list_insert_def)
  have wf1: "core_wf ?s1"
    using core_wf_global_list(1) [OF wf] by (simp add: global_list_insert_def)
  have rt1: "has_sched_deadline k \<and> policy (tcb ?s1 r) = RESCH_SCHED_EDF \<longrightarrow> 0 < runtime (tcb ?s1 r)"
    using rt t1 by simp
  obtain s2 where s2: "job_release k r ?rel ?s1 = Some s2" "core_wf s2"
    "job_fields (tcb s2 r) = job_fields ((tcb ?s1 r)\<lparr>release_time := ?rel\<rparr>)"
    "deadline_time (tcb s2 r) = ?rel + deadline (tcb ?s1 r)"
    using job_release_spec [OF alone wf1 rt1] by blast
  note f = job_fieldsD [OF s2(3)]
  have "\<exists>s'. job_start uninstall_scheduler k r (s2, w) = Some (s', w) \<and> core_wf s' \<and>
     active_entry (tcb s' r) = Some (cpu_id (tcb s2 r), i) \<and>
     sched_fields (tcb s' r) = sched_fields (tcb s2 r) \<and> global_entry (tcb s' r) = global_entry (tcb s2 r)"
    using f t1 idle c i ok cls res s2(2)
    by (intro job_start_default) (auto simp: edf_prio_ok_def task_has_reserve_def task_not_active word_gt_0)
  then obtain s' where s': "job_start uninstall_scheduler k r (s2, w) = Some (s', w)" "core_wf s'"
    "active_entry (tcb s' r) = Some (cpu_id (tcb s2 r), i)"
    "sched_fields (tcb s' r) = sched_fields (tcb s2 r)" "global_entry (tcb s' r) = global_entry (tcb s2 r)"
    by blast
  have "api_run uninstall_scheduler k rid timeout (s, w) = Some (RES_SUCCESS, (s', w))"
    using r s2(1) s'(1) cls(2) t1 j1
    by (simp add: api_run_def uninstall_scheduler_def hook_default_def)
  with s' s2(4) f t1 show ?thesis
    by (auto simp: sched_fields_def task_is_managed_def)
qed

lemma kernel0_alone: "leaves_alone kernel0 r"
  by (auto simp: leaves_alone_def kernel0_def)

theorem api_run_submits_witness:
  "\<exists>s'. api_run uninstall_scheduler kernel0 3 10 (edf_ready 3 9 boot, ()) = Some (RES_SUCCESS, (s', ())) \<and>
     core_wf s' \<and> release_time (tcb s' 3) = 10"
  using api_run_submits [OF edf_ready_boot(1), of 3 3 95 kernel0 10 "()"] kernel0_alone [of 3]
  by (auto simp: resch_task_ptr_def NR_RT_TASKS_def NR_RT_CPUS_def edf_ready_def boot_defs kernel0_def
      edf_prio_ok_def task_has_reserve_def task_is_active_def RESCH_SCHED_EDF_def RESCH_SCHED_FAIR_def)

text \<open>C2: \<open>api_wait_for_period\<close> does not drift: the next release is exactly one period after
  the last one, whatever the time, the deadline follows from the release, the answer is
  \<open>RES_MISS\<close> exactly when a deadline is set and has passed, and the next job is active on a
  well-formed core.\<close>

theorem wait_for_period_no_drift:
  assumes wf: "core_wf s" and r: "resch_task_ptr rid = Some r"
    and e: "active_entry (tcb s r) = Some (c, i)" and ok: "edf_prio_ok s r"
    and res: "\<not> task_has_reserve s r" and alone: "leaves_alone k r"
    and rt: "has_sched_deadline k \<and> policy (tcb s r) = RESCH_SCHED_EDF \<longrightarrow> 0 < runtime (tcb s r)"
  shows "\<exists>a s'. api_wait_for_period uninstall_scheduler k rid (s, w) = Some (a, (s', w)) \<and>
     core_wf s' \<and> active_entry (tcb s' r) = Some (c, i) \<and>
     release_time (tcb s' r) = release_time (tcb s r) + period (tcb s r) \<and>
     deadline_time (tcb s' r) = release_time (tcb s' r) + deadline (tcb s r) \<and>
     a = (if 0 < deadline (tcb s r) \<and> deadline_time (tcb s r) < jiffies s then RES_MISS else RES_SUCCESS)"
proof -
  define m where "m = (0 < deadline (tcb s r) \<and> deadline_time (tcb s r) < jiffies s)"
  let ?s1 = "upd_task r (\<lambda>t. t\<lparr>missed := m\<rparr>) s"
  have wf1: "core_wf ?s1" using wf by simp
  have e1: "active_entry (tcb ?s1 r) = Some (c, i)" "edf_prio_ok ?s1 r" "reserve_time (tcb ?s1 r) = 0"
    using e ok res by (simp_all add: edf_prio_ok_def task_has_reserve_def word_gt_0)
  obtain s2 where s2: "job_complete uninstall_scheduler k r (?s1, w) = Some (s2, w)" "core_wf s2"
    "active_entry (tcb s2 r) = None" "prio (tcb s2 r) = prio (tcb ?s1 r)"
    "sched_fields (tcb s2 r) = sched_fields ((tcb ?s1 r)\<lparr>wcet := wcet (tcb s2 r)\<rparr>)"
    using job_complete_default [OF wf1 e1, of k w] by (elim exE conjE) (rule that)
  let ?rel = "release_time (tcb s r) + period (tcb s r)"
  have f2: "release_time (tcb s2 r) = release_time (tcb s r)" "period (tcb s2 r) = period (tcb s r)"
    "deadline (tcb s2 r) = deadline (tcb s r)" "policy (tcb s2 r) = policy (tcb s r)"
    "runtime (tcb s2 r) = runtime (tcb s r)" "cpu_id (tcb s2 r) = cpu_id (tcb s r)"
    "sclass (tcb s2 r) = sclass (tcb s r)" "reserve_time (tcb s2 r) = reserve_time (tcb s r)"
    using s2(5) by (simp_all add: sched_fields_def)
  have rt2: "has_sched_deadline k \<and> policy (tcb s2 r) = RESCH_SCHED_EDF \<longrightarrow> 0 < runtime (tcb s2 r)"
    using rt f2 by simp
  obtain s3 where s3: "job_release k r ?rel s2 = Some s3" "core_wf s3"
    "job_fields (tcb s3 r) = job_fields ((tcb s2 r)\<lparr>release_time := ?rel\<rparr>)"
    "deadline_time (tcb s3 r) = ?rel + deadline (tcb s2 r)"
    using job_release_spec [OF alone s2(2) rt2] by blast
  note f3 = job_fieldsD [OF s3(3)]
  have place: "cpu_id (tcb s r) = c" "queue_index (prio (tcb s r)) = Some i" "c \<le> NR_RT_CPUS"
    "sclass (tcb s r) \<noteq> FAIR_CLASS"
    using core_wfD(3) [OF wf, of r] core_wfD(4) [OF wf, of r] e
      active_wfD(4) [OF core_wfD(1) [OF wf] e]
    by (simp_all add: placed_def)
  have "\<exists>s'. job_start uninstall_scheduler k r (s3, w) = Some (s', w) \<and> core_wf s' \<and>
     active_entry (tcb s' r) = Some (cpu_id (tcb s3 r), i) \<and>
     sched_fields (tcb s' r) = sched_fields (tcb s3 r) \<and> global_entry (tcb s' r) = global_entry (tcb s3 r)"
    using f2 f3 s2 s3(2) place ok res
    by (intro job_start_default) (auto simp: edf_prio_ok_def task_has_reserve_def word_gt_0)
  then obtain s' where s': "job_start uninstall_scheduler k r (s3, w) = Some (s', w)" "core_wf s'"
    "active_entry (tcb s' r) = Some (cpu_id (tcb s3 r), i)"
    "sched_fields (tcb s' r) = sched_fields (tcb s3 r)" by blast
  have "api_wait_for_period uninstall_scheduler k rid (s, w) =
      Some (if m then RES_MISS else RES_SUCCESS, (s', w))"
    using r s2(1) s3(1) s'(1) f2
    by (simp add: api_wait_for_period_def deadline_miss_def Let_def m_def)
  with s' s3(4) f2 f3 place show ?thesis
    by (auto simp: sched_fields_def m_def)
qed

theorem wait_for_period_no_drift_witness:
  "\<exists>a s'. api_wait_for_period uninstall_scheduler kernel0 3 (two_fp, ()) = Some (a, (s', ())) \<and> core_wf s'"
proof -
  have "task_has_reserve two_fp 3 = False" "sclass (tcb two_fp 3) = FP_CLASS"
    by (simp_all add: task_has_reserve_def two_fp_def two_tasks_def mark_active_def list_link_def boot_defs)
  moreover have "active_entry (tcb two_fp 3) = Some (0, 60)"
    using two_tasks_facts(1) by (simp add: two_fp_def)
  ultimately show ?thesis
    using wait_for_period_no_drift [OF two_fp_wf, of 3 3 0 60 kernel0 "()"] kernel0_alone [of 3]
    by (auto simp: resch_task_ptr_def NR_RT_TASKS_def edf_prio_ok_def kernel0_def)
qed


lemma release_catch_up_runtime:
  assumes "release_catch_up k r s = Some s'"
  shows "runtime (tcb s r) \<noteq> 0"
proof (rule release_catch_up.raw_induct [of "\<lambda>k r s s'. runtime (tcb s r) \<noteq> 0", OF _ assms])
  fix rec :: "kenv \<Rightarrow> nat \<Rightarrow> core \<Rightarrow> core option" and k r s s'
  assume "\<And>k r s s'. rec k r s = Some s' \<Longrightarrow> runtime (tcb s r) \<noteq> 0"
    and "(if runtime (tcb s r) \<le> 0
      then rec k r (upd_task r (\<lambda>t. t\<lparr>deadline_time := deadline_time t + period t,
             release_time := jiffies s, dl_sched_release_time := cpu_clock k\<rparr>) s)
      else Some s) = Some s'"
  then show "runtime (tcb s r) \<noteq> 0" by (fastforce split: if_splits)
qed

text \<open>over \<open>SCHED_DEADLINE\<close> the release of a job of an EDF task without a runtime never
  ends: the loop waits for the runtime to become positive and never changes it.\<close>

theorem release_without_runtime_hangs:
  assumes "leaves_alone k r" "core_wf s" "has_sched_deadline k" "policy (tcb s r) = RESCH_SCHED_EDF"
    and "runtime (tcb s r) = 0"
  shows "job_release k r rel s = None"
proof -
  let ?s1 = "upd_task r (\<lambda>t. t\<lparr>release_time := rel\<rparr>) s"
  let ?s4 = "upd_task r (\<lambda>t. t\<lparr>deadline_time := release_time t + deadline t\<rparr>)
    (reset_exec_time r (class_wait_period k r ?s1))"
  have "core_wf ?s1" using assms(2) by simp
  then have "job_fields (tcb (class_wait_period k r ?s1) r) = job_fields ((tcb s r)\<lparr>release_time := rel\<rparr>)"
    using class_wait_period_spec(2) [OF assms(1), of ?s1] by simp
  then have f: "runtime (tcb ?s4 r) = 0" "policy (tcb ?s4 r) = RESCH_SCHED_EDF"
    using assms(4,5) by (simp_all add: job_fields_def reset_exec_time_def)
  have "release_catch_up k r ?s4 = None"
    using release_catch_up_runtime [of k r ?s4] f(1) by (cases "release_catch_up k r ?s4") auto
  with f(2) assms(3) show ?thesis by (simp add: job_release_def Let_def)
qed

theorem release_without_runtime_hangs_witness:
  "job_release (kernel0\<lparr>has_sched_deadline := True\<rparr>) 3 7 (edf_ready 3 9 boot) = None"
  by (rule release_without_runtime_hangs [OF _ edf_ready_boot(1)])
     (auto simp: leaves_alone_def kernel0_def edf_ready_def boot_defs)

text \<open>a fixed-priority task does not sleep until its release: \<open>fp_wait_period\<close> calls
  \<open>schedule_timeout\<close> without setting the task's state, and for a running task the kernel
  documents that this returns at once; its next job starts before it is released.\<close>

theorem fp_wait_period_returns_early:
  assumes running: "\<And>n s. tstate (task (tcb s r)) = TASK_RUNNING \<Longrightarrow> schedule_timeout k n s = s"
    and "tstate (task (tcb s r)) = TASK_RUNNING" "jiffies s < release_time (tcb s r)"
  shows "fp_wait_period k r s = s \<and> jiffies (fp_wait_period k r s) < release_time (tcb (fp_wait_period k r s) r)"
  using assms by (simp add: fp_wait_period_def)

theorem fp_wait_period_returns_early_witness:
  "fp_wait_period kernel0 3 (upd_task 3 (\<lambda>t. t\<lparr>release_time := 9\<rparr>) boot) =
     upd_task 3 (\<lambda>t. t\<lparr>release_time := 9\<rparr>) boot"
  using fp_wait_period_returns_early [of 3 kernel0 "upd_task 3 (\<lambda>t. t\<lparr>release_time := 9\<rparr>) boot"]
  by (simp add: kernel0_def boot_defs)

lemma exit_set_fair:
  assumes wf: "core_wf s" and idle: "active_entry (tcb s r) = None" "\<not> global_entry (tcb s r)"
    and cap: "cap_sys_nice k"
  shows "\<exists>ok s'. set_scheduler k r RESCH_SCHED_FAIR 0 s = Some (ok, s') \<and> core_wf s' \<and>
     active_entry (tcb s' r) = None \<and> \<not> global_entry (tcb s' r) \<and> pid_map s' = pid_map s \<and>
     policy (tcb s' r) = RESCH_SCHED_FAIR"
proof -
  let ?s1 = "set_policy r RESCH_SCHED_FAIR s"
  have s1: "core_wf ?s1" "active_entry (tcb ?s1 r) = None" "\<not> global_entry (tcb ?s1 r)"
    "pid_map ?s1 = pid_map s" "policy (tcb ?s1 r) = RESCH_SCHED_FAIR" "task_list ?s1 = task_list s"
    using wf idle
    by (auto simp: set_policy_def resch_consts intro: core_wf_upd_idle)
  have inactive: "\<not> task_is_active ?s1 r" using s1(2) by (simp add: task_not_active)
  obtain ok t where t: "class_set_scheduler k r 0 ?s1 = (ok, t)" by fastforce
  from do_set_scheduler_spec [OF s1(1) _ t] inactive obtain s'
    where s': "do_set_scheduler k r 0 ?s1 = Some (ok, s')" "core_wf s'"
      "set (task_list s') = set (task_list ?s1)" "\<forall>x. task_is_active s' x = task_is_active ?s1 x"
    by blast
  note f = do_set_scheduler_fields [OF s'(1)]
  have "r \<notin> set (task_list ?s1)"
    using core_wfD(2) [OF s1(1)] s1(3) by (simp add: glist_wf_def glist_links_def)
  then have "\<not> global_entry (tcb s' r)"
    using s'(3) core_wfD(2) [OF s'(2)] by (simp add: glist_wf_def glist_links_def)
  moreover have "active_entry (tcb s' r) = None"
    using s'(4) inactive by (simp add: task_not_active [symmetric])
  moreover have "policy (tcb s' r) = RESCH_SCHED_FAIR"
    using f(1) [of r] s1(5) by (simp add: sched_fields_def)
  ultimately show ?thesis
    using s' f(3) s1(4) cap by (simp add: set_scheduler_def)
qed



end
