(* ===== verification/Event.thy ===== *)
theory Event
  imports Task_API
begin

text \<open>Sleeping, suspending and waking up (\<open>core/event.c\<close>).\<close>

definition job_resume :: "kenv \<Rightarrow> rid \<Rightarrow> core \<Rightarrow> core option" where
  "job_resume k r s = do {
     let c = cpu_id (tcb s r);
     guard_c (c \<le> NR_RT_CPUS);
     enqueue_task k r (prio (tcb s r)) c s
   }"

definition job_suspend :: "kenv \<Rightarrow> rid \<Rightarrow> core \<Rightarrow> core option" where
  "job_suspend k r s = do {
     let c = cpu_id (tcb s r);
     s1 \<leftarrow> (if prio (tcb s r) \<noteq> prio_save (tcb s r)
            then map_option snd (set_scheduler k r (policy (tcb s r)) (prio_save (tcb s r)) s)
            else Some s);
     guard_c (c \<le> NR_RT_CPUS);
     dequeue_task k r (prio (tcb s1 r)) c s1
   }"

definition api_sleep :: "kenv \<Rightarrow> int \<Rightarrow> u64 \<Rightarrow> core \<Rightarrow> (int \<times> core) option" where
  "api_sleep k rid timeout s = do {
     r \<leftarrow> resch_task_ptr rid;
     s1 \<leftarrow> job_suspend k r s;
     s2 \<leftarrow> job_resume k r (schedule_timeout k timeout s1);
     Some (RES_SUCCESS, s2)
   }"

definition api_suspend :: "kenv \<Rightarrow> int \<Rightarrow> core \<Rightarrow> (int \<times> core) option" where
  "api_suspend k rid s = do {
     r \<leftarrow> resch_task_ptr rid;
     s1 \<leftarrow> job_suspend k r s;
     s2 \<leftarrow> job_resume k r (schedule k (set_tstate r TASK_UNINTERRUPTIBLE s1));
     Some (RES_SUCCESS, s2)
   }"

definition api_wake_up :: "int \<Rightarrow> core \<Rightarrow> (int \<times> core) option" where
  "api_wake_up rid s = do {
     r \<leftarrow> resch_task_ptr rid;
     Some (if release_time (tcb s r) > jiffies s then (RES_FAULT, s)
           else (RES_SUCCESS, if tstate (task (tcb s r)) \<noteq> TASK_RUNNING
                              then wake_up_process r s else s))
   }"


section \<open>Leaving and rejoining the queues in any class\<close>

lemma class_deq_job:
  assumes wf: "core_wf s" and e: "active_entry (tcb s r) = Some (c, i)"
  obtains s' where "dequeue_task k r (prio (tcb s r)) c s = Some s'" "core_wf s'"
    "active_entry (tcb s' r) = None" "queue_frame r s s'" "prio (tcb s' r) = prio (tcb s r)"
proof -
  note cls = core_wfD(4) [OF wf, of r]
  have "\<exists>s'. dequeue_task k r (prio (tcb s r)) c s = Some s' \<and> core_wf s' \<and>
     active_entry (tcb s' r) = None \<and> queue_frame r s s' \<and> prio (tcb s' r) = prio (tcb s r)"
    using cls e fp.deq_job [OF wf e] edf.deq_job [OF wf e] dl.deq_job [OF wf e]
    by (cases "sclass (tcb s r)"; cases "has_sched_deadline k"; simp add: dequeue_task_def) metis+
  with that show thesis by blast
qed

lemma class_enq_job:
  assumes wf: "core_wf s" and idle: "active_entry (tcb s r) = None"
    and c: "cpu_id (tcb s r) \<le> NR_RT_CPUS" and i: "queue_index (prio (tcb s r)) = Some i"
    and cls: "sclass (tcb s r) \<noteq> FAIR_CLASS"
  obtains s' where "enqueue_task k r (prio (tcb s r)) (cpu_id (tcb s r)) s = Some s'" "core_wf s'"
    "active_entry (tcb s' r) = Some (cpu_id (tcb s r), i)" "queue_frame r s s'"
    "prio (tcb s' r) = prio (tcb s r)"
proof -
  have "\<exists>s'. enqueue_task k r (prio (tcb s r)) (cpu_id (tcb s r)) s = Some s' \<and> core_wf s' \<and>
     active_entry (tcb s' r) = Some (cpu_id (tcb s r), i) \<and> queue_frame r s s' \<and>
     prio (tcb s' r) = prio (tcb s r)"
    using cls fp.enq_job [OF wf idle c i cls] edf.enq_job [OF wf idle c i cls]
      dl.enq_job [OF wf idle c i cls]
    by (cases "sclass (tcb s r)"; cases "has_sched_deadline k"; simp add: enqueue_task_def) metis+
  with that show thesis by blast
qed

lemma saved_prio_spec:
  assumes wf: "core_wf s" and e: "active_entry (tcb s r) = Some (c, i)"
    and cls: "sclass (tcb s r) = FP_CLASS" and cap: "cap_sys_nice k"
    and acc: "setscheduler_ok k r SCHED_FIFO (prio_save (tcb s r))"
    and j: "queue_index (prio_save (tcb s r)) = Some j"
  obtains s1 where "(if prio (tcb s r) \<noteq> prio_save (tcb s r)
      then map_option snd (set_scheduler k r (policy (tcb s r)) (prio_save (tcb s r)) s)
      else Some s) = Some s1" "core_wf s1" "active_entry (tcb s1 r) = Some (c, j)"
    "prio (tcb s1 r) = prio_save (tcb s r)" "cpu_id (tcb s1 r) = c" "sclass (tcb s1 r) = FP_CLASS"
proof (cases "prio (tcb s r) = prio_save (tcb s r)")
  case True
  with core_wfD(3) [OF wf, of r] e j have "i = j" "cpu_id (tcb s r) = c" by (auto simp: placed_def)
  with True that [of s] wf e cls show thesis by simp
next
  case False
  let ?p = "prio_save (tcb s r)"
  obtain ok t where t: "class_set_scheduler k r ?p s = (ok, t)" by fastforce
  then have "ok" using cls acc by (auto simp: class_set_scheduler_def fp_set_scheduler_def)
  with do_set_scheduler_spec [OF wf _ t] j obtain s1 where
    s1: "do_set_scheduler k r ?p s = Some (True, s1)" "core_wf s1" "prio (tcb s1 r) = ?p"
      "\<forall>x. task_is_active s1 x = task_is_active s x" by auto
  have f: "sched_fields (tcb s1 r) = sched_fields (tcb s r)" by (rule do_set_scheduler_fields(1) [OF s1(1)])
  then have f': "cpu_id (tcb s1 r) = c" "sclass (tcb s1 r) = FP_CLASS"
    using cls core_wfD(3) [OF wf, of r] e by (simp_all add: sched_fields_def placed_def)
  have "task_is_active s1 r" using s1(4) e by (simp add: task_is_active_def)
  then have "active_entry (tcb s1 r) = Some (c, j)"
    using core_wfD(3) [OF s1(2), of r] f' s1(3) j by (auto simp: task_is_active_def placed_def)
  moreover have "set_scheduler k r (policy (tcb s r)) ?p s = Some (True, s1)"
    using s1(1) cap by (simp add: set_scheduler_def set_policy_def)
  ultimately show thesis using that [of s1] False s1 f' by simp
qed

section \<open>Properties\<close>

text \<open>a fixed-priority task that suspends itself and is woken comes back to the active
  queues of its CPU with the priority last saved by the accounting, whatever priority it had
  when it went to sleep, and the core stays well formed.\<close>

theorem suspend_returns_with_saved_prio:
  assumes wf: "core_wf s" and r: "resch_task_ptr rid = Some r"
    and e: "active_entry (tcb s r) = Some (c, i)" and cls: "sclass (tcb s r) = FP_CLASS"
    and cap: "cap_sys_nice k" and acc: "setscheduler_ok k r SCHED_FIFO (prio_save (tcb s r))"
    and j: "queue_index (prio_save (tcb s r)) = Some j" and alone: "leaves_alone k r"
  shows "\<exists>s'. api_suspend k rid s = Some (RES_SUCCESS, s') \<and> core_wf s' \<and>
     active_entry (tcb s' r) = Some (c, j) \<and> prio (tcb s' r) = prio_save (tcb s r)"
proof -
  have c: "cpu_id (tcb s r) = c" "c \<le> NR_RT_CPUS"
    using core_wfD(3) [OF wf, of r] e active_wfD(4) [OF core_wfD(1) [OF wf] e]
    by (simp_all add: placed_def)
  obtain s1 where s1: "(if prio (tcb s r) \<noteq> prio_save (tcb s r)
      then map_option snd (set_scheduler k r (policy (tcb s r)) (prio_save (tcb s r)) s)
      else Some s) = Some s1" "core_wf s1" "active_entry (tcb s1 r) = Some (c, j)"
    "prio (tcb s1 r) = prio_save (tcb s r)" "cpu_id (tcb s1 r) = c" "sclass (tcb s1 r) = FP_CLASS"
    by (rule saved_prio_spec [OF wf e cls cap acc j])
  obtain s2 where s2: "dequeue_task k r (prio (tcb s1 r)) c s1 = Some s2" "core_wf s2"
    "active_entry (tcb s2 r) = None" "queue_frame r s1 s2" "prio (tcb s2 r) = prio (tcb s1 r)"
    by (rule class_deq_job [OF s1(2,3)])
  have suspend: "job_suspend k r s = Some s2"
    using s1(1) s2(1) c by (simp add: job_suspend_def del: bind_Some_iff)
  let ?s3 = "schedule k (set_tstate r TASK_UNINTERRUPTIBLE s2)"
  have wf3: "core_wf ?s3"
    using alone s2(2) unfolding leaves_alone_def by simp
  have "job_fields (tcb ?s3 r) = job_fields (tcb (set_tstate r TASK_UNINTERRUPTIBLE s2) r)"
    using alone unfolding leaves_alone_def by (intro sleep_fields) blast
  then have "job_fields (tcb ?s3 r) = job_fields (tcb s2 r)" by (simp add: set_tstate_def)
  note f3 = job_fieldsD [OF this]
  have g: "cpu_id (tcb ?s3 r) = c" "prio (tcb ?s3 r) = prio_save (tcb s r)"
    "active_entry (tcb ?s3 r) = None" "sclass (tcb ?s3 r) \<noteq> FAIR_CLASS"
    using f3 s2(3,5) s1(4-6) queue_frame_tcb(2,3) [OF s2(4), of r] by simp_all
  obtain s4 where s4: "enqueue_task k r (prio (tcb ?s3 r)) (cpu_id (tcb ?s3 r)) ?s3 = Some s4" "core_wf s4"
    "active_entry (tcb s4 r) = Some (cpu_id (tcb ?s3 r), j)" "prio (tcb s4 r) = prio (tcb ?s3 r)"
    by (rule class_enq_job [OF wf3 g(3)]) (use g c j in auto)
  have "job_resume k r ?s3 = Some s4"
    using s4(1) g(1) c by (simp add: job_resume_def)
  with suspend r s4 g show ?thesis by (simp add: api_suspend_def)
qed

theorem suspend_returns_with_saved_prio_witness:
  "\<exists>s'. api_suspend kernel0 3 (upd_task 3 (\<lambda>t. t\<lparr>prio_save := 20\<rparr>) two_fp) = Some (RES_SUCCESS, s') \<and>
     prio (tcb s' 3) = 20"
proof -
  let ?s = "upd_task 3 (\<lambda>t. t\<lparr>prio_save := 20\<rparr>) two_fp"
  have wf: "core_wf ?s" using two_fp_wf core_wf_upd_task [of "\<lambda>t. t\<lparr>prio_save := 20\<rparr>" 3 two_fp] by simp
  have e: "active_entry (tcb ?s 3) = Some (0, 60)" "sclass (tcb ?s 3) = FP_CLASS"
    using two_tasks_facts(1) by (simp_all add: two_fp_def)
  show ?thesis
    using suspend_returns_with_saved_prio [OF wf _ e, of 3 kernel0 78] kernel0_alone [of 3]
    by (auto simp: resch_task_ptr_def NR_RT_TASKS_def kernel0_def queue_index_valid)
qed

end
