(* ===== verification/Component.thy ===== *)
theory Component
  imports Set_Scheduler
begin

text \<open>
  Components of hierarchical scheduling (\<open>core/component.c\<close>). The bitmap has one bit per
  component ID, in one long; the array has \<open>NR_RT_COMPONENTS\<close> elements.
\<close>

text \<open>The element of the array \<open>component\<close>, undefined outside it.\<close>

definition component_ptr :: "int \<Rightarrow> nat option" where
  "component_ptr cid = (if 0 \<le> cid \<and> cid < int NR_RT_COMPONENTS then Some (nat cid) else None)"

text \<open>\<open>INIT_LIST_HEAD\<close> on a list that still has members corrupts it.\<close>

definition init_component_list :: "nat \<Rightarrow> core \<Rightarrow> core option" where
  "init_component_list c s = do {
     guard_c (component_tasks s c = None \<or> component_tasks s c = Some []);
     Some (s\<lparr>component_tasks := (component_tasks s)(c \<mapsto> [])\<rparr>)
   }"

definition api_component_create :: "core \<Rightarrow> (int \<times> core) option" where
  "api_component_create s = do {
     found \<leftarrow> resch_ffz (cid_map s) CID_MAP_LONG;
     let (cid, s1) = (if found < 0 then (RES_FAULT, s)
                      else (found, s\<lparr>cid_map := bm_set (nat found) (cid_map s)\<rparr>));
     c \<leftarrow> component_ptr cid;
     s2 \<leftarrow> init_component_list c s1;
     Some (cid, s2)
   }"

definition api_component_destroy :: "int \<Rightarrow> core \<Rightarrow> (int \<times> core) option" where
  "api_component_destroy cid s = do {
     guard_c (0 \<le> cid \<and> cid < 64 * int CID_MAP_LONG);
     Some (RES_SUCCESS, s\<lparr>cid_map := bm_clear (nat cid) (cid_map s)\<rparr>)
   }"

definition api_compose :: "int \<Rightarrow> int \<Rightarrow> core \<Rightarrow> (int \<times> core) option" where
  "api_compose rid cid s = do {
     r \<leftarrow> resch_task_ptr rid;
     if cid \<ge> int NR_RT_COMPONENTS then Some (RES_FAULT, s)
     else do {
       c \<leftarrow> component_ptr cid;
       if bm_bit (cid_map s) c then Some (RES_FAULT, s)
       else if component_entry (tcb s r) \<noteq> None then Some (RES_FAULT, s)
       else do {
         xs \<leftarrow> component_tasks s c;
         Some (RES_SUCCESS, upd_task r (\<lambda>t. t\<lparr>component_entry := Some c\<rparr>)
                 (s\<lparr>component_tasks := (component_tasks s)(c \<mapsto> xs @ [r])\<rparr>))
       }
     }
   }"

definition api_decompose :: "int \<Rightarrow> core \<Rightarrow> (int \<times> core) option" where
  "api_decompose rid s = do {
     r \<leftarrow> resch_task_ptr rid;
     Some (case component_entry (tcb s r) of
             None \<Rightarrow> (RES_FAULT, s)
           | Some c \<Rightarrow> (RES_SUCCESS, upd_task r (\<lambda>t. t\<lparr>component_entry := None\<rparr>)
               (s\<lparr>component_tasks := (component_tasks s)
                    (c := map_option (remove1 r) (component_tasks s c))\<rparr>)))
   }"

definition component_init :: "core \<Rightarrow> core" where
  "component_init s = s\<lparr>cid_map := replicate CID_MAP_LONG 0\<rparr>"

section \<open>Members and entries agree\<close>

definition component_wf :: "core \<Rightarrow> bool" where
  "component_wf s \<longleftrightarrow>
     length (cid_map s) = CID_MAP_LONG \<and>
     (\<forall>c xs. component_tasks s c = Some xs \<longrightarrow> distinct xs) \<and>
     (\<forall>r c. component_entry (tcb s r) = Some c \<longleftrightarrow> (\<exists>xs. component_tasks s c = Some xs \<and> r \<in> set xs))"

lemma component_wfD:
  assumes "component_wf s"
  shows "component_entry (tcb s r) = Some c \<Longrightarrow> \<exists>xs. component_tasks s c = Some xs \<and> r \<in> set xs \<and> distinct xs"
    and "component_tasks s c = Some xs \<Longrightarrow> r \<in> set xs \<Longrightarrow> component_entry (tcb s r) = Some c"
    and "component_tasks s c = Some xs \<Longrightarrow> distinct xs"
    and "length (cid_map s) = CID_MAP_LONG"
  using assms unfolding component_wf_def by blast+

lemma component_wfI:
  assumes "length (cid_map s) = CID_MAP_LONG"
    and "\<And>c xs. component_tasks s c = Some xs \<Longrightarrow> distinct xs"
    and "\<And>r c. component_entry (tcb s r) = Some c \<Longrightarrow> \<exists>xs. component_tasks s c = Some xs \<and> r \<in> set xs"
    and "\<And>r c xs. component_tasks s c = Some xs \<Longrightarrow> r \<in> set xs \<Longrightarrow> component_entry (tcb s r) = Some c"
  shows "component_wf s"
  unfolding component_wf_def using assms by blast

text \<open>Linking and unlinking an entry.\<close>

lemma component_link_wf:
  assumes wf: "component_wf s" and "component_entry (tcb s r) = None" "component_tasks s c = Some xs"
  shows "component_wf (upd_task r (\<lambda>t. t\<lparr>component_entry := Some c\<rparr>)
           (s\<lparr>component_tasks := (component_tasks s)(c \<mapsto> xs @ [r])\<rparr>))"
proof -
  have "r \<notin> set ys" if "component_tasks s d = Some ys" for d ys
    using component_wfD(2) [OF wf that, of r] assms(2) by auto
  then show ?thesis
    using component_wfD [OF wf] assms(3)
    by (intro component_wfI) (auto split: if_splits, fastforce+)
qed

lemma component_unlink_wf:
  assumes wf: "component_wf s" and e: "component_entry (tcb s r) = Some c"
  shows "component_wf (upd_task r (\<lambda>t. t\<lparr>component_entry := None\<rparr>)
           (s\<lparr>component_tasks := (component_tasks s)(c := map_option (remove1 r) (component_tasks s c))\<rparr>))"
proof -
  obtain xs where xs: "component_tasks s c = Some xs" "distinct xs"
    using component_wfD(1) [OF wf e] by blast
  have only: "d = c" if "component_tasks s d = Some ys" "r \<in> set ys" for d ys
    using component_wfD(2) [OF wf that] e by simp
  have keep: "\<exists>ys. component_tasks s d = Some ys \<and> x \<in> set ys" if "component_entry (tcb s x) = Some d" for x d
    using component_wfD(1) [OF wf that] by blast
  show ?thesis
  proof (rule component_wfI)
    fix x d
    assume "component_entry (tcb (upd_task r (\<lambda>t. t\<lparr>component_entry := None\<rparr>)
      (s\<lparr>component_tasks := (component_tasks s)(c := map_option (remove1 r) (component_tasks s c))\<rparr>)) x) = Some d"
    then show "\<exists>ys. component_tasks (upd_task r (\<lambda>t. t\<lparr>component_entry := None\<rparr>)
      (s\<lparr>component_tasks := (component_tasks s)(c := map_option (remove1 r) (component_tasks s c))\<rparr>)) d = Some ys
      \<and> x \<in> set ys"
      using keep [of x d] xs by (auto simp: set_remove1_eq split: if_splits)
  qed (use component_wfD [OF wf] xs only in \<open>auto simp: set_remove1_eq split: if_splits\<close>)
qed

lemma compose_spec:
  assumes wf: "component_wf s" and r: "resch_task_ptr rid = Some r"
    and ok: "api_compose rid cid s = Some (res, s')"
  shows "component_wf s'"
    and "res = RES_SUCCESS \<longleftrightarrow> 0 \<le> cid \<and> cid < int NR_RT_COMPONENTS \<and> \<not> bm_bit (cid_map s) (nat cid) \<and>
           component_entry (tcb s r) = None"
    and "res \<noteq> RES_SUCCESS \<longrightarrow> s' = s"
    and "res = RES_SUCCESS \<longrightarrow> component_entry (tcb s' r) = Some (nat cid)"
  using ok r wf
  by (cases "component_entry (tcb s r)";
      auto simp: api_compose_def component_ptr_def RES_SUCCESS_def RES_FAULT_def
        intro: component_link_wf split: if_splits)+

lemma decompose_spec:
  assumes wf: "component_wf s" and r: "resch_task_ptr rid = Some r"
    and ok: "api_decompose rid s = Some (res, s')"
  shows "component_wf s'"
    and "res = RES_SUCCESS \<longleftrightarrow> component_entry (tcb s r) \<noteq> None"
    and "component_entry (tcb s' r) = None"
  using ok r wf
  by (cases "component_entry (tcb s r)";
      auto simp: api_decompose_def RES_SUCCESS_def RES_FAULT_def intro: component_unlink_wf)+

section \<open>Properties\<close>

lemma boot_component_wf: "component_wf boot"
  by (simp add: component_wf_def boot_defs resch_consts)

text \<open>composing keeps the lists of the components and the entries of the tasks in
  agreement, changes nothing when it fails, and succeeds exactly for a task that belongs to no
  component and a component whose bit is clear: a component that \<open>api_component_create\<close> has
  handed out always refuses.\<close>

theorem compose_refuses_created:
  assumes "component_wf s" "resch_task_ptr rid = Some r" "api_compose rid cid s = Some (res, s')"
  shows "component_wf s' \<and> (res \<noteq> RES_SUCCESS \<longrightarrow> s' = s) \<and>
     (res = RES_SUCCESS \<longleftrightarrow> 0 \<le> cid \<and> cid < int NR_RT_COMPONENTS \<and>
        \<not> bm_bit (cid_map s) (nat cid) \<and> component_entry (tcb s r) = None)"
  using compose_spec [OF assms] by blast

theorem compose_refuses_created_witness:
  "\<exists>s1 s2. api_component_create boot = Some (0, s1) \<and> api_compose 3 0 s1 = Some (RES_FAULT, s2) \<and> s2 = s1"
proof -
  have found: "resch_ffz (cid_map boot) CID_MAP_LONG = Some 0"
    by (simp add: resch_consts boot_defs resch_ffz_def word_at_def ffs_long_def upt_rec)
  then obtain s1 where s1: "api_component_create boot = Some (0, s1)" "bm_bit (cid_map s1) 0"
      "component_wf s1"
    using boot_component_wf
    by (auto simp: api_component_create_def component_ptr_def init_component_list_def resch_consts
        boot_defs bm_bit_set component_wf_def)
  have ptr: "resch_task_ptr 3 = Some 3" by (simp add: resch_task_ptr_def resch_consts)
  then obtain res s2 where s2: "api_compose 3 0 s1 = Some (res, s2)"
    using s1(2) by (simp add: api_compose_def component_ptr_def resch_consts)
  from compose_refuses_created [OF s1(3) ptr s2] s1(2) have "res \<noteq> RES_SUCCESS" "s2 = s1" by auto
  with s1 s2 ptr show ?thesis by (auto simp: api_compose_def component_ptr_def resch_consts)
qed

text \<open>composing and then decomposing a task succeeds and restores the members of the
  component.\<close>

theorem compose_decompose:
  assumes "component_wf s" "resch_task_ptr rid = Some r" "api_compose rid cid s = Some (RES_SUCCESS, s1)"
  shows "\<exists>s2. api_decompose rid s1 = Some (RES_SUCCESS, s2) \<and> component_wf s2 \<and>
     component_entry (tcb s2 r) = None \<and> component_tasks s2 = component_tasks s"
proof -
  note c = compose_spec [OF assms]
  have none: "component_entry (tcb s r) = None" using c(2) by simp
  have e: "component_entry (tcb s1 r) = Some (nat cid)" using c(4) by simp
  then obtain s2 where s2: "api_decompose rid s1 = Some (RES_SUCCESS, s2)"
    using assms(2) by (auto simp: api_decompose_def)
  from assms(2,3) none obtain xs where xs: "component_tasks s (nat cid) = Some xs"
    "component_tasks s1 = (component_tasks s)(nat cid \<mapsto> xs @ [r])"
    by (auto simp: api_compose_def component_ptr_def RES_SUCCESS_def RES_FAULT_def split: if_splits)
  have "r \<notin> set xs" using component_wfD(2) [OF assms(1) xs(1), of r] none by auto
  with s2 xs e assms(2) have "component_tasks s2 = component_tasks s"
    by (auto simp: api_decompose_def remove1_append)
  with s2 decompose_spec [OF c(1) assms(2) s2] show ?thesis by blast
qed

theorem compose_decompose_witness:
  "\<exists>s1. api_compose 3 2 (boot\<lparr>component_tasks := [2 \<mapsto> []]\<rparr>) = Some (RES_SUCCESS, s1) \<and>
     (\<exists>s2. api_decompose 3 s1 = Some (RES_SUCCESS, s2))"
proof -
  let ?s = "boot\<lparr>component_tasks := [2 \<mapsto> []]\<rparr>"
  have wf: "component_wf ?s" by (simp add: component_wf_def boot_defs resch_consts)
  have ptr: "resch_task_ptr 3 = Some 3" by (simp add: resch_task_ptr_def resch_consts)
  have "\<exists>s1. api_compose 3 2 ?s = Some (RES_SUCCESS, s1)"
    by (simp add: api_compose_def ptr component_ptr_def resch_consts boot_defs bm_bit_def)
  with compose_decompose [OF wf ptr] show ?thesis by blast
qed

text \<open>the allocator has 64 bits for 8 components: creating a component when the first
  eight IDs are taken indexes outside the array.\<close>

theorem component_create_overflow:
  assumes "length (cid_map s) = CID_MAP_LONG" "\<forall>c < NR_RT_COMPONENTS. bm_bit (cid_map s) c"
    and "\<exists>c < 64. \<not> bm_bit (cid_map s) c"
  shows "api_component_create s = None"
proof -
  obtain f where f: "resch_ffz (cid_map s) CID_MAP_LONG = Some f"
    "is_first (\<lambda>n. \<not> bm_bit (cid_map s) n) (64 * CID_MAP_LONG) f"
    using resch_ffz_spec [of CID_MAP_LONG "cid_map s"] assms(1) by auto
  then have "int NR_RT_COMPONENTS \<le> f"
    using assms(2,3) by (auto simp: is_first_def resch_consts not_less [symmetric])
  with f(1) show ?thesis
    by (simp add: api_component_create_def component_ptr_def resch_consts)
qed

theorem component_create_overflow_witness:
  "api_component_create (boot\<lparr>cid_map := [mask 8]\<rparr>) = None"
proof (rule component_create_overflow)
  show "\<forall>c < NR_RT_COMPONENTS. bm_bit (cid_map (boot\<lparr>cid_map := [mask 8]\<rparr>)) c"
    by (simp add: bm_bit_def NR_RT_COMPONENTS_def bit_mask_iff)
  show "\<exists>c < 64. \<not> bm_bit (cid_map (boot\<lparr>cid_map := [mask 8]\<rparr>)) c"
    by (rule exI [of _ 8]) (simp add: bm_bit_def bit_mask_iff)
qed (simp add: resch_consts)

end
