(* ===== verification/Device.thy ===== *)
theory Device
  imports Event Component
begin

text \<open>
  The device of the core (\<open>core/main.c\<close>): the dispatch of the API through \<open>write()\<close> and the
  test commands that set the overheads.
\<close>

text \<open>
  \<open>struct api_struct\<close>. The argument is a union of an \<open>int\<close> and a \<open>struct timespec\<close>; the
  integer is the low half of the first word.
\<close>

record api_struct =
  api :: int
  a_rid :: int
  tv_sec :: u64
  tv_nsec :: u64

definition arg_val :: "api_struct \<Rightarrow> int" where
  "arg_val a = sint (ucast (tv_sec a) :: 32 word)"

definition timespec_to_usecs :: "api_struct \<Rightarrow> u64" where
  "timespec_to_usecs a = tv_sec a * 1000000 + tv_nsec a div 1000"

definition EFAULT :: int where "EFAULT = 14"

definition API_INIT :: int where "API_INIT = 0"
definition API_EXIT :: int where "API_EXIT = 1"
definition API_RUN :: int where "API_RUN = 2"
definition API_WAIT_PERIOD :: int where "API_WAIT_PERIOD = 3"
definition API_WAIT_INTERVAL :: int where "API_WAIT_INTERVAL = 4"
definition API_SET_PERIOD :: int where "API_SET_PERIOD = 5"
definition API_SET_DEADLINE :: int where "API_SET_DEADLINE = 6"
definition API_SET_WCET :: int where "API_SET_WCET = 7"
definition API_SET_RUNTIME :: int where "API_SET_RUNTIME = 8"
definition API_SET_PRIORITY :: int where "API_SET_PRIORITY = 9"
definition API_SET_SCHEDULER :: int where "API_SET_SCHEDULER = 10"
definition API_BACKGROUND :: int where "API_BACKGROUND = 11"
definition API_SLEEP :: int where "API_SLEEP = 12"
definition API_SUSPEND :: int where "API_SUSPEND = 13"
definition API_WAKE_UP :: int where "API_WAKE_UP = 14"
definition API_RESERVE_START :: int where "API_RESERVE_START = 15"
definition API_RESERVE_START_XCPU :: int where "API_RESERVE_START_XCPU = 16"
definition API_RESERVE_STOP :: int where "API_RESERVE_STOP = 17"
definition API_RESERVE_EXPIRE :: int where "API_RESERVE_EXPIRE = 18"
definition API_SERVER_RUN :: int where "API_SERVER_RUN = 19"
definition API_COMPONENT_CREATE :: int where "API_COMPONENT_CREATE = 22"
definition API_COMPONENT_DESTROY :: int where "API_COMPONENT_DESTROY = 23"
definition API_COMPOSE :: int where "API_COMPOSE = 26"
definition API_DECOMPOSE :: int where "API_DECOMPOSE = 27"

lemmas api_numbers =
  API_INIT_def API_EXIT_def API_RUN_def API_WAIT_PERIOD_def API_WAIT_INTERVAL_def API_SET_PERIOD_def
  API_SET_DEADLINE_def API_SET_WCET_def API_SET_RUNTIME_def API_SET_PRIORITY_def
  API_SET_SCHEDULER_def API_BACKGROUND_def API_SLEEP_def API_SUSPEND_def API_WAKE_UP_def
  API_RESERVE_START_def API_RESERVE_START_XCPU_def API_RESERVE_STOP_def API_RESERVE_EXPIRE_def
  API_SERVER_RUN_def API_COMPONENT_CREATE_def API_COMPONENT_DESTROY_def API_COMPOSE_def
  API_DECOMPOSE_def

text \<open>A call that works on the core alone.\<close>

definition on_core :: "(int \<times> core) option \<Rightarrow> 'p \<Rightarrow> (int \<times> 'p sys) option" where
  "on_core m w = map_option (\<lambda>(res, s). (res, (s, w))) m"

text \<open>\<open>copied\<close> says whether \<open>copy_from_user\<close> could read the user's structure.\<close>

definition resch_write ::
    "'p plugin_struct \<Rightarrow> kenv \<Rightarrow> bool \<Rightarrow> api_struct \<Rightarrow> 'p sys \<Rightarrow> (int \<times> 'p sys) option" where
  "resch_write pl k copied a = (\<lambda>(s, w).
     let us = timespec_to_usecs a;
         rid = a_rid a;
         val = word_of_int (arg_val a) :: u64
     in
     if \<not> copied then Some (- EFAULT, (s, w))
     else if api a = API_INIT then on_core (api_init k s) w
     else if api a = API_EXIT then api_exit pl k rid (s, w)
     else if api a = API_RUN then api_run pl k rid (usecs_to_jiffies k us) (s, w)
     else if api a = API_WAIT_PERIOD then api_wait_for_period pl k rid (s, w)
     else if api a = API_WAIT_INTERVAL then api_wait_for_interval pl k rid (usecs_to_jiffies k us) (s, w)
     else if api a = API_SET_PERIOD then on_core (api_set_period rid (usecs_to_jiffies k us) s) w
     else if api a = API_SET_DEADLINE then on_core (api_set_deadline rid (usecs_to_jiffies k us) s) w
     else if api a = API_SET_WCET then on_core (api_set_wcet rid us s) w
     else if api a = API_SET_RUNTIME then on_core (api_set_runtime rid us s) w
     else if api a = API_SET_PRIORITY then on_core (api_set_priority k rid val s) w
     else if api a = API_SET_SCHEDULER then on_core (api_set_scheduler k rid val s) w
     else if api a = API_BACKGROUND then on_core (api_background k rid s) w
     else if api a = API_SLEEP then on_core (api_sleep k rid (usecs_to_jiffies k us) s) w
     else if api a = API_SUSPEND then on_core (api_suspend k rid s) w
     else if api a = API_WAKE_UP then on_core (api_wake_up (arg_val a) s) w
     else if api a = API_RESERVE_START then on_core (api_reserve_start k rid (usecs_to_jiffies k us) False s) w
     else if api a = API_RESERVE_START_XCPU then on_core (api_reserve_start k rid (usecs_to_jiffies k us) True s) w
     else if api a = API_RESERVE_STOP then on_core (api_reserve_stop k rid s) w
     else if api a = API_RESERVE_EXPIRE then on_core (api_reserve_expire k rid s) w
     else if api a = API_SERVER_RUN then on_core (api_server_run k rid s) w
     else if api a = API_COMPONENT_CREATE then on_core (api_component_create s) w
     else if api a = API_COMPONENT_DESTROY then on_core (api_component_destroy (arg_val a) s) w
     else if api a = API_COMPOSE then on_core (api_compose rid (arg_val a) s) w
     else if api a = API_DECOMPOSE then on_core (api_decompose rid s) w
     else Some (RES_ILLEGAL, (s, w)))"

text \<open>The test commands of \<open>resch_ioctl\<close> that set the overheads, in microseconds.\<close>

definition TEST_SET_SWITCH_COST :: int where "TEST_SET_SWITCH_COST = 101"
definition TEST_SET_RELEASE_COST :: int where "TEST_SET_RELEASE_COST = 102"
definition TEST_SET_MIGRATION_COST :: int where "TEST_SET_MIGRATION_COST = 103"

definition resch_ioctl_costs :: "bool \<Rightarrow> int \<Rightarrow> u64 \<Rightarrow> core \<Rightarrow> int \<times> core" where
  "resch_ioctl_costs copied cmd val s =
     (if \<not> copied then (- EFAULT, s)
      else if cmd = TEST_SET_SWITCH_COST then (RES_SUCCESS, s\<lparr>switch_cost := val\<rparr>)
      else if cmd = TEST_SET_RELEASE_COST then (RES_SUCCESS, s\<lparr>release_cost := val\<rparr>)
      else if cmd = TEST_SET_MIGRATION_COST then (RES_SUCCESS, s\<lparr>migration_cost := val\<rparr>)
      else (RES_FAULT, s))"

section \<open>Properties\<close>

text \<open>no call through \<open>write()\<close> checks the RESCH ID it is given: every call that works
  on a task is undefined for an ID outside the array of descriptors.\<close>

theorem write_does_not_check_rid:
  assumes "a_rid a < 0 \<or> int NR_RT_TASKS \<le> a_rid a"
    and "api a \<in> {API_EXIT, API_RUN, API_WAIT_PERIOD, API_WAIT_INTERVAL, API_SET_PERIOD,
       API_SET_DEADLINE, API_SET_WCET, API_SET_RUNTIME, API_SET_PRIORITY, API_SET_SCHEDULER,
       API_BACKGROUND, API_SLEEP, API_SUSPEND, API_RESERVE_START, API_RESERVE_START_XCPU,
       API_RESERVE_STOP, API_RESERVE_EXPIRE, API_SERVER_RUN, API_COMPOSE, API_DECOMPOSE}"
  shows "resch_write pl k True a (s, w) = None"
proof -
  have "resch_task_ptr (a_rid a) = None" using assms(1) by (auto simp: resch_task_ptr_def)
  then show ?thesis
    using assms(2)
    by (elim insertE emptyE)
       (simp_all add: resch_write_def api_numbers on_core_def api_exit_def api_run_def
         api_wait_for_period_def api_wait_for_interval_def api_set_period_def api_set_deadline_def
         api_set_wcet_def api_set_runtime_def api_set_priority_def api_set_scheduler_def
         api_background_def api_sleep_def api_suspend_def api_reserve_start_def
         api_reserve_stop_def api_reserve_expire_def api_server_run_def api_compose_def
         api_decompose_def del: bind_Some_iff)
qed

theorem write_does_not_check_rid_witness:
  "resch_write uninstall_scheduler kernel0 True
     \<lparr>api = API_SET_PERIOD, a_rid = 64, tv_sec = 1, tv_nsec = 0\<rparr> (boot, ()) = None"
  by (rule write_does_not_check_rid) (simp_all add: resch_consts)

text \<open>setting a period through \<open>write()\<close> converts the user's \<open>timespec\<close> to microseconds
  and then to ticks, keeps a deadline that was set before and otherwise makes the deadline
  implicit, and never disturbs a well-formed core.\<close>

theorem write_set_period:
  assumes "resch_task_ptr (a_rid a) = Some r" "api a = API_SET_PERIOD"
  shows "\<exists>s'. resch_write pl k True a (s, w) = Some (RES_SUCCESS, (s', w)) \<and>
     period (tcb s' r) = usecs_to_jiffies k (tv_sec a * 1000000 + tv_nsec a div 1000) \<and>
     deadline (tcb s' r) = (if deadline (tcb s r) = 0 then period (tcb s' r) else deadline (tcb s r)) \<and>
     core_wf s' = core_wf s"
proof -
  let ?p = "usecs_to_jiffies k (tv_sec a * 1000000 + tv_nsec a div 1000)"
  let ?s1 = "upd_task r (\<lambda>t. t\<lparr>period := ?p\<rparr>) s"
  have w1: "core_wf ?s1 = core_wf s"
    and w2: "core_wf (upd_task r (\<lambda>t. t\<lparr>deadline := period t\<rparr>) ?s1) = core_wf ?s1"
    by (rule core_wf_upd_task; simp)+
  show ?thesis
    using assms w1 w2
    by (simp add: resch_write_def api_numbers on_core_def api_set_period_def timespec_to_usecs_def Let_def)
qed

theorem write_set_period_witness:
  "\<exists>s'. resch_write uninstall_scheduler kernel0 True
     \<lparr>api = API_SET_PERIOD, a_rid = 3, tv_sec = 1, tv_nsec = 0\<rparr> (boot, ()) = Some (RES_SUCCESS, (s', ())) \<and>
     period (tcb s' 3) = 1000"
  using write_set_period [of "\<lparr>api = API_SET_PERIOD, a_rid = 3, tv_sec = 1, tv_nsec = 0\<rparr>" 3
      uninstall_scheduler kernel0 boot "()"]
  by (auto simp: resch_task_ptr_def NR_RT_TASKS_def kernel0_def)

end
