(* ===== verification/Global_Sched.thy ===== *)
theory Global_Sched
  imports Task_API
begin

text \<open>
  The global scheduler plugins (\<open>plugin/global\<close>): G-EDF, EDF-US, G-FP and FP-US. The four
  files are the same program up to the comparison of two jobs and the priority a job runs
  at; the shared text is defined once, with these two as arguments, and each plugin
  instantiates it.

  \<open>gsched\<close> is the plugin's state: the busy flags of the CPUs, the lists of the jobs that
  run and that wait, whether the plugin's descriptor of a task is set up, and the priority
  saved there by the fixed-priority plugins.
\<close>

record gsched =
  cpu_run :: "cpu \<Rightarrow> bool"
  run_list :: "rid list"
  wait_list :: "rid list"
  gt_ready :: "rid \<Rightarrow> bool"
  gt_prio :: "rid \<Rightarrow> int"

definition gsched_boot :: gsched where
  "gsched_boot = \<lparr>cpu_run = (\<lambda>_. False), run_list = [], wait_list = [],
     gt_ready = (\<lambda>_. False), gt_prio = (\<lambda>_. 0)\<rparr>"

section \<open>The lists\<close>

text \<open>Linking does nothing to an entry that is linked; \<open>list_del_init\<close> nothing to one that is not.\<close>

definition run_list_insert :: "(rid \<Rightarrow> rid \<Rightarrow> bool) \<Rightarrow> rid \<Rightarrow> gsched \<Rightarrow> gsched" where
  "run_list_insert before gt g =
     (if gt \<in> set (run_list g) then g
      else g\<lparr>run_list := (if run_list g = [] then [gt] else insert_before before gt (run_list g))\<rparr>)"

definition run_list_remove :: "rid \<Rightarrow> gsched \<Rightarrow> gsched" where
  "run_list_remove gt g = g\<lparr>run_list := remove1 gt (run_list g)\<rparr>"

definition wait_list_insert :: "(rid \<Rightarrow> rid \<Rightarrow> bool) \<Rightarrow> rid \<Rightarrow> gsched \<Rightarrow> gsched" where
  "wait_list_insert before gt g =
     (if gt \<in> set (wait_list g) then g
      else g\<lparr>wait_list := (if wait_list g = [] then [gt] else insert_before before gt (wait_list g))\<rparr>)"

definition wait_list_remove :: "rid \<Rightarrow> gsched \<Rightarrow> gsched" where
  "wait_list_remove gt g = g\<lparr>wait_list := remove1 gt (wait_list g)\<rparr>"

definition get_lowest_prio_task :: "gsched \<Rightarrow> rid option" where
  "get_lowest_prio_task g = (if run_list g = [] then None else Some (last (run_list g)))"

definition get_next_task :: "gsched \<Rightarrow> rid option" where
  "get_next_task g = (case wait_list g of [] \<Rightarrow> None | x # _ \<Rightarrow> Some x)"

lemmas gsched_list_defs =
  run_list_insert_def run_list_remove_def wait_list_insert_def wait_list_remove_def

section \<open>Jobs\<close>

definition set_high_prio :: "kenv \<Rightarrow> rid \<Rightarrow> core \<Rightarrow> core option" where
  "set_high_prio k gt s = map_option snd (set_scheduler k gt RESCH_SCHED_FP (RESCH_PRIO_KTHREAD - 1) s)"

definition set_edf_prio :: "kenv \<Rightarrow> gsched \<Rightarrow> rid \<Rightarrow> core \<Rightarrow> core option" where
  "set_edf_prio k g gt s =
     (let s1 = (if has_sched_deadline k then upd_linux gt (\<lambda>t. t\<lparr>dl_deadline := 0\<rparr>) s else s)
      in map_option snd (set_scheduler k gt RESCH_SCHED_EDF RESCH_PRIO_EDF s1))"

definition set_fp_prio :: "kenv \<Rightarrow> gsched \<Rightarrow> rid \<Rightarrow> core \<Rightarrow> core option" where
  "set_fp_prio k g gt s = map_option snd (set_scheduler k gt RESCH_SCHED_FP (gt_prio g gt) s)"

text \<open>The part of \<open>__job_start\<close> from the label \<open>run\<close>, and the part that waits.\<close>

definition start_running ::
    "(core \<Rightarrow> rid \<Rightarrow> rid \<Rightarrow> bool) \<Rightarrow> (kenv \<Rightarrow> gsched \<Rightarrow> rid \<Rightarrow> core \<Rightarrow> core option) \<Rightarrow>
     kenv \<Rightarrow> rid \<Rightarrow> cpu \<Rightarrow> gsched sys \<Rightarrow> gsched sys option" where
  "start_running before restore k gt dst = (\<lambda>(s, g). do {
     guard_c (dst < NR_RT_CPUS);
     let g1 = run_list_insert (before s) gt (g\<lparr>cpu_run := (cpu_run g)(dst := True)\<rparr>);
     s1 \<leftarrow> (if cpu_id (tcb s gt) \<noteq> dst then migrate_task k gt dst s else Some s);
     s2 \<leftarrow> restore k g1 gt s1;
     Some (s2, g1)
   })"

definition start_waiting ::
    "(core \<Rightarrow> rid \<Rightarrow> rid \<Rightarrow> bool) \<Rightarrow> (kenv \<Rightarrow> gsched \<Rightarrow> rid \<Rightarrow> core \<Rightarrow> core option) \<Rightarrow>
     kenv \<Rightarrow> rid \<Rightarrow> gsched sys \<Rightarrow> gsched sys option" where
  "start_waiting before restore k gt = (\<lambda>(s, g). do {
     let g1 = wait_list_insert (before s) gt g;
     s1 \<leftarrow> restore k g1 gt s;
     Some (s1, g1)
   })"

text \<open>
  \<open>__job_start\<close>: the job's own CPU if it is idle, else the first idle CPU, else the CPU of
  the last running job if the new one comes before it, else the waiting list.
\<close>

definition start_job ::
    "(core \<Rightarrow> rid \<Rightarrow> rid \<Rightarrow> bool) \<Rightarrow> (kenv \<Rightarrow> gsched \<Rightarrow> rid \<Rightarrow> core \<Rightarrow> core option) \<Rightarrow>
     kenv \<Rightarrow> rid \<Rightarrow> gsched sys \<Rightarrow> gsched sys option" where
  "start_job before restore k gt = (\<lambda>(s, g). do {
     guard_c (gt_ready g gt);
     guard_c (cpu_id (tcb s gt) < NR_RT_CPUS);
     if \<not> cpu_run g (cpu_id (tcb s gt))
     then start_running before restore k gt (cpu_id (tcb s gt)) (s, g)
     else case find (\<lambda>c. \<not> cpu_run g c) [0..<NR_RT_CPUS] of
       Some dst \<Rightarrow> start_running before restore k gt dst (s, g)
     | None \<Rightarrow>
         (case get_lowest_prio_task g of
            Some p \<Rightarrow>
              if before s gt p
              then start_running before restore k gt (cpu_id (tcb s p))
                     (s, wait_list_insert (before s) p (run_list_remove p g))
              else start_waiting before restore k gt (s, g)
          | None \<Rightarrow> start_waiting before restore k gt (s, g))
   })"

text \<open>
  \<open>task_run\<close> initialises the list entries, which corrupts the lists if they are linked,
  and moves the task to the main CPU.
\<close>

definition submit_task :: "(int \<Rightarrow> gsched \<Rightarrow> gsched) \<Rightarrow> kenv \<Rightarrow> rid \<Rightarrow> gsched sys \<Rightarrow> gsched sys option" where
  "submit_task save k rt = (\<lambda>(s, g). do {
     guard_c (rt \<notin> set (run_list g) \<and> rt \<notin> set (wait_list g));
     let g1 = save (prio (tcb s rt)) (g\<lparr>gt_ready := (gt_ready g)(rt := True)\<rparr>);
     s1 \<leftarrow> set_high_prio k rt s;
     s2 \<leftarrow> migrate_task k rt 0 s1;
     Some (s2, g1)
   })"

definition complete_job ::
    "(core \<Rightarrow> rid \<Rightarrow> rid \<Rightarrow> bool) \<Rightarrow> kenv \<Rightarrow> rid \<Rightarrow> gsched sys \<Rightarrow> gsched sys option" where
  "complete_job before k rt = (\<lambda>(s, g). do {
     guard_c (gt_ready g rt);
     s1 \<leftarrow> set_high_prio k rt s;
     let g1 = (if rt \<in> set (wait_list g) then wait_list_remove rt g else run_list_remove rt g);
     case get_next_task g1 of
       Some nx \<Rightarrow> do {
         let g2 = run_list_insert (before s1) nx (wait_list_remove nx g1);
         s2 \<leftarrow> (if cpu_id (tcb s1 nx) \<noteq> cpu_id (tcb s1 rt)
                then migrate_task k nx (cpu_id (tcb s1 rt)) s1 else Some s1);
         Some (s2, g2)
       }
     | None \<Rightarrow> do {
         guard_c (cpu_id (tcb s1 rt) < NR_RT_CPUS);
         Some (s1, g1\<lparr>cpu_run := (cpu_run g1)(cpu_id (tcb s1 rt) := False)\<rparr>)
       }
   })"

section \<open>The plugins\<close>

text \<open>
  The utilisation of a task in percent, an \<open>unsigned long\<close> quotient stored in an \<open>int\<close>; a
  zero period traps.
\<close>

definition us_utilization :: "kenv \<Rightarrow> rid \<Rightarrow> core \<Rightarrow> int option" where
  "us_utilization k rt s =
     (if period (tcb s rt) = 0 then None
      else Some (int_of_ulong (usecs_to_jiffies k (wcet (tcb s rt) * 100) div period (tcb s rt))))"

definition us_submit :: "int \<Rightarrow> (int \<Rightarrow> gsched \<Rightarrow> gsched) \<Rightarrow> rid \<Rightarrow> kenv \<Rightarrow> gsched sys \<Rightarrow> gsched sys option" where
  "us_submit bound save rt k = (\<lambda>(s, g). do {
     u \<leftarrow> us_utilization k rt s;
     s1 \<leftarrow> (if u > bound then set_high_prio k rt s else Some s);
     submit_task save k rt (s1, g)
   })"

text \<open>\<open>g-edf.c\<close>\<close>

definition g_edf_task_run :: "kenv \<Rightarrow> gsched hook" where
  "g_edf_task_run k rt = submit_task (\<lambda>_ g. g) k rt"

definition g_edf_job_start :: "kenv \<Rightarrow> gsched hook" where
  "g_edf_job_start k rt = start_job earlier_deadline set_edf_prio k rt"

definition g_edf_job_complete :: "kenv \<Rightarrow> gsched hook" where
  "g_edf_job_complete k rt = complete_job earlier_deadline k rt"

definition g_edf_plugin :: "kenv \<Rightarrow> gsched plugin_struct" where
  "g_edf_plugin k = install_scheduler (Some (g_edf_task_run k)) None (Some (g_edf_job_start k))
     (Some (g_edf_job_complete k))"

text \<open>\<open>edf-us.c\<close>\<close>

definition edf_us_task_run :: "kenv \<Rightarrow> gsched hook" where
  "edf_us_task_run k rt =
     us_submit (int NR_RT_CPUS * 100 div (2 * int NR_RT_CPUS - 1)) (\<lambda>_ g. g) rt k"

definition edf_us_job_start :: "kenv \<Rightarrow> gsched hook" where
  "edf_us_job_start k rt = start_job earlier_deadline set_edf_prio k rt"

definition edf_us_job_complete :: "kenv \<Rightarrow> gsched hook" where
  "edf_us_job_complete k rt = complete_job earlier_deadline k rt"

definition edf_us_plugin :: "kenv \<Rightarrow> gsched plugin_struct" where
  "edf_us_plugin k = install_scheduler (Some (edf_us_task_run k)) None (Some (edf_us_job_start k))
     (Some (edf_us_job_complete k))"

text \<open>\<open>g-fp.c\<close>: the descriptor saves the task's priority.\<close>

definition save_prio :: "rid \<Rightarrow> int \<Rightarrow> gsched \<Rightarrow> gsched" where
  "save_prio rt p g = g\<lparr>gt_prio := (gt_prio g)(rt := p)\<rparr>"

definition gfp_task_run :: "kenv \<Rightarrow> gsched hook" where
  "gfp_task_run k rt = submit_task (save_prio rt) k rt"

definition gfp_job_start :: "kenv \<Rightarrow> gsched hook" where
  "gfp_job_start k rt = start_job higher_prio set_fp_prio k rt"

definition gfp_job_complete :: "kenv \<Rightarrow> gsched hook" where
  "gfp_job_complete k rt = complete_job higher_prio k rt"

definition gfp_plugin :: "kenv \<Rightarrow> gsched plugin_struct" where
  "gfp_plugin k = install_scheduler (Some (gfp_task_run k)) None (Some (gfp_job_start k))
     (Some (gfp_job_complete k))"

text \<open>\<open>fp-us.c\<close>\<close>

definition fpus_task_run :: "kenv \<Rightarrow> gsched hook" where
  "fpus_task_run k rt =
     us_submit (int NR_RT_CPUS * 100 div (3 * int NR_RT_CPUS - 2)) (save_prio rt) rt k"

definition fpus_job_start :: "kenv \<Rightarrow> gsched hook" where
  "fpus_job_start k rt = start_job higher_prio set_fp_prio k rt"

definition fpus_job_complete :: "kenv \<Rightarrow> gsched hook" where
  "fpus_job_complete k rt = complete_job higher_prio k rt"

definition fpus_plugin :: "kenv \<Rightarrow> gsched plugin_struct" where
  "fpus_plugin k = install_scheduler (Some (fpus_task_run k)) None (Some (fpus_job_start k))
     (Some (fpus_job_complete k))"

section \<open>What the calls into the core change\<close>

text \<open>The part of the core the lists depend on: the CPU and the deadline of every task.\<close>

definition same_keys :: "core \<Rightarrow> core \<Rightarrow> bool" where
  "same_keys s s' \<longleftrightarrow> (\<forall>x. cpu_id (tcb s' x) = cpu_id (tcb s x) \<and>
     deadline_time (tcb s' x) = deadline_time (tcb s x))"

lemma same_keys_refl [simp]: "same_keys s s"
  by (simp add: same_keys_def)

lemma same_keys_trans: "same_keys s s' \<Longrightarrow> same_keys s' s'' \<Longrightarrow> same_keys s s''"
  by (simp add: same_keys_def)

lemma core_wf_set_policy:
  assumes "core_wf s" "pol \<in> {RESCH_SCHED_FP, RESCH_SCHED_EDF}"
  shows "core_wf (set_policy r pol s)"
proof -
  have "core_wf (upd_task r (\<lambda>t. t\<lparr>policy := p, sclass := c\<rparr>) s)" if "c \<noteq> FAIR_CLASS" for p c
  proof -
    have "active_wf (upd_task r (\<lambda>t. t\<lparr>policy := p, sclass := c\<rparr>) s)"
      using core_wfD(1) [OF assms(1)] by (subst same_queues_wf [of s]) (simp_all add: same_queues_upd_task)
    moreover have "glist_wf (upd_task r (\<lambda>t. t\<lparr>policy := p, sclass := c\<rparr>) s)"
      using core_wfD(2) [OF assms(1)] by (subst glist_wf_cong [of _ s]) auto
    ultimately show ?thesis
      using assms(1) that by (auto simp: core_wf_def placed_def task_is_active_def)
  qed
  then show ?thesis using assms by (auto simp: set_policy_def)
qed

lemma do_set_scheduler_other:
  assumes "do_set_scheduler k r p s = Some (ok, s')" "x \<noteq> r"
  shows "tcb s' x = tcb s x"
proof -
  obtain b s1 where s1: "class_set_scheduler k r p s = (b, s1)" by fastforce
  have f1: "tcb s1 x = tcb s x"
    using s1 assms(2)
    by (auto simp: class_set_scheduler_def fair_set_scheduler_def
        fp_set_scheduler_def edf_set_scheduler_def dl_set_scheduler_def kernel_setscheduler_def
        use_fcbs_def use_exhaustive_def Let_def split: sched_class.splits if_splits)
  have f2: "tcb (global_list_reinsert r s1) x = tcb s1 x"
    using assms(2) by (simp add: global_list_reinsert_def locked_global_list_insert_def
        locked_global_list_remove_def)
  show ?thesis
    using assms s1 f1 f2
    by (auto simp: do_set_scheduler_def Let_def queue_frame_tcb(1) dest!: requeue_task_frame
        split: bool.splits if_splits)
qed

text \<open>\<open>set_scheduler\<close> by a caller that may change priorities.\<close>

lemma set_scheduler_total:
  assumes "core_wf s" "cap_sys_nice k" "pol \<in> {RESCH_SCHED_FP, RESCH_SCHED_EDF}" "1 \<le> p" "p \<le> 98"
  shows "\<exists>ok s'. set_scheduler k r pol p s = Some (ok, s') \<and> core_wf s' \<and> same_keys s s' \<and>
     (\<forall>x. task_is_active s' x = task_is_active s x) \<and>
     sclass (tcb s' r) = (if policy (tcb s r) = pol then sclass (tcb s r)
                          else if pol = RESCH_SCHED_FP then FP_CLASS else EDF_CLASS) \<and>
     policy (tcb s' r) = pol \<and>
     prio (tcb s' r) = (if ok then p else prio (tcb s r)) \<and>
     ok = fst (class_set_scheduler k r p (set_policy r pol s)) \<and>
     (\<forall>x. x \<noteq> r \<longrightarrow> tcb s' x = tcb s x)"
proof -
  let ?s1 = "set_policy r pol s"
  have wf: "core_wf ?s1" by (rule core_wf_set_policy [OF assms(1,3)])
  obtain ok s1 where c: "class_set_scheduler k r p ?s1 = (ok, s1)" by fastforce
  have "task_is_active ?s1 r \<Longrightarrow> queue_index p \<noteq> None"
    using assms(4,5) queue_index_valid [of p] by auto
  with do_set_scheduler_spec [OF wf, of r p k ok s1] c obtain s' where
    s': "do_set_scheduler k r p ?s1 = Some (ok, s')" "core_wf s'"
      "prio (tcb s' r) = (if ok then p else prio (tcb ?s1 r))"
      "\<forall>x. task_is_active s' x = task_is_active ?s1 x" by auto
  have pol: "cpu_id (tcb ?s1 x) = cpu_id (tcb s x)" "deadline_time (tcb ?s1 x) = deadline_time (tcb s x)"
    "task_is_active ?s1 x = task_is_active s x" "prio (tcb ?s1 x) = prio (tcb s x)"
    "x \<noteq> r \<Longrightarrow> tcb ?s1 x = tcb s x"
    "sclass (tcb ?s1 r) = (if policy (tcb s r) = pol then sclass (tcb s r)
       else if pol = RESCH_SCHED_FP then FP_CLASS else EDF_CLASS)" "policy (tcb ?s1 r) = pol" for x
    using assms(3) by (auto simp: set_policy_def task_is_active_def)
  have f: "sched_fields (tcb s' x) = sched_fields (tcb ?s1 x)" for x
    by (rule do_set_scheduler_fields(1) [OF s'(1)])
  have k: "same_keys s s'" using f pol by (simp add: same_keys_def sched_fields_def)
  have "set_scheduler k r pol p s = Some (ok, s')"
    using s' assms(2) by (simp add: set_scheduler_def Let_def)
  moreover have "sclass (tcb s' r) = sclass (tcb ?s1 r)" "policy (tcb s' r) = pol"
    using f [of r] pol by (simp_all add: sched_fields_def)
  moreover have "\<forall>x. x \<noteq> r \<longrightarrow> tcb s' x = tcb s x"
    using do_set_scheduler_other [OF s'(1)] pol(5) by auto
  ultimately show ?thesis using s' k pol c by auto
qed

text \<open>\<open>migrate_task\<close> changes the CPU of the task and no key of another one.\<close>

lemma queue_move_keys:
  assumes "queue_frame r s s1" "queue_frame r (upd_task r (\<lambda>t. t\<lparr>cpu_id := dst\<rparr>) s1) s2"
  shows "cpu_id (tcb s2 x) = (if x = r then dst else cpu_id (tcb s x))"
    "deadline_time (tcb s2 x) = deadline_time (tcb s x)"
  using queue_frame_tcb(2,6) [OF assms(1), of x] queue_frame_tcb(2,6) [OF assms(2), of x]
  by auto

lemma state_keys [simp]:
  "cpu_id (tcb (wake_up_process r s) x) = cpu_id (tcb s x)"
  "cpu_id (tcb (set_tstate r p s) x) = cpu_id (tcb s x)"
  "cpu_id (tcb (set_tsk_need_resched r s) x) = cpu_id (tcb s x)"
  "deadline_time (tcb (wake_up_process r s) x) = deadline_time (tcb s x)"
  "deadline_time (tcb (set_tstate r p s) x) = deadline_time (tcb s x)"
  "deadline_time (tcb (set_tsk_need_resched r s) x) = deadline_time (tcb s x)"
  "deadline_time (tcb (kernel_migrate_task r c s) x) = deadline_time (tcb s x)"
  by (simp_all add: wake_up_process_def set_tstate_def set_tsk_need_resched_def kernel_migrate_task_def)

lemma account_keys [simp]:
  "cpu_id (tcb (edf_start_account k r s) x) = cpu_id (tcb s x)"
  "cpu_id (tcb (edf_stop_account r s) x) = cpu_id (tcb s x)"
  "cpu_id (tcb (dl_start_account k r s) x) = cpu_id (tcb s x)"
  "cpu_id (tcb (dl_stop_account r s) x) = cpu_id (tcb s x)"
  "deadline_time (tcb (fp_start_account k r s) x) = deadline_time (tcb s x)"
  "deadline_time (tcb (fp_stop_account r s) x) = deadline_time (tcb s x)"
  "deadline_time (tcb (edf_start_account k r s) x) = deadline_time (tcb s x)"
  "deadline_time (tcb (edf_stop_account r s) x) = deadline_time (tcb s x)"
  "deadline_time (tcb (dl_start_account k r s) x) = deadline_time (tcb s x)"
  "deadline_time (tcb (dl_stop_account r s) x) = deadline_time (tcb s x)"
  by (auto simp: fp_start_account_def fp_stop_account_def edf_start_account_def edf_stop_account_def
      dl_start_account_def dl_stop_account_def use_fcbs_def use_exhaustive_def Let_def)

lemma edf_migrate_total:
  assumes wf: "core_wf s" and e: "active_entry (tcb s r) = Some (src, i)"
    and p: "prio (tcb s r) = RESCH_PRIO_EDF" and dst: "dst \<noteq> src" "dst \<le> NR_RT_CPUS"
  shows "\<exists>s'. edf_migrate_task k r dst s = Some s' \<and> core_wf s' \<and>
     (\<forall>x. cpu_id (tcb s' x) = (if x = r then dst else cpu_id (tcb s x)) \<and>
          deadline_time (tcb s' x) = deadline_time (tcb s x))"
proof -
  have src: "src \<le> NR_RT_CPUS" by (rule active_wfD(4) [OF core_wfD(1) [OF wf] e])
  obtain s1 s2 where m: "edf_dequeue_task r (prio (tcb s r)) src s = Some s1"
    "edf_enqueue_task r (prio (tcb s r)) dst (upd_task r (\<lambda>t. t\<lparr>cpu_id := dst\<rparr>) s1) = Some s2"
    "core_wf s2" "active_entry (tcb s2 r) = Some (dst, i)" "prio (tcb s1 r) = prio (tcb s r)"
    "cpu_id (tcb s r) = src" "queue_frame r s s1"
    "queue_frame r (upd_task r (\<lambda>t. t\<lparr>cpu_id := dst\<rparr>) s1) s2"
    by (rule edf.move_job [OF wf e dst(2)])
  obtain hp where hp: "active_highest_prio_task src s = Some hp"
    using active_highest_spec [OF core_wfD(1) [OF wf] src] by blast
  have "active_next_prio_task r s = Some (next_in r (active_order (act s src)))"
    using active_next_spec [OF core_wfD(1) [OF wf] e core_wfD(3) [OF wf]] p by (simp add: resch_consts)
  then obtain nx where nx: "(if hp = Some r then active_next_prio_task r s else Some None) = Some nx"
    by (cases "hp = Some r") auto
  have "queue_index RESCH_PRIO_EDF_RUN \<noteq> None"
    by (simp add: queue_index_def queue_slot_def prio_index_def resch_consts)
  then obtain curr where curr: "active_prio_task dst RESCH_PRIO_EDF_RUN s1 = Some curr"
    using dst(2) by (auto simp: active_prio_task_def)
  have "\<exists>s'. edf_migrate_task k r dst s = Some s' \<and> core_wf s' \<and>
     (\<forall>x. cpu_id (tcb s' x) = cpu_id (tcb s2 x) \<and> deadline_time (tcb s' x) = deadline_time (tcb s2 x))"
    using m dst src e hp nx curr
    by (simp add: edf_migrate_task_def Let_def task_is_active_def split: option.splits if_splits)
  then show ?thesis using queue_move_keys [OF m(7,8)] by auto
qed

lemma dl_migrate_total:
  assumes wf: "core_wf s" and e: "active_entry (tcb s r) = Some (src, i)"
    and p: "prio (tcb s r) = RESCH_PRIO_EDF" and dst: "dst \<noteq> src" "dst \<le> NR_RT_CPUS"
  shows "\<exists>s'. dl_migrate_task k r dst s = Some s' \<and> core_wf s' \<and>
     (\<forall>x. cpu_id (tcb s' x) = (if x = r then dst else cpu_id (tcb s x)) \<and>
          deadline_time (tcb s' x) = deadline_time (tcb s x))"
proof -
  have src: "src \<le> NR_RT_CPUS" by (rule active_wfD(4) [OF core_wfD(1) [OF wf] e])
  obtain s1 s2 where m: "dl_dequeue_task r (prio (tcb s r)) src s = Some s1"
    "dl_enqueue_task r (prio (tcb s r)) dst (upd_task r (\<lambda>t. t\<lparr>cpu_id := dst\<rparr>) s1) = Some s2"
    "core_wf s2" "cpu_id (tcb s r) = src" "queue_frame r s s1"
    "queue_frame r (upd_task r (\<lambda>t. t\<lparr>cpu_id := dst\<rparr>) s1) s2"
    by (rule dl.move_job [OF wf e dst(2)])
  have "\<exists>s'. dl_migrate_task k r dst s = Some s' \<and> core_wf s' \<and>
     (\<forall>x. cpu_id (tcb s' x) = cpu_id (tcb s2 x) \<and> deadline_time (tcb s' x) = deadline_time (tcb s2 x))"
    using m dst src e p by (simp add: dl_migrate_task_def Let_def task_is_active_def)
  then show ?thesis using queue_move_keys [OF m(5,6)] by auto
qed

lemma fp_migrate_total:
  assumes wf: "core_wf s" and e: "active_entry (tcb s r) = Some (src, i)"
    and dst: "dst \<noteq> src" "dst \<le> NR_RT_CPUS"
  shows "\<exists>s'. fp_migrate_task k r dst s = Some s' \<and> core_wf s' \<and>
     (\<forall>x. cpu_id (tcb s' x) = (if x = r then dst else cpu_id (tcb s x)) \<and>
          deadline_time (tcb s' x) = deadline_time (tcb s x))"
proof -
  have src: "src \<le> NR_RT_CPUS" by (rule active_wfD(4) [OF core_wfD(1) [OF wf] e])
  obtain s1 s2 where m: "fp_dequeue_task r (prio (tcb s r)) src s = Some s1"
    "fp_enqueue_task r (prio (tcb s r)) dst (upd_task r (\<lambda>t. t\<lparr>cpu_id := dst\<rparr>) s1) = Some s2"
    "core_wf s2" "cpu_id (tcb s r) = src" "queue_frame r s s1" "prio (tcb s1 r) = prio (tcb s r)"
    "queue_frame r (upd_task r (\<lambda>t. t\<lparr>cpu_id := dst\<rparr>) s1) s2"
    by (rule fp.move_job [OF wf e dst(2)])
  have "\<exists>s'. fp_migrate_task k r dst s = Some s' \<and> core_wf s' \<and>
     (\<forall>x. cpu_id (tcb s' x) = cpu_id (tcb s2 x) \<and> deadline_time (tcb s' x) = deadline_time (tcb s2 x))"
    using m dst src e by (simp add: fp_migrate_task_def Let_def task_is_active_def)
  then show ?thesis using queue_move_keys [OF m(5,7)] by auto
qed

lemma core_wf_cpu_idle:
  assumes "core_wf s" "active_entry (tcb s r) = None"
  shows "core_wf (upd_task r (\<lambda>t. t\<lparr>cpu_id := c\<rparr>) s)"
proof (rule rest_core_wf [of r])
  show "rest_wf r (upd_task r (\<lambda>t. t\<lparr>cpu_id := c\<rparr>) s)"
    using assms(1) by (intro fp.rest_wf_upd core_rest_wf) simp_all
  show "glist_wf (upd_task r (\<lambda>t. t\<lparr>cpu_id := c\<rparr>) s)"
    using core_wfD(2) [OF assms(1)] by (subst glist_wf_cong [of _ s]) auto
qed (use assms(2) in simp)

lemma migrate_task_total:
  assumes wf: "core_wf s" and c: "cpu_id (tcb s r) \<le> NR_RT_CPUS" "dst \<le> NR_RT_CPUS"
    and ok: "edf_prio_ok s r" and cls: "sclass (tcb s r) \<noteq> FAIR_CLASS"
  shows "\<exists>s'. migrate_task k r dst s = Some s' \<and> core_wf s' \<and>
     (\<forall>x. cpu_id (tcb s' x) = (if x = r then dst else cpu_id (tcb s x)) \<and>
          deadline_time (tcb s' x) = deadline_time (tcb s x))"
proof (cases "active_entry (tcb s r)")
  case None
  then show ?thesis
    using wf c cls core_wf_cpu_idle [OF wf None] by (cases "sclass (tcb s r)")
      (simp_all add: migrate_task_def fp_migrate_task_def dl_migrate_task_def edf_migrate_task_def
        task_is_active_def Let_def)
next
  case (Some e)
  obtain src i where e: "active_entry (tcb s r) = Some (src, i)" using Some by (cases e) auto
  have src: "cpu_id (tcb s r) = src" using core_wfD(3) [OF wf, of r] e by (simp add: placed_def)
  show ?thesis
  proof (cases "dst = src")
    case True
    then show ?thesis
      using wf cls src by (cases "sclass (tcb s r)")
        (simp_all add: migrate_task_def fp_migrate_task_def dl_migrate_task_def edf_migrate_task_def
          Let_def)
  next
    case False
    then show ?thesis
      using cls ok fp_migrate_total [OF wf e False c(2)] edf_migrate_total [OF wf e _ False c(2)]
        dl_migrate_total [OF wf e _ False c(2)]
      by (cases "sclass (tcb s r)") (simp_all add: migrate_task_def edf_prio_ok_def)
  qed
qed

section \<open>The invariant of the global EDF plugins\<close>

text \<open>
  The running jobs are on distinct CPUs and these are exactly the busy ones; no job waits
  while a CPU is idle; the running jobs followed by the waiting ones are in the order of
  their deadlines.
\<close>

definition gedf_wf :: "gsched sys \<Rightarrow> bool" where
  "gedf_wf = (\<lambda>(s, g).
     distinct (run_list g @ wait_list g) \<and>
     sorted_wrt (\<lambda>x y. \<not> earlier_deadline s y x) (run_list g @ wait_list g) \<and>
     inj_on (\<lambda>x. cpu_id (tcb s x)) (set (run_list g)) \<and>
     {c. c < NR_RT_CPUS \<and> cpu_run g c} = (\<lambda>x. cpu_id (tcb s x)) ` set (run_list g) \<and>
     (wait_list g \<noteq> [] \<longrightarrow> (\<forall>c < NR_RT_CPUS. cpu_run g c)) \<and>
     (\<forall>x \<in> set (wait_list g). cpu_id (tcb s x) < NR_RT_CPUS) \<and>
     (\<forall>x \<in> set (run_list g @ wait_list g). gt_ready g x))"

lemma gedf_wfD:
  assumes "gedf_wf (s, g)"
  shows "distinct (run_list g)" "distinct (wait_list g)" "set (run_list g) \<inter> set (wait_list g) = {}"
    and "sorted_wrt (\<lambda>x y. \<not> earlier_deadline s y x) (run_list g @ wait_list g)"
    and "inj_on (\<lambda>x. cpu_id (tcb s x)) (set (run_list g))"
    and "{c. c < NR_RT_CPUS \<and> cpu_run g c} = (\<lambda>x. cpu_id (tcb s x)) ` set (run_list g)"
    and "wait_list g \<noteq> [] \<Longrightarrow> c < NR_RT_CPUS \<Longrightarrow> cpu_run g c"
    and "x \<in> set (wait_list g) \<Longrightarrow> cpu_id (tcb s x) < NR_RT_CPUS"
    and "x \<in> set (run_list g) \<Longrightarrow> gt_ready g x" "x \<in> set (wait_list g) \<Longrightarrow> gt_ready g x"
  using assms by (auto simp: gedf_wf_def)

lemma gedf_run_cpu:
  assumes "gedf_wf (s, g)" "x \<in> set (run_list g)"
  shows "cpu_id (tcb s x) < NR_RT_CPUS" "cpu_run g (cpu_id (tcb s x))"
  using gedf_wfD(6) [OF assms(1)] assms(2) by auto

text \<open>The order depends on the deadlines only.\<close>

lemma earlier_cong:
  "\<forall>x. deadline_time (tcb s' x) = deadline_time (tcb s x) \<Longrightarrow> earlier_deadline s' = earlier_deadline s"
  by (simp add: fun_eq_iff)

lemma gedf_wf_keys: "same_keys s s' \<Longrightarrow> gedf_wf (s', g) = gedf_wf (s, g)"
  using earlier_cong [of s' s] by (simp add: gedf_wf_def same_keys_def)

lemma init_gedf_wf: "gedf_wf (s, gsched_boot)"
  by (simp add: gedf_wf_def gsched_boot_def)

text \<open>As many jobs run as there are CPUs, or all of them.\<close>

lemma gedf_work_conserving:
  assumes "gedf_wf (s, g)"
  shows "length (run_list g) = min NR_RT_CPUS (length (run_list g @ wait_list g))"
proof -
  note d = gedf_wfD [OF assms]
  have n: "length (run_list g) = card {c. c < NR_RT_CPUS \<and> cpu_run g c}"
    unfolding d(6) by (simp add: card_image d(1,5) distinct_card)
  also have "\<dots> \<le> card {..<NR_RT_CPUS}" by (rule card_mono) auto
  finally have le: "length (run_list g) \<le> NR_RT_CPUS" by simp
  show ?thesis
  proof (cases "wait_list g = []")
    case False
    then have "{c. c < NR_RT_CPUS \<and> cpu_run g c} = {..<NR_RT_CPUS}" using d(7) by auto
    with n show ?thesis by simp
  qed (use le in simp)
qed

text \<open>A job on an idle CPU: nothing waits, and it joins the running ones.\<close>

lemma gedf_run_idle:
  assumes wf: "gedf_wf (s, g)" and r: "r \<notin> set (run_list g)" "r \<notin> set (wait_list g)" "gt_ready g r"
    and dst: "dst < NR_RT_CPUS" "\<not> cpu_run g dst" and c: "cpu_id (tcb s' r) = dst"
    and other: "\<forall>x. x \<noteq> r \<longrightarrow> cpu_id (tcb s' x) = cpu_id (tcb s x)"
    and dl: "\<forall>x. deadline_time (tcb s' x) = deadline_time (tcb s x)"
  shows "gedf_wf (s', run_list_insert (earlier_deadline s) r (g\<lparr>cpu_run := (cpu_run g)(dst := True)\<rparr>))"
proof -
  note d = gedf_wfD [OF wf]
  let ?b = "earlier_deadline s" and ?cpu = "\<lambda>x. cpu_id (tcb s' x)"
  have w: "wait_list g = []" using d(7) dst by auto
  have same: "?cpu ` set (run_list g) = (\<lambda>x. cpu_id (tcb s x)) ` set (run_list g)"
    using other r(1) by (intro image_cong) auto
  have inj: "inj_on ?cpu (set (run_list g))"
    using d(5) other r(1) by (subst inj_on_cong [of _ _ "\<lambda>x. cpu_id (tcb s x)"]) auto
  have new: "dst \<notin> ?cpu ` set (run_list g)"
    unfolding same d(6) [symmetric] using dst by simp
  have g': "run_list_insert ?b r (g\<lparr>cpu_run := (cpu_run g)(dst := True)\<rparr>) =
      g\<lparr>cpu_run := (cpu_run g)(dst := True), run_list := insert_before ?b r (run_list g)\<rparr>"
    using r(1) by (simp add: run_list_insert_def)
  have busy: "{c. c < NR_RT_CPUS \<and> ((cpu_run g)(dst := True)) c} = insert dst (?cpu ` set (run_list g))"
    unfolding same d(6) [symmetric] using dst by auto
  have "sorted_wrt (\<lambda>x y. \<not> ?b y x) (insert_before ?b r (run_list g))"
    using d(4) w edf_order.insert_ordered [of s "run_list g" r] by simp
  then show ?thesis
    unfolding g' using d r w c inj new busy earlier_cong [OF dl]
    by (simp add: gedf_wf_def distinct_insert_before del: earlier_upd)
qed

text \<open>A job that takes the CPU of the last running one.\<close>

lemma remove1_last: "distinct xs \<Longrightarrow> xs \<noteq> [] \<Longrightarrow> remove1 (last xs) xs = butlast xs"
  by (metis append_butlast_last_id distinct_append distinct_remove1_removeAll not_distinct_conv_prefix
      remove1_append remove1.simps(2) self_append_conv)

lemma gedf_run_preempt:
  assumes wf: "gedf_wf (s, g)" and r: "r \<notin> set (run_list g)" "r \<notin> set (wait_list g)" "gt_ready g r"
    and busy: "\<forall>c < NR_RT_CPUS. cpu_run g c" and ne: "run_list g \<noteq> []" and p: "p = last (run_list g)"
    and before: "earlier_deadline s r p" and c: "cpu_id (tcb s' r) = cpu_id (tcb s p)"
    and other: "\<forall>x. x \<noteq> r \<longrightarrow> cpu_id (tcb s' x) = cpu_id (tcb s x)"
    and dl: "\<forall>x. deadline_time (tcb s' x) = deadline_time (tcb s x)"
    and g1: "g1 = wait_list_insert (earlier_deadline s) p (run_list_remove p g)"
  shows "gedf_wf (s', run_list_insert (earlier_deadline s) r
     (g1\<lparr>cpu_run := (cpu_run g1)(cpu_id (tcb s p) := True)\<rparr>))"
proof -
  note d = gedf_wfD [OF wf]
  let ?b = "earlier_deadline s" and ?cpu = "\<lambda>x. cpu_id (tcb s' x)"
  let ?xs = "butlast (run_list g)"
  let ?ys = "insert_before ?b p (wait_list g)"
  have run: "run_list g = ?xs @ [p]" using ne p by simp
  have px: "p \<notin> set ?xs" "p \<notin> set (wait_list g)" "p \<in> set (run_list g)" "r \<noteq> p"
    using d(1,3) run r(1) by (metis disjoint_iff distinct_append not_distinct_conv_prefix
        in_set_conv_decomp)+
  have rx: "r \<notin> set ?xs" using r(1) by (meson in_set_butlastD)
  have pc: "cpu_id (tcb s p) < NR_RT_CPUS" by (rule gedf_run_cpu(1) [OF wf px(3)])
  have g': "run_list_insert ?b r (g1\<lparr>cpu_run := (cpu_run g1)(cpu_id (tcb s p) := True)\<rparr>) =
      g\<lparr>cpu_run := (cpu_run g)(cpu_id (tcb s p) := True), run_list := insert_before ?b r ?xs,
        wait_list := ?ys\<rparr>"
    using rx px(2) remove1_last [OF d(1) ne] p
    by (simp add: g1 run_list_insert_def wait_list_insert_def run_list_remove_def)
  have "sorted_wrt (\<lambda>x y. \<not> ?b y x) (?xs @ ?ys)"
  proof (rule edf_order.insert_back)
    show "sorted_wrt (\<lambda>x y. \<not> ?b y x) (?xs @ wait_list g)"
      using d(4) by (subst (asm) run) (simp add: sorted_wrt_append)
    show "\<forall>y \<in> set ?xs. \<not> ?b p y"
      using d(4) by (subst (asm) run) (simp add: sorted_wrt_append)
  qed
  moreover have "\<forall>y \<in> set ?ys. \<not> ?b y r"
  proof
    fix y assume "y \<in> set ?ys"
    then have "\<not> ?b y p" using d(4) px(3) by (auto simp: sorted_wrt_append)
    then show "\<not> ?b y r" using before edf_order.trans by blast
  qed
  ultimately have sorted: "sorted_wrt (\<lambda>x y. \<not> ?b y x) (insert_before ?b r ?xs @ ?ys)"
    by (rule edf_order.insert_front)
  have img: "(\<lambda>x. cpu_id (tcb s x)) ` set (run_list g) =
      insert (cpu_id (tcb s p)) ((\<lambda>x. cpu_id (tcb s x)) ` set ?xs)"
    by (subst run) simp
  have inj0: "inj_on (\<lambda>x. cpu_id (tcb s x)) (insert p (set ?xs))"
    using d(5) by (subst (asm) run) simp
  have same: "?cpu ` set ?xs = (\<lambda>x. cpu_id (tcb s x)) ` set ?xs"
    using other rx by (intro image_cong) auto
  have inj: "inj_on ?cpu (insert r (set ?xs))"
    using inj0 other rx px c by (auto simp: inj_on_def) metis+
  have all: "{c. c < NR_RT_CPUS \<and> ((cpu_run g)(cpu_id (tcb s p) := True)) c} =
      insert (cpu_id (tcb s p)) (?cpu ` set ?xs)"
    using d(6) img same busy pc by auto
  have dis: "set ?xs \<inter> set (wait_list g) = {}" using d(3) in_set_butlastD [of _ "run_list g"] by auto
  have ready: "\<forall>x \<in> set (insert_before ?b r ?xs @ ?ys). gt_ready g x"
    using d(9,10) px(3) r(3) in_set_butlastD [of _ "run_list g"] by auto
  have wc: "\<forall>x \<in> set ?ys. cpu_id (tcb s' x) < NR_RT_CPUS"
    using d(8) pc other px(4) r(2) by auto metis
  show ?thesis
    unfolding g' using d(2) dis ready r px rx c inj all busy sorted wc earlier_cong [OF dl]
      distinct_butlast [OF d(1)]
    by (simp add: gedf_wf_def distinct_insert_before del: earlier_upd)
qed

lemma gedf_wait:
  assumes wf: "gedf_wf (s, g)" and r: "r \<notin> set (run_list g)" "r \<notin> set (wait_list g)" "gt_ready g r"
    and c: "cpu_id (tcb s r) < NR_RT_CPUS"
    and busy: "\<forall>c < NR_RT_CPUS. cpu_run g c" and late: "\<forall>y \<in> set (run_list g). \<not> earlier_deadline s r y"
  shows "gedf_wf (s, wait_list_insert (earlier_deadline s) r g)"
proof -
  note d = gedf_wfD [OF wf]
  have g': "wait_list_insert (earlier_deadline s) r g =
      g\<lparr>wait_list := insert_before (earlier_deadline s) r (wait_list g)\<rparr>"
    using r(2) by (simp add: wait_list_insert_def)
  show ?thesis
    unfolding g' using d r c busy edf_order.insert_back [OF d(4) late]
    by (auto simp: gedf_wf_def distinct_insert_before)
qed

section \<open>Jobs of the global EDF plugins\<close>

lemma high_prio_range: "1 \<le> RESCH_PRIO_KTHREAD - 1 \<and> RESCH_PRIO_KTHREAD - 1 \<le> 98"
  "1 \<le> RESCH_PRIO_EDF \<and> RESCH_PRIO_EDF \<le> 98"
  by (simp_all add: resch_consts)

lemma set_edf_prio_total:
  assumes "core_wf s" "cap_sys_nice k"
  shows "\<exists>s'. set_edf_prio k g r s = Some s' \<and> core_wf s' \<and> same_keys s s' \<and>
     policy (tcb s' r) = RESCH_SCHED_EDF"
proof -
  let ?s = "if has_sched_deadline k then upd_linux r (\<lambda>t. t\<lparr>dl_deadline := 0\<rparr>) s else s"
  have "core_wf ?s" "same_keys s ?s" using assms(1) by (simp_all add: same_keys_def)
  then show ?thesis
    using set_scheduler_total [of ?s k RESCH_SCHED_EDF RESCH_PRIO_EDF r] assms(2) high_prio_range(2)
    by (auto simp: set_edf_prio_def Let_def intro: same_keys_trans)
qed

text \<open>The core after a job was put on its CPU.\<close>

lemma start_running_total:
  assumes wf: "core_wf s" and k: "cap_sys_nice k" and dst: "dst < NR_RT_CPUS"
    and c: "cpu_id (tcb s r) < NR_RT_CPUS" and ok: "edf_prio_ok s r" "sclass (tcb s r) \<noteq> FAIR_CLASS"
  shows "\<exists>s'. start_running before set_edf_prio k r dst (s, g) =
       Some (s', run_list_insert (before s) r (g\<lparr>cpu_run := (cpu_run g)(dst := True)\<rparr>)) \<and>
     core_wf s' \<and> policy (tcb s' r) = RESCH_SCHED_EDF \<and>
     (\<forall>x. cpu_id (tcb s' x) = (if x = r then dst else cpu_id (tcb s x)) \<and>
          deadline_time (tcb s' x) = deadline_time (tcb s x))"
proof -
  obtain s1 where s1: "(if cpu_id (tcb s r) \<noteq> dst then migrate_task k r dst s else Some s) = Some s1"
    "core_wf s1" "\<forall>x. cpu_id (tcb s1 x) = (if x = r then dst else cpu_id (tcb s x)) \<and>
          deadline_time (tcb s1 x) = deadline_time (tcb s x)"
    using migrate_task_total [OF wf _ _ ok, of dst k] c dst wf by (cases "cpu_id (tcb s r) = dst") auto
  let ?g = "run_list_insert (before s) r (g\<lparr>cpu_run := (cpu_run g)(dst := True)\<rparr>)"
  obtain s2 where "set_edf_prio k ?g r s1 = Some s2" "core_wf s2" "same_keys s1 s2"
    "policy (tcb s2 r) = RESCH_SCHED_EDF"
    using set_edf_prio_total [OF s1(2) k] by blast
  with s1 dst show ?thesis by (simp add: start_running_def same_keys_def)
qed

lemma find_idle_none: "find (\<lambda>c. \<not> cpu_run g c) [0..<n] = None \<longleftrightarrow> (\<forall>c<n. cpu_run g c)"
  by (auto simp: find_None_iff)

lemma all_busy_run_nonempty:
  assumes "gedf_wf (s, g)" "\<forall>c < NR_RT_CPUS. cpu_run g c"
  shows "run_list g \<noteq> []"
proof
  assume "run_list g = []"
  with gedf_wfD(6) [OF assms(1)] have "{c. c < NR_RT_CPUS \<and> cpu_run g c} = {}" by simp
  moreover have "0 \<in> {c. c < NR_RT_CPUS \<and> cpu_run g c}" using assms(2) by (simp add: NR_RT_CPUS_def)
  ultimately show False by blast
qed

lemma gedf_start_spec:
  assumes gwf: "gedf_wf (s, g)" and wf: "core_wf s" and k: "cap_sys_nice k"
    and r: "r \<notin> set (run_list g)" "r \<notin> set (wait_list g)" "gt_ready g r"
    and c: "cpu_id (tcb s r) < NR_RT_CPUS" and ok: "edf_prio_ok s r" "sclass (tcb s r) \<noteq> FAIR_CLASS"
  shows "\<exists>s' g'. start_job earlier_deadline set_edf_prio k r (s, g) = Some (s', g') \<and> core_wf s' \<and>
     gedf_wf (s', g') \<and> set (run_list g' @ wait_list g') = insert r (set (run_list g @ wait_list g)) \<and>
     policy (tcb s' r) = RESCH_SCHED_EDF"
proof -
  have idle: ?thesis
    if dst: "dst < NR_RT_CPUS" "\<not> cpu_run g dst"
      and job: "start_job earlier_deadline set_edf_prio k r (s, g) =
        start_running earlier_deadline set_edf_prio k r dst (s, g)" for dst
  proof -
    obtain s' where s': "start_running earlier_deadline set_edf_prio k r dst (s, g) =
        Some (s', run_list_insert (earlier_deadline s) r (g\<lparr>cpu_run := (cpu_run g)(dst := True)\<rparr>))"
      "core_wf s'" "policy (tcb s' r) = RESCH_SCHED_EDF"
      "\<forall>x. cpu_id (tcb s' x) = (if x = r then dst else cpu_id (tcb s x)) \<and>
           deadline_time (tcb s' x) = deadline_time (tcb s x)"
      using start_running_total [OF wf k dst(1) c ok] by blast
    with job gedf_run_idle [OF gwf r dst, of s'] r(1) show ?thesis
      by (auto simp: run_list_insert_def)
  qed
  have preempt: ?thesis
    if busy: "\<forall>c < NR_RT_CPUS. cpu_run g c" and before: "earlier_deadline s r (last (run_list g))"
      and job: "start_job earlier_deadline set_edf_prio k r (s, g) =
        start_running earlier_deadline set_edf_prio k r (cpu_id (tcb s (last (run_list g))))
          (s, wait_list_insert (earlier_deadline s) (last (run_list g))
                (run_list_remove (last (run_list g)) g))"
  proof -
    let ?p = "last (run_list g)"
    let ?g1 = "wait_list_insert (earlier_deadline s) ?p (run_list_remove ?p g)"
    have ne: "run_list g \<noteq> []" by (rule all_busy_run_nonempty [OF gwf busy])
    then have p: "?p \<in> set (run_list g)" by simp
    then have pc: "cpu_id (tcb s ?p) < NR_RT_CPUS" by (rule gedf_run_cpu(1) [OF gwf])
    have set1: "set (run_list ?g1) \<union> set (wait_list ?g1) = set (run_list g) \<union> set (wait_list g)"
      using p gedf_wfD(1) [OF gwf] by (auto simp: wait_list_insert_def run_list_remove_def)
    obtain s' where s': "start_running earlier_deadline set_edf_prio k r (cpu_id (tcb s ?p)) (s, ?g1) =
        Some (s', run_list_insert (earlier_deadline s) r
          (?g1\<lparr>cpu_run := (cpu_run ?g1)(cpu_id (tcb s ?p) := True)\<rparr>))"
      "core_wf s'" "policy (tcb s' r) = RESCH_SCHED_EDF"
      "\<forall>x. cpu_id (tcb s' x) = (if x = r then cpu_id (tcb s ?p) else cpu_id (tcb s x)) \<and>
           deadline_time (tcb s' x) = deadline_time (tcb s x)"
      using start_running_total [OF wf k pc c ok] by blast
    let ?h = "run_list_insert (earlier_deadline s) r
          (?g1\<lparr>cpu_run := (cpu_run ?g1)(cpu_id (tcb s ?p) := True)\<rparr>)"
    have "gedf_wf (s', ?h)"
      by (rule gedf_run_preempt [OF gwf r busy ne refl before]) (use s'(4) in simp_all)
    moreover have "set (run_list ?h @ wait_list ?h) = insert r (set (run_list g @ wait_list g))"
      using set1 by (auto simp: run_list_insert_def)
    ultimately show ?thesis using job s' by auto
  qed
  have wait: ?thesis
    if busy: "\<forall>c < NR_RT_CPUS. cpu_run g c" and late: "\<not> earlier_deadline s r (last (run_list g))"
      and job: "start_job earlier_deadline set_edf_prio k r (s, g) =
        start_waiting earlier_deadline set_edf_prio k r (s, g)"
  proof -
    have "\<forall>y \<in> set (run_list g). \<not> earlier_deadline s r y"
    proof
      fix y assume "y \<in> set (run_list g)"
      moreover have "sorted_wrt (\<lambda>x y. \<not> earlier_deadline s y x) (run_list g)"
        using gedf_wfD(4) [OF gwf] by (simp add: sorted_wrt_append)
      ultimately have "\<not> earlier_deadline s (last (run_list g)) y"
        using edf_order.last_last by blast
      with late show "\<not> earlier_deadline s r y" by (rule edf_order.neg_trans)
    qed
    from gedf_wait [OF gwf r c busy this]
    have "gedf_wf (s, wait_list_insert (earlier_deadline s) r g)" .
    moreover obtain s' where "set_edf_prio k (wait_list_insert (earlier_deadline s) r g) r s = Some s'"
      "core_wf s'" "same_keys s s'" "policy (tcb s' r) = RESCH_SCHED_EDF"
      using set_edf_prio_total [OF wf k] by blast
    ultimately show ?thesis
      using job gedf_wf_keys [of s s'] by (auto simp: start_waiting_def wait_list_insert_def)
  qed
  show ?thesis
  proof (cases "cpu_run g (cpu_id (tcb s r))")
    case False
    then show ?thesis using r(3) c by (intro idle [OF c]) (simp_all add: start_job_def)
  next
    case True
    show ?thesis
    proof (cases "find (\<lambda>c. \<not> cpu_run g c) [0..<NR_RT_CPUS]")
      case (Some dst)
      then have "dst < NR_RT_CPUS" "\<not> cpu_run g dst" by (auto simp: find_Some_upt_iff)
      then show ?thesis using True Some r(3) c by (intro idle) (simp_all add: start_job_def)
    next
      case None
      then have busy: "\<forall>c < NR_RT_CPUS. cpu_run g c" by (simp add: find_idle_none)
      have "start_job earlier_deadline set_edf_prio k r (s, g) =
          (if earlier_deadline s r (last (run_list g))
           then start_running earlier_deadline set_edf_prio k r (cpu_id (tcb s (last (run_list g))))
             (s, wait_list_insert (earlier_deadline s) (last (run_list g))
                (run_list_remove (last (run_list g)) g))
           else start_waiting earlier_deadline set_edf_prio k r (s, g))"
        using True None r(3) c all_busy_run_nonempty [OF gwf busy]
        by (simp add: start_job_def get_lowest_prio_task_def del: earlier_upd)
      then show ?thesis using preempt [OF busy] wait [OF busy] by (simp split: if_splits del: earlier_upd)
    qed
  qed
qed


text \<open>Completing a running job hands its CPU to the first waiting one, or makes it idle.\<close>

lemma gedf_complete_spec:
  assumes gwf: "gedf_wf (s, g)" and wf: "core_wf s" and k: "cap_sys_nice k"
    and r: "r \<in> set (run_list g)"
    and ok: "\<forall>x \<in> set (wait_list g). edf_prio_ok s x \<and> sclass (tcb s x) \<noteq> FAIR_CLASS"
  shows "\<exists>s' g'. complete_job earlier_deadline k r (s, g) = Some (s', g') \<and> core_wf s' \<and>
     gedf_wf (s', g') \<and> set (run_list g' @ wait_list g') = set (run_list g @ wait_list g) - {r} \<and>
     (wait_list g \<noteq> [] \<longrightarrow> hd (wait_list g) \<in> set (run_list g') \<and>
        cpu_id (tcb s' (hd (wait_list g))) = cpu_id (tcb s r))"
proof -
  note d = gedf_wfD [OF gwf]
  let ?xs = "remove1 r (run_list g)" and ?c = "cpu_id (tcb s r)"
  have rw: "r \<notin> set (wait_list g)" using d(3) r by blast
  have c: "?c < NR_RT_CPUS" "cpu_run g ?c" by (rule gedf_run_cpu [OF gwf r])+
  obtain b s1 where s1: "set_scheduler k r RESCH_SCHED_FP (RESCH_PRIO_KTHREAD - 1) s = Some (b, s1)"
    "core_wf s1" "same_keys s s1" "\<forall>x. x \<noteq> r \<longrightarrow> tcb s1 x = tcb s x"
    using set_scheduler_total [OF wf k, of RESCH_SCHED_FP "RESCH_PRIO_KTHREAD - 1" r] high_prio_range(1)
    by auto
  have high: "set_high_prio k r s = Some s1" using s1(1) by (simp add: set_high_prio_def)
  have keys: "cpu_id (tcb s1 x) = cpu_id (tcb s x)" "deadline_time (tcb s1 x) = deadline_time (tcb s x)" for x
    using s1(3) by (simp_all add: same_keys_def)
  have earlier: "earlier_deadline s1 = earlier_deadline s" using keys by (intro earlier_cong) simp
  have sorted: "sorted_wrt (\<lambda>x y. \<not> earlier_deadline s y x) (?xs @ wait_list g)"
    using d(4) edf_order.remove1_ordered [of s "run_list g" r]
    by (auto simp: sorted_wrt_append dest: set_remove1_subset [THEN subsetD])
  have xs: "set ?xs = set (run_list g) - {r}" "distinct ?xs" using d(1) by (simp_all)
  have inj: "inj_on (\<lambda>x. cpu_id (tcb s x)) (set ?xs)" using d(5) xs(1) by (auto intro: inj_on_subset)
  have img: "(\<lambda>x. cpu_id (tcb s x)) ` set ?xs = {c. c < NR_RT_CPUS \<and> cpu_run g c} - {?c}"
    unfolding d(6) xs(1) using d(5) r by (auto dest: inj_onD)
  show ?thesis
  proof (cases "wait_list g")
    case Nil
    let ?g = "g\<lparr>run_list := ?xs, cpu_run := (cpu_run g)(?c := False)\<rparr>"
    have "complete_job earlier_deadline k r (s, g) = Some (s1, ?g)"
      using high Nil rw r d(9) keys c
      by (simp add: complete_job_def run_list_remove_def get_next_task_def)
    moreover have "{c. c < NR_RT_CPUS \<and> cpu_run ?g c} = (\<lambda>x. cpu_id (tcb s x)) ` set (run_list ?g)"
      using img by auto
    then have "gedf_wf (s, ?g)"
      using d xs inj sorted Nil by (simp add: gedf_wf_def del: earlier_upd)
    then have "gedf_wf (s1, ?g)" using gedf_wf_keys [OF s1(3)] by simp
    ultimately show ?thesis using s1(2) Nil xs by auto
  next
    case (Cons x ys)
    let ?g = "g\<lparr>run_list := insert_before (earlier_deadline s) x ?xs, wait_list := ys\<rparr>"
    have xr: "x \<noteq> r" "x \<notin> set (run_list g)" "x \<notin> set ys" using rw d(2,3) Cons by auto
    have x: "edf_prio_ok s1 x" "sclass (tcb s1 x) \<noteq> FAIR_CLASS" "cpu_id (tcb s1 x) < NR_RT_CPUS"
      using ok d(8) Cons s1(4) xr by (auto simp: edf_prio_ok_def)
    obtain s2 where s2: "(if cpu_id (tcb s1 x) \<noteq> ?c then migrate_task k x ?c s1 else Some s1) = Some s2"
      "core_wf s2" "\<forall>y. cpu_id (tcb s2 y) = (if y = x then ?c else cpu_id (tcb s y)) \<and>
          deadline_time (tcb s2 y) = deadline_time (tcb s y)"
      using migrate_task_total [OF s1(2) _ _ x(1,2), of ?c k] x(3) c(1) keys s1(2)
      by (cases "cpu_id (tcb s1 x) = ?c") auto
    have job: "complete_job earlier_deadline k r (s, g) = Some (s2, ?g)"
      using high Cons rw r d(9) keys s2(1) xr xs earlier
      by (auto simp: complete_job_def run_list_remove_def get_next_task_def wait_list_remove_def
          run_list_insert_def simp del: earlier_upd split: if_splits)
    let ?cpu = "\<lambda>y. cpu_id (tcb s2 y)"
    have same: "?cpu ` set ?xs = (\<lambda>y. cpu_id (tcb s y)) ` set ?xs"
      using s2(3) xr xs by (intro image_cong) auto
    have "inj_on ?cpu (set ?xs)"
      using inj s2(3) xr xs by (subst inj_on_cong [of _ _ "\<lambda>x. cpu_id (tcb s x)"]) auto
    moreover have "?c \<notin> ?cpu ` set ?xs" using img same by simp
    ultimately have inj2: "inj_on ?cpu (insert x (set ?xs))" using s2(3) xr xs by simp
    have busy: "{c. c < NR_RT_CPUS \<and> cpu_run g c} = insert ?c (?cpu ` set ?xs)"
      unfolding same img using c by auto
    have e2: "earlier_deadline s2 = earlier_deadline s" using s2(3) by (intro earlier_cong) simp
    have "sorted_wrt (\<lambda>x y. \<not> earlier_deadline s y x) (insert_before (earlier_deadline s) x ?xs @ ys)"
      using sorted Cons by (intro edf_order.insert_front) (auto simp: sorted_wrt_append)
    then have "gedf_wf (s2, ?g)"
      using d(2,3,7-10) Cons xr xs inj2 busy s2(3) e2
      by (simp add: gedf_wf_def distinct_insert_before del: earlier_upd) auto
    then show ?thesis using job s2 Cons xr xs rw by auto
  qed
qed

section \<open>Raising a priority twice\<close>

lemma reinsert_task: "task (tcb (global_list_reinsert r s) x) = task (tcb s x)"
  by (simp add: global_list_reinsert_def locked_global_list_insert_def locked_global_list_remove_def)

lemma fp_set_scheduler_stable:
  assumes "do_set_scheduler k r p s = Some (ok, s')" "sclass (tcb s r) = FP_CLASS"
    and "setscheduler_ok k r SCHED_FIFO p"
  shows "do_set_scheduler k r p s' = Some (True, s')"
proof -
  let ?s1 = "upd_task r (\<lambda>t. t\<lparr>prio := p\<rparr>) (kernel_setscheduler r SCHED_FIFO p s)"
  define s2 where "s2 = (if task_is_managed ?s1 r then global_list_reinsert r ?s1 else ?s1)"
  have c: "class_set_scheduler k r p s = (True, ?s1)"
    using assms by (simp add: class_set_scheduler_def fp_set_scheduler_def)
  have s1: "lx_policy (task (tcb ?s1 r)) = SCHED_FIFO" "lx_prio (task (tcb ?s1 r)) = p" "prio (tcb ?s1 r) = p"
    by (simp_all add: kernel_setscheduler_def)
  have s2: "task (tcb s2 r) = task (tcb ?s1 r)" "prio (tcb s2 r) = p"
    using s1 by (simp_all add: s2_def reinsert_task)
  have "lx_policy (task (tcb s' r)) = SCHED_FIFO \<and> lx_prio (task (tcb s' r)) = p \<and> prio (tcb s' r) = p"
  proof (cases "prio (tcb s r) = p")
    case True
    then show ?thesis using do_set_scheduler_cases(1) [OF c] assms(1) s1 by simp
  next
    case False
    have s3: "(if task_is_active s2 r then requeue_task k r (prio (tcb s r)) s2 else Some s2) = Some s'"
      using do_set_scheduler_cases(2) [OF c _ False s2_def] assms(1)
      by (cases "if task_is_active s2 r then requeue_task k r (prio (tcb s r)) s2 else Some s2") auto
    then show ?thesis
    proof (cases "task_is_active s2 r")
      case True
      with s3 have rq: "requeue_task k r (prio (tcb s r)) s2 = Some s'" by simp
      have cls: "sclass (tcb s2 r) = FP_CLASS"
        using assms(2) by (simp add: s2_def kernel_setscheduler_def)
      obtain x where x: "fp_dequeue_task r (prio (tcb s r)) (cpu_id (tcb s2 r)) s2 = Some x"
        "fp_enqueue_task r (prio (tcb s2 r)) (cpu_id (tcb s2 r)) x = Some s'"
        using rq cls
        by (auto simp: requeue_task_def dequeue_task_def enqueue_task_def Let_def
            queue_frame_tcb(3) [OF fp.deq_frame])
      then have "prio (tcb s' r) = prio (tcb s2 r)"
        using fp.deq_prio [OF x(1)] fp.enq_prio [OF x(2)] by auto
      then show ?thesis
        using queue_frame_tcb(7) [OF requeue_task_frame [OF rq], of r] s1 s2 by simp
    qed (use s1 s2 in simp)
  qed
  moreover have cls: "sclass (tcb s' r) = FP_CLASS"
    using do_set_scheduler_fields(1) [OF assms(1), of r] assms(2) by (simp add: sched_fields_def)
  ultimately have "kernel_setscheduler r SCHED_FIFO p s' = s'" "upd_task r (\<lambda>t. t\<lparr>prio := p\<rparr>) s' = s'"
    by (simp_all add: kernel_setscheduler_def upd_linux_def upd_task_def fun_upd_idem)
  then have "class_set_scheduler k r p s' = (True, s')"
    using cls assms(3) by (simp add: class_set_scheduler_def fp_set_scheduler_def)
  then show ?thesis by (simp add: do_set_scheduler_def Let_def)
qed

lemma set_high_prio_twice:
  assumes "set_high_prio k r s = Some s1" "cap_sys_nice k"
    and "setscheduler_ok k r SCHED_FIFO (RESCH_PRIO_KTHREAD - 1)"
    and "policy (tcb s r) = RESCH_SCHED_FP \<Longrightarrow> sclass (tcb s r) = FP_CLASS"
  shows "set_high_prio k r s1 = Some s1"
proof -
  let ?s0 = "set_policy r RESCH_SCHED_FP s"
  obtain ok where d: "do_set_scheduler k r (RESCH_PRIO_KTHREAD - 1) ?s0 = Some (ok, s1)"
    using assms(1,2) by (auto simp: set_high_prio_def set_scheduler_def Let_def)
  have c: "sclass (tcb ?s0 r) = FP_CLASS" "policy (tcb ?s0 r) = RESCH_SCHED_FP"
    using assms(4) by (auto simp: set_policy_def)
  have "policy (tcb s1 r) = RESCH_SCHED_FP"
    using do_set_scheduler_fields(1) [OF d, of r] c by (simp add: sched_fields_def)
  then show ?thesis
    using fp_set_scheduler_stable [OF d c(1) assms(3)] assms(2)
    by (simp add: set_high_prio_def set_scheduler_def set_policy_def Let_def)
qed

section \<open>Properties\<close>

text \<open>Task 3 ready for G-EDF on CPU 0, and running there.\<close>

definition gedf_ready3 :: gsched where
  "gedf_ready3 = gsched_boot\<lparr>gt_ready := (\<lambda>r. r = 3)\<rparr>"

definition gedf_running3 :: gsched where
  "gedf_running3 = gedf_ready3\<lparr>cpu_run := (\<lambda>c. c = 0), run_list := [3]\<rparr>"

lemma two_fp_3: "cpu_id (tcb two_fp 3) = 0" "sclass (tcb two_fp 3) = FP_CLASS"
  using two_tasks_facts(1,3) by (simp_all add: two_fp_def placed_def)

text \<open>C5: starting a job under G-EDF keeps the plugin's invariant and the core well formed,
  makes the job EDF, and schedules globally: as many jobs run as there are CPUs, on distinct
  CPUs, and no job that waits has an earlier deadline than one that runs.\<close>

theorem g_edf_start_schedules_earliest:
  assumes "gedf_wf (s, g)" "core_wf s" "cap_sys_nice k"
    and "r \<notin> set (run_list g)" "r \<notin> set (wait_list g)" "gt_ready g r"
    and "cpu_id (tcb s r) < NR_RT_CPUS" "edf_prio_ok s r" "sclass (tcb s r) \<noteq> FAIR_CLASS"
  shows "\<exists>s' g'. pl_job_start (g_edf_plugin k) r (s, g) = Some (s', g') \<and> core_wf s' \<and>
     gedf_wf (s', g') \<and> policy (tcb s' r) = RESCH_SCHED_EDF \<and>
     set (run_list g' @ wait_list g') = insert r (set (run_list g @ wait_list g)) \<and>
     length (run_list g') = min NR_RT_CPUS (length (run_list g' @ wait_list g')) \<and>
     (\<forall>x \<in> set (run_list g'). \<forall>y \<in> set (wait_list g').
        deadline_time (tcb s' x) \<le> deadline_time (tcb s' y))"
proof -
  obtain s' g' where x: "start_job earlier_deadline set_edf_prio k r (s, g) = Some (s', g')" "core_wf s'"
    "gedf_wf (s', g')" "set (run_list g' @ wait_list g') = insert r (set (run_list g @ wait_list g))"
    "policy (tcb s' r) = RESCH_SCHED_EDF"
    using gedf_start_spec [OF assms] by blast
  moreover have "\<forall>x \<in> set (run_list g'). \<forall>y \<in> set (wait_list g').
      deadline_time (tcb s' x) \<le> deadline_time (tcb s' y)"
    using gedf_wfD(4) [OF x(3)] by (auto simp: sorted_wrt_append not_less)
  ultimately show ?thesis
    using gedf_work_conserving [OF x(3)]
    by (intro exI [of _ s'] exI [of _ g'])
       (simp add: g_edf_plugin_def install_scheduler_def g_edf_job_start_def)
qed

theorem g_edf_start_schedules_earliest_witness:
  "\<exists>s' g'. pl_job_start (g_edf_plugin kernel0) 3 (two_fp, gedf_ready3) = Some (s', g') \<and>
     gedf_wf (s', g') \<and> set (run_list g' @ wait_list g') = {3}"
proof -
  have "gedf_wf (two_fp, gedf_ready3)" by (simp add: gedf_wf_def gedf_ready3_def gsched_boot_def)
  from g_edf_start_schedules_earliest [OF this two_fp_wf, of kernel0 3] show ?thesis
    by (auto simp: two_fp_3 edf_prio_ok_def gedf_ready3_def gsched_boot_def kernel0_def NR_RT_CPUS_def)
qed

text \<open>C6: completing a running job under G-EDF hands its CPU to the waiting job with the
  earliest deadline, which is migrated there, or makes the CPU idle when no job waits, and
  keeps the invariant.\<close>

theorem g_edf_complete_hands_over:
  assumes "gedf_wf (s, g)" "core_wf s" "cap_sys_nice k" "r \<in> set (run_list g)"
    and "\<forall>x \<in> set (wait_list g). edf_prio_ok s x \<and> sclass (tcb s x) \<noteq> FAIR_CLASS"
  shows "\<exists>s' g'. pl_job_complete (g_edf_plugin k) r (s, g) = Some (s', g') \<and> core_wf s' \<and>
     gedf_wf (s', g') \<and> set (run_list g' @ wait_list g') = set (run_list g @ wait_list g) - {r} \<and>
     (wait_list g \<noteq> [] \<longrightarrow> hd (wait_list g) \<in> set (run_list g') \<and>
        cpu_id (tcb s' (hd (wait_list g))) = cpu_id (tcb s r))"
  using gedf_complete_spec [OF assms]
  by (simp add: g_edf_plugin_def install_scheduler_def g_edf_job_complete_def)

theorem g_edf_complete_hands_over_witness:
  "\<exists>s' g'. pl_job_complete (g_edf_plugin kernel0) 3 (two_fp, gedf_running3) = Some (s', g') \<and>
     gedf_wf (s', g') \<and> run_list g' @ wait_list g' = []"
proof -
  have "gedf_wf (two_fp, gedf_running3)"
    by (auto simp: gedf_wf_def gedf_running3_def gedf_ready3_def gsched_boot_def two_fp_3 NR_RT_CPUS_def)
  from g_edf_complete_hands_over [OF this two_fp_wf, of kernel0 3] show ?thesis
    by (auto simp: gedf_running3_def gedf_ready3_def gsched_boot_def kernel0_def)
qed

text \<open>completing the only job that waits makes its CPU idle although another job runs
  there: the code does not look at which list the job was on before it frees the CPU.\<close>

theorem g_edf_complete_waiting_frees_busy_cpu:
  assumes "gedf_wf (s, g)" "core_wf s" "cap_sys_nice k" "wait_list g = [r]"
  shows "\<exists>s' g' x. g_edf_job_complete k r (s, g) = Some (s', g') \<and> x \<in> set (run_list g') \<and>
     cpu_id (tcb s' x) = cpu_id (tcb s' r) \<and> \<not> cpu_run g' (cpu_id (tcb s' x)) \<and> \<not> gedf_wf (s', g')"
proof -
  note d = gedf_wfD [OF assms(1)]
  let ?c = "cpu_id (tcb s r)"
  have c: "?c < NR_RT_CPUS" "cpu_run g ?c" "gt_ready g r" using d(7,8,10) assms(4) by auto
  obtain b s1 where s1: "set_scheduler k r RESCH_SCHED_FP (RESCH_PRIO_KTHREAD - 1) s = Some (b, s1)"
    "same_keys s s1"
    using set_scheduler_total [OF assms(2,3), of RESCH_SCHED_FP "RESCH_PRIO_KTHREAD - 1" r]
      high_prio_range(1) by auto
  have cpu: "cpu_id (tcb s1 y) = cpu_id (tcb s y)" for y using s1(2) by (simp add: same_keys_def)
  let ?g = "g\<lparr>wait_list := [], cpu_run := (cpu_run g)(?c := False)\<rparr>"
  have job: "g_edf_job_complete k r (s, g) = Some (s1, ?g)"
    using s1(1) c assms(4) cpu
    by (simp add: g_edf_job_complete_def complete_job_def set_high_prio_def wait_list_remove_def
        get_next_task_def)
  have "?c \<in> (\<lambda>x. cpu_id (tcb s x)) ` set (run_list g)"
    unfolding d(6) [symmetric] using c by simp
  then obtain x where x: "x \<in> set (run_list g)" "cpu_id (tcb s x) = ?c" by auto
  then have "\<not> gedf_wf (s1, ?g)" using gedf_run_cpu(2) [of s1 ?g x] cpu by auto
  with job x cpu show ?thesis by (intro exI [of _ s1] exI [of _ ?g] exI [of _ x]) simp
qed

text \<open>Eight jobs on the eight CPUs and a ninth that waits on CPU 0.\<close>

definition nine_jobs :: "gsched sys" where
  "nine_jobs = (boot\<lparr>resch_task := (\<lambda>r. zero_tcb\<lparr>cpu_id := (if r < 8 then r else 0),
       sclass := FP_CLASS, policy := RESCH_SCHED_FP, prio := 50, deadline_time := of_nat r\<rparr>)\<rparr>,
     \<lparr>cpu_run = (\<lambda>_. True), run_list = [0..<8], wait_list = [8], gt_ready = (\<lambda>_. True),
      gt_prio = (\<lambda>_. 1)\<rparr>)"

lemma nine_jobs_wf: "core_wf (fst nine_jobs)" "gedf_wf (fst nine_jobs, snd nine_jobs)"
proof -
  have "same_queues boot (fst nine_jobs)" by (simp add: same_queues_def nine_jobs_def boot_defs)
  then have "active_wf (fst nine_jobs)"
    using same_queues_wf [of boot "fst nine_jobs"] core_wfD(1) [OF boot_core_wf] by simp
  then show "core_wf (fst nine_jobs)"
    by (simp add: core_wf_def nine_jobs_def placed_def task_is_active_def glist_wf_def
        glist_links_def boot_defs)
  have "sorted_wrt (\<lambda>x y. \<not> (of_nat y :: u64) < of_nat x) [0..<9]"
    by (simp add: upt_rec)
  moreover have "[0..<8] @ [8] = [0..<9::nat]" by (simp add: upt_rec)
  moreover have "{c. c < NR_RT_CPUS \<and> cpu_run (snd nine_jobs) c} =
      (\<lambda>x. cpu_id (tcb (fst nine_jobs) x)) ` set (run_list (snd nine_jobs))"
    by (auto simp: nine_jobs_def NR_RT_CPUS_def image_iff)
  ultimately show "gedf_wf (fst nine_jobs, snd nine_jobs)"
    unfolding gedf_wf_def prod.case
    by (simp add: nine_jobs_def NR_RT_CPUS_def inj_on_def del: upt_rec_numeral)
qed

theorem g_edf_complete_waiting_frees_busy_cpu_witness:
  "\<exists>s' g' x. g_edf_job_complete kernel0 8 nine_jobs = Some (s', g') \<and> x \<in> set (run_list g') \<and>
     \<not> cpu_run g' (cpu_id (tcb s' x))"
  using g_edf_complete_waiting_frees_busy_cpu [OF nine_jobs_wf(2,1), of kernel0 8]
  by (auto simp: nine_jobs_def kernel0_def)

text \<open>EDF-US is G-EDF: for a task with a period the utilisation test changes nothing, since
  it raises the priority that the next line raises anyway, and the start of every job sets
  the EDF priority of heavy and light tasks alike.\<close>

theorem edf_us_is_g_edf:
  assumes "period (tcb s r) \<noteq> 0" "cap_sys_nice k"
    and "setscheduler_ok k r SCHED_FIFO (RESCH_PRIO_KTHREAD - 1)"
    and "policy (tcb s r) = RESCH_SCHED_FP \<Longrightarrow> sclass (tcb s r) = FP_CLASS"
  shows "task_run (edf_us_plugin k) r (s, g) = task_run (g_edf_plugin k) r (s, g) \<and>
     pl_job_start (edf_us_plugin k) r = pl_job_start (g_edf_plugin k) r \<and>
     pl_job_complete (edf_us_plugin k) r = pl_job_complete (g_edf_plugin k) r"
proof -
  have "edf_us_task_run k r (s, g) = g_edf_task_run k r (s, g)"
  proof (cases "set_high_prio k r s")
    case None
    then show ?thesis
      using assms(1)
      by (simp add: edf_us_task_run_def us_submit_def us_utilization_def g_edf_task_run_def
          submit_task_def Let_def split: Option.bind_split)
  next
    case (Some s1)
    have "set_high_prio k r s1 = Some s1" by (rule set_high_prio_twice [OF Some assms(2-4)])
    with Some assms(1) show ?thesis
      by (simp add: edf_us_task_run_def us_submit_def us_utilization_def g_edf_task_run_def
          submit_task_def Let_def)
  qed
  then show ?thesis
    by (simp add: edf_us_plugin_def g_edf_plugin_def install_scheduler_def edf_us_job_start_def
        g_edf_job_start_def edf_us_job_complete_def g_edf_job_complete_def fun_eq_iff)
qed

theorem edf_us_is_g_edf_witness:
  "task_run (edf_us_plugin kernel0) 3 (upd_task 3 (\<lambda>t. t\<lparr>period := 10, wcet := 9000\<rparr>) two_fp, gsched_boot) =
   task_run (g_edf_plugin kernel0) 3 (upd_task 3 (\<lambda>t. t\<lparr>period := 10, wcet := 9000\<rparr>) two_fp, gsched_boot)"
  using edf_us_is_g_edf [of "upd_task 3 (\<lambda>t. t\<lparr>period := 10, wcet := 9000\<rparr>) two_fp" 3 kernel0 gsched_boot]
  by (simp add: kernel0_def two_fp_3)

text \<open>under G-FP a job is started at the priority the plugin raised it to when the previous
  one completed, and only then gets its own back: with all CPUs busy it takes the CPU of the
  last running job of a lower raised priority, also when its own priority is lower.\<close>

theorem gfp_start_preempts_higher_priority:
  assumes "core_wf s" "cap_sys_nice k" "sclass (tcb s r) = FP_CLASS" "policy (tcb s r) = RESCH_SCHED_FP"
    and "prio (tcb s r) = RESCH_PRIO_KTHREAD - 1" "gt_ready g r"
    and "r \<notin> set (run_list g)" "r \<notin> set (wait_list g)" "\<forall>c < NR_RT_CPUS. cpu_run g c"
    and "run_list g \<noteq> []" "p = last (run_list g)" "cpu_id (tcb s p) = cpu_id (tcb s r)"
    and "cpu_id (tcb s r) < NR_RT_CPUS" "p \<notin> set (wait_list g)"
    and "1 \<le> gt_prio g r" "gt_prio g r < prio (tcb s p)" "prio (tcb s p) < RESCH_PRIO_KTHREAD - 1"
    and "setscheduler_ok k r SCHED_FIFO (gt_prio g r)"
  shows "\<exists>s' g'. pl_job_start (gfp_plugin k) r (s, g) = Some (s', g') \<and> core_wf s' \<and>
     r \<in> set (run_list g') \<and> p \<in> set (wait_list g') \<and>
     prio (tcb s' r) = gt_prio g r \<and> prio (tcb s' r) < prio (tcb s' p)"
proof -
  have pr: "p \<noteq> r" using assms(7,10,11) by auto
  let ?g1 = "wait_list_insert (higher_prio s) p (run_list_remove p g)"
  let ?g2 = "run_list_insert (higher_prio s) r (?g1\<lparr>cpu_run := (cpu_run ?g1)(cpu_id (tcb s p) := True)\<rparr>)"
  have b: "higher_prio s r p" using assms(5,17) by (simp add: higher_prio_def)
  have gp: "gt_prio ?g2 = gt_prio g"
    by (simp add: run_list_insert_def wait_list_insert_def run_list_remove_def)
  have "1 \<le> gt_prio g r \<and> gt_prio g r \<le> 98" using assms(15-17) by (simp add: resch_consts)
  then obtain ok s' where s': "set_scheduler k r RESCH_SCHED_FP (gt_prio g r) s = Some (ok, s')" "core_wf s'"
    "prio (tcb s' r) = (if ok then gt_prio g r else prio (tcb s r))"
    "ok = fst (class_set_scheduler k r (gt_prio g r) (set_policy r RESCH_SCHED_FP s))"
    "\<forall>x. x \<noteq> r \<longrightarrow> tcb s' x = tcb s x"
    using set_scheduler_total [OF assms(1,2), of RESCH_SCHED_FP "gt_prio g r" r] by auto
  have "ok"
    using s'(4) assms(3,4,18) by (simp add: class_set_scheduler_def set_policy_def fp_set_scheduler_def)
  have "find (\<lambda>c. \<not> cpu_run g c) [0..<NR_RT_CPUS] = None" using assms(9) by (simp add: find_idle_none)
  then have "start_job higher_prio set_fp_prio k r (s, g) = Some (s', ?g2)"
    using assms(6,9-13) b s'(1) gp
    by (simp add: start_job_def get_lowest_prio_task_def start_running_def set_fp_prio_def)
  moreover have "r \<in> set (run_list ?g2)" "p \<in> set (wait_list ?g2)"
    using assms(14) by (simp_all add: run_list_insert_def wait_list_insert_def)
  ultimately show ?thesis
    using s' \<open>ok\<close> assms(16) pr
    by (intro exI [of _ s'] exI [of _ ?g2])
       (simp add: gfp_plugin_def install_scheduler_def gfp_job_start_def)
qed

text \<open>The eight running jobs, and task 20 at the raised priority on CPU 7.\<close>

definition eight_gfp :: "gsched sys" where
  "eight_gfp = (upd_task 20 (\<lambda>t. t\<lparr>prio := RESCH_PRIO_KTHREAD - 1, cpu_id := 7\<rparr>) (fst nine_jobs),
     (snd nine_jobs)\<lparr>wait_list := []\<rparr>)"

lemma eight_gfp_facts:
  "core_wf (fst eight_gfp)"
  "sclass (tcb (fst eight_gfp) 20) = FP_CLASS" "policy (tcb (fst eight_gfp) 20) = RESCH_SCHED_FP"
  "prio (tcb (fst eight_gfp) 20) = RESCH_PRIO_KTHREAD - 1" "cpu_id (tcb (fst eight_gfp) 20) = 7"
  "gt_ready (snd eight_gfp) 20" "20 \<notin> set (run_list (snd eight_gfp))" "wait_list (snd eight_gfp) = []"
  "\<forall>c < NR_RT_CPUS. cpu_run (snd eight_gfp) c" "run_list (snd eight_gfp) \<noteq> []"
  "7 = last (run_list (snd eight_gfp))" "cpu_id (tcb (fst eight_gfp) 7) = 7"
  "gt_prio (snd eight_gfp) 20 = 1" "prio (tcb (fst eight_gfp) 7) = 50"
proof -
  show "core_wf (fst eight_gfp)"
    unfolding eight_gfp_def fst_conv
    by (intro core_wf_upd_idle nine_jobs_wf) (simp_all add: nine_jobs_def boot_defs)
qed (simp_all add: eight_gfp_def nine_jobs_def)

theorem gfp_start_preempts_higher_priority_witness:
  "\<exists>s' g'. pl_job_start (gfp_plugin kernel0) 20 (fst eight_gfp, snd eight_gfp) = Some (s', g') \<and>
     7 \<in> set (wait_list g') \<and> prio (tcb s' 20) < prio (tcb s' 7)"
proof -
  have "cap_sys_nice kernel0" "setscheduler_ok kernel0 20 SCHED_FIFO 1" by (simp_all add: kernel0_def)
  with gfp_start_preempts_higher_priority [OF eight_gfp_facts(1) _ eight_gfp_facts(2-4,6,7) _
      eight_gfp_facts(9-11), of kernel0]
  show ?thesis
    by (auto simp: eight_gfp_facts(5,8,12-14) resch_consts)
qed

end
