(* ===== verification/Partition.thy ===== *)
theory Partition
  imports Task_API
begin

text \<open>
  The partitioning plugins (\<open>plugin/partition\<close>): EDF-FF, which admits a task to a CPU by a
  demand bound test, and FP-FF, which admits it by a response time analysis. Both walk the
  global list of the core and keep no state of their own.

  \<open>None\<close> is a division by zero, a signed overflow or a loop that does not end.
\<close>

text \<open>
  Their loops start at \<open>global_highest_prio_task\<close> and go on with \<open>global_next_prio_task\<close>
  until NULL: they visit \<open>task_list\<close> in order, and are written as recursions over it.
\<close>

lemma global_walk:
  assumes "glist_links s"
  shows "global_highest_prio_task s = (if task_list s = [] then None else Some (task_list s ! 0))"
    and "i < length (task_list s) \<Longrightarrow> global_next_prio_task (task_list s ! i) s =
      (if Suc i < length (task_list s) then Some (task_list s ! Suc i) else None)"
proof -
  show "global_highest_prio_task s = (if task_list s = [] then None else Some (task_list s ! 0))"
    by (simp add: global_highest_prio_task_def split: list.splits)
  assume i: "i < length (task_list s)"
  have d: "distinct (task_list s)" and e: "global_entry (tcb s (task_list s ! i))"
    using assms i nth_mem [OF i] by (auto simp: glist_links_def)
  have "next_in (xs ! j) xs = (if Suc j < length xs then Some (xs ! Suc j) else None)"
    if "distinct xs" "j < length xs" for xs :: "rid list" and j
    using that
  proof (induction xs arbitrary: j rule: induct_list012)
    case (3 x y zs)
    then show ?case using "3.IH"(2) [of "j - 1"] by (cases j) (auto simp: nth_Cons')
  qed auto
  with d e i show "global_next_prio_task (task_list s ! i) s =
      (if Suc i < length (task_list s) then Some (task_list s ! Suc i) else None)"
    by (simp add: global_next_prio_task_def)
qed

section \<open>EDF-FF: the demand bound test\<close>

definition max_ulong :: "u64 \<Rightarrow> u64 \<Rightarrow> u64" where
  "max_ulong x y = (if x > y then x else y)"

definition div_ulong :: "u64 \<Rightarrow> u64 \<Rightarrow> u64 option" where
  "div_ulong x y = (if y = 0 then None else Some (x div y))"

text \<open>The utilisation of a task in percent, rounded down.\<close>

definition util :: "kenv \<Rightarrow> core \<Rightarrow> rid \<Rightarrow> u64 option" where
  "util k s p = div_ulong (100 * wcet (tcb s p)) (jiffies_to_usecs k (period (tcb s p)))"

fun util_loop :: "kenv \<Rightarrow> core \<Rightarrow> cpu \<Rightarrow> rid list \<Rightarrow> u64 \<Rightarrow> u64 option" where
  "util_loop k s c [] u = Some u"
| "util_loop k s c (p # ps) u =
     (if task_is_on_cpu s p c then do { v \<leftarrow> util k s p; util_loop k s c ps (u + v) }
      else util_loop k s c ps u)"

definition util_cpu :: "kenv \<Rightarrow> core \<Rightarrow> cpu \<Rightarrow> u64 option" where
  "util_cpu k s c = util_loop k s c (task_list s) 0"

definition ff_overhead :: "kenv \<Rightarrow> core \<Rightarrow> rid \<Rightarrow> u64 \<Rightarrow> cpu \<Rightarrow> u64 option" where
  "ff_overhead k s rt L c = do {
     a \<leftarrow> sched_overhead_cpu k c L s;
     b \<leftarrow> sched_overhead_task k rt L s;
     Some (usecs_to_jiffies k (a + b))
   }"

text \<open>The length of the test: one task's contribution to the sums, the loop, and the result.\<close>

definition dbf_len_add :: "kenv \<Rightarrow> core \<Rightarrow> rid \<Rightarrow> u64 \<times> u64 \<times> u64 \<Rightarrow> (u64 \<times> u64 \<times> u64) option" where
  "dbf_len_add k s p = (\<lambda>(x, u, d). do {
     v \<leftarrow> util k s p;
     Some (x + max_ulong 0 (period (tcb s p) - deadline (tcb s p)) * v, u + v,
           max_ulong d (deadline (tcb s p)))
   })"

fun dbf_len_loop :: "kenv \<Rightarrow> core \<Rightarrow> cpu \<Rightarrow> rid list \<Rightarrow> u64 \<times> u64 \<times> u64 \<Rightarrow> (u64 \<times> u64 \<times> u64) option" where
  "dbf_len_loop k s c [] a = Some a"
| "dbf_len_loop k s c (p # ps) a =
     (if \<not> task_is_on_cpu s p c then dbf_len_loop k s c ps a
      else do { a' \<leftarrow> dbf_len_add k s p a; dbf_len_loop k s c ps a' })"

definition dbf_len :: "kenv \<Rightarrow> core \<Rightarrow> cpu \<Rightarrow> rid \<Rightarrow> u64 option" where
  "dbf_len k s c rt = do {
     a \<leftarrow> dbf_len_loop k s c (task_list s) (0, 0, 0);
     (x, u, d) \<leftarrow> dbf_len_add k s rt a;
     if 100 \<le> u then Some d else Some (max_ulong (x div (100 - u)) d)
   }"

definition dbf_task :: "kenv \<Rightarrow> core \<Rightarrow> rid \<Rightarrow> u64 \<Rightarrow> u64 option" where
  "dbf_task k s rt L =
     (if L < deadline (tcb s rt) then Some 0
      else do {
        n \<leftarrow> div_ulong (L - deadline (tcb s rt)) (period (tcb s rt));
        Some (usecs_to_jiffies k (max_ulong 0 (n + 1) * wcet (tcb s rt)))
      })"

fun dbf_loop :: "kenv \<Rightarrow> core \<Rightarrow> cpu \<Rightarrow> u64 \<Rightarrow> rid list \<Rightarrow> u64 \<Rightarrow> u64 option" where
  "dbf_loop k s c L [] a = Some a"
| "dbf_loop k s c L (p # ps) a =
     (if task_is_on_cpu s p c then do { v \<leftarrow> dbf_task k s p L; dbf_loop k s c L ps (a + v) }
      else dbf_loop k s c L ps a)"

definition dbf_cpu :: "kenv \<Rightarrow> core \<Rightarrow> cpu \<Rightarrow> u64 \<Rightarrow> u64 option" where
  "dbf_cpu k s c L = dbf_loop k s c L (task_list s) 0"

text \<open>The left side of the test in an interval of length \<open>L\<close>.\<close>

definition dbf_demand :: "kenv \<Rightarrow> core \<Rightarrow> cpu \<Rightarrow> rid \<Rightarrow> u64 \<Rightarrow> u64 option" where
  "dbf_demand k s c rt L = do {
     a \<leftarrow> dbf_cpu k s c L;
     b \<leftarrow> dbf_task k s rt L;
     ov \<leftarrow> ff_overhead k s rt L c;
     Some (a + b + ov)
   }"

text \<open>The loop over the deadlines of one task: \<open>L\<close> advances by the period, as an
  \<open>unsigned long\<close>.\<close>

partial_function (option) dbf_scan ::
    "kenv \<Rightarrow> core \<Rightarrow> cpu \<Rightarrow> rid \<Rightarrow> u64 \<Rightarrow> u64 \<Rightarrow> u64 \<Rightarrow> bool option" where
  "dbf_scan k s c rt step Lmax L =
     (if L \<le> Lmax
      then do {
        d \<leftarrow> dbf_demand k s c rt L;
        if d > L then Some False else dbf_scan k s c rt step Lmax (L + step)
      }
      else Some True)"

fun dbf_scan_tasks :: "kenv \<Rightarrow> core \<Rightarrow> cpu \<Rightarrow> rid \<Rightarrow> u64 \<Rightarrow> rid list \<Rightarrow> bool option" where
  "dbf_scan_tasks k s c rt Lmax [] = Some True"
| "dbf_scan_tasks k s c rt Lmax (p # ps) =
     (if \<not> task_is_on_cpu s p c then dbf_scan_tasks k s c rt Lmax ps
      else do {
        ok \<leftarrow> dbf_scan k s c rt (period (tcb s p)) Lmax (deadline (tcb s p));
        if ok then dbf_scan_tasks k s c rt Lmax ps else Some False
      })"

definition dbf_test :: "kenv \<Rightarrow> core \<Rightarrow> cpu \<Rightarrow> rid \<Rightarrow> bool option" where
  "dbf_test k s c rt =
     (if wcet (tcb s rt) = 0 then Some True
      else do {
        Lmax \<leftarrow> dbf_len k s c rt;
        ok \<leftarrow> dbf_scan_tasks k s c rt Lmax (task_list s);
        if ok then dbf_scan k s c rt (period (tcb s rt)) Lmax (deadline (tcb s rt)) else Some False
      })"

section \<open>EDF-FF: the choice of the CPU\<close>

text \<open>\<open>cpu_first_fit\<close> is compiled if \<open>EDF_FIRST_FIT\<close> is defined, \<open>cpu_worst_fit\<close> otherwise.\<close>

definition cpu_first_fit :: "kenv \<Rightarrow> core \<Rightarrow> rid \<Rightarrow> cpu option" where
  "cpu_first_fit k s rt =
     for_each (\<lambda>c. if c \<notin> cpus_allowed (task (tcb s rt)) then Some None
                   else do { t \<leftarrow> dbf_test k s c rt; Some (if t then Some c else None) })
       [0..<NR_RT_CPUS] RESCH_CPU_UNDEFINED"

fun worst_fit_loop :: "kenv \<Rightarrow> core \<Rightarrow> rid \<Rightarrow> cpu list \<Rightarrow> cpu \<times> u64 \<Rightarrow> (cpu \<times> u64) option" where
  "worst_fit_loop k s rt [] b = Some b"
| "worst_fit_loop k s rt (c # cs) (dst, u_dst) =
     (if c \<notin> cpus_allowed (task (tcb s rt)) then worst_fit_loop k s rt cs (dst, u_dst)
      else do {
        t \<leftarrow> dbf_test k s c rt;
        if t
        then do {
          u \<leftarrow> util_cpu k s c;
          worst_fit_loop k s rt cs (if u < u_dst then (c, u) else (dst, u_dst))
        }
        else worst_fit_loop k s rt cs (dst, u_dst)
      })"

definition cpu_worst_fit :: "kenv \<Rightarrow> core \<Rightarrow> rid \<Rightarrow> cpu option" where
  "cpu_worst_fit k s rt =
     map_option fst (worst_fit_loop k s rt [0..<NR_RT_CPUS] (RESCH_CPU_UNDEFINED, 100))"

definition edf_ff_partition :: "bool \<Rightarrow> kenv \<Rightarrow> core \<Rightarrow> rid \<Rightarrow> cpu option" where
  "edf_ff_partition first_fit k s rt = (if first_fit then cpu_first_fit k s rt else cpu_worst_fit k s rt)"

definition edf_ff_task_run :: "bool \<Rightarrow> kenv \<Rightarrow> 'p hook" where
  "edf_ff_task_run first_fit k rt = (\<lambda>(s, w).
     if period (tcb s rt) = 0 then Some (s, w)
     else do {
       dst \<leftarrow> edf_ff_partition first_fit k s rt;
       let s1 = upd_task rt (\<lambda>t. t\<lparr>cpu_id := dst\<rparr>) s;
       if dst \<noteq> RESCH_CPU_UNDEFINED
       then do {
         s2 \<leftarrow> (if policy (tcb s1 rt) \<noteq> RESCH_SCHED_EDF
                then map_option snd (set_scheduler k rt RESCH_SCHED_EDF (prio (tcb s1 rt)) s1)
                else Some s1);
         s3 \<leftarrow> migrate_task k rt dst (upd_task rt (\<lambda>t. t\<lparr>migratory := False\<rparr>) s2);
         Some (s3, w)
       }
       else do {
         (ok, s2) \<leftarrow> set_scheduler k rt RESCH_SCHED_FAIR 0 s1;
         Some (s2, w)
       }
     })"

definition edf_ff_plugin :: "bool \<Rightarrow> kenv \<Rightarrow> 'p plugin_struct" where
  "edf_ff_plugin first_fit k = install_scheduler (Some (edf_ff_task_run first_fit k)) None None None"

section \<open>FP-FF\<close>

text \<open>
  The demand in \<open>L\<close> of a task of period \<open>P\<close> and execution time \<open>C\<close>. The number of jobs is an
  \<open>int\<close>: a quotient is truncated to it, and its increment may overflow.
\<close>

definition fp_interference :: "u64 \<Rightarrow> u64 \<Rightarrow> u64 \<Rightarrow> u64 option" where
  "fp_interference L P C = do {
     q \<leftarrow> div_ulong L P;
     let F = int_of_ulong q;
     if L \<ge> P * word_of_int F + C
     then do {
       guard_c (F < 2 ^ 31 - 1);
       Some (C * word_of_int (F + 1))
     }
     else Some (L - word_of_int F * (P - C))
   }"

fun rta_loop :: "kenv \<Rightarrow> core \<Rightarrow> rid \<Rightarrow> cpu \<Rightarrow> u64 \<Rightarrow> rid list \<Rightarrow> u64 \<Rightarrow> u64 option" where
  "rta_loop k s rt c L [] ret = Some ret"
| "rta_loop k s rt c L (hp # hps) ret =
     (if prio (tcb s hp) \<ge> prio (tcb s rt)
      then if task_is_on_cpu s hp c \<and> hp \<noteq> rt
           then do {
             i \<leftarrow> fp_interference L (jiffies_to_usecs k (period (tcb s hp))) (runtime (tcb s hp));
             rta_loop k s rt c L hps (ret + i)
           }
           else rta_loop k s rt c L hps ret
      else Some ret)"

definition response_time_analysis :: "kenv \<Rightarrow> core \<Rightarrow> rid \<Rightarrow> cpu \<Rightarrow> u64 option" where
  "response_time_analysis k s rt c = do {
     let L = jiffies_to_usecs k (deadline (tcb s rt));
     ret \<leftarrow> rta_loop k s rt c L (task_list s) 0;
     a \<leftarrow> sched_overhead_cpu k c L s;
     b \<leftarrow> sched_overhead_task k rt L s;
     Some (ret + runtime (tcb s rt) + a + b)
   }"

text \<open>The inner loop: does every task from \<open>lp\<close> on keep its deadline together with \<open>rt\<close>?\<close>

fun lower_tasks_ok :: "kenv \<Rightarrow> core \<Rightarrow> rid \<Rightarrow> cpu \<Rightarrow> rid list \<Rightarrow> bool option" where
  "lower_tasks_ok k s rt c [] = Some True"
| "lower_tasks_ok k s rt c (lp # lps) =
     (if \<not> task_is_on_cpu s lp c then lower_tasks_ok k s rt c lps
      else do {
        Rk \<leftarrow> response_time_analysis k s lp c;
        let Dk = jiffies_to_usecs k (deadline (tcb s lp));
        i \<leftarrow> fp_interference Dk (jiffies_to_usecs k (period (tcb s rt))) (runtime (tcb s rt));
        if Rk + i > Dk then Some False else lower_tasks_ok k s rt c lps
      })"

definition fp_ff_admits :: "kenv \<Rightarrow> core \<Rightarrow> rid \<Rightarrow> cpu \<Rightarrow> bool option" where
  "fp_ff_admits k s rt c = do {
     Ri \<leftarrow> response_time_analysis k s rt c;
     if Ri > jiffies_to_usecs k (deadline (tcb s rt)) then Some False
     else lower_tasks_ok k s rt c (dropWhile (\<lambda>r. \<not> prio (tcb s r) \<le> prio (tcb s rt)) (task_list s))
   }"

definition fp_ff_partition :: "kenv \<Rightarrow> core \<Rightarrow> rid \<Rightarrow> cpu option" where
  "fp_ff_partition k s rt =
     for_each (\<lambda>c. if c \<notin> cpus_allowed (task (tcb s rt)) then Some None
                   else do { t \<leftarrow> fp_ff_admits k s rt c; Some (if t then Some c else None) })
       [0..<NR_RT_CPUS] RESCH_CPU_UNDEFINED"

definition fp_ff_task_run :: "kenv \<Rightarrow> 'p hook" where
  "fp_ff_task_run k rt = (\<lambda>(s, w).
     if period (tcb s rt) = 0 then Some (s, w)
     else do {
       dst \<leftarrow> fp_ff_partition k s rt;
       let s1 = upd_task rt (\<lambda>t. t\<lparr>cpu_id := dst\<rparr>) s;
       if dst \<noteq> RESCH_CPU_UNDEFINED
       then do {
         s2 \<leftarrow> (if policy (tcb s1 rt) \<noteq> RESCH_SCHED_FP
                then map_option snd (set_scheduler k rt RESCH_SCHED_FP (prio (tcb s1 rt)) s1)
                else Some s1);
         s3 \<leftarrow> migrate_task k rt dst (upd_task rt (\<lambda>t. t\<lparr>migratory := False\<rparr>) s2);
         Some (s3, w)
       }
       else do {
         (ok, s2) \<leftarrow> set_scheduler k rt RESCH_SCHED_FAIR 0 s1;
         Some (s2, w)
       }
     })"

definition fp_ff_plugin :: "kenv \<Rightarrow> 'p plugin_struct" where
  "fp_ff_plugin k = install_scheduler (Some (fp_ff_task_run k)) None None None"

section \<open>The demand bound test terminates\<close>

text \<open>Every task the test divides by has a period.\<close>

definition ff_defined :: "kenv \<Rightarrow> core \<Rightarrow> cpu \<Rightarrow> rid \<Rightarrow> bool" where
  "ff_defined k s c rt \<longleftrightarrow>
     (\<forall>p \<in> insert rt {p \<in> set (task_list s). task_is_on_cpu s p c}.
        period (tcb s p) \<noteq> 0 \<and> jiffies_to_usecs k (period (tcb s p)) \<noteq> 0)"

definition demand_ok :: "kenv \<Rightarrow> core \<Rightarrow> cpu \<Rightarrow> rid \<Rightarrow> u64 \<Rightarrow> bool" where
  "demand_ok k s c rt L = (case dbf_demand k s c rt L of Some d \<Rightarrow> d \<le> L | None \<Rightarrow> False)"

lemma dbf_task_total: "period (tcb s p) \<noteq> 0 \<Longrightarrow> \<exists>v. dbf_task k s p L = Some v"
  by (simp add: dbf_task_def div_ulong_def)

lemma dbf_loop_total:
  "\<forall>p \<in> set ps. task_is_on_cpu s p c \<longrightarrow> period (tcb s p) \<noteq> 0 \<Longrightarrow> \<exists>v. dbf_loop k s c L ps a = Some v"
proof (induction ps arbitrary: a)
  case (Cons p ps)
  then show ?case using dbf_task_total [of s p k L] by auto
qed simp

lemma overhead_loop_total:
  "\<forall>p \<in> set ps. task_is_on_cpu s p c \<longrightarrow> jiffies_to_usecs k (period (tcb s p)) \<noteq> 0 \<Longrightarrow>
   \<exists>v. overhead_loop k c L s ps a = Some v"
  by (induction ps arbitrary: a) (auto simp: div_round_up_def Let_def)

lemma dbf_demand_total:
  assumes "ff_defined k s c rt"
  shows "\<exists>d. dbf_demand k s c rt L = Some d"
proof -
  obtain a where "dbf_cpu k s c L = Some a"
    using assms dbf_loop_total [of "task_list s" s c k L 0] by (auto simp: ff_defined_def dbf_cpu_def)
  moreover obtain b where "dbf_task k s rt L = Some b"
    using assms dbf_task_total [of s rt k L] by (auto simp: ff_defined_def)
  moreover obtain x where "overhead_loop k c L s (task_list s) 0 = Some x"
    using assms overhead_loop_total [of "task_list s" s c k L 0] by (auto simp: ff_defined_def)
  moreover have "\<exists>y. sched_overhead_task k rt L s = Some y"
    using assms by (simp add: ff_defined_def sched_overhead_task_def div_round_up_def Let_def)
  ultimately show ?thesis
    by (auto simp: dbf_demand_def ff_overhead_def sched_overhead_cpu_def)
qed

lemma dbf_scan_spec:
  assumes d: "ff_defined k s c rt" and step: "step \<noteq> 0" and nowrap: "unat Lmax + unat step < 2 ^ 64"
  shows "dbf_scan k s c rt step Lmax L =
    Some (\<forall>i. unat L + i * unat step \<le> unat Lmax \<longrightarrow> demand_ok k s c rt (L + of_nat i * step))"
proof (induction "Suc (unat Lmax) - unat L" arbitrary: L rule: less_induct)
  case less
  show ?case
  proof (cases "L \<le> Lmax")
    case False
    then have "unat Lmax < unat L" by (simp add: word_le_nat_alt)
    then show ?thesis using False by (subst dbf_scan.simps) auto
  next
    case True
    then have le: "unat L \<le> unat Lmax" by (simp add: word_le_nat_alt)
    have pos: "0 < unat step" using step by (simp add: unat_gt_0)
    have next_L: "unat (L + step) = unat L + unat step"
      using le nowrap by (subst unat_add_lem [THEN iffD1]) auto
    obtain x where x: "dbf_demand k s c rt L = Some x" using dbf_demand_total [OF d] by blast
    show ?thesis
    proof (cases "x > L")
      case True
      then have "\<not> demand_ok k s c rt (L + of_nat 0 * step)" using x by (simp add: demand_ok_def)
      then have "\<not> (\<forall>i. unat L + i * unat step \<le> unat Lmax \<longrightarrow> demand_ok k s c rt (L + of_nat i * step))"
        using le by (metis add.right_neutral mult_0)
      then show ?thesis using \<open>L \<le> Lmax\<close> x True by (subst dbf_scan.simps) simp
    next
      case False
      then have ok: "demand_ok k s c rt L" using x by (simp add: demand_ok_def)
      have rec: "dbf_scan k s c rt step Lmax (L + step) =
          Some (\<forall>i. unat (L + step) + i * unat step \<le> unat Lmax \<longrightarrow>
                  demand_ok k s c rt (L + step + of_nat i * step))"
        using le pos next_L by (intro less) simp
      have "(\<forall>i. unat L + i * unat step \<le> unat Lmax \<longrightarrow> demand_ok k s c rt (L + of_nat i * step)) \<longleftrightarrow>
          (\<forall>i. unat (L + step) + i * unat step \<le> unat Lmax \<longrightarrow>
                  demand_ok k s c rt (L + step + of_nat i * step))" (is "?all \<longleftrightarrow> ?suc")
      proof
        assume all: ?all
        show ?suc
        proof (intro allI impI)
          fix i assume "unat (L + step) + i * unat step \<le> unat Lmax"
          with all [rule_format, of "Suc i"] next_L show "demand_ok k s c rt (L + step + of_nat i * step)"
            by (simp add: algebra_simps)
        qed
      next
        assume suc: ?suc
        show ?all
        proof (intro allI impI)
          fix i assume i: "unat L + i * unat step \<le> unat Lmax"
          show "demand_ok k s c rt (L + of_nat i * step)"
          proof (cases i)
            case (Suc j)
            then show ?thesis using suc [rule_format, of j] i next_L by (simp add: algebra_simps)
          qed (use ok in simp)
        qed
      qed
      then show ?thesis using \<open>L \<le> Lmax\<close> x False rec by (subst dbf_scan.simps) simp
    qed
  qed
qed

text \<open>The points of time at which the test looks at the demand for one task.\<close>

definition deadlines_ok :: "kenv \<Rightarrow> core \<Rightarrow> cpu \<Rightarrow> rid \<Rightarrow> u64 \<Rightarrow> rid \<Rightarrow> bool" where
  "deadlines_ok k s c rt Lmax p \<longleftrightarrow>
     (\<forall>i. unat (deadline (tcb s p)) + i * unat (period (tcb s p)) \<le> unat Lmax \<longrightarrow>
        demand_ok k s c rt (deadline (tcb s p) + of_nat i * period (tcb s p)))"

lemma dbf_scan_tasks_spec:
  assumes "ff_defined k s c rt"
    and "\<forall>p \<in> set ps. task_is_on_cpu s p c \<longrightarrow>
       p \<in> set (task_list s) \<and> unat Lmax + unat (period (tcb s p)) < 2 ^ 64"
  shows "dbf_scan_tasks k s c rt Lmax ps =
    Some (\<forall>p \<in> set ps. task_is_on_cpu s p c \<longrightarrow> deadlines_ok k s c rt Lmax p)"
  using assms(2)
proof (induction ps)
  case (Cons p ps)
  show ?case
  proof (cases "task_is_on_cpu s p c")
    case True
    then have "period (tcb s p) \<noteq> 0" "unat Lmax + unat (period (tcb s p)) < 2 ^ 64"
      using assms(1) Cons.prems by (auto simp: ff_defined_def)
    from dbf_scan_spec [OF assms(1) this, of "deadline (tcb s p)"] Cons True
    show ?thesis by (simp add: deadlines_ok_def)
  qed (use Cons in simp)
qed simp

lemma dbf_len_total:
  assumes "ff_defined k s c rt"
  shows "\<exists>Lmax. dbf_len k s c rt = Some Lmax"
proof -
  have add: "\<exists>x u d. dbf_len_add k s p a = Some (x, u, d)"
    if "jiffies_to_usecs k (period (tcb s p)) \<noteq> 0" for p a
    using that by (cases a) (simp add: dbf_len_add_def util_def div_ulong_def)
  have loop: "\<exists>a'. dbf_len_loop k s c ps a = Some a'"
    if "\<forall>p \<in> set ps. task_is_on_cpu s p c \<longrightarrow> jiffies_to_usecs k (period (tcb s p)) \<noteq> 0" for ps a
    using that
  proof (induction ps arbitrary: a)
    case (Cons p ps)
    show ?case
    proof (cases "task_is_on_cpu s p c")
      case True
      then obtain x u d where "dbf_len_add k s p a = Some (x, u, d)"
        using add [of p a] Cons.prems by auto
      then show ?thesis using Cons.IH [of "(x, u, d)"] Cons.prems True by simp
    qed (use Cons in simp)
  qed auto
  obtain a where a: "dbf_len_loop k s c (task_list s) (0, 0, 0) = Some a"
    using loop [of "task_list s" "(0, 0, 0)"] assms by (auto simp: ff_defined_def)
  obtain x u d where "dbf_len_add k s rt a = Some (x, u, d)"
    using add [of rt a] assms by (auto simp: ff_defined_def)
  with a show ?thesis by (simp add: dbf_len_def)
qed

lemma dbf_test_spec:
  assumes d: "ff_defined k s c rt" and Lmax: "dbf_len k s c rt = Some Lmax"
    and nowrap: "\<forall>p \<in> insert rt {p \<in> set (task_list s). task_is_on_cpu s p c}.
       unat Lmax + unat (period (tcb s p)) < 2 ^ 64"
  shows "dbf_test k s c rt =
    Some (wcet (tcb s rt) = 0 \<or>
      (\<forall>p \<in> insert rt {p \<in> set (task_list s). task_is_on_cpu s p c}. deadlines_ok k s c rt Lmax p))"
proof -
  have "dbf_scan_tasks k s c rt Lmax (task_list s) =
      Some (\<forall>p \<in> set (task_list s). task_is_on_cpu s p c \<longrightarrow> deadlines_ok k s c rt Lmax p)"
    using nowrap by (intro dbf_scan_tasks_spec [OF d]) simp
  moreover have "dbf_scan k s c rt (period (tcb s rt)) Lmax (deadline (tcb s rt)) =
      Some (deadlines_ok k s c rt Lmax rt)"
    unfolding deadlines_ok_def using d nowrap by (intro dbf_scan_spec) (simp_all add: ff_defined_def)
  ultimately show ?thesis using Lmax by (auto simp: dbf_test_def)
qed

section \<open>The response time analysis\<close>

lemma fp_interference_spec:
  assumes "P \<noteq> 0" "unat L < 2 ^ 31 - 1" "unat C < 2 ^ 63"
  shows "fp_interference L P C =
    Some (of_nat (unat L div unat P * unat C + min (unat C) (unat L mod unat P)))"
proof -
  let ?q = "unat L div unat P"
  have q: "?q < 2 ^ 31 - 1" using assms(2) by (meson div_le_dividend le_less_trans)
  have F: "int_of_ulong (L div P) = int ?q"
  proof -
    have "uint (L div P) = int ?q" by (simp only: uint_nat unat_div)
    moreover have "(0::int) \<le> int ?q" "int ?q < 2 ^ 31" using q by simp_all
    moreover have "uint (ucast (L div P) :: 32 word) = take_bit 32 (uint (L div P))"
      by (simp add: unsigned_ucast_eq)
    moreover have "take_bit 32 (int ?q) = int ?q"
      by (rule take_bit_int_eq_self) (use q in simp_all)
    ultimately have "uint (ucast (L div P) :: 32 word) = int ?q" by simp
    moreover have "signed_take_bit 31 (int ?q) = int ?q"
      by (rule signed_take_bit_int_eq_self) (use q in simp_all)
    ultimately show ?thesis by (simp only: int_of_ulong_def sint_uint) simp
  qed
  have W: "(word_of_int (int ?q) :: u64) = of_nat ?q" by simp
  have PL: "unat P * ?q \<le> unat L" by (simp add: mult.commute)
  have m: "unat L = unat P * ?q + unat L mod unat P" by simp
  have sum: "unat (P * of_nat ?q + C) = unat P * ?q + unat C"
  proof -
    have "P * of_nat ?q + C = of_nat (unat P * ?q + unat C)" by simp
    moreover have "unat P * ?q + unat C < (2 ^ 31 - 1) + 2 ^ 63"
      using le_less_trans [OF PL assms(2)] assms(3) by (rule add_strict_mono)
    then have "unat P * ?q + unat C < 2 ^ 64" by (rule less_le_trans) simp
    ultimately show ?thesis by (simp only: unat_of_nat) simp
  qed
  have cmp: "P * of_nat ?q + C \<le> L \<longleftrightarrow> unat C \<le> unat L mod unat P"
    using m unfolding word_le_nat_alt sum by linarith
  show ?thesis
  proof (cases "unat C \<le> unat L mod unat P")
    case True
    then show ?thesis
      using assms(1) q F W cmp
      by (simp add: fp_interference_def div_ulong_def Let_def algebra_simps)
  next
    case False
    have "(of_nat (unat P * ?q + unat L mod unat P) :: u64) = L" by (simp only: mult_div_mod_eq) simp
    then have "P * of_nat ?q + of_nat (unat L mod unat P) = L"
      by (simp only: of_nat_add of_nat_mult) simp
    then have "L - of_nat ?q * (P - C) = of_nat (?q * unat C + unat L mod unat P)"
      by (simp add: algebra_simps)
    then show ?thesis
      using assms(1) q F W cmp False
      by (simp add: fp_interference_def div_ulong_def Let_def)
  qed
qed

text \<open>Every task has a period, and deadlines and execution times are below half an hour and
  2^62.\<close>

definition fp_ff_defined :: "kenv \<Rightarrow> core \<Rightarrow> rid \<Rightarrow> bool" where
  "fp_ff_defined k s rt \<longleftrightarrow>
     (\<forall>p \<in> insert rt (set (task_list s)).
        jiffies_to_usecs k (period (tcb s p)) \<noteq> 0 \<and>
        unat (jiffies_to_usecs k (deadline (tcb s p))) < 2 ^ 31 - 1 \<and>
        unat (runtime (tcb s p)) < 2 ^ 63)"

text \<open>The demand of one task in an interval: its full periods, and what fits of the last.\<close>

definition workload :: "kenv \<Rightarrow> core \<Rightarrow> rid \<Rightarrow> u64 \<Rightarrow> u64" where
  "workload k s p L =
     of_nat (unat L div unat (jiffies_to_usecs k (period (tcb s p))) * unat (runtime (tcb s p)) +
       min (unat (runtime (tcb s p))) (unat L mod unat (jiffies_to_usecs k (period (tcb s p)))))"

lemma interference_workload:
  "fp_ff_defined k s rt \<Longrightarrow> p \<in> insert rt (set (task_list s)) \<Longrightarrow> unat L < 2 ^ 31 - 1 \<Longrightarrow>
   fp_interference L (jiffies_to_usecs k (period (tcb s p))) (runtime (tcb s p)) = Some (workload k s p L)"
  unfolding workload_def by (rule fp_interference_spec) (auto simp: fp_ff_defined_def)

lemma rta_loop_spec:
  assumes d: "fp_ff_defined k s r" and L: "unat L < 2 ^ 31 - 1" and ps: "set ps \<subseteq> set (task_list s)"
    and o: "by_prio s ps"
  shows "rta_loop k s rt c L ps a =
    Some (a + (\<Sum>hp \<leftarrow> filter (\<lambda>hp. prio (tcb s rt) \<le> prio (tcb s hp) \<and> task_is_on_cpu s hp c \<and> hp \<noteq> rt) ps.
             workload k s hp L))"
  using ps o
proof (induction ps arbitrary: a)
  case (Cons p ps)
  show ?case
  proof (cases "prio (tcb s p) \<ge> prio (tcb s rt)")
    case True
    then show ?thesis
      using Cons interference_workload [OF d _ L, of p] by (simp add: algebra_simps)
  next
    case False
    then have "filter (\<lambda>hp. prio (tcb s rt) \<le> prio (tcb s hp) \<and> task_is_on_cpu s hp c \<and> hp \<noteq> rt) ps = []"
      using Cons.prems(2) by (auto simp: filter_empty_conv higher_prio_def)
    with False show ?thesis by simp
  qed
qed simp

text \<open>The response time of \<open>rt\<close> on a CPU: its own time, the demand of the other tasks there of
  at least its priority, and the overheads.\<close>

lemma response_time_spec:
  assumes d: "fp_ff_defined k s r" and g: "glist_wf s" and p: "p \<in> insert r (set (task_list s))"
  shows "\<exists>a b. sched_overhead_cpu k c (jiffies_to_usecs k (deadline (tcb s p))) s = Some a \<and>
     sched_overhead_task k p (jiffies_to_usecs k (deadline (tcb s p))) s = Some b \<and>
     response_time_analysis k s p c =
       Some ((\<Sum>hp \<leftarrow> filter (\<lambda>hp. prio (tcb s p) \<le> prio (tcb s hp) \<and> task_is_on_cpu s hp c \<and> hp \<noteq> p)
                (task_list s). workload k s hp (jiffies_to_usecs k (deadline (tcb s p)))) +
             runtime (tcb s p) + a + b)"
proof -
  let ?L = "jiffies_to_usecs k (deadline (tcb s p))"
  have L: "unat ?L < 2 ^ 31 - 1" using d p by (auto simp: fp_ff_defined_def)
  obtain x where "overhead_loop k c ?L s (task_list s) 0 = Some x"
    using d overhead_loop_total [of "task_list s" s c k ?L 0] by (auto simp: fp_ff_defined_def)
  moreover have "\<exists>b. sched_overhead_task k p ?L s = Some b"
    using d p by (auto simp: fp_ff_defined_def sched_overhead_task_def div_round_up_def Let_def)
  ultimately show ?thesis
    using rta_loop_spec [OF d L, of "task_list s" p c 0] g
    by (auto simp: response_time_analysis_def sched_overhead_cpu_def glist_wf_def Let_def)
qed

text \<open>A task keeps its deadline on a CPU with \<open>rt\<close> in addition.\<close>

definition keeps_deadline :: "kenv \<Rightarrow> core \<Rightarrow> rid \<Rightarrow> cpu \<Rightarrow> rid \<Rightarrow> bool" where
  "keeps_deadline k s rt c lp =
     (case response_time_analysis k s lp c of
        Some Rk \<Rightarrow> Rk + workload k s rt (jiffies_to_usecs k (deadline (tcb s lp)))
                    \<le> jiffies_to_usecs k (deadline (tcb s lp))
      | None \<Rightarrow> False)"

lemma lower_tasks_ok_spec:
  assumes d: "fp_ff_defined k s rt" and g: "glist_wf s" and ps: "set ps \<subseteq> set (task_list s)"
  shows "lower_tasks_ok k s rt c ps =
    Some (\<forall>lp \<in> set ps. task_is_on_cpu s lp c \<longrightarrow> keeps_deadline k s rt c lp)"
  using ps
proof (induction ps)
  case (Cons lp ps)
  have "unat (jiffies_to_usecs k (deadline (tcb s lp))) < 2 ^ 31 - 1"
    using d Cons.prems by (auto simp: fp_ff_defined_def)
  from interference_workload [OF d _ this] response_time_spec [OF d g, of lp c] Cons
  show ?case by (auto simp: keeps_deadline_def Let_def)
qed simp

lemma set_dropWhile_decreasing:
  fixes f :: "'a \<Rightarrow> int"
  shows "sorted_wrt (\<lambda>x y. f y \<le> f x) xs \<Longrightarrow> set (dropWhile (\<lambda>r. \<not> f r \<le> c) xs) = {x \<in> set xs. f x \<le> c}"
  by (induction xs) auto

lemma fp_ff_admits_spec:
  assumes d: "fp_ff_defined k s rt" and g: "glist_wf s"
  shows "fp_ff_admits k s rt c =
    Some ((\<exists>R. response_time_analysis k s rt c = Some R \<and> R \<le> jiffies_to_usecs k (deadline (tcb s rt))) \<and>
      (\<forall>lp \<in> set (task_list s). prio (tcb s lp) \<le> prio (tcb s rt) \<longrightarrow> task_is_on_cpu s lp c \<longrightarrow>
         keeps_deadline k s rt c lp))"
proof -
  let ?P = "\<lambda>r. \<not> prio (tcb s r) \<le> prio (tcb s rt)"
  have "by_prio s (task_list s)" using g by (simp add: glist_wf_def)
  then have "set (dropWhile ?P (task_list s)) = {lp \<in> set (task_list s). prio (tcb s lp) \<le> prio (tcb s rt)}"
    by (intro set_dropWhile_decreasing) (simp add: higher_prio_def not_less)
  moreover have "lower_tasks_ok k s rt c (dropWhile ?P (task_list s)) =
      Some (\<forall>lp \<in> set (dropWhile ?P (task_list s)). task_is_on_cpu s lp c \<longrightarrow> keeps_deadline k s rt c lp)"
    by (rule lower_tasks_ok_spec [OF d g]) (auto dest: set_dropWhileD)
  ultimately show ?thesis
    using response_time_spec [OF d g, of rt c]
    by (auto simp: fp_ff_admits_def)
qed

section \<open>Properties\<close>

text \<open>C7: the demand bound test of EDF-FF terminates and accepts a task exactly when its
  execution time is zero or, at every deadline up to the length of the test of every task of
  the CPU and of the task itself, the demand with the overhead is at most the length of the
  interval.\<close>

theorem dbf_test_decides_demand:
  assumes "ff_defined k s c rt"
    and "\<And>Lmax p. dbf_len k s c rt = Some Lmax \<Longrightarrow>
       p = rt \<or> p \<in> set (task_list s) \<and> task_is_on_cpu s p c \<Longrightarrow>
       unat Lmax + unat (period (tcb s p)) < 2 ^ 64"
  shows "\<exists>Lmax. dbf_len k s c rt = Some Lmax \<and>
     dbf_test k s c rt = Some (wcet (tcb s rt) = 0 \<or>
       (\<forall>p \<in> insert rt {p \<in> set (task_list s). task_is_on_cpu s p c}. \<forall>i.
          unat (deadline (tcb s p)) + i * unat (period (tcb s p)) \<le> unat Lmax \<longrightarrow>
          (\<exists>d. dbf_demand k s c rt (deadline (tcb s p) + of_nat i * period (tcb s p)) = Some d \<and>
               d \<le> deadline (tcb s p) + of_nat i * period (tcb s p))))"
proof -
  obtain Lmax where Lmax: "dbf_len k s c rt = Some Lmax" using dbf_len_total [OF assms(1)] by blast
  have "demand_ok k s c rt L \<longleftrightarrow> (\<exists>d. dbf_demand k s c rt L = Some d \<and> d \<le> L)" for L
    by (auto simp: demand_ok_def split: option.splits)
  then show ?thesis
    using Lmax dbf_test_spec [OF assms(1) Lmax] assms(2) [OF Lmax] by (simp add: deadlines_ok_def)
qed

text \<open>Two tasks of implicit deadlines 1000 and 1500 ticks and execution times 600 ms and 800 ms.\<close>

definition overload :: core where
  "overload = upd_task 6 (\<lambda>t. t\<lparr>period := 1500, deadline := 1500, wcet := 800000, cpu_id := 8,
       task := (task t)\<lparr>cpus_allowed := {0, 1}\<rparr>\<rparr>)
     (global_list_insert 5 (upd_task 5 (\<lambda>t. t\<lparr>period := 1000, deadline := 1000, wcet := 600000\<rparr>) boot))"

lemma overload_facts:
  "task_list overload = [5]" "cpu_id (tcb overload 5) = 0" "cpu_id (tcb overload 6) = 8"
  "period (tcb overload 5) = 1000" "deadline (tcb overload 5) = 1000" "wcet (tcb overload 5) = 600000"
  "period (tcb overload 6) = 1500" "deadline (tcb overload 6) = 1500" "wcet (tcb overload 6) = 800000"
  "migratory (tcb overload r) = False"
  "switch_cost overload = 20" "release_cost overload = 5" "migration_cost overload = 20"
  "cpus_allowed (task (tcb overload 6)) = {0, 1}"
  by (simp_all add: overload_def global_list_insert_def locked_global_list_insert_def boot_defs)

lemma kernel0_ticks:
  "usecs_to_jiffies kernel0 u = u div 1000" "jiffies_to_usecs kernel0 u = u * 1000"
  by (simp_all add: kernel0_def)

lemma overload_len: "dbf_len kernel0 overload 0 6 = Some 1500"
  by (simp add: dbf_len_def overload_facts task_is_on_cpu_def dbf_len_add_def util_def div_ulong_def
      kernel0_ticks max_ulong_def)

theorem dbf_test_decides_demand_witness:
  "\<exists>Lmax b. dbf_len kernel0 overload 0 6 = Some Lmax \<and> dbf_test kernel0 overload 0 6 = Some b"
proof -
  have "ff_defined kernel0 overload 0 6"
    by (auto simp: ff_defined_def overload_facts kernel0_ticks)
  moreover have "unat Lmax + unat (period (tcb overload p)) < 2 ^ 64"
    if "dbf_len kernel0 overload 0 6 = Some Lmax" "p = 6 \<or> p \<in> set (task_list overload) \<and> task_is_on_cpu overload p 0"
    for Lmax p
    using that by (auto simp: overload_len overload_facts)
  ultimately show ?thesis using dbf_test_decides_demand [of kernel0 overload 0 6] by blast
qed

text \<open>a CPU whose utilisation is 100 percent or more is tested only up to the longest
  deadline, which need not show the overload: the test puts a task of 53 percent beside one of
  60 percent.\<close>

theorem dbf_test_admits_overload:
  "dbf_test kernel0 overload 0 6 = Some True \<and> util_cpu kernel0 overload 0 = Some 60 \<and>
   util kernel0 overload 6 = Some 53"
proof -
  have demand: "dbf_demand kernel0 overload 0 6 1000 = Some 600"
    "dbf_demand kernel0 overload 0 6 1500 = Some 1400"
    by (simp_all add: dbf_demand_def dbf_cpu_def dbf_task_def ff_overhead_def sched_overhead_cpu_def
        sched_overhead_task_def div_round_up_def overload_facts task_is_on_cpu_def kernel0_ticks
        div_ulong_def max_ulong_def Let_def)
  have "dbf_scan kernel0 overload 0 6 1000 1500 1000 = Some True"
    by (subst dbf_scan.simps, simp add: demand, subst dbf_scan.simps, simp)
  moreover have "dbf_scan kernel0 overload 0 6 1500 1500 1500 = Some True"
    by (subst dbf_scan.simps, simp add: demand, subst dbf_scan.simps, simp)
  ultimately show ?thesis
    by (simp add: dbf_test_def overload_len overload_facts task_is_on_cpu_def util_cpu_def util_def
        div_ulong_def kernel0_ticks)
qed

text \<open>Both first-fit loops return the first allowed CPU that accepts the task, and
  \<open>RESCH_CPU_UNDEFINED\<close> exactly when every allowed CPU refuses it.\<close>

lemma for_each_cpu:
  assumes "\<forall>c < NR_RT_CPUS. c \<in> A \<longrightarrow> f c \<noteq> None"
  shows "\<exists>r. for_each (\<lambda>c. if c \<notin> A then Some None else do { t \<leftarrow> f c; Some (if t then Some c else None) })
       [0..<NR_RT_CPUS] RESCH_CPU_UNDEFINED = Some r \<and>
     (r < NR_RT_CPUS \<and> r \<in> A \<and> f r = Some True \<and> (\<forall>c < r. c \<in> A \<longrightarrow> f c = Some False) \<or>
      r = RESCH_CPU_UNDEFINED \<and> (\<forall>c < NR_RT_CPUS. c \<in> A \<longrightarrow> f c = Some False))"
proof -
  let ?P = "\<lambda>c. c \<in> A \<and> f c = Some True"
  have body: "\<forall>c \<in> set [0..<NR_RT_CPUS]. (if c \<notin> A then Some None
      else do { t \<leftarrow> f c; Some (if t then Some c else None) }) = Some (if ?P c then Some c else None)"
  proof
    fix c assume "c \<in> set [0..<NR_RT_CPUS]"
    then show "(if c \<notin> A then Some None else do { t \<leftarrow> f c; Some (if t then Some c else None) }) =
        Some (if ?P c then Some c else None)"
      using assms by (cases "f c") auto
  qed
  have false: "f c = Some False" if "c < NR_RT_CPUS" "c \<in> A" "\<not> ?P c" for c
    using that assms by (cases "f c") auto
  show ?thesis
  proof (cases "find ?P [0..<NR_RT_CPUS]")
    case None
    then have "\<forall>c < NR_RT_CPUS. c \<in> A \<longrightarrow> f c = Some False" using false by (auto simp: find_None_iff)
    then show ?thesis using for_each_find [OF body] None by auto
  next
    case (Some r)
    then have "r < NR_RT_CPUS" "?P r" "\<forall>c<r. \<not> ?P c" by (simp_all only: find_Some_upt_iff) auto
    then show ?thesis using for_each_find [OF body] Some false by auto
  qed
qed

lemma cpu_first_fit_spec:
  "\<forall>c < NR_RT_CPUS. c \<in> cpus_allowed (task (tcb s rt)) \<longrightarrow> dbf_test k s c rt \<noteq> None \<Longrightarrow>
   \<exists>r. cpu_first_fit k s rt = Some r \<and>
     (r < NR_RT_CPUS \<and> r \<in> cpus_allowed (task (tcb s rt)) \<and> dbf_test k s r rt = Some True \<and>
        (\<forall>c < r. c \<in> cpus_allowed (task (tcb s rt)) \<longrightarrow> dbf_test k s c rt = Some False) \<or>
      r = RESCH_CPU_UNDEFINED \<and>
        (\<forall>c < NR_RT_CPUS. c \<in> cpus_allowed (task (tcb s rt)) \<longrightarrow> dbf_test k s c rt = Some False))"
  unfolding cpu_first_fit_def by (rule for_each_cpu)

text \<open>C8: FP-FF returns the first allowed CPU on which the response time of the task, with the
  overheads, is within its deadline and every task of at most its priority there still meets
  its own deadline, and \<open>RESCH_CPU_UNDEFINED\<close> exactly when there is none.\<close>

theorem fp_ff_first_schedulable_cpu:
  assumes "fp_ff_defined k s rt" "glist_wf s"
  defines "fits \<equiv> \<lambda>c. c \<in> cpus_allowed (task (tcb s rt)) \<and>
      (\<exists>R. response_time_analysis k s rt c = Some R \<and> R \<le> jiffies_to_usecs k (deadline (tcb s rt))) \<and>
      (\<forall>lp \<in> set (task_list s). prio (tcb s lp) \<le> prio (tcb s rt) \<longrightarrow> task_is_on_cpu s lp c \<longrightarrow>
         (\<exists>R. response_time_analysis k s lp c = Some R \<and>
              R + workload k s rt (jiffies_to_usecs k (deadline (tcb s lp)))
                \<le> jiffies_to_usecs k (deadline (tcb s lp))))"
  shows "\<exists>c. fp_ff_partition k s rt = Some c \<and>
     (c < NR_RT_CPUS \<and> fits c \<and> (\<forall>c' < c. \<not> fits c') \<or>
      c = RESCH_CPU_UNDEFINED \<and> (\<forall>c' < NR_RT_CPUS. \<not> fits c'))"
proof -
  let ?A = "cpus_allowed (task (tcb s rt))"
  have adm: "c \<in> ?A \<Longrightarrow> fp_ff_admits k s rt c = Some (fits c)" for c
  proof -
    have "keeps_deadline k s rt c lp \<longleftrightarrow> (\<exists>R. response_time_analysis k s lp c = Some R \<and>
              R + workload k s rt (jiffies_to_usecs k (deadline (tcb s lp)))
                \<le> jiffies_to_usecs k (deadline (tcb s lp)))" for lp
      by (auto simp: keeps_deadline_def split: option.splits)
    then show "c \<in> ?A \<Longrightarrow> fp_ff_admits k s rt c = Some (fits c)"
      using fp_ff_admits_spec [OF assms(1,2), of c] by (simp add: fits_def)
  qed
  have "c \<notin> ?A \<Longrightarrow> \<not> fits c" for c by (simp add: fits_def)
  moreover obtain r where "fp_ff_partition k s rt = Some r"
    "r < NR_RT_CPUS \<and> r \<in> ?A \<and> fp_ff_admits k s rt r = Some True \<and>
       (\<forall>c < r. c \<in> ?A \<longrightarrow> fp_ff_admits k s rt c = Some False) \<or>
     r = RESCH_CPU_UNDEFINED \<and> (\<forall>c < NR_RT_CPUS. c \<in> ?A \<longrightarrow> fp_ff_admits k s rt c = Some False)"
    using for_each_cpu [of ?A "fp_ff_admits k s rt"] adm unfolding fp_ff_partition_def by auto
  ultimately show ?thesis using adm by (intro exI [of _ r]) (auto simp: fits_def)
qed

theorem fp_ff_first_schedulable_cpu_witness:
  "\<exists>c. fp_ff_partition kernel0 overload 6 = Some c"
proof -
  have "fp_ff_defined kernel0 overload 6"
    by (auto simp: fp_ff_defined_def overload_facts kernel0_ticks) (simp_all add: overload_def boot_defs global_list_insert_def locked_global_list_insert_def)
  moreover have "glist_wf overload"
    by (simp add: glist_wf_def glist_links_def overload_facts higher_prio_def)
       (simp add: overload_def global_list_insert_def locked_global_list_insert_def boot_defs)
  ultimately show ?thesis using fp_ff_first_schedulable_cpu [of kernel0 overload 6] by blast
qed

text \<open>\<open>overhead\<close> of EDF-FF hands an interval in jiffies to functions that expect microseconds:
  an interval that is at most the period's number of microseconds counts as one job.\<close>

lemma ff_overhead_counts_one_job:
  assumes "0 < L" "L \<le> jiffies_to_usecs k (period (tcb s rt))"
  shows "sched_overhead_task k rt L s =
    Some (switch_cost s + release_cost s + (if migratory (tcb s rt) then migration_cost s else 0))"
proof -
  let ?P = "jiffies_to_usecs k (period (tcb s rt))"
  have nz: "?P \<noteq> 0" using assms by auto
  have "div_round_up L ?P = Some 1"
  proof (cases "L = ?P")
    case True
    have "0 < unat ?P" using nz by (simp add: unat_gt_0)
    then have "unat (?P div ?P) = 1" by (simp add: unat_div)
    then have "?P div ?P = 1" by (simp add: word_unat_eq_iff)
    then show ?thesis using nz True by (simp add: div_round_up_def)
  next
    case False
    with assms(2) have "L < ?P" by simp
    then have "L mod ?P = L" "L div ?P = 0" by (simp_all add: div_word_less mod_word_less)
    moreover from this assms(1) have "L mod ?P \<noteq> 0" by simp
    ultimately show ?thesis using nz by (simp add: div_round_up_def)
  qed
  then show ?thesis by (simp add: sched_overhead_task_def Let_def)
qed

end
