(* ===== verification/Hybrid_FP.thy ===== *)
theory Hybrid_FP
  imports Partition
begin

text \<open>
  FP-PM (\<open>plugin/hybrid/fp-pm/fp-pm.c\<close>): fixed priority scheduling that partitions tasks
  and splits a task no CPU accepts over several CPUs. A split task runs on each of its
  CPUs for the time it was given there; a timer then hands it to the migration thread of
  the next CPU.

  The plugin's state is that of its static data: one control block per task, the flags of
  the CPUs, and for each CPU the list and the state of the migration thread.
\<close>

definition FPPM_PRIO_MIGRATORY :: int where
  [resch_consts]: "FPPM_PRIO_MIGRATORY = RESCH_PRIO_KTHREAD - 1"

section \<open>State\<close>

text \<open>\<open>migration_hrtimer\<close> is the interval in nanoseconds it was armed with.\<close>

record fppm_task =
  first_cpu :: cpu
  last_cpu :: cpu
  ft_rt :: "rid option"
  ft_runtime :: "cpu \<Rightarrow> u64"
  migration_hrtimer :: "u64 option"

record fppm =
  fppm_task :: "rid \<Rightarrow> fppm_task"
  cpu_available :: "cpu \<Rightarrow> bool"
  kthread_list :: "cpu \<Rightarrow> rid list"
  kthread_runs :: "cpu \<Rightarrow> bool"

definition upd_ft :: "rid \<Rightarrow> (fppm_task \<Rightarrow> fppm_task) \<Rightarrow> fppm \<Rightarrow> fppm" where
  "upd_ft r f w = w\<lparr>fppm_task := (fppm_task w)(r := f (fppm_task w r))\<rparr>"

lemma upd_ft_simps [simp]:
  "fppm_task (upd_ft r f w) x = (if x = r then f (fppm_task w r) else fppm_task w x)"
  "cpu_available (upd_ft r f w) = cpu_available w" "kthread_list (upd_ft r f w) = kthread_list w"
  "kthread_runs (upd_ft r f w) = kthread_runs w"
  by (simp_all add: upd_ft_def)

text \<open>The static data: CPUs are available, everything else is zero.\<close>

definition fppm0 :: fppm where
  "fppm0 = \<lparr>fppm_task = \<lambda>_. \<lparr>first_cpu = 0, last_cpu = 0, ft_rt = None, ft_runtime = \<lambda>_. 0, migration_hrtimer = None\<rparr>,
     cpu_available = \<lambda>_. True, kthread_list = \<lambda>_. [], kthread_runs = \<lambda>_. False\<rparr>"

definition task_is_split :: "fppm \<Rightarrow> rid \<Rightarrow> bool" where
  "task_is_split w r \<longleftrightarrow> first_cpu (fppm_task w r) \<noteq> last_cpu (fppm_task w r)"

definition split_is_on_cpu :: "fppm \<Rightarrow> rid \<Rightarrow> cpu \<Rightarrow> bool" where
  "split_is_on_cpu w r c \<longleftrightarrow> ft_runtime (fppm_task w r) c > 0"

definition fppm_task_is_on_cpu :: "core \<Rightarrow> fppm \<Rightarrow> rid \<Rightarrow> cpu \<Rightarrow> bool" where
  "fppm_task_is_on_cpu s w r c \<longleftrightarrow> task_is_on_cpu s r c \<or> split_is_on_cpu w r c"

definition clear_split_task :: "rid \<Rightarrow> fppm \<Rightarrow> fppm" where
  "clear_split_task r =
     upd_ft r (\<lambda>ft. ft\<lparr>first_cpu := RESCH_CPU_UNDEFINED, last_cpu := RESCH_CPU_UNDEFINED, ft_rt := None,
                       ft_runtime := \<lambda>c. if c < NR_RT_CPUS then 0 else ft_runtime ft c\<rparr>)"

section \<open>Response times\<close>

text \<open>
  The walk over the tasks of at least the priority of \<open>rt\<close>. A split task counts with its
  share on the CPU, which is no longer available unless it is the last of that task.
\<close>

fun fppm_rta_loop ::
  "kenv \<Rightarrow> core \<Rightarrow> rid \<Rightarrow> cpu \<Rightarrow> u64 \<Rightarrow> rid list \<Rightarrow> fppm \<Rightarrow> u64 \<Rightarrow> (u64 \<times> fppm) option" where
  "fppm_rta_loop k s rt c L [] w ret = Some (ret, w)"
| "fppm_rta_loop k s rt c L (hp # hps) w ret =
     (if prio (tcb s hp) \<ge> prio (tcb s rt)
      then
        let ft = fppm_task w hp;
            Ck = (if split_is_on_cpu w hp c then ft_runtime ft c
                  else if task_is_on_cpu s hp c \<and> hp \<noteq> rt then runtime (tcb s hp) else 0);
            w = (if split_is_on_cpu w hp c \<and> last_cpu ft \<noteq> c
                 then w\<lparr>cpu_available := (cpu_available w)(c := False)\<rparr> else w)
        in if Ck \<noteq> 0
           then do {
             i \<leftarrow> fp_interference L (jiffies_to_usecs k (period (tcb s hp))) Ck;
             fppm_rta_loop k s rt c L hps w (ret + i)
           }
           else fppm_rta_loop k s rt c L hps w ret
      else Some (ret, w))"

definition fppm_response_time_analysis :: "kenv \<Rightarrow> core \<Rightarrow> rid \<Rightarrow> cpu \<Rightarrow> fppm \<Rightarrow> (u64 \<times> fppm) option" where
  "fppm_response_time_analysis k s rt c w = do {
     let L = jiffies_to_usecs k (deadline (tcb s rt));
     (ret, w) \<leftarrow> fppm_rta_loop k s rt c L (task_list s) w 0;
     a \<leftarrow> sched_overhead_cpu k c L s;
     b \<leftarrow> sched_overhead_task k rt L s;
     Some (ret + runtime (tcb s rt) + a + b, w)
   }"

section \<open>Partitioning\<close>

fun fppm_lower_ok :: "kenv \<Rightarrow> core \<Rightarrow> rid \<Rightarrow> cpu \<Rightarrow> rid list \<Rightarrow> fppm \<Rightarrow> (bool \<times> fppm) option" where
  "fppm_lower_ok k s rt c [] w = Some (True, w)"
| "fppm_lower_ok k s rt c (lp # lps) w =
     (if \<not> fppm_task_is_on_cpu s w lp c then fppm_lower_ok k s rt c lps w
      else do {
        (Rk, w) \<leftarrow> fppm_response_time_analysis k s lp c w;
        let Dk = jiffies_to_usecs k (deadline (tcb s lp));
        i \<leftarrow> fp_interference Dk (jiffies_to_usecs k (period (tcb s rt))) (runtime (tcb s rt));
        if Rk + i > Dk then Some (False, w) else fppm_lower_ok k s rt c lps w
      })"

fun fppm_partition_loop :: "kenv \<Rightarrow> core \<Rightarrow> rid \<Rightarrow> cpu list \<Rightarrow> fppm \<Rightarrow> (cpu \<times> fppm) option" where
  "fppm_partition_loop k s rt [] w = Some (RESCH_CPU_UNDEFINED, w)"
| "fppm_partition_loop k s rt (c # cs) w =
     (if c \<notin> cpus_allowed (task (tcb s rt)) then fppm_partition_loop k s rt cs w
      else do {
        (Ri, w) \<leftarrow> fppm_response_time_analysis k s rt c w;
        if Ri > jiffies_to_usecs k (deadline (tcb s rt)) then fppm_partition_loop k s rt cs w
        else do {
          (ok, w) \<leftarrow> fppm_lower_ok k s rt c
             (dropWhile (\<lambda>r. \<not> prio (tcb s r) \<le> prio (tcb s rt)) (task_list s)) w;
          if ok then Some (c, w) else fppm_partition_loop k s rt cs w
        }
      })"

definition fppm_partition :: "kenv \<Rightarrow> core \<Rightarrow> rid \<Rightarrow> fppm \<Rightarrow> (cpu \<times> fppm) option" where
  "fppm_partition k s rt w = fppm_partition_loop k s rt [0..<NR_RT_CPUS] w"

section \<open>Splitting\<close>

text \<open>
  The bound on the share of a task of period \<open>Pi\<close> that a task of deadline \<open>Dk\<close> and
  response time \<open>Rk\<close> leaves. \<open>F\<close> is an \<open>int\<close>, the rest is unsigned arithmetic.
\<close>

definition split_bound :: "u64 \<Rightarrow> u64 \<Rightarrow> u64 \<Rightarrow> u64 option" where
  "split_bound Dk Rk Pi = do {
     q \<leftarrow> div_ulong Dk Pi;
     let F = int_of_ulong q;
     if F = 0 then Some (Dk - Rk)
     else do {
       guard_c (F < 2 ^ 31 - 1);
       if word_of_int F * (Dk - Rk) \<ge> (word_of_int F * Pi - Rk) * word_of_int (F + 1)
       then div_ulong (Dk - Rk) (word_of_int (F + 1))
       else do { r \<leftarrow> div_ulong Rk (word_of_int F); Some (Pi - r) }
     }
   }"

text \<open>
  The share on one CPU: the least bound of its tasks, nothing when one of them misses its
  deadline. A least bound of zero is taken for none so far.
\<close>

fun split_capacity :: "kenv \<Rightarrow> core \<Rightarrow> rid \<Rightarrow> cpu \<Rightarrow> rid list \<Rightarrow> fppm \<Rightarrow> u64 \<Rightarrow> (u64 \<times> fppm) option" where
  "split_capacity k s rt c [] w acc = Some (acc, w)"
| "split_capacity k s rt c (lp # lps) w acc =
     (if \<not> fppm_task_is_on_cpu s w lp c then split_capacity k s rt c lps w acc
      else do {
        (Rk, w) \<leftarrow> fppm_response_time_analysis k s lp c w;
        let Dk = jiffies_to_usecs k (deadline (tcb s lp));
        if Dk < Rk then Some (0, w)
        else do {
          tmp \<leftarrow> split_bound Dk Rk (jiffies_to_usecs k (period (tcb s rt)));
          split_capacity k s rt c lps w (if acc > tmp \<or> acc = 0 then tmp else acc)
        }
      })"

fun split_loop :: "kenv \<Rightarrow> core \<Rightarrow> rid \<Rightarrow> cpu list \<Rightarrow> u64 \<Rightarrow> fppm \<Rightarrow> fppm option" where
  "split_loop k s rt [] summed w = Some w"
| "split_loop k s rt (c # cs) summed w =
     (if \<not> cpu_available w c then split_loop k s rt cs summed w
      else do {
        (share, w) \<leftarrow> split_capacity k s rt c (task_list s) w 0;
        let w = upd_ft rt (\<lambda>ft. ft\<lparr>ft_runtime := (ft_runtime ft)(c := share)\<rparr>) w;
        let summed = summed + share;
        let w = (if first_cpu (fppm_task w rt) = RESCH_CPU_UNDEFINED \<and> share > 0
                 then upd_ft rt (\<lambda>ft. ft\<lparr>first_cpu := c\<rparr>) w else w);
        if summed \<ge> runtime (tcb s rt)
        then Some (upd_ft rt (\<lambda>ft. ft\<lparr>ft_runtime := (ft_runtime ft)(c := ft_runtime ft c - (summed - runtime (tcb s rt))),
                                      last_cpu := c\<rparr>) w)
        else split_loop k s rt cs summed w
      })"

definition fppm_split :: "kenv \<Rightarrow> core \<Rightarrow> rid \<Rightarrow> fppm \<Rightarrow> (cpu \<times> fppm) option" where
  "fppm_split k s rt w = do {
     w \<leftarrow> split_loop k s rt [0..<NR_RT_CPUS] 0 w;
     Some (if last_cpu (fppm_task w rt) \<noteq> RESCH_CPU_UNDEFINED
           then (first_cpu (fppm_task w rt), upd_ft rt (\<lambda>ft. ft\<lparr>ft_rt := Some rt\<rparr>) w)
           else (RESCH_CPU_UNDEFINED, clear_split_task rt w))
   }"

section \<open>The hooks\<close>

definition fppm_task_run :: "kenv \<Rightarrow> fppm hook" where
  "fppm_task_run k rt = (\<lambda>(s, w).
     if period (tcb s rt) = 0 then Some (s, w)
     else do {
       let w = clear_split_task rt w;
       let w = w\<lparr>cpu_available := \<lambda>c. if c < NR_RT_CPUS then True else cpu_available w c\<rparr>;
       (dst, w) \<leftarrow> fppm_partition k s rt w;
       (dst, w) \<leftarrow> (if dst \<noteq> RESCH_CPU_UNDEFINED then Some (dst, w) else fppm_split k s rt w);
       let s = upd_task rt (\<lambda>t. t\<lparr>cpu_id := dst\<rparr>) s;
       if dst \<noteq> RESCH_CPU_UNDEFINED
       then do {
         s \<leftarrow> (if task_is_split w rt
               then do { r \<leftarrow> ft_rt (fppm_task w rt);
                         map_option snd (set_scheduler k r RESCH_SCHED_FP FPPM_PRIO_MIGRATORY s) }
               else if policy (tcb s rt) \<noteq> RESCH_SCHED_FP
               then map_option snd (set_scheduler k rt RESCH_SCHED_FP (prio (tcb s rt)) s)
               else Some s);
         s \<leftarrow> migrate_task k rt dst (upd_task rt (\<lambda>t. t\<lparr>migratory := False\<rparr>) s);
         Some (s, w)
       }
       else do {
         (ok, s) \<leftarrow> set_scheduler k rt RESCH_SCHED_FAIR 0 s;
         Some (s, w)
       }
     })"

definition fppm_task_exit :: "fppm hook" where
  "fppm_task_exit rt = (\<lambda>(s, w). Some (s, clear_split_task rt w))"

definition start_migration_timer :: "rid \<Rightarrow> cpu \<Rightarrow> fppm \<Rightarrow> fppm" where
  "start_migration_timer rt c =
     upd_ft rt (\<lambda>ft. ft\<lparr>migration_hrtimer := Some (ft_runtime ft c * 1000)\<rparr>)"

definition fppm_job_start :: "kenv \<Rightarrow> fppm hook" where
  "fppm_job_start k rt = (\<lambda>(s, w).
     Some (s, if task_is_split w rt then start_migration_timer rt (smp_processor_id k) w else w))"

definition fppm_job_complete :: "kenv \<Rightarrow> fppm hook" where
  "fppm_job_complete k rt = (\<lambda>(s, w).
     if task_is_split w rt
     then do {
       let w = upd_ft rt (\<lambda>ft. ft\<lparr>migration_hrtimer := None\<rparr>) w;
       s \<leftarrow> (if smp_processor_id k \<noteq> first_cpu (fppm_task w rt)
             then migrate_task k rt (first_cpu (fppm_task w rt)) s else Some s);
       Some (s, w)
     }
     else Some (s, w))"

definition fppm_plugin :: "kenv \<Rightarrow> fppm plugin_struct" where
  "fppm_plugin k = install_scheduler (Some (fppm_task_run k)) (Some fppm_task_exit)
     (Some (fppm_job_start k)) (Some (fppm_job_complete k))"

section \<open>Migration\<close>

text \<open>
  The request puts the task on the list of the destination's thread, wakes the thread and
  makes the task give up its CPU. An entry is linked once: linking it again while it is
  on a list is undefined.
\<close>

definition request_migration :: "rid \<Rightarrow> cpu \<Rightarrow> fppm sys \<Rightarrow> fppm sys option" where
  "request_migration ft dst = (\<lambda>(s, w). do {
     guard_c (list_all (\<lambda>c. ft \<notin> set (kthread_list w c)) [0..<NR_RT_CPUS]);
     let w = w\<lparr>kthread_list := (kthread_list w)(dst := kthread_list w dst @ [ft]),
               kthread_runs := (kthread_runs w)(dst := True)\<rparr>;
     rt \<leftarrow> ft_rt (fppm_task w ft);
     let s = set_tsk_need_resched rt (set_tstate rt TASK_UNINTERRUPTIBLE s);
     hp \<leftarrow> active_highest_prio_task dst s;
     Some (case hp of None \<Rightarrow> s | Some h \<Rightarrow> set_tsk_need_resched h s, w)
   })"

text \<open>The timer's handler, on the CPU it runs on: the next CPU with a share of the task.\<close>

definition next_share :: "fppm \<Rightarrow> rid \<Rightarrow> cpu \<Rightarrow> cpu option" where
  "next_share w ft c = find (\<lambda>c'. ft_runtime (fppm_task w ft) c' > 0) [c + 1..<NR_RT_CPUS]"

definition migration_timer :: "cpu \<Rightarrow> rid \<Rightarrow> fppm sys \<Rightarrow> fppm sys option" where
  "migration_timer here ft = (\<lambda>(s, w).
     let w = upd_ft ft (\<lambda>f. f\<lparr>migration_hrtimer := None\<rparr>) w
     in case next_share w ft here of
          None \<Rightarrow> Some (s, w)
        | Some c \<Rightarrow> request_migration ft c (s, w))"

text \<open>One round of the migration thread of a CPU.\<close>

definition migration_thread :: "kenv \<Rightarrow> cpu \<Rightarrow> fppm sys \<Rightarrow> fppm sys option" where
  "migration_thread k c = (\<lambda>(s, w).
     case kthread_list w c of
       [] \<Rightarrow> Some (s, w\<lparr>kthread_runs := (kthread_runs w)(c := False)\<rparr>)
     | ft # fts \<Rightarrow> do {
         let w = w\<lparr>kthread_list := (kthread_list w)(c := fts)\<rparr>;
         rt \<leftarrow> ft_rt (fppm_task w ft);
         s \<leftarrow> migrate_task k rt c s;
         let s = wake_up_process rt s;
         Some (s, if last_cpu (fppm_task w ft) \<noteq> c then start_migration_timer ft c w else w)
       })"

definition migration_thread_init :: "fppm \<Rightarrow> fppm" where
  "migration_thread_init w =
     w\<lparr>kthread_list := \<lambda>c. if c < NR_RT_CPUS then [] else kthread_list w c,
       kthread_runs := \<lambda>c. c < NR_RT_CPUS \<or> kthread_runs w c\<rparr>"

section \<open>The bound on a share\<close>

lemma int_of_ulong_small:
  assumes "unat q < 2 ^ 31"
  shows "int_of_ulong q = int (unat q)"
proof -
  define n where "n = unat q"
  have n: "uint q = int n" by (simp only: uint_nat n_def)
  have b: "(0 :: int) \<le> int n" "int n < 2 ^ 31" "int n < 2 ^ 32" using assms by (simp_all add: n_def [symmetric])
  have "uint (ucast q :: 32 word) = take_bit 32 (int n)" unfolding n [symmetric] by (simp add: unsigned_ucast_eq)
  also have "\<dots> = int n" by (rule take_bit_int_eq_self) (use b in simp_all)
  finally have u: "uint (ucast q :: 32 word) = int n" .
  have "signed_take_bit 31 (int n) = int n"
    by (rule signed_take_bit_int_eq_self) (use b in simp_all)
  with u have "int_of_ulong q = int n" by (simp only: int_of_ulong_def sint_uint) simp
  then show ?thesis by (simp only: n_def)
qed

lemma unat_mult_small: "unat x * unat y < 2 ^ 64 \<Longrightarrow> unat (x * y :: u64) = unat x * unat y"
  using unat_mult_lem [of x y] by simp

text \<open>The bound over natural numbers, when the subtraction in the comparison does not wrap.\<close>

definition bound_nat :: "nat \<Rightarrow> nat \<Rightarrow> nat \<Rightarrow> nat" where
  "bound_nat D R P =
     (let F = D div P in
      if F = 0 then D - R
      else if F * (D - R) \<ge> (F * P - R) * (F + 1) then (D - R) div (F + 1)
      else P - R div F)"

lemma small_products:
  fixes D F x y :: nat
  assumes "D < 2 ^ 31 - 1" "F \<le> D" "x \<le> D" "y \<le> D"
  shows "F * x < 2 ^ 64" "y * (F + 1) < 2 ^ 64"
proof -
  have "F * x \<le> 2 ^ 31 * 2 ^ 31" using assms by (intro mult_mono) simp_all
  then show "F * x < 2 ^ 64" by simp
  have "y * (F + 1) \<le> 2 ^ 31 * 2 ^ 31" using assms by (intro mult_mono) simp_all
  then show "y * (F + 1) < 2 ^ 64" by simp
qed

lemma split_bound_nat:
  assumes "Pi \<noteq> 0" "unat Dk < 2 ^ 31 - 1" "Rk \<le> Dk"
    and nowrap: "unat Dk div unat Pi = 0 \<or> unat Rk \<le> unat Dk div unat Pi * unat Pi"
  shows "\<exists>x. split_bound Dk Rk Pi = Some x \<and> unat x = bound_nat (unat Dk) (unat Rk) (unat Pi)"
proof -
  define D R P F where "D = unat Dk" and "R = unat Rk" and "P = unat Pi" and "F = unat Dk div unat Pi"
  have small: "D < 2 ^ 31 - 1" "R \<le> D" "F \<le> D" "F * P \<le> D"
    using assms(2,3) by (simp_all add: D_def R_def F_def P_def word_le_nat_alt)
  have q: "unat (Dk div Pi) = F" by (simp add: unat_div F_def)
  then have i: "int_of_ulong (Dk div Pi) = int F" using small int_of_ulong_small [of "Dk div Pi"] by simp
  have d: "unat (Dk - Rk) = D - R" using assms(3) by (simp add: unat_sub D_def R_def)
  show ?thesis
  proof (cases "F = 0")
    case True
    then show ?thesis
      using assms(1) i d by (simp add: split_bound_def div_ulong_def bound_nat_def D_def R_def P_def F_def Let_def)
  next
    case False
    have f: "unat (word_of_nat F :: u64) = F" "unat (word_of_nat F + 1 :: u64) = F + 1"
    proof -
      have "unat (word_of_nat F :: u64) = F" "unat (word_of_nat (F + 1) :: u64) = F + 1"
        using small by (simp_all only: unat_of_nat) simp_all
      then show "unat (word_of_nat F :: u64) = F" "unat (word_of_nat F + 1 :: u64) = F + 1"
        by (simp_all add: add.commute)
    qed
    have R: "R \<le> F * P" using nowrap False by (simp add: R_def F_def P_def)
    note p = small_products [OF small(1,3)]
    have fp: "unat (word_of_nat F * Pi) = F * P"
      using small(1,4) f(1) by (subst unat_mult_small) (simp_all add: P_def)
    have m1: "unat (word_of_nat F * (Dk - Rk)) = F * (D - R)"
      using p(1) [of "D - R" 0] f(1) d by (subst unat_mult_small) simp_all
    have s: "unat (word_of_nat F * Pi - Rk) = F * P - R"
      using R fp by (subst unat_sub) (simp_all add: word_le_nat_alt R_def)
    have m2: "unat ((word_of_nat F * Pi - Rk) * (word_of_nat F + 1)) = (F * P - R) * (F + 1)"
      using p(2) [of 0 "F * P - R"] small(4) f(2) s by (subst unat_mult_small) simp_all
    have nz: "(word_of_nat F :: u64) \<noteq> 0" "(word_of_nat F + 1 :: u64) \<noteq> 0" using f False by auto
    have dv: "unat ((Dk - Rk) div (word_of_nat F + 1)) = (D - R) div (F + 1)"
      "unat (Rk div word_of_nat F) = R div F" using d f by (simp_all only: unat_div R_def)
    have le: "R div F \<le> P" using R False by (metis div_le_mono nonzero_mult_div_cancel_left)
    have ps: "unat (Pi - Rk div word_of_nat F) = P - R div F"
      using le dv(2) by (subst unat_sub) (simp_all add: word_le_nat_alt P_def)
    define M where "M = (F * P - R) * (F + 1)"
    have "split_bound Dk Rk Pi =
      (if M \<le> F * (D - R) then Some ((Dk - Rk) div (word_of_nat F + 1))
       else Some (Pi - Rk div word_of_nat F))"
      using assms(1) i small(1,3) False nz m1 m2 [folded M_def]
      by (simp add: split_bound_def div_ulong_def word_le_nat_alt Let_def)
    moreover have "bound_nat D R P = (if M \<le> F * (D - R) then (D - R) div (F + 1) else P - R div F)"
      unfolding bound_nat_def M_def Let_def using False by (simp only: D_def P_def F_def if_False)
    ultimately show ?thesis using dv(1) ps by (auto simp flip: D_def R_def P_def)
  qed
qed

text \<open>
  What the bound guarantees: with the share it allows, the demand on the CPU exceeds the
  deadline of the task by less than the number of the share's periods before it.
\<close>

definition share_demand :: "nat \<Rightarrow> nat \<Rightarrow> nat \<Rightarrow> nat" where
  "share_demand D P x = D div P * x + min x (D mod P)"

lemma bound_nat_demand:
  assumes "R \<le> D" "0 < P" "D div P = 0 \<or> R \<le> D div P * P"
  shows "R + share_demand D P (bound_nat D R P) \<le> D + (if D div P = 0 then 0 else R mod (D div P))"
proof (cases "D div P = 0")
  case True
  then show ?thesis using assms(1) by (simp add: bound_nat_def share_demand_def)
next
  case False
  define F x where "F = D div P" and "x = bound_nat D R P"
  have F: "0 < F" "R \<le> F * P" using False assms(3) by (auto simp: F_def)
  have m: "F * P + D mod P = D" by (simp add: F_def)
  show ?thesis
  proof (cases "F * (D - R) \<ge> (F * P - R) * (F + 1)")
    case True
    then have "x = (D - R) div (F + 1)"
      unfolding x_def bound_nat_def Let_def F_def using False by (simp only: if_False if_True)
    then have "x * (F + 1) \<le> D - R" by (simp only: div_times_less_eq_dividend)
    moreover have "share_demand D P x \<le> x * (F + 1)" by (simp add: share_demand_def F_def algebra_simps)
    ultimately show ?thesis using assms(1) by (simp add: x_def)
  next
    case C: False
    then have x: "x = P - R div F"
      unfolding x_def bound_nat_def Let_def F_def using False by (simp only: if_False)
    have "R div F \<le> P" using F by (metis div_le_mono nonzero_mult_div_cancel_left not_less_iff_gr_or_eq)
    then have "F * x = F * P - F * (R div F)" "F * (R div F) \<le> F * P" by (simp_all add: x diff_mult_distrib2)
    moreover have "R = F * (R div F) + R mod F" by simp
    ultimately have "R + F * x \<le> F * P + R mod F" by linarith
    moreover have "share_demand D P x \<le> F * x + D mod P" by (simp add: share_demand_def F_def)
    ultimately have "R + share_demand D P x \<le> D + R mod F" using m by linarith
    then show ?thesis using F(1) by (simp add: x_def F_def)
  qed
qed

text \<open>C31: 
  the share that the bound of FP-PM leaves on a CPU: where the unsigned difference does
  not wrap, the demand of the task and of the share in the deadline exceeds the deadline
  by at most the remainder of a division that is rounded the wrong way.
\<close>

theorem split_bound_keeps_deadline:
  assumes "Pi \<noteq> 0" "unat Dk < 2 ^ 31 - 1" "Rk \<le> Dk"
    and "unat Dk div unat Pi = 0 \<or> unat Rk \<le> unat Dk div unat Pi * unat Pi"
  shows "\<exists>x. split_bound Dk Rk Pi = Some x \<and>
    unat Rk + (unat Dk div unat Pi * unat x + min (unat x) (unat Dk mod unat Pi))
      \<le> unat Dk + (if unat Dk div unat Pi = 0 then 0 else unat Rk mod (unat Dk div unat Pi))"
proof -
  have "0 < unat Pi" using assms(1) by (simp add: unat_gt_0)
  then show ?thesis
    using split_bound_nat [OF assms] bound_nat_demand [of "unat Rk" "unat Dk" "unat Pi"] assms(3,4)
    by (auto simp: share_demand_def word_le_nat_alt)
qed

theorem split_bound_keeps_deadline_witness:
  "\<exists>x. split_bound 25 5 10 = Some x \<and>
    unat (5 :: u64) + (unat (25 :: u64) div unat (10 :: u64) * unat x + min (unat x) (unat (25 :: u64) mod unat (10 :: u64)))
      \<le> unat (25 :: u64) + (if unat (25 :: u64) div unat (10 :: u64) = 0 then 0
          else unat (5 :: u64) mod (unat (25 :: u64) div unat (10 :: u64)))"
  by (rule split_bound_keeps_deadline) simp_all

lemma neg_large:
  fixes w :: u64
  assumes "w \<noteq> 0" "unat w \<le> 2 ^ 63"
  shows "2 ^ 63 \<le> unat (- w)"
proof -
  have "0 < unat w" using assms(1) by (simp add: unat_gt_0)
  then have "unat (0 - w) = 2 ^ 64 - unat w" by (subst unat_sub_if_size) (simp add: word_size)
  then show ?thesis using assms(2) by simp
qed

text \<open>
  where the response time exceeds the last full period, the unsigned difference wraps and
  the bound becomes larger than any deadline: the CPU is taken to have room for everything.
\<close>

theorem split_bound_wraps:
  assumes "unat Dk < 2 ^ 31 - 1" "Rk \<le> Dk" "Pi \<noteq> 0" "unat Dk div unat Pi = F" "F \<noteq> 0"
    and "F * unat Pi + F \<le> unat Rk"
  shows "\<exists>x. split_bound Dk Rk Pi = Some x \<and> 2 ^ 63 \<le> unat x"
proof -
  define D R P where "D = unat Dk" and "R = unat Rk" and "P = unat Pi"
  have small: "D < 2 ^ 31 - 1" "R \<le> D" "F \<le> D"
    using assms(1,2,4) by (auto simp: D_def R_def word_le_nat_alt)
  have R: "F * P + F \<le> R" using assms(6) by (simp add: R_def P_def)
  note p = small_products [OF small(1,3)]
  have "unat (Dk div Pi) = F" using assms(4) by (simp add: unat_div)
  then have i: "int_of_ulong (Dk div Pi) = int F" using small int_of_ulong_small [of "Dk div Pi"] by simp
  have d: "unat (Dk - Rk) = D - R" using assms(2) by (simp add: unat_sub D_def R_def)
  have f: "unat (word_of_nat F :: u64) = F" using small by (simp only: unat_of_nat) simp
  have m1: "unat (word_of_nat F * (Dk - Rk)) = F * (D - R)"
    using p(1) [of "D - R" 0] f d by (subst unat_mult_small) simp_all
  have words: "Rk = word_of_nat R" "Pi = word_of_nat P" by (simp_all add: R_def P_def)
  define E where "E = (R - F * P) * (F + 1)"
  have E: "0 < E" "E < 2 ^ 63"
  proof -
    show "0 < E" using R assms(5) by (simp add: E_def)
    have "E \<le> 2 ^ 31 * 2 ^ 31" unfolding E_def using small by (intro mult_mono) simp_all
    then show "E < 2 ^ 63" by simp
  qed
  have neg: "word_of_nat F * Pi - Rk = - (word_of_nat (R - F * P) :: u64)"
    using R by (simp add: words of_nat_diff)
  have "(word_of_nat F * Pi - Rk) * (word_of_nat F + 1) = - (word_of_nat (R - F * P) * (word_of_nat (F + 1) :: u64))"
    unfolding neg by (simp add: add.commute)
  then have m2: "(word_of_nat F * Pi - Rk) * (word_of_nat F + 1) = - (word_of_nat E :: u64)"
    by (simp only: E_def of_nat_mult)
  have e: "unat (word_of_nat E :: u64) = E" using E by (simp only: unat_of_nat) simp
  then have "2 ^ 63 \<le> unat (- (word_of_nat E :: u64))" using E by (intro neg_large) auto
  moreover have "F * (D - R) < 2 ^ 63"
  proof -
    have "F * (D - R) \<le> 2 ^ 31 * 2 ^ 31" using small by (intro mult_mono) simp_all
    then show ?thesis by simp
  qed
  ultimately have no: "\<not> (word_of_nat F * Pi - Rk) * (word_of_nat F + 1) \<le> word_of_nat F * (Dk - Rk)"
    unfolding m2 word_le_nat_alt m1 by linarith
  have nz: "(word_of_nat F :: u64) \<noteq> 0" using f assms(5) by auto
  have s: "split_bound Dk Rk Pi = Some (Pi - Rk div word_of_nat F)"
    using assms(3,5) i small(1,3) no nz by (simp add: split_bound_def div_ulong_def Let_def)
  have dv: "Rk div word_of_nat F = word_of_nat (R div F)" using f by (simp add: word_arith_nat_div R_def)
  have "(P + 1) * F \<le> R" using R by (simp add: algebra_simps)
  then have g: "P + 1 \<le> R div F" using assms(5) by (simp add: less_eq_div_iff_mult_less_eq)
  have "Pi - Rk div word_of_nat F = - (word_of_nat (R div F - P) :: u64)"
    unfolding dv using g by (simp add: words(2) of_nat_diff)
  moreover have "unat (word_of_nat (R div F - P) :: u64) = R div F - P"
  proof -
    have "R div F - P \<le> R" by (meson diff_le_self div_le_dividend le_trans)
    then have "R div F - P < 2 ^ 64" using small by simp
    then show ?thesis by (simp only: unat_of_nat) simp
  qed
  moreover have "R div F - P \<le> 2 ^ 63" "0 < R div F - P"
  proof -
    have "R div F - P \<le> R" by (meson diff_le_self div_le_dividend le_trans)
    then show "R div F - P \<le> 2 ^ 63" using small by simp
    show "0 < R div F - P" using g by simp
  qed
  ultimately have "2 ^ 63 \<le> unat (Pi - Rk div word_of_nat F)"
    by (simp only:) (rule neg_large, auto)
  with s show ?thesis by blast
qed

theorem split_bound_wraps_witness: "\<exists>x. split_bound 15 12 10 = Some x \<and> 2 ^ 63 \<le> unat x"
  by (rule split_bound_wraps [where F = 1]) simp_all

section \<open>Splitting hands out exactly the execution time\<close>

text \<open>The analyses change nothing of the plugin but the flags of the CPUs.\<close>

definition only_flags :: "fppm \<Rightarrow> fppm \<Rightarrow> bool" where
  "only_flags w w' \<longleftrightarrow> fppm_task w' = fppm_task w \<and> kthread_list w' = kthread_list w \<and>
     kthread_runs w' = kthread_runs w \<and> (\<forall>c. cpu_available w' c \<longrightarrow> cpu_available w c)"

lemma only_flags_refl [simp]: "only_flags w w" by (simp add: only_flags_def)

lemma only_flags_trans: "only_flags w w' \<Longrightarrow> only_flags w' w'' \<Longrightarrow> only_flags w w''"
  by (auto simp: only_flags_def)

lemma rta_only_flags: "fppm_rta_loop k s rt c L hps w ret = Some (r, w') \<Longrightarrow> only_flags w w'"
proof (induction hps arbitrary: w ret)
  case (Cons hp hps)
  have f: "only_flags w (w\<lparr>cpu_available := (cpu_available w)(c := False)\<rparr>)" by (simp add: only_flags_def)
  show ?case
    using Cons.prems Cons.IH f only_flags_trans [OF f]
    by (auto simp: Let_def split: if_splits)
qed simp

lemma analysis_only_flags: "fppm_response_time_analysis k s rt c w = Some (r, w') \<Longrightarrow> only_flags w w'"
  by (auto simp: fppm_response_time_analysis_def Let_def dest: rta_only_flags)

lemma capacity_only_flags: "split_capacity k s rt c lps w acc = Some (r, w') \<Longrightarrow> only_flags w w'"
proof (induction lps arbitrary: w acc)
  case (Cons lp lps)
  show ?case
  proof (cases "fppm_task_is_on_cpu s w lp c")
    case True
    then obtain Rk w1 where "fppm_response_time_analysis k s lp c w = Some (Rk, w1)"
      using Cons.prems by auto
    with Cons True show ?thesis
      by (auto simp: Let_def split: if_splits dest: analysis_only_flags dest!: Cons.IH intro: only_flags_trans)
  qed (use Cons in auto)
qed simp

text \<open>The shares after the CPUs below \<open>i\<close>, and when the task is split.\<close>

definition partial_shares :: "fppm_task \<Rightarrow> nat \<Rightarrow> u64 \<Rightarrow> bool" where
  "partial_shares ft i summed \<longleftrightarrow>
     last_cpu ft = RESCH_CPU_UNDEFINED \<and> summed = (\<Sum>c<i. ft_runtime ft c) \<and>
     (\<forall>c. i \<le> c \<longrightarrow> c < NR_RT_CPUS \<longrightarrow> ft_runtime ft c = 0) \<and>
     (\<forall>c<i. ft_runtime ft c > 0 \<longrightarrow> first_cpu ft \<le> c) \<and>
     (first_cpu ft = RESCH_CPU_UNDEFINED \<or> first_cpu ft < i \<and> ft_runtime ft (first_cpu ft) > 0)"

definition shares_ok :: "fppm_task \<Rightarrow> u64 \<Rightarrow> bool" where
  "shares_ok ft C \<longleftrightarrow>
     first_cpu ft \<le> last_cpu ft \<and> last_cpu ft < NR_RT_CPUS \<and> (\<Sum>c<NR_RT_CPUS. ft_runtime ft c) = C \<and>
     ft_runtime ft (first_cpu ft) > 0 \<and> ft_runtime ft (last_cpu ft) > 0 \<and>
     (\<forall>c<NR_RT_CPUS. ft_runtime ft c > 0 \<longrightarrow> first_cpu ft \<le> c \<and> c \<le> last_cpu ft)"

definition take_share :: "nat \<Rightarrow> u64 \<Rightarrow> fppm_task \<Rightarrow> fppm_task" where
  "take_share i share ft =
     (let ft = ft\<lparr>ft_runtime := (ft_runtime ft)(i := share)\<rparr>
      in if first_cpu ft = RESCH_CPU_UNDEFINED \<and> share > 0 then ft\<lparr>first_cpu := i\<rparr> else ft)"

lemma take_share_simps:
  "ft_runtime (take_share i share ft) = (ft_runtime ft)(i := share)" "last_cpu (take_share i share ft) = last_cpu ft"
  "first_cpu (take_share i share ft) =
     (if first_cpu ft = RESCH_CPU_UNDEFINED \<and> share > 0 then i else first_cpu ft)"
  by (simp_all add: take_share_def Let_def)

lemma partial_extend:
  assumes "partial_shares ft i summed" "i < NR_RT_CPUS"
  shows "partial_shares (take_share i share ft) (Suc i) (summed + share)"
proof -
  have u: "first_cpu ft = RESCH_CPU_UNDEFINED \<Longrightarrow> c < i \<Longrightarrow> ft_runtime ft c = 0" for c
    using assms by (auto simp: partial_shares_def RESCH_CPU_UNDEFINED_def word_gt_0)
  show ?thesis
    using assms u by (auto simp: partial_shares_def take_share_simps less_Suc_eq word_gt_0)
qed

lemma partial_finish:
  assumes "partial_shares ft (Suc i) summed" "i < NR_RT_CPUS" "C \<le> summed"
    and "summed - ft_runtime ft i < C"
  shows "shares_ok (ft\<lparr>ft_runtime := (ft_runtime ft)(i := ft_runtime ft i - (summed - C)), last_cpu := i\<rparr>) C"
proof -
  let ?f = "(ft_runtime ft)(i := ft_runtime ft i - (summed - C))"
  have s: "summed = (\<Sum>c<i. ft_runtime ft c) + ft_runtime ft i" using assms(1) by (simp add: partial_shares_def)
  have z: "ft_runtime ft c = 0" if "i < c" "c < NR_RT_CPUS" for c
    using assms(1) that by (simp add: partial_shares_def)
  have "(\<Sum>c<NR_RT_CPUS. ?f c) = (\<Sum>c<Suc i. ?f c)"
    using assms(2) z by (intro sum.mono_neutral_right) auto
  also have "\<dots> = (\<Sum>c<i. ft_runtime ft c) + (ft_runtime ft i - (summed - C))" by simp
  also have "\<dots> = C" by (simp add: s)
  finally have sum: "(\<Sum>c<NR_RT_CPUS. ?f c) = C" .
  have "?f i \<noteq> 0"
  proof
    assume "?f i = 0"
    then have "summed - ft_runtime ft i = C" by simp
    with assms(4) show False by simp
  qed
  then have pos: "?f i > 0" by (simp add: word_gt_0)
  have "C \<noteq> 0" using assms(4) by auto
  then have "summed \<noteq> 0" using assms(3) by auto
  have "\<exists>c<Suc i. ft_runtime ft c > 0"
  proof (rule ccontr)
    assume "\<not> ?thesis"
    then have "(\<Sum>c<Suc i. ft_runtime ft c) = 0" by (intro sum.neutral) (auto simp: word_gt_0)
    then show False using s \<open>summed \<noteq> 0\<close> by simp
  qed
  then have "first_cpu ft \<noteq> RESCH_CPU_UNDEFINED"
    using assms(1,2) by (auto simp: partial_shares_def RESCH_CPU_UNDEFINED_def)
  then have first: "first_cpu ft \<le> i" "ft_runtime ft (first_cpu ft) > 0"
    using assms(1) by (auto simp: partial_shares_def less_Suc_eq_le)
  have "first_cpu ft \<le> c \<and> c \<le> i" if "c < NR_RT_CPUS" "?f c > 0" for c
  proof (cases "c = i")
    case False
    then have "ft_runtime ft c > 0" using that(2) by simp
    then have "c \<le> i" using z [of c] that(1) by (cases "i < c") (auto simp: not_less)
    then show ?thesis using assms(1) \<open>ft_runtime ft c > 0\<close> by (simp add: partial_shares_def)
  qed (use first in simp)
  moreover have "?f (first_cpu ft) > 0" using first(2) pos by (simp split: if_splits)
  ultimately show ?thesis using sum pos first(1) assms(2) by (simp add: shares_ok_def)
qed

lemma split_loop_step:
  assumes "cpu_available w i" "split_capacity k s rt i (task_list s) w 0 = Some (share, w1)"
  shows "split_loop k s rt (i # cs) summed w =
    (let w2 = upd_ft rt (take_share i share) w1; excess = summed + share - runtime (tcb s rt)
     in if runtime (tcb s rt) \<le> summed + share
        then Some (upd_ft rt (\<lambda>ft. ft\<lparr>ft_runtime := (ft_runtime ft)(i := ft_runtime ft i - excess), last_cpu := i\<rparr>) w2)
        else split_loop k s rt cs (summed + share) w2)"
  using assms by (simp add: take_share_def upd_ft_def Let_def)

lemma split_loop_spec:
  assumes "split_loop k s rt [i..<NR_RT_CPUS] summed w = Some w'" "partial_shares (fppm_task w rt) i summed"
    and "summed < runtime (tcb s rt)" "i \<le> NR_RT_CPUS"
  shows "last_cpu (fppm_task w' rt) = RESCH_CPU_UNDEFINED \<or> shares_ok (fppm_task w' rt) (runtime (tcb s rt))"
  using assms
proof (induction "NR_RT_CPUS - i" arbitrary: i summed w)
  case 0
  then show ?case by (simp add: partial_shares_def)
next
  case (Suc n)
  then have i: "i < NR_RT_CPUS" and up: "[i..<NR_RT_CPUS] = i # [Suc i..<NR_RT_CPUS]"
    and n: "n = NR_RT_CPUS - Suc i" by (simp_all add: upt_conv_Cons)
  note IH = Suc.hyps(1) [OF n]
  show ?case
  proof (cases "cpu_available w i")
    case False
    have "partial_shares (fppm_task w rt) (Suc i) summed"
      using Suc.prems(2) i by (auto simp: partial_shares_def less_Suc_eq)
    then show ?thesis using IH Suc.prems(1,3) i False by (simp add: up)
  next
    case True
    let ?C = "runtime (tcb s rt)"
    obtain share w1 where c: "split_capacity k s rt i (task_list s) w 0 = Some (share, w1)"
      using Suc.prems(1) True by (auto simp: up)
    then have t: "fppm_task w1 = fppm_task w" using capacity_only_flags by (auto simp: only_flags_def)
    define w2 where "w2 = upd_ft rt (take_share i share) w1"
    have p: "partial_shares (fppm_task w2 rt) (Suc i) (summed + share)"
      using partial_extend [OF Suc.prems(2) i] by (simp add: w2_def t)
    let ?w3 = "upd_ft rt (\<lambda>ft. ft\<lparr>ft_runtime := (ft_runtime ft)(i := ft_runtime ft i - (summed + share - ?C)), last_cpu := i\<rparr>) w2"
    have run: "split_loop k s rt [i..<NR_RT_CPUS] summed w =
      (if ?C \<le> summed + share then Some ?w3 else split_loop k s rt [Suc i..<NR_RT_CPUS] (summed + share) w2)"
      using split_loop_step [OF True c] by (simp add: up w2_def Let_def)
    show ?thesis
    proof (cases "?C \<le> summed + share")
      case True
      have "summed + share - ft_runtime (fppm_task w2 rt) i < ?C"
        using Suc.prems(3) by (simp add: w2_def take_share_simps)
      then show ?thesis
        using partial_finish [OF p i True] Suc.prems(1) run True by auto
    next
      case False
      then show ?thesis using IH [OF _ p] Suc.prems(1) run i by simp
    qed
  qed
qed

lemma shares_fit:
  fixes f :: "cpu \<Rightarrow> u64"
  assumes "(\<Sum>c<NR_RT_CPUS. f c) = C" "unat C < 2 ^ 61"
  shows "(\<forall>c<NR_RT_CPUS. f c \<le> C) \<longleftrightarrow> (\<Sum>c<NR_RT_CPUS. unat (f c)) = unat C"
proof
  assume le: "\<forall>c<NR_RT_CPUS. f c \<le> C"
  have "(\<Sum>c<NR_RT_CPUS. unat (f c)) \<le> (\<Sum>c<NR_RT_CPUS. unat C)"
    using le by (intro sum_mono) (simp add: word_le_nat_alt)
  also have "\<dots> < 2 ^ LENGTH(64)" using assms(2) by (simp add: NR_RT_CPUS_def)
  finally show "(\<Sum>c<NR_RT_CPUS. unat (f c)) = unat C"
    using unat_sum_words [of "{..<NR_RT_CPUS}" f] assms(1) by simp
next
  assume eq: "(\<Sum>c<NR_RT_CPUS. unat (f c)) = unat C"
  show "\<forall>c<NR_RT_CPUS. f c \<le> C"
  proof (intro allI impI)
    fix c assume "c < NR_RT_CPUS"
    then have "unat (f c) \<le> (\<Sum>c<NR_RT_CPUS. unat (f c))" by (intro member_le_sum) auto
    then show "f c \<le> C" using eq by (simp add: word_le_nat_alt)
  qed
qed

text \<open>C23: 
  when FP-PM splits a task, the shares add up to its execution time modulo \<open>2 ^ 64\<close>, and for an
  execution time below \<open>2 ^ 61\<close> they add up to it as natural numbers exactly when no share is
  larger than the execution time: a CPU that is given more (a bound that wrapped around) shows a
  sum that wrapped around. The shares lie between the first and the last CPU, which both have one,
  and the task is sent to the first. When the task is not split, it has no share anywhere.
\<close>

theorem split_hands_out_execution_time:
  assumes "fppm_split k s rt (clear_split_task rt w) = Some (dst, w')" "runtime (tcb s rt) \<noteq> 0"
  shows "dst = RESCH_CPU_UNDEFINED \<and> (\<forall>c<NR_RT_CPUS. ft_runtime (fppm_task w' rt) c = 0) \<or>
    dst = first_cpu (fppm_task w' rt) \<and> ft_rt (fppm_task w' rt) = Some rt \<and>
    dst \<le> last_cpu (fppm_task w' rt) \<and> last_cpu (fppm_task w' rt) < NR_RT_CPUS \<and>
    (\<Sum>c<NR_RT_CPUS. ft_runtime (fppm_task w' rt) c) = runtime (tcb s rt) \<and>
    (unat (runtime (tcb s rt)) < 2 ^ 61 \<longrightarrow>
      ((\<forall>c<NR_RT_CPUS. ft_runtime (fppm_task w' rt) c \<le> runtime (tcb s rt)) \<longleftrightarrow>
       (\<Sum>c<NR_RT_CPUS. unat (ft_runtime (fppm_task w' rt) c)) = unat (runtime (tcb s rt)))) \<and>
    ft_runtime (fppm_task w' rt) dst > 0 \<and> ft_runtime (fppm_task w' rt) (last_cpu (fppm_task w' rt)) > 0 \<and>
    (\<forall>c<NR_RT_CPUS. ft_runtime (fppm_task w' rt) c > 0 \<longrightarrow> dst \<le> c \<and> c \<le> last_cpu (fppm_task w' rt))"
proof -
  obtain w1 where w1: "split_loop k s rt [0..<NR_RT_CPUS] 0 (clear_split_task rt w) = Some w1"
    using assms(1) by (auto simp: fppm_split_def)
  have "partial_shares (fppm_task (clear_split_task rt w) rt) 0 0"
    by (simp add: partial_shares_def clear_split_task_def)
  then have c: "last_cpu (fppm_task w1 rt) = RESCH_CPU_UNDEFINED \<or> shares_ok (fppm_task w1 rt) (runtime (tcb s rt))"
    using split_loop_spec [OF w1] assms(2) by (simp add: word_gt_0)
  show ?thesis
  proof (cases "last_cpu (fppm_task w1 rt) = RESCH_CPU_UNDEFINED")
    case True
    then show ?thesis
      using assms(1) w1 by (auto simp: fppm_split_def clear_split_task_def simp del: sum.lessThan_Suc)
  next
    case False
    with c have ok: "shares_ok (fppm_task w1 rt) (runtime (tcb s rt))" by simp
    have d: "dst = first_cpu (fppm_task w1 rt)" "fppm_task w' rt = fppm_task w1 rt\<lparr>ft_rt := Some rt\<rparr>"
      using False assms(1) w1 by (auto simp: fppm_split_def)
    note k = ok [unfolded shares_ok_def] d
    have sum: "(\<Sum>c<NR_RT_CPUS. ft_runtime (fppm_task w' rt) c) = runtime (tcb s rt)" using k by simp
    show ?thesis
      by (intro disjI2 conjI impI, goal_cases)
        (rule shares_fit [OF sum] | assumption | use k in \<open>simp; fail\<close>)+
  qed
qed

text \<open>Two tasks that use half of the CPUs 0 and 1, and a task that fits on neither.\<close>

definition two_halves :: core where
  "two_halves = upd_task 6 (\<lambda>t. t\<lparr>period := 10, deadline := 10, runtime := 6000, prio := 50, cpu_id := 8,
       task := (task t)\<lparr>cpus_allowed := {0, 1}\<rparr>\<rparr>)
     (global_list_insert 7 (upd_task 7 (\<lambda>t. t\<lparr>period := 10, deadline := 10, runtime := 5000, prio := 60, cpu_id := 1\<rparr>)
     (global_list_insert 5 (upd_task 5 (\<lambda>t. t\<lparr>period := 10, deadline := 10, runtime := 5000, prio := 60\<rparr>) boot))))"

lemma two_halves_facts:
  "task_list two_halves = [5, 7]" "cpu_id (tcb two_halves 5) = 0" "cpu_id (tcb two_halves 7) = 1"
  "cpu_id (tcb two_halves 6) = 8"
  "period (tcb two_halves 5) = 10" "deadline (tcb two_halves 5) = 10" "runtime (tcb two_halves 5) = 5000"
  "period (tcb two_halves 7) = 10" "deadline (tcb two_halves 7) = 10" "runtime (tcb two_halves 7) = 5000"
  "period (tcb two_halves 6) = 10" "deadline (tcb two_halves 6) = 10" "runtime (tcb two_halves 6) = 6000"
  "prio (tcb two_halves 5) = 60" "prio (tcb two_halves 7) = 60" "prio (tcb two_halves 6) = 50"
  "migratory (tcb two_halves r) = False"
  "switch_cost two_halves = 20" "release_cost two_halves = 5" "migration_cost two_halves = 20"
  by (simp_all add: two_halves_def global_list_insert_def locked_global_list_insert_def boot_defs higher_prio_def)

lemma two_halves_response:
  assumes "\<forall>r\<in>{5, 7}. \<forall>c. ft_runtime (fppm_task w r) c = 0"
  shows "fppm_response_time_analysis kernel0 two_halves 5 0 w = Some (5150, w)"
  "fppm_response_time_analysis kernel0 two_halves 7 1 w = Some (5150, w)"
  using assms
  by (simp_all add: fppm_response_time_analysis_def two_halves_facts kernel0_ticks split_is_on_cpu_def task_is_on_cpu_def
     sched_overhead_cpu_def sched_overhead_task_def div_round_up_def Let_def)

lemma split_bound_half: "split_bound 10000 5150 10000 = Some 4850"
  by (simp add: split_bound_def div_ulong_def int_of_ulong_def Let_def)

lemma two_halves_capacity:
  assumes "\<forall>r\<in>{5, 7}. \<forall>c. ft_runtime (fppm_task w r) c = 0"
  shows "split_capacity kernel0 two_halves 6 0 [5, 7] w 0 = Some (4850, w)"
  "split_capacity kernel0 two_halves 6 1 [5, 7] w 0 = Some (4850, w)"
  using assms two_halves_response [OF assms] split_bound_half
  by (simp_all add: fppm_task_is_on_cpu_def split_is_on_cpu_def task_is_on_cpu_def two_halves_facts kernel0_ticks Let_def)

lemma two_halves_split:
  "\<exists>w. fppm_split kernel0 two_halves 6 (clear_split_task 6 fppm0) = Some (0, w) \<and>
     (\<forall>c<NR_RT_CPUS. ft_runtime (fppm_task w 6) c \<le> 6000)"
proof -
  let ?w = "clear_split_task 6 fppm0"
  define w1 where "w1 = upd_ft 6 (take_share 0 4850) ?w"
  have cpus: "[0..<NR_RT_CPUS] = 0 # 1 # [2..<NR_RT_CPUS]" by (simp add: NR_RT_CPUS_def upt_rec)
  have z: "\<forall>r\<in>{5, 7}. \<forall>c. ft_runtime (fppm_task ?w r) c = 0" "cpu_available ?w 0"
    by (simp_all add: clear_split_task_def fppm0_def)
  have w1: "\<forall>r\<in>{5, 7}. \<forall>c. ft_runtime (fppm_task w1 r) c = 0" "cpu_available w1 1" "first_cpu (fppm_task w1 6) = 0"
    by (simp_all add: w1_def clear_split_task_def fppm0_def take_share_simps)
  note cap = two_halves_capacity(1) [OF z(1)] two_halves_capacity(2) [OF w1(1)]
  have "split_loop kernel0 two_halves 6 [0..<NR_RT_CPUS] 0 ?w = split_loop kernel0 two_halves 6 (1 # [2..<NR_RT_CPUS]) 4850 w1"
    using split_loop_step [OF z(2), of kernel0 two_halves 6 4850 ?w] cap(1)
    by (simp add: cpus two_halves_facts w1_def Let_def del: split_loop.simps split_capacity.simps)
  moreover have "split_loop kernel0 two_halves 6 (1 # [2..<NR_RT_CPUS]) 4850 w1 =
    Some (upd_ft 6 (\<lambda>ft. ft\<lparr>ft_runtime := (ft_runtime ft)(1 := ft_runtime ft 1 - 3700), last_cpu := 1\<rparr>)
      (upd_ft 6 (take_share 1 4850) w1))" (is "_ = Some ?w2")
    by (subst split_loop_step [OF w1(2)], unfold two_halves_facts, rule cap(2)) (simp add: Let_def)
  moreover have "first_cpu (fppm_task ?w2 6) = 0" "last_cpu (fppm_task ?w2 6) = 1"
    by (simp_all add: take_share_simps w1(3) RESCH_CPU_UNDEFINED_def NR_RT_CPUS_def)
  moreover have "RESCH_CPU_UNDEFINED \<noteq> 1" by (simp add: RESCH_CPU_UNDEFINED_def NR_RT_CPUS_def)
  moreover have "ft_runtime (fppm_task ?w2 6) c \<le> 6000" if "c < NR_RT_CPUS" for c
    using that by (simp add: take_share_simps w1_def clear_split_task_def)
  ultimately show ?thesis by (simp add: fppm_split_def upd_ft_simps(1) del: split_loop.simps upd_ft_simps(2-))
qed

theorem split_hands_out_execution_time_witness:
  "\<exists>w. fppm_split kernel0 two_halves 6 (clear_split_task 6 fppm0) = Some (0, w) \<and>
     (\<Sum>c<NR_RT_CPUS. unat (ft_runtime (fppm_task w 6) c)) = 6000"
proof -
  obtain w where w: "fppm_split kernel0 two_halves 6 (clear_split_task 6 fppm0) = Some (0, w)"
    "\<forall>c<NR_RT_CPUS. ft_runtime (fppm_task w 6) c \<le> 6000"
    using two_halves_split by blast
  then show ?thesis
    using split_hands_out_execution_time [OF w(1)]
    by (auto simp: two_halves_facts RESCH_CPU_UNDEFINED_def NR_RT_CPUS_def simp del: sum.lessThan_Suc)
qed

end
