(* ===== verification/Bubble.thy ===== *)
theory Bubble
  imports Prelude "HOL-Library.Multiset"
begin

text \<open>
  The bubble sort that the hybrid EDF-WM plugin and the benchmarks use: passes from the end of an
  array towards its front that exchange neighbours in the wrong order. It is shown to be the stable
  sort of the library.
\<close>

definition bubble_step :: "('a \<Rightarrow> 'k :: linorder) \<Rightarrow> nat \<Rightarrow> 'a list \<Rightarrow> 'a list" where
  "bubble_step f j xs = (if f (xs ! j) < f (xs ! (j - 1)) then xs[j := xs ! (j - 1), j - 1 := xs ! j] else xs)"

definition bubble_pass :: "('a \<Rightarrow> 'k :: linorder) \<Rightarrow> nat \<Rightarrow> 'a list \<Rightarrow> 'a list" where
  "bubble_pass f i xs = fold (bubble_step f) (rev [i + 1..<length xs]) xs"

definition bubble_sort :: "('a \<Rightarrow> 'k :: linorder) \<Rightarrow> 'a list \<Rightarrow> 'a list" where
  "bubble_sort f xs = fold (bubble_pass f) [0..<length xs - 1] xs"

section \<open>One comparison\<close>

lemma neighbours:
  assumes "0 < j" "j < length xs"
  shows "xs = take (j - 1) xs @ xs ! (j - 1) # xs ! j # drop (Suc j) xs"
proof -
  have "drop (j - 1) xs = xs ! (j - 1) # xs ! j # drop (Suc j) xs"
    using assms Cons_nth_drop_Suc [of "j - 1" xs] Cons_nth_drop_Suc [of j xs] by simp
  then show ?thesis by (metis append_take_drop_id)
qed

lemma exchange:
  assumes "0 < j" "j < length xs"
  shows "xs[j := xs ! (j - 1), j - 1 := xs ! j] = take (j - 1) xs @ xs ! j # xs ! (j - 1) # drop (Suc j) xs"
proof -
  define us where "us = take (j - 1) xs"
  define a b vs where "a = xs ! (j - 1)" and "b = xs ! j" and "vs = drop (Suc j) xs"
  have xs: "xs = us @ a # b # vs" using neighbours [OF assms] by (simp add: us_def a_def b_def vs_def)
  have l: "j = Suc (length us)" "j - 1 = length us" using assms by (auto simp: us_def)
  have "(us @ a # b # vs)[Suc (length us) := a, length us := b] = us @ b # a # vs"
    by (simp add: list_update_append)
  then have "xs[j := a, j - 1 := b] = us @ b # a # vs" using l xs by metis
  then show ?thesis by (simp add: us_def a_def b_def vs_def)
qed

lemma bubble_step_props:
  assumes "0 < j" "j < length xs"
  shows "length (bubble_step f j xs) = length xs" "mset (bubble_step f j xs) = mset xs"
    "k \<noteq> j \<Longrightarrow> k \<noteq> j - 1 \<Longrightarrow> bubble_step f j xs ! k = xs ! k"
    "f (bubble_step f j xs ! (j - 1)) \<le> f (bubble_step f j xs ! j)"
    "f (bubble_step f j xs ! (j - 1)) \<le> f (xs ! j)"
  using assms mset_swap [of "j - 1" xs j] by (auto simp: bubble_step_def nth_list_update)

lemma bubble_step_stable:
  assumes "0 < j" "j < length xs"
  shows "filter (\<lambda>x. f x = k) (bubble_step f j xs) = filter (\<lambda>x. f x = k) xs"
proof (cases "f (xs ! j) < f (xs ! (j - 1))")
  case True
  define us a b vs where "us = take (j - 1) xs" and "a = xs ! (j - 1)" and "b = xs ! j" and "vs = drop (Suc j) xs"
  have xs: "xs = us @ a # b # vs" using neighbours [OF assms] by (simp add: us_def a_def b_def vs_def)
  have "bubble_step f j xs = us @ b # a # vs"
    using exchange [OF assms] True by (simp add: bubble_step_def us_def a_def b_def vs_def)
  moreover have "f b < f a" using True by (simp add: a_def b_def)
  ultimately show ?thesis by (auto simp: xs)
qed (simp add: bubble_step_def)

section \<open>Passes\<close>

text \<open>A pass over the positions \<open>m\<close> to the end brings a least element to \<open>m - 1\<close>.\<close>

lemma bubble_down:
  assumes "0 < m" "m \<le> n" "length xs = n"
  shows "length (fold (bubble_step f) (rev [m..<n]) xs) = n \<and> mset (fold (bubble_step f) (rev [m..<n]) xs) = mset xs \<and>
    filter (\<lambda>x. f x = c) (fold (bubble_step f) (rev [m..<n]) xs) = filter (\<lambda>x. f x = c) xs \<and>
    (\<forall>k < m - 1. fold (bubble_step f) (rev [m..<n]) xs ! k = xs ! k) \<and>
    (\<forall>k. m - 1 \<le> k \<longrightarrow> k < n \<longrightarrow>
       f (fold (bubble_step f) (rev [m..<n]) xs ! (m - 1)) \<le> f (fold (bubble_step f) (rev [m..<n]) xs ! k))"
  using assms(1,2)
proof (induction "n - m" arbitrary: m)
  case 0
  then have "m = n" by simp
  with \<open>0 < m\<close> show ?case by (auto simp: assms(3) intro: order_eq_refl dest: le_antisym)
next
  case (Suc d)
  define q where "q = fold (bubble_step f) (rev [Suc m..<n]) xs"
  have m: "m < n" and d: "d = n - Suc m" using Suc.hyps(2) by auto
  have q: "length q = n" "mset q = mset xs" "filter (\<lambda>x. f x = c) q = filter (\<lambda>x. f x = c) xs"
    "\<forall>k<m. q ! k = xs ! k" "\<forall>k. m \<le> k \<longrightarrow> k < n \<longrightarrow> f (q ! m) \<le> f (q ! k)"
    using Suc.hyps(1) [OF d] m by (auto simp: q_def)
  have r: "fold (bubble_step f) (rev [m..<n]) xs = bubble_step f m q"
    using m by (simp add: q_def upt_conv_Cons)
  note p = bubble_step_props [OF Suc.prems(1), of q, unfolded q(1), OF m, where f = f]
  have "f (bubble_step f m q ! (m - 1)) \<le> f (bubble_step f m q ! k)" if "m - 1 \<le> k" "k < n" for k
  proof -
    have "k = m - 1 \<or> k = m \<or> m < k" using that(1) by linarith
    then consider "k = m - 1" | "k = m" | "m < k" by blast
    then show ?thesis
    proof cases
      case 3
      then have "k \<noteq> m" "k \<noteq> m - 1" "m \<le> k" by simp_all
      then have "bubble_step f m q ! k = q ! k" "f (q ! m) \<le> f (q ! k)" using p(3) q(5) that(2) by blast+
      then have "f (q ! m) \<le> f (bubble_step f m q ! k)" by simp
      with p(5) show ?thesis by (rule order_trans)
    qed (use p(4) in simp_all)
  qed
  then show ?case
    unfolding r using p(1-3) q(1-4) bubble_step_stable [OF Suc.prems(1), of q f c] m by simp
qed

lemma bubble_pass_props:
  assumes "i < length xs"
  shows "length (bubble_pass f i xs) = length xs" "mset (bubble_pass f i xs) = mset xs"
    "filter (\<lambda>x. f x = c) (bubble_pass f i xs) = filter (\<lambda>x. f x = c) xs"
    "take i (bubble_pass f i xs) = take i xs"
    "i \<le> k \<Longrightarrow> k < length xs \<Longrightarrow> f (bubble_pass f i xs ! i) \<le> f (bubble_pass f i xs ! k)"
  using bubble_down [of "i + 1" "length xs" xs f c] assms
  by (auto simp: bubble_pass_def intro: nth_equalityI)

text \<open>After the passes below \<open>i\<close> the first \<open>i\<close> elements are in order and none exceeds a later one.\<close>

lemma bubble_passes:
  assumes "i < length xs"
  shows "length (fold (bubble_pass f) [0..<i] xs) = length xs \<and> mset (fold (bubble_pass f) [0..<i] xs) = mset xs \<and>
    filter (\<lambda>x. f x = c) (fold (bubble_pass f) [0..<i] xs) = filter (\<lambda>x. f x = c) xs \<and>
    sorted (map f (take i (fold (bubble_pass f) [0..<i] xs))) \<and>
    (\<forall>x \<in> set (take i (fold (bubble_pass f) [0..<i] xs)). \<forall>y \<in> set (drop i (fold (bubble_pass f) [0..<i] xs)). f x \<le> f y)"
  using assms
proof (induction i)
  case (Suc i)
  define q r where "q = fold (bubble_pass f) [0..<i] xs" and "r = bubble_pass f i q"
  have q: "length q = length xs" "mset q = mset xs" "filter (\<lambda>x. f x = c) q = filter (\<lambda>x. f x = c) xs"
    "sorted (map f (take i q))" "\<forall>x \<in> set (take i q). \<forall>y \<in> set (drop i q). f x \<le> f y"
    using Suc by (auto simp: q_def)
  have il: "i < length q" using Suc.prems q(1) by simp
  note r = bubble_pass_props [OF il, where f = f, folded r_def]
  have "mset (take i r) + mset (drop i r) = mset (take i q) + mset (drop i q)"
    using r(2) by (metis append_take_drop_id mset_append)
  then have s: "set (drop i r) = set (drop i q)" using r(4) by (intro mset_eq_setD) simp
  have dr: "drop i r = r ! i # drop (Suc i) r" using il r(1) by (simp add: Cons_nth_drop_Suc)
  have tr: "take (Suc i) r = take i q @ [r ! i]" using il r(1,4) by (simp add: take_Suc_conv_app_nth)
  have least: "f (r ! i) \<le> f y" if "y \<in> set (drop (Suc i) r)" for y
  proof -
    obtain k where "k < length (drop (Suc i) r)" "y = drop (Suc i) r ! k" using \<open>y \<in> _\<close> by (auto simp: in_set_conv_nth)
    then show ?thesis using r(5) [of "Suc (i + k)"] r(1) by simp
  qed
  have "r ! i \<in> set (drop i q)" unfolding s [symmetric] dr by simp
  then have "sorted (map f (take (Suc i) r))" using q(4,5) by (simp add: tr sorted_append)
  moreover have "\<forall>x \<in> set (take (Suc i) r). \<forall>y \<in> set (drop (Suc i) r). f x \<le> f y"
    using q(5) s dr least by (auto simp: tr)
  ultimately show ?case using q(1-3) r(1-3) by (simp add: q_def [symmetric] r_def [symmetric])
qed simp

text \<open>The sort is the stable sort.\<close>

lemma bubble_sort_key: "bubble_sort f xs = sort_key f xs"
proof (cases "length xs < 2")
  case True
  then have "xs = [] \<or> (\<exists>x. xs = [x])" by (cases xs; cases "tl xs") auto
  then show ?thesis by (auto simp: bubble_sort_def)
next
  case False
  define r where "r = bubble_sort f xs"
  have i: "length xs - 1 < length xs" using False by simp
  note p = bubble_passes [OF i, of f, folded bubble_sort_def r_def]
  have "r = take (length xs - 1) r @ [r ! (length xs - 1)]"
    using p i by (metis Suc_pred' append_take_drop_id Cons_nth_drop_Suc drop_all le_refl length_greater_0_conv list.size(3) not_less_zero)
  moreover have "sorted (map f (take (length xs - 1) r @ [r ! (length xs - 1)]))"
    using p i by (simp add: sorted_append) (metis Cons_nth_drop_Suc list.set_intros(1))
  ultimately have "sorted (map f r)" by metis
  then show ?thesis
    unfolding r_def [symmetric] using p p [where c = "f _"]
    by (intro properties_for_sort_key [symmetric]) (simp_all, metis (mono_tags, lifting) filter_cong)
qed

end
