(* ===== verification/Hybrid_EDF.thy ===== *)
theory Hybrid_EDF
  imports Partition Bubble
begin

text \<open>
  EDF-WM (\<open>plugin/hybrid/edf-wm/edf-wm.c\<close>): EDF that partitions tasks by the demand bound
  test and splits a task no CPU accepts into windows. The deadline is divided by the number
  of CPUs, each CPU offers what it can give in a window, and the CPUs that offer most share
  the task. At the end of a window a timer hands the task to the migration thread of the
  next CPU.

  The shares are in jiffies, execution times in microseconds. What \<open>sched_setattr\<close> leaves in
  the scheduling entity of the Linux task is the parameter \<open>dlset\<close> of the submission.
\<close>

section \<open>State\<close>

text \<open>\<open>wm_timer\<close> is the absolute time the migration timer was armed for.\<close>

record edf_wm_task =
  wm_first :: cpu
  wm_last :: cpu
  wm_rt :: "rid option"
  wm_deadline :: u64
  wm_runtime :: "cpu \<Rightarrow> u64"
  wm_timer :: "u64 option"
  wm_next_release :: u64
  wm_sched_deadline :: u64
  wm_split_deadline :: u64

record edf_wm =
  edf_wm_task :: "rid \<Rightarrow> edf_wm_task"
  wm_list :: "cpu \<Rightarrow> rid list"
  wm_runs :: "cpu \<Rightarrow> bool"

definition upd_wm :: "rid \<Rightarrow> (edf_wm_task \<Rightarrow> edf_wm_task) \<Rightarrow> edf_wm \<Rightarrow> edf_wm" where
  "upd_wm r f w = w\<lparr>edf_wm_task := (edf_wm_task w)(r := f (edf_wm_task w r))\<rparr>"

lemma upd_wm_simps [simp]:
  "edf_wm_task (upd_wm r f w) x = (if x = r then f (edf_wm_task w r) else edf_wm_task w x)"
  "wm_list (upd_wm r f w) = wm_list w" "wm_runs (upd_wm r f w) = wm_runs w"
  by (simp_all add: upd_wm_def)

abbreviation et :: "edf_wm \<Rightarrow> rid \<Rightarrow> edf_wm_task" where
  "et w r \<equiv> edf_wm_task w r"

text \<open>The static data is zero.\<close>

definition edf_wm0 :: edf_wm where
  "edf_wm0 = \<lparr>edf_wm_task = \<lambda>_. \<lparr>wm_first = 0, wm_last = 0, wm_rt = None, wm_deadline = 0, wm_runtime = \<lambda>_. 0,
       wm_timer = None, wm_next_release = 0, wm_sched_deadline = 0, wm_split_deadline = 0\<rparr>,
     wm_list = \<lambda>_. [], wm_runs = \<lambda>_. False\<rparr>"

definition wm_task_is_split :: "edf_wm \<Rightarrow> rid \<Rightarrow> bool" where
  "wm_task_is_split w r \<longleftrightarrow> wm_deadline (et w r) > 0"

definition wm_split_on_cpu :: "edf_wm \<Rightarrow> rid \<Rightarrow> cpu \<Rightarrow> bool" where
  "wm_split_on_cpu w r c \<longleftrightarrow> wm_runtime (et w r) c > 0"

definition edf_wm_task_is_on_cpu :: "core \<Rightarrow> edf_wm \<Rightarrow> rid \<Rightarrow> cpu \<Rightarrow> bool" where
  "edf_wm_task_is_on_cpu s w r c \<longleftrightarrow> task_is_on_cpu s r c \<or> wm_split_on_cpu w r c"

definition wm_clear_split_task :: "rid \<Rightarrow> edf_wm \<Rightarrow> edf_wm" where
  "wm_clear_split_task r =
     upd_wm r (\<lambda>e. e\<lparr>wm_first := RESCH_CPU_UNDEFINED, wm_last := RESCH_CPU_UNDEFINED, wm_rt := None,
                     wm_deadline := 0, wm_runtime := \<lambda>c. if c < NR_RT_CPUS then 0 else wm_runtime e c\<rparr>)"

definition set_share :: "rid \<Rightarrow> cpu \<Rightarrow> u64 \<Rightarrow> edf_wm \<Rightarrow> edf_wm" where
  "set_share r c x = upd_wm r (\<lambda>e. e\<lparr>wm_runtime := (wm_runtime e)(c := x)\<rparr>)"

section \<open>Utilisation and the length of the test\<close>

definition wm_util :: "kenv \<Rightarrow> core \<Rightarrow> rid \<Rightarrow> u64 option" where
  "wm_util k s p = div_ulong (100 * runtime (tcb s p)) (jiffies_to_usecs k (period (tcb s p)))"

definition wm_util_split :: "kenv \<Rightarrow> core \<Rightarrow> edf_wm \<Rightarrow> rid \<Rightarrow> cpu \<Rightarrow> u64 option" where
  "wm_util_split k s w p c =
     div_ulong (100 * wm_runtime (et w p) c) (jiffies_to_usecs k (period (tcb s p)))"

fun wm_util_loop :: "kenv \<Rightarrow> core \<Rightarrow> edf_wm \<Rightarrow> cpu \<Rightarrow> rid list \<Rightarrow> u64 \<Rightarrow> u64 option" where
  "wm_util_loop k s w c [] u = Some u"
| "wm_util_loop k s w c (p # ps) u =
     (if wm_split_on_cpu w p c then do { v \<leftarrow> wm_util_split k s w p c; wm_util_loop k s w c ps (u + v) }
      else if task_is_on_cpu s p c then do { v \<leftarrow> wm_util k s p; wm_util_loop k s w c ps (u + v) }
      else wm_util_loop k s w c ps u)"

definition wm_util_cpu :: "kenv \<Rightarrow> core \<Rightarrow> edf_wm \<Rightarrow> cpu \<Rightarrow> u64 option" where
  "wm_util_cpu k s w c = wm_util_loop k s w c (task_list s) 0"

definition wm_overhead :: "kenv \<Rightarrow> core \<Rightarrow> rid \<Rightarrow> u64 \<Rightarrow> cpu \<Rightarrow> u64 option" where
  "wm_overhead k s rt L c = do {
     a \<leftarrow> sched_overhead_cpu k c L s;
     b \<leftarrow> sched_overhead_task k rt L s;
     Some (usecs_to_jiffies k (a + b))
   }"

text \<open>The contribution of a task to the sums, as a split task or as a task of the CPU.\<close>

definition wm_add_split :: "kenv \<Rightarrow> core \<Rightarrow> edf_wm \<Rightarrow> cpu \<Rightarrow> rid \<Rightarrow> u64 \<times> u64 \<times> u64 \<Rightarrow> (u64 \<times> u64 \<times> u64) option" where
  "wm_add_split k s w c p = (\<lambda>(x, u, d). do {
     v \<leftarrow> wm_util_split k s w p c;
     Some (x + max_ulong 0 (period (tcb s p) - wm_deadline (et w p)) * v, u + v,
           max_ulong d (wm_deadline (et w p)))
   })"

definition wm_add_task :: "kenv \<Rightarrow> core \<Rightarrow> rid \<Rightarrow> u64 \<times> u64 \<times> u64 \<Rightarrow> (u64 \<times> u64 \<times> u64) option" where
  "wm_add_task k s p = (\<lambda>(x, u, d). do {
     v \<leftarrow> wm_util k s p;
     Some (x + max_ulong 0 (period (tcb s p) - deadline (tcb s p)) * v, u + v,
           max_ulong d (deadline (tcb s p)))
   })"

fun wm_len_loop :: "kenv \<Rightarrow> core \<Rightarrow> edf_wm \<Rightarrow> cpu \<Rightarrow> rid list \<Rightarrow> u64 \<times> u64 \<times> u64 \<Rightarrow> (u64 \<times> u64 \<times> u64) option" where
  "wm_len_loop k s w c [] a = Some a"
| "wm_len_loop k s w c (p # ps) a =
     (if wm_split_on_cpu w p c then do { a' \<leftarrow> wm_add_split k s w c p a; wm_len_loop k s w c ps a' }
      else if task_is_on_cpu s p c then do { a' \<leftarrow> wm_add_task k s p a; wm_len_loop k s w c ps a' }
      else wm_len_loop k s w c ps a)"

definition wm_len_sums :: "kenv \<Rightarrow> core \<Rightarrow> edf_wm \<Rightarrow> cpu \<Rightarrow> rid \<Rightarrow> (u64 \<times> u64 \<times> u64) option" where
  "wm_len_sums k s w c rt = do {
     a \<leftarrow> wm_len_loop k s w c (task_list s) (0, 0, 0);
     if wm_split_on_cpu w rt c then wm_add_split k s w c rt a else wm_add_task k s rt a
   }"

definition wm_dbf_len :: "kenv \<Rightarrow> core \<Rightarrow> edf_wm \<Rightarrow> cpu \<Rightarrow> rid \<Rightarrow> u64 option" where
  "wm_dbf_len k s w c rt = do {
     (x, u, d) \<leftarrow> wm_len_sums k s w c rt;
     if 100 = u then Some d
     else if 100 < u then Some 0
     else Some (max_ulong (x div (100 - u)) d)
   }"

section \<open>The demand bound test\<close>

definition wm_dbf_task :: "kenv \<Rightarrow> core \<Rightarrow> edf_wm \<Rightarrow> rid \<Rightarrow> u64 \<Rightarrow> cpu \<Rightarrow> u64 option" where
  "wm_dbf_task k s w p L c =
     (if wm_split_on_cpu w p c
      then if L < wm_deadline (et w p) then Some 0
           else do {
             n \<leftarrow> div_ulong (L - wm_deadline (et w p)) (period (tcb s p));
             Some (max_ulong 0 (n + 1) * wm_runtime (et w p) c)
           }
      else if L < deadline (tcb s p) then Some 0
           else do {
             n \<leftarrow> div_ulong (L - deadline (tcb s p)) (period (tcb s p));
             Some (usecs_to_jiffies k (max_ulong 0 (n + 1) * runtime (tcb s p)))
           })"

fun wm_dbf_loop :: "kenv \<Rightarrow> core \<Rightarrow> edf_wm \<Rightarrow> u64 \<Rightarrow> cpu \<Rightarrow> rid list \<Rightarrow> u64 \<Rightarrow> u64 option" where
  "wm_dbf_loop k s w L c [] a = Some a"
| "wm_dbf_loop k s w L c (p # ps) a =
     (if edf_wm_task_is_on_cpu s w p c
      then do { v \<leftarrow> wm_dbf_task k s w p L c; wm_dbf_loop k s w L c ps (a + v) }
      else wm_dbf_loop k s w L c ps a)"

definition wm_dbf_cpu :: "kenv \<Rightarrow> core \<Rightarrow> edf_wm \<Rightarrow> u64 \<Rightarrow> cpu \<Rightarrow> u64 option" where
  "wm_dbf_cpu k s w L c = wm_dbf_loop k s w L c (task_list s) 0"

definition wm_demand :: "kenv \<Rightarrow> core \<Rightarrow> edf_wm \<Rightarrow> cpu \<Rightarrow> rid \<Rightarrow> u64 \<Rightarrow> u64 option" where
  "wm_demand k s w c rt L = do {
     a \<leftarrow> wm_dbf_cpu k s w L c;
     b \<leftarrow> wm_dbf_task k s w rt L c;
     ov \<leftarrow> wm_overhead k s rt L c;
     Some (a + b + ov)
   }"

text \<open>The loop over the deadlines of one task: \<open>L\<close> advances by the period and may wrap.\<close>

partial_function (option) wm_dbf_scan ::
    "kenv \<Rightarrow> core \<Rightarrow> edf_wm \<Rightarrow> cpu \<Rightarrow> rid \<Rightarrow> u64 \<Rightarrow> u64 \<Rightarrow> u64 \<Rightarrow> bool option" where
  "wm_dbf_scan k s w c rt step Lmax L =
     (if L \<le> Lmax
      then do {
        d \<leftarrow> wm_demand k s w c rt L;
        if d > L then Some False else wm_dbf_scan k s w c rt step Lmax (L + step)
      }
      else Some True)"

fun wm_scan_tasks :: "kenv \<Rightarrow> core \<Rightarrow> edf_wm \<Rightarrow> cpu \<Rightarrow> rid \<Rightarrow> u64 \<Rightarrow> rid list \<Rightarrow> bool option" where
  "wm_scan_tasks k s w c rt Lmax [] = Some True"
| "wm_scan_tasks k s w c rt Lmax (p # ps) =
     (if \<not> edf_wm_task_is_on_cpu s w p c then wm_scan_tasks k s w c rt Lmax ps
      else do {
        let L = (if wm_split_on_cpu w p c then wm_deadline (et w p) else deadline (tcb s p));
        ok \<leftarrow> wm_dbf_scan k s w c rt (period (tcb s p)) Lmax L;
        if ok then wm_scan_tasks k s w c rt Lmax ps else Some False
      })"

definition wm_dbf_test :: "kenv \<Rightarrow> core \<Rightarrow> edf_wm \<Rightarrow> cpu \<Rightarrow> rid \<Rightarrow> bool option" where
  "wm_dbf_test k s w c rt =
     (if runtime (tcb s rt) = 0 then Some True
      else do {
        Lmax \<leftarrow> wm_dbf_len k s w c rt;
        if Lmax = 0 then Some False
        else do {
          ok \<leftarrow> wm_scan_tasks k s w c rt Lmax (task_list s);
          if ok then wm_dbf_scan k s w c rt (period (tcb s rt)) Lmax (deadline (tcb s rt)) else Some False
        }
      })"

section \<open>The choice of the CPU\<close>

text \<open>\<open>EDF_WM_FIRST_FIT\<close> is not defined: the worst fit is compiled.\<close>

definition wm_cpu_first_fit :: "kenv \<Rightarrow> core \<Rightarrow> edf_wm \<Rightarrow> rid \<Rightarrow> cpu option" where
  "wm_cpu_first_fit k s w rt =
     for_each (\<lambda>c. if c \<notin> cpus_allowed (task (tcb s rt)) then Some None
                   else do { t \<leftarrow> wm_dbf_test k s w c rt; Some (if t then Some c else None) })
       [0..<NR_RT_CPUS] RESCH_CPU_UNDEFINED"

fun wm_worst_fit_loop :: "kenv \<Rightarrow> core \<Rightarrow> edf_wm \<Rightarrow> rid \<Rightarrow> cpu list \<Rightarrow> cpu \<times> u64 \<Rightarrow> (cpu \<times> u64) option" where
  "wm_worst_fit_loop k s w rt [] b = Some b"
| "wm_worst_fit_loop k s w rt (c # cs) (dst, u_dst) =
     (if c \<notin> cpus_allowed (task (tcb s rt)) then wm_worst_fit_loop k s w rt cs (dst, u_dst)
      else do {
        t \<leftarrow> wm_dbf_test k s w c rt;
        if t
        then do {
          u \<leftarrow> wm_util_cpu k s w c;
          wm_worst_fit_loop k s w rt cs (if u < u_dst then (c, u) else (dst, u_dst))
        }
        else wm_worst_fit_loop k s w rt cs (dst, u_dst)
      })"

definition wm_cpu_worst_fit :: "kenv \<Rightarrow> core \<Rightarrow> edf_wm \<Rightarrow> rid \<Rightarrow> cpu option" where
  "wm_cpu_worst_fit k s w rt =
     map_option fst (wm_worst_fit_loop k s w rt [0..<NR_RT_CPUS] (RESCH_CPU_UNDEFINED, 100))"

definition wm_partition :: "bool \<Rightarrow> kenv \<Rightarrow> core \<Rightarrow> edf_wm \<Rightarrow> rid \<Rightarrow> cpu option" where
  "wm_partition first_fit k s w rt =
     (if first_fit then wm_cpu_first_fit k s w rt else wm_cpu_worst_fit k s w rt)"

section \<open>The share of a CPU\<close>

text \<open>
  The loop over the deadlines of one task: the least share so far and the length of the test,
  which the share shortens. The result tells whether the loop was left because nothing remains.
\<close>

partial_function (option) split_scan ::
    "kenv \<Rightarrow> core \<Rightarrow> rid \<Rightarrow> cpu \<Rightarrow> u64 \<Rightarrow> u64 \<Rightarrow> u64 \<Rightarrow> u64 \<Rightarrow> edf_wm \<Rightarrow> (bool \<times> u64 \<times> u64 \<times> edf_wm) option" where
  "split_scan k s rt c step L Lmax least w =
     (if L \<le> Lmax
      then do {
        d \<leftarrow> wm_dbf_cpu k s w L c;
        ov \<leftarrow> wm_overhead k s rt L c;
        n \<leftarrow> div_ulong (L - wm_deadline (et w rt)) (period (tcb s rt));
        x \<leftarrow> div_ulong (L - (d + ov)) (n + 1);
        if x \<le> least
        then if x = 0 then Some (True, 0, Lmax, w)
             else do {
               Lmax' \<leftarrow> wm_dbf_len k s (set_share rt c x w) c rt;
               split_scan k s rt c step (L + step) Lmax' x (set_share rt c 0 w)
             }
        else split_scan k s rt c step (L + step) Lmax least w
      }
      else Some (False, least, Lmax, w))"

fun split_scan_tasks ::
    "kenv \<Rightarrow> core \<Rightarrow> rid \<Rightarrow> cpu \<Rightarrow> rid list \<Rightarrow> u64 \<Rightarrow> u64 \<Rightarrow> edf_wm \<Rightarrow> (bool \<times> u64 \<times> u64 \<times> edf_wm) option" where
  "split_scan_tasks k s rt c [] Lmax least w = Some (False, least, Lmax, w)"
| "split_scan_tasks k s rt c (p # ps) Lmax least w =
     (if wm_split_on_cpu w p c \<or> task_is_on_cpu s p c
      then do {
        let L = (if wm_split_on_cpu w p c then wm_deadline (et w rt) else deadline (tcb s p));
        (out, least, Lmax, w) \<leftarrow> split_scan k s rt c (period (tcb s p)) L Lmax least w;
        if out then Some (out, least, Lmax, w) else split_scan_tasks k s rt c ps Lmax least w
      }
      else split_scan_tasks k s rt c ps Lmax least w)"

definition set_split_runtime :: "kenv \<Rightarrow> core \<Rightarrow> rid \<Rightarrow> cpu \<Rightarrow> edf_wm \<Rightarrow> edf_wm option" where
  "set_split_runtime k s rt c w = do {
     u \<leftarrow> wm_util_cpu k s w c;
     let least = (100 - u) * period (tcb s rt) div 100;
     (out, least, Lmax, w) \<leftarrow> split_scan_tasks k s rt c (task_list s) (NOT 0) least w;
     (out, least, Lmax, w) \<leftarrow>
       (if out then Some (out, least, Lmax, w)
        else split_scan k s rt c (period (tcb s rt)) (wm_deadline (et w rt)) Lmax least w);
     Some (set_share rt c least w)
   }"

section \<open>Splitting\<close>

text \<open>One comparison of the bubble sort of the CPUs by decreasing shares, and the two loops.\<close>

definition sort_step :: "(cpu \<Rightarrow> u64) \<Rightarrow> nat \<Rightarrow> cpu list \<Rightarrow> cpu list" where
  "sort_step share j ids =
     (if share (ids ! j) > share (ids ! (j - 1)) then ids[j := ids ! (j - 1), j - 1 := ids ! j] else ids)"

definition sort_pass :: "(cpu \<Rightarrow> u64) \<Rightarrow> nat \<Rightarrow> cpu list \<Rightarrow> cpu list" where
  "sort_pass share i = fold (sort_step share) (rev [i + 1..<NR_RT_CPUS])"

definition sort_runtime :: "(cpu \<Rightarrow> u64) \<Rightarrow> cpu list" where
  "sort_runtime share = fold (sort_pass share) [0..<NR_RT_CPUS - 1] [0..<NR_RT_CPUS]"

text \<open>The selected CPUs: their shares are cut to the window and summed up.\<close>

fun split_select :: "rid \<Rightarrow> cpu list \<Rightarrow> u64 \<Rightarrow> edf_wm \<Rightarrow> u64 \<times> edf_wm" where
  "split_select rt [] summed w = (summed, w)"
| "split_select rt (c # cs) summed w =
     (let x = min (wm_runtime (et w rt) c) (wm_deadline (et w rt));
          w = set_share rt c x w;
          w = (if x > 0
               then upd_wm rt (\<lambda>e. e\<lparr>
                 wm_first := (if wm_first e = RESCH_CPU_UNDEFINED \<or> wm_first e > c then c else wm_first e),
                 wm_last := (if wm_last e = RESCH_CPU_UNDEFINED \<or> wm_last e < c then c else wm_last e)\<rparr>) w
               else w)
      in split_select rt cs (summed + x) w)"

fun split_offers :: "kenv \<Rightarrow> core \<Rightarrow> rid \<Rightarrow> cpu list \<Rightarrow> edf_wm \<Rightarrow> edf_wm option" where
  "split_offers k s rt [] w = Some w"
| "split_offers k s rt (c # cs) w = do { w \<leftarrow> set_split_runtime k s rt c w; split_offers k s rt cs w }"

text \<open>A successful split: the last CPU gives back what is over, the other CPUs give nothing.\<close>

definition split_finish :: "kenv \<Rightarrow> core \<Rightarrow> rid \<Rightarrow> nat \<Rightarrow> cpu list \<Rightarrow> u64 \<Rightarrow> edf_wm \<Rightarrow> edf_wm option" where
  "split_finish k s rt num ids summed w = do {
     let over = jiffies_to_usecs k summed - runtime (tcb s rt);
     let l = wm_last (et w rt);
     guard_c (l < NR_RT_CPUS);
     let w = set_share rt l (wm_runtime (et w rt) l - usecs_to_jiffies k over) w;
     let w = upd_wm rt (\<lambda>e. e\<lparr>wm_rt := Some rt\<rparr>) w;
     Some (fold (\<lambda>c. set_share rt c 0) (drop num ids) w)
   }"

fun split_numbers :: "kenv \<Rightarrow> core \<Rightarrow> rid \<Rightarrow> nat list \<Rightarrow> edf_wm \<Rightarrow> (cpu \<times> edf_wm) option" where
  "split_numbers k s rt [] w = Some (RESCH_CPU_UNDEFINED, w)"
| "split_numbers k s rt (num # nums) w = do {
     let w = upd_wm rt (\<lambda>e. e\<lparr>wm_deadline := deadline (tcb s rt) div of_nat num\<rparr>) w;
     w \<leftarrow> split_offers k s rt [0..<NR_RT_CPUS] w;
     let ids = sort_runtime (wm_runtime (et w rt));
     let (summed, w) = split_select rt (take num ids) 0 w;
     if jiffies_to_usecs k summed \<ge> runtime (tcb s rt)
     then do {
       w \<leftarrow> split_finish k s rt num ids summed w;
       Some (wm_first (et w rt), w)
     }
     else split_numbers k s rt nums (wm_clear_split_task rt w)
   }"

definition wm_split :: "kenv \<Rightarrow> core \<Rightarrow> rid \<Rightarrow> edf_wm \<Rightarrow> (cpu \<times> edf_wm) option" where
  "wm_split k s rt w = split_numbers k s rt [2..<NR_RT_CPUS + 1] w"

section \<open>The hooks\<close>

definition wm_task_run :: "bool \<Rightarrow> kenv \<Rightarrow> (rid \<Rightarrow> core \<Rightarrow> task_struct \<Rightarrow> task_struct) \<Rightarrow> edf_wm hook" where
  "wm_task_run first_fit k dlset rt = (\<lambda>(s, w).
     if period (tcb s rt) = 0 then Some (s, w)
     else do {
       let w = wm_clear_split_task rt w;
       dst \<leftarrow> wm_partition first_fit k s w rt;
       (dst, w) \<leftarrow> (if dst \<noteq> RESCH_CPU_UNDEFINED then Some (dst, w) else wm_split k s rt w);
       let s = upd_task rt (\<lambda>t. t\<lparr>cpu_id := dst\<rparr>) s;
       if dst \<noteq> RESCH_CPU_UNDEFINED
       then do {
         (s, w) \<leftarrow>
           (if wm_task_is_split w rt
            then do {
              r \<leftarrow> wm_rt (et w rt);
              let saved = runtime (tcb s r);
              let w = upd_wm rt (\<lambda>e. e\<lparr>wm_sched_deadline := dl_sched_deadline (task (tcb s r))\<rparr>) w;
              let e = et w rt;
              let s = upd_task r (\<lambda>t. t\<lparr>deadline := wm_deadline e,
                                       runtime := jiffies_to_usecs k (wm_runtime e (wm_first e))\<rparr>) s;
              (ok, s) \<leftarrow> set_scheduler k r RESCH_SCHED_EDF (prio (tcb s rt)) s;
              let s = (if ok then upd_linux r (dlset r s) s else s);
              let w = upd_wm rt (\<lambda>e. e\<lparr>wm_split_deadline := dl_sched_deadline (task (tcb s r))\<rparr>) w;
              Some (upd_task r (\<lambda>t. t\<lparr>runtime := saved\<rparr>) s, w)
            }
            else if policy (tcb s rt) \<noteq> RESCH_SCHED_EDF
            then do {
              (ok, s) \<leftarrow> set_scheduler k rt RESCH_SCHED_EDF RESCH_PRIO_EDF s;
              Some (if ok then upd_linux rt (dlset rt s) s else s, w)
            }
            else Some (s, w));
         s \<leftarrow> migrate_task k rt dst (upd_task rt (\<lambda>t. t\<lparr>migratory := False\<rparr>) s);
         Some (s, w)
       }
       else do {
         (ok, s) \<leftarrow> set_scheduler k rt RESCH_SCHED_FAIR 0 s;
         Some (s, w)
       }
     })"

definition wm_task_exit :: "edf_wm hook" where
  "wm_task_exit rt = (\<lambda>(s, w). Some (s, wm_clear_split_task rt w))"

definition start_window_timer :: "rid \<Rightarrow> edf_wm \<Rightarrow> edf_wm" where
  "start_window_timer r = upd_wm r (\<lambda>e. e\<lparr>wm_timer := Some (wm_next_release e)\<rparr>)"

definition wm_job_start :: "edf_wm hook" where
  "wm_job_start rt = (\<lambda>(s, w). Some (
     if wm_task_is_split w rt
     then (upd_linux rt (\<lambda>t. t\<lparr>dl_flags := dl_flags t AND NOT SCHED_EXHAUSTIVE\<rparr>) s,
           start_window_timer rt (upd_wm rt (\<lambda>e. e\<lparr>wm_next_release := dl_deadline (task (tcb s rt))\<rparr>) w))
     else (s, w)))"

definition wm_job_complete :: "kenv \<Rightarrow> edf_wm hook" where
  "wm_job_complete k rt = (\<lambda>(s, w).
     if wm_task_is_split w rt
     then do {
       let w = upd_wm rt (\<lambda>e. e\<lparr>wm_timer := None\<rparr>) w;
       let e = et w rt;
       r \<leftarrow> wm_rt e;
       let s = upd_linux r (\<lambda>t. t\<lparr>dl_sched_deadline := wm_split_deadline e, dl_deadline := wm_next_release e,
                                 dl_runtime := wm_split_deadline e\<rparr>) s;
       s \<leftarrow> (if smp_processor_id k \<noteq> wm_first e then migrate_task k rt (wm_first e) s else Some s);
       Some (s, w)
     }
     else Some (s, w))"

definition wm_plugin :: "bool \<Rightarrow> kenv \<Rightarrow> (rid \<Rightarrow> core \<Rightarrow> task_struct \<Rightarrow> task_struct) \<Rightarrow> edf_wm plugin_struct" where
  "wm_plugin first_fit k dlset = install_scheduler (Some (wm_task_run first_fit k dlset)) (Some wm_task_exit)
     (Some wm_job_start) (Some (wm_job_complete k))"

section \<open>Migration\<close>

definition wm_request_migration :: "rid \<Rightarrow> cpu \<Rightarrow> edf_wm sys \<Rightarrow> edf_wm sys option" where
  "wm_request_migration r dst = (\<lambda>(s, w). do {
     guard_c (list_all (\<lambda>c. r \<notin> set (wm_list w c)) [0..<NR_RT_CPUS]);
     let w = w\<lparr>wm_list := (wm_list w)(dst := wm_list w dst @ [r]), wm_runs := (wm_runs w)(dst := True)\<rparr>;
     rt \<leftarrow> wm_rt (et w r);
     let s = set_tsk_need_resched rt (set_tstate rt TASK_UNINTERRUPTIBLE s);
     hp \<leftarrow> active_highest_prio_task dst s;
     Some (case hp of None \<Rightarrow> s | Some h \<Rightarrow> set_tsk_need_resched h s, w)
   })"

definition window_timer :: "cpu \<Rightarrow> rid \<Rightarrow> edf_wm sys \<Rightarrow> edf_wm sys option" where
  "window_timer here r = (\<lambda>(s, w).
     let w = upd_wm r (\<lambda>e. e\<lparr>wm_timer := None\<rparr>) w
     in case find (\<lambda>c. wm_runtime (et w r) c > 0) [here + 1..<NR_RT_CPUS] of
          None \<Rightarrow> Some (s, w)
        | Some c \<Rightarrow> wm_request_migration r c (s, w))"


text \<open>One round of the migration thread of a CPU.\<close>

definition wm_migration_thread :: "kenv \<Rightarrow> cpu \<Rightarrow> edf_wm sys \<Rightarrow> edf_wm sys option" where
  "wm_migration_thread k c = (\<lambda>(s, w).
     case wm_list w c of
       [] \<Rightarrow> Some (s, w\<lparr>wm_runs := (wm_runs w)(c := False)\<rparr>)
     | r # rs \<Rightarrow> do {
         let w = w\<lparr>wm_list := (wm_list w)(c := rs)\<rparr>;
         let e = et w r;
         rt \<leftarrow> wm_rt e;
         let share = jiffies_to_nsecs k (wm_runtime e c);
         let s = upd_task rt (\<lambda>t. t\<lparr>deadline_time := deadline_time t + wm_deadline e\<rparr>) s;
         let s = upd_linux rt (\<lambda>t. t\<lparr>dl_sched_runtime := share, dl_sched_deadline := wm_split_deadline e,
                                    dl_deadline := wm_next_release e, dl_flags := dl_flags t OR DL_NEW\<rparr>) s;
         let w = upd_wm r (\<lambda>e. e\<lparr>wm_next_release := wm_next_release e + wm_split_deadline e\<rparr>) w;
         s \<leftarrow> migrate_task k rt c s;
         let s = wake_up_process rt s;
         let s = upd_linux rt (\<lambda>t. t\<lparr>dl_sched_deadline := wm_sched_deadline e, dl_runtime := share\<rparr>) s;
         Some (if wm_last e \<noteq> c
               then (upd_linux rt (\<lambda>t. t\<lparr>dl_flags := dl_flags t AND NOT SCHED_EXHAUSTIVE\<rparr>) s, start_window_timer r w)
               else (upd_linux rt (\<lambda>t. t\<lparr>dl_flags := dl_flags t OR SCHED_EXHAUSTIVE\<rparr>) s, w))
       })"

definition wm_migration_thread_init :: "edf_wm \<Rightarrow> edf_wm" where
  "wm_migration_thread_init w =
     w\<lparr>wm_list := \<lambda>c. if c < NR_RT_CPUS then [] else wm_list w c,
       wm_runs := \<lambda>c. c < NR_RT_CPUS \<or> wm_runs w c\<rparr>"

section \<open>The bubble sort of the CPUs\<close>

text \<open>Decreasing shares are increasing negated shares; among equal shares the order of the CPUs stays.\<close>

lemma sort_step_bubble: "sort_step share = bubble_step (\<lambda>c. - uint (share c))"
  by (intro ext) (simp add: sort_step_def bubble_step_def word_less_def)

lemma sort_pass_bubble: "length ids = NR_RT_CPUS \<Longrightarrow> sort_pass share i ids = bubble_pass (\<lambda>c. - uint (share c)) i ids"
  by (simp add: sort_pass_def bubble_pass_def sort_step_bubble)

lemma sort_runtime_key: "sort_runtime share = sort_key (\<lambda>c. - uint (share c)) [0..<NR_RT_CPUS]"
proof -
  have "fold (sort_pass share) [0..<i] [0..<NR_RT_CPUS] = fold (bubble_pass (\<lambda>c. - uint (share c))) [0..<i] [0..<NR_RT_CPUS]"
    if "i < NR_RT_CPUS" for i
    using that
  proof (induction i)
    case (Suc i)
    then show ?case
      using bubble_passes [of i "[0..<NR_RT_CPUS]" "\<lambda>c. - uint (share c)"] by (simp add: sort_pass_bubble)
  qed simp
  then show ?thesis
    by (simp add: sort_runtime_def bubble_sort_key [symmetric] bubble_sort_def NR_RT_CPUS_def)
qed

lemma sort_runtime_spec:
  "mset (sort_runtime share) = mset [0..<NR_RT_CPUS]"
  "sorted_wrt (\<lambda>x y. share y \<le> share x) (sort_runtime share)"
proof -
  have "sorted (map (\<lambda>c. - uint (share c)) (sort_runtime share))" by (simp only: sort_runtime_key sorted_sort_key)
  then show "sorted_wrt (\<lambda>x y. share y \<le> share x) (sort_runtime share)"
    by (simp add: sorted_map word_le_def)
qed (simp add: sort_runtime_key)

lemma sort_runtime_set:
  "set (sort_runtime share) = {..<NR_RT_CPUS}" "distinct (sort_runtime share)" "length (sort_runtime share) = NR_RT_CPUS"
proof -
  note m = sort_runtime_spec(1) [of share]
  show "set (sort_runtime share) = {..<NR_RT_CPUS}" using mset_eq_setD [OF m] by (simp only: set_upt atLeast0LessThan)
  show "distinct (sort_runtime share)" using mset_eq_imp_distinct_iff [OF m] by (simp only: distinct_upt)
  show "length (sort_runtime share) = NR_RT_CPUS" using mset_eq_length [OF m] by (simp only: length_upt diff_zero)
qed

text \<open>The first elements of a decreasing list have the largest sum.\<close>

lemma largest_sum:
  fixes f :: "'a \<Rightarrow> nat"
  assumes "sorted_wrt (\<lambda>x y. f y \<le> f x) xs" "distinct xs" "A \<subseteq> set xs" "card A = n" "n \<le> length xs"
  shows "sum f A \<le> sum f (set (take n xs))"
proof (cases "n = 0")
  case True
  then show ?thesis using assms(3,4) finite_subset by fastforce
next
  case False
  let ?T = "set (take n xs)"
  define v where "v = f (xs ! (n - 1))"
  have fin: "finite A" using assms(3) finite_subset by auto
  have up: "v \<le> f x" if "x \<in> ?T" for x
  proof -
    obtain i where "i < n" "x = xs ! i" using \<open>x \<in> ?T\<close> assms(5) by (auto simp: in_set_conv_nth)
    then show ?thesis
      using sorted_wrt_nth_less [OF assms(1), of i "n - 1"] assms(5) by (cases "i = n - 1") (auto simp: v_def)
  qed
  have down: "f x \<le> v" if x: "x \<in> A - ?T" for x
  proof -
    have "x \<in> set xs" using x assms(3) by auto
    then obtain i where i: "i < length xs" "x = xs ! i" by (auto simp: in_set_conv_nth)
    have "n \<le> i"
    proof (rule ccontr)
      assume "\<not> n \<le> i"
      then have "take n xs ! i = x" "i < length (take n xs)" using i by auto
      then have "x \<in> set (take n xs)" by (metis nth_mem)
      with x show False by simp
    qed
    then show ?thesis
      using sorted_wrt_nth_less [OF assms(1), of "n - 1" i] i False by (simp add: v_def)
  qed
  have "card ?T = n" using assms(2,5) by (simp add: distinct_card)
  then have c: "card (A - ?T) = card (?T - A)"
    using assms(4) fin by (simp add: card_Diff_subset_Int Int_commute)
  have "sum f A = sum f (A \<inter> ?T) + sum f (A - ?T)" using fin by (metis sum.Int_Diff)
  also have "\<dots> \<le> sum f (A \<inter> ?T) + card (A - ?T) * v"
    using sum_bounded_above [of "A - ?T" f v] down by simp
  also have "\<dots> \<le> sum f (?T \<inter> A) + sum f (?T - A)"
    using sum_bounded_below [of "?T - A" v f] up c by (simp add: Int_commute)
  also have "\<dots> = sum f ?T" by (metis List.finite_set sum.Int_Diff)
  finally show ?thesis .
qed

text \<open>C30: 
  the bubble sort of EDF-WM is a permutation of the CPUs by decreasing shares, so that the
  CPUs it takes for a task offer more together than any others of the same number.
\<close>

theorem split_takes_largest_shares:
  assumes "A \<subseteq> {..<NR_RT_CPUS}"
  shows "mset (sort_runtime share) = mset [0..<NR_RT_CPUS] \<and>
    sorted_wrt (\<lambda>x y. share y \<le> share x) (sort_runtime share) \<and>
    (\<Sum>c\<in>A. unat (share c)) \<le> (\<Sum>c\<in>set (take (card A) (sort_runtime share)). unat (share c))"
proof -
  have "card A \<le> NR_RT_CPUS" using card_mono [OF _ assms] by simp
  then have "(\<Sum>c\<in>A. unat (share c)) \<le> (\<Sum>c\<in>set (take (card A) (sort_runtime share)). unat (share c))"
    using assms sort_runtime_spec(2) [of share]
    by (intro largest_sum) (simp_all add: sort_runtime_set word_le_nat_alt)
  then show ?thesis using sort_runtime_spec [of share] by simp
qed

theorem split_takes_largest_shares_witness:
  "(\<Sum>c\<in>{0, 3}. unat (word_of_nat c :: u64))
     \<le> (\<Sum>c\<in>set (take (card {0 :: nat, 3}) (sort_runtime word_of_nat)). unat (word_of_nat c :: u64))"
  using split_takes_largest_shares [of "{0, 3}" word_of_nat] by (simp add: NR_RT_CPUS_def)

section \<open>The demand bound test without split tasks is that of EDF-FF\<close>

text \<open>EDF-FF reads the worst-case execution time where EDF-WM reads the execution time.\<close>

definition soft :: "core \<Rightarrow> core" where
  "soft s = s\<lparr>resch_task := \<lambda>r. (tcb s r)\<lparr>wcet := runtime (tcb s r)\<rparr>\<rparr>"

lemma soft_simps [simp]:
  "task_list (soft s) = task_list s" "deadline (tcb (soft s) r) = deadline (tcb s r)"
  "period (tcb (soft s) r) = period (tcb s r)" "wcet (tcb (soft s) r) = runtime (tcb s r)"
  "task_is_on_cpu (soft s) r c = task_is_on_cpu s r c" "migratory (tcb (soft s) r) = migratory (tcb s r)"
  "switch_cost (soft s) = switch_cost s" "release_cost (soft s) = release_cost s"
  "migration_cost (soft s) = migration_cost s" "cpu_id (tcb (soft s) r) = cpu_id (tcb s r)"
  "cpus_allowed (task (tcb (soft s) r)) = cpus_allowed (task (tcb s r))"
  by (simp_all add: soft_def task_is_on_cpu_def)

lemma soft_overhead: "sched_overhead_cpu k c L (soft s) = sched_overhead_cpu k c L s"
  "sched_overhead_task k r L (soft s) = sched_overhead_task k r L s"
proof -
  have t: "sched_overhead_task k r L (soft s) = sched_overhead_task k r L s" for r
    by (simp add: sched_overhead_task_def Let_def cong: if_cong)
  have "overhead_loop k c L (soft s) ps a = overhead_loop k c L s ps a" for ps a
    by (induction ps arbitrary: a) (simp_all add: t cong: if_cong)
  then show "sched_overhead_cpu k c L (soft s) = sched_overhead_cpu k c L s" by (simp add: sched_overhead_cpu_def)
qed (simp add: sched_overhead_task_def Let_def cong: if_cong)

definition unsplit :: "core \<Rightarrow> edf_wm \<Rightarrow> cpu \<Rightarrow> rid \<Rightarrow> bool" where
  "unsplit s w c rt \<longleftrightarrow> (\<forall>p \<in> insert rt (set (task_list s)). \<not> wm_split_on_cpu w p c)"

lemma wm_add_task_soft: "wm_add_task k s p = dbf_len_add k (soft s) p"
  by (simp add: wm_add_task_def dbf_len_add_def wm_util_def util_def)

lemma wm_len_loop_soft:
  "\<forall>p \<in> set ps. \<not> wm_split_on_cpu w p c \<Longrightarrow> wm_len_loop k s w c ps a = dbf_len_loop k (soft s) c ps a"
  by (induction ps arbitrary: a) (auto simp: wm_add_task_soft intro!: Option.bind_cong)

lemma wm_len_sums_soft:
  "unsplit s w c rt \<Longrightarrow>
   wm_len_sums k s w c rt = dbf_len_loop k (soft s) c (task_list s) (0, 0, 0) \<bind> dbf_len_add k (soft s) rt"
  by (simp add: wm_len_sums_def unsplit_def wm_len_loop_soft wm_add_task_soft)

lemma wm_dbf_task_soft: "\<not> wm_split_on_cpu w p c \<Longrightarrow> wm_dbf_task k s w p L c = dbf_task k (soft s) p L"
  by (simp add: wm_dbf_task_def dbf_task_def)

lemma wm_dbf_loop_soft:
  "\<forall>p \<in> set ps. \<not> wm_split_on_cpu w p c \<Longrightarrow> wm_dbf_loop k s w L c ps a = dbf_loop k (soft s) c L ps a"
  by (induction ps arbitrary: a) (auto simp: edf_wm_task_is_on_cpu_def wm_dbf_task_soft)

lemma wm_demand_soft: "unsplit s w c rt \<Longrightarrow> wm_demand k s w c rt = dbf_demand k (soft s) c rt"
  by (simp add: fun_eq_iff wm_demand_def dbf_demand_def wm_dbf_cpu_def dbf_cpu_def unsplit_def wm_dbf_loop_soft
      wm_dbf_task_soft wm_overhead_def ff_overhead_def soft_overhead)

text \<open>The two scans are the same recursion: each is below the other.\<close>

lemma wm_dbf_scan_soft_le:
  assumes "wm_dbf_scan k s w c rt step Lmax L = Some b" "unsplit s w c rt"
  shows "dbf_scan k (soft s) c rt step Lmax L = Some b"
proof -
  have "unsplit s w c rt \<longrightarrow> dbf_scan k (soft s) c rt step Lmax L = Some b"
    using assms(1)
  proof (rule wm_dbf_scan.raw_induct [rotated, where P = "\<lambda>k s w c rt step Lmax L b.
      unsplit s w c rt \<longrightarrow> dbf_scan k (soft s) c rt step Lmax L = Some b"])
    fix scan k s w c rt step Lmax L b
    assume "\<And>k s w c rt step Lmax L b. scan k s w c rt step Lmax L = Some b \<Longrightarrow>
        unsplit s w c rt \<longrightarrow> dbf_scan k (soft s) c rt step Lmax L = Some b"
      and "(if L \<le> Lmax then do { d \<leftarrow> wm_demand k s w c rt L;
        if d > L then Some False else scan k s w c rt step Lmax (L + step) } else Some True) = Some b"
    then show "unsplit s w c rt \<longrightarrow> dbf_scan k (soft s) c rt step Lmax L = Some b"
      by (subst dbf_scan.simps) (auto simp: wm_demand_soft split: if_splits bind_splits)
  qed
  then show ?thesis using assms(2) by simp
qed

lemma wm_dbf_scan_soft_ge:
  assumes "dbf_scan k (soft s) c rt step Lmax L = Some b" "unsplit s w c rt"
  shows "wm_dbf_scan k s w c rt step Lmax L = Some b"
proof -
  have "\<forall>s w. s' = soft s \<longrightarrow> unsplit s w c rt \<longrightarrow> wm_dbf_scan k s w c rt step Lmax L = Some b"
    if "dbf_scan k s' c rt step Lmax L = Some b" for s'
    using that
  proof (rule dbf_scan.raw_induct [rotated, where P = "\<lambda>k s' c rt step Lmax L b.
      \<forall>s w. s' = soft s \<longrightarrow> unsplit s w c rt \<longrightarrow> wm_dbf_scan k s w c rt step Lmax L = Some b"])
    fix scan k s' c rt step Lmax L b
    assume "\<And>k s' c rt step Lmax L b. scan k s' c rt step Lmax L = Some b \<Longrightarrow>
        \<forall>s w. s' = soft s \<longrightarrow> unsplit s w c rt \<longrightarrow> wm_dbf_scan k s w c rt step Lmax L = Some b"
      and "(if L \<le> Lmax then do { d \<leftarrow> dbf_demand k s' c rt L;
        if d > L then Some False else scan k s' c rt step Lmax (L + step) } else Some True) = Some b"
    then show "\<forall>s w. s' = soft s \<longrightarrow> unsplit s w c rt \<longrightarrow> wm_dbf_scan k s w c rt step Lmax L = Some b"
      by (subst wm_dbf_scan.simps) (auto simp: wm_demand_soft split: if_splits bind_splits)
  qed
  then show ?thesis using assms by blast
qed

lemma wm_dbf_scan_soft:
  "unsplit s w c rt \<Longrightarrow> wm_dbf_scan k s w c rt step Lmax L = dbf_scan k (soft s) c rt step Lmax L"
  using wm_dbf_scan_soft_le wm_dbf_scan_soft_ge by (metis not_None_eq)


lemma wm_scan_tasks_soft:
  assumes "unsplit s w c rt" "set ps \<subseteq> set (task_list s)"
  shows "wm_scan_tasks k s w c rt Lmax ps = dbf_scan_tasks k (soft s) c rt Lmax ps"
  using assms(2)
proof (induction ps)
  case (Cons p ps)
  then have "\<not> wm_split_on_cpu w p c" using assms(1) by (auto simp: unsplit_def)
  with Cons show ?case
    by (simp add: edf_wm_task_is_on_cpu_def wm_dbf_scan_soft [OF assms(1)] cong: if_cong)
qed simp

text \<open>C24: 
  where no task is split, the test of EDF-WM is the demand bound test of EDF-FF over the
  execution times instead of their worst cases, except that it refuses a task with which
  the utilisation of the CPU exceeds 100 percent.
\<close>

theorem wm_test_is_dbf_test:
  assumes "\<forall>p \<in> insert rt (set (task_list s)). wm_runtime (edf_wm_task w p) c = 0"
    and "deadline (tcb s rt) \<noteq> 0" "runtime (tcb s rt) \<noteq> 0"
  shows "wm_dbf_test k s w c rt = do {
    (x, u, d) \<leftarrow> wm_len_sums k s w c rt;
    if u > 100 then Some False else dbf_test k (soft s) c rt
  }"
proof -
  have u: "unsplit s w c rt" using assms(1) by (simp add: unsplit_def wm_split_on_cpu_def)
  show ?thesis
  proof (cases "wm_len_sums k s w c rt")
    case None
    then show ?thesis using assms(3) by (simp add: wm_dbf_test_def wm_dbf_len_def)
  next
    case (Some a)
    obtain x v d where a: "wm_len_sums k s w c rt = Some (x, v, d)" using Some by (cases a) auto
    then obtain y where y: "dbf_len_loop k (soft s) c (task_list s) (0, 0, 0) = Some y"
      "dbf_len_add k (soft s) rt y = Some (x, v, d)"
      unfolding wm_len_sums_soft [OF u] by (auto split: bind_splits)
    then have "deadline (tcb s rt) \<le> d"
      by (cases y) (auto simp: dbf_len_add_def max_ulong_def split: bind_splits if_splits)
    then have d: "d \<noteq> 0" using assms(2) by auto
    have pos: "max_ulong z d \<noteq> 0" for z using d by (auto simp: max_ulong_def)
    show ?thesis
      using y d pos assms(3) a
      by (simp add: wm_dbf_test_def dbf_test_def wm_dbf_len_def dbf_len_def wm_scan_tasks_soft [OF u]
          wm_dbf_scan_soft [OF u] cong: if_cong)
  qed
qed

text \<open>The overloaded CPU of EDF-FF, with execution times.\<close>

definition wm_overload :: core where
  "wm_overload = upd_task 6 (\<lambda>t. t\<lparr>runtime := 800000\<rparr>) (upd_task 5 (\<lambda>t. t\<lparr>runtime := 600000\<rparr>) overload)"

lemma wm_overload_facts:
  "task_list wm_overload = [5]" "cpu_id (tcb wm_overload 5) = 0" "cpu_id (tcb wm_overload 6) = 8"
  "period (tcb wm_overload 5) = 1000" "deadline (tcb wm_overload 5) = 1000" "runtime (tcb wm_overload 5) = 600000"
  "period (tcb wm_overload 6) = 1500" "deadline (tcb wm_overload 6) = 1500" "runtime (tcb wm_overload 6) = 800000"
  by (simp_all add: wm_overload_def overload_facts)

lemma wm_overload_sums: "wm_len_sums kernel0 wm_overload edf_wm0 0 6 = Some (0, 113, 1500)"
  by (simp add: wm_len_sums_def wm_overload_facts task_is_on_cpu_def wm_split_on_cpu_def edf_wm0_def wm_add_task_def
      wm_util_def div_ulong_def kernel0_ticks max_ulong_def)

theorem wm_test_is_dbf_test_witness:
  "wm_dbf_test kernel0 wm_overload edf_wm0 0 6 = Some False"
  using wm_test_is_dbf_test [of 6 wm_overload edf_wm0 0 kernel0]
  by (simp add: wm_overload_facts wm_overload_sums, simp add: edf_wm0_def)

section \<open>Tasks without a period\<close>

lemma wm_util_loop_none: "p \<in> set ps \<Longrightarrow> \<not> wm_split_on_cpu w p c \<Longrightarrow> task_is_on_cpu s p c \<Longrightarrow>
    wm_util k s p = None \<Longrightarrow> wm_len_loop k s w c ps a = None"
  by (induction ps arbitrary: a) (auto simp: wm_add_task_def split: bind_splits)

lemma worst_fit_none:
  "c \<in> set cs \<Longrightarrow> c \<in> cpus_allowed (task (tcb s rt)) \<Longrightarrow> wm_dbf_test k s w c rt = None \<Longrightarrow>
   wm_worst_fit_loop k s w rt cs b = None"
proof (induction cs arbitrary: b)
  case (Cons c' cs)
  then show ?case by (cases b) (auto split: bind_splits)
qed simp

text \<open>
  a task without a period is skipped when it is submitted, but nothing keeps the period of
  an admitted task from being set to 0: the next submission of a periodic task that may run
  on its CPU then divides by zero.
\<close>

theorem aperiodic_task_crashes_admission:
  assumes "p \<in> set (task_list s)" "period (tcb s p) = 0" "task_is_on_cpu s p c" "c < NR_RT_CPUS"
    and "jiffies_to_usecs k 0 = 0" "wm_runtime (edf_wm_task w p) c = 0" "p \<noteq> rt"
    and "c \<in> cpus_allowed (task (tcb s rt))" "period (tcb s rt) \<noteq> 0" "runtime (tcb s rt) \<noteq> 0"
  shows "wm_task_run False k dlset rt (s, w) = None"
proof -
  let ?w = "wm_clear_split_task rt w"
  have "\<not> wm_split_on_cpu ?w p c" using assms(6,7) by (simp add: wm_split_on_cpu_def wm_clear_split_task_def)
  moreover have "wm_util k s p = None" using assms(2,5) by (simp add: wm_util_def div_ulong_def)
  ultimately have "wm_dbf_test k s ?w c rt = None"
    using wm_util_loop_none [OF assms(1)] assms(3,10) by (simp add: wm_dbf_test_def wm_dbf_len_def wm_len_sums_def)
  then have "wm_partition False k s ?w rt = None"
    using worst_fit_none [of c "[0..<NR_RT_CPUS]"] assms(4,8) by (simp add: wm_partition_def wm_cpu_worst_fit_def)
  then show ?thesis using assms(9) by (simp add: wm_task_run_def)
qed

theorem aperiodic_task_crashes_admission_witness:
  "wm_task_run False kernel0 (\<lambda>_ _ t. t) 6 (upd_task 5 (\<lambda>t. t\<lparr>period := 0\<rparr>) wm_overload, edf_wm0) = None"
  by (rule aperiodic_task_crashes_admission [of 5 _ 0])
    (simp_all add: wm_overload_facts task_is_on_cpu_def kernel0_ticks edf_wm0_def,
     simp_all add: wm_overload_def overload_facts NR_RT_CPUS_def)

section \<open>The unit of the shares\<close>

text \<open>
  the share of a split task is in jiffies and its period in microseconds when EDF-WM adds
  up utilisations: where a jiffy is a millisecond, a share as long as the whole period
  counts nothing.
\<close>

theorem split_share_counts_nothing:
  assumes "jiffies_to_usecs k (period (tcb s p)) = period (tcb s p) * 1000"
    and "period (tcb s p) \<noteq> 0" "unat (period (tcb s p)) * 1000 < 2 ^ 64"
    and "wm_runtime (edf_wm_task w p) c \<le> period (tcb s p)"
  shows "wm_util_split k s w p c = Some 0"
proof -
  let ?P = "period (tcb s p)" and ?R = "wm_runtime (edf_wm_task w p) c"
  have P: "0 < unat ?P" using assms(2) by (simp add: unat_gt_0)
  have d: "unat (?P * 1000) = unat ?P * 1000"
    using unat_mult_lem [of ?P 1000] assms(3) by simp
  have "100 * unat ?R < 2 ^ 64" using assms(3,4) by (simp add: word_le_nat_alt)
  then have n: "unat (100 * ?R) = 100 * unat ?R" using unat_mult_lem [of 100 ?R] by simp
  have "100 * unat ?R < unat ?P * 1000" using P assms(4) by (simp add: word_le_nat_alt)
  then have "100 * ?R < ?P * 1000" by (simp add: word_less_nat_alt d n)
  moreover have "?P * 1000 \<noteq> 0" using d P by auto
  ultimately show ?thesis using assms(1) by (simp add: wm_util_split_def div_ulong_def div_word_less)
qed

theorem split_share_counts_nothing_witness:
  "wm_util_split kernel0 wm_overload (set_share 5 0 1000 edf_wm0) 5 0 = Some 0"
  by (rule split_share_counts_nothing) (simp_all add: wm_overload_facts kernel0_ticks set_share_def)

end
