(* ===== verification/Window_Split.thy ===== *)
theory Window_Split
  imports Hybrid_EDF
begin

text \<open>
  What EDF-WM hands out when it splits a task, a split that goes wrong, and how a split task
  moves from one window to the next.
\<close>

section \<open>What a split hands out\<close>

text \<open>The computation of a share changes nothing but shares of the task.\<close>

definition only_shares :: "rid \<Rightarrow> edf_wm \<Rightarrow> edf_wm \<Rightarrow> bool" where
  "only_shares r w w' \<longleftrightarrow> (\<exists>f. w' = upd_wm r (\<lambda>e. e\<lparr>wm_runtime := f\<rparr>) w)"

lemma only_sharesD:
  assumes "only_shares r w w'"
  shows "wm_first (et w' r) = wm_first (et w r)" "wm_last (et w' r) = wm_last (et w r)"
    "wm_deadline (et w' r) = wm_deadline (et w r)" "wm_rt (et w' r) = wm_rt (et w r)"
    "r' \<noteq> r \<Longrightarrow> et w' r' = et w r'"
  using assms by (auto simp: only_shares_def)

lemma only_shares_refl [simp]: "only_shares r w w"
  unfolding only_shares_def by (rule exI [of _ "wm_runtime (et w r)"]) (simp add: upd_wm_def)

lemma only_shares_trans: "only_shares r w w' \<Longrightarrow> only_shares r w' w'' \<Longrightarrow> only_shares r w w''"
  by (auto simp: only_shares_def upd_wm_def)

lemma only_shares_set [simp]: "only_shares r w (set_share r c x w)"
  by (auto simp: only_shares_def set_share_def upd_wm_def)

lemma split_scan_only_shares:
  "split_scan k s rt c step L Lmax least w = Some (out, l, m, w') \<Longrightarrow> only_shares rt w w'"
proof -
  have "only_shares rt w (snd (snd (snd y)))" if "split_scan k s rt c step L Lmax least w = Some y" for y
    using that
  proof (rule split_scan.raw_induct [rotated, where P = "\<lambda>k s rt c step L Lmax least w y.
      only_shares rt w (snd (snd (snd y)))"])
    fix scan k s rt c step L Lmax least w y
    assume IH: "\<And>k s rt c step L Lmax least w y. scan k s rt c step L Lmax least w = Some y \<Longrightarrow>
        only_shares rt w (snd (snd (snd y)))"
      and e: "(if L \<le> Lmax
      then do {
        d \<leftarrow> wm_dbf_cpu k s w L c;
        ov \<leftarrow> wm_overhead k s rt L c;
        n \<leftarrow> div_ulong (L - wm_deadline (et w rt)) (period (tcb s rt));
        x \<leftarrow> div_ulong (L - (d + ov)) (n + 1);
        if x \<le> least
        then if x = 0 then Some (True, 0, Lmax, w)
             else do {
               Lmax' \<leftarrow> wm_dbf_len k s (set_share rt c x w) c rt;
               scan k s rt c step (L + step) Lmax' x (set_share rt c 0 w)
             }
        else scan k s rt c step (L + step) Lmax least w
      }
      else Some (False, least, Lmax, w)) = Some y"
    show "only_shares rt w (snd (snd (snd y)))"
      using e by (auto split: if_splits bind_splits dest!: IH intro: only_shares_trans [OF only_shares_set])
  qed
  then show "split_scan k s rt c step L Lmax least w = Some (out, l, m, w') \<Longrightarrow> only_shares rt w w'" by force
qed

lemma split_scan_tasks_only_shares:
  "split_scan_tasks k s rt c ps Lmax least w = Some (out, l, m, w') \<Longrightarrow> only_shares rt w w'"
proof (induction ps arbitrary: Lmax least w)
  case (Cons p ps)
  then show ?case
    by (auto simp: Let_def split: if_splits bind_splits prod.splits dest!: Cons.IH
        dest: split_scan_only_shares intro: only_shares_trans)
qed simp

lemma set_split_runtime_only_shares: "set_split_runtime k s rt c w = Some w' \<Longrightarrow> only_shares rt w w'"
  by (auto simp: set_split_runtime_def Let_def split: if_splits bind_splits prod.splits
      dest!: split_scan_only_shares split_scan_tasks_only_shares intro: only_shares_trans)

lemma split_offers_only_shares: "split_offers k s rt cs w = Some w' \<Longrightarrow> only_shares rt w w'"
  by (induction cs arbitrary: w) (auto split: bind_splits dest!: set_split_runtime_only_shares intro: only_shares_trans)

text \<open>The first and the last CPU enclose the positive shares of a set of CPUs.\<close>

definition encloses :: "edf_wm_task \<Rightarrow> cpu set \<Rightarrow> bool" where
  "encloses e S \<longleftrightarrow> (\<forall>c\<in>S. wm_runtime e c > 0 \<longrightarrow> wm_first e \<le> c \<and> c \<le> wm_last e) \<and>
     (wm_first e = RESCH_CPU_UNDEFINED \<and> wm_last e = RESCH_CPU_UNDEFINED \<and> (\<forall>c\<in>S. wm_runtime e c = 0) \<or>
      wm_first e \<in> S \<and> wm_last e \<in> S \<and> wm_first e \<le> wm_last e \<and> wm_runtime e (wm_last e) > 0)"

definition select_one :: "cpu \<Rightarrow> edf_wm_task \<Rightarrow> edf_wm_task" where
  "select_one c e =
     (let x = min (wm_runtime e c) (wm_deadline e); e = e\<lparr>wm_runtime := (wm_runtime e)(c := x)\<rparr>
      in if x > 0
         then e\<lparr>wm_first := (if wm_first e = RESCH_CPU_UNDEFINED \<or> wm_first e > c then c else wm_first e),
                wm_last := (if wm_last e = RESCH_CPU_UNDEFINED \<or> wm_last e < c then c else wm_last e)\<rparr>
         else e)"

lemma split_select_Cons:
  "split_select rt (c # cs) summed w =
     split_select rt cs (summed + min (wm_runtime (et w rt) c) (wm_deadline (et w rt))) (upd_wm rt (select_one c) w)"
  by (simp add: select_one_def set_share_def upd_wm_def Let_def)

lemma select_one_simps:
  "wm_runtime (select_one c e) = (wm_runtime e)(c := min (wm_runtime e c) (wm_deadline e))"
  "wm_deadline (select_one c e) = wm_deadline e" "wm_rt (select_one c e) = wm_rt e"
  by (simp_all add: select_one_def Let_def)

lemma select_one_encloses:
  assumes "encloses e S" "c \<notin> S" "c < NR_RT_CPUS" "S \<subseteq> {..<NR_RT_CPUS}"
  shows "encloses (select_one c e) (insert c S)"
proof (cases "min (wm_runtime e c) (wm_deadline e) > 0")
  case False
  then have "min (wm_runtime e c) (wm_deadline e) = 0" by (auto simp: min_def word_gt_0)
  then show ?thesis using assms by (auto simp: encloses_def select_one_def Let_def)
next
  case True
  have u: "c \<noteq> RESCH_CPU_UNDEFINED" "\<forall>d\<in>S. d \<noteq> RESCH_CPU_UNDEFINED" "\<forall>d\<in>S. d \<noteq> c"
    using assms(2-4) by (auto simp: RESCH_CPU_UNDEFINED_def)
  show ?thesis using assms(1) u True by (auto simp: encloses_def select_one_def Let_def)
qed

lemma split_select_spec:
  assumes "split_select rt cs summed w = (summed', w')" "distinct cs" "set cs \<inter> S = {}"
    "set cs \<union> S \<subseteq> {..<NR_RT_CPUS}" "encloses (et w rt) S"
  shows "encloses (et w' rt) (set cs \<union> S) \<and> wm_deadline (et w' rt) = wm_deadline (et w rt) \<and>
    summed' = summed + (\<Sum>c\<in>set cs. wm_runtime (et w' rt) c) \<and>
    (\<forall>c\<in>set cs. wm_runtime (et w' rt) c \<le> wm_deadline (et w rt)) \<and>
    (\<forall>c. c \<notin> set cs \<longrightarrow> wm_runtime (et w' rt) c = wm_runtime (et w rt) c)"
  using assms
proof (induction cs arbitrary: summed w S)
  case (Cons c cs)
  let ?w = "upd_wm rt (select_one c) w" and ?x = "min (wm_runtime (et w rt) c) (wm_deadline (et w rt))"
  have e: "encloses (et ?w rt) (insert c S)" using select_one_encloses [OF Cons.prems(5)] Cons.prems(3,4) by simp
  have "split_select rt cs (summed + ?x) ?w = (summed', w')" using Cons.prems(1) by (simp only: split_select_Cons)
  from Cons.IH [OF this _ _ _ e] Cons.prems(2-4)
  have s: "encloses (et w' rt) (set cs \<union> insert c S)" "wm_deadline (et w' rt) = wm_deadline (et ?w rt)"
    "summed' = summed + ?x + (\<Sum>c\<in>set cs. wm_runtime (et w' rt) c)"
    "\<forall>c\<in>set cs. wm_runtime (et w' rt) c \<le> wm_deadline (et ?w rt)"
    "\<forall>d. d \<notin> set cs \<longrightarrow> wm_runtime (et w' rt) d = wm_runtime (et ?w rt) d" by auto
  have "wm_runtime (et w' rt) c = ?x" using s(5) Cons.prems(2) by (simp add: select_one_simps)
  then show ?case using s Cons.prems(2) by (auto simp: select_one_simps)
qed simp


lemma zero_shares:
  "wm_runtime (et (fold (\<lambda>c. set_share r c 0) cs w) r) c = (if c \<in> set cs then 0 else wm_runtime (et w r) c)"
  "wm_first (et (fold (\<lambda>c. set_share r c 0) cs w) r) = wm_first (et w r)"
  "wm_last (et (fold (\<lambda>c. set_share r c 0) cs w) r) = wm_last (et w r)"
  "wm_deadline (et (fold (\<lambda>c. set_share r c 0) cs w) r) = wm_deadline (et w r)"
  "wm_rt (et (fold (\<lambda>c. set_share r c 0) cs w) r) = wm_rt (et w r)"
  by (induction cs arbitrary: w) (simp_all add: set_share_def)

definition cleared :: "edf_wm_task \<Rightarrow> bool" where
  "cleared e \<longleftrightarrow> wm_first e = RESCH_CPU_UNDEFINED \<and> wm_last e = RESCH_CPU_UNDEFINED \<and> wm_deadline e = 0 \<and>
     (\<forall>c<NR_RT_CPUS. wm_runtime e c = 0)"

lemma cleared_clear [simp]: "cleared (et (wm_clear_split_task r w) r)"
  by (simp add: cleared_def wm_clear_split_task_def)

text \<open>
  A split over \<open>num\<close> CPUs that offered \<open>summed\<close> together, of which \<open>over\<close> was taken from the
  last. The offers are natural numbers, and so are the shares: the offers of at most a window
  each add up without wrapping around; what is over may exceed the offer of the last CPU, and
  only then its share wraps around.
\<close>

definition window_split :: "kenv \<Rightarrow> core \<Rightarrow> rid \<Rightarrow> edf_wm_task \<Rightarrow> nat \<Rightarrow> u64 \<Rightarrow> bool" where
  "window_split k s rt e num summed \<longleftrightarrow>
     (let over = unat (usecs_to_jiffies k (jiffies_to_usecs k summed - runtime (tcb s rt))); l = wm_last e in
      wm_rt e = Some rt \<and> wm_deadline e = deadline (tcb s rt) div of_nat num \<and>
      runtime (tcb s rt) \<le> jiffies_to_usecs k summed \<and> wm_first e \<le> l \<and> l < NR_RT_CPUS \<and>
      (\<exists>offer :: cpu \<Rightarrow> nat. (\<forall>c<NR_RT_CPUS. offer c \<le> unat (wm_deadline e)) \<and>
         (\<Sum>c<NR_RT_CPUS. offer c) = unat summed \<and> 0 < offer l \<and>
         (\<forall>c<NR_RT_CPUS. c \<noteq> l \<longrightarrow> unat (wm_runtime e c) = offer c) \<and>
         (if over \<le> offer l
          then unat (wm_runtime e l) = offer l - over \<and> (\<Sum>c<NR_RT_CPUS. unat (wm_runtime e c)) + over = unat summed
          else unat (wm_runtime e l) = 2 ^ 64 - (over - offer l))) \<and>
      (\<forall>c<NR_RT_CPUS. wm_runtime e c > 0 \<longrightarrow> wm_first e \<le> c \<and> c \<le> l) \<and>
      card {c. c < NR_RT_CPUS \<and> wm_runtime e c > 0} \<le> num)"

lemma window_total:
  fixes f :: "cpu \<Rightarrow> u64"
  assumes "finite S" "card S \<le> num" "0 < num" "num \<le> NR_RT_CPUS" "\<forall>c\<in>S. f c \<le> D div of_nat num"
  shows "unat (\<Sum>c\<in>S. f c) = (\<Sum>c\<in>S. unat (f c))"
proof (rule unat_sum_words [OF assms(1)])
  have "num < 2 ^ 64" using assms(4) by (simp add: NR_RT_CPUS_def)
  then have d: "unat (D div of_nat num) = unat D div num" by (simp add: unat_div unat_of_nat take_bit_nat_eq_self)
  have "(\<Sum>c\<in>S. unat (f c)) \<le> (\<Sum>c\<in>S. unat D div num)"
    using assms(5) d by (intro sum_mono) (simp add: word_le_nat_alt)
  also have "\<dots> \<le> num * (unat D div num)" using assms(2) by simp
  also have "\<dots> \<le> unat D" by simp
  also have "\<dots> < 2 ^ LENGTH(64)" by (rule unsigned_less)
  finally show "(\<Sum>c\<in>S. unat (f c)) < 2 ^ LENGTH(64)" .
qed

lemma split_finish_spec:
  assumes "split_finish k s rt num ids summed w = Some w'" "encloses (et w rt) (set (take num ids))"
    "set ids = {..<NR_RT_CPUS}" "distinct ids" "num \<le> length ids" "0 < num" "num \<le> NR_RT_CPUS"
    "summed = (\<Sum>c\<in>set (take num ids). wm_runtime (et w rt) c)"
    "\<forall>c\<in>set (take num ids). wm_runtime (et w rt) c \<le> wm_deadline (et w rt)"
    "wm_deadline (et w rt) = deadline (tcb s rt) div of_nat num" "runtime (tcb s rt) \<le> jiffies_to_usecs k summed"
  shows "window_split k s rt (et w' rt) num summed"
proof -
  let ?S = "set (take num ids)" and ?e = "et w rt" and ?e' = "et w' rt"
  let ?over = "usecs_to_jiffies k (jiffies_to_usecs k summed - runtime (tcb s rt))"
  let ?l = "wm_last ?e"
  have l: "?l < NR_RT_CPUS" using assms(1) by (auto simp: split_finish_def Let_def guard_c_def split: bind_splits if_splits)
  have parts: "set (drop num ids) = {..<NR_RT_CPUS} - ?S"
  proof -
    have "set (take num ids) \<union> set (drop num ids) = {..<NR_RT_CPUS}"
      using assms(3) by (metis append_take_drop_id set_append)
    moreover have "set (take num ids) \<inter> set (drop num ids) = {}"
      using assms(4) by (metis append_take_drop_id distinct_append)
    ultimately show ?thesis by blast
  qed
  have S: "?S \<subseteq> {..<NR_RT_CPUS}" using assms(3) set_take_subset [of num ids] by simp
  have w': "w' = fold (\<lambda>c. set_share rt c 0) (drop num ids)
      (upd_wm rt (\<lambda>e. e\<lparr>wm_rt := Some rt\<rparr>) (set_share rt ?l (wm_runtime ?e ?l - ?over) w))"
    using assms(1) l by (simp add: split_finish_def Let_def)
  have e: "wm_first ?e' = wm_first ?e" "wm_last ?e' = ?l" "wm_deadline ?e' = wm_deadline ?e" "wm_rt ?e' = Some rt"
    "\<And>c. wm_runtime ?e' c = (if c \<in> set (drop num ids) then 0
       else if c = ?l then wm_runtime ?e ?l - ?over else wm_runtime ?e c)"
    unfolding w' zero_shares by (simp_all add: set_share_def)
  have hull: "wm_first ?e \<in> ?S" "?l \<in> ?S" "wm_first ?e \<le> ?l" "wm_runtime ?e ?l > 0"
    "\<forall>c\<in>?S. wm_runtime ?e c > 0 \<longrightarrow> wm_first ?e \<le> c \<and> c \<le> ?l"
    using assms(2) l by (auto simp: encloses_def RESCH_CPU_UNDEFINED_def)
  have r: "wm_runtime ?e' c = (if c = ?l then wm_runtime ?e ?l - ?over else wm_runtime ?e c)" if "c \<in> ?S" for c
    using that parts e(5) by simp
  have z: "wm_runtime ?e' c = 0" if "c < NR_RT_CPUS" "c \<notin> ?S" for c using that parts e(5) by simp
  define offer where "offer c = (if c \<in> ?S then unat (wm_runtime ?e c) else 0)" for c
  have "card ?S \<le> num" using card_length [of "take num ids"] by simp
  then have "unat summed = (\<Sum>c\<in>?S. unat (wm_runtime ?e c))"
    using window_total [of ?S num "wm_runtime ?e" "deadline (tcb s rt)"] assms(6-10) by simp
  also have "\<dots> = (\<Sum>c<NR_RT_CPUS. offer c)"
    using S by (intro sum.mono_neutral_cong_left) (auto simp: offer_def)
  finally have total: "(\<Sum>c<NR_RT_CPUS. offer c) = unat summed" ..
  have rest: "unat (wm_runtime ?e' c) = offer c" if "c < NR_RT_CPUS" "c \<noteq> ?l" for c
    using that r z by (simp add: offer_def)
  have last: "wm_runtime ?e' ?l = wm_runtime ?e ?l - ?over" "offer ?l = unat (wm_runtime ?e ?l)"
    using r hull(2) by (simp_all add: offer_def)
  have taken: "if unat ?over \<le> offer ?l
      then unat (wm_runtime ?e' ?l) = offer ?l - unat ?over \<and>
        (\<Sum>c<NR_RT_CPUS. unat (wm_runtime ?e' c)) + unat ?over = unat summed
      else unat (wm_runtime ?e' ?l) = 2 ^ 64 - (unat ?over - offer ?l)"
  proof (cases "unat ?over \<le> offer ?l")
    case True
    then have u: "unat (wm_runtime ?e' ?l) = offer ?l - unat ?over"
      unfolding last by (simp add: unat_sub word_le_nat_alt)
    have "(\<Sum>c<NR_RT_CPUS. unat (wm_runtime ?e' c)) =
        unat (wm_runtime ?e' ?l) + (\<Sum>c\<in>{..<NR_RT_CPUS} - {?l}. unat (wm_runtime ?e' c))"
      using l by (simp add: sum.remove)
    also have "(\<Sum>c\<in>{..<NR_RT_CPUS} - {?l}. unat (wm_runtime ?e' c)) = (\<Sum>c\<in>{..<NR_RT_CPUS} - {?l}. offer c)"
      using rest by (intro sum.cong) auto
    also have "unat (wm_runtime ?e' ?l) + \<dots> + unat ?over = offer ?l + (\<Sum>c\<in>{..<NR_RT_CPUS} - {?l}. offer c)"
      using True u by simp
    also have "\<dots> = unat summed" using l total by (simp add: sum.remove)
    finally show ?thesis using True u by simp
  next
    case False
    then show ?thesis using unat_minus_wraps [of "wm_runtime ?e ?l" ?over] last by simp
  qed
  have "card {c. c < NR_RT_CPUS \<and> wm_runtime ?e' c > 0} \<le> card ?S"
    using z by (intro card_mono) (auto simp: word_gt_0)
  then have "card {c. c < NR_RT_CPUS \<and> wm_runtime ?e' c > 0} \<le> num"
    using card_length [of "take num ids"] by simp
  moreover have "offer c \<le> unat (wm_deadline ?e)" for c
    using assms(9) by (simp add: offer_def word_le_nat_alt)
  moreover have "0 < offer ?l" using hull(4) last(2) by (simp add: word_less_nat_alt)
  moreover have "wm_first ?e \<le> c \<and> c \<le> ?l" if "c < NR_RT_CPUS" "wm_runtime ?e' c > 0" for c
    using that r [of c] z [of c] hull(3,5) by (cases "c \<in> ?S"; cases "c = ?l") auto
  ultimately show ?thesis
    using total rest taken hull(3) l assms(10,11) unfolding window_split_def e(1-4) Let_def by blast
qed

lemma split_numbers_step:
  assumes "split_offers k s rt [0..<NR_RT_CPUS] (upd_wm rt (\<lambda>e. e\<lparr>wm_deadline := deadline (tcb s rt) div of_nat num\<rparr>) w) = Some w1"
    and "split_select rt (take num (sort_runtime (wm_runtime (et w1 rt)))) 0 w1 = (summed, w2)"
  shows "split_numbers k s rt (num # nums) w =
    (if runtime (tcb s rt) \<le> jiffies_to_usecs k summed
     then split_finish k s rt num (sort_runtime (wm_runtime (et w1 rt))) summed w2 \<bind> (\<lambda>w. Some (wm_first (et w rt), w))
     else split_numbers k s rt nums (wm_clear_split_task rt w2))"
  using assms by (simp add: Let_def)

lemma split_numbers_spec:
  assumes "split_numbers k s rt nums w = Some (dst, w')" "set nums \<subseteq> {0<..NR_RT_CPUS}" "cleared (et w rt)"
  shows "dst = RESCH_CPU_UNDEFINED \<and> cleared (et w' rt) \<or>
    dst = wm_first (et w' rt) \<and> (\<exists>num\<in>set nums. \<exists>summed. window_split k s rt (et w' rt) num summed)"
  using assms
proof (induction nums arbitrary: w)
  case (Cons num nums)
  define w0 where "w0 = upd_wm rt (\<lambda>e. e\<lparr>wm_deadline := deadline (tcb s rt) div of_nat num\<rparr>) w"
  obtain w1 where w1: "split_offers k s rt [0..<NR_RT_CPUS] w0 = Some w1"
    using Cons.prems(1) by (auto simp: w0_def Let_def split: bind_splits)
  define ids where "ids = sort_runtime (wm_runtime (et w1 rt))"
  obtain summed w2 where w2: "split_select rt (take num ids) 0 w1 = (summed, w2)" by fastforce
  have run: "split_numbers k s rt (num # nums) w =
    (if runtime (tcb s rt) \<le> jiffies_to_usecs k summed
     then split_finish k s rt num ids summed w2 \<bind> (\<lambda>w. Some (wm_first (et w rt), w))
     else split_numbers k s rt nums (wm_clear_split_task rt w2))"
    using split_numbers_step [OF w1 [unfolded w0_def] w2 [unfolded ids_def]] by (simp only: ids_def)
  show ?case
  proof (cases "runtime (tcb s rt) \<le> jiffies_to_usecs k summed")
    case False
    then show ?thesis using Cons.IH [of "wm_clear_split_task rt w2"] Cons.prems(1,2) run by auto
  next
    case True
    note o = only_sharesD [OF split_offers_only_shares [OF w1]]
    have e1: "encloses (et w1 rt) {}" using o Cons.prems(3) by (simp add: encloses_def cleared_def w0_def)
    have ids: "set ids = {..<NR_RT_CPUS}" "distinct ids" "length ids = NR_RT_CPUS"
      by (simp_all add: ids_def sort_runtime_set)
    have "set (take num ids) \<union> {} \<subseteq> {..<NR_RT_CPUS}" using ids(1) set_take_subset [of num ids] by simp
    from split_select_spec [OF w2 _ _ this e1] ids(2) o(3)
    have sel: "encloses (et w2 rt) (set (take num ids))" "wm_deadline (et w2 rt) = deadline (tcb s rt) div of_nat num"
      "summed = (\<Sum>c\<in>set (take num ids). wm_runtime (et w2 rt) c)"
      "\<forall>c\<in>set (take num ids). wm_runtime (et w2 rt) c \<le> wm_deadline (et w2 rt)" by (auto simp: w0_def)
    obtain w3 where w3: "split_finish k s rt num ids summed w2 = Some w3" "w' = w3" "dst = wm_first (et w3 rt)"
      using Cons.prems(1) run True by (auto split: bind_splits)
    have "num \<le> length ids" using Cons.prems(2) ids(3) by simp
    then have "window_split k s rt (et w3 rt) num summed"
      using split_finish_spec [OF w3(1) sel(1) ids(1,2) _ _ _ sel(3,4,2) True] Cons.prems(2) by auto
    then show ?thesis using w3 by auto
  qed
qed simp

text \<open>C22: 
  a split of EDF-WM divides the deadline by the number of CPUs it uses. The CPUs offer at most
  a window each and together, as a sum that does not wrap around, at least the execution time;
  each CPU but the last is given its offer, and what is over is taken from the last. When its
  offer is large enough the shares, as natural numbers, add up to the offer without what is
  over; otherwise the share of the last CPU wraps around. The task goes to the first CPU, all
  shares lie between the first and the last. When there is no split nothing is left over.
\<close>

theorem split_windows_cover_execution:
  assumes "wm_split k s rt (wm_clear_split_task rt w) = Some (dst, w')"
  shows "dst = RESCH_CPU_UNDEFINED \<and> \<not> wm_task_is_split w' rt \<and> (\<forall>c<NR_RT_CPUS. wm_runtime (et w' rt) c = 0) \<or>
    dst = wm_first (et w' rt) \<and> (\<exists>num summed. 2 \<le> num \<and> num \<le> NR_RT_CPUS \<and>
      window_split k s rt (et w' rt) num summed)"
proof -
  have "set [2..<NR_RT_CPUS + 1] \<subseteq> {0<..NR_RT_CPUS}" by auto
  from split_numbers_spec [OF assms [unfolded wm_split_def] this cleared_clear]
  show ?thesis by (fastforce simp: cleared_def wm_task_is_split_def)
qed

section \<open>A pinned task\<close>

text \<open>
  A task of execution time \<open>C\<close> that may run on CPU 0 only, which another task fills. Its period
  and its deadline are 10 ticks.
\<close>

definition pinned :: "u64 \<Rightarrow> core" where
  "pinned C = global_list_insert 6 (upd_task 6 (\<lambda>t. t\<lparr>period := 10, deadline := 10, runtime := C, prio := 50,
       cpu_id := 8, task := (task t)\<lparr>cpus_allowed := {0}\<rparr>\<rparr>)
     (global_list_insert 5 (upd_task 5 (\<lambda>t. t\<lparr>period := 10, deadline := 10, runtime := 10000, prio := 60\<rparr>) boot)))"

lemma pinned_facts:
  "task_list (pinned C) = [5, 6]" "cpu_id (tcb (pinned C) 5) = 0" "cpu_id (tcb (pinned C) 6) = 8"
  "period (tcb (pinned C) 5) = 10" "deadline (tcb (pinned C) 5) = 10" "runtime (tcb (pinned C) 5) = 10000"
  "period (tcb (pinned C) 6) = 10" "deadline (tcb (pinned C) 6) = 10" "runtime (tcb (pinned C) 6) = C"
  "migratory (tcb (pinned C) r) = False" "cpus_allowed (task (tcb (pinned C) 6)) = {0}"
  "switch_cost (pinned C) = 20" "release_cost (pinned C) = 5" "migration_cost (pinned C) = 20"
  by (simp_all add: pinned_def global_list_insert_def locked_global_list_insert_def boot_defs higher_prio_def)

lemmas pinned_eval = pinned_facts kernel0_ticks task_is_on_cpu_def wm_split_on_cpu_def edf_wm_task_is_on_cpu_def
  div_ulong_def max_ulong_def Let_def wm_util_def wm_util_split_def wm_util_cpu_def wm_dbf_cpu_def wm_dbf_task_def
  wm_overhead_def sched_overhead_cpu_def sched_overhead_task_def div_round_up_def wm_dbf_len_def wm_len_sums_def
  wm_add_split_def wm_add_task_def

lemma full_offer:
  assumes "wm_runtime (et w 5) 0 = 0" "wm_runtime (et w 6) 0 = 0" "wm_deadline (et w 6) = 5"
  shows "set_split_runtime kernel0 (pinned C) 6 0 w = Some (set_share 6 0 0 w)"
  using assms by (simp add: set_split_runtime_def pinned_eval split_scan.simps)

lemma idle_offer:
  assumes "wm_runtime (et w 5) c = 0" "wm_runtime (et w 6) c = 0" "wm_deadline (et w 6) = 5" "c \<noteq> 0" "c < 8"
  shows "set_split_runtime kernel0 (pinned C) 6 c w = Some (set_share 6 c 5 w)"
proof -
  have s: "wm_dbf_len kernel0 (pinned C) (set_share 6 c 5 w) c 6 = Some 5"
    using assms by (simp add: pinned_eval set_share_def)
  have stop: "split_scan kernel0 (pinned C) 6 c 10 15 5 5 (set_share 6 c 0 w) = Some (False, 5, 5, set_share 6 c 0 w)"
    by (subst split_scan.simps) simp
  have d: "wm_dbf_cpu kernel0 (pinned C) w 5 c = Some 0" "wm_overhead kernel0 (pinned C) 6 5 c = Some 0"
    "wm_util_cpu kernel0 (pinned C) w c = Some 0" using assms by (simp_all add: pinned_eval)
  have "split_scan kernel0 (pinned C) 6 c 10 5 Lmax 10 w = Some (False, 5, 5, set_share 6 c 0 w)" if "5 \<le> Lmax" for Lmax
    by (subst split_scan.simps) (simp add: that d s stop assms(3) div_ulong_def pinned_facts)
  moreover have "set_share 6 c 5 (set_share 6 c 0 w) = set_share 6 c 5 w" by (simp add: set_share_def upd_wm_def)
  ultimately show ?thesis
    using assms by (simp add: set_split_runtime_def d pinned_facts task_is_on_cpu_def wm_split_on_cpu_def Let_def)
qed


lemma cpus_upt: "[0..<NR_RT_CPUS] = [0, 1, 2, 3, 4, 5, 6, 7]"
  by (simp add: NR_RT_CPUS_def upt_rec)

lemma offers:
  assumes "\<forall>c. wm_runtime (et w 5) c = 0" "\<forall>c<8. wm_runtime (et w 6) c = 0" "wm_deadline (et w 6) = 5"
  shows "split_offers kernel0 (pinned C) 6 [0, 1, 2, 3, 4, 5, 6, 7] w =
    Some (fold (\<lambda>c. set_share 6 c 5) [1, 2, 3, 4, 5, 6, 7] (set_share 6 0 0 w))"
  using assms by (simp add: full_offer idle_offer set_share_def)


lemma sort_offers:
  assumes "f 0 = 0" "f 1 = 5" "f 2 = 5" "f 3 = 5" "f 4 = 5" "f 5 = 5" "f 6 = 5" "f 7 = (5 :: u64)"
  shows "sort_runtime f = [1, 2, 3, 4, 5, 6, 7, 0]"
proof -
  have "[0..<NR_RT_CPUS - 1] = [0, 1, 2, 3, 4, 5, 6]" by (simp add: NR_RT_CPUS_def upt_rec)
  moreover have "[0 + 1..<NR_RT_CPUS] = [1, 2, 3, 4, 5, 6, 7]" "[1 + 1..<NR_RT_CPUS] = [2, 3, 4, 5, 6, 7]"
    "[2 + 1..<NR_RT_CPUS] = [3, 4, 5, 6, 7]" "[3 + 1..<NR_RT_CPUS] = [4, 5, 6, 7]" "[4 + 1..<NR_RT_CPUS] = [5, 6, 7]"
    "[5 + 1..<NR_RT_CPUS] = [6, 7]" "[6 + 1..<NR_RT_CPUS] = [7]" by (simp_all add: NR_RT_CPUS_def upt_rec)
  ultimately show ?thesis
    using assms unfolding sort_runtime_def sort_pass_def cpus_upt by (simp add: sort_step_def)
qed

lemma pinned_split:
  assumes "C \<le> 10000"
  shows "\<exists>w. wm_split kernel0 (pinned C) 6 (wm_clear_split_task 6 edf_wm0) = Some (1, w) \<and>
     wm_runtime (et w 6) 1 = 5 \<and> wm_runtime (et w 6) 2 = 5 - usecs_to_jiffies kernel0 (10000 - C)"
proof -
  let ?w = "upd_wm 6 (\<lambda>e. e\<lparr>wm_deadline := 5\<rparr>) (wm_clear_split_task 6 edf_wm0)"
  define w1 where "w1 = fold (\<lambda>c. set_share 6 c 5) [1, 2, 3, 4, 5, 6, 7] (set_share 6 0 0 ?w)"
  have o: "split_offers kernel0 (pinned C) 6 [0, 1, 2, 3, 4, 5, 6, 7] ?w = Some w1"
    unfolding w1_def by (rule offers) (simp_all add: wm_clear_split_task_def edf_wm0_def NR_RT_CPUS_def)
  have w1: "wm_runtime (et w1 6) 0 = 0" "wm_runtime (et w1 6) 1 = 5" "wm_runtime (et w1 6) 2 = 5"
    "wm_runtime (et w1 6) 3 = 5" "wm_runtime (et w1 6) 4 = 5" "wm_runtime (et w1 6) 5 = 5"
    "wm_runtime (et w1 6) 6 = 5" "wm_runtime (et w1 6) 7 = 5" "wm_deadline (et w1 6) = 5"
    "wm_first (et w1 6) = 8" "wm_last (et w1 6) = 8"
    by (simp_all add: w1_def set_share_def wm_clear_split_task_def RESCH_CPU_UNDEFINED_def NR_RT_CPUS_def)
  note ids = sort_offers [OF w1(1-8)]
  define w2 where "w2 = upd_wm 6 (select_one 2) (upd_wm 6 (select_one 1) w1)"
  have sel: "split_select 6 [1, 2] 0 w1 = (10, w2)"
    unfolding split_select_Cons split_select.simps(1) w2_def using w1 by (simp add: select_one_simps)
  have w2: "wm_first (et w2 6) = 1" "wm_last (et w2 6) = 2" "wm_runtime (et w2 6) 1 = 5" "wm_runtime (et w2 6) 2 = 5"
    using w1 by (simp_all add: w2_def select_one_def RESCH_CPU_UNDEFINED_def NR_RT_CPUS_def Let_def)
  obtain w3 where w3: "split_finish kernel0 (pinned C) 6 2 [1, 2, 3, 4, 5, 6, 7, 0] 10 w2 = Some w3"
    "wm_first (et w3 6) = 1" "wm_runtime (et w3 6) 1 = 5" "wm_runtime (et w3 6) 2 = 5 - usecs_to_jiffies kernel0 (10000 - C)"
    using w2 by (simp add: split_finish_def set_share_def pinned_facts kernel0_ticks NR_RT_CPUS_def Let_def)
  have "wm_split kernel0 (pinned C) 6 (wm_clear_split_task 6 edf_wm0) = Some (1, w3)"
  proof -
    have l: "[2..<NR_RT_CPUS + 1] = 2 # [3..<NR_RT_CPUS + 1]" by (simp add: NR_RT_CPUS_def upt_rec)
    have o': "split_offers kernel0 (pinned C) 6 [0..<NR_RT_CPUS]
        (upd_wm 6 (\<lambda>e. e\<lparr>wm_deadline := deadline (tcb (pinned C) 6) div of_nat 2\<rparr>) (wm_clear_split_task 6 edf_wm0)) = Some w1"
      using o by (simp only: cpus_upt pinned_facts) simp
    have "split_select 6 (take 2 (sort_runtime (wm_runtime (et w1 6)))) 0 w1 = (10, w2)"
      using sel by (simp only: ids) (simp only: take_Suc_Cons take_0 numeral_2_eq_2)
    from split_numbers_step [OF o' this, of "[3..<NR_RT_CPUS + 1]"] w3(1,2)
    show ?thesis using assms by (simp only: wm_split_def l) (simp only: ids, simp add: pinned_facts kernel0_ticks)
  qed
  then show ?thesis using w3 by blast
qed

text \<open>
  splitting does not look at the CPUs a task may run on. A task of 3 ms pinned to a full CPU is
  split over two others although either could take it whole; what is over exceeds the share of
  the second, the unsigned difference wraps, and the task is sent to a CPU it may not use.
\<close>

theorem split_ignores_affinity:
  "cpus_allowed (task (tcb (pinned 3000) 6)) = {0} \<and>
   wm_partition False kernel0 (pinned 3000) (wm_clear_split_task 6 edf_wm0) 6 = Some RESCH_CPU_UNDEFINED \<and>
   (\<exists>w. wm_split kernel0 (pinned 3000) 6 (wm_clear_split_task 6 edf_wm0) = Some (1, w) \<and>
      wm_runtime (et w 6) 1 = 5 \<and> unat (wm_runtime (et w 6) 2) = 2 ^ 64 - 2)"
proof -
  let ?w = "wm_clear_split_task 6 edf_wm0"
  have z: "wm_runtime (et ?w r) 0 = 0" for r by (simp add: wm_clear_split_task_def edf_wm0_def NR_RT_CPUS_def)
  have "wm_dbf_test kernel0 (pinned 3000) ?w 0 6 = Some False" by (simp add: wm_dbf_test_def pinned_eval z)
  then have "wm_partition False kernel0 (pinned 3000) ?w 6 = Some RESCH_CPU_UNDEFINED"
    by (simp add: wm_partition_def wm_cpu_worst_fit_def cpus_upt pinned_facts)
  then show ?thesis using pinned_split [of 3000] by (auto simp: pinned_facts kernel0_ticks)
qed

text \<open>A task of 7 ms is divided into 5 and 2 ticks.\<close>

theorem split_windows_cover_execution_witness:
  "\<exists>w num summed. wm_split kernel0 (pinned 7000) 6 (wm_clear_split_task 6 edf_wm0) = Some (1, w) \<and>
     2 \<le> num \<and> num \<le> NR_RT_CPUS \<and> window_split kernel0 (pinned 7000) 6 (et w 6) num summed \<and>
     wm_runtime (et w 6) 1 = 5 \<and> wm_runtime (et w 6) 2 = 2"
proof -
  obtain w where w: "wm_split kernel0 (pinned 7000) 6 (wm_clear_split_task 6 edf_wm0) = Some (1, w)"
    "wm_runtime (et w 6) 1 = 5" "wm_runtime (et w 6) 2 = 2"
    using pinned_split [of 7000] by (auto simp: kernel0_ticks)
  then show ?thesis
    using split_windows_cover_execution [OF w(1)] by (auto simp: RESCH_CPU_UNDEFINED_def NR_RT_CPUS_def)
qed

section \<open>From one window to the next\<close>

lemma dl_migrate_hop:
  assumes "cpu_id (tcb s r) \<le> NR_RT_CPUS" "dst \<le> NR_RT_CPUS"
  shows "\<exists>s'. dl_migrate_task k r dst s = Some s' \<and> cpu_id (tcb s' r) = dst \<and>
    cpus_allowed (task (tcb s' r)) = {dst} \<and> dl_deadline (task (tcb s' r)) = dl_deadline (task (tcb s r)) \<and>
    deadline_time (tcb s' r) = deadline_time (tcb s r)"
  using assms
  by (auto simp: dl_migrate_task_def dl_dequeue_task_def dl_enqueue_task_def kernel_migrate_task_def list_unlink_def
      list_link_def mark_active_def mark_inactive_def upd_linux_def dl_start_account_def dl_stop_account_def
      use_fcbs_def use_exhaustive_def Let_def split: option.splits)

lemma active_highest_upd_linux: "active_highest_prio_task c (upd_linux r f s) = active_highest_prio_task c s"
  by (simp add: active_highest_prio_task_def upd_linux_def cong: if_cong)

lemma find_upt_first:
  "m \<le> c \<Longrightarrow> c < n \<Longrightarrow> P c \<Longrightarrow> \<forall>d. m \<le> d \<longrightarrow> d < c \<longrightarrow> \<not> P d \<Longrightarrow> find P [m..<n] = Some c"
proof -
  assume a: "m \<le> c" "c < n" "P c" "\<forall>d. m \<le> d \<longrightarrow> d < c \<longrightarrow> \<not> P d"
  then have "[m..<n] = [m..<c] @ c # [Suc c..<n]" using upt_add_eq_append [of m c "n - c"] by (simp add: upt_conv_Cons)
  moreover have "find P [m..<c] = None" using a(4) by (auto simp: find_None_iff)
  moreover have "find P (xs @ ys) = (case find P xs of None \<Rightarrow> find P ys | Some x \<Rightarrow> Some x)" for xs ys :: "nat list"
    by (induction xs) auto
  ultimately show ?thesis using a(3) by simp
qed

lemma request_hop:
  assumes "wm_rt (et w r) = Some r" "\<forall>c'<NR_RT_CPUS. r \<notin> set (wm_list w c')" "active_highest_prio_task c s \<noteq> None"
  shows "\<exists>s'. wm_request_migration r c (s, w) =
      Some (s', w\<lparr>wm_list := (wm_list w)(c := wm_list w c @ [r]), wm_runs := (wm_runs w)(c := True)\<rparr>) \<and>
    tstate (task (tcb s' r)) = TASK_UNINTERRUPTIBLE \<and> cpu_id (tcb s' r) = cpu_id (tcb s r) \<and>
    sclass (tcb s' r) = sclass (tcb s r) \<and> deadline_time (tcb s' r) = deadline_time (tcb s r)"
proof -
  let ?s = "set_tsk_need_resched r (set_tstate r TASK_UNINTERRUPTIBLE s)"
  have "active_highest_prio_task c ?s = active_highest_prio_task c s"
    by (simp add: active_highest_upd_linux set_tsk_need_resched_def set_tstate_def)
  then obtain hp where hp: "active_highest_prio_task c ?s = Some hp" using assms(3) by auto
  show ?thesis
    using assms(1,2) hp
    by (cases hp) (auto simp: wm_request_migration_def list_all_iff Let_def set_tsk_need_resched_def set_tstate_def upd_linux_def)
qed

lemma thread_hop:
  assumes "has_sched_deadline k" "sclass (tcb s r) = EDF_CLASS" "cpu_id (tcb s r) \<le> NR_RT_CPUS" "c < NR_RT_CPUS"
    and "wm_rt (et w r) = Some r" "wm_list w c = r # rs"
  shows "\<exists>s2 w2. wm_migration_thread k c (s, w) = Some (s2, w2) \<and>
     tstate (task (tcb s2 r)) = TASK_RUNNING \<and> cpu_id (tcb s2 r) = c \<and> cpus_allowed (task (tcb s2 r)) = {c} \<and>
     dl_runtime (task (tcb s2 r)) = jiffies_to_nsecs k (wm_runtime (et w r) c) \<and>
     dl_deadline (task (tcb s2 r)) = wm_next_release (et w r) \<and>
     deadline_time (tcb s2 r) = deadline_time (tcb s r) + wm_deadline (et w r) \<and> wm_list w2 = (wm_list w)(c := rs) \<and>
     wm_timer (et w2 r) = (if wm_last (et w r) = c then wm_timer (et w r)
       else Some (wm_next_release (et w r) + wm_split_deadline (et w r)))"
proof -
  let ?e = "et w r"
  let ?sa = "upd_linux r (\<lambda>t. t\<lparr>dl_sched_runtime := jiffies_to_nsecs k (wm_runtime ?e c),
      dl_sched_deadline := wm_split_deadline ?e, dl_deadline := wm_next_release ?e, dl_flags := dl_flags t OR DL_NEW\<rparr>)
    (upd_task r (\<lambda>t. t\<lparr>deadline_time := deadline_time t + wm_deadline ?e\<rparr>) s)"
  have sa: "cpu_id (tcb ?sa r) \<le> NR_RT_CPUS" "sclass (tcb ?sa r) = EDF_CLASS"
    "dl_deadline (task (tcb ?sa r)) = wm_next_release ?e"
    "deadline_time (tcb ?sa r) = deadline_time (tcb s r) + wm_deadline ?e"
    using assms(2,3) by (simp_all add: upd_linux_def)
  obtain sb where sb: "dl_migrate_task k r c ?sa = Some sb" "cpu_id (tcb sb r) = c" "cpus_allowed (task (tcb sb r)) = {c}"
    "dl_deadline (task (tcb sb r)) = wm_next_release ?e" "deadline_time (tcb sb r) = deadline_time (tcb s r) + wm_deadline ?e"
    using dl_migrate_hop [OF sa(1), of c k] assms(4) sa(3,4) by auto
  have m: "migrate_task k r c ?sa = Some sb" using sb(1) sa(2) assms(1) by (simp add: migrate_task_def)
  define sc where "sc = upd_linux r (\<lambda>t. t\<lparr>dl_sched_deadline := wm_sched_deadline ?e,
      dl_runtime := jiffies_to_nsecs k (wm_runtime ?e c)\<rparr>) (wake_up_process r sb)"
  have sc: "tstate (task (tcb sc r)) = TASK_RUNNING" "cpu_id (tcb sc r) = c" "cpus_allowed (task (tcb sc r)) = {c}"
    "dl_runtime (task (tcb sc r)) = jiffies_to_nsecs k (wm_runtime ?e c)" "dl_deadline (task (tcb sc r)) = wm_next_release ?e"
    "deadline_time (tcb sc r) = deadline_time (tcb s r) + wm_deadline ?e"
    using sb(2-5) by (simp_all add: sc_def wake_up_process_def upd_linux_def)
  let ?w = "upd_wm r (\<lambda>e. e\<lparr>wm_next_release := wm_next_release e + wm_split_deadline e\<rparr>) (w\<lparr>wm_list := (wm_list w)(c := rs)\<rparr>)"
  have "wm_migration_thread k c (s, w) = Some (if wm_last ?e \<noteq> c
      then (upd_linux r (\<lambda>t. t\<lparr>dl_flags := dl_flags t AND NOT SCHED_EXHAUSTIVE\<rparr>) sc, start_window_timer r ?w)
      else (upd_linux r (\<lambda>t. t\<lparr>dl_flags := dl_flags t OR SCHED_EXHAUSTIVE\<rparr>) sc, ?w))"
    using assms(5,6) m by (simp add: wm_migration_thread_def sc_def Let_def)
  then show ?thesis using sc by (simp add: upd_linux_def start_window_timer_def)
qed

text \<open>C29: 
  at the end of a window the timer stops the task and asks the next CPU with a share for it.
  When that CPU's thread runs, the task is there and runnable, may use no other CPU, has the
  share as its runtime, the next window as its deadline, and the timer is armed for the end
  of that window unless the CPU is the last.
\<close>

theorem window_moves_task:
  assumes "has_sched_deadline k" "sclass (tcb s r) = EDF_CLASS" "cpu_id (tcb s r) \<le> NR_RT_CPUS"
    and "wm_rt (edf_wm_task w r) = Some r" "\<forall>c'<NR_RT_CPUS. wm_list w c' = []" "active_highest_prio_task c s \<noteq> None"
    and "here < c" "c < NR_RT_CPUS" "wm_runtime (edf_wm_task w r) c > 0"
    and "\<forall>d. here < d \<longrightarrow> d < c \<longrightarrow> wm_runtime (edf_wm_task w r) d = 0"
  shows "\<exists>s1 w1 s2 w2. window_timer here r (s, w) = Some (s1, w1) \<and>
     tstate (task (tcb s1 r)) = TASK_UNINTERRUPTIBLE \<and> wm_runs w1 c \<and>
     wm_migration_thread k c (s1, w1) = Some (s2, w2) \<and>
     tstate (task (tcb s2 r)) = TASK_RUNNING \<and> cpu_id (tcb s2 r) = c \<and> cpus_allowed (task (tcb s2 r)) = {c} \<and>
     dl_runtime (task (tcb s2 r)) = jiffies_to_nsecs k (wm_runtime (edf_wm_task w r) c) \<and>
     dl_deadline (task (tcb s2 r)) = wm_next_release (edf_wm_task w r) \<and>
     deadline_time (tcb s2 r) = deadline_time (tcb s r) + wm_deadline (edf_wm_task w r) \<and>
     (\<forall>c'<NR_RT_CPUS. wm_list w2 c' = []) \<and>
     wm_timer (edf_wm_task w2 r) =
       (if wm_last (edf_wm_task w r) = c then None
        else Some (wm_next_release (edf_wm_task w r) + wm_split_deadline (edf_wm_task w r)))"
proof -
  let ?w = "upd_wm r (\<lambda>e. e\<lparr>wm_timer := None\<rparr>) w"
  let ?w1 = "?w\<lparr>wm_list := (wm_list ?w)(c := wm_list ?w c @ [r]), wm_runs := (wm_runs ?w)(c := True)\<rparr>"
  have nxt: "find (\<lambda>c. wm_runtime (et ?w r) c > 0) [here + 1..<NR_RT_CPUS] = Some c"
    using assms(7-10) by (intro find_upt_first) auto
  obtain s1 where s1: "wm_request_migration r c (s, ?w) = Some (s1, ?w1)"
    "tstate (task (tcb s1 r)) = TASK_UNINTERRUPTIBLE" "cpu_id (tcb s1 r) = cpu_id (tcb s r)"
    "sclass (tcb s1 r) = EDF_CLASS" "deadline_time (tcb s1 r) = deadline_time (tcb s r)"
    using request_hop [of ?w r c s] assms(2,4-6) by auto
  have timer: "window_timer here r (s, w) = Some (s1, ?w1)" unfolding window_timer_def using nxt s1(1) by (simp add: Let_def)
  have "wm_list ?w1 c = r # []" using assms(5,8) by simp
  from thread_hop [OF assms(1) s1(4) _ assms(8) _ this] s1(3,5) assms(3,4)
  show ?thesis using timer s1(2) assms(5) by (auto split: if_splits)
qed

definition two_windows :: edf_wm where
  "two_windows = upd_wm 6 (\<lambda>e. e\<lparr>wm_first := 1, wm_last := 2, wm_rt := Some 6, wm_deadline := 5,
     wm_runtime := (wm_runtime e)(1 := 3, 2 := 2), wm_next_release := 5000000, wm_split_deadline := 5000000\<rparr>) edf_wm0"

theorem window_moves_task_witness:
  "\<exists>s1 w1 s2 w2. window_timer 1 6 (upd_task 6 (\<lambda>t. t\<lparr>sclass := EDF_CLASS, cpu_id := 1\<rparr>) boot, two_windows) = Some (s1, w1) \<and>
     wm_migration_thread (kernel0\<lparr>has_sched_deadline := True\<rparr>) 2 (s1, w1) = Some (s2, w2) \<and> cpu_id (tcb s2 6) = 2 \<and>
     wm_timer (et w2 6) = None"
proof -
  let ?s = "upd_task 6 (\<lambda>t. t\<lparr>sclass := EDF_CLASS, cpu_id := 1\<rparr>) boot"
  have "active_highest_prio_task 2 ?s = active_highest_prio_task 2 boot" by (simp add: active_highest_prio_task_def cong: if_cong)
  then have "active_highest_prio_task 2 ?s \<noteq> None"
    using active_highest_spec [OF boot_active_wf, of 2] by (simp add: NR_RT_CPUS_def)
  then show ?thesis
    using window_moves_task [of "kernel0\<lparr>has_sched_deadline := True\<rparr>" ?s 6 two_windows 2 1]
    by (auto simp: two_windows_def edf_wm0_def NR_RT_CPUS_def)
qed

end
