(* ===== verification/Lib_Resch.thy ===== *)
theory Lib_Resch
  imports Device
begin

text \<open>
  The user library of the core (\<open>src/lib/libresch.c\<close>): every function opens the device,
  writes one call descriptor and closes it. The library's calls run here against the
  model of the kernel side, \<open>resch_write\<close> and \<open>resch_ioctl_costs\<close>.

  The environment of a call is whether \<open>open\<close> succeeds, whether the kernel can copy the
  user's bytes, and the bytes of the kernel's buffer that a short write leaves as they
  were.
\<close>

record call_env =
  opens :: bool
  copies :: bool
  stale_sec :: u64
  stale_nsec :: u64

text \<open>The library's static data: the RESCH ID of the process and the handler for \<open>SIGXCPU\<close>.\<close>

record lib =
  l_rid :: int
  user_xcpu_handler :: "nat option"

definition UNDEFINED_RID :: int where "UNDEFINED_RID = - 1"

definition lib0 :: lib where "lib0 = \<lparr>l_rid = UNDEFINED_RID, user_xcpu_handler = None\<rparr>"

section \<open>Call descriptors\<close>

text \<open>
  The three structures of \<open>resch-api.h\<close> the library fills, as the kernel reads them. An
  \<open>int\<close> argument covers the low half of the first word of the argument; a \<open>timespec\<close>
  covers both words; without an argument both words are stale.
\<close>

definition api_user_struct :: "call_env \<Rightarrow> int \<Rightarrow> int \<Rightarrow> api_struct" where
  "api_user_struct e n rd = \<lparr>api = n, a_rid = rd, tv_sec = stale_sec e, tv_nsec = stale_nsec e\<rparr>"

definition api_int_user_struct :: "call_env \<Rightarrow> int \<Rightarrow> int \<Rightarrow> int \<Rightarrow> api_struct" where
  "api_int_user_struct e n rd v =
     \<lparr>api = n, a_rid = rd,
      tv_sec = word_cat (ucast (drop_bit 32 (stale_sec e)) :: 32 word) (word_of_int v :: 32 word),
      tv_nsec = stale_nsec e\<rparr>"

definition api_ts_user_struct :: "int \<Rightarrow> int \<Rightarrow> u64 \<times> u64 \<Rightarrow> api_struct" where
  "api_ts_user_struct n rd ts = \<lparr>api = n, a_rid = rd, tv_sec = fst ts, tv_nsec = snd ts\<rparr>"

text \<open>
  The C library's \<open>write\<close> and \<open>ioctl\<close> give \<open>- 1\<close> for every negative result of the kernel.
\<close>

definition sys_ret :: "int \<Rightarrow> int" where "sys_ret r = (if r < 0 then - 1 else r)"

section \<open>System calls\<close>

definition write_call ::
  "'p plugin_struct \<Rightarrow> kenv \<Rightarrow> call_env \<Rightarrow> api_struct \<Rightarrow> 'p sys \<Rightarrow> (int \<times> 'p sys) option" where
  "write_call pl k e a s =
     (if \<not> opens e then Some (RES_FAULT, s)
      else do { (r, s) \<leftarrow> resch_write pl k (copies e) a s; Some (sys_ret r, s) })"

definition api_call ::
  "'p plugin_struct \<Rightarrow> kenv \<Rightarrow> call_env \<Rightarrow> lib \<Rightarrow> int \<Rightarrow> 'p sys \<Rightarrow> (int \<times> 'p sys) option" where
  "api_call pl k e l n s = write_call pl k e (api_user_struct e n (l_rid l)) s"

definition api_int_call ::
  "'p plugin_struct \<Rightarrow> kenv \<Rightarrow> call_env \<Rightarrow> lib \<Rightarrow> int \<Rightarrow> int \<Rightarrow> 'p sys \<Rightarrow> (int \<times> 'p sys) option" where
  "api_int_call pl k e l n v s = write_call pl k e (api_int_user_struct e n (l_rid l) v) s"

definition api_ts_call ::
  "'p plugin_struct \<Rightarrow> kenv \<Rightarrow> call_env \<Rightarrow> lib \<Rightarrow> int \<Rightarrow> u64 \<times> u64 \<Rightarrow> 'p sys \<Rightarrow> (int \<times> 'p sys) option" where
  "api_ts_call pl k e l n ts s = write_call pl k e (api_ts_user_struct n (l_rid l) ts) s"

text \<open>The cost commands of the device.\<close>

definition test_call :: "call_env \<Rightarrow> int \<Rightarrow> u64 \<Rightarrow> core \<Rightarrow> int \<times> core" where
  "test_call e cmd val s =
     (if \<not> opens e then (RES_FAULT, s)
      else (case resch_ioctl_costs (copies e) cmd val s of (r, s) \<Rightarrow> (sys_ret r, s)))"

text \<open>The functions answer 1 unless the kernel reports the fault or the missed deadline.\<close>

definition unless_res :: "int \<Rightarrow> int \<Rightarrow> int" where
  "unless_res bad r = (if r = bad then 0 else 1)"

definition answer :: "int \<Rightarrow> (int \<times> 'p sys) option \<Rightarrow> (int \<times> 'p sys) option" where
  "answer bad m = do { (r, s) \<leftarrow> m; Some (unless_res bad r, s) }"

section \<open>Periodic real-time scheduling\<close>

definition rt_init ::
  "'p plugin_struct \<Rightarrow> kenv \<Rightarrow> call_env \<Rightarrow> lib \<Rightarrow> 'p sys \<Rightarrow> (int \<times> lib \<times> 'p sys) option" where
  "rt_init pl k e l s =
     do { (r, s) \<leftarrow> api_call pl k e l API_INIT s; Some (r, l\<lparr>l_rid := r\<rparr>, s) }"

definition rt_exit ::
  "'p plugin_struct \<Rightarrow> kenv \<Rightarrow> call_env \<Rightarrow> lib \<Rightarrow> 'p sys \<Rightarrow> (int \<times> 'p sys) option" where
  "rt_exit pl k e l s = answer RES_FAULT (api_call pl k e l API_EXIT s)"

definition rt_run ::
  "'p plugin_struct \<Rightarrow> kenv \<Rightarrow> call_env \<Rightarrow> lib \<Rightarrow> u64 \<times> u64 \<Rightarrow> 'p sys \<Rightarrow> (int \<times> 'p sys) option" where
  "rt_run pl k e l ts s = answer RES_FAULT (api_ts_call pl k e l API_RUN ts s)"

definition rt_wait_period ::
  "'p plugin_struct \<Rightarrow> kenv \<Rightarrow> call_env \<Rightarrow> lib \<Rightarrow> 'p sys \<Rightarrow> (int \<times> 'p sys) option" where
  "rt_wait_period pl k e l s = answer RES_MISS (api_call pl k e l API_WAIT_PERIOD s)"

definition rt_wait_interval ::
  "'p plugin_struct \<Rightarrow> kenv \<Rightarrow> call_env \<Rightarrow> lib \<Rightarrow> u64 \<times> u64 \<Rightarrow> 'p sys \<Rightarrow> (int \<times> 'p sys) option" where
  "rt_wait_interval pl k e l ts s = answer RES_MISS (api_ts_call pl k e l API_WAIT_INTERVAL ts s)"

definition rt_set_period ::
  "'p plugin_struct \<Rightarrow> kenv \<Rightarrow> call_env \<Rightarrow> lib \<Rightarrow> u64 \<times> u64 \<Rightarrow> 'p sys \<Rightarrow> (int \<times> 'p sys) option" where
  "rt_set_period pl k e l ts s = answer RES_FAULT (api_ts_call pl k e l API_SET_PERIOD ts s)"

definition rt_set_deadline ::
  "'p plugin_struct \<Rightarrow> kenv \<Rightarrow> call_env \<Rightarrow> lib \<Rightarrow> u64 \<times> u64 \<Rightarrow> 'p sys \<Rightarrow> (int \<times> 'p sys) option" where
  "rt_set_deadline pl k e l ts s = answer RES_FAULT (api_ts_call pl k e l API_SET_DEADLINE ts s)"

definition rt_set_wcet ::
  "'p plugin_struct \<Rightarrow> kenv \<Rightarrow> call_env \<Rightarrow> lib \<Rightarrow> u64 \<times> u64 \<Rightarrow> 'p sys \<Rightarrow> (int \<times> 'p sys) option" where
  "rt_set_wcet pl k e l ts s = answer RES_FAULT (api_ts_call pl k e l API_SET_WCET ts s)"

definition rt_set_runtime ::
  "'p plugin_struct \<Rightarrow> kenv \<Rightarrow> call_env \<Rightarrow> lib \<Rightarrow> u64 \<times> u64 \<Rightarrow> 'p sys \<Rightarrow> (int \<times> 'p sys) option" where
  "rt_set_runtime pl k e l ts s = answer RES_FAULT (api_ts_call pl k e l API_SET_RUNTIME ts s)"

text \<open>The argument is an \<open>unsigned long\<close>; the internal function takes an \<open>int\<close>.\<close>

definition ulong_to_int :: "u64 \<Rightarrow> int" where
  "ulong_to_int v = sint (ucast v :: 32 word)"

definition rt_set_priority ::
  "'p plugin_struct \<Rightarrow> kenv \<Rightarrow> call_env \<Rightarrow> lib \<Rightarrow> u64 \<Rightarrow> 'p sys \<Rightarrow> (int \<times> 'p sys) option" where
  "rt_set_priority pl k e l p s =
     answer RES_FAULT (api_int_call pl k e l API_SET_PRIORITY (ulong_to_int p) s)"

definition rt_set_scheduler ::
  "'p plugin_struct \<Rightarrow> kenv \<Rightarrow> call_env \<Rightarrow> lib \<Rightarrow> u64 \<Rightarrow> 'p sys \<Rightarrow> (int \<times> 'p sys) option" where
  "rt_set_scheduler pl k e l p s =
     answer RES_FAULT (api_int_call pl k e l API_SET_SCHEDULER (ulong_to_int p) s)"

definition rt_background ::
  "'p plugin_struct \<Rightarrow> kenv \<Rightarrow> call_env \<Rightarrow> lib \<Rightarrow> 'p sys \<Rightarrow> (int \<times> 'p sys) option" where
  "rt_background pl k e l s = answer RES_FAULT (api_call pl k e l API_BACKGROUND s)"

section \<open>Event-driven scheduling\<close>

definition rt_sleep ::
  "'p plugin_struct \<Rightarrow> kenv \<Rightarrow> call_env \<Rightarrow> lib \<Rightarrow> u64 \<times> u64 \<Rightarrow> 'p sys \<Rightarrow> (int \<times> 'p sys) option" where
  "rt_sleep pl k e l ts s = answer RES_FAULT (api_ts_call pl k e l API_SLEEP ts s)"

definition rt_suspend ::
  "'p plugin_struct \<Rightarrow> kenv \<Rightarrow> call_env \<Rightarrow> lib \<Rightarrow> 'p sys \<Rightarrow> (int \<times> 'p sys) option" where
  "rt_suspend pl k e l s = answer RES_FAULT (api_call pl k e l API_SUSPEND s)"

definition rt_wake_up ::
  "'p plugin_struct \<Rightarrow> kenv \<Rightarrow> call_env \<Rightarrow> lib \<Rightarrow> int \<Rightarrow> 'p sys \<Rightarrow> (int \<times> 'p sys) option" where
  "rt_wake_up pl k e l pid s = answer RES_FAULT (api_int_call pl k e l API_WAKE_UP pid s)"

section \<open>Reservation-based scheduling\<close>

definition rt_reserve_start ::
  "'p plugin_struct \<Rightarrow> kenv \<Rightarrow> call_env \<Rightarrow> lib \<Rightarrow> u64 \<times> u64 \<Rightarrow> nat option \<Rightarrow> 'p sys \<Rightarrow> (int \<times> lib \<times> 'p sys) option" where
  "rt_reserve_start pl k e l ts func s =
     (case func of
        Some f \<Rightarrow> do { (r, s) \<leftarrow> answer RES_FAULT (api_ts_call pl k e l API_RESERVE_START_XCPU ts s);
                       Some (r, l\<lparr>user_xcpu_handler := Some f\<rparr>, s) }
      | None \<Rightarrow> do { (r, s) \<leftarrow> answer RES_FAULT (api_ts_call pl k e l API_RESERVE_START ts s);
                     Some (r, l, s) })"

definition rt_reserve_stop ::
  "'p plugin_struct \<Rightarrow> kenv \<Rightarrow> call_env \<Rightarrow> lib \<Rightarrow> 'p sys \<Rightarrow> (int \<times> 'p sys) option" where
  "rt_reserve_stop pl k e l s = answer RES_FAULT (api_call pl k e l API_RESERVE_STOP s)"

definition rt_reserve_expire ::
  "'p plugin_struct \<Rightarrow> kenv \<Rightarrow> call_env \<Rightarrow> lib \<Rightarrow> 'p sys \<Rightarrow> (int \<times> 'p sys) option" where
  "rt_reserve_expire pl k e l s = answer RES_FAULT (api_call pl k e l API_RESERVE_EXPIRE s)"

definition rt_server_create ::
  "'p plugin_struct \<Rightarrow> kenv \<Rightarrow> call_env \<Rightarrow> lib \<Rightarrow> u64 \<times> u64 \<Rightarrow> u64 \<times> u64 \<Rightarrow> 'p sys \<Rightarrow> (int \<times> lib \<times> 'p sys) option" where
  "rt_server_create pl k e l per bud s =
     do { (ok, s) \<leftarrow> rt_set_period pl k e l per s;
          if ok = 0 then Some (0, l, s)
          else do { (ok, l, s) \<leftarrow> rt_reserve_start pl k e l bud None s;
                    Some (if ok = 0 then 0 else 1, l, s) } }"

definition rt_server_run ::
  "'p plugin_struct \<Rightarrow> kenv \<Rightarrow> call_env \<Rightarrow> lib \<Rightarrow> 'p sys \<Rightarrow> (int \<times> 'p sys) option" where
  "rt_server_run pl k e l s = answer RES_FAULT (api_call pl k e l API_SERVER_RUN s)"

text \<open>
  The signal handlers: the reserve expires and the user's handler runs (\<open>user f\<close> is what
  that handler does); the process is detached before it kills its group.
\<close>

definition xcpu_handler ::
  "'p plugin_struct \<Rightarrow> kenv \<Rightarrow> call_env \<Rightarrow> lib \<Rightarrow> (nat \<Rightarrow> 'p sys \<Rightarrow> 'p sys) \<Rightarrow> 'p sys \<Rightarrow> 'p sys option" where
  "xcpu_handler pl k e l user s =
     do { (r, s) \<leftarrow> rt_reserve_expire pl k e l s;
          Some (case user_xcpu_handler l of None \<Rightarrow> s | Some f \<Rightarrow> user f s) }"

definition kill_handler ::
  "'p plugin_struct \<Rightarrow> kenv \<Rightarrow> call_env \<Rightarrow> lib \<Rightarrow> 'p sys \<Rightarrow> 'p sys option" where
  "kill_handler pl k e l s = do { (r, s) \<leftarrow> rt_exit pl k e l s; Some s }"

section \<open>Costs\<close>

definition rt_test_set_switch_cost :: "call_env \<Rightarrow> u64 \<Rightarrow> core \<Rightarrow> int \<times> core" where
  "rt_test_set_switch_cost e us s = test_call e TEST_SET_SWITCH_COST us s"

definition rt_test_set_release_cost :: "call_env \<Rightarrow> u64 \<Rightarrow> core \<Rightarrow> int \<times> core" where
  "rt_test_set_release_cost e us s = test_call e TEST_SET_RELEASE_COST us s"

definition rt_test_set_migration_cost :: "call_env \<Rightarrow> u64 \<Rightarrow> core \<Rightarrow> int \<times> core" where
  "rt_test_set_migration_cost e us s = test_call e TEST_SET_MIGRATION_COST us s"

section \<open>Properties\<close>

lemma low_half_cat: "(ucast (word_cat (a :: 32 word) (b :: 32 word) :: 64 word) :: 32 word) = b"
  by (rule bit_word_eqI) (simp add: bit_word_cat_iff bit_ucast_iff)

lemma arg_val_int: "arg_val (api_int_user_struct e n rd v) = sint (word_of_int v :: 32 word)"
  by (simp add: arg_val_def api_int_user_struct_def low_half_cat)

text \<open>
  an integer argument of the library reaches the kernel's dispatch as the signed low half
  of the user's number, whatever the kernel's buffer held before; a number below
  2 to the 31 arrives unchanged.
\<close>

theorem integer_argument_arrives:
  "arg_val (api_int_user_struct e n rd (ulong_to_int p)) = ulong_to_int p \<and>
   (p < 2 ^ 31 \<longrightarrow> ulong_to_int p = uint p)"
proof
  show "arg_val (api_int_user_struct e n rd (ulong_to_int p)) = ulong_to_int p"
    by (simp add: arg_val_int ulong_to_int_def)
  show "p < 2 ^ 31 \<longrightarrow> ulong_to_int p = uint p"
  proof
    assume "p < 2 ^ 31"
    then have "uint p < 2 ^ 31" by (simp add: word_less_def)
    moreover have "0 \<le> uint p" by simp
    ultimately show "ulong_to_int p = uint p"
      by (simp add: ulong_to_int_def sint_uint uint_up_ucast unsigned_ucast_eq take_bit_eq_mod
          signed_take_bit_eq_if_positive bit_iff_odd signed_take_bit_int_eq_self)
  qed
qed

text \<open>An \<open>int\<close> passed as \<open>unsigned long\<close> arrives unchanged; so does a RESCH ID.\<close>

lemma rid_arrives:
  assumes "- (2 ^ 31) \<le> i" "i < 2 ^ 31"
  shows "ulong_to_int (word_of_int i) = i"
proof -
  have "(ucast (word_of_int i :: u64) :: 32 word) = word_of_int i"
    by (rule bit_word_eqI) (simp add: bit_simps)
  then show ?thesis using assms by (simp add: ulong_to_int_def sint_sbintrunc' signed_take_bit_int_eq_self)
qed

lemma write_call_failures:
  "\<not> opens e \<Longrightarrow> write_call pl k e a s = Some (RES_FAULT, s)"
  "opens e \<Longrightarrow> \<not> copies e \<Longrightarrow> write_call pl k e a s = Some (- 1, s)"
  by (cases s; simp add: write_call_def resch_write_def sys_ret_def EFAULT_def)+

lemmas lib_calls = api_call_def api_int_call_def api_ts_call_def answer_def unless_res_def resch_consts

text \<open>
  errors that the library reports as success: waiting returns at once and answers 1 when
  the device cannot be opened, and setting a parameter or submitting the task answers 1
  without any effect when the kernel could not read the call.
\<close>

theorem errors_reported_as_success:
  "(\<not> opens e \<longrightarrow> rt_wait_period pl k e l s = Some (1, s) \<and> rt_wait_interval pl k e l ts s = Some (1, s)) \<and>
   (opens e \<and> \<not> copies e \<longrightarrow>
      rt_run pl k e l ts s = Some (1, s) \<and> rt_set_period pl k e l ts s = Some (1, s) \<and>
      rt_set_priority pl k e l p s = Some (1, s) \<and> rt_exit pl k e l s = Some (1, s))"
  by (simp add: rt_wait_period_def rt_wait_interval_def rt_run_def rt_set_period_def
      rt_set_priority_def rt_exit_def lib_calls write_call_failures)

lemma rt_set_period_works:
  assumes "opens e" "copies e" "resch_task_ptr (l_rid l) = Some r"
  shows "rt_set_period pl k e l ts (s, w) =
    (let s1 = upd_task r (\<lambda>t. t\<lparr>period := usecs_to_jiffies k (fst ts * 1000000 + snd ts div 1000)\<rparr>) s
     in Some (1, (if deadline (tcb s1 r) = 0 then upd_task r (\<lambda>t. t\<lparr>deadline := period t\<rparr>) s1 else s1, w)))"
  using assms
  by (simp add: rt_set_period_def lib_calls write_call_def resch_write_def api_numbers on_core_def
      api_set_period_def timespec_to_usecs_def api_ts_user_struct_def sys_ret_def Let_def)

text \<open>
  a process whose \<open>rt_init\<close> fails to open the device takes the error code for its ID: it then
  acts on the task whose ID is 1, whoever that is.
\<close>

theorem failed_init_acts_on_task_1:
  assumes "\<not> opens e" "opens e'" "copies e'"
  shows "\<exists>l' s'. rt_init pl k e l (s, w) = Some (RES_FAULT, l', (s, w)) \<and>
    rt_set_period pl k e' l' ts (s, w) = Some (1, (s', w)) \<and>
    period (tcb s' 1) = usecs_to_jiffies k (fst ts * 1000000 + snd ts div 1000)"
proof -
  let ?l = "l\<lparr>l_rid := RES_FAULT\<rparr>"
  have i: "rt_init pl k e l (s, w) = Some (RES_FAULT, ?l, (s, w))"
    using assms(1) by (simp add: rt_init_def api_call_def write_call_failures)
  have r: "resch_task_ptr (l_rid ?l) = Some 1" by (simp add: resch_task_ptr_def resch_consts)
  show ?thesis
    using i rt_set_period_works [OF assms(2,3) r, of pl k ts s w]
    by (simp add: Let_def upd_task_def)
qed

definition device_env :: "bool \<Rightarrow> call_env" where
  "device_env present = \<lparr>opens = present, copies = True, stale_sec = 0, stale_nsec = 0\<rparr>"

abbreviation no_plugin :: "unit plugin_struct" where "no_plugin \<equiv> uninstall_scheduler"

theorem failed_init_acts_on_task_1_witness:
  "\<exists>l' s'. rt_init no_plugin kernel0 (device_env False)
       lib0 (boot, ()) = Some (RES_FAULT, l', (boot, ())) \<and>
    rt_set_period no_plugin kernel0 (device_env True)
       l' (1, 0) (boot, ()) = Some (1, (s', ())) \<and>
    period (tcb s' 1) = usecs_to_jiffies kernel0 (fst (1, 0 :: u64) * 1000000 + snd (1 :: u64, 0) div 1000)"
  by (rule failed_init_acts_on_task_1) (simp_all add: device_env_def)

text \<open>
  when all 64 IDs are taken the process gets the ID \<open>- 1\<close>, which the kernel uses as an index:
  every later call of the library that works on the process's task is undefined.
\<close>

theorem full_init_makes_calls_undefined:
  assumes "opens e" "copies e" "length (pid_map s) = PID_MAP_LONG"
    and "\<forall>n < NR_RT_TASKS. bm_bit (pid_map s) n"
  shows "\<exists>l'. rt_init pl k e l (s, w) = Some (- 1, l', (clear_dead_tasks s, w)) \<and>
    (\<forall>s. rt_exit pl k e l' s = None \<and> rt_run pl k e l' ts s = None \<and> rt_wait_period pl k e l' s = None \<and>
         rt_set_period pl k e l' ts s = None \<and> rt_set_priority pl k e l' p s = None)"
proof -
  obtain f where f: "resch_ffz (pid_map s) PID_MAP_LONG = Some f"
    "is_first (\<lambda>n. \<not> bm_bit (pid_map s) n) (64 * PID_MAP_LONG) f"
    using resch_ffz_spec [of PID_MAP_LONG "pid_map s"] assms(3) by auto
  then have "f = - 1" using assms(4) by (auto simp: is_first_def resch_consts)
  then have i: "rt_init pl k e l (s, w) = Some (- 1, l\<lparr>l_rid := - 1\<rparr>, (clear_dead_tasks s, w))"
    using f(1) assms(1,2)
    by (simp add: rt_init_def api_call_def write_call_def resch_write_def api_numbers on_core_def
        api_init_def api_user_struct_def sys_ret_def)
  have r: "resch_task_ptr (- 1) = None" by (simp add: resch_task_ptr_def)
  have "rt_exit pl k e (l\<lparr>l_rid := - 1\<rparr>) x = None \<and> rt_run pl k e (l\<lparr>l_rid := - 1\<rparr>) ts x = None \<and>
    rt_wait_period pl k e (l\<lparr>l_rid := - 1\<rparr>) x = None \<and> rt_set_period pl k e (l\<lparr>l_rid := - 1\<rparr>) ts x = None \<and>
    rt_set_priority pl k e (l\<lparr>l_rid := - 1\<rparr>) p x = None" for x
    using assms(1,2) r
    by (cases x; simp add: rt_exit_def rt_run_def rt_wait_period_def rt_set_period_def rt_set_priority_def
        lib_calls write_call_def resch_write_def api_numbers on_core_def api_user_struct_def
        api_ts_user_struct_def api_int_user_struct_def api_exit_def api_run_def api_wait_for_period_def
        api_set_period_def api_set_priority_def del: bind_Some_iff)
  with i show ?thesis by (intro exI [of _ "l\<lparr>l_rid := - 1\<rparr>"]) simp
qed

definition taken :: core where "taken = boot\<lparr>pid_map := [- 1]\<rparr>"

theorem full_init_makes_calls_undefined_witness:
  "\<exists>l'. rt_init no_plugin kernel0 (device_env True)
       lib0 (taken, ()) = Some (- 1, l', (clear_dead_tasks taken, ())) \<and>
    (\<forall>s. rt_exit no_plugin kernel0 (device_env True) l' s = None \<and>
      rt_run no_plugin kernel0 (device_env True) l' (0, 0) s = None \<and>
      rt_wait_period no_plugin kernel0 (device_env True) l' s = None \<and>
      rt_set_period no_plugin kernel0 (device_env True) l' (0, 0) s = None \<and>
      rt_set_priority no_plugin kernel0 (device_env True) l' 5 s = None)"
  by (rule full_init_makes_calls_undefined) (simp_all add: device_env_def taken_def resch_consts bm_bit_def)

end
