(* ===== verification/Gdev_Time.thy ===== *)
theory Gdev_Time
  imports Prelude
begin

text \<open>
  \<open>struct gdev_time\<close> and its operations (\<open>src/include/resch-gpu-core.h\<close>): seconds and
  microseconds in unsigned 64-bit fields and a sign flag. The operations take
  pointers and some callers pass the same structure twice
  (\<open>gdev_time_add(&gdev->credit_com, &gdev->credit_com, &credit)\<close>), so they are
  functions on a store from addresses to structures: \<open>'r\<close> is the type of addresses and
  every assignment of the source is one update of the store, in the source's order.
  The lemmas compare the operations with arithmetic on \<open>time_val\<close>, the number of
  microseconds a structure stands for.
\<close>

section \<open>The structure\<close>

record gdev_time =
  sec :: u64
  usec :: u64
  neg :: int

type_synonym 'r store = "'r \<Rightarrow> gdev_time"

definition USEC_1SEC :: u64 where [resch_consts]: "USEC_1SEC = 1000000"
definition USEC_1MSEC :: u64 where [resch_consts]: "USEC_1MSEC = 1000"
definition MSEC_1SEC :: u64 where [resch_consts]: "MSEC_1SEC = 1000"

definition set_sec :: "'r \<Rightarrow> u64 \<Rightarrow> 'r store \<Rightarrow> 'r store" where
  "set_sec p v m = m(p := (m p)\<lparr>sec := v\<rparr>)"

definition set_usec :: "'r \<Rightarrow> u64 \<Rightarrow> 'r store \<Rightarrow> 'r store" where
  "set_usec p v m = m(p := (m p)\<lparr>usec := v\<rparr>)"

definition set_neg :: "'r \<Rightarrow> int \<Rightarrow> 'r store \<Rightarrow> 'r store" where
  "set_neg p v m = m(p := (m p)\<lparr>neg := v\<rparr>)"

lemmas store_defs = set_sec_def set_usec_def set_neg_def

section \<open>Conversions\<close>

text \<open>The wall clock: \<open>gettimeofday\<close> fills \<open>tv_sec\<close> and \<open>tv_usec\<close>.\<close>

definition gdev_time_stamp :: "u64 \<Rightarrow> u64 \<Rightarrow> gdev_time" where
  "gdev_time_stamp tv_sec tv_usec = \<lparr>sec = tv_sec, usec = tv_usec, neg = 0\<rparr>"

definition gdev_time_sec :: "gdev_time \<Rightarrow> u64 \<Rightarrow> gdev_time" where
  "gdev_time_sec ret s = ret\<lparr>sec := s, usec := 0\<rparr>"

definition gdev_time_ms :: "u64 \<Rightarrow> gdev_time" where
  "gdev_time_ms ms =
     (let carry = ms div MSEC_1SEC
      in \<lparr>sec = carry, usec = (ms - carry * MSEC_1SEC) * USEC_1MSEC, neg = 0\<rparr>)"

definition gdev_time_us :: "u64 \<Rightarrow> gdev_time" where
  "gdev_time_us us = \<lparr>sec = 0, usec = us, neg = 0\<rparr>"

definition gdev_time_to_sec :: "gdev_time \<Rightarrow> u64" where
  "gdev_time_to_sec p = (sec p * USEC_1SEC + usec p) div USEC_1SEC"

definition gdev_time_to_ms :: "gdev_time \<Rightarrow> u64" where
  "gdev_time_to_ms p = (sec p * USEC_1SEC + usec p) div USEC_1MSEC"

definition gdev_time_to_us :: "gdev_time \<Rightarrow> u64" where
  "gdev_time_to_us p = sec p * USEC_1SEC + usec p"

definition gdev_time_clear :: "'r \<Rightarrow> 'r store \<Rightarrow> 'r store" where
  "gdev_time_clear t m = set_sec t 0 (set_usec t 0 (set_neg t 0 m))"

section \<open>Comparisons\<close>

definition gdev_time_eq :: "gdev_time \<Rightarrow> gdev_time \<Rightarrow> bool" where
  "gdev_time_eq x y \<longleftrightarrow> sec x = sec y \<and> usec x = usec y"

definition gdev_time_eqz :: "gdev_time \<Rightarrow> bool" where
  "gdev_time_eqz p \<longleftrightarrow> sec p = 0 \<and> usec p = 0"

definition gdev_time_gt :: "gdev_time \<Rightarrow> gdev_time \<Rightarrow> bool" where
  "gdev_time_gt x y =
     (if neg x = 0 \<and> neg y \<noteq> 0 then True
      else if neg x \<noteq> 0 \<and> neg y = 0 then False
      else if neg x \<noteq> 0 \<and> neg y \<noteq> 0 then
        (if sec x = sec y then usec x < usec y else sec x < sec y)
      else (if sec x = sec y then usec x > usec y else sec x > sec y))"

definition gdev_time_gtz :: "gdev_time \<Rightarrow> bool" where
  "gdev_time_gtz p \<longleftrightarrow> neg p = 0 \<and> (sec p > 0 \<or> usec p > 0)"

definition gdev_time_ge :: "gdev_time \<Rightarrow> gdev_time \<Rightarrow> bool" where
  "gdev_time_ge x y = (if gdev_time_eq x y then True else gdev_time_gt x y)"

definition gdev_time_gez :: "gdev_time \<Rightarrow> bool" where
  "gdev_time_gez p \<longleftrightarrow> gdev_time_gtz p \<or> gdev_time_eqz p"

definition gdev_time_lt :: "gdev_time \<Rightarrow> gdev_time \<Rightarrow> bool" where
  "gdev_time_lt x y =
     (if neg x = 0 \<and> neg y \<noteq> 0 then False
      else if neg x \<noteq> 0 \<and> neg y = 0 then True
      else if neg x \<noteq> 0 \<and> neg y \<noteq> 0 then
        (if sec x = sec y then usec x > usec y else sec x > sec y)
      else (if sec x = sec y then usec x < usec y else sec x < sec y))"

definition gdev_time_ltz :: "gdev_time \<Rightarrow> bool" where
  "gdev_time_ltz p \<longleftrightarrow> neg p \<noteq> 0"

definition gdev_time_le :: "gdev_time \<Rightarrow> gdev_time \<Rightarrow> bool" where
  "gdev_time_le x y = (if gdev_time_eq x y then True else gdev_time_lt x y)"

definition gdev_time_lez :: "gdev_time \<Rightarrow> bool" where
  "gdev_time_lez p \<longleftrightarrow> gdev_time_ltz p \<or> gdev_time_eqz p"

section \<open>Arithmetic on the store\<close>

definition add_pos :: "'r \<Rightarrow> 'r \<Rightarrow> 'r \<Rightarrow> 'r store \<Rightarrow> 'r store" where
  "add_pos ret x y m =
     (let m = set_sec ret (sec (m x) + sec (m y)) m;
          m = set_usec ret (usec (m x) + usec (m y)) m
      in if usec (m ret) \<ge> USEC_1SEC
         then let m = set_sec ret (sec (m ret) + 1) m
              in set_usec ret (usec (m ret) - USEC_1SEC) m
         else m)"

text \<open>
  In the subtraction \<open>ret->usec < 0\<close> compares an unsigned field with zero: it is false
  for every value, and the borrow below it is never taken. The two pointers are swapped
  when \<open>x\<close> is less than \<open>y\<close>.
\<close>

definition sub_pos :: "'r \<Rightarrow> 'r \<Rightarrow> 'r \<Rightarrow> 'r store \<Rightarrow> 'r store" where
  "sub_pos ret x y m =
     (let swapped = gdev_time_lt (m x) (m y);
          m = set_neg ret (if swapped then 1 else 0) m;
          (x, y) = (if swapped then (y, x) else (x, y));
          m = set_sec ret (sec (m x) - sec (m y)) m;
          m = set_usec ret (usec (m x) - usec (m y)) m
      in if usec (m ret) < 0
         then let m = set_sec ret (sec (m ret) - 1) m
              in set_usec ret (usec (m ret) + USEC_1SEC) m
         else m)"

definition gdev_time_add :: "'r \<Rightarrow> 'r \<Rightarrow> 'r \<Rightarrow> 'r store \<Rightarrow> 'r store" where
  "gdev_time_add ret x y m =
     (let m = (if ret \<noteq> x \<and> ret \<noteq> y then gdev_time_clear ret m else m)
      in if neg (m x) = 0 \<and> neg (m y) \<noteq> 0 then
           set_neg y 1 (sub_pos ret x y (set_neg y 0 m))
         else if neg (m x) \<noteq> 0 \<and> neg (m y) = 0 then
           set_neg x 1 (sub_pos ret y x (set_neg x 0 m))
         else if neg (m x) \<noteq> 0 \<and> neg (m y) \<noteq> 0 then
           set_neg x 1 (set_neg y 1 (set_neg ret 1
             (add_pos ret x y (set_neg x 0 (set_neg y 0 m)))))
         else add_pos ret x y m)"

definition gdev_time_sub :: "'r \<Rightarrow> 'r \<Rightarrow> 'r \<Rightarrow> 'r store \<Rightarrow> 'r store" where
  "gdev_time_sub ret x y m =
     (let m = (if ret \<noteq> x \<and> ret \<noteq> y then gdev_time_clear ret m else m)
      in if neg (m x) = 0 \<and> neg (m y) \<noteq> 0 then
           set_neg y 1 (add_pos ret x y (set_neg y 0 m))
         else if neg (m x) \<noteq> 0 \<and> neg (m y) = 0 then
           set_neg x 1 (set_neg ret 1 (add_pos ret y x (set_neg x 0 m)))
         else if neg (m x) \<noteq> 0 \<and> neg (m y) \<noteq> 0 then
           set_neg x 1 (set_neg y 1 (sub_pos ret y x (set_neg x 0 (set_neg y 0 m))))
         else sub_pos ret x y m)"

text \<open>
  \<open>int I\<close> is converted to an unsigned 64-bit factor; a division by zero is undefined.
\<close>

definition gdev_time_mul :: "'r \<Rightarrow> 'r \<Rightarrow> int \<Rightarrow> 'r store \<Rightarrow> 'r store" where
  "gdev_time_mul ret x I m =
     (let m = (if ret \<noteq> x then gdev_time_clear ret m else m);
          m = set_sec ret (sec (m x) * word_of_int I) m;
          m = set_usec ret (usec (m x) * word_of_int I) m
      in if usec (m ret) \<ge> USEC_1SEC
         then let carry = usec (m ret) div USEC_1SEC;
                  m = set_sec ret (sec (m ret) + carry) m
              in set_usec ret (usec (m ret) - carry * USEC_1SEC) m
         else m)"

definition gdev_time_div :: "'r \<Rightarrow> 'r \<Rightarrow> int \<Rightarrow> 'r store \<Rightarrow> 'r store option" where
  "gdev_time_div ret x I m =
     do { guard_c (I \<noteq> 0);
          let m = (if ret \<noteq> x then gdev_time_clear ret m else m);
          let m = set_sec ret (sec (m x) div word_of_int I) m;
          Some (set_usec ret (usec (m x) div word_of_int I) m) }"

text \<open>
  The two ways the scheduler calls the arithmetic: into a structure of its own, or in
  place (\<open>ret\<close> is the first operand). Both are the operations above on a store with
  three addresses.
\<close>

datatype arg = Ret | X | Y

definition args :: "gdev_time \<Rightarrow> gdev_time \<Rightarrow> gdev_time \<Rightarrow> arg store" where
  "args r x y = case_arg r x y"

definition time_sub :: "gdev_time \<Rightarrow> gdev_time \<Rightarrow> gdev_time" where
  "time_sub x y = gdev_time_sub Ret X Y (args (gdev_time_us 0) x y) Ret"

definition time_add_to :: "gdev_time \<Rightarrow> gdev_time \<Rightarrow> gdev_time" where
  "time_add_to x y = gdev_time_add X X Y (args (gdev_time_us 0) x y) X"

definition time_sub_from :: "gdev_time \<Rightarrow> gdev_time \<Rightarrow> gdev_time" where
  "time_sub_from x y = gdev_time_sub X X Y (args (gdev_time_us 0) x y) X"

section \<open>The value of a time\<close>

definition mag :: "gdev_time \<Rightarrow> nat" where
  "mag t = unat (sec t) * 1000000 + unat (usec t)"

definition time_val :: "gdev_time \<Rightarrow> int" where
  "time_val t = (if neg t \<noteq> 0 then - int (mag t) else int (mag t))"

text \<open>
  A normalised time: less than a second of microseconds, a number of seconds for which
  the products below do not wrap, and no negative zero.
\<close>

definition norm_time :: "gdev_time \<Rightarrow> bool" where
  "norm_time t \<longleftrightarrow> unat (usec t) < 1000000 \<and> unat (sec t) < 2 ^ 43"

definition canon_time :: "gdev_time \<Rightarrow> bool" where
  "canon_time t \<longleftrightarrow> norm_time t \<and> (neg t \<noteq> 0 \<longrightarrow> mag t \<noteq> 0)"

section \<open>The comparisons\<close>

lemma lex_mag:
  assumes "unat (usec x) < 1000000" "unat (usec y) < 1000000"
  shows "(if sec x = sec y then usec x < usec y else sec x < sec y) \<longleftrightarrow> mag x < mag y"
proof -
  have n: "sec x = sec y \<longleftrightarrow> unat (sec x) = unat (sec y)" by (simp add: word_unat_eq_iff)
  show ?thesis using assms by (auto simp: mag_def word_less_nat_alt n)
qed

lemma nat_lex_eq:
  fixes a b c d m :: nat
  assumes "b < m" "d < m"
  shows "a * m + b = c * m + d \<longleftrightarrow> a = c \<and> b = d"
proof -
  have "(a * m + b) div m = a" "(c * m + d) div m = c"
    using assms by (simp_all add: div_mult_self3)
  then show ?thesis by auto
qed

lemma mag_eq_iff:
  assumes "unat (usec x) < 1000000" "unat (usec y) < 1000000"
  shows "mag x = mag y \<longleftrightarrow> sec x = sec y \<and> usec x = usec y"
  unfolding mag_def word_unat_eq_iff by (rule nat_lex_eq [OF assms])

lemma mag_0_iff: "mag t = 0 \<longleftrightarrow> sec t = 0 \<and> usec t = 0"
  by (auto simp: mag_def unat_eq_zero)

lemma time_compare:
  assumes "canon_time x" "canon_time y"
  shows "gdev_time_lt x y \<longleftrightarrow> time_val x < time_val y"
    and "gdev_time_gt x y \<longleftrightarrow> time_val y < time_val x"
    and "gdev_time_ge x y \<longleftrightarrow> time_val y \<le> time_val x \<or> time_val x = - time_val y"
    and "gdev_time_le x y \<longleftrightarrow> time_val x \<le> time_val y \<or> time_val x = - time_val y"
    and "gdev_time_lez x \<longleftrightarrow> time_val x \<le> 0"
    and "gdev_time_gez x \<longleftrightarrow> 0 \<le> time_val x"
proof -
  have u: "unat (usec x) < 1000000" "unat (usec y) < 1000000"
    and z: "neg x \<noteq> 0 \<longrightarrow> mag x \<noteq> 0" "neg y \<noteq> 0 \<longrightarrow> mag y \<noteq> 0"
    using assms by (auto simp: canon_time_def norm_time_def)
  have xy: "(if sec x = sec y then usec x < usec y else sec x < sec y) \<longleftrightarrow> mag x < mag y"
    and yx: "(if sec y = sec x then usec y < usec x else sec y < sec x) \<longleftrightarrow> mag y < mag x"
    using u by (rule lex_mag, intro lex_mag u)
  show lt: "gdev_time_lt x y \<longleftrightarrow> time_val x < time_val y"
    using xy yx z by (auto simp: gdev_time_lt_def time_val_def)
  show gt: "gdev_time_gt x y \<longleftrightarrow> time_val y < time_val x"
    using xy yx z by (auto simp: gdev_time_gt_def time_val_def)
  have eq: "gdev_time_eq x y \<longleftrightarrow> mag x = mag y"
    using u by (simp add: gdev_time_eq_def mag_eq_iff)
  show "gdev_time_ge x y \<longleftrightarrow> time_val y \<le> time_val x \<or> time_val x = - time_val y"
    using z by (auto simp: gdev_time_ge_def gt eq time_val_def)
  show "gdev_time_le x y \<longleftrightarrow> time_val x \<le> time_val y \<or> time_val x = - time_val y"
    using z by (auto simp: gdev_time_le_def lt eq time_val_def)
  show "gdev_time_lez x \<longleftrightarrow> time_val x \<le> 0"
    using mag_0_iff [of x] by (auto simp: gdev_time_lez_def gdev_time_ltz_def gdev_time_eqz_def time_val_def)
  show "gdev_time_gez x \<longleftrightarrow> 0 \<le> time_val x"
    using mag_0_iff [of x] z by (auto simp: gdev_time_gez_def gdev_time_gtz_def gdev_time_eqz_def time_val_def word_gt_0)
qed

lemma to_us_mag: "norm_time t \<Longrightarrow> unat (gdev_time_to_us t) = mag t"
  unfolding norm_time_def gdev_time_to_us_def mag_def USEC_1SEC_def
  by (subst unat_add_lem [THEN iffD1]; subst unat_mult_lem [THEN iffD1]; simp)

lemma to_us_of_nat: "gdev_time_to_us t = of_nat (mag t)"
  by (simp add: gdev_time_to_us_def mag_def USEC_1SEC_def)

section \<open>Sums and differences\<close>

lemma store_simps [simp]:
  "set_neg p v m q = (if q = p then (m p)\<lparr>neg := v\<rparr> else m q)"
  "set_sec p w m q = (if q = p then (m p)\<lparr>sec := w\<rparr> else m q)"
  "set_usec p w m q = (if q = p then (m p)\<lparr>usec := w\<rparr> else m q)"
  by (simp_all add: store_defs)

lemma args_simps [simp]: "args r x y Ret = r" "args r x y X = x" "args r x y Y = y"
  by (simp_all add: args_def)

text \<open>The difference of two clock readings, without the borrow.\<close>

lemma time_sub_fields:
  assumes "neg x = 0" "neg y = 0" "\<not> gdev_time_lt x y"
  shows "time_sub x y = \<lparr>sec = sec x - sec y, usec = usec x - usec y, neg = 0\<rparr>"
  using assms
  by (simp add: time_sub_def gdev_time_sub_def sub_pos_def gdev_time_clear_def Let_def)

lemma time_sub_to_us:
  assumes "neg x = 0" "neg y = 0" "\<not> gdev_time_lt x y"
  shows "gdev_time_to_us (time_sub x y) = gdev_time_to_us x - gdev_time_to_us y"
  by (simp add: time_sub_fields [OF assms] gdev_time_to_us_def algebra_simps)

lemma norm_not_lt:
  assumes "norm_time x" "norm_time y" "neg x = 0" "neg y = 0"
  shows "gdev_time_lt x y \<longleftrightarrow> mag x < mag y"
  using assms lex_mag [of x y] by (auto simp: norm_time_def gdev_time_lt_def)

text \<open>The difference of two clock readings has the right number of microseconds; it is normalised exactly when no borrow was needed, since the borrow is never taken.\<close>

theorem elapsed_time:
  assumes "norm_time x" "norm_time y" "neg x = 0" "neg y = 0" "mag y \<le> mag x"
  shows "unat (gdev_time_to_us (time_sub x y)) = mag x - mag y \<and> neg (time_sub x y) = 0 \<and>
    (norm_time (time_sub x y) \<longleftrightarrow> usec y \<le> usec x)"
proof -
  have nl: "\<not> gdev_time_lt x y" using assms by (simp add: norm_not_lt)
  note f = time_sub_fields [OF assms(3,4) nl]
  have le: "gdev_time_to_us y \<le> gdev_time_to_us x"
    using assms by (simp add: word_le_nat_alt to_us_mag)
  have us: "unat (gdev_time_to_us (time_sub x y)) = mag x - mag y"
    unfolding time_sub_to_us [OF assms(3,4) nl] using assms le
    by (subst unat_sub [OF le]) (simp add: to_us_mag)
  have ux: "unat (usec x) < 1000000" "unat (usec y) < 1000000" "unat (sec x) < 2 ^ 43"
    using assms by (auto simp: norm_time_def)
  have sec: "sec y \<le> sec x" using assms(5) ux by (simp add: mag_def word_le_nat_alt)
  have "norm_time (time_sub x y) \<longleftrightarrow> usec y \<le> usec x"
  proof (cases "usec y \<le> usec x")
    case True
    then show ?thesis using ux sec
      by (simp add: f norm_time_def unat_sub word_le_nat_alt less_imp_diff_less)
  next
    case False
    then have "unat (usec x - usec y) = 2 ^ 64 + unat (usec x) - unat (usec y)"
      by (subst unat_sub_if_size) (simp add: word_size word_le_nat_alt)
    with ux have "\<not> unat (usec x - usec y) < 1000000" by simp
    with False show ?thesis by (simp add: f norm_time_def)
  qed
  with us f show ?thesis by simp
qed

text \<open>When the difference needs a borrow, it compares greater than every time with the same number of seconds, although it stands for less than that many seconds.\<close>

theorem missing_borrow_compares_late:
  assumes "norm_time x" "norm_time y" "norm_time z" "neg x = 0" "neg y = 0" "neg z = 0"
    and "sec y < sec x" "usec x < usec y" "sec z \<le> sec x - sec y"
  shows "gdev_time_gt (time_sub x y) z \<and>
    unat (gdev_time_to_us (time_sub x y)) < (unat (sec x - sec y)) * 1000000"
proof -
  have ux: "unat (usec x) < 1000000" "unat (usec y) < 1000000" "unat (usec z) < 1000000"
    using assms by (auto simp: norm_time_def)
  have m: "mag y \<le> mag x"
    using assms(7) ux by (simp add: mag_def word_less_nat_alt)
  then have nl: "\<not> gdev_time_lt x y" using assms by (simp add: norm_not_lt)
  note f = time_sub_fields [OF assms(4,5) nl]
  have b: "unat (usec x - usec y) = 2 ^ 64 + unat (usec x) - unat (usec y)"
    using assms(8) by (subst unat_sub_if_size) (simp add: word_size word_less_nat_alt)
  have "gdev_time_gt (time_sub x y) z"
    using assms(6,9) b ux by (auto simp: f gdev_time_gt_def word_less_nat_alt order_le_less)
  moreover have "unat (gdev_time_to_us (time_sub x y)) = mag x - mag y"
    using elapsed_time [OF assms(1,2,4,5) m] by simp
  moreover have "mag x - mag y < unat (sec x - sec y) * 1000000"
    using assms(7,8) by (simp add: mag_def unat_sub word_less_nat_alt word_le_nat_alt)
  ultimately show ?thesis by simp
qed

text \<open>Milliseconds survive the conversion to a time and back, and the time is normalised.\<close>

theorem ms_round_trip:
  assumes "unat ms * 1000 < 2 ^ 64"
  shows "gdev_time_to_ms (gdev_time_ms ms) = ms \<and> unat (usec (gdev_time_ms ms)) < 1000000"
proof -
  have mod: "ms - ms div 1000 * 1000 = ms mod 1000"
    by (metis minus_div_mult_eq_mod)
  have d: "unat (ms div 1000) = unat ms div 1000" "unat (ms mod 1000) = unat ms mod 1000"
    by (simp_all add: unat_div unat_mod)
  have u: "unat ((ms mod 1000) * 1000) = unat ms mod 1000 * 1000"
    by (subst unat_mult_lem [THEN iffD1]) (auto simp: d)
  have e: "ms div 1000 * 1000000 + (ms mod 1000) * 1000 = ms * 1000"
  proof -
    have "ms div 1000 * 1000000 + (ms mod 1000) * 1000 = (ms div 1000 * 1000 + ms mod 1000) * 1000"
      by (simp add: algebra_simps)
    then show ?thesis by (simp only: div_mult_mod_eq)
  qed
  have "unat (ms * 1000) = unat ms * 1000"
    using assms by (subst unat_mult_lem [THEN iffD1]) auto
  then have "unat (ms * 1000 div 1000) = unat ms"
    by (simp add: unat_div)
  then have "ms * 1000 div 1000 = ms" by (simp add: word_unat_eq_iff)
  moreover have "usec (gdev_time_ms ms) = (ms mod 1000) * 1000"
    by (simp only: gdev_time_ms_def Let_def resch_consts gdev_time.select_convs mod)
  moreover have "sec (gdev_time_ms ms) = ms div 1000"
    by (simp add: gdev_time_ms_def Let_def resch_consts)
  ultimately show ?thesis
    using u by (simp only: gdev_time_to_ms_def resch_consts e) simp
qed

text \<open>Adding a credit in place to a negative one leaves it negative.\<close>

lemma add_in_place_neg:
  assumes "x \<noteq> y" "neg (m x) \<noteq> 0" "neg (m y) = 0"
  shows "neg (gdev_time_add x x y m x) = 1"
  using assms by (simp add: gdev_time_add_def Let_def)

lemma time_add_to_fields:
  assumes "neg c \<noteq> 0" "neg d = 0" "sec c = 0" "sec d = 0"
  shows "time_add_to c d =
    \<lparr>sec = 0, usec = (if usec d < usec c then usec c - usec d else usec d - usec c), neg = 1\<rparr>"
  using assms
  by (simp add: time_add_to_def gdev_time_add_def sub_pos_def gdev_time_lt_def Let_def)

lemma time_add_to_pos:
  assumes "neg c = 0" "neg d = 0"
  shows "time_add_to c d = (if usec c + usec d \<ge> USEC_1SEC
      then \<lparr>sec = sec c + sec d + 1, usec = usec c + usec d - USEC_1SEC, neg = 0\<rparr>
      else \<lparr>sec = sec c + sec d, usec = usec c + usec d, neg = 0\<rparr>)"
  using assms by (simp add: time_add_to_def gdev_time_add_def add_pos_def Let_def)


lemma time_sub_from_fields:
  assumes "neg y = 0"
  shows "time_sub_from x y =
    (if neg x \<noteq> 0 then
       (if usec y + usec x \<ge> USEC_1SEC
        then \<lparr>sec = sec y + sec x + 1, usec = usec y + usec x - USEC_1SEC, neg = 1\<rparr>
        else \<lparr>sec = sec y + sec x, usec = usec y + usec x, neg = 1\<rparr>)
     else if gdev_time_lt x y then \<lparr>sec = sec y - sec x, usec = usec y - usec x, neg = 1\<rparr>
     else \<lparr>sec = sec x - sec y, usec = usec x - usec y, neg = 0\<rparr>)"
  using assms
  by (simp add: time_sub_from_def gdev_time_sub_def add_pos_def sub_pos_def Let_def)

text \<open>
  Adding two times of the same sign is exact for every aliasing of the three pointers.
\<close>

lemma add_pos_fields:
  "sec (add_pos ret x y m ret) = (if usec (m x) + usec (m y) \<ge> USEC_1SEC
     then sec (m x) + sec (m y) + 1 else sec (m x) + sec (m y))"
  "usec (add_pos ret x y m ret) = (if usec (m x) + usec (m y) \<ge> USEC_1SEC
     then usec (m x) + usec (m y) - USEC_1SEC else usec (m x) + usec (m y))"
  "neg (add_pos ret x y m ret) = neg (m ret)"
  by (simp_all add: add_pos_def Let_def)

lemma add_pos_other: "p \<noteq> ret \<Longrightarrow> add_pos ret x y m p = m p"
  by (simp add: add_pos_def Let_def)

lemma add_words:
  assumes "norm_time a" "norm_time b"
  shows "unat (sec a + sec b) = unat (sec a) + unat (sec b)"
    "unat (usec a + usec b) = unat (usec a) + unat (usec b)"
    "unat (sec a + sec b + 1) = unat (sec a) + unat (sec b) + 1"
proof -
  have lt: "unat (sec a) < 2 ^ 43" "unat (sec b) < 2 ^ 43" "unat (usec a) < 1000000" "unat (usec b) < 1000000"
    using assms by (auto simp: norm_time_def)
  show s: "unat (sec a + sec b) = unat (sec a) + unat (sec b)"
    using lt by (subst unat_add_lem [THEN iffD1]) simp_all
  show "unat (usec a + usec b) = unat (usec a) + unat (usec b)"
    using lt by (subst unat_add_lem [THEN iffD1]) simp_all
  show "unat (sec a + sec b + 1) = unat (sec a) + unat (sec b) + 1"
    using lt s by (subst unat_add_lem [THEN iffD1]) simp_all
qed

lemma add_fields_mag:
  assumes "norm_time a" "norm_time b"
    and "sec t = (if usec a + usec b \<ge> USEC_1SEC then sec a + sec b + 1 else sec a + sec b)"
    and "usec t = (if usec a + usec b \<ge> USEC_1SEC then usec a + usec b - USEC_1SEC else usec a + usec b)"
  shows "mag t = mag a + mag b \<and> unat (usec t) < 1000000"
proof -
  note w = add_words [OF assms(1,2)]
  have lt: "unat (usec a) < 1000000" "unat (usec b) < 1000000"
    using assms by (auto simp: norm_time_def)
  show ?thesis
  proof (cases "USEC_1SEC \<le> usec a + usec b")
    case True
    then have "1000000 \<le> unat (usec a) + unat (usec b)"
      using w by (simp add: word_le_nat_alt resch_consts)
    moreover have "unat (usec a + usec b - USEC_1SEC) = unat (usec a) + unat (usec b) - 1000000"
      using True w by (subst unat_sub) (simp_all add: resch_consts)
    ultimately show ?thesis using True assms(3,4) w lt by (simp add: mag_def)
  next
    case False
    then have "unat (usec a) + unat (usec b) < 1000000"
      using w by (simp add: word_le_nat_alt resch_consts)
    then show ?thesis using False assms(3,4) w by (simp add: mag_def)
  qed
qed

text \<open>The sum of two times of the same sign stands for the sum of their values, for every aliasing of the three pointers.\<close>

theorem same_sign_sum_exact:
  assumes "norm_time (m x)" "norm_time (m y)" "neg (m x) = 0 \<longleftrightarrow> neg (m y) = 0"
  shows "time_val (gdev_time_add ret x y m ret) = time_val (m x) + time_val (m y)"
proof -
  define m1 where "m1 = (if ret \<noteq> x \<and> ret \<noteq> y then gdev_time_clear ret m else m)"
  have m1: "m1 x = m x" "m1 y = m y" by (simp_all add: m1_def gdev_time_clear_def)
  define t where "t = gdev_time_add ret x y m ret"
  define m2 where "m2 = (if neg (m x) = 0 then m1 else set_neg x 0 (set_neg y 0 m1))"
  have m2: "sec (m2 x) = sec (m x)" "sec (m2 y) = sec (m y)" "usec (m2 x) = usec (m x)" "usec (m2 y) = usec (m y)"
    by (simp_all add: m2_def m1)
  have t: "t = (if neg (m x) = 0 then add_pos ret x y m2
      else set_neg x 1 (set_neg y 1 (set_neg ret 1 (add_pos ret x y m2)))) ret"
    unfolding t_def gdev_time_add_def m1_def [symmetric] Let_def m1 using assms(3) by (simp add: m2_def)
  have "sec t = sec (add_pos ret x y m2 ret)" "usec t = usec (add_pos ret x y m2 ret)"
    by (simp_all add: t)
  then have "sec t = (if usec (m x) + usec (m y) \<ge> USEC_1SEC
      then sec (m x) + sec (m y) + 1 else sec (m x) + sec (m y))"
    "usec t = (if usec (m x) + usec (m y) \<ge> USEC_1SEC
      then usec (m x) + usec (m y) - USEC_1SEC else usec (m x) + usec (m y))"
    by (simp_all only: add_pos_fields m2)
  then have "mag t = mag (m x) + mag (m y)"
    using add_fields_mag assms(1,2) by blast
  moreover have "neg t \<noteq> 0 \<longleftrightarrow> neg (m x) \<noteq> 0"
    using assms(3)
    by (cases "neg (m x) = 0") (simp_all add: t add_pos_fields(3) m2_def m1_def gdev_time_clear_def)
  ultimately show ?thesis using assms(3) by (simp add: time_val_def t_def)
qed

lemma same_sign_sum_exact_witness:
  "time_val (gdev_time_add X X Y (args (gdev_time_us 0) (gdev_time_ms 1700) (gdev_time_ms 1700)) X) =
     time_val (gdev_time_ms 1700) + time_val (gdev_time_ms 1700)"
  using same_sign_sum_exact [of "args (gdev_time_us 0) (gdev_time_ms 1700) (gdev_time_ms 1700)" X Y X]
  by (simp add: norm_time_def gdev_time_ms_def resch_consts)

lemma elapsed_time_witness:
  "unat (gdev_time_to_us (time_sub (gdev_time_ms 2100) (gdev_time_ms 900))) =
     mag (gdev_time_ms 2100) - mag (gdev_time_ms 900) \<and>
   neg (time_sub (gdev_time_ms 2100) (gdev_time_ms 900)) = 0 \<and>
   (norm_time (time_sub (gdev_time_ms 2100) (gdev_time_ms 900)) \<longleftrightarrow>
     usec (gdev_time_ms 900) \<le> usec (gdev_time_ms 2100))"
  by (rule elapsed_time) (simp_all add: norm_time_def gdev_time_ms_def resch_consts mag_def)

lemma missing_borrow_compares_late_witness:
  "gdev_time_gt (time_sub (gdev_time_ms 2100) (gdev_time_ms 900)) (gdev_time_ms 1999) \<and>
   unat (gdev_time_to_us (time_sub (gdev_time_ms 2100) (gdev_time_ms 900)))
     < unat (sec (gdev_time_ms 2100) - sec (gdev_time_ms 900)) * 1000000"
  by (rule missing_borrow_compares_late) (simp_all add: norm_time_def gdev_time_ms_def resch_consts)

lemma ms_round_trip_witness:
  "gdev_time_to_ms (gdev_time_ms 1234) = 1234 \<and> unat (usec (gdev_time_ms 1234)) < 1000000"
  by (rule ms_round_trip) simp

text \<open>Multiplication and division into another structure drop the sign.\<close>

lemma mul_drops_sign: "ret \<noteq> x \<Longrightarrow> neg (gdev_time_mul ret x I m ret) = 0"
  by (simp add: gdev_time_mul_def gdev_time_clear_def Let_def)

lemma div_undefined_iff: "gdev_time_div ret x I m = None \<longleftrightarrow> I = 0"
  by (simp add: gdev_time_div_def Let_def bind_eq_None_conv)

end
