(* ===== verification/Gdev_List.thy ===== *)
theory Gdev_List
  imports Prelude
begin

text \<open>
  The intrusive list of the GPU scheduler (\<open>src/include/gdev_list.h\<close>) on a heap of
  \<open>struct gdev_list\<close> nodes: \<open>'a\<close> is the type of node addresses, \<open>'c\<close> the type of the
  objects nodes are embedded in, \<open>None\<close> the null pointer. An operation is \<open>None\<close> when it
  would dereference a null pointer. The operations are shown to implement insertion
  into and removal from the abstract list \<open>dlist h l ns\<close> that a heap represents.
\<close>

section \<open>The operations\<close>

record ('a, 'c) node =
  nxt :: "'a option"
  prv :: "'a option"
  container :: "'c option"

type_synonym ('a, 'c) heap = "'a \<Rightarrow> ('a, 'c) node"

definition set_nxt :: "'a \<Rightarrow> 'a option \<Rightarrow> ('a, 'c) heap \<Rightarrow> ('a, 'c) heap" where
  "set_nxt p v h = h(p := (h p)\<lparr>nxt := v\<rparr>)"

definition set_prv :: "'a \<Rightarrow> 'a option \<Rightarrow> ('a, 'c) heap \<Rightarrow> ('a, 'c) heap" where
  "set_prv p v h = h(p := (h p)\<lparr>prv := v\<rparr>)"

definition gdev_list_init :: "'a \<Rightarrow> 'c option \<Rightarrow> ('a, 'c) heap \<Rightarrow> ('a, 'c) heap" where
  "gdev_list_init entry c h = h(entry := \<lparr>nxt = Some entry, prv = Some entry, container = c\<rparr>)"

definition gdev_list_add_next :: "'a \<Rightarrow> 'a \<Rightarrow> ('a, 'c) heap \<Rightarrow> ('a, 'c) heap option" where
  "gdev_list_add_next entry pos h =
     do { next \<leftarrow> nxt (h pos);
          let h = set_nxt entry (Some next) h;
          let h = set_prv next (Some entry) h;
          let h = set_prv entry (Some pos) h;
          Some (set_nxt pos (Some entry) h) }"

definition gdev_list_add_prev :: "'a \<Rightarrow> 'a \<Rightarrow> ('a, 'c) heap \<Rightarrow> ('a, 'c) heap option" where
  "gdev_list_add_prev entry pos h =
     do { prev \<leftarrow> prv (h pos);
          let h = set_prv entry (Some prev) h;
          let h = set_nxt prev (Some entry) h;
          let h = set_nxt entry (Some pos) h;
          Some (set_prv pos (Some entry) h) }"

definition gdev_list_add :: "'a \<Rightarrow> 'a \<Rightarrow> ('a, 'c) heap \<Rightarrow> ('a, 'c) heap option" where
  "gdev_list_add entry head h = gdev_list_add_next entry head h"

definition gdev_list_add_tail :: "'a \<Rightarrow> 'a \<Rightarrow> ('a, 'c) heap \<Rightarrow> ('a, 'c) heap option" where
  "gdev_list_add_tail entry head h = gdev_list_add_prev entry head h"

definition gdev_list_del :: "'a \<Rightarrow> ('a, 'c) heap \<Rightarrow> ('a, 'c) heap option" where
  "gdev_list_del entry h =
     do { next \<leftarrow> nxt (h entry);
          prev \<leftarrow> prv (h entry);
          let h = set_nxt prev (Some next) h;
          let h = set_prv next (Some prev) h;
          let h = set_prv entry (Some entry) h;
          Some (set_nxt entry (Some entry) h) }"

definition gdev_list_empty :: "'a \<Rightarrow> ('a, 'c) heap \<Rightarrow> bool" where
  "gdev_list_empty entry h \<longleftrightarrow> nxt (h entry) = prv (h entry) \<and> nxt (h entry) = Some entry"

definition gdev_list_head :: "'a option \<Rightarrow> ('a, 'c) heap \<Rightarrow> 'a option" where
  "gdev_list_head head h =
     (case head of None \<Rightarrow> None
      | Some l \<Rightarrow> if \<not> gdev_list_empty l h then nxt (h l) else None)"

definition gdev_list_container :: "'a option \<Rightarrow> ('a, 'c) heap \<Rightarrow> 'c option" where
  "gdev_list_container entry h = (case entry of None \<Rightarrow> None | Some e \<Rightarrow> container (h e))"

text \<open>
  \<open>gdev_list_for_each\<close> with a loop that leaves at the first object \<open>stop\<close> holds of; the
  result is that object, or \<open>None\<close> when the loop ran to its end. \<open>entry\<close> is the address
  of the node embedded in an object. The loop ends at the list head because its
  container is the null pointer; on a heap that is no such list it need not end, and
  the function is then undefined.
\<close>

partial_function (option) find_from ::
  "('c \<Rightarrow> 'a) \<Rightarrow> ('c \<Rightarrow> bool) \<Rightarrow> ('a, 'c) heap \<Rightarrow> 'c option \<Rightarrow> 'c option option" where
  [code]: "find_from entry stop h p =
     (case p of None \<Rightarrow> Some None
      | Some c \<Rightarrow> if stop c then Some (Some c)
                 else find_from entry stop h (gdev_list_container (nxt (h (entry c))) h))"

definition for_each_find ::
  "('c \<Rightarrow> 'a) \<Rightarrow> ('c \<Rightarrow> bool) \<Rightarrow> 'a \<Rightarrow> ('a, 'c) heap \<Rightarrow> 'c option option" where
  "for_each_find entry stop list h =
     find_from entry stop h (gdev_list_container (gdev_list_head (Some list) h) h)"

section \<open>The list a heap represents\<close>

text \<open>\<open>seg h a ns b\<close>: following \<open>nxt\<close> from \<open>a\<close> visits \<open>ns\<close> and then \<open>b\<close>, and \<open>prv\<close> leads back.\<close>

fun seg :: "('a, 'c) heap \<Rightarrow> 'a \<Rightarrow> 'a list \<Rightarrow> 'a \<Rightarrow> bool" where
  "seg h a [] b \<longleftrightarrow> nxt (h a) = Some b \<and> prv (h b) = Some a"
| "seg h a (n # ns) b \<longleftrightarrow> nxt (h a) = Some n \<and> prv (h n) = Some a \<and> seg h n ns b"

definition dlist :: "('a, 'c) heap \<Rightarrow> 'a \<Rightarrow> 'a list \<Rightarrow> bool" where
  "dlist h l ns \<longleftrightarrow> seg h l ns l \<and> distinct (l # ns)"

lemma node_simps [simp]:
  "set_nxt p v h q = (if q = p then (h p)\<lparr>nxt := v\<rparr> else h q)"
  "set_prv p v h q = (if q = p then (h p)\<lparr>prv := v\<rparr> else h q)"
  by (simp_all add: set_nxt_def set_prv_def)

lemma seg_append: "seg h a (xs @ n # ys) b \<longleftrightarrow> seg h a xs n \<and> seg h n ys b"
  by (induction xs arbitrary: a) auto

lemma seg_cong:
  assumes "\<forall>n \<in> set (a # ns). nxt (h' n) = nxt (h n)" "\<forall>n \<in> set (ns @ [b]). prv (h' n) = prv (h n)"
  shows "seg h' a ns b \<longleftrightarrow> seg h a ns b"
  using assms by (induction ns arbitrary: a) auto

lemma seg_first: "seg h a ns b \<Longrightarrow> nxt (h a) = Some (hd (ns @ [b]))"
  by (cases ns) auto

lemma seg_last: "seg h a ns b \<Longrightarrow> prv (h b) = Some (last (a # ns))"
  by (induction ns arbitrary: a) auto

text \<open>Linking one node between the last node of a segment and its end.\<close>

lemma seg_link:
  assumes "seg h a xs b" "e \<notin> set (a # xs)" "distinct (a # xs)" "b \<notin> set xs"
    and "nxt (h' (last (a # xs))) = Some e" "prv (h' e) = Some (last (a # xs))"
    and "nxt (h' e) = Some b" "prv (h' b) = Some e"
    and nxt: "\<And>n. n \<noteq> e \<Longrightarrow> n \<noteq> last (a # xs) \<Longrightarrow> nxt (h' n) = nxt (h n)"
    and prv: "\<And>n. n \<noteq> e \<Longrightarrow> n \<noteq> b \<Longrightarrow> prv (h' n) = prv (h n)"
  shows "seg h' a (xs @ [e]) b"
proof (cases xs rule: rev_cases)
  case Nil
  with assms(5-8) show ?thesis by simp
next
  case (snoc ys y)
  have s: "seg h a ys y" using assms(1) by (simp add: snoc seg_append)
  have "seg h' a ys y \<longleftrightarrow> seg h a ys y"
  proof (rule seg_cong)
    show "\<forall>n\<in>set (a # ys). nxt (h' n) = nxt (h n)"
      using nxt assms(2,3) snoc by force
    show "\<forall>n\<in>set (ys @ [y]). prv (h' n) = prv (h n)"
      using prv assms(2,4) snoc by force
  qed
  with s assms(5-8) show ?thesis by (simp add: snoc seg_append)
qed

lemma add_prev_run:
  assumes "seg h a xs b"
  shows "gdev_list_add_prev e b h = Some (set_prv b (Some e) (set_nxt e (Some b)
    (set_nxt (last (a # xs)) (Some e) (set_prv e (Some (last (a # xs))) h))))"
  using seg_last [OF assms] by (simp add: gdev_list_add_prev_def del: last.simps)

lemma last_in: "last (a # xs) \<in> set (a # xs)"
  by (rule last_in_set) simp

lemma add_prev_seg:
  assumes "seg h a xs b" "e \<notin> set (a # xs)" "e \<noteq> b" "distinct (a # xs)" "b \<notin> set xs"
    and h': "gdev_list_add_prev e b h = Some h'"
  shows "seg h' a (xs @ [e]) b"
proof (rule seg_link [OF assms(1,2,4,5)])
  define q where "q = last (a # xs)"
  have q: "q \<noteq> e" using last_in [of a xs] assms(2) by (auto simp: q_def)
  have h'q: "h' = set_prv b (Some e) (set_nxt e (Some b) (set_nxt q (Some e) (set_prv e (Some q) h)))"
    using h' add_prev_run [OF assms(1)] by (simp add: q_def)
  show "nxt (h' (last (a # xs))) = Some e" "prv (h' e) = Some (last (a # xs))"
    "nxt (h' e) = Some b" "prv (h' b) = Some e"
    unfolding q_def [symmetric] h'q using q assms(3) by simp_all
  show "nxt (h' n) = nxt (h n)" if "n \<noteq> e" "n \<noteq> last (a # xs)" for n
    using that unfolding q_def [symmetric] h'q by simp
  show "prv (h' n) = prv (h n)" if "n \<noteq> e" "n \<noteq> b" for n
    using that by (simp add: h'q)
qed

text \<open>Adding before a node changes no link that starts elsewhere.\<close>

lemma add_prev_frame:
  assumes "gdev_list_add_prev e b h = Some h'"
  shows "container (h' n) = container (h n)"
    and "n \<noteq> e \<Longrightarrow> prv (h b) \<noteq> Some n \<Longrightarrow> nxt (h' n) = nxt (h n)"
    and "n \<noteq> e \<Longrightarrow> n \<noteq> b \<Longrightarrow> prv (h' n) = prv (h n)"
  using assms by (auto simp: gdev_list_add_prev_def Let_def)

text \<open>Insertion in front of a member, and at the tail.\<close>

theorem add_prev_inserts:
  assumes "dlist h l (xs @ p # ys)" "e \<notin> set (l # xs @ p # ys)"
  shows "\<exists>h'. gdev_list_add_prev e p h = Some h' \<and> dlist h' l (xs @ e # p # ys)"
proof -
  have s: "seg h l xs p" "seg h p ys l" and d: "distinct (l # xs @ p # ys)"
    using assms by (auto simp: dlist_def seg_append)
  obtain h' where h': "gdev_list_add_prev e p h = Some h'" using add_prev_run [OF s(1)] by blast
  have "seg h' l (xs @ [e]) p"
    using add_prev_seg [OF s(1) _ _ _ _ h'] assms(2) d by auto
  moreover have "seg h' p ys l \<longleftrightarrow> seg h p ys l"
  proof (rule seg_cong)
    have q: "prv (h p) = Some (last (l # xs))" using seg_last [OF s(1)] .
    have "last (l # xs) \<in> set (l # xs)" by (rule last_in)
    then show "\<forall>n\<in>set (p # ys). nxt (h' n) = nxt (h n)"
      using add_prev_frame(2) [OF h'] q assms(2) d by fastforce
    show "\<forall>n\<in>set (ys @ [l]). prv (h' n) = prv (h n)"
      by (intro ballI add_prev_frame(3) [OF h']) (use assms(2) d in auto)
  qed
  ultimately have "seg h' l ((xs @ [e]) @ p # ys) l" using s(2) by (simp only: seg_append)
  then show ?thesis using h' assms(2) d by (auto simp: dlist_def)
qed

theorem add_tail_appends:
  assumes "dlist h l ns" "e \<notin> set (l # ns)"
  shows "\<exists>h'. gdev_list_add_tail e l h = Some h' \<and> dlist h' l (ns @ [e])"
proof -
  have s: "seg h l ns l" and d: "distinct (l # ns)" using assms by (auto simp: dlist_def)
  obtain h' where h': "gdev_list_add_prev e l h = Some h'" using add_prev_run [OF s] by blast
  have "seg h' l (ns @ [e]) l"
    using add_prev_seg [OF s _ _ _ _ h'] assms(2) d by auto
  then show ?thesis using h' assms(2) d by (auto simp: dlist_def gdev_list_add_tail_def)
qed


text \<open>Deletion unlinks a member and leaves it linked to itself.\<close>

theorem del_removes:
  assumes "dlist h l (xs @ e # ys)"
  shows "\<exists>h'. gdev_list_del e h = Some h' \<and> dlist h' l (xs @ ys) \<and> gdev_list_empty e h'"
proof -
  have s: "seg h l xs e" "seg h e ys l" and d: "distinct (l # xs @ e # ys)"
    using assms by (auto simp: dlist_def seg_append)
  define p where "p = last (l # xs)"
  define n where "n = hd (ys @ [l])"
  have pn: "prv (h e) = Some p" "nxt (h e) = Some n"
    using seg_last [OF s(1)] seg_first [OF s(2)] by (simp_all add: p_def n_def)
  have pm: "p \<in> set (l # xs)" unfolding p_def by (rule last_in)
  have nm: "n \<in> set (ys @ [l])" by (simp add: n_def hd_in_set del: set_append)
  have ne: "p \<noteq> e" "n \<noteq> e" using pm nm d by auto
  define h' where "h' = set_nxt e (Some e) (set_prv e (Some e) (set_prv n (Some p) (set_nxt p (Some n) h)))"
  have run: "gdev_list_del e h = Some h'" by (simp add: gdev_list_del_def pn h'_def)
  have f: "nxt (h' p) = Some n" "prv (h' n) = Some p"
    "\<And>q. q \<noteq> p \<Longrightarrow> q \<noteq> e \<Longrightarrow> nxt (h' q) = nxt (h q)" "\<And>q. q \<noteq> n \<Longrightarrow> q \<noteq> e \<Longrightarrow> prv (h' q) = prv (h q)"
    using ne by (auto simp: h'_def)
  have "seg h' l (xs @ ys) l"
  proof (cases xs rule: rev_cases)
    case xs: Nil
    then have pl: "p = l" by (simp add: p_def)
    show ?thesis
    proof (cases ys)
      case Nil
      with xs f(1,2) show ?thesis by (simp add: p_def n_def)
    next
      case (Cons z zs)
      then have "n = z" "seg h z zs l" using s(2) by (simp_all add: n_def)
      moreover have "seg h' z zs l \<longleftrightarrow> seg h z zs l"
        by (rule seg_cong; intro ballI f(3,4)) (use d xs pl Cons \<open>n = z\<close> in auto)
      ultimately show ?thesis using xs pl Cons f(1,2) by simp
    qed
  next
    case (snoc us u)
    then have pu: "p = u" by (simp add: p_def)
    have su: "seg h l us u" using s(1) by (simp add: snoc seg_append)
    have nl: "n \<notin> set (us @ [u])" using nm d snoc by auto
    have "seg h' l us u \<longleftrightarrow> seg h l us u"
      by (rule seg_cong; intro ballI f(3,4)) (use d snoc pu nl in auto)
    moreover have "seg h' u ys l"
    proof (cases ys)
      case Nil
      with f(1,2) show ?thesis by (simp add: pu n_def)
    next
      case (Cons z zs)
      then have nz: "n = z" and "seg h z zs l" using s(2) by (simp_all add: n_def)
      moreover have "seg h' z zs l \<longleftrightarrow> seg h z zs l"
        by (rule seg_cong; intro ballI f(3,4)) (use d snoc pu Cons nz in auto)
      ultimately show ?thesis using f(1,2) pu Cons by simp
    qed
    ultimately show ?thesis using su by (simp add: snoc seg_append)
  qed
  moreover have "gdev_list_empty e h'" by (simp add: gdev_list_empty_def h'_def)
  ultimately show ?thesis using run d by (auto simp: dlist_def)
qed

theorem add_head_prepends:
  assumes "dlist h l ns" "e \<notin> set (l # ns)"
  shows "\<exists>h'. gdev_list_add e l h = Some h' \<and> dlist h' l (e # ns)"
proof -
  have s: "seg h l ns l" and d: "distinct (l # ns)" using assms by (auto simp: dlist_def)
  define n where "n = hd (ns @ [l])"
  have n: "nxt (h l) = Some n" using seg_first [OF s] by (simp add: n_def)
  have nm: "n \<in> set (ns @ [l])" by (simp add: n_def hd_in_set del: set_append)
  have ne: "n \<noteq> e" "e \<noteq> l" using nm assms(2) by auto
  define h' where "h' = set_nxt l (Some e) (set_prv e (Some l) (set_prv n (Some e) (set_nxt e (Some n) h)))"
  have run: "gdev_list_add e l h = Some h'"
    by (simp add: gdev_list_add_def gdev_list_add_next_def n h'_def)
  have "seg h' e ns l"
  proof (cases ns)
    case Nil
    with ne show ?thesis by (simp add: h'_def n_def)
  next
    case (Cons z zs)
    then have z: "n = z" "seg h z zs l" using s by (simp_all add: n_def)
    moreover have "seg h' z zs l \<longleftrightarrow> seg h z zs l"
      by (rule seg_cong) (use assms(2) d Cons z in \<open>auto simp: h'_def\<close>)
    ultimately show ?thesis using ne Cons by (auto simp: h'_def)
  qed
  moreover have "nxt (h' l) = Some e" "prv (h' e) = Some l" using ne by (auto simp: h'_def)
  ultimately show ?thesis using run assms(2) d by (auto simp: dlist_def)
qed

section \<open>Lists of objects\<close>

text \<open>
  \<open>olist entry h l cs\<close>: the list with head \<open>l\<close> links the nodes embedded in the objects
  \<open>cs\<close>; the containers are set and the head has none.
\<close>

definition olist :: "('c \<Rightarrow> 'a) \<Rightarrow> ('a, 'c) heap \<Rightarrow> 'a \<Rightarrow> 'c list \<Rightarrow> bool" where
  "olist entry h l cs \<longleftrightarrow> dlist h l (map entry cs) \<and> container (h l) = None \<and>
     (\<forall>c \<in> set cs. container (h (entry c)) = Some c)"

lemma olist_init: "olist entry (gdev_list_init l None h) l []"
  by (simp add: olist_def dlist_def gdev_list_init_def)

lemma dlist_empty_iff: "dlist h l ns \<Longrightarrow> gdev_list_empty l h \<longleftrightarrow> ns = []"
  by (cases ns) (auto simp: dlist_def gdev_list_empty_def)

lemma olist_empty_iff: "olist entry h l cs \<Longrightarrow> gdev_list_empty l h \<longleftrightarrow> cs = []"
  by (auto simp: olist_def dest!: dlist_empty_iff)

lemma olist_head:
  "olist entry h l cs \<Longrightarrow> gdev_list_container (gdev_list_head (Some l) h) h = (case cs of [] \<Rightarrow> None | c # _ \<Rightarrow> Some c)"
  using olist_empty_iff [of entry h l cs]
  by (auto simp: olist_def gdev_list_head_def gdev_list_container_def dlist_def split: list.splits)

lemma find_from_seg:
  "seg h a (map entry cs) l \<Longrightarrow> container (h l) = None \<Longrightarrow>
   \<forall>c \<in> set cs. container (h (entry c)) = Some c \<Longrightarrow>
   find_from entry stop h (gdev_list_container (nxt (h a)) h) = Some (List.find stop cs)"
proof (induction cs arbitrary: a)
  case Nil
  then show ?case by (simp add: gdev_list_container_def find_from.simps)
next
  case (Cons c cs)
  then have "nxt (h a) = Some (entry c)" "seg h (entry c) (map entry cs) l" by auto
  with Cons show ?case
    by (subst find_from.simps) (simp add: gdev_list_container_def)
qed

theorem for_each_terminates:
  assumes "olist entry h l cs"
  shows "for_each_find entry stop l h = Some (List.find stop cs)"
proof (cases cs)
  case Nil
  with olist_head [OF assms] show ?thesis by (simp add: for_each_find_def find_from.simps)
next
  case (Cons c ds)
  with assms have "gdev_list_head (Some l) h = nxt (h l)"
    using olist_empty_iff [OF assms] by (simp add: gdev_list_head_def)
  with assms show ?thesis
    using find_from_seg [of h l entry cs l stop] by (simp add: for_each_find_def olist_def dlist_def)
qed

text \<open>The operations on lists of objects.\<close>

lemma olist_insert_before:
  assumes "olist entry h l (xs @ p # ys)" "entry c \<notin> set (l # map entry (xs @ p # ys))"
    "container (h (entry c)) = Some c"
  shows "\<exists>h'. gdev_list_add_prev (entry c) (entry p) h = Some h' \<and> olist entry h' l (xs @ c # p # ys)"
proof -
  obtain h' where "gdev_list_add_prev (entry c) (entry p) h = Some h'"
    "dlist h' l (map entry (xs @ c # p # ys))"
    using add_prev_inserts [of h l "map entry xs" "entry p" "map entry ys" "entry c"] assms
    by (auto simp: olist_def)
  then show ?thesis using assms by (auto simp: olist_def add_prev_frame(1))
qed

lemma olist_append:
  assumes "olist entry h l cs" "entry c \<notin> set (l # map entry cs)" "container (h (entry c)) = Some c"
  shows "\<exists>h'. gdev_list_add_tail (entry c) l h = Some h' \<and> olist entry h' l (cs @ [c])"
proof -
  obtain h' where "gdev_list_add_tail (entry c) l h = Some h'" "dlist h' l (map entry (cs @ [c]))"
    using add_tail_appends [of h l "map entry cs" "entry c"] assms by (auto simp: olist_def)
  then show ?thesis using assms by (auto simp: olist_def gdev_list_add_tail_def add_prev_frame(1))
qed

lemma del_container: "gdev_list_del e h = Some h' \<Longrightarrow> container (h' n) = container (h n)"
  by (auto simp: gdev_list_del_def)

lemma olist_delete:
  assumes "olist entry h l (xs @ c # ys)"
  shows "\<exists>h'. gdev_list_del (entry c) h = Some h' \<and> olist entry h' l (xs @ ys) \<and>
    gdev_list_empty (entry c) h'"
  using del_removes [of h l "map entry xs" "entry c" "map entry ys"] assms
  by (auto simp: olist_def del_container)

lemma find_Some_split:
  "List.find P cs = Some p \<Longrightarrow> \<exists>xs ys. cs = xs @ p # ys \<and> P p \<and> (\<forall>x \<in> set xs. \<not> P x)"
proof (induction cs)
  case (Cons c cs)
  then show ?case
  proof (cases "P c")
    case False
    with Cons obtain xs ys where "cs = xs @ p # ys" "P p" "\<forall>x \<in> set xs. \<not> P x" by auto
    with False show ?thesis by (intro exI [of _ "c # xs"] exI [of _ ys]) simp
  qed (auto intro: exI [of _ "[]"])
qed simp

text \<open>
  The contract a queue relies on, for one list head: \<open>rep h cs\<close> says which objects are
  linked, \<open>fresh h c\<close> that \<open>c\<close> may be linked.
\<close>

locale intrusive_list =
  fixes rep :: "'h \<Rightarrow> 'c list \<Rightarrow> bool"
    and fresh :: "'h \<Rightarrow> 'c \<Rightarrow> bool"
    and unlinked :: "'h \<Rightarrow> 'c \<Rightarrow> bool"
    and first :: "('c \<Rightarrow> bool) \<Rightarrow> 'h \<Rightarrow> 'c option option"
    and ins :: "'c \<Rightarrow> 'c \<Rightarrow> 'h \<Rightarrow> 'h option"
    and app :: "'c \<Rightarrow> 'h \<Rightarrow> 'h option"
    and del :: "'c \<Rightarrow> 'h \<Rightarrow> 'h option"
  assumes first_spec: "rep h cs \<Longrightarrow> first P h = Some (List.find P cs)"
    and fresh_unlinked: "rep h cs \<Longrightarrow> fresh h c \<Longrightarrow> unlinked h c \<and> c \<notin> set cs"
    and ins_spec: "rep h (xs @ p # ys) \<Longrightarrow> fresh h c \<Longrightarrow>
      \<exists>h'. ins c p h = Some h' \<and> rep h' (xs @ c # p # ys)"
    and linked: "rep h cs \<Longrightarrow> c \<in> set cs \<Longrightarrow> \<not> unlinked h c"
    and app_spec: "rep h cs \<Longrightarrow> fresh h c \<Longrightarrow> \<exists>h'. app c h = Some h' \<and> rep h' (cs @ [c])"
    and del_spec: "rep h (xs @ c # ys) \<Longrightarrow> \<exists>h'. del c h = Some h' \<and> rep h' (xs @ ys) \<and> fresh h' c"
begin

text \<open>The ordered insertion of the queues: in front of the first match, else at the tail.\<close>

lemma ordered_insertion:
  assumes "rep h cs" "fresh h c"
  shows "\<exists>h'. do { found \<leftarrow> first (before c) h;
                   h \<leftarrow> (case found of None \<Rightarrow> Some h | Some p \<Rightarrow> ins c p h);
                   if unlinked h c then app c h else Some h } = Some h' \<and>
              rep h' (insert_before before c cs)"
proof (cases "List.find (before c) cs")
  case None
  then have "insert_before before c cs = cs @ [c]"
    by (simp add: insert_before_split find_None_iff takeWhile_eq_all_conv [THEN iffD2])
  with None show ?thesis
    using first_spec [OF assms(1)] fresh_unlinked [OF assms] app_spec [OF assms] by auto
next
  case (Some p)
  then obtain xs ys where cs: "cs = xs @ p # ys" "before c p" "\<forall>x \<in> set xs. \<not> before c x"
    using find_Some_split [OF Some] by blast
  then have ib: "insert_before before c cs = xs @ c # p # ys"
    by (simp add: insert_before_split)
  obtain h' where h': "ins c p h = Some h'" "rep h' (xs @ c # p # ys)"
    using ins_spec assms cs(1) by blast
  then have "\<not> unlinked h' c" using linked by simp
  with h' Some ib show ?thesis using first_spec [OF assms(1)] by auto
qed

lemma append_delete:
  assumes "rep h (xs @ c # ys)"
  shows "\<exists>h'. do { h \<leftarrow> del c h; app c h } = Some h' \<and> rep h' (xs @ ys @ [c])"
  using del_spec [OF assms] app_spec by fastforce

end

lemma dlist_linked: "dlist h l ns \<Longrightarrow> n \<in> set ns \<Longrightarrow> \<not> gdev_list_empty n h"
proof
  assume d: "dlist h l ns" and n: "n \<in> set ns" and e: "gdev_list_empty n h"
  then obtain xs ys where ns: "ns = xs @ n # ys" by (meson split_list)
  with d have "seg h n ys l" "n \<noteq> l" "n \<notin> set ys" by (auto simp: dlist_def seg_append)
  then have "nxt (h n) \<noteq> Some n" by (cases ys) auto
  with e show False by (simp add: gdev_list_empty_def)
qed

definition fresh_node :: "('c \<Rightarrow> 'a) \<Rightarrow> ('a, 'c) heap \<Rightarrow> 'c \<Rightarrow> bool" where
  "fresh_node entry h c \<longleftrightarrow> gdev_list_empty (entry c) h \<and> container (h (entry c)) = Some c"

lemma fresh_not_in:
  assumes "olist entry h l cs" "fresh_node entry h c"
  shows "entry c \<notin> set (l # map entry cs)"
  using assms dlist_linked [of h l "map entry cs" "entry c"]
  by (auto simp: olist_def fresh_node_def)

interpretation gl: intrusive_list "\<lambda>h. olist entry h l" "fresh_node entry"
    "\<lambda>h c. gdev_list_empty (entry c) h" "\<lambda>P. for_each_find entry P l"
    "\<lambda>c p. gdev_list_add_prev (entry c) (entry p)" "\<lambda>c. gdev_list_add_tail (entry c) l"
    "\<lambda>c. gdev_list_del (entry c)" for entry l
proof unfold_locales
  show "for_each_find entry P l h = Some (List.find P cs)" if "olist entry h l cs" for h cs P
    using that by (rule for_each_terminates)
  show "gdev_list_empty (entry c) h \<and> c \<notin> set cs" if "olist entry h l cs" "fresh_node entry h c" for h cs c
    using that fresh_not_in [OF that] by (auto simp: fresh_node_def)
  show "\<exists>h'. gdev_list_add_prev (entry c) (entry p) h = Some h' \<and> olist entry h' l (xs @ c # p # ys)"
    if "olist entry h l (xs @ p # ys)" "fresh_node entry h c" for h xs p ys c
    using olist_insert_before [OF that(1) fresh_not_in [OF that]] that(2) by (simp add: fresh_node_def)
  show "\<not> gdev_list_empty (entry c) h" if "olist entry h l cs" "c \<in> set cs" for h cs c
    using that dlist_linked [of h l "map entry cs" "entry c"] by (auto simp: olist_def)
  show "\<exists>h'. gdev_list_add_tail (entry c) l h = Some h' \<and> olist entry h' l (cs @ [c])"
    if "olist entry h l cs" "fresh_node entry h c" for h cs c
    using olist_append [OF that(1) fresh_not_in [OF that]] that(2) by (simp add: fresh_node_def)
  show "\<exists>h'. gdev_list_del (entry c) h = Some h' \<and> olist entry h' l (xs @ ys) \<and> fresh_node entry h' c"
    if "olist entry h l (xs @ c # ys)" for h xs c ys
    using olist_delete [OF that] that by (auto simp: fresh_node_def del_container olist_def)
qed

text \<open>
  Inserting an object that is linked already: the node is taken over by its new
  neighbours, and what followed it in its old place is lost.
\<close>

lemma add_linked_loses:
  assumes "seg h l [a, b, c] l" "distinct [l, a, b, c]"
  shows "\<exists>h'. gdev_list_add_prev a c h = Some h' \<and> nxt (h' b) = Some a \<and> nxt (h' a) = Some c \<and>
    nxt (h' l) = Some a \<and> prv (h' a) = Some b"
  using assms by (auto simp: gdev_list_add_prev_def)

lemma add_prev_inserts_witness:
  "\<exists>h'. gdev_list_add_prev 2 (1::nat) (\<lambda>n. \<lparr>nxt = Some (1 - n), prv = Some (1 - n), container = None :: nat option\<rparr>)
     = Some h' \<and> dlist h' 0 ([] @ 2 # 1 # [])"
  by (rule add_prev_inserts) (auto simp: dlist_def)

lemma del_removes_witness:
  "\<exists>h'. gdev_list_del (1::nat) (\<lambda>n. \<lparr>nxt = Some (1 - n), prv = Some (1 - n), container = None :: nat option\<rparr>)
     = Some h' \<and> dlist h' 0 ([] @ []) \<and> gdev_list_empty 1 h'"
  by (rule del_removes) (auto simp: dlist_def)

lemma for_each_terminates_witness:
  "for_each_find id (\<lambda>c. c = 1) 0 (\<lambda>n. \<lparr>nxt = Some (1 - n), prv = Some (1 - n),
       container = if n = 0 then None else Some (n :: nat)\<rparr>) = Some (List.find (\<lambda>c. c = 1) [1])"
  by (rule for_each_terminates) (auto simp: olist_def dlist_def)

end
