(* ===== verification/Gpu_State.thy ===== *)
theory Gpu_State
  imports Bitops Gdev_Time Gdev_List
begin

text \<open>
  The state of the GPU scheduler and the operations its policies are built from
  (\<open>src/include/resch-gpu-core.h\<close>, \<open>src/core/gpu.c\<close>, \<open>src/core/gpu_init.c\<close>):
  virtual and physical devices, scheduling entities, the priority-ordered queues, the
  sleep and wake-up protocol, device and scheduler initialisation.

  Devices of an array are named by their index, entities by their address; an address
  that is not allocated has no entity, and using it is undefined. A queue is the list of
  the objects linked in it; \<open>enqueue_heap_refines\<close> relates it to the pointers of
  \<open>gdev_list.h\<close>. A function is \<open>None\<close> also when it would take a spinlock that is held:
  it would never return.
\<close>

type_synonym u32 = "32 word"

section \<open>Constants\<close>

definition GDEV_PERIOD_DEFAULT :: u32 where [resch_consts]: "GDEV_PERIOD_DEFAULT = 100"
definition GDEV_CREDIT_INACTIVE_THRESHOLD :: u32 where
  [resch_consts]: "GDEV_CREDIT_INACTIVE_THRESHOLD = GDEV_PERIOD_DEFAULT"
definition GDEV_UPDATE_INTERVAL :: u64 where [resch_consts]: "GDEV_UPDATE_INTERVAL = 5000000"
definition GDEV_DEVICE_MAX_COUNT :: nat where [resch_consts]: "GDEV_DEVICE_MAX_COUNT = 4"
definition GDEV_CONTEXT_MAX_COUNT :: nat where [resch_consts]: "GDEV_CONTEXT_MAX_COUNT = 100"
definition GDEV_INSTANCES_LIMIT :: int where [resch_consts]: "GDEV_INSTANCES_LIMIT = 1"
definition GPU_CID_MAP_LONG :: nat where [resch_consts]: "GPU_CID_MAP_LONG = 31"
definition DEVICE_RESOURCE :: "u32 list" where "DEVICE_RESOURCE = [60, 20, 10, 10]"

section \<open>State\<close>

text \<open>What a \<open>void *\<close> field of a device can point to.\<close>

datatype gobj = Entity nat | Vdev nat

record gdev_device =
  dev_id :: int
  users :: int
  accessed :: int
  blocked :: int
  com_bw :: u32
  mem_bw :: u32
  period :: u32
  com_bw_used :: u32
  mem_bw_used :: u32
  com_time :: u32
  mem_time :: u32
  credit_com :: gdev_time
  credit_mem :: gdev_time
  sched_com_thread :: "nat option"
  credit_com_thread :: "nat option"
  current_com :: "gobj option"
  current_mem :: "gobj option"
  parent :: "nat option"
  sched_com_list :: "nat list"
  sched_mem_list :: "nat list"

text \<open>The task field of an entity: null, the marker \<open>0xDEAD\<close>, or a task.\<close>

datatype tptr = TNull | TDead | Task nat

record gdev_sched_entity =
  se_gdev :: nat
  se_task :: tptr
  ctx :: u32
  se_prio :: int
  launch_instances :: int
  memcpy_instances :: int
  last_tick_com :: gdev_time
  last_tick_mem :: gdev_time
  wait_cond :: int
  launch_count :: int

text \<open>
  The global data, with the parts of the kernel the scheduler uses: the state of tasks
  (0 is running), which tasks run under \<open>SCHED_DEADLINE\<close>, whether
  \<open>reschg_global_spinlock\<close> is held, and which kernel threads of the scheduler exist.
\<close>

record gpu =
  gdev_vds :: "nat \<Rightarrow> gdev_device"
  phys_ds :: "nat \<Rightarrow> gdev_device"
  gpu_count :: nat
  ents :: "nat \<Rightarrow> gdev_sched_entity option"
  sched_entity_ptr :: "nat option list"
  cid_bitmap :: "u64 list"
  seq_vgid :: int
  task_state :: "nat \<Rightarrow> int"
  task_dl :: "nat \<Rightarrow> bool"
  global_lock :: bool
  live_threads :: "nat set"

text \<open>The static data before initialisation: zero.\<close>

definition zero_dev :: gdev_device where
  "zero_dev =
     \<lparr>dev_id = 0, users = 0, accessed = 0, blocked = 0, com_bw = 0, mem_bw = 0, period = 0,
      com_bw_used = 0, mem_bw_used = 0, com_time = 0, mem_time = 0,
      credit_com = gdev_time_us 0, credit_mem = gdev_time_us 0, sched_com_thread = None,
      credit_com_thread = None, current_com = None, current_mem = None, parent = None,
      sched_com_list = [], sched_mem_list = []\<rparr>"

definition gpu_zero :: gpu where
  "gpu_zero =
     \<lparr>gdev_vds = \<lambda>_. zero_dev, phys_ds = \<lambda>_. zero_dev, gpu_count = 0, ents = \<lambda>_. None,
      sched_entity_ptr = replicate GDEV_CONTEXT_MAX_COUNT None, cid_bitmap = replicate 100 0,
      seq_vgid = 0, task_state = \<lambda>_. 0, task_dl = \<lambda>_. False, global_lock = False,
      live_threads = {}\<rparr>"

definition upd_vd :: "nat \<Rightarrow> (gdev_device \<Rightarrow> gdev_device) \<Rightarrow> gpu \<Rightarrow> gpu" where
  "upd_vd d f g = g\<lparr>gdev_vds := (gdev_vds g)(d := f (gdev_vds g d))\<rparr>"

definition upd_phys :: "nat \<Rightarrow> (gdev_device \<Rightarrow> gdev_device) \<Rightarrow> gpu \<Rightarrow> gpu" where
  "upd_phys p f g = g\<lparr>phys_ds := (phys_ds g)(p := f (phys_ds g p))\<rparr>"

definition upd_ent :: "nat \<Rightarrow> (gdev_sched_entity \<Rightarrow> gdev_sched_entity) \<Rightarrow> gpu \<Rightarrow> gpu" where
  "upd_ent s f g = g\<lparr>ents := (ents g)(s := map_option f (ents g s))\<rparr>"

lemma upd_sel [simp]:
  "gdev_vds (upd_vd d f g) = (gdev_vds g)(d := f (gdev_vds g d))"
  "phys_ds (upd_vd d f g) = phys_ds g" "ents (upd_vd d f g) = ents g"
  "task_state (upd_vd d f g) = task_state g" "global_lock (upd_vd d f g) = global_lock g"
  "task_dl (upd_vd d f g) = task_dl g"
  "gdev_vds (upd_phys p f g) = gdev_vds g" "ents (upd_phys p f g) = ents g"
  "phys_ds (upd_phys p f g) = (phys_ds g)(p := f (phys_ds g p))"
  "task_state (upd_phys p f g) = task_state g" "global_lock (upd_phys p f g) = global_lock g"
  "task_dl (upd_phys p f g) = task_dl g"
  "gdev_vds (upd_ent s h g) = gdev_vds g" "phys_ds (upd_ent s h g) = phys_ds g"
  "ents (upd_ent s h g) = (ents g)(s := map_option h (ents g s))"
  "task_state (upd_ent s h g) = task_state g" "global_lock (upd_ent s h g) = global_lock g"
  "task_dl (upd_ent s h g) = task_dl g"
  "live_threads (upd_vd d f g) = live_threads g" "live_threads (upd_phys p f g) = live_threads g"
  "gpu_count (upd_vd d f g) = gpu_count g" "gpu_count (upd_phys p f g) = gpu_count g"
  by (simp_all add: upd_vd_def upd_phys_def upd_ent_def)

definition spin_lock :: "gpu \<Rightarrow> gpu option" where
  "spin_lock g = (if global_lock g then None else Some (g\<lparr>global_lock := True\<rparr>))"

definition spin_unlock :: "gpu \<Rightarrow> gpu" where
  "spin_unlock g = g\<lparr>global_lock := False\<rparr>"

section \<open>Queues\<close>

text \<open>Whether the node of an entity is linked in the queue of some virtual device.\<close>

definition linked_com :: "nat \<Rightarrow> gpu \<Rightarrow> bool" where
  "linked_com s g \<longleftrightarrow> list_ex (\<lambda>d. s \<in> set (sched_com_list (gdev_vds g d))) [0..<GDEV_DEVICE_MAX_COUNT]"

definition linked_mem :: "nat \<Rightarrow> gpu \<Rightarrow> bool" where
  "linked_mem s g \<longleftrightarrow> list_ex (\<lambda>d. s \<in> set (sched_mem_list (gdev_vds g d))) [0..<GDEV_DEVICE_MAX_COUNT]"

definition prio_of :: "gpu \<Rightarrow> nat \<Rightarrow> int" where
  "prio_of g s = (case ents g s of None \<Rightarrow> 0 | Some e \<Rightarrow> se_prio e)"

text \<open>\<open>se->prio > p->prio\<close>: the new entity goes in front of the first of lower priority.\<close>

definition prio_before :: "gpu \<Rightarrow> nat \<Rightarrow> nat \<Rightarrow> bool" where
  "prio_before g s p \<longleftrightarrow> prio_of g s > prio_of g p"

text \<open>
  The loop reads the priority of every entity of the queue up to the first match. Linking
  an entity that is linked already in front of that match destroys the list and is
  undefined; when no entity matches, an entity that is linked stays where it is.
\<close>

definition enqueue_list :: "gpu \<Rightarrow> bool \<Rightarrow> nat \<Rightarrow> nat list \<Rightarrow> nat list option" where
  "enqueue_list g linked s q =
     do { guard_c (ents g s \<noteq> None \<and> list_all (\<lambda>p. ents g p \<noteq> None) q);
          case List.find (prio_before g s) q of
            Some p \<Rightarrow> do { guard_c (\<not> linked); Some (insert_before (prio_before g) s q) }
          | None \<Rightarrow> Some (if linked then q else q @ [s]) }"

definition gdev_enqueue_compute :: "nat \<Rightarrow> nat \<Rightarrow> gpu \<Rightarrow> gpu option" where
  "gdev_enqueue_compute d s g =
     do { q \<leftarrow> enqueue_list g (linked_com s g) s (sched_com_list (gdev_vds g d));
          Some (upd_vd d (sched_com_list_update (\<lambda>_. q)) g) }"

definition gdev_enqueue_memory :: "nat \<Rightarrow> nat \<Rightarrow> gpu \<Rightarrow> gpu option" where
  "gdev_enqueue_memory d s g =
     do { q \<leftarrow> enqueue_list g (linked_mem s g) s (sched_mem_list (gdev_vds g d));
          Some (upd_vd d (sched_mem_list_update (\<lambda>_. q)) g) }"

text \<open>Unlinking does not name the queue: the entity leaves whichever it is in.\<close>

definition gdev_dequeue_compute :: "nat \<Rightarrow> gpu \<Rightarrow> gpu" where
  "gdev_dequeue_compute s g =
     g\<lparr>gdev_vds := \<lambda>d. gdev_vds g d\<lparr>sched_com_list := remove1 s (sched_com_list (gdev_vds g d))\<rparr>\<rparr>"

definition gdev_dequeue_memory :: "nat \<Rightarrow> gpu \<Rightarrow> gpu" where
  "gdev_dequeue_memory s g =
     g\<lparr>gdev_vds := \<lambda>d. gdev_vds g d\<lparr>sched_mem_list := remove1 s (sched_mem_list (gdev_vds g d))\<rparr>\<rparr>"

text \<open>The same insertion on the pointers of \<open>gdev_list.h\<close>.\<close>

definition enqueue_heap ::
  "(nat \<Rightarrow> 'a) \<Rightarrow> (nat \<Rightarrow> int) \<Rightarrow> 'a \<Rightarrow> nat \<Rightarrow> ('a, nat) heap \<Rightarrow> ('a, nat) heap option" where
  "enqueue_heap entry prio l s h =
     do { found \<leftarrow> for_each_find entry (\<lambda>p. prio s > prio p) l h;
          h \<leftarrow> (case found of None \<Rightarrow> Some h
               | Some p \<Rightarrow> gdev_list_add_prev (entry s) (entry p) h);
          if gdev_list_empty (entry s) h then gdev_list_add_tail (entry s) l h else Some h }"

section \<open>Accessors\<close>

definition gdev_current_com_get :: "gdev_device \<Rightarrow> gobj option" where
  "gdev_current_com_get dev = current_com dev"

definition gdev_current_com_set :: "gobj option \<Rightarrow> gdev_device \<Rightarrow> gdev_device" where
  "gdev_current_com_set com dev = dev\<lparr>current_com := com\<rparr>"

definition gdev_phys_get :: "gdev_device \<Rightarrow> nat option" where
  "gdev_phys_get dev = parent dev"

lemmas acc_defs = gdev_current_com_get_def gdev_current_com_set_def gdev_phys_get_def

text \<open>The first context of a queue: \<open>gdev_list_container(gdev_list_head(...))\<close>.\<close>

definition first_of :: "nat list \<Rightarrow> nat option" where
  "first_of q = (case q of [] \<Rightarrow> None | s # _ \<Rightarrow> Some s)"

section \<open>Sleeping and waking\<close>

text \<open>The kernel: \<open>wake_up_task\<close> answers whether the task was asleep.\<close>

definition wake_up_task :: "nat \<Rightarrow> gpu \<Rightarrow> bool \<times> gpu" where
  "wake_up_task t g = (task_state g t \<noteq> 0, g\<lparr>task_state := (task_state g)(t := 0)\<rparr>)"

text \<open>
  \<open>gdev_sched_sleep\<close> up to the point where the task gives up the CPU: the result says
  whether it will (\<open>True\<close>) or returns because the wake-up came first. \<open>block\<close> is
  \<open>set_current_state(TASK_INTERRUPTIBLE); schedule()\<close>.
\<close>

definition gdev_sched_sleep :: "nat \<Rightarrow> nat \<Rightarrow> gpu \<Rightarrow> (bool \<times> gpu) option" where
  "gdev_sched_sleep tid s g =
     do { g \<leftarrow> spin_lock g;
          e \<leftarrow> ents g s;
          if se_task e = TDead
          then Some (False, spin_unlock (upd_ent s (se_task_update (\<lambda>_. TNull)) g))
          else Some (True, spin_unlock (upd_ent s (se_task_update (\<lambda>_. Task tid)) g)) }"

definition block :: "nat \<Rightarrow> gpu \<Rightarrow> gpu" where
  "block tid g = g\<lparr>task_state := (task_state g)(tid := 1)\<rparr>"

text \<open>
  \<open>cpu_wq_wakeup\<close> as \<open>gdev_sched_wakeup\<close> calls it, with the global spinlock held. If the
  context had been put to sleep by \<open>cpu_wq_sleep\<close> it would call \<open>gdev_sched_wakeup\<close>
  again, which takes that lock.
\<close>

definition cpu_wq_wakeup :: "nat \<Rightarrow> gpu \<Rightarrow> gpu option" where
  "cpu_wq_wakeup s g =
     do { e \<leftarrow> ents g s;
          if wait_cond e = 0xCAFE then None
          else Some (upd_ent s (wait_cond_update (\<lambda>_. 0xDEADBEEF)) g) }"

text \<open>
  \<open>gdev_sched_wakeup\<close>: \<open>True\<close> stands for the result 1, \<open>False\<close> for \<open>-EINVAL\<close>. \<open>jiffy\<close> is what
  the rest of the system does during \<open>schedule_timeout_interruptible(1)\<close> between the two
  attempts. Waking the marker \<open>0xDEAD\<close> dereferences it. The branch for
  \<open>SCHED_DEADLINE\<close> tasks returns without releasing the lock.
\<close>

definition gdev_sched_wakeup :: "(gpu \<Rightarrow> gpu) \<Rightarrow> nat \<Rightarrow> gpu \<Rightarrow> (bool \<times> gpu) option" where
  "gdev_sched_wakeup jiffy s g =
     do { g \<leftarrow> spin_lock g;
          e \<leftarrow> ents g s;
          case se_task e of
            TNull \<Rightarrow> Some (False, spin_unlock (upd_ent s (se_task_update (\<lambda>_. TDead)) g))
          | TDead \<Rightarrow> None
          | Task t \<Rightarrow>
              if task_dl g t then do { g \<leftarrow> cpu_wq_wakeup s g; Some (True, g) }
              else
                let g = spin_unlock g;
                    (woken, g) = wake_up_task t g
                in if woken then Some (True, upd_ent s (se_task_update (\<lambda>_. TNull)) g)
                   else
                     let (woken, g) = wake_up_task t (jiffy g)
                     in if woken then Some (True, upd_ent s (se_task_update (\<lambda>_. TNull)) g)
                        else Some (False, g) }"

section \<open>Access to the device\<close>

text \<open>
  One attempt of \<open>gdev_access_start\<close>: \<open>False\<close> when the device is blocked and the caller
  yields and tries again.
\<close>

definition gdev_access_start :: "nat \<Rightarrow> gpu \<Rightarrow> bool \<times> gpu" where
  "gdev_access_start d g =
     (case gdev_phys_get (gdev_vds g d) of
        Some p \<Rightarrow> if blocked (phys_ds g p) \<noteq> 0 then (False, g)
                  else (True, upd_phys p (accessed_update (\<lambda>a. a + 1)) g)
      | None \<Rightarrow> if blocked (gdev_vds g d) \<noteq> 0 then (False, g)
                else (True, upd_vd d (accessed_update (\<lambda>a. a + 1)) g))"

definition gdev_access_end :: "nat \<Rightarrow> gpu \<Rightarrow> gpu" where
  "gdev_access_end d g =
     (case gdev_phys_get (gdev_vds g d) of
        Some p \<Rightarrow> upd_phys p (accessed_update (\<lambda>a. a - 1)) g
      | None \<Rightarrow> upd_vd d (accessed_update (\<lambda>a. a - 1)) g)"

section \<open>Properties of the queues\<close>

interpretation pq: ordered_insert "prio_before g" for g
  by unfold_locales (auto simp: prio_before_def)

lemma find_none_insert: "List.find (before x) q = None \<Longrightarrow> insert_before before x q = q @ [x]"
  by (induction q) (auto split: if_splits)

text \<open>Linking an entity that is in no queue.\<close>

lemma enqueue_list_fresh:
  "enqueue_list g False s q = (if ents g s \<noteq> None \<and> (\<forall>p \<in> set q. ents g p \<noteq> None)
     then Some (insert_before (prio_before g) s q) else None)"
  by (auto simp: enqueue_list_def list_all_iff bind_eq_None_conv find_none_insert split: option.splits)

lemma enqueue_list_linked:
  assumes "\<forall>p \<in> set q. prio_of g s \<le> prio_of g p"
  shows "enqueue_list g True s q = (if ents g s \<noteq> None \<and> (\<forall>p \<in> set q. ents g p \<noteq> None) then Some q else None)"
proof -
  have "List.find (prio_before g s) q = None"
    using assms by (auto simp: find_None_iff prio_before_def)
  then show ?thesis by (auto simp: enqueue_list_def list_all_iff bind_eq_None_conv)
qed

text \<open>C19: 
  \<open>__gdev_enqueue_compute\<close> on the pointers of the list does what the model's operation
  does on the list of entities.
\<close>

theorem enqueue_heap_refines:
  assumes "gdev_enqueue_compute d s g = Some g'" "\<not> linked_com s g"
    and "olist entry h l (sched_com_list (gdev_vds g d))" "fresh_node entry h s"
  shows "\<exists>h'. enqueue_heap entry (prio_of g) l s h = Some h' \<and>
    olist entry h' l (sched_com_list (gdev_vds g' d))"
proof -
  have "sched_com_list (gdev_vds g' d) = insert_before (prio_before g) s (sched_com_list (gdev_vds g d))"
    using assms(1,2) by (auto simp: gdev_enqueue_compute_def enqueue_list_fresh split: if_splits)
  moreover have "prio_before g s = (\<lambda>p. prio_of g s > prio_of g p)"
    by (simp add: fun_eq_iff prio_before_def)
  ultimately show ?thesis
    using gl.ordered_insertion [OF assms(3,4), of "prio_before g"] by (simp add: enqueue_heap_def)
qed

definition some_entity :: gdev_sched_entity where
  "some_entity = \<lparr>se_gdev = 0, se_task = TNull, ctx = 1, se_prio = 0, launch_instances = 0,
     memcpy_instances = 0, last_tick_com = gdev_time_us 0, last_tick_mem = gdev_time_us 0,
     wait_cond = 0, launch_count = 0\<rparr>"

text \<open>A state in which every entity exists and all queues are empty, for the examples.\<close>

definition gpu_idle :: gpu where
  "gpu_idle = gpu_zero\<lparr>ents := \<lambda>_. Some some_entity\<rparr>"

lemma gpu_idle_simps [simp]:
  "ents gpu_idle s = Some some_entity" "gdev_vds gpu_idle d = zero_dev" "phys_ds gpu_idle d = zero_dev"
  "\<not> global_lock gpu_idle" "\<not> task_dl gpu_idle t" "task_state gpu_idle t = 0"
  by (simp_all add: gpu_idle_def gpu_zero_def)

lemma linked_com_iff: "linked_com s g \<longleftrightarrow> (\<exists>d<4. s \<in> set (sched_com_list (gdev_vds g d)))"
  by (auto simp: linked_com_def list_ex_iff resch_consts)

lemma enqueue_heap_refines_witness:
  "\<exists>h'. enqueue_heap Suc (prio_of gpu_idle) 0 6
      (\<lambda>n. \<lparr>nxt = Some n, prv = Some n, container = if n = 7 then Some 6 else None\<rparr>) = Some h' \<and>
    olist Suc h' 0 (sched_com_list (gdev_vds (upd_vd 0 (sched_com_list_update (\<lambda>_. [6])) gpu_idle) 0))"
proof (rule enqueue_heap_refines)
  show "\<not> linked_com 6 gpu_idle" by (simp add: linked_com_iff zero_dev_def)
  then show "gdev_enqueue_compute 0 6 gpu_idle = Some (upd_vd 0 (sched_com_list_update (\<lambda>_. [6])) gpu_idle)"
    by (simp add: gdev_enqueue_compute_def enqueue_list_fresh) (simp add: zero_dev_def)
qed (simp_all add: zero_dev_def olist_def dlist_def fresh_node_def gdev_list_empty_def)

text \<open>Queues stay ordered by priority, and equal priorities are served in order of arrival.\<close>

lemma enqueue_keeps_order:
  assumes "gdev_enqueue_compute d s g = Some g'" "\<not> linked_com s g"
    and "sorted_wrt (\<lambda>a b. \<not> prio_before g b a) (sched_com_list (gdev_vds g d))"
  shows "sorted_wrt (\<lambda>a b. \<not> prio_before g' b a) (sched_com_list (gdev_vds g' d))"
proof -
  have "prio_before g' = prio_before g"
    using assms(1) by (auto simp: gdev_enqueue_compute_def prio_before_def prio_of_def fun_eq_iff)
  then show ?thesis
    using assms pq.insert_ordered [of g "sched_com_list (gdev_vds g d)" s]
    by (auto simp: gdev_enqueue_compute_def enqueue_list_fresh split: if_splits)
qed

section \<open>Properties of the sleep protocol\<close>

lemma spin_simps [simp]:
  "gdev_vds (spin_unlock g) = gdev_vds g" "phys_ds (spin_unlock g) = phys_ds g"
  "ents (spin_unlock g) = ents g" "task_state (spin_unlock g) = task_state g"
  "task_dl (spin_unlock g) = task_dl g" "\<not> global_lock (spin_unlock g)"
  "spin_lock g = Some g2 \<longleftrightarrow> \<not> global_lock g \<and> g2 = g\<lparr>global_lock := True\<rparr>"
  by (auto simp: spin_unlock_def spin_lock_def)

text \<open>A wake-up that comes before the sleep is remembered: the context does not sleep.\<close>

theorem early_wakeup_is_remembered:
  assumes "\<not> global_lock g" "ents g s = Some e" "se_task e = TNull"
  shows "\<exists>g1 g2. gdev_sched_wakeup jiffy s g = Some (False, g1) \<and>
    gdev_sched_sleep tid s g1 = Some (False, g2) \<and> ents g2 = ents g \<and> \<not> global_lock g2"
  using assms
  by (auto simp: gdev_sched_wakeup_def gdev_sched_sleep_def Let_def fun_eq_iff)

text \<open>A context that sleeps is woken, whatever happens in between to others.\<close>

theorem sleeper_is_woken:
  assumes "\<not> global_lock g" "ents g s = Some e" "se_task e = Task t" "\<not> task_dl g t" "task_state g t \<noteq> 0"
  shows "\<exists>g1. gdev_sched_wakeup jiffy s g = Some (True, g1) \<and> task_state g1 t = 0 \<and>
    ents g1 s = Some (e\<lparr>se_task := TNull\<rparr>) \<and> \<not> global_lock g1"
  using assms
  by (auto simp: gdev_sched_wakeup_def wake_up_task_def Let_def spin_unlock_def)

text \<open>
  Once the task is recorded but not yet asleep, a wake-up is lost unless the task falls
  asleep during the jiffy between the two attempts.
\<close>

theorem early_wakeup_of_recorded_task_lost:
  assumes "\<not> global_lock g" "ents g s = Some e" "se_task e = Task t" "\<not> task_dl g t"
    and "task_state g t = 0" "\<And>g. task_state (jiffy g) = task_state g" "\<And>g. ents (jiffy g) = ents g"
    "\<And>g. global_lock (jiffy g) = global_lock g"
  shows "\<exists>g1. gdev_sched_wakeup jiffy s g = Some (False, g1) \<and> ents g1 s = Some e \<and>
    (\<exists>g2. gdev_sched_sleep t s g1 = Some (True, g2) \<and> task_state (block t g2) t \<noteq> 0)"
  using assms
  by (auto simp: gdev_sched_wakeup_def gdev_sched_sleep_def wake_up_task_def Let_def spin_unlock_def
      block_def)

text \<open>
  Waking a \<open>SCHED_DEADLINE\<close> task leaves the lock held: it is not woken, and every later
  sleep or wake-up never returns.
\<close>

theorem deadline_wakeup_keeps_lock:
  assumes "\<not> global_lock g" "ents g s = Some e" "se_task e = Task t" "task_dl g t" "wait_cond e \<noteq> 0xCAFE"
  shows "\<exists>g1. gdev_sched_wakeup jiffy s g = Some (True, g1) \<and> task_state g1 = task_state g \<and>
    gdev_sched_sleep t' s' g1 = None \<and> gdev_sched_wakeup jiffy' s' g1 = None"
  using assms
  by (auto simp: gdev_sched_wakeup_def gdev_sched_sleep_def cpu_wq_wakeup_def spin_lock_def)


lemma sleeper_is_woken_witness:
  "\<exists>g1. gdev_sched_wakeup id 6 (block 9 (upd_ent 6 (se_task_update (\<lambda>_. Task 9)) gpu_idle)) = Some (True, g1) \<and>
    task_state g1 9 = 0 \<and> ents g1 6 = Some (some_entity\<lparr>se_task := Task 9, se_task := TNull\<rparr>) \<and> \<not> global_lock g1"
  by (rule sleeper_is_woken [where e = "some_entity\<lparr>se_task := Task 9\<rparr>"]) (simp_all add: block_def some_entity_def)

lemma early_wakeup_is_remembered_witness:
  "\<exists>g1 g2. gdev_sched_wakeup id 6 gpu_idle = Some (False, g1) \<and>
    gdev_sched_sleep 9 6 g1 = Some (False, g2) \<and> ents g2 = ents gpu_idle \<and> \<not> global_lock g2"
  by (rule early_wakeup_is_remembered [where e = some_entity]) (simp_all add: some_entity_def)

lemma deadline_wakeup_keeps_lock_witness:
  "\<exists>g1. gdev_sched_wakeup id 6 (upd_ent 6 (se_task_update (\<lambda>_. Task 9)) (gpu_idle\<lparr>task_dl := \<lambda>_. True\<rparr>))
      = Some (True, g1) \<and>
    task_state g1 = task_state (upd_ent 6 (se_task_update (\<lambda>_. Task 9)) (gpu_idle\<lparr>task_dl := \<lambda>_. True\<rparr>)) \<and>
    gdev_sched_sleep 1 2 g1 = None \<and> gdev_sched_wakeup id 2 g1 = None"
  by (rule deadline_wakeup_keeps_lock [where e = "some_entity\<lparr>se_task := Task 9\<rparr>" and t = 9])
    (simp_all add: gpu_idle_def gpu_zero_def some_entity_def upd_ent_def)

text \<open>What a wake-up leaves alone.\<close>

lemma wakeup_frame:
  assumes "gdev_sched_wakeup jiffy s g = Some (r, g')"
    and "\<And>g. gdev_vds (jiffy g) = gdev_vds g" "\<And>g. phys_ds (jiffy g) = phys_ds g"
      "\<And>g. ents (jiffy g) = ents g" "\<And>g. task_dl (jiffy g) = task_dl g" "\<And>g. global_lock (jiffy g) = global_lock g"
  shows "gdev_vds g' = gdev_vds g \<and> phys_ds g' = phys_ds g \<and> task_dl g' = task_dl g \<and>
    (\<exists>e e'. ents g s = Some e \<and> ents g' = (ents g)(s \<mapsto> e') \<and> se_gdev e' = se_gdev e \<and>
      se_prio e' = se_prio e \<and> launch_instances e' = launch_instances e \<and>
      (se_task e' = TDead \<longrightarrow> se_task e = TNull))"
proof -
  obtain e where g: "\<not> global_lock g" "ents g s = Some e"
    using assms(1) by (auto simp: gdev_sched_wakeup_def)
  then have same: "ents g = (ents g)(s \<mapsto> e)" by (auto simp: fun_eq_iff)
  show ?thesis
  proof (cases "se_task e")
    case TNull
    with assms g show ?thesis by (auto simp: gdev_sched_wakeup_def)
  next
    case TDead
    with assms g show ?thesis by (auto simp: gdev_sched_wakeup_def)
  next
    case (Task t)
    show ?thesis
    proof (cases "task_dl g t \<or> task_state g t \<noteq> 0 \<or> r")
      case True
      with assms g Task show ?thesis
        by (auto simp: gdev_sched_wakeup_def cpu_wq_wakeup_def wake_up_task_def Let_def split: if_splits)
    next
      case False
      with assms g Task same show ?thesis
        by (auto simp: gdev_sched_wakeup_def cpu_wq_wakeup_def wake_up_task_def Let_def split: if_splits)
    qed
  qed
qed

end
