(* ===== verification/Gpu_Policy.thy ===== *)
theory Gpu_Policy
  imports Gpu_State
begin

text \<open>
  The three policies that share the physical GPU between the virtual devices:
  \<open>gpu_vsched_fifo.c\<close>, \<open>gpu_vsched_null.c\<close> and \<open>gpu_vsched_band.c\<close>. The scheduling
  function of a policy is a loop around a sleep; it is modelled by one pass, whose result
  \<open>False\<close> means that the context is queued and about to call \<open>gdev_sched_sleep\<close>, after
  which it starts the next pass. A pass runs under the device's lock and is one atomic
  step, except where the band policy gives others the chance to run: \<open>others\<close> is what
  they do during that pause.
\<close>

section \<open>The policy table\<close>

record gdev_vsched_policy =
  vs_schedule_compute :: "nat \<Rightarrow> nat \<Rightarrow> gpu \<Rightarrow> (bool \<times> gpu) option"
  vs_select_next_compute :: "nat \<Rightarrow> gpu \<Rightarrow> (nat option \<times> gpu) option"
  vs_replenish_compute :: "nat \<Rightarrow> gpu \<Rightarrow> gpu"
  vs_schedule_memory :: "nat \<Rightarrow> nat \<Rightarrow> gpu \<Rightarrow> (bool \<times> gpu) option"
  vs_select_next_memory :: "nat \<Rightarrow> gpu \<Rightarrow> (nat option \<times> gpu) option"
  vs_replenish_memory :: "nat \<Rightarrow> gpu \<Rightarrow> gpu"

text \<open>
  The first device of the physical device's list that has a context waiting.
\<close>

definition first_waiting_com :: "gpu \<Rightarrow> nat \<Rightarrow> nat option" where
  "first_waiting_com g p = List.find (\<lambda>n. sched_com_list (gdev_vds g n) \<noteq> []) (sched_com_list (phys_ds g p))"

definition first_waiting_mem :: "gpu \<Rightarrow> nat \<Rightarrow> nat option" where
  "first_waiting_mem g p = List.find (\<lambda>n. sched_mem_list (gdev_vds g n) \<noteq> []) (sched_mem_list (phys_ds g p))"

text \<open>\<open>gdev_list_del\<close> and \<open>gdev_list_add_tail\<close>: the device goes to the end of the list.\<close>

definition to_tail :: "nat \<Rightarrow> nat list \<Rightarrow> nat list" where
  "to_tail d q = remove1 d q @ [d]"

section \<open>First in, first out\<close>

definition gdev_vsched_fifo_schedule_compute :: "nat \<Rightarrow> nat \<Rightarrow> gpu \<Rightarrow> (bool \<times> gpu) option" where
  "gdev_vsched_fifo_schedule_compute tid s g =
     do { e \<leftarrow> ents g s;
          let d = se_gdev e;
          case gdev_phys_get (gdev_vds g d) of
            None \<Rightarrow> Some (True, g)
          | Some p \<Rightarrow>
              let cur = gdev_current_com_get (phys_ds g p)
              in if cur \<noteq> None \<and> cur \<noteq> Some (Vdev d)
                 then do { g \<leftarrow> gdev_enqueue_compute d s g; Some (False, g) }
                 else Some (True, upd_phys p (gdev_current_com_set (Some (Vdev d))) g) }"

definition gdev_vsched_fifo_select_next_compute :: "nat \<Rightarrow> gpu \<Rightarrow> (nat option \<times> gpu) option" where
  "gdev_vsched_fifo_select_next_compute d g =
     (case gdev_phys_get (gdev_vds g d) of
        None \<Rightarrow> Some (Some d, g)
      | Some p \<Rightarrow>
          let g = upd_phys p (sched_com_list_update (to_tail d)) g;
              next = first_waiting_com g p
          in Some (next, upd_phys p (gdev_current_com_set (map_option Vdev next)) g))"

definition gdev_vsched_fifo_replenish_compute :: "nat \<Rightarrow> gpu \<Rightarrow> gpu" where
  "gdev_vsched_fifo_replenish_compute d g = g"

definition gdev_vsched_fifo_schedule_memory :: "nat \<Rightarrow> nat \<Rightarrow> gpu \<Rightarrow> (bool \<times> gpu) option" where
  "gdev_vsched_fifo_schedule_memory tid s g =
     do { e \<leftarrow> ents g s;
          let d = se_gdev e;
          case gdev_phys_get (gdev_vds g d) of
            None \<Rightarrow> Some (True, g)
          | Some p \<Rightarrow>
              let cur = current_mem (phys_ds g p)
              in if cur \<noteq> None \<and> cur \<noteq> Some (Vdev d)
                 then do { g \<leftarrow> gdev_enqueue_memory d s g; Some (False, g) }
                 else Some (True, upd_phys p (current_mem_update (\<lambda>_. Some (Vdev d))) g) }"

definition gdev_vsched_fifo_select_next_memory :: "nat \<Rightarrow> gpu \<Rightarrow> (nat option \<times> gpu) option" where
  "gdev_vsched_fifo_select_next_memory d g =
     (case gdev_phys_get (gdev_vds g d) of
        None \<Rightarrow> Some (Some d, g)
      | Some p \<Rightarrow>
          let g = upd_phys p (sched_mem_list_update (to_tail d)) g;
              next = first_waiting_mem g p
          in Some (next, upd_phys p (current_mem_update (\<lambda>_. map_option Vdev next)) g))"

definition gdev_vsched_fifo_replenish_memory :: "nat \<Rightarrow> gpu \<Rightarrow> gpu" where
  "gdev_vsched_fifo_replenish_memory d g = g"

definition gdev_vsched_fifo :: gdev_vsched_policy where
  "gdev_vsched_fifo =
     \<lparr>vs_schedule_compute = gdev_vsched_fifo_schedule_compute,
      vs_select_next_compute = gdev_vsched_fifo_select_next_compute,
      vs_replenish_compute = gdev_vsched_fifo_replenish_compute,
      vs_schedule_memory = gdev_vsched_fifo_schedule_memory,
      vs_select_next_memory = gdev_vsched_fifo_select_next_memory,
      vs_replenish_memory = gdev_vsched_fifo_replenish_memory\<rparr>"

section \<open>No policy\<close>

definition gdev_vsched_null_schedule_compute :: "nat \<Rightarrow> nat \<Rightarrow> gpu \<Rightarrow> (bool \<times> gpu) option" where
  "gdev_vsched_null_schedule_compute tid s g = Some (True, g)"

definition gdev_vsched_null_select_next_compute :: "nat \<Rightarrow> gpu \<Rightarrow> (nat option \<times> gpu) option" where
  "gdev_vsched_null_select_next_compute d g = Some (Some d, g)"

definition gdev_vsched_null_replenish_compute :: "nat \<Rightarrow> gpu \<Rightarrow> gpu" where
  "gdev_vsched_null_replenish_compute d g = g"

definition gdev_vsched_null_schedule_memory :: "nat \<Rightarrow> nat \<Rightarrow> gpu \<Rightarrow> (bool \<times> gpu) option" where
  "gdev_vsched_null_schedule_memory tid s g = Some (True, g)"

definition gdev_vsched_null_select_next_memory :: "nat \<Rightarrow> gpu \<Rightarrow> (nat option \<times> gpu) option" where
  "gdev_vsched_null_select_next_memory d g = Some (Some d, g)"

definition gdev_vsched_null_replenish_memory :: "nat \<Rightarrow> gpu \<Rightarrow> gpu" where
  "gdev_vsched_null_replenish_memory d g = g"

definition gdev_vsched_null :: gdev_vsched_policy where
  "gdev_vsched_null =
     \<lparr>vs_schedule_compute = gdev_vsched_null_schedule_compute,
      vs_select_next_compute = gdev_vsched_null_select_next_compute,
      vs_replenish_compute = gdev_vsched_null_replenish_compute,
      vs_schedule_memory = gdev_vsched_null_schedule_memory,
      vs_select_next_memory = gdev_vsched_null_select_next_memory,
      vs_replenish_memory = gdev_vsched_null_replenish_memory\<rparr>"

section \<open>Bandwidth\<close>

text \<open>\<open>__gdev_is_alone\<close>: no other device of the list has users.\<close>

definition gdev_is_alone :: "nat \<Rightarrow> gpu \<Rightarrow> bool" where
  "gdev_is_alone d g =
     (case gdev_phys_get (gdev_vds g d) of
        None \<Rightarrow> True
      | Some p \<Rightarrow> \<not> list_ex (\<lambda>q. q \<noteq> d \<and> users (gdev_vds g q) \<noteq> 0) (sched_com_list (phys_ds g p)))"

definition com_exhausted :: "gdev_device \<Rightarrow> bool" where
  "com_exhausted dev \<longleftrightarrow> gdev_time_lez (credit_com dev) \<and> com_bw_used dev > com_bw dev"

definition mem_exhausted :: "gdev_device \<Rightarrow> bool" where
  "mem_exhausted dev \<longleftrightarrow> gdev_time_lez (credit_mem dev) \<and> mem_bw_used dev > mem_bw dev"

text \<open>A device that is over its budget gives up the GPU, waits, and takes it back if it is free.\<close>

definition band_yield_compute :: "(gpu \<Rightarrow> gpu) \<Rightarrow> nat \<Rightarrow> nat \<Rightarrow> gpu \<Rightarrow> gpu" where
  "band_yield_compute others d p g =
     (if com_exhausted (gdev_vds g d) \<and> \<not> gdev_is_alone d g
        \<and> gdev_current_com_get (phys_ds g p) = Some (Vdev d)
      then let g = others (upd_phys p (gdev_current_com_set None) g)
           in if gdev_current_com_get (phys_ds g p) = None
              then upd_phys p (gdev_current_com_set (Some (Vdev d))) g else g
      else g)"

text \<open>
  The task field is set here before the context sleeps. Others may run before the context is
  queued: the lock of the physical device has been released by then.
\<close>

definition gdev_vsched_band_schedule_compute ::
  "(gpu \<Rightarrow> gpu) \<Rightarrow> nat \<Rightarrow> nat \<Rightarrow> gpu \<Rightarrow> (bool \<times> gpu) option" where
  "gdev_vsched_band_schedule_compute others tid s g =
     do { e \<leftarrow> ents g s;
          let d = se_gdev e;
          case gdev_phys_get (gdev_vds g d) of
            None \<Rightarrow> Some (True, g)
          | Some p \<Rightarrow>
              let g = band_yield_compute others d p g;
                  cur = gdev_current_com_get (phys_ds g p)
              in if cur \<noteq> None \<and> cur \<noteq> Some (Vdev d)
                 then do { g \<leftarrow> gdev_enqueue_compute d s (others g);
                           Some (False, upd_ent s (se_task_update (\<lambda>_. Task tid)) g) }
                 else Some (True, upd_phys p (gdev_current_com_set (Some (Vdev d))) g) }"

text \<open>A device read from \<open>current_com\<close> of a physical device.\<close>

definition as_vdev :: "gobj option \<Rightarrow> nat option option" where
  "as_vdev x = (case x of None \<Rightarrow> Some None | Some (Vdev n) \<Rightarrow> Some (Some n) | Some (Entity _) \<Rightarrow> None)"

text \<open>
  The selection, with the number of further chances as recursion argument
  (\<open>GDEV_VSCHED_BAND_SELECT_CHANCES\<close> is 1: there is none).
\<close>

primrec band_select_retry ::
  "nat \<Rightarrow> (gpu \<Rightarrow> gpu) \<Rightarrow> nat \<Rightarrow> nat \<Rightarrow> gpu \<Rightarrow> (nat option \<times> gpu) option" where
  "band_select_retry 0 others d p g =
     (let g = (if com_exhausted (gdev_vds g d)
               then upd_phys p (sched_com_list_update (to_tail d)) g else g);
          next = first_waiting_com g p;
          g = upd_phys p (gdev_current_com_set (map_option Vdev next)) g
      in case next of
           Some n \<Rightarrow>
             if n \<noteq> d \<and> com_bw_used (gdev_vds g n) > com_bw (gdev_vds g n) then
               let g = others (upd_phys p (gdev_current_com_set None) g)
               in case gdev_current_com_get (phys_ds g p) of
                    None \<Rightarrow> Some (Some n, upd_phys p (gdev_current_com_set (Some (Vdev n))) g)
                  | Some c \<Rightarrow> do { next \<leftarrow> as_vdev (Some c); Some (next, g) }
             else Some (Some n, g)
         | None \<Rightarrow> Some (None, g))"
| "band_select_retry (Suc chances) others d p g =
     (let g = (if com_exhausted (gdev_vds g d)
               then upd_phys p (sched_com_list_update (to_tail d)) g else g);
          next = first_waiting_com g p;
          g = upd_phys p (gdev_current_com_set (map_option Vdev next)) g
      in case next of
           Some n \<Rightarrow>
             if n \<noteq> d \<and> com_bw_used (gdev_vds g n) > com_bw (gdev_vds g n) then
               let g = others (upd_phys p (gdev_current_com_set None) g)
               in case gdev_current_com_get (phys_ds g p) of
                    None \<Rightarrow> band_select_retry chances others d p
                              (upd_phys p (gdev_current_com_set (Some (Vdev n))) g)
                  | Some c \<Rightarrow> do { next \<leftarrow> as_vdev (Some c); Some (next, g) }
             else Some (Some n, g)
         | None \<Rightarrow> Some (None, g))"

definition GDEV_VSCHED_BAND_SELECT_CHANCES :: nat where
  "GDEV_VSCHED_BAND_SELECT_CHANCES = 1"

definition gdev_vsched_band_select_next_compute ::
  "(gpu \<Rightarrow> gpu) \<Rightarrow> nat \<Rightarrow> gpu \<Rightarrow> (nat option \<times> gpu) option" where
  "gdev_vsched_band_select_next_compute others d g =
     (case gdev_phys_get (gdev_vds g d) of
        None \<Rightarrow> Some (Some d, g)
      | Some p \<Rightarrow>
          let cur = gdev_current_com_get (phys_ds g p)
          in if cur \<noteq> None \<and> cur \<noteq> Some (Vdev d) then do { next \<leftarrow> as_vdev cur; Some (next, g) }
             else band_select_retry (GDEV_VSCHED_BAND_SELECT_CHANCES - 1) others d p g)"

text \<open>
  The credit of a device: its share of the period is added in place, and a credit beyond
  the threshold in either direction is set to zero. The product is an unsigned 32-bit one.
\<close>

definition replenish :: "u32 \<Rightarrow> u32 \<Rightarrow> gdev_time \<Rightarrow> gdev_time" where
  "replenish per bw c =
     (let c = time_add_to c (gdev_time_us (ucast (per * bw div 100)));
          threshold = gdev_time_us (ucast GDEV_CREDIT_INACTIVE_THRESHOLD);
          c = (if gdev_time_gt c threshold then gdev_time_us 0 else c);
          threshold = threshold\<lparr>neg := 1\<rparr>
      in if gdev_time_lt c threshold then gdev_time_us 0 else c)"

definition gdev_vsched_band_replenish_compute :: "nat \<Rightarrow> gpu \<Rightarrow> gpu" where
  "gdev_vsched_band_replenish_compute d g =
     upd_vd d (\<lambda>dev. dev\<lparr>credit_com := replenish (period dev) (com_bw dev) (credit_com dev)\<rparr>) g"

definition gdev_vsched_band_replenish_memory :: "nat \<Rightarrow> gpu \<Rightarrow> gpu" where
  "gdev_vsched_band_replenish_memory d g =
     upd_vd d (\<lambda>dev. dev\<lparr>credit_mem := replenish (period dev) (mem_bw dev) (credit_mem dev)\<rparr>) g"

definition band_yield_memory :: "(gpu \<Rightarrow> gpu) \<Rightarrow> nat \<Rightarrow> nat \<Rightarrow> gpu \<Rightarrow> gpu" where
  "band_yield_memory others d p g =
     (if mem_exhausted (gdev_vds g d) \<and> \<not> gdev_is_alone d g
        \<and> current_mem (phys_ds g p) = Some (Vdev d)
      then let g = others (upd_phys p (current_mem_update (\<lambda>_. None)) g)
           in if current_mem (phys_ds g p) = None
              then upd_phys p (current_mem_update (\<lambda>_. Some (Vdev d))) g else g
      else g)"

definition gdev_vsched_band_schedule_memory ::
  "(gpu \<Rightarrow> gpu) \<Rightarrow> nat \<Rightarrow> nat \<Rightarrow> gpu \<Rightarrow> (bool \<times> gpu) option" where
  "gdev_vsched_band_schedule_memory others tid s g =
     do { e \<leftarrow> ents g s;
          let d = se_gdev e;
          case gdev_phys_get (gdev_vds g d) of
            None \<Rightarrow> Some (True, g)
          | Some p \<Rightarrow>
              let g = band_yield_memory others d p g;
                  cur = current_mem (phys_ds g p)
              in if cur \<noteq> None \<and> cur \<noteq> Some (Vdev d)
                 then do { g \<leftarrow> gdev_enqueue_memory d s g; Some (False, g) }
                 else Some (True, upd_phys p (current_mem_update (\<lambda>_. Some (Vdev d))) g) }"

text \<open>
  The memory selection keeps its first choice when another device took the GPU during
  the pause, where the compute selection adopts that device.
\<close>

primrec band_select_memory_retry :: "nat \<Rightarrow> (gpu \<Rightarrow> gpu) \<Rightarrow> nat \<Rightarrow> nat \<Rightarrow> gpu \<Rightarrow> nat option \<times> gpu" where
  "band_select_memory_retry 0 others d p g =
     (let g = (if mem_exhausted (gdev_vds g d)
               then upd_phys p (sched_mem_list_update (to_tail d)) g else g);
          next = first_waiting_mem g p;
          g = upd_phys p (current_mem_update (\<lambda>_. map_option Vdev next)) g
      in case next of
           Some n \<Rightarrow>
             if n \<noteq> d \<and> mem_bw_used (gdev_vds g n) > mem_bw (gdev_vds g n) then
               let g = others (upd_phys p (current_mem_update (\<lambda>_. None)) g)
               in if current_mem (phys_ds g p) = None
                  then (Some n, upd_phys p (current_mem_update (\<lambda>_. Some (Vdev n))) g)
                  else (Some n, g)
             else (Some n, g)
         | None \<Rightarrow> (None, g))"
| "band_select_memory_retry (Suc chances) others d p g =
     (let g = (if mem_exhausted (gdev_vds g d)
               then upd_phys p (sched_mem_list_update (to_tail d)) g else g);
          next = first_waiting_mem g p;
          g = upd_phys p (current_mem_update (\<lambda>_. map_option Vdev next)) g
      in case next of
           Some n \<Rightarrow>
             if n \<noteq> d \<and> mem_bw_used (gdev_vds g n) > mem_bw (gdev_vds g n) then
               let g = others (upd_phys p (current_mem_update (\<lambda>_. None)) g)
               in if current_mem (phys_ds g p) = None
                  then band_select_memory_retry chances others d p
                         (upd_phys p (current_mem_update (\<lambda>_. Some (Vdev n))) g)
                  else (Some n, g)
             else (Some n, g)
         | None \<Rightarrow> (None, g))"

definition gdev_vsched_band_select_next_memory ::
  "(gpu \<Rightarrow> gpu) \<Rightarrow> nat \<Rightarrow> gpu \<Rightarrow> (nat option \<times> gpu) option" where
  "gdev_vsched_band_select_next_memory others d g =
     (case gdev_phys_get (gdev_vds g d) of
        None \<Rightarrow> Some (Some d, g)
      | Some p \<Rightarrow> Some (band_select_memory_retry (GDEV_VSCHED_BAND_SELECT_CHANCES - 1) others d p g))"

definition gdev_vsched_band :: "(gpu \<Rightarrow> gpu) \<Rightarrow> gdev_vsched_policy" where
  "gdev_vsched_band others =
     \<lparr>vs_schedule_compute = gdev_vsched_band_schedule_compute others,
      vs_select_next_compute = gdev_vsched_band_select_next_compute others,
      vs_replenish_compute = gdev_vsched_band_replenish_compute,
      vs_schedule_memory = gdev_vsched_band_schedule_memory others,
      vs_select_next_memory = gdev_vsched_band_select_next_memory others,
      vs_replenish_memory = gdev_vsched_band_replenish_memory\<rparr>"

section \<open>Rotation of the devices\<close>

lemma first_waiting_com_Some:
  "first_waiting_com g p = Some n \<Longrightarrow> n \<in> set (sched_com_list (phys_ds g p)) \<and> sched_com_list (gdev_vds g n) \<noteq> []"
  by (auto simp: first_waiting_com_def find_Some_iff)

text \<open>The number of devices ahead of \<open>d\<close>.\<close>

definition ahead :: "nat \<Rightarrow> nat list \<Rightarrow> nat list" where
  "ahead d q = takeWhile (\<lambda>x. x \<noteq> d) q"

lemma ahead_simps [simp]:
  "ahead d [] = []" "ahead d (x # xs) = (if x = d then [] else x # ahead d xs)"
  by (simp_all add: ahead_def)

lemma ahead_length: "d \<in> set q \<Longrightarrow> length (ahead d q) < length q"
  by (induction q) auto

lemma set_to_tail [simp]: "d \<in> set (to_tail x q) \<longleftrightarrow> d = x \<or> d \<in> set q"
  by (cases "d = x") (auto simp: to_tail_def)

lemma length_to_tail: "x \<in> set q \<Longrightarrow> length (to_tail x q) = length q"
  by (auto simp: to_tail_def length_remove1 dest: length_pos_if_in_set)

lemma ahead_append: "d \<in> set q \<Longrightarrow> ahead d (q @ r) = ahead d q"
  by (induction q) auto

lemma ahead_remove1: "x \<in> set (ahead d q) \<Longrightarrow> length (ahead d (remove1 x q)) + 1 = length (ahead d q)"
  by (induction q) (auto split: if_splits)

lemma ahead_not: "d \<notin> set (ahead d q)"
  by (auto simp: ahead_def dest: set_takeWhileD)

text \<open>A device ahead of \<open>d\<close> that goes to the tail lets \<open>d\<close> advance by one.\<close>

lemma ahead_to_tail:
  assumes "x \<in> set (ahead d q)" "d \<in> set q"
  shows "length (ahead d (to_tail x q)) + 1 = length (ahead d q)"
proof -
  have "d \<noteq> x" using assms(1) ahead_not by auto
  then have "d \<in> set (remove1 x q)" using assms(2) by simp
  then show ?thesis
    using ahead_remove1 [OF assms(1)]
    by (simp add: to_tail_def ahead_append)
qed

lemma find_ahead:
  "List.find P q = Some y \<Longrightarrow> P d \<Longrightarrow> d \<in> set q \<Longrightarrow> y \<noteq> d \<Longrightarrow> y \<in> set (ahead d q)"
  by (induction q) (auto split: if_splits)

lemma fifo_select:
  assumes "parent (gdev_vds g d) = Some p" "gdev_vsched_fifo_select_next_compute d g = Some (next, g')"
  shows "sched_com_list (phys_ds g' p) = to_tail d (sched_com_list (phys_ds g p)) \<and>
    next = List.find (\<lambda>n. sched_com_list (gdev_vds g n) \<noteq> []) (to_tail d (sched_com_list (phys_ds g p))) \<and>
    gdev_vds g' = gdev_vds g \<and> current_com (phys_ds g' p) = map_option Vdev next"
  using assms
  by (auto simp: gdev_vsched_fifo_select_next_compute_def acc_defs first_waiting_com_def Let_def)

text \<open>C16: 
  Under the FIFO policy no device starves: a device on which a context waits all the time
  is selected within as many selections as there are devices. \<open>c i\<close> is the device that
  makes the \<open>i\<close>-th selection, in state \<open>g i\<close> and leaving \<open>g' i\<close>; the device selected makes
  the next selection, and in between anything may happen that leaves the list of devices
  alone.
\<close>

theorem fifo_serves_every_device:
  assumes phys: "\<And>i. parent (gdev_vds (g i) (c i)) = Some p"
    and select: "\<And>i. gdev_vsched_fifo_select_next_compute (c i) (g i) = Some (Some (c (Suc i)), g' i)"
    and between: "\<And>i. sched_com_list (phys_ds (g (Suc i)) p) = sched_com_list (phys_ds (g' i) p)"
    and waits: "\<And>i. sched_com_list (gdev_vds (g i) d) \<noteq> []"
    and listed: "d \<in> set (sched_com_list (phys_ds (g 0) p))" "c 0 \<in> set (sched_com_list (phys_ds (g 0) p))"
  shows "\<exists>i < length (sched_com_list (phys_ds (g 0) p)). c (Suc i) = d"
proof (rule ccontr)
  define L where "L i = sched_com_list (phys_ds (g i) p)" for i
  assume "\<not> ?thesis"
  then have other: "c (Suc i) \<noteq> d" if "i < length (L 0)" for i
    using that by (auto simp: L_def)
  have step: "L (Suc i) = to_tail (c i) (L i)"
    and found: "Some (c (Suc i)) = List.find (\<lambda>n. sched_com_list (gdev_vds (g i) n) \<noteq> []) (L (Suc i))" for i
    using fifo_select [OF phys select, of i] between [of i] by (simp_all add: L_def)
  have "d \<in> set (L (Suc k)) \<and> length (ahead d (L (Suc k))) + k \<le> length (ahead d (L 1))"
    if "k \<le> length (L 0)" for k
    using that
  proof (induction k)
    case 0
    then show ?case using listed(1) by (simp add: step L_def [symmetric])
  next
    case (Suc k)
    then have IH: "d \<in> set (L (Suc k))" "length (ahead d (L (Suc k))) + k \<le> length (ahead d (L 1))"
      by auto
    have "c (Suc k) \<in> set (ahead d (L (Suc k)))"
      using find_ahead [OF found [of k, symmetric]] waits IH(1) other [of k] Suc.prems by simp
    then have "length (ahead d (L (Suc (Suc k)))) + 1 = length (ahead d (L (Suc k)))"
      using ahead_to_tail IH(1) by (simp add: step)
    then show ?case using IH by (simp add: step)
  qed
  from this [of "length (L 0)"] have "length (L 0) \<le> length (ahead d (L 1))" by simp
  moreover have "d \<in> set (L 1)" using listed(1) by (simp add: step L_def [symmetric])
  then have "length (ahead d (L 1)) < length (L 1)" by (rule ahead_length)
  moreover have "length (L 1) = length (L 0)"
    using listed(2) by (simp add: step length_to_tail L_def [symmetric])
  ultimately show False by simp
qed

section \<open>The credit of the bandwidth policy\<close>

text \<open>After every replenishment the credit is at most the threshold in either direction.\<close>

theorem replenish_bounded:
  "sec (replenish per bw c) = 0 \<and> unat (usec (replenish per bw c)) \<le> 100"
proof -
  have "sec t = 0 \<and> usec t \<le> 100"
    if "t = gdev_time_us 0 \<or> \<not> gdev_time_gt t (gdev_time_us 100) \<and> \<not> gdev_time_lt t (gdev_time_us 100\<lparr>neg := 1\<rparr>)" for t
    using that
    by (auto simp: gdev_time_gt_def gdev_time_lt_def gdev_time_us_def not_less word_gt_0 split: if_splits)
  then have "sec (replenish per bw c) = 0 \<and> usec (replenish per bw c) \<le> 100"
    unfolding replenish_def Let_def resch_consts by (simp add: gdev_time_us_def)
  then show ?thesis by (simp add: word_le_nat_alt)
qed

lemma unat_ucast_u32: "unat (ucast (w :: u32) :: u64) = unat w"
proof -
  have "unat w < 2 ^ 64" using unsigned_less [of w] by (rule less_trans) simp
  then show ?thesis by (simp add: unsigned_ucast_eq take_bit_nat_eq_self)
qed

lemma share_of_period:
  assumes "bw \<le> (100 :: u32)"
  shows "100 * bw div 100 = bw"
proof -
  have "unat (100 * bw) = 100 * unat bw"
    using assms by (subst unat_mult_lem [THEN iffD1]) (auto simp: word_le_nat_alt)
  then have "unat (100 * bw div 100) = unat bw" by (simp add: unat_div)
  then show ?thesis by (simp add: word_unat_eq_iff)
qed

lemma replenish_neg:
  assumes "neg c \<noteq> 0" "sec c = 0" "usec c \<le> 100" "bw \<le> 100"
  shows "replenish 100 bw c = \<lparr>sec = 0,
    usec = (if ucast bw < usec c then usec c - ucast bw else ucast bw - usec c), neg = 1\<rparr>"
proof -
  have b: "ucast bw \<le> (100 :: u64)"
    using assms(4) by (simp add: word_le_nat_alt unat_ucast_u32)
  have d: "usec c - ucast bw \<le> 100" if "ucast bw < usec c"
    using assms(3) that by (simp add: word_le_nat_alt word_less_nat_alt unat_sub)
  have e: "ucast bw - usec c \<le> 100" if "\<not> ucast bw < usec c"
    using b that by (simp add: word_le_nat_alt word_less_nat_alt unat_sub not_less)
  have a: "time_add_to c (gdev_time_us (ucast bw)) = \<lparr>sec = 0,
    usec = (if ucast bw < usec c then usec c - ucast bw else ucast bw - usec c), neg = 1\<rparr>"
    using assms by (subst time_add_to_fields) (simp_all add: gdev_time_us_def)
  show ?thesis
    using d e
    unfolding replenish_def resch_consts share_of_period [OF assms(4)] a Let_def
    by (auto simp: gdev_time_us_def gdev_time_gt_def gdev_time_lt_def not_less)
qed

text \<open>
  A small overrun is never paid back: once the credit of a device is negative, by at most
  the threshold, it stays at or below zero through any number of replenishments.
\<close>

theorem negative_credit_stays:
  assumes "neg c \<noteq> 0" "sec c = 0" "usec c \<le> 100" "bw \<le> 100"
  shows "gdev_time_lez ((replenish 100 bw ^^ n) c)"
proof -
  have "neg ((replenish 100 bw ^^ n) c) \<noteq> 0 \<and> sec ((replenish 100 bw ^^ n) c) = 0 \<and>
    usec ((replenish 100 bw ^^ n) c) \<le> 100"
  proof (induction n)
    case 0
    then show ?case using assms by simp
  next
    case (Suc n)
    define c' where "c' = (replenish 100 bw ^^ n) c"
    have "neg c' \<noteq> 0" "sec c' = 0" "usec c' \<le> 100" using Suc by (simp_all add: c'_def)
    note r = replenish_neg [OF this assms(4)]
    then show ?case using replenish_bounded [of 100 bw c']
      by (simp add: c'_def [symmetric] word_le_nat_alt)
  qed
  then show ?thesis by (simp add: gdev_time_lez_def gdev_time_ltz_def)
qed

lemma negative_credit_stays_witness:
  "gdev_time_lez ((replenish 100 60 ^^ 1000) \<lparr>sec = 0, usec = 5, neg = 1\<rparr>)"
  by (rule negative_credit_stays) simp_all

text \<open>The credit of a device whose credit is not negative is replenished as intended.\<close>

lemma replenish_pos:
  assumes "neg c = 0" "sec c = 0" "usec c \<le> 100" "bw \<le> 100"
  shows "replenish 100 bw c = gdev_time_us (if usec c + ucast bw \<le> 100 then usec c + ucast bw else 0)"
proof -
  have b: "unat (ucast bw :: u64) \<le> 100" "unat (usec c) \<le> 100"
    using assms(3,4) by (simp_all add: word_le_nat_alt unat_ucast_u32)
  then have s: "unat (usec c + ucast bw) = unat (usec c) + unat (ucast bw :: u64)"
    by (subst unat_add_lem [THEN iffD1]) simp_all
  have "\<not> USEC_1SEC \<le> usec c + ucast bw"
    using b s by (simp add: resch_consts word_le_nat_alt)
  then have a: "time_add_to c (gdev_time_us (ucast bw)) = \<lparr>sec = 0, usec = usec c + ucast bw, neg = 0\<rparr>"
    using assms by (subst time_add_to_pos) (simp_all add: gdev_time_us_def)
  show ?thesis
    unfolding replenish_def resch_consts share_of_period [OF assms(4)] a Let_def
    by (auto simp: gdev_time_us_def gdev_time_gt_def gdev_time_lt_def not_less)
qed

section \<open>Lost wake-ups\<close>

text \<open>A context the FIFO policy queues is not recorded as sleeping: a wake-up is remembered.\<close>

lemma enqueue_frame:
  assumes "gdev_enqueue_compute d s g = Some g'"
  shows "ents g' = ents g \<and> ents g s \<noteq> None \<and> global_lock g' = global_lock g \<and>
    task_state g' = task_state g \<and> task_dl g' = task_dl g \<and> phys_ds g' = phys_ds g"
  using assms by (auto simp: gdev_enqueue_compute_def enqueue_list_def)

lemma fifo_queued_context:
  assumes "gdev_vsched_fifo_schedule_compute tid s g = Some (False, g')"
  shows "ents g' = ents g \<and> global_lock g' = global_lock g \<and> task_state g' = task_state g \<and> task_dl g' = task_dl g"
  using assms
  by (auto simp: gdev_vsched_fifo_schedule_compute_def gdev_enqueue_compute_def Let_def split: option.splits if_splits)

text \<open>
  The bandwidth policy records the task before it sleeps. A completion that selects the
  context in between takes it off its queue and fails to wake it; the context then sleeps,
  in no queue, and nothing will wake it again.
\<close>

theorem band_loses_early_wakeup:
  assumes "gdev_vsched_band_schedule_compute others tid s g = Some (False, g1)"
    and "\<And>g. global_lock (others g) = global_lock g" "\<And>g. task_dl (others g) = task_dl g"
      "\<And>g. task_state (others g) = task_state g"
    and "\<not> global_lock g" "task_state g tid = 0" "\<not> task_dl g tid"
  shows "\<exists>g2 g3. gdev_sched_wakeup id s (gdev_dequeue_compute s g1) = Some (False, g2) \<and>
    gdev_sched_sleep tid s g2 = Some (True, g3) \<and> task_state (block tid g3) tid \<noteq> 0"
proof -
  have y: "global_lock (band_yield_compute others d p g) = global_lock g"
    "task_dl (band_yield_compute others d p g) = task_dl g"
    "task_state (band_yield_compute others d p g) = task_state g" for d p
    using assms(2-4) by (simp_all add: band_yield_compute_def Let_def)
  obtain d p g' where g1: "g1 = upd_ent s (se_task_update (\<lambda>_. Task tid)) g'"
    and enq: "gdev_enqueue_compute d s (others (band_yield_compute others d p g)) = Some g'"
    using assms(1)
    by (auto simp: gdev_vsched_band_schedule_compute_def Let_def split: option.splits if_splits)
  obtain e where e: "ents g' s = Some e" using enqueue_frame [OF enq] by auto
  have fr: "global_lock g' = global_lock g" "task_dl g' = task_dl g" "task_state g' = task_state g"
    using enqueue_frame [OF enq] y assms(2-4) by auto
  define h where "h = gdev_dequeue_compute s g1"
  have h: "\<not> global_lock h" "ents h s = Some (e\<lparr>se_task := Task tid\<rparr>)" "\<not> task_dl h tid" "task_state h tid = 0"
    using assms(5-7) e fr by (simp_all add: h_def g1 gdev_dequeue_compute_def)
  then show ?thesis
    using early_wakeup_of_recorded_task_lost [of h s "e\<lparr>se_task := Task tid\<rparr>" tid id]
    by (auto simp: h_def)
qed


lemma band_loses_early_wakeup_witness:
  "\<exists>g2 g3. gdev_sched_wakeup id 6 (gdev_dequeue_compute 6
      (upd_ent 6 (se_task_update (\<lambda>_. Task 9)) (upd_vd 0 (sched_com_list_update (\<lambda>_. [6]))
        (gpu_idle\<lparr>gdev_vds := \<lambda>_. zero_dev\<lparr>parent := Some 0\<rparr>, phys_ds := \<lambda>_. zero_dev\<lparr>current_com := Some (Vdev 1)\<rparr>\<rparr>))))
      = Some (False, g2) \<and> gdev_sched_sleep 9 6 g2 = Some (True, g3) \<and> task_state (block 9 g3) 9 \<noteq> 0"
proof (rule band_loses_early_wakeup [where others = id])
  let ?g = "gpu_idle\<lparr>gdev_vds := \<lambda>_. zero_dev\<lparr>parent := Some 0\<rparr>, phys_ds := \<lambda>_. zero_dev\<lparr>current_com := Some (Vdev 1)\<rparr>\<rparr>"
  have y: "band_yield_compute id 0 0 ?g = ?g"
    by (simp add: band_yield_compute_def acc_defs)
  show "gdev_vsched_band_schedule_compute id 9 6 ?g = Some (False, upd_ent 6 (se_task_update (\<lambda>_. Task 9))
      (upd_vd 0 (sched_com_list_update (\<lambda>_. [6])) ?g))"
    using y
    by (simp add: gdev_vsched_band_schedule_compute_def some_entity_def acc_defs gdev_enqueue_compute_def
        linked_com_iff enqueue_list_def zero_dev_def guard_c_def)
qed simp_all

definition two_waiting :: "nat \<Rightarrow> gpu" where
  "two_waiting i = gpu_idle\<lparr>gdev_vds := \<lambda>_. zero_dev\<lparr>parent := Some 0, sched_com_list := [7]\<rparr>,
     phys_ds := \<lambda>_. zero_dev\<lparr>sched_com_list := if even i then [0, 1] else [1, 0]\<rparr>\<rparr>"

lemma fifo_serves_every_device_witness:
  "\<exists>i < length (sched_com_list (phys_ds (two_waiting 0) 0)). Suc i mod 2 = (1 :: nat)"
proof (rule fifo_serves_every_device [where p = 0 and d = 1 and g = two_waiting and c = "\<lambda>i. i mod 2"
      and g' = "\<lambda>i. snd (the (gdev_vsched_fifo_select_next_compute (i mod 2) (two_waiting i)))"])
  fix i
  have cs: "even i \<and> i mod 2 = 0 \<and> Suc i mod 2 = 1 \<or> odd i \<and> i mod 2 = 1 \<and> Suc i mod 2 = 0"
    by presburger
  then have r: "gdev_vsched_fifo_select_next_compute (i mod 2) (two_waiting i) =
    Some (Some (Suc i mod 2), upd_phys 0 (gdev_current_com_set (Some (Vdev (Suc i mod 2))))
      (upd_phys 0 (sched_com_list_update (to_tail (i mod 2))) (two_waiting i)))"
    by (elim disjE; simp add: gdev_vsched_fifo_select_next_compute_def two_waiting_def acc_defs
        first_waiting_com_def to_tail_def Let_def)
  then show "gdev_vsched_fifo_select_next_compute (i mod 2) (two_waiting i) =
    Some (Some (Suc i mod 2), snd (the (gdev_vsched_fifo_select_next_compute (i mod 2) (two_waiting i))))"
    by simp
  show "sched_com_list (phys_ds (two_waiting (Suc i)) 0) =
    sched_com_list (phys_ds (snd (the (gdev_vsched_fifo_select_next_compute (i mod 2) (two_waiting i)))) 0)"
    unfolding r using cs by (elim disjE; simp add: two_waiting_def to_tail_def acc_defs)
qed (simp_all add: two_waiting_def)

end
