(* ===== verification/Gpu_Sched.thy ===== *)
theory Gpu_Sched
  imports Gpu_Policy
begin

text \<open>
  Scheduling of compute launches (\<open>src/core/gpu_sched.c\<close>) and the credit thread of a
  device (\<open>src/core/gpu_init.c\<close>), over a policy table. \<open>GDEV_SCHED_MRQ\<close> is not defined,
  so memory transfers go through the compute functions.
\<close>

section \<open>Launching\<close>

text \<open>
  The local scheduler of the device, under its lock: \<open>False\<close> when the context is queued
  and about to sleep. \<open>now\<close> is the wall clock.
\<close>

definition local_schedule_compute :: "gdev_time \<Rightarrow> nat \<Rightarrow> gpu \<Rightarrow> (bool \<times> gpu) option" where
  "local_schedule_compute now s g =
     do { e \<leftarrow> ents g s;
          let d = se_gdev e;
          let cur = gdev_current_com_get (gdev_vds g d);
          if (cur \<noteq> None \<and> cur \<noteq> Some (Entity s)) \<or> launch_instances e \<ge> GDEV_INSTANCES_LIMIT
          then do { g \<leftarrow> gdev_enqueue_compute d s g; Some (False, g) }
          else
            let g = (if launch_instances e = 0
                     then upd_ent s (last_tick_com_update (\<lambda>_. now)) g else g);
                g = upd_ent s (launch_instances_update (\<lambda>n. n + 1)) g
            in Some (True, upd_vd d (gdev_current_com_set (Some (Entity s))) g) }"

text \<open>
  One pass of \<open>gdev_schedule_compute\<close> from the label \<open>resched\<close>: either the context may be
  launched, or it is queued and calls \<open>gdev_sched_sleep\<close> before the next pass.
\<close>

definition schedule_compute_pass ::
  "gdev_vsched_policy \<Rightarrow> gdev_time \<Rightarrow> nat \<Rightarrow> nat \<Rightarrow> gpu \<Rightarrow> (bool \<times> gpu) option" where
  "schedule_compute_pass gdev_vsched now tid s g =
     do { (go, g) \<leftarrow> vs_schedule_compute gdev_vsched tid s g;
          if go then local_schedule_compute now s g else Some (False, g) }"

text \<open>
  The rest of the function, once the context may be launched, is \<open>gdev_access_start\<close> and
  a loop that yields while the scheduler thread of the device runs. A device without a
  scheduler thread is a null pointer here.
\<close>

definition thread_idle :: "nat \<Rightarrow> gpu \<Rightarrow> bool option" where
  "thread_idle d g =
     do { t \<leftarrow> sched_com_thread (gdev_vds g d); Some (task_state g t \<noteq> 0) }"

text \<open>
  A run of \<open>gdev_schedule_compute\<close> up to the point where it returns or has to wait: for a
  completion, for the device to be unblocked, or for the scheduler thread to sleep.
\<close>

datatype launch_phase = Launched | Sleeping | Device_blocked | Thread_busy

definition gdev_schedule_compute ::
  "gdev_vsched_policy \<Rightarrow> gdev_time \<Rightarrow> nat \<Rightarrow> nat \<Rightarrow> gpu \<Rightarrow> (launch_phase \<times> gpu) option" where
  "gdev_schedule_compute gdev_vsched now tid s g =
     do { e \<leftarrow> ents g s;
          (go, g) \<leftarrow> schedule_compute_pass gdev_vsched now tid s g;
          if \<not> go then Some (Sleeping, g)
          else
            do { let (free, g) = gdev_access_start (se_gdev e) g;
                 if \<not> free then Some (Device_blocked, g)
                 else do { idle \<leftarrow> thread_idle (se_gdev e) g;
                           Some (if idle then Launched else Thread_busy, g) } } }"

definition gdev_schedule_memory_pass ::
  "gdev_vsched_policy \<Rightarrow> gdev_time \<Rightarrow> nat \<Rightarrow> nat \<Rightarrow> gpu \<Rightarrow> (bool \<times> gpu) option" where
  "gdev_schedule_memory_pass = schedule_compute_pass"

section \<open>Completion\<close>

definition instances_of :: "nat option \<Rightarrow> gpu \<Rightarrow> int" where
  "instances_of s g = (case s of None \<Rightarrow> 0
     | Some s \<Rightarrow> (case ents g s of None \<Rightarrow> 0 | Some e \<Rightarrow> launch_instances e))"

text \<open>
  When another device is selected, the context chosen on this one is given up: a launch
  it made in between is taken back, or that of whatever runs on the device now.
\<close>

definition give_up_choice :: "nat \<Rightarrow> nat option \<Rightarrow> int \<Rightarrow> gpu \<Rightarrow> gpu" where
  "give_up_choice d chosen old_instance g =
     (case chosen of
        Some s \<Rightarrow> if old_instance < instances_of (Some s) g
                  then upd_ent s (launch_instances_update (\<lambda>n. n - 1)) g else g
      | None \<Rightarrow> (case gdev_current_com_get (gdev_vds g d) of
                   Some (Entity s) \<Rightarrow> upd_ent s (launch_instances_update (\<lambda>n. n - 1)) g
                 | _ \<Rightarrow> g))"

text \<open>Charging the execution to the device: credit and accumulated computation time.\<close>

definition charge_compute :: "gdev_time \<Rightarrow> gdev_device \<Rightarrow> gdev_device" where
  "charge_compute exec dev =
     dev\<lparr>credit_com := time_sub_from (credit_com dev) exec,
         com_time := com_time dev + ucast (gdev_time_to_us exec)\<rparr>"

definition dispatch_compute ::
  "(gpu \<Rightarrow> gpu) \<Rightarrow> nat \<Rightarrow> nat option \<Rightarrow> int \<Rightarrow> nat option \<Rightarrow> gpu \<Rightarrow> gpu option" where
  "dispatch_compute jiffy d chosen old_instance next g =
     (case next of
        None \<Rightarrow> Some g
      | Some n \<Rightarrow>
          let g = (if n \<noteq> d
                   then upd_vd d (gdev_current_com_set None) (give_up_choice d chosen old_instance g)
                   else g);
              chosen = (if n \<noteq> d then first_of (sched_com_list (gdev_vds g n)) else chosen)
          in case chosen of
               None \<Rightarrow> Some g
             | Some s \<Rightarrow> do { (woken, g) \<leftarrow> gdev_sched_wakeup jiffy s (gdev_dequeue_compute s g); Some g })"

definition gdev_select_next_compute ::
  "gdev_vsched_policy \<Rightarrow> (gpu \<Rightarrow> gpu) \<Rightarrow> gdev_time \<Rightarrow> nat \<Rightarrow> gpu \<Rightarrow> gpu option" where
  "gdev_select_next_compute gdev_vsched jiffy now d g =
     (let g = gdev_access_end d g
      in case gdev_current_com_get (gdev_vds g d) of
           None \<Rightarrow> Some g
         | Some (Vdev _) \<Rightarrow> None
         | Some (Entity s) \<Rightarrow>
             do { e \<leftarrow> ents g s;
                  let exec = time_sub now (last_tick_com e);
                  let g = upd_ent s (launch_instances_update (\<lambda>n. n - 1)) g;
                  if launch_instances e - 1 = 0 then
                    do { let g = upd_vd d (charge_compute exec) g;
                         let chosen = first_of (sched_com_list (gdev_vds g d));
                         let old_instance = instances_of chosen g;
                         let g = upd_vd d (gdev_current_com_set (map_option Entity chosen)) g;
                         (next, g) \<leftarrow> vs_select_next_compute gdev_vsched d g;
                         dispatch_compute jiffy d chosen old_instance next g }
                  else Some g })"

definition gdev_select_next_memory ::
  "gdev_vsched_policy \<Rightarrow> (gpu \<Rightarrow> gpu) \<Rightarrow> gdev_time \<Rightarrow> nat \<Rightarrow> gpu \<Rightarrow> gpu option" where
  "gdev_select_next_memory = gdev_select_next_compute"

definition gdev_replenish_credit_compute :: "gdev_vsched_policy \<Rightarrow> nat \<Rightarrow> gpu \<Rightarrow> gpu" where
  "gdev_replenish_credit_compute gdev_vsched d g = vs_replenish_compute gdev_vsched d g"

definition gdev_replenish_credit_memory :: "gdev_vsched_policy \<Rightarrow> nat \<Rightarrow> gpu \<Rightarrow> gpu" where
  "gdev_replenish_credit_memory gdev_vsched d g = g"

section \<open>The scheduler thread and the credit thread\<close>

text \<open>One round of \<open>gdev_sched_com_thread\<close> after a wake-up.\<close>

definition gdev_sched_com_thread ::
  "gdev_vsched_policy \<Rightarrow> (gpu \<Rightarrow> gpu) \<Rightarrow> gdev_time \<Rightarrow> nat \<Rightarrow> gpu \<Rightarrow> gpu option" where
  "gdev_sched_com_thread gdev_vsched jiffy now d g =
     (if users (gdev_vds g d) \<noteq> 0 then gdev_select_next_compute gdev_vsched jiffy now d g else Some g)"

definition gdev_sched_mem_thread ::
  "gdev_vsched_policy \<Rightarrow> (gpu \<Rightarrow> gpu) \<Rightarrow> gdev_time \<Rightarrow> nat \<Rightarrow> gpu \<Rightarrow> gpu option" where
  "gdev_sched_mem_thread gdev_vsched jiffy now d g =
     (if users (gdev_vds g d) \<noteq> 0 then gdev_select_next_memory gdev_vsched jiffy now d g else Some g)"

text \<open>
  One round of \<open>gdev_credit_com_thread\<close>: it replenishes the credit, sleeps until its timer
  fires (\<open>asleep\<close> is what the rest of the system does meanwhile), and measures the used
  bandwidth of the window that began at \<open>start\<close>; the result is the start of the next window. \<open>com_time * 100\<close> is an
  unsigned 32-bit product; the division is by the elapsed microseconds.
\<close>

definition update_bandwidth :: "u32 \<Rightarrow> gdev_time \<Rightarrow> u32 option" where
  "update_bandwidth time elapse =
     do { guard_c (gdev_time_to_us elapse \<noteq> 0);
          let used = (ucast (ucast (time * 100) div gdev_time_to_us elapse) :: u32);
          Some (if used > 100 then 100 else used) }"

definition credit_com_round ::
  "gdev_vsched_policy \<Rightarrow> (gpu \<Rightarrow> gpu) \<Rightarrow> gdev_time \<Rightarrow> gdev_time \<Rightarrow> nat \<Rightarrow> gpu \<Rightarrow> (gdev_time \<times> gpu) option" where
  "credit_com_round gdev_vsched asleep now start d g =
     do { let g = asleep (gdev_replenish_credit_compute gdev_vsched d g);
          let elapse = time_sub now start;
          used \<leftarrow> update_bandwidth (com_time (gdev_vds g d)) elapse;
          let g = upd_vd d (com_bw_used_update (\<lambda>_. used)) g;
          if gdev_time_ge elapse (gdev_time_us GDEV_UPDATE_INTERVAL)
          then Some (now, upd_vd d (com_time_update (\<lambda>_. 0)) g)
          else Some (start, g) }"

definition credit_mem_round ::
  "gdev_vsched_policy \<Rightarrow> (gpu \<Rightarrow> gpu) \<Rightarrow> gdev_time \<Rightarrow> gdev_time \<Rightarrow> nat \<Rightarrow> gpu \<Rightarrow> (gdev_time \<times> gpu) option" where
  "credit_mem_round gdev_vsched asleep now start d g =
     do { let g = asleep (gdev_replenish_credit_memory gdev_vsched d g);
          let elapse = time_sub now start;
          used \<leftarrow> update_bandwidth (mem_time (gdev_vds g d)) elapse;
          let g = upd_vd d (mem_bw_used_update (\<lambda>_. used)) g;
          if gdev_time_ge elapse (gdev_time_us GDEV_UPDATE_INTERVAL)
          then Some (now, upd_vd d (mem_time_update (\<lambda>_. 0)) g)
          else Some (start, g) }"

section \<open>Properties of the credit thread\<close>

lemma update_bandwidth_bounded: "update_bandwidth time elapse = Some used \<Longrightarrow> used \<le> 100"
  by (auto simp: update_bandwidth_def Let_def not_less split: if_splits)

text \<open>
  The interval of five seconds is built with \<open>gdev_time_us\<close>, which does not normalise, and
  is compared with a normalised difference: the window closes whenever the second of the
  clock has changed since it began.
\<close>

theorem window_closes_each_second:
  assumes "norm_time now" "norm_time start" "neg now = 0" "neg start = 0" "mag start \<le> mag now"
  shows "gdev_time_ge (time_sub now start) (gdev_time_us GDEV_UPDATE_INTERVAL) \<longleftrightarrow> sec start < sec now"
proof -
  have u: "unat (usec now) < 1000000" "unat (usec start) < 1000000"
    using assms(1,2) by (auto simp: norm_time_def)
  have "\<not> gdev_time_lt now start" using assms by (simp add: norm_not_lt)
  note f = time_sub_fields [OF assms(3,4) this]
  have le: "sec start \<le> sec now"
    using assms(5) u by (simp add: mag_def word_le_nat_alt)
  show ?thesis
  proof (cases "sec start = sec now")
    case True
    then have "usec start \<le> usec now" using assms(5) by (simp add: mag_def word_le_nat_alt)
    then have "unat (usec now - usec start) < 1000000" using u by (simp add: unat_sub word_le_nat_alt)
    then have "usec now - usec start < 1000000" by (simp add: word_less_nat_alt)
    then have "\<not> 5000000 < usec now - usec start" "usec now - usec start \<noteq> 5000000"
      by (auto dest: less_trans)
    then show ?thesis using True
      by (simp add: f gdev_time_ge_def gdev_time_eq_def gdev_time_gt_def gdev_time_us_def resch_consts)
  next
    case False
    with le have lt: "sec start < sec now" by simp
    then have "sec now - sec start \<noteq> 0" by (metis right_minus_eq less_irrefl)
    then have "gdev_time_ge (time_sub now start) (gdev_time_us GDEV_UPDATE_INTERVAL)"
      by (simp add: f gdev_time_ge_def gdev_time_gt_def gdev_time_us_def word_gt_0)
    with lt show ?thesis by simp
  qed
qed

lemma window_closes_each_second_witness:
  "gdev_time_ge (time_sub (gdev_time_ms 2001) (gdev_time_ms 1999)) (gdev_time_us GDEV_UPDATE_INTERVAL) \<longleftrightarrow>
    sec (gdev_time_ms 1999) < sec (gdev_time_ms 2001)"
  by (rule window_closes_each_second) (simp_all add: norm_time_def gdev_time_ms_def resch_consts mag_def)

text \<open>A round is undefined exactly when no microsecond has passed since the window began.\<close>

lemma credit_round_defined_iff:
  assumes "norm_time now" "norm_time start" "neg now = 0" "neg start = 0" "mag start \<le> mag now"
  shows "credit_com_round pol asleep now start d g = None \<longleftrightarrow> mag now = mag start"
proof -
  have "unat (gdev_time_to_us (time_sub now start)) = mag now - mag start"
    using elapsed_time [OF assms] by simp
  then have "gdev_time_to_us (time_sub now start) = 0 \<longleftrightarrow> mag now = mag start"
    using assms(5) by (metis diff_is_0_eq' le_antisym order_refl unat_eq_zero diff_is_0_eq)
  then show ?thesis
    by (auto simp: credit_com_round_def update_bandwidth_def Let_def bind_eq_None_conv split: if_splits)
qed

section \<open>Completion without a launch\<close>

text \<open>
  A completion of a context that is not launched, as a second \<open>ioctl\<close> to synchronise
  causes, leaves it with \<open>- 1\<close> instances and hands nothing over.
\<close>

lemma completion_without_launch:
  assumes "current_com (gdev_vds g d) = Some (Entity s)" "ents g s = Some e" "launch_instances e = 0"
  shows "\<exists>g'. gdev_select_next_compute pol jiffy now d g = Some g' \<and>
    ents g' s = Some (e\<lparr>launch_instances := - 1\<rparr>) \<and> sched_com_list (gdev_vds g' d) = sched_com_list (gdev_vds g d)"
  using assms by (simp add: gdev_select_next_compute_def gdev_current_com_get_def gdev_access_end_def gdev_phys_get_def
      split: option.splits)

end
