(* ===== verification/Gpu_Typing.thy ===== *)
theory Gpu_Typing
  imports Gpu_Sched
begin

text \<open>
  Invariants of the GPU scheduler. \<open>gpu_typed\<close>: the \<open>void *\<close> fields and the list nodes
  hold objects of the kind the code casts them to, and these exist; with it no operation of
  the scheduler is undefined. The contract a policy table has to meet for this is the
  locale \<open>vsched_policy\<close>; the three policies meet it. Then mutual exclusion: at most one
  context is launched on a physical device.
\<close>

section \<open>Well-typed states\<close>

definition ents_ok :: "gpu \<Rightarrow> bool" where
  "ents_ok g \<longleftrightarrow> (\<forall>s e. ents g s = Some e \<longrightarrow>
     se_gdev e < GDEV_DEVICE_MAX_COUNT \<and> se_prio e = dev_id (gdev_vds g (se_gdev e)) * 30 \<and>
     (\<forall>t. se_task e = Task t \<longrightarrow> \<not> task_dl g t))"

definition vds_ok :: "gpu \<Rightarrow> bool" where
  "vds_ok g \<longleftrightarrow> (\<forall>d<GDEV_DEVICE_MAX_COUNT. \<forall>x. current_com (gdev_vds g d) = Some x \<longrightarrow>
     (\<exists>s. x = Entity s \<and> ents g s \<noteq> None))"

definition phys_ok :: "gpu \<Rightarrow> bool" where
  "phys_ok g \<longleftrightarrow> (\<forall>p. (\<forall>x. current_com (phys_ds g p) = Some x \<longrightarrow> (\<exists>n<GDEV_DEVICE_MAX_COUNT. x = Vdev n)) \<and>
     set (sched_com_list (phys_ds g p)) \<subseteq> {..<GDEV_DEVICE_MAX_COUNT})"

definition queues_ok :: "gpu \<Rightarrow> bool" where
  "queues_ok g \<longleftrightarrow> (\<forall>d<GDEV_DEVICE_MAX_COUNT. distinct (sched_com_list (gdev_vds g d)) \<and>
     (\<forall>s \<in> set (sched_com_list (gdev_vds g d)).
        \<exists>e. ents g s = Some e \<and> se_gdev e = d \<and> se_task e \<noteq> TDead))"

definition gpu_typed :: "gpu \<Rightarrow> bool" where
  "gpu_typed g \<longleftrightarrow> \<not> global_lock g \<and> ents_ok g \<and> vds_ok g \<and> phys_ok g \<and> queues_ok g"

lemmas typed_defs = gpu_typed_def ents_ok_def vds_ok_def phys_ok_def queues_ok_def

lemma typed_entity:
  "gpu_typed g \<Longrightarrow> ents g s = Some e \<Longrightarrow> se_gdev e < GDEV_DEVICE_MAX_COUNT \<and>
     se_prio e = dev_id (gdev_vds g (se_gdev e)) * 30 \<and> (\<forall>t. se_task e = Task t \<longrightarrow> \<not> task_dl g t)"
  by (simp add: gpu_typed_def ents_ok_def)

lemma typed_current:
  "gpu_typed g \<Longrightarrow> d < GDEV_DEVICE_MAX_COUNT \<Longrightarrow> current_com (gdev_vds g d) = Some x \<Longrightarrow>
     \<exists>s e. x = Entity s \<and> ents g s = Some e"
  by (fastforce simp: gpu_typed_def vds_ok_def)

lemma typed_queue:
  "gpu_typed g \<Longrightarrow> d < GDEV_DEVICE_MAX_COUNT \<Longrightarrow> s \<in> set (sched_com_list (gdev_vds g d)) \<Longrightarrow>
     \<exists>e. ents g s = Some e \<and> se_gdev e = d \<and> se_task e \<noteq> TDead"
  by (simp add: gpu_typed_def queues_ok_def)

lemma typed_queue_distinct:
  "gpu_typed g \<Longrightarrow> d < GDEV_DEVICE_MAX_COUNT \<Longrightarrow> distinct (sched_com_list (gdev_vds g d))"
  by (simp add: gpu_typed_def queues_ok_def)

text \<open>The parts of the state the invariant reads.\<close>

lemma gpu_typed_cong:
  assumes "global_lock g' = global_lock g" "ents g' = ents g" "task_dl g' = task_dl g"
    and "\<And>d. dev_id (gdev_vds g' d) = dev_id (gdev_vds g d)"
      "\<And>d. current_com (gdev_vds g' d) = current_com (gdev_vds g d)"
      "\<And>d. sched_com_list (gdev_vds g' d) = sched_com_list (gdev_vds g d)"
      "\<And>p. current_com (phys_ds g' p) = current_com (phys_ds g p)"
      "\<And>p. sched_com_list (phys_ds g' p) = sched_com_list (phys_ds g p)"
  shows "gpu_typed g' \<longleftrightarrow> gpu_typed g"
  using assms by (simp add: typed_defs)

lemma typed_phys_current:
  assumes "gpu_typed g" "\<And>n. x = Some n \<Longrightarrow> n < GDEV_DEVICE_MAX_COUNT"
  shows "gpu_typed (upd_phys p (gdev_current_com_set (map_option Vdev x)) g)"
  using assms by (auto simp: typed_defs acc_defs)

lemma typed_rotate:
  assumes "gpu_typed g" "d < GDEV_DEVICE_MAX_COUNT"
  shows "gpu_typed (upd_phys p (sched_com_list_update (to_tail d)) g)"
  using assms by (auto simp: typed_defs subset_iff)

lemma typed_vd_current:
  assumes "gpu_typed g" "\<And>s. x = Some s \<Longrightarrow> ents g s \<noteq> None"
  shows "gpu_typed (upd_vd d (gdev_current_com_set (map_option Entity x)) g)"
  using assms by (auto simp: typed_defs acc_defs)

lemma typed_set_queue:
  assumes t: "gpu_typed g" and q: "distinct q"
    "\<And>s. s \<in> set q \<Longrightarrow> \<exists>e. ents g s = Some e \<and> se_gdev e = d \<and> se_task e \<noteq> TDead"
  shows "gpu_typed (upd_vd d (sched_com_list_update (\<lambda>_. q)) g)"
proof -
  let ?g = "upd_vd d (sched_com_list_update (\<lambda>_. q)) g"
  have "ents_ok ?g" using t by (simp add: gpu_typed_def ents_ok_def)
  moreover have "vds_ok ?g" using t by (simp add: gpu_typed_def vds_ok_def)
  moreover have "phys_ok ?g" using t by (simp add: gpu_typed_def phys_ok_def)
  moreover have "queues_ok ?g" using t q by (simp add: gpu_typed_def queues_ok_def)
  ultimately show ?thesis using t by (simp add: gpu_typed_def)
qed

text \<open>Changing one entity: it keeps its device, and the marker only appears outside the queues.\<close>

definition queued :: "nat \<Rightarrow> gpu \<Rightarrow> bool" where
  "queued s g \<longleftrightarrow> (\<exists>d<GDEV_DEVICE_MAX_COUNT. s \<in> set (sched_com_list (gdev_vds g d)))"

lemma typed_ent:
  assumes t: "gpu_typed g" and s: "ents g s = Some e" and g': "ents g' = (ents g)(s \<mapsto> e')"
    and e': "se_gdev e' = se_gdev e" "se_prio e' = se_prio e"
      "\<And>t. se_task e' = Task t \<Longrightarrow> \<not> task_dl g t" "se_task e' = TDead \<Longrightarrow> \<not> queued s g"
    and same: "global_lock g' = global_lock g" "task_dl g' = task_dl g" "gdev_vds g' = gdev_vds g"
      "phys_ds g' = phys_ds g"
  shows "gpu_typed g'"
proof -
  have "ents_ok g'"
    using t s e' same unfolding gpu_typed_def ents_ok_def g' by (metis fun_upd_apply option.inject)
  moreover have "vds_ok g'"
    using t same unfolding gpu_typed_def vds_ok_def g' by (metis fun_upd_apply option.distinct(1))
  moreover have "phys_ok g'" using t same by (simp add: gpu_typed_def phys_ok_def)
  moreover have "queues_ok g'"
    unfolding queues_ok_def same
  proof (intro allI impI conjI ballI)
    fix d assume d: "d < GDEV_DEVICE_MAX_COUNT"
    then show "distinct (sched_com_list (gdev_vds g d))"
      using t by (simp add: gpu_typed_def queues_ok_def)
    fix q assume q: "q \<in> set (sched_com_list (gdev_vds g d))"
    then obtain a where a: "ents g q = Some a" "se_gdev a = d" "se_task a \<noteq> TDead"
      using t d by (auto simp: gpu_typed_def queues_ok_def)
    show "\<exists>e. ents g' q = Some e \<and> se_gdev e = d \<and> se_task e \<noteq> TDead"
    proof (cases "q = s")
      case True
      then have "queued s g" using d q by (auto simp: queued_def)
      then show ?thesis using True a s e' g' by auto
    next
      case False
      then show ?thesis using a g' by simp
    qed
  qed
  ultimately show ?thesis using t same by (simp add: gpu_typed_def)
qed

lemma typed_upd_ent:
  assumes "gpu_typed g" "\<And>e. se_gdev (f e) = se_gdev e" "\<And>e. se_prio (f e) = se_prio e"
    and "\<And>e. se_task (f e) = se_task e"
  shows "gpu_typed (upd_ent s f g)"
proof (cases "ents g s")
  case None
  then have "ents (upd_ent s f g) = ents g" by (simp add: fun_eq_iff)
  then show ?thesis using assms(1) by (subst gpu_typed_cong) auto
next
  case (Some e)
  have q: "queued s g \<Longrightarrow> se_task e \<noteq> TDead" "se_task e = Task t \<Longrightarrow> \<not> task_dl g t" for t
    using typed_entity [OF assms(1) Some] typed_queue [OF assms(1), of _ s] Some by (auto simp: queued_def)
  show ?thesis
    by (rule typed_ent [OF assms(1) Some, where e' = "f e"]) (use Some assms q in auto)
qed

lemma typed_access_end: "gpu_typed (gdev_access_end d g) \<longleftrightarrow> gpu_typed g"
  by (rule gpu_typed_cong) (auto simp: gdev_access_end_def acc_defs split: option.splits)

lemma typed_charge: "gpu_typed (upd_vd d (charge_compute exec) g) \<longleftrightarrow> gpu_typed g"
  by (rule gpu_typed_cong) (auto simp: charge_compute_def)


section \<open>Queueing and waking in a well-typed state\<close>

lemma queued_linked: "linked_com s g \<longleftrightarrow> queued s g"
  by (auto simp: linked_com_def list_ex_iff queued_def)

text \<open>All contexts of a device have the same priority: they queue in order of arrival.\<close>

lemma enqueue_typed:
  assumes t: "gpu_typed g" and e: "ents g s = Some e" "se_task e \<noteq> TDead" and d: "d = se_gdev e"
  shows "\<exists>q. gdev_enqueue_compute d s g = Some (upd_vd d (sched_com_list_update (\<lambda>_. q)) g) \<and>
    q = (if s \<in> set (sched_com_list (gdev_vds g d)) then sched_com_list (gdev_vds g d)
         else sched_com_list (gdev_vds g d) @ [s]) \<and>
    gpu_typed (upd_vd d (sched_com_list_update (\<lambda>_. q)) g)"
proof -
  define l where "l = sched_com_list (gdev_vds g d)"
  define q where "q = (if s \<in> set l then l else l @ [s])"
  have dl: "d < GDEV_DEVICE_MAX_COUNT" using t e d by (auto simp: gpu_typed_def ents_ok_def)
  have m: "\<exists>a. ents g p = Some a \<and> se_gdev a = d" if "p \<in> set l" for p
    using t dl that by (auto simp: gpu_typed_def queues_ok_def l_def)
  have pr: "prio_of g p = prio_of g s" if "p \<in> set l" for p
    using m [OF that] t e d by (auto simp: prio_of_def gpu_typed_def ents_ok_def)
  have "linked_com s g \<longleftrightarrow> s \<in> set l"
  proof
    assume "linked_com s g"
    then obtain d' where d': "d' < GDEV_DEVICE_MAX_COUNT" "s \<in> set (sched_com_list (gdev_vds g d'))"
      by (auto simp: queued_linked queued_def)
    then obtain a where "ents g s = Some a" "se_gdev a = d'" using t by (auto simp: gpu_typed_def queues_ok_def)
    then have "d' = d" using e d by simp
    with d' show "s \<in> set l" by (simp add: l_def)
  qed (use dl in \<open>auto simp: queued_linked queued_def l_def\<close>)
  moreover have "List.find (prio_before g s) l = None"
    using pr by (auto simp: find_None_iff prio_before_def)
  moreover have "list_all (\<lambda>p. ents g p \<noteq> None) l" using m by (auto simp: list_all_iff)
  ultimately have "gdev_enqueue_compute d s g = Some (upd_vd d (sched_com_list_update (\<lambda>_. q)) g)"
    using e by (simp add: gdev_enqueue_compute_def enqueue_list_def q_def flip: l_def)
  moreover have "gpu_typed (upd_vd d (sched_com_list_update (\<lambda>_. q)) g)"
    using m t e d typed_queue [OF t dl] typed_queue_distinct [OF t dl]
    by (intro typed_set_queue) (auto simp: q_def l_def split: if_splits)
  ultimately show ?thesis by (auto simp: q_def l_def)
qed

text \<open>Waking a context that is in no queue.\<close>

lemma wakeup_typed:
  assumes t: "gpu_typed g" and e: "ents g s = Some e" "se_task e \<noteq> TDead" and nq: "\<not> queued s g"
    and j: "\<And>g. gpu_typed g \<Longrightarrow> gpu_typed (jiffy g)"
  shows "\<exists>r g'. gdev_sched_wakeup jiffy s g = Some (r, g') \<and> gpu_typed g'"
proof (cases "se_task e")
  case TNull
  have "gpu_typed (spin_unlock (upd_ent s (se_task_update (\<lambda>_. TDead)) (g\<lparr>global_lock := True\<rparr>)))"
    by (rule typed_ent [OF t e(1), where e' = "e\<lparr>se_task := TDead\<rparr>"])
      (use e nq t in \<open>auto simp: gpu_typed_def\<close>)
  moreover have "\<not> global_lock g" using t by (simp add: gpu_typed_def)
  ultimately show ?thesis using TNull e(1) by (simp add: gdev_sched_wakeup_def ex_bool_eq)
next
  case TDead
  with e show ?thesis by simp
next
  case (Task u)
  have nd: "\<not> task_dl g u" using t e Task by (auto simp: gpu_typed_def ents_ok_def)
  have unlock: "gpu_typed (snd (wake_up_task u (spin_unlock (g\<lparr>global_lock := True\<rparr>))))"
    using t by (subst gpu_typed_cong [where g = g]) (auto simp: wake_up_task_def gpu_typed_def)
  have wake: "gpu_typed (snd (wake_up_task u g))" if "gpu_typed g" for g
    using that by (subst gpu_typed_cong [where g = g]) (auto simp: wake_up_task_def)
  have null: "gpu_typed (upd_ent s (se_task_update (\<lambda>_. TNull)) g)" if "gpu_typed g" for g
  proof (cases "ents g s")
    case None
    then show ?thesis using that by (subst gpu_typed_cong [where g = g]) (auto simp: fun_eq_iff)
  next
    case (Some a)
    show ?thesis
      by (rule typed_ent [OF that Some, where e' = "a\<lparr>se_task := TNull\<rparr>"]) (use Some in auto)
  qed
  show ?thesis
    using Task e t nd null [OF unlock] null [OF wake [OF j [OF unlock]]] wake [OF j [OF unlock]]
    by (auto simp: gdev_sched_wakeup_def wake_up_task_def Let_def gpu_typed_def [of g])
qed

lemma dequeue_typed:
  assumes "gpu_typed g"
  shows "gpu_typed (gdev_dequeue_compute s g) \<and> \<not> queued s (gdev_dequeue_compute s g) \<and>
    ents (gdev_dequeue_compute s g) = ents g"
proof -
  let ?g = "gdev_dequeue_compute s g"
  have "ents_ok ?g" "vds_ok ?g" "phys_ok ?g"
    using assms by (simp_all add: gpu_typed_def ents_ok_def vds_ok_def phys_ok_def gdev_dequeue_compute_def)
  moreover have "queues_ok ?g"
    using assms typed_queue [OF assms]
    by (auto simp: gpu_typed_def queues_ok_def gdev_dequeue_compute_def dest: set_remove1_subset [THEN subsetD])
  ultimately show ?thesis
    using assms typed_queue_distinct [OF assms]
    by (auto simp: gpu_typed_def queued_def gdev_dequeue_compute_def)
qed

section \<open>The contract of a policy\<close>

text \<open>
  The condition under which the code runs while others do: a step keeps the state well typed,
  and no context vanishes, changes its device or is given a wake-up it has not consumed.
\<close>

definition keeps :: "gpu \<Rightarrow> gpu \<Rightarrow> bool" where
  "keeps g g' \<longleftrightarrow> gpu_typed g' \<and> task_dl g' = task_dl g \<and>
     (\<forall>s e. ents g s = Some e \<and> se_task e \<noteq> TDead \<longrightarrow>
        (\<exists>e'. ents g' s = Some e' \<and> se_gdev e' = se_gdev e \<and> se_task e' \<noteq> TDead))"

definition rely :: "(gpu \<Rightarrow> gpu) \<Rightarrow> bool" where
  "rely others \<longleftrightarrow> (\<forall>g. gpu_typed g \<longrightarrow> keeps g (others g))"

lemma policy_keeps_refl: "gpu_typed g \<Longrightarrow> keeps g g"
  by (simp add: keeps_def)

lemma policy_keeps_trans: "keeps g h \<Longrightarrow> keeps h k \<Longrightarrow> keeps g k"
  unfolding keeps_def by metis

lemma keeps_typed: "keeps g h \<Longrightarrow> gpu_typed h"
  by (simp add: keeps_def)

lemma keeps_same: "gpu_typed g' \<Longrightarrow> task_dl g' = task_dl g \<Longrightarrow> ents g' = ents g \<Longrightarrow> keeps g g'"
  by (simp add: keeps_def)

lemma keeps_others: "rely others \<Longrightarrow> keeps g h \<Longrightarrow> keeps g (others h)"
  using policy_keeps_trans keeps_typed by (auto simp: rely_def)

lemma rely_typed: "rely others \<Longrightarrow> gpu_typed g \<Longrightarrow> gpu_typed (others g)"
  using keeps_typed by (auto simp: rely_def)

lemma keeps_entity:
  "keeps g g' \<Longrightarrow> ents g s = Some e \<Longrightarrow> se_task e \<noteq> TDead \<Longrightarrow>
     \<exists>e'. ents g' s = Some e' \<and> se_gdev e' = se_gdev e \<and> se_task e' \<noteq> TDead"
  by (simp add: keeps_def)

lemma keeps_upd_ent:
  assumes "keeps g h" "gpu_typed (upd_ent s f h)" "\<And>e. se_gdev (f e) = se_gdev e"
    and "\<And>e. se_task e \<noteq> TDead \<Longrightarrow> se_task (f e) \<noteq> TDead"
  shows "keeps g (upd_ent s f h)"
  using assms unfolding keeps_def by fastforce

text \<open>Another context that launches is a step that others may do.\<close>

definition launch_of :: "gdev_vsched_policy \<Rightarrow> gdev_time \<Rightarrow> nat \<Rightarrow> nat \<Rightarrow> gpu \<Rightarrow> gpu" where
  "launch_of pol now tid s g =
     (case ents g s of
        Some e \<Rightarrow> if se_task e \<noteq> TDead \<and> \<not> task_dl g tid
                  then snd (the (schedule_compute_pass pol now tid s g)) else g
      | None \<Rightarrow> g)"

text \<open>
  What the scheduler needs of a policy table: in a well-typed state neither function is
  undefined, both are such steps themselves, and the selection answers a virtual device.
\<close>

locale vsched_policy =
  fixes pol :: gdev_vsched_policy
  assumes schedule: "gpu_typed g \<Longrightarrow> ents g s = Some e \<Longrightarrow> se_task e \<noteq> TDead \<Longrightarrow> \<not> task_dl g tid \<Longrightarrow>
      \<exists>r g'. vs_schedule_compute pol tid s g = Some (r, g') \<and> keeps g g'"
    and select: "gpu_typed g \<Longrightarrow> d < GDEV_DEVICE_MAX_COUNT \<Longrightarrow>
      \<exists>next g'. vs_select_next_compute pol d g = Some (next, g') \<and> keeps g g' \<and>
        (\<forall>n. next = Some n \<longrightarrow> n < GDEV_DEVICE_MAX_COUNT)"
begin

lemma pass_keeps:
  assumes t: "gpu_typed g" and e: "ents g s = Some e" "se_task e \<noteq> TDead" "\<not> task_dl g tid"
  shows "\<exists>r g'. schedule_compute_pass pol now tid s g = Some (r, g') \<and> keeps g g'"
proof -
  obtain r g1 where v: "vs_schedule_compute pol tid s g = Some (r, g1)" "keeps g g1"
    using schedule [OF t e] by blast
  obtain e' where e1: "ents g1 s = Some e'" "se_task e' \<noteq> TDead"
    using keeps_entity [OF v(2) e(1,2)] by blast
  note t1 = keeps_typed [OF v(2)]
  show ?thesis
  proof (cases r)
    case False
    with v show ?thesis by (cases r) (simp_all add: schedule_compute_pass_def ex_bool_eq)
  next
    case True
    show ?thesis
    proof (cases "(current_com (gdev_vds g1 (se_gdev e')) \<noteq> None \<and>
        current_com (gdev_vds g1 (se_gdev e')) \<noteq> Some (Entity s)) \<or> launch_instances e' \<ge> GDEV_INSTANCES_LIMIT")
      case wait: True
      obtain g2 where g2: "gdev_enqueue_compute (se_gdev e') s g1 = Some g2" "gpu_typed g2"
        using enqueue_typed [OF t1 e1 refl] by blast
      then have "keeps g g2"
        using policy_keeps_trans [OF v(2) keeps_same [OF g2(2)]] enqueue_frame [OF g2(1)] by auto
      with g2 v True e1 wait show ?thesis
        by (simp add: schedule_compute_pass_def local_schedule_compute_def acc_defs ex_bool_eq)
    next
      case go: False
      define g2 where "g2 = (if launch_instances e' = 0 then upd_ent s (last_tick_com_update (\<lambda>_. now)) g1 else g1)"
      define g3 where "g3 = upd_ent s (launch_instances_update (\<lambda>n. n + 1)) g2"
      have "gpu_typed g2" using t1 by (simp add: g2_def typed_upd_ent)
      then have t3: "gpu_typed g3" by (simp add: g3_def typed_upd_ent)
      have "keeps g g2" using v(2) \<open>gpu_typed g2\<close> by (auto simp: g2_def intro!: keeps_upd_ent split: if_splits)
      then have "keeps g g3" using t3 unfolding g3_def by (intro keeps_upd_ent) simp_all
      moreover have "ents g3 s \<noteq> None" using e1 by (simp add: g3_def g2_def)
      ultimately have "keeps g (upd_vd (se_gdev e') (gdev_current_com_set (Some (Entity s))) g3)"
        using typed_vd_current [OF t3, of "Some s"] policy_keeps_trans [OF _ keeps_same] by simp
      with v True e1 go show ?thesis
        by (auto simp: schedule_compute_pass_def local_schedule_compute_def acc_defs g3_def g2_def Let_def)
    qed
  qed
qed

lemma pass_typed:
  assumes "gpu_typed g" "ents g s = Some e" "se_task e \<noteq> TDead" "\<not> task_dl g tid"
  shows "\<exists>r g'. schedule_compute_pass pol now tid s g = Some (r, g') \<and> gpu_typed g'"
  using pass_keeps [OF assms] keeps_typed by blast

lemma rely_launch: "rely (launch_of pol now tid s)"
  unfolding rely_def
proof (intro allI impI)
  fix g assume t: "gpu_typed g"
  show "keeps g (launch_of pol now tid s g)"
  proof (cases "ents g s")
    case None
    then show ?thesis using policy_keeps_refl [OF t] by (simp add: launch_of_def)
  next
    case (Some e)
    then show ?thesis
      using pass_keeps [OF t Some, of tid now] policy_keeps_refl [OF t] by (auto simp: launch_of_def)
  qed
qed

lemma dispatch_typed:
  assumes t: "gpu_typed g" and d: "d < GDEV_DEVICE_MAX_COUNT" "\<And>n. next = Some n \<Longrightarrow> n < GDEV_DEVICE_MAX_COUNT"
    and c: "\<And>s. chosen = Some s \<Longrightarrow> \<exists>e. ents g s = Some e \<and> se_task e \<noteq> TDead"
    and j: "\<And>g. gpu_typed g \<Longrightarrow> gpu_typed (jiffy g)"
  shows "\<exists>g'. dispatch_compute jiffy d chosen old next g = Some g' \<and> gpu_typed g'"
proof (cases "next")
  case None
  with t show ?thesis by (simp add: dispatch_compute_def)
next
  case (Some n)
  define g1 where "g1 = (if n \<noteq> d then upd_vd d (gdev_current_com_set None) (give_up_choice d chosen old g) else g)"
  define ch where "ch = (if n \<noteq> d then first_of (sched_com_list (gdev_vds g1 n)) else chosen)"
  have "gpu_typed (give_up_choice d chosen old g)"
    using t by (auto simp: give_up_choice_def typed_upd_ent split: option.splits gobj.splits)
  then have t1: "gpu_typed g1"
    using typed_vd_current [of _ None] t by (simp add: g1_def)
  have unf: "dispatch_compute jiffy d chosen old next g =
    (case ch of None \<Rightarrow> Some g1
     | Some s \<Rightarrow> do { (woken, g) \<leftarrow> gdev_sched_wakeup jiffy s (gdev_dequeue_compute s g1); Some g })"
    unfolding dispatch_compute_def Some option.case Let_def g1_def ch_def by (rule refl)
  show ?thesis
  proof (cases ch)
    case None
    with t1 show ?thesis by (simp add: unf)
  next
    case sel: (Some s)
    obtain e where "ents g1 s = Some e" "se_task e \<noteq> TDead"
    proof (cases "n = d")
      case True
      with sel c that show ?thesis by (auto simp: ch_def g1_def)
    next
      case False
      with sel have "s \<in> set (sched_com_list (gdev_vds g1 n))"
        by (auto simp: ch_def first_of_def split: list.splits)
      with that show ?thesis using typed_queue [OF t1 d(2) [OF Some]] by blast
    qed
    then obtain r g2 where "gdev_sched_wakeup jiffy s (gdev_dequeue_compute s g1) = Some (r, g2)" "gpu_typed g2"
      using wakeup_typed [of "gdev_dequeue_compute s g1" s e jiffy] dequeue_typed [OF t1, of s] j by auto
    with sel show ?thesis by (simp add: unf)
  qed
qed

lemma select_next_typed:
  assumes t: "gpu_typed g" and d: "d < GDEV_DEVICE_MAX_COUNT"
    and j: "\<And>g. gpu_typed g \<Longrightarrow> gpu_typed (jiffy g)"
  shows "\<exists>g'. gdev_select_next_compute pol jiffy now d g = Some g' \<and> gpu_typed g'"
proof -
  define g1 where "g1 = gdev_access_end d g"
  have t1: "gpu_typed g1" using t by (simp add: g1_def typed_access_end)
  show ?thesis
  proof (cases "current_com (gdev_vds g1 d)")
    case None
    with t1 show ?thesis by (simp add: gdev_select_next_compute_def acc_defs flip: g1_def)
  next
    case (Some x)
    then obtain s e where x: "x = Entity s" "ents g1 s = Some e" using typed_current [OF t1 d] by blast
    define g2 where "g2 = upd_ent s (launch_instances_update (\<lambda>n. n - 1)) g1"
    have t2: "gpu_typed g2" using t1 by (simp add: g2_def typed_upd_ent)
    show ?thesis
    proof (cases "launch_instances e - 1 = 0")
      case False
      with t2 x Some show ?thesis
        by (simp add: gdev_select_next_compute_def acc_defs g2_def flip: g1_def)
    next
      case True
      define g3 where "g3 = upd_vd d (charge_compute (time_sub now (last_tick_com e))) g2"
      define ch where "ch = first_of (sched_com_list (gdev_vds g3 d))"
      define g4 where "g4 = upd_vd d (gdev_current_com_set (map_option Entity ch)) g3"
      have t3: "gpu_typed g3" using t2 by (simp add: g3_def typed_charge)
      have ch: "\<exists>a. ents g3 c = Some a \<and> se_task a \<noteq> TDead" if "ch = Some c" for c
        using that typed_queue [OF t3 d, of c] by (auto simp: ch_def first_of_def split: list.splits)
      then have "ents g3 c \<noteq> None" if "ch = Some c" for c using that by auto
      then have t4: "gpu_typed g4" using typed_vd_current [OF t3] by (simp add: g4_def)
      obtain "next" g5 where v: "vs_select_next_compute pol d g4 = Some (next, g5)" "keeps g4 g5"
        "\<And>n. next = Some n \<Longrightarrow> n < GDEV_DEVICE_MAX_COUNT"
        using select [OF t4 d] by auto
      have c: "\<exists>a. ents g5 c = Some a \<and> se_task a \<noteq> TDead" if sel: "ch = Some c" for c
      proof -
        obtain a where "ents g4 c = Some a" "se_task a \<noteq> TDead" using ch [OF sel] by (auto simp: g4_def)
        then show ?thesis using keeps_entity [OF v(2)] by blast
      qed
      have "\<exists>g6. dispatch_compute jiffy d ch (instances_of ch g3) next g5 = Some g6 \<and> gpu_typed g6"
        by (rule dispatch_typed [OF keeps_typed [OF v(2)] d v(3) c j])
      moreover have "gdev_select_next_compute pol jiffy now d g =
          do { (next, g) \<leftarrow> vs_select_next_compute pol d g4; dispatch_compute jiffy d ch (instances_of ch g3) next g }"
        unfolding gdev_select_next_compute_def g1_def [symmetric] Let_def gdev_current_com_get_def Some x(1)
          option.case gobj.case
        by (simp only: x(2) bind.bind_lunit True refl if_True g2_def [symmetric] g3_def [symmetric] ch_def [symmetric]
            g4_def [symmetric])
      ultimately show ?thesis using v(1) by simp
    qed
  qed
qed

end

section \<open>The policies meet the contract\<close>

interpretation null_pol: vsched_policy gdev_vsched_null
  by unfold_locales (auto simp: gdev_vsched_null_def gdev_vsched_null_schedule_compute_def
    gdev_vsched_null_select_next_compute_def policy_keeps_refl)

lemma typed_first_waiting:
  "gpu_typed g \<Longrightarrow> first_waiting_com g p = Some n \<Longrightarrow> n < GDEV_DEVICE_MAX_COUNT"
  using first_waiting_com_Some [of g p n] by (auto simp: gpu_typed_def phys_ok_def)

lemma typed_take_gpu:
  "gpu_typed g \<Longrightarrow> n < GDEV_DEVICE_MAX_COUNT \<Longrightarrow> gpu_typed (upd_phys p (gdev_current_com_set (Some (Vdev n))) g)"
  using typed_phys_current [of g "Some n"] by simp

lemma typed_release_gpu: "gpu_typed g \<Longrightarrow> gpu_typed (upd_phys p (gdev_current_com_set None) g)"
  using typed_phys_current [of g None] by simp

interpretation fifo_pol: vsched_policy gdev_vsched_fifo
proof unfold_locales
  fix g s e tid
  assume t: "gpu_typed g" and e: "ents g s = Some e" "se_task e \<noteq> TDead" "\<not> task_dl g tid"
  then show "\<exists>r g'. vs_schedule_compute gdev_vsched_fifo tid s g = Some (r, g') \<and> keeps g g'"
    using enqueue_typed [OF t e(1,2) refl] typed_entity [OF t e(1)] typed_take_gpu [OF t]
    by (auto simp: gdev_vsched_fifo_def gdev_vsched_fifo_schedule_compute_def Let_def policy_keeps_refl
        intro!: keeps_same split: option.splits)
next
  fix g d
  assume t: "gpu_typed g" and d: "d < GDEV_DEVICE_MAX_COUNT"
  have r: "gpu_typed (upd_phys p (sched_com_list_update (to_tail d)) g)" for p
    using t d by (rule typed_rotate)
  show "\<exists>next g'. vs_select_next_compute gdev_vsched_fifo d g = Some (next, g') \<and> keeps g g' \<and>
        (\<forall>n. next = Some n \<longrightarrow> n < GDEV_DEVICE_MAX_COUNT)"
    using t d typed_phys_current [OF r typed_first_waiting [OF r]] typed_first_waiting [OF r]
    by (auto simp: gdev_vsched_fifo_def gdev_vsched_fifo_select_next_compute_def Let_def policy_keeps_refl
        intro!: keeps_same split: option.splits)
qed

text \<open>The bandwidth policy, whatever others do in its pauses within \<open>rely\<close>.\<close>

lemma keeps_take_gpu:
  "keeps g h \<Longrightarrow> n < GDEV_DEVICE_MAX_COUNT \<Longrightarrow> keeps g (upd_phys p (gdev_current_com_set (Some (Vdev n))) h)"
  using policy_keeps_trans [OF _ keeps_same [OF typed_take_gpu [OF keeps_typed]]] by simp

lemma keeps_release_gpu: "keeps g h \<Longrightarrow> keeps g (upd_phys p (gdev_current_com_set None) h)"
  using policy_keeps_trans [OF _ keeps_same [OF typed_release_gpu [OF keeps_typed]]] by simp

lemma keeps_rotate:
  "keeps g h \<Longrightarrow> d < GDEV_DEVICE_MAX_COUNT \<Longrightarrow> keeps g (upd_phys p (sched_com_list_update (to_tail d)) h)"
  using policy_keeps_trans [OF _ keeps_same [OF typed_rotate [OF keeps_typed]]] by simp

lemma keeps_yield:
  assumes "rely others" "gpu_typed g" "d < GDEV_DEVICE_MAX_COUNT"
  shows "keeps g (band_yield_compute others d p g)"
  using keeps_others [OF assms(1) keeps_release_gpu [OF policy_keeps_refl [OF assms(2)], of p]] assms(2,3)
  by (auto simp: band_yield_compute_def Let_def policy_keeps_refl keeps_take_gpu)

lemma band_schedule_keeps:
  assumes o: "rely others" and t: "gpu_typed g" and e: "ents g s = Some e" "se_task e \<noteq> TDead" "\<not> task_dl g tid"
  shows "\<exists>r g'. vs_schedule_compute (gdev_vsched_band others) tid s g = Some (r, g') \<and> keeps g g'"
proof (cases "parent (gdev_vds g (se_gdev e))")
  case None
  with t e show ?thesis
    by (simp add: gdev_vsched_band_def gdev_vsched_band_schedule_compute_def gdev_phys_get_def ex_bool_eq policy_keeps_refl)
next
  case (Some p)
  define d where "d = se_gdev e"
  have d: "d < GDEV_DEVICE_MAX_COUNT" using typed_entity [OF t e(1)] by (simp add: d_def)
  define y where "y = band_yield_compute others d p g"
  have y: "keeps g y" using keeps_yield [OF o t d] by (simp add: y_def)
  define z where "z = others y"
  have z: "keeps g z" using keeps_others [OF o y] by (simp add: z_def)
  obtain a where a: "ents z s = Some a" "se_gdev a = d" "se_task a \<noteq> TDead"
    using keeps_entity [OF z e(1,2)] by (auto simp: d_def)
  obtain q where q: "gdev_enqueue_compute d s z = Some q" "gpu_typed q"
    using enqueue_typed [OF keeps_typed [OF z] a(1,3)] a(2) by auto
  note fr = enqueue_frame [OF q(1)]
  have dl: "task_dl q = task_dl g" using fr z by (simp add: keeps_def)
  have kq: "keeps g q" using policy_keeps_trans [OF z keeps_same [OF q(2)]] fr by simp
  have "gpu_typed (upd_ent s (se_task_update (\<lambda>_. Task tid)) q)"
    by (rule typed_ent [OF q(2), of s a _ "a\<lparr>se_task := Task tid\<rparr>"]) (use a fr dl e(3) in auto)
  then have "keeps g (upd_ent s (se_task_update (\<lambda>_. Task tid)) q)"
    using kq by (intro keeps_upd_ent) simp_all
  moreover have "vs_schedule_compute (gdev_vsched_band others) tid s g =
    (if current_com (phys_ds y p) \<noteq> None \<and> current_com (phys_ds y p) \<noteq> Some (Vdev d)
     then Some (False, upd_ent s (se_task_update (\<lambda>_. Task tid)) q)
     else Some (True, upd_phys p (gdev_current_com_set (Some (Vdev d))) y))"
    using e Some q(1)
    by (simp add: gdev_vsched_band_def gdev_vsched_band_schedule_compute_def gdev_phys_get_def
        gdev_current_com_get_def Let_def flip: d_def y_def z_def)
  ultimately show ?thesis using keeps_take_gpu [OF y d, of p] by (auto simp: ex_bool_eq)
qed

text \<open>One round of the selection: a device over its budget leaves the GPU free for a while.\<close>

lemma as_vdev_typed:
  "gpu_typed g \<Longrightarrow> current_com (phys_ds g p) = Some x \<Longrightarrow>
     \<exists>n < GDEV_DEVICE_MAX_COUNT. x = Vdev n \<and> as_vdev (Some x) = Some (Some n)"
  by (fastforce simp: gpu_typed_def phys_ok_def as_vdev_def)

lemma band_select_keeps:
  assumes o: "rely others" and t: "gpu_typed g" and d: "d < GDEV_DEVICE_MAX_COUNT"
  shows "\<exists>next g'. band_select_retry 0 others d p g = Some (next, g') \<and> keeps g g' \<and>
    (\<forall>n. next = Some n \<longrightarrow> n < GDEV_DEVICE_MAX_COUNT)"
proof -
  define g1 where "g1 = (if com_exhausted (gdev_vds g d) then upd_phys p (sched_com_list_update (to_tail d)) g else g)"
  have k1: "keeps g g1" using policy_keeps_refl [OF t] keeps_rotate [OF _ d] by (simp add: g1_def)
  have n: "first_waiting_com g1 p = Some n \<Longrightarrow> n < GDEV_DEVICE_MAX_COUNT" for n
    using typed_first_waiting [OF keeps_typed [OF k1]] .
  define g2 where "g2 = upd_phys p (gdev_current_com_set (map_option Vdev (first_waiting_com g1 p))) g1"
  have k2: "keeps g g2"
    using policy_keeps_trans [OF k1 keeps_same [OF typed_phys_current [OF keeps_typed [OF k1] n]]] by (simp add: g2_def)
  define g3 where "g3 = others (upd_phys p (gdev_current_com_set None) g2)"
  have k3: "keeps g g3" using keeps_others [OF o keeps_release_gpu [OF k2]] by (simp add: g3_def)
  show ?thesis
    using k2 n keeps_take_gpu [OF k3] k3 as_vdev_typed [OF keeps_typed [OF k3], of p]
    unfolding band_select_retry.simps Let_def gdev_current_com_get_def g1_def [symmetric] g2_def [symmetric]
      g3_def [symmetric]
    by (fastforce split: option.splits)
qed

lemma band_policy: "rely others \<Longrightarrow> vsched_policy (gdev_vsched_band others)"
proof unfold_locales
  fix g s e tid
  assume "rely others" "gpu_typed g" "ents g s = Some e" "se_task e \<noteq> TDead" "\<not> task_dl g tid"
  then show "\<exists>r g'. vs_schedule_compute (gdev_vsched_band others) tid s g = Some (r, g') \<and> keeps g g'"
    by (rule band_schedule_keeps)
next
  fix g d
  assume o: "rely others" and t: "gpu_typed g" and d: "d < GDEV_DEVICE_MAX_COUNT"
  show "\<exists>next g'. vs_select_next_compute (gdev_vsched_band others) d g = Some (next, g') \<and> keeps g g' \<and>
        (\<forall>n. next = Some n \<longrightarrow> n < GDEV_DEVICE_MAX_COUNT)"
  proof (cases "parent (gdev_vds g d)")
    case None
    with t d show ?thesis
      by (simp add: gdev_vsched_band_def gdev_vsched_band_select_next_compute_def gdev_phys_get_def policy_keeps_refl)
  next
    case (Some p)
    show ?thesis
    proof (cases "current_com (phys_ds g p) \<noteq> None \<and> current_com (phys_ds g p) \<noteq> Some (Vdev d)")
      case True
      with Some t as_vdev_typed [OF t, of p] show ?thesis
        by (auto simp: gdev_vsched_band_def gdev_vsched_band_select_next_compute_def acc_defs Let_def policy_keeps_refl)
    next
      case False
      with Some have "vs_select_next_compute (gdev_vsched_band others) d g = band_select_retry 0 others d p g"
        by (auto simp: gdev_vsched_band_def gdev_vsched_band_select_next_compute_def gdev_phys_get_def
            gdev_current_com_get_def Let_def GDEV_VSCHED_BAND_SELECT_CHANCES_def simp del: band_select_retry.simps)
      with band_select_keeps [OF o t d] show ?thesis by (simp del: band_select_retry.simps)
    qed
  qed
qed

text \<open>The policies as the modules of a kernel that does nothing meanwhile, and one in whose pauses
  another context launches under FIFO.\<close>

interpretation band_pol: vsched_policy "gdev_vsched_band (\<lambda>g. g)"
  by (rule band_policy) (simp add: rely_def policy_keeps_refl)

interpretation band_busy: vsched_policy "gdev_vsched_band (launch_of gdev_vsched_fifo now tid s)" for now tid s
  by (rule band_policy) (rule fifo_pol.rely_launch)

section \<open>What a completion does\<close>

lemma give_up_unchanged:
  assumes "instances_of chosen g = old" "chosen = None \<Longrightarrow> current_com (gdev_vds g d) = None"
  shows "give_up_choice d chosen old g = g"
  using assms by (auto simp: give_up_choice_def gdev_current_com_get_def split: option.splits)

lemma instances_upd [simp]:
  "instances_of c (upd_vd d f g) = instances_of c g" "instances_of c (upd_phys p f g) = instances_of c g"
  by (auto simp: instances_of_def split: option.splits)

text \<open>The state in which the policy is asked for the next device.\<close>

definition completed :: "gdev_time \<Rightarrow> nat \<Rightarrow> nat \<Rightarrow> gdev_sched_entity \<Rightarrow> gpu \<Rightarrow> gpu" where
  "completed now d s e g =
     (let g = upd_vd d (charge_compute (time_sub now (last_tick_com e)))
                (upd_ent s (launch_instances_update (\<lambda>n. n - 1)) (gdev_access_end d g))
      in upd_vd d (gdev_current_com_set (map_option Entity (first_of (sched_com_list (gdev_vds g d))))) g)"

lemma access_end_simps [simp]:
  "ents (gdev_access_end d g) = ents g" "sched_com_list (gdev_vds (gdev_access_end d g) x) = sched_com_list (gdev_vds g x)"
  "parent (gdev_vds (gdev_access_end d g) x) = parent (gdev_vds g x)"
  "current_com (gdev_vds (gdev_access_end d g) x) = current_com (gdev_vds g x)"
  "current_com (phys_ds (gdev_access_end d g) p) = current_com (phys_ds g p)"
  "sched_com_list (phys_ds (gdev_access_end d g) p) = sched_com_list (phys_ds g p)"
  by (auto simp: gdev_access_end_def split: option.splits)

lemma charge_simps [simp]:
  "sched_com_list (charge_compute x dev) = sched_com_list dev" "parent (charge_compute x dev) = parent dev"
  "current_com (charge_compute x dev) = current_com dev"
  by (simp_all add: charge_compute_def)

lemma set_current_simps [simp]:
  "current_com (gdev_current_com_set c dev) = c" "parent (gdev_current_com_set c dev) = parent dev"
  "sched_com_list (gdev_current_com_set c dev) = sched_com_list dev"
  by (simp_all add: gdev_current_com_set_def)

lemma completed_simps:
  "ents (completed now d s e g) = (ents g)(s := map_option (launch_instances_update (\<lambda>n. n - 1)) (ents g s))"
  "sched_com_list (gdev_vds (completed now d s e g) x) = sched_com_list (gdev_vds g x)"
  "parent (gdev_vds (completed now d s e g) x) = parent (gdev_vds g x)"
  "current_com (gdev_vds (completed now d s e g) x) =
     (if x = d then map_option Entity (first_of (sched_com_list (gdev_vds g d))) else current_com (gdev_vds g x))"
  "current_com (phys_ds (completed now d s e g) p) = current_com (phys_ds g p)"
  "sched_com_list (phys_ds (completed now d s e g) p) = sched_com_list (phys_ds g p)"
  by (simp_all add: completed_def Let_def fun_upd_apply)

lemma select_next_eq:
  assumes "current_com (gdev_vds g d) = Some (Entity s)" "ents g s = Some e" "launch_instances e = 1"
  shows "gdev_select_next_compute pol jiffy now d g =
    do { (next, g') \<leftarrow> vs_select_next_compute pol d (completed now d s e g);
         let chosen = first_of (sched_com_list (gdev_vds g d));
         dispatch_compute jiffy d chosen (instances_of chosen (completed now d s e g)) next g' }"
  using assms
  by (simp add: gdev_select_next_compute_def gdev_current_com_get_def completed_def Let_def)

text \<open>The choice made on the device is given up without effect when nothing ran in between.\<close>

lemma dispatch_eq:
  assumes "gdev_vds g' = gdev_vds (completed now d s e g)" "ents g' = ents (completed now d s e g)"
  shows "dispatch_compute jiffy d (first_of (sched_com_list (gdev_vds g d)))
      (instances_of (first_of (sched_com_list (gdev_vds g d))) (completed now d s e g)) (Some n) g' =
    (let g1 = (if n = d then g' else upd_vd d (gdev_current_com_set None) g')
     in case first_of (sched_com_list (gdev_vds g n)) of
          None \<Rightarrow> Some g1
        | Some w \<Rightarrow> do { (woken, g2) \<leftarrow> gdev_sched_wakeup jiffy w (gdev_dequeue_compute w g1); Some g2 })"
proof -
  have "give_up_choice d (first_of (sched_com_list (gdev_vds g d)))
      (instances_of (first_of (sched_com_list (gdev_vds g d))) (completed now d s e g)) g' = g'"
  proof (rule give_up_unchanged)
    show "instances_of (first_of (sched_com_list (gdev_vds g d))) g' =
        instances_of (first_of (sched_com_list (gdev_vds g d))) (completed now d s e g)"
      unfolding instances_of_def assms by (rule refl)
  qed (simp add: assms completed_simps)
  then show ?thesis
    by (simp add: dispatch_compute_def Let_def assms completed_simps cong: option.case_cong)
qed

text \<open>
  Completion under FIFO: the device that finished goes behind the others, the GPU is given
  to the first device with a context waiting, and the first context of that device leaves
  its queue and runs again.
\<close>

lemma completed_frame [simp]:
  "global_lock (completed now d s e g) = global_lock g" "task_state (completed now d s e g) = task_state g"
  "task_dl (completed now d s e g) = task_dl g"
  by (auto simp: completed_def gdev_access_end_def Let_def split: option.splits)

theorem fifo_completion_hands_over:
  assumes t: "gpu_typed g" and p: "parent (gdev_vds g d) = Some p"
    and cur: "current_com (gdev_vds g d) = Some (Entity s)" "ents g s = Some e" "launch_instances e = 1"
    and n: "List.find (\<lambda>n. sched_com_list (gdev_vds g n) \<noteq> []) (to_tail d (sched_com_list (phys_ds g p))) = Some n"
    and w: "sched_com_list (gdev_vds g n) = w # q" "n < GDEV_DEVICE_MAX_COUNT"
    and a: "ents g w = Some a" "se_task a = Task tid" "task_state g tid \<noteq> 0"
  shows "\<exists>g'. gdev_select_next_compute gdev_vsched_fifo (\<lambda>g. g) now d g = Some g' \<and>
    current_com (phys_ds g' p) = Some (Vdev n) \<and>
    sched_com_list (phys_ds g' p) = to_tail d (sched_com_list (phys_ds g p)) \<and>
    sched_com_list (gdev_vds g' n) = q \<and> task_state g' tid = 0"
proof -
  let ?c = "completed now d s e g"
  define h where "h = upd_phys p (gdev_current_com_set (Some (Vdev n))) (upd_phys p (sched_com_list_update (to_tail d)) ?c)"
  have sel: "vs_select_next_compute gdev_vsched_fifo d ?c = Some (Some n, h)"
    using p n
    by (simp add: gdev_vsched_fifo_def gdev_vsched_fifo_select_next_compute_def gdev_phys_get_def
        completed_simps first_waiting_com_def Let_def h_def)
  have hc: "gdev_vds h = gdev_vds ?c" "ents h = ents ?c" by (simp_all add: h_def)
  have fw: "first_of (sched_com_list (gdev_vds g n)) = Some w" by (simp add: first_of_def w)
  define h1 where "h1 = (if n = d then h else upd_vd d (gdev_current_com_set None) h)"
  define h2 where "h2 = gdev_dequeue_compute w h1"
  have run: "gdev_select_next_compute gdev_vsched_fifo (\<lambda>g. g) now d g =
      do { (woken, g2) \<leftarrow> gdev_sched_wakeup (\<lambda>g. g) w h2; Some g2 }"
    using fw by (simp add: select_next_eq [OF cur] sel Let_def dispatch_eq [OF hc] h1_def h2_def)
  have nl: "\<not> global_lock h2" "\<not> task_dl h2 tid" "task_state h2 tid \<noteq> 0"
    using t a typed_entity [OF t a(1)]
    by (auto simp: h2_def h1_def h_def gdev_dequeue_compute_def gpu_typed_def)
  obtain b where b: "ents h2 w = Some b" "se_task b = Task tid"
    using a cur by (cases "n = d"; cases "w = s") (auto simp: h2_def h1_def h_def gdev_dequeue_compute_def completed_simps)
  obtain g' where g': "gdev_sched_wakeup (\<lambda>g. g) w h2 = Some (True, g')" "task_state g' tid = 0"
    using sleeper_is_woken [OF nl(1) b nl(2,3)] by blast
  have fr: "gdev_vds g' = gdev_vds h2" "phys_ds g' = phys_ds h2"
    using wakeup_frame [OF g'(1)] by auto
  have "sched_com_list (gdev_vds h2 n) = q" "current_com (phys_ds h2 p) = Some (Vdev n)"
    "sched_com_list (phys_ds h2 p) = to_tail d (sched_com_list (phys_ds g p))"
    using w by (cases "n = d"; simp add: h2_def h1_def h_def gdev_dequeue_compute_def completed_simps)+
  with g' fr show ?thesis by (simp add: run)
qed


section \<open>Mutual exclusion\<close>

definition launched :: "gpu \<Rightarrow> nat \<Rightarrow> bool" where
  "launched g s \<longleftrightarrow> (\<exists>e. ents g s = Some e \<and> launch_instances e \<ge> 1)"

text \<open>
  A launched context is launched once, is the current one of its device, and its device
  is the current one of the physical device; the current context of a device belongs to it.
\<close>

definition gpu_excl :: "gpu \<Rightarrow> bool" where
  "gpu_excl g \<longleftrightarrow>
     (\<forall>s e. ents g s = Some e \<longrightarrow> 0 \<le> launch_instances e \<and>
        (launch_instances e \<noteq> 0 \<longrightarrow> launch_instances e = 1 \<and>
           current_com (gdev_vds g (se_gdev e)) = Some (Entity s) \<and>
           (\<forall>p. parent (gdev_vds g (se_gdev e)) = Some p \<longrightarrow> current_com (phys_ds g p) = Some (Vdev (se_gdev e))))) \<and>
     (\<forall>d<GDEV_DEVICE_MAX_COUNT. \<forall>s e. current_com (gdev_vds g d) = Some (Entity s) \<longrightarrow> ents g s = Some e \<longrightarrow> se_gdev e = d)"

text \<open>
  The runs of the scheduler under FIFO: passes of contexts that want to launch, contexts
  that go to sleep, and completions of launched contexts, in any order.
\<close>

inductive fifo_run :: "gpu \<Rightarrow> gpu \<Rightarrow> bool" for g0 where
  start: "fifo_run g0 g0"
| launch: "fifo_run g0 g \<Longrightarrow> ents g s = Some e \<Longrightarrow> se_task e \<noteq> TDead \<Longrightarrow> \<not> task_dl g tid \<Longrightarrow>
    schedule_compute_pass gdev_vsched_fifo now tid s g = Some (r, g') \<Longrightarrow> fifo_run g0 g'"
| sleep: "fifo_run g0 g \<Longrightarrow> \<not> task_dl g tid \<Longrightarrow> gdev_sched_sleep tid s g = Some (r, g') \<Longrightarrow> fifo_run g0 g'"
| block: "fifo_run g0 g \<Longrightarrow> fifo_run g0 (block tid g)"
| complete: "fifo_run g0 g \<Longrightarrow> d < GDEV_DEVICE_MAX_COUNT \<Longrightarrow> current_com (gdev_vds g d) = Some (Entity s) \<Longrightarrow>
    launched g s \<Longrightarrow> gdev_select_next_compute gdev_vsched_fifo (\<lambda>g. g) now d g = Some g' \<Longrightarrow> fifo_run g0 g'"

text \<open>Launched contexts of one physical device are the same.\<close>

lemma excl_unique:
  assumes "gpu_excl g" "launched g s" "launched g s'" "ents g s = Some e" "ents g s' = Some e'"
    and "parent (gdev_vds g (se_gdev e)) = Some p" "parent (gdev_vds g (se_gdev e')) = Some p"
  shows "s = s'"
proof -
  have "current_com (phys_ds g p) = Some (Vdev (se_gdev e))" "current_com (phys_ds g p) = Some (Vdev (se_gdev e'))"
    and c: "current_com (gdev_vds g (se_gdev e)) = Some (Entity s)" "current_com (gdev_vds g (se_gdev e')) = Some (Entity s')"
    using assms unfolding gpu_excl_def launched_def by fastforce+
  then show ?thesis by auto
qed

text \<open>Steps that change no entity's device or launches, and no device's current context.\<close>

lemma excl_cong:
  assumes "gpu_excl g" "\<And>s e'. ents g' s = Some e' \<Longrightarrow> \<exists>e. ents g s = Some e \<and> se_gdev e' = se_gdev e \<and>
      launch_instances e' = launch_instances e"
    and "\<And>d. current_com (gdev_vds g' d) = current_com (gdev_vds g d)"
      "\<And>d. parent (gdev_vds g' d) = parent (gdev_vds g d)"
      "\<And>p. current_com (phys_ds g' p) = current_com (phys_ds g p)"
  shows "gpu_excl g'"
  using assms unfolding gpu_excl_def by (smt (verit))

lemma excl_enqueue:
  assumes "gpu_excl g" "gdev_enqueue_compute d s g = Some g'"
  shows "gpu_excl g'"
  using assms(1) by (rule excl_cong) (use assms(2) in \<open>auto simp: gdev_enqueue_compute_def\<close>)

text \<open>A device takes the free GPU, or has it.\<close>

lemma excl_take:
  assumes "gpu_excl g" "parent (gdev_vds g d) = Some p"
    "current_com (phys_ds g p) = None \<or> current_com (phys_ds g p) = Some (Vdev d)"
  shows "gpu_excl (upd_phys p (gdev_current_com_set (Some (Vdev d))) g)"
  using assms unfolding gpu_excl_def by auto

lemma excl_local:
  assumes x: "gpu_excl g" and e: "ents g s = Some e" "se_gdev e < GDEV_DEVICE_MAX_COUNT"
    and run: "local_schedule_compute now s g = Some (r, g')"
    and p: "\<And>p. parent (gdev_vds g (se_gdev e)) = Some p \<Longrightarrow> current_com (phys_ds g p) = Some (Vdev (se_gdev e))"
  shows "gpu_excl g'"
proof (cases "r")
  case False
  then obtain g'' where "gdev_enqueue_compute (se_gdev e) s g = Some g''" "g' = g''"
    using run e by (auto simp: local_schedule_compute_def Let_def split: if_splits)
  then show ?thesis using excl_enqueue [OF x] by simp
next
  case True
  have unf: "local_schedule_compute now s g =
     (if (current_com (gdev_vds g (se_gdev e)) \<noteq> None \<and> current_com (gdev_vds g (se_gdev e)) \<noteq> Some (Entity s)) \<or>
         launch_instances e \<ge> 1
      then do { g \<leftarrow> gdev_enqueue_compute (se_gdev e) s g; Some (False, g) }
      else Some (True, upd_vd (se_gdev e) (gdev_current_com_set (Some (Entity s)))
        (upd_ent s (launch_instances_update (\<lambda>n. n + 1))
          (if launch_instances e = 0 then upd_ent s (last_tick_com_update (\<lambda>_. now)) g else g))))"
    using e(1) by (simp add: local_schedule_compute_def gdev_current_com_get_def GDEV_INSTANCES_LIMIT_def Let_def
        del: not_None_eq)
  have c: "current_com (gdev_vds g (se_gdev e)) = None \<or> current_com (gdev_vds g (se_gdev e)) = Some (Entity s)"
    "launch_instances e < 1"
    and g': "g' = upd_vd (se_gdev e) (gdev_current_com_set (Some (Entity s)))
      (upd_ent s (launch_instances_update (\<lambda>n. n + 1))
        (if launch_instances e = 0 then upd_ent s (last_tick_com_update (\<lambda>_. now)) g else g))"
    using run True unfolding unf by (auto split: if_splits)
  have "0 \<le> launch_instances e" using x e(1) unfolding gpu_excl_def by blast
  with c(2) have z: "launch_instances e = 0" by simp
  define e' where "e' = launch_instances_update (\<lambda>n. n + 1) (last_tick_com_update (\<lambda>_. now) e)"
  have e': "ents g' s = Some e'" "se_gdev e' = se_gdev e" "launch_instances e' = 1"
    using z by (simp_all add: g' e(1) e'_def)
  have other: "ents g' s' = ents g s'" if "s' \<noteq> s" for s' using that by (simp add: g')
  have vds: "current_com (gdev_vds g' d) = (if d = se_gdev e then Some (Entity s) else current_com (gdev_vds g d))"
    "parent (gdev_vds g' d) = parent (gdev_vds g d)" for d
    by (simp_all add: g')
  have phys: "phys_ds g' = phys_ds g" by (simp add: g')
  show ?thesis
    unfolding gpu_excl_def
  proof (intro conjI allI impI)
    fix s1 e1 assume s1: "ents g' s1 = Some e1"
    show "0 \<le> launch_instances e1"
      using x s1 e' other unfolding gpu_excl_def by (cases "s1 = s") auto
    assume l: "launch_instances e1 \<noteq> 0"
    show "launch_instances e1 = 1"
      using x s1 e' other l unfolding gpu_excl_def by (cases "s1 = s") auto
    show "current_com (gdev_vds g' (se_gdev e1)) = Some (Entity s1)"
    proof (cases "s1 = s")
      case False
      then have "current_com (gdev_vds g (se_gdev e1)) = Some (Entity s1)"
        using x s1 other l unfolding gpu_excl_def by auto
      with False c(1) show ?thesis by (auto simp: vds)
    qed (use s1 e' vds in auto)
    fix q assume "parent (gdev_vds g' (se_gdev e1)) = Some q"
    then show "current_com (phys_ds g' q) = Some (Vdev (se_gdev e1))"
      using x s1 e' other l p vds phys unfolding gpu_excl_def by (cases "s1 = s") auto
  next
    fix d s1 e1 assume "d < GDEV_DEVICE_MAX_COUNT" "current_com (gdev_vds g' d) = Some (Entity s1)" "ents g' s1 = Some e1"
    then show "se_gdev e1 = d"
      using x e' other vds unfolding gpu_excl_def by (cases "s1 = s") (auto split: if_splits simp: e(1))
  qed
qed


lemma excl_pass:
  assumes x: "gpu_excl g" and t: "gpu_typed g" and e: "ents g s = Some e"
    and run: "schedule_compute_pass gdev_vsched_fifo now tid s g = Some (r, g')"
  shows "gpu_excl g'"
proof -
  have d: "se_gdev e < GDEV_DEVICE_MAX_COUNT" using typed_entity [OF t e] by simp
  show ?thesis
  proof (cases "parent (gdev_vds g (se_gdev e))")
    case None
    then have "local_schedule_compute now s g = Some (r, g')"
      using run e by (simp add: schedule_compute_pass_def gdev_vsched_fifo_def
          gdev_vsched_fifo_schedule_compute_def gdev_phys_get_def)
    then show ?thesis using excl_local [OF x e d] None by simp
  next
    case (Some p)
    show ?thesis
    proof (cases "current_com (phys_ds g p) = None \<or> current_com (phys_ds g p) = Some (Vdev (se_gdev e))")
      case True
      define g1 where "g1 = upd_phys p (gdev_current_com_set (Some (Vdev (se_gdev e)))) g"
      have "local_schedule_compute now s g1 = Some (r, g')"
        using run e Some True by (auto simp: schedule_compute_pass_def gdev_vsched_fifo_def
            gdev_vsched_fifo_schedule_compute_def gdev_phys_get_def gdev_current_com_get_def Let_def g1_def)
      moreover have "gpu_excl g1" unfolding g1_def by (rule excl_take [OF x Some True])
      ultimately show ?thesis using excl_local [of g1 s e] e d Some by (simp add: g1_def)
    next
      case False
      then obtain g1 where "gdev_enqueue_compute (se_gdev e) s g = Some g1" "g' = g1"
        using run e Some by (auto simp: schedule_compute_pass_def gdev_vsched_fifo_def
            gdev_vsched_fifo_schedule_compute_def gdev_phys_get_def gdev_current_com_get_def Let_def)
      then show ?thesis using excl_enqueue [OF x] by simp
    qed
  qed
qed

text \<open>Giving the GPU to the next device when nothing is launched on it.\<close>

lemma excl_idle:
  assumes x: "gpu_excl g"
    and ent: "\<And>s a'. ents g' s = Some a' \<Longrightarrow> \<exists>a. ents g s = Some a \<and> se_gdev a' = se_gdev a \<and>
      (launch_instances a' = launch_instances a \<or> launch_instances a' = 0)"
    and idle: "\<And>s a. ents g' s = Some a \<Longrightarrow> launch_instances a \<noteq> 0 \<Longrightarrow> se_gdev a \<noteq> d \<and>
      (\<forall>p. parent (gdev_vds g d) = Some p \<longrightarrow> parent (gdev_vds g (se_gdev a)) \<noteq> Some p)"
    and vds: "\<And>d'. parent (gdev_vds g' d') = parent (gdev_vds g d')"
      "\<And>d'. d' \<noteq> d \<Longrightarrow> current_com (gdev_vds g' d') = current_com (gdev_vds g d')"
    and phys: "\<And>p. parent (gdev_vds g d) \<noteq> Some p \<Longrightarrow> current_com (phys_ds g' p) = current_com (phys_ds g p)"
    and cur: "\<And>s a. current_com (gdev_vds g' d) = Some (Entity s) \<Longrightarrow> ents g' s = Some a \<Longrightarrow> se_gdev a = d"
  shows "gpu_excl g'"
  unfolding gpu_excl_def
proof (intro conjI allI impI)
  fix s a' assume s: "ents g' s = Some a'"
  then obtain a where a: "ents g s = Some a" "se_gdev a' = se_gdev a"
    "launch_instances a' = launch_instances a \<or> launch_instances a' = 0"
    using ent by blast
  then show "0 \<le> launch_instances a'" using x unfolding gpu_excl_def by auto
  assume l: "launch_instances a' \<noteq> 0"
  with a have la: "launch_instances a' = launch_instances a" by simp
  with l x a show "launch_instances a' = 1" unfolding gpu_excl_def by auto
  note nd = idle [OF s l]
  show "current_com (gdev_vds g' (se_gdev a')) = Some (Entity s)"
    using x a la l nd vds(2) unfolding gpu_excl_def by auto
  fix q assume "parent (gdev_vds g' (se_gdev a')) = Some q"
  then have pq: "parent (gdev_vds g (se_gdev a')) = Some q" by (simp add: vds)
  then have "parent (gdev_vds g d) \<noteq> Some q" using nd by blast
  then show "current_com (phys_ds g' q) = Some (Vdev (se_gdev a'))"
    using x a la l pq phys [of q] unfolding gpu_excl_def by auto
next
  fix d' s a' assume "d' < GDEV_DEVICE_MAX_COUNT" "current_com (gdev_vds g' d') = Some (Entity s)" "ents g' s = Some a'"
  then show "se_gdev a' = d'"
    using x ent [of s a'] vds(2) cur unfolding gpu_excl_def by (cases "d' = d") auto
qed


text \<open>What a completion changes, whatever is selected.\<close>

lemma dispatch_frame:
  assumes h: "gdev_vds h = gdev_vds (completed now d s e g)" "ents h = ents (completed now d s e g)"
    and run: "dispatch_compute (\<lambda>g. g) d (first_of (sched_com_list (gdev_vds g d)))
      (instances_of (first_of (sched_com_list (gdev_vds g d))) (completed now d s e g)) next h = Some g'"
  shows "phys_ds g' = phys_ds h \<and> (\<forall>x. parent (gdev_vds g' x) = parent (gdev_vds g x)) \<and>
    (\<forall>x. x \<noteq> d \<longrightarrow> current_com (gdev_vds g' x) = current_com (gdev_vds g x)) \<and>
    (current_com (gdev_vds g' d) = None \<or>
     current_com (gdev_vds g' d) = map_option Entity (first_of (sched_com_list (gdev_vds g d)))) \<and>
    (\<forall>x a'. ents g' x = Some a' \<longrightarrow> (\<exists>a. ents h x = Some a \<and> se_gdev a' = se_gdev a \<and>
       launch_instances a' = launch_instances a))"
proof (cases "next")
  case None
  with run have "g' = h" by (simp add: dispatch_compute_def)
  then show ?thesis by (simp add: h completed_simps)
next
  case (Some n)
  define g1 where "g1 = (if n = d then h else upd_vd d (gdev_current_com_set None) h)"
  have g1: "phys_ds g1 = phys_ds h" "ents g1 = ents h" "\<And>x. parent (gdev_vds g1 x) = parent (gdev_vds g x)"
    "\<And>x. x \<noteq> d \<Longrightarrow> current_com (gdev_vds g1 x) = current_com (gdev_vds g x)"
    "current_com (gdev_vds g1 d) = None \<or>
     current_com (gdev_vds g1 d) = map_option Entity (first_of (sched_com_list (gdev_vds g d)))"
    by (cases "n = d"; simp add: g1_def h completed_simps)+
  have r: "(case first_of (sched_com_list (gdev_vds g n)) of None \<Rightarrow> Some g1
      | Some w \<Rightarrow> do { (woken, g2) \<leftarrow> gdev_sched_wakeup (\<lambda>g. g) w (gdev_dequeue_compute w g1); Some g2 }) = Some g'"
    using run unfolding Some dispatch_eq [OF h] Let_def g1_def [symmetric] .
  show ?thesis
  proof (cases "first_of (sched_com_list (gdev_vds g n))")
    case None
    then have "g' = g1" using r by simp
    then show ?thesis using g1 by auto
  next
    case (Some w)
    then obtain b where w: "gdev_sched_wakeup (\<lambda>g. g) w (gdev_dequeue_compute w g1) = Some (b, g')"
      using r by auto
    have f: "gdev_vds g' = gdev_vds (gdev_dequeue_compute w g1)" "phys_ds g' = phys_ds (gdev_dequeue_compute w g1)"
      using wakeup_frame [OF w] by auto
    obtain a1 a2 where a: "ents (gdev_dequeue_compute w g1) w = Some a1"
      "ents g' = (ents (gdev_dequeue_compute w g1))(w \<mapsto> a2)" "se_gdev a2 = se_gdev a1"
      "launch_instances a2 = launch_instances a1"
      using wakeup_frame [OF w] by auto
    show ?thesis
      using g1 a(1,3,4) by (auto simp: f a(2) gdev_dequeue_compute_def)
  qed
qed

lemma excl_complete:
  assumes x: "gpu_excl g" and t: "gpu_typed g" and d: "d < GDEV_DEVICE_MAX_COUNT"
    and cur: "current_com (gdev_vds g d) = Some (Entity s)" and l: "launched g s"
    and run: "gdev_select_next_compute gdev_vsched_fifo (\<lambda>g. g) now d g = Some g'"
  shows "gpu_excl g'"
proof -
  obtain e where e: "ents g s = Some e" "launch_instances e = 1" "se_gdev e = d"
    using x l cur d unfolding gpu_excl_def launched_def by fastforce
  let ?c = "completed now d s e g"
  obtain "next" h where sel: "vs_select_next_compute gdev_vsched_fifo d ?c = Some (next, h)"
    and h: "gdev_vds h = gdev_vds ?c" "ents h = ents ?c"
      "\<And>p. parent (gdev_vds g d) \<noteq> Some p \<Longrightarrow> phys_ds h p = phys_ds ?c p"
    by (cases "parent (gdev_vds g d)")
      (auto simp: gdev_vsched_fifo_def gdev_vsched_fifo_select_next_compute_def gdev_phys_get_def completed_simps Let_def)
  have "dispatch_compute (\<lambda>g. g) d (first_of (sched_com_list (gdev_vds g d)))
      (instances_of (first_of (sched_com_list (gdev_vds g d))) ?c) next h = Some g'"
    using run by (simp add: select_next_eq [OF cur e(1,2)] sel Let_def)
  note fr = dispatch_frame [OF h(1,2) this]
  have ent: "\<exists>a. ents g y = Some a \<and> se_gdev a' = se_gdev a \<and>
      launch_instances a' = (if y = s then 0 else launch_instances a)" if y: "ents g' y = Some a'" for y a'
  proof -
    obtain a where "ents h y = Some a" "se_gdev a' = se_gdev a" "launch_instances a' = launch_instances a"
      using fr y by blast
    then show ?thesis using e by (auto simp: h completed_simps split: if_splits)
  qed
  show ?thesis
  proof (rule excl_idle [OF x, of g' d])
    show "\<exists>a. ents g y = Some a \<and> se_gdev a' = se_gdev a \<and>
        (launch_instances a' = launch_instances a \<or> launch_instances a' = 0)" if "ents g' y = Some a'" for y a'
      using ent [OF that] by auto
    show "se_gdev a' \<noteq> d \<and> (\<forall>p. parent (gdev_vds g d) = Some p \<longrightarrow> parent (gdev_vds g (se_gdev a')) \<noteq> Some p)"
      if y: "ents g' y = Some a'" "launch_instances a' \<noteq> 0" for y a'
    proof -
      obtain a where a: "ents g y = Some a" "se_gdev a' = se_gdev a" "y \<noteq> s" "launch_instances a \<noteq> 0"
        using ent [OF y(1)] y(2) by (auto split: if_splits)
      then have la: "launch_instances a = 1" and c: "current_com (gdev_vds g (se_gdev a)) = Some (Entity y)"
        using x unfolding gpu_excl_def by auto
      then have "se_gdev a \<noteq> d" using cur a(3) by auto
      moreover have "launched g y" using a la by (simp add: launched_def)
      ultimately show ?thesis using excl_unique [OF x l _ e(1) a(1)] a e by auto
    qed
    show "current_com (phys_ds g' p) = current_com (phys_ds g p)" if "parent (gdev_vds g d) \<noteq> Some p" for p
      using fr h(3) [OF that] by (simp add: completed_simps)
    show "se_gdev a' = d" if c: "current_com (gdev_vds g' d) = Some (Entity y)" "ents g' y = Some a'" for y a'
    proof -
      have "y \<in> set (sched_com_list (gdev_vds g d))"
        using fr c(1) by (auto simp: first_of_def split: list.splits)
      then show ?thesis using typed_queue [OF t d, of y] ent [OF c(2)] by auto
    qed
  qed (use fr in auto)
qed

lemma sleep_typed:
  assumes t: "gpu_typed g" and nd: "\<not> task_dl g tid" and run: "gdev_sched_sleep tid s g = Some (r, g')"
  shows "gpu_typed g'"
proof -
  obtain e where e: "ents g s = Some e" using run by (auto simp: gdev_sched_sleep_def)
  then have "\<exists>v. v \<noteq> TDead \<and> (\<forall>u. v = Task u \<longrightarrow> u = tid) \<and> g' = spin_unlock (upd_ent s (se_task_update (\<lambda>_. v)) (g\<lparr>global_lock := True\<rparr>))"
    using run by (auto simp: gdev_sched_sleep_def split: if_splits)
  then obtain v where v: "v \<noteq> TDead" "\<And>u. v = Task u \<Longrightarrow> u = tid"
    and g': "g' = spin_unlock (upd_ent s (se_task_update (\<lambda>_. v)) (g\<lparr>global_lock := True\<rparr>))" by auto
  show ?thesis
    by (rule typed_ent [OF t e, where e' = "e\<lparr>se_task := v\<rparr>"]) (use e v nd t in \<open>auto simp: g' gpu_typed_def\<close>)
qed

lemma fifo_run_invariant:
  assumes "fifo_run g0 g" "gpu_typed g0" "gpu_excl g0"
  shows "gpu_typed g \<and> gpu_excl g"
  using assms(1)
proof (induction rule: fifo_run.induct)
  case start
  with assms show ?case by simp
next
  case (launch g s e tid now r g')
  then obtain g'' where "schedule_compute_pass gdev_vsched_fifo now tid s g = Some (r, g'')" "gpu_typed g''"
    using fifo_pol.pass_typed [of g s e tid now] by auto
  with launch show ?case using excl_pass [of g s e now tid r g'] by auto
next
  case (sleep g tid s r g')
  have "gpu_excl g'"
    by (rule excl_cong [of g]) (use sleep in \<open>auto simp: gdev_sched_sleep_def split: if_splits\<close>)
  with sleep show ?case using sleep_typed by blast
next
  case (block g tid)
  have "gpu_excl (block tid g)" by (rule excl_cong [of g]) (use block in \<open>auto simp: block_def\<close>)
  moreover have "gpu_typed (block tid g)"
    using block by (subst gpu_typed_cong [where g = g]) (auto simp: block_def)
  ultimately show ?case by simp
next
  case (complete g d s now g')
  then obtain g'' where "gdev_select_next_compute gdev_vsched_fifo (\<lambda>g. g) now d g = Some g''" "gpu_typed g''"
    using fifo_pol.select_next_typed [of g d "\<lambda>g. g" now] by auto
  with complete show ?case using excl_complete [of g d s now g'] by auto
qed

text \<open>A machine with one physical device, four virtual ones and contexts 10, 11 (device 0), 20 (device 1).\<close>

definition demo_entity :: "nat \<Rightarrow> gdev_sched_entity" where
  "demo_entity d = some_entity\<lparr>se_gdev := d, se_prio := int d * 30\<rparr>"

definition demo :: gpu where
  "demo = gpu_zero\<lparr>
     gdev_vds := \<lambda>d. zero_dev\<lparr>dev_id := int d, parent := Some 0, users := 1\<rparr>,
     phys_ds := \<lambda>_. zero_dev\<lparr>sched_com_list := [3, 2, 1, 0]\<rparr>,
     ents := [10 \<mapsto> demo_entity 0, 11 \<mapsto> demo_entity 0, 20 \<mapsto> demo_entity 1]\<rparr>"

lemma demo_typed: "gpu_typed demo"
  by (auto simp: typed_defs demo_def demo_entity_def some_entity_def gpu_zero_def zero_dev_def
      GDEV_DEVICE_MAX_COUNT_def split: if_splits)

lemma demo_excl: "gpu_excl demo"
  by (auto simp: gpu_excl_def demo_def demo_entity_def some_entity_def gpu_zero_def zero_dev_def split: if_splits)

section \<open>Properties\<close>

text \<open>A machine whose device 0 has the GPU and is over its budget: the bandwidth policy pauses,
  and the context of device 1 launches in the pause.\<close>

definition over_budget :: gpu where
  "over_budget = demo\<lparr>
     gdev_vds := (\<lambda>d. zero_dev\<lparr>dev_id := int d, parent := Some 0, users := 1, com_bw := 25, com_bw_used := 80\<rparr>),
     phys_ds := (\<lambda>_. zero_dev\<lparr>sched_com_list := [3, 2, 1, 0], current_com := Some (Vdev 0)\<rparr>)\<rparr>"

definition busy_band :: gdev_vsched_policy where
  "busy_band = gdev_vsched_band (launch_of gdev_vsched_fifo (gdev_time_us 3) 2 20)"

lemma over_budget_typed: "gpu_typed over_budget"
  by (auto simp: typed_defs over_budget_def demo_def demo_entity_def some_entity_def gpu_zero_def zero_dev_def
      GDEV_DEVICE_MAX_COUNT_def split: if_splits)

lemma over_budget_loses_gpu:
  "map_option (\<lambda>(r, g). (r, current_com (phys_ds g 0), sched_com_list (gdev_vds g 0)))
     (schedule_compute_pass busy_band (gdev_time_us 7) 1 10 over_budget) = Some (False, Some (Vdev 1), [10])"
  by code_simp

text \<open>C14: In a well-typed state the scheduler is type safe under each of the three policies: a
  context that wants to launch and a device whose launch completes run without undefined
  behaviour, and leave a well-typed state. The context must not hold a wake-up it has not
  consumed (its task field is not the marker \<open>TDead\<close>), and its task is not under
  \<open>SCHED_DEADLINE\<close>; a well-typed state has no recorded \<open>SCHED_DEADLINE\<close> task. Others may run
  while the bandwidth policy pauses and during the tick between two attempts to wake a task:
  in the pauses they may do what keeps the state well typed, lets no context vanish or change
  its device, and gives none a wake-up it has not consumed (\<open>rely\<close>; launches of other contexts do
  this), in the tick whatever keeps the state well typed. A pass is not interrupted between the
  policy and the local scheduler.\<close>

theorem compute_scheduler_type_safe:
  assumes "gpu_typed g"
    and "pol \<in> {gdev_vsched_null, gdev_vsched_fifo} \<union> gdev_vsched_band ` {others. rely others}"
    and "\<And>g. gpu_typed g \<Longrightarrow> gpu_typed (jiffy g)"
    and "ents g s = Some e" "se_task e \<noteq> TDead" "\<not> task_dl g tid" "d < GDEV_DEVICE_MAX_COUNT"
  shows "(\<exists>r g'. schedule_compute_pass pol now tid s g = Some (r, g') \<and> gpu_typed g') \<and>
    (\<exists>g'. gdev_select_next_compute pol jiffy now d g = Some g' \<and> gpu_typed g')"
proof -
  have "vsched_policy pol"
    using assms(2) null_pol.vsched_policy_axioms fifo_pol.vsched_policy_axioms band_policy by auto
  then show ?thesis
    using vsched_policy.pass_typed [OF _ assms(1,4-6)] vsched_policy.select_next_typed [OF _ assms(1,7,3)] by auto
qed

theorem compute_scheduler_type_safe_witness:
  "(\<exists>r g'. schedule_compute_pass busy_band (gdev_time_us 7) 1 10 over_budget = Some (r, g') \<and> gpu_typed g') \<and>
    (\<exists>g'. gdev_select_next_compute busy_band (launch_of gdev_vsched_fifo (gdev_time_us 5) 2 20)
       (gdev_time_us 7) 0 over_budget = Some g' \<and> gpu_typed g')"
proof (rule compute_scheduler_type_safe [where e = "demo_entity 0", OF over_budget_typed])
  show "busy_band \<in> {gdev_vsched_null, gdev_vsched_fifo} \<union> gdev_vsched_band ` {others. rely others}"
    unfolding busy_band_def using fifo_pol.rely_launch by blast
  show "gpu_typed (launch_of gdev_vsched_fifo (gdev_time_us 5) 2 20 g)" if "gpu_typed g" for g
    using rely_typed [OF fifo_pol.rely_launch that] .
qed (simp_all add: over_budget_def demo_def demo_entity_def some_entity_def gpu_zero_def GDEV_DEVICE_MAX_COUNT_def)

definition launched_on :: "gpu \<Rightarrow> nat \<Rightarrow> nat set" where
  "launched_on g p = {s. \<exists>e. ents g s = Some e \<and> 1 \<le> launch_instances e \<and> parent (gdev_vds g (se_gdev e)) = Some p}"

text \<open>C15: Mutual exclusion under FIFO: whatever contexts launch, sleep and complete, at most one
  context is launched on a physical device, as long as a pass of \<open>gdev_schedule_compute\<close> is
  not interrupted between the policy and the local scheduler.\<close>

theorem one_launch_per_gpu:
  assumes "fifo_run g0 g" "gpu_typed g0" "gpu_excl g0"
  shows "\<exists>s. launched_on g p \<subseteq> {s}"
proof -
  have x: "gpu_excl g" using fifo_run_invariant [OF assms] by simp
  have "s = s'" if s: "s \<in> launched_on g p" "s' \<in> launched_on g p" for s s'
  proof -
    obtain e e' where "ents g s = Some e" "1 \<le> launch_instances e" "parent (gdev_vds g (se_gdev e)) = Some p"
      "ents g s' = Some e'" "1 \<le> launch_instances e'" "parent (gdev_vds g (se_gdev e')) = Some p"
      using s by (auto simp: launched_on_def)
    then show ?thesis using excl_unique [OF x, of s s' e e' p] by (simp add: launched_def)
  qed
  then show ?thesis by blast
qed

definition demo_run :: gpu where
  "demo_run = snd (the (schedule_compute_pass gdev_vsched_fifo (gdev_time_us 1) 1 10 demo))"

theorem one_launch_per_gpu_witness:
  "\<exists>s. launched_on demo_run 0 \<subseteq> {s}"
proof (rule one_launch_per_gpu)
  obtain r where r: "schedule_compute_pass gdev_vsched_fifo (gdev_time_us 1) 1 10 demo = Some (r, demo_run)"
    using fifo_pol.pass_typed [OF demo_typed, of 10 "demo_entity 0" 1 "gdev_time_us 1"]
    by (auto simp: demo_run_def demo_def demo_entity_def some_entity_def gpu_zero_def)
  show "fifo_run demo demo_run"
    by (rule fifo_run.launch [OF fifo_run.start _ _ _ r, where e = "demo_entity 0"])
      (simp_all add: demo_def demo_entity_def some_entity_def gpu_zero_def)
qed (rule demo_typed demo_excl)+

text \<open>An interleaving of two launches with a completion.\<close>

definition clock :: "u64 \<Rightarrow> gdev_time" where "clock n = gdev_time_stamp n 0"

definition race :: "gpu option" where
  "race =
     do { (r, g) \<leftarrow> schedule_compute_pass gdev_vsched_fifo (clock 1) 1 10 demo;
          (r, g) \<leftarrow> schedule_compute_pass gdev_vsched_fifo (clock 2) 2 20 g;
          (r, g) \<leftarrow> gdev_sched_sleep 2 20 g;
          let g = block 2 g;
          (r, g) \<leftarrow> vs_schedule_compute gdev_vsched_fifo 3 11 g;
          g \<leftarrow> gdev_select_next_compute gdev_vsched_fifo (\<lambda>g. g) (clock 3) 0 g;
          (r, g) \<leftarrow> schedule_compute_pass gdev_vsched_fifo (clock 4) 2 20 g;
          (r, g) \<leftarrow> local_schedule_compute (clock 5) 11 g;
          Some g }"

text \<open>Mutual exclusion fails when a completion comes between the two halves of a pass: context
  11 is admitted by the policy while its device has the GPU, the GPU moves to the device of
  context 20, which launches, and the local scheduler then launches context 11 as well.\<close>

theorem interleaved_pass_launches_two:
  "map_option (\<lambda>g. map (\<lambda>s. map_option launch_instances (ents g s)) [10, 11, 20]) race =
     Some [Some 0, Some 1, Some 1]"
  by code_simp

end
