(* ===== verification/Gpu_Context.thy ===== *)
theory Gpu_Context
  imports Gpu_Typing
begin

text \<open>
  Initialisation of the GPU scheduler (\<open>src/core/gpu_init.c\<close>), GPU contexts and the
  commands of \<open>ioctl()\<close> (\<open>src/core/gpu.c\<close>, \<open>src/core/main.c\<close>). Contexts are named by an
  ID that indexes \<open>sched_entity_ptr\<close>; a bitmap records the IDs in use. Results of the
  kernel's allocators are arguments: the address \<open>kmalloc\<close> returns for a new entity
  (\<open>None\<close> when it fails) and the threads \<open>kthread_create\<close> returns.
\<close>

section \<open>Initialisation\<close>

definition gpu_device_init :: "int \<Rightarrow> gdev_device \<Rightarrow> gdev_device" where
  "gpu_device_init n dev =
     dev\<lparr>dev_id := n, users := 0, accessed := 0, blocked := 0, com_bw := 0, mem_bw := 0,
         period := 0, com_time := 0, mem_time := 0, sched_com_thread := None,
         credit_com_thread := None, current_com := None, current_mem := None, parent := None,
         credit_com := gdev_time_us 0, credit_mem := gdev_time_us 0,
         sched_com_list := [], sched_mem_list := []\<rparr>"

definition gpu_virtual_device_init :: "int \<Rightarrow> u32 \<Rightarrow> nat option \<Rightarrow> gdev_device \<Rightarrow> gdev_device" where
  "gpu_virtual_device_init n weight phys dev =
     (gpu_device_init n dev)\<lparr>period := GDEV_PERIOD_DEFAULT, parent := phys,
        com_bw := weight, mem_bw := weight\<rparr>"

text \<open>
  \<open>gsched_create_scheduler\<close>, given the two threads the kernel created: each is woken and
  recorded; then the device enters the lists of its physical device at the head, and
  its credit is replenished.
\<close>

definition start_thread :: "nat option \<Rightarrow> (nat option \<Rightarrow> gdev_device \<Rightarrow> gdev_device) \<Rightarrow> nat \<Rightarrow> gpu \<Rightarrow> gpu" where
  "start_thread t field d g =
     (case t of None \<Rightarrow> g
      | Some p \<Rightarrow> upd_vd d (field (Some p))
                    (snd (wake_up_task p (g\<lparr>live_threads := insert p (live_threads g)\<rparr>))))"

definition gsched_create_scheduler ::
  "gdev_vsched_policy \<Rightarrow> nat option \<Rightarrow> nat option \<Rightarrow> nat \<Rightarrow> gpu \<Rightarrow> gpu" where
  "gsched_create_scheduler gdev_vsched sched_com credit d g =
     (let g = start_thread sched_com (\<lambda>t. sched_com_thread_update (\<lambda>_. t)) d g;
          g = start_thread credit (\<lambda>t. credit_com_thread_update (\<lambda>_. t)) d g
      in case parent (gdev_vds g d) of
           None \<Rightarrow> g
         | Some p \<Rightarrow>
             let g = upd_phys p (sched_com_list_update (\<lambda>q. d # q)) g;
                 g = gdev_replenish_credit_compute gdev_vsched d g;
                 g = upd_phys p (sched_mem_list_update (\<lambda>q. d # q)) g
             in gdev_replenish_credit_memory gdev_vsched d g)"

text \<open>\<open>kthread_stop\<close> waits until the thread has ended; a null pointer is skipped.\<close>

definition kthread_stop :: "nat option \<Rightarrow> gpu \<Rightarrow> gpu" where
  "kthread_stop t g = (case t of None \<Rightarrow> g | Some p \<Rightarrow> g\<lparr>live_threads := live_threads g - {p}\<rparr>)"

definition gsched_destroy_scheduler :: "nat \<Rightarrow> gpu \<Rightarrow> gpu" where
  "gsched_destroy_scheduler d g =
     (let g = kthread_stop (credit_com_thread (gdev_vds g d)) g;
          g = upd_vd d (credit_com_thread_update (\<lambda>_. None)) g;
          g = kthread_stop (sched_com_thread (gdev_vds g d)) g
      in upd_vd d (sched_com_thread_update (\<lambda>_. None)) g)"

text \<open>
  \<open>gsched_init\<close> after the PCI bus was searched: \<open>count\<close> physical devices were found
  (at most \<open>NR_GPU_CARD_LIMIT\<close>, 1). All virtual devices belong to the first one.
\<close>

definition gsched_init_device ::
  "gdev_vsched_policy \<Rightarrow> (nat \<Rightarrow> nat option \<times> nat option) \<Rightarrow> nat \<Rightarrow> gpu \<Rightarrow> gpu" where
  "gsched_init_device gdev_vsched threads i g =
     gsched_create_scheduler gdev_vsched (fst (threads i)) (snd (threads i)) i
       (upd_vd i (gpu_virtual_device_init (int i) (DEVICE_RESOURCE ! i) (Some 0)) g)"

definition gsched_init ::
  "gdev_vsched_policy \<Rightarrow> (nat \<Rightarrow> nat option \<times> nat option) \<Rightarrow> nat \<Rightarrow> gpu \<Rightarrow> gpu" where
  "gsched_init gdev_vsched threads count g =
     (if count = 0 then g\<lparr>gpu_count := 0\<rparr>
      else
        let g = g\<lparr>gpu_count := count\<rparr>;
            g = fold (\<lambda>i. upd_phys i (gpu_device_init (int i))) [0..<count] g;
            g = fold (gsched_init_device gdev_vsched threads) [0..<GDEV_DEVICE_MAX_COUNT] g
        in g\<lparr>sched_entity_ptr := replicate GDEV_CONTEXT_MAX_COUNT None, cid_bitmap := replicate 100 0\<rparr>)"

definition gsched_exit :: "gpu \<Rightarrow> gpu" where
  "gsched_exit g = fold gsched_destroy_scheduler [0..<GDEV_DEVICE_MAX_COUNT] g"

section \<open>Choosing a virtual device\<close>

definition PICKUP_GPU_MIN :: u32 where [resch_consts]: "PICKUP_GPU_MIN = 1"
definition PICKUP_GPU_ONE :: u32 where [resch_consts]: "PICKUP_GPU_ONE = 0"
definition PICKUP_GPU_SEQ :: u32 where [resch_consts]: "PICKUP_GPU_SEQ = 3"

text \<open>\<open>gdev_vds[i].parent->id == phys_id\<close>: a device without a parent is a null pointer.\<close>

definition on_phys :: "u32 \<Rightarrow> gpu \<Rightarrow> nat \<Rightarrow> bool option" where
  "on_phys phys_id g i =
     do { p \<leftarrow> parent (gdev_vds g i); Some (word_of_int (dev_id (phys_ds g p)) = phys_id) }"

text \<open>The search for the device with the fewest users: the minimum starts at 99.\<close>

fun pick_min :: "u32 \<Rightarrow> gpu \<Rightarrow> nat list \<Rightarrow> int \<Rightarrow> nat \<Rightarrow> nat option" where
  "pick_min phys_id g [] mn vgid = Some vgid"
| "pick_min phys_id g (i # is) mn vgid =
     do { here \<leftarrow> on_phys phys_id g i;
          if here \<and> mn > users (gdev_vds g i)
          then pick_min phys_id g is (users (gdev_vds g i)) i
          else pick_min phys_id g is mn vgid }"

definition pick_seq :: "gpu \<Rightarrow> (nat \<times> gpu) option" where
  "pick_seq g =
     do { guard_c (0 \<le> seq_vgid g \<and> seq_vgid g + 1 < 2 ^ 31);
          Some (nat (seq_vgid g mod int GDEV_DEVICE_MAX_COUNT), g\<lparr>seq_vgid := seq_vgid g + 1\<rparr>) }"

text \<open>
  The case \<open>PICKUP_GPU_ONE\<close> has no \<open>break\<close> of its own: the loop is left after the first
  device and the sequential choice follows, which overwrites the result.
\<close>

definition pick_up_next_gpu :: "u32 \<Rightarrow> u32 \<Rightarrow> gpu \<Rightarrow> (nat \<times> gpu) option" where
  "pick_up_next_gpu phys_id flag g =
     do { guard_c (unat phys_id < GDEV_DEVICE_MAX_COUNT);
          if flag = PICKUP_GPU_MIN then
            do { vgid \<leftarrow> pick_min phys_id g [0..<GDEV_DEVICE_MAX_COUNT] 99 0; Some (vgid, g) }
          else if flag = PICKUP_GPU_ONE then do { _ \<leftarrow> on_phys phys_id g 0; pick_seq g }
          else if flag = PICKUP_GPU_SEQ then pick_seq g
          else Some (0, g) }"

section \<open>Contexts\<close>

text \<open>The handle the library and the module share; its field \<open>task\<close> is not used.\<close>

record rtxGhandle =
  h_dev_id :: u32
  h_vdev_id :: u32
  h_cid :: u32
  h_nvdesc :: "nat option"
  h_sched_flag :: "8 word"
  h_setcid :: u32
  h_sync_flag :: "8 word"

text \<open>A new entity; the address comes from \<open>kmalloc\<close>, whose failure is not checked.\<close>

definition new_entity :: "gpu \<Rightarrow> nat \<Rightarrow> u32 \<Rightarrow> gdev_sched_entity" where
  "new_entity g d cid =
     \<lparr>se_gdev = d, se_task = TNull, ctx = cid, se_prio = dev_id (gdev_vds g d) * 30,
      launch_instances = 0, memcpy_instances = 0,
      last_tick_com = gdev_time_us 0, last_tick_mem = gdev_time_us 0,
      wait_cond = 0, launch_count = 0\<rparr>"

definition gdev_sched_entity_create :: "nat option \<Rightarrow> nat \<Rightarrow> u32 \<Rightarrow> gpu \<Rightarrow> gpu option" where
  "gdev_sched_entity_create mem d cid g =
     do { se \<leftarrow> mem;
          guard_c (unat cid < GDEV_CONTEXT_MAX_COUNT);
          Some (g\<lparr>ents := (ents g)(se \<mapsto> new_entity g d cid),
                  sched_entity_ptr := (sched_entity_ptr g)[unat cid := Some se]\<rparr>) }"

text \<open>\<open>__set_bit\<close> and \<open>__clear_bit\<close> with an unsigned 32-bit bit number.\<close>

definition set_cid_bit :: "u32 \<Rightarrow> gpu \<Rightarrow> gpu option" where
  "set_cid_bit n g =
     do { guard_c (unat n div 64 < length (cid_bitmap g));
          Some (g\<lparr>cid_bitmap := bm_set (unat n) (cid_bitmap g)\<rparr>) }"

definition clear_cid_bit :: "u32 \<Rightarrow> gpu \<Rightarrow> gpu option" where
  "clear_cid_bit n g =
     do { guard_c (unat n div 64 < length (cid_bitmap g));
          Some (g\<lparr>cid_bitmap := bm_clear (unat n) (cid_bitmap g)\<rparr>) }"

text \<open>
  \<open>gsched_ctxcreate\<close>: the result is \<open>None\<close> while the physical device has too many users
  and the caller waits, otherwise the handle. The ID is unsigned, so that the test for a
  full bitmap (\<open>resch_ffz(...) < 0\<close>) is never true.
\<close>

definition gsched_ctxcreate ::
  "nat option \<Rightarrow> rtxGhandle \<Rightarrow> gpu \<Rightarrow> (rtxGhandle option \<times> gpu) option" where
  "gsched_ctxcreate mem h g =
     do { (vgid, g) \<leftarrow> (if h_vdev_id h = 0xBEEF then pick_up_next_gpu (h_dev_id h) PICKUP_GPU_MIN g
                        else Some (unat (h_vdev_id h), g));
          guard_c (vgid < GDEV_DEVICE_MAX_COUNT);
          let phys = parent (gdev_vds g vgid);
          if phys \<noteq> None \<and> users (phys_ds g (the phys)) > int GDEV_CONTEXT_MAX_COUNT
          then Some (None, g)
          else
            do { let g = (case phys of None \<Rightarrow> g
                          | Some p \<Rightarrow> upd_phys p (users_update (\<lambda>n. n + 1)) g);
                 let g = upd_vd vgid (users_update (\<lambda>n. n + 1)) g;
                 g \<leftarrow> spin_lock g;
                 free \<leftarrow> resch_ffz (cid_bitmap g) GPU_CID_MAP_LONG;
                 let cid = (word_of_int free :: u32);
                 if cid < 0 then Some (Some h, g)
                 else
                   do { g \<leftarrow> set_cid_bit cid g;
                        let cid = cid + 1;
                        let g = spin_unlock g;
                        let h = h\<lparr>h_cid := cid, h_setcid := 0\<rparr>;
                        g \<leftarrow> gdev_sched_entity_create mem vgid cid g;
                        Some (Some h, g) } } }"

definition gsched_setcid :: "rtxGhandle \<Rightarrow> gpu \<Rightarrow> (rtxGhandle \<times> gpu) option" where
  "gsched_setcid h g =
     (if h_cid h \<noteq> h_setcid h then
        do { g \<leftarrow> spin_lock g;
             guard_c (unat (h_cid h) < GDEV_CONTEXT_MAX_COUNT \<and> unat (h_setcid h) < GDEV_CONTEXT_MAX_COUNT);
             let ptr = sched_entity_ptr g;
             let ptr = ptr[unat (h_setcid h) := ptr ! unat (h_cid h)];
             let ptr = ptr[unat (h_cid h) := None];
             g \<leftarrow> clear_cid_bit (h_cid h) (g\<lparr>sched_entity_ptr := ptr\<rparr>);
             g \<leftarrow> set_cid_bit (h_setcid h) g;
             Some (h\<lparr>h_cid := h_setcid h\<rparr>, spin_unlock g) }
      else Some (h, g))"

text \<open>The entity of a handle: an ID outside the array or without an entity is undefined.\<close>

definition entity_of :: "rtxGhandle \<Rightarrow> gpu \<Rightarrow> nat option" where
  "entity_of h g =
     do { guard_c (unat (h_cid h) < GDEV_CONTEXT_MAX_COUNT); sched_entity_ptr g ! unat (h_cid h) }"

definition gdev_sched_entity_destroy :: "nat \<Rightarrow> gpu \<Rightarrow> gpu" where
  "gdev_sched_entity_destroy se g = g\<lparr>ents := (ents g)(se := None)\<rparr>"

definition gsched_close :: "rtxGhandle \<Rightarrow> gpu \<Rightarrow> gpu option" where
  "gsched_close h g =
     do { se \<leftarrow> entity_of h g;
          e \<leftarrow> ents g se;
          let d = se_gdev e;
          let phys = parent (gdev_vds g d);
          g \<leftarrow> spin_lock g;
          let g = gdev_sched_entity_destroy se g;
          let g = g\<lparr>sched_entity_ptr := (sched_entity_ptr g)[unat (h_cid h) := None]\<rparr>;
          g \<leftarrow> clear_cid_bit (h_cid h - 1) g;
          let g = spin_unlock g;
          let g = (case phys of None \<Rightarrow> g | Some p \<Rightarrow> upd_phys p (users_update (\<lambda>n. n - 1)) g);
          Some (upd_vd d (users_update (\<lambda>n. n - 1)) g) }"

text \<open>
  \<open>gsched_launch\<close> runs the compute scheduler (see \<open>gdev_schedule_compute\<close>); \<open>gsched_sync\<close> is
  one attempt to wake the scheduler thread of the device the handle names.
\<close>

definition gsched_launch ::
  "gdev_vsched_policy \<Rightarrow> gdev_time \<Rightarrow> nat \<Rightarrow> rtxGhandle \<Rightarrow> gpu \<Rightarrow> (launch_phase \<times> gpu) option" where
  "gsched_launch gdev_vsched now tid h g =
     do { se \<leftarrow> entity_of h g; gdev_schedule_compute gdev_vsched now tid se g }"

definition gsched_sync :: "rtxGhandle \<Rightarrow> gpu \<Rightarrow> (bool \<times> gpu) option" where
  "gsched_sync h g =
     do { guard_c (unat (h_cid h) < GDEV_CONTEXT_MAX_COUNT \<and> unat (h_vdev_id h) < GDEV_DEVICE_MAX_COUNT);
          case sched_com_thread (gdev_vds g (unat (h_vdev_id h))) of
            None \<Rightarrow> Some (True, g)
          | Some t \<Rightarrow> Some (wake_up_task t g) }"

definition gsched_notify :: "rtxGhandle \<Rightarrow> gpu \<Rightarrow> gpu option" where
  "gsched_notify h g =
     do { guard_c (unat (h_cid h) < GDEV_CONTEXT_MAX_COUNT); Some g }"

definition gsched_getdev :: "rtxGhandle \<Rightarrow> nat" where
  "gsched_getdev h = 0"

section \<open>Properties\<close>

text \<open>The search for the least used device.\<close>

lemma pick_min_spec:
  assumes "\<forall>i \<in> set is. on_phys phys_id g i = Some True"
  shows "\<exists>r. pick_min phys_id g is mn v = Some r \<and>
    (if \<exists>i \<in> set is. users (gdev_vds g i) < mn
     then r \<in> set is \<and> users (gdev_vds g r) < mn \<and> (\<forall>i \<in> set is. users (gdev_vds g r) \<le> users (gdev_vds g i))
     else r = v)"
  using assms
proof (induction "is" arbitrary: mn v)
  case (Cons i "is")
  show ?case
  proof (cases "users (gdev_vds g i) < mn")
    case True
    obtain r where "pick_min phys_id g is (users (gdev_vds g i)) i = Some r"
      "if \<exists>j \<in> set is. users (gdev_vds g j) < users (gdev_vds g i)
       then r \<in> set is \<and> users (gdev_vds g r) < users (gdev_vds g i) \<and>
         (\<forall>j \<in> set is. users (gdev_vds g r) \<le> users (gdev_vds g j))
       else r = i"
      using Cons.IH [of "users (gdev_vds g i)" i] Cons.prems by auto
    with True Cons.prems show ?thesis by (auto split: if_splits simp: not_less)
  next
    case False
    obtain r where "pick_min phys_id g is mn v = Some r"
      "if \<exists>j \<in> set is. users (gdev_vds g j) < mn
       then r \<in> set is \<and> users (gdev_vds g r) < mn \<and> (\<forall>j \<in> set is. users (gdev_vds g r) \<le> users (gdev_vds g j))
       else r = v"
      using Cons.IH [of mn v] Cons.prems by auto
    with False Cons.prems show ?thesis by (auto split: if_splits)
  qed
qed simp

text \<open>
  With an unspecified device the context goes to a virtual device of the physical one that
  has the fewest users, when all four belong to it and have fewer than 99 users.
\<close>

theorem least_used_device_chosen:
  assumes "unat phys_id < 4" "\<And>i. i < 4 \<Longrightarrow> on_phys phys_id g i = Some True"
    and "\<And>i. i < 4 \<Longrightarrow> users (gdev_vds g i) < 99"
  shows "\<exists>v<4. pick_up_next_gpu phys_id PICKUP_GPU_MIN g = Some (v, g) \<and>
    (\<forall>i<4. users (gdev_vds g v) \<le> users (gdev_vds g i))"
proof -
  have "\<exists>i \<in> set [0..<4]. users (gdev_vds g i) < 99" using assms(3) [of 0] by force
  then obtain r where "pick_min phys_id g [0..<4] 99 0 = Some r" "r < 4"
    "\<forall>i<4. users (gdev_vds g r) \<le> users (gdev_vds g i)"
    using pick_min_spec [of "[0..<4]" phys_id g 99 0] assms(2) by auto
  with assms(1) show ?thesis by (auto simp: pick_up_next_gpu_def GDEV_DEVICE_MAX_COUNT_def)
qed

text \<open>A context created on an unspecified device cannot be synchronised: the handle keeps
  the number \<open>0xBEEF\<close>, with which \<open>gsched_sync\<close> indexes the array of devices.\<close>

lemma sync_after_automatic_choice:
  assumes "h_vdev_id h = 0xBEEF" "gsched_ctxcreate mem h g = Some (Some h', g')"
  shows "gsched_sync h' g'' = None"
proof -
  have "h_vdev_id h' = 0xBEEF"
    using assms by (auto simp: gsched_ctxcreate_def Let_def split: if_splits prod.splits)
  then show ?thesis by (simp add: gsched_sync_def GDEV_DEVICE_MAX_COUNT_def bind_eq_None_conv)
qed

section \<open>Context IDs\<close>

lemma bm_clear_set:
  assumes "n div 64 < length b" "\<not> bm_bit b n"
  shows "bm_clear n (bm_set n b) = b"
proof -
  let ?w = "b ! (n div 64)"
  have "unset_bit (n mod 64) (set_bit (n mod 64) ?w) = ?w"
    using assms by (intro bit_eqI) (auto simp: bit_unset_bit_iff bit_set_bit_iff bm_bit_def)
  then show ?thesis using assms(1) by (simp add: bm_clear_def bm_set_def)
qed

text \<open>Bit \<open>c\<close> stands for ID \<open>c + 1\<close>; no ID is in use beyond the array of entities.\<close>

definition ctx_ok :: "gpu \<Rightarrow> bool" where
  "ctx_ok g \<longleftrightarrow> length (cid_bitmap g) = 100 \<and> length (sched_entity_ptr g) = 100 \<and>
     (\<forall>c<99. bm_bit (cid_bitmap g) c \<longleftrightarrow> sched_entity_ptr g ! (c + 1) \<noteq> None) \<and>
     (\<forall>c\<ge>99. \<not> bm_bit (cid_bitmap g) c)"

lemma free_id:
  assumes "ctx_ok g"
  shows "\<exists>c\<le>99. resch_ffz (cid_bitmap g) GPU_CID_MAP_LONG = Some (int c) \<and> \<not> bm_bit (cid_bitmap g) c \<and>
    (\<forall>m<c. bm_bit (cid_bitmap g) m)"
proof -
  have len: "GPU_CID_MAP_LONG \<le> length (cid_bitmap g)" using assms by (simp add: ctx_ok_def GPU_CID_MAP_LONG_def)
  obtain r where r: "resch_ffz (cid_bitmap g) GPU_CID_MAP_LONG = Some r"
    "is_first (\<lambda>n. \<not> bm_bit (cid_bitmap g) n) (64 * GPU_CID_MAP_LONG) r"
    using resch_ffz_spec [OF len] by blast
  have n99: "\<not> bm_bit (cid_bitmap g) 99" "99 < 64 * GPU_CID_MAP_LONG"
    using assms by (simp_all add: ctx_ok_def GPU_CID_MAP_LONG_def)
  then obtain c where c: "r = int c" "\<not> bm_bit (cid_bitmap g) c" "\<forall>m<c. bm_bit (cid_bitmap g) m"
    using r(2) by (auto simp: is_first_def)
  moreover have "c \<le> 99" using c(3) n99(1) by (meson not_le)
  ultimately show ?thesis using r by auto
qed

text \<open>The state after the counters of users are raised.\<close>

definition enter :: "nat \<Rightarrow> gpu \<Rightarrow> gpu" where
  "enter d g = upd_vd d (users_update (\<lambda>n. n + 1))
     (case parent (gdev_vds g d) of None \<Rightarrow> g | Some p \<Rightarrow> upd_phys p (users_update (\<lambda>n. n + 1)) g)"

definition room :: "gpu \<Rightarrow> nat \<Rightarrow> bool" where
  "room g d \<longleftrightarrow> (\<forall>p. parent (gdev_vds g d) = Some p \<longrightarrow> users (phys_ds g p) \<le> 100)"

lemma enter_simps [simp]:
  "cid_bitmap (enter d g) = cid_bitmap g" "sched_entity_ptr (enter d g) = sched_entity_ptr g"
  "ents (enter d g) = ents g" "global_lock (enter d g) = global_lock g"
  by (auto simp: enter_def upd_vd_def upd_phys_def split: option.splits)

lemma ctxcreate_eq:
  assumes "ctx_ok g" "\<not> global_lock g" "unat (h_vdev_id h) < 4" "room g (unat (h_vdev_id h))"
    and c: "resch_ffz (cid_bitmap g) GPU_CID_MAP_LONG = Some (int c)" "c \<le> 99"
  shows "gsched_ctxcreate mem h g =
    do { g1 \<leftarrow> gdev_sched_entity_create mem (unat (h_vdev_id h)) (word_of_nat (c + 1))
           (spin_unlock ((enter (unat (h_vdev_id h)) g)\<lparr>global_lock := True, cid_bitmap := bm_set c (cid_bitmap g)\<rparr>));
         Some (Some (h\<lparr>h_cid := word_of_nat (c + 1), h_setcid := 0\<rparr>), g1) }"
proof -
  have nb: "h_vdev_id h \<noteq> 0xBEEF" using assms(3) by auto
  have u: "unat (word_of_int (int c) :: u32) = c"
    using c(2) by (simp add: unat_of_nat take_bit_nat_eq_self)
  have nw: "\<not> (parent (gdev_vds g (unat (h_vdev_id h))) \<noteq> None \<and>
      users (phys_ds g (the (parent (gdev_vds g (unat (h_vdev_id h)))))) > int GDEV_CONTEXT_MAX_COUNT)"
    using assms(4) by (auto simp: room_def GDEV_CONTEXT_MAX_COUNT_def)
  have e: "upd_vd (unat (h_vdev_id h)) (users_update (\<lambda>n. n + 1))
      (case parent (gdev_vds g (unat (h_vdev_id h))) of None \<Rightarrow> g | Some p \<Rightarrow> upd_phys p (users_update (\<lambda>n. n + 1)) g)
    = enter (unat (h_vdev_id h)) g" by (simp add: enter_def)
  have len: "c div 64 < length (cid_bitmap g)" using c(2) assms(1) by (simp add: ctx_ok_def)
  have lock: "spin_lock (enter (unat (h_vdev_id h)) g) = Some ((enter (unat (h_vdev_id h)) g)\<lparr>global_lock := True\<rparr>)"
    using assms(2) by (simp add: spin_lock_def)
  show ?thesis
    unfolding gsched_ctxcreate_def Let_def
    using nb assms(3) c len u
    by (simp add: e nw lock set_cid_bit_def GDEV_DEVICE_MAX_COUNT_def spin_unlock_def add.commute del: not_None_eq)
qed


lemma u32_cid: "c \<le> 99 \<Longrightarrow> unat (word_of_nat (c + 1) :: u32) = c + 1"
  by (simp add: unat_of_nat take_bit_nat_eq_self del: of_nat_Suc)

text \<open>The state a successful creation leaves.\<close>

lemma ctxcreate_state:
  assumes "ctx_ok g" "\<not> global_lock g" "unat (h_vdev_id h) < 4" "room g (unat (h_vdev_id h))"
    and c: "resch_ffz (cid_bitmap g) GPU_CID_MAP_LONG = Some (int c)" "c < 99"
  shows "gsched_ctxcreate (Some a) h g = Some (Some (h\<lparr>h_cid := word_of_nat (c + 1), h_setcid := 0\<rparr>),
    (enter (unat (h_vdev_id h)) g)\<lparr>global_lock := False, cid_bitmap := bm_set c (cid_bitmap g),
      ents := (ents g)(a \<mapsto> new_entity g (unat (h_vdev_id h)) (word_of_nat (c + 1))),
      sched_entity_ptr := (sched_entity_ptr g)[c + 1 := Some a]\<rparr>)"
proof -
  let ?g = "spin_unlock ((enter (unat (h_vdev_id h)) g)\<lparr>global_lock := True, cid_bitmap := bm_set c (cid_bitmap g)\<rparr>)"
  have n: "new_entity ?g d k = new_entity g d k" for d k
    by (auto simp: new_entity_def enter_def split: option.splits)
  have u: "unat (word_of_nat (c + 1) :: u32) = c + 1" using c(2) by (intro u32_cid) simp
  have "gdev_sched_entity_create (Some a) (unat (h_vdev_id h)) (word_of_nat (c + 1)) ?g =
    Some (?g\<lparr>ents := (ents ?g)(a \<mapsto> new_entity g (unat (h_vdev_id h)) (word_of_nat (c + 1))),
      sched_entity_ptr := (sched_entity_ptr ?g)[c + 1 := Some a]\<rparr>)"
    using c(2) unfolding gdev_sched_entity_create_def n u
    by (simp add: GDEV_CONTEXT_MAX_COUNT_def del: of_nat_Suc of_nat_add)
  moreover have "c \<le> 99" using c(2) by simp
  ultimately show ?thesis
    using ctxcreate_eq [OF assms(1-4) c(1), of "Some a"] by (simp add: spin_unlock_def del: of_nat_Suc of_nat_add)
qed

text \<open>C20: Creation allocates the least free ID and keeps IDs, bitmap and entities in agreement.\<close>

theorem ctxcreate_allocates_least_id:
  assumes "ctx_ok g" "\<not> global_lock g" "unat (h_vdev_id h) < 4" "room g (unat (h_vdev_id h))"
    and "c < 99" "\<not> bm_bit (cid_bitmap g) c"
  shows "\<exists>k h' g'. k \<le> c \<and> gsched_ctxcreate (Some a) h g = Some (Some h', g') \<and> ctx_ok g' \<and>
    unat (h_cid h') = k + 1 \<and> sched_entity_ptr g ! (k + 1) = None \<and>
    entity_of h' g' = Some a \<and> ents g' a = Some (new_entity g (unat (h_vdev_id h)) (h_cid h')) \<and>
    (\<forall>i. i \<noteq> k + 1 \<longrightarrow> sched_entity_ptr g' ! i = sched_entity_ptr g ! i)"
proof -
  obtain k where k: "resch_ffz (cid_bitmap g) GPU_CID_MAP_LONG = Some (int k)" "\<not> bm_bit (cid_bitmap g) k"
    "\<forall>m<k. bm_bit (cid_bitmap g) m"
    using free_id [OF assms(1)] by blast
  have kc: "k \<le> c" using k(3) assms(6) by (meson not_le)
  with assms(5) have k99: "k < 99" by simp
  have len: "length (sched_entity_ptr g) = 100" "length (cid_bitmap g) = 100"
    and bits: "\<And>c. c < 99 \<Longrightarrow> bm_bit (cid_bitmap g) c \<longleftrightarrow> sched_entity_ptr g ! (c + 1) \<noteq> None"
      "\<And>c. 99 \<le> c \<Longrightarrow> \<not> bm_bit (cid_bitmap g) c"
    using assms(1) by (auto simp: ctx_ok_def)
  define g' where "g' = (enter (unat (h_vdev_id h)) g)\<lparr>global_lock := False, cid_bitmap := bm_set k (cid_bitmap g),
      ents := (ents g)(a \<mapsto> new_entity g (unat (h_vdev_id h)) (word_of_nat (k + 1))),
      sched_entity_ptr := (sched_entity_ptr g)[k + 1 := Some a]\<rparr>"
  define h' where "h' = h\<lparr>h_cid := word_of_nat (k + 1), h_setcid := 0\<rparr>"
  have run: "gsched_ctxcreate (Some a) h g = Some (Some h', g')"
    unfolding h'_def g'_def by (rule ctxcreate_state [OF assms(1-4) k(1) k99])
  have u: "unat (h_cid h') = k + 1" using u32_cid [of k] k99 by (simp add: h'_def del: of_nat_Suc of_nat_add)
  have "k div 64 < length (cid_bitmap g)" using k99 len by simp
  then have "ctx_ok g'"
    using k99 len bits by (auto simp: ctx_ok_def g'_def bm_bit_set nth_list_update)
  moreover have "entity_of h' g' = Some a"
    using k99 len by (simp add: entity_of_def u GDEV_CONTEXT_MAX_COUNT_def) (simp add: g'_def)
  moreover have "sched_entity_ptr g ! (k + 1) = None" using bits(1) [OF k99] k(2) by simp
  moreover have "ents g' a = Some (new_entity g (unat (h_vdev_id h)) (h_cid h'))" by (simp add: g'_def h'_def)
  moreover have "\<forall>i. i \<noteq> k + 1 \<longrightarrow> sched_entity_ptr g' ! i = sched_entity_ptr g ! i"
    by (simp add: g'_def nth_list_update)
  ultimately show ?thesis using kc run u by blast
qed

text \<open>The 100th context passes the test for too many users and is written behind the array.\<close>

theorem hundredth_context_overflows:
  assumes "ctx_ok g" "\<not> global_lock g" "unat (h_vdev_id h) < 4" "room g (unat (h_vdev_id h))"
    and "\<And>c. c < 99 \<Longrightarrow> bm_bit (cid_bitmap g) c"
  shows "gsched_ctxcreate mem h g = None"
proof -
  obtain k where k: "k \<le> 99" "resch_ffz (cid_bitmap g) GPU_CID_MAP_LONG = Some (int k)" "\<not> bm_bit (cid_bitmap g) k"
    using free_id [OF assms(1)] by blast
  then have "k = 99" using assms(5) by (metis order_le_less)
  with ctxcreate_eq [OF assms(1-4) k(2,1), of mem] show ?thesis
    by (simp add: gdev_sched_entity_create_def GDEV_CONTEXT_MAX_COUNT_def bind_eq_None_conv)
qed

text \<open>Creating a context and closing it restores the state.\<close>

theorem create_close_round_trip:
  assumes "ctx_ok g" "\<not> global_lock g" "unat (h_vdev_id h) < 4" "room g (unat (h_vdev_id h))"
    and "c < 99" "\<not> bm_bit (cid_bitmap g) c" "ents g a = None"
  shows "do { (h', g') \<leftarrow> gsched_ctxcreate (Some a) h g; h' \<leftarrow> h'; gsched_close h' g' } = Some g"
proof -
  obtain k where k: "resch_ffz (cid_bitmap g) GPU_CID_MAP_LONG = Some (int k)" "\<not> bm_bit (cid_bitmap g) k"
    "\<forall>m<k. bm_bit (cid_bitmap g) m"
    using free_id [OF assms(1)] by blast
  have "k \<le> c" using k(3) assms(6) by (meson not_le)
  with assms(5) have k99: "k < 99" by simp
  define d where "d = unat (h_vdev_id h)"
  define g' where "g' = (enter d g)\<lparr>global_lock := False, cid_bitmap := bm_set k (cid_bitmap g),
      ents := (ents g)(a \<mapsto> new_entity g d (word_of_nat (k + 1))),
      sched_entity_ptr := (sched_entity_ptr g)[k + 1 := Some a]\<rparr>"
  define h' where "h' = h\<lparr>h_cid := word_of_nat (k + 1), h_setcid := 0\<rparr>"
  have run: "gsched_ctxcreate (Some a) h g = Some (Some h', g')"
    unfolding h'_def g'_def d_def by (rule ctxcreate_state [OF assms(1-4) k(1) k99])
  have len: "length (sched_entity_ptr g) = 100" "length (cid_bitmap g) = 100"
    and free: "sched_entity_ptr g ! (k + 1) = None"
    using assms(1) k99 k(2) by (auto simp: ctx_ok_def)
  have "(word_of_nat (k + 1) :: u32) - 1 = word_of_nat k" by simp
  then have u: "unat (h_cid h') = k + 1" "unat (h_cid h' - 1) = k"
    using u32_cid [of k] k99
    by (simp_all add: h'_def unat_of_nat take_bit_nat_eq_self del: of_nat_Suc of_nat_add)
  have k100: "k + 1 < 100" "k div 64 < 100" using k99 by simp_all
  have e: "entity_of h' g' = Some a" "ents g' a = Some (new_entity g d (word_of_nat (k + 1)))"
    using k100 len by (simp_all add: entity_of_def u GDEV_CONTEXT_MAX_COUNT_def) (simp_all add: g'_def)
  have restored: "(sched_entity_ptr g)[k + 1 := Some a, k + 1 := None] = sched_entity_ptr g"
    "(ents g)(a := None) = ents g" "bm_clear k (bm_set k (cid_bitmap g)) = cid_bitmap g"
    using free bm_clear_set [OF _ k(2)] k100 len assms(7)
    by (simp_all add: list_update_same_conv fun_upd_idem)
  have p: "parent (gdev_vds g' d) = parent (gdev_vds g d)"
    by (auto simp: g'_def enter_def split: option.splits)
  define g0 where "g0 = (enter d g)\<lparr>ents := ents g, sched_entity_ptr := sched_entity_ptr g,
    cid_bitmap := cid_bitmap g, global_lock := False\<rparr>"
  have "gsched_close h' g' = Some (upd_vd d (users_update (\<lambda>n. n - 1))
    (case parent (gdev_vds g d) of None \<Rightarrow> g0 | Some p \<Rightarrow> upd_phys p (users_update (\<lambda>n. n - 1)) g0))"
    unfolding gsched_close_def e(1) bind.bind_lunit Let_def
    using k100 len restored e(2)
    by (simp add: u p new_entity_def clear_cid_bit_def gdev_sched_entity_destroy_def spin_lock_def spin_unlock_def
        cong: option.case_cong) (simp add: g'_def g0_def cong: option.case_cong)
  also have "\<dots> = Some g"
    using assms(2)
    by (auto simp: g0_def enter_def upd_vd_def upd_phys_def fun_eq_iff intro!: gpu.equality gdev_device.equality split: option.splits)
  finally have "gsched_close h' g' = Some g" .
  then show ?thesis by (simp add: run)
qed


text \<open>
  Closing a context that waits in a queue frees the entity and leaves the entry in the
  queue: the next context that queues on the device reads freed memory.
\<close>

theorem close_leaves_dangling_entry:
  assumes "gsched_close h g = Some g'" "entity_of h g = Some s" "ents g s = Some e" "d = se_gdev e"
    and "s \<in> set (sched_com_list (gdev_vds g d))"
  shows "s \<in> set (sched_com_list (gdev_vds g' d)) \<and> ents g' s = None \<and> gdev_enqueue_compute d s' g' = None"
proof -
  have g': "sched_com_list (gdev_vds g' x) = sched_com_list (gdev_vds g x)" "ents g' = (ents g)(s := None)" for x
    using assms(1-3)
    by (auto simp: gsched_close_def clear_cid_bit_def gdev_sched_entity_destroy_def spin_lock_def spin_unlock_def
        Let_def split: option.splits if_splits)
  then have "\<not> list_all (\<lambda>p. ents g' p \<noteq> None) (sched_com_list (gdev_vds g' d))"
    using assms(5) by (auto simp: list_all_iff)
  then show ?thesis
    using g' assms(5)
    by (simp add: gdev_enqueue_compute_def enqueue_list_def bind_eq_None_conv del: not_None_eq)
qed

text \<open>
  Changing an ID clears the bit of the next ID: creation sets bit \<open>c\<close> for ID \<open>c + 1\<close>,
  \<open>gsched_setcid\<close> clears bit \<open>c\<close> for ID \<open>c\<close>.
\<close>

lemma setcid_frees_next_id:
  assumes "gsched_setcid h g = Some (h', g')" "h_cid h \<noteq> h_setcid h" "unat (h_cid h) = c"
    "unat (h_setcid h) \<noteq> c + 1"
  shows "\<not> bm_bit (cid_bitmap g') c \<and> sched_entity_ptr g' ! (c + 1) = sched_entity_ptr g ! (c + 1)"
proof -
  have ne: "unat (h_setcid h) \<noteq> c" using assms(2,3) by (auto simp: word_unat_eq_iff)
  show ?thesis
    using assms ne
    by (auto simp: gsched_setcid_def clear_cid_bit_def set_cid_bit_def spin_lock_def spin_unlock_def Let_def
        bm_bit_set bm_bit_clear nth_list_update split: if_splits)
qed

section \<open>The initial state\<close>

definition policies :: "gdev_vsched_policy set" where
  "policies = {gdev_vsched_null, gdev_vsched_fifo} \<union> range gdev_vsched_band"

lemma replenish_frame:
  assumes "pol \<in> policies"
  shows "\<exists>f. gdev_replenish_credit_compute pol d g = upd_vd d (credit_com_update f) g"
proof -
  have c: "credit_com_update (\<lambda>c. c) dev = dev" for dev :: gdev_device by (cases dev) simp
  have "g = upd_vd d (credit_com_update (\<lambda>c. c)) g" by (cases g) (simp add: upd_vd_def c)
  moreover have "gdev_vsched_band_replenish_compute d g =
      upd_vd d (credit_com_update (\<lambda>_. replenish (period (gdev_vds g d)) (com_bw (gdev_vds g d)) (credit_com (gdev_vds g d)))) g"
    by (simp add: gdev_vsched_band_replenish_compute_def upd_vd_def)
  ultimately show ?thesis
    using assms
    by (auto simp: policies_def gdev_replenish_credit_compute_def gdev_vsched_null_def gdev_vsched_fifo_def
        gdev_vsched_band_def gdev_vsched_null_replenish_compute_def gdev_vsched_fifo_replenish_compute_def)
qed

text \<open>A virtual device as initialisation leaves it; the devices below \<open>n\<close> are set up.\<close>

definition fresh_vd :: "nat \<Rightarrow> gdev_device \<Rightarrow> bool" where
  "fresh_vd d dev \<longleftrightarrow> dev_id dev = int d \<and> parent dev = Some 0 \<and> users dev = 0 \<and> accessed dev = 0 \<and>
     blocked dev = 0 \<and> com_bw dev = DEVICE_RESOURCE ! d \<and> mem_bw dev = DEVICE_RESOURCE ! d \<and>
     period dev = GDEV_PERIOD_DEFAULT \<and> com_time dev = 0 \<and> mem_time dev = 0 \<and>
     current_com dev = None \<and> current_mem dev = None \<and> sched_com_list dev = [] \<and> sched_mem_list dev = []"

definition set_up :: "nat \<Rightarrow> gpu \<Rightarrow> bool" where
  "set_up n g \<longleftrightarrow> (\<forall>d<n. fresh_vd d (gdev_vds g d)) \<and>
     sched_com_list (phys_ds g 0) = rev [0..<n] \<and> sched_mem_list (phys_ds g 0) = rev [0..<n] \<and>
     (\<forall>p. current_com (phys_ds g p) = None) \<and> users (phys_ds g 0) = 0 \<and> blocked (phys_ds g 0) = 0 \<and>
     (\<forall>p. p \<noteq> 0 \<longrightarrow> sched_com_list (phys_ds g p) = []) \<and> ents g = Map.empty \<and> \<not> global_lock g \<and>
     gpu_count g = 1"

lemma start_thread_simps [simp]:
  "phys_ds (start_thread t f d g) = phys_ds g" "ents (start_thread t f d g) = ents g"
  "global_lock (start_thread t f d g) = global_lock g" "gpu_count (start_thread t f d g) = gpu_count g"
  "x \<noteq> d \<Longrightarrow> gdev_vds (start_thread t f d g) x = gdev_vds g x"
  by (auto simp: start_thread_def wake_up_task_def upd_vd_def split: option.splits)

lemma start_thread_fresh [simp]:
  "fresh_vd n (gdev_vds (start_thread t (\<lambda>t. sched_com_thread_update (\<lambda>_. t)) d g) x) = fresh_vd n (gdev_vds g x)"
  "fresh_vd n (gdev_vds (start_thread t (\<lambda>t. credit_com_thread_update (\<lambda>_. t)) d g) x) = fresh_vd n (gdev_vds g x)"
  by (auto simp: start_thread_def wake_up_task_def fresh_vd_def split: option.splits)

lemma fresh_credit [simp]: "fresh_vd d (credit_com_update f dev) = fresh_vd d dev"
  by (simp add: fresh_vd_def)

lemma init_device_sets_up:
  assumes "pol \<in> policies" "set_up n g"
  shows "set_up (Suc n) (gsched_init_device pol threads n g)"
proof -
  define g1 where "g1 = upd_vd n (gpu_virtual_device_init (int n) (DEVICE_RESOURCE ! n) (Some 0)) g"
  define g2 where "g2 = start_thread (fst (threads n)) (\<lambda>t. sched_com_thread_update (\<lambda>_. t)) n g1"
  define g3 where "g3 = start_thread (snd (threads n)) (\<lambda>t. credit_com_thread_update (\<lambda>_. t)) n g2"
  have "fresh_vd n (gdev_vds g1 n)"
    by (simp add: g1_def gpu_virtual_device_init_def gpu_device_init_def fresh_vd_def)
  then have fr: "fresh_vd n (gdev_vds g3 n)" by (simp add: g3_def g2_def)
  then have p: "parent (gdev_vds g3 n) = Some 0" by (simp add: fresh_vd_def)
  obtain f where f: "gdev_replenish_credit_compute pol n (upd_phys 0 (sched_com_list_update (\<lambda>q. n # q)) g3) =
      upd_vd n (credit_com_update f) (upd_phys 0 (sched_com_list_update (\<lambda>q. n # q)) g3)"
    using replenish_frame [OF assms(1)] by blast
  have "gsched_init_device pol threads n g = upd_phys 0 (sched_mem_list_update (\<lambda>q. n # q))
      (upd_vd n (credit_com_update f) (upd_phys 0 (sched_com_list_update (\<lambda>q. n # q)) g3))"
    unfolding gsched_init_device_def gsched_create_scheduler_def Let_def g1_def [symmetric] g2_def [symmetric]
      g3_def [symmetric] p option.case f gdev_replenish_credit_memory_def by (rule refl)
  moreover have "d \<noteq> n \<Longrightarrow> gdev_vds g3 d = gdev_vds g d" for d by (simp add: g3_def g2_def g1_def)
  moreover have "phys_ds g3 = phys_ds g" "ents g3 = ents g" "global_lock g3 = global_lock g"
    "gpu_count g3 = gpu_count g" by (simp_all add: g3_def g2_def g1_def)
  ultimately show ?thesis using assms(2) fr by (auto simp: set_up_def less_Suc_eq)
qed

lemma fold_sets_up:
  assumes "pol \<in> policies" "set_up 0 g"
  shows "set_up n (fold (gsched_init_device pol threads) [0..<n] g)"
  using assms(2) by (induction n) (auto intro: init_device_sets_up [OF assms(1)])

text \<open>The threads recorded in the devices below \<open>n\<close>: the only ones initialisation starts, and those the exit stops.\<close>

definition recorded :: "nat \<Rightarrow> gpu \<Rightarrow> nat set" where
  "recorded n g = (\<Union>d<n. set_option (sched_com_thread (gdev_vds g d)) \<union> set_option (credit_com_thread (gdev_vds g d)))"

lemma start_thread_records:
  "live_threads (start_thread t f d g) = live_threads g \<union> set_option t"
  "sched_com_thread (gdev_vds (start_thread t (\<lambda>t. sched_com_thread_update (\<lambda>_. t)) d g) d) =
     (case t of None \<Rightarrow> sched_com_thread (gdev_vds g d) | Some p \<Rightarrow> Some p)"
  "credit_com_thread (gdev_vds (start_thread t (\<lambda>t. sched_com_thread_update (\<lambda>_. t)) d g) d) =
     credit_com_thread (gdev_vds g d)"
  "sched_com_thread (gdev_vds (start_thread t (\<lambda>t. credit_com_thread_update (\<lambda>_. t)) d g) d) =
     sched_com_thread (gdev_vds g d)"
  "credit_com_thread (gdev_vds (start_thread t (\<lambda>t. credit_com_thread_update (\<lambda>_. t)) d g) d) =
     (case t of None \<Rightarrow> credit_com_thread (gdev_vds g d) | Some p \<Rightarrow> Some p)"
  by (auto simp: start_thread_def wake_up_task_def split: option.splits)

lemma init_device_records:
  assumes "pol \<in> policies" "live_threads g \<subseteq> L \<union> recorded n g"
  shows "live_threads (gsched_init_device pol threads n g) \<subseteq> L \<union> recorded (Suc n) (gsched_init_device pol threads n g)"
proof -
  define g1 where "g1 = upd_vd n (gpu_virtual_device_init (int n) (DEVICE_RESOURCE ! n) (Some 0)) g"
  define g2 where "g2 = start_thread (fst (threads n)) (\<lambda>t. sched_com_thread_update (\<lambda>_. t)) n g1"
  define g3 where "g3 = start_thread (snd (threads n)) (\<lambda>t. credit_com_thread_update (\<lambda>_. t)) n g2"
  have z: "sched_com_thread (gdev_vds g1 n) = None" "credit_com_thread (gdev_vds g1 n) = None"
    "parent (gdev_vds g1 n) = Some 0"
    by (simp_all add: g1_def gpu_virtual_device_init_def gpu_device_init_def)
  have "fresh_vd n (gdev_vds g1 n)"
    by (simp add: g1_def gpu_virtual_device_init_def gpu_device_init_def fresh_vd_def)
  then have "fresh_vd n (gdev_vds g3 n)" by (simp add: g3_def g2_def)
  then have p: "parent (gdev_vds g3 n) = Some 0" by (simp add: fresh_vd_def)
  obtain f where f: "gdev_replenish_credit_compute pol n (upd_phys 0 (sched_com_list_update (\<lambda>q. n # q)) g3) =
      upd_vd n (credit_com_update f) (upd_phys 0 (sched_com_list_update (\<lambda>q. n # q)) g3)"
    using replenish_frame [OF assms(1)] by blast
  have e: "gsched_init_device pol threads n g = upd_phys 0 (sched_mem_list_update (\<lambda>q. n # q))
      (upd_vd n (credit_com_update f) (upd_phys 0 (sched_com_list_update (\<lambda>q. n # q)) g3))"
    unfolding gsched_init_device_def gsched_create_scheduler_def Let_def g1_def [symmetric] g2_def [symmetric]
      g3_def [symmetric] p option.case f gdev_replenish_credit_memory_def by (rule refl)
  have live: "live_threads g3 = live_threads g \<union> set_option (fst (threads n)) \<union> set_option (snd (threads n))"
    by (simp add: g3_def g2_def g1_def start_thread_records)
  have own: "sched_com_thread (gdev_vds g3 n) = fst (threads n)" "credit_com_thread (gdev_vds g3 n) = snd (threads n)"
    by (simp_all add: g3_def g2_def start_thread_records z split: option.split)
  have "gdev_vds g3 d = gdev_vds g d" if "d < n" for d using that by (simp add: g3_def g2_def g1_def)
  then have "recorded (Suc n) g3 = recorded n g \<union> set_option (fst (threads n)) \<union> set_option (snd (threads n))"
    by (auto simp: recorded_def less_Suc_eq own)
  moreover have "recorded (Suc n) (gsched_init_device pol threads n g) = recorded (Suc n) g3"
    by (auto simp: e recorded_def split: if_splits)
  moreover have "live_threads (gsched_init_device pol threads n g) = live_threads g3" by (simp add: e)
  ultimately show ?thesis using assms(2) live by auto
qed

lemma destroy_stops:
  "recorded n (gsched_destroy_scheduler n g) = recorded n g"
  "gdev_vds (gsched_destroy_scheduler n g) d = (if d = n then (gdev_vds g d)\<lparr>credit_com_thread := None, sched_com_thread := None\<rparr>
     else gdev_vds g d)"
  "live_threads (gsched_destroy_scheduler n g) = live_threads g -
     (set_option (sched_com_thread (gdev_vds g n)) \<union> set_option (credit_com_thread (gdev_vds g n)))"
  by (auto simp: gsched_destroy_scheduler_def kthread_stop_def recorded_def Let_def split: option.splits)

lemma fold_destroy:
  "live_threads (fold gsched_destroy_scheduler [0..<n] g) = live_threads g - recorded n g \<and>
   (\<forall>d \<ge> n. gdev_vds (fold gsched_destroy_scheduler [0..<n] g) d = gdev_vds g d)"
proof (induction n)
  case (Suc n)
  then show ?case by (auto simp: destroy_stops recorded_def less_Suc_eq)
qed (simp add: recorded_def)

text \<open>Every thread that initialisation started is stopped by the exit.\<close>

lemma exit_stops_threads:
  assumes "pol \<in> policies"
  shows "live_threads (gsched_exit (gsched_init pol threads 1 g)) \<subseteq> live_threads g"
proof -
  define g0 where "g0 = upd_phys 0 (gpu_device_init 0) (g\<lparr>gpu_count := 1\<rparr>)"
  have f: "live_threads (fold (gsched_init_device pol threads) [0..<n] g0) \<subseteq>
      live_threads g \<union> recorded n (fold (gsched_init_device pol threads) [0..<n] g0)" for n
  proof (induction n)
    case (Suc n)
    from init_device_records [OF assms this, of threads] show ?case by simp
  qed (simp add: g0_def)
  from f [of 4] show ?thesis
    by (auto simp: gsched_exit_def gsched_init_def Let_def g0_def fold_destroy GDEV_DEVICE_MAX_COUNT_def recorded_def)
qed

text \<open>C18: \<open>gsched_init\<close> with one GPU establishes the invariants of the scheduler and of the context
  IDs under each policy, whatever the memory of the devices, the context table and the bitmap
  held before: every virtual device is reset, has its weight, the default period and the one
  physical device as parent, has nothing running and nothing queued; the physical device is
  reset and lists the virtual ones in reverse order; no context ID is taken. Before, no context
  is allocated, the global spinlock is free, and there is no second physical device.\<close>

theorem init_establishes_invariants:
  assumes "pol \<in> policies" "ents g = Map.empty" "\<not> global_lock g" "\<forall>p. p \<noteq> 0 \<longrightarrow> phys_ds g p = zero_dev"
  shows "let g' = gsched_init pol threads 1 g in
    gpu_typed g' \<and> gpu_excl g' \<and> ctx_ok g' \<and> gpu_count g' = 1 \<and>
    (\<forall>d<4. fresh_vd d (gdev_vds g' d)) \<and>
    current_com (phys_ds g' 0) = None \<and> users (phys_ds g' 0) = 0 \<and> blocked (phys_ds g' 0) = 0 \<and>
    sched_com_list (phys_ds g' 0) = [3, 2, 1, 0] \<and> sched_mem_list (phys_ds g' 0) = [3, 2, 1, 0] \<and>
    (\<forall>c<100. sched_entity_ptr g' ! c = None \<and> \<not> bm_bit (cid_bitmap g') c)"
proof -
  define g0 where "g0 = upd_phys 0 (gpu_device_init 0) (g\<lparr>gpu_count := 1\<rparr>)"
  define g1 where "g1 = fold (gsched_init_device pol threads) [0..<GDEV_DEVICE_MAX_COUNT] g0"
  define g' where "g' = g1\<lparr>sched_entity_ptr := replicate 100 None, cid_bitmap := replicate 100 0\<rparr>"
  have i: "gsched_init pol threads 1 g = g'"
    by (simp add: gsched_init_def g'_def g1_def g0_def GDEV_CONTEXT_MAX_COUNT_def Let_def)
  have "set_up 0 g0"
    using assms(2-4) by (simp add: set_up_def g0_def zero_dev_def gpu_device_init_def)
  then have s: "set_up 4 g1"
    using fold_sets_up [OF assms(1), of g0 4 threads] by (simp add: g1_def GDEV_DEVICE_MAX_COUNT_def)
  have l: "rev [0..<4] = [3, 2, 1, 0 :: nat]" by (simp add: upt_rec)
  have "set (sched_com_list (phys_ds g1 p)) \<subseteq> {..<4}" for p
    using s by (cases "p = 0") (auto simp: set_up_def l)
  then have "gpu_typed g1"
    using s by (auto simp: set_up_def fresh_vd_def typed_defs GDEV_DEVICE_MAX_COUNT_def)
  then have "gpu_typed g'" unfolding g'_def by (subst gpu_typed_cong [where g = g1]) auto
  moreover have "gpu_excl g'"
    unfolding g'_def using s by (auto simp: set_up_def fresh_vd_def gpu_excl_def GDEV_DEVICE_MAX_COUNT_def)
  moreover have "ctx_ok g'" unfolding g'_def by (simp add: ctx_ok_def)
  moreover have "\<not> bm_bit (cid_bitmap g') c" for c by (simp add: g'_def bm_bit_replicate_0)
  ultimately show ?thesis
    unfolding i using s by (simp add: g'_def set_up_def l)
qed

text \<open>A module that is loaded again: old devices, contexts and ID bits are in its memory.\<close>

definition stale :: gpu where
  "stale = gpu_zero\<lparr>gdev_vds := \<lambda>_. zero_dev\<lparr>users := 3, current_com := Some (Entity 10), sched_com_list := [10, 11]\<rparr>,
     phys_ds := (\<lambda>p. zero_dev)(0 := zero_dev\<lparr>current_com := Some (Vdev 7), sched_com_list := [5, 6]\<rparr>),
     sched_entity_ptr := replicate 100 (Some 10), cid_bitmap := replicate 100 (- 1)\<rparr>"

theorem init_establishes_invariants_witness:
  "gpu_typed (gsched_init gdev_vsched_fifo (\<lambda>i. (Some (100 + i), Some (200 + i))) 1 stale) \<and>
   ctx_ok (gsched_init gdev_vsched_fifo (\<lambda>i. (Some (100 + i), Some (200 + i))) 1 stale)"
  using init_establishes_invariants [of gdev_vsched_fifo stale "\<lambda>i. (Some (100 + i), Some (200 + i))"]
  by (simp add: policies_def stale_def gpu_zero_def Let_def)


section \<open>Examples\<close>

definition handle0 :: rtxGhandle where
  "handle0 = \<lparr>h_dev_id = 0, h_vdev_id = 2, h_cid = 0, h_nvdesc = None, h_sched_flag = 0, h_setcid = 0, h_sync_flag = 0\<rparr>"

lemma ctx_ok_zero: "ctx_ok gpu_zero" "\<not> global_lock gpu_zero" "room gpu_zero 2" "ents gpu_zero s = None"
  "cid_bitmap gpu_zero = replicate 100 0"
  by (simp_all add: ctx_ok_def gpu_zero_def GDEV_CONTEXT_MAX_COUNT_def room_def zero_dev_def)

theorem ctxcreate_allocates_least_id_witness:
  "\<exists>k h' g'. k \<le> 5 \<and> gsched_ctxcreate (Some 77) handle0 gpu_zero = Some (Some h', g') \<and> ctx_ok g' \<and>
    unat (h_cid h') = k + 1 \<and> sched_entity_ptr gpu_zero ! (k + 1) = None \<and>
    entity_of h' g' = Some 77 \<and> ents g' 77 = Some (new_entity gpu_zero (unat (h_vdev_id handle0)) (h_cid h')) \<and>
    (\<forall>i. i \<noteq> k + 1 \<longrightarrow> sched_entity_ptr g' ! i = sched_entity_ptr gpu_zero ! i)"
  by (rule ctxcreate_allocates_least_id) (simp_all add: handle0_def ctx_ok_zero)

theorem create_close_round_trip_witness:
  "do { (h', g') \<leftarrow> gsched_ctxcreate (Some 77) handle0 gpu_zero; h' \<leftarrow> h'; gsched_close h' g' } = Some gpu_zero"
  by (rule create_close_round_trip [where c = 5]) (simp_all add: handle0_def ctx_ok_zero)

text \<open>99 contexts: the bits of the first 99 IDs are set.\<close>

definition full :: gpu where
  "full = gpu_zero\<lparr>cid_bitmap := [- 1, 0x7FFFFFFFF] @ replicate 98 0,
     sched_entity_ptr := None # replicate 99 (Some 77)\<rparr>"

lemma full_bits: "bm_bit ([- 1, 0x7FFFFFFFF] @ replicate 98 0) c \<longleftrightarrow> c < 99"
proof -
  consider "c div 64 = 0" | "c div 64 = 1" | "2 \<le> c div 64" by linarith
  then show ?thesis
  proof cases
    case 1
    then have "c < 64" by (simp add: div_eq_0_iff)
    with 1 show ?thesis by (simp add: bm_bit_def)
  next
    case 2
    have b: "bit (0x7FFFFFFFF :: u64) n \<longleftrightarrow> n < 35" for n
    proof -
      have m: "(0x7FFFFFFFF :: u64) = mask 35" by (simp add: mask_eq_exp_minus_1)
      show ?thesis unfolding m by (auto simp: bit_mask_iff)
    qed
    have "c = 64 + c mod 64" using 2 by (metis div_mult_mod_eq mult_1)
    then have "c < 99 \<longleftrightarrow> c mod 64 < 35" by linarith
    moreover have w: "([- 1, 0x7FFFFFFFF] @ replicate 98 0) ! (c div 64) = (0x7FFFFFFFF :: u64)"
      unfolding 2 by simp
    ultimately show ?thesis unfolding bm_bit_def w b using 2 by simp
  next
    case 3
    then have "128 \<le> c" by linarith
    with 3 show ?thesis by (auto simp: bm_bit_def nth_append nth_Cons')
  qed
qed

theorem hundredth_context_overflows_witness: "gsched_ctxcreate (Some 78) handle0 full = None"
proof (rule hundredth_context_overflows)
  show "ctx_ok full" by (simp add: ctx_ok_def full_def full_bits [simplified])
qed (simp_all add: handle0_def full_def full_bits [simplified] room_def gpu_zero_def zero_dev_def)

theorem least_used_device_chosen_witness:
  "\<exists>v<4. pick_up_next_gpu 0 PICKUP_GPU_MIN demo = Some (v, demo) \<and>
    (\<forall>i<4. users (gdev_vds demo v) \<le> users (gdev_vds demo i))"
  by (rule least_used_device_chosen) (simp_all add: on_phys_def demo_def zero_dev_def)


text \<open>Context 10 waits on device 0 and has ID 1.\<close>

definition queued10 :: gpu where
  "queued10 = demo\<lparr>gdev_vds := (gdev_vds demo)(0 := (gdev_vds demo 0)\<lparr>sched_com_list := [10]\<rparr>),
     sched_entity_ptr := None # Some 10 # replicate 98 None\<rparr>"

theorem close_leaves_dangling_entry_witness:
  "10 \<in> set (sched_com_list (gdev_vds (the (gsched_close (handle0\<lparr>h_cid := 1\<rparr>) queued10)) 0)) \<and>
   ents (the (gsched_close (handle0\<lparr>h_cid := 1\<rparr>) queued10)) 10 = None \<and>
   gdev_enqueue_compute 0 11 (the (gsched_close (handle0\<lparr>h_cid := 1\<rparr>) queued10)) = None"
proof (rule close_leaves_dangling_entry [where h = "handle0\<lparr>h_cid := 1\<rparr>" and g = queued10 and e = "demo_entity 0"])
  show "gsched_close (handle0\<lparr>h_cid := 1\<rparr>) queued10 = Some (the (gsched_close (handle0\<lparr>h_cid := 1\<rparr>) queued10))"
    by (simp add: gsched_close_def entity_of_def queued10_def demo_def demo_entity_def some_entity_def handle0_def
        GDEV_CONTEXT_MAX_COUNT_def spin_lock_def clear_cid_bit_def gdev_sched_entity_destroy_def gpu_zero_def Let_def)
qed (simp_all add: entity_of_def queued10_def demo_def demo_entity_def some_entity_def handle0_def
      GDEV_CONTEXT_MAX_COUNT_def gpu_zero_def)

end
