(* ===== verification/Gpu_Session.thy ===== *)
theory Gpu_Session
  imports Gpu_Context Lib_Resch "HOL-Library.Multiset"
begin

text \<open>
  The GPU commands of \<open>ioctl()\<close> (\<open>src/core/main.c\<close>) and the user library for the GPU
  (\<open>src/lib/libresch_gpu.c\<close>) on top of them.
\<close>

section \<open>Commands\<close>

definition GDEV_IOCTL_CTX_CREATE :: int where "GDEV_IOCTL_CTX_CREATE = 201"
definition GDEV_IOCTL_LAUNCH :: int where "GDEV_IOCTL_LAUNCH = 202"
definition GDEV_IOCTL_SYNC :: int where "GDEV_IOCTL_SYNC = 203"
definition GDEV_IOCTL_CLOSE :: int where "GDEV_IOCTL_CLOSE = 204"
definition GDEV_IOCTL_NOTIFY :: int where "GDEV_IOCTL_NOTIFY = 205"
definition GDEV_IOCTL_SETCID :: int where "GDEV_IOCTL_SETCID = 206"
definition GDEV_IOCTL_GETDEV :: int where "GDEV_IOCTL_GETDEV = 207"

lemmas gdev_ioctls = GDEV_IOCTL_CTX_CREATE_def GDEV_IOCTL_LAUNCH_def GDEV_IOCTL_SYNC_def
  GDEV_IOCTL_CLOSE_def GDEV_IOCTL_NOTIFY_def GDEV_IOCTL_SETCID_def GDEV_IOCTL_GETDEV_def

text \<open>
  The outcome of a command: a value, no particular value (the functions behind most
  commands end without a \<open>return\<close>), or the caller waits inside the kernel.
\<close>

datatype reply = Value int | NoValue | Waits

text \<open>
  What a command needs from the system: the policy, the clock, the task that runs it, and
  the address \<open>kmalloc\<close> gives.
\<close>

record gpu_env =
  policy_of :: gdev_vsched_policy
  clock_of :: gdev_time
  caller :: nat
  kmem :: "nat option"

definition resch_ioctl_gpu :: "gpu_env \<Rightarrow> int \<Rightarrow> rtxGhandle \<Rightarrow> gpu \<Rightarrow> (reply \<times> rtxGhandle \<times> gpu) option" where
  "resch_ioctl_gpu e cmd h g =
     (if cmd = GDEV_IOCTL_CTX_CREATE then
        do { (r, g) \<leftarrow> gsched_ctxcreate (kmem e) h g;
             Some (case r of None \<Rightarrow> (Waits, h, g) | Some h \<Rightarrow> (Value (sint (h_cid h)), h, g)) }
      else if cmd = GDEV_IOCTL_LAUNCH then
        do { (phase, g) \<leftarrow> gsched_launch (policy_of e) (clock_of e) (caller e) h g;
             Some (if phase = Launched then NoValue else Waits, h, g) }
      else if cmd = GDEV_IOCTL_SYNC then
        do { (woken, g) \<leftarrow> gsched_sync h g; Some (if woken then NoValue else Waits, h, g) }
      else if cmd = GDEV_IOCTL_CLOSE then do { g \<leftarrow> gsched_close h g; Some (NoValue, h, g) }
      else if cmd = GDEV_IOCTL_NOTIFY then do { g \<leftarrow> gsched_notify h g; Some (NoValue, h, g) }
      else if cmd = GDEV_IOCTL_SETCID then do { (h, g) \<leftarrow> gsched_setcid h g; Some (NoValue, h, g) }
      else if cmd = GDEV_IOCTL_GETDEV then Some (Value (int (gsched_getdev h)), h, g)
      else None)"

section \<open>The library\<close>

definition GPU_SCHED_FLAG_OPEN :: "8 word" where [resch_consts]: "GPU_SCHED_FLAG_OPEN = 0x02"
definition GPU_SCHED_FLAG_LAUNCH :: "8 word" where [resch_consts]: "GPU_SCHED_FLAG_LAUNCH = 0x04"
definition GPU_SCHED_FLAG_SYNCH :: "8 word" where [resch_consts]: "GPU_SCHED_FLAG_SYNCH = 0x08"
definition GSYNC_FENCE_SPIN :: "8 word" where [resch_consts]: "GSYNC_FENCE_SPIN = 0x01"
definition GSYNC_FENCE_YIELD :: "8 word" where [resch_consts]: "GSYNC_FENCE_YIELD = 0x02"
definition GSYNC_NOTIFY :: "8 word" where [resch_consts]: "GSYNC_NOTIFY = 0x10"
definition DEFAULT_GSYNC_FLAG :: "8 word" where [resch_consts]: "DEFAULT_GSYNC_FLAG = GSYNC_NOTIFY"
definition EINVAL :: int where "EINVAL = 22"
definition ENODEV :: int where "ENODEV = 19"
definition ENOMEM :: int where "ENOMEM = 12"

text \<open>
  The file descriptor of the module in the library's static data: 0 before the first use,
  a descriptor that is open, or a number that is not an open descriptor (the negative
  result of a failed \<open>open\<close>, or a descriptor that was closed).
\<close>

datatype fd_state = Unused | Opened | Stale

text \<open>
  The process: its descriptor, its handles by address, the variables that point to
  them, and the variable \<open>ghandler\<close> remembers.
\<close>

record glib =
  fd :: fd_state
  handles :: "nat \<Rightarrow> rtxGhandle option"
  vars :: "nat \<Rightarrow> nat option"
  ghandler :: "nat option"

text \<open>
  The machine a library call runs on: whether the module can be opened, the address
  \<open>malloc\<close> gives with what the memory holds, whether the NVIDIA driver's device exists, and the functions of the
  bindings to that driver (\<open>src/lib/nvrm\<close>), which \<open>Nvrm_Session\<close> models.
\<close>

record machine = gpu_env +
  module_opens :: bool
  malloc :: "(nat \<times> rtxGhandle) option"
  nv_opens :: bool
  rtx_nvrm_init :: "rtxGhandle \<Rightarrow> int \<times> rtxGhandle"
  rtx_nvrm_notify :: "rtxGhandle \<Rightarrow> rtxGhandle"
  rtx_nvrm_fence :: "rtxGhandle \<Rightarrow> rtxGhandle"
  rtx_nvrm_fence_poll :: "rtxGhandle \<Rightarrow> int \<times> rtxGhandle"

type_synonym process = "glib \<times> gpu"

text \<open>The handle a variable points to: a pointer to freed memory is undefined.\<close>

definition deref :: "glib \<Rightarrow> nat \<Rightarrow> (nat \<times> rtxGhandle) option" where
  "deref l v = do { a \<leftarrow> vars l v; h \<leftarrow> handles l a; Some (a, h) }"

definition put :: "nat \<Rightarrow> rtxGhandle \<Rightarrow> glib \<Rightarrow> glib" where
  "put a h l = l\<lparr>handles := (handles l)(a \<mapsto> h)\<rparr>"

text \<open>
  \<open>__rtx_gpu_ioctl\<close>: a stale descriptor makes \<open>ioctl\<close> fail with \<open>- 1\<close>; the kernel works on
  the handle itself.
\<close>

definition rtx_gpu_ioctl :: "machine \<Rightarrow> int \<Rightarrow> nat \<Rightarrow> process \<Rightarrow> (reply \<times> process) option" where
  "rtx_gpu_ioctl e cmd a = (\<lambda>(l, g).
     if fd l = Unused \<and> \<not> module_opens e then Some (Value RES_FAULT, l\<lparr>fd := Stale\<rparr>, g)
     else
       let l = (if fd l = Unused then l\<lparr>fd := Opened\<rparr> else l)
       in if fd l = Stale then Some (Value (- 1), l, g)
          else do { h \<leftarrow> handles l a;
                    (r, h, g) \<leftarrow> resch_ioctl_gpu (gpu_env.truncate e) cmd h g;
                    Some (r, put a h l, g) })"

definition Ghandle_init :: "machine \<Rightarrow> nat \<Rightarrow> glib \<Rightarrow> int \<times> glib" where
  "Ghandle_init e v l =
     (case vars l v of
        Some _ \<Rightarrow> (1, l)
      | None \<Rightarrow>
          (case malloc e of
             None \<Rightarrow> (- ENOMEM, l)
           | Some (a, h) \<Rightarrow>
               (1, l\<lparr>vars := (vars l)(v \<mapsto> a), ghandler := Some v, handles := (handles l)(a \<mapsto> h)\<rparr>)))"

definition rtx_gpu_device_advice :: "machine \<Rightarrow> nat \<Rightarrow> process \<Rightarrow> (reply \<times> process) option" where
  "rtx_gpu_device_advice e v = (\<lambda>(l, g).
     case vars l v of None \<Rightarrow> Some (Value (- EINVAL), l, g)
     | Some a \<Rightarrow> rtx_gpu_ioctl e GDEV_IOCTL_GETDEV a (l, g))"

text \<open>A command that was started and waits leaves the call in the kernel.\<close>

definition rtx_gpu_open :: "machine \<Rightarrow> nat \<Rightarrow> u32 \<Rightarrow> u32 \<Rightarrow> process \<Rightarrow> (reply \<times> process) option" where
  "rtx_gpu_open e v dev vdev = (\<lambda>(l, g).
     if \<not> module_opens e then Some (Value (- ENODEV), l\<lparr>fd := Stale\<rparr>, g)
     else
       let (res, l) = Ghandle_init e v (l\<lparr>fd := Opened\<rparr>)
       in if res < 0 then Some (Value (- ENOMEM), l, g)
          else
            do { (a, h) \<leftarrow> deref l v;
                 let h = h\<lparr>h_dev_id := dev, h_vdev_id := vdev, h_sched_flag := GPU_SCHED_FLAG_OPEN,
                           h_nvdesc := None, h_sync_flag := DEFAULT_GSYNC_FLAG\<rparr>;
                 (r, l, g) \<leftarrow> rtx_gpu_ioctl e GDEV_IOCTL_CTX_CREATE a (put a h l, g);
                 case r of
                   Value n \<Rightarrow>
                     if n < 0 then Some (Value (- ENODEV), l, g)
                     else if nv_opens e then
                       do { h \<leftarrow> handles l a;
                            let (ret, h) = rtx_nvrm_init e h;
                            Some (Value ret, put a h l, g) }
                     else Some (Value n, l, g)
                 | _ \<Rightarrow> Some (r, l, g) })"

definition rtx_gpu_launch :: "machine \<Rightarrow> nat \<Rightarrow> process \<Rightarrow> (reply \<times> process) option" where
  "rtx_gpu_launch e v = (\<lambda>(l, g).
     case vars l v of None \<Rightarrow> Some (Value (- EINVAL), l, g)
     | Some a \<Rightarrow>
         do { h \<leftarrow> handles l a;
              if h_sched_flag h AND GPU_SCHED_FLAG_OPEN = 0 then Some (Value (- EINVAL), l, g)
              else
                let h = h\<lparr>h_sched_flag := h_sched_flag h AND NOT GPU_SCHED_FLAG_SYNCH\<rparr>;
                    h = h\<lparr>h_sched_flag := h_sched_flag h OR GPU_SCHED_FLAG_LAUNCH\<rparr>
                in rtx_gpu_ioctl e GDEV_IOCTL_LAUNCH a (put a h l, g) })"

text \<open>The result of an unknown synchronisation flag is an uninitialised variable.\<close>

definition rtx_gpu_notify :: "machine \<Rightarrow> nat \<Rightarrow> process \<Rightarrow> (reply \<times> process) option" where
  "rtx_gpu_notify e v = (\<lambda>(l, g).
     case vars l v of None \<Rightarrow> Some (Value (- EINVAL), l, g)
     | Some a \<Rightarrow>
         do { h \<leftarrow> handles l a;
              if h_nvdesc h = None then rtx_gpu_ioctl e GDEV_IOCTL_NOTIFY a (l, g)
              else if h_sync_flag h = GSYNC_FENCE_SPIN \<or> h_sync_flag h = GSYNC_FENCE_YIELD
              then Some (NoValue, put a (rtx_nvrm_fence e h) l, g)
              else if h_sync_flag h = GSYNC_NOTIFY
              then rtx_gpu_ioctl e GDEV_IOCTL_NOTIFY a (put a (rtx_nvrm_notify e h) l, g)
              else Some (NoValue, l, g) })"

definition rtx_gpu_sync :: "machine \<Rightarrow> nat \<Rightarrow> process \<Rightarrow> (reply \<times> process) option" where
  "rtx_gpu_sync e v = (\<lambda>(l, g).
     case vars l v of None \<Rightarrow> Some (Value (- EINVAL), l, g)
     | Some a \<Rightarrow>
         do { h \<leftarrow> handles l a;
              if h_sched_flag h AND GPU_SCHED_FLAG_LAUNCH = 0 then Some (Value (- EINVAL), l, g)
              else if h_sched_flag h AND GPU_SCHED_FLAG_SYNCH \<noteq> 0 then Some (Value (- EINVAL), l, g)
              else
                let h = h\<lparr>h_sched_flag := h_sched_flag h OR GPU_SCHED_FLAG_SYNCH\<rparr>;
                    h = h\<lparr>h_sched_flag := h_sched_flag h AND NOT GPU_SCHED_FLAG_LAUNCH\<rparr>;
                    l = put a h l
                in if h_nvdesc h = None \<or> h_sync_flag h = GSYNC_NOTIFY
                   then rtx_gpu_ioctl e GDEV_IOCTL_SYNC a (l, g)
                   else if h_sync_flag h = GSYNC_FENCE_SPIN \<or> h_sync_flag h = GSYNC_FENCE_YIELD
                   then
                     let (ret, h) = rtx_nvrm_fence_poll e h
                     in do { (r, l, g) \<leftarrow> rtx_gpu_ioctl e GDEV_IOCTL_SYNC a (put a h l, g);
                             Some (if r = Waits then Waits else Value ret, l, g) }
                   else Some (NoValue, l, g) })"

text \<open>The handle is freed and the descriptor closed; both the variable and \<open>fd\<close> keep their values.\<close>

definition rtx_gpu_close :: "machine \<Rightarrow> nat \<Rightarrow> process \<Rightarrow> (reply \<times> process) option" where
  "rtx_gpu_close e v = (\<lambda>(l, g).
     case vars l v of None \<Rightarrow> Some (Value (- EINVAL), l, g)
     | Some a \<Rightarrow>
         do { h \<leftarrow> handles l a;
              if h_sched_flag h AND GPU_SCHED_FLAG_OPEN = 0 then Some (Value (- EINVAL), l, g)
              else do { (r, l, g) \<leftarrow> rtx_gpu_ioctl e GDEV_IOCTL_CLOSE a (l, g);
                        let l = l\<lparr>handles := (handles l)(a := None)\<rparr>;
                        Some (r, if fd l = Unused then l else l\<lparr>fd := Stale\<rparr>, g) } })"

text \<open>The new ID is ignored: the function answers the ID of the last handle created.\<close>

definition rtx_gpu_setcid :: "nat \<Rightarrow> int \<Rightarrow> process \<Rightarrow> (reply \<times> process) option" where
  "rtx_gpu_setcid v new_cid = (\<lambda>(l, g).
     if fd l = Unused then Some (Value (- ENODEV), l, g)
     else do { gh \<leftarrow> ghandler l;
               case vars l gh of None \<Rightarrow> Some (Value (- ENODEV), l, g)
               | Some a \<Rightarrow> do { h \<leftarrow> handles l a; Some (Value (sint (h_cid h)), l, g) } })"

definition rtx_gpu_init ::
  "'p plugin_struct \<Rightarrow> kenv \<Rightarrow> call_env \<Rightarrow> lib \<Rightarrow> 'p sys \<Rightarrow> (int \<times> lib \<times> 'p sys) option" where
  "rtx_gpu_init pl k e l s = rt_init pl k e l s"

definition rtx_gpu_exit ::
  "'p plugin_struct \<Rightarrow> kenv \<Rightarrow> call_env \<Rightarrow> lib \<Rightarrow> 'p sys \<Rightarrow> (int \<times> 'p sys) option" where
  "rtx_gpu_exit pl k e l s = rt_exit pl k e l s"

section \<open>The guards of the library\<close>

lemma bit_flag:
  "bit GPU_SCHED_FLAG_OPEN n \<longleftrightarrow> n = 1" "bit GPU_SCHED_FLAG_LAUNCH n \<longleftrightarrow> n = 2"
  "bit GPU_SCHED_FLAG_SYNCH n \<longleftrightarrow> n = 3"
proof -
  have f: "GPU_SCHED_FLAG_OPEN = 2 ^ 1" "GPU_SCHED_FLAG_LAUNCH = 2 ^ 2" "GPU_SCHED_FLAG_SYNCH = 2 ^ 3"
    by (simp_all add: resch_consts)
  show "bit GPU_SCHED_FLAG_OPEN n \<longleftrightarrow> n = 1" unfolding f(1) bit_exp_iff by auto
  show "bit GPU_SCHED_FLAG_LAUNCH n \<longleftrightarrow> n = 2" unfolding f(2) bit_exp_iff by auto
  show "bit GPU_SCHED_FLAG_SYNCH n \<longleftrightarrow> n = 3" unfolding f(3) bit_exp_iff by auto
qed

lemma flag_bits:
  fixes f :: "8 word"
  shows "((f OR GPU_SCHED_FLAG_SYNCH) AND NOT GPU_SCHED_FLAG_LAUNCH) AND GPU_SCHED_FLAG_LAUNCH = 0"
    "((f OR GPU_SCHED_FLAG_SYNCH) AND NOT GPU_SCHED_FLAG_LAUNCH) AND GPU_SCHED_FLAG_OPEN = f AND GPU_SCHED_FLAG_OPEN"
    "(f AND NOT GPU_SCHED_FLAG_SYNCH OR GPU_SCHED_FLAG_LAUNCH) AND GPU_SCHED_FLAG_LAUNCH \<noteq> 0"
    "(f AND NOT GPU_SCHED_FLAG_SYNCH OR GPU_SCHED_FLAG_LAUNCH) AND GPU_SCHED_FLAG_SYNCH = 0"
    "(f AND NOT GPU_SCHED_FLAG_SYNCH OR GPU_SCHED_FLAG_LAUNCH) AND GPU_SCHED_FLAG_OPEN = f AND GPU_SCHED_FLAG_OPEN"
proof -
  have "bit ((f AND NOT GPU_SCHED_FLAG_SYNCH OR GPU_SCHED_FLAG_LAUNCH) AND GPU_SCHED_FLAG_LAUNCH) 2"
    by (simp add: bit_and_iff bit_or_iff bit_flag)
  then show "(f AND NOT GPU_SCHED_FLAG_SYNCH OR GPU_SCHED_FLAG_LAUNCH) AND GPU_SCHED_FLAG_LAUNCH \<noteq> 0"
    by (metis bit_0_eq bot_apply bot_bool_def)
qed (rule bit_word_eqI; auto simp: bit_and_iff bit_or_iff bit_not_iff bit_flag)+

lemma ioctl_opened:
  assumes "fd l = Opened" "handles l a = Some h"
  shows "rtx_gpu_ioctl e cmd a (l, g) =
    do { (r, h, g) \<leftarrow> resch_ioctl_gpu (gpu_env.truncate e) cmd h g; Some (r, put a h l, g) }"
  using assms by (simp add: rtx_gpu_ioctl_def)

lemma put_simps [simp]:
  "fd (put a h l) = fd l" "vars (put a h l) = vars l" "handles (put a h l) = (handles l)(a \<mapsto> h)"
  "ghandler (put a h l) = ghandler l" "put a h' (put a h l) = put a h' l"
  by (simp_all add: put_def)

lemma sync_passes:
  assumes "vars l v = Some a" "handles l a = Some h" "fd l = Opened" "h_nvdesc h = None"
    and "h_sched_flag h AND GPU_SCHED_FLAG_LAUNCH \<noteq> 0" "h_sched_flag h AND GPU_SCHED_FLAG_SYNCH = 0"
  defines "h' \<equiv> h\<lparr>h_sched_flag := (h_sched_flag h OR GPU_SCHED_FLAG_SYNCH) AND NOT GPU_SCHED_FLAG_LAUNCH\<rparr>"
  shows "rtx_gpu_sync e v (l, g) =
    do { (woken, g) \<leftarrow> gsched_sync h' g; Some (if woken then NoValue else Waits, put a h' l, g) }"
  using assms
  by (simp add: rtx_gpu_sync_def Let_def ioctl_opened resch_ioctl_gpu_def gdev_ioctls)
     (auto simp: bind_eq_None_conv split: Option.bind_splits)

text \<open>
  a context is synchronised once per launch: after a synchronisation has passed the guards,
  a second one without a launch in between is refused with \<open>- EINVAL\<close> and changes nothing.
\<close>

theorem sync_once_per_launch:
  assumes "vars l v = Some a" "handles l a = Some h" "fd l = Opened" "h_nvdesc h = None"
    and "h_sched_flag h AND GPU_SCHED_FLAG_LAUNCH \<noteq> 0" "h_sched_flag h AND GPU_SCHED_FLAG_SYNCH = 0"
    and "rtx_gpu_sync e v (l, g) = Some (r, l', g')"
  shows "rtx_gpu_sync e v (l', g') = Some (Value (- EINVAL), l', g') \<and> r \<noteq> Value (- EINVAL)"
proof -
  define h' where "h' = h\<lparr>h_sched_flag := (h_sched_flag h OR GPU_SCHED_FLAG_SYNCH) AND NOT GPU_SCHED_FLAG_LAUNCH\<rparr>"
  have "r \<noteq> Value (- EINVAL) \<and> l' = put a h' l"
    using assms(7) sync_passes [OF assms(1-6), of e g]
    by (auto simp: h'_def bind_eq_Some_conv split: if_splits)
  then show ?thesis
    using assms(1) by (simp_all add: rtx_gpu_sync_def h'_def flag_bits)
qed

text \<open>
  closing one handle makes every call on the other handles of the process fail: the shared
  descriptor is closed but its number is kept, so a launch of another open context is
  answered with \<open>- 1\<close> and never reaches the scheduler.
\<close>

theorem close_breaks_other_handles:
  assumes "rtx_gpu_close e v (l, g) = Some (r, l', g')"
    and "vars l v = Some a" "handles l a = Some h" "h_sched_flag h AND GPU_SCHED_FLAG_OPEN \<noteq> 0" "fd l = Opened"
    and "vars l w = Some b" "b \<noteq> a" "handles l b = Some k" "h_sched_flag k AND GPU_SCHED_FLAG_OPEN \<noteq> 0"
  shows "\<exists>l''. rtx_gpu_launch e w (l', g') = Some (Value (- 1), l'', g')"
proof -
  obtain l1 where l1: "rtx_gpu_ioctl e GDEV_IOCTL_CLOSE a (l, g) = Some (r, l1, g')"
    "l' = (if fd l1 = Unused then l1\<lparr>handles := (handles l1)(a := None)\<rparr> else l1\<lparr>handles := (handles l1)(a := None), fd := Stale\<rparr>)"
    using assms(1-4) by (auto simp: rtx_gpu_close_def bind_eq_Some_conv Let_def split: if_splits)
  then obtain h' where "l1 = put a h' l"
    using assms(3,5) by (auto simp: ioctl_opened bind_eq_Some_conv)
  then have "fd l' = Stale" "vars l' w = Some b" "handles l' b = Some k"
    using l1(2) assms(5-8) by auto
  then show ?thesis using assms(9) by (simp add: rtx_gpu_launch_def rtx_gpu_ioctl_def Let_def)
qed

section \<open>A session\<close>

lemmas record_eqs = gpu.equality gdev_device.equality gdev_sched_entity.equality

text \<open>
  The list of devices after a completion on device \<open>d\<close>: a device over its budget goes to the end.
\<close>

definition served :: "gdev_time \<Rightarrow> nat \<Rightarrow> nat \<Rightarrow> gpu \<Rightarrow> nat list" where
  "served exec d p g =
     (if com_exhausted (charge_compute exec (gdev_vds g d)) then to_tail d (sched_com_list (phys_ds g p))
      else sched_com_list (phys_ds g p))"

lemma served_mset:
  "d \<in> set (sched_com_list (phys_ds g p)) \<Longrightarrow> mset (served exec d p g) = mset (sched_com_list (phys_ds g p))"
  by (simp add: served_def to_tail_def)

text \<open>What a launch needs to go through at once, and what it leaves.\<close>

lemma launch_idle:
  assumes e: "ents g s = Some e" "se_gdev e = d" "launch_instances e = 0"
    and p: "parent (gdev_vds g d) = Some p" "current_com (phys_ds g p) = None" "blocked (phys_ds g p) = 0"
    and d: "current_com (gdev_vds g d) = None" "sched_com_thread (gdev_vds g d) = Some t" "task_state g t \<noteq> 0"
  shows "gdev_schedule_compute (gdev_vsched_band others) now tid s g = Some (Launched,
    upd_phys p (\<lambda>dev. dev\<lparr>current_com := Some (Vdev d), accessed := accessed dev + 1\<rparr>)
      (upd_vd d (\<lambda>dev. dev\<lparr>current_com := Some (Entity s)\<rparr>)
        (upd_ent s (\<lambda>e. e\<lparr>last_tick_com := now, launch_instances := 1\<rparr>) g)))"
  using assms
  by (simp add: gdev_schedule_compute_def schedule_compute_pass_def gdev_vsched_band_def
      gdev_vsched_band_schedule_compute_def band_yield_compute_def acc_defs local_schedule_compute_def
      GDEV_INSTANCES_LIMIT_def gdev_access_start_def thread_idle_def Let_def)
    (auto simp: upd_vd_def upd_phys_def upd_ent_def fun_eq_iff gdev_current_com_set_def intro!: record_eqs)

lemma completion_idle:
  assumes e: "ents g s = Some e" "launch_instances e = 1"
    and p: "parent (gdev_vds g d) = Some p" "current_com (phys_ds g p) = Some (Vdev d)"
    and d: "current_com (gdev_vds g d) = Some (Entity s)"
    and q: "\<forall>n. sched_com_list (gdev_vds g n) = []"
  shows "gdev_select_next_compute (gdev_vsched_band others) jiffy now d g = Some
    (upd_phys p (\<lambda>dev. dev\<lparr>current_com := None, accessed := accessed dev - 1,
         sched_com_list := served (time_sub now (last_tick_com e)) d p g\<rparr>)
      (upd_vd d (\<lambda>dev. (charge_compute (time_sub now (last_tick_com e)) dev)\<lparr>current_com := None\<rparr>)
        (upd_ent s (\<lambda>e. e\<lparr>launch_instances := 0\<rparr>) g)))"
proof -
  let ?c = "completed now d s e g"
  have w: "first_waiting_com g' p' = None" if "\<forall>n. sched_com_list (gdev_vds g' n) = []" for g' p'
    using that by (simp add: first_waiting_com_def find_None_iff)
  define rot where "rot = served (time_sub now (last_tick_com e)) d p g"
  have ex: "com_exhausted (gdev_vds ?c d) = com_exhausted (charge_compute (time_sub now (last_tick_com e)) (gdev_vds g d))"
    by (simp add: completed_def gdev_access_end_def p acc_defs com_exhausted_def charge_compute_def Let_def)
  have r: "vs_select_next_compute (gdev_vsched_band others) d ?c =
      Some (None, upd_phys p (\<lambda>dev. dev\<lparr>current_com := None, sched_com_list := rot\<rparr>) ?c)"
  proof (cases "com_exhausted (gdev_vds ?c d)")
    case True
    have "vs_select_next_compute (gdev_vsched_band others) d ?c =
      Some (None, upd_phys p (gdev_current_com_set None) (upd_phys p (sched_com_list_update (to_tail d)) ?c))"
      using p q True
      by (simp add: gdev_vsched_band_def gdev_vsched_band_select_next_compute_def acc_defs completed_simps
          GDEV_VSCHED_BAND_SELECT_CHANCES_def w Let_def)
    also have "upd_phys p (gdev_current_com_set None) (upd_phys p (sched_com_list_update (to_tail d)) ?c) =
       upd_phys p (\<lambda>dev. dev\<lparr>current_com := None, sched_com_list := rot\<rparr>) ?c"
      using True ex
      by (auto simp: rot_def served_def completed_simps upd_phys_def gdev_current_com_set_def fun_eq_iff
          intro!: record_eqs)
    finally show ?thesis .
  next
    case False
    have "vs_select_next_compute (gdev_vsched_band others) d ?c =
      Some (None, upd_phys p (gdev_current_com_set None) ?c)"
      using p q False
      by (simp add: gdev_vsched_band_def gdev_vsched_band_select_next_compute_def acc_defs completed_simps
          GDEV_VSCHED_BAND_SELECT_CHANCES_def w Let_def)
    also have "upd_phys p (gdev_current_com_set None) ?c =
       upd_phys p (\<lambda>dev. dev\<lparr>current_com := None, sched_com_list := rot\<rparr>) ?c"
      using False ex
      by (auto simp: rot_def served_def completed_simps upd_phys_def gdev_current_com_set_def fun_eq_iff
          intro!: record_eqs)
    finally show ?thesis .
  qed
  have c: "upd_phys p (\<lambda>dev. dev\<lparr>current_com := None, sched_com_list := rot\<rparr>) ?c =
    upd_phys p (\<lambda>dev. dev\<lparr>current_com := None, accessed := accessed dev - 1, sched_com_list := rot\<rparr>)
      (upd_vd d (\<lambda>dev. (charge_compute (time_sub now (last_tick_com e)) dev)\<lparr>current_com := None\<rparr>)
        (upd_ent s (\<lambda>e. e\<lparr>launch_instances := 0\<rparr>) g))"
    using e p q
    by (auto simp: completed_def upd_phys_def upd_vd_def upd_ent_def gdev_access_end_def acc_defs Let_def first_of_def
        fun_eq_iff intro!: record_eqs)
  show ?thesis
    using q by (auto simp: select_next_eq [OF d e] r c dispatch_compute_def rot_def [symmetric])
qed

text \<open>The state a close leaves.\<close>

definition leave :: "nat \<Rightarrow> gpu \<Rightarrow> gpu" where
  "leave d g = upd_vd d (users_update (\<lambda>n. n - 1))
     (case parent (gdev_vds g d) of None \<Rightarrow> g | Some p \<Rightarrow> upd_phys p (users_update (\<lambda>n. n - 1)) g)"

definition after_close :: "nat \<Rightarrow> nat \<Rightarrow> nat \<Rightarrow> gpu \<Rightarrow> gpu" where
  "after_close d k m g = leave d (g\<lparr>ents := (ents g)(m := None),
     sched_entity_ptr := (sched_entity_ptr g)[k + 1 := None], cid_bitmap := bm_clear k (cid_bitmap g),
     global_lock := False\<rparr>)"

lemma close_state:
  assumes "entity_of h g = Some s" "ents g s = Some e" "\<not> global_lock g" "length (cid_bitmap g) = 100"
    and "unat (h_cid h) = k + 1" "k < 99"
  shows "gsched_close h g = Some (after_close (se_gdev e) k s g)"
proof -
  have w: "h_cid h = word_of_nat (k + 1)" using assms(5) u32_cid [of k] assms(6) by (simp add: word_unat_eq_iff del: of_nat_Suc of_nat_add)
  then have u: "unat (h_cid h - 1) = k"
    using assms(6) by (simp add: unat_of_nat take_bit_nat_eq_self)
  have "k div 64 < 100" using assms(6) by simp
  then show ?thesis
    unfolding gsched_close_def
    using assms(1-5) u
    by (simp add: spin_lock_def spin_unlock_def gdev_sched_entity_destroy_def clear_cid_bit_def after_close_def leave_def Let_def
        cong: option.case_cong)
qed

text \<open>
  One use of the GPU by a process, with the scheduler thread \<open>t\<close> of the device in between:
  open, launch, synchronise; the thread runs its round and sleeps again; close.
\<close>

definition session ::
  "machine \<Rightarrow> nat \<Rightarrow> u32 \<Rightarrow> u32 \<Rightarrow> (gpu \<Rightarrow> gpu) \<Rightarrow> gdev_time \<Rightarrow> nat \<Rightarrow> process \<Rightarrow> process option" where
  "session e v dev vdev jiffy finish t x =
     do { (r, x) \<leftarrow> rtx_gpu_open e v dev vdev x;
          (r, x) \<leftarrow> rtx_gpu_launch e v x;
          guard_c (r = NoValue);
          (r, l, g) \<leftarrow> rtx_gpu_sync e v x;
          g \<leftarrow> gdev_sched_com_thread (policy_of e) jiffy finish (unat vdev) g;
          (r, x) \<leftarrow> rtx_gpu_close e v (l, block t g);
          Some x }"

text \<open>A device on which nothing runs or waits, in the list of its physical device.\<close>

definition device_idle :: "nat \<Rightarrow> nat \<Rightarrow> nat \<Rightarrow> gpu \<Rightarrow> bool" where
  "device_idle d p t g \<longleftrightarrow> parent (gdev_vds g d) = Some p \<and> current_com (phys_ds g p) = None \<and>
     blocked (phys_ds g p) = 0 \<and> current_com (gdev_vds g d) = None \<and> users (gdev_vds g d) \<ge> 0 \<and>
     (\<forall>n. sched_com_list (gdev_vds g n) = []) \<and> d \<in> set (sched_com_list (phys_ds g p)) \<and>
     sched_com_thread (gdev_vds g d) = Some t \<and> task_state g t = 1"

definition fresh_session :: "machine \<Rightarrow> nat \<Rightarrow> glib \<Rightarrow> bool" where
  "fresh_session e v l \<longleftrightarrow> module_opens e \<and> \<not> nv_opens e \<and> vars l v = None \<and> malloc e \<noteq> None"

lemma sint_cid: "k < 99 \<Longrightarrow> sint (word_of_nat (k + 1) :: u32) = int k + 1"
  by (simp add: signed_of_nat signed_take_bit_int_eq_self del: of_nat_Suc of_nat_add)

definition opened_handle :: "rtxGhandle \<Rightarrow> u32 \<Rightarrow> u32 \<Rightarrow> nat \<Rightarrow> rtxGhandle" where
  "opened_handle h dev vdev k = h\<lparr>h_dev_id := dev, h_vdev_id := vdev, h_sched_flag := GPU_SCHED_FLAG_OPEN,
     h_nvdesc := None, h_sync_flag := DEFAULT_GSYNC_FLAG, h_cid := word_of_nat (k + 1), h_setcid := 0\<rparr>"

definition with_context :: "nat \<Rightarrow> nat \<Rightarrow> nat \<Rightarrow> gpu \<Rightarrow> gpu" where
  "with_context d k m g = (enter d g)\<lparr>global_lock := False, cid_bitmap := bm_set k (cid_bitmap g),
      ents := (ents g)(m \<mapsto> new_entity g d (word_of_nat (k + 1))),
      sched_entity_ptr := (sched_entity_ptr g)[k + 1 := Some m]\<rparr>"

lemma open_runs:
  assumes g: "ctx_ok g" "\<not> global_lock g" "unat vdev < 4" "room g (unat vdev)"
    and k: "resch_ffz (cid_bitmap g) GPU_CID_MAP_LONG = Some (int k)" "k < 99"
    and m: "kmem e = Some m"
    and l: "module_opens e" "\<not> nv_opens e" "vars l v = None" "malloc e = Some (a, h)"
  shows "\<exists>l1. rtx_gpu_open e v dev vdev (l, g) = Some (Value (int k + 1), l1, with_context (unat vdev) k m g) \<and>
    fd l1 = Opened \<and> vars l1 v = Some a \<and> handles l1 a = Some (opened_handle h dev vdev k)"
proof -
  let ?h = "h\<lparr>h_dev_id := dev, h_vdev_id := vdev, h_sched_flag := GPU_SCHED_FLAG_OPEN,
    h_nvdesc := None, h_sync_flag := DEFAULT_GSYNC_FLAG\<rparr>"
  have c: "gsched_ctxcreate (Some m) ?h g = Some (Some (opened_handle h dev vdev k), with_context (unat vdev) k m g)"
    using ctxcreate_state [of g ?h k m] g k
    by (simp add: opened_handle_def with_context_def del: of_nat_Suc of_nat_add)
  have s: "sint (h_cid (opened_handle h dev vdev k)) = int k + 1"
    using sint_cid [OF k(2)] by (simp add: opened_handle_def)
  show ?thesis
    using l m
    by (simp add: rtx_gpu_open_def Ghandle_init_def deref_def ioctl_opened resch_ioctl_gpu_def gdev_ioctls
        gpu_env.truncate_def c s Let_def)
qed


lemma with_context_simps:
  "parent (gdev_vds (with_context d k m g) x) = parent (gdev_vds g x)"
  "current_com (gdev_vds (with_context d k m g) x) = current_com (gdev_vds g x)"
  "sched_com_list (gdev_vds (with_context d k m g) x) = sched_com_list (gdev_vds g x)"
  "sched_com_thread (gdev_vds (with_context d k m g) x) = sched_com_thread (gdev_vds g x)"
  "current_com (phys_ds (with_context d k m g) x) = current_com (phys_ds g x)"
  "blocked (phys_ds (with_context d k m g) x) = blocked (phys_ds g x)"
  "task_state (with_context d k m g) = task_state g" "\<not> global_lock (with_context d k m g)"
  "users (gdev_vds (with_context d k m g) d) = users (gdev_vds g d) + 1"
  "ents (with_context d k m g) = (ents g)(m \<mapsto> new_entity g d (word_of_nat (k + 1)))"
  "sched_entity_ptr (with_context d k m g) = (sched_entity_ptr g)[k + 1 := Some m]"
  "cid_bitmap (with_context d k m g) = bm_set k (cid_bitmap g)"
  by (auto simp: with_context_def enter_def split: option.splits)

text \<open>The stages between: launch, synchronisation, completion.\<close>

definition after_launch :: "nat \<Rightarrow> nat \<Rightarrow> nat \<Rightarrow> gdev_time \<Rightarrow> gpu \<Rightarrow> gpu" where
  "after_launch d p m now g =
     upd_phys p (\<lambda>dev. dev\<lparr>current_com := Some (Vdev d), accessed := accessed dev + 1\<rparr>)
      (upd_vd d (\<lambda>dev. dev\<lparr>current_com := Some (Entity m)\<rparr>)
        (upd_ent m (\<lambda>e. e\<lparr>last_tick_com := now, launch_instances := 1\<rparr>) g))"

definition after_sync :: "nat \<Rightarrow> gpu \<Rightarrow> gpu" where
  "after_sync t g = g\<lparr>task_state := (task_state g)(t := 0)\<rparr>"

definition after_completion :: "nat \<Rightarrow> nat \<Rightarrow> nat \<Rightarrow> gdev_time \<Rightarrow> nat list \<Rightarrow> gpu \<Rightarrow> gpu" where
  "after_completion d p m exec rot g =
     upd_phys p (\<lambda>dev. dev\<lparr>current_com := None, accessed := accessed dev - 1, sched_com_list := rot\<rparr>)
      (upd_vd d (\<lambda>dev. (charge_compute exec dev)\<lparr>current_com := None\<rparr>)
        (upd_ent m (\<lambda>e. e\<lparr>launch_instances := 0\<rparr>) g))"

lemmas stage_defs = after_launch_def after_sync_def after_completion_def block_def

definition mark_launched :: "rtxGhandle \<Rightarrow> rtxGhandle" where
  "mark_launched h = h\<lparr>h_sched_flag := h_sched_flag h AND NOT GPU_SCHED_FLAG_SYNCH OR GPU_SCHED_FLAG_LAUNCH\<rparr>"

definition mark_synched :: "rtxGhandle \<Rightarrow> rtxGhandle" where
  "mark_synched h = h\<lparr>h_sched_flag := (h_sched_flag h OR GPU_SCHED_FLAG_SYNCH) AND NOT GPU_SCHED_FLAG_LAUNCH\<rparr>"

lemma mark_simps [simp]:
  "h_cid (mark_launched h) = h_cid h" "h_vdev_id (mark_launched h) = h_vdev_id h"
  "h_nvdesc (mark_launched h) = h_nvdesc h" "h_cid (mark_synched h) = h_cid h"
  "h_vdev_id (mark_synched h) = h_vdev_id h"
  "entity_of (mark_launched h) g = entity_of h g" "entity_of (mark_synched h) g = entity_of h g"
  by (simp_all add: mark_launched_def mark_synched_def entity_of_def)

lemma mark_flags:
  "h_sched_flag (mark_launched h) AND GPU_SCHED_FLAG_LAUNCH \<noteq> 0"
  "h_sched_flag (mark_launched h) AND GPU_SCHED_FLAG_SYNCH = 0"
  "h_sched_flag (mark_synched (mark_launched h)) AND GPU_SCHED_FLAG_OPEN = h_sched_flag h AND GPU_SCHED_FLAG_OPEN"
  unfolding mark_launched_def mark_synched_def using flag_bits by simp_all

lemma launch_call:
  assumes l: "vars l v = Some a" "handles l a = Some h" "fd l = Opened"
    and h: "h_sched_flag h AND GPU_SCHED_FLAG_OPEN \<noteq> 0" "entity_of h g = Some s"
    and e: "policy_of e = gdev_vsched_band others" "ents g s = Some x" "se_gdev x = d" "launch_instances x = 0"
    and p: "parent (gdev_vds g d) = Some p" "current_com (phys_ds g p) = None" "blocked (phys_ds g p) = 0"
    and d: "current_com (gdev_vds g d) = None" "sched_com_thread (gdev_vds g d) = Some t" "task_state g t \<noteq> 0"
  shows "rtx_gpu_launch e v (l, g) = Some (NoValue, put a (mark_launched h) l, after_launch d p s (clock_of e) g)"
  using l h e(1) launch_idle [OF e(2-4) p d, of others "clock_of e" "caller e"]
    mark_simps(6) [of h g]
  by (simp add: rtx_gpu_launch_def ioctl_opened resch_ioctl_gpu_def gdev_ioctls gpu_env.truncate_def
      gsched_launch_def after_launch_def Let_def flip: mark_launched_def)

lemma sync_call:
  assumes l: "vars l v = Some a" "handles l a = Some (mark_launched h)" "fd l = Opened" "h_nvdesc h = None"
    and h: "unat (h_cid h) < 100" "unat (h_vdev_id h) = d" "d < 4"
    and t: "sched_com_thread (gdev_vds g d) = Some t" "task_state g t \<noteq> 0"
  shows "rtx_gpu_sync e v (l, g) = Some (NoValue, put a (mark_synched (mark_launched h)) l, after_sync t g)"
proof -
  have "gsched_sync (mark_synched (mark_launched h)) g = Some (True, after_sync t g)"
    using h t by (simp add: gsched_sync_def GDEV_CONTEXT_MAX_COUNT_def GDEV_DEVICE_MAX_COUNT_def
        wake_up_task_def after_sync_def)
  then show ?thesis
    using sync_passes [OF l(1-3) _ mark_flags(1,2), of e g] l(4) by (simp flip: mark_synched_def)
qed

lemma close_call:
  assumes l: "vars l v = Some a" "handles l a = Some h" "fd l = Opened" "h_sched_flag h AND GPU_SCHED_FLAG_OPEN \<noteq> 0"
    and "entity_of h g = Some s" "ents g s = Some x" "\<not> global_lock g" "length (cid_bitmap g) = 100"
    and "unat (h_cid h) = k + 1" "k < 99"
  shows "\<exists>l'. rtx_gpu_close e v (l, g) = Some (NoValue, l', after_close (se_gdev x) k s g)"
  using l close_state [OF assms(5-10)]
  by (simp add: rtx_gpu_close_def ioctl_opened resch_ioctl_gpu_def gdev_ioctls Let_def)

text \<open>Taken together the stages leave only the charge and the order of the devices.\<close>

lemma stages_cancel:
  assumes "parent (gdev_vds g d) = Some p" "current_com (phys_ds g p) = None" "current_com (gdev_vds g d) = None"
    and "task_state g t = 1" "ents g m = None" "\<not> global_lock g" "sched_entity_ptr g ! (k + 1) = None"
    and "bm_clear k (bm_set k (cid_bitmap g)) = cid_bitmap g"
  shows "after_close d k m (block t (after_completion d p m exec rot (after_sync t
      (after_launch d p m now (with_context d k m g))))) =
    g\<lparr>gdev_vds := (gdev_vds g)(d := charge_compute exec (gdev_vds g d)),
      phys_ds := (phys_ds g)(p := phys_ds g p\<lparr>sched_com_list := rot\<rparr>)\<rparr>" (is "?l = ?r")
proof -
  note states = after_close_def leave_def stage_defs with_context_def enter_def upd_vd_def upd_phys_def upd_ent_def
    assms(1)
  show ?thesis
  proof (rule gpu.equality)
    show "cid_bitmap ?l = cid_bitmap ?r" using assms(8) by (simp add: states)
    show "sched_entity_ptr ?l = sched_entity_ptr ?r"
      using assms(7) list_update_id [of "sched_entity_ptr g" "k + 1"] by (simp add: states)
    show "ents ?l = ents ?r" using assms(5) by (simp add: states fun_eq_iff)
    show "gdev_vds ?l = gdev_vds ?r"
      using assms(3) by (auto simp: states fun_eq_iff charge_compute_def intro!: gdev_device.equality)
    show "phys_ds ?l = phys_ds ?r"
      using assms(2) by (auto simp: states fun_eq_iff intro!: gdev_device.equality)
    show "task_state ?l = task_state ?r" using assms(4) by (simp add: states fun_eq_iff)
  qed (use assms(6) in \<open>simp_all add: states\<close>)
qed

text \<open>A context that was just created is launched, synchronised, completed and closed.\<close>

lemma use_and_close:
  assumes idle: "device_idle d p t g" and d: "d < 4" and k: "k < 99" "\<not> bm_bit (cid_bitmap g) k"
    and m: "ents g m = None" "policy_of e = gdev_vsched_band others" and g: "\<not> global_lock g"
    and len: "length (sched_entity_ptr g) = 100" "length (cid_bitmap g) = 100" "sched_entity_ptr g ! (k + 1) = None"
    and l: "fd l = Opened" "vars l v = Some a" "handles l a = Some h"
    and h: "unat (h_cid h) = k + 1" "unat (h_vdev_id h) = d" "h_nvdesc h = None"
      "h_sched_flag h AND GPU_SCHED_FLAG_OPEN \<noteq> 0"
  shows "\<exists>l2 g2 l3 g3 g4 l'. rtx_gpu_launch e v (l, with_context d k m g) = Some (NoValue, l2, g2) \<and>
    rtx_gpu_sync e v (l2, g2) = Some (NoValue, l3, g3) \<and>
    gdev_sched_com_thread (gdev_vsched_band others) jiffy finish d g3 = Some g4 \<and>
    rtx_gpu_close e v (l3, block t g4) = Some (NoValue, l', g
     \<lparr>gdev_vds := (gdev_vds g)(d := charge_compute (time_sub finish (clock_of e)) (gdev_vds g d)),
      phys_ds := (phys_ds g)(p := phys_ds g p\<lparr>sched_com_list :=
        served (time_sub finish (clock_of e)) d p g\<rparr>)\<rparr>)"
proof -
  have i: "parent (gdev_vds g d) = Some p" "current_com (phys_ds g p) = None" "blocked (phys_ds g p) = 0"
    "current_com (gdev_vds g d) = None" "users (gdev_vds g d) \<ge> 0" "\<forall>n. sched_com_list (gdev_vds g n) = []"
    "sched_com_thread (gdev_vds g d) = Some t" "task_state g t = 1"
    using idle by (auto simp: device_idle_def)
  define g1 where "g1 = with_context d k m g"
  note w = with_context_simps [of d k m g, folded g1_def]
  have ptr: "entity_of h g' = Some m" if "sched_entity_ptr g' = sched_entity_ptr g1" for g'
    using that h(1) k(1) len by (simp add: entity_of_def GDEV_CONTEXT_MAX_COUNT_def w)
  let ?l2 = "put a (mark_launched h) l" and ?g2 = "after_launch d p m (clock_of e) g1"
  let ?l3 = "put a (mark_synched (mark_launched h)) ?l2" and ?g3 = "after_sync t ?g2"
  have launch2: "rtx_gpu_launch e v (l, g1) = Some (NoValue, ?l2, ?g2)"
    by (rule launch_call [where x = "new_entity g d (word_of_nat (k + 1))" and t = t and others = others])
      (simp_all add: l h ptr m w i new_entity_def)
  have sync3: "rtx_gpu_sync e v (?l2, ?g2) = Some (NoValue, ?l3, ?g3)"
    using d k by (intro sync_call [where d = d]) (simp_all add: l h after_launch_def w i)
  let ?e = "(new_entity g d (word_of_nat (k + 1)))\<lparr>last_tick_com := clock_of e, launch_instances := 1\<rparr>"
  have nz: "users (gdev_vds g d) + 1 \<noteq> 0" using i(5) by simp
  have e3: "ents ?g3 m = Some ?e" "launch_instances ?e = 1" "parent (gdev_vds ?g3 d) = Some p"
    "current_com (phys_ds ?g3 p) = Some (Vdev d)" "current_com (gdev_vds ?g3 d) = Some (Entity m)"
    "\<forall>n. sched_com_list (gdev_vds ?g3 n) = []" "users (gdev_vds ?g3 d) \<noteq> 0"
    using nz by (simp_all add: stage_defs w i)
  define rot where "rot = served (time_sub finish (clock_of e)) d p g"
  have "served (time_sub finish (clock_of e)) d p ?g3 = rot"
    by (simp add: rot_def served_def stage_defs w com_exhausted_def charge_compute_def)
      (auto simp: g1_def with_context_def enter_def i(1))
  then have rot: "gdev_select_next_compute (gdev_vsched_band others) jiffy finish d ?g3 =
      Some (after_completion d p m (time_sub finish (clock_of e)) rot ?g3)" (is "_ = Some ?g4")
    using completion_idle [OF e3(1-6), of others jiffy finish] by (auto simp: after_completion_def)
  have "\<exists>l'. rtx_gpu_close e v (?l3, block t ?g4) = Some (NoValue, l',
      after_close (se_gdev (?e\<lparr>launch_instances := 0\<rparr>)) k m (block t ?g4))"
  proof (rule close_call [where a = a and h = "mark_synched (mark_launched h)"])
    show "entity_of (mark_synched (mark_launched h)) (block t ?g4) = Some m"
      by (simp add: ptr stage_defs upd_vd_def upd_phys_def upd_ent_def)
    show "ents (block t ?g4) m = Some (?e\<lparr>launch_instances := 0\<rparr>)" by (simp add: stage_defs w)
  qed (use w(8,12) len(2) mark_flags(3) [of h] h l k(1) in
      \<open>simp_all add: stage_defs upd_vd_def upd_phys_def upd_ent_def bm_set_def\<close>)
  then have "\<exists>l'. rtx_gpu_close e v (?l3, block t ?g4) = Some (NoValue, l', after_close d k m (block t ?g4))"
    by (simp add: new_entity_def)
  moreover have "bm_clear k (bm_set k (cid_bitmap g)) = cid_bitmap g"
    using bm_clear_set [OF _ k(2)] k(1) len(2) by simp
  ultimately show ?thesis
    using launch2 sync3 rot e3(7) stages_cancel [OF i(1,2,4,8) m(1) g len(3)]
    by (auto simp: gdev_sched_com_thread_def g1_def rot_def)
qed

text \<open>C17: 
  a process that opens an idle device, launches, synchronises and closes leaves the
  scheduler as it was, under the bandwidth policy compiled by default: the ID is free
  again, the entity gone, no device is occupied and no counter has changed. What remains
  is the execution charged to the device and the order in which the devices are served: the
  list has the same devices, and the device is its last one if it is over its budget by then;
  otherwise the list has not changed.
\<close>

theorem session_restores_scheduler:
  assumes g: "ctx_ok g" "\<not> global_lock g" "unat vdev < 4" "room g (unat vdev)"
    and free: "c < 99" "\<not> bm_bit (cid_bitmap g) c"
    and m: "kmem e = Some m" "ents g m = None" "policy_of e = gdev_vsched_band others"
    and idle: "device_idle (unat vdev) p t g"
    and l: "fresh_session e v l"
  shows "\<exists>l' rot. session e v dev vdev jiffy finish t (l, g) = Some (l', g
     \<lparr>gdev_vds := (gdev_vds g)(unat vdev := charge_compute (time_sub finish (clock_of e)) (gdev_vds g (unat vdev))),
      phys_ds := (phys_ds g)(p := phys_ds g p\<lparr>sched_com_list := rot\<rparr>)\<rparr>) \<and>
     mset rot = mset (sched_com_list (phys_ds g p)) \<and>
     (if com_exhausted (charge_compute (time_sub finish (clock_of e)) (gdev_vds g (unat vdev)))
      then last rot = unat vdev else rot = sched_com_list (phys_ds g p))"
proof -
  obtain k where k: "resch_ffz (cid_bitmap g) GPU_CID_MAP_LONG = Some (int k)" "\<not> bm_bit (cid_bitmap g) k"
    "\<forall>m<k. bm_bit (cid_bitmap g) m"
    using free_id [OF g(1)] by blast
  then have k99: "k < 99" using free by (metis not_less_iff_gr_or_eq order_less_trans)
  obtain a h where mach: "module_opens e" "\<not> nv_opens e" "vars l v = None" "malloc e = Some (a, h)"
    using l by (auto simp: fresh_session_def)
  have len: "length (sched_entity_ptr g) = 100" "length (cid_bitmap g) = 100" "sched_entity_ptr g ! (k + 1) = None"
    using g(1) k(2) k99 by (auto simp: ctx_ok_def)
  define h1 where "h1 = opened_handle h dev vdev k"
  obtain l1 where open1: "rtx_gpu_open e v dev vdev (l, g) = Some (Value (int k + 1), l1, with_context (unat vdev) k m g)"
    and l1: "fd l1 = Opened" "vars l1 v = Some a" "handles l1 a = Some h1"
    using open_runs [OF g k(1) k99 m(1) mach] unfolding h1_def by blast
  have h1: "unat (h_cid h1) = k + 1" "unat (h_vdev_id h1) = unat vdev" "h_nvdesc h1 = None"
    "h_sched_flag h1 AND GPU_SCHED_FLAG_OPEN \<noteq> 0"
    using u32_cid [of k] k99 by (simp_all add: h1_def opened_handle_def resch_consts del: of_nat_Suc of_nat_add)
  let ?rot = "served (time_sub finish (clock_of e)) (unat vdev) p g"
  have "mset ?rot = mset (sched_com_list (phys_ds g p))"
    using idle by (intro served_mset) (simp add: device_idle_def)
  moreover have "if com_exhausted (charge_compute (time_sub finish (clock_of e)) (gdev_vds g (unat vdev)))
      then last ?rot = unat vdev else ?rot = sched_com_list (phys_ds g p)"
    by (simp add: served_def to_tail_def)
  ultimately show ?thesis
    using open1 use_and_close [OF idle g(3) k99 k(2) m(2,3) g(2) len l1 h1, of jiffy finish] m(3)
    unfolding session_def by fastforce
qed

section \<open>Examples\<close>

text \<open>A machine with the module and without the NVIDIA driver, a process, and an idle GPU.\<close>

definition machine0 :: machine where
  "machine0 = \<lparr>policy_of = gdev_vsched_band (\<lambda>g. g), clock_of = gdev_time_stamp 5 0, caller = 9, kmem = Some 77,
     module_opens = True, malloc = Some (1, handle0), nv_opens = False, rtx_nvrm_init = \<lambda>h. (0, h),
     rtx_nvrm_notify = \<lambda>h. h, rtx_nvrm_fence = \<lambda>h. h, rtx_nvrm_fence_poll = \<lambda>h. (0, h)\<rparr>"

definition process0 :: glib where
  "process0 = \<lparr>fd = Unused, handles = \<lambda>_. None, vars = \<lambda>_. None, ghandler = None\<rparr>"

definition gpu0 :: gpu where
  "gpu0 = gpu_zero\<lparr>gdev_vds := \<lambda>_. zero_dev\<lparr>parent := Some 0, sched_com_thread := Some 50,
       com_bw := 10, com_bw_used := 50\<rparr>,
     phys_ds := \<lambda>_. zero_dev\<lparr>sched_com_list := [3, 2, 1, 0]\<rparr>,
     task_state := (\<lambda>_. 0)(50 := 1)\<rparr>"

text \<open>The device is over its budget after the two seconds of the launch, and becomes the last one.\<close>

lemma gpu0_exhausted:
  "com_exhausted (charge_compute (time_sub (gdev_time_stamp 7 0) (clock_of machine0)) (gdev_vds gpu0 d))"
  unfolding gpu0_def machine0_def by simp code_simp

theorem session_restores_scheduler_witness:
  "\<exists>l' rot. session machine0 0 0 2 (\<lambda>g. g) (gdev_time_stamp 7 0) 50 (process0, gpu0) = Some (l', gpu0
     \<lparr>gdev_vds := (gdev_vds gpu0)(unat (2 :: u32) := charge_compute (time_sub (gdev_time_stamp 7 0) (clock_of machine0))
        (gdev_vds gpu0 (unat (2 :: u32)))),
      phys_ds := (phys_ds gpu0)(0 := phys_ds gpu0 0\<lparr>sched_com_list := rot\<rparr>)\<rparr>) \<and>
     mset rot = {#3, 2, 1, 0#} \<and> last rot = 2"
proof -
  have "ctx_ok gpu0" using ctx_ok_zero(1) by (simp add: ctx_ok_def gpu0_def)
  moreover have "device_idle (unat (2 :: u32)) 0 50 gpu0"
    by (simp add: device_idle_def gpu0_def gpu_zero_def zero_dev_def)
  moreover have "room gpu0 (unat (2 :: u32))" by (simp add: room_def gpu0_def gpu_zero_def zero_dev_def)
  moreover have "fresh_session machine0 0 process0" by (simp add: fresh_session_def machine0_def process0_def)
  moreover have "mset (sched_com_list (phys_ds gpu0 0)) = {#3, 2, 1, 0#}" by (simp add: gpu0_def)
  ultimately show ?thesis
    using session_restores_scheduler [of gpu0 2 5 machine0 77 "\<lambda>g. g" 0 50 0 process0 0 "\<lambda>g. g" "gdev_time_stamp 7 0"]
      gpu0_exhausted [of "unat (2 :: u32)"]
    by (auto simp: gpu0_def [unfolded gpu_zero_def] machine0_def)
qed

text \<open>A process with two open contexts, one of which is launched.\<close>

definition process2 :: glib where
  "process2 = \<lparr>fd = Opened,
     handles = [1 \<mapsto> handle0\<lparr>h_cid := 1, h_sched_flag := 0x06\<rparr>, 2 \<mapsto> handle0\<lparr>h_cid := 2, h_sched_flag := 0x02\<rparr>],
     vars = [10 \<mapsto> 1, 20 \<mapsto> 2], ghandler = Some 20\<rparr>"

definition gpu2 :: gpu where
  "gpu2 = gpu0\<lparr>sched_entity_ptr := (sched_entity_ptr gpu0)[1 := Some 77, 2 := Some 78],
     ents := [77 \<mapsto> demo_entity 2, 78 \<mapsto> demo_entity 2], cid_bitmap := (cid_bitmap gpu0)[0 := 3]\<rparr>"

theorem sync_once_per_launch_witness:
  "rtx_gpu_sync machine0 10 (fst (snd (the (rtx_gpu_sync machine0 10 (process2, gpu2)))),
      snd (snd (the (rtx_gpu_sync machine0 10 (process2, gpu2))))) =
    Some (Value (- EINVAL), fst (snd (the (rtx_gpu_sync machine0 10 (process2, gpu2)))),
      snd (snd (the (rtx_gpu_sync machine0 10 (process2, gpu2))))) \<and>
   fst (the (rtx_gpu_sync machine0 10 (process2, gpu2))) \<noteq> Value (- EINVAL)"
proof (rule sync_once_per_launch [where a = 1 and h = "handle0\<lparr>h_cid := 1, h_sched_flag := 0x06\<rparr>"])
  have "rtx_gpu_sync machine0 10 (process2, gpu2) \<noteq> None"
    by (subst sync_passes [where a = 1 and h = "handle0\<lparr>h_cid := 1, h_sched_flag := 0x06\<rparr>"])
      (simp_all add: process2_def handle0_def resch_consts gsched_sync_def gpu2_def gpu0_def wake_up_task_def)
  then show "rtx_gpu_sync machine0 10 (process2, gpu2) = Some (fst (the (rtx_gpu_sync machine0 10 (process2, gpu2))),
     fst (snd (the (rtx_gpu_sync machine0 10 (process2, gpu2)))),
     snd (snd (the (rtx_gpu_sync machine0 10 (process2, gpu2)))))" by auto
qed (simp_all add: process2_def handle0_def resch_consts)

theorem close_breaks_other_handles_witness:
  "\<exists>l''. rtx_gpu_launch machine0 20 (fst (snd (the (rtx_gpu_close machine0 10 (process2, gpu2)))),
      snd (snd (the (rtx_gpu_close machine0 10 (process2, gpu2))))) =
    Some (Value (- 1), l'', snd (snd (the (rtx_gpu_close machine0 10 (process2, gpu2)))))"
proof (rule close_breaks_other_handles [where v = 10 and l = process2 and g = gpu2 and a = 1 and b = 2
      and h = "handle0\<lparr>h_cid := 1, h_sched_flag := 0x06\<rparr>" and k = "handle0\<lparr>h_cid := 2, h_sched_flag := 0x02\<rparr>"])
  have "gsched_close (handle0\<lparr>h_cid := 1, h_sched_flag := 0x06\<rparr>) gpu2 \<noteq> None"
    by (subst close_state [where s = 77 and e = "demo_entity 2" and k = 0])
      (simp_all add: entity_of_def gpu2_def gpu0_def gpu_zero_def GDEV_CONTEXT_MAX_COUNT_def)
  then have "rtx_gpu_close machine0 10 (process2, gpu2) \<noteq> None"
    by (auto simp: rtx_gpu_close_def process2_def ioctl_opened resch_ioctl_gpu_def gdev_ioctls resch_consts Let_def)
  then show "rtx_gpu_close machine0 10 (process2, gpu2) = Some (fst (the (rtx_gpu_close machine0 10 (process2, gpu2))),
     fst (snd (the (rtx_gpu_close machine0 10 (process2, gpu2)))),
     snd (snd (the (rtx_gpu_close machine0 10 (process2, gpu2)))))" by auto
qed (simp_all add: process2_def resch_consts)

end
