(* ===== verification/Nvrm_Fifo.thy ===== *)
theory Nvrm_Fifo
  imports Prelude
begin

text \<open>
  The command queue of the GPU bindings (\<open>lib/nvrm/nvrm_fifo.h\<close>): a push buffer, which is a
  ring of 32-bit commands, and the indirect buffer, a ring of pairs (address, length) that
  tells the GPU which parts of the push buffer to fetch.

  The memory of a ring is a function from its word index. What the GPU shows in its channel
  registers is the parameter \<open>rd\<close>: \<open>rd i r\<close> is the value of register \<open>r\<close> at the \<open>i\<close>-th read,
  counted in \<open>reg_reads\<close>. Writes of registers are recorded in order. The hook
  \<open>space\<close> and the hook \<open>kick\<close> are never set. \<open>None\<close> is a wait that never ends.
\<close>

section \<open>State\<close>

record nvrm_fifo =
  ib_map :: "nat \<Rightarrow> w32"
  ib_mask :: w32
  ib_put :: w32
  ib_get :: w32
  pb_map :: "nat \<Rightarrow> w32"
  pb_base :: u64
  pb_mask :: w32
  pb_size :: w32
  pb_pos :: w32
  pb_put :: w32
  pb_get :: w32
  fifo_dummy :: w32
  reg_writes :: "(w32 \<times> w32) list"
  reg_reads :: nat

section \<open>Registers\<close>

definition resch_fifo_read_reg :: "(nat \<Rightarrow> w32 \<Rightarrow> w32) \<Rightarrow> w32 \<Rightarrow> nvrm_fifo \<Rightarrow> w32 \<times> nvrm_fifo" where
  "resch_fifo_read_reg rd r f = (rd (reg_reads f) r, f\<lparr>reg_reads := reg_reads f + 1\<rparr>)"

definition resch_fifo_write_reg :: "w32 \<Rightarrow> w32 \<Rightarrow> nvrm_fifo \<Rightarrow> nvrm_fifo" where
  "resch_fifo_write_reg r v f = f\<lparr>reg_writes := reg_writes f @ [(r, v)]\<rparr>"

section \<open>The indirect buffer\<close>

text \<open>The wait for a free entry, and the entry of a segment.\<close>

partial_function (option) push_wait :: "(nat \<Rightarrow> w32 \<Rightarrow> w32) \<Rightarrow> nvrm_fifo \<Rightarrow> nvrm_fifo option" where
  "push_wait rd f =
     (if (ib_put f + 1) AND ib_mask f = ib_get f
      then let (g, f) = resch_fifo_read_reg rd 0x88 f in push_wait rd (f\<lparr>ib_get := g\<rparr>)
      else Some f)"

definition ib_entry :: "u64 \<Rightarrow> w32 \<Rightarrow> int \<Rightarrow> u64" where
  "ib_entry base len flags = base OR push_bit 40 (ucast len) OR push_bit 40 (word_of_int flags)"

definition resch_fifo_push :: "(nat \<Rightarrow> w32 \<Rightarrow> w32) \<Rightarrow> u64 \<Rightarrow> w32 \<Rightarrow> int \<Rightarrow> nvrm_fifo \<Rightarrow> nvrm_fifo option" where
  "resch_fifo_push rd base len flags f = do {
     let w = ib_entry base len flags;
     f \<leftarrow> push_wait rd f;
     let f = f\<lparr>ib_map := (ib_map f)(unat (ib_put f * 2) := ucast w, unat (ib_put f * 2 + 1) := ucast (drop_bit 32 w))\<rparr>;
     let f = f\<lparr>ib_put := (ib_put f + 1) AND ib_mask f\<rparr>;
     let f = f\<lparr>fifo_dummy := ib_map f 0\<rparr>;
     Some (resch_fifo_write_reg 0x8c (ib_put f) f)
   }"

definition resch_fifo_update_get :: "(nat \<Rightarrow> w32 \<Rightarrow> w32) \<Rightarrow> nvrm_fifo \<Rightarrow> nvrm_fifo" where
  "resch_fifo_update_get rd f =
     (let (lo, f) = resch_fifo_read_reg rd 0x58 f;
          (hi, f) = resch_fifo_read_reg rd 0x5c f
      in if hi AND 0x80000000 \<noteq> 0
         then let mg = (push_bit 32 (ucast hi) OR ucast lo) AND 0xffffffffff :: u64
              in f\<lparr>pb_get := ucast (mg - pb_base f)\<rparr>
         else f\<lparr>pb_get := 0\<rparr>)"

section \<open>The push buffer\<close>

definition nvrm_fire_ring :: "(nat \<Rightarrow> w32 \<Rightarrow> w32) \<Rightarrow> nvrm_fifo \<Rightarrow> nvrm_fifo option" where
  "nvrm_fire_ring rd f =
     (if pb_pos f \<noteq> pb_put f
      then do {
        let base = pb_base f + ucast (pb_put f);
        (base, len, f) \<leftarrow>
          (if pb_pos f > pb_put f then Some (base, pb_pos f - pb_put f, f)
           else do {
             f \<leftarrow> resch_fifo_push rd base (pb_size f - pb_put f) 0 f;
             let f = f\<lparr>pb_put := 0\<rparr>;
             Some (pb_base f, pb_pos f, f)
           });
        f \<leftarrow> (if len > 0 then resch_fifo_push rd base len 0 f else Some f);
        Some (f\<lparr>pb_put := pb_pos f\<rparr>)
      }
      else Some f)"

text \<open>The wait for a free word: what is pending is handed to the GPU before its position is read.\<close>

partial_function (option) out_wait :: "(nat \<Rightarrow> w32 \<Rightarrow> w32) \<Rightarrow> nvrm_fifo \<Rightarrow> nvrm_fifo option" where
  "out_wait rd f =
     (if (pb_pos f + 4) AND pb_mask f = pb_get f
      then do { f \<leftarrow> nvrm_fire_ring rd f; out_wait rd (resch_fifo_update_get rd f) }
      else Some f)"

definition nvrm_out_ring :: "(nat \<Rightarrow> w32 \<Rightarrow> w32) \<Rightarrow> w32 \<Rightarrow> nvrm_fifo \<Rightarrow> nvrm_fifo option" where
  "nvrm_out_ring rd word f = do {
     f \<leftarrow> out_wait rd f;
     let f = f\<lparr>pb_map := (pb_map f)(unat (pb_pos f div 4) := word)\<rparr>;
     let f = f\<lparr>pb_pos := pb_pos f + 4\<rparr>;
     Some (f\<lparr>pb_pos := pb_pos f AND pb_mask f\<rparr>)
   }"

section \<open>Command headers\<close>

definition header_nv50 :: "w32 \<Rightarrow> w32 \<Rightarrow> w32 \<Rightarrow> w32" where
  "header_nv50 subc mthd len = mthd OR push_bit 13 subc OR push_bit 18 len"

definition header_nvc0 :: "w32 \<Rightarrow> w32 \<Rightarrow> w32 \<Rightarrow> w32 \<Rightarrow> w32" where
  "header_nvc0 kind subc mthd len = push_bit 28 kind OR push_bit 16 len OR push_bit 13 subc OR signed_drop_bit 2 mthd"

definition nvrm_begin_ring_nv50 :: "(nat \<Rightarrow> w32 \<Rightarrow> w32) \<Rightarrow> w32 \<Rightarrow> w32 \<Rightarrow> w32 \<Rightarrow> nvrm_fifo \<Rightarrow> nvrm_fifo option" where
  "nvrm_begin_ring_nv50 rd subc mthd len = nvrm_out_ring rd (header_nv50 subc mthd len)"

definition nvrm_begin_ring_nv50_const :: "(nat \<Rightarrow> w32 \<Rightarrow> w32) \<Rightarrow> w32 \<Rightarrow> w32 \<Rightarrow> w32 \<Rightarrow> nvrm_fifo \<Rightarrow> nvrm_fifo option" where
  "nvrm_begin_ring_nv50_const rd subc mthd len = nvrm_out_ring rd (header_nv50 subc mthd len OR push_bit 28 4)"

definition nvrm_begin_ring_nvc0 :: "(nat \<Rightarrow> w32 \<Rightarrow> w32) \<Rightarrow> w32 \<Rightarrow> w32 \<Rightarrow> w32 \<Rightarrow> nvrm_fifo \<Rightarrow> nvrm_fifo option" where
  "nvrm_begin_ring_nvc0 rd subc mthd len = nvrm_out_ring rd (header_nvc0 2 subc mthd len)"

definition nvrm_begin_ring_nvc0_const :: "(nat \<Rightarrow> w32 \<Rightarrow> w32) \<Rightarrow> w32 \<Rightarrow> w32 \<Rightarrow> w32 \<Rightarrow> nvrm_fifo \<Rightarrow> nvrm_fifo option" where
  "nvrm_begin_ring_nvc0_const rd subc mthd len = nvrm_out_ring rd (header_nvc0 6 subc mthd len)"

definition nvrm_begin_ring_nve4 :: "(nat \<Rightarrow> w32 \<Rightarrow> w32) \<Rightarrow> w32 \<Rightarrow> w32 \<Rightarrow> w32 \<Rightarrow> nvrm_fifo \<Rightarrow> nvrm_fifo option" where
  "nvrm_begin_ring_nve4 rd subc mthd len = nvrm_out_ring rd (header_nvc0 2 subc mthd len)"

definition nvrm_begin_ring_nve4_const :: "(nat \<Rightarrow> w32 \<Rightarrow> w32) \<Rightarrow> w32 \<Rightarrow> w32 \<Rightarrow> w32 \<Rightarrow> nvrm_fifo \<Rightarrow> nvrm_fifo option" where
  "nvrm_begin_ring_nve4_const rd subc mthd len = nvrm_out_ring rd (header_nvc0 6 subc mthd len)"

definition nvrm_begin_ring_nve4_il :: "(nat \<Rightarrow> w32 \<Rightarrow> w32) \<Rightarrow> w32 \<Rightarrow> w32 \<Rightarrow> w32 \<Rightarrow> nvrm_fifo \<Rightarrow> nvrm_fifo option" where
  "nvrm_begin_ring_nve4_il rd subc mthd len = nvrm_out_ring rd (header_nvc0 8 subc mthd len)"

definition nvrm_begin_ring_nve4_1l :: "(nat \<Rightarrow> w32 \<Rightarrow> w32) \<Rightarrow> w32 \<Rightarrow> w32 \<Rightarrow> w32 \<Rightarrow> nvrm_fifo \<Rightarrow> nvrm_fifo option" where
  "nvrm_begin_ring_nve4_1l rd subc mthd len = nvrm_out_ring rd (header_nvc0 10 subc mthd len)"

fun out_words :: "(nat \<Rightarrow> w32 \<Rightarrow> w32) \<Rightarrow> w32 list \<Rightarrow> nvrm_fifo \<Rightarrow> nvrm_fifo option" where
  "out_words rd [] f = Some f"
| "out_words rd (w # ws) f = do { f \<leftarrow> nvrm_out_ring rd w f; out_words rd ws f }"

section \<open>Positions\<close>

definition NWORDS :: nat where "NWORDS = 65536"
definition NSLOTS :: nat where "NSLOTS = 1024"

definition pos_w :: "nvrm_fifo \<Rightarrow> nat" where "pos_w f = unat (pb_pos f) div 4"
definition put_w :: "nvrm_fifo \<Rightarrow> nat" where "put_w f = unat (pb_put f) div 4"
definition get_w :: "nvrm_fifo \<Rightarrow> nat" where "get_w f = unat (pb_get f) div 4"

definition dist :: "nat \<Rightarrow> nat \<Rightarrow> nat" where
  "dist a b = (if a \<le> b then b - a else b + NWORDS - a)"

text \<open>
  The queue as \<open>nvrm_ctx_new\<close> sets it up: sizes and masks, aligned positions inside the
  buffers, and the words that are not yet handed over among those the GPU has not read.
\<close>

definition in_ring :: "w32 \<Rightarrow> bool" where
  "in_ring x \<longleftrightarrow> unat x < 4 * NWORDS \<and> 4 dvd unat x"

definition fifo_wf :: "nvrm_fifo \<Rightarrow> bool" where
  "fifo_wf f \<longleftrightarrow> ib_mask f = 0x3ff \<and> pb_mask f = 0x3ffff \<and> pb_size f = 0x40000 \<and>
     unat (ib_put f) < NSLOTS \<and> unat (pb_base f) + 4 * NWORDS \<le> 2 ^ 40 \<and>
     in_ring (pb_pos f) \<and> in_ring (pb_put f) \<and> in_ring (pb_get f) \<and>
     dist (put_w f) (pos_w f) \<le> dist (get_w f) (pos_w f)"

lemma unat_and_mask18: "unat (x AND 0x3ffff :: w32) = unat x mod 0x40000"
proof -
  have "x AND 0x3ffff = take_bit 18 x" by (simp add: take_bit_eq_mask mask_eq_exp_minus_1)
  then show ?thesis by (simp add: take_bit_eq_mod unat_mod)
qed

lemma unat_and_mask10: "unat (x AND 0x3ff :: w32) = unat x mod 0x400"
proof -
  have "x AND 0x3ff = take_bit 10 x" by (simp add: take_bit_eq_mask mask_eq_exp_minus_1)
  then show ?thesis by (simp add: take_bit_eq_mod unat_mod)
qed

lemma unat_plus_small: "unat x + n < 2 ^ 32 \<Longrightarrow> unat (x + word_of_nat n :: w32) = unat x + n"
  by (simp add: unat_word_ariths unat_of_nat)

lemma advance_word:
  assumes "in_ring x"
  shows "in_ring ((x + 4) AND 0x3ffff)" "unat ((x + 4) AND 0x3ffff) div 4 = (unat x div 4 + 1) mod NWORDS"
proof -
  obtain m where m: "unat x = 4 * m" "m < NWORDS" using assms by (auto simp: in_ring_def)
  have "unat (x + 4) = 4 * (m + 1)" using unat_plus_small [of x 4] m by (simp add: NWORDS_def)
  then have "unat ((x + 4) AND 0x3ffff) = 4 * (m + 1) mod (4 * NWORDS)" by (simp only: unat_and_mask18 NWORDS_def) simp
  also have "\<dots> = 4 * ((m + 1) mod NWORDS)" by (simp only: mult_mod_right)
  finally have u: "unat ((x + 4) AND 0x3ffff) = 4 * ((m + 1) mod NWORDS)" .
  then show "in_ring ((x + 4) AND 0x3ffff)" by (simp add: in_ring_def NWORDS_def)
  show "unat ((x + 4) AND 0x3ffff) div 4 = (unat x div 4 + 1) mod NWORDS" using u m by simp
qed

lemma in_ring_word: "in_ring x \<Longrightarrow> \<exists>p. unat x = 4 * p \<and> p < NWORDS"
  by (auto simp: in_ring_def)

lemma in_ring_less: "in_ring x \<Longrightarrow> unat x div 4 < NWORDS"
  by (auto simp: in_ring_def)

lemma in_ring_eq: "in_ring x \<Longrightarrow> in_ring y \<Longrightarrow> x = y \<longleftrightarrow> unat x div 4 = unat y div 4"
  by (auto simp: in_ring_def word_unat_eq_iff)

text \<open>The indices from one position to another, around the end of a ring of \<open>n\<close>.\<close>

definition cyc :: "nat \<Rightarrow> nat \<Rightarrow> nat \<Rightarrow> nat list" where
  "cyc n p q = (if p \<le> q then [p..<q] else [p..<n] @ [0..<q])"

lemma cyc_snoc:
  assumes "p < n" "q < n" "(q + 1) mod n \<noteq> p"
  shows "cyc n p ((q + 1) mod n) = cyc n p q @ [q]"
proof (cases "q + 1 = n")
  case True
  then have "p \<noteq> 0" "p \<le> q" using assms by auto
  then show ?thesis using True by (simp add: cyc_def) (metis Suc_eq_plus1 upt_Suc_append)
next
  case False
  then have m: "(q + 1) mod n = q + 1" using assms(2) by simp
  then show ?thesis using assms(1,3) by (auto simp: cyc_def)
qed

lemma cyc_self [simp]: "cyc n p p = []" by (simp add: cyc_def)

lemma dist_step:
  assumes "p < NWORDS" "g < NWORDS" "q < NWORDS" "(q + 1) mod NWORDS \<noteq> g" "dist p q \<le> dist g q"
  shows "dist g ((q + 1) mod NWORDS) = dist g q + 1" "dist p ((q + 1) mod NWORDS) = dist p q + 1"
    "(q + 1) mod NWORDS \<noteq> p"
proof -
  have d: "dist g q + 1 < NWORDS"
  proof (cases "q + 1 = NWORDS")
    case True
    then show ?thesis using assms(2,4) by (auto simp: dist_def)
  next
    case False
    then show ?thesis using assms(2-4) by (auto simp: dist_def)
  qed
  have step: "dist a ((q + 1) mod NWORDS) = dist a q + 1" if "a < NWORDS" "dist a q + 1 < NWORDS" for a
  proof (cases "q + 1 = NWORDS")
    case True
    then show ?thesis using that by (auto simp: dist_def)
  next
    case False
    then show ?thesis using that assms(3) by (auto simp: dist_def)
  qed
  show "dist g ((q + 1) mod NWORDS) = dist g q + 1" using step assms(2) d by simp
  show p: "dist p ((q + 1) mod NWORDS) = dist p q + 1" using step assms(1,5) d by simp
  show "(q + 1) mod NWORDS \<noteq> p" using p by (auto simp: dist_def)
qed

section \<open>Handing over\<close>

definition ib_slot :: "nvrm_fifo \<Rightarrow> nat \<Rightarrow> u64" where
  "ib_slot f k = ucast (ib_map f (2 * k)) OR push_bit 32 (ucast (ib_map f (2 * k + 1)))"

text \<open>The words the GPU fetches for an entry, and those not yet handed over.\<close>

definition seg_words :: "nvrm_fifo \<Rightarrow> u64 \<Rightarrow> w32 list" where
  "seg_words f e =
     (let a = (unat (take_bit 40 e) - unat (pb_base f)) div 4 in map (pb_map f) [a..<a + unat (drop_bit 40 e) div 4])"

definition pending :: "nvrm_fifo \<Rightarrow> w32 list" where
  "pending f = map (pb_map f) (cyc NWORDS (put_w f) (pos_w f))"

lemma ib_entry_decode:
  assumes "unat b < 2 ^ 40" "unat l < 2 ^ 24"
  shows "take_bit 40 (ib_entry b l 0) = b" "unat (drop_bit 40 (ib_entry b l 0)) = unat l"
proof -
  have b: "take_bit 40 b = b" "drop_bit 40 b = 0"
    using assms(1) by (simp_all add: word_unat_eq_iff unsigned_take_bit_eq take_bit_eq_mod unat_drop_bit_eq drop_bit_eq_div
        unat_mod unat_div)
  have "take_bit 40 (ib_entry b l 0) = take_bit 40 b" by (simp add: ib_entry_def take_bit_or take_bit_push_bit)
  then show "take_bit 40 (ib_entry b l 0) = b" using b by simp
  have u: "unat (ucast l :: u64) = unat l" using assms(2) by (simp add: unsigned_ucast_eq take_bit_nat_eq_self_iff)
  have "unat (push_bit 40 (ucast l) :: u64) = unat l * 2 ^ 40"
    using assms(2) u by (simp add: push_bit_eq_mult unat_mult_lem [THEN iffD1])
  then have "unat (drop_bit 40 (push_bit 40 (ucast l :: u64))) = unat l" by (simp add: drop_bit_eq_div unat_div)
  then show "unat (drop_bit 40 (ib_entry b l 0)) = unat l" using b by (simp add: ib_entry_def drop_bit_or)
qed


definition pb_frame :: "nvrm_fifo \<Rightarrow> nvrm_fifo \<Rightarrow> bool" where
  "pb_frame f f' \<longleftrightarrow> pb_map f' = pb_map f \<and> pb_base f' = pb_base f \<and> pb_mask f' = pb_mask f \<and>
     pb_size f' = pb_size f \<and> pb_pos f' = pb_pos f \<and> pb_put f' = pb_put f \<and> pb_get f' = pb_get f \<and> ib_mask f' = ib_mask f"

lemma push_wait_frame:
  assumes "push_wait rd f = Some f'"
  shows "\<exists>g n. f' = f\<lparr>ib_get := g, reg_reads := n\<rparr>"
proof (rule push_wait.raw_induct [rotated, OF assms, where P = "\<lambda>rd f f'. \<exists>g n. f' = f\<lparr>ib_get := g, reg_reads := n\<rparr>"])
  fix wait :: "(nat \<Rightarrow> w32 \<Rightarrow> w32) \<Rightarrow> nvrm_fifo \<Rightarrow> nvrm_fifo option" and rd f f'
  assume IH: "\<And>rd f f'. wait rd f = Some f' \<Longrightarrow> \<exists>g n. f' = f\<lparr>ib_get := g, reg_reads := n\<rparr>"
    and e: "(if (ib_put f + 1) AND ib_mask f = ib_get f
      then let (g, f) = resch_fifo_read_reg rd 0x88 f in wait rd (f\<lparr>ib_get := g\<rparr>) else Some f) = Some f'"
  show "\<exists>g n. f' = f\<lparr>ib_get := g, reg_reads := n\<rparr>"
  proof (cases "(ib_put f + 1) AND ib_mask f = ib_get f")
    case True
    then show ?thesis using e IH by (force simp: resch_fifo_read_reg_def)
  next
    case False
    then have "f' = f" using e by simp
    then show ?thesis by (intro exI [of _ "ib_get f"] exI [of _ "reg_reads f"]) simp
  qed
qed

lemma push_wait_room: "(ib_put f + 1) AND ib_mask f \<noteq> ib_get f \<Longrightarrow> push_wait rd f = Some f"
  by (subst push_wait.simps) simp

lemma join_halves: "ucast (ucast w :: w32) OR push_bit 32 (ucast (ucast (drop_bit 32 w) :: w32)) = (w :: u64)"
  by (rule bit_word_eqI) (auto simp: bit_simps)

lemma push_spec:
  assumes "resch_fifo_push rd b l 0 f = Some f'" "ib_mask f = 0x3ff" "unat (ib_put f) < NSLOTS"
  shows "pb_frame f f'" "ib_slot f' (unat (ib_put f)) = ib_entry b l 0"
    "k \<noteq> unat (ib_put f) \<Longrightarrow> ib_slot f' k = ib_slot f k"
    "unat (ib_put f') = (unat (ib_put f) + 1) mod NSLOTS"
    "reg_writes f' = reg_writes f @ [(0x8c, ib_put f')]"
proof -
  let ?p = "ib_put f"
  obtain f1 where f1: "push_wait rd f = Some f1" using assms(1) by (auto simp: resch_fifo_push_def Let_def)
  then obtain g n where g: "f1 = f\<lparr>ib_get := g, reg_reads := n\<rparr>" using push_wait_frame by blast
  have i: "unat (?p * 2) = 2 * unat ?p" "unat (?p * 2 + 1) = 2 * unat ?p + 1"
    using assms(3) by (simp_all add: unat_word_ariths NSLOTS_def)
  have f': "f' = resch_fifo_write_reg 0x8c ((?p + 1) AND 0x3ff)
    (f\<lparr>ib_get := g, reg_reads := n, ib_map := (ib_map f)(2 * unat ?p := ucast (ib_entry b l 0),
        2 * unat ?p + 1 := ucast (drop_bit 32 (ib_entry b l 0))), ib_put := (?p + 1) AND 0x3ff,
       fifo_dummy := ((ib_map f)(2 * unat ?p := ucast (ib_entry b l 0),
        2 * unat ?p + 1 := ucast (drop_bit 32 (ib_entry b l 0)))) 0\<rparr>)"
    using assms(1,2) f1 i by (simp add: resch_fifo_push_def g Let_def)
  show "pb_frame f f'" by (simp add: f' pb_frame_def resch_fifo_write_reg_def)
  show "ib_slot f' (unat ?p) = ib_entry b l 0"
    using join_halves [of "ib_entry b l 0"] by (simp add: f' ib_slot_def resch_fifo_write_reg_def)
  show "k \<noteq> unat ?p \<Longrightarrow> ib_slot f' k = ib_slot f k"
    by (simp add: f' ib_slot_def resch_fifo_write_reg_def)
  have "unat (?p + 1) = unat ?p + 1" using unat_plus_small [of ?p 1] assms(3) by (simp add: NSLOTS_def)
  then show "unat (ib_put f') = (unat ?p + 1) mod NSLOTS"
    by (simp add: f' resch_fifo_write_reg_def unat_and_mask10 NSLOTS_def)
  show "reg_writes f' = reg_writes f @ [(0x8c, ib_put f')]" by (simp add: f' resch_fifo_write_reg_def)
qed


lemma push_returns_iff_room: "(ib_put f + 1) AND ib_mask f \<noteq> ib_get f \<Longrightarrow> \<exists>f'. resch_fifo_push rd b l n f = Some f' \<and> ib_get f' = ib_get f"
  by (simp add: resch_fifo_push_def push_wait_room resch_fifo_write_reg_def Let_def)

lemma seg_words_entry:
  assumes "unat b = unat (pb_base f) + 4 * p" "unat l = 4 * (q - p)" "p \<le> q" "q \<le> NWORDS"
    "unat (pb_base f) + 4 * NWORDS \<le> 2 ^ 40" "p < NWORDS"
  shows "seg_words f (ib_entry b l 0) = map (pb_map f) [p..<q]"
proof -
  have "unat b < 2 ^ 40" "unat l < 2 ^ 24" using assms by (simp_all add: NWORDS_def)
  then have "take_bit 40 (ib_entry b l 0) = b" "unat (drop_bit 40 (ib_entry b l 0)) = 4 * (q - p)"
    using ib_entry_decode assms(2) by simp_all
  then show ?thesis using assms(1,3) by (simp add: seg_words_def)
qed

text \<open>The words of the entries that were added between two states.\<close>

definition handed :: "nvrm_fifo \<Rightarrow> nvrm_fifo \<Rightarrow> w32 list" where
  "handed f f' = concat (map (\<lambda>k. seg_words f' (ib_slot f' k)) (cyc NSLOTS (unat (ib_put f)) (unat (ib_put f'))))"

lemma seg_words_frame: "pb_map f' = pb_map f \<Longrightarrow> pb_base f' = pb_base f \<Longrightarrow> seg_words f' = seg_words f"
  by (intro ext) (simp add: seg_words_def)

lemma cyc_mem_less: "k \<in> set (cyc n p q) \<Longrightarrow> p < n \<Longrightarrow> q < n \<Longrightarrow> k < n \<and> k \<noteq> q"
  by (auto simp: cyc_def split: if_splits)

lemma handed_push:
  assumes "resch_fifo_push rd b l 0 g = Some f'" "ib_mask g = 0x3ff" "unat (ib_put f) < NSLOTS" "unat (ib_put g) < NSLOTS"
    "(unat (ib_put g) + 1) mod NSLOTS \<noteq> unat (ib_put f)"
  shows "handed f f' = handed f g @ seg_words g (ib_entry b l 0)"
proof -
  note sp = push_spec [OF assms(1,2,4)]
  have sw: "seg_words f' = seg_words g" by (rule seg_words_frame) (use sp(1) in \<open>simp_all add: pb_frame_def\<close>)
  have "cyc NSLOTS (unat (ib_put f)) (unat (ib_put f')) = cyc NSLOTS (unat (ib_put f)) (unat (ib_put g)) @ [unat (ib_put g)]"
    unfolding sp(4) by (rule cyc_snoc [OF assms(3-5)])
  moreover have "map (\<lambda>k. seg_words g (ib_slot f' k)) (cyc NSLOTS (unat (ib_put f)) (unat (ib_put g))) =
      map (\<lambda>k. seg_words g (ib_slot g k)) (cyc NSLOTS (unat (ib_put f)) (unat (ib_put g)))"
    using sp(3) cyc_mem_less assms(3,4) by (metis (no_types, lifting) map_cong)
  then have "concat (map (\<lambda>k. seg_words g (ib_slot f' k)) (cyc NSLOTS (unat (ib_put f)) (unat (ib_put g)))) = handed f g"
    by (simp only: handed_def)
  ultimately show ?thesis using sp(2) sw by (simp add: handed_def)
qed


lemma unat_base_plus:
  assumes "unat (b :: u64) + 4 * NWORDS \<le> 2 ^ 40" "unat (x :: w32) < 4 * NWORDS"
  shows "unat (b + ucast x) = unat b + unat x"
proof -
  have x: "unat (ucast x :: u64) = unat x"
    using assms(2) by (simp add: unsigned_ucast_eq take_bit_nat_eq_self_iff NWORDS_def)
  then have "unat b + unat (ucast x :: u64) < 2 ^ 64" using assms by (simp add: NWORDS_def)
  then show ?thesis using x by (simp add: unat_word_ariths)
qed

lemma fire_forward:
  assumes wf: "fifo_wf f" and lt: "pb_put f < pb_pos f" and e: "nvrm_fire_ring rd f = Some f'"
  shows "pb_frame (f\<lparr>pb_put := pb_pos f\<rparr>) f'" "handed f f' = pending f" "unat (ib_put f') < NSLOTS"
proof -
  let ?b = "pb_base f + ucast (pb_put f)" and ?l = "pb_pos f - pb_put f"
  obtain g where g: "resch_fifo_push rd ?b ?l 0 f = Some g" and f': "f' = g\<lparr>pb_put := pb_pos g\<rparr>"
    using e lt by (auto simp: nvrm_fire_ring_def bind_eq_Some_conv word_gt_0 split: if_splits)
  have m: "ib_mask f = 0x3ff" "unat (ib_put f) < NSLOTS" using wf by (simp_all add: fifo_wf_def)
  note sp = push_spec [OF g m]
  obtain p q where pq: "unat (pb_put f) = 4 * p" "unat (pb_pos f) = 4 * q" "p < NWORDS" "q < NWORDS"
    using wf in_ring_word unfolding fifo_wf_def by meson
  have le: "p \<le> q" using lt pq by (simp add: word_less_nat_alt)
  have b: "unat ?b = unat (pb_base f) + 4 * p" using unat_base_plus wf pq by (simp add: fifo_wf_def)
  have l: "unat ?l = 4 * (q - p)" using lt pq le by (simp add: unat_sub word_le_nat_alt)
  have "seg_words f (ib_entry ?b ?l 0) = map (pb_map f) [p..<q]"
    using seg_words_entry [OF b l le] wf pq by (simp add: fifo_wf_def)
  moreover have "(unat (ib_put f) + 1) mod NSLOTS \<noteq> unat (ib_put f)"
    using m(2) by (cases "unat (ib_put f) + 1 = NSLOTS") (auto simp: NSLOTS_def)
  moreover have "handed f f' = handed f g" by (simp add: f' handed_def seg_words_def ib_slot_def)
  moreover have "handed f f = []" by (simp add: handed_def)
  ultimately show "handed f f' = pending f"
    using handed_push [OF g m(1) m(2) m(2)] le pq by (simp add: pending_def put_w_def pos_w_def cyc_def)
  show "pb_frame (f\<lparr>pb_put := pb_pos f\<rparr>) f'" using sp(1) by (simp add: f' pb_frame_def)
  show "unat (ib_put f') < NSLOTS" using sp(4) by (simp add: f' NSLOTS_def)
qed

lemma fire_wrap:
  assumes wf: "fifo_wf f" and lt: "pb_pos f < pb_put f" and e: "nvrm_fire_ring rd f = Some f'"
  shows "pb_frame (f\<lparr>pb_put := pb_pos f\<rparr>) f'" "handed f f' = pending f" "unat (ib_put f') < NSLOTS"
proof -
  let ?b = "pb_base f + ucast (pb_put f)" and ?l = "pb_size f - pb_put f"
  obtain g where g: "resch_fifo_push rd ?b ?l 0 f = Some g"
    and rest: "(if pb_pos g > 0 then resch_fifo_push rd (pb_base g) (pb_pos g) 0 (g\<lparr>pb_put := 0\<rparr>) else Some (g\<lparr>pb_put := 0\<rparr>))
        \<bind> (\<lambda>f. Some (f\<lparr>pb_put := pb_pos f\<rparr>)) = Some f'"
    using e lt by (auto simp: nvrm_fire_ring_def bind_eq_Some_conv Let_def split: if_splits)
  have m: "ib_mask f = 0x3ff" "unat (ib_put f) < NSLOTS" using wf by (simp_all add: fifo_wf_def)
  note sp = push_spec [OF g m]
  obtain p q where pq: "unat (pb_put f) = 4 * p" "unat (pb_pos f) = 4 * q" "p < NWORDS" "q < NWORDS"
    using wf in_ring_word unfolding fifo_wf_def by meson
  have le: "q < p" using lt pq by (simp add: word_less_nat_alt)
  have b: "unat ?b = unat (pb_base f) + 4 * p" using unat_base_plus wf pq by (simp add: fifo_wf_def)
  have "pb_put f \<le> pb_size f" using wf pq by (simp add: fifo_wf_def word_le_nat_alt in_ring_def NWORDS_def)
  then have l: "unat ?l = 4 * (NWORDS - p)" using pq wf by (simp add: unat_sub fifo_wf_def NWORDS_def)
  have first: "seg_words f (ib_entry ?b ?l 0) = map (pb_map f) [p..<NWORDS]"
    using seg_words_entry [OF b l] wf pq by (simp add: fifo_wf_def)
  have ne: "(unat (ib_put f) + 1) mod NSLOTS \<noteq> unat (ib_put f)"
    using m(2) by (cases "unat (ib_put f) + 1 = NSLOTS") (auto simp: NSLOTS_def)
  have "handed f f = []" by (simp add: handed_def)
  then have hg: "handed f g = map (pb_map f) [p..<NWORDS]" using handed_push [OF g m(1) m(2) m(2) ne] first by simp
  define h where "h = g\<lparr>pb_put := 0\<rparr>"
  have hh: "handed f h = handed f g" by (simp add: h_def handed_def seg_words_def ib_slot_def)
  have fr: "pb_map h = pb_map f" "pb_base h = pb_base f" "pb_pos h = pb_pos f" "ib_mask h = 0x3ff"
    "pb_mask h = pb_mask f" "pb_size h = pb_size f" "pb_get h = pb_get f"
    using sp(1) m by (simp_all add: h_def pb_frame_def)
  have putg: "unat (ib_put h) < NSLOTS" "unat (ib_put h) = (unat (ib_put f) + 1) mod NSLOTS"
    using sp(4) by (simp_all add: h_def NSLOTS_def)
  have pend: "pending f = map (pb_map f) [p..<NWORDS] @ map (pb_map f) [0..<q]"
    using le pq by (simp add: pending_def put_w_def pos_w_def cyc_def)
  show "handed f f' = pending f" "pb_frame (f\<lparr>pb_put := pb_pos f\<rparr>) f'" "unat (ib_put f') < NSLOTS"
  proof -
    have "handed f f' = pending f \<and> pb_frame (f\<lparr>pb_put := pb_pos f\<rparr>) f' \<and> unat (ib_put f') < NSLOTS"
    proof (cases "pb_pos f = 0")
      case True
      then have f': "f' = h\<lparr>pb_put := 0\<rparr>" using rest fr by (auto simp: h_def)
      have "handed f f' = handed f h" by (simp add: f' handed_def seg_words_def ib_slot_def)
      then show ?thesis using True hh hg pend pq fr putg m by (simp add: f' pb_frame_def)
    next
      case False
      then obtain k where k: "resch_fifo_push rd (pb_base h) (pb_pos h) 0 h = Some k" and f': "f' = k\<lparr>pb_put := pb_pos k\<rparr>"
        using rest fr by (auto simp: h_def bind_eq_Some_conv word_gt_0)
      note sk = push_spec [OF k fr(4) putg(1)]
      have "seg_words h (ib_entry (pb_base h) (pb_pos h) 0) = map (pb_map h) [0..<q]"
        by (rule seg_words_entry) (use wf pq fr in \<open>simp_all add: fifo_wf_def NWORDS_def\<close>)
      moreover have "(unat (ib_put h) + 1) mod NSLOTS \<noteq> unat (ib_put f)"
      proof -
        have "unat (ib_put f) + 2 < 2 * NSLOTS" using m(2) by (simp add: NSLOTS_def)
        then have "(unat (ib_put f) + 2) mod NSLOTS \<noteq> unat (ib_put f)"
          using m(2) by (cases "unat (ib_put f) + 2 < NSLOTS") (auto simp: NSLOTS_def le_mod_geq)
        then show ?thesis using putg(2) by (simp add: mod_simps)
      qed
      ultimately have "handed f k = pending f"
        using handed_push [OF k fr(4) m(2) putg(1)] hh hg pend fr by simp
      moreover have "handed f f' = handed f k" by (simp add: f' handed_def seg_words_def ib_slot_def)
      ultimately show ?thesis using sk(1,4) fr m by (simp add: f' pb_frame_def NSLOTS_def)
    qed
    then show "handed f f' = pending f" "pb_frame (f\<lparr>pb_put := pb_pos f\<rparr>) f'" "unat (ib_put f') < NSLOTS" by auto
  qed
qed


lemma fire_spec:
  assumes wf: "fifo_wf f" and e: "nvrm_fire_ring rd f = Some f'"
  shows "pb_frame (f\<lparr>pb_put := pb_pos f\<rparr>) f'" "handed f f' = pending f" "unat (ib_put f') < NSLOTS"
proof -
  consider "pb_put f < pb_pos f" | "pb_pos f < pb_put f" | "pb_pos f = pb_put f" by (meson linorder_cases)
  then have "pb_frame (f\<lparr>pb_put := pb_pos f\<rparr>) f' \<and> handed f f' = pending f \<and> unat (ib_put f') < NSLOTS"
  proof cases
    case 1
    then show ?thesis using fire_forward [OF wf _ e] by simp
  next
    case 2
    then show ?thesis using fire_wrap [OF wf _ e] by simp
  next
    case 3
    then have "f' = f" using e by (simp add: nvrm_fire_ring_def)
    then show ?thesis using 3 wf by (simp add: pb_frame_def handed_def pending_def put_w_def pos_w_def fifo_wf_def)
  qed
  then show "pb_frame (f\<lparr>pb_put := pb_pos f\<rparr>) f'" "handed f f' = pending f" "unat (ib_put f') < NSLOTS" by auto
qed

lemma fire_keeps_wf:
  assumes wf: "fifo_wf f" and e: "nvrm_fire_ring rd f = Some f'"
  shows "fifo_wf f'" "pending f' = []"
  using fire_spec [OF wf e] wf
  by (auto simp: pb_frame_def fifo_wf_def pending_def put_w_def pos_w_def get_w_def dist_def)

text \<open>Room for the two entries that a full buffer may need.\<close>

definition ib_room :: "nvrm_fifo \<Rightarrow> bool" where
  "ib_room f \<longleftrightarrow> (ib_put f + 1) AND ib_mask f \<noteq> ib_get f \<and> (((ib_put f + 1) AND ib_mask f) + 1) AND ib_mask f \<noteq> ib_get f"

lemma push_room:
  assumes "(ib_put f + 1) AND ib_mask f \<noteq> ib_get f"
  shows "\<exists>f'. resch_fifo_push rd b l n f = Some f' \<and> ib_get f' = ib_get f \<and> ib_mask f' = ib_mask f \<and>
    ib_put f' = (ib_put f + 1) AND ib_mask f \<and> reg_reads f' = reg_reads f"
  using assms by (simp add: resch_fifo_push_def push_wait_room resch_fifo_write_reg_def Let_def)

lemma fire_returns_with_room:
  assumes "ib_room f"
  shows "\<exists>f'. nvrm_fire_ring rd f = Some f' \<and> reg_reads f' = reg_reads f"
proof -
  obtain g where g: "resch_fifo_push rd (pb_base f + ucast (pb_put f)) (pb_size f - pb_put f) 0 f = Some g"
    "ib_get g = ib_get f" "ib_mask g = ib_mask f" "ib_put g = (ib_put f + 1) AND ib_mask f" "reg_reads g = reg_reads f"
    using push_room assms by (meson ib_room_def)
  obtain g' where g': "resch_fifo_push rd (pb_base f + ucast (pb_put f)) (pb_pos f - pb_put f) 0 f = Some g'" "reg_reads g' = reg_reads f"
    using push_room assms by (meson ib_room_def)
  have "(ib_put (g\<lparr>pb_put := 0\<rparr>) + 1) AND ib_mask (g\<lparr>pb_put := 0\<rparr>) \<noteq> ib_get (g\<lparr>pb_put := 0\<rparr>)"
    using g assms by (simp add: ib_room_def)
  then obtain h where "resch_fifo_push rd (pb_base g) (pb_pos g) 0 (g\<lparr>pb_put := 0\<rparr>) = Some h" "reg_reads h = reg_reads g"
    using push_room by fastforce
  then show ?thesis using g g' by (auto simp: nvrm_fire_ring_def Let_def)
qed

section \<open>Writing\<close>

lemma out_wait_room: "(pb_pos f + 4) AND pb_mask f \<noteq> pb_get f \<Longrightarrow> out_wait rd f = Some f"
  by (subst out_wait.simps) simp

lemma out_ring_spec:
  assumes wf: "fifo_wf f" and room: "dist (get_w f) (pos_w f) + 1 < NWORDS"
  shows "\<exists>f'. nvrm_out_ring rd w f = Some f' \<and> fifo_wf f' \<and> pending f' = pending f @ [w] \<and>
    dist (get_w f') (pos_w f') = dist (get_w f) (pos_w f) + 1 \<and> ib_put f' = ib_put f \<and> ib_get f' = ib_get f \<and> ib_mask f' = ib_mask f \<and>
    handed f f' = [] \<and> reg_reads f' = reg_reads f"
proof -
  have m: "pb_mask f = 0x3ffff" and r: "in_ring (pb_pos f)" "in_ring (pb_put f)" "in_ring (pb_get f)"
    and d: "dist (put_w f) (pos_w f) \<le> dist (get_w f) (pos_w f)" using wf by (simp_all add: fifo_wf_def)
  note adv = advance_word [OF r(1)]
  have lt: "get_w f < NWORDS" "put_w f < NWORDS" "pos_w f < NWORDS"
    using r by (simp_all add: in_ring_less get_w_def put_w_def pos_w_def)
  have ne: "(pos_w f + 1) mod NWORDS \<noteq> get_w f"
    using room lt by (cases "pos_w f + 1 = NWORDS") (auto simp: dist_def split: if_splits)
  then have ne': "(pb_pos f + 4) AND pb_mask f \<noteq> pb_get f"
    using adv in_ring_eq [OF adv(1) r(3)] m by (simp add: get_w_def pos_w_def)
  define f' where "f' = f\<lparr>pb_map := (pb_map f)(pos_w f := w), pb_pos := (pb_pos f + 4) AND 0x3ffff\<rparr>"
  have pd: "unat (pb_pos f div 4) = pos_w f" by (simp add: unat_div pos_w_def)
  have e: "nvrm_out_ring rd w f = Some f'"
    using ne' m by (simp add: nvrm_out_ring_def out_wait_room f'_def pd)
  have p': "pos_w f' = (pos_w f + 1) mod NWORDS" "put_w f' = put_w f" "get_w f' = get_w f"
    using adv(2) by (simp_all add: f'_def pos_w_def put_w_def get_w_def)
  note ds = dist_step [OF lt(2,1,3) ne d]
  have "fifo_wf f'" using wf adv(1) ds p' d by (simp add: fifo_wf_def) (simp add: f'_def)
  moreover have "pending f' = pending f @ [w]"
  proof -
    have "cyc NWORDS (put_w f) (pos_w f') = cyc NWORDS (put_w f) (pos_w f) @ [pos_w f]"
      unfolding p'(1) by (rule cyc_snoc [OF lt(2,3) ds(3)])
    moreover have "map (pb_map f') (cyc NWORDS (put_w f) (pos_w f)) = map (pb_map f) (cyc NWORDS (put_w f) (pos_w f))"
      by (rule map_cong) (use cyc_mem_less lt in \<open>auto simp: f'_def\<close>)
    ultimately show ?thesis using p' by (simp add: pending_def) (simp add: f'_def)
  qed
  moreover have "handed f f' = []" by (simp add: handed_def f'_def)
  ultimately show ?thesis using e ds p' by (auto simp: f'_def)
qed


lemma out_words_spec:
  "fifo_wf f \<Longrightarrow> dist (get_w f) (pos_w f) + length ws < NWORDS \<Longrightarrow>
    \<exists>f'. out_words rd ws f = Some f' \<and> fifo_wf f' \<and> pending f' = pending f @ ws \<and>
      ib_put f' = ib_put f \<and> ib_get f' = ib_get f \<and> ib_mask f' = ib_mask f"
proof (induction ws arbitrary: f)
  case Nil
  then show ?case by simp
next
  case (Cons w ws)
  then have "dist (get_w f) (pos_w f) + 1 < NWORDS" by simp
  then obtain g where g: "nvrm_out_ring rd w f = Some g" "fifo_wf g" "pending g = pending f @ [w]"
    "dist (get_w g) (pos_w g) = dist (get_w f) (pos_w f) + 1" "ib_put g = ib_put f" "ib_get g = ib_get f" "ib_mask g = ib_mask f"
    using out_ring_spec [OF Cons.prems(1), of rd w] by blast
  moreover have "dist (get_w g) (pos_w g) + length ws < NWORDS" using Cons.prems(2) g(4) by simp
  ultimately show ?case using Cons.IH [of g] by auto
qed

theorem ring_delivers_words:
  assumes "fifo_wf f" "ib_room f" "dist (get_w f) (pos_w f) + length ws < NWORDS"
  shows "\<exists>f'. out_words rd ws f \<bind> nvrm_fire_ring rd = Some f' \<and> handed f f' = pending f @ ws \<and> pending f' = [] \<and> fifo_wf f'"
proof -
  obtain g where g: "out_words rd ws f = Some g" "fifo_wf g" "pending g = pending f @ ws"
    "ib_put g = ib_put f" "ib_get g = ib_get f" "ib_mask g = ib_mask f"
    using out_words_spec [OF assms(1,3)] by blast
  then have "ib_room g" using assms(2) by (simp add: ib_room_def)
  then obtain f' where f': "nvrm_fire_ring rd g = Some f'" using fire_returns_with_room by blast
  have "handed f f' = handed g f'" using g by (simp add: handed_def)
  then show ?thesis using g f' fire_spec [OF g(2) f'] fire_keeps_wf [OF g(2) f'] by simp
qed

section \<open>Waiting for the GPU\<close>

definition gpu_get :: "(nat \<Rightarrow> w32 \<Rightarrow> w32) \<Rightarrow> nvrm_fifo \<Rightarrow> nat \<Rightarrow> w32" where
  "gpu_get rd f i = pb_get (resch_fifo_update_get rd (f\<lparr>reg_reads := i\<rparr>))"

lemma update_get_eq: "resch_fifo_update_get rd f = f\<lparr>pb_get := gpu_get rd f (reg_reads f), reg_reads := reg_reads f + 2\<rparr>"
  by (simp add: resch_fifo_update_get_def resch_fifo_read_reg_def gpu_get_def Let_def)

lemma fire_idle: "pb_pos f = pb_put f \<Longrightarrow> nvrm_fire_ring rd f = Some f"
  by (simp add: nvrm_fire_ring_def)

lemma idle_wait:
  assumes "pb_pos f = pb_put f" "(pb_pos f + 4) AND pb_mask f = pb_get f"
    "\<And>i. i < j \<Longrightarrow> gpu_get rd f (reg_reads f + 2 * i) = pb_get f" "gpu_get rd f (reg_reads f + 2 * j) \<noteq> pb_get f"
  shows "out_wait rd f = Some (f\<lparr>pb_get := gpu_get rd f (reg_reads f + 2 * j), reg_reads := reg_reads f + 2 * j + 2\<rparr>)"
  using assms
proof (induction j arbitrary: f)
  case 0
  then show ?case by (subst out_wait.simps) (simp add: fire_idle update_get_eq out_wait_room)
next
  case (Suc j)
  let ?g = "resch_fifo_update_get rd f"
  have g: "?g = f\<lparr>pb_get := pb_get f, reg_reads := reg_reads f + 2\<rparr>" using Suc.prems(3) [of 0] by (simp add: update_get_eq)
  have gg: "gpu_get rd ?g = gpu_get rd f" by (simp add: g gpu_get_def fun_eq_iff resch_fifo_update_get_def resch_fifo_read_reg_def Let_def)
  have "out_wait rd ?g = Some (?g\<lparr>pb_get := gpu_get rd ?g (reg_reads ?g + 2 * j), reg_reads := reg_reads ?g + 2 * j + 2\<rparr>)"
    by (rule Suc.IH) (use Suc.prems(1,2,4) Suc.prems(3) [of "Suc i" for i] gg in \<open>auto simp: g\<close>)
  moreover have "out_wait rd f = out_wait rd ?g"
    using Suc.prems(1,2) by (subst out_wait.simps) (simp add: fire_idle)
  ultimately show ?case by (simp add: gg) (simp add: g)
qed


text \<open>C28: A full push buffer: the writer hands over what is pending and goes on once the GPU moves.\<close>

theorem full_ring_waits_for_gpu:
  assumes wf: "fifo_wf f" and room: "ib_room f" and full: "(pb_pos f + 4) AND pb_mask f = pb_get f"
    and still: "\<And>i. i < j \<Longrightarrow> gpu_get rd f (reg_reads f + 2 * i) = pb_get f"
    and moved: "gpu_get rd f (reg_reads f + 2 * j) \<noteq> pb_get f"
  shows "\<exists>f1. nvrm_fire_ring rd f = Some f1 \<and> handed f f1 = pending f \<and>
    nvrm_out_ring rd w f = Some (f1\<lparr>pb_map := (pb_map f)(pos_w f := w), pb_pos := pb_get f,
      pb_get := gpu_get rd f (reg_reads f + 2 * j), reg_reads := reg_reads f + 2 * j + 2\<rparr>)"
proof -
  obtain f1 where f1: "nvrm_fire_ring rd f = Some f1" "reg_reads f1 = reg_reads f"
    using fire_returns_with_room [OF room] by blast
  note sp = fire_spec [OF wf f1(1)]
  have fr: "pb_pos f1 = pb_pos f" "pb_put f1 = pb_pos f" "pb_get f1 = pb_get f" "pb_mask f1 = pb_mask f" "pb_map f1 = pb_map f"
    using sp(1) by (simp_all add: pb_frame_def)
  have gg: "gpu_get rd f1 = gpu_get rd f"
    using sp(1) by (simp add: fun_eq_iff gpu_get_def pb_frame_def resch_fifo_update_get_def resch_fifo_read_reg_def Let_def)
  have "out_wait rd f = out_wait rd f1"
    using full f1(1) fr by (subst (1 2) out_wait.simps) (simp add: fire_idle)
  moreover have "out_wait rd f1 =
      Some (f1\<lparr>pb_get := gpu_get rd f1 (reg_reads f1 + 2 * j), reg_reads := reg_reads f1 + 2 * j + 2\<rparr>)"
    by (rule idle_wait) (use fr full still moved gg f1(2) in simp_all)
  ultimately have "nvrm_out_ring rd w f = Some (f1\<lparr>pb_map := (pb_map f)(pos_w f := w), pb_pos := pb_get f,
      pb_get := gpu_get rd f (reg_reads f + 2 * j), reg_reads := reg_reads f + 2 * j + 2\<rparr>)"
    using fr gg f1(2) full by (simp add: nvrm_out_ring_def unat_div pos_w_def)
  then show ?thesis using f1(1) sp(2) by blast
qed

text \<open>A GPU that stops in front of the writer stops the writer: nothing bounds the wait.\<close>

lemma stuck_gpu_stops_writer:
  assumes "pb_pos f = pb_put f" "(pb_pos f + 4) AND pb_mask f = pb_get f" "\<forall>i. gpu_get rd f i = pb_get f"
  shows "out_wait rd f = None"
proof (rule ccontr)
  assume "out_wait rd f \<noteq> None"
  then obtain y where y: "out_wait rd f = Some y" by auto
  have "\<not> (pb_pos f = pb_put f \<and> (pb_pos f + 4) AND pb_mask f = pb_get f \<and> (\<forall>i. gpu_get rd f i = pb_get f))"
  proof (rule out_wait.raw_induct [rotated, OF y, where P = "\<lambda>rd f y. \<not> (pb_pos f = pb_put f \<and>
      (pb_pos f + 4) AND pb_mask f = pb_get f \<and> (\<forall>i. gpu_get rd f i = pb_get f))"])
    fix wait :: "(nat \<Rightarrow> w32 \<Rightarrow> w32) \<Rightarrow> nvrm_fifo \<Rightarrow> nvrm_fifo option" and rd f y
    assume IH: "\<And>rd f y. wait rd f = Some y \<Longrightarrow> \<not> (pb_pos f = pb_put f \<and> (pb_pos f + 4) AND pb_mask f = pb_get f \<and>
        (\<forall>i. gpu_get rd f i = pb_get f))"
      and e: "(if (pb_pos f + 4) AND pb_mask f = pb_get f
        then nvrm_fire_ring rd f \<bind> (\<lambda>f. wait rd (resch_fifo_update_get rd f)) else Some f) = Some y"
    show "\<not> (pb_pos f = pb_put f \<and> (pb_pos f + 4) AND pb_mask f = pb_get f \<and> (\<forall>i. gpu_get rd f i = pb_get f))"
    proof
      assume "pb_pos f = pb_put f \<and> (pb_pos f + 4) AND pb_mask f = pb_get f \<and> (\<forall>i. gpu_get rd f i = pb_get f)"
      then have h: "pb_pos f = pb_put f" "(pb_pos f + 4) AND pb_mask f = pb_get f" "\<forall>i. gpu_get rd f i = pb_get f" by blast+
      let ?g = "resch_fifo_update_get rd f"
      have g: "?g = f\<lparr>pb_get := pb_get f, reg_reads := reg_reads f + 2\<rparr>" using h(3) by (simp add: update_get_eq)
      have gg: "gpu_get rd ?g = gpu_get rd f"
        by (simp add: g gpu_get_def fun_eq_iff resch_fifo_update_get_def resch_fifo_read_reg_def Let_def)
      have "wait rd ?g = Some y" using e h(2) fire_idle [OF h(1)] by simp
      then have "\<not> (pb_pos ?g = pb_put ?g \<and> (pb_pos ?g + 4) AND pb_mask ?g = pb_get ?g \<and> (\<forall>i. gpu_get rd ?g i = pb_get ?g))"
        by (rule IH)
      then show False using h unfolding gg by (simp add: g)
    qed
  qed
  then show False using assms by simp
qed

section \<open>Fields of the headers\<close>

lemma small_word_bits: "unat (x :: w32) < 2 ^ k \<Longrightarrow> bit x n \<Longrightarrow> n < k"
proof -
  assume "unat x < 2 ^ k" "bit x n"
  then have "take_bit k (unat x) = unat x" "bit (unat x) n" by (simp_all add: take_bit_nat_eq_self_iff bit_unsigned_iff bit_imp_le_length)
  then show "n < k" by (metis bit_take_bit_iff)
qed

lemma header_nvc0_fields:
  assumes "unat mthd < 2 ^ 15" "unat subc < 2 ^ 3" "unat len < 2 ^ 12" "unat kind < 2 ^ 4"
  shows "push_bit 2 (take_bit 13 (header_nvc0 kind subc mthd len)) = push_bit 2 (drop_bit 2 mthd)"
    "take_bit 3 (drop_bit 13 (header_nvc0 kind subc mthd len)) = subc"
    "take_bit 12 (drop_bit 16 (header_nvc0 kind subc mthd len)) = len" "drop_bit 28 (header_nvc0 kind subc mthd len) = kind"
proof -
  note b = small_word_bits [OF assms(1)] small_word_bits [OF assms(2)] small_word_bits [OF assms(3)] small_word_bits [OF assms(4)]
  show "push_bit 2 (take_bit 13 (header_nvc0 kind subc mthd len)) = push_bit 2 (drop_bit 2 mthd)"
    by (rule bit_word_eqI) (use b in \<open>force simp: header_nvc0_def bit_simps\<close>)
  show "take_bit 3 (drop_bit 13 (header_nvc0 kind subc mthd len)) = subc"
    by (rule bit_word_eqI) (use b in \<open>force simp: header_nvc0_def bit_simps\<close>)
  show "take_bit 12 (drop_bit 16 (header_nvc0 kind subc mthd len)) = len"
    by (rule bit_word_eqI) (use b in \<open>force simp: header_nvc0_def bit_simps\<close>)
  show "drop_bit 28 (header_nvc0 kind subc mthd len) = kind"
    by (rule bit_word_eqI) (use b in \<open>force simp: header_nvc0_def bit_simps\<close>)
qed


lemma header_nv50_fields:
  assumes "unat mthd < 2 ^ 13" "unat subc < 2 ^ 3" "unat len < 2 ^ 11"
  shows "take_bit 13 (header_nv50 subc mthd len) = mthd" "take_bit 3 (drop_bit 13 (header_nv50 subc mthd len)) = subc"
    "take_bit 11 (drop_bit 18 (header_nv50 subc mthd len)) = len"
proof -
  note b = small_word_bits [OF assms(1)] small_word_bits [OF assms(2)] small_word_bits [OF assms(3)]
  show "take_bit 13 (header_nv50 subc mthd len) = mthd"
    by (rule bit_word_eqI) (use b in \<open>force simp: header_nv50_def bit_simps\<close>)
  show "take_bit 3 (drop_bit 13 (header_nv50 subc mthd len)) = subc"
    by (rule bit_word_eqI) (use b in \<open>force simp: header_nv50_def bit_simps\<close>)
  show "take_bit 11 (drop_bit 18 (header_nv50 subc mthd len)) = len"
    by (rule bit_word_eqI) (use b in \<open>force simp: header_nv50_def bit_simps\<close>)
qed

text \<open>The queue of a new context, for memory that is empty.\<close>

definition fifo_setup :: "(nat \<Rightarrow> w32) \<Rightarrow> (nat \<Rightarrow> w32) \<Rightarrow> u64 \<Rightarrow> nvrm_fifo" where
  "fifo_setup ib pb base = \<lparr>ib_map = ib, ib_mask = push_bit 10 1 - 1, ib_put = 0, ib_get = 0,
     pb_map = pb, pb_base = base, pb_mask = push_bit 18 1 - 1, pb_size = push_bit 18 1, pb_pos = 0, pb_put = 0, pb_get = 0,
     fifo_dummy = 0, reg_writes = [], reg_reads = 0\<rparr>"

lemma fifo_setup_wf: "unat base + 4 * NWORDS \<le> 2 ^ 40 \<Longrightarrow> fifo_wf (fifo_setup ib pb base)"
  by (simp add: fifo_wf_def fifo_setup_def NSLOTS_def NWORDS_def in_ring_def dist_def put_w_def pos_w_def get_w_def)

lemma fifo_setup_room: "ib_room (fifo_setup ib pb base)"
  by (simp add: ib_room_def fifo_setup_def)

theorem ring_delivers_words_witness:
  "\<exists>f'. out_words (\<lambda>_ _. 0) [7, 9] (fifo_setup (\<lambda>_. 0) (\<lambda>_. 0) 0x20000) \<bind> nvrm_fire_ring (\<lambda>_ _. 0) = Some f' \<and>
    handed (fifo_setup (\<lambda>_. 0) (\<lambda>_. 0) 0x20000) f' = [7, 9]"
proof -
  let ?f = "fifo_setup (\<lambda>_. 0) (\<lambda>_. 0) 0x20000"
  have "fifo_wf ?f" by (rule fifo_setup_wf) (simp add: NWORDS_def)
  moreover have "dist (get_w ?f) (pos_w ?f) + length [7, 9 :: w32] < NWORDS" "pending ?f = []"
    by (simp_all add: dist_def get_w_def pos_w_def put_w_def pending_def fifo_setup_def NWORDS_def)
  ultimately show ?thesis using ring_delivers_words [OF _ fifo_setup_room, where ws = "[7, 9]"] by fastforce
qed

text \<open>A full buffer: the GPU has read nothing at the first look and the first word at the second.\<close>

definition full_fifo :: nvrm_fifo where
  "full_fifo = (fifo_setup (\<lambda>_. 0) (\<lambda>_. 5) 0x20000)\<lparr>pb_pos := 0x3fffc\<rparr>"

definition late_gpu :: "nat \<Rightarrow> w32 \<Rightarrow> w32" where
  "late_gpu i r = (if r = 0x5c then 0x80000000 else if i < 2 then 0x20000 else 0x20004)"

theorem full_ring_waits_for_gpu_witness:
  "\<exists>f'. nvrm_out_ring late_gpu 9 full_fifo = Some f' \<and> pb_pos f' = 0 \<and> pb_get f' = 4 \<and> reg_reads f' = 4"
proof -
  have wf: "fifo_wf full_fifo"
    by (simp add: full_fifo_def fifo_wf_def fifo_setup_def NSLOTS_def NWORDS_def in_ring_def dist_def put_w_def pos_w_def get_w_def)
  have room: "ib_room full_fifo" by (simp add: full_fifo_def ib_room_def fifo_setup_def)
  have full: "(pb_pos full_fifo + 4) AND pb_mask full_fifo = pb_get full_fifo" by (simp add: full_fifo_def fifo_setup_def)
  have g: "gpu_get late_gpu full_fifo 0 = 0" "gpu_get late_gpu full_fifo 2 = 4"
    by (simp_all add: gpu_get_def resch_fifo_update_get_def resch_fifo_read_reg_def late_gpu_def full_fifo_def fifo_setup_def)
  have z: "reg_reads full_fifo = 0" "pb_get full_fifo = 0" by (simp_all add: full_fifo_def fifo_setup_def)
  have still: "gpu_get late_gpu full_fifo (reg_reads full_fifo + 2 * i) = pb_get full_fifo" if "i < 1" for i using that g z by simp
  have moved: "gpu_get late_gpu full_fifo (reg_reads full_fifo + 2 * 1) \<noteq> pb_get full_fifo" using g z by (simp del: add_2_eq_Suc add_2_eq_Suc' add: numeral_2_eq_2 [symmetric])
  from full_ring_waits_for_gpu [OF wf room full still moved, where w = 9]
  show ?thesis using g z by (auto simp: numeral_2_eq_2 [symmetric])
qed

end
