(* ===== verification/Nvrm_Driver.thy ===== *)
theory Nvrm_Driver
  imports Prelude "HOL-Library.Multiset"
begin

text \<open>
  The calls of the GPU bindings to the NVIDIA driver (\<open>lib/nvrm/nvrm_ioctl.c\<close>) and the handles
  the client chooses for the driver's objects (\<open>nvrm_handle_alloc\<close>, \<open>nvrm_handle_free\<close> of
  \<open>lib/nvrm/nvrm_submthd.c\<close>).

  The driver, the C library and the kernel answer the calls: a parameter \<open>drv\<close> gives the
  answer from all earlier calls and their answers, the newest first. The context keeps these
  calls in \<open>calls\<close>. A constructor of \<open>drv_call\<close> has the file and the fields the code sets in the
  structure of the call, in the order of the code. An output that the code does not write
  is \<open>None\<close>. An operation is \<open>None\<close> when the code calls \<open>abort\<close> or
  writes through a null pointer.
\<close>

section \<open>Calls and answers\<close>

datatype nvrm_struct = nvrm_handle | nvrm_bo | nvrm_vspace | nvrm_channel | nvrm_eng | nvrm_context | nvrm_desc

datatype drv_call =
    CREATE_VSPACE int w32 w32 w32 w32 w32 u64 u64
  | CREATE_DMA int w32 w32 w32 w32 w32 w32 u64 u64
  | CALL int w32 w32 w32 "u64 list" w32
  | CREATE int w32 w32 w32 w32 "u64 list"
  | DESTROY int w32 w32 w32
  | QUERY int w32 w32 w32 "u64 list" w32
  | UNK4D int w32 w32 u64 u64 u64 string
  | CARD_INFO int w32
  | ENV_INFO int
  | CHECK_VERSION_STR int w32 string
  | VSPACE_MAP int w32 w32 w32 w32 u64 u64 w32
  | VSPACE_UNMAP int w32 w32 w32 w32
  | HOST_MAP int w32 w32 w32 u64 u64
  | HOST_UNMAP int w32 w32 w32 u64
  | MEMORY int w32 w32 w32 w32 w32 w32 w32 u64 u64
  | OPEN string
  | FCNTL int
  | CLOSE int
  | MMAP int u64 u64
  | MUNMAP u64 u64
  | ALLOC nvrm_struct
  | FREE nvrm_struct

text \<open>
  An answer: the value of the call, the field \<open>status\<close> of its structure, the output fields, and
  the words the driver leaves in a structure passed by address. \<open>card\<close> and \<open>card2\<close> are the two
  readings of the card table, as (vendor, device, size of the frame buffer).
\<close>

record drv_reply =
  rc :: int
  status :: w32
  r_foffset :: u64
  r_limit :: u64
  r_addr :: u64
  r_words :: "nat \<Rightarrow> w32"
  r_pat :: w32
  card :: "nat \<Rightarrow> 16 word \<times> 16 word \<times> u64"
  card2 :: "nat \<Rightarrow> 16 word \<times> 16 word \<times> u64"

record nvrm_device =
  dev_idx :: int
  gpu_id :: w32
  dev_fd :: int
  odev :: w32
  osubdev :: w32

record nvrm_context =
  fd_ctl :: int
  ctx_cid :: w32
  devs :: "nvrm_device list"
  hchain :: "w32 list"
  ver_major :: int
  calls :: "(drv_call \<times> drv_reply) list"

type_synonym drv = "(drv_call \<times> drv_reply) list \<Rightarrow> drv_call \<Rightarrow> drv_reply"

definition sys_call :: "drv \<Rightarrow> drv_call \<Rightarrow> nvrm_context \<Rightarrow> drv_reply \<times> nvrm_context" where
  "sys_call drv c s = (let r = drv (calls s) c in (r, s\<lparr>calls := (c, r) # calls s\<rparr>))"

text \<open>\<open>if (ioctl(...) < 0) return -1; return arg.status;\<close>\<close>

definition result :: "drv_reply \<Rightarrow> int" where
  "result r = (if rc r < 0 then -1 else sint (status r))"

section \<open>The driver calls\<close>

definition nvrm_ioctl_create_vspace :: "drv \<Rightarrow> nvrm_device \<Rightarrow> w32 \<Rightarrow> w32 \<Rightarrow> w32 \<Rightarrow> w32 \<Rightarrow> u64 \<Rightarrow> nvrm_context \<Rightarrow> (int \<times> u64 \<times> u64 option) \<times> nvrm_context" where
  "nvrm_ioctl_create_vspace drv dev parent handle cls flags limit s =
     (let (r, s) = sys_call drv (CREATE_VSPACE (dev_fd dev) (ctx_cid s) parent handle cls flags 0 limit) s
      in if rc r < 0 then ((-1, limit, None), s) else ((sint (status r), r_limit r, Some (r_foffset r)), s))"

definition nvrm_ioctl_create_dma :: "drv \<Rightarrow> w32 \<Rightarrow> w32 \<Rightarrow> w32 \<Rightarrow> w32 \<Rightarrow> u64 \<Rightarrow> u64 \<Rightarrow> nvrm_context \<Rightarrow> int \<times> nvrm_context" where
  "nvrm_ioctl_create_dma drv parent handle cls flags base limit s =
     (let (r, s) = sys_call drv (CREATE_DMA (fd_ctl s) (ctx_cid s) handle cls flags 0 parent base limit) s in (result r, s))"

definition nvrm_ioctl_call :: "drv \<Rightarrow> w32 \<Rightarrow> w32 \<Rightarrow> u64 list \<Rightarrow> w32 \<Rightarrow> nvrm_context \<Rightarrow> (int \<times> (nat \<Rightarrow> w32)) \<times> nvrm_context" where
  "nvrm_ioctl_call drv handle mthd arg sz s =
     (let (r, s) = sys_call drv (CALL (fd_ctl s) (ctx_cid s) handle mthd arg sz) s in ((result r, r_words r), s))"

definition nvrm_ioctl_create :: "drv \<Rightarrow> w32 \<Rightarrow> w32 \<Rightarrow> w32 \<Rightarrow> u64 list \<Rightarrow> nvrm_context \<Rightarrow> (int \<times> (nat \<Rightarrow> w32)) \<times> nvrm_context" where
  "nvrm_ioctl_create drv parent handle cls arg s =
     (let (r, s) = sys_call drv (CREATE (fd_ctl s) (ctx_cid s) parent handle cls arg) s in ((result r, r_words r), s))"

definition nvrm_ioctl_destroy :: "drv \<Rightarrow> w32 \<Rightarrow> w32 \<Rightarrow> nvrm_context \<Rightarrow> int \<times> nvrm_context" where
  "nvrm_ioctl_destroy drv parent handle s =
     (let (r, s) = sys_call drv (DESTROY (fd_ctl s) (ctx_cid s) parent handle) s in (result r, s))"

definition nvrm_ioctl_query :: "drv \<Rightarrow> w32 \<Rightarrow> w32 \<Rightarrow> u64 list \<Rightarrow> w32 \<Rightarrow> nvrm_context \<Rightarrow> (int \<times> (nat \<Rightarrow> w32)) \<times> nvrm_context" where
  "nvrm_ioctl_query drv handle query arg sz s =
     (let (r, s) = sys_call drv (QUERY (fd_ctl s) (ctx_cid s) handle query arg sz) s in ((result r, r_words r), s))"

definition nvrm_ioctl_unk4d :: "drv \<Rightarrow> w32 \<Rightarrow> string \<Rightarrow> nvrm_context \<Rightarrow> int \<times> nvrm_context" where
  "nvrm_ioctl_unk4d drv handle str s =
     (let (r, s) = sys_call drv (UNK4D (fd_ctl s) (ctx_cid s) handle 1 0 (word_of_nat (length str)) str) s in (result r, s))"

definition nvrm_ioctl_card_info :: "drv \<Rightarrow> nvrm_context \<Rightarrow> int \<times> nvrm_context" where
  "nvrm_ioctl_card_info drv s =
     (let (r, s) = sys_call drv (CARD_INFO (fd_ctl s) 0xffffffff) s in (if rc r < 0 then -1 else 0, s))"

text \<open>A field of a card, read from the table in the layout of the driver's version.\<close>

definition card_field :: "(16 word \<times> 16 word \<times> u64 \<Rightarrow> 'a) \<Rightarrow> drv \<Rightarrow> nat \<Rightarrow> nvrm_context \<Rightarrow> (int \<times> 'a option) \<times> nvrm_context" where
  "card_field field drv idx s =
     (let (r, s) = sys_call drv (CARD_INFO (fd_ctl s) 0xffffffff) s
      in if rc r < 0 then ((-1, None), s)
         else if ver_major s < 331 then ((0, Some (field (card r idx))), s) else ((0, Some (field (card2 r idx))), s))"

definition nvrm_ioctl_get_fb_size :: "drv \<Rightarrow> nat \<Rightarrow> nvrm_context \<Rightarrow> (int \<times> u64 option) \<times> nvrm_context" where
  "nvrm_ioctl_get_fb_size = card_field (\<lambda>(v, d, sz). sz)"

definition nvrm_ioctl_get_vendor_id :: "drv \<Rightarrow> nat \<Rightarrow> nvrm_context \<Rightarrow> (int \<times> 16 word option) \<times> nvrm_context" where
  "nvrm_ioctl_get_vendor_id = card_field (\<lambda>(v, d, sz). v)"

definition nvrm_ioctl_get_device_id :: "drv \<Rightarrow> nat \<Rightarrow> nvrm_context \<Rightarrow> (int \<times> 16 word option) \<times> nvrm_context" where
  "nvrm_ioctl_get_device_id = card_field (\<lambda>(v, d, sz). d)"

definition nvrm_ioctl_env_info :: "drv \<Rightarrow> nvrm_context \<Rightarrow> (int \<times> w32 option) \<times> nvrm_context" where
  "nvrm_ioctl_env_info drv s =
     (let (r, s) = sys_call drv (ENV_INFO (fd_ctl s)) s in if rc r < 0 then ((-1, None), s) else ((0, Some (r_pat r)), s))"

text \<open>\<open>strncpy\<close> into 64 characters; the answer is the field \<open>reply\<close>.\<close>

definition nvrm_ioctl_check_version_str :: "drv \<Rightarrow> w32 \<Rightarrow> string \<Rightarrow> nvrm_context \<Rightarrow> int \<times> nvrm_context" where
  "nvrm_ioctl_check_version_str drv cmd vernum s =
     (let (r, s) = sys_call drv (CHECK_VERSION_STR (fd_ctl s) cmd (take 0x40 vernum)) s
      in (if rc r < 0 then -1 else sint (r_words r 1), s))"

definition nvrm_ioctl_vspace_map :: "drv \<Rightarrow> w32 \<Rightarrow> w32 \<Rightarrow> w32 \<Rightarrow> u64 \<Rightarrow> u64 \<Rightarrow> nvrm_context \<Rightarrow> (int \<times> u64 option) \<times> nvrm_context" where
  "nvrm_ioctl_vspace_map drv dev vspace handle base sz s =
     (let (r, s) = sys_call drv (VSPACE_MAP (fd_ctl s) (ctx_cid s) dev vspace handle base sz 0) s
      in if rc r < 0 then ((-1, None), s) else ((sint (status r), Some (r_addr r)), s))"

text \<open>The address to unmap is not passed on.\<close>

definition nvrm_ioctl_vspace_unmap :: "drv \<Rightarrow> w32 \<Rightarrow> w32 \<Rightarrow> w32 \<Rightarrow> u64 \<Rightarrow> nvrm_context \<Rightarrow> int \<times> nvrm_context" where
  "nvrm_ioctl_vspace_unmap drv dev vspace handle addr s =
     (let (r, s) = sys_call drv (VSPACE_UNMAP (fd_ctl s) (ctx_cid s) dev vspace handle) s in (result r, s))"

definition nvrm_ioctl_host_map :: "drv \<Rightarrow> w32 \<Rightarrow> w32 \<Rightarrow> u64 \<Rightarrow> u64 \<Rightarrow> nvrm_context \<Rightarrow> (int \<times> u64 option) \<times> nvrm_context" where
  "nvrm_ioctl_host_map drv subdev handle base sz s =
     (let (r, s) = sys_call drv (HOST_MAP (fd_ctl s) (ctx_cid s) subdev handle base (sz - 1)) s
      in if rc r < 0 then ((-1, None), s) else ((sint (status r), Some (r_foffset r)), s))"

definition nvrm_ioctl_host_unmap :: "drv \<Rightarrow> w32 \<Rightarrow> w32 \<Rightarrow> u64 \<Rightarrow> nvrm_context \<Rightarrow> int \<times> nvrm_context" where
  "nvrm_ioctl_host_unmap drv subdev handle foffset s =
     (let (r, s) = sys_call drv (HOST_UNMAP (fd_ctl s) (ctx_cid s) subdev handle foffset) s in (result r, s))"

definition nvrm_ioctl_memory :: "drv \<Rightarrow> w32 \<Rightarrow> w32 \<Rightarrow> w32 \<Rightarrow> w32 \<Rightarrow> w32 \<Rightarrow> u64 \<Rightarrow> u64 \<Rightarrow> nvrm_context \<Rightarrow> int \<times> nvrm_context" where
  "nvrm_ioctl_memory drv parent vspace handle flags1 flags2 base sz s =
     (let (r, s) = sys_call drv (MEMORY (fd_ctl s) (ctx_cid s) parent 2 vspace handle flags1 flags2 sz base) s in (result r, s))"

text \<open>The driver writes the identity of the context into the context.\<close>

definition nvrm_create_cid :: "drv \<Rightarrow> nvrm_context \<Rightarrow> int \<times> nvrm_context" where
  "nvrm_create_cid drv s =
     (let ((r, ws), s) = nvrm_ioctl_create drv 0 0 0 [ucast (ctx_cid s)] s in (r, s\<lparr>ctx_cid := ws 0\<rparr>))"

section \<open>Memory of the process\<close>

definition alloc :: "drv \<Rightarrow> nvrm_struct \<Rightarrow> nvrm_context \<Rightarrow> bool \<times> nvrm_context" where
  "alloc drv k s = (let (r, s) = sys_call drv (ALLOC k) s in (rc r \<ge> 0, s))"

definition free :: "drv \<Rightarrow> nvrm_struct \<Rightarrow> nvrm_context \<Rightarrow> nvrm_context" where
  "free drv k s = snd (sys_call drv (FREE k) s)"

section \<open>Handles\<close>

definition MAX_HANDLE :: w32 where "MAX_HANDLE = 0x40000000"

fun handle_insert :: "w32 \<Rightarrow> w32 list \<Rightarrow> w32 \<times> w32 list" where
  "handle_insert e [] = (e, [e])"
| "handle_insert e (h # hs) =
     (if h = e then let (x, l) = handle_insert (e + 1) hs in (x, h # l) else (e, e # h # hs))"

definition nvrm_handle_alloc :: "drv \<Rightarrow> nvrm_context \<Rightarrow> (w32 \<times> nvrm_context) option" where
  "nvrm_handle_alloc drv s =
     (let (e, l) = handle_insert 1 (hchain s)
      in if e > MAX_HANDLE then None
         else let (ok, s) = alloc drv nvrm_handle s
              in if ok then Some (e, s\<lparr>hchain := l\<rparr>) else None)"

fun handle_remove :: "w32 \<Rightarrow> w32 list \<Rightarrow> w32 list option" where
  "handle_remove h [] = None"
| "handle_remove h (x # xs) = (if x \<noteq> h then map_option (Cons x) (handle_remove h xs) else Some xs)"

definition nvrm_handle_free :: "drv \<Rightarrow> w32 \<Rightarrow> nvrm_context \<Rightarrow> nvrm_context option" where
  "nvrm_handle_free drv h s = do {
     l \<leftarrow> handle_remove h (hchain s);
     Some (free drv nvrm_handle (s\<lparr>hchain := l\<rparr>))
   }"

section \<open>The handles in use\<close>

definition handles_ok :: "w32 list \<Rightarrow> bool" where
  "handles_ok l \<longleftrightarrow> sorted_wrt (<) l \<and> (\<forall>h\<in>set l. 0 < h \<and> h \<le> MAX_HANDLE)"

lemma handle_insert_spec:
  "handle_insert e l = (x, l') \<Longrightarrow> sorted_wrt (<) l \<Longrightarrow> \<forall>h\<in>set l. e \<le> h \<and> h \<le> MAX_HANDLE \<Longrightarrow> e \<le> MAX_HANDLE + 1 \<Longrightarrow>
    e \<le> x \<and> x \<le> MAX_HANDLE + 1 \<and> x \<notin> set l \<and> set l' = insert x (set l) \<and> sorted_wrt (<) l' \<and>
    handle_remove x l' = Some l \<and> (\<forall>y. e \<le> y \<and> y < x \<longrightarrow> y \<in> set l)"
proof (induction e l arbitrary: x l' rule: handle_insert.induct)
  case (1 e)
  then show ?case by auto
next
  case (2 e h hs)
  show ?case
  proof (cases "h = e")
    case True
    obtain y m where ym: "handle_insert (e + 1) hs = (y, m)" by fastforce
    then have x: "x = y" "l' = h # m" using 2(2) True by simp_all
    have e: "e \<le> MAX_HANDLE" using 2(4) True by simp
    then have lt: "e < e + 1" "e + 1 \<le> MAX_HANDLE + 1"
      by (simp_all add: MAX_HANDLE_def word_less_nat_alt word_le_nat_alt unat_word_ariths)
    have "\<forall>h\<in>set hs. e + 1 \<le> h \<and> h \<le> MAX_HANDLE" using 2(3,4) True by (auto intro: inc_le)
    then have "e + 1 \<le> y \<and> y \<le> MAX_HANDLE + 1 \<and> y \<notin> set hs \<and> set m = insert y (set hs) \<and> sorted_wrt (<) m \<and>
        handle_remove y m = Some hs \<and> (\<forall>z. e + 1 \<le> z \<and> z < y \<longrightarrow> z \<in> set hs)"
      using 2(1) [OF True ym] 2(3) lt by simp
    moreover have "z = e \<or> e + 1 \<le> z" if "e \<le> z" for z using that by (metis inc_le order_le_less)
    ultimately show ?thesis using x True lt 2(3) by (auto simp: order_less_le_trans)
  next
    case False
    then have "e < h" "\<forall>z\<in>set hs. h < z" using 2(3,4) by auto
    then have "\<forall>z\<in>set (h # hs). e < z" by (auto intro: less_trans)
    then have "e \<notin> set (h # hs)" "sorted_wrt (<) (e # h # hs)" using 2(3) by auto
    moreover have "x = e" "l' = e # h # hs" using 2(2) False by auto
    ultimately show ?thesis using 2(5) by auto
  qed
qed

lemma handle_remove_Some: "(\<exists>l'. handle_remove h l = Some l') \<longleftrightarrow> h \<in> set l"
  by (induction l) auto

lemma handle_remove_remove1: "handle_remove h l = Some l' \<Longrightarrow> l' = remove1 h l \<and> h \<in> set l"
  by (induction l arbitrary: l') (auto split: if_splits)

lemma handle_remove_eq: "h \<in> set l \<Longrightarrow> handle_remove h l = Some (remove1 h l)"
  by (induction l) auto

lemma handles_ok_remove1: "handles_ok l \<Longrightarrow> handles_ok (remove1 h l)"
  by (auto simp: handles_ok_def dest: notin_set_remove1) (induction l, auto dest: notin_set_remove1)


section \<open>What the client holds\<close>

text \<open>
  The resources of the client: the objects the driver created, the mappings, the memory and the
  files. The context object itself goes with its file. \<open>effect\<close> is what a call and its answer
  change: a resource is there when the call that makes it succeeded, and gone when the call that
  gives it back succeeded. A refused release leaves it; the bindings look at no answer of a release.
\<close>

datatype resource = Obj w32 | Gpu_mapping w32 | Host_mapping w32 | Mapping u64 | Mem nvrm_struct | File int

fun effect :: "drv_call \<times> drv_reply \<Rightarrow> resource multiset \<Rightarrow> resource multiset" where
  "effect (CREATE_VSPACE _ _ _ h _ _ _ _, r) M = (if result r = 0 then add_mset (Obj h) M else M)"
| "effect (CREATE_DMA _ _ h _ _ _ _ _ _, r) M = (if result r = 0 then add_mset (Obj h) M else M)"
| "effect (CREATE _ _ _ h cls _, r) M = (if result r = 0 \<and> cls \<noteq> 0 then add_mset (Obj h) M else M)"
| "effect (MEMORY _ _ _ _ _ h _ _ _ _, r) M = (if result r = 0 then add_mset (Obj h) M else M)"
| "effect (DESTROY _ _ _ h, r) M = (if result r = 0 then M - {#Obj h#} else M)"
| "effect (VSPACE_MAP _ _ _ _ h _ _ _, r) M = (if result r = 0 then add_mset (Gpu_mapping h) M else M)"
| "effect (VSPACE_UNMAP _ _ _ _ h, r) M = (if result r = 0 then M - {#Gpu_mapping h#} else M)"
| "effect (HOST_MAP _ _ _ h _ _, r) M = (if result r = 0 then add_mset (Host_mapping h) M else M)"
| "effect (HOST_UNMAP _ _ _ h _, r) M = (if result r = 0 then M - {#Host_mapping h#} else M)"
| "effect (MMAP _ _ _, r) M = (if rc r \<ge> 0 then add_mset (Mapping (r_addr r)) M else M)"
| "effect (MUNMAP a _, r) M = (if rc r \<ge> 0 then M - {#Mapping a#} else M)"
| "effect (ALLOC k, r) M = (if rc r \<ge> 0 then add_mset (Mem k) M else M)"
| "effect (FREE k, r) M = M - {#Mem k#}"
| "effect (OPEN _, r) M = (if rc r \<ge> 0 then add_mset (File (rc r)) M else M)"
| "effect (CLOSE f, r) M = (if rc r \<ge> 0 then M - {#File f#} else M)"
| "effect _ M = M"

primrec outstanding :: "(drv_call \<times> drv_reply) list \<Rightarrow> resource multiset" where
  "outstanding [] = {#}"
| "outstanding (c # cs) = effect c (outstanding cs)"

definition own :: "nvrm_context \<Rightarrow> resource multiset" where "own s = outstanding (calls s)"

text \<open>
  The books of the client: what it has taken and not yet asked to have taken back, whatever the
  answer was. They agree with the resources as long as no release is refused (\<open>accepted\<close>), and
  never show more than there is.
\<close>

fun accepted :: "drv_call \<times> drv_reply \<Rightarrow> bool" where
  "accepted (DESTROY _ _ _ _, r) = (result r = 0)"
| "accepted (VSPACE_UNMAP _ _ _ _ _, r) = (result r = 0)"
| "accepted (HOST_UNMAP _ _ _ _ _, r) = (result r = 0)"
| "accepted (MUNMAP _ _, r) = (rc r \<ge> 0)"
| "accepted (CLOSE _, r) = (rc r \<ge> 0)"
| "accepted _ = True"

definition all_accepted :: "nvrm_context \<Rightarrow> bool" where "all_accepted s \<longleftrightarrow> (\<forall>c\<in>set (calls s). accepted c)"

fun book :: "drv_call \<times> drv_reply \<Rightarrow> resource multiset \<Rightarrow> resource multiset" where
  "book (DESTROY _ _ _ h, r) M = M - {#Obj h#}"
| "book (VSPACE_UNMAP _ _ _ _ h, r) M = M - {#Gpu_mapping h#}"
| "book (HOST_UNMAP _ _ _ h _, r) M = M - {#Host_mapping h#}"
| "book (MUNMAP a _, r) M = M - {#Mapping a#}"
| "book (CLOSE f, r) M = M - {#File f#}"
| "book c M = effect c M"

primrec booked :: "(drv_call \<times> drv_reply) list \<Rightarrow> resource multiset" where
  "booked [] = {#}"
| "booked (c # cs) = book c (booked cs)"

definition kept :: "nvrm_context \<Rightarrow> resource multiset" where "kept s = booked (calls s)"

lemma book_accepted: "accepted c \<Longrightarrow> book c M = effect c M"
  by (cases "(c, M)" rule: book.cases) simp_all

lemma kept_own: "all_accepted s \<Longrightarrow> own s = kept s"
proof -
  have "\<forall>c\<in>set cs. accepted c \<Longrightarrow> outstanding cs = booked cs" for cs
    by (induction cs) (simp_all add: book_accepted)
  then show "all_accepted s \<Longrightarrow> own s = kept s" by (simp add: own_def kept_def all_accepted_def)
qed

lemma book_below: "M \<subseteq># N \<Longrightarrow> book c M \<subseteq># effect c N"
proof -
  assume "M \<subseteq># N"
  moreover from this have "M - {#x#} \<subseteq># N - {#x#}" for x
    by (auto simp: subseteq_mset_def diff_le_mono)
  moreover from \<open>M \<subseteq># N\<close> have "M - {#x#} \<subseteq># N" for x by (meson diff_subset_eq_self subset_mset.order_trans)
  ultimately show ?thesis by (cases "(c, M)" rule: book.cases) (auto simp del: insert_DiffM)
qed

lemma kept_below: "kept s \<subseteq># own s"
proof -
  have "booked cs \<subseteq># outstanding cs" for cs by (induction cs) (simp_all add: book_below)
  then show ?thesis by (simp add: own_def kept_def)
qed

text \<open>What no driver call changes.\<close>

definition keeps :: "nvrm_context \<Rightarrow> nvrm_context \<Rightarrow> bool" where
  "keeps s s' \<longleftrightarrow> fd_ctl s' = fd_ctl s \<and> ctx_cid s' = ctx_cid s \<and> devs s' = devs s \<and> ver_major s' = ver_major s"

lemma keeps_refl [simp]: "keeps s s" by (simp add: keeps_def)
lemma keeps_trans [trans]: "keeps s t \<Longrightarrow> keeps t u \<Longrightarrow> keeps s u" by (simp add: keeps_def)

lemma kept_Cons: "kept (s\<lparr>calls := c # calls s\<rparr>) = book c (kept s)" by (simp add: kept_def)

lemma result_zero: "result r = 0 \<longleftrightarrow> 0 \<le> rc r \<and> status r = 0"
  by (auto simp: result_def) (metis signed_0 signed_word_eqI)

named_theorems drv_specs \<open>what a call changes, as a destruction rule\<close>

lemma create_vspace_spec [drv_specs]:
  "nvrm_ioctl_create_vspace drv d p h c f l s = ((x, lim, fo), s') \<Longrightarrow>
    kept s' = (if x = 0 then add_mset (Obj h) (kept s) else kept s) \<and> hchain s' = hchain s \<and> keeps s s'"
  by (auto simp: nvrm_ioctl_create_vspace_def sys_call_def Let_def kept_Cons result_def keeps_def split: if_splits)

lemma create_dma_spec [drv_specs]:
  "nvrm_ioctl_create_dma drv p h c f b l s = (x, s') \<Longrightarrow>
    kept s' = (if x = 0 then add_mset (Obj h) (kept s) else kept s) \<and> hchain s' = hchain s \<and> keeps s s'"
  by (auto simp: nvrm_ioctl_create_dma_def sys_call_def Let_def kept_Cons keeps_def)

lemma call_spec [drv_specs]:
  "nvrm_ioctl_call drv h m a z s = ((x, w), s') \<Longrightarrow> kept s' = kept s \<and> hchain s' = hchain s \<and> keeps s s'"
  by (auto simp: nvrm_ioctl_call_def sys_call_def Let_def kept_Cons keeps_def)

lemma create_spec [drv_specs]:
  "nvrm_ioctl_create drv p h c a s = ((x, w), s') \<Longrightarrow>
    kept s' = (if x = 0 \<and> c \<noteq> 0 then add_mset (Obj h) (kept s) else kept s) \<and> hchain s' = hchain s \<and> keeps s s'"
  by (auto simp: nvrm_ioctl_create_def sys_call_def Let_def kept_Cons keeps_def)

lemma destroy_spec [drv_specs]:
  "nvrm_ioctl_destroy drv p h s = (x, s') \<Longrightarrow> kept s' = kept s - {#Obj h#} \<and> hchain s' = hchain s \<and> keeps s s'"
  by (auto simp: nvrm_ioctl_destroy_def sys_call_def Let_def kept_Cons keeps_def)

lemma vspace_map_spec [drv_specs]:
  "nvrm_ioctl_vspace_map drv d v h b z s = ((x, a), s') \<Longrightarrow>
    kept s' = (if x = 0 then add_mset (Gpu_mapping h) (kept s) else kept s) \<and> hchain s' = hchain s \<and> keeps s s' \<and> (x = 0 \<longrightarrow> a \<noteq> None)"
  by (auto simp: nvrm_ioctl_vspace_map_def sys_call_def Let_def kept_Cons result_def keeps_def split: if_splits)

lemma vspace_unmap_spec [drv_specs]:
  "nvrm_ioctl_vspace_unmap drv d v h a s = (x, s') \<Longrightarrow> kept s' = kept s - {#Gpu_mapping h#} \<and> hchain s' = hchain s \<and> keeps s s'"
  by (auto simp: nvrm_ioctl_vspace_unmap_def sys_call_def Let_def kept_Cons keeps_def)

lemma host_map_spec [drv_specs]:
  "nvrm_ioctl_host_map drv d h b z s = ((x, a), s') \<Longrightarrow>
    kept s' = (if x = 0 then add_mset (Host_mapping h) (kept s) else kept s) \<and> hchain s' = hchain s \<and> keeps s s' \<and> (x = 0 \<longrightarrow> a \<noteq> None)"
  by (auto simp: nvrm_ioctl_host_map_def sys_call_def Let_def kept_Cons result_def keeps_def split: if_splits)

lemma host_unmap_spec [drv_specs]:
  "nvrm_ioctl_host_unmap drv d h a s = (x, s') \<Longrightarrow> kept s' = kept s - {#Host_mapping h#} \<and> hchain s' = hchain s \<and> keeps s s'"
  by (auto simp: nvrm_ioctl_host_unmap_def sys_call_def Let_def kept_Cons keeps_def)

lemma memory_spec [drv_specs]:
  "nvrm_ioctl_memory drv p v h f1 f2 b z s = (x, s') \<Longrightarrow>
    kept s' = (if x = 0 then add_mset (Obj h) (kept s) else kept s) \<and> hchain s' = hchain s \<and> keeps s s'"
  by (auto simp: nvrm_ioctl_memory_def sys_call_def Let_def kept_Cons keeps_def)

lemma alloc_spec [drv_specs]:
  "alloc drv k s = (ok, s') \<Longrightarrow> kept s' = (if ok then add_mset (Mem k) (kept s) else kept s) \<and> hchain s' = hchain s \<and> keeps s s'"
  by (auto simp: alloc_def sys_call_def Let_def kept_Cons keeps_def)

lemma free_spec [simp]:
  "kept (free drv k s) = kept s - {#Mem k#}" "hchain (free drv k s) = hchain s" "keeps t (free drv k s) = keeps t s"
  "fd_ctl (free drv k s) = fd_ctl s" "ctx_cid (free drv k s) = ctx_cid s" "devs (free drv k s) = devs s"
  "ver_major (free drv k s) = ver_major s"
  by (simp_all add: free_def sys_call_def Let_def kept_Cons keeps_def)

lemma kept_hchain [simp]: "kept (s\<lparr>hchain := l\<rparr>) = kept s" "keeps t (s\<lparr>hchain := l\<rparr>) = keeps t s"
  by (simp_all add: kept_def keeps_def)

text \<open>A new handle is the least one that is not in use; giving it back restores the chain.\<close>

lemma handle_alloc_chain:
  assumes "nvrm_handle_alloc drv s = Some (h, s')" "handles_ok (hchain s)"
  shows "handle_remove h (hchain s') = Some (hchain s)" "handles_ok (hchain s')" "h \<notin> set (hchain s)"
    "set (hchain s') = insert h (set (hchain s))" "0 < h" "h \<le> MAX_HANDLE" "\<And>y. 0 < y \<Longrightarrow> y < h \<Longrightarrow> y \<in> set (hchain s)"
proof -
  obtain e l where el: "handle_insert 1 (hchain s) = (e, l)" by fastforce
  then have s': "h = e" "hchain s' = l" "e \<le> MAX_HANDLE"
    using assms(1) by (auto simp: nvrm_handle_alloc_def Let_def split: if_splits prod.splits)
  have pos: "1 \<le> y \<longleftrightarrow> 0 < y" for y :: w32 by (simp add: word_le_nat_alt word_less_nat_alt Suc_le_eq)
  have "1 \<le> e \<and> e \<le> MAX_HANDLE + 1 \<and> e \<notin> set (hchain s) \<and> set l = insert e (set (hchain s)) \<and> sorted_wrt (<) l \<and>
    handle_remove e l = Some (hchain s) \<and> (\<forall>y. 1 \<le> y \<and> y < e \<longrightarrow> y \<in> set (hchain s))"
    by (rule handle_insert_spec [OF el]) (use assms(2) pos in \<open>auto simp: handles_ok_def MAX_HANDLE_def\<close>)
  then show "handle_remove h (hchain s') = Some (hchain s)" "handles_ok (hchain s')" "h \<notin> set (hchain s)"
    "set (hchain s') = insert h (set (hchain s))" "0 < h" "h \<le> MAX_HANDLE" "\<And>y. 0 < y \<Longrightarrow> y < h \<Longrightarrow> y \<in> set (hchain s)"
    using s' assms(2) by (auto simp: handles_ok_def pos)
qed

lemma handle_alloc_spec [drv_specs]:
  "nvrm_handle_alloc drv s = Some (h, s') \<Longrightarrow> kept s' = add_mset (Mem nvrm_handle) (kept s) \<and> keeps s s'"
  by (auto simp: nvrm_handle_alloc_def Let_def split: if_splits prod.splits dest: alloc_spec)

lemma handle_free_spec [drv_specs]:
  "nvrm_handle_free drv h s = Some s' \<Longrightarrow> kept s' = kept s - {#Mem nvrm_handle#} \<and> hchain s' = remove1 h (hchain s) \<and> keeps s s'"
  by (auto simp: nvrm_handle_free_def dest: handle_remove_remove1)

lemma handle_free_returns: "h \<in> set (hchain s) \<Longrightarrow> \<exists>s'. nvrm_handle_free drv h s = Some s'"
  by (simp add: nvrm_handle_free_def handle_remove_eq)

end
