(* ===== verification/Nvrm_Objects.thy ===== *)
theory Nvrm_Objects
  imports Nvrm_Driver
begin

text \<open>
  The objects of the GPU bindings (\<open>lib/nvrm/nvrm_submthd.c\<close>): devices, address spaces,
  buffers, channels and engines. An operation that fails gives back what it had taken, in the
  order of its labels.

  A pointer to an object is the object's record, \<open>None\<close> for a null pointer; the pointers to
  context, device and address space are arguments. Of a device only the index is kept in
  \<open>devs\<close>. \<open>bo_mmap\<close> is 0 for a null pointer.
\<close>

record nvrm_vspace =
  vas_dev :: nvrm_device
  ovas :: w32
  odma :: w32

record nvrm_bo =
  bo_dev :: nvrm_device
  bo_vas :: nvrm_vspace
  bo_handle :: w32
  bo_size :: u64
  bo_gpu_addr :: u64
  bo_foffset :: u64
  bo_mmap :: u64

record nvrm_channel =
  ch_dev :: nvrm_device
  ch_vas :: nvrm_vspace
  echain :: "w32 list"
  ofifo :: w32
  fifo_mmap :: u64
  fifo_foffset :: u64
  oedma :: w32
  oerr :: w32
  ch_cls :: w32

section \<open>Devices\<close>

definition NVRM_MAX_DEV :: nat where "NVRM_MAX_DEV = 32"
definition NVRM_GPU_ID_INVALID :: w32 where "NVRM_GPU_ID_INVALID = 0xffffffff"

text \<open>The loops run over the devices of the context with their indices.\<close>

fun xlat_loop :: "nvrm_device list \<Rightarrow> nat \<Rightarrow> int \<Rightarrow> nat option" where
  "xlat_loop [] i idx = None"
| "xlat_loop (d # ds) i idx =
     (if gpu_id d \<noteq> NVRM_GPU_ID_INVALID
      then if idx = 0 then Some i else xlat_loop ds (i + 1) (idx - 1)
      else xlat_loop ds (i + 1) idx)"

definition nvrm_xlat_device :: "nvrm_context \<Rightarrow> int \<Rightarrow> nat option" where
  "nvrm_xlat_device s idx = xlat_loop (devs s) 0 idx"

definition nvrm_num_devices :: "nvrm_context \<Rightarrow> nat" where
  "nvrm_num_devices s = foldl (\<lambda>cnt d. if gpu_id d \<noteq> NVRM_GPU_ID_INVALID then cnt + 1 else cnt) 0 (devs s)"

definition nvrm_mthd_context_list_devices :: "drv \<Rightarrow> w32 \<Rightarrow> nvrm_context \<Rightarrow> (int \<times> w32 list option) \<times> nvrm_context" where
  "nvrm_mthd_context_list_devices drv handle s =
     (let ((res, out), s) = nvrm_ioctl_call drv handle 0x214 (replicate 32 0) 128 s
      in if res \<noteq> 0 then ((res, None), s) else ((0, Some (map out [0..<32])), s))"

definition nvrm_mthd_context_enable_device :: "drv \<Rightarrow> w32 \<Rightarrow> w32 \<Rightarrow> nvrm_context \<Rightarrow> int \<times> nvrm_context" where
  "nvrm_mthd_context_enable_device drv handle gid s =
     (let ((res, out), s) = nvrm_ioctl_call drv handle 0x215 (ucast gid # 0xffffffff # replicate 31 0) 132 s in (res, s))"

definition nvrm_mthd_context_disable_device :: "drv \<Rightarrow> w32 \<Rightarrow> w32 \<Rightarrow> nvrm_context \<Rightarrow> int \<times> nvrm_context" where
  "nvrm_mthd_context_disable_device drv handle gid s =
     (let ((res, out), s) = nvrm_ioctl_call drv handle 0x216 (ucast gid # 0xffffffff # replicate 31 0) 132 s in (res, s))"

text \<open>The structure of the question is not initialised: \<open>junk\<close> is what the driver gets.\<close>

definition nvrm_device_get_chipset :: "drv \<Rightarrow> u64 list \<Rightarrow> nvrm_device \<Rightarrow> nvrm_context \<Rightarrow> (int \<times> (w32 \<times> w32 \<times> w32) option) \<times> nvrm_context" where
  "nvrm_device_get_chipset drv junk dev s =
     (let ((res, out), s) = nvrm_ioctl_call drv (osubdev dev) 0x20801701 junk 12 s
      in if res \<noteq> 0 then ((res, None), s) else ((0, Some (out 0, out 1, out 2)), s))"

definition nvrm_device_get_fb_size :: "drv \<Rightarrow> nvrm_device \<Rightarrow> nvrm_context \<Rightarrow> (int \<times> u64 option) \<times> nvrm_context" where
  "nvrm_device_get_fb_size drv dev s = nvrm_ioctl_get_fb_size drv (nat (dev_idx dev)) s"

definition nvrm_device_get_vendor_id :: "drv \<Rightarrow> nvrm_device \<Rightarrow> nvrm_context \<Rightarrow> (int \<times> 16 word option) \<times> nvrm_context" where
  "nvrm_device_get_vendor_id drv dev s = nvrm_ioctl_get_vendor_id drv (nat (dev_idx dev)) s"

definition nvrm_device_get_device_id :: "drv \<Rightarrow> nvrm_device \<Rightarrow> nvrm_context \<Rightarrow> (int \<times> 16 word option) \<times> nvrm_context" where
  "nvrm_device_get_device_id drv dev s = nvrm_ioctl_get_device_id drv (nat (dev_idx dev)) s"

definition nvrm_device_get_gpc_mask :: "drv \<Rightarrow> nvrm_device \<Rightarrow> nvrm_context \<Rightarrow> (int \<times> w32 option) \<times> nvrm_context" where
  "nvrm_device_get_gpc_mask drv dev s =
     (let ((res, out), s) = nvrm_ioctl_call drv (osubdev dev) 0x20800137 [0] 4 s
      in if res \<noteq> 0 then ((res, None), s) else ((0, Some (out 0)), s))"

definition nvrm_device_get_gpc_tp_mask :: "drv \<Rightarrow> nvrm_device \<Rightarrow> nat \<Rightarrow> nvrm_context \<Rightarrow> (int \<times> w32 option) \<times> nvrm_context" where
  "nvrm_device_get_gpc_tp_mask drv dev gpc s =
     (let ((res, out), s) = nvrm_ioctl_call drv (osubdev dev) 0x20800138 [word_of_nat gpc, 0] 8 s
      in if res \<noteq> 0 then ((res, None), s) else ((0, Some (out 1)), s))"

definition popcount :: "w32 \<Rightarrow> nat" where
  "popcount w = length (filter (bit w) [0..<32])"

function tp_loop :: "drv \<Rightarrow> nvrm_device \<Rightarrow> w32 \<Rightarrow> nat \<Rightarrow> nat \<Rightarrow> nvrm_context \<Rightarrow> (int \<times> nat option) \<times> nvrm_context" where
  "tp_loop drv dev gpcs i c s =
     (if gpcs = 0 then ((0, Some c), s)
      else if bit gpcs 0
      then let ((res, tp), s) = nvrm_device_get_gpc_tp_mask drv dev i s
           in if res \<noteq> 0 then ((res, None), s)
              else tp_loop drv dev (drop_bit 1 gpcs) (i + 1) (c + popcount (the tp)) s
      else tp_loop drv dev (drop_bit 1 gpcs) (i + 1) c s)"
  by pat_completeness auto
termination
  by (relation "measure (\<lambda>(drv, dev, gpcs, i, c, s). unat gpcs)")
    (auto simp: drop_bit_eq_div unat_div unat_gt_0)

declare tp_loop.simps [simp del]

definition nvrm_device_get_total_tp_count :: "drv \<Rightarrow> nvrm_device \<Rightarrow> nvrm_context \<Rightarrow> (int \<times> nat option) \<times> nvrm_context" where
  "nvrm_device_get_total_tp_count drv dev s =
     (let ((res, gpcs), s) = nvrm_device_get_gpc_mask drv dev s
      in if res \<noteq> 0 then ((res, None), s) else tp_loop drv dev (the gpcs) 0 0 s)"

section \<open>Address spaces\<close>

text \<open>The two handles, the object and its access object; shared by both ways to make one.\<close>

definition vspace_setup :: "drv \<Rightarrow> nvrm_device \<Rightarrow> (nvrm_context \<Rightarrow> nvrm_context) \<Rightarrow> nvrm_context \<Rightarrow> (nvrm_vspace option \<times> nvrm_context) option" where
  "vspace_setup drv dev release s = do {
     (h, s) \<leftarrow> nvrm_handle_alloc drv s;
     (hd, s) \<leftarrow> nvrm_handle_alloc drv s;
     let ((r, limit, fo), s) = nvrm_ioctl_create_vspace drv dev (odev dev) h 0x70 0x00010000 0 s;
     if r \<noteq> 0 then do {
       s \<leftarrow> nvrm_handle_free drv hd s;
       s \<leftarrow> nvrm_handle_free drv h s;
       Some (None, release s)
     } else do {
       let (r, s) = nvrm_ioctl_create_dma drv h hd 2 0x20000000 0 limit s;
       if r \<noteq> 0 then do {
         let (_, s) = nvrm_ioctl_destroy drv (odev dev) h s;
         s \<leftarrow> nvrm_handle_free drv hd s;
         s \<leftarrow> nvrm_handle_free drv h s;
         Some (None, release s)
       } else Some (Some \<lparr>vas_dev = dev, ovas = h, odma = hd\<rparr>, s)
     }
   }"

definition nvrm_vspace_create :: "drv \<Rightarrow> nvrm_device \<Rightarrow> nvrm_context \<Rightarrow> (nvrm_vspace option \<times> nvrm_context) option" where
  "nvrm_vspace_create drv dev s =
     (let (ok, s) = alloc drv nvrm_vspace s
      in if \<not> ok then Some (None, s) else vspace_setup drv dev (free drv nvrm_vspace) s)"

definition nvrm_vspace_destroy :: "drv \<Rightarrow> nvrm_vspace \<Rightarrow> nvrm_context \<Rightarrow> nvrm_context option" where
  "nvrm_vspace_destroy drv vas s = do {
     let (_, s) = nvrm_ioctl_destroy drv (ovas vas) (odma vas) s;
     let (_, s) = nvrm_ioctl_destroy drv (odev (vas_dev vas)) (ovas vas) s;
     s \<leftarrow> nvrm_handle_free drv (odma vas) s;
     s \<leftarrow> nvrm_handle_free drv (ovas vas) s;
     Some (free drv nvrm_vspace s)
   }"

section \<open>Buffers\<close>

definition nvrm_bo_create :: "drv \<Rightarrow> nvrm_vspace \<Rightarrow> u64 \<Rightarrow> bool \<Rightarrow> nvrm_context \<Rightarrow> (nvrm_bo option \<times> nvrm_context) option" where
  "nvrm_bo_create drv vas sz sysram s =
     (let (ok, s) = alloc drv nvrm_bo s
      in if \<not> ok then Some (None, s) else do {
        (h, s) \<leftarrow> nvrm_handle_alloc drv s;
        let dev = vas_dev vas;
        let flags1 = (if sysram then 0xd001 else 0x1d101);
        let flags2 = (if sysram then 0x5a000000 else 0x18000000);
        let (r, s) = nvrm_ioctl_memory drv (odev dev) (ovas vas) h flags1 flags2 0 sz s;
        if r \<noteq> 0 then do {
          s \<leftarrow> nvrm_handle_free drv h s;
          Some (None, free drv nvrm_bo s)
        } else do {
          let ((r, addr), s) = nvrm_ioctl_vspace_map drv (odev dev) (odma vas) h 0 sz s;
          if r \<noteq> 0 then do {
            let (_, s) = nvrm_ioctl_destroy drv (odev dev) h s;
            s \<leftarrow> nvrm_handle_free drv h s;
            Some (None, free drv nvrm_bo s)
          } else Some (Some \<lparr>bo_dev = dev, bo_vas = vas, bo_handle = h, bo_size = sz,
            bo_gpu_addr = the addr, bo_foffset = 0, bo_mmap = 0\<rparr>, s)
        }
      })"

definition nvrm_bo_gpu_addr :: "nvrm_bo \<Rightarrow> u64" where "nvrm_bo_gpu_addr bo = bo_gpu_addr bo"

text \<open>The result is the address, 0 for a null pointer, with the buffer after the call.\<close>

definition nvrm_bo_host_map :: "drv \<Rightarrow> nvrm_bo \<Rightarrow> nvrm_context \<Rightarrow> u64 \<times> nvrm_bo \<times> nvrm_context" where
  "nvrm_bo_host_map drv bo s =
     (if bo_mmap bo \<noteq> 0 then (bo_mmap bo, bo, s)
      else let ((r, fo), s) = nvrm_ioctl_host_map drv (osubdev (bo_dev bo)) (bo_handle bo) 0 (bo_size bo) s;
               bo = (case fo of None \<Rightarrow> bo | Some fo \<Rightarrow> bo\<lparr>bo_foffset := fo\<rparr>)
      in if r \<noteq> 0 then (0, bo, s)
         else let (m, s) = sys_call drv (MMAP (dev_fd (bo_dev bo)) (bo_size bo) (bo_foffset bo)) s
         in if rc m < 0
            then let (_, s) = nvrm_ioctl_host_unmap drv (osubdev (bo_dev bo)) (bo_handle bo) (bo_foffset bo) s in (0, bo, s)
            else (r_addr m, bo\<lparr>bo_mmap := r_addr m\<rparr>, s))"

definition nvrm_bo_host_unmap :: "drv \<Rightarrow> nvrm_bo \<Rightarrow> nvrm_context \<Rightarrow> nvrm_context" where
  "nvrm_bo_host_unmap drv bo s =
     (if bo_mmap bo \<noteq> 0
      then let (_, s) = sys_call drv (MUNMAP (bo_mmap bo) (bo_size bo)) s;
               (_, s) = nvrm_ioctl_host_unmap drv (osubdev (bo_dev bo)) (bo_handle bo) (bo_foffset bo) s
           in s
      else s)"

definition nvrm_bo_destroy :: "drv \<Rightarrow> nvrm_bo \<Rightarrow> nvrm_context \<Rightarrow> nvrm_context option" where
  "nvrm_bo_destroy drv bo s = do {
     let s = nvrm_bo_host_unmap drv bo s;
     let (_, s) = nvrm_ioctl_vspace_unmap drv (odev (bo_dev bo)) (odma (bo_vas bo)) (bo_handle bo) (bo_gpu_addr bo) s;
     let (_, s) = nvrm_ioctl_destroy drv (odev (bo_dev bo)) (bo_handle bo) s;
     s \<leftarrow> nvrm_handle_free drv (bo_handle bo) s;
     Some (free drv nvrm_bo s)
   }"

section \<open>Channels and engines\<close>

text \<open>The labels \<open>out_fifo_map\<close>, \<open>out_fifo\<close>, \<open>out_edma\<close> and \<open>out_err\<close>, each going on to the next.\<close>

definition out_err :: "drv \<Rightarrow> w32 \<Rightarrow> w32 \<Rightarrow> w32 \<Rightarrow> nvrm_context \<Rightarrow> nvrm_context option" where
  "out_err drv err edma fifo s = do {
     s \<leftarrow> nvrm_handle_free drv err s;
     s \<leftarrow> nvrm_handle_free drv edma s;
     nvrm_handle_free drv fifo s
   }"

definition out_edma :: "drv \<Rightarrow> nvrm_device \<Rightarrow> w32 \<Rightarrow> w32 \<Rightarrow> w32 \<Rightarrow> nvrm_context \<Rightarrow> nvrm_context option" where
  "out_edma drv dev err edma fifo s = out_err drv err edma fifo (snd (nvrm_ioctl_destroy drv (odev dev) err s))"

definition out_fifo :: "drv \<Rightarrow> nvrm_device \<Rightarrow> w32 \<Rightarrow> w32 \<Rightarrow> w32 \<Rightarrow> nvrm_context \<Rightarrow> nvrm_context option" where
  "out_fifo drv dev err edma fifo s = out_edma drv dev err edma fifo (snd (nvrm_ioctl_destroy drv err edma s))"

definition out_fifo_map :: "drv \<Rightarrow> nvrm_device \<Rightarrow> w32 \<Rightarrow> w32 \<Rightarrow> w32 \<Rightarrow> nvrm_context \<Rightarrow> nvrm_context option" where
  "out_fifo_map drv dev err edma fifo s = out_fifo drv dev err edma fifo (snd (nvrm_ioctl_destroy drv (odev dev) fifo s))"

text \<open>The steps of the creation after the handles, each with the steps that follow it.\<close>

definition chan_map :: "drv \<Rightarrow> nvrm_vspace \<Rightarrow> w32 \<Rightarrow> w32 \<Rightarrow> w32 \<Rightarrow> w32 \<Rightarrow> nvrm_context \<Rightarrow> (nvrm_channel option \<times> nvrm_context) option" where
  "chan_map drv vas cls err edma fifo s =
     (let dev = vas_dev vas; ((r, fo), s) = nvrm_ioctl_host_map drv (osubdev dev) fifo 0 0x200 s
      in if r \<noteq> 0 then map_option (Pair None) (out_fifo_map drv dev err edma fifo s)
         else let (m, s) = sys_call drv (MMAP (dev_fd dev) 0x1000 (the fo AND NOT 0xfff)) s
         in if rc m < 0
            then let (_, s) = nvrm_ioctl_host_unmap drv (osubdev dev) fifo (the fo) s
                 in map_option (Pair None) (out_fifo_map drv dev err edma fifo s)
            else Some (Some \<lparr>ch_dev = dev, ch_vas = vas, echain = [], ofifo = fifo, fifo_mmap = r_addr m,
              fifo_foffset = the fo, oedma = edma, oerr = err, ch_cls = cls\<rparr>, s))"

definition chan_fifo :: "drv \<Rightarrow> nvrm_vspace \<Rightarrow> w32 \<Rightarrow> nvrm_bo \<Rightarrow> w32 \<Rightarrow> w32 \<Rightarrow> w32 \<Rightarrow> nvrm_context \<Rightarrow> (nvrm_channel option \<times> nvrm_context) option" where
  "chan_fifo drv vas cls ib err edma fifo s =
     (let dev = vas_dev vas;
          arg = [ucast edma, ucast (odma vas), bo_gpu_addr ib, bo_size ib div 8, 0, 0];
          ((r, _), s) = nvrm_ioctl_create drv (odev dev) fifo cls arg s
      in if r \<noteq> 0 then map_option (Pair None) (out_fifo drv dev err edma fifo s)
         else chan_map drv vas cls err edma fifo s)"

definition chan_dma :: "drv \<Rightarrow> nvrm_vspace \<Rightarrow> w32 \<Rightarrow> nvrm_bo \<Rightarrow> w32 \<Rightarrow> w32 \<Rightarrow> w32 \<Rightarrow> nvrm_context \<Rightarrow> (nvrm_channel option \<times> nvrm_context) option" where
  "chan_dma drv vas cls ib err edma fifo s =
     (let (r, s) = nvrm_ioctl_create_dma drv err edma 2 0x20100000 0 0xfff s
      in if r \<noteq> 0 then map_option (Pair None) (out_edma drv (vas_dev vas) err edma fifo s)
         else chan_fifo drv vas cls ib err edma fifo s)"

definition chan_mem :: "drv \<Rightarrow> nvrm_vspace \<Rightarrow> w32 \<Rightarrow> nvrm_bo \<Rightarrow> w32 \<Rightarrow> w32 \<Rightarrow> w32 \<Rightarrow> nvrm_context \<Rightarrow> (nvrm_channel option \<times> nvrm_context) option" where
  "chan_mem drv vas cls ib err edma fifo s =
     (let dev = vas_dev vas; (r, s) = nvrm_ioctl_memory drv (odev dev) (odev dev) err 0xd001 0x3a000000 0 0x1000 s
      in if r \<noteq> 0 then map_option (Pair None) (out_err drv err edma fifo s)
         else chan_dma drv vas cls ib err edma fifo s)"

definition nvrm_channel_create_ib :: "drv \<Rightarrow> nvrm_vspace \<Rightarrow> w32 \<Rightarrow> nvrm_bo \<Rightarrow> nvrm_context \<Rightarrow> (nvrm_channel option \<times> nvrm_context) option" where
  "nvrm_channel_create_ib drv vas cls ib s =
     (let (ok, s) = alloc drv nvrm_channel s
      in if \<not> ok then Some (None, s) else do {
        (err, s) \<leftarrow> nvrm_handle_alloc drv s;
        (edma, s) \<leftarrow> nvrm_handle_alloc drv s;
        (fifo, s) \<leftarrow> nvrm_handle_alloc drv s;
        chan_mem drv vas cls ib err edma fifo s
      })"

definition nvrm_channel_activate :: "drv \<Rightarrow> nvrm_channel \<Rightarrow> nvrm_context \<Rightarrow> int \<times> nvrm_context" where
  "nvrm_channel_activate drv ch s =
     (if ch_cls ch \<ge> 0xa06f
      then let ((r, _), s) = nvrm_ioctl_call drv (ofifo ch) 0xa06f0103 [1] 1 s in (r, s)
      else (0, s))"

fun destroy_engs :: "drv \<Rightarrow> w32 \<Rightarrow> w32 list \<Rightarrow> nvrm_context \<Rightarrow> nvrm_context option" where
  "destroy_engs drv fifo [] s = Some s"
| "destroy_engs drv fifo (e # es) s = do {
     let (_, s) = nvrm_ioctl_destroy drv fifo e s;
     s \<leftarrow> nvrm_handle_free drv e s;
     destroy_engs drv fifo es (free drv nvrm_eng s)
   }"

definition nvrm_channel_destroy :: "drv \<Rightarrow> nvrm_channel \<Rightarrow> nvrm_context \<Rightarrow> nvrm_context option" where
  "nvrm_channel_destroy drv ch s = do {
     s \<leftarrow> destroy_engs drv (ofifo ch) (echain ch) s;
     let (_, s) = sys_call drv (MUNMAP (fifo_mmap ch) 0x1000) s;
     let (_, s) = nvrm_ioctl_host_unmap drv (osubdev (ch_dev ch)) (ofifo ch) (fifo_foffset ch) s;
     let (_, s) = nvrm_ioctl_destroy drv (odev (ch_dev ch)) (ofifo ch) s;
     let (_, s) = nvrm_ioctl_destroy drv (oerr ch) (oedma ch) s;
     let (_, s) = nvrm_ioctl_destroy drv (odev (ch_dev ch)) (oerr ch) s;
     s \<leftarrow> nvrm_handle_free drv (oerr ch) s;
     s \<leftarrow> nvrm_handle_free drv (oedma ch) s;
     nvrm_handle_free drv (ofifo ch) s
   }"

definition nvrm_channel_host_map_regs :: "nvrm_channel \<Rightarrow> u64" where
  "nvrm_channel_host_map_regs ch = fifo_mmap ch + (fifo_foffset ch AND 0xfff)"

definition nvrm_eng_create :: "drv \<Rightarrow> nvrm_channel \<Rightarrow> w32 \<Rightarrow> nvrm_context \<Rightarrow> (w32 option \<times> nvrm_channel \<times> nvrm_context) option" where
  "nvrm_eng_create drv ch cls s =
     (let (ok, s) = alloc drv nvrm_eng s
      in if \<not> ok then Some (None, ch, s) else do {
        (h, s) \<leftarrow> nvrm_handle_alloc drv s;
        let ((r, _), s) = nvrm_ioctl_create drv (ofifo ch) h cls [] s;
        if r \<noteq> 0 then do {
          s \<leftarrow> nvrm_handle_free drv h s;
          Some (None, ch, free drv nvrm_eng s)
        } else Some (Some h, ch\<lparr>echain := h # echain ch\<rparr>, s)
      })"

section \<open>Handles as a set\<close>

definition hs_ok :: "nvrm_context \<Rightarrow> bool" where "hs_ok s \<longleftrightarrow> handles_ok (hchain s)"
definition used :: "nvrm_context \<Rightarrow> w32 set" where "used s = set (hchain s)"

lemma chain_unique: "hs_ok s \<Longrightarrow> hs_ok t \<Longrightarrow> used s = used t \<Longrightarrow> hchain s = hchain t"
  by (auto simp: hs_ok_def used_def handles_ok_def intro: strict_sorted_equal)

lemma used_cong: "hchain s' = hchain s \<Longrightarrow> used s' = used s \<and> hs_ok s' = hs_ok s"
  by (simp add: used_def hs_ok_def)

lemma alloc_used:
  assumes "nvrm_handle_alloc drv s = Some (h, s')" "hs_ok s"
  shows "hs_ok s' \<and> h \<notin> used s \<and> used s' = insert h (used s)"
  using handle_alloc_chain [OF assms(1)] assms(2) by (simp add: hs_ok_def used_def)

lemma free_used:
  assumes "nvrm_handle_free drv h s = Some s'" "hs_ok s"
  shows "hs_ok s' \<and> h \<in> used s \<and> used s' = used s - {h}"
proof -
  have "hchain s' = remove1 h (hchain s)" "h \<in> set (hchain s)"
    using assms(1) by (auto simp: nvrm_handle_free_def dest: handle_remove_remove1)
  moreover have "distinct (hchain s)" using assms(2) by (simp add: hs_ok_def handles_ok_def strict_sorted_iff)
  ultimately show ?thesis using assms(2) by (simp add: hs_ok_def used_def handles_ok_remove1 set_remove1_eq)
qed

lemma free_used_returns: "h \<in> used s \<Longrightarrow> \<exists>s'. nvrm_handle_free drv h s = Some s'"
  using handle_free_returns by (simp add: used_def)

lemma free_same [simp]: "used (free drv k s) = used s" "hs_ok (free drv k s) = hs_ok s"
  by (simp_all add: used_def hs_ok_def)

lemma free_after_alloc:
  assumes "nvrm_handle_alloc drv s = Some (h, s')" "hs_ok s" "hchain t = hchain s'" "nvrm_handle_free drv h t = Some u"
  shows "hchain u = hchain s \<and> kept u = kept t - {#Mem nvrm_handle#} \<and> keeps t u"
  using handle_alloc_chain(1) [OF assms(1) assms(2) [unfolded hs_ok_def]] assms(3,4)
  by (auto simp: nvrm_handle_free_def)

text \<open>What a successful call adds, what a failed call changes.\<close>

definition unchanged :: "nvrm_context \<Rightarrow> nvrm_context \<Rightarrow> bool" where
  "unchanged s s' \<longleftrightarrow> kept s' = kept s \<and> hchain s' = hchain s \<and> keeps s s'"

definition bo_res :: "nvrm_bo \<Rightarrow> resource multiset" where
  "bo_res bo = {#Mem nvrm_handle, Mem nvrm_bo, Obj (bo_handle bo), Gpu_mapping (bo_handle bo)#} +
     (if bo_mmap bo \<noteq> 0 then {#Host_mapping (bo_handle bo), Mapping (bo_mmap bo)#} else {#})"

definition vspace_res :: "nvrm_vspace \<Rightarrow> resource multiset" where
  "vspace_res v = {#Mem nvrm_handle, Mem nvrm_handle, Mem nvrm_vspace, Obj (ovas v), Obj (odma v)#}"

definition eng_res :: "w32 \<Rightarrow> resource multiset" where
  "eng_res e = {#Mem nvrm_handle, Mem nvrm_eng, Obj e#}"

definition chan_res :: "nvrm_channel \<Rightarrow> resource multiset" where
  "chan_res c = {#Mem nvrm_handle, Mem nvrm_handle, Mem nvrm_handle, Obj (oerr c), Obj (oedma c), Obj (ofifo c),
     Host_mapping (ofifo c), Mapping (fifo_mmap c)#} + sum_list (map eng_res (echain c))"

lemma bo_create_spec:
  assumes e: "nvrm_bo_create drv vas sz b s = Some (r, s')" and ok: "hs_ok s"
  shows "case r of None \<Rightarrow> unchanged s s'
    | Some bo \<Rightarrow> kept s' = kept s + bo_res bo \<and> hs_ok s' \<and> bo_handle bo \<notin> used s \<and> used s' = insert (bo_handle bo) (used s) \<and>
        keeps s s' \<and> bo_mmap bo = 0 \<and> bo_vas bo = vas \<and> bo_dev bo = vas_dev vas"
proof (cases "alloc drv nvrm_bo s")
  case (Pair okb s0)
  note a = alloc_spec [OF Pair]
  show ?thesis
  proof (cases okb)
    case False
    then show ?thesis using e a Pair by (auto simp: nvrm_bo_create_def unchanged_def)
  next
    case True
    obtain h s1 where h: "nvrm_handle_alloc drv s0 = Some (h, s1)" using e Pair True by (auto simp: nvrm_bo_create_def)
    have ok0: "hs_ok s0" using a ok by (simp add: hs_ok_def)
    note hu = alloc_used [OF h ok0] and hs = handle_alloc_spec [OF h]
    obtain x s2 where m: "nvrm_ioctl_memory drv (odev (vas_dev vas)) (ovas vas) h (if b then 0xd001 else 0x1d101)
        (if b then 0x5a000000 else 0x18000000) 0 sz s1 = (x, s2)" by fastforce
    note ms = memory_spec [OF m]
    show ?thesis
    proof (cases "x = 0")
      case False
      then obtain s3 where f: "nvrm_handle_free drv h s2 = Some s3" "r = None" "s' = free drv nvrm_bo s3"
        using e by (auto simp: nvrm_bo_create_def Pair True h m False)
      have "hchain s2 = hchain s1" using ms by simp
      note fr = free_after_alloc [OF h ok0 this f(1)]
      show ?thesis using a hs ms fr False True by (simp add: f unchanged_def keeps_def)
    next
      case zero: True
      obtain y ad s3 where v: "nvrm_ioctl_vspace_map drv (odev (vas_dev vas)) (odma vas) h 0 sz s2 = ((y, ad), s3)"
        by (metis surj_pair)
      note vs = vspace_map_spec [OF v]
      show ?thesis
      proof (cases "y = 0")
        case False
        obtain z s4 where d: "nvrm_ioctl_destroy drv (odev (vas_dev vas)) h s3 = (z, s4)" by fastforce
        then obtain s5 where f: "nvrm_handle_free drv h s4 = Some s5" "r = None" "s' = free drv nvrm_bo s5"
          using e by (auto simp: nvrm_bo_create_def Pair True h m zero v False d)
        note ds = destroy_spec [OF d]
        have "hchain s4 = hchain s1" using ms vs ds by simp
        note fr = free_after_alloc [OF h ok0 this f(1)]
        show ?thesis using a hs ms vs ds fr zero False True by (simp add: f unchanged_def keeps_def)
      next
        case y0: True
        then have "r = Some \<lparr>bo_dev = vas_dev vas, bo_vas = vas, bo_handle = h, bo_size = sz, bo_gpu_addr = the ad, bo_foffset = 0, bo_mmap = 0\<rparr>" "s' = s3"
          using e by (auto simp: nvrm_bo_create_def Pair True h m zero v)
        then show ?thesis using a hs hu ms vs True zero y0
          by (simp add: bo_res_def keeps_def used_def hs_ok_def)
      qed
    qed
  qed
qed


lemma vspace_setup_spec:
  assumes e: "vspace_setup drv dev release s = Some (r, s')" and ok: "hs_ok s"
  shows "case r of None \<Rightarrow> (\<exists>s0. unchanged s s0 \<and> s' = release s0)
    | Some v \<Rightarrow> kept s' + {#Mem nvrm_vspace#} = kept s + vspace_res v \<and> hs_ok s' \<and> ovas v \<notin> used s \<and> odma v \<notin> used s \<and> ovas v \<noteq> odma v \<and>
        used s' = insert (ovas v) (insert (odma v) (used s)) \<and> keeps s s' \<and> vas_dev v = dev"
proof -
  obtain h s1 where h: "nvrm_handle_alloc drv s = Some (h, s1)" using e by (auto simp: vspace_setup_def)
  then obtain hd s2 where hd: "nvrm_handle_alloc drv s1 = Some (hd, s2)" using e by (auto simp: vspace_setup_def)
  note u1 = alloc_used [OF h ok] and k1 = handle_alloc_spec [OF h]
  then have ok1: "hs_ok s1" by simp
  note u2 = alloc_used [OF hd ok1] and k2 = handle_alloc_spec [OF hd]
  obtain x lim fo s3 where c: "nvrm_ioctl_create_vspace drv dev (odev dev) h 0x70 0x00010000 0 s2 = ((x, lim, fo), s3)"
    by (metis surj_pair)
  note cs = create_vspace_spec [OF c]
  have give_back: "hchain v = hchain s \<and> kept v = kept t - {#Mem nvrm_handle, Mem nvrm_handle#} \<and> keeps t v"
    if "hchain t = hchain s2" "nvrm_handle_free drv hd t = Some u" "nvrm_handle_free drv h u = Some v" for t u v
  proof -
    note f1 = free_after_alloc [OF hd ok1 that(1,2)]
    then show ?thesis using free_after_alloc [OF h ok _ that(3)] by (simp add: keeps_def)
  qed
  show ?thesis
  proof (cases "x = 0")
    case False
    then obtain u v where f: "nvrm_handle_free drv hd s3 = Some u" "nvrm_handle_free drv h u = Some v" "r = None" "s' = release v"
      using e by (auto simp: vspace_setup_def h hd c False)
    then show ?thesis using k1 k2 cs False give_back [OF _ f(1,2)] by (auto simp: unchanged_def keeps_def)
  next
    case x0: True
    obtain y s4 where d: "nvrm_ioctl_create_dma drv h hd 2 0x20000000 0 lim s3 = (y, s4)" by fastforce
    note ds = create_dma_spec [OF d]
    show ?thesis
    proof (cases "y = 0")
      case False
      obtain z s5 where ds5: "nvrm_ioctl_destroy drv (odev dev) h s4 = (z, s5)" by fastforce
      then obtain u v where f: "nvrm_handle_free drv hd s5 = Some u" "nvrm_handle_free drv h u = Some v" "r = None" "s' = release v"
        using e by (auto simp: vspace_setup_def h hd c d x0 False)
      have "hchain s5 = hchain s2" using cs ds destroy_spec [OF ds5] by simp
      note g = give_back [OF this f(1,2)]
      have "unchanged s v" using k1 k2 cs ds destroy_spec [OF ds5] x0 False g by (simp add: unchanged_def keeps_def)
      then show ?thesis using f by auto
    next
      case y0: True
      then have r: "r = Some \<lparr>vas_dev = dev, ovas = h, odma = hd\<rparr>" "s' = s4"
        using e by (auto simp: vspace_setup_def h hd c d x0)
      have us: "used s4 = used s2" "hs_ok s4" using cs ds u2 by (simp_all add: used_def hs_ok_def)
      then show ?thesis using r k1 k2 cs ds x0 y0 u1 u2 by (auto simp: vspace_res_def keeps_def)
    qed
  qed
qed

lemma vspace_create_spec:
  assumes e: "nvrm_vspace_create drv dev s = Some (r, s')" and ok: "hs_ok s"
  shows "case r of None \<Rightarrow> unchanged s s'
    | Some v \<Rightarrow> kept s' = kept s + vspace_res v \<and> hs_ok s' \<and> ovas v \<notin> used s \<and> odma v \<notin> used s \<and> ovas v \<noteq> odma v \<and>
        used s' = insert (ovas v) (insert (odma v) (used s)) \<and> keeps s s' \<and> vas_dev v = dev"
proof (cases "alloc drv nvrm_vspace s")
  case (Pair okb s0)
  note a = alloc_spec [OF Pair]
  show ?thesis
  proof (cases okb)
    case False
    then show ?thesis using e a by (auto simp: nvrm_vspace_create_def Pair unchanged_def)
  next
    case True
    then have e': "vspace_setup drv dev (free drv nvrm_vspace) s0 = Some (r, s')" using e by (simp add: nvrm_vspace_create_def Pair)
    have ok0: "hs_ok s0" "used s0 = used s" using a ok by (simp_all add: hs_ok_def used_def)
    show ?thesis using vspace_setup_spec [OF e' ok0(1)] a True ok0
      by (cases r) (auto simp: unchanged_def keeps_def)
  qed
qed

section \<open>Giving back\<close>

definition mmap_ok :: "drv \<Rightarrow> bool" where
  "mmap_ok drv \<longleftrightarrow> (\<forall>cs f l off. 0 \<le> rc (drv cs (MMAP f l off)) \<longrightarrow> r_addr (drv cs (MMAP f l off)) \<noteq> 0)"

lemma sys_call_eqs:
  "sys_call drv c s = (r, s') \<Longrightarrow> kept s' = book (c, r) (kept s) \<and> hchain s' = hchain s \<and> keeps s s' \<and> r = drv (calls s) c"
  by (auto simp: sys_call_def Let_def kept_Cons keeps_def)

lemma host_map_keeps:
  assumes e: "nvrm_bo_host_map drv bo s = (m, bo', s')" and nn: "mmap_ok drv"
  shows "kept s' + bo_res bo = kept s + bo_res bo' \<and> hchain s' = hchain s \<and> keeps s s' \<and> m = bo_mmap bo' \<and>
    bo' = bo\<lparr>bo_foffset := bo_foffset bo', bo_mmap := bo_mmap bo'\<rparr>"
proof (cases "bo_mmap bo = 0")
  case False
  then show ?thesis using e by (auto simp: nvrm_bo_host_map_def)
next
  case zero: True
  obtain r fo s1 where h: "nvrm_ioctl_host_map drv (osubdev (bo_dev bo)) (bo_handle bo) 0 (bo_size bo) s = ((r, fo), s1)"
    by (metis surj_pair)
  note hs = host_map_spec [OF h]
  show ?thesis
  proof (cases "r = 0")
    case False
    then show ?thesis using e hs zero by (auto simp: nvrm_bo_host_map_def h bo_res_def split: option.splits)
  next
    case r0: True
    then obtain fo' where fo: "fo = Some fo'" using hs by auto
    obtain a s2 where m: "sys_call drv (MMAP (dev_fd (bo_dev bo)) (bo_size bo) fo') s1 = (a, s2)" by fastforce
    note ms = sys_call_eqs [OF m]
    show ?thesis
    proof (cases "rc a < 0")
      case True
      obtain z s3 where u: "nvrm_ioctl_host_unmap drv (osubdev (bo_dev bo)) (bo_handle bo) fo' s2 = (z, s3)" by fastforce
      then have "m = 0" "bo' = bo\<lparr>bo_foffset := fo'\<rparr>" "s' = s3"
        using e zero r0 True by (simp_all add: nvrm_bo_host_map_def h fo m u)
      then show ?thesis using hs ms True host_unmap_spec [OF u] r0 zero by (simp add: bo_res_def keeps_def)
    next
      case False
      then have r: "m = r_addr a" "bo' = bo\<lparr>bo_foffset := fo', bo_mmap := r_addr a\<rparr>" "s' = s2"
        using e zero r0 by (auto simp: nvrm_bo_host_map_def h fo m)
      have "r_addr a \<noteq> 0" using ms nn False by (simp add: mmap_ok_def)
      then show ?thesis using r hs ms False r0 zero by (simp add: bo_res_def keeps_def)
    qed
  qed
qed

lemma host_unmap_effect:
  "kept (nvrm_bo_host_unmap drv bo s) =
     kept s - (if bo_mmap bo \<noteq> 0 then {#Host_mapping (bo_handle bo), Mapping (bo_mmap bo)#} else {#})"
  "hchain (nvrm_bo_host_unmap drv bo s) = hchain s" "keeps s (nvrm_bo_host_unmap drv bo s)"
  by (auto simp: nvrm_bo_host_unmap_def sys_call_def Let_def kept_Cons nvrm_ioctl_host_unmap_def keeps_def kept_def)

lemma bo_destroy_spec:
  assumes ok: "hs_ok s" and h: "bo_handle bo \<in> used s"
  shows "\<exists>s'. nvrm_bo_destroy drv bo s = Some s' \<and> kept s' = kept s - bo_res bo \<and> hs_ok s' \<and>
    used s' = used s - {bo_handle bo} \<and> keeps s s'"
proof -
  let ?s0 = "nvrm_bo_host_unmap drv bo s"
  note u = host_unmap_effect [where drv = drv and bo = bo and s = s]
  obtain x s1 where s1: "nvrm_ioctl_vspace_unmap drv (odev (bo_dev bo)) (odma (bo_vas bo)) (bo_handle bo) (bo_gpu_addr bo) ?s0 = (x, s1)"
    by fastforce
  obtain y s2 where s2: "nvrm_ioctl_destroy drv (odev (bo_dev bo)) (bo_handle bo) s1 = (y, s2)" by fastforce
  have ch: "hchain s2 = hchain s" using u vspace_unmap_spec [OF s1] destroy_spec [OF s2] by simp
  then have ok2: "hs_ok s2" "used s2 = used s" using ok by (simp_all add: hs_ok_def used_def)
  then obtain s3 where s3: "nvrm_handle_free drv (bo_handle bo) s2 = Some s3" using free_used_returns h by blast
  have "nvrm_bo_destroy drv bo s = Some (free drv nvrm_bo s3)" by (simp add: nvrm_bo_destroy_def Let_def s1 s2 s3)
  moreover have "kept s3 - {#Mem nvrm_bo#} = kept s - bo_res bo"
    unfolding u(1) conjunct1 [OF vspace_unmap_spec [OF s1]] conjunct1 [OF destroy_spec [OF s2]] conjunct1 [OF handle_free_spec [OF s3]]
    by (rule multiset_eqI) (simp add: bo_res_def)
  moreover have "keeps s s3"
    using u(3) vspace_unmap_spec [OF s1] destroy_spec [OF s2] handle_free_spec [OF s3] by (simp add: keeps_def)
  ultimately show ?thesis using free_used [OF s3 ok2(1)] ok2(2) by simp
qed

lemma vspace_destroy_spec:
  assumes ok: "hs_ok s" and h: "ovas v \<in> used s" "odma v \<in> used s" "ovas v \<noteq> odma v"
  shows "\<exists>s'. nvrm_vspace_destroy drv v s = Some s' \<and> kept s' = kept s - vspace_res v \<and> hs_ok s' \<and>
    used s' = used s - {ovas v, odma v} \<and> keeps s s'"
proof -
  obtain x s1 where s1: "nvrm_ioctl_destroy drv (ovas v) (odma v) s = (x, s1)" by fastforce
  obtain y s2 where s2: "nvrm_ioctl_destroy drv (odev (vas_dev v)) (ovas v) s1 = (y, s2)" by fastforce
  have ch: "hchain s2 = hchain s" using destroy_spec [OF s1] destroy_spec [OF s2] by simp
  then have ok2: "hs_ok s2" "used s2 = used s" using ok by (simp_all add: hs_ok_def used_def)
  then obtain s3 where s3: "nvrm_handle_free drv (odma v) s2 = Some s3" using free_used_returns h by blast
  note f3 = free_used [OF s3 ok2(1)]
  have "ovas v \<in> used s3" using f3 h ok2 by simp
  then obtain s4 where s4: "nvrm_handle_free drv (ovas v) s3 = Some s4" using free_used_returns by blast
  note f4 = free_used [OF s4 conjunct1 [OF f3]]
  have "nvrm_vspace_destroy drv v s = Some (free drv nvrm_vspace s4)" by (simp add: nvrm_vspace_destroy_def Let_def s1 s2 s3 s4)
  moreover have "kept s4 - {#Mem nvrm_vspace#} = kept s - vspace_res v"
    unfolding conjunct1 [OF destroy_spec [OF s1]] conjunct1 [OF destroy_spec [OF s2]] conjunct1 [OF handle_free_spec [OF s3]]
      conjunct1 [OF handle_free_spec [OF s4]] by (rule multiset_eqI) (simp add: vspace_res_def)
  moreover have "keeps s s4"
    using destroy_spec [OF s1] destroy_spec [OF s2] handle_free_spec [OF s3] handle_free_spec [OF s4] by (simp add: keeps_def)
  moreover have "used s4 = used s - {ovas v, odma v}" using f3 f4 ok2(2) by auto
  ultimately show ?thesis using f4 by simp
qed

section \<open>The labels of the channel\<close>

lemma out_err_spec:
  assumes ok: "hs_ok s" and h: "err \<in> used s" "edma \<in> used s" "fifo \<in> used s" "err \<noteq> edma" "err \<noteq> fifo" "edma \<noteq> fifo"
  shows "\<exists>s'. out_err drv err edma fifo s = Some s' \<and> kept s' = kept s - {#Mem nvrm_handle, Mem nvrm_handle, Mem nvrm_handle#} \<and>
    hs_ok s' \<and> used s' = used s - {err, edma, fifo} \<and> keeps s s'"
proof -
  obtain s1 where s1: "nvrm_handle_free drv err s = Some s1" using free_used_returns h by blast
  note f1 = free_used [OF s1 ok]
  have "edma \<in> used s1" using f1 h by simp
  then obtain s2 where s2: "nvrm_handle_free drv edma s1 = Some s2" using free_used_returns by blast
  note f2 = free_used [OF s2 conjunct1 [OF f1]]
  have "fifo \<in> used s2" using f1 f2 h by simp
  then obtain s3 where s3: "nvrm_handle_free drv fifo s2 = Some s3" using free_used_returns by blast
  note f3 = free_used [OF s3 conjunct1 [OF f2]]
  show ?thesis using f1 f2 f3 handle_free_spec [OF s1] handle_free_spec [OF s2] handle_free_spec [OF s3]
    by (auto simp: out_err_def s1 s2 s3 keeps_def)
qed

lemma snd_destroy [simp]:
  "kept (snd (nvrm_ioctl_destroy drv p h s)) = kept s - {#Obj h#}" "used (snd (nvrm_ioctl_destroy drv p h s)) = used s"
  "hs_ok (snd (nvrm_ioctl_destroy drv p h s)) = hs_ok s" "keeps t (snd (nvrm_ioctl_destroy drv p h s)) = keeps t s"
  by (simp_all add: nvrm_ioctl_destroy_def sys_call_def Let_def kept_Cons used_def hs_ok_def keeps_def)

text \<open>A label gives back the three handles and \<open>lost\<close>.\<close>

definition three_mem :: "resource multiset" where
  "three_mem = {#Mem nvrm_handle, Mem nvrm_handle, Mem nvrm_handle#}"

definition gives_back :: "w32 \<Rightarrow> w32 \<Rightarrow> w32 \<Rightarrow> resource multiset \<Rightarrow> nvrm_context \<Rightarrow> nvrm_context option \<Rightarrow> bool" where
  "gives_back err edma fifo lost s out \<longleftrightarrow> (\<exists>s'. out = Some s' \<and> keeps s s' \<and> hs_ok s' \<and>
     used s' = used s - {err, edma, fifo} \<and> kept s' = kept s - lost - three_mem)"

definition three :: "w32 \<Rightarrow> w32 \<Rightarrow> w32 \<Rightarrow> nvrm_context \<Rightarrow> bool" where
  "three err edma fifo s \<longleftrightarrow> hs_ok s \<and> err \<in> used s \<and> edma \<in> used s \<and> fifo \<in> used s \<and> err \<noteq> edma \<and> err \<noteq> fifo \<and> edma \<noteq> fifo"

lemma three_cong: "hchain t = hchain s \<Longrightarrow> three err edma fifo t = three err edma fifo s"
  by (simp add: three_def hs_ok_def used_def)

lemma three_destroy [simp]: "three err edma fifo (snd (nvrm_ioctl_destroy drv p h s)) = three err edma fifo s"
  by (simp add: three_def)

lemma gives_back_err: "three err edma fifo s \<Longrightarrow> gives_back err edma fifo {#} s (out_err drv err edma fifo s)"
  using out_err_spec [of s err edma fifo drv] by (auto simp: three_def gives_back_def three_mem_def)

lemma gives_back_destroy:
  assumes "gives_back err edma fifo lost (snd (nvrm_ioctl_destroy drv p h s)) out"
  shows "gives_back err edma fifo (add_mset (Obj h) lost) s out"
proof -
  have k: "keeps (snd (nvrm_ioctl_destroy drv p h s)) u \<Longrightarrow> keeps s u" for u
    using keeps_trans [of s "snd (nvrm_ioctl_destroy drv p h s)"] by simp
  have "kept s - {#Obj h#} - lost = kept s - add_mset (Obj h) lost" by (metis diff_diff_add add_mset_add_single union_commute)
  then show ?thesis using assms k by (auto simp: gives_back_def)
qed

lemma gives_back_labels:
  assumes "three err edma fifo s"
  shows "gives_back err edma fifo {#Obj err#} s (out_edma drv dev err edma fifo s)"
    "gives_back err edma fifo {#Obj edma, Obj err#} s (out_fifo drv dev err edma fifo s)"
    "gives_back err edma fifo {#Obj fifo, Obj edma, Obj err#} s (out_fifo_map drv dev err edma fifo s)"
proof -
  have t: "three err edma fifo (snd (nvrm_ioctl_destroy drv p h t))" if "three err edma fifo t" for p h t using that by simp
  show "gives_back err edma fifo {#Obj err#} s (out_edma drv dev err edma fifo s)"
    "gives_back err edma fifo {#Obj edma, Obj err#} s (out_fifo drv dev err edma fifo s)"
    "gives_back err edma fifo {#Obj fifo, Obj edma, Obj err#} s (out_fifo_map drv dev err edma fifo s)"
    unfolding out_edma_def out_fifo_def out_fifo_map_def by (blast intro: gives_back_destroy gives_back_err t assms)+
qed

section \<open>Channels\<close>

text \<open>
  The result of a step with the three handles: on failure they are given back with \<open>lost\<close>, on
  success \<open>got\<close> is added.
\<close>

definition step_result :: "w32 \<Rightarrow> w32 \<Rightarrow> w32 \<Rightarrow> nvrm_device \<Rightarrow> resource multiset \<Rightarrow> (nvrm_channel \<Rightarrow> resource multiset) \<Rightarrow>
    nvrm_context \<Rightarrow> (nvrm_channel option \<times> nvrm_context) option \<Rightarrow> bool" where
  "step_result err edma fifo dev lost got s res \<longleftrightarrow>
     (\<exists>s'. res = Some (None, s') \<and> gives_back err edma fifo lost s (Some s')) \<or>
     (\<exists>c s'. res = Some (Some c, s') \<and> keeps s s' \<and> hs_ok s' \<and> used s' = used s \<and> kept s' = kept s + got c \<and>
        oerr c = err \<and> oedma c = edma \<and> ofifo c = fifo \<and> echain c = [] \<and> ch_dev c = dev)"

lemma gives_back_shift:
  assumes "gives_back err edma fifo lost' t out" "keeps s t" "used t = used s" "kept t - lost' = kept s - lost"
  shows "gives_back err edma fifo lost s out"
  using assms keeps_trans [OF assms(2)] by (auto simp: gives_back_def)

lemma step_failed:
  assumes "gives_back err edma fifo lost' t out" "keeps s t" "used t = used s" "kept t - lost' = kept s - lost"
  shows "step_result err edma fifo dev lost got s (map_option (Pair None) out)"
proof -
  have g: "gives_back err edma fifo lost s out" by (rule gives_back_shift [OF assms])
  then obtain s' where "out = Some s'" by (auto simp: gives_back_def)
  then show ?thesis using g by (simp add: step_result_def)
qed

text \<open>A step that takes one object before the next step.\<close>

lemma step_then:
  assumes "step_result err edma fifo dev (add_mset x lost) got t res" "keeps s t" "used t = used s" "kept t = add_mset x (kept s)"
  shows "step_result err edma fifo dev lost (\<lambda>c. add_mset x (got c)) s res"
proof -
  have o: "kept t - add_mset x lost = kept s - lost" using assms(4) by simp
  consider s' where "res = Some (None, s')" "gives_back err edma fifo (add_mset x lost) t (Some s')"
    | c s' where "res = Some (Some c, s')" "keeps t s'" "hs_ok s'" "used s' = used t" "kept s' = kept t + got c"
        "oerr c = err" "oedma c = edma" "ofifo c = fifo" "echain c = []" "ch_dev c = dev"
    using assms(1) by (auto simp: step_result_def)
  then show ?thesis
  proof cases
    case 1
    then show ?thesis using gives_back_shift [OF 1(2) assms(2,3) o] by (simp add: step_result_def)
  next
    case 2
    then show ?thesis using keeps_trans [OF assms(2) 2(2)] assms(3,4) by (simp add: step_result_def)
  qed
qed

definition map_res :: "nvrm_channel \<Rightarrow> resource multiset" where
  "map_res c = {#Host_mapping (ofifo c), Mapping (fifo_mmap c)#}"

lemma chan_map_spec:
  assumes t: "three err edma fifo s"
  shows "step_result err edma fifo (vas_dev vas) {#Obj fifo, Obj edma, Obj err#} map_res s (chan_map drv vas cls err edma fifo s)"
proof -
  let ?dev = "vas_dev vas"
  obtain r fo s1 where h: "nvrm_ioctl_host_map drv (osubdev ?dev) fifo 0 0x200 s = ((r, fo), s1)" by (metis surj_pair)
  note hs = host_map_spec [OF h]
  have t1: "three err edma fifo s1" "used s1 = used s" "hs_ok s1" using t hs three_cong [of s1 s] by (simp_all add: three_def used_def hs_ok_def)
  show ?thesis
  proof (cases "r = 0")
    case False
    have "step_result err edma fifo ?dev {#Obj fifo, Obj edma, Obj err#} map_res s (map_option (Pair None) (out_fifo_map drv ?dev err edma fifo s1))"
      by (rule step_failed [OF gives_back_labels(3) [OF t1(1)]]) (use hs False t1 in simp_all)
    then show ?thesis by (simp add: chan_map_def h False)
  next
    case r0: True
    obtain m s2 where m: "sys_call drv (MMAP (dev_fd ?dev) 0x1000 (the fo AND NOT 0xfff)) s1 = (m, s2)" by fastforce
    note ms = sys_call_eqs [OF m]
    show ?thesis
    proof (cases "rc m < 0")
      case True
      obtain z s3 where u: "nvrm_ioctl_host_unmap drv (osubdev ?dev) fifo (the fo) s2 = (z, s3)" by fastforce
      note us = host_unmap_spec [OF u]
      have t3: "three err edma fifo s3" "used s3 = used s" using t1 ms us by (simp_all add: three_def used_def hs_ok_def)
      have "step_result err edma fifo ?dev {#Obj fifo, Obj edma, Obj err#} map_res s (map_option (Pair None) (out_fifo_map drv ?dev err edma fifo s3))"
        by (rule step_failed [OF gives_back_labels(3) [OF t3(1)]]) (use hs ms us True r0 t3 in \<open>simp_all add: keeps_def\<close>)
      moreover have "chan_map drv vas cls err edma fifo s = map_option (Pair None) (out_fifo_map drv ?dev err edma fifo s3)"
        using True m u r0 by (simp add: chan_map_def h Let_def)
      ultimately show ?thesis by simp
    next
      case False
      then have e: "chan_map drv vas cls err edma fifo s = Some (Some \<lparr>ch_dev = ?dev, ch_vas = vas, echain = [], ofifo = fifo,
          fifo_mmap = r_addr m, fifo_foffset = the fo, oedma = edma, oerr = err, ch_cls = cls\<rparr>, s2)"
        using m r0 by (simp add: chan_map_def h Let_def)
      have "kept s2 = kept s + {#Host_mapping fifo, Mapping (r_addr m)#}" using hs ms False r0 by simp
      moreover have "keeps s s2" "hs_ok s2" "used s2 = used s" using hs ms t1 by (simp_all add: keeps_def used_def hs_ok_def)
      ultimately show ?thesis unfolding e step_result_def by (simp add: map_res_def)
    qed
  qed
qed

lemma chan_fifo_spec:
  assumes t: "three err edma fifo s" and cls: "cls \<noteq> 0"
  shows "step_result err edma fifo (vas_dev vas) {#Obj edma, Obj err#} (\<lambda>c. add_mset (Obj fifo) (map_res c)) s
    (chan_fifo drv vas cls ib err edma fifo s)"
proof -
  let ?dev = "vas_dev vas" and ?arg = "[ucast edma, ucast (odma vas), bo_gpu_addr ib, bo_size ib div 8, 0, 0]"
  obtain r w s1 where h: "nvrm_ioctl_create drv (odev ?dev) fifo cls ?arg s = ((r, w), s1)" by (metis surj_pair)
  note hs = create_spec [OF h]
  have t1: "three err edma fifo s1" "used s1 = used s" using t hs three_cong [of s1 s] by (simp_all add: used_def)
  show ?thesis
  proof (cases "r = 0")
    case False
    have "step_result err edma fifo ?dev {#Obj edma, Obj err#} (\<lambda>c. add_mset (Obj fifo) (map_res c)) s
        (map_option (Pair None) (out_fifo drv ?dev err edma fifo s1))"
      by (rule step_failed [OF gives_back_labels(2) [OF t1(1)]]) (use hs False t1 in simp_all)
    then show ?thesis by (simp add: chan_fifo_def h False Let_def)
  next
    case True
    then have "kept s1 = add_mset (Obj fifo) (kept s)" "keeps s s1" using hs cls by simp_all
    then show ?thesis using step_then [OF chan_map_spec [OF t1(1)] _ t1(2)] True by (simp add: chan_fifo_def h Let_def)
  qed
qed

lemma chan_dma_spec:
  assumes t: "three err edma fifo s" and cls: "cls \<noteq> 0"
  shows "step_result err edma fifo (vas_dev vas) {#Obj err#} (\<lambda>c. add_mset (Obj edma) (add_mset (Obj fifo) (map_res c))) s
    (chan_dma drv vas cls ib err edma fifo s)"
proof -
  obtain r s1 where h: "nvrm_ioctl_create_dma drv err edma 2 0x20100000 0 0xfff s = (r, s1)" by fastforce
  note hs = create_dma_spec [OF h]
  have t1: "three err edma fifo s1" "used s1 = used s" using t hs three_cong [of s1 s] by (simp_all add: used_def)
  show ?thesis
  proof (cases "r = 0")
    case False
    have "step_result err edma fifo (vas_dev vas) {#Obj err#} (\<lambda>c. add_mset (Obj edma) (add_mset (Obj fifo) (map_res c))) s
        (map_option (Pair None) (out_edma drv (vas_dev vas) err edma fifo s1))"
      by (rule step_failed [OF gives_back_labels(1) [OF t1(1)]]) (use hs False t1 in simp_all)
    then show ?thesis by (simp add: chan_dma_def h False)
  next
    case True
    then have "kept s1 = add_mset (Obj edma) (kept s)" "keeps s s1" using hs by simp_all
    then show ?thesis using step_then [OF chan_fifo_spec [OF t1(1) cls] _ t1(2)] True by (simp add: chan_dma_def h)
  qed
qed

lemma chan_mem_spec:
  assumes t: "three err edma fifo s" and cls: "cls \<noteq> 0"
  shows "step_result err edma fifo (vas_dev vas) {#} (\<lambda>c. add_mset (Obj err) (add_mset (Obj edma) (add_mset (Obj fifo) (map_res c)))) s
    (chan_mem drv vas cls ib err edma fifo s)"
proof -
  let ?dev = "vas_dev vas"
  obtain r s1 where h: "nvrm_ioctl_memory drv (odev ?dev) (odev ?dev) err 0xd001 0x3a000000 0 0x1000 s = (r, s1)" by fastforce
  note hs = memory_spec [OF h]
  have t1: "three err edma fifo s1" "used s1 = used s" using t hs three_cong [of s1 s] by (simp_all add: used_def)
  show ?thesis
  proof (cases "r = 0")
    case False
    have "step_result err edma fifo ?dev {#} (\<lambda>c. add_mset (Obj err) (add_mset (Obj edma) (add_mset (Obj fifo) (map_res c)))) s
        (map_option (Pair None) (out_err drv err edma fifo s1))"
      by (rule step_failed [OF gives_back_err [OF t1(1)]]) (use hs False t1 in simp_all)
    then show ?thesis by (simp add: chan_mem_def h False Let_def)
  next
    case True
    then have "kept s1 = add_mset (Obj err) (kept s)" "keeps s s1" using hs by simp_all
    then show ?thesis using step_then [OF chan_dma_spec [OF t1(1) cls] _ t1(2)] True by (simp add: chan_mem_def h Let_def)
  qed
qed

text \<open>A channel that cannot be made leaves its kept record behind and nothing else.\<close>

lemma channel_create_spec:
  assumes e: "nvrm_channel_create_ib drv vas cls ib s = Some (r, s')" and ok: "hs_ok s" and cls: "cls \<noteq> 0"
  shows "case r of None \<Rightarrow> hchain s' = hchain s \<and> keeps s s' \<and> (kept s' = kept s \<or> kept s' = add_mset (Mem nvrm_channel) (kept s))
    | Some c \<Rightarrow> kept s' = kept s + chan_res c + {#Mem nvrm_channel#} \<and> keeps s s' \<and> three (oerr c) (oedma c) (ofifo c) s' \<and>
        {oerr c, oedma c, ofifo c} \<inter> used s = {} \<and> used s' = {oerr c, oedma c, ofifo c} \<union> used s \<and> echain c = [] \<and> ch_dev c = vas_dev vas"
proof (cases "alloc drv nvrm_channel s")
  case (Pair okb s0)
  note a = alloc_spec [OF Pair]
  show ?thesis
  proof (cases okb)
    case False
    then show ?thesis using e a by (auto simp: nvrm_channel_create_ib_def Pair)
  next
    case okb: True
    have ok0: "hs_ok s0" and u0: "used s0 = used s" using a ok by (simp_all add: hs_ok_def used_def)
    obtain err s1 edma s2 fifo s3 where h1: "nvrm_handle_alloc drv s0 = Some (err, s1)" and h2: "nvrm_handle_alloc drv s1 = Some (edma, s2)"
      and h3: "nvrm_handle_alloc drv s2 = Some (fifo, s3)" and m: "chan_mem drv vas cls ib err edma fifo s3 = Some (r, s')"
      using e by (auto simp: nvrm_channel_create_ib_def Pair okb)
    note u1 = alloc_used [OF h1 ok0] and k1 = handle_alloc_spec [OF h1]
    note u2 = alloc_used [OF h2 conjunct1 [OF u1]] and k2 = handle_alloc_spec [OF h2]
    note u3 = alloc_used [OF h3 conjunct1 [OF u2]] and k3 = handle_alloc_spec [OF h3]
    have us: "used s3 = {err, edma, fifo} \<union> used s" "{err, edma, fifo} \<inter> used s = {}" using u0 u1 u2 u3 by auto
    have t3: "three err edma fifo s3" using u1 u2 u3 by (auto simp: three_def)
    have o3: "kept s3 = kept s + {#Mem nvrm_channel#} + three_mem" "keeps s s3"
      using a k1 k2 k3 okb by (simp_all add: keeps_def three_mem_def)
    have "step_result err edma fifo (vas_dev vas) {#} (\<lambda>c. add_mset (Obj err) (add_mset (Obj edma) (add_mset (Obj fifo) (map_res c)))) s3 (Some (r, s'))"
      using chan_mem_spec [OF t3 cls, of vas drv ib] m by simp
    then consider "r = None" "gives_back err edma fifo {#} s3 (Some s')"
      | c where "r = Some c" "keeps s3 s'" "hs_ok s'" "used s' = used s3"
          "kept s' = kept s3 + add_mset (Obj err) (add_mset (Obj edma) (add_mset (Obj fifo) (map_res c)))"
          "oerr c = err" "oedma c = edma" "ofifo c = fifo" "echain c = []" "ch_dev c = vas_dev vas"
      by (auto simp: step_result_def)
    then show ?thesis
    proof cases
      case 1
      then have g: "keeps s3 s'" "hs_ok s'" "used s' = used s3 - {err, edma, fifo}" "kept s' = kept s3 - {#} - three_mem"
        by (auto simp: gives_back_def)
      have "used s' = used s" using g(3) us by auto
      then have "hchain s' = hchain s" using chain_unique g(2) ok by blast
      moreover have "kept s' = kept s + {#Mem nvrm_channel#}" using g(4) o3(1) by simp
      ultimately show ?thesis using 1(1) keeps_trans [OF o3(2) g(1)] by simp
    next
      case 2
      have "kept s' = kept s + chan_res c + {#Mem nvrm_channel#}"
        using 2 o3(1) by (simp add: chan_res_def map_res_def three_mem_def)
      moreover have "three err edma fifo s'" using t3 2(3,4) by (simp add: three_def)
      ultimately show ?thesis using 2 us keeps_trans [OF o3(2) 2(2)] by simp
    qed
  qed
qed

lemma eng_create_spec:
  assumes e: "nvrm_eng_create drv ch cls s = Some (r, ch', s')" and ok: "hs_ok s" and cls: "cls \<noteq> 0"
  shows "case r of None \<Rightarrow> unchanged s s' \<and> ch' = ch
    | Some h \<Rightarrow> kept s' = kept s + eng_res h \<and> keeps s s' \<and> hs_ok s' \<and> h \<notin> used s \<and> used s' = insert h (used s) \<and>
        ch' = ch\<lparr>echain := h # echain ch\<rparr>"
proof (cases "alloc drv nvrm_eng s")
  case (Pair okb s0)
  note a = alloc_spec [OF Pair]
  show ?thesis
  proof (cases okb)
    case False
    then show ?thesis using e a by (auto simp: nvrm_eng_create_def Pair unchanged_def)
  next
    case okb: True
    have ok0: "hs_ok s0" and u0: "used s0 = used s" using a ok by (simp_all add: hs_ok_def used_def)
    obtain h s1 where h: "nvrm_handle_alloc drv s0 = Some (h, s1)" using e by (auto simp: nvrm_eng_create_def Pair okb)
    note u1 = alloc_used [OF h ok0] and k1 = handle_alloc_spec [OF h]
    obtain x w s2 where c: "nvrm_ioctl_create drv (ofifo ch) h cls [] s1 = ((x, w), s2)" by (metis surj_pair)
    note cs = create_spec [OF c]
    show ?thesis
    proof (cases "x = 0")
      case False
      then obtain s3 where f: "nvrm_handle_free drv h s2 = Some s3" "r = None" "ch' = ch" "s' = free drv nvrm_eng s3"
        using e by (auto simp: nvrm_eng_create_def Pair okb h c)
      have "hchain s2 = hchain s1" using cs by simp
      note fr = free_after_alloc [OF h ok0 this f(1)]
      show ?thesis using a k1 cs fr False okb by (simp add: f unchanged_def keeps_def)
    next
      case True
      then have r: "r = Some h" "ch' = ch\<lparr>echain := h # echain ch\<rparr>" "s' = s2"
        using e by (auto simp: nvrm_eng_create_def Pair okb h c)
      have "kept s' = kept s + eng_res h" "keeps s s'" using r a k1 cs True okb cls by (simp_all add: eng_res_def keeps_def)
      moreover have "hs_ok s'" "used s' = insert h (used s)" using r cs u1 u0 by (simp_all add: used_def hs_ok_def)
      ultimately show ?thesis using r u1 u0 by simp
    qed
  qed
qed

section \<open>The end of a channel\<close>

lemma destroy_engs_spec:
  "hs_ok s \<Longrightarrow> set es \<subseteq> used s \<Longrightarrow> distinct es \<Longrightarrow>
    \<exists>s'. destroy_engs drv fifo es s = Some s' \<and> kept s' = kept s - sum_list (map eng_res es) \<and> hs_ok s' \<and>
      used s' = used s - set es \<and> keeps s s'"
proof (induction es arbitrary: s)
  case Nil
  then show ?case by simp
next
  case (Cons h es)
  obtain x s1 where d: "nvrm_ioctl_destroy drv fifo h s = (x, s1)" by fastforce
  note ds = destroy_spec [OF d]
  have s1: "hs_ok s1" "used s1 = used s" using ds Cons.prems by (simp_all add: hs_ok_def used_def)
  then have "h \<in> used s1" using Cons.prems by simp
  then obtain s2 where f: "nvrm_handle_free drv h s1 = Some s2" using free_used_returns by blast
  note fu = free_used [OF f s1(1)] and fs = handle_free_spec [OF f]
  let ?s3 = "free drv nvrm_eng s2"
  have "hs_ok ?s3" "set es \<subseteq> used ?s3" "distinct es" using fu s1 Cons.prems by auto
  then obtain s' where s': "destroy_engs drv fifo es ?s3 = Some s'" "kept s' = kept ?s3 - sum_list (map eng_res es)" "hs_ok s'"
    "used s' = used ?s3 - set es" "keeps ?s3 s'" using Cons.IH by blast
  have "kept ?s3 = kept s - eng_res h" using ds fs by (simp add: eng_res_def add_mset_commute)
  then have "kept s' = kept s - sum_list (map eng_res (h # es))" using s'(2) by simp
  moreover have "keeps s ?s3" using ds fs by (simp add: keeps_def)
  then have "keeps s s'" using s'(5) keeps_trans by blast
  moreover have "used s' = used s - set (h # es)" using s'(4) fu s1(2) by auto
  ultimately show ?case using s'(1,3) d f by simp
qed

lemma channel_destroy_spec:
  assumes t: "three (oerr c) (oedma c) (ofifo c) s" and e: "set (echain c) \<subseteq> used s" "distinct (echain c)"
    "{oerr c, oedma c, ofifo c} \<inter> set (echain c) = {}"
  shows "\<exists>s'. nvrm_channel_destroy drv c s = Some s' \<and> kept s' = kept s - chan_res c \<and> hs_ok s' \<and>
    used s' = used s - set (echain c) - {oerr c, oedma c, ofifo c} \<and> keeps s s'"
proof -
  obtain s0 where s0: "destroy_engs drv (ofifo c) (echain c) s = Some s0" "kept s0 = kept s - sum_list (map eng_res (echain c))" "hs_ok s0"
      "used s0 = used s - set (echain c)" "keeps s s0"
    using destroy_engs_spec t e unfolding three_def by meson
  obtain x s1 where m: "sys_call drv (MUNMAP (fifo_mmap c) 0x1000) s0 = (x, s1)" by fastforce
  obtain y s2 where u: "nvrm_ioctl_host_unmap drv (osubdev (ch_dev c)) (ofifo c) (fifo_foffset c) s1 = (y, s2)" by fastforce
  let ?out = "out_fifo_map drv (ch_dev c) (oerr c) (oedma c) (ofifo c) s2"
  note ms = sys_call_eqs [OF m] and us = host_unmap_spec [OF u]
  have s2: "hs_ok s2" "used s2 = used s0" "keeps s s2" using ms us s0(3,5) by (simp_all add: used_def hs_ok_def keeps_def)
  then have "three (oerr c) (oedma c) (ofifo c) s2" using t e s0(4) by (auto simp: three_def)
  then have g: "gives_back (oerr c) (oedma c) (ofifo c) {#Obj (ofifo c), Obj (oedma c), Obj (oerr c)#} s2 ?out"
    by (rule gives_back_labels(3))
  then obtain s' where s': "?out = Some s'" "keeps s2 s'" "hs_ok s'" "used s' = used s2 - {oerr c, oedma c, ofifo c}"
      "kept s' = kept s2 - {#Obj (ofifo c), Obj (oedma c), Obj (oerr c)#} - three_mem" by (auto simp: gives_back_def)
  have "nvrm_channel_destroy drv c s = ?out"
    by (simp add: nvrm_channel_destroy_def s0(1) m u out_fifo_map_def out_fifo_def out_edma_def out_err_def Let_def case_prod_beta)
  moreover have "kept s' = kept s - chan_res c"
  proof -
    have "kept s2 = kept s0 - {#Mapping (fifo_mmap c)#} - {#Host_mapping (ofifo c)#}" using ms us by simp
    then show ?thesis unfolding s'(5) s0(2) chan_res_def three_mem_def by (simp only:) (rule multiset_eqI, simp)
  qed
  ultimately show ?thesis using s' s2 s0(4) keeps_trans [OF s2(3) s'(2)] by simp
qed

section \<open>The life of an object\<close>

text \<open>Memory for the handles is there; a handle is free as long as fewer than 2 ^ 30 are in use.\<close>

definition mem_ok :: "drv \<Rightarrow> bool" where "mem_ok drv \<longleftrightarrow> (\<forall>cs. 0 \<le> rc (drv cs (ALLOC nvrm_handle)))"

lemma handle_insert_bound:
  "handle_insert e l = (x, l') \<Longrightarrow> unat e + length l < 2 ^ 32 \<Longrightarrow> unat x \<le> unat e + length l \<and> length l' = Suc (length l)"
proof (induction e l arbitrary: x l' rule: handle_insert.induct)
  case (1 e)
  then show ?case by auto
next
  case (2 e h hs)
  show ?case
  proof (cases "h = e")
    case True
    obtain y m where ym: "handle_insert (e + 1) hs = (y, m)" by fastforce
    have "unat (e + 1) = unat e + 1" using 2(3) by (simp add: unat_word_ariths)
    then show ?thesis using 2(1) [OF True ym] 2(2,3) ym True by auto
  next
    case False
    then show ?thesis using 2(2) by auto
  qed
qed

lemma alloc_returns:
  assumes "mem_ok drv" "length (hchain s) < 2 ^ 30"
  shows "\<exists>h s'. nvrm_handle_alloc drv s = Some (h, s') \<and> length (hchain s') = Suc (length (hchain s))"
proof -
  obtain e l where el: "handle_insert 1 (hchain s) = (e, l)" by fastforce
  then have b: "unat e \<le> 1 + length (hchain s)" "length l = Suc (length (hchain s))"
    using handle_insert_bound [OF el] assms(2) by simp_all
  then have "e \<le> MAX_HANDLE" using assms(2) by (simp add: MAX_HANDLE_def word_le_nat_alt)
  then show ?thesis using el b assms(1)
    by (simp add: nvrm_handle_alloc_def alloc_def sys_call_def mem_ok_def Let_def)
qed

lemma bo_create_returns:
  assumes ok: "hs_ok s" and m: "mem_ok drv" "length (hchain s) < 2 ^ 30"
  shows "\<exists>r s'. nvrm_bo_create drv vas sz b s = Some (r, s')"
proof (cases "alloc drv nvrm_bo s")
  case (Pair okb s0)
  have l0: "length (hchain s0) < 2 ^ 30" "hs_ok s0" using alloc_spec [OF Pair] m ok by (simp_all add: hs_ok_def)
  obtain h s1 where h: "nvrm_handle_alloc drv s0 = Some (h, s1)" using alloc_returns [OF m(1) l0(1)] by blast
  have u: "hs_ok s1" "h \<in> used s1" using alloc_used [OF h l0(2)] by auto
  have fr: "\<exists>v. nvrm_handle_free drv h t = Some v" if "hchain t = hchain s1" for t
    using free_used_returns [of h t] u(2) that by (simp add: used_def)
  obtain x s2 where me: "nvrm_ioctl_memory drv (odev (vas_dev vas)) (ovas vas) h (if b then 0xd001 else 0x1d101)
      (if b then 0x5a000000 else 0x18000000) 0 sz s1 = (x, s2)" by fastforce
  obtain y ad s3 where v: "nvrm_ioctl_vspace_map drv (odev (vas_dev vas)) (odma vas) h 0 sz s2 = ((y, ad), s3)"
    by (metis surj_pair)
  obtain z s4 where d: "nvrm_ioctl_destroy drv (odev (vas_dev vas)) h s3 = (z, s4)" by fastforce
  have c: "hchain s2 = hchain s1" "hchain s4 = hchain s1"
    using memory_spec [OF me] vspace_map_spec [OF v] destroy_spec [OF d] by simp_all
  obtain f2 f4 where "nvrm_handle_free drv h s2 = Some f2" "nvrm_handle_free drv h s4 = Some f4"
    using fr [OF c(1)] fr [OF c(2)] by blast
  then show ?thesis by (simp add: nvrm_bo_create_def Pair h me v d Let_def)
qed

lemma buffer_life:
  assumes "hs_ok s" "mem_ok drv" "mmap_ok drv" "length (hchain s) < 2 ^ 30"
  shows "\<exists>r s1. nvrm_bo_create drv vas sz b s = Some (r, s1) \<and>
    (case r of None \<Rightarrow> unchanged s s1
     | Some bo \<Rightarrow> (case nvrm_bo_host_map drv bo s1 of (m, bo', s2) \<Rightarrow> \<exists>s3. nvrm_bo_destroy drv bo' s2 = Some s3 \<and> unchanged s s3))"
proof -
  obtain r s1 where c: "nvrm_bo_create drv vas sz b s = Some (r, s1)" using bo_create_returns assms by blast
  note cs = bo_create_spec [OF c assms(1)]
  show ?thesis
  proof (cases r)
    case None
    then show ?thesis using c cs by auto
  next
    case (Some bo)
    then have bo: "kept s1 = kept s + bo_res bo" "hs_ok s1" "bo_handle bo \<notin> used s" "used s1 = insert (bo_handle bo) (used s)" "keeps s s1"
      using cs by simp_all
    obtain m bo' s2 where h: "nvrm_bo_host_map drv bo s1 = (m, bo', s2)" by (metis surj_pair)
    note hs = host_map_keeps [OF h assms(3)]
    then have hm: "kept s2 + bo_res bo = kept s1 + bo_res bo'" "hchain s2 = hchain s1" "keeps s1 s2" by blast+
    have "bo' = bo\<lparr>bo_foffset := bo_foffset bo', bo_mmap := bo_mmap bo'\<rparr>" using hs by blast
    then have hb: "bo_handle bo' = bo_handle bo" by (cases bo; cases bo') simp
    have s2: "hs_ok s2" "used s2 = used s1" "kept s2 = kept s + bo_res bo'" "keeps s s2"
      using hm bo(1,2) keeps_trans [OF bo(5) hm(3)] by (simp_all add: hs_ok_def used_def)
    then obtain s3 where d: "nvrm_bo_destroy drv bo' s2 = Some s3" "kept s3 = kept s2 - bo_res bo'" "hs_ok s3"
        "used s3 = used s2 - {bo_handle bo'}" "keeps s2 s3"
      using bo_destroy_spec [OF s2(1), of bo' drv] bo(4) hb by auto
    have "used s3 = used s" using d(4) s2(2) bo(3,4) hb by auto
    then have "unchanged s s3"
      using chain_unique [OF d(3) assms(1)] d(2) s2(3) keeps_trans [OF s2(4) d(5)] by (simp add: unchanged_def)
    then show ?thesis using c Some h d(1) by auto
  qed
qed

text \<open>
  The client is back where it was: the books, the chain of handles and the context are the same,
  nothing the client had is missing, and nothing is left when no release was refused.
\<close>

definition restored :: "nvrm_context \<Rightarrow> nvrm_context \<Rightarrow> bool" where
  "restored s s' \<longleftrightarrow> unchanged s s' \<and> own s \<subseteq># own s' \<and> (all_accepted s' \<longrightarrow> own s' = own s)"

lemma unchanged_restored: "unchanged s s' \<Longrightarrow> all_accepted s \<Longrightarrow> restored s s'"
  using kept_below [of s'] by (simp add: restored_def unchanged_def kept_own)

text \<open>C25: 
  Making a buffer, mapping it for the process and destroying it never aborts, whatever the driver
  answers, when memory for the handles is there, fewer than \<open>2 ^ 30\<close> handles are in use and
  \<open>mmap\<close> does not answer a null pointer. The chain of handles is then as before, also when the
  buffer cannot be made; and objects, mappings and memory are as before unless the driver refused a
  release (which the code does not notice, and which leaves the resource). No release was refused
  before.
\<close>

theorem buffer_life_leaves_nothing:
  assumes "hs_ok s" "mem_ok drv" "mmap_ok drv" "length (hchain s) < 2 ^ 30" "all_accepted s"
  shows "\<exists>r s1. nvrm_bo_create drv vas sz b s = Some (r, s1) \<and>
    (case r of None \<Rightarrow> restored s s1
     | Some bo \<Rightarrow> (case nvrm_bo_host_map drv bo s1 of (m, bo', s2) \<Rightarrow> \<exists>s3. nvrm_bo_destroy drv bo' s2 = Some s3 \<and> restored s s3))"
proof -
  obtain r s1 where r: "nvrm_bo_create drv vas sz b s = Some (r, s1)"
    "case r of None \<Rightarrow> unchanged s s1
     | Some bo \<Rightarrow> (case nvrm_bo_host_map drv bo s1 of (m, bo', s2) \<Rightarrow> \<exists>s3. nvrm_bo_destroy drv bo' s2 = Some s3 \<and> unchanged s s3)"
    using buffer_life [OF assms(1-4)] by blast
  then show ?thesis
    using unchanged_restored [OF _ assms(5)] by (cases r) (auto split: prod.splits)
qed

text \<open>The record of a channel is never freed: not when its creation fails, not when it is destroyed.\<close>

theorem channel_record_is_lost:
  assumes c: "nvrm_channel_create_ib drv vas cls ib s = Some (Some ch, s1)" and g: "nvrm_eng_create drv ch ecls s1 = Some (r, ch', s2)"
    and ok: "hs_ok s" "cls \<noteq> 0" "ecls \<noteq> 0"
  shows "\<exists>s3. nvrm_channel_destroy drv ch' s2 = Some s3 \<and> hchain s3 = hchain s \<and> keeps s s3 \<and>
    kept s3 = add_mset (Mem nvrm_channel) (kept s)"
proof -
  have cs: "kept s1 = kept s + chan_res ch + {#Mem nvrm_channel#}" "keeps s s1" "three (oerr ch) (oedma ch) (ofifo ch) s1"
      "{oerr ch, oedma ch, ofifo ch} \<inter> used s = {}" "used s1 = {oerr ch, oedma ch, ofifo ch} \<union> used s" "echain ch = []"
    using channel_create_spec [OF c ok(1,2)] by simp_all
  have ok1: "hs_ok s1" using cs(3) by (simp add: three_def)
  have "kept s2 = kept s + chan_res ch' + {#Mem nvrm_channel#} \<and> keeps s1 s2 \<and> three (oerr ch') (oedma ch') (ofifo ch') s2 \<and>
      used s2 = set (echain ch') \<union> {oerr ch, oedma ch, ofifo ch} \<union> used s \<and> distinct (echain ch') \<and> oerr ch' = oerr ch \<and>
      oedma ch' = oedma ch \<and> ofifo ch' = ofifo ch \<and> set (echain ch') \<inter> used s1 = {}"
  proof (cases r)
    case None
    then have "unchanged s1 s2" "ch' = ch" using eng_create_spec [OF g ok1 ok(3)] by simp_all
    then show ?thesis using cs three_cong [of s2 s1] by (simp add: unchanged_def used_def)
  next
    case (Some h)
    then have "kept s2 = kept s1 + eng_res h" "keeps s1 s2" "hs_ok s2" "h \<notin> used s1" "used s2 = insert h (used s1)"
        "ch' = ch\<lparr>echain := h # echain ch\<rparr>" using eng_create_spec [OF g ok1 ok(3)] by simp_all
    then show ?thesis using cs by (simp add: three_def chan_res_def insert_commute)
  qed
  then have s2: "kept s2 = kept s + chan_res ch' + {#Mem nvrm_channel#}" "keeps s1 s2" "three (oerr ch') (oedma ch') (ofifo ch') s2"
      "used s2 = set (echain ch') \<union> {oerr ch, oedma ch, ofifo ch} \<union> used s" "distinct (echain ch')" "oerr ch' = oerr ch"
      "oedma ch' = oedma ch" "ofifo ch' = ofifo ch" "set (echain ch') \<inter> used s1 = {}" by blast+
  have dis: "{oerr ch', oedma ch', ofifo ch'} \<inter> set (echain ch') = {}" "set (echain ch') \<subseteq> used s2"
    using s2(4,6-9) cs(5) by auto
  obtain s3 where d: "nvrm_channel_destroy drv ch' s2 = Some s3" "kept s3 = kept s2 - chan_res ch'" "hs_ok s3"
      "used s3 = used s2 - set (echain ch') - {oerr ch', oedma ch', ofifo ch'}" "keeps s2 s3"
    using channel_destroy_spec [OF s2(3) dis(2) s2(5) dis(1)] by blast
  have "used s3 = used s" using d(4) s2(4,6-9) cs(4,5) by auto
  then have "hchain s3 = hchain s" using chain_unique [OF d(3) ok(1)] by blast
  then show ?thesis using d s2(1) keeps_trans [OF cs(2) keeps_trans [OF s2(2) d(5)]] by simp
qed

section \<open>Counting\<close>

text \<open>The driver answers the question for the processors of every cluster.\<close>

definition tp_answers :: "drv \<Rightarrow> nvrm_device \<Rightarrow> (nat \<Rightarrow> w32) \<Rightarrow> bool" where
  "tp_answers drv dev tp \<longleftrightarrow> (\<forall>cs f c i. let r = drv cs (CALL f c (osubdev dev) 0x20800138 [word_of_nat i, 0] 8)
     in 0 \<le> rc r \<and> status r = 0 \<and> r_words r 1 = tp i)"

lemma get_gpc_tp_mask_answer:
  "tp_answers drv dev tp \<Longrightarrow> \<exists>s'. nvrm_device_get_gpc_tp_mask drv dev i s = ((0, Some (tp i)), s')"
  by (simp add: nvrm_device_get_gpc_tp_mask_def nvrm_ioctl_call_def sys_call_def tp_answers_def Let_def result_def linorder_not_less)

lemma bits_Suc: "{k. bit (g :: w32) k} = (if bit g 0 then {0} else {}) \<union> Suc ` {k. bit (drop_bit 1 g) k}"
proof (rule set_eqI)
  fix k
  show "k \<in> {k. bit g k} \<longleftrightarrow> k \<in> (if bit g 0 then {0} else {}) \<union> Suc ` {k. bit (drop_bit 1 g) k}"
    by (cases k) (simp_all add: bit_drop_bit_eq image_iff)
qed

lemma finite_bits: "finite {k. bit (g :: w32) k}"
proof (rule finite_subset)
  show "{k. bit g k} \<subseteq> {..<32}" by (auto dest: bit_imp_le_length)
qed simp

lemma sum_bits: "sum f {k. bit (g :: w32) k} = (if bit g 0 then f 0 else 0) + sum (\<lambda>k. f (Suc k)) {k. bit (drop_bit 1 g) k}"
proof -
  have "sum f {k. bit g k} = sum f (if bit g 0 then {0} else {}) + sum f (Suc ` {k. bit (drop_bit 1 g) k})"
    by (subst bits_Suc, rule sum.union_disjoint) (auto simp: finite_bits)
  then show ?thesis by (simp add: sum.reindex)
qed

lemma tp_loop_sum:
  "tp_answers drv dev tp \<Longrightarrow>
    \<exists>s'. tp_loop drv dev g i c s = ((0, Some (c + (\<Sum>k\<in>{k. bit g k}. popcount (tp (i + k))))), s')"
proof (induction drv dev g i c s rule: tp_loop.induct)
  case (1 drv dev g i c s)
  show ?case
  proof (cases "g = 0")
    case True
    have "{k. bit g k} = {}" using True by simp
    then have "(\<Sum>k\<in>{k. bit g k}. popcount (tp (i + k))) = 0" by (simp only: sum.empty)
    moreover have "tp_loop drv dev g i c s = ((0, Some c), s)" using True by (subst tp_loop.simps) simp
    ultimately show ?thesis by simp
  next
    case nz: False
    show ?thesis
    proof (cases "bit g 0")
      case True
      obtain s1 where a: "nvrm_device_get_gpc_tp_mask drv dev i s = ((0, Some (tp i)), s1)"
        using get_gpc_tp_mask_answer [OF 1(3)] by blast
      have "\<exists>s'. tp_loop drv dev (drop_bit 1 g) (i + 1) (c + popcount (tp i)) s1 =
          ((0, Some (c + popcount (tp i) + (\<Sum>k\<in>{k. bit (drop_bit 1 g) k}. popcount (tp (i + 1 + k))))), s')"
        using 1(1) [OF nz True a [symmetric] refl refl] 1(3) by simp
      then show ?thesis using nz True a by (subst tp_loop.simps) (simp add: sum_bits [of _ g] add.assoc)
    next
      case False
      have "\<exists>s'. tp_loop drv dev (drop_bit 1 g) (i + 1) c s =
          ((0, Some (c + (\<Sum>k\<in>{k. bit (drop_bit 1 g) k}. popcount (tp (i + 1 + k))))), s')"
        using 1(2) [OF nz False] 1(3) by simp
      then show ?thesis using nz False by (subst tp_loop.simps) (simp add: sum_bits [of _ g])
    qed
  qed
qed

lemma total_tp_count:
  assumes "tp_answers drv dev tp" "nvrm_device_get_gpc_mask drv dev s = ((0, Some g), s1)"
  shows "\<exists>s'. nvrm_device_get_total_tp_count drv dev s = ((0, Some (\<Sum>k\<in>{k. bit g k}. popcount (tp k))), s')"
  using tp_loop_sum [OF assms(1), of g 0 0 s1] assms(2) by (simp add: nvrm_device_get_total_tp_count_def)

section \<open>Finding a device\<close>

definition valid_devs :: "nvrm_device list \<Rightarrow> nat \<Rightarrow> nat list" where
  "valid_devs ds i = map fst (filter (\<lambda>(j, d). gpu_id d \<noteq> NVRM_GPU_ID_INVALID) (enumerate i ds))"

lemma valid_devs_Cons:
  "valid_devs (d # ds) i = (if gpu_id d \<noteq> NVRM_GPU_ID_INVALID then [i] else []) @ valid_devs ds (Suc i)"
  by (simp add: valid_devs_def)

lemma xlat_loop_valid:
  "xlat_loop ds i idx = (if 0 \<le> idx \<and> nat idx < length (valid_devs ds i) then Some (valid_devs ds i ! nat idx) else None)"
proof (induction ds arbitrary: i idx)
  case Nil
  then show ?case by (simp add: valid_devs_def)
next
  case (Cons d ds)
  note v = valid_devs_Cons [of d ds i]
  show ?case
  proof (cases "gpu_id d \<noteq> NVRM_GPU_ID_INVALID \<and> idx > 0")
    case True
    then have "nat idx = Suc (nat (idx - 1))" by arith
    then show ?thesis using True Cons.IH v by simp
  next
    case False
    then show ?thesis using Cons.IH v by auto
  qed
qed

lemma num_devices_valid: "nvrm_num_devices s = length (valid_devs (devs s) i)"
proof -
  have "foldl (\<lambda>cnt d. if gpu_id d \<noteq> NVRM_GPU_ID_INVALID then cnt + 1 else cnt) n ds = n + length (valid_devs ds i)" for n ds i
  proof (induction ds arbitrary: n i)
    case Nil
    then show ?case by (simp add: valid_devs_def)
  next
    case (Cons d ds)
    show ?case using Cons.IH [of n "Suc i"] Cons.IH [of "n + 1" "Suc i"] by (simp add: valid_devs_Cons)
  qed
  from this [of 0 "devs s" i] show ?thesis by (simp add: nvrm_num_devices_def)
qed

lemma xlat_device_in_range:
  "(\<exists>i. nvrm_xlat_device s idx = Some i) \<longleftrightarrow> 0 \<le> idx \<and> idx < int (nvrm_num_devices s)"
  using num_devices_valid [of s 0] by (auto simp: nvrm_xlat_device_def xlat_loop_valid)

text \<open>Unmapping does not forget the mapping: done twice, it unmaps an address it no longer has.\<close>

lemma host_unmap_repeats:
  "bo_mmap bo \<noteq> 0 \<Longrightarrow> \<exists>r1 r2. map fst (calls (nvrm_bo_host_unmap drv bo s)) =
    [HOST_UNMAP (fd_ctl s) (ctx_cid s) (osubdev (bo_dev bo)) (bo_handle bo) (bo_foffset bo), MUNMAP (bo_mmap bo) (bo_size bo)] @ map fst (calls s)"
  by (simp add: nvrm_bo_host_unmap_def sys_call_def nvrm_ioctl_host_unmap_def Let_def)

section \<open>Concrete runs\<close>

definition good_drv :: drv where
  "good_drv cs c = \<lparr>rc = 0, status = 0, r_foffset = 0x5000, r_limit = 0xffffffff, r_addr = 0x7000, r_words = (\<lambda>_. 0), r_pat = 0,
     card = (\<lambda>_. (0, 0, 0)), card2 = (\<lambda>_. (0, 0, 0))\<rparr>"

definition dev0 :: nvrm_device where "dev0 = \<lparr>dev_idx = 0, gpu_id = 0x100, dev_fd = 4, odev = 1, osubdev = 2\<rparr>"
definition vas0 :: nvrm_vspace where "vas0 = \<lparr>vas_dev = dev0, ovas = 3, odma = 4\<rparr>"
definition bo0 :: nvrm_bo where
  "bo0 = \<lparr>bo_dev = dev0, bo_vas = vas0, bo_handle = 5, bo_size = 0x2000, bo_gpu_addr = 0x20000, bo_foffset = 0, bo_mmap = 0\<rparr>"
definition ctx0 :: nvrm_context where
  "ctx0 = \<lparr>fd_ctl = 3, ctx_cid = 0xc1d00001, devs = [dev0], hchain = [1, 2, 3, 4, 7], ver_major = 0, calls = []\<rparr>"

lemma good_env: "hs_ok ctx0" "mem_ok good_drv" "mmap_ok good_drv" "length (hchain ctx0) < 2 ^ 30"
  by (simp_all add: hs_ok_def handles_ok_def ctx0_def MAX_HANDLE_def mem_ok_def mmap_ok_def good_drv_def)

lemma ctx0_accepted: "all_accepted ctx0"
  by (simp add: all_accepted_def ctx0_def)

theorem buffer_life_leaves_nothing_witness:
  "\<exists>bo s1 m bo' s2 s3. nvrm_bo_create good_drv vas0 0x1000 True ctx0 = Some (Some bo, s1) \<and> bo_handle bo = 5 \<and>
     nvrm_bo_host_map good_drv bo s1 = (m, bo', s2) \<and> m = 0x7000 \<and> nvrm_bo_destroy good_drv bo' s2 = Some s3 \<and> restored ctx0 s3"
proof -
  obtain r s1 where r: "nvrm_bo_create good_drv vas0 0x1000 True ctx0 = Some (r, s1)"
    "case r of None \<Rightarrow> restored ctx0 s1
     | Some bo \<Rightarrow> (case nvrm_bo_host_map good_drv bo s1 of (m, bo', s2) \<Rightarrow> \<exists>s3. nvrm_bo_destroy good_drv bo' s2 = Some s3 \<and> restored ctx0 s3)"
    using buffer_life_leaves_nothing [OF good_env ctx0_accepted] by blast
  have "\<exists>bo t. nvrm_bo_create good_drv vas0 0x1000 True ctx0 = Some (Some bo, t) \<and> bo_handle bo = 5 \<and> fst (nvrm_bo_host_map good_drv bo t) = 0x7000"
    by (simp add: nvrm_bo_create_def alloc_def sys_call_def good_drv_def nvrm_handle_alloc_def ctx0_def MAX_HANDLE_def Let_def
        nvrm_ioctl_memory_def nvrm_ioctl_vspace_map_def result_def nvrm_bo_host_map_def nvrm_ioctl_host_map_def)
  then obtain bo where "r = Some bo" "bo_handle bo = 5" "fst (nvrm_bo_host_map good_drv bo s1) = 0x7000" using r(1) by auto
  then show ?thesis using r by (cases "nvrm_bo_host_map good_drv bo s1") auto
qed

text \<open>
  A driver that refuses to destroy objects: the buffer is gone for the client and its handle is
  free again, the object is still there.
\<close>

definition refusing_drv :: drv where
  "refusing_drv cs c = (case c of DESTROY _ _ _ _ \<Rightarrow> (good_drv cs c)\<lparr>status := 1\<rparr> | _ \<Rightarrow> good_drv cs c)"

lemma refused_destroy_leaks:
  "map_option (\<lambda>s. (hchain s, own s)) (do {
     (bo, s) \<leftarrow> nvrm_bo_create refusing_drv vas0 0x1000 True ctx0;
     bo \<leftarrow> bo;
     nvrm_bo_destroy refusing_drv bo s }) = Some (hchain ctx0, {#Obj 5#})"
  by (simp add: nvrm_bo_create_def alloc_def sys_call_def refusing_drv_def good_drv_def nvrm_handle_alloc_def ctx0_def
      MAX_HANDLE_def Let_def nvrm_ioctl_memory_def nvrm_ioctl_vspace_map_def result_def nvrm_bo_destroy_def
      nvrm_bo_host_unmap_def nvrm_ioctl_vspace_unmap_def nvrm_ioctl_destroy_def nvrm_handle_free_def own_def free_def)

theorem channel_record_is_lost_witness:
  "\<exists>ch s1 r ch' s2 s3. nvrm_channel_create_ib good_drv vas0 0xa06f bo0 ctx0 = Some (Some ch, s1) \<and>
     nvrm_eng_create good_drv ch 0xa0c0 s1 = Some (r, ch', s2) \<and> nvrm_channel_destroy good_drv ch' s2 = Some s3 \<and>
     hchain s3 = hchain ctx0 \<and> kept s3 = {#Mem nvrm_channel#}"
proof -
  have "\<exists>ch s1. nvrm_channel_create_ib good_drv vas0 0xa06f bo0 ctx0 = Some (Some ch, s1) \<and> (\<exists>r ch' s2. nvrm_eng_create good_drv ch 0xa0c0 s1 = Some (r, ch', s2))"
    by (simp add: nvrm_channel_create_ib_def alloc_def sys_call_def good_drv_def nvrm_handle_alloc_def ctx0_def MAX_HANDLE_def Let_def
        chan_mem_def chan_dma_def chan_fifo_def chan_map_def nvrm_ioctl_create_dma_def nvrm_ioctl_create_def
        nvrm_ioctl_memory_def result_def nvrm_ioctl_host_map_def nvrm_eng_create_def)
  then obtain ch s1 r ch' s2 where c: "nvrm_channel_create_ib good_drv vas0 0xa06f bo0 ctx0 = Some (Some ch, s1)"
    "nvrm_eng_create good_drv ch 0xa0c0 s1 = Some (r, ch', s2)" by blast
  have "\<exists>s3. nvrm_channel_destroy good_drv ch' s2 = Some s3 \<and> hchain s3 = hchain ctx0 \<and> keeps ctx0 s3 \<and>
      kept s3 = add_mset (Mem nvrm_channel) (kept ctx0)"
    by (rule channel_record_is_lost [OF c good_env(1)]) simp_all
  moreover have "kept ctx0 = {#}" by (simp add: kept_def ctx0_def)
  ultimately show ?thesis using c by auto
qed

section \<open>The contract of an object\<close>

text \<open>
  What making and destroying an object promise: a failure changes nothing, a success adds the
  object's resources and new handles, and destroying takes exactly these.
\<close>

locale owned_object =
  fixes make :: "nvrm_context \<Rightarrow> ('o option \<times> nvrm_context) option"
    and destroy :: "'o \<Rightarrow> nvrm_context \<Rightarrow> nvrm_context option"
    and res :: "'o \<Rightarrow> resource multiset"
    and names :: "'o \<Rightarrow> w32 list"
  assumes make_fails: "make s = Some (None, t) \<Longrightarrow> hs_ok s \<Longrightarrow> unchanged s t"
    and make_succeeds: "make s = Some (Some x, t) \<Longrightarrow> hs_ok s \<Longrightarrow> kept t = kept s + res x \<and> keeps s t \<and> hs_ok t \<and>
      distinct (names x) \<and> set (names x) \<inter> used s = {} \<and> used t = set (names x) \<union> used s"
    and destroy_takes: "hs_ok t \<Longrightarrow> distinct (names x) \<Longrightarrow> set (names x) \<subseteq> used t \<Longrightarrow>
      \<exists>u. destroy x t = Some u \<and> kept u = kept t - res x \<and> keeps t u \<and> hs_ok u \<and> used u = used t - set (names x)"
begin

text \<open>Objects that are destroyed in the reverse order of their creation leave nothing.\<close>

lemma make_destroy:
  assumes "make s = Some (Some x, t)" "hs_ok s" "unchanged t t'"
  shows "\<exists>u. destroy x t' = Some u \<and> unchanged s u"
proof -
  note m = make_succeeds [OF assms(1,2)]
  have t': "hs_ok t'" "used t' = used t" "kept t' = kept t" "keeps t t'"
    using m assms(3) by (simp_all add: unchanged_def hs_ok_def used_def)
  have "distinct (names x)" "set (names x) \<subseteq> used t'" using m t'(2) by auto
  then obtain u where u: "destroy x t' = Some u" "kept u = kept t' - res x" "keeps t' u" "hs_ok u" "used u = used t' - set (names x)"
    using destroy_takes [OF t'(1)] by blast
  have "kept u = kept s" using u(2) t'(3) m by simp
  moreover have "used u = used s" using u(5) t'(2) m by auto
  then have "hchain u = hchain s" using chain_unique [OF u(4) assms(2)] by blast
  moreover have "keeps s u" using m t'(4) u(3) keeps_trans by blast
  ultimately show ?thesis using u(1) by (simp add: unchanged_def)
qed

lemma make_is_safe: "make s = Some (r, t) \<Longrightarrow> hs_ok s \<Longrightarrow> r = None \<and> unchanged s t \<or> r \<noteq> None \<and> hs_ok t"
  using make_fails make_succeeds by (cases r) auto

end

interpretation vspaces: owned_object "nvrm_vspace_create drv dev" "nvrm_vspace_destroy drv" vspace_res "\<lambda>v. [ovas v, odma v]" for drv dev
proof
  show "nvrm_vspace_create drv dev s = Some (None, t) \<Longrightarrow> hs_ok s \<Longrightarrow> unchanged s t" for s t
    using vspace_create_spec by fastforce
  show "kept t = kept s + vspace_res x \<and> keeps s t \<and> hs_ok t \<and> distinct [ovas x, odma x] \<and> set [ovas x, odma x] \<inter> used s = {} \<and>
      used t = set [ovas x, odma x] \<union> used s" if "nvrm_vspace_create drv dev s = Some (Some x, t)" "hs_ok s" for s t x
    using vspace_create_spec [OF that] by simp
  show "\<exists>u. nvrm_vspace_destroy drv x t = Some u \<and> kept u = kept t - vspace_res x \<and> keeps t u \<and> hs_ok u \<and>
      used u = used t - set [ovas x, odma x]" if "hs_ok t" "distinct [ovas x, odma x]" "set [ovas x, odma x] \<subseteq> used t" for t x
    using vspace_destroy_spec [of t x drv] that by auto
qed

interpretation buffers: owned_object "nvrm_bo_create drv vas sz b" "\<lambda>bo. nvrm_bo_destroy drv bo" bo_res "\<lambda>bo. [bo_handle bo]" for drv vas sz b
proof
  show "nvrm_bo_create drv vas sz b s = Some (None, t) \<Longrightarrow> hs_ok s \<Longrightarrow> unchanged s t" for s t
    using bo_create_spec by fastforce
  show "kept t = kept s + bo_res x \<and> keeps s t \<and> hs_ok t \<and> distinct [bo_handle x] \<and> set [bo_handle x] \<inter> used s = {} \<and>
      used t = set [bo_handle x] \<union> used s" if "nvrm_bo_create drv vas sz b s = Some (Some x, t)" "hs_ok s" for s t x
    using bo_create_spec [OF that] by simp
  show "\<exists>u. nvrm_bo_destroy drv x t = Some u \<and> kept u = kept t - bo_res x \<and> keeps t u \<and> hs_ok u \<and>
      used u = used t - set [bo_handle x]" if "hs_ok t" "distinct [bo_handle x]" "set [bo_handle x] \<subseteq> used t" for t x
    using bo_destroy_spec [of t x drv] that by auto
qed

text \<open>A buffer in a new address space: destroying both in the reverse order restores the client.\<close>

lemma buffer_in_new_vspace:
  assumes v: "nvrm_vspace_create drv dev s = Some (Some vas, s1)" and b: "nvrm_bo_create drv vas sz sys s1 = Some (Some bo, s2)"
    and ok: "hs_ok s"
  shows "\<exists>s3 s4. nvrm_bo_destroy drv bo s2 = Some s3 \<and> nvrm_vspace_destroy drv vas s3 = Some s4 \<and> unchanged s s4"
proof -
  have "hs_ok s1" using vspaces.make_succeeds [OF v ok] by simp
  then obtain s3 where s3: "nvrm_bo_destroy drv bo s2 = Some s3" "unchanged s1 s3"
    using buffers.make_destroy [OF b, of s2] by (auto simp: unchanged_def)
  then show ?thesis using vspaces.make_destroy [OF v ok s3(2)] by blast
qed

end
