(* ===== verification/Nvrm_Session.thy ===== *)
theory Nvrm_Session
  imports Nvrm_Fifo Nvrm_Objects
begin

text \<open>
  The sessions of the GPU bindings (\<open>lib/nvrm/nvrm_irqctx.c\<close>): opening the driver and a device,
  building a context with its command queue, its fence and its interrupt buffer, the fence and
  the notification of a launch, and closing.

  \<open>mem a\<close> is what the process finds at the address \<open>a\<close> of a new mapping, \<open>rd\<close> what the GPU shows in
  its registers and \<open>junk\<close> what a variable holds that was not initialised. \<open>None\<close> is
  \<open>abort\<close>, a use of a null or freed pointer, an index outside a mapping, or a wait that never
  ends.
\<close>

section \<open>Files and devices\<close>

definition nvrm_open_file :: "drv \<Rightarrow> string \<Rightarrow> nvrm_context \<Rightarrow> int \<times> nvrm_context" where
  "nvrm_open_file drv fname s =
     (let (r, s) = sys_call drv (OPEN fname) s
      in if rc r < 0 then (rc r, s)
         else let (c, s) = sys_call drv (FCNTL (rc r)) s
         in if rc c < 0 then (-1, snd (sys_call drv (CLOSE (rc r)) s)) else (rc r, s))"

definition no_device :: nvrm_device where
  "no_device = \<lparr>dev_idx = 0, gpu_id = 0, dev_fd = 0, odev = 0, osubdev = 0\<rparr>"

text \<open>\<open>calloc\<close> clears the context; of the state before only the calls stay.\<close>

definition nvrm_open :: "drv \<Rightarrow> nvrm_context \<Rightarrow> bool \<times> nvrm_context" where
  "nvrm_open drv s =
     (let (ok, s) = alloc drv nvrm_context s
      in if \<not> ok then (False, s) else
      let s = \<lparr>fd_ctl = 0, ctx_cid = 0, devs = replicate NVRM_MAX_DEV no_device, hchain = [], ver_major = 0, calls = calls s\<rparr>;
          (fd, s) = nvrm_open_file drv ''/dev/nvidiactl'' s;
          s = s\<lparr>fd_ctl := fd\<rparr>
      in if fd < 0 then (False, free drv nvrm_context s) else
      let (r, s) = nvrm_create_cid drv s
      in if r \<noteq> 0 then (False, free drv nvrm_context (snd (sys_call drv (CLOSE (fd_ctl s)) s))) else
      let ((r, ids), s) = nvrm_mthd_context_list_devices drv (ctx_cid s) s
      in if r \<noteq> 0 then (False, free drv nvrm_context (snd (sys_call drv (CLOSE (fd_ctl s)) s))) else
      (True, s\<lparr>devs := map (\<lambda>i. (devs s ! i)\<lparr>dev_idx := int i, gpu_id := the ids ! i\<rparr>) [0..<NVRM_MAX_DEV]\<rparr>))"

text \<open>The labels \<open>out_open\<close>, \<open>out_dev\<close> and \<open>out_subdev\<close>.\<close>

definition out_open :: "drv \<Rightarrow> nvrm_device \<Rightarrow> nvrm_context \<Rightarrow> nvrm_context" where
  "out_open drv dev s = snd (nvrm_mthd_context_disable_device drv (ctx_cid s) (gpu_id dev) s)"

definition out_dev :: "drv \<Rightarrow> nvrm_device \<Rightarrow> nvrm_context \<Rightarrow> nvrm_context option" where
  "out_dev drv dev s = do {
     s \<leftarrow> nvrm_handle_free drv (odev dev) s;
     Some (out_open drv dev (snd (sys_call drv (CLOSE (dev_fd dev)) s)))
   }"

definition out_subdev :: "drv \<Rightarrow> nvrm_device \<Rightarrow> nvrm_context \<Rightarrow> nvrm_context option" where
  "out_subdev drv dev s = do {
     s \<leftarrow> nvrm_handle_free drv (osubdev dev) s;
     out_dev drv dev (snd (nvrm_ioctl_destroy drv (ctx_cid s) (odev dev) s))
   }"

definition put_dev :: "nat \<Rightarrow> nvrm_device \<Rightarrow> nvrm_context \<Rightarrow> nvrm_context" where
  "put_dev i dev s = s\<lparr>devs := (devs s)[i := dev]\<rparr>"

definition nvrm_device_open :: "drv \<Rightarrow> int \<Rightarrow> nvrm_context \<Rightarrow> (nvrm_device option \<times> nvrm_context) option" where
  "nvrm_device_open drv idx s = do {
     i \<leftarrow> nvrm_xlat_device s idx;
     let dev = devs s ! i;
     let (r, s) = nvrm_mthd_context_enable_device drv (ctx_cid s) (gpu_id dev) s;
     if r \<noteq> 0 then Some (None, s) else do {
     let (fd, s) = nvrm_open_file drv (''/dev/nvidia'' @ dec i) s;
     let dev = dev\<lparr>dev_fd := fd\<rparr>;
     let s = put_dev i dev s;
     if fd < 0 then Some (None, out_open drv dev s) else do {
     (h, s) \<leftarrow> nvrm_handle_alloc drv s;
     let dev = dev\<lparr>odev := h\<rparr>;
     let s = put_dev i dev s;
     let ((r, _), s) = nvrm_ioctl_create drv (ctx_cid s) h 0x80 ([word_of_nat i, ucast (ctx_cid s)] @ replicate 6 0) s;
     if r \<noteq> 0 then map_option (Pair None) (out_dev drv dev s) else do {
     (h', s) \<leftarrow> nvrm_handle_alloc drv s;
     let dev = dev\<lparr>osubdev := h'\<rparr>;
     let s = put_dev i dev s;
     let ((r, _), s) = nvrm_ioctl_create drv h h' 0x2080 [] s;
     if r \<noteq> 0 then map_option (Pair None) (out_subdev drv dev s) else Some (Some dev, s)
     }}}
   }"

text \<open>The same as \<open>nvrm_vspace_create\<close>, but the record is not freed on failure.\<close>

definition nvrm_vas_new :: "drv \<Rightarrow> nvrm_device \<Rightarrow> nvrm_context \<Rightarrow> (nvrm_vspace option \<times> nvrm_context) option" where
  "nvrm_vas_new drv dev s =
     (let (ok, s) = alloc drv nvrm_vspace s
      in if \<not> ok then None else vspace_setup drv dev id s)"

section \<open>Contexts\<close>

datatype generation = nvc0 | nve4

record nvrm_desc =
  chipset :: w32
  nvas :: nvrm_vspace
  fifo :: nvrm_fifo
  ib_bo :: nvrm_bo
  ib_ptr :: u64
  pb_bo :: nvrm_bo
  pb_ptr :: u64
  regs :: u64
  fence_bo :: nvrm_bo
  fence_ptr :: u64
  fence_map :: "nat \<Rightarrow> w32"
  fence_addr :: u64
  fence_seq :: w32
  notify_bo :: nvrm_bo
  notify_addr :: u64
  pctx :: nvrm_channel
  begin_ring :: "generation option"

text \<open>The classes of the channel and of the compute engine.\<close>

definition classes :: "w32 \<Rightarrow> w32 \<times> w32" where
  "classes chip =
     (if chip < 0x80 then (0x506f, 0x50c0)
      else if chip < 0xc0 then (0x826f, 0x50c0)
      else if chip < 0xe0 then (0x906f, 0x90c0)
      else if chip < 0xf0 then (0xa06f, 0xa0c0)
      else (0xa16f, 0xa1c0))"

text \<open>The labels of \<open>nvrm_ctx_new\<close>. The last one frees the descriptor: the result is \<open>None\<close>.\<close>

definition fail_ib :: "drv \<Rightarrow> nvrm_context \<Rightarrow> (nvrm_desc option \<times> nvrm_context) option" where
  "fail_ib drv s = Some (None, free drv nvrm_desc s)"

definition fail_pb :: "drv \<Rightarrow> nvrm_bo \<Rightarrow> nvrm_context \<Rightarrow> (nvrm_desc option \<times> nvrm_context) option" where
  "fail_pb drv ib s = do { s \<leftarrow> nvrm_bo_destroy drv ib s; fail_ib drv s }"

definition fail_chan :: "drv \<Rightarrow> nvrm_bo \<Rightarrow> nvrm_bo \<Rightarrow> nvrm_context \<Rightarrow> (nvrm_desc option \<times> nvrm_context) option" where
  "fail_chan drv ib pb s = do { s \<leftarrow> nvrm_bo_destroy drv pb s; fail_pb drv ib s }"

definition fail_eng :: "drv \<Rightarrow> nvrm_bo \<Rightarrow> nvrm_bo \<Rightarrow> nvrm_channel \<Rightarrow> nvrm_context \<Rightarrow> (nvrm_desc option \<times> nvrm_context) option" where
  "fail_eng drv ib pb ch s = do { s \<leftarrow> nvrm_channel_destroy drv ch s; fail_chan drv ib pb s }"

definition fail_notify :: "drv \<Rightarrow> nvrm_bo \<Rightarrow> nvrm_bo \<Rightarrow> nvrm_channel \<Rightarrow> nvrm_bo \<Rightarrow> nvrm_context \<Rightarrow> (nvrm_desc option \<times> nvrm_context) option" where
  "fail_notify drv ib pb ch fence s = do { s \<leftarrow> nvrm_bo_destroy drv fence s; fail_eng drv ib pb ch s }"

text \<open>
  The steps of \<open>nvrm_ctx_new\<close>, each with the steps that follow it; \<open>unset\<close> is the chipset read from
  two variables that were not set, when the driver does not tell it.
\<close>

definition ctx_notify :: "drv \<Rightarrow> (u64 \<Rightarrow> nat \<Rightarrow> w32) \<Rightarrow> w32 \<Rightarrow> nvrm_vspace \<Rightarrow> u64 \<Rightarrow> nvrm_bo \<Rightarrow> u64 \<Rightarrow> nvrm_bo \<Rightarrow> nvrm_channel \<Rightarrow> u64 \<Rightarrow> nvrm_bo \<Rightarrow>
    nvrm_context \<Rightarrow> (nvrm_desc option \<times> nvrm_context) option" where
  "ctx_notify drv mem chip vas im ib pm pb ch fm fence s = do {
     (n, s) \<leftarrow> nvrm_bo_create drv vas 256 False s;
     case n of
       None \<Rightarrow> fail_notify drv ib pb ch fence s
     | Some n \<Rightarrow> Some (Some \<lparr>chipset = chip, nvas = vas, fifo = fifo_setup (mem im) (mem pm) (nvrm_bo_gpu_addr pb),
         ib_bo = ib, ib_ptr = im, pb_bo = pb, pb_ptr = pm, regs = nvrm_channel_host_map_regs ch, fence_bo = fence, fence_ptr = fm, fence_map = mem fm,
         fence_addr = nvrm_bo_gpu_addr fence, fence_seq = 0, notify_bo = n, notify_addr = nvrm_bo_gpu_addr n,
         pctx = ch, begin_ring = None\<rparr>, s)
   }"

definition ctx_fence :: "drv \<Rightarrow> (u64 \<Rightarrow> nat \<Rightarrow> w32) \<Rightarrow> w32 \<Rightarrow> nvrm_vspace \<Rightarrow> u64 \<Rightarrow> nvrm_bo \<Rightarrow> u64 \<Rightarrow> nvrm_bo \<Rightarrow> nvrm_channel \<Rightarrow>
    nvrm_context \<Rightarrow> (nvrm_desc option \<times> nvrm_context) option" where
  "ctx_fence drv mem chip vas im ib pm pb ch s = do {
     (f, s) \<leftarrow> nvrm_bo_create drv vas 0x10000 True s;
     case f of
       None \<Rightarrow> fail_eng drv ib pb ch s
     | Some f \<Rightarrow> (let (fm, f, s) = nvrm_bo_host_map drv f s in ctx_notify drv mem chip vas im ib pm pb ch fm f s)
   }"

definition ctx_chan :: "drv \<Rightarrow> (u64 \<Rightarrow> nat \<Rightarrow> w32) \<Rightarrow> w32 \<Rightarrow> nvrm_vspace \<Rightarrow> u64 \<Rightarrow> nvrm_bo \<Rightarrow> u64 \<Rightarrow> nvrm_bo \<Rightarrow>
    nvrm_context \<Rightarrow> (nvrm_desc option \<times> nvrm_context) option" where
  "ctx_chan drv mem chip vas im ib pm pb s = do {
     (c, s) \<leftarrow> nvrm_channel_create_ib drv vas (fst (classes chip)) ib s;
     case c of
       None \<Rightarrow> fail_chan drv ib pb s
     | Some ch \<Rightarrow> do {
         (e, ch, s) \<leftarrow> nvrm_eng_create drv ch (snd (classes chip)) s;
         if e = None then fail_eng drv ib pb ch s else do {
         let (r, s) = nvrm_channel_activate drv ch s;
         if r \<noteq> 0 then fail_eng drv ib pb ch s else ctx_fence drv mem chip vas im ib pm pb ch s
       }}
   }"

definition nvrm_ctx_new :: "drv \<Rightarrow> (u64 \<Rightarrow> nat \<Rightarrow> w32) \<Rightarrow> u64 list \<Rightarrow> w32 \<Rightarrow> nvrm_vspace \<Rightarrow> nvrm_context \<Rightarrow> (nvrm_desc option \<times> nvrm_context) option" where
  "nvrm_ctx_new drv mem junk unset vas s = do {
     let ((r, chip), s) = nvrm_device_get_chipset drv junk (vas_dev vas) s;
     let chip = (case chip of None \<Rightarrow> unset | Some (ma, mi, _) \<Rightarrow> ma OR mi);
     (i, s) \<leftarrow> nvrm_bo_create drv vas 0x2000 True s;
     case i of
       None \<Rightarrow> fail_ib drv s
     | Some i \<Rightarrow> do {
         let (im, i, s) = nvrm_bo_host_map drv i s;
         (p, s) \<leftarrow> nvrm_bo_create drv vas 0x40000 True s;
         case p of
           None \<Rightarrow> fail_pb drv i s
         | Some p \<Rightarrow> (let (pm, p, s) = nvrm_bo_host_map drv p s in ctx_chan drv mem chip vas im i pm p s)
       }
   }"

section \<open>Commands\<close>

text \<open>Commands go through the mapped rings; a ring that could not be mapped is a null pointer.\<close>

definition on_ring :: "(nvrm_fifo \<Rightarrow> nvrm_fifo option) \<Rightarrow> nvrm_desc \<Rightarrow> nvrm_desc option" where
  "on_ring m d = do {
     guard_c (ib_ptr d \<noteq> 0 \<and> pb_ptr d \<noteq> 0);
     f \<leftarrow> m (fifo d);
     Some (d\<lparr>fifo := f\<rparr>)
   }"

definition call_begin_ring :: "generation option \<Rightarrow> (nat \<Rightarrow> w32 \<Rightarrow> w32) \<Rightarrow> w32 \<Rightarrow> w32 \<Rightarrow> w32 \<Rightarrow> nvrm_fifo \<Rightarrow> nvrm_fifo option" where
  "call_begin_ring g rd subc mthd len f =
     (case g of None \<Rightarrow> None | Some nvc0 \<Rightarrow> nvrm_begin_ring_nvc0 rd subc mthd len f | Some nve4 \<Rightarrow> nvrm_begin_ring_nve4 rd subc mthd len f)"

definition SUBCH_NV_COMPUTE :: w32 where "SUBCH_NV_COMPUTE = 1"

definition nve4_fence_write :: "(nat \<Rightarrow> w32 \<Rightarrow> w32) \<Rightarrow> w32 \<Rightarrow> nvrm_desc \<Rightarrow> nvrm_desc option" where
  "nve4_fence_write rd sequence d =
     (let offset = sequence * 16;
          vm_addr = fence_addr d + ucast offset
      in on_ring (\<lambda>f. do {
           f \<leftarrow> nvrm_begin_ring_nve4 rd SUBCH_NV_COMPUTE 0x110 1 f;
           f \<leftarrow> nvrm_out_ring rd 0 f;
           f \<leftarrow> nvrm_begin_ring_nve4 rd SUBCH_NV_COMPUTE 0x1b00 4 f;
           f \<leftarrow> nvrm_out_ring rd (ucast (drop_bit 32 vm_addr)) f;
           f \<leftarrow> nvrm_out_ring rd (ucast vm_addr) f;
           f \<leftarrow> nvrm_out_ring rd sequence f;
           f \<leftarrow> nvrm_out_ring rd (push_bit 20 0) f;
           nvrm_fire_ring rd f
         }) d)"

text \<open>The fence buffer has 0x1000 queries of four words; the first word is the sequence.\<close>

definition fence_slot :: "nvrm_desc \<Rightarrow> w32 \<Rightarrow> nat option" where
  "fence_slot d sequence = (if fence_ptr d \<noteq> 0 \<and> unat sequence < 0x1000 then Some (4 * unat sequence) else None)"

definition nve4_fence_reset :: "w32 \<Rightarrow> nvrm_desc \<Rightarrow> nvrm_desc option" where
  "nve4_fence_reset sequence d = do { k \<leftarrow> fence_slot d sequence; Some (d\<lparr>fence_map := (fence_map d)(k := NOT 0)\<rparr>) }"

text \<open>
  The GPU writes to the buffer while the process polls: \<open>gpu i d\<close> is what it holds at the \<open>i\<close>-th read.
  Each turn of the loop reads twice.
\<close>

definition nve4_fence_read :: "(nat \<Rightarrow> nat \<Rightarrow> w32) \<Rightarrow> nat \<Rightarrow> w32 \<Rightarrow> nvrm_desc \<Rightarrow> w32 option" where
  "nve4_fence_read gpu i sequence d = do { k \<leftarrow> fence_slot d sequence; Some (gpu i k) }"

partial_function (option) poll_loop :: "(nat \<Rightarrow> nat \<Rightarrow> w32) \<Rightarrow> nat \<Rightarrow> w32 \<Rightarrow> nvrm_desc \<Rightarrow> nat option" where
  "poll_loop gpu i sequence d = do {
     v \<leftarrow> nve4_fence_read gpu i sequence d;
     if sequence \<noteq> v
     then do { w \<leftarrow> nve4_fence_read gpu (i + 1) sequence d; poll_loop gpu (i + 2) sequence d }
     else Some i
   }"

definition rtx_nvrm_fence_poll_c :: "(nat \<Rightarrow> nat \<Rightarrow> w32) \<Rightarrow> w32 \<Rightarrow> nvrm_desc \<Rightarrow> nvrm_desc option" where
  "rtx_nvrm_fence_poll_c gpu sequence d = do {
     i \<leftarrow> poll_loop gpu 0 sequence d;
     nve4_fence_reset sequence (d\<lparr>fence_map := gpu i\<rparr>)
   }"

definition rtx_nvrm_fence_c :: "(nat \<Rightarrow> w32 \<Rightarrow> w32) \<Rightarrow> w32 \<Rightarrow> nvrm_desc \<Rightarrow> nvrm_desc option" where
  "rtx_nvrm_fence_c rd cid d = do {
     let d = d\<lparr>fence_seq := fence_seq d + 1\<rparr>;
     let d = (if fence_seq d = 0x1000 then d\<lparr>fence_seq := 1\<rparr> else d);
     let seq = cid;
     d \<leftarrow> nve4_fence_reset seq d;
     nve4_fence_write rd seq d
   }"

definition rtx_nvrm_notify_c :: "(nat \<Rightarrow> w32 \<Rightarrow> w32) \<Rightarrow> w32 \<Rightarrow> nvrm_desc option \<Rightarrow> (int \<times> nvrm_desc option) option" where
  "rtx_nvrm_notify_c rd cid nvdesc =
     (case nvdesc of
        None \<Rightarrow> Some (-1, None)
      | Some d \<Rightarrow> do {
          let addr = notify_addr d;
          d \<leftarrow> on_ring (\<lambda>f. do {
            f \<leftarrow> call_begin_ring (begin_ring d) rd SUBCH_NV_COMPUTE 0x110 1 f;
            f \<leftarrow> nvrm_out_ring rd 0 f;
            f \<leftarrow> call_begin_ring (begin_ring d) rd SUBCH_NV_COMPUTE 0x104 3 f;
            f \<leftarrow> nvrm_out_ring rd (ucast (drop_bit 32 addr)) f;
            f \<leftarrow> nvrm_out_ring rd (ucast addr) f;
            f \<leftarrow> nvrm_out_ring rd 1 f;
            f \<leftarrow> call_begin_ring (begin_ring d) rd SUBCH_NV_COMPUTE 0x100 1 f;
            f \<leftarrow> nvrm_out_ring rd cid f;
            nvrm_fire_ring rd f
          }) d;
          Some (1, Some d)
        })"

section \<open>Opening and closing a session\<close>

definition nvrm_init_minor_nve0 :: "(nat \<Rightarrow> w32 \<Rightarrow> w32) \<Rightarrow> nvrm_fifo \<Rightarrow> nvrm_fifo option" where
  "nvrm_init_minor_nve0 rd f = do {
     f \<leftarrow> nvrm_begin_ring_nve4 rd SUBCH_NV_COMPUTE 0 1 f;
     f \<leftarrow> nvrm_out_ring rd 0xa0c0 f;
     f \<leftarrow> nvrm_begin_ring_nve4 rd SUBCH_NV_COMPUTE 0x110 1 f;
     f \<leftarrow> nvrm_out_ring rd 0 f;
     f \<leftarrow> nvrm_begin_ring_nve4 rd SUBCH_NV_COMPUTE 0x310 1 f;
     f \<leftarrow> nvrm_out_ring rd 0x300 f;
     nvrm_fire_ring rd f
   }"

definition nvrm_init_minor_nvc0 :: "(nat \<Rightarrow> w32 \<Rightarrow> w32) \<Rightarrow> nvrm_fifo \<Rightarrow> nvrm_fifo option" where
  "nvrm_init_minor_nvc0 rd f = do {
     f \<leftarrow> nvrm_begin_ring_nvc0 rd SUBCH_NV_COMPUTE 0 1 f;
     f \<leftarrow> nvrm_out_ring rd 0x90c0 f;
     f \<leftarrow> nvrm_begin_ring_nvc0 rd SUBCH_NV_COMPUTE 0x100 1 f;
     f \<leftarrow> nvrm_out_ring rd 0 f;
     nvrm_fire_ring rd f
   }"

definition minor_init :: "generation \<Rightarrow> (nat \<Rightarrow> w32 \<Rightarrow> w32) \<Rightarrow> nvrm_fifo \<Rightarrow> nvrm_fifo option" where
  "minor_init g = (case g of nvc0 \<Rightarrow> nvrm_init_minor_nvc0 | nve4 \<Rightarrow> nvrm_init_minor_nve0)"

definition generation_of :: "w32 \<Rightarrow> generation option" where
  "generation_of chip =
     (if chip AND 0x1f0 = 0xc0 then Some nvc0
      else if chip AND 0x1f0 = 0xe0 \<or> chip AND 0x1f0 = 0xf0 then Some nve4
      else None)"

text \<open>The commands after the context: 32 empty words, then the ones of the card.\<close>

definition init_commands :: "(nat \<Rightarrow> w32 \<Rightarrow> w32) \<Rightarrow> generation \<Rightarrow> nvrm_fifo \<Rightarrow> nvrm_fifo option" where
  "init_commands rd g f = do {
     f \<leftarrow> out_words rd (replicate 32 0) f;
     f \<leftarrow> nvrm_fire_ring rd f;
     minor_init g rd f
   }"

text \<open>
  The result with the descriptor that is stored in the handle. The pointers of the context, the
  device, the address space and the descriptor are used without a test.
\<close>

definition rtx_nvrm_init_c :: "drv \<Rightarrow> (u64 \<Rightarrow> nat \<Rightarrow> w32) \<Rightarrow> u64 list \<Rightarrow> w32 \<Rightarrow> (nat \<Rightarrow> w32 \<Rightarrow> w32) \<Rightarrow> int \<Rightarrow> nvrm_context \<Rightarrow>
    (int \<times> nvrm_desc option \<times> nvrm_context) option" where
  "rtx_nvrm_init_c drv mem junk unset rd dev_id s = do {
     let (ok, s) = alloc drv nvrm_desc s;
     guard_c ok;
     let (ok, s) = nvrm_open drv s;
     guard_c ok;
     (dev, s) \<leftarrow> nvrm_device_open drv dev_id s;
     dev \<leftarrow> dev;
     (vas, s) \<leftarrow> nvrm_vas_new drv dev s;
     vas \<leftarrow> vas;
     (d, s) \<leftarrow> nvrm_ctx_new drv mem junk unset vas s;
     d \<leftarrow> d;
     case generation_of (chipset d) of
       None \<Rightarrow> Some (0, None, s)
     | Some g \<Rightarrow> do {
         d \<leftarrow> on_ring (init_commands rd g) (d\<lparr>begin_ring := Some g\<rparr>);
         Some (1, Some d, s)
       }
   }"

definition rtx_nvrm_close_c :: "drv \<Rightarrow> nvrm_desc \<Rightarrow> nvrm_context \<Rightarrow> nvrm_context option" where
  "rtx_nvrm_close_c drv d s = do {
     let dev = vas_dev (nvas d);
     s \<leftarrow> nvrm_bo_destroy drv (notify_bo d) s;
     s \<leftarrow> nvrm_channel_destroy drv (pctx d) s;
     s \<leftarrow> nvrm_bo_destroy drv (pb_bo d) s;
     s \<leftarrow> nvrm_bo_destroy drv (ib_bo d) s;
     s \<leftarrow> nvrm_vspace_destroy drv (nvas d) s;
     let (_, s) = nvrm_ioctl_call drv (osubdev dev) 0x20800146 [] 0 s;
     let (_, s) = nvrm_ioctl_destroy drv (odev dev) (osubdev dev) s;
     s \<leftarrow> nvrm_handle_free drv (osubdev dev) s;
     let (_, s) = nvrm_ioctl_destroy drv (ctx_cid s) (odev dev) s;
     s \<leftarrow> nvrm_handle_free drv (odev dev) s;
     let (_, s) = sys_call drv (CLOSE (dev_fd dev)) s;
     let (_, s) = nvrm_mthd_context_disable_device drv (ctx_cid s) (gpu_id dev) s;
     let (_, s) = sys_call drv (CLOSE (fd_ctl s)) s;
     Some (free drv nvrm_context s)
   }"

section \<open>What the commands tell the GPU\<close>

lemma bind_assoc_opt: "Option.bind (Option.bind m f) g = Option.bind m (\<lambda>x. Option.bind (f x) g)"
  by (cases m) simp_all

definition fence_words :: "u64 \<Rightarrow> w32 \<Rightarrow> w32 list" where
  "fence_words addr sequence =
     [header_nvc0 2 SUBCH_NV_COMPUTE 0x110 1, 0, header_nvc0 2 SUBCH_NV_COMPUTE 0x1b00 4,
      ucast (drop_bit 32 addr), ucast addr, sequence, 0]"

lemma fence_write_words:
  "nve4_fence_write rd sequence d =
     on_ring (\<lambda>f. out_words rd (fence_words (fence_addr d + ucast (sequence * 16)) sequence) f \<bind> nvrm_fire_ring rd) d"
  by (simp add: nve4_fence_write_def fence_words_def nvrm_begin_ring_nve4_def bind_assoc_opt Let_def)

definition notify_words :: "u64 \<Rightarrow> w32 \<Rightarrow> w32 list" where
  "notify_words addr cid =
     [header_nvc0 2 SUBCH_NV_COMPUTE 0x110 1, 0, header_nvc0 2 SUBCH_NV_COMPUTE 0x104 3,
      ucast (drop_bit 32 addr), ucast addr, 1, header_nvc0 2 SUBCH_NV_COMPUTE 0x100 1, cid]"

lemma notify_words_eq:
  assumes "begin_ring d = Some g"
  shows "rtx_nvrm_notify_c rd cid (Some d) =
    map_option (\<lambda>d. (1, Some d)) (on_ring (\<lambda>f. out_words rd (notify_words (notify_addr d) cid) f \<bind> nvrm_fire_ring rd) d)"
  by (cases g) (simp_all add: rtx_nvrm_notify_c_def assms call_begin_ring_def notify_words_def nvrm_begin_ring_nve4_def
      nvrm_begin_ring_nvc0_def bind_assoc_opt Let_def map_conv_bind_option comp_def)

text \<open>A session that can take \<open>n\<close> words.\<close>

definition ready :: "nat \<Rightarrow> nvrm_desc \<Rightarrow> bool" where
  "ready n d \<longleftrightarrow> ib_ptr d \<noteq> 0 \<and> pb_ptr d \<noteq> 0 \<and> fifo_wf (fifo d) \<and> ib_room (fifo d) \<and>
     dist (get_w (fifo d)) (pos_w (fifo d)) + n < NWORDS"

lemma on_ring_delivers:
  assumes "ready (length ws) d"
  shows "\<exists>d'. on_ring (\<lambda>f. out_words rd ws f \<bind> nvrm_fire_ring rd) d = Some d' \<and> d' = d\<lparr>fifo := fifo d'\<rparr> \<and>
    handed (fifo d) (fifo d') = pending (fifo d) @ ws \<and> pending (fifo d') = [] \<and> fifo_wf (fifo d')"
proof -
  obtain f' where "out_words rd ws (fifo d) \<bind> nvrm_fire_ring rd = Some f'" "handed (fifo d) f' = pending (fifo d) @ ws"
    "pending f' = []" "fifo_wf f'"
    using ring_delivers_words [of "fifo d" ws rd] assms by (auto simp: ready_def)
  then show ?thesis using assms by (auto simp: on_ring_def ready_def)
qed

text \<open>C27: 
  A fence clears the slot of its context and hands the GPU the command to write there, after
  all commands that were pending.
\<close>

theorem fence_reaches_gpu:
  assumes "ready 7 d" "fence_ptr d \<noteq> 0" "unat cid < 0x1000"
  shows "\<exists>d'. rtx_nvrm_fence_c rd cid d = Some d' \<and> fence_map d' (4 * unat cid) = NOT 0 \<and>
    handed (fifo d) (fifo d') = pending (fifo d) @ fence_words (fence_addr d + ucast (cid * 16)) cid \<and>
    pending (fifo d') = [] \<and> fifo_wf (fifo d')"
proof -
  define e where "e = (let d = d\<lparr>fence_seq := fence_seq d + 1\<rparr> in if fence_seq d = 0x1000 then d\<lparr>fence_seq := 1\<rparr> else d)"
  define e' where "e' = e\<lparr>fence_map := (fence_map e)(4 * unat cid := NOT 0)\<rparr>"
  have r: "nve4_fence_reset cid e = Some e'"
    using assms(2,3) by (auto simp: nve4_fence_reset_def fence_slot_def e'_def e_def Let_def)
  have f: "fifo e' = fifo d" "fence_addr e' = fence_addr d" "ib_ptr e' = ib_ptr d" "pb_ptr e' = pb_ptr d"
    by (simp_all add: e'_def e_def Let_def)
  then have "ready (length (fence_words (fence_addr d + ucast (cid * 16)) cid)) e'"
    using assms(1) by (simp add: ready_def fence_words_def)
  then obtain d' where d': "nve4_fence_write rd cid e' = Some d'" "d' = e'\<lparr>fifo := fifo d'\<rparr>"
    "handed (fifo e') (fifo d') = pending (fifo e') @ fence_words (fence_addr d + ucast (cid * 16)) cid"
    "pending (fifo d') = []" "fifo_wf (fifo d')"
    using on_ring_delivers f(2) unfolding fence_write_words by metis
  have "rtx_nvrm_fence_c rd cid d = Some d'" using r d'(1) by (simp add: rtx_nvrm_fence_c_def e_def Let_def cong: if_cong)
  moreover have "fence_map d' (4 * unat cid) = NOT 0" by (subst d'(2)) (simp add: e'_def)
  ultimately show ?thesis using d'(3-5) f(1) by auto
qed

lemma notify_reaches_gpu:
  assumes "ready 8 d" "begin_ring d = Some g"
  shows "\<exists>d'. rtx_nvrm_notify_c rd cid (Some d) = Some (1, Some d') \<and>
    handed (fifo d) (fifo d') = pending (fifo d) @ notify_words (notify_addr d) cid \<and> pending (fifo d') = [] \<and> fifo_wf (fifo d')"
proof -
  have "ready (length (notify_words (notify_addr d) cid)) d" using assms(1) by (simp add: notify_words_def numeral_eq_Suc)
  then show ?thesis using on_ring_delivers [of "notify_words (notify_addr d) cid" d rd] notify_words_eq [OF assms(2)] by fastforce
qed

section \<open>Waiting for a fence\<close>

lemma poll_loop_finds:
  assumes "fence_ptr d \<noteq> 0" "unat sequence < 0x1000"
  shows "(\<And>i. i < j \<Longrightarrow> gpu (n + 2 * i) (4 * unat sequence) \<noteq> sequence) \<Longrightarrow> gpu (n + 2 * j) (4 * unat sequence) = sequence \<Longrightarrow>
    poll_loop gpu n sequence d = Some (n + 2 * j)"
proof (induction j arbitrary: n)
  case 0
  then show ?case using assms by (subst poll_loop.simps) (simp add: nve4_fence_read_def fence_slot_def)
next
  case (Suc j)
  have "gpu n (4 * unat sequence) \<noteq> sequence" using Suc.prems(1) [of 0] by simp
  then have e: "poll_loop gpu n sequence d = poll_loop gpu (n + 2) sequence d"
    using assms by (subst poll_loop.simps) (simp add: nve4_fence_read_def fence_slot_def)
  have "poll_loop gpu (n + 2) sequence d = Some ((n + 2) + 2 * j)"
    by (rule Suc.IH) (use Suc.prems Suc.prems(1) [of "Suc i" for i] in \<open>auto simp: add.assoc\<close>)
  then show ?case using e by simp
qed

text \<open>Polling returns at the first turn at which the GPU has written, and frees the slot for the next fence.\<close>

theorem poll_returns_when_written:
  assumes "fence_ptr d \<noteq> 0" "unat sequence < 0x1000"
    "\<And>i. i < j \<Longrightarrow> gpu (2 * i) (4 * unat sequence) \<noteq> sequence" "gpu (2 * j) (4 * unat sequence) = sequence"
  shows "rtx_nvrm_fence_poll_c gpu sequence d = Some (d\<lparr>fence_map := (gpu (2 * j))(4 * unat sequence := NOT 0)\<rparr>)"
  using poll_loop_finds [OF assms(1,2), of j gpu 0] assms
  by (simp add: rtx_nvrm_fence_poll_c_def nve4_fence_reset_def fence_slot_def)

lemma poll_never_returns:
  assumes "\<forall>i. gpu i (4 * unat sequence) \<noteq> sequence"
  shows "rtx_nvrm_fence_poll_c gpu sequence d = None"
proof -
  have "poll_loop gpu i sequence d \<noteq> Some y" for i y
  proof
    assume "poll_loop gpu i sequence d = Some y"
    then have "\<not> (\<forall>i. gpu i (4 * unat sequence) \<noteq> sequence)"
    proof (rule poll_loop.raw_induct [rotated, where P = "\<lambda>gpu i sequence d y. \<not> (\<forall>i. gpu i (4 * unat sequence) \<noteq> sequence)"])
      fix loop :: "(nat \<Rightarrow> nat \<Rightarrow> w32) \<Rightarrow> nat \<Rightarrow> w32 \<Rightarrow> nvrm_desc \<Rightarrow> nat option" and gpu i and sequence :: w32 and d y
      assume IH: "\<And>gpu i sequence d y. loop gpu i sequence d = Some y \<Longrightarrow> \<not> (\<forall>i. gpu i (4 * unat sequence) \<noteq> sequence)"
        and e: "nve4_fence_read gpu i sequence d \<bind> (\<lambda>v. if sequence \<noteq> v
          then nve4_fence_read gpu (i + 1) sequence d \<bind> (\<lambda>w. loop gpu (i + 2) sequence d) else Some i) = Some y"
      show "\<not> (\<forall>i. gpu i (4 * unat sequence) \<noteq> sequence)"
      proof
        assume a: "\<forall>i. gpu i (4 * unat sequence) \<noteq> sequence"
        then have "sequence \<noteq> gpu i (4 * unat sequence)" by metis
        then have "loop gpu (i + 2) sequence d = Some y"
          using e by (auto simp: nve4_fence_read_def fence_slot_def split: if_splits)
        then show False using IH a by blast
      qed
    qed
    then show False using assms by blast
  qed
  then have "poll_loop gpu 0 sequence d = None" by (metis option.exhaust)
  then show ?thesis by (simp add: rtx_nvrm_fence_poll_c_def)
qed

section \<open>What a session holds\<close>

definition desc_handles :: "nvrm_desc \<Rightarrow> w32 list" where
  "desc_handles d = [bo_handle (ib_bo d), bo_handle (pb_bo d), oerr (pctx d), oedma (pctx d), ofifo (pctx d)] @ echain (pctx d) @
     [bo_handle (fence_bo d), bo_handle (notify_bo d)]"

text \<open>What a step adds: resources and new handles.\<close>

definition adds :: "resource multiset \<Rightarrow> w32 list \<Rightarrow> nvrm_context \<Rightarrow> nvrm_context \<Rightarrow> bool" where
  "adds R hs s s' \<longleftrightarrow> kept s' = kept s + R \<and> keeps s s' \<and> hs_ok s' \<and> distinct hs \<and> set hs \<inter> used s = {} \<and> used s' = set hs \<union> used s"

lemma adds_trans: "adds R hs s t \<Longrightarrow> adds R' hs' t u \<Longrightarrow> adds (R + R') (hs @ hs') s u"
  unfolding adds_def by (auto intro: keeps_trans)

lemma adds_nothing: "kept t = kept s \<Longrightarrow> hchain t = hchain s \<Longrightarrow> keeps s t \<Longrightarrow> hs_ok s \<Longrightarrow> adds {#} [] s t"
  by (simp add: adds_def used_def hs_ok_def)

lemma bo_create_adds:
  assumes "nvrm_bo_create drv vas sz b s = Some (Some bo, t)" "hs_ok s" "mmap_ok drv" "nvrm_bo_host_map drv bo t = (m, bo', u)"
  shows "adds (bo_res bo') [bo_handle bo'] s u"
proof -
  have c: "kept t = kept s + bo_res bo" "hs_ok t" "bo_handle bo \<notin> used s" "used t = insert (bo_handle bo) (used s)" "keeps s t"
    using bo_create_spec [OF assms(1,2)] by simp_all
  note hs = host_map_keeps [OF assms(4,3)]
  then have hm: "kept u + bo_res bo = kept t + bo_res bo'" "hchain u = hchain t" "keeps t u" by blast+
  have "bo' = bo\<lparr>bo_foffset := bo_foffset bo', bo_mmap := bo_mmap bo'\<rparr>" using hs by blast
  then have hb: "bo_handle bo' = bo_handle bo" by (cases bo; cases bo') simp
  have "kept u = kept s + bo_res bo'" using hm(1) c(1) by simp
  then show ?thesis using c hm(2) hb keeps_trans [OF c(5) hm(3)] by (simp add: adds_def hs_ok_def used_def)
qed

lemma bo_create_adds_unmapped:
  assumes "nvrm_bo_create drv vas sz b s = Some (Some bo, t)" "hs_ok s"
  shows "adds (bo_res bo) [bo_handle bo] s t"
  using bo_create_spec [OF assms] by (simp add: adds_def)

lemma channel_adds:
  assumes "nvrm_channel_create_ib drv vas cls ib s = Some (Some ch, t)" "nvrm_eng_create drv ch ecls t = Some (Some h, ch', u)"
    "hs_ok s" "cls \<noteq> 0" "ecls \<noteq> 0"
  shows "adds (chan_res ch' + {#Mem nvrm_channel#}) ([oerr ch', oedma ch', ofifo ch'] @ echain ch') s u"
proof -
  have c: "kept t = kept s + chan_res ch + {#Mem nvrm_channel#}" "keeps s t" "three (oerr ch) (oedma ch) (ofifo ch) t"
      "{oerr ch, oedma ch, ofifo ch} \<inter> used s = {}" "used t = {oerr ch, oedma ch, ofifo ch} \<union> used s" "echain ch = []"
    using channel_create_spec [OF assms(1,3,4)] by simp_all
  have ok: "hs_ok t" "oerr ch \<noteq> oedma ch" "oerr ch \<noteq> ofifo ch" "oedma ch \<noteq> ofifo ch" using c(3) by (simp_all add: three_def)
  have g: "kept u = kept t + eng_res h" "keeps t u" "hs_ok u" "h \<notin> used t" "used u = insert h (used t)" "ch' = ch\<lparr>echain := h # echain ch\<rparr>"
    using eng_create_spec [OF assms(2) ok(1) assms(5)] by simp_all
  have "kept u = kept s + (chan_res ch' + {#Mem nvrm_channel#})" using g(1,6) c(1,6) by (simp add: chan_res_def)
  then show ?thesis using g c ok keeps_trans [OF c(2) g(2)] by (auto simp: adds_def)
qed

lemma classes_nz: "fst (classes chip) \<noteq> 0" "snd (classes chip) \<noteq> 0"
  by (simp_all add: classes_def)

lemma fails_no_desc:
  "fail_ib drv s = Some (r, s') \<Longrightarrow> r = None" "fail_pb drv ib s = Some (r, s') \<Longrightarrow> r = None"
  "fail_chan drv ib pb s = Some (r, s') \<Longrightarrow> r = None" "fail_eng drv ib pb ch s = Some (r, s') \<Longrightarrow> r = None"
  "fail_notify drv ib pb ch fe s = Some (r, s') \<Longrightarrow> r = None"
  by (auto simp: fail_ib_def fail_pb_def fail_chan_def fail_eng_def fail_notify_def)

lemma ctx_notify_adds:
  assumes "ctx_notify drv mem chip vas im ib pm pb ch fm fe s = Some (Some d, s')" "hs_ok s"
  shows "adds (bo_res (notify_bo d)) [bo_handle (notify_bo d)] s s' \<and> ib_bo d = ib \<and> pb_bo d = pb \<and> pctx d = ch \<and> fence_bo d = fe \<and> nvas d = vas"
proof -
  obtain n where n: "nvrm_bo_create drv vas 256 False s = Some (Some n, s')" "notify_bo d = n" "ib_bo d = ib" "pb_bo d = pb" "pctx d = ch"
      "fence_bo d = fe" "nvas d = vas"
    using assms(1) by (auto simp: ctx_notify_def dest: fails_no_desc split: option.splits)
  then show ?thesis using bo_create_adds_unmapped [OF n(1) assms(2)] by simp
qed

lemma ctx_fence_adds:
  assumes "ctx_fence drv mem chip vas im ib pm pb ch s = Some (Some d, s')" "hs_ok s" "mmap_ok drv"
  shows "adds (bo_res (fence_bo d) + bo_res (notify_bo d)) [bo_handle (fence_bo d), bo_handle (notify_bo d)] s s' \<and>
    ib_bo d = ib \<and> pb_bo d = pb \<and> pctx d = ch \<and> nvas d = vas"
proof -
  obtain f t fm f' u where f: "nvrm_bo_create drv vas 0x10000 True s = Some (Some f, t)" "nvrm_bo_host_map drv f t = (fm, f', u)"
      "ctx_notify drv mem chip vas im ib pm pb ch fm f' u = Some (Some d, s')"
  proof -
    obtain f t where f: "nvrm_bo_create drv vas 0x10000 True s = Some (Some f, t)"
      and r: "(let (fm, f, s) = nvrm_bo_host_map drv f t in ctx_notify drv mem chip vas im ib pm pb ch fm f s) = Some (Some d, s')"
      using assms(1) by (force simp: ctx_fence_def dest: fails_no_desc split: option.split_asm)
    obtain fm f' u where "nvrm_bo_host_map drv f t = (fm, f', u)" by (metis surj_pair)
    then show thesis using that f r by simp
  qed
  note a = bo_create_adds [OF f(1) assms(2,3) f(2)]
  then have "hs_ok u" by (simp add: adds_def)
  note n = ctx_notify_adds [OF f(3) this]
  then show ?thesis using adds_trans [OF a] by force
qed

lemma ctx_chan_adds:
  assumes "ctx_chan drv mem chip vas im ib pm pb s = Some (Some d, s')" "hs_ok s" "mmap_ok drv"
  shows "adds (chan_res (pctx d) + {#Mem nvrm_channel#} + (bo_res (fence_bo d) + bo_res (notify_bo d)))
      (([oerr (pctx d), oedma (pctx d), ofifo (pctx d)] @ echain (pctx d)) @ [bo_handle (fence_bo d), bo_handle (notify_bo d)]) s s' \<and>
    ib_bo d = ib \<and> pb_bo d = pb \<and> nvas d = vas"
proof -
  obtain ch t h ch' u r v where c: "nvrm_channel_create_ib drv vas (fst (classes chip)) ib s = Some (Some ch, t)"
      "nvrm_eng_create drv ch (snd (classes chip)) t = Some (Some h, ch', u)" "nvrm_channel_activate drv ch' u = (r, v)"
      "ctx_fence drv mem chip vas im ib pm pb ch' v = Some (Some d, s')"
  proof -
    obtain ch t where c: "nvrm_channel_create_ib drv vas (fst (classes chip)) ib s = Some (Some ch, t)"
      and r: "nvrm_eng_create drv ch (snd (classes chip)) t \<bind> (\<lambda>(e, ch, s). if e = None then fail_eng drv ib pb ch s else
        let (r, s) = nvrm_channel_activate drv ch s in if r \<noteq> 0 then fail_eng drv ib pb ch s
          else ctx_fence drv mem chip vas im ib pm pb ch s) = Some (Some d, s')"
      using assms(1) by (force simp: ctx_chan_def dest: fails_no_desc split: option.split_asm)
    then obtain e ch' u where g: "nvrm_eng_create drv ch (snd (classes chip)) t = Some (e, ch', u)" by auto
    obtain q v where q: "nvrm_channel_activate drv ch' u = (q, v)" by fastforce
    obtain h where "e = Some h" using r g by (auto dest: fails_no_desc split: if_splits)
    then show thesis using that [OF c _ q] r g q by (auto dest: fails_no_desc split: if_splits)
  qed
  note a = channel_adds [OF c(1,2) assms(2) classes_nz]
  have u: "hs_ok u" using a by (simp add: adds_def)
  have v: "kept v = kept u" "hchain v = hchain u" "keeps u v"
    using c(3) by (auto simp: nvrm_channel_activate_def dest: call_spec split: if_splits prod.splits)
  then have b: "adds (chan_res ch' + {#Mem nvrm_channel#}) ([oerr ch', oedma ch', ofifo ch'] @ echain ch') s v"
    using a keeps_trans by (auto simp: adds_def used_def hs_ok_def)
  then have "hs_ok v" by (simp add: adds_def)
  note f = ctx_fence_adds [OF c(4) this assms(3)]
  then show ?thesis using adds_trans [OF b] by blast
qed

lemma ctx_new_adds:
  assumes e: "nvrm_ctx_new drv mem junk unset vas s = Some (Some d, s')" and ok: "hs_ok s" "mmap_ok drv"
  shows "adds (bo_res (ib_bo d) + (bo_res (pb_bo d) + (chan_res (pctx d) + {#Mem nvrm_channel#} + (bo_res (fence_bo d) + bo_res (notify_bo d)))))
    (desc_handles d) s s'" "nvas d = vas"
proof -
  obtain r chip s0 where g: "nvrm_device_get_chipset drv junk (vas_dev vas) s = ((r, chip), s0)" by (metis surj_pair)
  have s0: "kept s0 = kept s" "hchain s0 = hchain s" "keeps s s0"
    using g by (auto simp: nvrm_device_get_chipset_def dest: call_spec split: if_splits prod.splits)
  let ?chip = "case chip of None \<Rightarrow> unset | Some (ma, mi, _) \<Rightarrow> ma OR mi"
  obtain i t im i' u p v pm p' w where c: "nvrm_bo_create drv vas 0x2000 True s0 = Some (Some i, t)" "nvrm_bo_host_map drv i t = (im, i', u)"
      "nvrm_bo_create drv vas 0x40000 True u = Some (Some p, v)" "nvrm_bo_host_map drv p v = (pm, p', w)"
      "ctx_chan drv mem ?chip vas im i' pm p' w = Some (Some d, s')"
  proof -
    obtain i t where i: "nvrm_bo_create drv vas 0x2000 True s0 = Some (Some i, t)"
      and r: "(let (im, i, s) = nvrm_bo_host_map drv i t in nvrm_bo_create drv vas 0x40000 True s \<bind> (\<lambda>(p, s).
         case p of None \<Rightarrow> fail_pb drv i s
         | Some p \<Rightarrow> (let (pm, p, s) = nvrm_bo_host_map drv p s in ctx_chan drv mem ?chip vas im i pm p s))) = Some (Some d, s')"
      using e by (force simp: nvrm_ctx_new_def g Let_def dest: fails_no_desc split: option.split_asm)
    obtain im i' u where im: "nvrm_bo_host_map drv i t = (im, i', u)" by (metis surj_pair)
    obtain p v where p: "nvrm_bo_create drv vas 0x40000 True u = Some (Some p, v)"
      and r': "(let (pm, p, s) = nvrm_bo_host_map drv p v in ctx_chan drv mem ?chip vas im i' pm p s) = Some (Some d, s')"
      using r im by (force dest: fails_no_desc split: option.split_asm)
    obtain pm p' w where "nvrm_bo_host_map drv p v = (pm, p', w)" by (metis surj_pair)
    then show thesis using that [OF i im p] r' by simp
  qed
  have "hs_ok s0" using s0(2) ok(1) by (simp add: hs_ok_def)
  note a = bo_create_adds [OF c(1) this ok(2) c(2)]
  have a': "adds (bo_res i') [bo_handle i'] s u"
    using a s0 keeps_trans [OF s0(3)] by (simp add: adds_def used_def)
  have "hs_ok u" using a by (simp add: adds_def)
  note b = bo_create_adds [OF c(3) this ok(2) c(4)]
  then have "hs_ok w" by (simp add: adds_def)
  note f = ctx_chan_adds [OF c(5) this ok(2)]
  show "nvas d = vas" using f by simp
  show "adds (bo_res (ib_bo d) + (bo_res (pb_bo d) + (chan_res (pctx d) + {#Mem nvrm_channel#} + (bo_res (fence_bo d) + bo_res (notify_bo d)))))
    (desc_handles d) s s'"
    using adds_trans [OF a' adds_trans [OF b conjunct1 [OF f]]] f by (simp add: desc_handles_def)
qed

section \<open>Closing\<close>

text \<open>What opening took before the context: the record of the session, the files, the device and its address space.\<close>

definition opened_res :: "nvrm_context \<Rightarrow> nvrm_vspace \<Rightarrow> resource multiset" where
  "opened_res s v = vspace_res v + {#Mem nvrm_handle, Mem nvrm_handle, Obj (odev (vas_dev v)), Obj (osubdev (vas_dev v)),
     File (dev_fd (vas_dev v)), File (fd_ctl s), Mem nvrm_context#}"

definition base_handles :: "nvrm_vspace \<Rightarrow> w32 list" where
  "base_handles v = [odev (vas_dev v), osubdev (vas_dev v), ovas v, odma v]"

lemma mset_take: "M = X + R \<Longrightarrow> M - R = (X :: 'a multiset)" by simp

lemma sys_call_same: "sys_call drv c s = (r, s') \<Longrightarrow> used s' = used s \<and> hs_ok s' = hs_ok s \<and> keeps s s'"
  using sys_call_eqs [of drv c s r s'] by (simp add: used_def hs_ok_def)

text \<open>The last part: the device and the files, when all objects of the context are gone.\<close>

definition close_device :: "drv \<Rightarrow> nvrm_device \<Rightarrow> nvrm_context \<Rightarrow> nvrm_context option" where
  "close_device drv dev s = do {
     let (_, s) = nvrm_ioctl_call drv (osubdev dev) 0x20800146 [] 0 s;
     let (_, s) = nvrm_ioctl_destroy drv (odev dev) (osubdev dev) s;
     s \<leftarrow> nvrm_handle_free drv (osubdev dev) s;
     let (_, s) = nvrm_ioctl_destroy drv (ctx_cid s) (odev dev) s;
     s \<leftarrow> nvrm_handle_free drv (odev dev) s;
     let (_, s) = sys_call drv (CLOSE (dev_fd dev)) s;
     let (_, s) = nvrm_mthd_context_disable_device drv (ctx_cid s) (gpu_id dev) s;
     let (_, s) = sys_call drv (CLOSE (fd_ctl s)) s;
     Some (free drv nvrm_context s)
   }"

lemma disable_device_spec:
  "nvrm_mthd_context_disable_device drv c g s = (r, s') \<Longrightarrow> kept s' = kept s \<and> hchain s' = hchain s \<and> keeps s s'"
  by (auto simp: nvrm_mthd_context_disable_device_def dest: call_spec split: prod.splits)

lemma close_device_spec:
  assumes ok: "hs_ok s" and h: "odev dev \<in> used s" "osubdev dev \<in> used s" "odev dev \<noteq> osubdev dev"
    and o: "kept s = R + {#Mem nvrm_handle, Mem nvrm_handle, Obj (odev dev), Obj (osubdev dev), File (dev_fd dev), File (fd_ctl s), Mem nvrm_context#}"
  shows "\<exists>u. close_device drv dev s = Some u \<and> kept u = R \<and> used u = used s - {odev dev, osubdev dev}"
proof -
  obtain x s1 where s1: "nvrm_ioctl_call drv (osubdev dev) 0x20800146 [] 0 s = (x, s1)" by fastforce
  obtain x2 s2 where s2: "nvrm_ioctl_destroy drv (odev dev) (osubdev dev) s1 = (x2, s2)" by fastforce
  have a: "kept s2 = kept s - {#Obj (osubdev dev)#}" "hchain s2 = hchain s" "keeps s s2"
    using call_spec [of drv "osubdev dev" _ _ _ s "fst x" "snd x" s1] s1 destroy_spec [OF s2] by (auto simp: keeps_def)
  then have u2: "used s2 = used s" "hs_ok s2" using ok by (simp_all add: used_def hs_ok_def)
  then obtain s3 where s3: "nvrm_handle_free drv (osubdev dev) s2 = Some s3" using free_used_returns h(2) by metis
  note f3 = free_used [OF s3 u2(2)] and g3 = handle_free_spec [OF s3]
  obtain x4 s4 where s4: "nvrm_ioctl_destroy drv (ctx_cid s3) (odev dev) s3 = (x4, s4)" by fastforce
  note d4 = destroy_spec [OF s4]
  have u4: "used s4 = used s - {osubdev dev}" "hs_ok s4" using f3 d4 u2 by (simp_all add: used_def hs_ok_def)
  then have "odev dev \<in> used s4" using h by simp
  then obtain s5 where s5: "nvrm_handle_free drv (odev dev) s4 = Some s5" using free_used_returns by blast
  note f5 = free_used [OF s5 u4(2)] and g5 = handle_free_spec [OF s5]
  obtain x6 s6 where s6: "sys_call drv (CLOSE (dev_fd dev)) s5 = (x6, s6)" by fastforce
  obtain x7 s7 where s7: "nvrm_mthd_context_disable_device drv (ctx_cid s6) (gpu_id dev) s6 = (x7, s7)" by fastforce
  obtain x8 s8 where s8: "sys_call drv (CLOSE (fd_ctl s7)) s7 = (x8, s8)" by fastforce
  have "close_device drv dev s = Some (free drv nvrm_context s8)"
    by (simp add: close_device_def s1 s2 s3 s4 s5 s6 s7 s8 Let_def)
  moreover have "used s8 = used s - {odev dev, osubdev dev}"
    using f5 u4(1) sys_call_same [OF s6] sys_call_same [OF s8] disable_device_spec [OF s7] by (auto simp: used_def)
  moreover have "kept s8 - {#Mem nvrm_context#} = R"
  proof -
    have fd: "fd_ctl s7 = fd_ctl s"
      using a(3) g3 d4 g5 sys_call_same [OF s6] disable_device_spec [OF s7] by (simp add: keeps_def)
    have "kept s2 = R + {#Mem nvrm_handle, Mem nvrm_handle, Obj (odev dev), File (dev_fd dev), File (fd_ctl s), Mem nvrm_context#}"
      unfolding a(1) o by (rule mset_take) simp
    then have "kept s3 = R + {#Mem nvrm_handle, Obj (odev dev), File (dev_fd dev), File (fd_ctl s), Mem nvrm_context#}" using g3 by simp
    then have o3: "kept s3 = R + {#Mem nvrm_handle, File (dev_fd dev), File (fd_ctl s), Mem nvrm_context#} + {#Obj (odev dev)#}" by simp
    have "kept s4 = R + {#Mem nvrm_handle, File (dev_fd dev), File (fd_ctl s), Mem nvrm_context#}"
      unfolding conjunct1 [OF d4] o3 by (rule mset_take) (rule refl)
    then have "kept s5 = R + {#File (dev_fd dev), File (fd_ctl s), Mem nvrm_context#}" using g5 by simp
    then have "kept s6 = R + {#File (fd_ctl s), Mem nvrm_context#}" using sys_call_eqs [OF s6] by simp
    then have "kept s8 = R + {#Mem nvrm_context#}" using sys_call_eqs [OF s8] disable_device_spec [OF s7] fd by simp
    then show ?thesis by simp
  qed
  ultimately show ?thesis by simp
qed

lemma close_split:
  "rtx_nvrm_close_c drv d s = do {
     s \<leftarrow> nvrm_bo_destroy drv (notify_bo d) s;
     s \<leftarrow> nvrm_channel_destroy drv (pctx d) s;
     s \<leftarrow> nvrm_bo_destroy drv (pb_bo d) s;
     s \<leftarrow> nvrm_bo_destroy drv (ib_bo d) s;
     s \<leftarrow> nvrm_vspace_destroy drv (nvas d) s;
     close_device drv (vas_dev (nvas d)) s
   }"
  by (simp add: rtx_nvrm_close_c_def close_device_def Let_def)

text \<open>C26: 
  Closing a session gives back the device, the address space, the channel and three of the four
  buffers. The buffer of the fence, the record of the channel and the descriptor stay, whatever
  the driver answers; they are all that stays in the books of the client, and all that stays when
  the driver refused no release.
\<close>

theorem close_leaves_fence_buffer:
  assumes new: "nvrm_ctx_new drv mem junk unset vas s = Some (Some d, t)" and ok: "hs_ok s" "mmap_ok drv"
    and base: "distinct (base_handles vas)" "used s = set (base_handles vas)" and kept: "kept s = {#Mem nvrm_desc#} + opened_res s vas"
  shows "\<exists>u. rtx_nvrm_close_c drv (d\<lparr>fifo := f, fence_map := fm, fence_seq := n, begin_ring := g\<rparr>) t = Some u \<and>
    kept u = {#Mem nvrm_desc, Mem nvrm_channel#} + bo_res (fence_bo d) \<and> used u = {bo_handle (fence_bo d)} \<and>
    kept u \<subseteq># own u \<and> (all_accepted u \<longrightarrow> own u = {#Mem nvrm_desc, Mem nvrm_channel#} + bo_res (fence_bo d))"
proof -
  define L where "L = {#Mem nvrm_desc, Mem nvrm_channel#} + bo_res (fence_bo d)"
  have v: "nvas d = vas" and ad: "adds (bo_res (ib_bo d) + (bo_res (pb_bo d) + (chan_res (pctx d) + {#Mem nvrm_channel#} +
      (bo_res (fence_bo d) + bo_res (notify_bo d))))) (desc_handles d) s t" using ctx_new_adds [OF new ok] by simp_all
  have o0: "kept t = (L + opened_res s vas + bo_res (ib_bo d) + bo_res (pb_bo d) + chan_res (pctx d)) + bo_res (notify_bo d)"
    using ad kept by (simp add: adds_def L_def ac_simps)
  have u0: "hs_ok t" "keeps s t" "distinct (desc_handles d)" "set (desc_handles d) \<inter> set (base_handles vas) = {}"
      "used t = set (desc_handles d) \<union> set (base_handles vas)" using ad base by (simp_all add: adds_def)
  have "bo_handle (notify_bo d) \<in> used t" using u0(5) by (simp add: desc_handles_def)
  then obtain t1 where t1: "nvrm_bo_destroy drv (notify_bo d) t = Some t1" "kept t1 = kept t - bo_res (notify_bo d)" "hs_ok t1"
      "used t1 = used t - {bo_handle (notify_bo d)}" "keeps t t1" using bo_destroy_spec [OF u0(1)] by blast
  have c: "three (oerr (pctx d)) (oedma (pctx d)) (ofifo (pctx d)) t1" "set (echain (pctx d)) \<subseteq> used t1" "distinct (echain (pctx d))"
      "{oerr (pctx d), oedma (pctx d), ofifo (pctx d)} \<inter> set (echain (pctx d)) = {}"
    using t1(3,4) u0(3-5) by (auto simp: three_def desc_handles_def)
  obtain t2 where t2: "nvrm_channel_destroy drv (pctx d) t1 = Some t2" "kept t2 = kept t1 - chan_res (pctx d)" "hs_ok t2"
      "used t2 = used t1 - set (echain (pctx d)) - {oerr (pctx d), oedma (pctx d), ofifo (pctx d)}" "keeps t1 t2"
    using channel_destroy_spec [OF c] by blast
  have "bo_handle (pb_bo d) \<in> used t2" using u0(3-5) t1(4) t2(4) by (auto simp: desc_handles_def)
  then obtain t3 where t3: "nvrm_bo_destroy drv (pb_bo d) t2 = Some t3" "kept t3 = kept t2 - bo_res (pb_bo d)" "hs_ok t3"
      "used t3 = used t2 - {bo_handle (pb_bo d)}" "keeps t2 t3" using bo_destroy_spec [OF t2(3)] by blast
  have "bo_handle (ib_bo d) \<in> used t3" using u0(3-5) t1(4) t2(4) t3(4) by (auto simp: desc_handles_def)
  then obtain t4 where t4: "nvrm_bo_destroy drv (ib_bo d) t3 = Some t4" "kept t4 = kept t3 - bo_res (ib_bo d)" "hs_ok t4"
      "used t4 = used t3 - {bo_handle (ib_bo d)}" "keeps t3 t4" using bo_destroy_spec [OF t3(3)] by blast
  have k4: "keeps s t4" using u0(2) t1(5) t2(5) t3(5) t4(5) keeps_trans by blast
  have u4: "used t4 = {bo_handle (fence_bo d)} \<union> set (base_handles vas)"
    unfolding t4(4) t3(4) t2(4) t1(4) u0(5) using u0(3,4) by (auto simp: desc_handles_def)
  have "ovas vas \<in> used t4" "odma vas \<in> used t4" "ovas vas \<noteq> odma vas" using u4 base(1) by (auto simp: base_handles_def)
  then obtain t5 where t5: "nvrm_vspace_destroy drv vas t4 = Some t5" "kept t5 = kept t4 - vspace_res vas" "hs_ok t5"
      "used t5 = used t4 - {ovas vas, odma vas}" "keeps t4 t5" using vspace_destroy_spec [OF t4(3)] by blast
  let ?dev = "vas_dev vas"
  have u5: "used t5 = {bo_handle (fence_bo d), odev ?dev, osubdev ?dev}"
    unfolding t5(4) u4 using u0(4) base(1) by (auto simp: base_handles_def desc_handles_def)
  have "kept t1 = L + opened_res s vas + bo_res (ib_bo d) + bo_res (pb_bo d) + chan_res (pctx d)" unfolding t1(2) o0 by (rule mset_take) simp
  then have "kept t2 = L + opened_res s vas + bo_res (ib_bo d) + bo_res (pb_bo d)" unfolding t2(2) by simp
  then have "kept t3 = L + opened_res s vas + bo_res (ib_bo d)" unfolding t3(2) by simp
  then have "kept t4 = L + opened_res s vas" unfolding t4(2) by simp
  then have o5: "kept t5 = L + {#Mem nvrm_handle, Mem nvrm_handle, Obj (odev ?dev), Obj (osubdev ?dev), File (dev_fd ?dev), File (fd_ctl t5), Mem nvrm_context#}"
    unfolding t5(2) opened_res_def using k4 t5(5) by (intro mset_take) (simp add: keeps_def)
  have d5: "odev ?dev \<in> used t5" "osubdev ?dev \<in> used t5" "odev ?dev \<noteq> osubdev ?dev"
    using u5 base(1) by (simp_all add: base_handles_def)
  obtain u where u: "close_device drv ?dev t5 = Some u" "kept u = L" "used u = used t5 - {odev ?dev, osubdev ?dev}"
    using close_device_spec [OF t5(3) d5 o5] by blast
  have "bo_handle (fence_bo d) \<noteq> odev ?dev" "bo_handle (fence_bo d) \<noteq> osubdev ?dev"
    using u0(4) by (auto simp: base_handles_def desc_handles_def)
  then have "used u = {bo_handle (fence_bo d)}" using u(3) u5 by auto
  moreover have "L \<subseteq># own u" "all_accepted u \<Longrightarrow> own u = L" using kept_below [of u] kept_own [of u] u(2) by simp_all
  ultimately show ?thesis
    using u(1,2) t1(1) t2(1) t3(1) t4(1) t5(1) v by (simp add: close_split) (simp add: L_def)
qed

section \<open>Errors of opening\<close>

text \<open>
  Opening reports an error for a card it does not know and for nothing else; every other
  failure is a use of a null or freed pointer.
\<close>

lemma init_reports_only_unknown_cards:
  "rtx_nvrm_init_c drv mem junk unset rd dev_id s = Some (r, d, t) \<longleftrightarrow>
    (\<exists>s0 s1 dev s2 vas s3 d0. alloc drv nvrm_desc s = (True, s0) \<and> nvrm_open drv s0 = (True, s1) \<and>
      nvrm_device_open drv dev_id s1 = Some (Some dev, s2) \<and> nvrm_vas_new drv dev s2 = Some (Some vas, s3) \<and>
      nvrm_ctx_new drv mem junk unset vas s3 = Some (Some d0, t) \<and>
      (case generation_of (chipset d0) of
         None \<Rightarrow> r = 0 \<and> d = None
       | Some g \<Rightarrow> r = 1 \<and> d \<noteq> None \<and> d = on_ring (init_commands rd g) (d0\<lparr>begin_ring := Some g\<rparr>)))"
  (is "?L \<longleftrightarrow> ?R")
proof
  obtain b s0 where a: "alloc drv nvrm_desc s = (b, s0)" by fastforce
  obtain b' s1 where o: "nvrm_open drv s0 = (b', s1)" by fastforce
  assume ?L
  then obtain dev s2 vas s3 d0 where *: "b" "b'" "nvrm_device_open drv dev_id s1 = Some (Some dev, s2)"
      "nvrm_vas_new drv dev s2 = Some (Some vas, s3)"
    and c: "nvrm_ctx_new drv mem junk unset vas s3 \<bind> (\<lambda>(d, s). d \<bind> (\<lambda>d. case generation_of (chipset d) of
       None \<Rightarrow> Some (0, None, s)
     | Some g \<Rightarrow> on_ring (init_commands rd g) (d\<lparr>begin_ring := Some g\<rparr>) \<bind> (\<lambda>d. Some (1, Some d, s)))) = Some (r, d, t)"
    by (auto simp: rtx_nvrm_init_c_def a o Let_def)
  then obtain d0 where "nvrm_ctx_new drv mem junk unset vas s3 = Some (Some d0, t)"
    and "case generation_of (chipset d0) of None \<Rightarrow> r = 0 \<and> d = None
       | Some g \<Rightarrow> r = 1 \<and> d \<noteq> None \<and> d = on_ring (init_commands rd g) (d0\<lparr>begin_ring := Some g\<rparr>)"
    by (force split: option.splits)
  moreover have "b = True" "b' = True" using *(1,2) by simp_all
  ultimately show ?R using a o *(3,4) by blast
next
  assume ?R
  then show ?L by (auto simp: rtx_nvrm_init_c_def Let_def split: option.split_asm)
qed

text \<open>The version of the driver is never asked: the card table is always read in its old layout.\<close>

lemma open_clears_version: "nvrm_open drv s = (True, t) \<Longrightarrow> ver_major t = 0"
proof -
  have f: "nvrm_open_file drv n u = (x, v) \<Longrightarrow> ver_major v = ver_major u" for n u x v
    by (auto simp: nvrm_open_file_def sys_call_def Let_def split: if_splits)
  have c: "nvrm_create_cid drv u = (x, v) \<Longrightarrow> ver_major v = ver_major u" for u x v
    by (auto simp: nvrm_create_cid_def nvrm_ioctl_create_def sys_call_def Let_def)
  have l: "nvrm_mthd_context_list_devices drv h u = (x, v) \<Longrightarrow> ver_major v = ver_major u" for h u x v
    by (auto simp: nvrm_mthd_context_list_devices_def nvrm_ioctl_call_def sys_call_def Let_def split: if_splits)
  show "nvrm_open drv s = (True, t) \<Longrightarrow> ver_major t = 0"
    by (auto simp: nvrm_open_def Let_def split: prod.splits if_splits dest!: f c l)
qed

lemma fb_size_from_old_table:
  assumes "nvrm_open drv s = (True, t)" "0 \<le> rc (drv (calls t) (CARD_INFO (fd_ctl t) 0xffffffff))"
  shows "fst (nvrm_device_get_fb_size drv dev t) =
    (0, Some (snd (snd (card (drv (calls t) (CARD_INFO (fd_ctl t) 0xffffffff)) (nat (dev_idx dev))))))"
  using open_clears_version [OF assms(1)] assms(2)
  by (simp add: nvrm_device_get_fb_size_def nvrm_ioctl_get_fb_size_def card_field_def sys_call_def Let_def case_prod_beta)

text \<open>An address space that cannot be made leaves its record behind.\<close>

lemma vas_new_loses_record:
  assumes "nvrm_vas_new drv dev s = Some (None, t)" "hs_ok s"
  shows "kept t = add_mset (Mem nvrm_vspace) (kept s) \<and> hchain t = hchain s"
proof -
  obtain s0 where a: "alloc drv nvrm_vspace s = (True, s0)" and v: "vspace_setup drv dev id s0 = Some (None, t)"
    using assms(1) by (auto simp: nvrm_vas_new_def Let_def split: prod.splits if_splits)
  then have "hs_ok s0" using alloc_spec [OF a] assms(2) by (simp add: hs_ok_def)
  then show ?thesis using vspace_setup_spec [OF v] alloc_spec [OF a] by (auto simp: unchanged_def)
qed

section \<open>Concrete sessions\<close>

definition bo_at :: "w32 \<Rightarrow> nvrm_bo" where "bo_at h = bo0\<lparr>bo_handle := h, bo_mmap := 0x7000\<rparr>"

definition desc0 :: nvrm_desc where
  "desc0 = \<lparr>chipset = 0xe4, nvas = vas0, fifo = fifo_setup (\<lambda>_. 0) (\<lambda>_. 0) 0x20000, ib_bo = bo_at 5, ib_ptr = 0x7000, pb_bo = bo_at 6,
     pb_ptr = 0x7000, regs = 0x7000, fence_bo = bo_at 11, fence_ptr = 0x7000, fence_map = (\<lambda>_. 0), fence_addr = 0x100000, fence_seq = 0,
     notify_bo = bo_at 12, notify_addr = 0x200000,
     pctx = \<lparr>ch_dev = dev0, ch_vas = vas0, echain = [10], ofifo = 9, fifo_mmap = 0x7000, fifo_foffset = 0, oedma = 8, oerr = 7, ch_cls = 0xa06f\<rparr>,
     begin_ring = Some nve4\<rparr>"

lemma desc0_ready: "n < NWORDS \<Longrightarrow> ready n desc0"
proof -
  have "fifo_wf (fifo_setup (\<lambda>_. 0) (\<lambda>_. 0) 0x20000)" by (rule fifo_setup_wf) (simp add: NWORDS_def)
  then show "n < NWORDS \<Longrightarrow> ready n desc0"
    using fifo_setup_room by (simp add: ready_def desc0_def) (simp add: dist_def get_w_def pos_w_def fifo_setup_def)
qed

theorem fence_reaches_gpu_witness:
  "\<exists>d'. rtx_nvrm_fence_c (\<lambda>_ _. 0) 3 desc0 = Some d' \<and> fence_map d' 12 = NOT 0 \<and>
    handed (fifo desc0) (fifo d') = [0x20012044, 0, 0x200426C0, 0, 0x100030, 3, 0]"
proof -
  have r: "ready 7 desc0" by (rule desc0_ready) (simp add: NWORDS_def)
  have "pending (fifo desc0) = []" by (simp add: desc0_def pending_def put_w_def pos_w_def fifo_setup_def)
  moreover have "fence_words (fence_addr desc0 + ucast ((3 :: w32) * 16)) 3 = [0x20012044, 0, 0x200426C0, 0, 0x100030, 3, 0]"
    by (simp add: fence_words_def header_nvc0_def SUBCH_NV_COMPUTE_def desc0_def)
  ultimately show ?thesis using fence_reaches_gpu [OF r, of 3 "\<lambda>_ _. 0"] by (auto simp: desc0_def)
qed

theorem poll_returns_when_written_witness:
  "rtx_nvrm_fence_poll_c (\<lambda>i k. if i \<ge> 5 then 3 else NOT 0) 3 desc0 = Some (desc0\<lparr>fence_map := (\<lambda>_. 3)(12 := NOT 0)\<rparr>)"
  using poll_returns_when_written [of desc0 3 3 "\<lambda>i k. if i \<ge> 5 then 3 else NOT 0"] by (simp add: desc0_def)

definition opened :: nvrm_context where
  "opened = \<lparr>fd_ctl = 3, ctx_cid = 0xc1d00001, devs = [dev0], hchain = [1, 2, 3, 4], ver_major = 0,
     calls = map (\<lambda>(c, n). (c, (good_drv [] c)\<lparr>rc := n\<rparr>))
       [(CREATE_DMA 3 0 4 2 0 0 3 0 0, 0), (CREATE_VSPACE 4 0 1 3 0x70 0 0 0, 0), (ALLOC nvrm_handle, 0), (ALLOC nvrm_handle, 0),
        (ALLOC nvrm_vspace, 0), (CREATE 3 0 1 2 0x2080 [], 0), (ALLOC nvrm_handle, 0), (CREATE 3 0 0 1 0x80 [], 0),
        (ALLOC nvrm_handle, 0), (OPEN ''/dev/nvidia0'', 4), (OPEN ''/dev/nvidiactl'', 3), (ALLOC nvrm_context, 0), (ALLOC nvrm_desc, 0)]\<rparr>"

lemmas run_defs = nvrm_bo_create_def alloc_def sys_call_def nvrm_handle_alloc_def MAX_HANDLE_def Let_def nvrm_ioctl_memory_def
  nvrm_ioctl_vspace_map_def result_def nvrm_bo_host_map_def nvrm_ioctl_host_map_def nvrm_channel_create_ib_def chan_mem_def chan_dma_def
  chan_fifo_def chan_map_def nvrm_ioctl_create_dma_def nvrm_ioctl_create_def nvrm_eng_create_def nvrm_channel_activate_def
  ctx_notify_def ctx_fence_def ctx_chan_def nvrm_ctx_new_def nvrm_device_get_chipset_def nvrm_ioctl_call_def classes_def

lemma opened_runs: "\<exists>d t. nvrm_ctx_new good_drv (\<lambda>_ _. 0) [] 0 vas0 opened = Some (Some d, t) \<and> bo_handle (fence_bo d) = 11"
  by (simp add: run_defs good_drv_def opened_def vas0_def dev0_def nvrm_bo_gpu_addr_def)

theorem close_leaves_fence_buffer_witness:
  "\<exists>d t u. nvrm_ctx_new good_drv (\<lambda>_ _. 0) [] 0 vas0 opened = Some (Some d, t) \<and> rtx_nvrm_close_c good_drv d t = Some u \<and>
    Obj 11 \<in># own u \<and> used u = {11}"
proof -
  obtain d t where d: "nvrm_ctx_new good_drv (\<lambda>_ _. 0) [] 0 vas0 opened = Some (Some d, t)" "bo_handle (fence_bo d) = 11"
    using opened_runs by blast
  have h: "hs_ok opened" "distinct (base_handles vas0)" "used opened = set (base_handles vas0)"
    by (auto simp: hs_ok_def handles_ok_def opened_def MAX_HANDLE_def base_handles_def vas0_def dev0_def used_def)
  have o: "kept opened = {#Mem nvrm_desc#} + opened_res opened vas0"
    by (simp add: kept_def opened_def opened_res_def vspace_res_def vas0_def dev0_def good_drv_def result_def add_mset_commute)
  have "d\<lparr>fifo := fifo d, fence_map := fence_map d, fence_seq := fence_seq d, begin_ring := begin_ring d\<rparr> = d" by simp
  then obtain u where "rtx_nvrm_close_c good_drv d t = Some u" "{#Mem nvrm_desc, Mem nvrm_channel#} + bo_res (fence_bo d) \<subseteq># own u"
      "used u = {bo_handle (fence_bo d)}"
    using close_leaves_fence_buffer [OF d(1) h(1) good_env(3) h(2,3) o, where f = "fifo d" and fm = "fence_map d" and n = "fence_seq d" and g = "begin_ring d"] by auto
  moreover have "Obj 11 \<in># {#Mem nvrm_desc, Mem nvrm_channel#} + bo_res (fence_bo d)" using d(2) by (simp add: bo_res_def)
  ultimately show ?thesis using d(1) mset_subset_eqD [of _ "own u" "Obj 11"] d(2) by auto
qed

end
