(* ===== verification/Queue_Locks.thy ===== *)
theory Queue_Locks
  imports Core_State
begin

text \<open>
  The locks of the CPU core (\<open>src/core/sched.c\<close>): one spinlock per active queue, taken with
  the interrupts off, and the semaphore of the global list. The other theories treat an
  operation as one step; here several threads interleave at the calls that lock and unlock, and what
  they do in between is a \<open>Section\<close>, which names the locks it needs.
\<close>

section \<open>Lock programs\<close>

datatype lock = Global_list | Queue cpu

datatype lock_op = Irq_save | Irq_restore | Lock lock | Unlock lock | Section "lock list"

text \<open>The functions of \<open>sched.c\<close>; \<open>spin_lock_irqsave\<close> disables interrupts before it waits.\<close>

definition active_queue_lock :: "cpu \<Rightarrow> lock_op list" where
  "active_queue_lock c = [Irq_save, Lock (Queue c)]"

definition active_queue_unlock :: "cpu \<Rightarrow> lock_op list" where
  "active_queue_unlock c = [Unlock (Queue c), Irq_restore]"

definition active_queue_double_lock :: "cpu \<Rightarrow> cpu \<Rightarrow> lock_op list" where
  "active_queue_double_lock c1 c2 = [Irq_save, Lock (Queue c1), Lock (Queue c2)]"

definition active_queue_double_unlock :: "cpu \<Rightarrow> cpu \<Rightarrow> lock_op list" where
  "active_queue_double_unlock c1 c2 = [Unlock (Queue c2), Unlock (Queue c1), Irq_restore]"

definition global_list_down :: "lock_op list" where
  "global_list_down = [Lock Global_list]"

definition global_list_up :: "lock_op list" where
  "global_list_up = [Unlock Global_list]"

text \<open>
  Their users: \<open>enqueue_task\<close>, \<open>dequeue_task\<close>, \<open>requeue_task\<close>, \<open>get_current_task\<close> on one queue; the
  operations on the global list; the migration of a task by its class.
\<close>

definition queue_section :: "cpu \<Rightarrow> lock_op list" where
  "queue_section c = active_queue_lock c @ [Section [Queue c]] @ active_queue_unlock c"

definition list_section :: "lock_op list" where
  "list_section = global_list_down @ [Section [Global_list]] @ global_list_up"

definition migrate_section :: "cpu \<Rightarrow> cpu \<Rightarrow> lock_op list" where
  "migrate_section cpu_src cpu_dst =
     (if cpu_src \<noteq> cpu_dst
      then active_queue_double_lock cpu_src cpu_dst @ [Section [Queue cpu_src, Queue cpu_dst]] @
        active_queue_double_unlock cpu_src cpu_dst
      else [])"

lemmas section_defs = queue_section_def list_section_def migrate_section_def active_queue_lock_def
  active_queue_unlock_def active_queue_double_lock_def active_queue_double_unlock_def
  global_list_down_def global_list_up_def

text \<open>What a thread of the core does: any sequence of these.\<close>

datatype lock_use = Use_queue cpu | Use_list | Use_migrate cpu cpu

definition use_ops :: "lock_use \<Rightarrow> lock_op list" where
  "use_ops u = (case u of Use_queue c \<Rightarrow> queue_section c | Use_list \<Rightarrow> list_section | Use_migrate a b \<Rightarrow> migrate_section a b)"

section \<open>Threads\<close>

text \<open>
  Who owns a lock, what each thread still has to do, and which threads have switched off the
  interrupts of their CPU. A thread that wants a lock somebody owns has no step.
\<close>

type_synonym thread = nat

record lock_state =
  owner :: "lock \<Rightarrow> thread option"
  todo :: "thread \<Rightarrow> lock_op list"
  irqs_off :: "thread \<Rightarrow> bool"

definition run_op :: "thread \<Rightarrow> lock_op \<Rightarrow> lock_state \<Rightarrow> lock_state option" where
  "run_op t x s =
     (case x of
        Irq_save \<Rightarrow> Some (s\<lparr>irqs_off := (irqs_off s)(t := True)\<rparr>)
      | Irq_restore \<Rightarrow> Some (s\<lparr>irqs_off := (irqs_off s)(t := False)\<rparr>)
      | Lock l \<Rightarrow> if owner s l = None then Some (s\<lparr>owner := (owner s)(l \<mapsto> t)\<rparr>) else None
      | Unlock l \<Rightarrow> Some (s\<lparr>owner := (owner s)(l := None)\<rparr>)
      | Section _ \<Rightarrow> Some s)"

definition lock_step :: "thread \<Rightarrow> lock_state \<Rightarrow> lock_state option" where
  "lock_step t s =
     (case todo s t of
        [] \<Rightarrow> None
      | x # xs \<Rightarrow> map_option (\<lambda>s'. s'\<lparr>todo := (todo s')(t := xs)\<rparr>) (run_op t x s))"

inductive lock_steps :: "lock_state \<Rightarrow> lock_state \<Rightarrow> bool" where
  refl: "lock_steps s s"
| step: "lock_steps s s' \<Longrightarrow> lock_step t s' = Some s'' \<Longrightarrow> lock_steps s s''"

text \<open>A run is given by the threads that take the steps.\<close>

fun run_schedule :: "thread list \<Rightarrow> lock_state \<Rightarrow> lock_state option" where
  "run_schedule [] s = Some s"
| "run_schedule (t # ts) s = do { s' \<leftarrow> lock_step t s; run_schedule ts s' }"

lemma steps_trans: "lock_steps s' s'' \<Longrightarrow> lock_steps s s' \<Longrightarrow> lock_steps s s''"
  by (induction rule: lock_steps.induct) (auto intro: lock_steps.step)

lemma run_schedule_steps: "run_schedule ts s = Some s' \<Longrightarrow> lock_steps s s'"
proof (induction ts arbitrary: s)
  case (Cons t ts)
  then obtain s1 where "lock_step t s = Some s1" "lock_steps s1 s'" by auto
  then show ?case using steps_trans [OF _ lock_steps.step [OF lock_steps.refl]] by blast
qed (simp add: lock_steps.refl)

definition start :: "(thread \<Rightarrow> lock_op list) \<Rightarrow> lock_state" where
  "start progs = \<lparr>owner = \<lambda>_. None, todo = progs, irqs_off = \<lambda>_. False\<rparr>"

definition stuck :: "lock_state \<Rightarrow> bool" where
  "stuck s \<longleftrightarrow> (\<forall>t. lock_step t s = None) \<and> (\<exists>t. todo s t \<noteq> [])"

definition held :: "lock_state \<Rightarrow> thread \<Rightarrow> lock set" where
  "held s t = {l. owner s l = Some t}"

section \<open>The discipline\<close>

text \<open>
  What a thread may do next, given whether its interrupts are off and what it holds: a queue
  is locked with the interrupts off, the semaphore, which may sleep, with the interrupts on;
  \<open>before\<close> relates what is held to what may be locked.
\<close>

fun disciplined :: "(lock \<Rightarrow> lock \<Rightarrow> bool) \<Rightarrow> bool \<Rightarrow> lock set \<Rightarrow> lock_op list \<Rightarrow> bool" where
  "disciplined before off H [] \<longleftrightarrow> H = {} \<and> \<not> off"
| "disciplined before off H (Irq_save # xs) \<longleftrightarrow> \<not> off \<and> disciplined before True H xs"
| "disciplined before off H (Irq_restore # xs) \<longleftrightarrow>
     off \<and> H \<subseteq> {Global_list} \<and> disciplined before False H xs"
| "disciplined before off H (Lock l # xs) \<longleftrightarrow>
     (off \<longleftrightarrow> l \<noteq> Global_list) \<and> l \<notin> H \<and> (\<forall>h \<in> H. before h l) \<and> disciplined before off (insert l H) xs"
| "disciplined before off H (Unlock l # xs) \<longleftrightarrow> l \<in> H \<and> disciplined before off (H - {l}) xs"
| "disciplined before off H (Section ls # xs) \<longleftrightarrow> set ls \<subseteq> H \<and> disciplined before off H xs"

lemma disciplined_append:
  "disciplined before off H xs \<Longrightarrow> disciplined before False {} ys \<Longrightarrow> disciplined before off H (xs @ ys)"
  by (induction before off H xs rule: disciplined.induct) auto

lemma disciplined_concat:
  "\<forall>p \<in> set ps. disciplined before False {} p \<Longrightarrow> disciplined before False {} (concat ps)"
  by (induction ps) (auto intro: disciplined_append)

text \<open>Every program of the core obeys it; a migration needs the order of its two queues.\<close>

lemma queue_section_disciplined: "disciplined before False {} (queue_section c)"
  by (simp add: section_defs)

lemma list_section_disciplined: "disciplined before False {} list_section"
  by (simp add: section_defs)

lemma migrate_section_disciplined:
  "before (Queue a) (Queue b) \<Longrightarrow> disciplined before False {} (migrate_section a b)"
  by (auto simp: section_defs)

text \<open>The invariant of a run: the discipline, and interrupts are off wherever a queue is held.\<close>

definition thread_ok :: "(lock \<Rightarrow> lock \<Rightarrow> bool) \<Rightarrow> bool \<Rightarrow> lock set \<Rightarrow> lock_op list \<Rightarrow> bool" where
  "thread_ok before off H xs \<longleftrightarrow> disciplined before off H xs \<and> (off \<or> H \<subseteq> {Global_list})"

definition lock_inv :: "(lock \<Rightarrow> lock \<Rightarrow> bool) \<Rightarrow> lock_state \<Rightarrow> bool" where
  "lock_inv before s \<longleftrightarrow> (\<forall>t. thread_ok before (irqs_off s t) (held s t) (todo s t))"

lemma lock_inv_start: "\<forall>t. disciplined before False {} (progs t) \<Longrightarrow> lock_inv before (start progs)"
  by (simp add: lock_inv_def thread_ok_def start_def held_def)

lemma lock_inv_step:
  assumes "lock_inv before s" "lock_step t s = Some s'"
  shows "lock_inv before s'"
proof -
  obtain x xs where t: "todo s t = x # xs" using assms(2) by (auto simp: lock_step_def split: list.splits)
  then obtain s1 where s1: "run_op t x s = Some s1" "s' = s1\<lparr>todo := (todo s1)(t := xs)\<rparr>"
    using assms(2) by (auto simp: lock_step_def)
  have d: "thread_ok before (irqs_off s t) (held s t) (x # xs)"
    using assms(1) t by (metis lock_inv_def)
  have other: "held s' u = held s u \<and> irqs_off s' u = irqs_off s u \<and> todo s' u = todo s u" if "u \<noteq> t" for u
    using that s1 d by (auto simp: run_op_def held_def thread_ok_def split: lock_op.splits if_splits)
  have "thread_ok before (irqs_off s' t) (held s' t) xs"
  proof (cases x)
    case (Lock l)
    then have h: "held s' t = insert l (held s t)" "irqs_off s' t = irqs_off s t"
      using s1 by (auto simp: run_op_def held_def split: if_splits)
    show ?thesis using d unfolding h Lock thread_ok_def disciplined.simps by blast
  next
    case (Unlock l)
    then have h: "held s' t = held s t - {l}" "irqs_off s' t = irqs_off s t"
      using s1 by (auto simp: run_op_def held_def split: if_splits)
    show ?thesis using d unfolding h Unlock thread_ok_def disciplined.simps by blast
  qed (use s1 d in \<open>auto simp: run_op_def held_def thread_ok_def\<close>)
  moreover have "todo s' t = xs" using s1 by simp
  ultimately have "thread_ok before (irqs_off s' u) (held s' u) (todo s' u)" for u
    using other [of u] assms(1) by (cases "u = t") (auto simp: lock_inv_def)
  then show ?thesis by (simp add: lock_inv_def)
qed

lemma lock_inv_steps: "lock_steps s s' \<Longrightarrow> lock_inv before s \<Longrightarrow> lock_inv before s'"
  by (induction rule: lock_steps.induct) (auto intro: lock_inv_step)

lemma use_ops_disciplined: "disciplined (\<lambda>_ _. True) False {} (use_ops u)"
  by (cases u) (simp_all add: use_ops_def queue_section_disciplined list_section_disciplined migrate_section_disciplined)

lemma lock_inv_uses:
  "lock_steps (start (\<lambda>t. concat (map use_ops (uses t)))) s \<Longrightarrow> lock_inv (\<lambda>_ _. True) s"
  by (erule lock_inv_steps, rule lock_inv_start, intro allI disciplined_concat) (auto simp: use_ops_disciplined)

text \<open>C34: 
  Threads that work on single queues, on the global list and migrate tasks in any direction,
  interleaved in any way: no two of them are in sections that need the same lock, the one in the
  section owns the lock, and has its interrupts off if the lock is that of a queue. A thread that
  is done holds no lock and has its interrupts on.
\<close>

theorem sections_exclude_each_other:
  assumes "lock_steps (start (\<lambda>t. concat (map use_ops (uses t)))) s"
    and "todo s t = Section ls # xs" "todo s u = Section ms # ys" "l \<in> set ls" "l \<in> set ms"
  shows "t = u \<and> owner s l = Some t \<and> (l \<noteq> Global_list \<longrightarrow> irqs_off s t) \<and>
    (\<forall>v. todo s v = [] \<longrightarrow> held s v = {} \<and> \<not> irqs_off s v)"
proof -
  have i: "lock_inv (\<lambda>_ _. True) s" by (rule lock_inv_uses [OF assms(1)])
  have h: "owner s l = Some t" if "todo s t = Section ls # xs" "l \<in> set ls" for t ls xs
    using i that unfolding lock_inv_def thread_ok_def held_def
    by (metis (mono_tags, lifting) disciplined.simps(6) mem_Collect_eq subset_iff)
  have o: "owner s l = Some t" "owner s l = Some u" using h assms(2-5) by blast+
  then have "l \<in> held s t" by (simp add: held_def)
  then have "irqs_off s t \<or> l = Global_list" using i unfolding lock_inv_def thread_ok_def by blast
  moreover have "held s v = {} \<and> \<not> irqs_off s v" if "todo s v = []" for v
  proof -
    have "thread_ok (\<lambda>_ _. True) (irqs_off s v) (held s v) (todo s v)" using i by (simp add: lock_inv_def)
    with that show ?thesis by (simp add: thread_ok_def)
  qed
  ultimately show ?thesis using o by auto
qed

section \<open>Deadlocks\<close>

definition opposite :: "cpu \<Rightarrow> cpu \<Rightarrow> thread \<Rightarrow> lock_op list" where
  "opposite a b t = (if t = 0 then migrate_section a b else if t = 1 then migrate_section b a else [])"

text \<open>C33: 
  Two tasks that migrate in opposite directions: each thread holds the queue of its source
  and waits for the other.
\<close>

theorem opposite_migrations_deadlock:
  assumes "a \<noteq> b"
  shows "\<exists>s. lock_steps (start (opposite a b)) s \<and> stuck s \<and>
    held s 0 = {Queue a} \<and> held s 1 = {Queue b} \<and> irqs_off s 0 \<and> irqs_off s 1"
proof -
  define s where "s = \<lparr>owner = (\<lambda>_. None)(Queue a \<mapsto> 0, Queue b \<mapsto> 1),
    todo = \<lambda>t. drop 2 (opposite a b t), irqs_off = \<lambda>t. t < 2\<rparr>"
  have "run_schedule [0, 0, 1, 1] (start (opposite a b)) = Some s"
    using assms by (auto simp: lock_step_def run_op_def start_def opposite_def section_defs s_def fun_eq_iff)
  then have "lock_steps (start (opposite a b)) s"
    by (rule run_schedule_steps)
  moreover have "stuck s"
    using assms by (auto simp: stuck_def s_def lock_step_def run_op_def opposite_def section_defs)
  moreover have "held s 0 = {Queue a}" "held s 1 = {Queue b}"
    using assms by (auto simp: held_def s_def split: if_splits)
  ultimately show ?thesis by (auto simp: s_def)
qed

text \<open>Locking the same queue twice never returns; the classes test for it, the function does not.\<close>

theorem double_lock_same_queue:
  "\<exists>s. lock_steps (start ((\<lambda>_. [])(0 := active_queue_double_lock c c))) s \<and> stuck s"
proof -
  define s where "s = \<lparr>owner = (\<lambda>_. None)(Queue c \<mapsto> 0), todo = (\<lambda>_. [])(0 := [Lock (Queue c)]),
    irqs_off = (\<lambda>_. False)(0 := True)\<rparr>"
  have "run_schedule [0, 0] (start ((\<lambda>_. [])(0 := active_queue_double_lock c c))) = Some s"
    by (simp add: lock_step_def run_op_def start_def section_defs s_def)
  then have "lock_steps (start ((\<lambda>_. [])(0 := active_queue_double_lock c c))) s"
    by (rule run_schedule_steps)
  moreover have "stuck s" by (auto simp: stuck_def s_def lock_step_def run_op_def)
  ultimately show ?thesis by blast
qed

text \<open>The order of locks under which nothing gets stuck: the semaphore first, queues by CPU.\<close>

definition rank :: "lock \<Rightarrow> nat" where
  "rank l = (case l of Global_list \<Rightarrow> 0 | Queue c \<Rightarrow> Suc c)"

definition upward :: "lock \<Rightarrow> lock \<Rightarrow> bool" where
  "upward h l \<longleftrightarrow> rank h < rank l"

lemma blocked_wants:
  assumes "stuck s" "todo s t \<noteq> []"
  obtains l xs u where "todo s t = Lock l # xs" "owner s l = Some u"
proof -
  obtain x xs where x: "todo s t = x # xs" using assms(2) by (cases "todo s t") auto
  have "lock_step t s = None" using assms(1) by (simp add: stuck_def)
  then show ?thesis using that x
    by (cases x) (auto simp: lock_step_def run_op_def split: if_splits)
qed

lemma not_stuck:
  assumes "lock_inv upward s" "finite {t. todo s t \<noteq> []}"
  shows "\<not> stuck s"
proof
  assume st: "stuck s"
  define W where "W = {t. todo s t \<noteq> []}"
  define want where "want t = (case hd (todo s t) of Lock l \<Rightarrow> rank l | _ \<Rightarrow> 0)" for t
  have "W \<noteq> {}" using st by (auto simp: stuck_def W_def)
  then have "Max (want ` W) \<in> want ` W" using assms(2) by (simp add: W_def)
  then obtain t where t0: "t \<in> W" "Max (want ` W) = want t" by blast
  have "\<forall>u \<in> W. want u \<le> Max (want ` W)" using assms(2) by (simp add: W_def)
  with t0 have t: "t \<in> W" "\<forall>u \<in> W. want u \<le> want t" by simp_all
  have "todo s t \<noteq> []" using t(1) by (simp add: W_def)
  from blocked_wants [OF st this] obtain l xs u where l: "todo s t = Lock l # xs" "owner s l = Some u" .
  have du: "disciplined upward (irqs_off s u) (held s u) (todo s u)"
    using assms(1) by (simp add: lock_inv_def thread_ok_def)
  have lu: "l \<in> held s u" using l(2) by (simp add: held_def)
  then have uW: "u \<in> W" "todo s u \<noteq> []" using du by (auto simp: W_def)
  from blocked_wants [OF st uW(2)] obtain m ys v where m: "todo s u = Lock m # ys" "owner s m = Some v" .
  then have "rank l < rank m" using du lu by (simp add: upward_def)
  moreover have "want u = rank m" "want t = rank l" using m(1) l(1) by (simp_all add: want_def)
  ultimately show False using t(2) uW(1) by fastforce
qed


lemma step_length:
  assumes "lock_step t s = Some s'" "finite T" "t \<in> T"
  shows "(\<Sum>u \<in> T. length (todo s u)) = Suc (\<Sum>u \<in> T. length (todo s' u))"
proof -
  obtain x xs s1 where x: "todo s t = x # xs" "run_op t x s = Some s1" "s' = s1\<lparr>todo := (todo s1)(t := xs)\<rparr>"
    using assms(1) by (auto simp: lock_step_def split: list.splits)
  have "todo s1 = todo s" using x(2) by (auto simp: run_op_def split: lock_op.splits if_splits)
  then have o: "todo s' u = todo s u" if "u \<noteq> t" for u using that x(3) by simp
  have "(\<Sum>u \<in> T. length (todo s u)) = length (todo s t) + (\<Sum>u \<in> T - {t}. length (todo s u))"
    "(\<Sum>u \<in> T. length (todo s' u)) = length (todo s' t) + (\<Sum>u \<in> T - {t}. length (todo s' u))"
    by (rule sum.remove [OF assms(2,3)])+
  moreover have "(\<Sum>u \<in> T - {t}. length (todo s u)) = (\<Sum>u \<in> T - {t}. length (todo s' u))"
    by (rule sum.cong) (simp_all add: o)
  ultimately show ?thesis using x by simp
qed

lemma step_todo: "lock_step t s = Some s' \<Longrightarrow> todo s u = [] \<Longrightarrow> todo s' u = []"
  by (auto simp: lock_step_def run_op_def split: list.splits lock_op.splits if_splits)

lemma steps_todo: "lock_steps s s' \<Longrightarrow> todo s u = [] \<Longrightarrow> todo s' u = []"
  by (induction rule: lock_steps.induct) (auto intro: step_todo)

lemma all_finish:
  assumes "lock_inv upward s" "finite T" "\<forall>t. t \<notin> T \<longrightarrow> todo s t = []"
  shows "\<exists>s'. lock_steps s s' \<and> (\<forall>t. todo s' t = [])"
  using assms(1,3)
proof (induction "\<Sum>u \<in> T. length (todo s u)" arbitrary: s)
  case 0
  then have "\<forall>t. todo s t = []" using assms(2) by auto
  then show ?case using lock_steps.refl by blast
next
  case (Suc n)
  have f: "finite {t. todo s t \<noteq> []}" using Suc.prems(2) by (blast intro: finite_subset [OF _ assms(2)])
  have "\<exists>t. todo s t \<noteq> []"
  proof (rule ccontr)
    assume "\<nexists>t. todo s t \<noteq> []"
    with Suc.hyps(2) show False by simp
  qed
  then obtain t s1 where t: "lock_step t s = Some s1"
    using not_stuck [OF Suc.prems(1) f] by (auto simp: stuck_def)
  then have "t \<in> T" using Suc.prems(2) by (auto simp: lock_step_def)
  then have "n = (\<Sum>u \<in> T. length (todo s1 u))" using step_length [OF t assms(2)] Suc.hyps(2) by simp
  from Suc.hyps(1) [OF this lock_inv_step [OF Suc.prems(1) t]] obtain s' where
    "lock_steps s1 s'" "\<forall>t. todo s' t = []" using Suc.prems(2) step_todo [OF t] by blast
  moreover have "lock_steps s s1" using lock_steps.step [OF lock_steps.refl t] .
  ultimately show ?case using steps_trans by blast
qed

text \<open>C32: 
  Threads that work on single queues, on the global list, and migrate tasks to CPUs of a higher
  number only: however they are interleaved, no state is stuck and all of them can finish.
\<close>

theorem upward_migrations_finish:
  assumes "finite T" "\<forall>t. t \<notin> T \<longrightarrow> uses t = []" "\<forall>t a b. Use_migrate a b \<in> set (uses t) \<longrightarrow> a \<le> b"
    and "lock_steps (start (\<lambda>t. concat (map use_ops (uses t)))) s"
  shows "\<not> stuck s \<and> (\<exists>s'. lock_steps s s' \<and> (\<forall>t. todo s' t = []))"
proof -
  have d: "disciplined upward False {} (use_ops u)" if "u \<in> set (uses t)" for t u
  proof (cases u)
    case (Use_migrate a b)
    then have "a \<le> b" using assms(3) that by blast
    then show ?thesis
      by (cases "a = b") (auto simp: Use_migrate use_ops_def migrate_section_def [of b b] upward_def rank_def
          intro!: migrate_section_disciplined)
  qed (simp_all add: use_ops_def queue_section_disciplined list_section_disciplined)
  then have "\<forall>t. disciplined upward False {} (concat (map use_ops (uses t)))"
    by (auto intro!: disciplined_concat)
  then have i: "lock_inv upward s" using lock_inv_steps [OF assms(4) lock_inv_start] by blast
  have e: "\<forall>t. t \<notin> T \<longrightarrow> todo s t = []"
    using steps_todo [OF assms(4)] assms(2) by (simp add: start_def)
  then have "finite {t. todo s t \<noteq> []}" by (blast intro: finite_subset [OF _ assms(1)])
  with i show ?thesis using not_stuck all_finish [OF i assms(1) e] by blast
qed


section \<open>Examples\<close>

theorem opposite_migrations_deadlock_witness:
  "\<exists>s. lock_steps (start (opposite 0 1)) s \<and> stuck s \<and>
    held s 0 = {Queue 0} \<and> held s 1 = {Queue 1} \<and> irqs_off s 0 \<and> irqs_off s 1"
  by (rule opposite_migrations_deadlock) simp

definition three_uses :: "thread \<Rightarrow> lock_use list" where
  "three_uses = (\<lambda>_. [])(0 := [Use_migrate 0 1, Use_list], 1 := [Use_migrate 1 2], 2 := [Use_list, Use_queue 1])"

theorem upward_migrations_finish_witness:
  "\<not> stuck (start (\<lambda>t. concat (map use_ops (three_uses t)))) \<and>
   (\<exists>s'. lock_steps (start (\<lambda>t. concat (map use_ops (three_uses t)))) s' \<and> (\<forall>t. todo s' t = []))"
  by (rule upward_migrations_finish [OF _ _ _ lock_steps.refl, of "{0, 1, 2}"])
     (auto simp: three_uses_def split: if_splits)

text \<open>Thread 0 in its section while thread 1 waits for the same queue.\<close>

definition in_section :: lock_state where
  "in_section = \<lparr>owner = (\<lambda>_. None)(Queue 3 \<mapsto> 0),
     todo = (\<lambda>_. [])(0 := drop 2 (queue_section 3), 1 := drop 1 (queue_section 3)), irqs_off = \<lambda>t. t < 2\<rparr>"

theorem sections_exclude_each_other_witness:
  "irqs_off in_section 0 \<and> owner in_section (Queue 3) = Some 0"
proof -
  define uses :: "thread \<Rightarrow> lock_use list" where "uses = (\<lambda>_. [])(0 := [Use_queue 3], 1 := [Use_queue 3])"
  have "run_schedule [0, 0, 1] (start (\<lambda>t. concat (map use_ops (uses t)))) = Some in_section"
    by (auto simp: lock_step_def run_op_def start_def section_defs in_section_def fun_eq_iff uses_def use_ops_def)
  then have r: "lock_steps (start (\<lambda>t. concat (map use_ops (uses t)))) in_section" by (rule run_schedule_steps)
  have "todo in_section 0 = Section [Queue 3] # active_queue_unlock 3"
    by (simp add: in_section_def section_defs)
  from sections_exclude_each_other [OF r this this, of "Queue 3"] show ?thesis by simp
qed

end
