(* ===== verification/Load_Balance.thy ===== *)
theory Load_Balance
  imports Task_API
begin

text \<open>
  Variants of the core that the configure script can select: \<open>--disable-load-balance\<close> pins a
  task to its CPU while it runs a job (\<open>NO_LINUX_LOAD_BALANCE\<close>), and \<open>--use-hrtimer\<close> sleeps on a
  high-resolution timer (\<open>RESCH_HRTIMER\<close>), both in \<open>src/core/sched.c\<close>.
\<close>

section \<open>Load balancing\<close>

definition enable_load_balance :: "rid \<Rightarrow> core \<Rightarrow> core" where
  "enable_load_balance r s = upd_linux r (\<lambda>t. t\<lparr>cpus_allowed := cpumask (tcb s r)\<rparr>) s"

definition disable_load_balance :: "kenv \<Rightarrow> rid \<Rightarrow> core \<Rightarrow> core" where
  "disable_load_balance k r s =
     (let s = upd_task r (\<lambda>t. t\<lparr>cpumask := cpus_allowed (task t)\<rparr>) s
      in upd_linux r (\<lambda>t. t\<lparr>cpus_allowed := {smp_processor_id k}\<rparr>) s)"

definition follow_load_balance :: "kenv \<Rightarrow> rid \<Rightarrow> core \<Rightarrow> core option" where
  "follow_load_balance k r s =
     (let cpu_now = smp_processor_id k;
          cpu_old = cpu_id (tcb s r)
      in if cpu_now \<noteq> cpu_old then
           do { s \<leftarrow> dequeue_task k r (prio (tcb s r)) cpu_old s;
                let s = upd_task r (\<lambda>t. t\<lparr>cpu_id := cpu_now\<rparr>) s;
                enqueue_task k r (prio (tcb s r)) cpu_now s }
         else Some s)"

text \<open>What \<open>job_start\<close> adds in this configuration, before the class starts the job.\<close>

definition pin_job :: "kenv \<Rightarrow> rid \<Rightarrow> core \<Rightarrow> core option" where
  "pin_job k r s = follow_load_balance k r (disable_load_balance k r s)"

section \<open>Sleeping on a high-resolution timer\<close>

text \<open>The handler of the timer runs on some CPU, whose current task is asked to reschedule.\<close>

definition period_timer :: "rid \<Rightarrow> rid \<Rightarrow> core \<Rightarrow> core" where
  "period_timer r running s = set_tsk_need_resched running (wake_up_process r s)"

text \<open>
  \<open>pending\<close> tells whether the timer is pending after it was started; a timer that has expired
  already is not, and the task then sleeps the whole interval.
\<close>

definition hrtimer_sleep_interval :: "kenv \<Rightarrow> bool \<Rightarrow> rid \<Rightarrow> u64 \<Rightarrow> core \<Rightarrow> core" where
  "hrtimer_sleep_interval k pending r interval s =
     (if \<not> pending then schedule_timeout k interval s
      else schedule k (set_tstate r TASK_UNINTERRUPTIBLE s))"

section \<open>Properties\<close>

lemma core_wf_cpumask [simp]:
  "core_wf (upd_task r (\<lambda>t. t\<lparr>cpumask := f t\<rparr>) s) = core_wf s"
  by (rule core_wf_cong) (simp_all add: same_queues_def)

lemma core_wf_lb [simp]: "core_wf (enable_load_balance r s) = core_wf s" "core_wf (disable_load_balance k r s) = core_wf s"
  by (simp_all add: enable_load_balance_def disable_load_balance_def Let_def)

lemma lb_sel [simp]:
  "active_entry (tcb (disable_load_balance k r s) x) = active_entry (tcb s x)"
  "cpu_id (tcb (disable_load_balance k r s) x) = cpu_id (tcb s x)"
  "prio (tcb (disable_load_balance k r s) x) = prio (tcb s x)"
  "sclass (tcb (disable_load_balance k r s) x) = sclass (tcb s x)"
  "cpumask (tcb (disable_load_balance k r s) r) = cpus_allowed (task (tcb s r))"
  "cpus_allowed (task (tcb (disable_load_balance k r s) r)) = {smp_processor_id k}"
  by (simp_all add: disable_load_balance_def Let_def)

text \<open>
  Between the start and the completion of a job the task is pinned; afterwards it may run where it
  could before, unless it was migrated on purpose.
\<close>

theorem pinned_for_the_job:
  assumes "cpumask (tcb s' r) = cpumask (tcb (disable_load_balance k r s) r)"
  shows "cpus_allowed (task (tcb (disable_load_balance k r s) r)) = {smp_processor_id k} \<and>
    cpus_allowed (task (tcb (enable_load_balance r s') r)) = cpus_allowed (task (tcb s r))"
  using assms by (simp add: enable_load_balance_def)

context sched_queue
begin

lemma moved:
  assumes "core_wf s" "active_entry (tcb s r) = Some (c, i)" "c' \<le> NR_RT_CPUS"
  obtains s1 s2 where "deq r (prio (tcb s r)) c s = Some s1"
    "enq r (prio (tcb s1 r)) c' (upd_task r (\<lambda>t. t\<lparr>cpu_id := c'\<rparr>) s1) = Some s2"
    "core_wf s2" "active_entry (tcb s2 r) = Some (c', i)" "cpu_id (tcb s2 r) = c'"
    "cpu_id (tcb s r) = c" "sclass (tcb s1 r) = sclass (tcb s r)"
proof -
  obtain s1 s2 where m: "deq r (prio (tcb s r)) c s = Some s1"
    "enq r (prio (tcb s r)) c' (upd_task r (\<lambda>t. t\<lparr>cpu_id := c'\<rparr>) s1) = Some s2"
    "core_wf s2" "active_entry (tcb s2 r) = Some (c', i)" "prio (tcb s1 r) = prio (tcb s r)"
    "cpu_id (tcb s r) = c" "queue_frame r s s1"
    "queue_frame r (upd_task r (\<lambda>t. t\<lparr>cpu_id := c'\<rparr>) s1) s2"
    by (rule move_job [OF assms])
  then show ?thesis
    using that [of s1 s2] queue_frame_tcb(2) [OF m(8), of r] queue_frame_tcb(3) [OF m(7), of r] by simp
qed

end

text \<open>Following a queued task to its CPU keeps the queues and the priority.\<close>

theorem follow_moves_queued_task:
  assumes "core_wf s" "active_entry (tcb s r) = Some (c, i)" "smp_processor_id k \<le> NR_RT_CPUS"
    and "sclass (tcb s r) \<noteq> FAIR_CLASS"
  shows "\<exists>s'. follow_load_balance k r s = Some s' \<and> core_wf s' \<and>
    active_entry (tcb s' r) = Some (smp_processor_id k, i) \<and> cpu_id (tcb s' r) = smp_processor_id k"
proof (cases "smp_processor_id k = cpu_id (tcb s r)")
  case True
  with core_wfD(3) [OF assms(1), of r] assms(1,2) show ?thesis
    by (auto simp: follow_load_balance_def placed_def)
next
  case False
  show ?thesis
  proof (cases "sclass (tcb s r)")
    case FP_CLASS
    obtain s1 s2 where "fp_dequeue_task r (prio (tcb s r)) c s = Some s1"
      "fp_enqueue_task r (prio (tcb s1 r)) (smp_processor_id k) (upd_task r (\<lambda>t. t\<lparr>cpu_id := smp_processor_id k\<rparr>) s1) = Some s2"
      "core_wf s2" "active_entry (tcb s2 r) = Some (smp_processor_id k, i)" "cpu_id (tcb s2 r) = smp_processor_id k"
      "cpu_id (tcb s r) = c" "sclass (tcb s1 r) = sclass (tcb s r)"
      by (rule fp.moved [OF assms(1-3)])
    with False FP_CLASS show ?thesis by (simp add: follow_load_balance_def dequeue_task_def enqueue_task_def)
  next
    case EDF_CLASS
    obtain s1 s2 where "edf_dequeue_task r (prio (tcb s r)) c s = Some s1"
      "edf_enqueue_task r (prio (tcb s1 r)) (smp_processor_id k) (upd_task r (\<lambda>t. t\<lparr>cpu_id := smp_processor_id k\<rparr>) s1) = Some s2"
      "core_wf s2" "active_entry (tcb s2 r) = Some (smp_processor_id k, i)" "cpu_id (tcb s2 r) = smp_processor_id k"
      "cpu_id (tcb s r) = c" "sclass (tcb s1 r) = sclass (tcb s r)"
      by (rule edf.moved [OF assms(1-3)])
    moreover obtain t1 t2 where "dl_dequeue_task r (prio (tcb s r)) c s = Some t1"
      "dl_enqueue_task r (prio (tcb t1 r)) (smp_processor_id k) (upd_task r (\<lambda>t. t\<lparr>cpu_id := smp_processor_id k\<rparr>) t1) = Some t2"
      "core_wf t2" "active_entry (tcb t2 r) = Some (smp_processor_id k, i)" "cpu_id (tcb t2 r) = smp_processor_id k"
      "sclass (tcb t1 r) = sclass (tcb s r)"
      by (rule dl.moved [OF assms(1-3)])
    ultimately show ?thesis using False EDF_CLASS
      by (cases "has_sched_deadline k") (simp_all add: follow_load_balance_def dequeue_task_def enqueue_task_def)
  qed (use assms(4) in simp)
qed

text \<open>
  But the job has not been queued yet when the core follows it: a fixed-priority task that starts its job on
  another CPU is put on the queue by \<open>follow_load_balance\<close>, and the class links it a second time.
\<close>

theorem follow_then_start_links_twice:
  assumes "smp_processor_id k \<noteq> cpu_id (tcb s r)" "sclass (tcb s r) = FP_CLASS"
  shows "do { s1 \<leftarrow> pin_job k r s; class_job_start k r s1 } = None"
proof (cases "pin_job k r s")
  case (Some s1)
  define s0 where "s0 = disable_load_balance k r s"
  have s0: "sclass (tcb s0 r) = FP_CLASS" "cpu_id (tcb s0 r) = cpu_id (tcb s r)"
    using assms(2) by (simp_all add: s0_def)
  obtain s2 where s2: "fp_dequeue_task r (prio (tcb s0 r)) (cpu_id (tcb s r)) s0 = Some s2"
    "fp_enqueue_task r (prio (tcb s2 r)) (smp_processor_id k) (upd_task r (\<lambda>t. t\<lparr>cpu_id := smp_processor_id k\<rparr>) s2) = Some s1"
    using Some assms(1) s0 queue_frame_tcb(3) [OF fp.deq_frame, of r "prio (tcb s0 r)" "cpu_id (tcb s r)" s0 _ r]
    by (auto simp: pin_job_def follow_load_balance_def s0_def [symmetric] dequeue_task_def enqueue_task_def Let_def)
  have "sclass (tcb s1 r) = FP_CLASS"
    using s0 queue_frame_tcb(3) [OF fp.deq_frame [OF s2(1)], of r] queue_frame_tcb(3) [OF fp.enq_frame [OF s2(2)], of r]
    by simp
  moreover have "active_entry (tcb s1 r) \<noteq> None" using fp.enq_entry [OF s2(2)] by auto
  ultimately show ?thesis
    using Some by (auto simp: class_job_start_def fp_job_start_def fp_enqueue_task_def guard_c_def)
qed simp


section \<open>Examples\<close>

theorem follow_then_start_links_twice_witness:
  "do { s1 \<leftarrow> pin_job (kernel0\<lparr>smp_processor_id := 1\<rparr>) 3 two_fp;
        class_job_start (kernel0\<lparr>smp_processor_id := 1\<rparr>) 3 s1 } = None"
proof (rule follow_then_start_links_twice)
  show "smp_processor_id (kernel0\<lparr>smp_processor_id := 1\<rparr>) \<noteq> cpu_id (tcb two_fp 3)" "sclass (tcb two_fp 3) = FP_CLASS"
    using two_tasks_facts(1,3) by (simp_all add: two_fp_def placed_def)
qed

theorem follow_moves_queued_task_witness:
  "\<exists>s'. follow_load_balance (kernel0\<lparr>smp_processor_id := 1\<rparr>) 3 two_fp = Some s' \<and> core_wf s' \<and>
    active_entry (tcb s' 3) = Some (smp_processor_id (kernel0\<lparr>smp_processor_id := 1\<rparr>), 60) \<and>
    cpu_id (tcb s' 3) = smp_processor_id (kernel0\<lparr>smp_processor_id := 1\<rparr>)"
proof (rule follow_moves_queued_task [OF two_fp_wf])
  show "active_entry (tcb two_fp 3) = Some (0, 60)" "sclass (tcb two_fp 3) \<noteq> FAIR_CLASS"
    using two_tasks_facts(1,3) by (simp_all add: two_fp_def placed_def)
qed (simp add: NR_RT_CPUS_def)

end
