(* ===== verification/Cost_Test.thy ===== *)
theory Cost_Test
  imports Lib_Resch
begin

text \<open>
  The measurements of \<open>src/core/test.c\<close>, the test commands of \<open>resch_ioctl\<close> that reach them
  (\<open>src/core/main.c\<close>) and the library's calls (\<open>src/lib/libresch.c\<close>). The module keeps one
  number, the release cost of the last measurement.
\<close>

section \<open>Measurements\<close>

text \<open>
  What a measurement reads: the clock before and after what is measured, the CPU, the core
  with the rest of the system; \<open>eax\<close> is what a function without a result leaves for its caller.
\<close>

record test_env =
  t_begin :: u64
  t_end :: u64
  eax :: int

text \<open>The core with \<open>test_release_cost_us\<close>.\<close>

type_synonym test_state = "core \<times> u64"

definition test_nsecs_to_usecs :: "u64 \<Rightarrow> int" where
  "test_nsecs_to_usecs ns = ulong_to_int (ns div 1000)"

text \<open>The timer handler: the clock is read around the wake-up; without progress the old cost stays.\<close>

definition test_timer :: "test_env \<Rightarrow> rid \<Rightarrow> test_state \<Rightarrow> test_state" where
  "test_timer e r = (\<lambda>(s, cost).
     let s = wake_up_process r s;
         cost = (if t_end e > t_begin e
                 then word_of_int (test_nsecs_to_usecs (t_end e - t_begin e) + 1) else cost)
     in (set_tstate r TASK_RUNNING s, cost))"

text \<open>
  \<open>timer_test_sleep\<close>: the caller sleeps until the timer of \<open>rt\<close> fires. It is the caller that
  sleeps and \<open>rt\<close> that is woken.
\<close>

definition timer_test_sleep :: "kenv \<Rightarrow> test_env \<Rightarrow> rid \<Rightarrow> test_state \<Rightarrow> test_state" where
  "timer_test_sleep k e r = (\<lambda>(s, cost).
     test_timer e r (schedule k (set_tstate (current k) TASK_UNINTERRUPTIBLE s), cost))"

definition test_get_release_cost :: "kenv \<Rightarrow> test_env \<Rightarrow> int \<Rightarrow> test_state \<Rightarrow> (int \<times> test_state) option" where
  "test_get_release_cost k e rid s = do {
     r \<leftarrow> resch_task_ptr rid;
     let s = timer_test_sleep k e r s;
     Some (ulong_to_int (snd s), s)
   }"

definition test_get_migration_cost :: "kenv \<Rightarrow> test_env \<Rightarrow> int \<Rightarrow> core \<Rightarrow> (int \<times> core) option" where
  "test_get_migration_cost k e rid s = do {
     r \<leftarrow> resch_task_ptr rid;
     let cpu_dst = (smp_processor_id k + 1) mod NR_RT_CPUS;
     s \<leftarrow> migrate_task k r cpu_dst s;
     Some (test_nsecs_to_usecs (t_end e - t_begin e), s)
   }"

definition test_reset_stime :: "kenv \<Rightarrow> core \<Rightarrow> core" where
  "test_reset_stime k = upd_linux (current k) (\<lambda>t. t\<lparr>stime := 0\<rparr>)"

definition test_get_runtime :: "kenv \<Rightarrow> core \<Rightarrow> int" where
  "test_get_runtime k s = ulong_to_int (utime (task (tcb s (current k))) + stime (task (tcb s (current k))))"

definition test_get_utime :: "kenv \<Rightarrow> core \<Rightarrow> int" where
  "test_get_utime k s = ulong_to_int (utime (task (tcb s (current k))))"

definition test_get_stime :: "kenv \<Rightarrow> core \<Rightarrow> int" where
  "test_get_stime k s = ulong_to_int (stime (task (tcb s (current k))))"

section \<open>The commands and the library\<close>

definition TEST_GET_RELEASE_COST :: int where [resch_consts]: "TEST_GET_RELEASE_COST = 104"
definition TEST_GET_MIGRATION_COST :: int where [resch_consts]: "TEST_GET_MIGRATION_COST = 105"
definition TEST_GET_RUNTIME :: int where [resch_consts]: "TEST_GET_RUNTIME = 106"
definition TEST_GET_UTIME :: int where [resch_consts]: "TEST_GET_UTIME = 107"
definition TEST_GET_STIME :: int where [resch_consts]: "TEST_GET_STIME = 108"
definition TEST_RESET_STIME :: int where [resch_consts]: "TEST_RESET_STIME = 109"

text \<open>
  The second half of \<open>resch_ioctl\<close>: the commands that set a cost, those that measure, all
  others. The user's \<open>unsigned long\<close> becomes an \<open>int\<close> where a RESCH ID is expected.
\<close>

definition resch_ioctl_test ::
  "kenv \<Rightarrow> test_env \<Rightarrow> bool \<Rightarrow> int \<Rightarrow> u64 \<Rightarrow> test_state \<Rightarrow> (int \<times> test_state) option" where
  "resch_ioctl_test k e copied cmd val = (\<lambda>(s, cost).
     if \<not> copied then Some (- EFAULT, s, cost)
     else if cmd = TEST_GET_RELEASE_COST then test_get_release_cost k e (ulong_to_int val) (s, cost)
     else if cmd = TEST_GET_MIGRATION_COST then
       do { (r, s) \<leftarrow> test_get_migration_cost k e (ulong_to_int val) s; Some (r, s, cost) }
     else if cmd = TEST_GET_RUNTIME then Some (test_get_runtime k s, s, cost)
     else if cmd = TEST_GET_UTIME then Some (test_get_utime k s, s, cost)
     else if cmd = TEST_GET_STIME then Some (test_get_stime k s, s, cost)
     else if cmd = TEST_RESET_STIME then Some (eax e, test_reset_stime k s, cost)
     else let (r, s) = resch_ioctl_costs copied cmd val s in Some (r, s, cost))"

definition test_ioctl ::
  "kenv \<Rightarrow> test_env \<Rightarrow> call_env \<Rightarrow> int \<Rightarrow> u64 \<Rightarrow> test_state \<Rightarrow> (int \<times> test_state) option" where
  "test_ioctl k e c cmd val s =
     (if \<not> opens c then Some (RES_FAULT, s)
      else do { (r, s) \<leftarrow> resch_ioctl_test k e (copies c) cmd val s; Some (sys_ret r, s) })"

text \<open>The library's RESCH ID is an \<open>int\<close>, passed as \<open>unsigned long\<close>.\<close>

definition rt_test_get_release_cost ::
  "kenv \<Rightarrow> test_env \<Rightarrow> call_env \<Rightarrow> lib \<Rightarrow> test_state \<Rightarrow> (int \<times> test_state) option" where
  "rt_test_get_release_cost k e c l s = test_ioctl k e c TEST_GET_RELEASE_COST (word_of_int (l_rid l)) s"

definition rt_test_get_migration_cost ::
  "kenv \<Rightarrow> test_env \<Rightarrow> call_env \<Rightarrow> lib \<Rightarrow> test_state \<Rightarrow> (int \<times> test_state) option" where
  "rt_test_get_migration_cost k e c l s = test_ioctl k e c TEST_GET_MIGRATION_COST (word_of_int (l_rid l)) s"

definition rt_test_get_runtime ::
  "kenv \<Rightarrow> test_env \<Rightarrow> call_env \<Rightarrow> test_state \<Rightarrow> (int \<times> test_state) option" where
  "rt_test_get_runtime k e c s = test_ioctl k e c TEST_GET_RUNTIME 0 s"

definition rt_test_get_utime ::
  "kenv \<Rightarrow> test_env \<Rightarrow> call_env \<Rightarrow> test_state \<Rightarrow> (int \<times> test_state) option" where
  "rt_test_get_utime k e c s = test_ioctl k e c TEST_GET_UTIME 0 s"

definition rt_test_get_stime ::
  "kenv \<Rightarrow> test_env \<Rightarrow> call_env \<Rightarrow> test_state \<Rightarrow> (int \<times> test_state) option" where
  "rt_test_get_stime k e c s = test_ioctl k e c TEST_GET_STIME 0 s"

definition rt_test_reset_stime ::
  "kenv \<Rightarrow> test_env \<Rightarrow> call_env \<Rightarrow> test_state \<Rightarrow> (int \<times> test_state) option" where
  "rt_test_reset_stime k e c s = test_ioctl k e c TEST_RESET_STIME 0 s"

section \<open>What the measurements do to the system\<close>

lemma ulong_to_int_small: "v < 2 ^ 31 \<Longrightarrow> ulong_to_int v = uint v"
  using integer_argument_arrives [of undefined undefined undefined v] by simp

text \<open>
  Measuring a migration migrates: an active fixed-priority task is left pinned to the CPU after
  the caller's, where the schedule was not tested for it.
\<close>

theorem migration_test_moves_task:
  assumes "core_wf s" "l_rid l = int r" "r < NR_RT_TASKS" "opens c" "copies c" "sclass (tcb s r) = FP_CLASS"
    and "active_entry (tcb s r) = Some (src, i)" "cpu_id (tcb s r) \<le> NR_RT_CPUS"
  shows "\<exists>s'. rt_test_get_migration_cost k e c l (s, cost) =
      Some (sys_ret (test_nsecs_to_usecs (t_end e - t_begin e)), s', cost) \<and> core_wf s' \<and>
    active_entry (tcb s' r) = Some ((smp_processor_id k + 1) mod NR_RT_CPUS, i) \<and>
    cpus_allowed (task (tcb s' r)) = {(smp_processor_id k + 1) mod NR_RT_CPUS}"
proof -
  define dst where "dst = (smp_processor_id k + 1) mod NR_RT_CPUS"
  have "dst \<le> NR_RT_CPUS" by (simp add: dst_def NR_RT_CPUS_def mod_less_divisor order.strict_implies_order)
  then obtain s' where s': "fp_migrate_task k r dst s = Some s'" "core_wf s'"
    "active_entry (tcb s' r) = Some (dst, i)" "cpus_allowed (task (tcb s' r)) = {dst}"
    using fp_migrate_spec [OF assms(1,8) _ assms(7)] by blast
  have "ulong_to_int (word_of_int (int r)) = int r"
    by (rule rid_arrives) (use assms(3) in \<open>simp_all add: NR_RT_TASKS_def\<close>)
  then have "resch_task_ptr (ulong_to_int (word_of_int (l_rid l))) = Some r"
    using assms(2,3) by (simp add: resch_task_ptr_def)
  with s' assms(4-6) show ?thesis unfolding dst_def [symmetric]
    by (simp del: One_nat_def add_Suc_right add: rt_test_get_migration_cost_def test_ioctl_def resch_ioctl_test_def test_get_migration_cost_def
        migrate_task_def resch_consts dst_def [symmetric] del: NR_RT_CPUS_def)
qed

text \<open>
  A process that was refused by \<open>api_init\<close> has a negative ID, which no command checks; a command
  that measures a time answers -1 when the low half of the number is negative.
\<close>

lemma refused_process_undefined:
  assumes "opens c" "copies c" "l_rid l < 0" "- (2 ^ 31) \<le> l_rid l"
  shows "rt_test_get_release_cost k e c l s = None" "rt_test_get_migration_cost k e c l s = None"
proof -
  have "resch_task_ptr (ulong_to_int (word_of_int (l_rid l))) = None"
    using assms(3,4) by (simp add: rid_arrives resch_task_ptr_def)
  then show "rt_test_get_release_cost k e c l s = None" "rt_test_get_migration_cost k e c l s = None"
    using assms(1,2)
    by (cases s; simp add: rt_test_get_release_cost_def rt_test_get_migration_cost_def test_ioctl_def
        resch_ioctl_test_def test_get_migration_cost_def test_get_release_cost_def resch_consts)+
qed

text \<open>The release cost is measured in whole microseconds, rounded up; it only changes when the clock did.\<close>

theorem release_cost_measured:
  assumes "l_rid l = int r" "r < NR_RT_TASKS" "opens c" "copies c" "t_end e - t_begin e < 2 ^ 31"
  shows "\<exists>s'. rt_test_get_release_cost k e c l (s, cost) =
    Some (if t_begin e < t_end e then uint (t_end e - t_begin e) div 1000 + 1 else sys_ret (ulong_to_int cost),
      s', if t_begin e < t_end e then (t_end e - t_begin e) div 1000 + 1 else cost)"
proof -
  define d where "d = t_end e - t_begin e"
  have d: "d < 2 ^ 31" using assms(5) by (simp add: d_def)
  have u: "uint (d div 1000) = uint d div 1000" by (simp add: uint_div_distrib)
  have ud: "uint d < 2 ^ 31" using d by (simp add: word_less_def)
  have q: "d div 1000 < 2 ^ 31" using ud u by (simp add: word_less_def)
  have n: "test_nsecs_to_usecs d = uint d div 1000" using q u by (simp add: test_nsecs_to_usecs_def ulong_to_int_small)
  have w: "word_of_int (uint d div 1000 + 1) = d div 1000 + 1" using u by (metis word_of_int_uint wi_hom_succ word_succ_p1)
  have pos: "0 \<le> uint d div 1000" by (simp add: pos_imp_zdiv_nonneg_iff)
  have i: "ulong_to_int (d div 1000 + 1) = uint d div 1000 + 1"
    unfolding w [symmetric] by (rule rid_arrives) (use ud pos in simp_all)
  have p: "0 \<le> uint d div 1000" by (rule pos)
  have "ulong_to_int (word_of_int (int r)) = int r"
    by (rule rid_arrives) (use assms(2) in \<open>simp_all add: NR_RT_TASKS_def\<close>)
  then have "resch_task_ptr (ulong_to_int (word_of_int (l_rid l))) = Some r"
    using assms(1,2) by (simp add: resch_task_ptr_def)
  then show ?thesis
    using assms(3,4) n w i
    by (simp add: rt_test_get_release_cost_def test_ioctl_def resch_ioctl_test_def test_get_release_cost_def
        timer_test_sleep_def test_timer_def resch_consts Let_def d_def [symmetric] sys_ret_def)
       (use p in linarith)
qed


text \<open>
  Resetting the system time of the caller also resets what its reserve has been charged for: the
  execution time is computed from it.
\<close>

lemma reset_stime_hides_execution:
  "exec_time k (test_reset_stime k s) (current k) = usecs_to_jiffies k (utime (task (tcb s (current k))) div 1000)"
  by (simp add: exec_time_def test_reset_stime_def)

section \<open>Examples\<close>

definition good_call :: call_env where
  "good_call = \<lparr>opens = True, copies = True, stale_sec = 0, stale_nsec = 0\<rparr>"

definition test_env0 :: test_env where
  "test_env0 = \<lparr>t_begin = 1000, t_end = 6500, eax = 0\<rparr>"

theorem release_cost_measured_witness:
  "\<exists>s'. rt_test_get_release_cost kernel0 test_env0 good_call (lib0\<lparr>l_rid := int 3\<rparr>) (two_fp, 7) =
    Some (if t_begin test_env0 < t_end test_env0 then uint (t_end test_env0 - t_begin test_env0) div 1000 + 1
        else sys_ret (ulong_to_int 7),
      s', if t_begin test_env0 < t_end test_env0 then (t_end test_env0 - t_begin test_env0) div 1000 + 1 else 7)"
  by (rule release_cost_measured [where r = 3]) (simp_all add: good_call_def test_env0_def NR_RT_TASKS_def)

theorem migration_test_moves_task_witness:
  "\<exists>s'. rt_test_get_migration_cost kernel0 test_env0 good_call (lib0\<lparr>l_rid := int 3\<rparr>) (two_fp, 7) =
      Some (sys_ret (test_nsecs_to_usecs (t_end test_env0 - t_begin test_env0)), s', 7) \<and> core_wf s' \<and>
    active_entry (tcb s' 3) = Some ((smp_processor_id kernel0 + 1) mod NR_RT_CPUS, 60) \<and>
    cpus_allowed (task (tcb s' 3)) = {(smp_processor_id kernel0 + 1) mod NR_RT_CPUS}"
proof (rule migration_test_moves_task)
  show "core_wf two_fp" by (rule two_fp_wf)
  show "active_entry (tcb two_fp 3) = Some (0, 60)" "cpu_id (tcb two_fp 3) \<le> NR_RT_CPUS" "sclass (tcb two_fp 3) = FP_CLASS"
    using two_tasks_facts(1,3) by (simp_all add: two_fp_def placed_def)
qed (simp_all add: good_call_def NR_RT_TASKS_def)

end
