(* ===== verification/Gpu_Irq.thy ===== *)
theory Gpu_Irq
  imports Gpu_Context Gdev_List
begin

text \<open>
  The interrupt handling of \<open>src/core/gpu_init.c\<close>: how the module takes over the interrupt
  of the GPU from its driver and gives it back, and what its handler does. A node of an
  interrupt list is one of the two list heads or a node embedded in an entity; the heap of
  nodes is that of \<open>Gdev_List\<close>. The registers of the GPU answer a read depending on all
  accesses so far (\<open>hw\<close>); the driver's handler is a parameter too.
\<close>

section \<open>State\<close>

datatype irq_node = WakeHead | WaitHead | Wake nat | Wait nat

datatype mmio = Rd u32 | Wr u32 u32

type_synonym hw = "mmio list \<Rightarrow> u32 \<Rightarrow> u32"

record irq_state =
  irq_heap :: "(irq_node, nat) heap"
  irq_gpu :: gpu
  irq_io :: "mmio list"

definition nv_rd32 :: "hw \<Rightarrow> u32 \<Rightarrow> irq_state \<Rightarrow> u32 \<times> irq_state" where
  "nv_rd32 hw offset s = (hw (irq_io s) offset, s\<lparr>irq_io := irq_io s @ [Rd offset]\<rparr>)"

definition nv_wr32 :: "u32 \<Rightarrow> u32 \<Rightarrow> irq_state \<Rightarrow> irq_state" where
  "nv_wr32 offset v s = s\<lparr>irq_io := irq_io s @ [Wr offset v]\<rparr>"

text \<open>The static list heads are zero until \<open>gsched_init\<close> makes them empty lists.\<close>

definition irq_boot :: "gpu \<Rightarrow> irq_state" where
  "irq_boot g = \<lparr>irq_heap = \<lambda>_. \<lparr>nxt = None, prv = None, container = None\<rparr>, irq_gpu = g, irq_io = []\<rparr>"

definition init_irq_lists :: "irq_state \<Rightarrow> irq_state" where
  "init_irq_lists s =
     s\<lparr>irq_heap := gdev_list_init WaitHead None (gdev_list_init WakeHead None (irq_heap s))\<rparr>"

text \<open>The nodes of a new entity (\<open>gdev_sched_entity_create\<close>).\<close>

definition init_irq_nodes :: "nat \<Rightarrow> irq_state \<Rightarrow> irq_state" where
  "init_irq_nodes se s =
     s\<lparr>irq_heap := gdev_list_init (Wait se) (Some se) (gdev_list_init (Wake se) (Some se) (irq_heap s))\<rparr>"

section \<open>Handlers\<close>

text \<open>
  The handlers try to wake the scheduler thread a second time when the first attempt finds
  it running; the tasklet sleeps for a tick in between.
\<close>

definition wake_thread :: "nat \<Rightarrow> irq_state \<Rightarrow> irq_state" where
  "wake_thread d s =
     (case sched_com_thread (gdev_vds (irq_gpu s) d) of
        None \<Rightarrow> s
      | Some t \<Rightarrow>
          let (woken, g) = wake_up_task t (irq_gpu s)
          in s\<lparr>irq_gpu := if woken then g else snd (wake_up_task t g)\<rparr>)"

definition sched_thread_wakeup_tasklet :: "(gpu \<Rightarrow> gpu) \<Rightarrow> nat \<Rightarrow> gpu \<Rightarrow> gpu" where
  "sched_thread_wakeup_tasklet jiffy d g =
     (case sched_com_thread (gdev_vds g d) of
        None \<Rightarrow> g
      | Some t \<Rightarrow>
          let (woken, g) = wake_up_task t g
          in if woken then g else snd (wake_up_task t (jiffy g)))"

text \<open>Clearing the interrupt of the graphics engine.\<close>

definition ack_gr :: "irq_state \<Rightarrow> irq_state" where
  "ack_gr s = nv_wr32 0x400500 0x00010001 (nv_wr32 0x400100 1 s)"

definition engine_gr_intr :: "hw \<Rightarrow> u32 \<Rightarrow> irq_state \<Rightarrow> (u32 \<times> irq_state) option" where
  "engine_gr_intr hw stat s =
     (if stat AND 0x3 \<noteq> 0 then
        let (addr, s) = nv_rd32 hw 0x400704 s;
            op = drop_bit 16 (addr AND 0x00007000);
            (v, s) = nv_rd32 hw 0x400708 s;
            cid = v AND 0x1f
        in case sched_entity_ptr (irq_gpu s) ! unat cid of
             None \<Rightarrow> Some (stat, s)
           | Some se \<Rightarrow>
               if stat AND 0x1 \<noteq> 0 then
                 do { e \<leftarrow> ents (irq_gpu s) se;
                      s \<leftarrow> (if launch_count e \<noteq> 0
                           then do { h \<leftarrow> gdev_list_add_tail (Wake se) WakeHead (irq_heap s);
                                     Some (wake_thread (se_gdev e) (ack_gr (s\<lparr>irq_heap := h\<rparr>))) }
                           else Some s);
                      Some (stat AND NOT 0x1, s) }
               else if stat AND 0x2 \<noteq> 0 then Some (stat AND NOT 0x2, s)
               else Some (stat, s)
      else Some (stat, s))"

text \<open>
  \<open>wakeup_list_head_entity\<close> moves the first waiting entity with a launch to the wakeup
  list; its calls are commented out. The scheduler thread is woken only if the entity is the
  container of the node before \<open>head\<close>. The loop also stops at an entity that was freed, where
  reading the count is undefined.
\<close>

definition has_launch :: "gpu \<Rightarrow> nat \<Rightarrow> bool" where
  "has_launch g se = (case ents g se of None \<Rightarrow> True | Some e \<Rightarrow> launch_count e \<noteq> 0)"

definition wakeup_list_head_entity :: "irq_node \<Rightarrow> irq_state \<Rightarrow> irq_state option" where
  "wakeup_list_head_entity head s =
     do { found \<leftarrow> for_each_find Wait (has_launch (irq_gpu s)) WaitHead (irq_heap s);
          case found of
            None \<Rightarrow> Some s
          | Some se \<Rightarrow>
              do { h \<leftarrow> gdev_list_add_tail (Wake se) WakeHead (irq_heap s);
                   h \<leftarrow> gdev_list_del (Wait se) h;
                   let s = ack_gr (s\<lparr>irq_heap := h\<rparr>);
                   e \<leftarrow> ents (irq_gpu s) se;
                   let s = s\<lparr>irq_gpu := upd_ent se (launch_count_update (\<lambda>n. n - 1)) (irq_gpu s)\<rparr>;
                   p \<leftarrow> prv (irq_heap s head);
                   Some (if container (irq_heap s p) = Some se then wake_thread (se_gdev e) s else s) } }"

text \<open>
  The handler: with no entity on the wait list it only disables the interrupt, reads the
  status and calls the driver's handler. Otherwise it also looks at an interrupt of the
  graphics engine; \<open>goto through\<close> skips the rest (the power and the timer interrupt and the
  exit \<open>notcall\<close>), which is dead code.
\<close>

datatype irqreturn = IRQ_NONE | IRQ_HANDLED | IRQ_WAKE_THREAD

definition NVDEV_ENGINE_GR_INTR :: u32 where [resch_consts]: "NVDEV_ENGINE_GR_INTR = 0x1000"

text \<open>The descriptor keeps what the driver had registered: its handler is called with its line and device pointer.\<close>

datatype irq_handler = Driver_handler nat | Gsched_intr

datatype irq_dev = Driver_dev nat | Resch_desc nat

record resch_irq_desc =
  irq_num :: int
  gpu_driver_name :: string
  dev_id_orig :: irq_dev
  gpu_driver_handler :: irq_handler
  desc_sched_flag :: int

type_synonym driver = "irq_handler \<Rightarrow> int \<Rightarrow> irq_dev \<Rightarrow> mmio list \<Rightarrow> irqreturn \<times> mmio list"

definition call_driver :: "driver \<Rightarrow> resch_irq_desc \<Rightarrow> irq_state \<Rightarrow> irqreturn \<times> irq_state" where
  "call_driver drv desc s =
     (let (r, io) = drv (gpu_driver_handler desc) (irq_num desc) (dev_id_orig desc) (irq_io s) in (r, s\<lparr>irq_io := io\<rparr>))"

definition gsched_intr :: "hw \<Rightarrow> driver \<Rightarrow> resch_irq_desc \<Rightarrow> irq_state \<Rightarrow> (irqreturn \<times> irq_state) option" where
  "gsched_intr hw drv desc s =
     (let s = nv_wr32 0x140 0 s
      in if gdev_list_head (Some WaitHead) (irq_heap s) = None then
           let (intr, s) = nv_rd32 hw 0x00100 s
           in Some (call_driver drv desc s)
         else
           let (intr, s) = nv_rd32 hw 0x00100 s
           in do { s \<leftarrow> (if intr AND NVDEV_ENGINE_GR_INTR \<noteq> 0
                        then let (stat, s) = nv_rd32 hw 0x400100 s
                             in map_option snd (engine_gr_intr hw stat s)
                        else Some s);
                   Some (call_driver drv desc s) })"

section \<open>Taking over the interrupt of the driver\<close>

text \<open>
  The actions registered for an interrupt line, in order. An action is registered by
  \<open>request_irq\<close> and removed by \<open>free_irq\<close>, which names it by its device pointer; both are
  functions of the kernel and parameters of the model.
\<close>

record irqaction =
  act_handler :: irq_handler
  act_shared :: bool
  act_name :: string
  act_dev_id :: irq_dev

type_synonym irq_table = "int \<Rightarrow> irqaction list"

record irq_kernel =
  request_irq :: "int \<Rightarrow> irqaction \<Rightarrow> irq_table \<Rightarrow> irq_table"
  free_irq :: "int \<Rightarrow> irq_dev \<Rightarrow> irq_table \<Rightarrow> irq_table"

definition NR_GPU_CARD_LIMIT :: nat where [resch_consts]: "NR_GPU_CARD_LIMIT = 1"

definition gsched_irq_intercept_init :: "irq_kernel \<Rightarrow> nat \<Rightarrow> resch_irq_desc \<Rightarrow> irq_table \<Rightarrow> irq_table" where
  "gsched_irq_intercept_init k d desc T =
     free_irq k (irq_num desc) (dev_id_orig desc)
       (request_irq k (irq_num desc)
          \<lparr>act_handler = Gsched_intr, act_shared = True, act_name = ''resch'', act_dev_id = Resch_desc d\<rparr> T)"

text \<open>
  \<open>gsched_pci_init\<close>: \<open>devs\<close> are the interrupt lines of the display devices the bus search
  returns, \<open>mem\<close> the descriptors \<open>kmalloc\<close> returns, whose failure is not checked. The handler,
  name and device pointer are those of the first action on the line; a line without an
  action is a null pointer. A descriptor is named by its address, its content kept in a map.
\<close>

fun gsched_pci_loop ::
  "irq_kernel \<Rightarrow> (nat \<Rightarrow> nat option) \<Rightarrow> int list \<Rightarrow> nat \<Rightarrow>
   (nat \<Rightarrow> resch_irq_desc option) \<times> nat option list \<times> irq_table \<Rightarrow>
   (nat \<times> (nat \<Rightarrow> resch_irq_desc option) \<times> nat option list \<times> irq_table) option" where
  "gsched_pci_loop k mem [] n s = Some (n, s)"
| "gsched_pci_loop k mem (irq # devs) n (descs, tops, T) =
     (case T irq of [] \<Rightarrow> None
      | act # _ \<Rightarrow>
          do { d \<leftarrow> mem n;
               let desc = \<lparr>irq_num = irq, gpu_driver_name = act_name act, dev_id_orig = act_dev_id act,
                           gpu_driver_handler = act_handler act, desc_sched_flag = 0\<rparr>;
               let T = gsched_irq_intercept_init k d desc T;
               guard_c (n < GDEV_DEVICE_MAX_COUNT);
               let s = (descs(d \<mapsto> desc), tops[n := Some d], T);
               if n + 1 \<ge> NR_GPU_CARD_LIMIT then Some (n + 1, s)
               else gsched_pci_loop k mem devs (n + 1) s })"

definition gsched_pci_init ::
  "irq_kernel \<Rightarrow> (nat \<Rightarrow> nat option) \<Rightarrow> int list \<Rightarrow>
   (nat \<Rightarrow> resch_irq_desc option) \<times> nat option list \<times> irq_table \<Rightarrow>
   (nat \<times> (nat \<Rightarrow> resch_irq_desc option) \<times> nat option list \<times> irq_table) option" where
  "gsched_pci_init k mem devs s = gsched_pci_loop k mem devs 0 s"

fun nouveau_exit_loop ::
  "irq_kernel \<Rightarrow> (nat \<Rightarrow> resch_irq_desc option) \<Rightarrow> nat option list \<Rightarrow> irq_table \<Rightarrow> irq_table option" where
  "nouveau_exit_loop k descs [] T = Some T"
| "nouveau_exit_loop k descs (None # ds) T = nouveau_exit_loop k descs ds T"
| "nouveau_exit_loop k descs (Some d # ds) T =
     do { desc \<leftarrow> descs d;
          let T = request_irq k (irq_num desc)
            \<lparr>act_handler = gpu_driver_handler desc, act_shared = True, act_name = gpu_driver_name desc,
             act_dev_id = dev_id_orig desc\<rparr> T;
          nouveau_exit_loop k descs ds (free_irq k (irq_num desc) (Resch_desc d) T) }"

definition nouveau_intr_exit ::
  "irq_kernel \<Rightarrow> nat \<Rightarrow> (nat \<Rightarrow> resch_irq_desc option) \<Rightarrow> nat option list \<Rightarrow> irq_table \<Rightarrow> irq_table option" where
  "nouveau_intr_exit k count descs tops T =
     do { guard_c (count \<le> length tops); nouveau_exit_loop k descs (take count tops) T }"

section \<open>The interrupt lists\<close>

text \<open>Nothing puts an entity on the wait list: it has no nodes, before and after its initialisation.\<close>

definition no_waiter :: "irq_state \<Rightarrow> bool" where
  "no_waiter s \<longleftrightarrow> gdev_list_head (Some WaitHead) (irq_heap s) = None"

lemma no_waiter_boot: "no_waiter (irq_boot g)"
  by (simp add: no_waiter_def irq_boot_def gdev_list_head_def)

lemma no_waiter_init: "no_waiter (init_irq_lists s)"
  by (simp add: no_waiter_def init_irq_lists_def gdev_list_init_def gdev_list_head_def gdev_list_empty_def)

lemma no_waiter_nodes: "no_waiter s \<Longrightarrow> no_waiter (init_irq_nodes se s)"
  by (auto simp: no_waiter_def init_irq_nodes_def gdev_list_init_def gdev_list_head_def gdev_list_empty_def)

lemma intr_no_waiter:
  assumes "no_waiter s"
  shows "gsched_intr hw drv desc s =
    (let (r, io) = drv (gpu_driver_handler desc) (irq_num desc) (dev_id_orig desc) (irq_io s @ [Wr 0x140 0, Rd 0x00100])
     in Some (r, s\<lparr>irq_io := io\<rparr>))"
  using assms
  by (simp add: gsched_intr_def no_waiter_def nv_wr32_def nv_rd32_def call_driver_def Let_def split: prod.splits)

text \<open>
  What happens to the lists in a run of the module: initialisation, new entities (with any
  change of the scheduler's state in between) and interrupts.
\<close>

inductive irq_step :: "hw \<Rightarrow> driver \<Rightarrow> irq_state \<Rightarrow> irq_state \<Rightarrow> bool" for hw drv where
  lists: "irq_step hw drv s (init_irq_lists s)"
| create: "irq_step hw drv s (init_irq_nodes se (s\<lparr>irq_gpu := g\<rparr>))"
| other: "irq_step hw drv s (s\<lparr>irq_gpu := g\<rparr>)"
| interrupt: "gsched_intr hw drv desc s = Some (r, s') \<Longrightarrow> irq_step hw drv s s'"

lemma no_waiter_step: "irq_step hw drv s s' \<Longrightarrow> no_waiter s \<Longrightarrow> no_waiter s'"
proof (induction rule: irq_step.induct)
  case lists
  show ?case by (rule no_waiter_init)
next
  case (interrupt desc s r s')
  then show ?case by (auto simp: intr_no_waiter no_waiter_def Let_def split: prod.splits)
next
  case (create s se g)
  then show ?case by (intro no_waiter_nodes) (simp add: no_waiter_def)
qed (auto simp: no_waiter_init no_waiter_def)

lemma no_waiter_reachable: "(irq_step hw drv)\<^sup>*\<^sup>* (irq_boot g) s \<Longrightarrow> no_waiter s"
  by (induction rule: rtranclp_induct) (auto intro: no_waiter_boot no_waiter_step)

text \<open>C37: 
  Nothing ever adds a context to the list of waiting ones, whatever contexts are created and whatever the
  rest of the scheduler does: the handler disables the interrupt, reads the status and calls the driver's
  handler with the line and the device pointer the driver had registered, whose answer it returns.
\<close>

theorem interrupts_pass_to_driver:
  assumes "(irq_step hw drv)\<^sup>*\<^sup>* (irq_boot g) s"
  shows "\<exists>r io. drv (gpu_driver_handler desc) (irq_num desc) (dev_id_orig desc) (irq_io s @ [Wr 0x140 0, Rd 0x00100])
      = (r, io) \<and>
    gsched_intr hw drv desc s = Some (r, s\<lparr>irq_io := io\<rparr>)"
  using intr_no_waiter [OF no_waiter_reachable [OF assms], of hw drv desc] by (auto simp: Let_def split: prod.splits)

section \<open>Interrupts of the graphics engine\<close>

text \<open>Only 32 of the 100 contexts can be named by the register.\<close>

lemma cid_range: "unat (v AND 0x1f :: u32) < 32"
proof -
  have "v AND 0x1f = take_bit 5 v" by (simp add: take_bit_eq_mask mask_eq_exp_minus_1)
  then show ?thesis by (simp add: unsigned_take_bit_eq take_bit_nat_less_exp [of 5, simplified])
qed

text \<open>The operation is masked out before it is shifted: it is always 0.\<close>

lemma op_zero: "drop_bit 16 (addr AND 0x00007000 :: u32) = 0"
by (simp add: drop_bit_and)

lemma nv_sel [simp]:
  "irq_heap (nv_wr32 a v s) = irq_heap s" "irq_gpu (nv_wr32 a v s) = irq_gpu s"
  "irq_heap (snd (nv_rd32 hw a s)) = irq_heap s" "irq_gpu (snd (nv_rd32 hw a s)) = irq_gpu s"
  "irq_io (nv_wr32 a v s) = irq_io s @ [Wr a v]"
  "irq_heap (ack_gr s) = irq_heap s" "irq_gpu (ack_gr s) = irq_gpu s"
  "irq_io (ack_gr s) = irq_io s @ [Wr 0x400100 1, Wr 0x400500 0x00010001]"
  by (simp_all add: nv_wr32_def nv_rd32_def ack_gr_def)

lemma wake_thread_sel [simp]: "irq_heap (wake_thread d s) = irq_heap s" "irq_io (wake_thread d s) = irq_io s"
  by (simp_all add: wake_thread_def Let_def split: option.splits prod.splits)

lemma wake_thread_wakes:
  "sched_com_thread (gdev_vds (irq_gpu s) d) = Some t \<Longrightarrow> irq_gpu (wake_thread d s) = snd (wake_up_task t (irq_gpu s))"
  by (simp add: wake_thread_def wake_up_task_def Let_def)

text \<open>The accesses before the entity is known, and the context they name.\<close>

definition intr_reads :: "mmio list \<Rightarrow> mmio list" where
  "intr_reads io = io @ [Rd 0x400704, Rd 0x400708]"

definition intr_cid :: "hw \<Rightarrow> mmio list \<Rightarrow> nat" where
  "intr_cid hw io = unat (hw (io @ [Rd 0x400704]) 0x400708 AND 0x1f)"

lemma low_bit:
  assumes "stat AND 0x1 \<noteq> (0 :: u32)"
  shows "stat AND 0x3 \<noteq> 0"
proof
  assume "stat AND 0x3 = 0"
  then have "(stat AND 0x3) AND 0x1 = 0" by simp
  with assms show False by (simp add: and.assoc)
qed

text \<open>A completion interrupt of a context with a launch.\<close>

theorem completion_wakes_scheduler:
  assumes "stat AND 0x1 \<noteq> 0" "sched_entity_ptr (irq_gpu s) ! intr_cid hw (irq_io s) = Some se"
    and "ents (irq_gpu s) se = Some e" "launch_count e \<noteq> 0"
    and "sched_com_thread (gdev_vds (irq_gpu s) (se_gdev e)) = Some t"
    and "olist Wake (irq_heap s) WakeHead ws" "fresh_node Wake (irq_heap s) se"
  shows "\<exists>s'. engine_gr_intr hw stat s = Some (stat AND NOT 0x1, s') \<and>
    olist Wake (irq_heap s') WakeHead (ws @ [se]) \<and> irq_gpu s' = snd (wake_up_task t (irq_gpu s)) \<and>
    irq_io s' = intr_reads (irq_io s) @ [Wr 0x400100 1, Wr 0x400500 0x00010001]"
proof -
  obtain h where h: "gdev_list_add_tail (Wake se) WakeHead (irq_heap s) = Some h"
    "olist Wake h WakeHead (ws @ [se])"
    using olist_append [OF assms(6) fresh_not_in [OF assms(6,7)]] assms(7) by (auto simp: fresh_node_def)
  have "stat AND 0x3 \<noteq> 0" by (rule low_bit) (rule assms(1))
  with assms h show ?thesis
    by (simp add: engine_gr_intr_def nv_rd32_def intr_cid_def intr_reads_def wake_thread_wakes Let_def)
qed


text \<open>
  Nothing takes an entity off the wakeup list: its next interrupt links a linked node, and
  if it is the first of the list, what is left is no list.
\<close>

theorem second_completion_breaks_list:
  assumes "stat AND 0x1 \<noteq> 0" "sched_entity_ptr (irq_gpu s) ! intr_cid hw (irq_io s) = Some se"
    and "ents (irq_gpu s) se = Some e" "launch_count e \<noteq> 0"
    and "olist Wake (irq_heap s) WakeHead (se # ws)"
  shows "\<exists>s'. engine_gr_intr hw stat s = Some (stat AND NOT 0x1, s') \<and>
    (\<forall>cs. \<not> olist Wake (irq_heap s') WakeHead cs)"
proof -
  have s: "seg (irq_heap s) WakeHead (map Wake (se # ws)) WakeHead" and d: "distinct (se # ws)"
    using assms(5) by (auto simp: olist_def dlist_def distinct_map)
  define q where "q = last (WakeHead # map Wake (se # ws))"
  have q: "q \<noteq> WakeHead" by (simp add: q_def last_map)
  define h where "h = set_prv WakeHead (Some (Wake se)) (set_nxt (Wake se) (Some WakeHead)
    (set_nxt q (Some (Wake se)) (set_prv (Wake se) (Some q) (irq_heap s))))"
  have h: "gdev_list_add_tail (Wake se) WakeHead (irq_heap s) = Some h"
    unfolding gdev_list_add_tail_def h_def q_def by (rule add_prev_run [OF s])
  have l: "nxt (h WakeHead) = Some (Wake se)" "prv (h (Wake se)) = Some q"
    using s q by (simp_all add: h_def)
  have "\<not> olist Wake h WakeHead cs" for cs
    using l q by (cases cs) (auto simp: olist_def dlist_def)
  moreover have "stat AND 0x3 \<noteq> 0" by (rule low_bit) (rule assms(1))
  ultimately show ?thesis using assms h
    by (simp add: engine_gr_intr_def nv_rd32_def intr_cid_def Let_def)
qed

text \<open>The two interrupt lists live in one heap; an operation on one leaves the other alone.\<close>

lemma olist_frame:
  assumes "olist entry h l cs" "\<And>n. n \<in> set (l # map entry cs) \<Longrightarrow> h' n = h n"
  shows "olist entry h' l cs"
proof -
  have "seg h' l (map entry cs) l \<longleftrightarrow> seg h l (map entry cs) l"
    by (rule seg_cong) (use assms(2) in auto)
  with assms show ?thesis by (auto simp: olist_def dlist_def)
qed

lemma add_tail_other:
  assumes "gdev_list_add_tail e l h = Some h'" "n \<noteq> e" "n \<noteq> l" "prv (h l) \<noteq> Some n"
  shows "h' n = h n"
  using assms by (auto simp: gdev_list_add_tail_def gdev_list_add_prev_def Let_def)

lemma del_other:
  assumes "gdev_list_del e h = Some h'" "n \<noteq> e" "prv (h e) \<noteq> Some n" "nxt (h e) \<noteq> Some n"
  shows "h' n = h n"
  using assms by (auto simp: gdev_list_del_def Let_def)

lemma olist_tail_node: "olist entry h l cs \<Longrightarrow> \<exists>n \<in> set (l # map entry cs). prv (h l) = Some n"
  using seg_last [of h l "map entry cs" l] last_in [of l "map entry cs"] by (auto simp: olist_def dlist_def)

lemma olist_links:
  assumes "olist entry h l (xs @ c # ys)"
  shows "\<exists>n \<in> set (l # map entry xs). prv (h (entry c)) = Some n"
    "\<exists>n \<in> set (map entry ys @ [l]). nxt (h (entry c)) = Some n"
proof -
  have s: "seg h l (map entry xs) (entry c)" "seg h (entry c) (map entry ys) l"
    using assms by (auto simp: olist_def dlist_def seg_append)
  show "\<exists>n \<in> set (l # map entry xs). prv (h (entry c)) = Some n"
    using seg_last [OF s(1)] last_in [of l "map entry xs"] by blast
  show "\<exists>n \<in> set (map entry ys @ [l]). nxt (h (entry c)) = Some n"
    using seg_first [OF s(2)] hd_in_set [of "map entry ys @ [l]"] by blast
qed

lemma wait_list_moves:
  assumes "olist Wait h WaitHead (xs @ se # ys)" "olist Wake h WakeHead ws" "fresh_node Wake h se"
  shows "\<exists>h1 h2. gdev_list_add_tail (Wake se) WakeHead h = Some h1 \<and> gdev_list_del (Wait se) h1 = Some h2 \<and>
    olist Wait h2 WaitHead (xs @ ys) \<and> olist Wake h2 WakeHead (ws @ [se])"
proof -
  obtain h1 where h1: "gdev_list_add_tail (Wake se) WakeHead h = Some h1" "olist Wake h1 WakeHead (ws @ [se])"
    using olist_append [OF assms(2) fresh_not_in [OF assms(2,3)]] assms(3) by (auto simp: fresh_node_def)
  have w: "olist Wait h1 WaitHead (xs @ se # ys)"
    by (rule olist_frame [OF assms(1)], rule add_tail_other [OF h1(1)])
       (use olist_tail_node [OF assms(2)] in auto)
  obtain h2 where h2: "gdev_list_del (Wait se) h1 = Some h2" "olist Wait h2 WaitHead (xs @ ys)"
    using olist_delete [OF w] by blast
  have "olist Wake h2 WakeHead (ws @ [se])"
    by (rule olist_frame [OF h1(2)], rule del_other [OF h2(1)])
       (use olist_links [OF w] in auto)
  with h1 h2 show ?thesis by blast
qed

text \<open>
  Moving the first entity with a launch: it changes lists, its count goes down by one, and the
  scheduler thread of its device is woken when it was the first entity that waits.
\<close>

theorem first_waiter_moves:
  assumes "olist Wait (irq_heap s) WaitHead (xs @ se # ys)" "olist Wake (irq_heap s) WakeHead ws"
    and "fresh_node Wake (irq_heap s) se"
    and "\<forall>x \<in> set xs. \<not> has_launch (irq_gpu s) x" "ents (irq_gpu s) se = Some e" "launch_count e \<noteq> 0"
    and "head = Wait (hd (xs @ se # ys))"
  shows "\<exists>s'. wakeup_list_head_entity head s = Some s' \<and>
    olist Wait (irq_heap s') WaitHead (xs @ ys) \<and> olist Wake (irq_heap s') WakeHead (ws @ [se]) \<and>
    (let g = upd_ent se (launch_count_update (\<lambda>n. n - 1)) (irq_gpu s)
     in irq_gpu s' = (if xs = [] then irq_gpu (wake_thread (se_gdev e) (s\<lparr>irq_gpu := g\<rparr>)) else g))"
proof -
  obtain h1 h2 where h: "gdev_list_add_tail (Wake se) WakeHead (irq_heap s) = Some h1"
    "gdev_list_del (Wait se) h1 = Some h2"
    "olist Wait h2 WaitHead (xs @ ys)" "olist Wake h2 WakeHead (ws @ [se])"
    using wait_list_moves [OF assms(1-3)] by blast
  have f: "for_each_find Wait (has_launch (irq_gpu s)) WaitHead (irq_heap s) = Some (Some se)"
    using for_each_terminates [OF assms(1)] assms(4-6) by (simp add: has_launch_def find_append_none)
  define s1 where "s1 = (ack_gr (s\<lparr>irq_heap := h2\<rparr>))
    \<lparr>irq_gpu := upd_ent se (launch_count_update (\<lambda>n. n - 1)) (irq_gpu s)\<rparr>"
  have s1: "irq_heap s1 = h2" "irq_gpu s1 = upd_ent se (launch_count_update (\<lambda>n. n - 1)) (irq_gpu s)"
    by (simp_all add: s1_def)
  obtain p where p: "prv (h2 head) = Some p" "container (h2 p) = Some se \<longleftrightarrow> xs = []"
  proof (cases xs)
    case Nil
    have "container (h2 (Wait se)) = Some se"
      using assms(1) del_container [OF h(2)] add_prev_frame(1) [OF h(1) [unfolded gdev_list_add_tail_def]]
      by (simp add: olist_def)
    moreover have "prv (h2 (Wait se)) = Some (Wait se)"
      using h(2) by (auto simp: gdev_list_del_def Let_def)
    ultimately show ?thesis using that assms(7) Nil by simp
  next
    case (Cons x xs')
    with h(3) have "prv (h2 (Wait x)) = Some WaitHead" "container (h2 WaitHead) = None"
      by (auto simp: olist_def dlist_def)
    with that assms(7) Cons show ?thesis by simp
  qed
  have run: "wakeup_list_head_entity head s =
    Some (if container (h2 p) = Some se then wake_thread (se_gdev e) s1 else s1)"
    using h(1,2) p(1) by (simp add: wakeup_list_head_entity_def f assms(5) s1_def Let_def)
  have "irq_gpu (wake_thread (se_gdev e) s1) =
      irq_gpu (wake_thread (se_gdev e) (s\<lparr>irq_gpu := irq_gpu s1\<rparr>))"
    by (simp add: wake_thread_def Let_def split: option.splits prod.splits)
  with run p(2) h(3,4) s1 show ?thesis by (auto simp: Let_def)
qed


section \<open>The life of the handler\<close>

fun remove_dev :: "irq_dev \<Rightarrow> irqaction list \<Rightarrow> irqaction list" where
  "remove_dev d [] = []"
| "remove_dev d (a # as) = (if act_dev_id a = d then as else a # remove_dev d as)"

text \<open>
  What the kernel documents: \<open>request_irq\<close> adds the action at the end of the line or fails and
  changes nothing, as it must when an action of the line is not shared; the first action with the
  device pointer is removed. The code looks at no result.
\<close>

definition irq_laws :: "irq_kernel \<Rightarrow> bool" where
  "irq_laws k \<longleftrightarrow>
     (\<forall>irq a T. request_irq k irq a T \<in> {T, T(irq := T irq @ [a])} \<and>
        ((\<exists>b \<in> set (T irq). \<not> act_shared b) \<longrightarrow> request_irq k irq a T = T)) \<and>
     (\<forall>irq d T. free_irq k irq d T = T(irq := remove_dev d (T irq)))"

text \<open>A kernel that refuses no shared action on a shared line.\<close>

definition irq_works :: "irq_kernel \<Rightarrow> bool" where
  "irq_works k \<longleftrightarrow> irq_laws k \<and>
     (\<forall>irq a T. act_shared a \<longrightarrow> (\<forall>b \<in> set (T irq). act_shared b) \<longrightarrow> request_irq k irq a T = T(irq := T irq @ [a]))"

lemma remove_dev_append:
  "d \<notin> act_dev_id ` set as \<Longrightarrow> remove_dev d (as @ bs) = as @ remove_dev d bs"
  by (induction as) auto

lemma action_eta:
  "act_shared a \<Longrightarrow> \<lparr>act_handler = act_handler a, act_shared = True, act_name = act_name a, act_dev_id = act_dev_id a\<rparr> = a"
  by (cases a) simp

text \<open>
  Starting and stopping the module on a line whose actions are shared: while it is loaded the
  first action is replaced by its handler, afterwards the line has the same actions, the
  driver's one last.
\<close>

theorem intercept_round_trip:
  assumes "irq_works k" "T irq = act # acts" "\<forall>a \<in> set (act # acts). act_shared a"
    and "act_dev_id act \<notin> act_dev_id ` set acts" "\<forall>n. Resch_desc n \<notin> act_dev_id ` set (act # acts)"
    and "mem 0 = Some d"
  shows "\<exists>descs T1 T2. gsched_pci_init k mem (irq # devs) (\<lambda>_. None, replicate 4 None, T)
      = Some (1, descs, [Some d, None, None, None], T1) \<and>
    map act_handler (T1 irq) = map act_handler acts @ [Gsched_intr] \<and>
    nouveau_intr_exit k 1 descs [Some d, None, None, None] T1 = Some T2 \<and>
    T2 = T(irq := acts @ [act])"
proof -
  have req: "request_irq k irq a S = S(irq := S irq @ [a])" if "act_shared a" "\<forall>b \<in> set (S irq). act_shared b" for a S
    using assms(1) that by (simp add: irq_works_def)
  have fre: "free_irq k irq e S = S(irq := remove_dev e (S irq))" for e S
    using assms(1) by (simp add: irq_works_def irq_laws_def)
  have ours: "Resch_desc d \<noteq> act_dev_id act" "Resch_desc d \<notin> act_dev_id ` set acts"
    using assms(5) by auto
  then show ?thesis
    using assms(2-4,6)
    by (simp add: gsched_pci_init_def gsched_irq_intercept_init_def nouveau_intr_exit_def Let_def
        NR_GPU_CARD_LIMIT_def GDEV_DEVICE_MAX_COUNT_def req fre remove_dev_append
        action_eta numeral_eq_Suc)
qed

text \<open>
  A request that is refused, for want of memory or by a driver whose action is not shared, goes
  unnoticed: the driver's handler is removed all the same and the line is left without one.
\<close>

theorem refused_request_loses_handler:
  assumes "irq_laws k" "T irq = [act]" "mem 0 = Some d"
    and "request_irq k irq \<lparr>act_handler = Gsched_intr, act_shared = True, act_name = ''resch'', act_dev_id = Resch_desc d\<rparr> T = T"
  shows "\<exists>descs T1. gsched_pci_init k mem (irq # devs) (\<lambda>_. None, replicate 4 None, T)
      = Some (1, descs, [Some d, None, None, None], T1) \<and> T1 irq = []"
  using assms
  by (simp add: gsched_pci_init_def gsched_irq_intercept_init_def irq_laws_def Let_def
      NR_GPU_CARD_LIMIT_def GDEV_DEVICE_MAX_COUNT_def numeral_eq_Suc)

theorem exclusive_driver_loses_handler:
  assumes "irq_laws k" "T irq = [act]" "\<not> act_shared act" "mem 0 = Some d"
  shows "\<exists>descs T1. gsched_pci_init k mem (irq # devs) (\<lambda>_. None, replicate 4 None, T)
      = Some (1, descs, [Some d, None, None, None], T1) \<and> T1 irq = []"
  by (rule refused_request_loses_handler) (use assms in \<open>simp_all add: irq_laws_def\<close>)


section \<open>Examples\<close>

definition desc0 :: resch_irq_desc where
  "desc0 = \<lparr>irq_num = 16, gpu_driver_name = ''nvidia'', dev_id_orig = Driver_dev 1,
     gpu_driver_handler = Driver_handler 1, desc_sched_flag = 0\<rparr>"

definition driver0 :: driver where
  "driver0 h irq dev io = (if h = Driver_handler 1 \<and> irq = 16 \<and> dev = Driver_dev 1
     then (IRQ_HANDLED, io @ [Wr 0x140 1]) else (IRQ_NONE, io))"

theorem interrupts_pass_to_driver_witness:
  "gsched_intr (\<lambda>_ _. 0x1000) driver0 desc0 (irq_boot gpu_zero)
     = Some (IRQ_HANDLED, (irq_boot gpu_zero)\<lparr>irq_io := [Wr 0x140 0, Rd 0x00100, Wr 0x140 1]\<rparr>)"
  using interrupts_pass_to_driver [of "\<lambda>_ _. 0x1000" driver0 gpu_zero "irq_boot gpu_zero" desc0]
  by (auto simp: driver0_def desc0_def irq_boot_def)

definition irq_kernel0 :: irq_kernel where
  "irq_kernel0 =
     \<lparr>request_irq = \<lambda>irq a T. if \<forall>b \<in> set (a # T irq). act_shared b then T(irq := T irq @ [a]) else T,
      free_irq = \<lambda>irq d T. T(irq := remove_dev d (T irq))\<rparr>"

lemma irq_kernel0_works: "irq_works irq_kernel0"
  by (auto simp: irq_works_def irq_laws_def irq_kernel0_def)

definition shared_line :: irq_table where
  "shared_line = (\<lambda>_. [])(16 :=
     [\<lparr>act_handler = Driver_handler 1, act_shared = True, act_name = ''nvidia'', act_dev_id = Driver_dev 1\<rparr>,
      \<lparr>act_handler = Driver_handler 2, act_shared = True, act_name = ''snd'', act_dev_id = Driver_dev 2\<rparr>])"

theorem intercept_round_trip_witness:
  "\<exists>descs T1 T2. gsched_pci_init irq_kernel0 (\<lambda>_. Some 7) [16] (\<lambda>_. None, replicate 4 None, shared_line)
      = Some (1, descs, [Some 7, None, None, None], T1) \<and>
    map act_handler (T1 16) = map act_handler (tl (shared_line 16)) @ [Gsched_intr] \<and>
    nouveau_intr_exit irq_kernel0 1 descs [Some 7, None, None, None] T1 = Some T2 \<and>
    T2 = shared_line(16 := tl (shared_line 16) @ [hd (shared_line 16)])"
  by (rule intercept_round_trip [where mem = "\<lambda>_. Some 7" and devs = "[]"])
     (simp_all add: irq_kernel0_works shared_line_def)

end
