(* ===== verification/C_Text.thy ===== *)
theory C_Text
  imports Prelude "HOL-Library.Signed_Division"
begin

text \<open>
  Numbers and lines as text, as the C library writes and reads them: the formats \<open>%u\<close> and
  \<open>%d\<close>, \<open>atoi\<close>, \<open>fgets\<close> and \<open>strtok\<close>.
\<close>

section \<open>Digits\<close>

definition is_digit :: "char \<Rightarrow> bool" where
  "is_digit c \<longleftrightarrow> 48 \<le> (of_char c :: nat) \<and> (of_char c :: nat) < 58"

definition digits_val :: "string \<Rightarrow> nat" where
  "digits_val cs = foldl (\<lambda>n c. 10 * n + (of_char c - 48)) 0 cs"

text \<open>A C string in a buffer ends at the first zero byte.\<close>

definition c_string :: "string \<Rightarrow> string" where
  "c_string cs = takeWhile (\<lambda>c. (of_char c :: nat) \<noteq> 0) cs"

lemma digit_char:
  assumes "k < 10"
  shows "of_char (char_of (48 + k) :: char) = (48 + k :: nat)"
  using assms by (simp add: of_char_of)

lemma dec_digits: "\<forall>c \<in> set (dec n). is_digit c"
proof (induction n rule: dec.induct)
  case (1 n)
  then show ?case by (auto simp: dec.simps [of n] is_digit_def digit_char)
qed

lemma dec_nonempty: "dec n \<noteq> []"
  by (simp add: dec.simps [of n])

lemma digits_val_snoc: "digits_val (cs @ [c]) = 10 * digits_val cs + (of_char c - 48)"
  by (simp add: digits_val_def)

lemma digits_val_dec: "digits_val (dec n) = n"
proof (induction n rule: dec.induct)
  case (1 n)
  show ?case
  proof (cases "n < 10")
    case True
    then show ?thesis by (simp add: dec.simps [of n] digits_val_def digit_char)
  next
    case False
    with 1 show ?thesis by (simp add: dec.simps [of n] digits_val_snoc digit_char)
  qed
qed

lemma digit_not_nul: "is_digit c \<Longrightarrow> (of_char c :: nat) \<noteq> 0"
  by (auto simp: is_digit_def)

lemma dec_not_nul: "c \<in> set (dec n) \<Longrightarrow> (of_char c :: nat) \<noteq> 0"
  using dec_digits [of n] digit_not_nul by blast

lemma dec_length: "n < 10 ^ k \<Longrightarrow> 0 < k \<Longrightarrow> length (dec n) \<le> k"
proof (induction k arbitrary: n)
  case (Suc k)
  show ?case
  proof (cases "n < 10")
    case False
    then have "0 < k" using Suc.prems by (cases k) auto
    moreover have "n div 10 < 10 ^ k" using Suc.prems(1) by (simp add: div_less_iff_less_mult mult.commute)
    ultimately show ?thesis using Suc.IH [of "n div 10"] False by (simp add: dec.simps [of n])
  qed (simp add: dec.simps [of n])
qed simp

section \<open>Signed numbers\<close>

text \<open>The format \<open>%d\<close>.\<close>

definition print_int :: "int \<Rightarrow> string" where
  "print_int i = (if i < 0 then CHR ''-'' # dec (nat (- i)) else dec (nat i))"

definition int_range :: "int \<Rightarrow> bool" where
  "int_range i \<longleftrightarrow> - (2 ^ 31) \<le> i \<and> i < 2 ^ 31"

definition is_space :: "char \<Rightarrow> bool" where
  "is_space c \<longleftrightarrow> (of_char c :: nat) \<in> {9, 10, 11, 12, 13, 32}"

text \<open>\<open>atoi\<close> is undefined when the number does not fit into an \<open>int\<close>.\<close>

definition atoi :: "string \<Rightarrow> int option" where
  "atoi cs =
     (let cs = dropWhile is_space cs;
          neg = (cs \<noteq> [] \<and> hd cs = CHR ''-'');
          cs = (if cs \<noteq> [] \<and> hd cs \<in> {CHR ''-'', CHR ''+''} then tl cs else cs);
          n = int (digits_val (takeWhile is_digit cs));
          i = (if neg then - n else n)
      in if int_range i then Some i else None)"

lemma take_dec: "rest = [] \<or> \<not> is_digit (hd rest) \<Longrightarrow> takeWhile is_digit (dec n @ rest) = dec n"
  using dec_digits [of n] by (cases rest) (auto simp: takeWhile_append2)

lemma dec_hd: "is_digit (hd (dec n))"
  using dec_digits [of n] dec_nonempty [of n] by (cases "dec n") auto

lemma digit_plain: "is_digit c \<Longrightarrow> \<not> is_space c \<and> c \<noteq> CHR ''-'' \<and> c \<noteq> CHR ''+'' \<and> c \<noteq> CHR '' ''  \<and> c \<noteq> CHR '','' \<and>
    of_char c \<noteq> (9 :: nat) \<and> of_char c \<noteq> (10 :: nat)"
  by (auto simp: is_digit_def is_space_def)

text \<open>A printed number followed by something that is no digit reads as the number.\<close>

lemma atoi_print:
  assumes "int_range i" "rest = [] \<or> \<not> is_digit (hd rest)"
  shows "atoi (print_int i @ rest) = Some i"
proof -
  have d: "dropWhile is_space (dec n @ rest) = dec n @ rest" for n
    using digit_plain [OF dec_hd [of n]] dec_nonempty [of n] by (cases "dec n") auto
  have h: "hd (dec n @ rest) \<noteq> CHR ''-''" "hd (dec n @ rest) \<noteq> CHR ''+''" for n
    using digit_plain [OF dec_hd [of n]] dec_nonempty [of n] by (cases "dec n"; simp)+
  show ?thesis
  proof (cases "i < 0")
    case True
    have "atoi (CHR ''-'' # dec (nat (- i)) @ rest) = Some i"
      using assms(1) True
      by (simp add: atoi_def is_space_def take_dec [OF assms(2)] digits_val_dec Let_def)
    with True show ?thesis by (simp add: print_int_def)
  next
    case False
    have "atoi (dec (nat i) @ rest) = Some i"
      using assms(1) False h
      by (simp add: atoi_def d take_dec [OF assms(2)] digits_val_dec Let_def)
    with False show ?thesis by (simp add: print_int_def)
  qed
qed

text \<open>The characters a printed number consists of, and how many there are.\<close>

definition number_char :: "char \<Rightarrow> bool" where
  "number_char c \<longleftrightarrow> is_digit c \<or> c = CHR ''-''"

lemma print_chars: "\<forall>c \<in> set (print_int i). number_char c"
  using dec_digits by (auto simp: print_int_def number_char_def)

lemma number_plain: "number_char c \<Longrightarrow> c \<noteq> CHR '' '' \<and> c \<noteq> CHR '','' \<and> of_char c \<noteq> (0 :: nat) \<and>
    of_char c \<noteq> (9 :: nat) \<and> of_char c \<noteq> (10 :: nat)"
  by (auto simp: number_char_def is_digit_def)

lemma print_nonempty: "print_int i \<noteq> []"
  by (simp add: print_int_def dec_nonempty)

lemma print_length: "int_range i \<Longrightarrow> length (print_int i) \<le> 11"
proof -
  assume "int_range i"
  then have "nat i < 10 ^ 10" "nat (- i) < 10 ^ 10" by (auto simp: int_range_def)
  then show ?thesis using dec_length [of "nat i" 10] dec_length [of "nat (- i)" 10] by (simp add: print_int_def)
qed

section \<open>Lines\<close>

text \<open>
  \<open>fgets\<close> with a buffer of \<open>n\<close> bytes: at most \<open>n - 1\<close> characters, up to and with the end of the
  line; \<open>None\<close> at the end of the file, which leaves the buffer alone.
\<close>

definition fgets :: "nat \<Rightarrow> string \<Rightarrow> (string \<times> string) option" where
  "fgets n fp =
     (if fp = [] then None
      else let l = takeWhile (\<lambda>c. of_char c \<noteq> (10 :: nat)) (take (n - 1) fp);
               k = (if length l < length (take (n - 1) fp) then Suc (length l) else length l)
           in Some (take k fp, drop k fp))"

lemma fgets_shorter: "1 < n \<Longrightarrow> fgets n fp = Some (l, fp') \<Longrightarrow> length fp' < length fp \<and> l \<noteq> []"
  by (cases fp; cases "take (n - 1) fp") (auto simp: fgets_def Let_def split: if_splits)

lemma fgets_line:
  assumes "\<forall>c \<in> set l. of_char c \<noteq> (10 :: nat)" "length l + 1 < n"
  shows "fgets n (l @ char_of (10 :: nat) # fp) = Some (l @ [char_of (10 :: nat)], fp)"
proof -
  have t: "take (n - 1) (l @ char_of (10 :: nat) # fp) = l @ char_of (10 :: nat) # take (n - 2 - length l) fp"
    using assms(2) by (simp add: take_Cons')
  have "takeWhile (\<lambda>c. of_char c \<noteq> (10 :: nat)) (l @ char_of (10 :: nat) # take (n - 2 - length l) fp) = l"
    using assms(1) by (simp add: takeWhile_append2)
  then show ?thesis using assms(2) unfolding fgets_def t Let_def by simp
qed

text \<open>
  \<open>strtok\<close> as its callers use it: the next token, without the separators before it, and what is
  left behind the separator that ends it.
\<close>

definition strtok :: "(char \<Rightarrow> bool) \<Rightarrow> string \<Rightarrow> (string \<times> string) option" where
  "strtok sep s =
     (let s = dropWhile sep s
      in if s = [] then None
         else Some (takeWhile (\<lambda>c. \<not> sep c) s, tl (dropWhile (\<lambda>c. \<not> sep c) s)))"

lemma strtok_token:
  assumes "t \<noteq> []" "\<forall>c \<in> set t. \<not> sep c" "\<forall>c \<in> set seps. sep c"
  shows "sep d \<Longrightarrow> strtok sep (seps @ t @ d # rest) = Some (t, rest)"
    "strtok sep (seps @ t) = Some (t, [])"
proof -
  have d: "dropWhile sep (seps @ t @ r) = t @ r" for r
    using assms by (cases t) (auto simp: dropWhile_append2)
  have e: "takeWhile (\<lambda>c. \<not> sep c) (t @ d # r) = t" "dropWhile (\<lambda>c. \<not> sep c) (t @ d # r) = d # r"
    if "sep d" for d r using assms(2) that by (simp_all add: takeWhile_append2 dropWhile_append2)
  show "sep d \<Longrightarrow> strtok sep (seps @ t @ d # rest) = Some (t, rest)"
    using d [of "d # rest"] e by (simp add: strtok_def)
  show "strtok sep (seps @ t) = Some (t, [])"
    using d [of "[]"] assms(1,2) by (simp add: strtok_def takeWhile_eq_all_conv [THEN iffD2] dropWhile_eq_Nil_conv [THEN iffD2])
qed

end
