(* ===== verification/Gpu_Proc.thy ===== *)
theory Gpu_Proc
  imports Gpu_Context C_Text "HOL-Library.Sublist"
begin

text \<open>
  The files of the GPU scheduler under \<open>/proc/resch\<close> (\<open>src/core/gpu_proc.h\<close>): reading and
  writing the numbers behind them, creating and removing them. The file system is a
  parameter, \<open>procfs\<close>, that may refuse any entry and removes single entries; an entry is named by its path,
  the tree maps paths to what they show.
\<close>

section \<open>Numbers as text\<close>

definition is_blank :: "char \<Rightarrow> bool" where
  "is_blank c \<longleftrightarrow> (of_char c :: nat) \<in> {9, 10, 11, 12, 13, 32, 160}"

text \<open>
  The format \<open>%u\<close> of \<open>sscanf\<close>: white space, then digits; the number is truncated to 32 bits.
  Without a digit nothing is stored.
\<close>

definition scan_u :: "string \<Rightarrow> u32 option" where
  "scan_u cs =
     (let ds = takeWhile is_digit (dropWhile is_blank cs)
      in if ds = [] then None else Some (of_nat (digits_val ds)))"

section \<open>State\<close>

text \<open>What a file shows, and which operations it has.\<close>

datatype proc_val = Gpu_count | Gpu_vcount | Com_bw nat | Mem_bw nat | Mem_sh nat | Period nat
  | Com_bw_used nat | Mem_bw_used nat | Phys_id nat

datatype proc_fops = Val_ro | Val_rw | Util_ro | Util_rw

datatype proc_node = Dir | File proc_fops proc_val

type_synonym pde = "string list"

type_synonym proc_tree = "pde \<Rightarrow> proc_node option"

record procfs =
  proc_mkdir :: "string \<Rightarrow> pde option \<Rightarrow> proc_tree \<Rightarrow> pde option \<times> proc_tree"
  proc_create_data :: "string \<Rightarrow> pde option \<Rightarrow> proc_fops \<Rightarrow> proc_val \<Rightarrow> proc_tree \<Rightarrow> pde option \<times> proc_tree"
  remove_proc_entry :: "string \<Rightarrow> pde option \<Rightarrow> proc_tree \<Rightarrow> proc_tree"

record gdev_proc_vd =
  vd_dir :: "pde option"
  vd_com_bw :: "pde option"
  vd_mem_bw :: "pde option"
  vd_mem_sh :: "pde option"
  vd_period :: "pde option"
  vd_com_bw_used :: "pde option"
  vd_mem_bw_used :: "pde option"
  vd_phys :: "pde option"

text \<open>
  The GPU scheduler with the fields of devices only these files use, and the variables of
  the file; \<open>proc_vd\<close> is the allocated array.
\<close>

record proc_state =
  pgpu :: gpu
  gpu_vcount :: nat
  mem_sh :: "nat \<Rightarrow> u32"
  virt_mem_size :: "nat \<Rightarrow> u64"
  virt_dma_mem_size :: "nat \<Rightarrow> u64"
  phys_mem_size :: "nat \<Rightarrow> u64"
  phys_dma_mem_size :: "nat \<Rightarrow> u64"
  proc_sem :: nat
  gdev_proc :: "pde option"
  proc_dev_count :: "pde option"
  proc_virt_dev_count :: "pde option"
  proc_vd :: "gdev_proc_vd list option"
  proc_tree :: proc_tree

fun proc_get :: "proc_val \<Rightarrow> proc_state \<Rightarrow> u32" where
  "proc_get Gpu_count s = of_nat (gpu_count (pgpu s))"
| "proc_get Gpu_vcount s = of_nat (gpu_vcount s)"
| "proc_get (Com_bw d) s = com_bw (gdev_vds (pgpu s) d)"
| "proc_get (Mem_bw d) s = mem_bw (gdev_vds (pgpu s) d)"
| "proc_get (Mem_sh d) s = mem_sh s d"
| "proc_get (Period d) s = period (gdev_vds (pgpu s) d)"
| "proc_get (Com_bw_used d) s = com_bw_used (gdev_vds (pgpu s) d)"
| "proc_get (Mem_bw_used d) s = mem_bw_used (gdev_vds (pgpu s) d)"
| "proc_get (Phys_id p) s = word_of_int (dev_id (phys_ds (pgpu s) p))"

fun proc_set :: "proc_val \<Rightarrow> u32 \<Rightarrow> proc_state \<Rightarrow> proc_state" where
  "proc_set Gpu_count v s = s\<lparr>pgpu := (pgpu s)\<lparr>gpu_count := unat v\<rparr>\<rparr>"
| "proc_set Gpu_vcount v s = s\<lparr>gpu_vcount := unat v\<rparr>"
| "proc_set (Com_bw d) v s = s\<lparr>pgpu := upd_vd d (com_bw_update (\<lambda>_. v)) (pgpu s)\<rparr>"
| "proc_set (Mem_bw d) v s = s\<lparr>pgpu := upd_vd d (mem_bw_update (\<lambda>_. v)) (pgpu s)\<rparr>"
| "proc_set (Mem_sh d) v s = s\<lparr>mem_sh := (mem_sh s)(d := v)\<rparr>"
| "proc_set (Period d) v s = s\<lparr>pgpu := upd_vd d (period_update (\<lambda>_. v)) (pgpu s)\<rparr>"
| "proc_set (Com_bw_used d) v s = s\<lparr>pgpu := upd_vd d (com_bw_used_update (\<lambda>_. v)) (pgpu s)\<rparr>"
| "proc_set (Mem_bw_used d) v s = s\<lparr>pgpu := upd_vd d (mem_bw_used_update (\<lambda>_. v)) (pgpu s)\<rparr>"
| "proc_set (Phys_id p) v s = s\<lparr>pgpu := upd_phys p (dev_id_update (\<lambda>_. sint v)) (pgpu s)\<rparr>"

section \<open>Reading and writing\<close>

definition GDEV_PROC_MAX_BUF :: nat where [resch_consts]: "GDEV_PROC_MAX_BUF = 64"

definition PROC_EFAULT :: int where [resch_consts]: "PROC_EFAULT = 14"
definition PROC_EINVAL :: int where [resch_consts]: "PROC_EINVAL = 22"

definition gdev_proc_val_show :: "proc_val \<Rightarrow> proc_state \<Rightarrow> string" where
  "gdev_proc_val_show v s = dec (unat (proc_get v s))"

text \<open>
  \<open>gdev_proc_val_write\<close>: \<open>copy n\<close> is what \<open>copy_from_user\<close> delivers of the first \<open>n\<close> bytes,
  \<open>None\<close> when it fails.
\<close>

definition gdev_proc_val_write ::
  "proc_val \<Rightarrow> (nat \<Rightarrow> string option) \<Rightarrow> nat \<Rightarrow> proc_state \<Rightarrow> int \<times> proc_state" where
  "gdev_proc_val_write v copy count s =
     (let count = (if count > GDEV_PROC_MAX_BUF - 1 then GDEV_PROC_MAX_BUF - 1 else count)
      in case copy count of
           None \<Rightarrow> (- PROC_EFAULT, s)
         | Some kbuf \<Rightarrow>
             (int count,
              case scan_u (c_string kbuf) of None \<Rightarrow> s | Some n \<Rightarrow> proc_set v n s))"

text \<open>\<open>down\<close> on a semaphore that is 0 does not return.\<close>

definition down :: "proc_state \<Rightarrow> proc_state option" where
  "down s = (if proc_sem s = 0 then None else Some (s\<lparr>proc_sem := proc_sem s - 1\<rparr>))"

definition up :: "proc_state \<Rightarrow> proc_state" where
  "up s = s\<lparr>proc_sem := proc_sem s + 1\<rparr>"

definition gdev_proc_util_show :: "proc_val \<Rightarrow> proc_state \<Rightarrow> (string \<times> proc_state) option" where
  "gdev_proc_util_show v s =
     do { s \<leftarrow> down s; let t = gdev_proc_val_show v s; Some (t, up s) }"

definition resize_mem :: "nat \<Rightarrow> proc_state \<Rightarrow> proc_state" where
  "resize_mem i s =
     (case parent (gdev_vds (pgpu s) i) of
        None \<Rightarrow> s
      | Some p \<Rightarrow>
          let m = phys_mem_size s p * ucast (mem_sh s i) div 100;
              s = (if virt_mem_size s i \<noteq> m then s\<lparr>virt_mem_size := (virt_mem_size s)(i := m)\<rparr> else s);
              m = phys_dma_mem_size s p * ucast (mem_sh s i) div 100
          in if virt_dma_mem_size s i \<noteq> m
             then s\<lparr>virt_dma_mem_size := (virt_dma_mem_size s)(i := m)\<rparr> else s)"

text \<open>
  \<open>count\<close> is unsigned, so the test for an error of \<open>gdev_proc_val_write\<close> is never true; the
  result is read as signed again when it is returned.
\<close>

definition gdev_proc_util_write ::
  "proc_val \<Rightarrow> (nat \<Rightarrow> string option) \<Rightarrow> nat \<Rightarrow> proc_state \<Rightarrow> (int \<times> proc_state) option" where
  "gdev_proc_util_write v copy count s =
     do { let old = proc_get v s;
          s \<leftarrow> down s;
          let (count, s) = gdev_proc_val_write v copy count s;
          let s = (if proc_get v s > 100 then proc_set v old s else s);
          let s = fold resize_mem [0..<gpu_vcount s] s;
          Some (count, up s) }"


section \<open>Creating and removing the files\<close>

text \<open>\<open>proc_vd[vid]\<close>: the array may be missing or too short.\<close>

definition vd_get :: "nat \<Rightarrow> proc_state \<Rightarrow> gdev_proc_vd option" where
  "vd_get i s = do { vds \<leftarrow> proc_vd s; guard_c (i < length vds); Some (vds ! i) }"

definition vd_upd :: "nat \<Rightarrow> (gdev_proc_vd \<Rightarrow> gdev_proc_vd) \<Rightarrow> proc_state \<Rightarrow> proc_state" where
  "vd_upd i f s = s\<lparr>proc_vd := map_option (\<lambda>vds. vds[i := f (vds ! i)]) (proc_vd s)\<rparr>"

definition no_vd :: gdev_proc_vd where
  "no_vd = \<lparr>vd_dir = None, vd_com_bw = None, vd_mem_bw = None, vd_mem_sh = None, vd_period = None,
     vd_com_bw_used = None, vd_mem_bw_used = None, vd_phys = None\<rparr>"

definition rm :: "procfs \<Rightarrow> string \<Rightarrow> pde option \<Rightarrow> proc_state \<Rightarrow> proc_state" where
  "rm k name dir s = s\<lparr>proc_tree := remove_proc_entry k name dir (proc_tree s)\<rparr>"

definition mk_file ::
  "procfs \<Rightarrow> string \<Rightarrow> pde option \<Rightarrow> proc_fops \<Rightarrow> proc_val \<Rightarrow> proc_state \<Rightarrow> pde option \<times> proc_state" where
  "mk_file k name dir fops v s =
     (let (e, t) = proc_create_data k name dir fops v (proc_tree s) in (e, s\<lparr>proc_tree := t\<rparr>))"

text \<open>\<open>gdev_proc_create\<close> with its labels; \<open>mem\<close> tells whether \<open>kzalloc\<close> succeeds.\<close>

definition fail_proc_dev_count :: "procfs \<Rightarrow> proc_state \<Rightarrow> int \<times> proc_state" where
  "fail_proc_dev_count k s = (- PROC_EINVAL, (rm k ''resch'' None s)\<lparr>gdev_proc := None\<rparr>)"

definition fail_proc_virt_dev_count :: "procfs \<Rightarrow> proc_state \<Rightarrow> int \<times> proc_state" where
  "fail_proc_virt_dev_count k s =
     fail_proc_dev_count k (rm k ''resch/device_count'' (gdev_proc s) s)"

definition fail_alloc_proc_vd :: "procfs \<Rightarrow> proc_state \<Rightarrow> int \<times> proc_state" where
  "fail_alloc_proc_vd k s =
     fail_proc_virt_dev_count k (rm k ''resch/virtual_device_count'' (gdev_proc s) s)"

definition gdev_proc_create :: "procfs \<Rightarrow> bool \<Rightarrow> proc_state \<Rightarrow> int \<times> proc_state" where
  "gdev_proc_create k mem s =
     (let (d, t) = proc_mkdir k ''resch'' None (proc_tree s);
          s = s\<lparr>gdev_proc := d, proc_tree := t\<rparr>
      in if d = None then (- PROC_EINVAL, s) else
      let (e, s) = mk_file k ''device_count'' d Val_ro Gpu_count s;
          s = s\<lparr>proc_dev_count := e\<rparr>
      in if e = None then fail_proc_dev_count k s else
      let (e, s) = mk_file k ''virtual_device_count'' d Val_ro Gpu_vcount s;
          s = s\<lparr>proc_virt_dev_count := e\<rparr>
      in if e = None then fail_proc_virt_dev_count k s else
      if \<not> mem then fail_alloc_proc_vd k (s\<lparr>proc_vd := None\<rparr>)
      else (0, s\<lparr>proc_vd := Some (replicate (gpu_vcount s) no_vd)\<rparr>))"

text \<open>
  The seven files of a virtual device: name, operations, number, and the field of
  \<open>struct gdev_proc_vd\<close> the entry goes to.
\<close>

type_synonym vd_file =
  "string \<times> proc_fops \<times> proc_val \<times> (gdev_proc_vd \<Rightarrow> pde option) \<times> (pde option \<Rightarrow> gdev_proc_vd \<Rightarrow> gdev_proc_vd)"

definition vd_files :: "nat \<Rightarrow> vd_file list" where
  "vd_files vid =
     [(''compute_bandwidth'', Util_rw, Com_bw vid, vd_com_bw, \<lambda>e. vd_com_bw_update (\<lambda>_. e)),
      (''memory_bandwidth'', Util_rw, Mem_bw vid, vd_mem_bw, \<lambda>e. vd_mem_bw_update (\<lambda>_. e)),
      (''memory_share'', Util_rw, Mem_sh vid, vd_mem_sh, \<lambda>e. vd_mem_sh_update (\<lambda>_. e)),
      (''period'', Val_rw, Period vid, vd_period, \<lambda>e. vd_period_update (\<lambda>_. e)),
      (''compute_bandwidth_used'', Util_ro, Com_bw_used vid, vd_com_bw_used, \<lambda>e. vd_com_bw_used_update (\<lambda>_. e)),
      (''memory_bandwidth_used'', Util_ro, Mem_bw_used vid, vd_mem_bw_used, \<lambda>e. vd_mem_bw_used_update (\<lambda>_. e))]"

definition phys_file :: "nat \<Rightarrow> vd_file" where
  "phys_file p = (''phys'', Val_ro, Phys_id p, vd_phys, \<lambda>e. vd_phys_update (\<lambda>_. e))"

fun mk_vd_files :: "procfs \<Rightarrow> nat \<Rightarrow> vd_file list \<Rightarrow> proc_state \<Rightarrow> (bool \<times> proc_state) option" where
  "mk_vd_files k vid [] s = Some (True, s)"
| "mk_vd_files k vid ((name, fops, v, sel, upd) # fs) s =
     do { vd \<leftarrow> vd_get vid s;
          let (e, s) = mk_file k name (vd_dir vd) fops v s;
          let s = vd_upd vid (upd e) s;
          if e = None then Some (False, s) else mk_vd_files k vid fs s }"

text \<open>
  The label \<open>fail_proc_vd\<close>. The loop runs over all devices, but looks at the device that
  failed except for the last three files; the names start at the wrong directory.
\<close>

definition rm_if :: "procfs \<Rightarrow> pde option \<Rightarrow> string \<Rightarrow> pde option \<Rightarrow> proc_state \<Rightarrow> proc_state" where
  "rm_if k present name dir s = (if present \<noteq> None then rm k name dir s else s)"

definition fail_step :: "procfs \<Rightarrow> gdev_proc_vd \<Rightarrow> nat \<Rightarrow> gdev_proc_vd \<Rightarrow> proc_state \<Rightarrow> proc_state" where
  "fail_step k a i b s =
     fold (\<lambda>(present, name, dir). rm_if k present name dir)
       [(vd_dir a, ''resch/vd'' @ dec i, gdev_proc s),
        (vd_com_bw a, ''compute_bandwidth'', vd_dir a),
        (vd_mem_bw a, ''memory_bandwidth'', vd_dir a),
        (vd_mem_sh a, ''memory_share'', vd_dir a),
        (vd_period a, ''period'', vd_dir a),
        (vd_com_bw_used b, ''compute_bandwidth_used'', vd_dir b),
        (vd_mem_bw_used b, ''memory_bandwidth_used'', vd_dir b),
        (vd_phys b, ''phys'', vd_dir b)] s"

fun fail_loop :: "procfs \<Rightarrow> nat \<Rightarrow> nat list \<Rightarrow> proc_state \<Rightarrow> proc_state option" where
  "fail_loop k vid [] s = Some s"
| "fail_loop k vid (i # is) s =
     do { a \<leftarrow> vd_get vid s; b \<leftarrow> vd_get i s; fail_loop k vid is (fail_step k a i b s) }"

definition fail_proc_vd :: "procfs \<Rightarrow> nat \<Rightarrow> proc_state \<Rightarrow> (int \<times> proc_state) option" where
  "fail_proc_vd k vid s =
     do { s \<leftarrow> fail_loop k vid [0..<gpu_vcount s] s;
          let s = s\<lparr>proc_vd := None\<rparr>;
          let s = rm k ''resch/virtual_device_count'' (gdev_proc s) s;
          let s = rm k ''resch/device_count'' (gdev_proc s) s;
          let s = rm k ''resch'' None s;
          Some (- PROC_EINVAL, s\<lparr>gdev_proc := None\<rparr>) }"

definition gdev_proc_minor_create :: "procfs \<Rightarrow> nat \<Rightarrow> proc_state \<Rightarrow> (int \<times> proc_state) option" where
  "gdev_proc_minor_create k vid s =
     do { _ \<leftarrow> vd_get vid s;
          let (d, t) = proc_mkdir k (''vd'' @ dec vid) (gdev_proc s) (proc_tree s);
          let s = vd_upd vid (vd_dir_update (\<lambda>_. d)) (s\<lparr>proc_tree := t\<rparr>);
          if d = None then fail_proc_vd k vid s else
          do { (ok, s) \<leftarrow> mk_vd_files k vid (vd_files vid) s;
               if \<not> ok then fail_proc_vd k vid s else
               do { p \<leftarrow> parent (gdev_vds (pgpu s) vid);
                    (ok, s) \<leftarrow> mk_vd_files k vid [phys_file p] s;
                    if ok then Some (0, s\<lparr>proc_sem := 1\<rparr>) else fail_proc_vd k vid s } } }"

definition delete_step :: "procfs \<Rightarrow> gdev_proc_vd \<Rightarrow> nat \<Rightarrow> proc_state \<Rightarrow> proc_state" where
  "delete_step k vd i s =
     fold (\<lambda>(name, dir). rm k name dir)
       [(''compute_bandwidth'', vd_dir vd), (''memory_bandwidth'', vd_dir vd), (''memory_share'', vd_dir vd),
        (''period'', vd_dir vd), (''compute_bandwidth_used'', vd_dir vd), (''memory_bandwidth_used'', vd_dir vd),
        (''phys'', vd_dir vd), (''vd'' @ dec i, gdev_proc s)] s"

fun delete_loop :: "procfs \<Rightarrow> nat list \<Rightarrow> proc_state \<Rightarrow> proc_state option" where
  "delete_loop k [] s = Some s"
| "delete_loop k (i # is) s =
     do { vd \<leftarrow> vd_get i s;
          if vd_dir vd = None then delete_loop k is s
          else delete_loop k is (vd_upd i (vd_dir_update (\<lambda>_. None)) (delete_step k vd i s)) }"

definition gdev_proc_delete :: "procfs \<Rightarrow> proc_state \<Rightarrow> proc_state option" where
  "gdev_proc_delete k s =
     do { s \<leftarrow> (if gdev_proc s = None then Some s
               else
                 do { s \<leftarrow> (if proc_vd s = None then Some s else delete_loop k [0..<gpu_vcount s] s);
                      let s = rm k ''virtual_device_count'' (gdev_proc s) s;
                      let s = rm k ''device_count'' (gdev_proc s) s;
                      let s = rm k ''resch'' None s;
                      Some (s\<lparr>gdev_proc := None\<rparr>) });
          Some (s\<lparr>proc_vd := None\<rparr>) }"

text \<open>\<open>gsched_init\<close> creates the files and does not look at the results.\<close>

fun proc_minors :: "procfs \<Rightarrow> nat list \<Rightarrow> proc_state \<Rightarrow> proc_state option" where
  "proc_minors k [] s = Some s"
| "proc_minors k (i # is) s = do { (r, s) \<leftarrow> gdev_proc_minor_create k i s; proc_minors k is s }"

definition gsched_init_proc :: "procfs \<Rightarrow> bool \<Rightarrow> proc_state \<Rightarrow> proc_state option" where
  "gsched_init_proc k mem s =
     (let (r, s) = gdev_proc_create k mem s in proc_minors k [0..<gpu_vcount s] s)"


section \<open>What is written is read back\<close>

lemma digit_not: "is_digit c \<Longrightarrow> \<not> is_blank c" "is_digit c \<Longrightarrow> (of_char c :: nat) \<noteq> 0"
  by (auto simp: is_digit_def is_blank_def)

text \<open>A number followed by a character that is no digit reads as the number, truncated to 32 bits.\<close>

lemma scan_dec:
  assumes "rest = [] \<or> \<not> is_digit (hd rest)"
  shows "scan_u (dec n @ rest) = Some (of_nat n)"
proof -
  have b: "dropWhile is_blank (dec n @ rest) = dec n @ rest"
    using dec_nonempty [of n] dec_digits [of n] digit_not(1) by (cases "dec n") auto
  have "takeWhile is_digit (dec n @ rest) = dec n @ takeWhile is_digit rest"
    using dec_digits [of n] by (simp add: takeWhile_append2)
  also have "takeWhile is_digit rest = []" using assms by (cases rest) auto
  finally show ?thesis using b dec_nonempty [of n] by (simp add: scan_u_def digits_val_dec)
qed

lemma c_string_dec: "c_string (dec n @ [char_of (10 :: nat)]) = dec n @ [char_of (10 :: nat)]"
proof -
  have "\<forall>c \<in> set (dec n). (of_char c :: nat) \<noteq> 0" using dec_digits digit_not(2) by blast
  then show ?thesis by (simp add: c_string_def takeWhile_append2)
qed

lemma scan_line: "scan_u (c_string (dec n @ [char_of (10 :: nat)])) = Some (of_nat n)"
  unfolding c_string_dec by (rule scan_dec) (simp add: is_digit_def)

text \<open>Files of a device, as opposed to the two counts and the identity of a physical device.\<close>

definition vd_val :: "proc_val \<Rightarrow> bool" where
  "vd_val v = (case v of Gpu_count \<Rightarrow> False | Gpu_vcount \<Rightarrow> False | Phys_id _ \<Rightarrow> False | _ \<Rightarrow> True)"

lemma get_set [simp]: "vd_val v \<Longrightarrow> proc_get v (proc_set v n s) = n"
  by (cases v) (simp_all add: vd_val_def)

lemma set_sel [simp]:
  "proc_sem (proc_set v n s) = proc_sem s" "proc_tree (proc_set v n s) = proc_tree s"
  "proc_vd (proc_set v n s) = proc_vd s" "gdev_proc (proc_set v n s) = gdev_proc s"
  "vd_val v \<Longrightarrow> gpu_vcount (proc_set v n s) = gpu_vcount s"
  by (cases v; simp add: vd_val_def)+

lemma resize_get [simp]:
  "proc_get v (resize_mem i s) = proc_get v s" "proc_sem (resize_mem i s) = proc_sem s"
  by (cases v; simp add: resize_mem_def Let_def split: option.splits)
     (simp add: resize_mem_def Let_def split: option.splits)

lemma fold_resize_get [simp]:
  "proc_get v (fold resize_mem is s) = proc_get v s" "proc_sem (fold resize_mem is s) = proc_sem s"
  by (induction "is" arbitrary: s) simp_all

lemma up_down_get [simp]:
  "proc_get v (s\<lparr>proc_sem := x\<rparr>) = proc_get v s" "proc_get v (up s) = proc_get v s"
  by (cases v; simp add: up_def)+

definition share_file :: "proc_val \<Rightarrow> bool" where
  "share_file v = (case v of Com_bw _ \<Rightarrow> True | Mem_bw _ \<Rightarrow> True | Mem_sh _ \<Rightarrow> True | _ \<Rightarrow> False)"

lemma share_vd: "share_file v \<Longrightarrow> vd_val v"
  by (cases v) (simp_all add: share_file_def vd_val_def)

text \<open>C36: 
  Writing a line with a number to a bandwidth or share file: a number up to 100 (after
  truncation to 32 bits) is stored and read back, a larger one leaves the old value.
\<close>

theorem share_write_then_read:
  assumes "share_file v" "proc_sem s = 1" "copy (length (dec n) + 1) = Some (dec n @ [char_of (10 :: nat)])"
    and "length (dec n) < 63"
  shows "\<exists>s'. gdev_proc_util_write v copy (length (dec n) + 1) s = Some (int (length (dec n) + 1), s') \<and>
    proc_sem s' = 1 \<and>
    gdev_proc_util_show v s' =
      Some (dec (if n mod 2 ^ 32 \<le> 100 then n mod 2 ^ 32 else unat (proc_get v s)), s')"
proof -
  have c: "(of_nat n :: u32) > 100 \<longleftrightarrow> \<not> n mod 2 ^ 32 \<le> 100"
    by (simp add: word_less_nat_alt unat_of_nat not_le)
  have w: "gdev_proc_val_write v copy (length (dec n) + 1) (s\<lparr>proc_sem := 0\<rparr>) =
      (int (length (dec n) + 1), proc_set v (of_nat n) (s\<lparr>proc_sem := 0\<rparr>))"
    using assms(3,4) by (simp add: gdev_proc_val_write_def GDEV_PROC_MAX_BUF_def scan_line)
  define s1 where "s1 = proc_set v (of_nat n) (s\<lparr>proc_sem := 0\<rparr>)"
  define s2 where "s2 = (if proc_get v s1 > 100 then proc_set v (proc_get v s) s1 else s1)"
  define s' where "s' = up (fold resize_mem [0..<gpu_vcount s2] s2)"
  have run: "gdev_proc_util_write v copy (length (dec n) + 1) s = Some (int (length (dec n) + 1), s')"
    using assms(2) w by (simp add: gdev_proc_util_write_def down_def s'_def s2_def s1_def Let_def)
  have sem: "proc_sem s' = 1" by (simp add: s'_def s2_def s1_def up_def)
  have "proc_get v s' = (if n mod 2 ^ 32 \<le> 100 then of_nat n else proc_get v s)"
    using share_vd [OF assms(1)] c by (simp add: s'_def s2_def s1_def)
  then have "unat (proc_get v s') = (if n mod 2 ^ 32 \<le> 100 then n mod 2 ^ 32 else unat (proc_get v s))"
    by (simp add: unat_of_nat)
  with run sem show ?thesis
    by (simp add: gdev_proc_util_show_def gdev_proc_val_show_def down_def up_def)
qed


text \<open>A share never exceeds 100, whatever is written; a failing copy changes no number.\<close>

theorem share_bounded:
  assumes "share_file v" "gdev_proc_util_write v copy count s = Some (r, s')" "proc_get v s \<le> 100"
  shows "proc_get v s' \<le> 100"
proof -
  obtain s0 where s0: "down s = Some s0" using assms(2) by (auto simp: gdev_proc_util_write_def)
  obtain c s1 where s: "gdev_proc_val_write v copy count s0 = (c, s1)" by fastforce
  have "proc_get v s' = (if proc_get v s1 > 100 then proc_get v s else proc_get v s1)"
    using assms(2) s0 s share_vd [OF assms(1)] by (auto simp: gdev_proc_util_write_def Let_def)
  with assms(3) show ?thesis by (auto simp: not_less)
qed

section \<open>The tree\<close>

fun split_path :: "string \<Rightarrow> string list" where
  "split_path [] = [[]]"
| "split_path (c # cs) =
     (if c = CHR ''/'' then [] # split_path cs
      else (c # hd (split_path cs)) # tl (split_path cs))"

definition dir_path :: "pde option \<Rightarrow> pde" where
  "dir_path d = (case d of None \<Rightarrow> [] | Some p \<Rightarrow> p)"

text \<open>
  What the kernel documents: an entry is refused, which changes nothing, or made below its
  directory; the entry of a name relative to a directory is removed, but nothing below it, and
  a name without an entry changes nothing.
\<close>

definition procfs_ok :: "procfs \<Rightarrow> bool" where
  "procfs_ok k \<longleftrightarrow>
     (\<forall>n d t. proc_mkdir k n d t \<in> {(None, t), (Some (dir_path d @ [n]), t(dir_path d @ [n] \<mapsto> Dir))}) \<and>
     (\<forall>n d f v t. proc_create_data k n d f v t \<in>
        {(None, t), (Some (dir_path d @ [n]), t(dir_path d @ [n] \<mapsto> File f v))}) \<and>
     (\<forall>n d t. remove_proc_entry k n d t = t(dir_path d @ split_path n := None))"

definition ours :: "pde \<Rightarrow> bool" where
  "ours q \<longleftrightarrow> (\<exists>p. q = ''resch'' # p)"

lemma rm_sel [simp]:
  "gdev_proc (rm k n d s) = gdev_proc s" "proc_vd (rm k n d s) = proc_vd s" "gpu_vcount (rm k n d s) = gpu_vcount s"
  "gdev_proc (rm_if k b n d s) = gdev_proc s" "proc_vd (rm_if k b n d s) = proc_vd s"
  "gpu_vcount (rm_if k b n d s) = gpu_vcount s"
  by (simp_all add: rm_def rm_if_def)

lemma mkdir_cases:
  "procfs_ok k \<Longrightarrow> proc_mkdir k n d t \<in> {(None, t), (Some (dir_path d @ [n]), t(dir_path d @ [n] \<mapsto> Dir))}"
  by (simp add: procfs_ok_def)

lemma vd_upd_sel [simp]:
  "gdev_proc (vd_upd i f s) = gdev_proc s" "gpu_vcount (vd_upd i f s) = gpu_vcount s"
  "proc_tree (vd_upd i f s) = proc_tree s" "pgpu (vd_upd i f s) = pgpu s" "(proc_vd (vd_upd i f s) = None) = (proc_vd s = None)"
  by (simp_all add: vd_upd_def)

lemma vd_get_upd:
  "vd_get j (vd_upd i f s) = (if j = i then map_option f (vd_get i s) else vd_get j s)"
  by (cases "proc_vd s") (auto simp: vd_get_def vd_upd_def guard_c_def)

lemma vd_get_cong: "proc_vd s = proc_vd s' \<Longrightarrow> vd_get i s = vd_get i s'"
  by (simp add: vd_get_def)

text \<open>The fields of a device with a directory may be anything.\<close>

definition keeps_dir :: "vd_file list \<Rightarrow> bool" where
  "keeps_dir fs \<longleftrightarrow> (\<forall>(n, fops, v, sel, upd) \<in> set fs. \<forall>e vd. vd_dir (upd e vd) = vd_dir vd)"

lemma files_keep_dir: "keeps_dir (vd_files vid)" "keeps_dir [phys_file p]"
  by (simp_all add: keeps_dir_def vd_files_def phys_file_def)

section \<open>Errors are not looked at\<close>


lemma create_error_no_array:
  assumes "gdev_proc_create k mem s = (r, c)" "r \<noteq> 0" "proc_vd s = None"
  shows "proc_vd c = None"
  using assms
  by (auto simp: gdev_proc_create_def Let_def mk_file_def fail_proc_dev_count_def
      fail_proc_virt_dev_count_def fail_alloc_proc_vd_def split: prod.splits if_splits)

lemma minors_none: "proc_vd s = None \<Longrightarrow> is \<noteq> [] \<Longrightarrow> proc_minors k is s = None"
  by (cases "is") (simp_all add: gdev_proc_minor_create_def vd_get_def)

text \<open>
  \<open>gsched_init\<close> goes on when the directory or its files could not be made: it then uses the
  array that is not there.
\<close>

theorem failed_proc_create_oopses:
  assumes "fst (gdev_proc_create k mem s) \<noteq> 0" "proc_vd s = None" "gpu_vcount (snd (gdev_proc_create k mem s)) > 0"
  shows "gsched_init_proc k mem s = None"
proof -
  obtain r c where c: "gdev_proc_create k mem s = (r, c)" by fastforce
  with assms create_error_no_array [OF c] have "proc_minors k [0..<gpu_vcount c] c = None"
    by (intro minors_none) auto
  with c show ?thesis by (simp add: gsched_init_proc_def)
qed

lemma failed_minor_oopses:
  assumes "gdev_proc_minor_create k i s = Some (r, s')" "r \<noteq> 0"
  shows "proc_minors k (i # j # is) s = None"
proof -
  have f: "proc_vd s'' = None" if "fail_proc_vd k i x = Some (r, s'')" for x s''
    using that by (auto simp: fail_proc_vd_def Let_def)
  obtain d t1 where mk: "proc_mkdir k (''vd'' @ dec i) (gdev_proc s) (proc_tree s) = (d, t1)" by fastforce
  have "proc_vd s' = None"
    using assms mk
    by (auto simp: gdev_proc_minor_create_def Let_def split: if_splits simp del: mk_vd_files.simps intro: f)
  from minors_none [OF this, of "j # is"] assms(1) show ?thesis by (simp del: proc_minors.simps add: proc_minors.simps(2) [of k i])
qed

section \<open>All files\<close>

text \<open>A file system that refuses nothing.\<close>

definition procfs_works :: "procfs \<Rightarrow> bool" where
  "procfs_works k \<longleftrightarrow> procfs_ok k \<and> (\<forall>n d t. fst (proc_mkdir k n d t) \<noteq> None) \<and>
     (\<forall>n d f v t. fst (proc_create_data k n d f v t) \<noteq> None)"

lemma works_mkdir:
  assumes "procfs_works k"
  shows "proc_mkdir k n d t = (Some (dir_path d @ [n]), t(dir_path d @ [n] \<mapsto> Dir))"
proof -
  have "fst (proc_mkdir k n d t) \<noteq> None" "procfs_ok k" using assms by (simp_all add: procfs_works_def)
  with mkdir_cases [of k n d t] show ?thesis by auto
qed

lemma works_create:
  assumes "procfs_works k"
  shows "mk_file k n d f v s =
    (Some (dir_path d @ [n]), s\<lparr>proc_tree := (proc_tree s)(dir_path d @ [n] \<mapsto> File f v)\<rparr>)"
proof -
  have "proc_create_data k n d f v (proc_tree s) \<in> {(None, proc_tree s),
      (Some (dir_path d @ [n]), (proc_tree s)(dir_path d @ [n] \<mapsto> File f v))}"
    "fst (proc_create_data k n d f v (proc_tree s)) \<noteq> None"
    using assms by (simp_all add: procfs_works_def procfs_ok_def)
  then show ?thesis by (auto simp: mk_file_def split: prod.splits)
qed

text \<open>What a list of files adds to the tree.\<close>

fun add_files :: "pde \<Rightarrow> vd_file list \<Rightarrow> proc_tree \<Rightarrow> proc_tree" where
  "add_files D [] t = t"
| "add_files D ((n, f, v, sel, upd) # fs) t = add_files D fs (t(D @ [n] \<mapsto> File f v))"

lemma add_files_other: "\<forall>n \<in> fst ` set fs. q \<noteq> D @ [n] \<Longrightarrow> add_files D fs t q = t q"
  by (induction D fs t rule: add_files.induct) auto

lemma add_files_in:
  assumes "distinct (map fst fs)" "(n, f, v, sel, upd) \<in> set fs"
  shows "add_files D fs t (D @ [n]) = Some (File f v)"
  using assms
proof (induction D fs t rule: add_files.induct)
  case (2 D n' f' v' sel' upd' fs t)
  show ?case
  proof (cases "(n, f, v, sel, upd) = (n', f', v', sel', upd')")
    case True
    with 2 add_files_other [of fs "D @ [n]" D "t(D @ [n] \<mapsto> File f v)"] show ?thesis by auto
  next
    case False
    with 2(3) have "(n, f, v, sel, upd) \<in> set fs" by auto
    moreover have "distinct (map fst fs)" using 2(2) by simp
    ultimately have "add_files D fs (t(D @ [n'] \<mapsto> File f' v')) (D @ [n]) = Some (File f v)"
      by (intro 2(1))
    then show ?thesis by (simp only: add_files.simps)
  qed
qed simp

lemma mk_vd_files_works:
  assumes "procfs_works k" "vd_get vid s = Some vd" "vd_dir vd = Some D" "keeps_dir fs"
  shows "\<exists>s'. mk_vd_files k vid fs s = Some (True, s') \<and> proc_tree s' = add_files D fs (proc_tree s) \<and>
    gdev_proc s' = gdev_proc s \<and> pgpu s' = pgpu s \<and> gpu_vcount s' = gpu_vcount s \<and>
    (\<exists>vd'. vd_get vid s' = Some vd' \<and> vd_dir vd' = Some D) \<and> (\<forall>j. j \<noteq> vid \<longrightarrow> vd_get j s' = vd_get j s)"
  using assms(2-)
proof (induction fs arbitrary: s vd)
  case Nil
  then show ?case by auto
next
  case (Cons x fs)
  obtain n f v sel upd where x: "x = (n, f, v, sel, upd)" by (cases x)
  define s1 where "s1 = vd_upd vid (upd (Some (D @ [n]))) (s\<lparr>proc_tree := (proc_tree s)(D @ [n] \<mapsto> File f v)\<rparr>)"
  have kd: "vd_dir (upd e w) = vd_dir w" "keeps_dir fs" for e w using Cons.prems(3) by (auto simp: keeps_dir_def x)
  have g0: "vd_get j (s\<lparr>proc_tree := T\<rparr>) = vd_get j s" for j T by (rule vd_get_cong) simp
  have g: "vd_get vid s1 = Some (upd (Some (D @ [n])) vd)" "\<forall>j. j \<noteq> vid \<longrightarrow> vd_get j s1 = vd_get j s"
    using Cons.prems(1) by (simp_all add: s1_def vd_get_upd g0)
  have "mk_vd_files k vid (x # fs) s = mk_vd_files k vid fs s1"
    using Cons.prems(1,2) by (simp add: x works_create [OF assms(1)] dir_path_def s1_def)
  moreover obtain s' where "mk_vd_files k vid fs s1 = Some (True, s')"
    "proc_tree s' = add_files D fs (proc_tree s1)" "gdev_proc s' = gdev_proc s1" "pgpu s' = pgpu s1"
    "gpu_vcount s' = gpu_vcount s1" "\<exists>vd'. vd_get vid s' = Some vd' \<and> vd_dir vd' = Some D"
    "\<forall>j. j \<noteq> vid \<longrightarrow> vd_get j s' = vd_get j s1"
    using Cons.IH [OF g(1) _ kd(2)] kd(1) Cons.prems(2) by auto
  ultimately show ?case using g(2) by (auto simp: x s1_def)
qed


definition vd_path :: "nat \<Rightarrow> pde" where
  "vd_path i = [''resch'', ''vd'' @ dec i]"

lemma dec_inj: "dec i = dec j \<longleftrightarrow> i = j"
  using digits_val_dec by metis

lemma vd_path_inj: "vd_path i = vd_path j \<longleftrightarrow> i = j"
  by (simp add: vd_path_def dec_inj)

definition all_vd_files :: "nat \<Rightarrow> nat \<Rightarrow> vd_file list" where
  "all_vd_files i p = vd_files i @ [phys_file p]"

lemma add_files_append: "add_files D (fs @ gs) t = add_files D gs (add_files D fs t)"
proof (induction fs arbitrary: t)
  case (Cons x fs)
  then show ?case by (cases x) (simp add: fun_upd_def)
qed simp

lemma distinct_names: "distinct (map fst (all_vd_files i p))"
  by (simp add: all_vd_files_def vd_files_def phys_file_def)

text \<open>The entries of a device and of the module.\<close>

definition vd_names :: "string set" where
  "vd_names = {''compute_bandwidth'', ''memory_bandwidth'', ''memory_share'', ''period'',
     ''compute_bandwidth_used'', ''memory_bandwidth_used'', ''phys''}"

definition vd_paths :: "nat \<Rightarrow> pde set" where
  "vd_paths i = insert (vd_path i) ((\<lambda>n. vd_path i @ [n]) ` vd_names)"

definition made :: "nat \<Rightarrow> pde set" where
  "made n = {[''resch''], [''resch'', ''device_count''], [''resch'', ''virtual_device_count'']} \<union> (\<Union>i<n. vd_paths i)"

lemma made_ours: "q \<in> made n \<Longrightarrow> ours q"
  by (auto simp: made_def vd_paths_def vd_path_def ours_def)

lemma names_of_files: "fst ` set (all_vd_files i p) = vd_names"
  by (auto simp: all_vd_files_def vd_files_def phys_file_def vd_names_def)

lemma minor_tree_unmade:
  "q \<notin> vd_paths i \<Longrightarrow> add_files (vd_path i) (all_vd_files i p) (t(vd_path i \<mapsto> Dir)) q = t q"
  by (subst add_files_other) (auto simp: names_of_files vd_paths_def)

lemma minor_works:
  assumes "procfs_works k" "vd_get i s = Some vd" "gdev_proc s = Some [''resch'']"
    and "parent (gdev_vds (pgpu s) i) = Some p"
  shows "\<exists>s'. gdev_proc_minor_create k i s = Some (0, s') \<and> proc_sem s' = 1 \<and>
    proc_tree s' = add_files (vd_path i) (all_vd_files i p) ((proc_tree s)(vd_path i \<mapsto> Dir)) \<and>
    gdev_proc s' = gdev_proc s \<and> pgpu s' = pgpu s \<and> gpu_vcount s' = gpu_vcount s \<and>
    map_option vd_dir (vd_get i s') = Some (Some (vd_path i)) \<and> (\<forall>j. j \<noteq> i \<longrightarrow> vd_get j s' = vd_get j s)"
proof -
  define s1 where "s1 = vd_upd i (vd_dir_update (\<lambda>_. Some (vd_path i)))
    (s\<lparr>proc_tree := (proc_tree s)(vd_path i \<mapsto> Dir)\<rparr>)"
  have g0: "vd_get j (s\<lparr>proc_tree := T\<rparr>) = vd_get j s" for j T by (rule vd_get_cong) simp
  have g1: "vd_get i s1 = Some (vd\<lparr>vd_dir := Some (vd_path i)\<rparr>)" "\<forall>j. j \<noteq> i \<longrightarrow> vd_get j s1 = vd_get j s"
    using assms(2) by (simp_all add: s1_def vd_get_upd g0)
  obtain s2 vd2 where s2: "mk_vd_files k i (vd_files i) s1 = Some (True, s2)"
    "proc_tree s2 = add_files (vd_path i) (vd_files i) (proc_tree s1)"
    "gdev_proc s2 = gdev_proc s1" "pgpu s2 = pgpu s1" "gpu_vcount s2 = gpu_vcount s1"
    "vd_get i s2 = Some vd2" "vd_dir vd2 = Some (vd_path i)" "\<forall>j. j \<noteq> i \<longrightarrow> vd_get j s2 = vd_get j s1"
    using mk_vd_files_works [OF assms(1) g1(1) _ files_keep_dir(1), of "vd_path i" i] by auto
  obtain s3 where s3: "mk_vd_files k i [phys_file p] s2 = Some (True, s3)"
    "proc_tree s3 = add_files (vd_path i) [phys_file p] (proc_tree s2)"
    "gdev_proc s3 = gdev_proc s2" "pgpu s3 = pgpu s2" "gpu_vcount s3 = gpu_vcount s2"
    "map_option vd_dir (vd_get i s3) = Some (Some (vd_path i))" "\<forall>j. j \<noteq> i \<longrightarrow> vd_get j s3 = vd_get j s2"
    using mk_vd_files_works [OF assms(1) s2(6,7) files_keep_dir(2), of p] by auto
  have m: "proc_mkdir k (''vd'' @ dec i) (gdev_proc s) (proc_tree s) =
      (Some (vd_path i), (proc_tree s)(vd_path i \<mapsto> Dir))"
    using works_mkdir [OF assms(1)] by (simp add: assms(3) dir_path_def vd_path_def)
  have "gdev_proc_minor_create k i s = Some (0, s3\<lparr>proc_sem := 1\<rparr>)"
    unfolding gdev_proc_minor_create_def m assms(2)
    by (simp only: bind.simps Let_def prod.case option.distinct if_False s1_def [symmetric] s2(1,4) simp_thms
        if_True)
       (simp add: s1_def assms(4) s3(1) del: mk_vd_files.simps)
  moreover have "vd_get j (s3\<lparr>proc_sem := 1\<rparr>) = vd_get j s3" for j by (rule vd_get_cong) simp
  ultimately show ?thesis using s2 s3 g1(2) by (auto simp: s1_def all_vd_files_def add_files_append)
qed

lemma minors_work:
  assumes "procfs_works k" "gdev_proc s = Some [''resch'']" "distinct is"
    and "\<forall>i \<in> set is. vd_get i s \<noteq> None \<and> parent (gdev_vds (pgpu s) i) = Some (ph i)"
  shows "\<exists>s'. proc_minors k is s = Some s' \<and>
    (\<forall>i \<in> set is. \<exists>t. \<forall>q. prefix (vd_path i) q \<longrightarrow>
       proc_tree s' q = add_files (vd_path i) (all_vd_files i (ph i)) t q) \<and>
    (\<forall>q. (\<forall>i \<in> set is. q \<notin> vd_paths i) \<longrightarrow> proc_tree s' q = proc_tree s q) \<and>
    gdev_proc s' = Some [''resch''] \<and> gpu_vcount s' = gpu_vcount s \<and>
    (\<forall>i \<in> set is. map_option vd_dir (vd_get i s') = Some (Some (vd_path i))) \<and>
    (\<forall>j. j \<notin> set is \<longrightarrow> vd_get j s' = vd_get j s)"
  using assms(2-)
proof (induction "is" arbitrary: s)
  case (Cons i "is")
  then obtain vd where vd: "vd_get i s = Some vd" by auto
  obtain s1 where s1: "gdev_proc_minor_create k i s = Some (0, s1)"
    "proc_tree s1 = add_files (vd_path i) (all_vd_files i (ph i)) ((proc_tree s)(vd_path i \<mapsto> Dir))"
    "gdev_proc s1 = Some [''resch'']" "pgpu s1 = pgpu s" "gpu_vcount s1 = gpu_vcount s"
    "map_option vd_dir (vd_get i s1) = Some (Some (vd_path i))" "\<forall>j. j \<noteq> i \<longrightarrow> vd_get j s1 = vd_get j s"
    using minor_works [OF assms(1) vd Cons.prems(1), of "ph i"] Cons.prems(1,3) by auto
  have i: "i \<notin> set is" "distinct is" using Cons.prems(2) by auto
  have pre: "\<forall>j \<in> set is. vd_get j s1 \<noteq> None \<and> parent (gdev_vds (pgpu s1) j) = Some (ph j)"
  proof
    fix j assume j: "j \<in> set is"
    then have "j \<noteq> i" using i(1) by blast
    with j s1(4,7) Cons.prems(3) show "vd_get j s1 \<noteq> None \<and> parent (gdev_vds (pgpu s1) j) = Some (ph j)" by simp
  qed
  obtain s' where s': "proc_minors k is s1 = Some s'"
    "\<forall>i \<in> set is. \<exists>t. \<forall>q. prefix (vd_path i) q \<longrightarrow>
       proc_tree s' q = add_files (vd_path i) (all_vd_files i (ph i)) t q"
    "\<forall>q. (\<forall>i \<in> set is. q \<notin> vd_paths i) \<longrightarrow> proc_tree s' q = proc_tree s1 q"
    "gdev_proc s' = Some [''resch'']" "gpu_vcount s' = gpu_vcount s1"
    "\<forall>i \<in> set is. map_option vd_dir (vd_get i s') = Some (Some (vd_path i))"
    "\<forall>j. j \<notin> set is \<longrightarrow> vd_get j s' = vd_get j s1"
    using Cons.IH [OF s1(3) i(2) pre] by auto
  have apart: "q \<notin> vd_paths j" if "prefix (vd_path i) q" "j \<in> set is" for j q
  proof
    assume "q \<in> vd_paths j"
    with that(1) have "vd_path i = vd_path j"
      by (auto simp: prefix_def vd_path_def vd_paths_def)
    with that(2) i(1) show False by (auto simp: vd_path_inj)
  qed
  have "proc_tree s' q = add_files (vd_path i) (all_vd_files i (ph i)) ((proc_tree s)(vd_path i \<mapsto> Dir)) q"
    if "prefix (vd_path i) q" for q
    using s'(3) s1(2) apart [OF that] by simp
  moreover have "proc_tree s' q = proc_tree s q" if "\<forall>j \<in> set (i # is). q \<notin> vd_paths j" for q
    using s'(3) s1(2) that by (simp add: minor_tree_unmade)
  moreover have "map_option vd_dir (vd_get i s') = Some (Some (vd_path i))" using s'(7) i(1) s1(6) by simp
  moreover have "vd_get j s' = vd_get j s" if "j \<notin> set (i # is)" for j using that s'(7) s1(7) by simp
  ultimately show ?case using s1(1,5) s' by (auto simp del: prefix_def)
qed auto


lemma create_works:
  assumes "procfs_works k" "proc_vd s = None"
  shows "\<exists>c. gdev_proc_create k True s = (0, c) \<and> gdev_proc c = Some [''resch''] \<and> pgpu c = pgpu s \<and>
    gpu_vcount c = gpu_vcount s \<and> proc_vd c = Some (replicate (gpu_vcount s) no_vd) \<and>
    proc_tree c = (proc_tree s)([''resch''] \<mapsto> Dir, [''resch'', ''device_count''] \<mapsto> File Val_ro Gpu_count,
      [''resch'', ''virtual_device_count''] \<mapsto> File Val_ro Gpu_vcount)"
  by (simp add: gdev_proc_create_def works_mkdir [OF assms(1)] works_create [OF assms(1)] dir_path_def Let_def)

text \<open>Removing: one entry each.\<close>

lemma split_path_name: "CHR ''/'' \<notin> set n \<Longrightarrow> split_path n = [n]"
  by (induction n) auto

lemma slash_names:
  "split_path ''resch/vd0'' = [''resch'', ''vd0'']" "split_path ''resch/device_count'' = [''resch'', ''device_count'']"
  "split_path ''resch/virtual_device_count'' = [''resch'', ''virtual_device_count'']"
proof -
  have s: "split_path (a @ CHR ''/'' # b) = a # split_path b" if "CHR ''/'' \<notin> set a" for a b
    using that by (induction a) auto
  show "split_path ''resch/vd0'' = [''resch'', ''vd0'']"
    using s [of "''resch''" "''vd0''"] by (simp add: split_path_name del: split_path.simps)
  show "split_path ''resch/device_count'' = [''resch'', ''device_count'']"
    using s [of "''resch''" "''device_count''"] by (simp add: split_path_name del: split_path.simps)
  show "split_path ''resch/virtual_device_count'' = [''resch'', ''virtual_device_count'']"
    using s [of "''resch''" "''virtual_device_count''"] by (simp add: split_path_name del: split_path.simps)
qed

lemma dec_0: "dec 0 = ''0''"
  by code_simp

lemma split_dec: "split_path (CHR ''v'' # CHR ''d'' # dec i) = [CHR ''v'' # CHR ''d'' # dec i]"
proof -
  have "CHR ''/'' \<notin> set (dec i)" using dec_digits [of i] by (auto simp: is_digit_def)
  then show ?thesis by (intro split_path_name) auto
qed

lemma fold_rm:
  assumes "procfs_ok k"
  shows "fold (\<lambda>(n, d). rm k n d) xs s =
    s\<lparr>proc_tree := \<lambda>q. if q \<in> (\<lambda>(n, d). dir_path d @ split_path n) ` set xs then None else proc_tree s q\<rparr>"
proof (induction xs arbitrary: s)
  case (Cons x xs)
  then show ?case using assms by (cases x) (auto simp: rm_def procfs_ok_def fun_eq_iff)
qed simp

lemma delete_step_tree:
  assumes "procfs_ok k" "vd_dir vd = Some (vd_path i)" "gdev_proc s = Some [''resch'']"
  shows "delete_step k vd i s = s\<lparr>proc_tree := \<lambda>q. if q \<in> vd_paths i then None else proc_tree s q\<rparr>"
proof -
  have "vd_paths i = {vd_path i @ [''compute_bandwidth''], vd_path i @ [''memory_bandwidth''],
      vd_path i @ [''memory_share''], vd_path i @ [''period''], vd_path i @ [''compute_bandwidth_used''],
      vd_path i @ [''memory_bandwidth_used''], vd_path i @ [''phys''], [''resch'', ''vd'' @ dec i]}"
    by (simp add: vd_paths_def vd_names_def vd_path_def insert_commute)
  then show ?thesis unfolding delete_step_def
    by (subst fold_rm [OF assms(1)]) (simp add: assms(2,3) dir_path_def split_path_name split_dec del: dec.simps split_path.simps)
qed

lemma delete_loop_tree:
  assumes "procfs_ok k" "gdev_proc s = Some [''resch'']" "distinct is"
    and "\<forall>i \<in> set is. map_option vd_dir (vd_get i s) = Some (Some (vd_path i))"
  shows "\<exists>s'. delete_loop k is s = Some s' \<and> gdev_proc s' = Some [''resch''] \<and> pgpu s' = pgpu s \<and>
    proc_tree s' = (\<lambda>q. if q \<in> (\<Union>i \<in> set is. vd_paths i) then None else proc_tree s q)"
  using assms(2-)
proof (induction "is" arbitrary: s)
  case (Cons i "is")
  then obtain vd where vd: "vd_get i s = Some vd" "vd_dir vd = Some (vd_path i)" by auto
  define s1 where "s1 = vd_upd i (vd_dir_update (\<lambda>_. None)) (delete_step k vd i s)"
  have d: "delete_step k vd i s = s\<lparr>proc_tree := \<lambda>q. if q \<in> vd_paths i then None else proc_tree s q\<rparr>"
    using delete_step_tree [OF assms(1) vd(2) Cons.prems(1)] .
  have g: "vd_get j (delete_step k vd i s) = vd_get j s" for j by (rule vd_get_cong) (simp add: d)
  have "\<forall>j \<in> set is. map_option vd_dir (vd_get j s1) = Some (Some (vd_path j))"
    using Cons.prems(2,3) by (auto simp: s1_def vd_get_upd g)
  then obtain s' where "delete_loop k is s1 = Some s'" "gdev_proc s' = Some [''resch'']" "pgpu s' = pgpu s1"
    "proc_tree s' = (\<lambda>q. if q \<in> (\<Union>i \<in> set is. vd_paths i) then None else proc_tree s1 q)"
    using Cons.IH [of s1] Cons.prems(1,2) by (auto simp: s1_def d)
  with vd show ?case by (auto simp: s1_def d fun_eq_iff)
qed simp

text \<open>The files as \<open>gsched_init\<close> leaves them over a tree \<open>t\<close>.\<close>

definition files_up :: "proc_tree \<Rightarrow> proc_state \<Rightarrow> bool" where
  "files_up t s \<longleftrightarrow> gdev_proc s = Some [''resch''] \<and> proc_vd s \<noteq> None \<and>
     (\<forall>i < gpu_vcount s. map_option vd_dir (vd_get i s) = Some (Some (vd_path i))) \<and>
     (\<forall>q. q \<notin> made (gpu_vcount s) \<longrightarrow> proc_tree s q = t q)"

lemma files_up_pgpu [simp]: "files_up t (s\<lparr>pgpu := g\<rparr>) = files_up t s"
proof -
  have "vd_get i (s\<lparr>pgpu := g\<rparr>) = vd_get i s" for i by (rule vd_get_cong) simp
  then show ?thesis by (simp add: files_up_def)
qed

lemma delete_restores:
  assumes "procfs_ok k" "files_up t s" "\<forall>q. ours q \<longrightarrow> t q = None"
  shows "\<exists>s'. gdev_proc_delete k s = Some s' \<and> proc_tree s' = t \<and> gdev_proc s' = None \<and> proc_vd s' = None \<and>
    pgpu s' = pgpu s"
proof -
  note up = assms(2) [unfolded files_up_def]
  obtain s3 where s3: "delete_loop k [0..<gpu_vcount s] s = Some s3" "gdev_proc s3 = Some [''resch'']" "pgpu s3 = pgpu s"
    "proc_tree s3 = (\<lambda>q. if q \<in> (\<Union>i \<in> set [0..<gpu_vcount s]. vd_paths i) then None else proc_tree s q)"
    using delete_loop_tree [OF assms(1) _ distinct_upt, of s 0 "gpu_vcount s"] up by auto
  define s4 where "s4 = rm k ''resch'' None (rm k ''device_count'' (gdev_proc s3)
    (rm k ''virtual_device_count'' (gdev_proc s3) s3))"
  have "s4 = fold (\<lambda>(n, d). rm k n d)
      [(''virtual_device_count'', gdev_proc s3), (''device_count'', gdev_proc s3), (''resch'', None)] s3"
    by (simp add: s4_def)
  then have s4: "s4 = s3\<lparr>proc_tree := \<lambda>q. if q \<in> {[''resch'', ''virtual_device_count''], [''resch'', ''device_count''],
      [''resch'']} then None else proc_tree s3 q\<rparr>"
    by (simp only: fold_rm [OF assms(1)]) (simp add: s3(2) dir_path_def split_path_name insert_commute del: split_path.simps)
  have "gdev_proc_delete k s = Some (s4\<lparr>gdev_proc := None, proc_vd := None\<rparr>)"
    using up s3(1) by (auto simp: gdev_proc_delete_def s4_def Let_def)
  moreover have "proc_tree s4 q = t q" for q
  proof -
    have "proc_tree s4 q = (if q \<in> made (gpu_vcount s) then None else proc_tree s q)"
      by (auto simp: s4 s3(4) made_def)
    then show ?thesis using assms(3) made_ours [of q "gpu_vcount s"] up by (cases "q \<in> made (gpu_vcount s)") auto
  qed
  ultimately show ?thesis by (auto simp: s4 s3(3) fun_eq_iff)
qed

lemma init_proc_works:
  assumes "procfs_works k" "proc_vd s = None" "\<forall>i < gpu_vcount s. parent (gdev_vds (pgpu s) i) = Some (ph i)"
  shows "\<exists>s1. gsched_init_proc k True s = Some s1 \<and> gpu_vcount s1 = gpu_vcount s \<and> files_up (proc_tree s) s1 \<and>
    proc_tree s1 [''resch'', ''device_count''] = Some (File Val_ro Gpu_count) \<and>
    (\<forall>i < gpu_vcount s. \<forall>(n, f, v, _) \<in> set (all_vd_files i (ph i)).
       proc_tree s1 [''resch'', ''vd'' @ dec i, n] = Some (File f v))"
proof -
  define N where "N = gpu_vcount s"
  obtain c where c: "gdev_proc_create k True s = (0, c)" "gdev_proc c = Some [''resch'']" "pgpu c = pgpu s"
    "gpu_vcount c = N" "proc_vd c = Some (replicate N no_vd)"
    "proc_tree c = (proc_tree s)([''resch''] \<mapsto> Dir, [''resch'', ''device_count''] \<mapsto> File Val_ro Gpu_count,
      [''resch'', ''virtual_device_count''] \<mapsto> File Val_ro Gpu_vcount)"
    using create_works [OF assms(1,2)] by (auto simp: N_def)
  have v: "vd_get i c \<noteq> None \<longleftrightarrow> i < N" for i by (simp add: vd_get_def c(5) guard_c_def)
  obtain s1 where s1: "proc_minors k [0..<N] c = Some s1"
    "\<forall>i \<in> set [0..<N]. \<exists>t. \<forall>q. prefix (vd_path i) q \<longrightarrow>
       proc_tree s1 q = add_files (vd_path i) (all_vd_files i (ph i)) t q"
    "\<forall>q. (\<forall>i \<in> set [0..<N]. q \<notin> vd_paths i) \<longrightarrow> proc_tree s1 q = proc_tree c q"
    "gdev_proc s1 = Some [''resch'']" "gpu_vcount s1 = gpu_vcount c"
    "\<forall>i \<in> set [0..<N]. map_option vd_dir (vd_get i s1) = Some (Some (vd_path i))"
    "\<forall>j. j \<notin> set [0..<N] \<longrightarrow> vd_get j s1 = vd_get j c"
    using minors_work [OF assms(1) c(2) distinct_upt, of 0 N ph] v assms(3) c(3) by (auto simp: N_def)
  have dc: "[''resch'', ''device_count''] \<notin> vd_paths i" for i
    by (auto simp: vd_paths_def vd_path_def)
  have "proc_tree s1 [''resch'', ''vd'' @ dec i, n] = Some (File f v)"
    if i: "i < N" and m: "(n, f, v, r) \<in> set (all_vd_files i (ph i))" for i n f v r
  proof -
    obtain sel upd where r: "r = (sel, upd)" by (cases r)
    have "i \<in> set [0..<N]" using i by simp
    from bspec [OF s1(2) this] obtain t
      where "\<forall>q. prefix (vd_path i) q \<longrightarrow> proc_tree s1 q = add_files (vd_path i) (all_vd_files i (ph i)) t q" ..
    then have "proc_tree s1 (vd_path i @ [n]) = add_files (vd_path i) (all_vd_files i (ph i)) t (vd_path i @ [n])"
      by simp
    then have "proc_tree s1 (vd_path i @ [n]) = Some (File f v)"
      using add_files_in [OF distinct_names m [unfolded r]] by simp
    then show ?thesis by (simp add: vd_path_def)
  qed
  moreover have "proc_vd s1 \<noteq> None"
  proof (cases "N = 0")
    case True
    then show ?thesis using s1(1) c(5) by simp
  next
    case False
    then have "vd_get 0 s1 \<noteq> None" using s1(6) by fastforce
    then show ?thesis by (auto simp: vd_get_def)
  qed
  moreover have "proc_tree s1 q = proc_tree s q" if "q \<notin> made N" for q
    using s1(3) that by (auto simp: made_def c(6))
  ultimately have "files_up (proc_tree s) s1" using s1(4-6) c(4) by (simp add: files_up_def)
  moreover have "gsched_init_proc k True s = Some s1" using c(1,4) s1(1) by (simp add: gsched_init_proc_def)
  moreover have "proc_tree s1 [''resch'', ''device_count''] = Some (File Val_ro Gpu_count)"
    using s1(3) dc by (simp add: c(6))
  ultimately show ?thesis using s1(5) c(4) N_def
    \<open>\<And>v r n i f. i < N \<Longrightarrow> (n, f, v, r) \<in> set (all_vd_files i (ph i)) \<Longrightarrow>
       proc_tree s1 [''resch'', ''vd'' @ dec i, n] = Some (File f v)\<close>
    by auto
qed

text \<open>
  When nothing is refused the module comes up with both counts and, for every virtual device, a
  directory with its seven files, each showing its own number; when they are removed nothing
  of it is left and nothing else has changed.
\<close>

theorem proc_round_trip:
  assumes "procfs_works k" "proc_vd s = None" "\<forall>i < gpu_vcount s. parent (gdev_vds (pgpu s) i) = Some (ph i)"
    and "\<forall>q. ours q \<longrightarrow> proc_tree s q = None"
  shows "\<exists>s1 s2. gsched_init_proc k True s = Some s1 \<and> gdev_proc_delete k s1 = Some s2 \<and>
    (\<forall>i < gpu_vcount s. \<forall>(n, f, v, _) \<in> set (all_vd_files i (ph i)).
       proc_tree s1 [''resch'', ''vd'' @ dec i, n] = Some (File f v)) \<and>
    proc_tree s2 = proc_tree s \<and> gdev_proc s2 = None \<and> proc_vd s2 = None"
proof -
  obtain s1 where s1: "gsched_init_proc k True s = Some s1" "files_up (proc_tree s) s1"
    "\<forall>i < gpu_vcount s. \<forall>(n, f, v, _) \<in> set (all_vd_files i (ph i)).
       proc_tree s1 [''resch'', ''vd'' @ dec i, n] = Some (File f v)"
    using init_proc_works [OF assms(1-3)] by blast
  have "procfs_ok k" using assms(1) by (simp add: procfs_works_def)
  from delete_restores [OF this s1(2) assms(4)] s1(1,3) show ?thesis by blast
qed


section \<open>Examples\<close>

definition procfs0 :: procfs where
  "procfs0 =
     \<lparr>proc_mkdir = \<lambda>n d t. (Some (dir_path d @ [n]), t(dir_path d @ [n] \<mapsto> Dir)),
      proc_create_data = \<lambda>n d f v t. (Some (dir_path d @ [n]), t(dir_path d @ [n] \<mapsto> File f v)),
      remove_proc_entry = \<lambda>n d t. t(dir_path d @ split_path n := None)\<rparr>"

definition proc0 :: "gpu \<Rightarrow> proc_state" where
  "proc0 g =
     \<lparr>pgpu = g, gpu_vcount = 4, mem_sh = \<lambda>_. 0, virt_mem_size = \<lambda>_. 0, virt_dma_mem_size = \<lambda>_. 0,
      phys_mem_size = \<lambda>_. 0, phys_dma_mem_size = \<lambda>_. 0, proc_sem = 0, gdev_proc = None,
      proc_dev_count = None, proc_virt_dev_count = None, proc_vd = None, proc_tree = (\<lambda>_. None)\<rparr>"

lemma procfs0_works: "procfs_works procfs0"
  by (auto simp: procfs_works_def procfs_ok_def procfs0_def)

definition gpu_on0 :: gpu where
  "gpu_on0 = gpu_zero\<lparr>gdev_vds := \<lambda>_. zero_dev\<lparr>parent := Some 0, com_bw := 25\<rparr>\<rparr>"

theorem share_write_then_read_witness:
  "\<exists>s'. gdev_proc_util_write (Com_bw 1) (\<lambda>n. Some (take n (dec 40 @ [char_of (10 :: nat)]))) (length (dec 40) + 1)
      ((proc0 gpu_on0)\<lparr>proc_sem := 1\<rparr>) = Some (int (length (dec 40) + 1), s') \<and>
    proc_sem s' = 1 \<and>
    gdev_proc_util_show (Com_bw 1) s' =
      Some (dec (if (40 :: nat) mod 2 ^ 32 \<le> 100 then 40 mod 2 ^ 32
        else unat (proc_get (Com_bw 1) ((proc0 gpu_on0)\<lparr>proc_sem := 1\<rparr>))), s')"
  by (rule share_write_then_read) (simp_all add: share_file_def dec.simps [of 40] dec.simps [of 4])


theorem proc_round_trip_witness:
  "\<exists>s1 s2. gsched_init_proc procfs0 True (proc0 gpu_on0) = Some s1 \<and> gdev_proc_delete procfs0 s1 = Some s2 \<and>
    proc_tree s2 = proc_tree (proc0 gpu_on0) \<and> gdev_proc s2 = None \<and> proc_vd s2 = None"
  using proc_round_trip [OF procfs0_works, of "proc0 gpu_on0" "\<lambda>_. 0"]
  by (auto simp: proc0_def gpu_on0_def)

text \<open>
  A file refused at the last device: the cleanup starts at the wrong names and leaves entries
  below a directory it has removed, as does the removal that follows.
\<close>

definition procfs_refusing :: procfs where
  "procfs_refusing = procfs0\<lparr>proc_create_data := \<lambda>n d f v t.
     if n = ''period'' then (None, t) else proc_create_data procfs0 n d f v t\<rparr>"

theorem refused_file_leaves_entries:
  "\<exists>s1 s2. gsched_init_proc procfs_refusing True ((proc0 gpu_on0)\<lparr>gpu_vcount := 1\<rparr>) = Some s1 \<and>
    gdev_proc_delete procfs_refusing s1 = Some s2 \<and>
    proc_tree s2 [''resch''] = None \<and> proc_tree s2 [''resch'', ''vd0''] = Some Dir \<and>
    proc_tree s2 [''resch'', ''device_count''] = Some (File Val_ro Gpu_count)"
  by (auto simp: gsched_init_proc_def gdev_proc_create_def procfs_refusing_def procfs0_def proc0_def gpu_on0_def
      mk_file_def dir_path_def gdev_proc_minor_create_def vd_get_def guard_c_def vd_upd_def vd_files_def Let_def
      fail_proc_vd_def fail_step_def rm_if_def rm_def no_vd_def gdev_proc_delete_def dec_0 split_path_name slash_names
      simp del: dec.simps split_path.simps)

end
