(* ===== verification/Resch_Module.thy ===== *)
theory Resch_Module
  imports Component Task_API Gpu_Proc Gpu_Irq
begin

text \<open>
  Loading and unloading the kernel module (\<open>src/core/main.c\<close>): the character device, the
  GPU scheduler, the setscheduler threads of the core and the components. What the kernel answers is
  a record of parameters.
\<close>

section \<open>State\<close>

text \<open>
  The results of registering the device (negative for an error), of creating a thread for a CPU
  (\<open>None\<close> for \<open>ERR_PTR(-ENOMEM)\<close>) and the threads of a virtual device, the interrupt lines of the
  GPUs on the bus, and the memory, interrupt and \<open>/proc\<close> services.
\<close>

record mod_env =
  chrdev_ret :: int
  cdev_ret :: int
  kthread :: "cpu \<Rightarrow> nat option"
  gpu_threads :: "nat \<Rightarrow> nat option \<times> nat option"
  pci_irqs :: "int list"
  desc_mem :: "nat \<Rightarrow> nat option"
  proc_mem :: bool
  irq_services :: irq_kernel
  proc_services :: procfs
  vsched :: gdev_vsched_policy

record module =
  m_core :: core
  sched_thread_task :: "cpu \<Rightarrow> nat option"
  alive :: "cpu \<Rightarrow> bool"
  chrdev :: bool
  cdev :: bool
  m_proc :: proc_state
  m_heap :: "(irq_node, nat) heap"
  resch_descs :: "nat \<Rightarrow> resch_irq_desc option"
  resch_desc :: "nat option list"
  irq_table :: irq_table

section \<open>The GPU scheduler\<close>

text \<open>
  The whole of \<open>gsched_init\<close>: the bus search, the devices (\<open>Gpu_Context.gsched_init\<close>, which also
  clears the contexts; the files below do not look at them), the files, the interrupt lists.
\<close>

definition gsched_load :: "mod_env \<Rightarrow> module \<Rightarrow> module option" where
  "gsched_load e m =
     do { (count, descs, tops, T) \<leftarrow> gsched_pci_init (irq_services e) (desc_mem e) (pci_irqs e)
            (resch_descs m, resch_desc m, irq_table m);
          let m = m\<lparr>resch_descs := descs, resch_desc := tops, irq_table := T,
                    m_proc := (m_proc m)\<lparr>pgpu := gsched_init (vsched e) (gpu_threads e) count (pgpu (m_proc m))\<rparr>\<rparr>;
          if count = 0 then Some m
          else
            do { p \<leftarrow> gsched_init_proc (proc_services e) (proc_mem e) (m_proc m);
                 Some (m\<lparr>m_proc := p,
                   m_heap := gdev_list_init WaitHead None (gdev_list_init WakeHead None (m_heap m))\<rparr>) } }"

definition gsched_unload :: "mod_env \<Rightarrow> module \<Rightarrow> module option" where
  "gsched_unload e m =
     do { let m = m\<lparr>m_proc := (m_proc m)\<lparr>pgpu := gsched_exit (pgpu (m_proc m))\<rparr>\<rparr>;
          T \<leftarrow> nouveau_intr_exit (irq_services e) (gpu_count (pgpu (m_proc m))) (resch_descs m) (resch_desc m)
            (irq_table m);
          p \<leftarrow> gdev_proc_delete (proc_services e) (m_proc m);
          Some (m\<lparr>irq_table := T, m_proc := p\<rparr>) }"

section \<open>The module\<close>

text \<open>The threads \<open>sched_init\<close> starts; a failure leaves the CPU without one.\<close>

definition sched_init_threads :: "mod_env \<Rightarrow> module \<Rightarrow> module" where
  "sched_init_threads e m =
     m\<lparr>sched_thread_task := (\<lambda>c. if c < NR_RT_CPUS then kthread e c else sched_thread_task m c),
       alive := (\<lambda>c. if c < NR_RT_CPUS then kthread e c \<noteq> None else alive m c)\<rparr>"

definition sched_exit :: "module \<Rightarrow> module" where
  "sched_exit m =
     m\<lparr>alive := (\<lambda>c. if c < NR_RT_CPUS \<and> sched_thread_task m c \<noteq> None then False else alive m c)\<rparr>"

text \<open>
  \<open>resch_init\<close> and \<open>resch_exit\<close>; \<open>rtxg\<close> tells whether \<open>_RTXG_\<close> is defined, which no build file
  and no header does. An error of \<open>cdev_add\<close> leaves the device number allocated.
\<close>

definition resch_init :: "bool \<Rightarrow> mod_env \<Rightarrow> module \<Rightarrow> (int \<times> module) option" where
  "resch_init rtxg e m =
     (if chrdev_ret e < 0 then Some (chrdev_ret e, m) else
      let m = m\<lparr>chrdev := True\<rparr>
      in if cdev_ret e < 0 then Some (cdev_ret e, m) else
      do { let m = m\<lparr>cdev := True\<rparr>;
           m \<leftarrow> (if rtxg then gsched_load e m else Some m);
           let m = sched_init_threads e (m\<lparr>m_core := sched_init (m_core m)\<rparr>);
           Some (0, m\<lparr>m_core := component_init (m_core m)\<rparr>) })"

definition resch_exit :: "bool \<Rightarrow> mod_env \<Rightarrow> module \<Rightarrow> module option" where
  "resch_exit rtxg e m =
     do { m \<leftarrow> (if rtxg then gsched_unload e m else Some m);
          Some ((sched_exit m)\<lparr>cdev := False, chrdev := False\<rparr>) }"

section \<open>Properties\<close>

text \<open>Nothing of the module is in the system.\<close>

definition unloaded :: "module \<Rightarrow> bool" where
  "unloaded m \<longleftrightarrow> \<not> chrdev m \<and> \<not> cdev m \<and> (\<forall>c. \<not> alive m c) \<and> live_threads (pgpu (m_proc m)) = {} \<and>
     resch_descs m = (\<lambda>_. None) \<and> resch_desc m = replicate 4 None \<and>
     gdev_proc (m_proc m) = None \<and> proc_vd (m_proc m) = None \<and> (\<forall>q. ours q \<longrightarrow> proc_tree (m_proc m) q = None)"

text \<open>
  The memory of the scheduler before it is loaded: no context, the spinlock free, no second GPU;
  everything else may hold anything.
\<close>

definition idle_gpu :: "gpu \<Rightarrow> bool" where
  "idle_gpu g \<longleftrightarrow> ents g = Map.empty \<and> \<not> global_lock g \<and> (\<forall>p. p \<noteq> 0 \<longrightarrow> phys_ds g p = zero_dev)"

text \<open>A failed registration leaves the device number behind, so the module cannot be loaded again under it.\<close>

theorem failed_cdev_keeps_number:
  assumes "0 \<le> chrdev_ret e" "cdev_ret e < 0"
  shows "resch_init rtxg e m = Some (cdev_ret e, m\<lparr>chrdev := True\<rparr>)"
  using assms by (simp add: resch_init_def)

lemma gsched_exit_vds:
  "i < 4 \<Longrightarrow> sched_com_thread (gdev_vds (gsched_exit g) i) = None \<and> credit_com_thread (gdev_vds (gsched_exit g) i) = None"
  "gpu_count (gsched_exit g) = gpu_count g"
proof -
  have d: "gdev_vds (fold gsched_destroy_scheduler [0..<n] g) i = (if i < n
      then (gdev_vds g i)\<lparr>credit_com_thread := None, sched_com_thread := None\<rparr> else gdev_vds g i)" for n
    by (induction n) (auto simp: destroy_stops less_Suc_eq)
  show "i < 4 \<Longrightarrow> sched_com_thread (gdev_vds (gsched_exit g) i) = None \<and> credit_com_thread (gdev_vds (gsched_exit g) i) = None"
    by (simp add: gsched_exit_def d GDEV_DEVICE_MAX_COUNT_def)
  have "gpu_count (fold gsched_destroy_scheduler [0..<n] g) = gpu_count g" for n
    by (induction n) (simp_all add: gsched_destroy_scheduler_def kthread_stop_def Let_def split: option.split)
  then show "gpu_count (gsched_exit g) = gpu_count g" by (simp add: gsched_exit_def)
qed

text \<open>The files leave the devices alone.\<close>

lemma rm_pgpu [simp]: "pgpu (rm k n d s) = pgpu s" "pgpu (rm_if k b n d s) = pgpu s"
  by (simp_all add: rm_def rm_if_def)

lemma fold_pgpu: "(\<And>x s. pgpu (f x s) = pgpu s) \<Longrightarrow> pgpu (fold f xs s) = pgpu s"
  by (induction xs arbitrary: s) simp_all

lemma step_pgpu [simp]: "pgpu (fail_step k a i b s) = pgpu s" "pgpu (delete_step k vd i s) = pgpu s"
  unfolding fail_step_def delete_step_def by (intro fold_pgpu; simp split: prod.split)+

lemma fail_loop_pgpu: "fail_loop k vid is s = Some s' \<Longrightarrow> pgpu s' = pgpu s"
  by (induction "is" arbitrary: s) (auto split: bind_splits)

lemma vd_upd_pgpu: "pgpu (vd_upd i f s) = pgpu s"
  by (simp add: vd_upd_def)

lemma delete_loop_pgpu: "delete_loop k is s = Some s' \<Longrightarrow> pgpu s' = pgpu s"
proof (induction "is" arbitrary: s)
  case (Cons i "is")
  then obtain vd where "vd_get i s = Some vd" by auto
  with Cons show ?case by (simp add: vd_upd_pgpu split: if_splits)
qed simp

lemma mk_file_pgpu: "mk_file k n d f v s = (e, s') \<Longrightarrow> pgpu s' = pgpu s"
  by (auto simp: mk_file_def split: prod.splits)

lemma files_pgpu: "mk_vd_files k vid fs s = Some (ok, s') \<Longrightarrow> pgpu s' = pgpu s"
proof (induction fs arbitrary: s)
  case (Cons x fs)
  obtain n f v sel upd where x: "x = (n, f, v, sel, upd)" by (cases x)
  obtain vd where vd: "vd_get vid s = Some vd" using Cons.prems by (auto simp: x)
  obtain e s1 where m: "mk_file k n (vd_dir vd) f v s = (e, s1)" by fastforce
  show ?case
    using Cons.prems Cons.IH [of "vd_upd vid (upd e) s1"] mk_file_pgpu [OF m]
    by (auto simp: x vd m vd_upd_pgpu Let_def split: if_splits)
qed simp

lemma fail_pgpu: "fail_proc_vd k vid s = Some (r, s') \<Longrightarrow> pgpu s' = pgpu s"
  by (auto simp: fail_proc_vd_def Let_def dest: fail_loop_pgpu)

lemma minor_pgpu:
  assumes "gdev_proc_minor_create k vid s = Some (r, s')"
  shows "pgpu s' = pgpu s"
proof -
  obtain d t where d: "proc_mkdir k (''vd'' @ dec vid) (gdev_proc s) (proc_tree s) = (d, t)" by fastforce
  define s1 where "s1 = vd_upd vid (vd_dir_update (\<lambda>_. d)) (s\<lparr>proc_tree := t\<rparr>)"
  have s1: "pgpu s1 = pgpu s" by (simp add: s1_def vd_upd_pgpu)
  show ?thesis
  proof (cases "d = None")
    case True
    with assms d s1 fail_pgpu [of k vid s1] show ?thesis
      by (auto simp: gdev_proc_minor_create_def s1_def)
  next
    case False
    then obtain ok s2 where s2: "mk_vd_files k vid (vd_files vid) s1 = Some (ok, s2)"
      and r: "(if \<not> ok then fail_proc_vd k vid s2 else
        do { p \<leftarrow> parent (gdev_vds (pgpu s2) vid); (ok, s) \<leftarrow> mk_vd_files k vid [phys_file p] s2;
             if ok then Some (0, s\<lparr>proc_sem := 1\<rparr>) else fail_proc_vd k vid s }) = Some (r, s')"
      using assms d unfolding gdev_proc_minor_create_def s1_def
      by (auto simp: Option.bind_eq_Some_conv simp del: mk_vd_files.simps dec.simps)
    note g2 = files_pgpu [OF s2]
    show ?thesis
    proof (cases ok)
      case True
      then obtain p ok' s3 where s3: "mk_vd_files k vid [phys_file p] s2 = Some (ok', s3)"
        and r': "(if ok' then Some (0, s3\<lparr>proc_sem := 1\<rparr>) else fail_proc_vd k vid s3) = Some (r, s')"
        using r by (auto simp: Option.bind_eq_Some_conv simp del: mk_vd_files.simps)
      show ?thesis using r' files_pgpu [OF s3] g2 s1 by (auto split: if_splits dest: fail_pgpu)
    next
      case False
      with r g2 s1 fail_pgpu show ?thesis by simp
    qed
  qed
qed

lemma minors_pgpu: "proc_minors k is s = Some s' \<Longrightarrow> pgpu s' = pgpu s"
proof (induction "is" arbitrary: s)
  case (Cons i "is")
  then obtain r s1 where "gdev_proc_minor_create k i s = Some (r, s1)" "proc_minors k is s1 = Some s'" by auto
  with Cons.IH minor_pgpu show ?case by simp
qed simp

lemma create_pgpu: "pgpu (snd (gdev_proc_create k mem s)) = pgpu s"
  by (auto simp: gdev_proc_create_def Let_def fail_proc_dev_count_def
      fail_proc_virt_dev_count_def fail_alloc_proc_vd_def split: prod.splits dest!: mk_file_pgpu)

lemma init_proc_pgpu: "gsched_init_proc k mem s = Some s' \<Longrightarrow> pgpu s' = pgpu s"
  using create_pgpu [of k mem s] by (auto simp: gsched_init_proc_def split: prod.splits dest: minors_pgpu)

lemma delete_pgpu: "gdev_proc_delete k s = Some s' \<Longrightarrow> pgpu s' = pgpu s"
  by (auto simp: gdev_proc_delete_def Let_def split: if_splits dest!: delete_loop_pgpu)

lemma init_parents:
  assumes "pol \<in> policies" "idle_gpu g"
  shows "gpu_count (gsched_init pol threads 1 g) = 1"
    "i < 4 \<Longrightarrow> parent (gdev_vds (gsched_init pol threads 1 g) i) = Some 0"
proof -
  have "set_up 0 (upd_phys 0 (gpu_device_init 0) (g\<lparr>gpu_count := 1\<rparr>))"
    using assms(2) by (simp add: idle_gpu_def set_up_def zero_dev_def gpu_device_init_def)
  from fold_sets_up [OF assms(1) this, of 4 threads]
  show "gpu_count (gsched_init pol threads 1 g) = 1"
    "i < 4 \<Longrightarrow> parent (gdev_vds (gsched_init pol threads 1 g) i) = Some 0"
    by (simp_all add: gsched_init_def set_up_def fresh_vd_def GDEV_DEVICE_MAX_COUNT_def Let_def)
qed


text \<open>
  Loading establishes the invariants the operations of the core keep, with and without GPU
  scheduling.
\<close>

theorem load_establishes_core:
  assumes "m_core m = boot" "resch_init rtxg e m = Some (0, m1)"
  shows "core_wf (m_core m1) \<and> component_wf (m_core m1)"
proof -
  have c: "component_init (sched_init boot) = boot"
    by (auto simp: component_init_def sched_init_def boot_defs fun_eq_iff)
  have "m_core m1 = boot"
    using assms c
    by (auto simp: resch_init_def gsched_load_def sched_init_threads_def Let_def split: if_splits prod.splits)
  then show ?thesis using boot_core_wf boot_component_wf by simp
qed

section \<open>Example\<close>

definition env0 :: mod_env where
  "env0 = \<lparr>chrdev_ret = 0, cdev_ret = 0, kthread = (\<lambda>c. Some (100 + c)), gpu_threads = (\<lambda>i. (Some (200 + i), Some (300 + i))),
     pci_irqs = [16], desc_mem = (\<lambda>_. Some 7), proc_mem = True, irq_services = irq_kernel0, proc_services = procfs0,
     vsched = gdev_vsched_fifo\<rparr>"

definition module0 :: module where
  "module0 = \<lparr>m_core = boot, sched_thread_task = (\<lambda>_. None), alive = (\<lambda>_. False), chrdev = False, cdev = False,
     m_proc = proc0 stale, m_heap = irq_heap (irq_boot gpu_zero), resch_descs = (\<lambda>_. None),
     resch_desc = replicate 4 None, irq_table = shared_line\<rparr>"

lemma module0_unloaded: "unloaded module0"
  by (simp add: unloaded_def module0_def proc0_def stale_def gpu_zero_def)

lemma env0_sel:
  "0 \<le> chrdev_ret env0" "0 \<le> cdev_ret env0" "irq_works (irq_services env0)" "procfs_works (proc_services env0)"
  "proc_mem env0" "idle_gpu (pgpu (m_proc module0))" "gpu_vcount (m_proc module0) = 4"
  "vsched env0 \<in> policies" "pci_irqs env0 = 16 # []" "desc_mem env0 0 = Some 7"
  using procfs0_works
  by (simp_all add: env0_def irq_kernel0_works policies_def module0_def proc0_def idle_gpu_def stale_def gpu_zero_def)

lemma line0:
  "irq_table module0 16 = hd (shared_line 16) # tl (shared_line 16)"
  "\<forall>a \<in> set (hd (shared_line 16) # tl (shared_line 16)). act_shared a"
  "act_dev_id (hd (shared_line 16)) \<notin> act_dev_id ` set (tl (shared_line 16))"
  "\<forall>n. Resch_desc n \<notin> act_dev_id ` set (hd (shared_line 16) # tl (shared_line 16))"
  by (simp_all add: module0_def shared_line_def)


end
