(* ===== verification/Task_Set.thy ===== *)
theory Task_Set
  imports Lib_Resch C_Text Bubble
begin

text \<open>
  The task sets of the benchmarks: how \<open>src/bench/schedbench/taskset.c\<close> generates and writes them, how
  \<open>exec.c\<close> beside it reads them and assigns priorities. The random numbers are a parameter, and so is the
  product of a utilisation and a period, which the program computes in floating point.
\<close>

section \<open>Generating\<close>

record taskdata_t =
  d_C :: int
  d_T :: int
  d_D :: int

text \<open>
  The harmonic periods: as many as there are doublings of \<open>pmin\<close> up to \<open>pmax\<close>. The count \<open>nr_periods\<close> is a
  global variable that is not reset. Doubling a number beyond the range of \<open>int\<close> is undefined.
\<close>

definition double_int :: "int \<Rightarrow> int option" where
  "double_int p = (if int_range (2 * p) then Some (2 * p) else None)"

partial_function (option) count_periods :: "int \<Rightarrow> int \<Rightarrow> nat \<Rightarrow> nat option" where
  "count_periods harmonic_period pmax nr_periods =
     (if harmonic_period \<le> pmax
      then do { p \<leftarrow> double_int harmonic_period; count_periods p pmax (nr_periods + 1) }
      else Some nr_periods)"

primrec fill_periods :: "nat \<Rightarrow> int \<Rightarrow> int list option" where
  "fill_periods 0 harmonic_period = Some []"
| "fill_periods (Suc n) harmonic_period =
     do { p \<leftarrow> double_int harmonic_period; ps \<leftarrow> fill_periods n p; Some (harmonic_period # ps) }"

definition make_harmonic_periods :: "int \<Rightarrow> int \<Rightarrow> nat \<Rightarrow> (int list \<times> nat) option" where
  "make_harmonic_periods pmin pmax nr_periods =
     do { n \<leftarrow> count_periods pmin pmax nr_periods; ps \<leftarrow> fill_periods n pmin; Some (ps, n) }"

text \<open>The remainder of C; a zero divisor is undefined.\<close>

definition c_mod :: "int \<Rightarrow> int \<Rightarrow> int option" where
  "c_mod a b = (if b = 0 then None else Some (a smod b))"

definition choose_period :: "int list option \<Rightarrow> int \<Rightarrow> int \<Rightarrow> int \<Rightarrow> int option" where
  "choose_period harmonic pmin pmax r =
     (case harmonic of
        Some ps \<Rightarrow> do { i \<leftarrow> c_mod r (int (length ps)); Some (ps ! nat i) }
      | None \<Rightarrow> do { i \<leftarrow> c_mod r (pmax - pmin); Some (pmin + i) })"

datatype deadline_kind = Implicit | Constrained | Arbitrary

definition choose_deadline :: "deadline_kind \<Rightarrow> int \<Rightarrow> int \<Rightarrow> int \<Rightarrow> int option" where
  "choose_deadline kind r C T =
     (case kind of
        Implicit \<Rightarrow> Some T
      | Constrained \<Rightarrow> do { i \<leftarrow> c_mod r (T - C); Some (C + i) }
      | Arbitrary \<Rightarrow> do { i \<leftarrow> c_mod r (4 * T - C); Some (C + i) })"

text \<open>
  The first loop draws the periods of all tasks, the second their deadlines; \<open>rnd\<close> is the
  sequence of random numbers, \<open>work i T\<close> the execution time of task \<open>i\<close> for its period.
\<close>

primrec draw_periods :: "int list option \<Rightarrow> int \<Rightarrow> int \<Rightarrow> (nat \<Rightarrow> int) \<Rightarrow> nat \<Rightarrow> int list option" where
  "draw_periods harmonic pmin pmax rnd 0 = Some []"
| "draw_periods harmonic pmin pmax rnd (Suc i) =
     do { Ts \<leftarrow> draw_periods harmonic pmin pmax rnd i; T \<leftarrow> choose_period harmonic pmin pmax (rnd i); Some (Ts @ [T]) }"

primrec draw_deadlines :: "deadline_kind \<Rightarrow> (nat \<Rightarrow> int) \<Rightarrow> (nat \<Rightarrow> int \<Rightarrow> int) \<Rightarrow> int list \<Rightarrow> nat \<Rightarrow> taskdata_t list option" where
  "draw_deadlines kind rnd work Ts 0 = Some []"
| "draw_deadlines kind rnd work Ts (Suc i) =
     do { ds \<leftarrow> draw_deadlines kind rnd work Ts i;
          let T = Ts ! i;
          let C = work i T;
          D \<leftarrow> choose_deadline kind (rnd i) C T;
          Some (ds @ [\<lparr>d_C = C, d_T = T, d_D = D\<rparr>]) }"

definition generate_tasks ::
  "int list option \<Rightarrow> int \<Rightarrow> int \<Rightarrow> deadline_kind \<Rightarrow> (nat \<Rightarrow> int) \<Rightarrow> (nat \<Rightarrow> int \<Rightarrow> int) \<Rightarrow> nat \<Rightarrow> taskdata_t list option" where
  "generate_tasks harmonic pmin pmax kind rnd work ntasks =
     do { Ts \<leftarrow> draw_periods harmonic pmin pmax rnd ntasks;
          draw_deadlines kind (\<lambda>i. rnd (ntasks + i)) work Ts ntasks }"

section \<open>The file\<close>

definition newline :: char where "newline = CHR 0x0A"

lemma newline_facts: "of_char newline = (10 :: nat)" "char_of (10 :: nat) = newline" "newline \<noteq> CHR ''#''" "\<not> is_digit newline"
proof -
  show "of_char newline = (10 :: nat)" by (simp add: newline_def)
  then show "char_of (10 :: nat) = newline" by (metis char_of_char)
qed (simp_all add: newline_def is_digit_def)

definition task_line :: "nat \<Rightarrow> taskdata_t \<Rightarrow> string" where
  "task_line i d = ''task'' @ print_int (int i) @ '', '' @ print_int (d_C d) @ '', '' @ print_int (d_T d) @
     '', '' @ print_int (d_D d) @ [newline]"

fun task_lines :: "nat \<Rightarrow> taskdata_t list \<Rightarrow> string" where
  "task_lines i [] = []"
| "task_lines i (d # ds) = task_line i d @ task_lines (Suc i) ds"

definition taskset_file :: "taskdata_t list \<Rightarrow> string" where
  "taskset_file ds = ''# the number of tasks'' @ newline # print_int (int (length ds)) @ newline #
     ''# tasks (name, C, T, D)'' @ newline # task_lines 0 ds"

section \<open>Reading\<close>

definition MAX_BUF :: nat where "MAX_BUF = 256"
definition NR_COLS :: nat where "NR_COLS = 4"

record task_t =
  t_pid :: int
  t_tid :: int
  t_C :: int
  t_T :: int
  t_D :: int
  t_prio :: int

definition init_task :: "nat \<Rightarrow> int \<Rightarrow> int \<Rightarrow> int \<Rightarrow> task_t" where
  "init_task tid C T D = \<lparr>t_pid = 0, t_tid = int tid, t_C = C, t_T = T, t_D = D, t_prio = 1\<rparr>"

text \<open>
  The buffer \<open>line\<close> is uninitialised (\<open>None\<close>) until a line was read. At the end of the file it keeps the last
  line.
\<close>

function skip_comments :: "string option \<Rightarrow> string \<Rightarrow> string option \<times> string" where
  "skip_comments line fp =
     (case fgets MAX_BUF fp of
        None \<Rightarrow> (line, fp)
      | Some (l, fp) \<Rightarrow> if hd l \<noteq> newline \<and> hd l \<noteq> CHR ''#'' then (Some l, fp) else skip_comments (Some l) fp)"
  by pat_completeness auto
termination
  by (relation "measure (length \<circ> snd)") (auto simp: MAX_BUF_def dest!: fgets_shorter [rotated])

definition separator :: "char \<Rightarrow> bool" where
  "separator c \<longleftrightarrow> c = CHR '','' \<or> c = CHR '' '' \<or> of_char c = (9 :: nat)"

primrec columns :: "nat \<Rightarrow> string \<Rightarrow> string list option" where
  "columns 0 s = Some []"
| "columns (Suc n) s = do { (t, s) \<leftarrow> strtok separator s; ts \<leftarrow> columns n s; Some (t # ts) }"

definition c_line :: "string \<Rightarrow> string" where "c_line l = takeWhile (\<lambda>c. of_char c \<noteq> (0 :: nat)) l"

text \<open>A row with too few columns ends the program with status 1 (\<open>Inl\<close>).\<close>

primrec read_rows :: "nat \<Rightarrow> nat \<Rightarrow> string option \<Rightarrow> string \<Rightarrow> (int + task_t list) option" where
  "read_rows 0 i line fp = Some (Inr [])"
| "read_rows (Suc n) i line fp =
     do { l \<leftarrow> line;
          case columns NR_COLS (c_line l) of
            None \<Rightarrow> Some (Inl 1)
          | Some props \<Rightarrow>
              do { C \<leftarrow> atoi (props ! 1); T \<leftarrow> atoi (props ! 2); D \<leftarrow> atoi (props ! 3);
                   let (line, fp) = (case fgets MAX_BUF fp of None \<Rightarrow> (line, fp) | Some (l, fp) \<Rightarrow> (Some l, fp));
                   rest \<leftarrow> read_rows n (Suc i) line fp;
                   Some (map_sum id (\<lambda>ts. init_task i C T D # ts) rest) } }"

definition read_taskset :: "bool \<Rightarrow> string \<Rightarrow> (int + task_t list) option" where
  "read_taskset mem fp =
     do { let (line, fp) = skip_comments None fp;
          l \<leftarrow> line;
          n \<leftarrow> atoi (c_line l);
          let (line, fp) = skip_comments line fp;
          if \<not> mem \<and> 0 < n then None else read_rows (nat n) 0 line fp }"

section \<open>Priorities\<close>

definition RESCH_APP_PRIO_MAX :: int where "RESCH_APP_PRIO_MAX = 96"
definition RESCH_APP_PRIO_MIN :: int where "RESCH_APP_PRIO_MIN = 4"

text \<open>The exchange copies the four parameters, not the process and the priority.\<close>

definition set_params :: "task_t \<Rightarrow> task_t \<Rightarrow> task_t" where
  "set_params src dst = dst\<lparr>t_tid := t_tid src, t_C := t_C src, t_T := t_T src, t_D := t_D src\<rparr>"

definition dm_step :: "nat \<Rightarrow> task_t list \<Rightarrow> task_t list" where
  "dm_step j ts =
     (if t_D (ts ! (j - 1)) > t_D (ts ! j)
      then ts[j := set_params (ts ! (j - 1)) (ts ! j), j - 1 := set_params (ts ! j) (ts ! (j - 1))] else ts)"

definition dm_pass :: "nat \<Rightarrow> task_t list \<Rightarrow> task_t list" where
  "dm_pass i ts = fold dm_step (rev [i + 1..<length ts]) ts"

definition dm_sort :: "task_t list \<Rightarrow> task_t list" where
  "dm_sort ts = fold dm_pass [0..<length ts - 1] ts"

definition deadline_monotonic_priority :: "task_t list \<Rightarrow> task_t list" where
  "deadline_monotonic_priority ts =
     (let ts = dm_sort ts
      in map (\<lambda>i. (ts ! i)\<lparr>t_prio := ulong_to_int (word_of_int (RESCH_APP_PRIO_MAX - int i))\<rparr>) [0..<length ts])"

section \<open>The generated sets\<close>

lemma c_mod_range:
  assumes "0 \<le> r" "0 < b"
  shows "\<exists>i. c_mod r b = Some i \<and> 0 \<le> i \<and> i < b"
  using assms by (simp add: c_mod_def smod_int_compares)

lemma draw_periods_range:
  assumes "\<forall>i. 0 \<le> rnd i" "pmin < pmax"
  shows "\<exists>Ts. draw_periods None pmin pmax rnd n = Some Ts \<and> length Ts = n \<and> (\<forall>T \<in> set Ts. pmin \<le> T \<and> T < pmax)"
proof (induction n)
  case (Suc n)
  obtain i where "c_mod (rnd n) (pmax - pmin) = Some i" "0 \<le> i" "i < pmax - pmin"
    using c_mod_range [of "rnd n" "pmax - pmin"] assms by auto
  with Suc show ?case by (auto simp: choose_period_def)
qed simp

definition deadline_ok :: "deadline_kind \<Rightarrow> taskdata_t \<Rightarrow> bool" where
  "deadline_ok kind d \<longleftrightarrow>
     (case kind of Implicit \<Rightarrow> d_D d = d_T d
      | Constrained \<Rightarrow> d_C d \<le> d_D d \<and> d_D d < d_T d
      | Arbitrary \<Rightarrow> d_C d \<le> d_D d \<and> d_D d < 4 * d_T d)"

lemma draw_deadlines_range:
  assumes "\<forall>i. 0 \<le> rnd i" "\<forall>i<n. 0 \<le> work i (Ts ! i) \<and> work i (Ts ! i) < Ts ! i"
  shows "\<exists>ds. draw_deadlines kind rnd work Ts n = Some ds \<and> length ds = n \<and>
    (\<forall>i<n. d_T (ds ! i) = Ts ! i \<and> d_C (ds ! i) = work i (Ts ! i) \<and> deadline_ok kind (ds ! i))"
  using assms(2)
proof (induction n)
  case (Suc n)
  then obtain ds where ds: "draw_deadlines kind rnd work Ts n = Some ds" "length ds = n"
    "\<forall>i<n. d_T (ds ! i) = Ts ! i \<and> d_C (ds ! i) = work i (Ts ! i) \<and> deadline_ok kind (ds ! i)" by auto
  have w: "0 \<le> work n (Ts ! n)" "work n (Ts ! n) < Ts ! n" using Suc.prems by simp_all
  have "\<exists>D. choose_deadline kind (rnd n) (work n (Ts ! n)) (Ts ! n) = Some D \<and>
    deadline_ok kind \<lparr>d_C = work n (Ts ! n), d_T = Ts ! n, d_D = D\<rparr>"
    using assms(1) w c_mod_range [of "rnd n" "Ts ! n - work n (Ts ! n)"] c_mod_range [of "rnd n" "4 * Ts ! n - work n (Ts ! n)"]
    by (cases kind) (auto simp: choose_deadline_def deadline_ok_def)
  then show ?case using ds by (auto simp: nth_append less_Suc_eq Let_def)
qed simp

text \<open>
  Generation does not fail as long as no task is as long as its period, and every task gets a period in
  the range and a deadline of the kind that was asked for.
\<close>

theorem generated_in_range:
  assumes "\<forall>i. 0 \<le> rnd i" "0 < pmin" "pmin < pmax" "\<forall>i T. 0 < T \<longrightarrow> 0 \<le> work i T \<and> work i T < T"
  shows "\<exists>ds. generate_tasks None pmin pmax kind rnd work n = Some ds \<and> length ds = n \<and>
    (\<forall>d \<in> set ds. pmin \<le> d_T d \<and> d_T d < pmax \<and> 0 \<le> d_C d \<and> d_C d < d_T d \<and> deadline_ok kind d)"
proof -
  obtain Ts where Ts: "draw_periods None pmin pmax rnd n = Some Ts" "length Ts = n" "\<forall>T \<in> set Ts. pmin \<le> T \<and> T < pmax"
    using draw_periods_range [OF assms(1,3)] by blast
  have T: "pmin \<le> Ts ! i \<and> Ts ! i < pmax" if "i < n" for i using Ts that by auto
  then have w: "\<forall>i<n. 0 \<le> work i (Ts ! i) \<and> work i (Ts ! i) < Ts ! i"
    using assms(2,4) by (meson less_le_trans)
  obtain ds where "draw_deadlines kind (\<lambda>i. rnd (n + i)) work Ts n = Some ds" "length ds = n"
    "\<forall>i<n. d_T (ds ! i) = Ts ! i \<and> d_C (ds ! i) = work i (Ts ! i) \<and> deadline_ok kind (ds ! i)"
    using draw_deadlines_range [where rnd = "\<lambda>i. rnd (n + i)" and kind = kind and work = work and Ts = Ts and n = n, OF _ w] assms(1) by auto
  with Ts T w show ?thesis by (auto simp: generate_tasks_def in_set_conv_nth)
qed

text \<open>A task of utilisation 1 has no constrained deadline: the program divides by zero.\<close>

theorem full_task_divides_by_zero:
  assumes "draw_periods harmonic pmin pmax rnd n = Some Ts" "i < n" "work i (Ts ! i) = Ts ! i"
  shows "generate_tasks harmonic pmin pmax Constrained rnd work n = None"
proof -
  have "draw_deadlines Constrained rnd' work Ts n = None" for rnd'
    using assms(2)
  proof (induction n)
    case (Suc n)
    show ?case
    proof (cases "i = n")
      case True
      with assms(3) show ?thesis
        by (cases "draw_deadlines Constrained rnd' work Ts n") (simp_all add: choose_deadline_def c_mod_def)
    qed (use Suc in simp)
  qed simp
  with assms(1) show ?thesis by (simp add: generate_tasks_def)
qed

section \<open>Harmonic periods\<close>

lemma count_periods_result:
  assumes "count_periods p pmax n = Some m"
  shows "\<exists>k. m = n + k \<and> pmax < p * 2 ^ k \<and> (\<forall>i<k. p * 2 ^ i \<le> pmax)"
proof (rule count_periods.raw_induct [rotated, OF assms, where P = "\<lambda>p pmax n m.
    \<exists>k. m = n + k \<and> pmax < p * 2 ^ k \<and> (\<forall>i<k. p * 2 ^ i \<le> pmax)"])
  fix rec :: "int \<Rightarrow> int \<Rightarrow> nat \<Rightarrow> nat option" and p pmax n m
  assume ih: "\<And>p pmax n m. rec p pmax n = Some m \<Longrightarrow> \<exists>k. m = n + k \<and> pmax < p * 2 ^ k \<and> (\<forall>i<k. p * 2 ^ i \<le> pmax)"
    and run: "(if p \<le> pmax then do { q \<leftarrow> double_int p; rec q pmax (n + 1) } else Some n) = Some m"
  show "\<exists>k. m = n + k \<and> pmax < p * 2 ^ k \<and> (\<forall>i<k. p * 2 ^ i \<le> pmax)"
  proof (cases "p \<le> pmax")
    case True
    with run have "rec (2 * p) pmax (n + 1) = Some m" by (auto simp: double_int_def split: if_splits)
    from ih [OF this] obtain k where k: "m = n + 1 + k" "pmax < 2 * p * 2 ^ k" "\<forall>i<k. 2 * p * 2 ^ i \<le> pmax" by blast
    have "p * 2 ^ i \<le> pmax" if "i < Suc k" for i using that k(3) True by (cases i) (auto simp: mult.assoc mult.left_commute)
    with k show ?thesis by (intro exI [of _ "Suc k"]) (auto simp: mult.assoc mult.left_commute)
  next
    case False
    with run show ?thesis by (intro exI [of _ 0]) simp
  qed
qed

lemma count_periods_ends:
  assumes "0 < p" "2 * pmax < 2 ^ 31"
  shows "\<exists>m. count_periods p pmax n = Some m"
  using assms(1)
proof (induction "nat (pmax + 1 - p)" arbitrary: p n rule: less_induct)
  case less
  show ?case
  proof (cases "p \<le> pmax")
    case True
    then have "double_int p = Some (2 * p)" using less.prems assms(2) by (simp add: double_int_def int_range_def)
    then show ?thesis
      using less.hyps [of "2 * p" "n + 1"] less.prems True by (subst count_periods.simps) simp
  qed (subst count_periods.simps, simp)
qed

lemma fill_periods_result: "fill_periods n p = Some ps \<Longrightarrow> ps = map (\<lambda>i. p * 2 ^ i) [0..<n]"
proof (induction n arbitrary: p ps)
  case (Suc n)
  then obtain qs where "fill_periods n (2 * p) = Some qs" "ps = p # qs"
    by (auto simp: double_int_def split: if_splits)
  then show ?case using Suc.IH [of "2 * p" qs]
    by (simp add: upt_conv_Cons map_Suc_upt [symmetric] mult.assoc mult.left_commute del: upt_Suc)
qed simp

lemma fill_periods_ends:
  assumes "0 \<le> p" "p * 2 ^ n < 2 ^ 31"
  shows "\<exists>ps. fill_periods n p = Some ps"
  using assms
proof (induction n arbitrary: p)
  case (Suc n)
  have "p * 1 \<le> p * 2 ^ n" using Suc.prems(1) by (intro mult_left_mono) simp_all
  then have "2 * p \<le> p * 2 ^ Suc n" by simp
  then have d: "double_int p = Some (2 * p)" using Suc.prems by (simp add: double_int_def int_range_def)
  obtain qs where "fill_periods n (2 * p) = Some qs" using Suc.IH [of "2 * p"] Suc.prems by auto
  with d show ?case by simp
qed simp

text \<open>
  The first call gives all doublings of \<open>pmin\<close> up to \<open>pmax\<close>. A second call, for the next workload, counts on
  from the first and hands out periods above \<open>pmax\<close>.
\<close>

theorem harmonic_periods:
  assumes "0 < pmin" "pmin \<le> pmax" "2 * pmax < 2 ^ 31"
  shows "\<exists>n. make_harmonic_periods pmin pmax 0 = Some (map (\<lambda>i. pmin * 2 ^ i) [0..<n], n) \<and> 0 < n \<and>
    pmin * 2 ^ (n - 1) \<le> pmax \<and> pmax < pmin * 2 ^ n \<and>
    (\<forall>ps m. make_harmonic_periods pmin pmax n = Some (ps, m) \<longrightarrow> (\<exists>p \<in> set ps. pmax < p))"
proof -
  obtain n where n: "count_periods pmin pmax 0 = Some n" using count_periods_ends assms by blast
  obtain k where k: "n = 0 + k" "pmax < pmin * 2 ^ k" "\<forall>i<k. pmin * 2 ^ i \<le> pmax"
    using count_periods_result [OF n] by blast
  then have n2: "pmax < pmin * 2 ^ n" "\<forall>i<n. pmin * 2 ^ i \<le> pmax" by simp_all
  have pos: "0 < n" using n2(1) assms(2) by (cases n) auto
  have last: "pmin * 2 ^ (n - 1) \<le> pmax" using n2(2) pos by simp
  moreover have "pmin * 2 ^ n = 2 * (pmin * 2 ^ (n - 1))" using pos by (cases n) simp_all
  ultimately have "pmin * 2 ^ n < 2 ^ 31" using assms(3) by linarith
  then obtain ps where ps: "fill_periods n pmin = Some ps" using fill_periods_ends [of pmin n] assms(1) by auto
  have run: "make_harmonic_periods pmin pmax 0 = Some (map (\<lambda>i. pmin * 2 ^ i) [0..<n], n)"
    using n ps fill_periods_result [OF ps] by (simp add: make_harmonic_periods_def)
  have "\<exists>p \<in> set ps. pmax < p" if "make_harmonic_periods pmin pmax n = Some (ps, m)" for ps m
  proof -
    have c: "count_periods pmin pmax n = Some m" and f: "fill_periods m pmin = Some ps"
      using that by (auto simp: make_harmonic_periods_def)
    obtain j where j: "m = n + j" "pmax < pmin * 2 ^ j" using count_periods_result [OF c] by blast
    note f = fill_periods_result [OF f]
    have "pmin * 2 ^ j \<in> (\<lambda>i. pmin * 2 ^ i) ` {0..<m}" using pos j(1) by (intro imageI) simp
    then have "pmin * 2 ^ j \<in> set ps" using f by simp
    with j(2) show ?thesis by blast
  qed
  with run pos last n2(1) show ?thesis by blast
qed

section \<open>What is written is read back\<close>

definition in_range :: "taskdata_t \<Rightarrow> bool" where
  "in_range d \<longleftrightarrow> int_range (d_C d) \<and> int_range (d_T d) \<and> int_range (d_D d)"

definition plain :: "string \<Rightarrow> bool" where
  "plain l \<longleftrightarrow> (\<forall>c \<in> set l. of_char c \<noteq> (10 :: nat) \<and> of_char c \<noteq> (0 :: nat))"

lemma plain_append [simp]: "plain (xs @ ys) \<longleftrightarrow> plain xs \<and> plain ys" "plain []"
  by (auto simp: plain_def)

lemma plain_print [simp]: "plain (print_int i)"
  using print_chars [of i] number_plain by (auto simp: plain_def)

lemma fgets_plain:
  "plain l \<Longrightarrow> length l < 255 \<Longrightarrow> fgets MAX_BUF (l @ newline # fp) = Some (l @ [newline], fp)"
  using fgets_line [of l MAX_BUF fp] by (auto simp: plain_def newline_facts MAX_BUF_def)

lemma c_line_plain: "plain l \<Longrightarrow> c_line (l @ [newline]) = l @ [newline]"
  by (auto simp: c_line_def plain_def newline_facts takeWhile_append2)

declare skip_comments.simps [simp del]

lemma skip_comment:
  "plain l \<Longrightarrow> length l < 254 \<Longrightarrow> skip_comments line (CHR ''#'' # l @ newline # fp) = skip_comments (Some (CHR ''#'' # l @ [newline])) fp"
  using fgets_plain [of "CHR ''#'' # l" fp] by (subst skip_comments.simps) (simp add: plain_def)

lemma skip_none:
  "plain l \<Longrightarrow> length l < 255 \<Longrightarrow> l \<noteq> [] \<Longrightarrow> hd l \<noteq> CHR ''#'' \<Longrightarrow>
    skip_comments line (l @ newline # fp) = (Some (l @ [newline]), fp)"
  using fgets_plain [of l fp] newline_facts(1) by (subst skip_comments.simps) (cases l; auto simp: plain_def)

text \<open>A row without its end of line.\<close>

definition row :: "nat \<Rightarrow> taskdata_t \<Rightarrow> string" where
  "row i d = ''task'' @ print_int (int i) @ '', '' @ print_int (d_C d) @ '', '' @ print_int (d_T d) @
     '', '' @ print_int (d_D d)"

lemma task_line_row: "task_line i d = row i d @ [newline]"
  by (simp add: task_line_def row_def)

lemma row_hd: "row i d \<noteq> []" "hd (row i d) \<noteq> CHR ''#''"
  by (simp_all add: row_def)

lemma row_plain: "plain (row i d)"
proof -
  have "plain ''task''" "plain '', ''" by (simp_all add: plain_def)
  then show ?thesis unfolding row_def plain_append using plain_print by blast
qed

lemma row_length: "in_range d \<Longrightarrow> int i < 2 ^ 31 \<Longrightarrow> length (row i d) < 255"
proof -
  assume "in_range d" "int i < 2 ^ 31"
  then have "int_range (int i)" "int_range (d_C d)" "int_range (d_T d)" "int_range (d_D d)"
    by (simp_all add: in_range_def int_range_def)
  note l = this [THEN print_length]
  show ?thesis using l unfolding row_def length_append by simp
qed

lemma row_columns:
  "\<exists>name. columns NR_COLS (row i d @ [newline]) = Some [name, print_int (d_C d), print_int (d_T d), print_int (d_D d) @ [newline]]"
proof -
  have n: "\<forall>c \<in> set (print_int j). \<not> separator c" for j
    using print_chars [of j] number_plain by (auto simp: separator_def)
  have s: "separator CHR '',''" "\<forall>c \<in> set '' ''. separator c" by (simp_all add: separator_def)
  have 1: "strtok separator (row i d @ [newline]) = Some (''task'' @ print_int (int i),
      '' '' @ print_int (d_C d) @ CHR '','' # '' '' @ print_int (d_T d) @ CHR '','' # '' '' @ print_int (d_D d) @ [newline])"
    using strtok_token(1) [of "''task'' @ print_int (int i)" separator "[]" "CHR '',''"] n [of "int i"] s
    by (simp add: row_def separator_def)
  have 2: "strtok separator ('' '' @ print_int j @ CHR '','' # r) = Some (print_int j, r)" for j r
    using strtok_token(1) [OF print_nonempty n s(2) s(1)] .
  have "\<forall>c \<in> set (print_int (d_D d) @ [newline]). \<not> separator c"
    using n by (simp add: separator_def newline_def)
  then have 3: "strtok separator ('' '' @ print_int (d_D d) @ [newline]) = Some (print_int (d_D d) @ [newline], [])"
    using strtok_token(2) [of "print_int (d_D d) @ [newline]" separator "'' ''"] s(2) by simp
  show ?thesis
    unfolding NR_COLS_def
    by (simp only: numeral_eq_Suc pred_numeral_simps BitM.simps columns.simps 1 2 3 bind.bind_lunit prod.case) simp
qed

lemma read_row:
  assumes "in_range d"
  shows "read_rows (Suc n) i (Some (row j d @ [newline])) fp =
    (let (line, fp) = (case fgets MAX_BUF fp of None \<Rightarrow> (Some (row j d @ [newline]), fp) | Some (l, fp) \<Rightarrow> (Some l, fp))
     in do { rest \<leftarrow> read_rows n (Suc i) line fp;
             Some (map_sum id (\<lambda>ts. init_task i (d_C d) (d_T d) (d_D d) # ts) rest) })"
proof -
  obtain name where c: "columns NR_COLS (row j d @ [newline]) =
      Some [name, print_int (d_C d), print_int (d_T d), print_int (d_D d) @ [newline]]"
    using row_columns by blast
  have a: "atoi (print_int (d_C d)) = Some (d_C d)" "atoi (print_int (d_T d)) = Some (d_T d)"
    "atoi (print_int (d_D d) @ [newline]) = Some (d_D d)"
    using assms atoi_print [of _ "[]"] atoi_print [of _ "[newline]"] newline_facts(4) by (auto simp: in_range_def)
  show ?thesis by (simp add: c_line_plain row_plain c a split: option.split prod.split)
qed

fun numbered :: "nat \<Rightarrow> taskdata_t list \<Rightarrow> task_t list" where
  "numbered i [] = []"
| "numbered i (d # ds) = init_task i (d_C d) (d_T d) (d_D d) # numbered (Suc i) ds"

lemma read_lines:
  assumes "\<forall>d \<in> set ds. in_range d" "int (i + length ds) < 2 ^ 31" "ds \<noteq> []"
  shows "read_rows (length ds) i (Some (task_line i (hd ds))) (task_lines (Suc i) (tl ds)) = Some (Inr (numbered i ds))"
  using assms
proof (induction ds arbitrary: i)
  case (Cons d ds)
  have r: "in_range d" using Cons.prems(1) by simp
  show ?case
  proof (cases ds)
    case Nil
    have "fgets MAX_BUF [] = None" by (simp add: fgets_def)
    then show ?thesis using read_row [OF r, of 0 i i "[]"] by (simp add: Nil task_line_row)
  next
    case (Cons e es)
    have "fgets MAX_BUF (task_lines (Suc i) ds) = Some (task_line (Suc i) e, task_lines (Suc (Suc i)) es)"
      using fgets_plain [OF row_plain, of "Suc i" e "task_lines (Suc (Suc i)) es"]
        row_length [of e "Suc i"] Cons.prems(1,2) Cons by (simp add: task_line_row)
    moreover have "read_rows (length ds) (Suc i) (Some (task_line (Suc i) e)) (task_lines (Suc (Suc i)) es) =
        Some (Inr (numbered (Suc i) ds))"
      using Cons.IH [of "Suc i"] Cons.prems(1,2) Cons by simp
    ultimately show ?thesis using read_row [OF r, of "length ds" i i "task_lines (Suc i) ds"]
      by (simp add: task_line_row [symmetric])
  qed
qed simp

lemma read_back:
  assumes "\<forall>d \<in> set ds. in_range d" "int (length ds) < 2 ^ 31"
  shows "read_taskset True (taskset_file ds) = Some (Inr (numbered 0 ds))"
proof -
  have l: "int_range (int (length ds))" using assms(2) by (simp add: int_range_def)
  define rest where "rest = ''# tasks (name, C, T, D)'' @ newline # task_lines 0 ds"
  have h: "hd (print_int (int (length ds))) \<noteq> CHR ''#''"
    using print_chars [of "int (length ds)"] print_nonempty [of "int (length ds)"]
    by (cases "print_int (int (length ds))") (auto simp: number_char_def is_digit_def)
  have p: "plain '' the number of tasks''" "plain '' tasks (name, C, T, D)''"
    by (simp_all add: plain_def)
  have "skip_comments line (print_int (int (length ds)) @ newline # rest) = (Some (print_int (int (length ds)) @ [newline]), rest)" for line
    by (rule skip_none [OF plain_print _ print_nonempty h]) (use print_length [OF l] in simp)
  with skip_comment [OF p(1), of None "print_int (int (length ds)) @ newline # rest"]
  have 1: "skip_comments None (taskset_file ds) = (Some (print_int (int (length ds)) @ [newline]), rest)"
    by (simp add: taskset_file_def rest_def)
  have n: "atoi (c_line (print_int (int (length ds)) @ [newline])) = Some (int (length ds))"
    using atoi_print [OF l, of "[newline]"] newline_facts(4) by (simp add: c_line_plain)
  have 2: "skip_comments line rest = skip_comments (Some (''# tasks (name, C, T, D)'' @ [newline])) (task_lines 0 ds)" for line
    using skip_comment [OF p(2), of line "task_lines 0 ds"] by (simp add: rest_def)
  define header where "header = ''# tasks (name, C, T, D)'' @ [newline]"
  have run: "read_taskset True (taskset_file ds) =
      (let (line, fp) = skip_comments (Some header) (task_lines 0 ds) in read_rows (length ds) 0 line fp)"
    unfolding read_taskset_def 1 Let_def prod.case 2 header_def [symmetric] bind.bind_lunit n
    by (simp split: prod.split)
  show ?thesis
  proof (cases ds)
    case Nil
    then show ?thesis unfolding run by (simp split: prod.split)
  next
    case (Cons d es)
    have 3: "skip_comments line (task_lines 0 ds) = (Some (task_line 0 d), task_lines 1 es)" for line
      using skip_none [OF row_plain row_length, of d 0 line "task_lines 1 es"] assms(1) row_hd [of 0 d]
      by (simp add: Cons task_line_row)
    show ?thesis using read_lines [OF assms(1), of 0] assms(2) unfolding run 3 by (simp add: Cons del: read_rows.simps)
  qed
qed

text \<open>C38: 
  The reader reads every file the generator writes as the tasks it was written from, numbered from 0.
\<close>

theorem taskset_file_round_trip:
  assumes "\<forall>d \<in> set ds. in_range d" "int (length ds) < 2 ^ 31"
  shows "read_taskset True (taskset_file ds) = Some (Inr (numbered 0 ds))"
  by (rule read_back [OF assms])

text \<open>A file with fewer rows than it announces: the last row is read again for every missing one.\<close>

theorem short_file_repeats_last_task:
  assumes "in_range d"
  shows "read_rows n i (Some (task_line j d)) [] =
    Some (Inr (map (\<lambda>k. init_task k (d_C d) (d_T d) (d_D d)) [i..<i + n]))"
proof (induction n arbitrary: i)
  case (Suc n)
  have "fgets MAX_BUF [] = None" by (simp add: fgets_def)
  then show ?case
    using read_row [OF assms, of n i j "[]"] Suc.IH [of "Suc i"]
    by (simp add: task_line_row upt_conv_Cons del: upt_Suc read_rows.simps)
qed simp

section \<open>Deadline-monotonic priorities\<close>

definition params :: "task_t \<Rightarrow> int \<times> int \<times> int \<times> int" where
  "params t = (t_D t, t_tid t, t_C t, t_T t)"

lemma dm_step_params:
  assumes "0 < j" "j < length ts"
  shows "map params (dm_step j ts) = bubble_step fst j (map params ts) \<and> length (dm_step j ts) = length ts \<and>
    map t_prio (dm_step j ts) = map t_prio ts"
proof -
  have "map t_prio (ts[j := set_params x (ts ! j), j - 1 := set_params y (ts ! (j - 1))]) = map t_prio ts" for x y
    using assms by (intro nth_equalityI) (auto simp: nth_list_update set_params_def)
  then show ?thesis
    using assms by (auto simp: dm_step_def bubble_step_def params_def set_params_def map_update)
qed

lemma dm_fold_params:
  assumes "\<forall>j \<in> set js. 0 < j \<and> j < length ts"
  shows "map params (fold dm_step js ts) = fold (bubble_step fst) js (map params ts) \<and>
    length (fold dm_step js ts) = length ts \<and> map t_prio (fold dm_step js ts) = map t_prio ts"
  using assms
proof (induction js arbitrary: ts)
  case (Cons j js)
  then show ?case using dm_step_params [of j ts] by simp
qed simp

lemma dm_pass_params:
  "map params (dm_pass i ts) = bubble_pass fst i (map params ts) \<and> length (dm_pass i ts) = length ts"
  using dm_fold_params [of "rev [i + 1..<length ts]" ts] by (simp add: dm_pass_def bubble_pass_def)

lemma dm_passes_params:
  "map params (fold dm_pass is ts) = fold (bubble_pass fst) is (map params ts) \<and> length (fold dm_pass is ts) = length ts"
  by (induction "is" arbitrary: ts) (simp_all add: dm_pass_params)

lemma dm_sort_params: "map params (dm_sort ts) = sort_key fst (map params ts)" "length (dm_sort ts) = length ts"
  using dm_passes_params [of "[0..<length ts - 1]" ts] bubble_sort_key [of fst "map params ts"]
  by (simp_all add: dm_sort_def bubble_sort_def)

lemma dm_params: "map params (deadline_monotonic_priority ts) = sort_key fst (map params ts)"
proof -
  have "map params (deadline_monotonic_priority ts) = map params (dm_sort ts)"
    by (intro nth_equalityI) (simp_all add: deadline_monotonic_priority_def params_def Let_def)
  then show ?thesis by (simp add: dm_sort_params(1))
qed

text \<open>C39: 
  The sort is the stable sort by deadlines, and the priorities fall by one from 96: a task with an earlier
  deadline has a higher priority, equal deadlines keep the order of the file.
\<close>

theorem priorities_deadline_monotonic:
  assumes "int (length ts) < 2 ^ 30"
  shows "map params (deadline_monotonic_priority ts) = sort_key fst (map params ts) \<and>
    map t_prio (deadline_monotonic_priority ts) = map (\<lambda>i. RESCH_APP_PRIO_MAX - int i) [0..<length ts]"
proof -
  have p: "ulong_to_int (word_of_int (RESCH_APP_PRIO_MAX - int i)) = RESCH_APP_PRIO_MAX - int i" if "i < length ts" for i
    by (rule rid_arrives) (use that assms in \<open>simp_all add: RESCH_APP_PRIO_MAX_def\<close>)
  show ?thesis using p by (simp add: dm_params) (simp add: deadline_monotonic_priority_def dm_sort_params(2) Let_def)
qed

text \<open>From the 94th task on the priorities are below the range of the library, from the 97th on not positive.\<close>

lemma priorities_leave_range:
  "RESCH_APP_PRIO_MAX - int 93 < RESCH_APP_PRIO_MIN" "RESCH_APP_PRIO_MAX - int 96 \<le> 0"
  by (simp_all add: RESCH_APP_PRIO_MAX_def RESCH_APP_PRIO_MIN_def)

section \<open>Examples\<close>

definition ds0 :: "taskdata_t list" where
  "ds0 = [\<lparr>d_C = 3, d_T = 40, d_D = 40\<rparr>, \<lparr>d_C = 5, d_T = 20, d_D = 12\<rparr>, \<lparr>d_C = 1, d_T = 90, d_D = 40\<rparr>]"

theorem taskset_file_round_trip_witness:
  "read_taskset True (taskset_file ds0) = Some (Inr (numbered 0 ds0))"
  by (rule taskset_file_round_trip) (simp_all add: ds0_def in_range_def int_range_def)

theorem priorities_deadline_monotonic_witness:
  "map params (deadline_monotonic_priority (numbered 0 ds0)) = sort_key fst (map params (numbered 0 ds0)) \<and>
    map t_prio (deadline_monotonic_priority (numbered 0 ds0)) = map (\<lambda>i. RESCH_APP_PRIO_MAX - int i) [0..<length (numbered 0 ds0)]"
  by (rule priorities_deadline_monotonic) (simp add: ds0_def)

theorem generated_in_range_witness:
  "\<exists>ds. generate_tasks None 10 1000 Constrained (\<lambda>i. int i * 7) (\<lambda>i T. T div 2) 4 = Some ds \<and> length ds = 4 \<and>
    (\<forall>d \<in> set ds. 10 \<le> d_T d \<and> d_T d < 1000 \<and> 0 \<le> d_C d \<and> d_C d < d_T d \<and> deadline_ok Constrained d)"
  by (rule generated_in_range) auto

theorem harmonic_periods_witness:
  "\<exists>n. make_harmonic_periods 10 1000 0 = Some (map (\<lambda>i. 10 * 2 ^ i) [0..<n], n) \<and> 0 < n \<and>
    (10 :: int) * 2 ^ (n - 1) \<le> 1000 \<and> 1000 < (10 :: int) * 2 ^ n \<and>
    (\<forall>ps m. make_harmonic_periods 10 1000 n = Some (ps, m) \<longrightarrow> (\<exists>p \<in> set ps. 1000 < p))"
  by (rule harmonic_periods) simp_all

end
