(* ===== verification/Bench.thy ===== *)
theory Bench
  imports Task_Set "HOL-Library.Signed_Division"
begin

text \<open>
  The schedulability benchmarks \<open>src/bench/schedbench\<close> and \<open>src/bench/resbench\<close>: a task of a task set as
  a client of \<open>libresch.c\<close>, the verdict on a task set, the calibration of the busy loop, the options and the
  sweep over the workloads.
\<close>

section \<open>A task of a task set\<close>

definition RET_SUCCESS :: int where "RET_SUCCESS = 1"
definition RET_MISS :: int where "RET_MISS = 0"
definition DEFAULT_TIMEOUT :: u64 where "DEFAULT_TIMEOUT = 1000"
definition RES_DEFAULT_TIMEOUT :: u64 where "RES_DEFAULT_TIMEOUT = 500"
definition SCHED_FAIR :: int where "SCHED_FAIR = 0"
definition SCHED_FP :: int where "SCHED_FP = 1"
definition SCHED_EDF :: int where "SCHED_EDF = 2"

lemmas bench_consts = RET_SUCCESS_def RET_MISS_def DEFAULT_TIMEOUT_def RES_DEFAULT_TIMEOUT_def SCHED_FAIR_def
  SCHED_FP_def SCHED_EDF_def

definition ms_to_timespec :: "u64 \<Rightarrow> u64 \<times> u64" where
  "ms_to_timespec ms = (let sec = ms div 1000 in (sec, (ms - sec * 1000) * 1000000))"

text \<open>
  The jobs: what happens during the computation of a job is a function, \<open>busy\<close>; the first missed deadline
  ends the loop.
\<close>

primrec run_jobs ::
  "'p plugin_struct \<Rightarrow> kenv \<Rightarrow> call_env \<Rightarrow> lib \<Rightarrow> ('p sys \<Rightarrow> 'p sys) \<Rightarrow> nat \<Rightarrow> 'p sys \<Rightarrow> (int \<times> 'p sys) option" where
  "run_jobs pl k e l busy 0 s = Some (RET_SUCCESS, s)"
| "run_jobs pl k e l busy (Suc n) s =
     do { (ok, s) \<leftarrow> rt_wait_period pl k e l (busy s);
          if ok = 0 then Some (RET_MISS, s) else run_jobs pl k e l busy n s }"

definition set_up_task ::
  "'p plugin_struct \<Rightarrow> kenv \<Rightarrow> call_env \<Rightarrow> lib \<Rightarrow> task_t \<Rightarrow> int \<Rightarrow> 'p sys \<Rightarrow> 'p sys option" where
  "set_up_task pl k e l t pol s =
     do { (_, s) \<leftarrow> rt_set_wcet pl k e l (ms_to_timespec (word_of_int (t_C t))) s;
          (_, s) \<leftarrow> rt_set_period pl k e l (ms_to_timespec (word_of_int (t_T t))) s;
          (_, s) \<leftarrow> rt_set_deadline pl k e l (ms_to_timespec (word_of_int (t_D t))) s;
          (_, s) \<leftarrow> rt_set_scheduler pl k e l (word_of_int pol) s;
          if pol = SCHED_FP
          then map_option snd (rt_set_priority pl k e l (word_of_int (t_prio t)) s) else Some s }"

definition nr_jobs :: "int \<Rightarrow> task_t \<Rightarrow> nat option" where
  "nr_jobs time t = (if t_T t = 0 then None else Some (nat (time sdiv t_T t)))"

definition sched_exec_task ::
  "'p plugin_struct \<Rightarrow> kenv \<Rightarrow> call_env \<Rightarrow> lib \<Rightarrow> ('p sys \<Rightarrow> 'p sys) \<Rightarrow> task_t \<Rightarrow> int \<Rightarrow> int \<Rightarrow> 'p sys \<Rightarrow>
   (int \<times> lib \<times> 'p sys) option" where
  "sched_exec_task pl k e l busy t time pol s =
     do { n \<leftarrow> nr_jobs time t;
          (r, l, s) \<leftarrow> rt_init pl k e l s;
          if r < 0 then Some (RET_MISS, l, s)
          else do { s \<leftarrow> set_up_task pl k e l t pol s;
                    (_, s) \<leftarrow> rt_run pl k e l (ms_to_timespec DEFAULT_TIMEOUT) s;
                    (ret, s) \<leftarrow> run_jobs pl k e l busy n s;
                    (_, s) \<leftarrow> rt_exit pl k e l s;
                    Some (ret, l, s) } }"

text \<open>
  A task of \<open>resbench\<close> also reserves its execution time, and computes until the signal of the reserve; here
  \<open>busy\<close> ends with that signal. The number of the handler is \<open>h\<close>.
\<close>

definition res_exec_task ::
  "'p plugin_struct \<Rightarrow> kenv \<Rightarrow> call_env \<Rightarrow> lib \<Rightarrow> nat \<Rightarrow> ('p sys \<Rightarrow> 'p sys) \<Rightarrow> task_t \<Rightarrow> int \<Rightarrow> int \<Rightarrow> 'p sys \<Rightarrow>
   (int \<times> lib \<times> 'p sys) option" where
  "res_exec_task pl k e l h busy t simtime pol s =
     do { n \<leftarrow> nr_jobs simtime t;
          (r, l, s) \<leftarrow> rt_init pl k e l s;
          if r = 0 then Some (RET_MISS, l, s)
          else do { s \<leftarrow> set_up_task pl k e l t pol s;
                    (_, l, s) \<leftarrow> rt_reserve_start pl k e l (ms_to_timespec (word_of_int (t_C t))) (Some h) s;
                    (_, s) \<leftarrow> rt_run pl k e l (ms_to_timespec RES_DEFAULT_TIMEOUT) s;
                    (ret, s) \<leftarrow> run_jobs pl k e l busy n s;
                    (_, s) \<leftarrow> rt_reserve_stop pl k e l s;
                    (_, s) \<leftarrow> rt_exit pl k e l s;
                    Some (ret, l, s) } }"

section \<open>A task set\<close>

text \<open>
  Every task runs in a process of its own; \<open>run\<close> is what the system makes of them, the statuses that \<open>wait\<close>
  reports.
\<close>

datatype wait_status = Exited int | Anomaly

fun verdict :: "bool \<Rightarrow> wait_status list \<Rightarrow> bool" where
  "verdict ret [] = ret"
| "verdict ret (Exited x # sts) = verdict (if x = RET_MISS then False else ret) sts"
| "verdict ret (Anomaly # sts) = verdict False sts"

definition bench_schedule :: "bool \<Rightarrow> (task_t list \<Rightarrow> wait_status list) \<Rightarrow> string \<Rightarrow> (int + bool) option" where
  "bench_schedule mem run fp =
     do { r \<leftarrow> read_taskset mem fp;
          Some (map_sum id (\<lambda>ts. verdict True (run (deadline_monotonic_priority ts))) r) }"

section \<open>Calibration\<close>

text \<open>\<open>timeval_sub\<close> for the times \<open>(sec, usec)\<close>.\<close>

definition timeval_sub :: "int \<times> int \<Rightarrow> int \<times> int \<Rightarrow> int \<times> int" where
  "timeval_sub a b =
     (let sec = fst a - fst b; usec = snd a - snd b
      in if usec < 0 then (sec - 1, usec + 1000000) else (sec, usec))"

text \<open>
  \<open>measure_1ms\<close>: \<open>clock n\<close> are the times before and after \<open>n\<close> rounds of the loop. Only the microseconds of the
  difference are compared.
\<close>

partial_function (option) calibrate :: "(int \<Rightarrow> (int \<times> int) \<times> (int \<times> int)) \<Rightarrow> int \<Rightarrow> int option" where
  "calibrate clock loop_1ms =
     (let usec = snd (timeval_sub (snd (clock loop_1ms)) (fst (clock loop_1ms)))
      in if usec \<noteq> 1000
         then if int_range (loop_1ms + 3 * (1000 - usec)) then calibrate clock (loop_1ms + 3 * (1000 - usec)) else None
         else Some loop_1ms)"

definition measure_1ms :: "(int \<Rightarrow> (int \<times> int) \<times> (int \<times> int)) \<Rightarrow> int option" where
  "measure_1ms clock = calibrate clock 1000"

section \<open>Options\<close>

record options =
  o_cpus :: int
  o_umin :: string
  o_umax :: string
  o_pmin :: string
  o_pmax :: string
  o_dist :: string
  o_sep :: string
  o_prob :: string
  o_mean :: string
  o_deadline :: string
  o_period :: string
  o_time :: int
  o_start :: int
  o_end :: int
  o_step :: int
  o_quantity :: int
  o_result :: string
  o_policy :: int
  o_print :: bool

definition default_options :: options where
  "default_options =
     \<lparr>o_cpus = int NR_RT_CPUS, o_umin = ''0.1'', o_umax = ''1.0'', o_pmin = ''10'', o_pmax = ''1000'', o_dist = ''uniform'',
      o_sep = ''0.5'', o_prob = ''0.5'', o_mean = ''0.5'', o_deadline = ''implicit'', o_period = ''nonharmonic'',
      o_time = 1000000, o_start = 50, o_end = 100, o_step = 5, o_quantity = 1000, o_result = ''./result'',
      o_policy = SCHED_FP, o_print = False\<rparr>"

text \<open>
  An option with a number, with a text (cut to the buffer), without a value, and \<open>--help\<close>, which ends the
  program. The first entry whose name begins the argument counts.
\<close>

datatype option_kind =
    Number "int \<Rightarrow> options \<Rightarrow> options"
  | Text "string \<Rightarrow> options \<Rightarrow> options"
  | Flag "options \<Rightarrow> options"
  | Help

definition option_table :: "(string \<times> option_kind) list" where
  "option_table =
     [(''--cpus'', Number (\<lambda>v. o_cpus_update (\<lambda>_. v))), (''--umin'', Text (\<lambda>v. o_umin_update (\<lambda>_. v))),
      (''--umax'', Text (\<lambda>v. o_umax_update (\<lambda>_. v))), (''--pmin'', Text (\<lambda>v. o_pmin_update (\<lambda>_. v))),
      (''--pmax'', Text (\<lambda>v. o_pmax_update (\<lambda>_. v))), (''--dist'', Text (\<lambda>v. o_dist_update (\<lambda>_. v))),
      (''--sep'', Text (\<lambda>v. o_sep_update (\<lambda>_. v))), (''--prob'', Text (\<lambda>v. o_prob_update (\<lambda>_. v))),
      (''--mean'', Text (\<lambda>v. o_mean_update (\<lambda>_. v))), (''--deadline'', Text (\<lambda>v. o_deadline_update (\<lambda>_. v))),
      (''--period'', Text (\<lambda>v. o_period_update (\<lambda>_. v))), (''--time'', Number (\<lambda>v. o_time_update (\<lambda>_. v))),
      (''--start'', Number (\<lambda>v. o_start_update (\<lambda>_. v))), (''--end'', Number (\<lambda>v. o_end_update (\<lambda>_. v))),
      (''--step'', Number (\<lambda>v. o_step_update (\<lambda>_. v))), (''--quantity'', Number (\<lambda>v. o_quantity_update (\<lambda>_. v))),
      (''--result'', Text (\<lambda>v. o_result_update (\<lambda>_. v))), (''--edf'', Flag (o_policy_update (\<lambda>_. SCHED_EDF))),
      (''--fair'', Flag (o_policy_update (\<lambda>_. SCHED_FAIR))), (''--print'', Flag (o_print_update (\<lambda>_. True))),
      (''--help'', Help)]"

definition begins :: "string \<Rightarrow> string \<Rightarrow> bool" where
  "begins p s \<longleftrightarrow> take (length p) s = p"

text \<open>\<open>Inl\<close> is the exit status of the program.\<close>

definition parse_value :: "(string \<Rightarrow> options \<Rightarrow> options option) \<Rightarrow> string \<Rightarrow> options \<Rightarrow> (int + options) option" where
  "parse_value f s opts =
     (case s of CHR ''='' # v \<Rightarrow> map_option Inr (f v opts) | _ \<Rightarrow> Some (Inl 1))"

fun parse_option :: "(string \<times> option_kind) list \<Rightarrow> string \<Rightarrow> options \<Rightarrow> (int + options) option" where
  "parse_option [] arg opts = Some (Inl 1)"
| "parse_option ((name, kind) # table) arg opts =
     (if begins name arg then
        (case kind of
           Number f \<Rightarrow> parse_value (\<lambda>v opts. do { n \<leftarrow> atoi v; Some (f n opts) }) (drop (length name) arg) opts
         | Text f \<Rightarrow> parse_value (\<lambda>v opts. Some (f (take MAX_BUF v) opts)) (drop (length name) arg) opts
         | Flag f \<Rightarrow> Some (Inr (f opts))
         | Help \<Rightarrow> Some (Inl 0))
      else parse_option table arg opts)"

fun parse_options :: "(string \<times> option_kind) list \<Rightarrow> string list \<Rightarrow> options \<Rightarrow> (int + options) option" where
  "parse_options table [] opts = Some (Inr opts)"
| "parse_options table (arg # args) opts =
     do { r \<leftarrow> parse_option table arg opts;
          case r of Inl x \<Rightarrow> Some (Inl x) | Inr opts \<Rightarrow> parse_options table args opts }"

section \<open>The sweep\<close>

text \<open>A file that cannot be opened and a file in the wrong format end the program.\<close>

datatype 'a outcome = Done 'a | No_file | Exit int

fun count_successes :: "(string \<Rightarrow> (int + bool) option) \<Rightarrow> string option list \<Rightarrow> nat \<Rightarrow> nat outcome option" where
  "count_successes sched [] nr_success = Some (Done nr_success)"
| "count_successes sched (None # files) nr_success = Some No_file"
| "count_successes sched (Some fp # files) nr_success =
     do { r \<leftarrow> sched fp;
          case r of Inl x \<Rightarrow> Some (Exit x)
          | Inr ok \<Rightarrow> count_successes sched files (if ok then nr_success + 1 else nr_success) }"

text \<open>
  The loop over the workloads; \<open>run\<close> counts the successes of one. A ratio is kept as the number of
  successes, \<open>n\<close> is the size of the array.
\<close>

function sweep ::
  "(int \<Rightarrow> nat outcome option) \<Rightarrow> nat \<Rightarrow> int \<Rightarrow> int \<Rightarrow> int \<Rightarrow> nat list \<Rightarrow> nat list outcome option" where
  "sweep run n high step workload ratios =
     (if workload > high then Some (Done ratios)
      else case run workload of
             None \<Rightarrow> None
           | Some No_file \<Rightarrow> Some No_file
           | Some (Exit x) \<Rightarrow> Some (Exit x)
           | Some (Done nr_success) \<Rightarrow>
               if length ratios < n then sweep run n high step (workload + step) (ratios @ [nr_success]) else None)"
  by pat_completeness auto
termination
  by (relation "measure (\<lambda>(run, n, high, step, workload, ratios). n - length ratios)") auto

text \<open>The size of the array is computed before the bounds are multiplied by the number of CPUs.\<close>

definition bench_sweep :: "(int \<Rightarrow> nat outcome option) \<Rightarrow> options \<Rightarrow> nat list outcome option" where
  "bench_sweep run opts =
     (if o_step opts = 0 then None
      else sweep run (nat ((o_end opts - o_start opts) sdiv o_step opts + 1)) (o_end opts * o_cpus opts)
        (o_step opts * o_cpus opts) (o_start opts * o_cpus opts) [])"

declare sweep.simps [simp del]

section \<open>Properties of the sweep\<close>

lemma sweep_runs:
  assumes "\<forall>w. run w = Some (Done (f w))" "0 < step" "w \<le> high + step" "n = length rs + nat ((high - w + step) div step)"
  shows "sweep run n high step w rs = Some (Done (rs @ map (\<lambda>i. f (w + int i * step)) [0..<n - length rs]))"
  using assms(3,4)
proof (induction "n - length rs" arbitrary: w rs)
  case 0
  then have "(high - w + step) div step \<le> 0" by simp
  then have "\<not> w \<le> high" using assms(2) pos_imp_zdiv_pos_iff [OF assms(2), of "high - w + step"] by linarith
  then show ?case using 0 by (simp add: sweep.simps)
next
  case (Suc d)
  have "0 < (high - w + step) div step" using Suc.hyps(2) Suc.prems(2) by simp
  then have w: "w \<le> high" using assms(2) by (simp add: pos_imp_zdiv_pos_iff)
  have n: "nat ((high - w + step) div step) = Suc d" using Suc.hyps(2) Suc.prems(2) by simp
  have q: "(high - (w + step) + step) div step = (high - w + step) div step - 1"
    using div_add_self2 [of step "high - w"] assms(2) by (simp add: algebra_simps)
  have r: "sweep run n high step (w + step) (rs @ [f w]) =
      Some (Done ((rs @ [f w]) @ map (\<lambda>i. f (w + step + int i * step)) [0..<n - length (rs @ [f w])]))"
  proof (rule Suc.hyps(1))
    show "d = n - length (rs @ [f w])" using Suc.hyps(2) by simp
    show "w + step \<le> high + step" using w by simp
    have "nat ((high - (w + step) + step) div step) = d" unfolding q using n by linarith
    then show "n = length (rs @ [f w]) + nat ((high - (w + step) + step) div step)"
      using Suc.prems(2) n by simp
  qed
  have l: "length rs < n" using Suc.hyps(2) by linarith
  have "sweep run n high step w rs = sweep run n high step (w + step) (rs @ [f w])"
    using w assms(1) l by (simp add: sweep.simps [of run n high step w rs])
  also have "\<dots> = Some (Done (rs @ f w # map (\<lambda>i. f (w + step + int i * step)) [0..<d]))"
  proof -
    have "n - length (rs @ [f w]) = d" using Suc.hyps(2) by simp
    then show ?thesis using r by simp
  qed
  also have "f w # map (\<lambda>i. f (w + step + int i * step)) [0..<d] = map (\<lambda>i. f (w + int i * step)) [0..<Suc d]"
    by (simp add: map_upt_Suc algebra_simps del: upt_Suc)
  finally show ?case unfolding Suc.hyps(2) .
qed

text \<open>
  With a positive step and at least one CPU the sweep fills exactly the array: one entry per step from the
  first to the last utilisation, for the workload times the number of CPUs.
\<close>

theorem sweep_fills_array:
  assumes "\<forall>w. run w = Some (Done (f w))" "0 < o_step opts" "0 < o_cpus opts" "o_start opts \<le> o_end opts"
  shows "bench_sweep run opts = Some (Done
    (map (\<lambda>i. f ((o_start opts + int i * o_step opts) * o_cpus opts)) [0..<nat ((o_end opts - o_start opts) div o_step opts + 1)]))"
proof -
  define a b c m where "a = o_start opts" and "b = o_end opts" and "c = o_step opts" and "m = o_cpus opts"
  have s: "(b - a) sdiv c = (b - a) div c"
    using assms(2,4) by (cases "a = b") (simp_all add: a_def b_def c_def signed_divide_int_def sgn_if)
  have "(b * m - a * m + c * m) div (c * m) = ((b - a + c) * m) div (c * m)" by (simp add: algebra_simps)
  also have "\<dots> = (b - a) div c + 1"
    using assms(2,3) div_add_self2 [of c "b - a"] by (simp add: c_def m_def)
  finally have q: "(b * m - a * m + c * m) div (c * m) = (b - a) div c + 1" .
  have "0 < c * m" "a * m \<le> b * m + c * m"
    using assms(2-4) by (simp_all add: a_def b_def c_def m_def add_increasing2 mult_right_mono)
  from sweep_runs [OF assms(1) this, of "nat ((b - a) div c + 1)" "[]"] q
  have "sweep run (nat ((b - a) div c + 1)) (b * m) (c * m) (a * m) [] =
      Some (Done (map (\<lambda>i. f (a * m + int i * (c * m))) [0..<nat ((b - a) div c + 1)]))" by simp
  then show ?thesis
    using assms(2) s by (simp add: bench_sweep_def a_def b_def c_def m_def algebra_simps)
qed

text \<open>\<open>--cpus=0\<close> makes the step zero: the same workload is run again and again, until the array is full.\<close>

theorem zero_cpus_overruns_array:
  assumes "run 0 = Some (Done x)" "0 < o_step opts" "o_cpus opts = 0"
  shows "bench_sweep run opts = None"
proof -
  have "sweep run n 0 0 0 rs = None" for n rs
  proof (induction "n - length rs" arbitrary: rs)
    case 0
    then show ?case using assms(1) by (subst sweep.simps) simp
  next
    case (Suc d)
    then show ?case using assms(1) Suc.hyps(1) [of "rs @ [x]"] by (subst sweep.simps) simp
  qed
  with assms(2,3) show ?thesis by (simp add: bench_sweep_def)
qed

text \<open>\<open>--step=0\<close> divides by zero.\<close>

lemma zero_step: "o_step opts = 0 \<Longrightarrow> bench_sweep run opts = None"
  by (simp add: bench_sweep_def)

section \<open>Properties of a task set\<close>

lemma verdict_all: "verdict ret sts \<longleftrightarrow> ret \<and> (\<forall>st \<in> set sts. \<exists>x. st = Exited x \<and> x \<noteq> RET_MISS)"
  by (induction ret sts rule: verdict.induct) auto

lemma calls_without_device:
  assumes "\<not> opens e"
  shows "rt_wait_period pl k e l s = Some (1, s)" "rt_init pl k e l s = Some (RES_FAULT, l\<lparr>l_rid := RES_FAULT\<rparr>, s)"
    "set_up_task pl k e l t pol s = Some s" "rt_run pl k e l ts s = Some (0, s)" "rt_exit pl k e l s = Some (0, s)"
  using assms
  by (simp_all add: set_up_task_def rt_wait_period_def rt_init_def rt_set_wcet_def rt_set_period_def rt_set_deadline_def
      rt_set_scheduler_def rt_set_priority_def rt_run_def rt_exit_def lib_calls write_call_failures)

lemma jobs_without_device:
  "\<not> opens e \<Longrightarrow> run_jobs pl k e l busy n s = Some (RET_SUCCESS, (busy ^^ n) s)"
  by (induction n arbitrary: s) (simp_all add: calls_without_device funpow_swap1)

text \<open>
  Without the module every task of \<open>schedbench\<close> is a success: \<open>rt_init\<close> answers the positive code of the
  fault, and a wait that cannot reach the device answers that the deadline was met.
\<close>

lemma task_without_device:
  assumes "\<not> opens e" "t_T t \<noteq> 0"
  shows "sched_exec_task pl k e l busy t time pol s =
    Some (RET_SUCCESS, l\<lparr>l_rid := RES_FAULT\<rparr>, (busy ^^ nat (time sdiv t_T t)) s)"
  using assms
  by (simp add: sched_exec_task_def nr_jobs_def calls_without_device jobs_without_device RES_FAULT_def)

text \<open>Each task in a process of its own, from some state of the system.\<close>

definition run_processes ::
  "'p plugin_struct \<Rightarrow> kenv \<Rightarrow> call_env \<Rightarrow> ('p sys \<Rightarrow> 'p sys) \<Rightarrow> int \<Rightarrow> int \<Rightarrow> (task_t \<Rightarrow> 'p sys) \<Rightarrow> task_t list \<Rightarrow> wait_status list" where
  "run_processes pl k e busy time pol st ts =
     map (\<lambda>t. case sched_exec_task pl k e lib0 busy t time pol (st t) of Some (ret, _) \<Rightarrow> Exited ret | None \<Rightarrow> Anomaly) ts"

lemma numbered_params: "map params (numbered i ds) = map (\<lambda>(j, d). (d_D d, int j, d_C d, d_T d)) (zip [i..<i + length ds] ds)"
proof (induction ds arbitrary: i)
  case (Cons d ds)
  then show ?case by (simp add: params_def init_task_def upt_conv_Cons del: upt_Suc)
qed simp

lemma priority_periods:
  assumes "t \<in> set (deadline_monotonic_priority (numbered 0 ds))" "int (length ds) < 2 ^ 30"
  shows "\<exists>d \<in> set ds. t_T t = d_T d"
proof -
  have l: "length (numbered 0 ds) = length ds" using arg_cong [OF numbered_params, of length 0 ds] by simp
  have "params t \<in> set (map params (deadline_monotonic_priority (numbered 0 ds)))" using assms(1) by simp
  also have "\<dots> = set (map params (numbered 0 ds))"
    using dm_params l assms(2) by simp
  finally obtain j d where "(j, d) \<in> set (zip [0..<length ds] ds)" "params t = (d_D d, int j, d_C d, d_T d)"
    unfolding numbered_params by auto
  then show ?thesis by (auto simp: params_def dest: set_zip_rightD)
qed

text \<open>C40: 
  So the benchmark without the module counts every task set in a file as schedulable, whatever its
  utilisation: the parameters of the tasks are values of an \<open>int\<close> (\<open>in_range\<close>), there are fewer
  than \<open>2 ^ 30\<close> tasks, and no period is 0, by which the benchmark would divide.
\<close>

theorem benchmark_succeeds_without_module:
  assumes "\<not> opens e" "\<forall>d \<in> set ds. in_range d \<and> d_T d \<noteq> 0" "int (length ds) < 2 ^ 30"
  shows "bench_schedule True (run_processes pl k e busy time pol st) (taskset_file ds) = Some (Inr True)"
proof -
  have r: "read_taskset True (taskset_file ds) = Some (Inr (numbered 0 ds))"
    using read_back [of ds] assms(2,3) by simp
  have "t_T t \<noteq> 0" if "t \<in> set (deadline_monotonic_priority (numbered 0 ds))" for t
    using priority_periods [OF that assms(3)] assms(2) by auto
  then have "verdict True (run_processes pl k e busy time pol st (deadline_monotonic_priority (numbered 0 ds)))"
    by (auto simp: verdict_all run_processes_def task_without_device [OF assms(1)] bench_consts)
  with r show ?thesis by (simp add: bench_schedule_def)
qed

text \<open>
  The first task of every task set of \<open>resbench\<close> gets the ID 0, which it takes for a failure: it reports a
  miss without running a job and leaves without detaching from the core.
\<close>

theorem resbench_first_task_misses:
  assumes "opens e" "copies e" "core_wf s" "length (pid_map s) = PID_MAP_LONG" "\<not> bm_bit (pid_map s) 0"
    and "\<forall>n < NR_RT_TASKS. \<not> bm_bit (pid_map s) n \<longrightarrow> \<not> task_is_managed s n \<and>
       active_entry (tcb s n) = None \<and> component_entry (tcb s n) = None"
    and "t_T t \<noteq> 0"
  shows "\<exists>s'. res_exec_task pl k e lib0 h busy t simtime pol (s, w) = Some (RET_MISS, lib0\<lparr>l_rid := 0\<rparr>, (s', w)) \<and>
    bm_bit (pid_map s') 0"
proof -
  have f: "\<exists>n < NR_RT_TASKS. \<not> bm_bit (pid_map s) n" using assms(5) by (intro exI [of _ 0]) (simp add: NR_RT_TASKS_def)
  obtain r s' where i: "api_init k s = Some (int r, s')" "\<forall>m < r. bm_bit (pid_map s) m"
    "\<forall>m. bm_bit (pid_map s') m \<longleftrightarrow> m = r \<or> bm_bit (pid_map s) m"
    using api_init_least [OF assms(3,4) f assms(6)] by blast
  then have "r = 0" using assms(5) by (cases r) auto
  then have "rt_init pl k e lib0 (s, w) = Some (0, lib0\<lparr>l_rid := 0\<rparr>, (s', w))"
    using assms(1,2) i(1)
    by (simp add: rt_init_def api_call_def write_call_def resch_write_def api_numbers on_core_def api_user_struct_def
        sys_ret_def)
  then show ?thesis using i(3) \<open>r = 0\<close> assms(7) by (simp add: res_exec_task_def nr_jobs_def)
qed

section \<open>Properties of the calibration\<close>

text \<open>On a machine whose loop takes a microsecond per round, and on one that takes two.\<close>

definition loop_clock :: "int \<Rightarrow> int \<Rightarrow> (int \<times> int) \<times> (int \<times> int)" where
  "loop_clock us n = (let d = us * max n 0 in ((0, 0), (d div 1000000, d mod 1000000)))"

lemma calibrate_one: "measure_1ms (loop_clock 1) = Some 1000"
  by (simp add: measure_1ms_def calibrate.simps loop_clock_def timeval_sub_def)

theorem calibration_cycles:
  "measure_1ms (loop_clock 2) = None"
proof (cases "measure_1ms (loop_clock 2)")
  case (Some r)
  have "\<not> (c = loop_clock 2 \<and> (n = 1000 \<or> n = - 2000))" if "calibrate c n = Some y" for c n y
  proof (rule calibrate.raw_induct [rotated, OF that, where P = "\<lambda>c n y. \<not> (c = loop_clock 2 \<and> (n = 1000 \<or> n = - 2000))"])
    fix rec :: "(int \<Rightarrow> (int \<times> int) \<times> (int \<times> int)) \<Rightarrow> int \<Rightarrow> int option" and c n y
    assume "\<And>c n y. rec c n = Some y \<Longrightarrow> \<not> (c = loop_clock 2 \<and> (n = 1000 \<or> n = - 2000))"
      and "(let usec = snd (timeval_sub (snd (c n)) (fst (c n)))
            in if usec \<noteq> 1000
               then if int_range (n + 3 * (1000 - usec)) then rec c (n + 3 * (1000 - usec)) else None
               else Some n) = Some y"
    then show "\<not> (c = loop_clock 2 \<and> (n = 1000 \<or> n = - 2000))"
      by (fastforce simp: loop_clock_def timeval_sub_def Let_def split: if_splits)
  qed
  from this [of "loop_clock 2" 1000 r] Some show ?thesis by (simp add: measure_1ms_def)
qed simp

section \<open>Properties of the options\<close>

text \<open>Numbers arrive as they are printed; an unknown option ends the program with status 1.\<close>

theorem numeric_options:
  assumes "int_range a" "int_range b" "int_range c" "int_range m"
  shows "parse_options option_table [''--start='' @ print_int a, ''--end='' @ print_int b, ''--step='' @ print_int c,
      ''--cpus='' @ print_int m] default_options =
    Some (Inr (default_options\<lparr>o_start := a, o_end := b, o_step := c, o_cpus := m\<rparr>))"
proof -
  have "atoi (print_int i) = Some i" if "int_range i" for i using atoi_print [OF that, of "[]"] by simp
  with assms show ?thesis by (simp add: option_table_def begins_def parse_value_def)
qed

section \<open>Examples\<close>

definition sweep_opts :: options where
  "sweep_opts = default_options\<lparr>o_cpus := 2, o_step := 20\<rparr>"

theorem sweep_fills_array_witness:
  "bench_sweep (\<lambda>w. Some (Done (nat w))) sweep_opts = Some (Done
    (map (\<lambda>i. nat ((o_start sweep_opts + int i * o_step sweep_opts) * o_cpus sweep_opts))
      [0..<nat ((o_end sweep_opts - o_start sweep_opts) div o_step sweep_opts + 1)]))"
  by (rule sweep_fills_array) (simp_all add: sweep_opts_def default_options_def)

theorem zero_cpus_overruns_array_witness:
  "bench_sweep (\<lambda>w. Some (Done 7)) (default_options\<lparr>o_cpus := 0\<rparr>) = None"
  by (rule zero_cpus_overruns_array [where x = 7]) (simp_all add: default_options_def)

theorem benchmark_succeeds_without_module_witness:
  "bench_schedule True (run_processes no_plugin kernel0 (device_env False) (\<lambda>s. s) 1000000 SCHED_FP (\<lambda>_. (boot, ())))
    (taskset_file ds0) = Some (Inr True)"
  by (rule benchmark_succeeds_without_module)
     (simp_all add: device_env_def ds0_def in_range_def int_range_def)

theorem resbench_first_task_misses_witness:
  "\<exists>s'. res_exec_task no_plugin kernel0 (device_env True) lib0 1 (\<lambda>s. s) (init_task 0 3 40 40) 1000 SCHED_FP (boot, ())
      = Some (RET_MISS, lib0\<lparr>l_rid := 0\<rparr>, (s', ())) \<and> bm_bit (pid_map s') 0"
  by (rule resbench_first_task_misses [OF _ _ boot_core_wf])
     (simp_all add: device_env_def boot_bits init_task_def task_is_managed_def boot_defs)

theorem numeric_options_witness:
  "parse_options option_table [''--start='' @ print_int 20, ''--end='' @ print_int 60, ''--step='' @ print_int 10,
      ''--cpus='' @ print_int (-1)] default_options =
    Some (Inr (default_options\<lparr>o_start := 20, o_end := 60, o_step := 10, o_cpus := -1\<rparr>))"
  by (rule numeric_options) (simp_all add: int_range_def)

end
