(* ===== verification/Spec2Isabelle.thy ===== *)
theory Spec2Isabelle
  imports Prelude Bitops Core_State Active_Queue Class_Queues Global_List Set_Scheduler Class_Ops
    Reservation Task_API Event Component Device Global_Sched Partition Hybrid_FP Window_Split Lib_Resch
    Gdev_Time Gdev_List Gpu_State Gpu_Policy Gpu_Sched Gpu_Typing Gpu_Context Gpu_Session Nvrm_Session
    Queue_Locks Load_Balance Cost_Test Gpu_Irq Gpu_Proc Resch_Module Task_Set Bench
begin

text \<open>
  RESCH, the loadable real-time scheduling core of Linux-RTX (\<open>src/core\<close>,
  \<open>src/include\<close>), its GPU scheduler, the scheduler plugins that run on it (\<open>src/plugin\<close>) and
  the user library (\<open>src/lib\<close>) and the benchmarks that run on it (\<open>src/bench\<close>).

  \<^bold>\<open>The program.\<close> A user task opens the character device \<open>/dev/resch\<close> and writes call
  descriptors to it (\<open>main.c\<close>). The core (\<open>sched.c\<close>) gives the task a descriptor of a static
  array, puts it on a global list sorted by priority, and runs its periodic jobs: each
  release waits for the period, each start enqueues the descriptor in the priority array of
  its CPU, each completion takes it out. What a policy does is a table of functions per
  scheduling class, included into \<open>sched.c\<close>: fair, fixed priority, EDF by suspending tasks,
  or EDF over the kernel's \<open>SCHED_DEADLINE\<close>. Reserves (\<open>reservation.c\<close>) limit the CPU time of
  a task, \<open>event.c\<close> suspends it, \<open>component.c\<close> groups tasks. A plugin may hook the submission,
  start, completion and exit of jobs: the global schedulers choose CPUs at run time, the
  partitioning schedulers once, by an admission test, the hybrid schedulers partition and
  split a task no CPU accepts over several.

  The GPU scheduler (\<open>gpu.c\<close>, \<open>gpu_sched.c\<close>, \<open>gpu_init.c\<close>) serialises launches: a task creates a
  context, which is a scheduling entity on a virtual device of a physical GPU; a launch waits
  until the policy of the virtual devices (\<open>gpu_vsched_*.c\<close>) and the device let it run; at the
  completion a thread charges the device and selects the next one. While the module is loaded its
  handler takes the interrupts of the GPU in front of the driver's, and files under \<open>/proc/resch\<close> show and
  set the shares of the virtual devices. \<open>libresch.c\<close> and \<open>libresch_gpu.c\<close> wrap both interfaces for
  user programs; the benchmarks generate task sets, run them as periodic tasks and count those that
  meet their deadlines.

  \<^bold>\<open>Theories and code.\<close>
  \<^item> \<open>Prelude\<close>: undefined behaviour as \<open>None\<close>, loops with an early return, the ordered
    insertion into a list shared by all queues (locale \<open>ordered_insert\<close>). \<open>Bubble\<close>: the bubble sort that
    EDF-WM and the benchmarks share, equal to the stable sort by a key. \<open>C_Text\<close>: \<open>%d\<close>, \<open>atoi\<close>, \<open>fgets\<close>,
    \<open>strtok\<close>, and that a printed number reads back.
  \<^item> \<open>Bitops\<close>: \<open>bitops.h\<close>, the eight bitmap searches.
  \<^item> \<open>Core_State\<close>: \<open>resch-core.h\<close>, \<open>resch-config.h\<close>, \<open>sched.h\<close>: the task control block
    \<open>resch_task_t\<close>, the part of the Linux task the core uses, the per-CPU \<open>local_object\<close>, and
    \<open>core\<close>, the record of all global variables. \<open>kenv\<close> is what the kernel provides.
  \<^item> \<open>Active_Queue\<close>: the priority array of a CPU and its searches in \<open>sched.c\<close>. Its abstraction
    is \<open>active_order\<close>, the list of the CPU's active tasks by priority, first come first served.
  \<^item> \<open>Class_Queues\<close>, \<open>Class_Ops\<close>: the four scheduling classes (\<open>sched_fair.c\<close>, \<open>sched_fp.c\<close>,
    \<open>sched_edf.c\<close>, \<open>sched_deadline.c\<close>): queue operations, then jobs, accounts, migration. The
    locale \<open>sched_queue\<close> is the contract of a class that uses the active queues; it is
    interpreted for the FP, EDF and \<open>SCHED_DEADLINE\<close> classes.
  \<^item> \<open>Global_List\<close>, \<open>Set_Scheduler\<close>: the global list and overheads; changing the policy and
    the priority, with the setscheduler threads. \<open>core_wf\<close> is the invariant of the core.
  \<^item> \<open>Reservation\<close>, \<open>Task_API\<close>, \<open>Event\<close>, \<open>Component\<close>, \<open>Device\<close>: \<open>reservation.c\<close>, the API and the
    plugin table of \<open>sched.c\<close>, \<open>event.c\<close>, \<open>component.c\<close>, and the dispatch of \<open>main.c\<close>.
  \<^item> \<open>Global_Sched\<close>: the plugins of \<open>plugin/global\<close>, over one definition of their common text.
  \<^item> \<open>Partition\<close>: the plugins of \<open>plugin/partition\<close>.
  \<^item> \<open>Hybrid_FP\<close>, \<open>Hybrid_EDF\<close>, \<open>Window_Split\<close>: the plugins of \<open>plugin/hybrid\<close>: FP-PM; EDF-WM with
    its demand bound test and sort; what EDF-WM hands out and how a split task migrates.
  \<^item> \<open>Lib_Resch\<close>: \<open>libresch.c\<close>, each call on top of \<open>resch_write\<close>.
  \<^item> \<open>Queue_Locks\<close>: the lock functions of \<open>sched.c\<close>. The sections of the core under these locks are lists of
    lock operations, a state is the owner of every lock and what each thread has left to do, and
    \<open>lock_steps\<close> are all interleavings.
  \<^item> \<open>Load_Balance\<close>: the functions of \<open>sched.c\<close> that \<open>--disable-load-balance\<close> and \<open>--use-hrtimer\<close> of
    \<open>configure\<close> compile in. \<open>Cost_Test\<close>: \<open>test.c\<close> with its \<open>ioctl\<close> commands and library calls.
  \<^item> \<open>Task_Set\<close>, \<open>Bench\<close>: \<open>src/bench\<close>: generating, writing and reading task sets, deadline monotonic
    priorities; a task as a client of the library, calibration, options, the sweep over workloads.
  \<^item> \<open>Gdev_Time\<close>, \<open>Gdev_List\<close>: the signed times of \<open>resch-gpu-core.h\<close> over a store of
    objects, and the intrusive lists of \<open>gdev_list.h\<close> over a heap of nodes (locale
    \<open>intrusive_list\<close>).
  \<^item> \<open>Gpu_State\<close>, \<open>Gpu_Policy\<close>, \<open>Gpu_Sched\<close>: devices, entities, queues and sleeping; the three
    policies of virtual devices; the passes of the scheduler, completion and credit.
  \<^item> \<open>Gpu_Typing\<close>: the well-typed states of the GPU scheduler and what its operations keep; the
    contract of a policy is the locale \<open>vsched_policy\<close>, interpreted for all three; for the bandwidth policy with
    any behaviour of the others during its pause that satisfies \<open>rely\<close>, which launches of other contexts do.
  \<^item> \<open>Gpu_Context\<close>, \<open>Gpu_Session\<close>: contexts and initialisation; the GPU commands of \<open>ioctl\<close>
    and the handles of \<open>libresch_gpu.c\<close>.
  \<^item> \<open>Gpu_Irq\<close>: the interrupt handler of \<open>gpu_init.c\<close> over the log of register accesses, and how it is put
    on the interrupt lines and taken off. \<open>Gpu_Proc\<close>: \<open>gpu_proc.h\<close> over a tree of paths.
  \<^item> \<open>Resch_Module\<close>: \<open>resch_init\<close> and \<open>resch_exit\<close> of \<open>main.c\<close>, the composition of the core, the GPU
    scheduler, the interrupts and the files.
  \<^item> \<open>Nvrm_Fifo\<close>: \<open>nvrm_fifo.h\<close>, the command queue of a GPU channel; its abstraction is the list of
    words that are \<open>pending\<close> and those \<open>handed\<close> over.
  \<^item> \<open>Nvrm_Driver\<close>, \<open>Nvrm_Objects\<close>, \<open>Nvrm_Session\<close>: \<open>nvrm_ioctl.c\<close>, \<open>nvrm_submthd.c\<close> and
    \<open>nvrm_irqctx.c\<close>: the calls to the NVIDIA driver with the handles, the objects, and the
    sessions. The answers of the driver are a parameter. \<open>own\<close> is what a history of calls left
    allocated: a release that the driver refused left its resource. The code does not look at these
    answers; \<open>kept\<close> are its own books, in which every release counts, and which agree with \<open>own\<close> when the
    driver refused none (\<open>all_accepted\<close>). The contract of an object is the locale \<open>owned_object\<close>, interpreted for address
    spaces and buffers.

  \<^bold>\<open>Conventions.\<close> An \<open>unsigned long\<close> is a 64-bit word, an \<open>int\<close> that cannot overflow an
  integer; where an \<open>int\<close> may overflow or is truncated the conversion is written out. A
  descriptor is its index, NULL a \<open>None\<close> inside the result. The outer \<open>option\<close> is \<open>None\<close> for
  undefined behaviour and for a loop that does not end: index out of an array, shift by the
  word width, division by zero, linking an entry that is linked, waiting for a spinlock that
  is never released. Every operation is one atomic step unless its theory says otherwise: the
  locks of the CPU core are state of \<open>Queue_Locks\<close> only, and the GPU scheduler is cut where it
  releases its locks. What the kernel answers (\<open>procfs\<close>, \<open>irq_kernel\<close>, \<open>mod_env\<close>, the registers and the
  handler of the GPU driver) is a parameter; what the theorems assume of it is named by a definition
  (\<open>procfs_ok\<close>, where an entry may be refused and a removal takes one entry only; \<open>irq_laws\<close>, where a request
  may be refused; \<open>procfs_works\<close> and \<open>irq_works\<close> when nothing is refused) and shown to hold of a concrete one. What other tasks do while a caller sleeps is an arbitrary function, a
  parameter; the theorems that need it assume that it keeps the core well formed and leaves
  the caller's descriptor alone (\<open>leaves_alone\<close>). \<open>usecs_to_jiffies\<close> takes the argument as the
  caller passes it; its conversion to \<open>unsigned int\<close> belongs to the function.

  \<^bold>\<open>What the lemmas show.\<close> The searches return the entry of the abstract order they name, with
  the inputs on which they are undefined. Changing priorities, migrating, starting and
  completing jobs keep \<open>core_wf\<close>: queues, bitmap, list entries and descriptors agree. The EDF
  class keeps its queues sorted by deadline and leaves exactly the first task of a CPU
  runnable. A periodic task is released exactly one period after its last release. The global
  EDF plugin runs as many jobs as there are CPUs and none that waits is earlier than one that
  runs. The admission tests decide the demand bound and the response time they are named
  after. A task split by FP-PM gets its execution time, as a natural number when
  no share exceeds it; the windows of EDF-WM cover it when the offer of the last CPU is large enough, and its timer and threads take the task from CPU to CPU. The GPU scheduler is type safe,
  launches one context per GPU as long as its passes do not interleave, and under FIFO serves
  every device; a session of the library leaves it as it was. The insertion into its queues on
  pointers refines the insertion into lists. The bindings give back all they took when making
  an object fails and when it is destroyed, up to what the driver refuses to take back and the leaks that
  are listed as findings, and
  the command queue hands the GPU the words in order, once. Sections under the locks of the core exclude each
  other, and never get stuck while migrations go to CPUs of higher numbers; opposite migrations can
  deadlock. Unloading the module restores what loading changed and ends
  its threads, when the kernel refused nothing; interrupts reach the driver, and a
  share that is written is the share that is shown. Task sets survive being written and read, and
  their priorities are deadline monotonic. Other theorems state where the code leaves its
  contract; each is a finding of the manifest.

  \<^bold>\<open>Loops.\<close> Loops over a list are recursions over it. Loops that need not end are partial
  functions into \<open>option\<close>: \<open>active_number_task\<close> and the demand bound test, which are shown to
  end (the test when its length and the periods add up without wrapping), the release of an
  EDF job over \<open>SCHED_DEADLINE\<close>, which is shown not to end without a runtime, the scans of
  EDF-WM, whose test is shown equal to that of EDF-FF, the retries of the GPU scheduler, and
  the waits for the GPU in the command queue and for a fence, which are shown to end when the
  GPU moves and not to end when it does not, the doubling of harmonic periods, which is shown to end
  when the longest period fits twice into an \<open>int\<close>, and the calibration of the benchmarks, which is
  shown to cycle on some machines. The sweep of the benchmarks ends by the room left in its array, the
  scan of a task set file by the length of the file.
  No fuel is used.

  \<^bold>\<open>Not modelled.\<close> The interleaving of operations of different CPUs of the CPU core beyond the locks of
  \<open>Queue_Locks\<close>. The configuration \<open>RESCH_PREEMPT_TRACE\<close>, which no build defines and whose
  \<open>preempt_trace.c\<close> does not compile, because \<open>sched.h\<close> is included without \<open>resch-core.h\<close>. A build with
  \<open>NO_LINUX_LOAD_BALANCE\<close> beyond the functions of \<open>Load_Balance\<close>: it calls account functions that are
  compiled out and does not link. \<open>ALLOC_VGPU_PER_ONETASK\<close>, \<open>GDEV_SCHED_MRQ\<close>, \<open>EDF_WM_FAIR_SPLIT\<close> and
  \<open>EDF_WM_ALWAYS_SPLIT\<close>, which no build defines; \<open>sched_edf2.c\<close>, which nothing includes; functions
  nothing calls (\<open>cpu_wq_sleep\<close>, \<open>cpu_low_util\<close>, \<open>dl_runtime_*\<close>) and the part of \<open>gsched_intr\<close> after
  its \<open>goto through\<close>; the tables of class, method and register numbers of \<open>nvrm_priv.h\<close> and
  \<open>nvc0_reg.h\<close>; the copies of kernel structures in \<open>sched_deadline.h\<close>; the macros of \<open>rtx.h\<close>; the
  bindings to the driver inside \<open>Gpu_Session\<close>, where they are parameters; the floating point of the
  benchmarks (random utilisations, execution times, success ratios), which is a parameter or kept as
  an integer, and the parts of \<open>resbench\<close> that repeat \<open>schedbench\<close>; samples and tests.
\<close>

end
